(* ===== verification/Prelude.thy ===== *)
theory Prelude
  imports Main "HOL-Library.Word"
begin

text \<open>
  Shared vocabulary of the development.

  \<^item> \<open>failure\<close>: what an operation of the C++ code does instead of returning.  A
    \<^verbatim>\<open>vprASSERT\<close> that does not hold ends a debug build (\<open>AssertionFailed\<close>); the
    \<^verbatim>\<open>vpr\<close> exceptions are values of their own; a step whose effect the C++ standard
    leaves undefined (reading past a vector, the front of an empty queue) is
    \<open>Undefined\<close>, so that no theorem can rest on what it would do.
  \<^item> \<open>'a result\<close> is \<open>failure + 'a\<close>; \<open>rbind\<close> runs the next statement on the value of
    the one before and stops at the first failure; \<open>require\<close> is a \<^verbatim>\<open>vprASSERT\<close>.
  \<^item> machine integers: \<open>u8\<close>, \<open>u16\<close>, \<open>u32\<close>, \<open>u64\<close> are \<^verbatim>\<open>vpr::Uint8\<close> to
    \<^verbatim>\<open>vpr::Uint64\<close>, with C++'s wrap-around.
  \<^item> \<open>std::map\<close> and \<open>std::multimap\<close>: association lists kept in key order, the order in
    which the code iterates over them.
  \<^item> transition systems: the one locale every state machine of the development
    interprets.
\<close>

section \<open>Results\<close>

datatype failure =
    AssertionFailed string
  | EOFError string
  | LockError string
  | VprException string
  | ConfigException string
  | IOError string
  | ClusterError string
  | Undefined string

type_synonym 'a result = "failure + 'a"

type_synonym u8 = "8 word"
type_synonym u16 = "16 word"
type_synonym u32 = "32 word"
type_synonym u64 = "64 word"

named_theorems result_simps "rewriting of results"
named_theorems wf_intros "well-formedness of states is preserved"

lemma unat_u32_bound: "unat (w :: u32) < 2 ^ 32"
  by (rule order.strict_trans2 [OF unsigned_less]) simp

lemma unat_u64_bound: "unat (w :: u64) < 2 ^ 64"
  by (rule order.strict_trans2 [OF unsigned_less]) simp

lemma unat_of_nat_u32: "n < 2 ^ 32 \<Longrightarrow> unat (of_nat n :: u32) = n"
  by (simp add: unat_of_nat)

definition rbind :: "'a result \<Rightarrow> ('a \<Rightarrow> 'b result) \<Rightarrow> 'b result" where
  "rbind m f = (case m of Inl e \<Rightarrow> Inl e | Inr x \<Rightarrow> f x)"

definition require :: "bool \<Rightarrow> failure \<Rightarrow> unit result" where
  "require b e = (if b then Inr () else Inl e)"

lemma rbind_simps [simp, result_simps]:
  "rbind (Inl e) f = Inl e"
  "rbind (Inr x) f = f x"
  by (simp_all add: rbind_def)

lemma rbind_Inr_iff [result_simps]:
  "rbind m f = Inr y \<longleftrightarrow> (\<exists>x. m = Inr x \<and> f x = Inr y)"
  by (cases m) simp_all

lemma rbind_Inl_iff:
  "rbind m f = Inl e \<longleftrightarrow> m = Inl e \<or> (\<exists>x. m = Inr x \<and> f x = Inl e)"
  by (cases m) auto

lemma rbind_assoc: "rbind (rbind m f) g = rbind m (\<lambda>x. rbind (f x) g)"
  by (cases m) simp_all

lemma rbind_cong [fundef_cong]:
  "m = m' \<Longrightarrow> (\<And>x. m' = Inr x \<Longrightarrow> f x = f' x) \<Longrightarrow> rbind m f = rbind m' f'"
  by (cases m') simp_all

lemma require_simps [simp, result_simps]:
  "require True e = Inr ()"
  "require b e = Inr u \<longleftrightarrow> b"
  by (simp_all add: require_def)

lemma require_False [simp]: "require False e = Inl e"
  by (simp add: require_def)

lemma require_holds: "b \<Longrightarrow> rbind (require b e) f = f ()"
  by (simp add: require_def)

lemma rbind_require_Inr_iff [result_simps]:
  "rbind (require b e) f = Inr y \<longleftrightarrow> b \<and> f () = Inr y"
  by (simp add: require_def)

fun rfold :: "('a \<Rightarrow> 's \<Rightarrow> 's result) \<Rightarrow> 'a list \<Rightarrow> 's \<Rightarrow> 's result" where
  "rfold f [] s = Inr s"
| "rfold f (x # xs) s = rbind (f x s) (rfold f xs)"

lemma rfold_append: "rfold f (xs @ ys) s = rbind (rfold f xs s) (rfold f ys)"
proof (induction xs arbitrary: s)
  case (Cons x xs)
  show ?case by (cases "f x s") (simp_all add: Cons.IH)
qed simp

lemma rfold_invariant:
  assumes "rfold f xs s = Inr t" and "P s"
    and "\<And>x s t. x \<in> set xs \<Longrightarrow> P s \<Longrightarrow> f x s = Inr t \<Longrightarrow> P t"
  shows "P t"
  using assms
proof (induction xs arbitrary: s)
  case Nil
  then show ?case by simp
next
  case (Cons x xs)
  from Cons.prems(1) obtain u where u: "f x s = Inr u" "rfold f xs u = Inr t"
    by (auto simp: rbind_Inr_iff)
  have "P u" using Cons.prems(2,3) u(1) by (metis list.set_intros(1))
  with u(2) show ?case
    by (rule Cons.IH) (use Cons.prems(3) in auto)
qed

section \<open>Ordered maps\<close>

text \<open>
  \<^verbatim>\<open>std::map\<close>: the entries in ascending key order.  \<open>omap_put\<close> is
  \<^verbatim>\<open>m[k] = v\<close>, \<open>omap_erase\<close> erases a key, \<open>map_of\<close> is \<^verbatim>\<open>find\<close>.
\<close>

type_synonym ('k, 'v) omap = "('k \<times> 'v) list"

definition omap_wf :: "('k::linorder, 'v) omap \<Rightarrow> bool" where
  "omap_wf m \<longleftrightarrow> sorted_wrt (<) (map fst m)"

fun omap_put :: "'k::linorder \<Rightarrow> 'v \<Rightarrow> ('k, 'v) omap \<Rightarrow> ('k, 'v) omap" where
  "omap_put k v [] = [(k, v)]"
| "omap_put k v ((k', v') # m) =
     (if k < k' then (k, v) # (k', v') # m
      else if k = k' then (k, v) # m
      else (k', v') # omap_put k v m)"

fun omap_erase :: "'k::linorder \<Rightarrow> ('k, 'v) omap \<Rightarrow> ('k, 'v) omap" where
  "omap_erase k [] = []"
| "omap_erase k ((k', v') # m) = (if k = k' then m else (k', v') # omap_erase k m)"

lemma omap_wf_Nil [simp]: "omap_wf []"
  by (simp add: omap_wf_def)

lemma omap_wf_Cons: "omap_wf (e # m) \<longleftrightarrow> (\<forall>x \<in> set m. fst e < fst x) \<and> omap_wf m"
  by (simp add: omap_wf_def)

lemma omap_put_keys: "fst ` set (omap_put k v m) = insert k (fst ` set m)"
  by (induction k v m rule: omap_put.induct) (auto simp: image_iff)

lemma omap_put_elem: "x \<in> set (omap_put k v m) \<Longrightarrow> x = (k, v) \<or> x \<in> set m"
  by (induction k v m rule: omap_put.induct) (auto split: if_splits)

lemma omap_put_wf [wf_intros]: "omap_wf m \<Longrightarrow> omap_wf (omap_put k v m)"
  by (induction k v m rule: omap_put.induct) (force simp: omap_wf_Cons dest: omap_put_elem)+

lemma omap_put_lookup: "map_of (omap_put k v m) = (map_of m)(k \<mapsto> v)"
  by (induction k v m rule: omap_put.induct) (auto simp: fun_eq_iff)

lemma omap_erase_elem: "x \<in> set (omap_erase k m) \<Longrightarrow> x \<in> set m"
  by (induction k m rule: omap_erase.induct) (auto split: if_splits)

lemma omap_erase_wf [wf_intros]: "omap_wf m \<Longrightarrow> omap_wf (omap_erase k m)"
  by (induction k m rule: omap_erase.induct) (auto simp: omap_wf_Cons dest: omap_erase_elem)

lemma omap_above_None: "\<forall>x \<in> set m. (k::'k::linorder) < fst x \<Longrightarrow> map_of m k = None"
  by (induction m) auto

lemma omap_erase_lookup: "omap_wf m \<Longrightarrow> map_of (omap_erase k m) = (map_of m)(k := None)"
proof (induction k m rule: omap_erase.induct)
  case (1 k)
  then show ?case by simp
next
  case (2 k k' v' m)
  then have rest: "\<forall>x \<in> set m. k' < fst x" "omap_wf m"
    by (auto simp: omap_wf_Cons)
  show ?case
  proof (cases "k = k'")
    case True
    have "map_of m k' = None" using rest(1) by (rule omap_above_None)
    with True show ?thesis by (auto simp: fun_eq_iff)
  next
    case False
    with 2 rest show ?thesis by (auto simp: fun_eq_iff)
  qed
qed

text \<open>
  \<^verbatim>\<open>std::multimap\<close>: entries in ascending key order, a new entry after those with an
  equal key.
\<close>

fun mmap_insert :: "'k::linorder \<Rightarrow> 'v \<Rightarrow> ('k \<times> 'v) list \<Rightarrow> ('k \<times> 'v) list" where
  "mmap_insert k v [] = [(k, v)]"
| "mmap_insert k v ((k', v') # m) =
     (if k < k' then (k, v) # (k', v') # m else (k', v') # mmap_insert k v m)"

definition mmap_wf :: "('k::linorder \<times> 'v) list \<Rightarrow> bool" where
  "mmap_wf m \<longleftrightarrow> sorted (map fst m)"

lemma mmap_insert_set: "set (mmap_insert k v m) = insert (k, v) (set m)"
  by (induction k v m rule: mmap_insert.induct) auto

lemma mmap_insert_length: "length (mmap_insert k v m) = Suc (length m)"
  by (induction k v m rule: mmap_insert.induct) auto

lemma mmap_insert_wf [wf_intros]: "mmap_wf m \<Longrightarrow> mmap_wf (mmap_insert k v m)"
  unfolding mmap_wf_def
  by (induction k v m rule: mmap_insert.induct) (auto simp: mmap_insert_set)

lemma mmap_wf_tl [wf_intros]: "mmap_wf (e # m) \<Longrightarrow> mmap_wf m"
  by (simp add: mmap_wf_def)

lemma mmap_wf_filter [wf_intros]: "mmap_wf m \<Longrightarrow> mmap_wf (filter P m)"
  by (auto simp: mmap_wf_def sorted_filter)

section \<open>Transition systems\<close>

text \<open>
  A component that several callers drive is its initial states, its step relation and
  an invariant each step keeps.  Every state machine of the development interprets this
  locale on its own step relation; what the locale gives is that the invariant holds in
  every reachable state and along every run.
\<close>

inductive reach :: "('s \<Rightarrow> bool) \<Rightarrow> ('s \<Rightarrow> 's \<Rightarrow> bool) \<Rightarrow> 's \<Rightarrow> bool"
  for init :: "'s \<Rightarrow> bool" and step :: "'s \<Rightarrow> 's \<Rightarrow> bool" where
  reach_init: "init s \<Longrightarrow> reach init step s"
| reach_step: "reach init step s \<Longrightarrow> step s t \<Longrightarrow> reach init step t"

locale transition_system =
  fixes init :: "'s \<Rightarrow> bool" and step :: "'s \<Rightarrow> 's \<Rightarrow> bool" and inv :: "'s \<Rightarrow> bool"
  assumes init_inv: "init s \<Longrightarrow> inv s"
    and step_inv: "inv s \<Longrightarrow> step s t \<Longrightarrow> inv t"
begin

lemma reach_inv: "reach init step s \<Longrightarrow> inv s"
  by (induction rule: reach.induct) (auto intro: init_inv step_inv)

lemma run_inv: "inv s \<Longrightarrow> step\<^sup>*\<^sup>* s t \<Longrightarrow> inv t"
  by (rotate_tac 1, induction rule: rtranclp_induct) (auto intro: step_inv)

lemma reach_run: "reach init step s \<Longrightarrow> step\<^sup>*\<^sup>* s t \<Longrightarrow> reach init step t"
  by (rotate_tac 1, induction rule: rtranclp_induct) (auto intro: reach.reach_step)

end

end
