(* ===== verification/VprInterval.thy ===== *)
theory VprInterval
  imports Prelude
begin

text \<open>
  \<^verbatim>\<open>vpr::Interval\<close> (\<^verbatim>\<open>modules/vapor/vpr/Util/Interval.h\<close>, \<^verbatim>\<open>Interval.cpp\<close>): a count of
  microseconds in one \<^verbatim>\<open>vpr::Uint64\<close>.  The integer operations are modelled; the
  \<^verbatim>\<open>float\<close> and \<^verbatim>\<open>double\<close> accessors are not.  Arithmetic wraps as the C++ type does,
  and the comparison operators are those of the class, so that an interval is an
  instance of \<open>linorder\<close>, \<open>plus\<close> and \<open>minus\<close>.
\<close>

datatype interval = Interval (mMicroSeconds: u64)

datatype time_unit = Sec | Msec | Usec | Base

primrec interval_set :: "u64 \<Rightarrow> time_unit \<Rightarrow> interval" where
  "interval_set num Sec = Interval (1000000 * num)"
| "interval_set num Msec = Interval (1000 * num)"
| "interval_set num Usec = Interval num"
| "interval_set num Base = Interval num"

definition NoWait :: interval where
  "NoWait = interval_set 0 Base"

definition NoTimeout :: interval where
  "NoTimeout = interval_set 0xffffffff Base"

definition HalfPeriod :: interval where
  "HalfPeriod = interval_set (0xffffffff div 2) Base"

definition interval_sec :: "interval \<Rightarrow> u64" where
  "interval_sec i = mMicroSeconds i div 1000000"

definition interval_msec :: "interval \<Rightarrow> u64" where
  "interval_msec i = mMicroSeconds i div 1000"

definition interval_usec :: "interval \<Rightarrow> u64" where
  "interval_usec i = mMicroSeconds i"

definition getBaseVal :: "interval \<Rightarrow> u64" where
  "getBaseVal i = mMicroSeconds i"

text \<open>The comparison operators and the compound assignments of the class.\<close>

definition interval_less :: "interval \<Rightarrow> interval \<Rightarrow> bool" where
  "interval_less l r \<longleftrightarrow> mMicroSeconds l < mMicroSeconds r"

definition interval_less_eq :: "interval \<Rightarrow> interval \<Rightarrow> bool" where
  "interval_less_eq l r \<longleftrightarrow> mMicroSeconds l \<le> mMicroSeconds r"

definition interval_greater :: "interval \<Rightarrow> interval \<Rightarrow> bool" where
  "interval_greater l r \<longleftrightarrow> mMicroSeconds l > mMicroSeconds r"

definition interval_eq :: "interval \<Rightarrow> interval \<Rightarrow> bool" where
  "interval_eq l r \<longleftrightarrow> mMicroSeconds l = mMicroSeconds r"

definition interval_plus :: "interval \<Rightarrow> interval \<Rightarrow> interval" where
  "interval_plus l r = Interval (mMicroSeconds l + mMicroSeconds r)"

definition interval_minus :: "interval \<Rightarrow> interval \<Rightarrow> interval" where
  "interval_minus l r = Interval (mMicroSeconds l - mMicroSeconds r)"

instantiation interval :: "{linorder, plus, minus}"
begin

definition less_interval :: "interval \<Rightarrow> interval \<Rightarrow> bool" where
  "less_interval = interval_less"

definition less_eq_interval :: "interval \<Rightarrow> interval \<Rightarrow> bool" where
  "less_eq_interval = interval_less_eq"

definition plus_interval :: "interval \<Rightarrow> interval \<Rightarrow> interval" where
  "plus_interval = interval_plus"

definition minus_interval :: "interval \<Rightarrow> interval \<Rightarrow> interval" where
  "minus_interval = interval_minus"

instance
  by standard
     (auto simp: less_interval_def less_eq_interval_def interval_less_def interval_less_eq_def
           intro: interval.expand)

end

lemmas interval_order_simps [simp] =
  less_interval_def less_eq_interval_def interval_less_def interval_less_eq_def

lemmas interval_arith_simps [simp] =
  plus_interval_def minus_interval_def interval_plus_def interval_minus_def

text \<open>The microseconds of an interval as a number; the order and the sum read off it.\<close>

abbreviation us :: "interval \<Rightarrow> nat" where
  "us i \<equiv> unat (mMicroSeconds i)"

lemma interval_less_us: "i < j \<longleftrightarrow> us i < us j"
  by (simp add: word_less_nat_alt)

lemma interval_le_us: "i \<le> j \<longleftrightarrow> us i \<le> us j"
  by (simp add: word_le_nat_alt)

lemma interval_eq_us: "i = j \<longleftrightarrow> us i = us j"
  by (cases i; cases j) (simp add: word_unat_eq_iff)

lemma us_plus: "us i + us j < 2 ^ 64 \<Longrightarrow> us (i + j) = us i + us j"
  by (simp add: unat_word_ariths)

lemmas interval_us = interval_less_us interval_le_us interval_eq_us

text \<open>
  \<^verbatim>\<open>setNowReal\<close> on a POSIX host: the seconds and microseconds of \<^verbatim>\<open>gettimeofday\<close> (the
  operating system's, so an argument here) as one count.
\<close>

record timeval =
  tv_sec :: u64
  tv_usec :: u64

definition setNowReal :: "timeval \<Rightarrow> interval" where
  "setNowReal cur_time =
     (let storage = 1000000 * tv_sec cur_time in Interval (tv_usec cur_time + storage))"

section \<open>The simulator's clock\<close>

text \<open>\<^verbatim>\<open>vpr::sim::Clock\<close> (\<^verbatim>\<open>md/SIM/Clock.h\<close>): it never moves back.\<close>

record clock =
  mCurrentTime :: interval

definition clock_init :: clock where
  "clock_init = \<lparr>mCurrentTime = interval_set 0 Base\<rparr>"

definition setCurrentTime :: "interval \<Rightarrow> clock \<Rightarrow> clock" where
  "setCurrentTime time c =
     (if interval_greater time (mCurrentTime c) then c\<lparr>mCurrentTime := time\<rparr> else c)"

lemma setCurrentTime_time:
  "mCurrentTime (setCurrentTime t c) = max t (mCurrentTime c)"
  by (cases c) (auto simp: setCurrentTime_def interval_greater_def max_def intro: interval.expand)

lemma setCurrentTime_mono: "mCurrentTime c \<le> mCurrentTime (setCurrentTime t c)"
  by (simp add: setCurrentTime_time del: interval_order_simps)

lemma setCurrentTime_reached: "t \<le> mCurrentTime (setCurrentTime t c)"
  by (simp add: setCurrentTime_time del: interval_order_simps)

section \<open>Unit conversion\<close>

lemma unat_mult_const:
  fixes n :: u64
  assumes "unat n * k < 2 ^ 64" and "k < 2 ^ 64"
  shows "unat (of_nat k * n) = k * unat n"
  using assms by (simp add: unat_word_ariths unat_of_nat mult.commute)

definition unit_scale :: "time_unit \<Rightarrow> nat" where
  "unit_scale u = (case u of Sec \<Rightarrow> 1000000 | Msec \<Rightarrow> 1000 | Usec \<Rightarrow> 1 | Base \<Rightarrow> 1)"

lemma interval_set_scale: "interval_set n u = Interval (of_nat (unit_scale u) * n)"
  by (cases u) (simp_all add: unit_scale_def)

lemma unit_scale_bounds: "0 < unit_scale u" "unit_scale u < 2 ^ 64"
  by (cases u; simp add: unit_scale_def)+

lemma interval_set_value:
  assumes "unat n * unit_scale u < 2 ^ 64"
  shows "unat (mMicroSeconds (interval_set n u)) = unit_scale u * unat n"
  using unat_mult_const [OF assms unit_scale_bounds(2)] by (simp add: interval_set_scale)

lemma unat_interval_sec: "unat (interval_sec i) = unat (mMicroSeconds i) div 1000000"
  by (simp add: interval_sec_def unat_div)

lemma unat_interval_msec: "unat (interval_msec i) = unat (mMicroSeconds i) div 1000"
  by (simp add: interval_msec_def unat_div)

definition interval_get :: "time_unit \<Rightarrow> interval \<Rightarrow> u64" where
  "interval_get u i = (case u of Sec \<Rightarrow> interval_sec i | Msec \<Rightarrow> interval_msec i
     | Usec \<Rightarrow> interval_usec i | Base \<Rightarrow> getBaseVal i)"

lemma unat_interval_get: "unat (interval_get u i) = unat (mMicroSeconds i) div unit_scale u"
  by (cases u)
     (simp_all add: interval_get_def unit_scale_def unat_interval_sec unat_interval_msec
        interval_usec_def getBaseVal_def)

text \<open>
  An interval set from a count of seconds, milliseconds or microseconds reads back as
  the same count in that unit, as long as the count fits 64 bits in microseconds; reading
  it in any unit rounds the microseconds down.
\<close>

theorem interval_unit_roundtrip:
  assumes "unat n * unit_scale u < 2 ^ 64"
  shows "interval_get u (interval_set n u) = n
    \<and> unat (interval_get v (interval_set n u)) = (unit_scale u * unat n) div unit_scale v"
  using unit_scale_bounds(1) [of u]
  by (simp add: word_unat_eq_iff unat_interval_get interval_set_value [OF assms])

theorem interval_unit_roundtrip_witness:
  "interval_get Sec (interval_set 90 Sec) = 90
   \<and> unat (interval_get Msec (interval_set 90 Sec)) = 90000"
  using interval_unit_roundtrip [of 90 Sec Msec] by (simp add: unit_scale_def)

text \<open>
  Elapsed time survives the roll-over of the 64-bit count: the difference between a
  later reading and the start is the amount added, whatever the start, and the sum read
  as a number wraps at \<open>2 ^ 64\<close>.
\<close>

theorem interval_elapsed:
  "(start + d) - start = (d :: interval)
   \<and> (start + d) - d = start
   \<and> unat (mMicroSeconds (start + d)) =
       (unat (mMicroSeconds start) + unat (mMicroSeconds d)) mod 2 ^ 64"
  by (simp add: interval.expand unat_word_ariths)

end
