(* ===== verification/ByteOrder.thy ===== *)
theory ByteOrder
  imports Prelude
begin

unbundle bit_operations_syntax

text \<open>
  Byte order (\<^verbatim>\<open>SystemBase.h\<close>, \<^verbatim>\<open>md/POSIX/SystemPosix.h\<close>, \<^verbatim>\<open>SystemPosix.cpp\<close>).

  The byte order of the host is the argument \<open>le\<close> (true on a little-endian host);
  \<open>host_bytes\<close> is the memory image of an integer on such a host and \<open>host_word\<close>
  reads one back, which is what the code's \<^verbatim>\<open>union\<close>s, casts to \<^verbatim>\<open>Uint8*\<close> and
  \<^verbatim>\<open>memcpy\<close> calls do.  \<^verbatim>\<open>htons\<close> and \<^verbatim>\<open>htonl\<close> are the C library's; the 64-bit
  conversions are the repository's own and go through a union of two halves.
\<close>

section \<open>Memory images of integers\<close>

definition le_bytes :: "nat \<Rightarrow> 'a::len word \<Rightarrow> u8 list" where
  "le_bytes n w = map (\<lambda>i. ucast (drop_bit (8 * i) w)) [0..<n]"

definition le_word :: "u8 list \<Rightarrow> 'a::len word" where
  "le_word bs = foldr (\<lambda>b acc. ucast b OR push_bit 8 acc) bs 0"

definition host_bytes :: "bool \<Rightarrow> nat \<Rightarrow> 'a::len word \<Rightarrow> u8 list" where
  "host_bytes le n w = (if le then le_bytes n w else rev (le_bytes n w))"

definition host_word :: "bool \<Rightarrow> u8 list \<Rightarrow> 'a::len word" where
  "host_word le bs = le_word (if le then bs else rev bs)"

text \<open>The bytes of an integer most significant first: the wire format.\<close>

definition net_bytes :: "nat \<Rightarrow> 'a::len word \<Rightarrow> u8 list" where
  "net_bytes n w = rev (le_bytes n w)"

lemma length_le_bytes [simp]: "length (le_bytes n w) = n"
  by (simp add: le_bytes_def)

lemma length_host_bytes [simp]: "length (host_bytes le n w) = n"
  by (simp add: host_bytes_def)

lemma length_net_bytes [simp]: "length (net_bytes n w) = n"
  by (simp add: net_bytes_def)

lemma bit_le_word:
  "bit (le_word bs :: 'a::len word) i \<longleftrightarrow>
     i < LENGTH('a) \<and> i div 8 < length bs \<and> bit (bs ! (i div 8)) (i mod 8)"
proof (induction bs arbitrary: i)
  case Nil
  then show ?case by (simp add: le_word_def)
next
  case (Cons b bs)
  have step: "le_word (b # bs) = (ucast b OR push_bit 8 (le_word bs) :: 'a word)"
    by (simp add: le_word_def)
  show ?case
  proof (cases "i < 8")
    case True
    then show ?thesis
      by (auto simp: step bit_or_iff bit_push_bit_iff bit_ucast_iff dest: bit_imp_le_length)
  next
    case False
    then have "i div 8 = Suc ((i - 8) div 8)" and "i mod 8 = (i - 8) mod 8"
      by (simp_all add: div_if mod_if)
    moreover have "\<not> bit b i" using False by (auto dest: bit_imp_le_length)
    ultimately show ?thesis using False
      by (auto simp: step bit_or_iff bit_push_bit_iff bit_ucast_iff Cons.IH)
  qed
qed

lemma nth_le_bytes: "k < n \<Longrightarrow> le_bytes n w ! k = ucast (drop_bit (8 * k) w)"
  by (simp add: le_bytes_def)

lemma bit_byte_at:
  fixes w :: "'a::len word"
  shows "bit (ucast (drop_bit (8 * k) w) :: u8) j \<longleftrightarrow> j < 8 \<and> bit w (8 * k + j)"
  by (auto simp: bit_ucast_iff bit_drop_bit_eq)

lemma le_word_le_bytes:
  fixes w :: "'a::len word"
  assumes "LENGTH('a) \<le> 8 * n"
  shows "le_word (le_bytes n w) = w"
proof (rule bit_word_eqI)
  fix i assume i: "i < LENGTH('a)"
  have "i div 8 < n" using assms i by (simp add: div_less_iff_less_mult mult.commute)
  then show "bit (le_word (le_bytes n w) :: 'a word) i = bit w i"
    using i by (simp add: bit_le_word nth_le_bytes bit_byte_at)
qed

lemma le_bytes_le_word:
  assumes "length bs = n" and "8 * n \<le> LENGTH('a)"
  shows "le_bytes n (le_word bs :: 'a::len word) = bs"
proof (rule nth_equalityI)
  show "length (le_bytes n (le_word bs :: 'a word)) = length bs" using assms by simp
next
  fix k assume "k < length (le_bytes n (le_word bs :: 'a word))"
  then have k: "k < n" by simp
  show "le_bytes n (le_word bs :: 'a word) ! k = bs ! k"
  proof (rule bit_word_eqI)
    fix j assume "j < LENGTH(8)"
    then have j: "j < 8" by simp
    have "(8 * k + j) div 8 = k" "(8 * k + j) mod 8 = j" using j by simp_all
    moreover have "8 * k + j < LENGTH('a)" using k j assms(2) by linarith
    ultimately show "bit (le_bytes n (le_word bs :: 'a word) ! k) j = bit (bs ! k) j"
      using k j assms(1) by (simp add: nth_le_bytes bit_byte_at bit_le_word)
  qed
qed

lemma host_word_host_bytes:
  fixes w :: "'a::len word"
  assumes "LENGTH('a) \<le> 8 * n"
  shows "host_word le (host_bytes le n w) = w"
  using le_word_le_bytes [OF assms] by (simp add: host_word_def host_bytes_def)

lemma host_bytes_host_word:
  assumes "length bs = n" and "8 * n \<le> LENGTH('a)"
  shows "host_bytes le n (host_word le bs :: 'a::len word) = bs"
  using le_bytes_le_word [where 'a = 'a, of bs n] le_bytes_le_word [where 'a = 'a, of "rev bs" n] assms
  by (simp add: host_word_def host_bytes_def)

section \<open>The conversions\<close>

text \<open>
  \<^verbatim>\<open>SystemBase::getEndian\<close> stores 256 in a \<^verbatim>\<open>short\<close> and returns its first byte;
  \<^verbatim>\<open>isLittleEndian\<close> and \<^verbatim>\<open>isBigEndian\<close> compare that with 0 and 1.
\<close>

definition getEndian :: "bool \<Rightarrow> u8" where
  "getEndian le = host_bytes le 2 (256 :: u16) ! 0"

definition isLittleEndian :: "bool \<Rightarrow> bool" where
  "isLittleEndian le \<longleftrightarrow> getEndian le = 0"

definition isBigEndian :: "bool \<Rightarrow> bool" where
  "isBigEndian le \<longleftrightarrow> getEndian le = 1"

lemma getEndian_value: "getEndian le = (if le then 0 else 1)"
proof -
  have "le_bytes 2 (256 :: u16) = [0, 1]"
    by (rule nth_equalityI) (auto simp: nth_le_bytes less_2_cases_iff drop_bit_eq_div)
  then show ?thesis by (simp add: getEndian_def host_bytes_def)
qed

lemma isLittleEndian_iff [simp]: "isLittleEndian le \<longleftrightarrow> le"
  by (simp add: isLittleEndian_def getEndian_value)

lemma isBigEndian_iff [simp]: "isBigEndian le \<longleftrightarrow> \<not> le"
  by (simp add: isBigEndian_def getEndian_value)

text \<open>
  \<^verbatim>\<open>htons\<close>, \<^verbatim>\<open>ntohs\<close>, \<^verbatim>\<open>htonl\<close>, \<^verbatim>\<open>ntohl\<close>: the integer whose memory image is the
  argument's bytes most significant first, and back.
\<close>

definition Htons :: "bool \<Rightarrow> u16 \<Rightarrow> u16" where
  "Htons le conversion = host_word le (net_bytes 2 conversion)"

definition Ntohs :: "bool \<Rightarrow> u32 \<Rightarrow> u16" where
  "Ntohs le conversion = host_word False (host_bytes le 2 (ucast conversion :: u16))"

definition Htonl :: "bool \<Rightarrow> u32 \<Rightarrow> u32" where
  "Htonl le conversion = host_word le (net_bytes 4 conversion)"

definition Ntohl :: "bool \<Rightarrow> u32 \<Rightarrow> u32" where
  "Ntohl le conversion = host_word False (host_bytes le 4 conversion)"

text \<open>
  \<^verbatim>\<open>union uint64_holder\<close>: the first four bytes of the 64-bit value are
  \<^verbatim>\<open>uint32_low_value\<close>, the last four \<^verbatim>\<open>uint32_high_value\<close>, whatever the byte order.
\<close>

record uint64_holder =
  uint32_low_value :: u32
  uint32_high_value :: u32

definition holder_of :: "bool \<Rightarrow> u64 \<Rightarrow> uint64_holder" where
  "holder_of le v =
     \<lparr>uint32_low_value = host_word le (take 4 (host_bytes le 8 v)),
      uint32_high_value = host_word le (drop 4 (host_bytes le 8 v))\<rparr>"

definition holder_value :: "bool \<Rightarrow> uint64_holder \<Rightarrow> u64" where
  "holder_value le h =
     host_word le (host_bytes le 4 (uint32_low_value h) @ host_bytes le 4 (uint32_high_value h))"

definition Ntohll :: "bool \<Rightarrow> u64 \<Rightarrow> u64" where
  "Ntohll le conversion =
     (let input = holder_of le conversion; output = holder_of le 0
      in holder_value le
        (if isLittleEndian le
         then output\<lparr>uint32_high_value := Ntohl le (uint32_low_value input),
                     uint32_low_value := Ntohl le (uint32_high_value input)\<rparr>
         else output\<lparr>uint32_low_value := Ntohl le (uint32_low_value input),
                     uint32_high_value := Ntohl le (uint32_high_value input)\<rparr>))"

definition Htonll :: "bool \<Rightarrow> u64 \<Rightarrow> u64" where
  "Htonll le conversion =
     (let input = holder_of le conversion; output = holder_of le 0
      in holder_value le
        (if isLittleEndian le
         then output\<lparr>uint32_high_value := Htonl le (uint32_low_value input),
                     uint32_low_value := Htonl le (uint32_high_value input)\<rparr>
         else output\<lparr>uint32_low_value := Htonl le (uint32_low_value input),
                     uint32_high_value := Htonl le (uint32_high_value input)\<rparr>))"

lemma host_bytes_Htons: "host_bytes le 2 (Htons le v) = net_bytes 2 v"
  by (simp add: Htons_def host_bytes_host_word)

lemma host_bytes_Htonl: "host_bytes le 4 (Htonl le v) = net_bytes 4 v"
  by (simp add: Htonl_def host_bytes_host_word)

lemma Htonl_Ntohl_same: "Htonl le v = Ntohl le v"
  by (simp add: Htonl_def Ntohl_def net_bytes_def host_word_def host_bytes_def)

text \<open>The two halves of the union, byte by byte.\<close>

lemma le_bytes_append:
  fixes w :: "'a::len word"
  shows "le_bytes (m + n) w = le_bytes m w @ le_bytes n (drop_bit (8 * m) w)"
  by (rule nth_equalityI) (auto simp: nth_append nth_le_bytes drop_bit_drop_bit algebra_simps)

lemma host_bytes_8_split:
  "host_bytes le 8 v = host_bytes le 4 (uint32_low_value (holder_of le v))
     @ host_bytes le 4 (uint32_high_value (holder_of le v))"
  by (simp add: holder_of_def host_bytes_host_word)

lemma Htonll_bytes: "host_bytes le 8 (Htonll le v) = net_bytes 8 v"
proof (cases le)
  case True
  have split: "le_bytes 8 v = le_bytes 4 (uint32_low_value (holder_of True v))
     @ le_bytes 4 (uint32_high_value (holder_of True v))"
    using host_bytes_8_split [of True v] by (simp add: host_bytes_def)
  have conv: "le_bytes 4 (Htonl True x) = rev (le_bytes 4 x)" for x
    using host_bytes_Htonl [of True x] by (simp add: host_bytes_def net_bytes_def)
  show ?thesis
    using True
    by (simp add: Htonll_def holder_value_def host_bytes_host_word Let_def)
       (simp add: host_bytes_def net_bytes_def split conv)
next
  case False
  have split: "net_bytes 8 v = net_bytes 4 (uint32_low_value (holder_of False v))
     @ net_bytes 4 (uint32_high_value (holder_of False v))"
    using host_bytes_8_split [of False v] by (simp add: host_bytes_def net_bytes_def)
  have conv: "rev (le_bytes 4 (Htonl False x)) = net_bytes 4 x" for x
    using host_bytes_Htonl [of False x] by (simp add: host_bytes_def)
  show ?thesis
    using False
    by (simp add: Htonll_def holder_value_def host_bytes_host_word Let_def)
       (simp add: host_bytes_def split conv)
qed

lemma Htonll_Ntohll_same: "Htonll le v = Ntohll le v"
  by (simp add: Htonll_def Ntohll_def Htonl_Ntohl_same Let_def)

lemma ucast_u16_u32: "ucast (ucast (x :: u16) :: u32) = x"
  by (rule bit_word_eqI) (simp add: bit_ucast_iff)

lemma Ntohs_host_word: "length bs = 2 \<Longrightarrow> Ntohs le (ucast (host_word le bs :: u16)) = host_word False bs"
  by (simp add: Ntohs_def ucast_u16_u32 host_bytes_host_word)

lemma Ntohl_host_word: "length bs = 4 \<Longrightarrow> Ntohl le (host_word le bs) = host_word False bs"
  by (simp add: Ntohl_def host_bytes_host_word)

lemma Ntohll_host_word:
  assumes "length bs = 8"
  shows "Ntohll le (host_word le bs) = host_word False bs"
proof -
  have "host_bytes le 8 (Ntohll le (host_word le bs)) = net_bytes 8 (host_word le bs :: u64)"
    using Htonll_bytes [of le "host_word le bs"] by (simp add: Htonll_Ntohll_same)
  then have "Ntohll le (host_word le bs) = host_word le (net_bytes 8 (host_word le bs :: u64))"
    using host_word_host_bytes [of 8 le "Ntohll le (host_word le bs)"] by simp
  also have "\<dots> = host_word False bs"
    using assms le_bytes_le_word [where 'a = 64, of bs 8] le_bytes_le_word [where 'a = 64, of "rev bs" 8]
    by (simp add: host_word_def net_bytes_def)
  finally show ?thesis .
qed

lemma host_word_net_bytes:
  fixes w :: "'a::len word"
  shows "LENGTH('a) \<le> 8 * n \<Longrightarrow> host_word False (net_bytes n w) = w"
  by (simp add: host_word_def net_bytes_def le_word_le_bytes)

text \<open>
  The 64-bit network byte-order conversion, built from two 32-bit conversions and a
  union, does on either kind of host what the C library's do: the memory image of the
  converted value is the value's bytes most significant first, and converting back on a
  host of the same kind restores it.
\<close>

theorem htonll_wire_order:
  "host_bytes le 8 (Htonll le v) = net_bytes 8 v \<and> Ntohll le (Htonll le v) = v"
proof -
  have "Htonll le v = host_word le (net_bytes 8 v)"
    using Htonll_bytes [of le v] host_word_host_bytes [of 8 le "Htonll le v"] by simp
  then have "Ntohll le (Htonll le v) = host_word False (net_bytes 8 v)"
    by (simp add: Ntohll_host_word)
  then show ?thesis by (simp add: Htonll_bytes host_word_net_bytes)
qed

end
