(* ===== verification/BufferSerial.thy ===== *)
theory BufferSerial
  imports ByteOrder
begin

text \<open>
  Serialization (\<^verbatim>\<open>modules/vapor/vpr/IO/BufferObjectWriter.h\<close>, \<^verbatim>\<open>.cpp\<close>,
  \<^verbatim>\<open>BufferObjectReader.h\<close>, \<^verbatim>\<open>.cpp\<close>): a writer appends to a byte vector, a reader walks a
  head position over one.  The argument \<open>le\<close> is the byte order of the host that runs the
  operation.  A \<^verbatim>\<open>float\<close> or \<^verbatim>\<open>double\<close> is its bit pattern, as in the code's unions.

  The reader's only check is that the head is inside the vector before it moves, so a
  value that starts inside and ends outside is read past the end: \<open>memcpy_from\<close> returns
  \<open>Undefined\<close> there.  The locale \<open>serial_codec\<close> is the contract every pair of write and
  read operations meets; packets of the cluster are built on it.
\<close>

section \<open>The writer\<close>

record writer =
  wData :: "u8 list"
  wHeadPos :: u32

definition STRING_LENGTH_SIZE :: u32 where
  "STRING_LENGTH_SIZE = 4"

definition writer_new :: writer where
  "writer_new = \<lparr>wData = [], wHeadPos = 0\<rparr>"

definition writer_on :: "u8 list \<Rightarrow> u32 \<Rightarrow> writer" where
  "writer_on data curPos = \<lparr>wData = data, wHeadPos = curPos\<rparr>"

text \<open>\<^verbatim>\<open>writeRaw\<close>: the loop of \<^verbatim>\<open>push_back\<close>s, then the head moves by the length.\<close>

fun push_bytes :: "u8 list \<Rightarrow> u8 list \<Rightarrow> u8 list" where
  "push_bytes v [] = v"
| "push_bytes v (b # bs) = push_bytes (v @ [b]) bs"

definition writeRaw :: "u8 list \<Rightarrow> writer \<Rightarrow> writer" where
  "writeRaw data w =
     w\<lparr>wData := push_bytes (wData w) data, wHeadPos := wHeadPos w + of_nat (length data)\<rparr>"

definition writeUint8 :: "u8 \<Rightarrow> writer \<Rightarrow> writer" where
  "writeUint8 val w = writeRaw [val] w"

definition writeUint16 :: "bool \<Rightarrow> u16 \<Rightarrow> writer \<Rightarrow> writer" where
  "writeUint16 le val w = writeRaw (host_bytes le 2 (Htons le val)) w"

definition writeUint32 :: "bool \<Rightarrow> u32 \<Rightarrow> writer \<Rightarrow> writer" where
  "writeUint32 le val w = writeRaw (host_bytes le 4 (Htonl le val)) w"

definition writeUint64 :: "bool \<Rightarrow> u64 \<Rightarrow> writer \<Rightarrow> writer" where
  "writeUint64 le val w = writeRaw (host_bytes le 8 (Htonll le val)) w"

definition writeFloat :: "bool \<Rightarrow> u32 \<Rightarrow> writer \<Rightarrow> writer" where
  "writeFloat le val w = writeRaw (host_bytes le 4 (Htonl le val)) w"

definition writeDouble :: "bool \<Rightarrow> u64 \<Rightarrow> writer \<Rightarrow> writer" where
  "writeDouble le val w = writeRaw (host_bytes le 8 (Htonll le val)) w"

text \<open>
  A string is its 32-bit length and its characters one by one.  The loop's index is a
  \<^verbatim>\<open>Uint32\<close> compared with the 64-bit length, so for \<open>2 ^ 32\<close> characters and more it
  never ends.
\<close>

definition byte_of_char :: "char \<Rightarrow> u8" where
  "byte_of_char c = of_nat (of_char c)"

definition char_of_byte :: "u8 \<Rightarrow> char" where
  "char_of_byte b = char_of (unat b)"

fun write_chars :: "string \<Rightarrow> writer \<Rightarrow> writer" where
  "write_chars [] w = w"
| "write_chars (c # cs) w = write_chars cs (writeRaw [byte_of_char c] w)"

definition writeString :: "bool \<Rightarrow> string \<Rightarrow> writer \<Rightarrow> writer result" where
  "writeString le val w =
     (let w' = writeUint32 le (of_nat (length val)) w
      in if length val < 2 ^ 32 then Inr (write_chars val w')
         else Inl (Undefined ''the index of the character loop wraps''))"

definition writeBool :: "bool \<Rightarrow> writer \<Rightarrow> writer" where
  "writeBool val w = writeRaw [if val then 1 else 0] w"

section \<open>The reader\<close>

record reader =
  rData :: "u8 list"
  rHeadPos :: u32
  rHeadPosStateStack :: "u32 list"

definition reader_on :: "u8 list \<Rightarrow> u32 \<Rightarrow> reader" where
  "reader_on data curPos = \<lparr>rData = data, rHeadPos = curPos, rHeadPosStateStack = []\<rparr>"

definition setCurPos :: "u32 \<Rightarrow> reader \<Rightarrow> reader" where
  "setCurPos val r = r\<lparr>rHeadPos := val\<rparr>"

definition resetReading :: "reader \<Rightarrow> reader" where
  "resetReading r = setCurPos 0 r"

definition pushState :: "reader \<Rightarrow> reader" where
  "pushState r = r\<lparr>rHeadPosStateStack := rHeadPosStateStack r @ [rHeadPos r]\<rparr>"

definition popState :: "reader \<Rightarrow> reader result" where
  "popState r =
     (if rHeadPosStateStack r = [] then Inl (Undefined ''back of an empty vector'')
      else let new_head_pos = last (rHeadPosStateStack r)
           in Inr (setCurPos new_head_pos
                (r\<lparr>rHeadPosStateStack := butlast (rHeadPosStateStack r)\<rparr>)))"

text \<open>\<^verbatim>\<open>readRaw\<close> returns a pointer into the vector: an index here.\<close>

definition readRaw :: "u32 \<Rightarrow> reader \<Rightarrow> (nat \<times> reader) result" where
  "readRaw len r =
     (if length (rData r) \<le> unat (rHeadPos r)
      then Inl (EOFError ''Attempted to read beyond data block'')
      else let pos = rHeadPos r + len in Inr (unat (pos - len), r\<lparr>rHeadPos := pos\<rparr>))"

definition memcpy_from :: "nat \<Rightarrow> nat \<Rightarrow> u8 list \<Rightarrow> u8 list result" where
  "memcpy_from off n data =
     (if off + n \<le> length data then Inr (take n (drop off data))
      else Inl (Undefined ''read past the end of the vector''))"

definition read_bytes :: "nat \<Rightarrow> reader \<Rightarrow> (u8 list \<times> reader) result" where
  "read_bytes n r =
     rbind (readRaw (of_nat n) r) (\<lambda>(off, r').
     rbind (memcpy_from off n (rData r')) (\<lambda>bs. Inr (bs, r')))"

definition readUint8 :: "reader \<Rightarrow> (u8 \<times> reader) result" where
  "readUint8 r = rbind (read_bytes 1 r) (\<lambda>(bs, r'). Inr (hd bs, r'))"

definition readUint16 :: "bool \<Rightarrow> reader \<Rightarrow> (u16 \<times> reader) result" where
  "readUint16 le r = rbind (read_bytes 2 r) (\<lambda>(bs, r').
     Inr (Ntohs le (ucast (host_word le bs :: u16)), r'))"

definition readUint32 :: "bool \<Rightarrow> reader \<Rightarrow> (u32 \<times> reader) result" where
  "readUint32 le r = rbind (read_bytes 4 r) (\<lambda>(bs, r'). Inr (Ntohl le (host_word le bs), r'))"

definition readUint64 :: "bool \<Rightarrow> reader \<Rightarrow> (u64 \<times> reader) result" where
  "readUint64 le r = rbind (read_bytes 8 r) (\<lambda>(bs, r'). Inr (Ntohll le (host_word le bs), r'))"

definition readFloat :: "bool \<Rightarrow> reader \<Rightarrow> (u32 \<times> reader) result" where
  "readFloat le r = rbind (read_bytes 4 r) (\<lambda>(bs, r'). Inr (Ntohl le (host_word le bs), r'))"

definition readDouble :: "bool \<Rightarrow> reader \<Rightarrow> (u64 \<times> reader) result" where
  "readDouble le r = rbind (read_bytes 8 r) (\<lambda>(bs, r'). Inr (Ntohll le (host_word le bs), r'))"

fun read_chars :: "nat \<Rightarrow> reader \<Rightarrow> (string \<times> reader) result" where
  "read_chars 0 r = Inr ([], r)"
| "read_chars (Suc n) r =
     rbind (read_bytes 1 r) (\<lambda>(bs, r').
     rbind (read_chars n r') (\<lambda>(cs, r''). Inr (char_of_byte (hd bs) # cs, r'')))"

definition readString :: "bool \<Rightarrow> reader \<Rightarrow> (string \<times> reader) result" where
  "readString le r = rbind (readUint32 le r) (\<lambda>(str_len, r'). read_chars (unat str_len) r')"

definition readBool :: "reader \<Rightarrow> (bool \<times> reader) result" where
  "readBool r = rbind (read_bytes 1 r) (\<lambda>(bs, r'). Inr (hd bs \<noteq> 0, r'))"

section \<open>What the operations do to the byte stream\<close>

definition emit :: "u8 list \<Rightarrow> writer \<Rightarrow> writer" where
  "emit bs w = w\<lparr>wData := wData w @ bs, wHeadPos := wHeadPos w + of_nat (length bs)\<rparr>"

definition advance :: "nat \<Rightarrow> reader \<Rightarrow> reader" where
  "advance n r = r\<lparr>rHeadPos := rHeadPos r + of_nat n\<rparr>"

text \<open>\<open>remains r bs\<close>: what is left to read is \<open>bs\<close>, in a vector the head can address.\<close>

definition remains :: "reader \<Rightarrow> u8 list \<Rightarrow> bool" where
  "remains r bs \<longleftrightarrow> length (rData r) < 2 ^ 32 \<and> unat (rHeadPos r) \<le> length (rData r)
     \<and> drop (unat (rHeadPos r)) (rData r) = bs"

named_theorems serial_simps "what each write emits and each read returns"

lemma push_bytes_append: "push_bytes v bs = v @ bs"
  by (induction v bs rule: push_bytes.induct) simp_all

lemma writeRaw_emit [serial_simps]: "writeRaw bs w = emit bs w"
  by (simp add: writeRaw_def emit_def push_bytes_append)

lemma emit_emit [serial_simps]: "emit bs (emit as w) = emit (as @ bs) w"
  by (simp add: emit_def)

lemma emit_Nil [simp]: "emit [] w = w"
  by (simp add: emit_def)

lemma wData_emit [simp]: "wData (emit bs w) = wData w @ bs"
  by (simp add: emit_def)

lemma rData_advance [simp]: "rData (advance n r) = rData r"
  by (simp add: advance_def)

lemma advance_advance [serial_simps]: "advance m (advance n r) = advance (n + m) r"
  by (simp add: advance_def)

lemma advance_0 [simp]: "advance 0 r = r"
  by (simp add: advance_def)

lemma write_word_emit [serial_simps]:
  "writeUint8 v8 w = emit [v8] w"
  "writeUint16 le v16 w = emit (net_bytes 2 v16) w"
  "writeUint32 le v32 w = emit (net_bytes 4 v32) w"
  "writeUint64 le v64 w = emit (net_bytes 8 v64) w"
  "writeFloat le v32 w = emit (net_bytes 4 v32) w"
  "writeDouble le v64 w = emit (net_bytes 8 v64) w"
  "writeBool b w = emit [if b then 1 else 0] w"
  by (simp_all add: writeUint8_def writeUint16_def writeUint32_def writeUint64_def
      writeFloat_def writeDouble_def writeBool_def writeRaw_emit host_bytes_Htons
      host_bytes_Htonl Htonll_bytes)

lemma write_chars_emit: "write_chars cs w = emit (map byte_of_char cs) w"
  by (induction cs w rule: write_chars.induct) (simp_all add: writeRaw_emit emit_emit)

definition string_bytes :: "string \<Rightarrow> u8 list" where
  "string_bytes s = net_bytes 4 (of_nat (length s) :: u32) @ map byte_of_char s"

lemma writeString_emit [serial_simps]:
  "length s < 2 ^ 32 \<Longrightarrow> writeString le s w = Inr (emit (string_bytes s) w)"
  by (simp add: writeString_def write_word_emit write_chars_emit emit_emit string_bytes_def)

lemma remains_advance [serial_simps]:
  assumes "remains r (as @ bs)"
  shows "remains (advance (length as) r) bs"
proof -
  let ?p = "unat (rHeadPos r)"
  have bounds: "length (rData r) < 2 ^ 32" "?p \<le> length (rData r)"
    and rest: "drop ?p (rData r) = as @ bs"
    using assms by (simp_all add: remains_def)
  have "length (as @ bs) = length (rData r) - ?p"
    using rest by (metis length_drop)
  then have le: "?p + length as \<le> length (rData r)" using bounds(2) by simp
  have "unat (rHeadPos r + of_nat (length as)) = ?p + length as"
    using le bounds(1) by (simp add: unat_word_ariths unat_of_nat)
  moreover have "drop (?p + length as) (rData r) = bs"
    using rest by (metis append_eq_conv_conj drop_drop add.commute)
  ultimately show ?thesis using bounds le by (simp add: remains_def advance_def)
qed

lemma remains_reader_on: "length bs < 2 ^ 32 \<Longrightarrow> remains (reader_on bs 0) bs"
  by (simp add: remains_def reader_on_def)

lemma read_bytes_remains:
  assumes "remains r (as @ bs)" and "length as = n" and "n \<noteq> 0"
  shows "read_bytes n r = Inr (as, advance n r)"
proof -
  let ?p = "unat (rHeadPos r)"
  have rest: "drop ?p (rData r) = as @ bs" using assms(1) by (simp add: remains_def)
  have "length (rData r) - ?p = length (as @ bs)"
    using rest by (metis length_drop)
  then have le: "?p + n \<le> length (rData r)" and lt: "?p < length (rData r)"
    using assms(2,3) by simp_all
  have "take n (drop ?p (rData r)) = as" using rest assms(2) by simp
  then show ?thesis
    using le lt by (simp add: read_bytes_def readRaw_def memcpy_from_def advance_def)
qed

lemma read_bytes_1 [serial_simps]:
  "remains r (b # bs) \<Longrightarrow> read_bytes 1 r = Inr ([b], advance 1 r)"
  using read_bytes_remains [of r "[b]" bs 1] by simp

lemma read_bytes_at_end: "remains r [] \<Longrightarrow> read_bytes n r = Inl (EOFError ''Attempted to read beyond data block'')"
  by (simp add: remains_def read_bytes_def readRaw_def)

lemma read_bytes_short:
  assumes "remains r bs" and "bs \<noteq> []" and "length bs < n" and "n < 2 ^ 32"
  shows "read_bytes n r = Inl (Undefined ''read past the end of the vector'')"
proof -
  let ?p = "unat (rHeadPos r)"
  have "length bs = length (rData r) - ?p"
    using assms(1) by (auto simp: remains_def)
  moreover have "0 < length bs" using assms(2) by simp
  ultimately have "?p < length (rData r)" "length (rData r) < ?p + n" using assms(3) by linarith+
  then show ?thesis by (simp add: read_bytes_def readRaw_def memcpy_from_def)
qed

lemma read_word_remains [serial_simps]:
  "remains r (v8 # bs) \<Longrightarrow> readUint8 r = Inr (v8, advance 1 r)"
  "remains r (net_bytes 2 v16 @ bs) \<Longrightarrow> readUint16 le r = Inr (v16, advance 2 r)"
  "remains r (net_bytes 4 v32 @ bs) \<Longrightarrow> readUint32 le r = Inr (v32, advance 4 r)"
  "remains r (net_bytes 8 v64 @ bs) \<Longrightarrow> readUint64 le r = Inr (v64, advance 8 r)"
  "remains r (net_bytes 4 v32 @ bs) \<Longrightarrow> readFloat le r = Inr (v32, advance 4 r)"
  "remains r (net_bytes 8 v64 @ bs) \<Longrightarrow> readDouble le r = Inr (v64, advance 8 r)"
  "remains r ((if b then 1 else 0) # bs) \<Longrightarrow> readBool r = Inr (b, advance 1 r)"
  by (simp_all add: readUint8_def readUint16_def readUint32_def readUint64_def readFloat_def
      readDouble_def readBool_def read_bytes_1 [unfolded One_nat_def] read_bytes_remains
      Ntohs_host_word Ntohl_host_word Ntohll_host_word host_word_net_bytes)

text \<open>
  The next read of a sequence: it returns the value that is next, and what follows it is
  next for the rest of the sequence.
\<close>

lemma bind_reads:
  "remains r (v8 # bs) \<Longrightarrow> (remains (advance 1 r) bs \<Longrightarrow> f (v8, advance 1 r) = y) \<Longrightarrow>
     rbind (readUint8 r) f = y"
  "remains r (net_bytes 2 v16 @ bs) \<Longrightarrow> (remains (advance 2 r) bs \<Longrightarrow> f16 (v16, advance 2 r) = y) \<Longrightarrow>
     rbind (readUint16 le r) f16 = y"
  "remains r (net_bytes 4 v32 @ bs) \<Longrightarrow> (remains (advance 4 r) bs \<Longrightarrow> f32 (v32, advance 4 r) = y) \<Longrightarrow>
     rbind (readUint32 le r) f32 = y"
  "remains r (net_bytes 8 v64 @ bs) \<Longrightarrow> (remains (advance 8 r) bs \<Longrightarrow> f64 (v64, advance 8 r) = y) \<Longrightarrow>
     rbind (readUint64 le r) f64 = y"
  "remains r (net_bytes 4 v32 @ bs) \<Longrightarrow> (remains (advance 4 r) bs \<Longrightarrow> f32 (v32, advance 4 r) = y) \<Longrightarrow>
     rbind (readFloat le r) f32 = y"
  using remains_advance [of r "[v8]" bs] remains_advance [of r "net_bytes 2 v16" bs]
    remains_advance [of r "net_bytes 4 v32" bs] remains_advance [of r "net_bytes 8 v64" bs]
  by (simp_all add: read_word_remains)

text \<open>
  Reading into an object: an exception leaves the object as it is then, so the outcome and
  the object are returned side by side.
\<close>

definition read_into :: "'a result \<Rightarrow> 'o \<Rightarrow> ('a \<Rightarrow> 'b result \<times> 'o) \<Rightarrow> 'b result \<times> 'o" where
  "read_into m obj f = (case m of Inl e \<Rightarrow> (Inl e, obj) | Inr x \<Rightarrow> f x)"

lemma read_into_simps [simp]:
  "read_into (Inl e) obj f = (Inl e, obj)" "read_into (Inr x) obj f = f x"
  by (simp_all add: read_into_def)

definition then_into :: "'a result \<times> 'o \<Rightarrow> ('a \<Rightarrow> 'o \<Rightarrow> 'b result \<times> 'o) \<Rightarrow> 'b result \<times> 'o" where
  "then_into m f = (case m of (Inl e, obj) \<Rightarrow> (Inl e, obj) | (Inr x, obj) \<Rightarrow> f x obj)"

lemma then_into_simps [simp]:
  "then_into (Inl e, obj) f = (Inl e, obj)" "then_into (Inr x, obj) f = f x obj"
  by (simp_all add: then_into_def)

lemma char_of_byte_of_char [simp]: "char_of_byte (byte_of_char c) = c"
proof -
  have "of_char c < (256 :: nat)" by (rule nat_of_char_less_256)
  then have "unat (of_nat (of_char c) :: u8) = of_char c" by (simp add: unat_of_nat)
  then show ?thesis by (simp add: char_of_byte_def byte_of_char_def)
qed

lemma read_chars_remains:
  "remains r (map byte_of_char cs @ bs) \<Longrightarrow>
     read_chars (length cs) r = Inr (cs, advance (length cs) r)"
proof (induction cs arbitrary: r)
  case Nil
  then show ?case by simp
next
  case (Cons c cs)
  from Cons.prems have r: "remains r (byte_of_char c # (map byte_of_char cs @ bs))" by simp
  then have "remains (advance 1 r) (map byte_of_char cs @ bs)"
    using remains_advance [of r "[byte_of_char c]"] by simp
  from Cons.IH [OF this] show ?case
    using read_bytes_1 [OF r] by (simp add: advance_advance)
qed

lemma length_string_bytes [simp]: "length (string_bytes s) = 4 + length s"
  by (simp add: string_bytes_def)

lemma readString_remains [serial_simps]:
  assumes "remains r (string_bytes s @ bs)" and "length s < 2 ^ 32"
  shows "readString le r = Inr (s, advance (length (string_bytes s)) r)"
proof -
  let ?n = "of_nat (length s) :: u32"
  have r: "remains r (net_bytes 4 ?n @ (map byte_of_char s @ bs))"
    using assms(1) by (simp add: string_bytes_def)
  have "unat ?n = length s" using assms(2) by (simp add: unat_of_nat)
  moreover have "remains (advance 4 r) (map byte_of_char s @ bs)"
    using remains_advance [OF r] by simp
  ultimately show ?thesis
    using read_word_remains(3) [OF r, of le] read_chars_remains [of "advance 4 r" s bs]
    by (simp add: readString_def advance_advance)
qed

section \<open>The contract of a codec\<close>

text \<open>
  What the cluster's packets and the application data rely on: writing a value appends
  its encoding and succeeds; reading where that encoding is next returns the value and
  moves past it.
\<close>

locale serial_codec =
  fixes wr :: "'a \<Rightarrow> writer \<Rightarrow> writer result"
    and rd :: "reader \<Rightarrow> ('a \<times> reader) result"
    and enc :: "'a \<Rightarrow> u8 list"
    and ok :: "'a \<Rightarrow> bool"
  assumes wr_emits: "ok x \<Longrightarrow> wr x w = Inr (emit (enc x) w)"
    and rd_returns: "ok x \<Longrightarrow> remains r (enc x @ bs) \<Longrightarrow> rd r = Inr (x, advance (length (enc x)) r)"
begin

lemma roundtrip:
  assumes "ok x" and "wr x writer_new = Inr w" and "length (wData w) < 2 ^ 32"
  shows "rd (reader_on (wData w) 0) = Inr (x, advance (length (wData w)) (reader_on (wData w) 0))"
proof -
  have "wData w = enc x" using assms(1,2) by (auto simp: wr_emits writer_new_def emit_def)
  then show ?thesis
    using assms rd_returns [of x "reader_on (wData w) 0" "[]"] by (simp add: remains_reader_on)
qed

lemma roundtrip_appended:
  assumes "ok x" and "wr x w = Inr w'" and "remains r (drop (length (wData w)) (wData w') @ bs)"
  shows "rd r = Inr (x, advance (length (enc x)) r)"
  using assms rd_returns [of x r bs] by (auto simp: wr_emits)

text \<open>A sequence of values, written one after the other, is read back value by value.\<close>

fun read_n :: "nat \<Rightarrow> reader \<Rightarrow> ('a list \<times> reader) result" where
  "read_n 0 r = Inr ([], r)"
| "read_n (Suc n) r = rbind (rd r) (\<lambda>(x, r'). rbind (read_n n r') (\<lambda>(xs, r''). Inr (x # xs, r'')))"

lemma rfold_emits: "\<forall>x \<in> set xs. ok x \<Longrightarrow> rfold wr xs w = Inr (emit (concat (map enc xs)) w)"
  by (induction xs arbitrary: w) (auto simp: wr_emits emit_emit)

lemma read_n_returns:
  "\<forall>x \<in> set xs. ok x \<Longrightarrow> remains r (concat (map enc xs) @ bs) \<Longrightarrow>
     read_n (length xs) r = Inr (xs, advance (length (concat (map enc xs))) r)"
proof (induction xs arbitrary: r)
  case Nil
  then show ?case by simp
next
  case (Cons x xs)
  from Cons.prems have r: "remains r (enc x @ (concat (map enc xs) @ bs))" by simp
  have "read_n (length xs) (advance (length (enc x)) r)
      = Inr (xs, advance (length (concat (map enc xs))) (advance (length (enc x)) r))"
    using Cons.prems(1) remains_advance [OF r] by (intro Cons.IH) auto
  then show ?case
    using Cons.prems(1) rd_returns [OF _ r] by (simp add: advance_advance)
qed

end

text \<open>
  Values of every type the writer has, tagged by the operation that writes them: what an
  object's \<^verbatim>\<open>writeObject\<close> emits as a sequence of calls.
\<close>

datatype serial_item =
    SUint8 u8 | SUint16 u16 | SUint32 u32 | SUint64 u64
  | SFloat u32 | SDouble u64 | SString string | SBool bool

datatype serial_type = TUint8 | TUint16 | TUint32 | TUint64 | TFloat | TDouble | TString | TBool

primrec type_of_item :: "serial_item \<Rightarrow> serial_type" where
  "type_of_item (SUint8 v) = TUint8"
| "type_of_item (SUint16 v) = TUint16"
| "type_of_item (SUint32 v) = TUint32"
| "type_of_item (SUint64 v) = TUint64"
| "type_of_item (SFloat v) = TFloat"
| "type_of_item (SDouble v) = TDouble"
| "type_of_item (SString v) = TString"
| "type_of_item (SBool v) = TBool"

primrec write_item :: "bool \<Rightarrow> serial_item \<Rightarrow> writer \<Rightarrow> writer result" where
  "write_item le (SUint8 v) w = Inr (writeUint8 v w)"
| "write_item le (SUint16 v) w = Inr (writeUint16 le v w)"
| "write_item le (SUint32 v) w = Inr (writeUint32 le v w)"
| "write_item le (SUint64 v) w = Inr (writeUint64 le v w)"
| "write_item le (SFloat v) w = Inr (writeFloat le v w)"
| "write_item le (SDouble v) w = Inr (writeDouble le v w)"
| "write_item le (SString v) w = writeString le v w"
| "write_item le (SBool v) w = Inr (writeBool v w)"

definition rmap_fst :: "('a \<Rightarrow> 'b) \<Rightarrow> ('a \<times> 'r) result \<Rightarrow> ('b \<times> 'r) result" where
  "rmap_fst f m = rbind m (\<lambda>(x, r). Inr (f x, r))"

primrec read_item :: "bool \<Rightarrow> serial_type \<Rightarrow> reader \<Rightarrow> (serial_item \<times> reader) result" where
  "read_item le TUint8 r = rmap_fst SUint8 (readUint8 r)"
| "read_item le TUint16 r = rmap_fst SUint16 (readUint16 le r)"
| "read_item le TUint32 r = rmap_fst SUint32 (readUint32 le r)"
| "read_item le TUint64 r = rmap_fst SUint64 (readUint64 le r)"
| "read_item le TFloat r = rmap_fst SFloat (readFloat le r)"
| "read_item le TDouble r = rmap_fst SDouble (readDouble le r)"
| "read_item le TString r = rmap_fst SString (readString le r)"
| "read_item le TBool r = rmap_fst SBool (readBool r)"

primrec item_bytes :: "serial_item \<Rightarrow> u8 list" where
  "item_bytes (SUint8 v) = [v]"
| "item_bytes (SUint16 v) = net_bytes 2 v"
| "item_bytes (SUint32 v) = net_bytes 4 v"
| "item_bytes (SUint64 v) = net_bytes 8 v"
| "item_bytes (SFloat v) = net_bytes 4 v"
| "item_bytes (SDouble v) = net_bytes 8 v"
| "item_bytes (SString v) = string_bytes v"
| "item_bytes (SBool v) = [if v then 1 else 0]"

primrec item_ok :: "serial_item \<Rightarrow> bool" where
  "item_ok (SUint8 v) = True"
| "item_ok (SUint16 v) = True"
| "item_ok (SUint32 v) = True"
| "item_ok (SUint64 v) = True"
| "item_ok (SFloat v) = True"
| "item_ok (SDouble v) = True"
| "item_ok (SString v) = (length v < 2 ^ 32)"
| "item_ok (SBool v) = True"

lemma write_item_emits: "item_ok x \<Longrightarrow> write_item le x w = Inr (emit (item_bytes x) w)"
  by (cases x) (simp_all add: serial_simps)

lemma read_item_returns:
  "item_ok x \<Longrightarrow> remains r (item_bytes x @ bs) \<Longrightarrow>
     read_item le (type_of_item x) r = Inr (x, advance (length (item_bytes x)) r)"
  by (cases x)
     (simp_all add: rmap_fst_def read_word_remains readString_remains
        read_word_remains(7) [where b = True] read_word_remains(7) [where b = False]
      split: if_splits)

fun read_items :: "bool \<Rightarrow> serial_type list \<Rightarrow> reader \<Rightarrow> (serial_item list \<times> reader) result" where
  "read_items le [] r = Inr ([], r)"
| "read_items le (t # ts) r =
     rbind (read_item le t r) (\<lambda>(x, r'). rbind (read_items le ts r') (\<lambda>(xs, r''). Inr (x # xs, r'')))"

definition write_items :: "bool \<Rightarrow> serial_item list \<Rightarrow> writer \<Rightarrow> writer result" where
  "write_items le xs w = rfold (write_item le) xs w"

lemma write_items_emits:
  "\<forall>x \<in> set xs. item_ok x \<Longrightarrow> write_items le xs w = Inr (emit (concat (map item_bytes xs)) w)"
  unfolding write_items_def
  by (induction xs arbitrary: w) (auto simp: write_item_emits emit_emit)

lemma read_items_returns:
  "\<forall>x \<in> set xs. item_ok x \<Longrightarrow> remains r (concat (map item_bytes xs) @ bs) \<Longrightarrow>
     read_items le (map type_of_item xs) r
       = Inr (xs, advance (length (concat (map item_bytes xs))) r)"
proof (induction xs arbitrary: r)
  case Nil
  then show ?case by simp
next
  case (Cons x xs)
  from Cons.prems have r: "remains r (item_bytes x @ (concat (map item_bytes xs) @ bs))" by simp
  have "read_items le (map type_of_item xs) (advance (length (item_bytes x)) r)
      = Inr (xs, advance (length (concat (map item_bytes xs))) (advance (length (item_bytes x)) r))"
    using Cons.prems(1) remains_advance [OF r] by (intro Cons.IH) auto
  then show ?case
    using Cons.prems(1) read_item_returns [OF _ r] by (simp add: advance_advance)
qed

interpretation items: serial_codec
  "write_items le_w" "read_items le_r ts" "\<lambda>xs. concat (map item_bytes xs)"
  "\<lambda>xs. map type_of_item xs = ts \<and> (\<forall>x \<in> set xs. item_ok x)"
  for le_w le_r ts
  by unfold_locales (auto simp: write_items_emits read_items_returns)

text \<open>
  C2. Serialization round trip across hosts: whatever sequence of typed values one host
  writes into a fresh buffer, a host of the same or the other byte order reads back the
  same values with the matching sequence of reads, and ends at the end of the data.
\<close>

theorem serial_roundtrip:
  assumes "\<forall>x \<in> set xs. item_ok x"
    and "write_items le_w xs writer_new = Inr w"
    and "length (wData w) < 2 ^ 32"
  shows "read_items le_r (map type_of_item xs) (reader_on (wData w) 0)
    = Inr (xs, advance (length (wData w)) (reader_on (wData w) 0))"
  by (rule items.roundtrip [where ts = "map type_of_item xs"]) (use assms in auto)

theorem serial_roundtrip_witness:
  "read_items False [TUint32, TString, TBool]
     (reader_on [1, 2, 3, 4, 0, 0, 0, 2, 104, 105, 1] 0)
   = Inr ([SUint32 0x01020304, SString ''hi'', SBool True],
       advance 11 (reader_on [1, 2, 3, 4, 0, 0, 0, 2, 104, 105, 1] 0))"
proof -
  let ?xs = "[SUint32 0x01020304, SString ''hi'', SBool True]"
  have bytes: "(258 :: u8) = 2" "(66051 :: u8) = 3" "(16909060 :: u8) = 4" by simp_all
  have w: "write_items True ?xs writer_new
      = Inr (emit [1, 2, 3, 4, 0, 0, 0, 2, 104, 105, 1] writer_new)"
    by (subst write_items_emits) (simp_all add: string_bytes_def net_bytes_def le_bytes_def
        upt_rec drop_bit_eq_div byte_of_char_def bytes)
  have data: "wData (emit [1, 2, 3, 4, 0, 0, 0, 2, 104, 105, 1] writer_new)
      = [1, 2, 3, 4, 0, 0, 0, 2, 104, 105, 1]"
    by (simp add: writer_new_def)
  have len: "length [1, 2, 3, 4, 0, 0, 0, 2, 104, 105, 1 :: u8] = 11"
    by simp
  show ?thesis
    using serial_roundtrip [OF _ w, of False] unfolding data len
    by (simp del: read_items.simps)
qed

text \<open>
  The bytes on the wire do not depend on the byte order of the host that writes them,
  and each write leaves what was in the buffer untouched and appends.
\<close>

theorem serial_wire_host_independent:
  "write_item le x w = write_item le' x w
   \<and> (case write_item le x w of Inl e \<Rightarrow> \<not> item_ok x
       | Inr w' \<Rightarrow> take (length (wData w)) (wData w') = wData w)"
proof (cases "item_ok x")
  case True
  then show ?thesis by (simp add: write_item_emits)
next
  case False
  then obtain s where "x = SString s" by (cases x) auto
  with False show ?thesis by (simp add: writeString_def)
qed

text \<open>
  At the end of the data every read reports an end of file.
\<close>

theorem read_at_end_is_eof:
  assumes "remains r []"
  shows "read_item le t r = Inl (EOFError ''Attempted to read beyond data block'')"
  using read_bytes_at_end [OF assms]
  by (cases t)
     (simp_all add: rmap_fst_def readUint8_def readUint16_def readUint32_def readUint64_def
        readFloat_def readDouble_def readString_def readBool_def)

theorem read_at_end_is_eof_witness:
  "read_item True TString (reader_on [7] 1) = Inl (EOFError ''Attempted to read beyond data block'')"
  by (rule read_at_end_is_eof) (simp add: remains_def reader_on_def)

text \<open>
  The end-of-file check does not cover a value that is cut off: when one to three bytes
  are left, \<^verbatim>\<open>readUint32\<close> passes the check and copies bytes from beyond the vector.
\<close>

theorem read_truncated_undefined:
  assumes "remains r bs" and "0 < length bs" and "length bs < 4"
  shows "readUint32 le r = Inl (Undefined ''read past the end of the vector'')"
  using read_bytes_short [OF assms(1), of 4] assms(2,3) by (simp add: readUint32_def)

theorem read_truncated_undefined_witness:
  "readUint32 True (reader_on [1, 2] 0) = Inl (Undefined ''read past the end of the vector'')"
  by (rule read_truncated_undefined [of _ "[1, 2]"]) (simp_all add: remains_def reader_on_def)

text \<open>
  \<^verbatim>\<open>pushState\<close> and \<^verbatim>\<open>popState\<close> bracket a trial read: whatever the reader reads in
  between, the head returns to where it was and the stack is as before.
\<close>

theorem push_pop_state:
  assumes "rData r' = rData r" and "rHeadPosStateStack r' = rHeadPosStateStack (pushState r)"
  shows "popState r' = Inr r"
  using assms by (simp add: popState_def pushState_def setCurPos_def)

theorem push_pop_state_witness:
  "popState (advance 4 (pushState (reader_on [1, 2, 3, 4] 0))) = Inr (reader_on [1, 2, 3, 4] 0)"
  by (rule push_pop_state) (simp_all add: pushState_def advance_def)

end
