(* ===== verification/CorkBuffer.thy ===== *)
theory CorkBuffer
  imports Prelude
begin

text \<open>
  Corked writing for hosts without \<^verbatim>\<open>TCP_NOPUSH\<close> (\<^verbatim>\<open>IO/Socket/NoPushWriter.h\<close>,
  \<^verbatim>\<open>NoPushWriter.cpp\<close>) and the allocation strategies it is given
  (\<^verbatim>\<open>SimpleAllocationStrategies.h\<close>, \<^verbatim>\<open>MaximumAllocationStrategy.cpp\<close>,
  \<^verbatim>\<open>AveragingAllocationStrategy.cpp\<close>).

  A strategy is a function object, so its state is explicit: \<open>strat st cur inc\<close> returns
  the size and the next state.  The locale \<open>alloc_strategy\<close> is what the writer needs of
  it; all four strategies of the repository interpret it.  A cell of the buffer that
  \<^verbatim>\<open>realloc\<close> left indeterminate is \<open>None\<close>.  Whether the C library can allocate is the
  argument \<open>malloc\<close>.
\<close>

section \<open>Allocation strategies\<close>

type_synonym 'st strategy = "'st \<Rightarrow> u64 \<Rightarrow> u64 \<Rightarrow> (u64 \<times> 'st) result"

definition minimalAllocationStrategy :: "unit strategy" where
  "minimalAllocationStrategy st curBufferSize increaseAmt = Inr (curBufferSize + increaseAmt, st)"

definition doublingAllocationStrategy :: "unit strategy" where
  "doublingAllocationStrategy st curBufferSize increaseAmt =
     Inr (if curBufferSize * 2 > curBufferSize + increaseAmt
          then curBufferSize * 2 else (curBufferSize + increaseAmt) * 2, st)"

text \<open>\<^verbatim>\<open>MaximumAllocationStrategy\<close>: its state is \<^verbatim>\<open>mMaxAllocSize\<close>, 0 at first.\<close>

definition maximumAllocationStrategy :: "u64 strategy" where
  "maximumAllocationStrategy mMaxAllocSize curBufferSize increaseAmt =
     (let req_size = curBufferSize + increaseAmt;
          m = (if req_size < mMaxAllocSize then mMaxAllocSize else req_size)
      in Inr (m, m))"

record averaging =
  mWindowSize :: u64
  mIndex :: u64
  mAllocSizes :: "u64 list"

definition averaging_init :: "u64 \<Rightarrow> averaging" where
  "averaging_init windowSize = \<lparr>mWindowSize = windowSize, mIndex = 0, mAllocSizes = []\<rparr>"

text \<open>
  \<^verbatim>\<open>std::accumulate(..., 0)\<close> starts from an \<^verbatim>\<open>int\<close>, so the running sum is cut to 32 bits
  after every addition and sign-extended before the next and at the end.
\<close>

definition accumulate_int :: "u64 list \<Rightarrow> u64" where
  "accumulate_int sizes = scast (foldl (\<lambda>(acc :: u32) s. ucast (scast acc + s :: u64)) 0 sizes)"

definition computeAverage :: "averaging \<Rightarrow> u64" where
  "computeAverage a =
     (if mAllocSizes a = [] then 0
      else accumulate_int (mAllocSizes a) div of_nat (length (mAllocSizes a)))"

definition maxValue :: "u64 \<Rightarrow> u64 \<Rightarrow> u64" where
  "maxValue v1 v2 = (if v1 > v2 then v1 else v2)"

definition averagingAllocationStrategy :: "averaging strategy" where
  "averagingAllocationStrategy a curBufferSize increaseAmt =
     (let alloc_size = maxValue (curBufferSize + increaseAmt) (computeAverage a)
      in rbind
          (if length (mAllocSizes a) < unat (mWindowSize a)
           then Inr (a\<lparr>mAllocSizes := mAllocSizes a @ [alloc_size]\<rparr>)
           else if unat (mIndex a) < length (mAllocSizes a)
           then Inr (a\<lparr>mAllocSizes := (mAllocSizes a)[unat (mIndex a) := alloc_size]\<rparr>)
           else Inl (Undefined ''write past the end of the vector''))
          (\<lambda>a'. if mWindowSize a' = 0 then Inl (Undefined ''remainder by zero'')
                else Inr (alloc_size, a'\<lparr>mIndex := (mIndex a' + 1) mod mWindowSize a'\<rparr>)))"

definition averaging_wf :: "averaging \<Rightarrow> bool" where
  "averaging_wf a \<longleftrightarrow> 0 < mWindowSize a \<and> mIndex a < mWindowSize a
     \<and> length (mAllocSizes a) \<le> unat (mWindowSize a)"

definition size_bound :: nat where
  "size_bound = 2 ^ 62"

text \<open>
  The contract: for sizes below \<open>size_bound\<close> the strategy answers, keeps its own
  invariant, and the answer holds both what is in the buffer and what is to be added.
\<close>

locale alloc_strategy =
  fixes strat :: "'st strategy" and st_ok :: "'st \<Rightarrow> bool"
  assumes enough: "st_ok st \<Longrightarrow> unat cur + unat inc < size_bound \<Longrightarrow>
    \<exists>n st'. strat st cur inc = Inr (n, st') \<and> st_ok st' \<and> unat cur + unat inc \<le> unat n"
begin

lemma enoughE:
  assumes "st_ok st" and "unat cur + unat inc < size_bound"
  obtains n st' where "strat st cur inc = Inr (n, st')" "st_ok st'" "unat cur + unat inc \<le> unat n"
  using enough [OF assms] by blast

end

lemma unat_add_bound:
  fixes a b :: u64
  shows "unat a + unat b < size_bound \<Longrightarrow> unat (a + b) = unat a + unat b"
  by (simp add: size_bound_def unat_word_ariths)

lemma unat_double_bound:
  fixes a :: u64
  shows "unat a < size_bound \<Longrightarrow> unat (a * 2) = unat a * 2"
  by (simp add: size_bound_def unat_word_ariths)

interpretation minimal_strategy: alloc_strategy minimalAllocationStrategy "\<lambda>_. True"
  by unfold_locales (simp add: minimalAllocationStrategy_def unat_add_bound)

interpretation doubling_strategy: alloc_strategy doublingAllocationStrategy "\<lambda>_. True"
proof unfold_locales
  fix st and cur inc :: u64
  assume b: "unat cur + unat inc < size_bound"
  then have "unat cur < size_bound" "unat (cur + inc) < size_bound"
    by (simp_all add: unat_add_bound)
  then show "\<exists>n st'. doublingAllocationStrategy st cur inc = Inr (n, st') \<and> True
      \<and> unat cur + unat inc \<le> unat n"
    using b unat_double_bound [of "cur + inc"] by (auto simp: doublingAllocationStrategy_def word_less_nat_alt unat_add_bound
        unat_double_bound)
qed

interpretation maximum_strategy: alloc_strategy maximumAllocationStrategy "\<lambda>_. True"
  by unfold_locales
     (auto simp: maximumAllocationStrategy_def Let_def word_less_nat_alt unat_add_bound)

lemma averaging_step:
  assumes "averaging_wf a"
  shows "\<exists>a'. averagingAllocationStrategy a cur inc
           = Inr (maxValue (cur + inc) (computeAverage a), a') \<and> averaging_wf a'"
proof -
  let ?n = "maxValue (cur + inc) (computeAverage a)"
  have w: "mWindowSize a \<noteq> 0" "unat (mIndex a) < unat (mWindowSize a)"
    "length (mAllocSizes a) \<le> unat (mWindowSize a)"
    using assms by (auto simp: averaging_wf_def word_less_nat_alt)
  have idx: "(mIndex a + 1) mod mWindowSize a < mWindowSize a"
    using w(1) by (simp add: word_less_nat_alt unat_mod word_gt_0 unat_gt_0)
  show ?thesis
  proof (cases "length (mAllocSizes a) < unat (mWindowSize a)")
    case True
    then show ?thesis
      using w idx by (auto simp: averagingAllocationStrategy_def Let_def averaging_wf_def word_gt_0)
  next
    case False
    then show ?thesis
      using w idx by (auto simp: averagingAllocationStrategy_def Let_def averaging_wf_def word_gt_0)
  qed
qed

lemma maxValue_ge: "a \<le> maxValue a b"
  by (simp add: maxValue_def not_less order.strict_implies_order)

interpretation averaging_strategy: alloc_strategy averagingAllocationStrategy averaging_wf
proof unfold_locales
  fix a and cur inc :: u64
  assume "averaging_wf a" and b: "unat cur + unat inc < size_bound"
  then obtain a' where "averagingAllocationStrategy a cur inc
      = Inr (maxValue (cur + inc) (computeAverage a), a')" "averaging_wf a'"
    using averaging_step by blast
  moreover have "unat cur + unat inc \<le> unat (maxValue (cur + inc) (computeAverage a))"
    using b maxValue_ge [of "cur + inc"] by (simp add: word_le_nat_alt unat_add_bound)
  ultimately show "\<exists>n st'. averagingAllocationStrategy a cur inc = Inr (n, st')
      \<and> averaging_wf st' \<and> unat cur + unat inc \<le> unat n" by blast
qed

text \<open>
  \<^verbatim>\<open>NoPushAllocStrategy\<close> is a \<^verbatim>\<open>boost::function\<close>: any of the four, chosen at run time and
  replaced by \<^verbatim>\<open>setAllocStrategy\<close>.
\<close>

datatype alloc_fn = MinimalFn | DoublingFn | MaximumFn u64 | AveragingFn averaging

primrec call_strategy :: "alloc_fn strategy" where
  "call_strategy MinimalFn cur inc =
     rbind (minimalAllocationStrategy () cur inc) (\<lambda>(n, _). Inr (n, MinimalFn))"
| "call_strategy DoublingFn cur inc =
     rbind (doublingAllocationStrategy () cur inc) (\<lambda>(n, _). Inr (n, DoublingFn))"
| "call_strategy (MaximumFn m) cur inc =
     rbind (maximumAllocationStrategy m cur inc) (\<lambda>(n, m'). Inr (n, MaximumFn m'))"
| "call_strategy (AveragingFn a) cur inc =
     rbind (averagingAllocationStrategy a cur inc) (\<lambda>(n, a'). Inr (n, AveragingFn a'))"

primrec alloc_fn_wf :: "alloc_fn \<Rightarrow> bool" where
  "alloc_fn_wf MinimalFn = True"
| "alloc_fn_wf DoublingFn = True"
| "alloc_fn_wf (MaximumFn m) = True"
| "alloc_fn_wf (AveragingFn a) = averaging_wf a"

interpretation any_strategy: alloc_strategy call_strategy alloc_fn_wf
proof unfold_locales
  fix st and cur inc :: u64
  assume wf: "alloc_fn_wf st" and b: "unat cur + unat inc < size_bound"
  show "\<exists>n st'. call_strategy st cur inc = Inr (n, st') \<and> alloc_fn_wf st'
      \<and> unat cur + unat inc \<le> unat n"
  proof (cases st)
    case MinimalFn
    then show ?thesis using minimal_strategy.enough [OF TrueI b, of "()"] by auto
  next
    case DoublingFn
    then show ?thesis using doubling_strategy.enough [OF TrueI b, of "()"] by auto
  next
    case (MaximumFn m)
    then show ?thesis using maximum_strategy.enough [OF TrueI b, of m] by auto
  next
    case (AveragingFn a)
    then show ?thesis using averaging_strategy.enough [OF _ b, of a] wf by auto
  qed
qed

section \<open>The corking buffer\<close>

record 'st cork =
  allocState :: 'st
  mBuffer :: "u8 option list option"
  mBufferSize :: u64
  mBufferUse :: u64

definition cork_new :: "'st \<Rightarrow> 'st cork" where
  "cork_new st = \<lparr>allocState = st, mBuffer = None, mBufferSize = 0, mBufferUse = 0\<rparr>"

definition cork_copy :: "'st cork \<Rightarrow> 'st cork" where
  "cork_copy obj =
     \<lparr>allocState = allocState obj, mBuffer = map_option (take (unat (mBufferSize obj))) (mBuffer obj),
      mBufferSize = mBufferSize obj, mBufferUse = mBufferUse obj\<rparr>"

definition cork_flush :: "'st cork \<Rightarrow> 'st cork" where
  "cork_flush w =
     (if mBuffer w \<noteq> None then w\<lparr>mBuffer := None, mBufferUse := 0, mBufferSize := 0\<rparr> else w)"

definition setAllocStrategy :: "'st \<Rightarrow> 'st cork \<Rightarrow> 'st cork" where
  "setAllocStrategy strategy w = w\<lparr>allocState := strategy\<rparr>"

definition bad_alloc :: failure where
  "bad_alloc = VprException ''bad_alloc''"

text \<open>The first half of \<^verbatim>\<open>write\<close>: allocate the buffer or make it larger.\<close>

definition cork_reserve :: "(u64 \<Rightarrow> bool) \<Rightarrow> 'st strategy \<Rightarrow> u64 \<Rightarrow> 'st cork \<Rightarrow> 'st cork result" where
  "cork_reserve malloc strat len w =
     (case mBuffer w of
        None \<Rightarrow>
          rbind (strat (allocState w) 0 len) (\<lambda>(new_buffer_size, st).
            if new_buffer_size < len
            then Inl (VprException ''initial corking buffer is not larger than packet size'')
            else if \<not> malloc new_buffer_size then Inl bad_alloc
            else Inr (w\<lparr>allocState := st, mBufferSize := new_buffer_size,
                       mBuffer := Some (replicate (unat new_buffer_size) (Some 0))\<rparr>))
      | Some buf \<Rightarrow>
          if mBufferUse w + len > mBufferSize w
          then rbind (strat (allocState w) (mBufferSize w) len) (\<lambda>(new_buffer_size, st).
            if new_buffer_size \<le> mBufferSize w
            then Inl (VprException ''resizing of corking buffer is not larger than starting size'')
            else if \<not> malloc new_buffer_size then Inl bad_alloc
            else Inr (w\<lparr>allocState := st, mBufferSize := new_buffer_size,
                       mBuffer := Some (buf @ replicate (unat new_buffer_size - length buf) None)\<rparr>))
          else Inr w)"

text \<open>The second half: \<^verbatim>\<open>std::copy\<close> to the end of what is used.\<close>

definition cork_append :: "u8 list \<Rightarrow> 'st cork \<Rightarrow> (u64 \<times> 'st cork) result" where
  "cork_append pkt w =
     (case mBuffer w of
        None \<Rightarrow> Inl (Undefined ''copy to a null pointer'')
      | Some buf \<Rightarrow>
          (let use = unat (mBufferUse w) in
           if use + length pkt \<le> length buf
           then Inr (of_nat (length pkt),
                  w\<lparr>mBuffer := Some (take use buf @ map Some pkt @ drop (use + length pkt) buf),
                    mBufferUse := mBufferUse w + of_nat (length pkt)\<rparr>)
           else Inl (Undefined ''copy past the end of the buffer'')))"

text \<open>
  \<^verbatim>\<open>write\<close> is given the packet's length as an unsigned integer of 32 bits, so a packet of the
  code is shorter than \<open>2 ^ 32\<close> bytes; the model keeps the length at the width of \<^verbatim>\<open>size_t\<close>,
  which is the same number.
\<close>

definition cork_write :: "(u64 \<Rightarrow> bool) \<Rightarrow> 'st strategy \<Rightarrow> u8 list \<Rightarrow> 'st cork \<Rightarrow> (u64 \<times> 'st cork) result" where
  "cork_write malloc strat pkt w =
     rbind (cork_reserve malloc strat (of_nat (length pkt)) w) (cork_append pkt)"

text \<open>
  The abstraction: what has been corked since the last flush.  \<open>cork_wf\<close> says that the
  used part lies inside the buffer and has been written.
\<close>

definition corked :: "'st cork \<Rightarrow> u8 list" where
  "corked w = (case mBuffer w of None \<Rightarrow> [] | Some buf \<Rightarrow> map the (take (unat (mBufferUse w)) buf))"

definition cork_wf :: "'st cork \<Rightarrow> bool" where
  "cork_wf w \<longleftrightarrow> (case mBuffer w of
       None \<Rightarrow> mBufferSize w = 0 \<and> mBufferUse w = 0
     | Some buf \<Rightarrow> length buf = unat (mBufferSize w) \<and> mBufferUse w \<le> mBufferSize w
         \<and> None \<notin> set (take (unat (mBufferUse w)) buf))"

lemma cork_new_wf [wf_intros]: "cork_wf (cork_new st)" "corked (cork_new st) = []"
  by (simp_all add: cork_wf_def cork_new_def corked_def)

lemma cork_flush_wf [wf_intros]: "cork_wf w \<Longrightarrow> cork_wf (cork_flush w)" "corked (cork_flush w) = []"
  by (auto simp: cork_wf_def cork_flush_def corked_def split: option.splits)

lemma cork_copy_id: "cork_wf w \<Longrightarrow> cork_copy w = w"
  by (cases w) (auto simp: cork_wf_def cork_copy_def split: option.splits)

lemma cork_append_wf:
  assumes "cork_wf w" and "mBuffer w = Some buf"
    and "unat (mBufferUse w) + length pkt \<le> length buf"
  shows "\<exists>w'. cork_append pkt w = Inr (of_nat (length pkt), w') \<and> cork_wf w'
      \<and> corked w' = corked w @ pkt \<and> allocState w' = allocState w \<and> mBufferSize w' = mBufferSize w"
proof -
  let ?u = "unat (mBufferUse w)"
  have len: "length buf = unat (mBufferSize w)" and set: "None \<notin> set (take ?u buf)"
    using assms(1,2) by (simp_all add: cork_wf_def)
  have "length pkt < 2 ^ 64" "?u + length pkt < 2 ^ 64"
    using assms(3) len unat_u64_bound [of "mBufferSize w"] by simp_all
  then have use: "unat (mBufferUse w + of_nat (length pkt)) = ?u + length pkt"
    by (simp add: unat_word_ariths unat_of_nat)
  have tk: "take (?u + length pkt) (take ?u buf @ map Some pkt @ drop (?u + length pkt) buf)
      = take ?u buf @ map Some pkt"
    using assms(3) by simp
  show ?thesis
    using assms len set
    by (auto simp: cork_append_def cork_wf_def corked_def use tk Let_def word_le_nat_alt
        o_def simp del: take_append)
qed

context alloc_strategy
begin

lemma cork_reserve_ok:
  assumes wf: "cork_wf w" and st: "st_ok (allocState w)" and mem: "\<forall>n. malloc n"
    and small: "unat (mBufferSize w) + unat len < size_bound"
  shows "\<exists>w' buf. cork_reserve malloc strat len w = Inr w' \<and> cork_wf w' \<and> st_ok (allocState w')
      \<and> corked w' = corked w \<and> mBuffer w' = Some buf
      \<and> unat (mBufferUse w') + unat len \<le> length buf"
proof (cases "mBuffer w")
  case None
  then have sz: "mBufferSize w = 0" "mBufferUse w = 0" using wf by (simp_all add: cork_wf_def)
  obtain n st' where n: "strat (allocState w) 0 len = Inr (n, st')" "st_ok st'" "unat len \<le> unat n"
    using enoughE [OF st, of 0 len] small sz by auto
  then show ?thesis
    using None sz mem by (auto simp: cork_reserve_def cork_wf_def corked_def word_less_nat_alt)
next
  case (Some buf)
  then have b: "length buf = unat (mBufferSize w)" "unat (mBufferUse w) \<le> unat (mBufferSize w)"
    "None \<notin> set (take (unat (mBufferUse w)) buf)"
    using wf by (simp_all add: cork_wf_def word_le_nat_alt)
  have add: "unat (mBufferUse w + len) = unat (mBufferUse w) + unat len"
    using small b(2) by (intro unat_add_bound) linarith
  show ?thesis
  proof (cases "mBufferUse w + len > mBufferSize w")
    case True
    obtain n st' where n: "strat (allocState w) (mBufferSize w) len = Inr (n, st')" "st_ok st'"
      "unat (mBufferSize w) + unat len \<le> unat n"
      using enoughE [OF st small] by blast
    have "unat (mBufferSize w) < unat n" using True add b(2) n(3) by (simp add: word_less_nat_alt)
    then show ?thesis
      using Some True n b mem
      by (auto simp: cork_reserve_def cork_wf_def corked_def word_le_nat_alt)
  next
    case False
    then show ?thesis
      using Some wf st b add by (auto simp: cork_reserve_def word_less_nat_alt)
  qed
qed

lemma cork_write_ok:
  assumes "cork_wf w" and "st_ok (allocState w)" and "\<forall>n. malloc n"
    and small: "unat (mBufferSize w) + length pkt < size_bound"
  shows "\<exists>w'. cork_write malloc strat pkt w = Inr (of_nat (length pkt), w')
      \<and> cork_wf w' \<and> st_ok (allocState w') \<and> corked w' = corked w @ pkt"
proof -
  have "length pkt < 2 ^ 64" using small by (simp add: size_bound_def)
  then have len: "unat (of_nat (length pkt) :: u64) = length pkt" by (simp add: unat_of_nat)
  obtain w1 buf where w1: "cork_reserve malloc strat (of_nat (length pkt)) w = Inr w1"
    "cork_wf w1" "st_ok (allocState w1)" "corked w1 = corked w" "mBuffer w1 = Some buf"
    "unat (mBufferUse w1) + length pkt \<le> length buf"
    using cork_reserve_ok [OF assms(1-3), of "of_nat (length pkt)"] small len by auto
  then show ?thesis
    using cork_append_wf [OF w1(2,5,6)] by (auto simp: cork_write_def)
qed

end

text \<open>
  C39. A corked write keeps what was written before and adds the packet: with any of the
  repository's four allocation strategies, as long as memory can be had and sizes stay
  below \<open>2 ^ 62\<close>, the write reports the packet's length, copies inside the buffer, and
  the corked data is the old data followed by the packet; flushing empties it.
\<close>

theorem cork_write_appends:
  assumes "cork_wf w" and "alloc_fn_wf (allocState w)" and "\<forall>n. malloc n"
    and "unat (mBufferSize w) + length pkt < 2 ^ 62"
  shows "\<exists>w'. cork_write malloc call_strategy pkt w = Inr (of_nat (length pkt), w')
      \<and> cork_wf w' \<and> alloc_fn_wf (allocState w') \<and> corked w' = corked w @ pkt
      \<and> corked (cork_flush w') = []"
  using any_strategy.cork_write_ok [OF assms(1-3), of pkt] assms(4)
  by (auto simp: size_bound_def cork_flush_wf)

theorem cork_write_appends_witness:
  "\<exists>w'. cork_write (\<lambda>_. True) call_strategy [1, 2, 3] (cork_new DoublingFn) = Inr (3, w')
     \<and> cork_wf w' \<and> alloc_fn_wf (allocState w') \<and> corked w' = [1, 2, 3]
     \<and> corked (cork_flush w') = []"
  using cork_write_appends [of "cork_new DoublingFn" "\<lambda>_. True" "[1, 2, 3]"]
  by (simp add: cork_new_wf) (simp add: cork_new_def)

text \<open>
  The writer's own test of a new size only asks that it grew.  With a strategy that
  grows by less than what is to be added the copy runs past the end of the buffer, where
  the class documents an exception.
\<close>

theorem cork_write_overrun:
  assumes "cork_wf w" and "mBuffer w = Some buf" and "malloc n"
    and "strat (allocState w) (mBufferSize w) (of_nat (length pkt)) = Inr (n, st')"
    and "mBufferSize w < n" and "unat n < unat (mBufferUse w) + length pkt"
    and "mBufferSize w < mBufferUse w + of_nat (length pkt)"
  shows "cork_write malloc strat pkt w = Inl (Undefined ''copy past the end of the buffer'')"
  using assms
  by (auto simp: cork_write_def cork_reserve_def cork_append_def cork_wf_def Let_def
      word_less_nat_alt word_le_nat_alt)

theorem cork_write_overrun_witness:
  "cork_write (\<lambda>_. True) (\<lambda>st cur inc. Inr (cur + 1, st)) [1, 2, 3]
     \<lparr>allocState = (), mBuffer = Some [Some 7, Some 8], mBufferSize = 2, mBufferUse = 2\<rparr>
   = Inl (Undefined ''copy past the end of the buffer'')"
  by (rule cork_write_overrun [where n = 3 and buf = "[Some 7, Some 8]"])
     (simp_all add: cork_wf_def)

end
