(* ===== verification/RWLock.thy ===== *)
theory RWLock
  imports Prelude
begin

text \<open>
  \<^verbatim>\<open>vpr::RWMutex\<close> (\<^verbatim>\<open>Sync/RWMutex.h\<close>, \<^verbatim>\<open>RWMutex.cpp\<close>): a readers/writer lock on a mutex
  and two condition variables.

  Each operation holds \<^verbatim>\<open>stateLock\<close> from its start until it returns or waits, and a wait
  gives the lock up and takes it again, so the code between two such points is one
  atomic step: \<open>acquireRead\<close> is the way into the loop, \<open>acquireRead_resume\<close> the way out of
  the wait.  A condition variable may wake a waiter for no reason.  \<open>rw_step\<close>
  interleaves any number of threads that release only what they hold.
\<close>

section \<open>The operations\<close>

record rwmutex =
  refCount :: int
  numWaitingReaders :: int
  numWaitingWriters :: int
  stateLocked :: bool

definition rwmutex_init :: rwmutex where
  "rwmutex_init = \<lparr>refCount = 0, numWaitingReaders = 0, numWaitingWriters = 0, stateLocked = False\<rparr>"

text \<open>The result says whether the caller now holds the lock (or else waits).\<close>

definition acquireRead :: "rwmutex \<Rightarrow> bool \<times> rwmutex" where
  "acquireRead m =
     (if refCount m < 0 \<or> numWaitingWriters m > 0
      then (False, m\<lparr>numWaitingReaders := numWaitingReaders m + 1\<rparr>)
      else (True, m\<lparr>refCount := refCount m + 1\<rparr>))"

definition acquireRead_resume :: "rwmutex \<Rightarrow> bool \<times> rwmutex" where
  "acquireRead_resume m = acquireRead (m\<lparr>numWaitingReaders := numWaitingReaders m - 1\<rparr>)"

definition acquireWrite :: "rwmutex \<Rightarrow> bool \<times> rwmutex" where
  "acquireWrite m =
     (if refCount m \<noteq> 0
      then (False, m\<lparr>numWaitingWriters := numWaitingWriters m + 1\<rparr>)
      else (True, m\<lparr>refCount := -1\<rparr>))"

definition acquireWrite_resume :: "rwmutex \<Rightarrow> bool \<times> rwmutex" where
  "acquireWrite_resume m = acquireWrite (m\<lparr>numWaitingWriters := numWaitingWriters m - 1\<rparr>)"

definition tryAcquireRead :: "rwmutex \<Rightarrow> bool \<times> rwmutex" where
  "tryAcquireRead m =
     (if \<not> (refCount m = -1 \<or> numWaitingWriters m > 0)
      then (True, m\<lparr>refCount := refCount m + 1\<rparr>) else (False, m))"

definition tryAcquireWrite :: "rwmutex \<Rightarrow> bool \<times> rwmutex" where
  "tryAcquireWrite m =
     (if refCount m = 0 then (True, m\<lparr>refCount := -1\<rparr>) else (False, m))"

text \<open>
  \<^verbatim>\<open>release\<close>: what it wakes, or the exception it throws.  The exception leaves the
  function between \<^verbatim>\<open>stateLock.acquire()\<close> and \<^verbatim>\<open>stateLock.release()\<close>.
\<close>

datatype wakeup = WakeNobody | WakeOneWriter | WakeAllReaders

datatype release_outcome = Released wakeup | Threw failure

definition rw_release :: "rwmutex \<Rightarrow> release_outcome \<times> rwmutex" where
  "rw_release m =
     (if refCount m > 0 \<or> refCount m = -1
      then let m' = m\<lparr>refCount := (if refCount m > 0 then refCount m - 1 else 0)\<rparr>
           in (Released (if numWaitingWriters m' > 0 then WakeOneWriter
                         else if numWaitingReaders m' > 0 then WakeAllReaders
                         else WakeNobody), m')
      else (Threw (LockError ''Should not have a refCount of 0!''), m\<lparr>stateLocked := True\<rparr>))"

section \<open>Threads\<close>

datatype pc = Idle | RWaiting | RWoken | Reading | WWaiting | WWoken | Writing

record rwsys =
  mx :: rwmutex
  pcs :: "pc list"

definition set_pc :: "nat \<Rightarrow> pc \<Rightarrow> rwmutex \<Rightarrow> rwsys \<Rightarrow> rwsys" where
  "set_pc i p m s = s\<lparr>mx := m, pcs := (pcs s)[i := p]\<rparr>"

definition wake_readers :: "pc list \<Rightarrow> pc list" where
  "wake_readers ps = map (\<lambda>p. if p = RWaiting then RWoken else p) ps"

inductive rw_step :: "rwsys \<Rightarrow> rwsys \<Rightarrow> bool" where
  read_enter: "\<lbrakk>i < length (pcs s); pcs s ! i = Idle; \<not> stateLocked (mx s);
      acquireRead (mx s) = (got, m)\<rbrakk>
    \<Longrightarrow> rw_step s (set_pc i (if got then Reading else RWaiting) m s)"
| read_resume: "\<lbrakk>i < length (pcs s); pcs s ! i = RWoken; \<not> stateLocked (mx s);
      acquireRead_resume (mx s) = (got, m)\<rbrakk>
    \<Longrightarrow> rw_step s (set_pc i (if got then Reading else RWaiting) m s)"
| write_enter: "\<lbrakk>i < length (pcs s); pcs s ! i = Idle; \<not> stateLocked (mx s);
      acquireWrite (mx s) = (got, m)\<rbrakk>
    \<Longrightarrow> rw_step s (set_pc i (if got then Writing else WWaiting) m s)"
| write_resume: "\<lbrakk>i < length (pcs s); pcs s ! i = WWoken; \<not> stateLocked (mx s);
      acquireWrite_resume (mx s) = (got, m)\<rbrakk>
    \<Longrightarrow> rw_step s (set_pc i (if got then Writing else WWaiting) m s)"
| try_read: "\<lbrakk>i < length (pcs s); pcs s ! i = Idle; \<not> stateLocked (mx s);
      tryAcquireRead (mx s) = (got, m)\<rbrakk>
    \<Longrightarrow> rw_step s (set_pc i (if got then Reading else Idle) m s)"
| try_write: "\<lbrakk>i < length (pcs s); pcs s ! i = Idle; \<not> stateLocked (mx s);
      tryAcquireWrite (mx s) = (got, m)\<rbrakk>
    \<Longrightarrow> rw_step s (set_pc i (if got then Writing else Idle) m s)"
| release_nobody: "\<lbrakk>i < length (pcs s); pcs s ! i \<in> {Reading, Writing}; \<not> stateLocked (mx s);
      rw_release (mx s) = (Released WakeNobody, m)\<rbrakk>
    \<Longrightarrow> rw_step s (set_pc i Idle m s)"
| release_readers: "\<lbrakk>i < length (pcs s); pcs s ! i \<in> {Reading, Writing}; \<not> stateLocked (mx s);
      rw_release (mx s) = (Released WakeAllReaders, m)\<rbrakk>
    \<Longrightarrow> rw_step s (s\<lparr>mx := m, pcs := wake_readers ((pcs s)[i := Idle])\<rparr>)"
| release_writer: "\<lbrakk>i < length (pcs s); pcs s ! i \<in> {Reading, Writing}; \<not> stateLocked (mx s);
      rw_release (mx s) = (Released WakeOneWriter, m); j < length (pcs s); pcs s ! j = WWaiting\<rbrakk>
    \<Longrightarrow> rw_step s (s\<lparr>mx := m, pcs := (pcs s)[i := Idle, j := WWoken]\<rparr>)"
| release_writer_lost: "\<lbrakk>i < length (pcs s); pcs s ! i \<in> {Reading, Writing}; \<not> stateLocked (mx s);
      rw_release (mx s) = (Released WakeOneWriter, m); WWaiting \<notin> set (pcs s)\<rbrakk>
    \<Longrightarrow> rw_step s (set_pc i Idle m s)"
| release_error: "\<lbrakk>i < length (pcs s); pcs s ! i \<in> {Reading, Writing}; \<not> stateLocked (mx s);
      rw_release (mx s) = (Threw e, m)\<rbrakk>
    \<Longrightarrow> rw_step s (set_pc i Idle m s)"
| spurious_reader: "\<lbrakk>i < length (pcs s); pcs s ! i = RWaiting\<rbrakk>
    \<Longrightarrow> rw_step s (set_pc i RWoken (mx s) s)"
| spurious_writer: "\<lbrakk>i < length (pcs s); pcs s ! i = WWaiting\<rbrakk>
    \<Longrightarrow> rw_step s (set_pc i WWoken (mx s) s)"

definition rw_init :: "nat \<Rightarrow> rwsys \<Rightarrow> bool" where
  "rw_init n s \<longleftrightarrow> s = \<lparr>mx = rwmutex_init, pcs = replicate n Idle\<rparr>"

section \<open>The invariant\<close>

text \<open>How many threads are at one of the given points.\<close>

definition cnt :: "pc set \<Rightarrow> pc list \<Rightarrow> int" where
  "cnt P ps = int (length (filter (\<lambda>p. p \<in> P) ps))"

lemma cnt_simps [simp]:
  "cnt P [] = 0"
  "cnt P (p # ps) = (if p \<in> P then 1 else 0) + cnt P ps"
  "0 \<le> cnt P ps"
  "\<not> cnt P ps < 0"
  by (simp_all add: cnt_def)

lemma cnt_not_minus_one [simp]: "cnt P ps \<noteq> - 1" "- 1 \<noteq> cnt P ps"
  using cnt_simps(3) [of P ps] by linarith+

lemma cnt_plus_one [simp]: "cnt P ps + 1 \<noteq> 0"
  using cnt_simps(3) [of P ps] by linarith

lemma cnt_update:
  "i < length ps \<Longrightarrow> cnt P (ps[i := p]) =
     cnt P ps - (if ps ! i \<in> P then 1 else 0) + (if p \<in> P then 1 else 0)"
proof (induction ps arbitrary: i)
  case Nil
  then show ?case by simp
next
  case (Cons q ps)
  then show ?case by (cases i) (simp_all)
qed

lemma cnt_pos_iff: "0 < cnt P ps \<longleftrightarrow> (\<exists>p \<in> set ps. p \<in> P)"
  by (induction ps) (auto simp: add_pos_nonneg)

lemma cnt_replicate_Idle: "Idle \<notin> P \<Longrightarrow> cnt P (replicate n Idle) = 0"
  by (simp add: cnt_def)

lemma cnt_pos: "i < length ps \<Longrightarrow> ps ! i \<in> P \<Longrightarrow> 0 < cnt P ps"
  by (auto simp: cnt_pos_iff)

lemma cnt_wake_readers:
  "RWaiting \<in> P \<longleftrightarrow> RWoken \<in> P \<Longrightarrow> cnt P (wake_readers ps) = cnt P ps"
  unfolding wake_readers_def by (induction ps) auto

lemma RWaiting_wake_readers [simp]: "RWaiting \<notin> set (wake_readers ps)"
  by (auto simp: wake_readers_def)

lemma WWoken_wake_readers [simp]: "WWoken \<in> set (wake_readers ps) \<longleftrightarrow> WWoken \<in> set ps"
  by (auto simp: wake_readers_def image_iff)

text \<open>The counters of the lock are the numbers of threads they stand for.\<close>

definition rw_counts :: "rwsys \<Rightarrow> bool" where
  "rw_counts s \<longleftrightarrow> \<not> stateLocked (mx s)
     \<and> numWaitingReaders (mx s) = cnt {RWaiting, RWoken} (pcs s)
     \<and> numWaitingWriters (mx s) = cnt {WWaiting, WWoken} (pcs s)
     \<and> (cnt {Writing} (pcs s) = 0 \<and> refCount (mx s) = cnt {Reading} (pcs s)
        \<or> cnt {Writing} (pcs s) = 1 \<and> cnt {Reading} (pcs s) = 0 \<and> refCount (mx s) = -1)"

text \<open>No wake-up is lost: a free lock has woken somebody if anybody waits for it.\<close>

definition rw_woken :: "rwsys \<Rightarrow> bool" where
  "rw_woken s \<longleftrightarrow>
     (refCount (mx s) = 0 \<and> 0 < numWaitingWriters (mx s) \<longrightarrow> WWoken \<in> set (pcs s))
     \<and> (0 \<le> refCount (mx s) \<and> numWaitingWriters (mx s) = 0 \<longrightarrow> RWaiting \<notin> set (pcs s))"

definition rw_inv :: "rwsys \<Rightarrow> bool" where
  "rw_inv s \<longleftrightarrow> rw_counts s \<and> rw_woken s"

lemmas rw_op_defs = acquireRead_def acquireRead_resume_def acquireWrite_def
  acquireWrite_resume_def tryAcquireRead_def tryAcquireWrite_def rw_release_def set_pc_def

lemma rw_holder:
  assumes "rw_counts s" and "i < length (pcs s)" and "pcs s ! i \<in> {Reading, Writing}"
  shows "(pcs s ! i = Reading \<and> cnt {Writing} (pcs s) = 0 \<and> 0 < refCount (mx s)
            \<and> refCount (mx s) = cnt {Reading} (pcs s))
       \<or> (pcs s ! i = Writing \<and> cnt {Writing} (pcs s) = 1 \<and> cnt {Reading} (pcs s) = 0
            \<and> refCount (mx s) = -1)"
  using assms cnt_pos [of i "pcs s" "{Reading}"] cnt_pos [of i "pcs s" "{Writing}"]
  by (auto simp: rw_counts_def)

lemma rw_release_holder:
  assumes "rw_counts s" and "i < length (pcs s)" and "pcs s ! i \<in> {Reading, Writing}"
  shows "fst (rw_release (mx s)) \<noteq> Threw e"
    and "rw_counts (s\<lparr>mx := snd (rw_release (mx s)), pcs := (pcs s)[i := Idle]\<rparr>)"
  using rw_holder [OF assms] assms
  by (auto simp: rw_counts_def rw_op_defs cnt_update Let_def)

lemma rw_counts_wake:
  "rw_counts s \<Longrightarrow> rw_counts (s\<lparr>pcs := wake_readers (pcs s)\<rparr>)"
  "rw_counts s \<Longrightarrow> j < length (pcs s) \<Longrightarrow> pcs s ! j = WWaiting \<Longrightarrow> rw_counts (s\<lparr>pcs := (pcs s)[j := WWoken]\<rparr>)"
  "rw_counts s \<Longrightarrow> j < length (pcs s) \<Longrightarrow> pcs s ! j = RWaiting \<Longrightarrow> rw_counts (s\<lparr>pcs := (pcs s)[j := RWoken]\<rparr>)"
  by (auto simp: rw_counts_def cnt_update cnt_wake_readers)

lemma rw_step_counts:
  assumes "rw_counts s" and "rw_step s t"
  shows "rw_counts t"
  using assms(2,1)
proof (induction rule: rw_step.induct)
  case (release_nobody i s m)
  then show ?case using rw_release_holder(2) [of s i] by (simp add: set_pc_def)
next
  case (release_readers i s m)
  then show ?case
    using rw_counts_wake(1) [OF rw_release_holder(2) [of s i]] by simp
next
  case (release_writer i s m j)
  then have "i \<noteq> j" by auto
  with release_writer show ?case
    using rw_counts_wake(2) [OF rw_release_holder(2) [of s i], of j] by simp
next
  case (release_writer_lost i s m)
  then show ?case using rw_release_holder(2) [of s i] by (simp add: set_pc_def)
next
  case (release_error i s e m)
  then show ?case using rw_release_holder(1) [of s i e] by simp
next
  case (spurious_reader i s)
  then show ?case using rw_counts_wake(3) [of s i] by (simp add: set_pc_def)
next
  case (spurious_writer i s)
  then show ?case using rw_counts_wake(2) [of s i] by (simp add: set_pc_def)
qed (auto simp: rw_counts_def rw_op_defs cnt_update split: if_splits)

lemma set_update_iff:
  "i < length ps \<Longrightarrow> q \<noteq> ps ! i \<Longrightarrow> q \<in> set (ps[i := p]) \<longleftrightarrow> q = p \<or> q \<in> set ps"
  by (auto simp: in_set_conv_nth nth_list_update)

lemma rw_step_woken:
  assumes "rw_inv s" and "rw_step s t"
  shows "rw_woken t"
  using assms(2,1)
proof (induction rule: rw_step.induct)
  case (release_readers i s m)
  then show ?case
    using rw_holder [of s i]
    by (auto simp: rw_inv_def rw_woken_def rw_op_defs Let_def split: if_splits)
next
  case (release_writer i s m j)
  then have "i \<noteq> j" by auto
  with release_writer show ?case
    using rw_holder [of s i]
    by (auto simp: rw_inv_def rw_woken_def rw_op_defs Let_def set_update_iff set_update_memI
        split: if_splits)
next
  case (release_writer_lost i s m)
  from release_writer_lost have "0 < cnt {WWaiting, WWoken} (pcs s)"
    using rw_holder [of s i] by (auto simp: rw_inv_def rw_counts_def rw_op_defs Let_def split: if_splits)
  then have "WWoken \<in> set (pcs s)" using release_writer_lost by (auto simp: cnt_pos_iff)
  with release_writer_lost show ?case
    using rw_holder [of s i]
    by (auto simp: rw_inv_def rw_woken_def rw_op_defs Let_def set_update_iff split: if_splits)
next
  case (release_nobody i s m)
  then have "RWaiting \<notin> set (pcs s)"
    using rw_holder [of s i] cnt_pos_iff [of "{RWaiting, RWoken}" "pcs s"]
    by (auto simp: rw_inv_def rw_counts_def rw_op_defs Let_def split: if_splits)
  with release_nobody show ?case
    using rw_holder [of s i]
    by (auto simp: rw_inv_def rw_woken_def rw_op_defs Let_def set_update_iff split: if_splits)
next
  case (release_error i s e m)
  then show ?case using rw_release_holder(1) [of s i e] by (simp add: rw_inv_def)
next
  case (spurious_reader i s)
  then show ?case
    by (auto simp: rw_inv_def rw_woken_def set_pc_def set_update_iff dest!: nth_mem)
next
  case (spurious_writer i s)
  then show ?case
    by (auto simp: rw_inv_def rw_woken_def set_pc_def set_update_iff set_update_memI)
qed (auto simp: rw_inv_def rw_woken_def rw_counts_def rw_op_defs set_update_iff set_update_memI
      split: if_splits)

interpretation rw: transition_system "rw_init n" rw_step rw_inv for n
proof unfold_locales
  fix s assume "rw_init n s"
  then show "rw_inv s"
    by (auto simp: rw_init_def rw_inv_def rw_counts_def rw_woken_def rwmutex_init_def
        cnt_replicate_Idle)
next
  fix s t assume "rw_inv s" and "rw_step s t"
  then show "rw_inv t"
    using rw_step_counts rw_step_woken by (auto simp: rw_inv_def)
qed

section \<open>What the lock promises\<close>

lemma cnt_card: "cnt {p} ps = int (card {i. i < length ps \<and> ps ! i = p})"
  unfolding cnt_def length_filter_conv_card by simp

lemma cnt_one_ex1:
  assumes "cnt {p} ps = 1"
  shows "\<exists>!i. i < length ps \<and> ps ! i = p"
proof -
  have "card {i. i < length ps \<and> ps ! i = p} = 1" using assms unfolding cnt_card of_nat_eq_1_iff .
  then obtain i where "{i. i < length ps \<and> ps ! i = p} = {i}" by (rule card_1_singletonE)
  then have "(j < length ps \<and> ps ! j = p) = (j = i)" for j by (simp add: set_eq_iff)
  then show ?thesis by simp
qed

text \<open>
  C3. Mutual exclusion: in every state any number of threads can reach, either exactly one
  thread writes, no thread reads and the reference count is -1, or no thread writes and
  the reference count is the number of threads that read.
\<close>

theorem rw_mutual_exclusion:
  assumes "reach (rw_init n) rw_step s"
  shows "(\<exists>!i. i < length (pcs s) \<and> pcs s ! i = Writing) \<and> Reading \<notin> set (pcs s)
      \<and> refCount (mx s) = -1
    \<or> Writing \<notin> set (pcs s)
      \<and> refCount (mx s) = int (card {i. i < length (pcs s) \<and> pcs s ! i = Reading})"
proof -
  have c: "rw_counts s" using rw.reach_inv [OF assms] by (simp add: rw_inv_def)
  have n: "q \<notin> set (pcs s)" if "cnt {q} (pcs s) = 0" for q
    using that cnt_pos_iff [of "{q}" "pcs s"] by auto
  show ?thesis
  proof (cases "cnt {Writing} (pcs s) = 0")
    case True
    then show ?thesis using c n cnt_card [of Reading "pcs s"] unfolding rw_counts_def by simp
  next
    case False
    then show ?thesis using c n cnt_one_ex1 [of Writing "pcs s"] unfolding rw_counts_def by blast
  qed
qed

lemma rw_reach_one_writer:
  "reach (rw_init 2) rw_step \<lparr>mx = rwmutex_init\<lparr>refCount := -1\<rparr>, pcs = [Writing, Idle]\<rparr>"
  using reach.reach_step [OF reach.reach_init [of "rw_init 2" "\<lparr>mx = rwmutex_init, pcs = [Idle, Idle]\<rparr>" rw_step]
      rw_step.write_enter [of 0]]
  by (simp add: rw_init_def numeral_2_eq_2 acquireWrite_def rwmutex_init_def set_pc_def)

text \<open>Two readers are inside and a writer waits for them.\<close>

definition rw_two_readers :: rwsys where
  "rw_two_readers = \<lparr>mx = rwmutex_init\<lparr>refCount := 2, numWaitingWriters := 1\<rparr>,
     pcs = [Reading, Reading, WWaiting]\<rparr>"

lemma rw_reach_two_readers: "reach (rw_init 3) rw_step rw_two_readers"
proof -
  let ?s = "\<lambda>m ps. \<lparr>mx = m, pcs = ps\<rparr>"
  have "reach (rw_init 3) rw_step (?s rwmutex_init [Idle, Idle, Idle])"
    by (rule reach.reach_init) (simp add: rw_init_def numeral_3_eq_3)
  then have "reach (rw_init 3) rw_step (?s (rwmutex_init\<lparr>refCount := 1\<rparr>) [Reading, Idle, Idle])"
    by (rule reach.reach_step)
      (use rw_step.read_enter [of 0 "?s rwmutex_init [Idle, Idle, Idle]"] in
        \<open>simp add: acquireRead_def rwmutex_init_def set_pc_def\<close>)
  then have "reach (rw_init 3) rw_step (?s (rwmutex_init\<lparr>refCount := 2\<rparr>) [Reading, Reading, Idle])"
    by (rule reach.reach_step)
      (use rw_step.read_enter [of 1 "?s (rwmutex_init\<lparr>refCount := 1\<rparr>) [Reading, Idle, Idle]"] in
        \<open>simp add: acquireRead_def rwmutex_init_def set_pc_def\<close>)
  then show ?thesis
    by (rule reach.reach_step)
      (use rw_step.write_enter [of 2 "?s (rwmutex_init\<lparr>refCount := 2\<rparr>) [Reading, Reading, Idle]" False] in
        \<open>simp add: acquireWrite_def rwmutex_init_def set_pc_def rw_two_readers_def\<close>)
qed

theorem rw_mutual_exclusion_witness:
  "reach (rw_init 3) rw_step rw_two_readers \<and> pcs rw_two_readers = [Reading, Reading, WWaiting]
    \<and> refCount (mx rw_two_readers) = 2
    \<and> refCount (mx rw_two_readers)
        = int (card {i. i < length (pcs rw_two_readers) \<and> pcs rw_two_readers ! i = Reading})"
  using rw_mutual_exclusion [OF rw_reach_two_readers] rw_reach_two_readers
  by (simp add: rw_two_readers_def)

text \<open>
  C37. No wake-up is lost and no correct caller gets an exception: whenever the lock is
  free and some thread waits for it, a thread has been woken whose next test of its loop
  condition lets it in; and a thread that holds the lock can release it without error.
\<close>

theorem rw_no_lost_wakeup:
  assumes "reach (rw_init n) rw_step s" and "i < length (pcs s)"
  shows "(pcs s ! i \<in> {RWaiting, WWaiting} \<and> refCount (mx s) = 0 \<longrightarrow>
      (\<exists>j < length (pcs s). pcs s ! j = RWoken \<and> fst (acquireRead_resume (mx s))
          \<or> pcs s ! j = WWoken \<and> fst (acquireWrite_resume (mx s))))
    \<and> (pcs s ! i \<in> {Reading, Writing} \<longrightarrow> (\<exists>w. fst (rw_release (mx s)) = Released w))"
proof -
  have inv: "rw_counts s" "rw_woken s" using rw.reach_inv [OF assms(1)] by (simp_all add: rw_inv_def)
  have "\<exists>j < length (pcs s). pcs s ! j = RWoken \<and> fst (acquireRead_resume (mx s))
          \<or> pcs s ! j = WWoken \<and> fst (acquireWrite_resume (mx s))"
    if w: "pcs s ! i \<in> {RWaiting, WWaiting}" "refCount (mx s) = 0"
  proof -
    have "0 < cnt {WWaiting, WWoken} (pcs s)"
    proof (rule ccontr)
      assume n: "\<not> 0 < cnt {WWaiting, WWoken} (pcs s)"
      then have "cnt {WWaiting, WWoken} (pcs s) = 0"
        using cnt_simps(3) [of "{WWaiting, WWoken}" "pcs s"] by linarith
      then have "RWaiting \<notin> set (pcs s)"
        using inv w(2) by (simp add: rw_woken_def rw_counts_def)
      then have "pcs s ! i = WWaiting" using w(1) nth_mem [OF assms(2)] by auto
      then show False using n cnt_pos [OF assms(2), of "{WWaiting, WWoken}"] by simp
    qed
    then have "WWoken \<in> set (pcs s)" using inv w(2) by (simp add: rw_woken_def rw_counts_def)
    then show ?thesis
      using w(2) by (auto simp: in_set_conv_nth acquireWrite_resume_def acquireWrite_def)
  qed
  moreover have "\<exists>w. fst (rw_release (mx s)) = Released w" if "pcs s ! i \<in> {Reading, Writing}"
    using rw_release_holder(1) [OF inv(1) assms(2) that]
    by (cases "fst (rw_release (mx s))") auto
  ultimately show ?thesis by blast
qed

theorem rw_no_lost_wakeup_witness:
  "\<exists>w. fst (rw_release (rwmutex_init\<lparr>refCount := -1\<rparr>)) = Released w"
  using rw_no_lost_wakeup [OF rw_reach_one_writer, of 0] by simp

text \<open>
  Writers have priority: while a writer waits no reader gets in, by the blocking or by
  the non-blocking operation; a failed attempt leaves the lock state as it was but for the
  count of waiting readers.
\<close>

lemma rw_writer_priority:
  assumes "0 < numWaitingWriters m"
  shows "acquireRead m = (False, m\<lparr>numWaitingReaders := numWaitingReaders m + 1\<rparr>)
    \<and> tryAcquireRead m = (False, m)"
  using assms by (simp add: acquireRead_def tryAcquireRead_def)

lemma rw_writer_priority_example:
  "tryAcquireRead (rwmutex_init\<lparr>numWaitingWriters := 1\<rparr>)
     = (False, rwmutex_init\<lparr>numWaitingWriters := 1\<rparr>)"
  using rw_writer_priority [of "rwmutex_init\<lparr>numWaitingWriters := 1\<rparr>"] by simp

text \<open>
  Releasing a lock nobody holds throws with \<^verbatim>\<open>stateLock\<close> still locked, and from then on
  no thread of the program ever acquires or releases the lock again.
\<close>

lemma rw_locked_step: "rw_step s t \<Longrightarrow> stateLocked (mx s) \<Longrightarrow>
   stateLocked (mx t) \<and> cnt {Reading} (pcs t) = cnt {Reading} (pcs s)
     \<and> cnt {Writing} (pcs t) = cnt {Writing} (pcs s)"
  by (induction rule: rw_step.induct) (auto simp: set_pc_def cnt_update)

lemma rw_locked_run: "rw_step\<^sup>*\<^sup>* s t \<Longrightarrow> stateLocked (mx s) \<Longrightarrow>
   stateLocked (mx t) \<and> cnt {Reading} (pcs t) = cnt {Reading} (pcs s)
     \<and> cnt {Writing} (pcs t) = cnt {Writing} (pcs s)"
  by (induction rule: rtranclp_induct) (auto dest: rw_locked_step)

theorem rw_release_unheld_wedges:
  assumes "refCount m = 0" and "rw_release m = (out, m')"
    and "rw_step\<^sup>*\<^sup>* \<lparr>mx = m', pcs = ps\<rparr> t"
  shows "out = Threw (LockError ''Should not have a refCount of 0!'')
    \<and> cnt {Reading} (pcs t) = cnt {Reading} ps \<and> cnt {Writing} (pcs t) = cnt {Writing} ps"
  using assms rw_locked_run [OF assms(3)] by (auto simp: rw_release_def)

theorem rw_release_unheld_wedges_witness:
  "fst (rw_release rwmutex_init) = Threw (LockError ''Should not have a refCount of 0!'')"
  using rw_release_unheld_wedges [of rwmutex_init, OF _ prod.collapse [symmetric] rtranclp.rtrancl_refl]
  by (simp add: rwmutex_init_def)

end
