(* ===== verification/CallProfile.thy ===== *)
theory CallProfile
  imports VprInterval
begin

text \<open>
  The call profiler (\<^verbatim>\<open>vpr/Perf/ProfileNode.h\<close>, \<^verbatim>\<open>ProfileNode.cpp\<close>, \<^verbatim>\<open>ProfileManager.h\<close>,
  \<^verbatim>\<open>ProfileManager.cpp\<close>, \<^verbatim>\<open>ProfileIterator.cpp\<close>): one thread's tree of nodes with the node
  that is running now.

  The nodes live in a heap, a list; a node pointer is an index, \<open>None\<close> is \<^verbatim>\<open>NULL\<close> and node
  0 is \<^verbatim>\<open>mRoot\<close>.  A name is a pointer to a character string: the profiler compares the
  pointers, so a name is a number here, and \<open>name_text\<close> (an argument) is the string it
  points to.  The time \<^verbatim>\<open>setNow\<close> reads is an argument.  Loops along sibling pointers take
  the number of nodes as fuel; the invariant shows that is enough.  The counter of running
  calls is a C++ \<^verbatim>\<open>int\<close>, whose overflow is undefined; the model keeps it unbounded, so it says
  nothing of a node with \<open>2 ^ 31\<close> calls running at once.
\<close>

record pnode =
  mName :: nat
  mTotalCalls :: u32
  mTotalTime :: interval
  mLastSample :: interval
  mHistory :: "interval list"
  mMaxHistorySize :: u32
  mStartTime :: interval
  mRecursionCounter :: int
  mParent :: "nat option"
  mChild :: "nat option"
  mSibling :: "nat option"

type_synonym pheap = "pnode list"

definition zero_interval :: interval where
  "zero_interval = interval_set 0 Base"

definition pnode_new :: "nat \<Rightarrow> u32 \<Rightarrow> pnode" where
  "pnode_new name queue_size =
     \<lparr>mName = name, mTotalCalls = 0, mTotalTime = zero_interval, mLastSample = zero_interval,
      mHistory = [], mMaxHistorySize = queue_size, mStartTime = zero_interval,
      mRecursionCounter = 0, mParent = None, mChild = None, mSibling = None\<rparr>"

definition upd_node :: "nat \<Rightarrow> (pnode \<Rightarrow> pnode) \<Rightarrow> pheap \<Rightarrow> pheap" where
  "upd_node i f h = h[i := f (h ! i)]"

text \<open>A walk along sibling pointers that does not end has no result.\<close>

definition endless :: failure where
  "endless = Undefined ''cycle of sibling pointers''"

fun last_sibling :: "nat \<Rightarrow> pheap \<Rightarrow> nat \<Rightarrow> nat result" where
  "last_sibling 0 h i = Inl endless"
| "last_sibling (Suc fuel) h i =
     (case mSibling (h ! i) of None \<Rightarrow> Inr i | Some j \<Rightarrow> last_sibling fuel h j)"

definition addChild :: "nat \<Rightarrow> nat \<Rightarrow> pheap \<Rightarrow> pheap result" where
  "addChild this newNode h =
     (let h1 = upd_node newNode (\<lambda>n. n\<lparr>mParent := Some this\<rparr>) h in
      case mChild (h1 ! this) of
        None \<Rightarrow> Inr (upd_node newNode (\<lambda>n. n\<lparr>mSibling := None\<rparr>)
                  (upd_node this (\<lambda>n. n\<lparr>mChild := Some newNode\<rparr>) h1))
      | Some c \<Rightarrow>
          rbind (last_sibling (length h1) h1 c) (\<lambda>last_child.
          Inr (upd_node newNode (\<lambda>n. n\<lparr>mSibling := None\<rparr>)
                (upd_node last_child (\<lambda>n. n\<lparr>mSibling := Some newNode\<rparr>) h1))))"

text \<open>The search the three lookups share, from a child along its siblings.\<close>

fun find_sibling :: "nat \<Rightarrow> (pnode \<Rightarrow> bool) \<Rightarrow> pheap \<Rightarrow> nat option \<Rightarrow> nat option result" where
  "find_sibling fuel P h None = Inr None"
| "find_sibling 0 P h (Some i) = Inl endless"
| "find_sibling (Suc fuel) P h (Some i) =
     (if P (h ! i) then Inr (Some i) else find_sibling fuel P h (mSibling (h ! i)))"

definition getChild :: "nat \<Rightarrow> nat \<Rightarrow> pheap \<Rightarrow> nat option result" where
  "getChild this nodeName h =
     find_sibling (length h) (\<lambda>n. mName n = nodeName) h (mChild (h ! this))"

definition getNamedChild :: "(nat \<Rightarrow> string) \<Rightarrow> nat \<Rightarrow> string \<Rightarrow> pheap \<Rightarrow> nat option result" where
  "getNamedChild name_text this needed_name h =
     find_sibling (length h) (\<lambda>n. needed_name = name_text (mName n)) h (mChild (h ! this))"

definition getSubNode :: "nat \<Rightarrow> nat \<Rightarrow> u32 \<Rightarrow> pheap \<Rightarrow> (nat \<times> pheap) result" where
  "getSubNode this profileName queueSize h =
     rbind (find_sibling (length h) (\<lambda>n. mName n = profileName) h (mChild (h ! this))) (\<lambda>found.
     case found of
       Some child \<Rightarrow> Inr (child, h)
     | None \<Rightarrow>
         let node = length h in
         rbind (addChild this node (h @ [pnode_new profileName queueSize])) (\<lambda>h'. Inr (node, h')))"

text \<open>\<^verbatim>\<open>reset\<close> goes down to the child and along to the sibling.\<close>

fun node_reset :: "nat \<Rightarrow> nat option \<Rightarrow> pheap \<Rightarrow> pheap result" where
  "node_reset fuel None h = Inr h"
| "node_reset 0 (Some i) h = Inl endless"
| "node_reset (Suc fuel) (Some i) h =
     (let h1 = upd_node i (\<lambda>n. n\<lparr>mTotalCalls := 0, mTotalTime := zero_interval,
                 mLastSample := zero_interval, mHistory := []\<rparr>) h
      in rbind (node_reset fuel (mChild (h1 ! i)) h1) (node_reset fuel (mSibling (h1 ! i))))"

definition startSample :: "interval \<Rightarrow> pnode \<Rightarrow> pnode" where
  "startSample now n =
     (let n1 = n\<lparr>mTotalCalls := mTotalCalls n + 1, mRecursionCounter := mRecursionCounter n + 1\<rparr>
      in if mRecursionCounter n = 0 then n1\<lparr>mStartTime := now\<rparr> else n1)"

definition stopSample :: "interval \<Rightarrow> pnode \<Rightarrow> bool \<times> pnode" where
  "stopSample now n =
     (let n1 = n\<lparr>mRecursionCounter := mRecursionCounter n - 1\<rparr>;
          n2 = (if mRecursionCounter n1 = 0 \<and> mTotalCalls n1 \<noteq> 0
                then let last = now - mStartTime n1;
                         history = (if mMaxHistorySize n1 \<noteq> 0
                                    then take (unat (mMaxHistorySize n1)) (last # mHistory n1)
                                    else mHistory n1)
                     in n1\<lparr>mLastSample := last, mHistory := history, mTotalTime := mTotalTime n1 + last\<rparr>
                else n1)
      in (mRecursionCounter n2 = 0, n2))"

definition getAverage :: "pnode \<Rightarrow> interval" where
  "getAverage n =
     (if mTotalCalls n = 0 then zero_interval
      else interval_set (getBaseVal (mTotalTime n) div ucast (mTotalCalls n)) Base)"

definition getSTA :: "pnode \<Rightarrow> interval" where
  "getSTA n =
     (if mMaxHistorySize n = 0 \<or> mHistory n = [] then mLastSample n
      else interval_set (getBaseVal (foldl (+) zero_interval (mHistory n))
             div of_nat (length (mHistory n))) Base)"

section \<open>The manager\<close>

record profile =
  pNodes :: pheap
  mCurrentNode :: "nat option"
  mResetTime :: interval

definition profile_new :: "nat \<Rightarrow> profile" where
  "profile_new root_name =
     \<lparr>pNodes = [pnode_new root_name 0], mCurrentNode = Some 0, mResetTime = zero_interval\<rparr>"

definition startProfile :: "interval \<Rightarrow> nat \<Rightarrow> u32 \<Rightarrow> profile \<Rightarrow> profile result" where
  "startProfile now profileName queueSize d =
     (case mCurrentNode d of
        None \<Rightarrow> Inl (Undefined ''null current node'')
      | Some cur \<Rightarrow>
          rbind (if profileName \<noteq> mName (pNodes d ! cur)
                 then getSubNode cur profileName queueSize (pNodes d)
                 else Inr (cur, pNodes d)) (\<lambda>(cur', h).
          Inr (d\<lparr>pNodes := upd_node cur' (startSample now) h, mCurrentNode := Some cur'\<rparr>)))"

definition stopProfile :: "interval \<Rightarrow> profile \<Rightarrow> profile result" where
  "stopProfile now d =
     (case mCurrentNode d of
        None \<Rightarrow> Inl (Undefined ''null current node'')
      | Some cur \<Rightarrow>
          (let (finished, n) = stopSample now (pNodes d ! cur);
               d1 = d\<lparr>pNodes := (pNodes d)[cur := n]\<rparr>
           in Inr (if finished then d1\<lparr>mCurrentNode := mParent n\<rparr> else d1)))"

definition profile_reset :: "interval \<Rightarrow> profile \<Rightarrow> profile result" where
  "profile_reset now d =
     rbind (node_reset (length (pNodes d)) (Some 0) (pNodes d)) (\<lambda>h.
     Inr (d\<lparr>pNodes := h, mResetTime := now\<rparr>))"

definition prof_next :: "interval \<Rightarrow> interval \<Rightarrow> nat \<Rightarrow> u32 \<Rightarrow> profile \<Rightarrow> profile result" where
  "prof_next now now' name histSize d =
     rbind (stopProfile now d) (startProfile now' name histSize)"

fun getNames :: "nat \<Rightarrow> nat option \<Rightarrow> pheap \<Rightarrow> nat list result" where
  "getNames fuel None h = Inr []"
| "getNames 0 (Some i) h = Inl endless"
| "getNames (Suc fuel) (Some i) h =
     rbind (getNames fuel (mSibling (h ! i)) h) (\<lambda>before.
     rbind (getNames fuel (mChild (h ! i)) h) (\<lambda>after.
     Inr (before @ [mName (h ! i)] @ after)))"

section \<open>The iterator\<close>

record profile_iterator =
  mCurrentParent :: "nat option"
  itNode :: "nat option"
  mDepth :: u32

definition iterator_new :: "nat option \<Rightarrow> pheap \<Rightarrow> profile_iterator" where
  "iterator_new start h =
     \<lparr>mCurrentParent = (case start of None \<Rightarrow> None | Some i \<Rightarrow> mParent (h ! i)),
      itNode = start, mDepth = 0\<rparr>"

text \<open>The climb to the next ancestor with a sibling, and how far it went.\<close>

fun climb :: "nat \<Rightarrow> pheap \<Rightarrow> nat option \<Rightarrow> u32 \<Rightarrow> (nat option \<times> u32) result" where
  "climb fuel h None depth = Inr (None, depth)"
| "climb 0 h (Some p) depth = Inl (Undefined ''cycle of parent pointers'')"
| "climb (Suc fuel) h (Some p) depth =
     (if mSibling (h ! p) = None then climb fuel h (mParent (h ! p)) (depth - 1)
      else Inr (Some p, depth))"

definition iterator_next :: "pheap \<Rightarrow> profile_iterator \<Rightarrow> profile_iterator result" where
  "iterator_next h it =
     (case itNode it of
        None \<Rightarrow> Inl (Undefined ''null node'')
      | Some cur \<Rightarrow>
          (case mChild (h ! cur) of
             Some c \<Rightarrow> Inr \<lparr>mCurrentParent = Some cur, itNode = Some c, mDepth = mDepth it + 1\<rparr>
           | None \<Rightarrow>
               (case mSibling (h ! cur) of
                  Some s \<Rightarrow>
                    rbind (require (mParent (h ! s) = mCurrentParent it)
                             (AssertionFailed ''mCurrentNode->getParent() == mCurrentParent''))
                      (\<lambda>_. Inr (it\<lparr>itNode := Some s\<rparr>))
                | None \<Rightarrow>
                    rbind (climb (length h) h (mCurrentParent it) (mDepth it - 1)) (\<lambda>(cur_parent, depth).
                    let depth = (if depth > 10000 then 0 else depth) in
                    case cur_parent of
                      None \<Rightarrow> Inr \<lparr>mCurrentParent = None, itNode = None, mDepth = 0\<rparr>
                    | Some p \<Rightarrow>
                        (case mSibling (h ! p) of
                           None \<Rightarrow> Inl (Undefined ''null sibling'')
                         | Some s \<Rightarrow> Inr \<lparr>mCurrentParent = mParent (h ! s), itNode = Some s,
                                        mDepth = depth\<rparr>)))))"

section \<open>Walks along siblings\<close>

text \<open>
  Children are allocated after their parent and after the siblings before them, so every
  pointer goes to a larger index; each node but the root is its parent's first child or
  the sibling of a node before it.
\<close>

definition heap_ok :: "pheap \<Rightarrow> bool" where
  "heap_ok h \<longleftrightarrow> h \<noteq> [] \<and> mParent (h ! 0) = None
     \<and> (\<forall>i < length h. \<forall>j. mChild (h ! i) = Some j \<longrightarrow> i < j \<and> j < length h \<and> mParent (h ! j) = Some i)
     \<and> (\<forall>i < length h. \<forall>j. mSibling (h ! i) = Some j \<longrightarrow>
          i < j \<and> j < length h \<and> mParent (h ! j) = mParent (h ! i))
     \<and> (\<forall>i < length h. i \<noteq> 0 \<longrightarrow> (\<exists>p < i. mParent (h ! i) = Some p
          \<and> (mChild (h ! p) = Some i \<or> (\<exists>k < i. mSibling (h ! k) = Some i \<and> mParent (h ! k) = Some p))))"

inductive chain :: "pheap \<Rightarrow> nat \<Rightarrow> nat \<Rightarrow> bool" for h where
  chain_refl: "chain h i i"
| chain_step: "chain h i j \<Longrightarrow> mSibling (h ! j) = Some k \<Longrightarrow> chain h i k"

inductive_cases chainE: "chain h i j"

lemma heap_ok_root: "heap_ok h \<Longrightarrow> h \<noteq> [] \<and> mParent (h ! 0) = None"
  unfolding heap_ok_def by blast

lemma heap_ok_child:
  "heap_ok h \<Longrightarrow> i < length h \<Longrightarrow> mChild (h ! i) = Some j \<Longrightarrow> i < j \<and> j < length h \<and> mParent (h ! j) = Some i"
  unfolding heap_ok_def by blast

lemma heap_ok_sibling:
  "heap_ok h \<Longrightarrow> i < length h \<Longrightarrow> mSibling (h ! i) = Some j
    \<Longrightarrow> i < j \<and> j < length h \<and> mParent (h ! j) = mParent (h ! i)"
  unfolding heap_ok_def by blast

lemma heap_ok_pred:
  "heap_ok h \<Longrightarrow> i < length h \<Longrightarrow> i \<noteq> 0 \<Longrightarrow> \<exists>p < i. mParent (h ! i) = Some p
    \<and> (mChild (h ! p) = Some i \<or> (\<exists>k < i. mSibling (h ! k) = Some i \<and> mParent (h ! k) = Some p))"
  unfolding heap_ok_def by blast

lemma chain_next:
  assumes "chain h j k" and "mSibling (h ! i) = Some j"
  shows "chain h i k"
  using assms
proof (induction rule: chain.induct)
  case (chain_refl j)
  then show ?case by (rule chain.chain_step [OF chain.chain_refl])
next
  case (chain_step j k l)
  then show ?case by (blast intro: chain.chain_step)
qed

lemma chain_split:
  "chain h i k \<Longrightarrow> mSibling (h ! i) = Some j \<Longrightarrow> k = i \<or> chain h j k"
  by (induction rule: chain.induct) (auto intro: chain.intros)

lemma chain_parent:
  "chain h i j \<Longrightarrow> heap_ok h \<Longrightarrow> i < length h \<Longrightarrow> i \<le> j \<and> j < length h \<and> mParent (h ! j) = mParent (h ! i)"
proof (induction rule: chain.induct)
  case (chain_step i j k)
  then have j: "i \<le> j" "j < length h" "mParent (h ! j) = mParent (h ! i)" by auto
  then show ?case using heap_ok_sibling [OF chain_step(4) j(2) chain_step(2)] by simp
qed simp

lemma last_sibling_ok:
  assumes "heap_ok h"
  shows "i < length h \<Longrightarrow> length h \<le> i + fuel \<Longrightarrow>
    \<exists>l. last_sibling fuel h i = Inr l \<and> chain h i l \<and> mSibling (h ! l) = None"
proof (induction fuel arbitrary: i)
  case (Suc fuel)
  show ?case
  proof (cases "mSibling (h ! i)")
    case None
    then show ?thesis by (auto intro: chain.intros)
  next
    case (Some j)
    then have j: "i < j" "j < length h" using heap_ok_sibling [OF assms Suc.prems(1)] by auto
    then obtain l where "last_sibling fuel h j = Inr l" "chain h j l" "mSibling (h ! l) = None"
      using Suc.IH [of j] Suc.prems(2) by auto
    then show ?thesis using Some chain_next [of h j] by auto
  qed
qed simp

lemma find_sibling_ok:
  assumes "heap_ok h"
  shows "i < length h \<Longrightarrow> length h \<le> i + fuel \<Longrightarrow>
    (\<exists>k. find_sibling fuel P h (Some i) = Inr (Some k) \<and> chain h i k \<and> P (h ! k))
    \<or> find_sibling fuel P h (Some i) = Inr None \<and> (\<forall>k. chain h i k \<longrightarrow> \<not> P (h ! k))"
proof (induction fuel arbitrary: i)
  case (Suc fuel)
  show ?case
  proof (cases "P (h ! i)")
    case True
    then show ?thesis by (auto intro: chain.intros)
  next
    case False
    show ?thesis
    proof (cases "mSibling (h ! i)")
      case None
      have "k = i" if "chain h i k" for k
        using that None by (induction rule: chain.induct) auto
      then show ?thesis using False None by auto
    next
      case (Some j)
      then have j: "i < j" "j < length h" using heap_ok_sibling [OF assms Suc.prems(1)] by auto
      have "(\<exists>k. find_sibling fuel P h (Some j) = Inr (Some k) \<and> chain h j k \<and> P (h ! k))
        \<or> find_sibling fuel P h (Some j) = Inr None \<and> (\<forall>k. chain h j k \<longrightarrow> \<not> P (h ! k))"
        using Suc.IH [of j] j Suc.prems(2) by simp
      then show ?thesis
      proof (elim disjE exE conjE)
        fix k assume "find_sibling fuel P h (Some j) = Inr (Some k)" "chain h j k" "P (h ! k)"
        then show ?thesis using False Some chain_next [of h j k i] by auto
      next
        assume none: "find_sibling fuel P h (Some j) = Inr None" "\<forall>k. chain h j k \<longrightarrow> \<not> P (h ! k)"
        then have "\<not> P (h ! k)" if "chain h i k" for k
          using chain_split [OF that Some] False by blast
        then show ?thesis using none(1) False Some by simp
      qed
    qed
  qed
qed simp

lemma child_chain:
  assumes "heap_ok h"
  shows "i < length h \<Longrightarrow> mParent (h ! i) = Some p \<Longrightarrow> \<exists>c. mChild (h ! p) = Some c \<and> chain h c i"
proof (induction i rule: less_induct)
  case (less i)
  have "i \<noteq> 0" using heap_ok_root [OF assms] less.prems(2) by (cases "i = 0") simp_all
  then consider "mChild (h ! p) = Some i" | k where "k < i" "mSibling (h ! k) = Some i" "mParent (h ! k) = Some p"
    using heap_ok_pred [OF assms less.prems(1)] less.prems(2) by auto
  then show ?case
  proof cases
    case 1
    then show ?thesis by (auto intro: chain.intros)
  next
    case 2
    then obtain c where "mChild (h ! p) = Some c" "chain h c k"
      using less.IH [of k] less.prems(1) by auto
    then show ?thesis using 2(2) by (auto intro: chain.intros)
  qed
qed

section \<open>Adding a child\<close>

lemma last_sibling_append:
  assumes "heap_ok h"
  shows "i < length h \<Longrightarrow> last_sibling fuel (h @ [n]) i = last_sibling fuel h i"
proof (induction fuel arbitrary: i)
  case (Suc fuel)
  then show ?case
    using heap_ok_sibling [OF assms Suc.prems] by (auto simp: nth_append split: option.split)
qed simp

text \<open>The two ways a new last child is linked: from its parent, or from the last child.\<close>

definition links_new :: "pheap \<Rightarrow> nat \<Rightarrow> nat \<Rightarrow> pnode \<Rightarrow> bool" where
  "links_new h c m n \<longleftrightarrow>
     m = c \<and> mChild (h ! c) = None \<and> n = (h ! c)\<lparr>mChild := Some (length h)\<rparr>
   \<or> mParent (h ! m) = Some c \<and> mSibling (h ! m) = None \<and> n = (h ! m)\<lparr>mSibling := Some (length h)\<rparr>"

lemma heap_ok_grow:
  assumes ok: "heap_ok h" and c: "c < length h" and m: "m < length h" and link: "links_new h c m n"
    and new: "mParent N = Some c" "mChild N = None" "mSibling N = None"
  shows "heap_ok ((h @ [N])[m := n])"
proof -
  let ?h = "(h @ [N])[m := n]"
  have at: "?h ! i = (if i = m then n else h ! i)" if "i < length h" for i
    using that m by (simp add: nth_list_update nth_append)
  have last: "?h ! length h = N" using m by (simp add: nth_list_update nth_append)
  have parent: "mParent (?h ! i) = mParent (h ! i)" if "i < length h" for i
    using at [OF that] link by (auto simp: links_new_def)
  have child: "mChild (?h ! i) = (if i = m \<and> m = c \<and> mChild (h ! c) = None \<and>
      n = (h ! c)\<lparr>mChild := Some (length h)\<rparr> then Some (length h) else mChild (h ! i))" if "i < length h" for i
    using at [OF that] link by (auto simp: links_new_def)
  have sibling: "mSibling (?h ! i) = mSibling (h ! i) \<or> i = m \<and> mSibling (?h ! i) = Some (length h)
      \<and> mParent (h ! m) = Some c \<and> mSibling (h ! m) = None" if "i < length h" for i
    using at [OF that] link by (auto simp: links_new_def)
  have R: "mParent (?h ! 0) = None"
    using parent [of 0] heap_ok_root [OF ok] by (cases h) auto
  have C: "i < j \<and> j < length ?h \<and> mParent (?h ! j) = Some i"
    if "i < length ?h" "mChild (?h ! i) = Some j" for i j
  proof (cases "i < length h")
    case True
    show ?thesis
    proof (cases "mChild (h ! i) = Some j")
      case True
      then show ?thesis using heap_ok_child [OF ok \<open>i < length h\<close>] parent [of j] by auto
    next
      case False
      then show ?thesis using child [OF True] that(2) last new(1) c by (auto split: if_splits)
    qed
  next
    case False
    then show ?thesis using that last new(2) by (simp add: less_Suc_eq)
  qed
  have S: "i < j \<and> j < length ?h \<and> mParent (?h ! j) = mParent (?h ! i)"
    if "i < length ?h" "mSibling (?h ! i) = Some j" for i j
  proof (cases "i < length h")
    case True
    show ?thesis
    proof (cases "mSibling (h ! i) = Some j")
      case True
      then show ?thesis
        using heap_ok_sibling [OF ok \<open>i < length h\<close>] parent [of j] parent [OF \<open>i < length h\<close>] by auto
    next
      case False
      then show ?thesis using sibling [OF True] that(2) parent [OF True] last new(1) True by auto
    qed
  next
    case False
    then show ?thesis using that last new(3) by (simp add: less_Suc_eq)
  qed
  have P: "\<exists>p < i. mParent (?h ! i) = Some p
      \<and> (mChild (?h ! p) = Some i \<or> (\<exists>k < i. mSibling (?h ! k) = Some i \<and> mParent (?h ! k) = Some p))"
    if "i < length ?h" "i \<noteq> 0" for i
  proof (cases "i < length h")
    case True
    have nz: "i \<noteq> 0" by (rule that(2))
    obtain p where p: "p < i" "mParent (h ! i) = Some p" "mChild (h ! p) = Some i
        \<or> (\<exists>k < i. mSibling (h ! k) = Some i \<and> mParent (h ! k) = Some p)"
      using heap_ok_pred [OF ok True nz] by blast
    have "p < length h" using p(1) True by simp
    have "mChild (h ! p) = Some i \<Longrightarrow> mChild (?h ! p) = Some i"
      using child [OF \<open>p < length h\<close>] by auto
    moreover have "mSibling (?h ! k) = Some i" if "k < i" "mSibling (h ! k) = Some i" for k
      using sibling [of k] that True by auto
    moreover have "mParent (?h ! k) = mParent (h ! k)" if "k < i" for k
      using parent [of k] that True by simp
    ultimately have "mChild (?h ! p) = Some i \<or> (\<exists>k < i. mSibling (?h ! k) = Some i \<and> mParent (?h ! k) = Some p)"
      using p(3) by auto
    moreover have "mParent (?h ! i) = Some p" using p(2) parent [OF True] by simp
    ultimately show ?thesis using p(1) by blast
  next
    case False
    then have i: "i = length h" using that(1) by simp
    have "mChild (?h ! c) = Some i \<or> (\<exists>k < i. mSibling (?h ! k) = Some i \<and> mParent (?h ! k) = Some c)"
      using link m at [OF m] i parent [OF m] by (auto simp: links_new_def)
    then show ?thesis using i c last new(1) by auto
  qed
  have "?h \<noteq> []" using c by auto
  then show ?thesis unfolding heap_ok_def using R C S P by blast
qed

text \<open>A node's own data: everything but its links to child and sibling.\<close>

definition own_data :: "pnode \<Rightarrow> pnode" where
  "own_data n = n\<lparr>mChild := None, mSibling := None\<rparr>"

lemma own_data_fields:
  assumes "own_data n = own_data n'"
  shows "mName n = mName n'" "mTotalCalls n = mTotalCalls n'" "mRecursionCounter n = mRecursionCounter n'"
    "mParent n = mParent n'"
  using assms by (cases n; cases n'; simp add: own_data_def)+

lemma getSubNode_ok:
  assumes ok: "heap_ok h" and c: "c < length h"
  shows "(\<exists>x < length h. getSubNode c name q h = Inr (x, h) \<and> mParent (h ! x) = Some c \<and> mName (h ! x) = name)
    \<or> (\<exists>h'. getSubNode c name q h = Inr (length h, h') \<and> heap_ok h' \<and> length h' = Suc (length h)
        \<and> (\<forall>i < length h. own_data (h' ! i) = own_data (h ! i))
        \<and> own_data (h' ! length h) = (pnode_new name q)\<lparr>mParent := Some c\<rparr>
        \<and> (\<forall>i < length h. mParent (h ! i) = Some c \<longrightarrow> mName (h ! i) \<noteq> name))"
proof -
  let ?P = "\<lambda>n. mName n = name" and ?N = "(pnode_new name q)\<lparr>mParent := Some c\<rparr>"
  have h1: "upd_node (length h) (\<lambda>n. n\<lparr>mParent := Some c\<rparr>) (h @ [pnode_new name q]) = h @ [?N]"
    by (simp add: upd_node_def)
  have grow: "\<exists>h'. h' = (h @ [?N])[m := n] \<and> heap_ok h' \<and> length h' = Suc (length h)
      \<and> (\<forall>i < length h. own_data (h' ! i) = own_data (h ! i)) \<and> own_data (h' ! length h) = ?N"
    if "m < length h" "links_new h c m n" for m n
  proof -
    have "heap_ok ((h @ [?N])[m := n])"
      by (rule heap_ok_grow [OF ok c that]) (simp_all add: pnode_new_def)
    moreover have "own_data n = own_data (h ! m)" using that(2) by (auto simp: links_new_def own_data_def)
    ultimately show ?thesis
      using that(1) by (simp add: nth_list_update nth_append) (simp add: own_data_def pnode_new_def)
  qed
  have new_sibling: "upd_node (length h) (\<lambda>n. n\<lparr>mSibling := None\<rparr>) ((h @ [?N])[m := n]) = (h @ [?N])[m := n]"
    if "m < length h" for m n
    using that by (intro nth_equalityI) (auto simp: upd_node_def nth_list_update nth_append pnode_new_def)
  show ?thesis
  proof (cases "mChild (h ! c)")
    case None
    let ?n = "(h ! c)\<lparr>mChild := Some (length h)\<rparr>"
    have "getSubNode c name q h = Inr (length h, (h @ [?N])[c := ?n])"
      using None c new_sibling [OF c, of ?n] unfolding getSubNode_def addChild_def Let_def h1
      by (simp add: nth_append upd_node_def)
    moreover have "mParent (h ! i) \<noteq> Some c" if "i < length h" for i
      using child_chain [OF ok that] None by auto
    moreover have "links_new h c c ?n" using None by (simp add: links_new_def)
    ultimately show ?thesis using grow [OF c, of ?n] by auto
  next
    case (Some d)
    have d: "d < length h" "mParent (h ! d) = Some c" using heap_ok_child [OF ok c Some] by auto
    show ?thesis
    proof (cases "\<exists>k. find_sibling (length h) ?P h (Some d) = Inr (Some k) \<and> chain h d k \<and> ?P (h ! k)")
      case True
      then obtain k where k: "find_sibling (length h) ?P h (Some d) = Inr (Some k)" "chain h d k" "?P (h ! k)"
        by blast
      then show ?thesis using chain_parent [OF k(2) ok d(1)] d(2) Some by (auto simp: getSubNode_def)
    next
      case False
      then have none: "find_sibling (length h) ?P h (Some d) = Inr None" "\<forall>k. chain h d k \<longrightarrow> \<not> ?P (h ! k)"
        using find_sibling_ok [OF ok d(1), of "length h" ?P] by auto
      obtain l where l: "last_sibling (Suc (length h)) h d = Inr l" "chain h d l" "mSibling (h ! l) = None"
        using last_sibling_ok [OF ok d(1), of "Suc (length h)"] by auto
      have l': "l < length h" "mParent (h ! l) = Some c" using chain_parent [OF l(2) ok d(1)] d(2) by auto
      let ?n = "(h ! l)\<lparr>mSibling := Some (length h)\<rparr>"
      have "last_sibling (length (h @ [?N])) (h @ [?N]) d = Inr l"
        using l(1) last_sibling_append [OF ok d(1)] by simp
      then have "getSubNode c name q h = Inr (length h, (h @ [?N])[l := ?n])"
        using Some c none(1) new_sibling [OF l'(1), of ?n] l'(1)
        unfolding getSubNode_def addChild_def Let_def h1
        by (simp add: nth_append upd_node_def)
      moreover have "mName (h ! i) \<noteq> name" if "i < length h" "mParent (h ! i) = Some c" for i
        using child_chain [OF ok that] Some none(2) by auto
      moreover have "links_new h c l ?n" using l(3) l' by (simp add: links_new_def)
      ultimately show ?thesis using grow [OF l'(1), of ?n] by auto
    qed
  qed
qed

section \<open>The call stack\<close>

text \<open>
  What the profiler keeps track of, abstractly: the stack of running calls, innermost
  first, each with how often it has called itself directly, and the log of call paths
  entered, one for each \<open>startProfile\<close>.
\<close>

type_synonym frames = "(nat \<times> nat) list"

definition push_call :: "nat \<Rightarrow> frames \<Rightarrow> frames" where
  "push_call name st =
     (case st of [] \<Rightarrow> [(name, 1)]
      | (n, k) # r \<Rightarrow> if n = name then (n, Suc k) # r else (name, 1) # st)"

definition pop_call :: "frames \<Rightarrow> frames" where
  "pop_call st = (case st of [] \<Rightarrow> [] | (n, k) # r \<Rightarrow> if k = 1 then r else (n, k - 1) # r)"

datatype prof_cmd = PStart nat u32 | PStop

fun abs_run :: "(interval \<times> prof_cmd) list \<Rightarrow> frames \<times> nat list list \<Rightarrow> (frames \<times> nat list list) option" where
  "abs_run [] s = Some s"
| "abs_run ((t, PStart name q) # cs) (st, log) =
     (if st = [] then None
      else abs_run cs (push_call name st, map fst (push_call name st) # log))"
| "abs_run ((t, PStop) # cs) (st, log) =
     (case st of [] \<Rightarrow> None
      | (n, k) # r \<Rightarrow> if k = 0 then None else abs_run cs (pop_call st, log))"

definition prof_step :: "interval \<times> prof_cmd \<Rightarrow> profile \<Rightarrow> profile result" where
  "prof_step c d = (case snd c of PStart name q \<Rightarrow> startProfile (fst c) name q d | PStop \<Rightarrow> stopProfile (fst c) d)"

fun frame_count :: "frames \<Rightarrow> nat list \<Rightarrow> int" where
  "frame_count [] p = 0"
| "frame_count ((n, k) # st) p = (if p = n # map fst st then int k else frame_count st p)"

text \<open>The call path of a node: its name, its parent's, up to the root's.\<close>

fun node_path :: "nat \<Rightarrow> pheap \<Rightarrow> nat \<Rightarrow> nat list" where
  "node_path 0 h i = [mName (h ! i)]"
| "node_path (Suc fuel) h i =
     (case mParent (h ! i) of None \<Rightarrow> [mName (h ! i)] | Some p \<Rightarrow> mName (h ! i) # node_path fuel h p)"

definition paths_ok :: "nat \<Rightarrow> pheap \<Rightarrow> nat list list \<Rightarrow> bool" where
  "paths_ok root h gp \<longleftrightarrow> length gp = length h \<and> distinct gp \<and> gp ! 0 = [root] \<and> mName (h ! 0) = root
     \<and> (\<forall>i < length h. \<forall>p. mParent (h ! i) = Some p \<longrightarrow> gp ! i = mName (h ! i) # gp ! p)"

definition prof_inv :: "nat \<Rightarrow> nat list list \<Rightarrow> profile \<Rightarrow> frames \<Rightarrow> nat list list \<Rightarrow> bool" where
  "prof_inv root gp d st log \<longleftrightarrow> heap_ok (pNodes d) \<and> paths_ok root (pNodes d) gp
     \<and> (\<forall>i < length (pNodes d). mRecursionCounter (pNodes d ! i) = frame_count st (gp ! i)
          \<and> mTotalCalls (pNodes d ! i) = of_nat (count_list log (gp ! i)))
     \<and> set log \<subseteq> set gp
     \<and> (case mCurrentNode d of None \<Rightarrow> st = []
        | Some c \<Rightarrow> c < length (pNodes d) \<and> st \<noteq> [] \<and> gp ! c = map fst st)"

lemma frame_count_long: "length st < length p \<Longrightarrow> frame_count st p = 0"
  by (induction st p rule: frame_count.induct) auto

lemma frame_count_top: "st \<noteq> [] \<Longrightarrow> frame_count st (map fst st) = int (snd (hd st))"
  by (cases st) auto

lemma push_call_names:
  "st \<noteq> [] \<Longrightarrow> map fst (push_call name st) = (if fst (hd st) = name then map fst st else name # map fst st)"
  by (cases st) (auto simp: push_call_def)

lemma push_call_count:
  assumes "st \<noteq> []"
  shows "frame_count (push_call name st) p =
    (if p = map fst (push_call name st) then frame_count st p + 1 else frame_count st p)"
proof (cases st)
  case (Cons f r)
  have "frame_count st (name # map fst st) = 0" by (rule frame_count_long) simp
  then show ?thesis using Cons by (cases f) (auto simp: push_call_def)
qed (use assms in simp)

lemma pop_call_count:
  assumes "st = (n, k) # r" and "k \<noteq> 0"
  shows "frame_count (pop_call st) p = (if p = map fst st then frame_count st p - 1 else frame_count st p)"
proof -
  have "frame_count r (n # map fst r) = 0" by (rule frame_count_long) simp
  then show ?thesis using assms by (auto simp: pop_call_def)
qed

text \<open>Changing a node's counters leaves the shape of the tree alone.\<close>

lemma heap_ok_upd:
  assumes "heap_ok h" and "i < length h"
    and "mParent n = mParent (h ! i)" "mChild n = mChild (h ! i)" "mSibling n = mSibling (h ! i)"
  shows "heap_ok (h[i := n])"
proof -
  have links: "mParent (h[i := n] ! j) = mParent (h ! j)" "mChild (h[i := n] ! j) = mChild (h ! j)"
    "mSibling (h[i := n] ! j) = mSibling (h ! j)" for j
    using assms by (cases "j < length h"; cases "j = i"; simp add: nth_list_update)+
  show ?thesis using assms(1) unfolding heap_ok_def links length_list_update list_update_nonempty by blast
qed

lemma paths_ok_upd:
  assumes "paths_ok root h gp" and "i < length h"
    and "mParent n = mParent (h ! i)" "mName n = mName (h ! i)"
  shows "paths_ok root (h[i := n]) gp"
proof -
  have links: "mParent (h[i := n] ! j) = mParent (h ! j)" "mName (h[i := n] ! j) = mName (h ! j)" for j
    using assms(2-4) by (cases "j < length h"; cases "j = i"; simp add: nth_list_update)+
  show ?thesis using assms(1) unfolding paths_ok_def links length_list_update by blast
qed

section \<open>Refinement\<close>

lemma startSample_fields:
  "mParent (startSample t n) = mParent n" "mChild (startSample t n) = mChild n"
  "mSibling (startSample t n) = mSibling n" "mName (startSample t n) = mName n"
  "mRecursionCounter (startSample t n) = mRecursionCounter n + 1"
  "mTotalCalls (startSample t n) = mTotalCalls n + 1"
  by (simp_all add: startSample_def Let_def)

lemma stopSample_fields:
  "mParent (snd (stopSample t n)) = mParent n" "mChild (snd (stopSample t n)) = mChild n"
  "mSibling (snd (stopSample t n)) = mSibling n" "mName (snd (stopSample t n)) = mName n"
  "mRecursionCounter (snd (stopSample t n)) = mRecursionCounter n - 1"
  "mTotalCalls (snd (stopSample t n)) = mTotalCalls n"
  "fst (stopSample t n) \<longleftrightarrow> mRecursionCounter n = 1"
  by (simp_all add: stopSample_def Let_def)

text \<open>Starting a sample in node \<open>x\<close>, whose path is the new stack's.\<close>

lemma prof_inv_sample:
  assumes h: "heap_ok h" and gp: "paths_ok root h gp" and x: "x < length h" and st: "st \<noteq> []"
    and path: "gp ! x = map fst (push_call name st)"
    and data: "\<And>i. i < length h \<Longrightarrow> mRecursionCounter (h ! i) = frame_count st (gp ! i)
      \<and> mTotalCalls (h ! i) = of_nat (count_list log (gp ! i))"
    and log: "set log \<subseteq> set gp"
  shows "prof_inv root gp (d\<lparr>pNodes := upd_node x (startSample t) h, mCurrentNode := Some x\<rparr>)
    (push_call name st) (map fst (push_call name st) # log)"
proof -
  let ?n = "startSample t (h ! x)" let ?h = "h[x := ?n]"
  have "heap_ok ?h" by (rule heap_ok_upd [OF h x]) (simp_all add: startSample_fields)
  moreover have "paths_ok root ?h gp" by (rule paths_ok_upd [OF gp x]) (simp_all add: startSample_fields)
  moreover have "mRecursionCounter (?h ! i) = frame_count (push_call name st) (gp ! i)
      \<and> mTotalCalls (?h ! i) = of_nat (count_list (map fst (push_call name st) # log) (gp ! i))"
    if i: "i < length h" for i
  proof -
    have "gp ! i = gp ! x \<longleftrightarrow> i = x"
      using gp i x by (simp add: paths_ok_def nth_eq_iff_index_eq)
    then have uniq: "gp ! i = map fst (push_call name st) \<longleftrightarrow> i = x" using path by simp
    have "frame_count (push_call name st) (gp ! i) = frame_count st (gp ! i) + (if i = x then 1 else 0)"
      using push_call_count [OF st, of name "gp ! i"] uniq by simp
    moreover have "count_list (map fst (push_call name st) # log) (gp ! i)
        = count_list log (gp ! i) + (if i = x then 1 else 0)"
      using uniq by (simp add: eq_commute [of "map fst (push_call name st)"])
    moreover have "mRecursionCounter (?h ! i) = mRecursionCounter (h ! i) + (if i = x then 1 else 0)"
      "mTotalCalls (?h ! i) = mTotalCalls (h ! i) + (if i = x then 1 else 0)"
      using i by (auto simp: nth_list_update startSample_fields)
    ultimately show ?thesis using data [OF i] by simp
  qed
  moreover have "push_call name st \<noteq> []" using st by (auto simp: push_call_def split: list.split)
  moreover have "map fst (push_call name st) \<in> set gp"
    using path x gp nth_mem [of x gp] by (simp add: paths_ok_def)
  ultimately show ?thesis
    using x path log by (simp add: prof_inv_def upd_node_def)
qed

lemma heap_ok_parent: "heap_ok h \<Longrightarrow> i < length h \<Longrightarrow> mParent (h ! i) = Some p \<Longrightarrow> p < i"
  using heap_ok_pred [of h i] heap_ok_root [of h] by (cases "i = 0") auto

lemma path_nonempty:
  assumes "heap_ok h" and gp: "paths_ok root h gp" and i: "i < length h"
  shows "gp ! i \<noteq> []"
proof (cases "i = 0")
  case True
  then show ?thesis using gp by (simp add: paths_ok_def)
next
  case False
  then obtain p where "mParent (h ! i) = Some p" using heap_ok_pred [OF assms(1) i] by blast
  then have "gp ! i = mName (h ! i) # gp ! p" using gp i unfolding paths_ok_def by blast
  then show ?thesis by simp
qed

text \<open>A path that extends a node's is a child's path, or nobody's.\<close>

lemma path_not_new:
  assumes "heap_ok h" and gp: "paths_ok root h gp" and c: "c < length h"
    and fresh: "\<forall>i < length h. mParent (h ! i) = Some c \<longrightarrow> mName (h ! i) \<noteq> name"
  shows "name # gp ! c \<notin> set gp"
proof
  assume "name # gp ! c \<in> set gp"
  then obtain j where j: "j < length h" "gp ! j = name # gp ! c"
    using gp by (auto simp: in_set_conv_nth paths_ok_def)
  have "gp ! 0 = [root]" using gp by (simp add: paths_ok_def)
  then have "j \<noteq> 0" using j(2) path_nonempty [OF assms(1) gp c] by (cases "j = 0") auto
  then obtain p where p: "p < j" "mParent (h ! j) = Some p" using heap_ok_pred [OF assms(1) j(1)] by blast
  then have "gp ! j = mName (h ! j) # gp ! p" using gp j(1) unfolding paths_ok_def by blast
  then have "mName (h ! j) = name" "gp ! p = gp ! c" using j(2) by auto
  moreover from this(2) have "p = c"
    using gp p(1) j(1) c by (auto simp: paths_ok_def nth_eq_iff_index_eq)
  ultimately show False using fresh j(1) p(2) by blast
qed

lemma startProfile_refines:
  assumes inv: "prof_inv root gp d st log" and st: "st \<noteq> []"
  shows "\<exists>d' gp'. startProfile t name q d = Inr d'
    \<and> prof_inv root gp' d' (push_call name st) (map fst (push_call name st) # log)"
proof -
  let ?h = "pNodes d"
  have ok: "heap_ok ?h" and gp: "paths_ok root ?h gp" and log: "set log \<subseteq> set gp"
    and data: "\<And>i. i < length ?h \<Longrightarrow> mRecursionCounter (?h ! i) = frame_count st (gp ! i)
      \<and> mTotalCalls (?h ! i) = of_nat (count_list log (gp ! i))"
    using inv unfolding prof_inv_def by blast+
  have len: "length gp = length ?h" using gp by (simp add: paths_ok_def)
  obtain c where cur: "mCurrentNode d = Some c" "c < length ?h" "gp ! c = map fst st"
    using inv st by (auto simp: prof_inv_def split: option.splits)
  have path_at: "gp ! i = mName (?h ! i) # gp ! p" if "i < length ?h" "mParent (?h ! i) = Some p" for i p
    using gp that unfolding paths_ok_def by blast
  have name: "mName (?h ! c) = fst (hd st)"
  proof (cases "c = 0")
    case True
    then have "map fst st = [root]" using cur gp by (simp add: paths_ok_def)
    then show ?thesis using True gp st by (cases st) (auto simp: paths_ok_def)
  next
    case False
    then obtain p where "mParent (?h ! c) = Some p" using heap_ok_pred [OF ok cur(2)] by blast
    then show ?thesis using path_at [OF cur(2)] cur(3) st by (cases st) auto
  qed
  show ?thesis
  proof (cases "name = mName (?h ! c)")
    case True
    have "gp ! c = map fst (push_call name st)" using cur(3) True name push_call_names [OF st] by simp
    from prof_inv_sample [OF ok gp cur(2) st this data log]
    show ?thesis using True cur(1) by (auto simp: startProfile_def)
  next
    case False
    then have names: "map fst (push_call name st) = name # map fst st"
      using name push_call_names [OF st] by simp
    from getSubNode_ok [OF ok cur(2), of name q] show ?thesis
    proof (elim disjE exE conjE)
      fix x assume x: "x < length ?h" "getSubNode c name q ?h = Inr (x, ?h)"
        "mParent (?h ! x) = Some c" "mName (?h ! x) = name"
      have "gp ! x = map fst (push_call name st)" using path_at [OF x(1,3)] x(4) cur(3) names by simp
      from prof_inv_sample [OF ok gp x(1) st this data log]
      show ?thesis using False cur(1) x(2) by (auto simp: startProfile_def)
    next
      fix h' assume h': "getSubNode c name q ?h = Inr (length ?h, h')" "heap_ok h'" "length h' = Suc (length ?h)"
        and same: "\<forall>i < length ?h. own_data (h' ! i) = own_data (?h ! i)"
        and new: "own_data (h' ! length ?h) = (pnode_new name q)\<lparr>mParent := Some c\<rparr>"
        and fresh: "\<forall>i < length ?h. mParent (?h ! i) = Some c \<longrightarrow> mName (?h ! i) \<noteq> name"
      let ?gp = "gp @ [name # map fst st]"
      have fields: "mName (h' ! i) = mName (?h ! i)" "mParent (h' ! i) = mParent (?h ! i)"
        "mTotalCalls (h' ! i) = mTotalCalls (?h ! i)" "mRecursionCounter (h' ! i) = mRecursionCounter (?h ! i)"
        if "i < length ?h" for i
        using own_data_fields [of "h' ! i" "?h ! i"] same that by auto
      have new': "mName (h' ! length ?h) = name" "mParent (h' ! length ?h) = Some c"
        "mTotalCalls (h' ! length ?h) = 0" "mRecursionCounter (h' ! length ?h) = 0"
        using new by (auto simp: own_data_def pnode_new_def dest: arg_cong [of _ _ mName]
            arg_cong [of _ _ mParent] arg_cong [of _ _ mTotalCalls] arg_cong [of _ _ mRecursionCounter])
      have notin: "name # map fst st \<notin> set gp"
        using path_not_new [OF ok gp cur(2)] cur(3) fresh by simp
      have "0 < length ?h" using cur(2) by auto
      have gp': "paths_ok root h' ?gp"
      proof -
        have "?gp ! i = mName (h' ! i) # ?gp ! p" if "i < length h'" "mParent (h' ! i) = Some p" for i p
        proof (cases "i < length ?h")
          case True
          then have mp: "mParent (?h ! i) = Some p" using fields that by simp
          have "p < i" using heap_ok_parent [OF ok True mp] .
          then show ?thesis using path_at [OF True mp] fields [OF True] True len by (simp add: nth_append)
        next
          case False
          then have "i = length ?h" using that(1) h'(3) by simp
          then show ?thesis using that(2) new' cur(2,3) len by (simp add: nth_append)
        qed
        then show ?thesis
          using gp notin h'(3) fields [OF \<open>0 < length ?h\<close>] \<open>0 < length ?h\<close> len
          unfolding paths_ok_def by (simp add: nth_append)
      qed
      have x: "length ?h < length h'" "?gp ! length ?h = map fst (push_call name st)"
        using h'(3) len names by (simp_all add: nth_append)
      have data': "mRecursionCounter (h' ! i) = frame_count st (?gp ! i)
          \<and> mTotalCalls (h' ! i) = of_nat (count_list log (?gp ! i))" if i: "i < length h'" for i
      proof (cases "i < length ?h")
        case True
        then show ?thesis using data [OF True] fields [OF True] len by (simp add: nth_append)
      next
        case False
        then have "i = length ?h" using i h'(3) by simp
        moreover have "name # map fst st \<notin> set log" using notin log by blast
        moreover have "frame_count st (name # map fst st) = 0" by (rule frame_count_long) simp
        ultimately show ?thesis using new' len by (simp add: nth_append)
      qed
      have "set log \<subseteq> set ?gp" using log by auto
      from prof_inv_sample [OF h'(2) gp' x(1) st x(2) data' this]
      show ?thesis using False cur(1) h'(1) by (auto simp: startProfile_def)
    qed
  qed
qed

lemma stopProfile_refines:
  assumes inv: "prof_inv root gp d st log" and st: "st = (n, k) # r" "k \<noteq> 0"
  shows "\<exists>d'. stopProfile t d = Inr d' \<and> prof_inv root gp d' (pop_call st) log"
proof -
  let ?h = "pNodes d"
  have ok: "heap_ok ?h" and gp: "paths_ok root ?h gp" and log: "set log \<subseteq> set gp"
    and data: "\<And>i. i < length ?h \<Longrightarrow> mRecursionCounter (?h ! i) = frame_count st (gp ! i)
      \<and> mTotalCalls (?h ! i) = of_nat (count_list log (gp ! i))"
    using inv unfolding prof_inv_def by blast+
  obtain c where cur: "mCurrentNode d = Some c" "c < length ?h" "gp ! c = map fst st"
    using inv st by (auto simp: prof_inv_def split: option.splits)
  let ?s = "stopSample t (?h ! c)" let ?h' = "?h[c := snd ?s]"
  have ok': "heap_ok ?h'" by (rule heap_ok_upd [OF ok cur(2)]) (simp_all add: stopSample_fields)
  have gp': "paths_ok root ?h' gp" by (rule paths_ok_upd [OF gp cur(2)]) (simp_all add: stopSample_fields)
  have data': "mRecursionCounter (?h' ! i) = frame_count (pop_call st) (gp ! i)
      \<and> mTotalCalls (?h' ! i) = of_nat (count_list log (gp ! i))" if i: "i < length ?h" for i
  proof -
    have "gp ! i = gp ! c \<longleftrightarrow> i = c"
      using gp i cur(2) by (simp add: paths_ok_def nth_eq_iff_index_eq)
    then have "gp ! i = map fst st \<longleftrightarrow> i = c" using cur(3) by simp
    then have "frame_count (pop_call st) (gp ! i) = frame_count st (gp ! i) - (if i = c then 1 else 0)"
      using pop_call_count [OF st, of "gp ! i"] by simp
    moreover have "mRecursionCounter (?h' ! i) = mRecursionCounter (?h ! i) - (if i = c then 1 else 0)"
      "mTotalCalls (?h' ! i) = mTotalCalls (?h ! i)"
      using i by (cases "i = c"; simp add: nth_list_update stopSample_fields)+
    ultimately show ?thesis using data [OF i] by simp
  qed
  have "mRecursionCounter (?h ! c) = int k" using data [OF cur(2)] cur(3) st by simp
  then have finished: "fst ?s \<longleftrightarrow> k = 1" by (simp add: stopSample_fields)
  have run: "stopProfile t d = Inr (if k = 1 then d\<lparr>pNodes := ?h', mCurrentNode := mParent (?h ! c)\<rparr>
      else d\<lparr>pNodes := ?h'\<rparr>)"
    using cur(1) finished by (simp add: stopProfile_def case_prod_beta stopSample_fields Let_def)
  show ?thesis
  proof (cases "k = 1")
    case False
    then have "pop_call st = (n, k - 1) # r" using st by (simp add: pop_call_def)
    then show ?thesis
      using run False ok' gp' data' log cur st by (simp add: prof_inv_def)
  next
    case True
    then have pop: "pop_call st = r" using st by (simp add: pop_call_def)
    have "case mParent (?h ! c) of None \<Rightarrow> r = [] | Some p \<Rightarrow> p < length ?h \<and> r \<noteq> [] \<and> gp ! p = map fst r"
    proof (cases "mParent (?h ! c)")
      case None
      then have "c = 0" using heap_ok_pred [OF ok cur(2)] by (cases "c = 0") auto
      then show ?thesis using None gp cur(3) st by (auto simp: paths_ok_def)
    next
      case (Some p)
      have "gp ! c = mName (?h ! c) # gp ! p" using gp cur(2) Some unfolding paths_ok_def by blast
      then have "gp ! p = map fst r" using cur(3) st by simp
      moreover have "p < length ?h" using heap_ok_parent [OF ok cur(2) Some] cur(2) by simp
      moreover have "gp ! p \<noteq> []" using path_nonempty [OF ok gp \<open>p < length ?h\<close>] .
      ultimately show ?thesis using Some by auto
    qed
    then show ?thesis
      using run True ok' gp' data' log pop by (simp add: prof_inv_def split: option.splits)
  qed
qed

lemma run_refines:
  assumes "prof_inv root gp d st log" and "abs_run cs (st, log) = Some (st', log')"
  shows "\<exists>d' gp'. rfold prof_step cs d = Inr d' \<and> prof_inv root gp' d' st' log'"
  using assms
proof (induction cs arbitrary: d gp st log)
  case (Cons c cs)
  obtain t cmd where c: "c = (t, cmd)" by (cases c)
  show ?case
  proof (cases cmd)
    case (PStart name q)
    then have st: "st \<noteq> []" using Cons.prems(2) c by (auto split: if_splits)
    obtain d1 gp1 where d1: "startProfile t name q d = Inr d1"
      "prof_inv root gp1 d1 (push_call name st) (map fst (push_call name st) # log)"
      using startProfile_refines [OF Cons.prems(1) st] by blast
    have "abs_run cs (push_call name st, map fst (push_call name st) # log) = Some (st', log')"
      using Cons.prems(2) st c PStart by simp
    from Cons.IH [OF d1(2) this] show ?thesis using d1(1) c PStart by (simp add: prof_step_def)
  next
    case PStop
    then obtain n k r where st: "st = (n, k) # r" "k \<noteq> 0"
      using Cons.prems(2) c by (auto split: list.splits if_splits)
    obtain d1 where d1: "stopProfile t d = Inr d1" "prof_inv root gp d1 (pop_call st) log"
      using stopProfile_refines [OF Cons.prems(1) st] by blast
    have "abs_run cs (pop_call st, log) = Some (st', log')"
      using Cons.prems(2) st c PStop by simp
    from Cons.IH [OF d1(2) this] show ?thesis using d1(1) c PStop by (simp add: prof_step_def)
  qed
qed auto

lemma prof_inv_init: "prof_inv root [[root]] (profile_new root) [(root, 0)] []"
  by (simp add: prof_inv_def profile_new_def heap_ok_def paths_ok_def pnode_new_def)

lemma node_path_paths:
  assumes "heap_ok h" and gp: "paths_ok root h gp"
  shows "i < length h \<Longrightarrow> i \<le> fuel \<Longrightarrow> node_path fuel h i = gp ! i"
proof (induction fuel arbitrary: i)
  case 0
  then show ?case using gp by (simp add: paths_ok_def)
next
  case (Suc fuel)
  show ?case
  proof (cases "mParent (h ! i)")
    case None
    then have "i = 0" using heap_ok_pred [OF assms(1) Suc.prems(1)] by (cases "i = 0") auto
    then show ?thesis using None gp by (simp add: paths_ok_def)
  next
    case (Some p)
    have "p < i" by (rule heap_ok_parent [OF assms(1) Suc.prems(1) Some])
    moreover have "gp ! i = mName (h ! i) # gp ! p" using gp Suc.prems(1) Some unfolding paths_ok_def by blast
    ultimately show ?thesis using Some Suc by simp
  qed
qed

text \<open>
  C33. The profiler counts calls by call path.  For every sequence of starts and stops in
  which no stop is unmatched, started on a fresh profile: the profiler runs it without
  running into a null pointer or an endless list; the current node is the one whose path of
  names is the stack of running calls (direct recursion counted once), so after a balanced
  sequence it is the root; no two nodes have the same path; and every node's call count is
  the number of starts that entered its path (in the 32 bits of the counter).
\<close>

theorem profiler_counts_call_paths:
  assumes "abs_run cs ([(root, 0)], []) = Some (st, log)"
  shows "\<exists>d. rfold prof_step cs (profile_new root) = Inr d
    \<and> (let h = pNodes d; path = node_path (length h) h in
        distinct (map path [0..<length h])
        \<and> (\<forall>i < length h. mTotalCalls (h ! i) = of_nat (count_list log (path i)))
        \<and> (case mCurrentNode d of None \<Rightarrow> st = [] | Some c \<Rightarrow> path c = map fst st)
        \<and> (st = [(root, 0)] \<longrightarrow> mCurrentNode d = Some 0))"
proof -
  obtain d gp where d: "rfold prof_step cs (profile_new root) = Inr d" and inv: "prof_inv root gp d st log"
    using run_refines [OF prof_inv_init assms] by blast
  let ?h = "pNodes d"
  have ok: "heap_ok ?h" and gp: "paths_ok root ?h gp" using inv by (simp_all add: prof_inv_def)
  have path: "node_path (length ?h) ?h i = gp ! i" if "i < length ?h" for i
    using node_path_paths [OF ok gp that] that by simp
  have "map (node_path (length ?h) ?h) [0..<length ?h] = gp"
    by (rule nth_equalityI) (use gp path in \<open>auto simp: paths_ok_def\<close>)
  then have "distinct (map (node_path (length ?h) ?h) [0..<length ?h])"
    using gp by (simp add: paths_ok_def)
  moreover have "mCurrentNode d = Some 0" if only: "st = [(root, 0)]"
  proof -
    obtain c where c: "mCurrentNode d = Some c" "c < length ?h" "gp ! c = [root]"
      using inv only by (auto simp: prof_inv_def split: option.splits)
    moreover have "gp ! 0 = [root]" "distinct gp" "length gp = length ?h"
      using gp by (simp_all add: paths_ok_def)
    ultimately show ?thesis using nth_eq_iff_index_eq [of gp c 0] heap_ok_root [OF ok] by auto
  qed
  ultimately show ?thesis
    using d inv path by (auto simp: prof_inv_def Let_def split: option.splits)
qed

text \<open>Names 1, 2, 3; the call 2 runs under 1 twice, once calling itself.\<close>

theorem profiler_counts_call_paths_witness:
  "\<exists>d. rfold prof_step (map (Pair (Interval 5))
      [PStart 1 0, PStart 2 4, PStop, PStart 3 0, PStop, PStart 2 4, PStart 2 4]) (profile_new 9) = Inr d
    \<and> (let h = pNodes d; path = node_path (length h) h in
        (\<forall>i < length h. mTotalCalls (h ! i) = of_nat (count_list [[2, 1, 9], [2, 1, 9], [3, 1, 9], [2, 1, 9], [1, 9]] (path i)))
        \<and> (case mCurrentNode d of None \<Rightarrow> False | Some c \<Rightarrow> path c = [2, 1, 9]))"
proof -
  have "abs_run (map (Pair (Interval 5))
      [PStart 1 0, PStart 2 4, PStop, PStart 3 0, PStop, PStart 2 4, PStart 2 4]) ([(9, 0)], [])
    = Some ([(2, 2), (1, 1), (9, 0)], [[2, 1, 9], [2, 1, 9], [3, 1, 9], [2, 1, 9], [1, 9]])"
    by (simp add: push_call_def pop_call_def)
  from profiler_counts_call_paths [OF this] show ?thesis
    by (elim exE conjE) (rule exI, rule conjI, assumption, auto simp: Let_def split: option.splits)
qed

end
