(* ===== verification/SimLine.thy ===== *)
theory SimLine
  imports Complex_Main VprInterval
begin

text \<open>
  The network simulator, part one: messages and lines
  (\<^verbatim>\<open>md/SIM/Network/Message.h\<close>, \<^verbatim>\<open>Message.cpp\<close>, \<^verbatim>\<open>NetworkLine.h\<close>, \<^verbatim>\<open>NetworkLine.cpp\<close>).

  Sockets and the vertices of the network graph are numbers (a socket's number stands for
  its address in memory).  The \<^verbatim>\<open>double\<close>s of a line are exact rationals here; a cast to
  \<^verbatim>\<open>Uint32\<close> that C++ leaves undefined is \<open>Undefined\<close>.  A line has one queue per direction;
  the theory's invariant \<open>queue_wf\<close> says that the messages of a queue follow each other on
  the wire, so that they arrive in the order they were sent.
\<close>

section \<open>Messages\<close>

record message =
  mMsg :: "u8 list"
  mStartOnWire :: interval
  mFullyOnWire :: interval
  mArrivesFully :: interval
  mMsgPath :: "nat list"
  mNextHop :: nat
  mSrcSock :: "nat option"
  mDestSock :: "nat option"

definition message_new :: "u8 list \<Rightarrow> message" where
  "message_new data =
     \<lparr>mMsg = data, mStartOnWire = Interval 0, mFullyOnWire = Interval 0,
      mArrivesFully = Interval 0, mMsgPath = [], mNextHop = 0, mSrcSock = None, mDestSock = None\<rparr>"

definition getSize :: "message \<Rightarrow> u32" where
  "getSize msg = of_nat (length (mMsg msg))"

text \<open>\<^verbatim>\<open>resize\<close>: what is left after \<open>bytesRead\<close> bytes, and the message without them.\<close>

definition message_resize :: "u32 \<Rightarrow> message \<Rightarrow> (u32 \<times> message) result" where
  "message_resize bytesRead msg =
     (let resize_amount = getSize msg - bytesRead in
      if resize_amount > 0 \<and> resize_amount \<noteq> getSize msg
      then if unat bytesRead \<le> length (mMsg msg)
           then let msg' = msg\<lparr>mMsg := drop (unat bytesRead) (mMsg msg)\<rparr>
                in if resize_amount = of_nat (length (mMsg msg')) then Inr (resize_amount, msg')
                   else Inl (AssertionFailed ''Must be this size'')
           else Inl (Undefined ''erase past the end of the vector'')
      else Inr (resize_amount, msg))"

definition setPath :: "nat list \<Rightarrow> nat \<Rightarrow> nat \<Rightarrow> message \<Rightarrow> message result" where
  "setPath path source dest msg =
     rbind (require (path \<noteq> []) (AssertionFailed ''Path must have at least one value''))
       (\<lambda>_. Inr (msg\<lparr>mMsgPath := path, mNextHop := 0, mSrcSock := Some source, mDestSock := Some dest\<rparr>))"

definition getNextHop :: "message \<Rightarrow> nat result" where
  "getNextHop msg =
     (if mNextHop msg < length (mMsgPath msg) then Inr (mMsgPath msg ! mNextHop msg)
      else Inl (AssertionFailed ''Requesting hop past end of path''))"

definition incNextHop :: "message \<Rightarrow> bool \<times> message" where
  "incNextHop msg =
     (let msg' = msg\<lparr>mNextHop := mNextHop msg + 1\<rparr>
      in (mNextHop msg' = length (mMsgPath msg'), msg'))"

lemma message_resize_read:
  assumes "length (mMsg msg) < 2 ^ 32" and "n \<le> length (mMsg msg)"
  shows "message_resize (of_nat n) msg =
    Inr (of_nat (length (mMsg msg) - n),
      if n < length (mMsg msg) then msg\<lparr>mMsg := drop n (mMsg msg)\<rparr> else msg)"
proof -
  let ?L = "length (mMsg msg)"
  have n: "unat (of_nat n :: u32) = n" and L: "unat (getSize msg) = ?L"
    using assms by (simp_all add: unat_of_nat getSize_def)
  have "(of_nat n :: u32) \<le> getSize msg"
    using assms(2) n L by (simp add: word_le_nat_alt)
  then have d: "unat (getSize msg - of_nat n) = ?L - n"
    by (simp add: unat_sub n L)
  then have eq: "getSize msg - of_nat n = of_nat (?L - n)"
    by (metis of_nat_unat ucast_id)
  have pos: "getSize msg - of_nat n > 0 \<longleftrightarrow> n < ?L"
    by (simp only: word_less_nat_alt d) auto
  have ne: "getSize msg - of_nat n \<noteq> getSize msg \<longleftrightarrow> n \<noteq> 0 \<and> ?L \<noteq> 0"
    using assms(2) by (simp only: word_unat_eq_iff d L) auto
  show ?thesis
    unfolding message_resize_def Let_def pos ne n
    by (cases "n = 0") (use assms(2) eq in auto)
qed

section \<open>Lines\<close>

datatype line_direction = FORWARD | REVERSE

datatype network_type = LAN | MAN | WAN | LOOPBACK

type_synonym msg_queue = "(interval \<times> message) list"

record network_line =
  mLength :: rat
  mCapacity :: rat
  mDelay :: rat
  mNetworkType :: network_type
  mNetworkID :: u8
  mNetworkIPStr :: string
  mLatency :: rat
  mForwardLineQueue :: msg_queue
  mReverseLineQueue :: msg_queue

definition network_line_new ::
    "rat \<Rightarrow> rat \<Rightarrow> rat \<Rightarrow> string \<Rightarrow> u8 \<Rightarrow> string \<Rightarrow> network_line" where
  "network_line_new miles Mbps delay netType netID netIP =
     \<lparr>mLength = miles, mCapacity = Mbps, mDelay = delay,
      mNetworkType =
        (if netType = ''WAN'' then WAN else if netType = ''MAN'' then MAN
         else if netType = ''LAN'' then LAN else LOOPBACK),
      mNetworkID = netID, mNetworkIPStr = netIP, mLatency = 5 * miles,
      mForwardLineQueue = [], mReverseLineQueue = []\<rparr>"

definition setLength :: "rat \<Rightarrow> network_line \<Rightarrow> network_line" where
  "setLength miles l = l\<lparr>mLength := miles, mLatency := 5 * miles\<rparr>"

definition setCapacity :: "rat \<Rightarrow> network_line \<Rightarrow> network_line" where
  "setCapacity Mbps l = l\<lparr>mCapacity := Mbps\<rparr>"

text \<open>A cast of a \<^verbatim>\<open>double\<close> to \<^verbatim>\<open>Uint32\<close> is defined for values the type can hold.\<close>

definition ceil_u32 :: "rat \<Rightarrow> u32 result" where
  "ceil_u32 x = (if 0 \<le> \<lceil>x\<rceil> \<and> \<lceil>x\<rceil> < 2 ^ 32 then Inr (word_of_int \<lceil>x\<rceil>)
     else Inl (Undefined ''conversion out of range''))"

definition getWireAccessTime :: "u32 \<Rightarrow> network_line \<Rightarrow> interval result" where
  "getWireAccessTime bits l =
     (if mCapacity l = 0 then Inl (Undefined ''conversion out of range'')
      else rbind (ceil_u32 (of_nat (unat bits) / mCapacity l))
             (\<lambda>time. Inr (interval_set (ucast time) Usec)))"

definition getBitTransmissionTime :: "network_line \<Rightarrow> interval result" where
  "getBitTransmissionTime l =
     rbind (ceil_u32 (mLatency l)) (\<lambda>time. Inr (interval_set (ucast time) Usec))"

definition line_queue :: "line_direction \<Rightarrow> network_line \<Rightarrow> msg_queue" where
  "line_queue d l = (case d of FORWARD \<Rightarrow> mForwardLineQueue l | REVERSE \<Rightarrow> mReverseLineQueue l)"

definition set_line_queue :: "line_direction \<Rightarrow> msg_queue \<Rightarrow> network_line \<Rightarrow> network_line" where
  "set_line_queue d q l =
     (case d of FORWARD \<Rightarrow> l\<lparr>mForwardLineQueue := q\<rparr> | REVERSE \<Rightarrow> l\<lparr>mReverseLineQueue := q\<rparr>)"

text \<open>
  \<^verbatim>\<open>calculateMessageEventTimes\<close>: the message starts when the wire is free, one unit after
  the last message of the queue is fully on it, or now when that is later.
\<close>

definition start_time :: "interval \<Rightarrow> msg_queue \<Rightarrow> interval" where
  "start_time curTime queue =
     (if queue \<noteq> []
      then let tail_msg = snd (last queue);
               wire_ready = interval_set (getBaseVal (mFullyOnWire tail_msg) + 1) Base
           in (if wire_ready < curTime then curTime else wire_ready)
      else curTime)"

definition calculateMessageEventTimes ::
    "message \<Rightarrow> interval \<Rightarrow> line_direction \<Rightarrow> network_line \<Rightarrow> message result" where
  "calculateMessageEventTimes msg curTime d l =
     (let start = start_time curTime (line_queue d l) in
      rbind (getWireAccessTime (getSize msg * 8) l) (\<lambda>access.
      rbind (getBitTransmissionTime l) (\<lambda>propagation.
      let on_wire_time = start + access in
      Inr (msg\<lparr>mStartOnWire := start, mFullyOnWire := on_wire_time,
               mArrivesFully := on_wire_time + propagation\<rparr>))))"

definition addMessage :: "message \<Rightarrow> line_direction \<Rightarrow> network_line \<Rightarrow> network_line result" where
  "addMessage msg d l =
     (let queue = line_queue d l in
      rbind (require (queue \<noteq> [] \<longrightarrow> fst (last queue) < mArrivesFully msg)
               (AssertionFailed ''Message queued out of order'')) (\<lambda>_.
      Inr (set_line_queue d (queue @ [(mArrivesFully msg, msg)]) l)))"

definition getArrivedMessage ::
    "interval \<Rightarrow> line_direction \<Rightarrow> network_line \<Rightarrow> (message \<times> network_line) result" where
  "getArrivedMessage eventTime d l =
     (case line_queue d l of
        [] \<Rightarrow> Inl (AssertionFailed ''Queue must have an event!'')
      | (_, msg) # queue \<Rightarrow>
          rbind (require (interval_eq (mArrivesFully msg) eventTime)
                   (AssertionFailed ''This event must be the message on the front of the queue''))
            (\<lambda>_. Inr (msg, set_line_queue d queue l)))"

text \<open>
  \<^verbatim>\<open>removeActiveMessages\<close>.  \<^verbatim>\<open>std::remove_if\<close> moves the entries to keep to the front by
  assignment and leaves the cells behind them as they were; the times the code reports
  are read from those cells, before they are erased.
\<close>

definition remove_if_cells :: "('a \<Rightarrow> bool) \<Rightarrow> 'a list \<Rightarrow> nat \<times> 'a list" where
  "remove_if_cells P xs =
     (let kept = filter (\<lambda>x. \<not> P x) xs in (length kept, kept @ drop (length kept) xs))"

definition removeActiveMessages ::
    "nat \<Rightarrow> line_direction \<Rightarrow> network_line \<Rightarrow> interval list \<times> network_line" where
  "removeActiveMessages sock d l =
     (let (i, cells) = remove_if_cells (\<lambda>e. mDestSock (snd e) = Some sock) (line_queue d l)
      in (map fst (drop i cells), set_line_queue d (take i cells) l))"

section \<open>The order of a queue\<close>

text \<open>
  Every message of a queue is stored with its arrival time, has left the sender before it
  arrives, by the same propagation delay for all, and the next one starts after it is
  fully on the wire.
\<close>

fun queue_wf :: "nat \<Rightarrow> msg_queue \<Rightarrow> bool" where
  "queue_wf pt [] = True"
| "queue_wf pt [(t, m)] =
     (t = mArrivesFully m \<and> us t = us (mFullyOnWire m) + pt)"
| "queue_wf pt ((t, m) # (t', m') # q) =
     (t = mArrivesFully m \<and> us t = us (mFullyOnWire m) + pt
      \<and> mFullyOnWire m < mStartOnWire m' \<and> mStartOnWire m' \<le> mFullyOnWire m'
      \<and> queue_wf pt ((t', m') # q))"

lemma queue_wf_append:
  "queue_wf pt (q @ [(t, m)]) \<longleftrightarrow>
     queue_wf pt q \<and> t = mArrivesFully m
     \<and> us t = us (mFullyOnWire m) + pt
     \<and> (q \<noteq> [] \<longrightarrow> mFullyOnWire (snd (last q)) < mStartOnWire m \<and> mStartOnWire m \<le> mFullyOnWire m)"
  by (induction pt q rule: queue_wf.induct) auto

lemma queue_wf_tl: "queue_wf pt (e # q) \<Longrightarrow> queue_wf pt q"
  by (cases e; cases q) auto

lemma queue_wf_head: "queue_wf pt ((t, m) # q) \<Longrightarrow> t = mArrivesFully m"
  by (cases q) auto

lemma queue_wf_last:
  assumes "queue_wf pt q" and "q \<noteq> []"
  shows "fst (last q) = mArrivesFully (snd (last q))
    \<and> us (fst (last q)) = us (mFullyOnWire (snd (last q))) + pt"
  using assms by (induction pt q rule: queue_wf.induct) auto

lemma queue_wf_head_us: "queue_wf pt ((t, m) # q) \<Longrightarrow> us t = us (mFullyOnWire m) + pt"
  by (cases q) auto

lemma queue_wf_order:
  "queue_wf pt ((t, m) # q) \<Longrightarrow> e \<in> set q \<Longrightarrow> t < fst e"
proof (induction q arbitrary: t m)
  case Nil
  then show ?case by simp
next
  case (Cons e' q)
  obtain t' m' where e': "e' = (t', m')" by (cases e')
  have wf: "queue_wf pt ((t', m') # q)"
    using queue_wf_tl [OF Cons.prems(1)] e' by simp
  have "mFullyOnWire m < mFullyOnWire m'"
    using Cons.prems(1) e' by (auto simp del: interval_order_simps)
  then have "t < t'"
    using queue_wf_head_us [OF Cons.prems(1)] queue_wf_head_us [OF wf] by (simp only: interval_less_us)
  moreover have "t' < fst e" if "e \<in> set q"
    using Cons.IH [OF wf that] .
  ultimately show ?case using Cons.prems(2) e' by (auto simp del: interval_order_simps)
qed

lemma queue_wf_sorted: "queue_wf pt q \<Longrightarrow> sorted_wrt (<) (map fst q)"
proof (induction q)
  case (Cons e q)
  then show ?case using queue_wf_order [of pt "fst e" "snd e" q]
    by (auto dest: queue_wf_tl)
qed simp

definition prop_time :: "network_line \<Rightarrow> nat" where
  "prop_time l = nat \<lceil>mLatency l\<rceil>"

text \<open>A line that can carry messages: its delays fit the integers they are stored in.\<close>

definition line_ok :: "network_line \<Rightarrow> bool" where
  "line_ok l \<longleftrightarrow> 0 < mCapacity l \<and> 0 \<le> mLatency l \<and> \<lceil>mLatency l\<rceil> < 2 ^ 32"

definition line_wf :: "network_line \<Rightarrow> bool" where
  "line_wf l \<longleftrightarrow> line_ok l \<and> (\<forall>d. queue_wf (prop_time l) (line_queue d l))"

lemma line_queue_simps [simp]:
  "line_queue d (set_line_queue d q l) = q"
  "d \<noteq> d' \<Longrightarrow> line_queue d (set_line_queue d' q l) = line_queue d l"
  "mCapacity (set_line_queue d q l) = mCapacity l"
  "mLatency (set_line_queue d q l) = mLatency l"
  by (cases d; cases d'; simp add: line_queue_def set_line_queue_def)+

lemma line_ok_set_queue [simp]: "line_ok (set_line_queue d q l) = line_ok l"
  by (simp add: line_ok_def)

lemma prop_time_set_queue [simp]: "prop_time (set_line_queue d q l) = prop_time l"
  by (simp add: prop_time_def)

lemma line_wf_set_queue: "line_wf l \<Longrightarrow> queue_wf (prop_time l) q \<Longrightarrow> line_wf (set_line_queue d q l)"
  unfolding line_wf_def using line_queue_simps by (metis line_ok_set_queue prop_time_set_queue)

lemma line_wf_queue: "line_wf l \<Longrightarrow> queue_wf (prop_time l) (line_queue d l)"
  by (simp add: line_wf_def)

lemma prop_time_bound:
  assumes "line_ok l"
  shows "prop_time l < 2 ^ 32"
proof -
  have "\<lceil>mLatency l\<rceil> < 2 ^ 32" using assms unfolding line_ok_def by blast
  moreover have "i < 2 ^ 32 \<Longrightarrow> nat i < 2 ^ 32" for i :: int by simp
  ultimately show ?thesis unfolding prop_time_def by blast
qed

lemma ceil_u32_value:
  assumes "0 \<le> \<lceil>x\<rceil>" and "\<lceil>x\<rceil> < 2 ^ 32"
  shows "\<exists>w. ceil_u32 x = Inr w \<and> unat w = nat \<lceil>x\<rceil>"
  using assms by (simp add: ceil_u32_def unsigned_of_int take_bit_int_eq_self)

lemma us_set_ucast: "unat (ucast (w :: u32) :: u64) = unat w"
  using unat_u32_bound [of w] by (simp add: unsigned_ucast_eq take_bit_nat_eq_self)

lemma getBitTransmissionTime_ok:
  assumes "line_ok l"
  shows "\<exists>i. getBitTransmissionTime l = Inr i \<and> us i = prop_time l"
proof -
  have "0 \<le> \<lceil>mLatency l\<rceil>" using assms by (simp add: line_ok_def)
  then obtain w where "ceil_u32 (mLatency l) = Inr w" "unat w = prop_time l"
    using ceil_u32_value [of "mLatency l"] assms by (auto simp: line_ok_def prop_time_def)
  then show ?thesis
    by (auto simp: getBitTransmissionTime_def us_set_ucast)
qed

definition access_time :: "message \<Rightarrow> network_line \<Rightarrow> nat" where
  "access_time msg l = nat \<lceil>of_nat (unat (getSize msg * 8)) / mCapacity l\<rceil>"

definition message_fits :: "message \<Rightarrow> network_line \<Rightarrow> bool" where
  "message_fits msg l \<longleftrightarrow> access_time msg l < 2 ^ 32"

lemma getWireAccessTime_ok:
  assumes "line_ok l" and "message_fits msg l"
  shows "\<exists>i. getWireAccessTime (getSize msg * 8) l = Inr i \<and> us i = access_time msg l"
proof -
  let ?x = "of_nat (unat (getSize msg * 8)) / mCapacity l"
  have "0 \<le> ?x"
    by (rule divide_nonneg_pos [OF of_nat_0_le_iff]) (use assms(1) in \<open>simp add: line_ok_def\<close>)
  then have "0 \<le> \<lceil>?x\<rceil>" using ceiling_mono by fastforce
  moreover have "\<lceil>?x\<rceil> < 2 ^ 32"
    using assms(2) \<open>0 \<le> \<lceil>?x\<rceil>\<close> by (simp add: message_fits_def access_time_def nat_less_iff)
  ultimately obtain w where "ceil_u32 ?x = Inr w" "unat w = access_time msg l"
    using ceil_u32_value [of ?x] by (auto simp: access_time_def)
  then show ?thesis
    using assms(1) by (auto simp: getWireAccessTime_def us_set_ucast line_ok_def)
qed

text \<open>The time before which the times of a line must stay for 64 bits to hold them.\<close>

definition room_for :: "message \<Rightarrow> interval \<Rightarrow> line_direction \<Rightarrow> network_line \<Rightarrow> bool" where
  "room_for msg curTime d l \<longleftrightarrow> message_fits msg l
     \<and> (\<forall>e \<in> set (line_queue d l). us (mFullyOnWire (snd e)) + 1 + access_time msg l + prop_time l < 2 ^ 64)
     \<and> us curTime + access_time msg l + prop_time l < 2 ^ 64"

lemma start_time_us:
  assumes "queue \<noteq> [] \<Longrightarrow> us (mFullyOnWire (snd (last queue))) + 1 < 2 ^ 64"
  shows "us (start_time curTime queue) =
    (if queue = [] then us curTime else max (us curTime) (us (mFullyOnWire (snd (last queue))) + 1))"
proof (cases "queue = []")
  case False
  then have "us (interval_set (getBaseVal (mFullyOnWire (snd (last queue))) + 1) Base)
      = us (mFullyOnWire (snd (last queue))) + 1"
    using assms by (simp add: getBaseVal_def unat_word_ariths)
  with False show ?thesis
    by (simp add: start_time_def Let_def interval_less_us max_def del: interval_order_simps interval_set.simps)
qed (simp add: start_time_def)

lemma calculateMessageEventTimes_us:
  assumes "line_ok l" and "room_for msg curTime d l"
  shows "\<exists>msg'. calculateMessageEventTimes msg curTime d l = Inr msg'
    \<and> (\<exists>s f a. msg' = msg\<lparr>mStartOnWire := s, mFullyOnWire := f, mArrivesFully := a\<rparr>)
    \<and> us (mStartOnWire msg') = (if line_queue d l = [] then us curTime
         else max (us curTime) (us (mFullyOnWire (snd (last (line_queue d l)))) + 1))
    \<and> us (mFullyOnWire msg') = us (mStartOnWire msg') + access_time msg l
    \<and> us (mArrivesFully msg') = us (mFullyOnWire msg') + prop_time l"
proof -
  let ?s = "start_time curTime (line_queue d l)"
  obtain i where i: "getWireAccessTime (getSize msg * 8) l = Inr i" "us i = access_time msg l"
    using getWireAccessTime_ok assms unfolding room_for_def by blast
  obtain j where j: "getBitTransmissionTime l = Inr j" "us j = prop_time l"
    using getBitTransmissionTime_ok assms by blast
  have last: "us (mFullyOnWire (snd (last (line_queue d l)))) + 1 + access_time msg l + prop_time l < 2 ^ 64"
    if "line_queue d l \<noteq> []"
    using assms(2) that by (simp add: room_for_def)
  have s: "us ?s = (if line_queue d l = [] then us curTime
         else max (us curTime) (us (mFullyOnWire (snd (last (line_queue d l)))) + 1))"
    by (rule start_time_us) (use last in force)
  have "us ?s + access_time msg l + prop_time l < 2 ^ 64"
    unfolding s using last assms(2) by (auto simp: room_for_def max_def)
  then have f: "us (?s + i) = us ?s + access_time msg l"
    and a: "us ((?s + i) + j) = us ?s + access_time msg l + prop_time l"
    using us_plus [of ?s i] us_plus [of "?s + i" j] i(2) j(2) by simp_all
  show ?thesis
    unfolding calculateMessageEventTimes_def Let_def i(1) j(1) rbind_simps
    using s f a by (auto simp del: interval_arith_simps)
qed

lemma queue_wf_last_sorted:
  "queue_wf pt q \<Longrightarrow> q \<noteq> [] \<Longrightarrow> e \<in> set q \<Longrightarrow> fst e \<le> fst (last q)"
  using queue_wf_sorted [of pt q]
  by (induction q) (auto simp del: interval_order_simps dest: queue_wf_tl intro: less_imp_le)

text \<open>
  What a caller relies on: the times a line gives a message let it be queued, behind every
  message already there.
\<close>

lemma line_schedule:
  assumes "line_wf l" and "room_for msg curTime d l"
  shows "\<exists>msg' l'. calculateMessageEventTimes msg curTime d l = Inr msg'
    \<and> addMessage msg' d l = Inr l' \<and> line_wf l'
    \<and> l' = set_line_queue d (line_queue d l @ [(mArrivesFully msg', msg')]) l
    \<and> (\<exists>s f a. msg' = msg\<lparr>mStartOnWire := s, mFullyOnWire := f, mArrivesFully := a\<rparr>)
    \<and> curTime \<le> mArrivesFully msg'
    \<and> (\<forall>e \<in> set (line_queue d l). fst e < mArrivesFully msg')"
proof -
  have ok: "line_ok l" and wf: "queue_wf (prop_time l) (line_queue d l)"
    using assms(1) by (simp_all add: line_wf_def)
  obtain msg' where m: "calculateMessageEventTimes msg curTime d l = Inr msg'"
    and upd: "\<exists>s f a. msg' = msg\<lparr>mStartOnWire := s, mFullyOnWire := f, mArrivesFully := a\<rparr>"
    and s: "us (mStartOnWire msg') = (if line_queue d l = [] then us curTime
         else max (us curTime) (us (mFullyOnWire (snd (last (line_queue d l)))) + 1))"
    and f: "us (mFullyOnWire msg') = us (mStartOnWire msg') + access_time msg l"
    and a: "us (mArrivesFully msg') = us (mFullyOnWire msg') + prop_time l"
    using calculateMessageEventTimes_us [OF ok assms(2)] by blast
  have lt: "fst (last (line_queue d l)) < mArrivesFully msg'" if "line_queue d l \<noteq> []"
    unfolding interval_less_us using conjunct2 [OF queue_wf_last [OF wf that]] s f a that by simp
  then have all: "\<forall>e \<in> set (line_queue d l). fst e < mArrivesFully msg'"
    using queue_wf_last_sorted [OF wf] by (metis empty_iff le_less_trans list.set(1))
  have "queue_wf (prop_time l) (line_queue d l @ [(mArrivesFully msg', msg')])"
    unfolding queue_wf_append interval_us using wf s f a by auto
  then have "line_wf (set_line_queue d (line_queue d l @ [(mArrivesFully msg', msg')]) l)"
    by (rule line_wf_set_queue [OF assms(1)])
  moreover have "curTime \<le> mArrivesFully msg'"
    using s f a by (auto simp: interval_le_us simp del: interval_order_simps split: if_splits)
  moreover have "addMessage msg' d l
      = Inr (set_line_queue d (line_queue d l @ [(mArrivesFully msg', msg')]) l)"
    using lt by (simp add: addMessage_def Let_def require_holds del: interval_order_simps)
  ultimately show ?thesis using m upd all by blast
qed

lemma queue_wf_full:
  "queue_wf pt q \<Longrightarrow> x \<in> set q \<Longrightarrow> us (fst x) = us (mFullyOnWire (snd x)) + pt"
proof (induction q)
  case (Cons e q)
  then show ?case
    using queue_wf_head_us [of pt "fst e" "snd e" q] by (auto dest: queue_wf_tl)
qed simp

lemma queue_wf_last_full:
  assumes "queue_wf pt q" and "e \<in> set q"
  shows "us (mFullyOnWire (snd e)) \<le> us (mFullyOnWire (snd (last q)))"
proof -
  have "fst e \<le> fst (last q)"
    using queue_wf_last_sorted [OF assms(1)] assms(2) by (cases "q = []") auto
  moreover have "last q \<in> set q" using assms(2) by (cases "q = []") auto
  ultimately show ?thesis
    using queue_wf_full [OF assms(1)] assms(2) by (metis interval_le_us add_le_cancel_right)
qed

lemma arrival_bound:
  assumes "line_wf l" and "room_for msg cur d l" and "calculateMessageEventTimes msg cur d l = Inr m"
    and "us cur \<le> T" and "\<forall>x \<in> set (line_queue d l). us (fst x) \<le> T"
  shows "us (mArrivesFully m) \<le> T + 1 + access_time msg l + prop_time l"
proof -
  have ok: "line_ok l" using assms(1) by (simp add: line_wf_def)
  have "us (mFullyOnWire (snd (last (line_queue d l)))) \<le> T" if "line_queue d l \<noteq> []"
    using queue_wf_full [OF line_wf_queue [OF assms(1)]] assms(5) last_in_set [OF that] by fastforce
  then show ?thesis
    using calculateMessageEventTimes_us [OF ok assms(2)] assms(3,4) by (auto split: if_splits)
qed

text \<open>
  C38. One message at a time on the wire, first in first out: the times a line computes
  for a message let it be queued, its transmission starts after every message of its
  direction has left the sender, it arrives after all of them, and the line stays
  well-formed.  The other direction of the line is not touched.
\<close>

theorem line_transmission_fifo:
  assumes "line_wf l" and "room_for msg curTime d l"
  shows "\<exists>msg' l'. calculateMessageEventTimes msg curTime d l = Inr msg'
    \<and> addMessage msg' d l = Inr l' \<and> line_wf l'
    \<and> line_queue d l' = line_queue d l @ [(mArrivesFully msg', msg')]
    \<and> (\<forall>d'. d' \<noteq> d \<longrightarrow> line_queue d' l' = line_queue d' l)
    \<and> mMsg msg' = mMsg msg \<and> curTime \<le> mStartOnWire msg'
    \<and> (\<forall>e \<in> set (line_queue d l).
         mFullyOnWire (snd e) < mStartOnWire msg' \<and> fst e < mArrivesFully msg')"
proof -
  have ok: "line_ok l" and wf: "queue_wf (prop_time l) (line_queue d l)"
    using assms(1) by (simp_all add: line_wf_def)
  obtain msg' l' where m: "calculateMessageEventTimes msg curTime d l = Inr msg'"
    and l': "addMessage msg' d l = Inr l'" "line_wf l'"
      "l' = set_line_queue d (line_queue d l @ [(mArrivesFully msg', msg')]) l"
    and data: "mMsg msg' = mMsg msg"
    and all: "\<forall>e \<in> set (line_queue d l). fst e < mArrivesFully msg'"
    using line_schedule [OF assms] by force
  have s: "us (mStartOnWire msg') = (if line_queue d l = [] then us curTime
         else max (us curTime) (us (mFullyOnWire (snd (last (line_queue d l)))) + 1))"
    using calculateMessageEventTimes_us [OF ok assms(2)] m by force
  have "mFullyOnWire (snd e) < mStartOnWire msg'" if e: "e \<in> set (line_queue d l)" for e
    unfolding interval_less_us s using queue_wf_last_full [OF wf e] e by auto
  moreover have "curTime \<le> mStartOnWire msg'"
    unfolding interval_le_us s by auto
  ultimately show ?thesis using m l' data all by auto
qed

definition example_line :: network_line where
  "example_line = network_line_new 200 10 0 ''LAN'' 1 ''10.0.0.0''"

definition example_message :: "nat \<Rightarrow> nat \<Rightarrow> u8 list \<Rightarrow> message" where
  "example_message src dst data = (message_new data)\<lparr>mSrcSock := Some src, mDestSock := Some dst\<rparr>"

lemma example_line_wf: "line_wf example_line"
proof -
  have "line_queue d example_line = []" for d
    by (cases d) (simp_all add: line_queue_def example_line_def network_line_new_def)
  moreover have "line_ok example_line"
    by (simp add: line_ok_def example_line_def network_line_new_def)
  ultimately show ?thesis by (simp add: line_wf_def)
qed

lemma example_room: "room_for (example_message 0 1 [1, 2, 3, 4, 5]) (Interval 7) FORWARD example_line"
  by (simp add: room_for_def message_fits_def access_time_def prop_time_def getSize_def
      example_message_def message_new_def example_line_def network_line_new_def line_queue_def)

theorem line_transmission_fifo_witness:
  "\<exists>msg' l'. addMessage msg' FORWARD example_line = Inr l'
    \<and> line_queue FORWARD l' = [(mArrivesFully msg', msg')] \<and> mMsg msg' = [1, 2, 3, 4, 5]"
  using line_transmission_fifo [OF example_line_wf example_room]
  by (auto simp: example_line_def network_line_new_def line_queue_def example_message_def message_new_def)

text \<open>
  Flushing a socket's messages removes exactly those, but reports the times of the
  entries that stood at the end of the queue: when the last message of the queue is kept
  and another one goes, the time of a message still on the wire is reported as removed.
\<close>

theorem removeActiveMessages_reports:
  assumes "removeActiveMessages sock d l = (ts, l')"
  shows "line_queue d l' = filter (\<lambda>e. mDestSock (snd e) \<noteq> Some sock) (line_queue d l)
    \<and> ts = map fst (drop (length (line_queue d l')) (line_queue d l))
    \<and> (\<forall>e \<in> set (line_queue d l). mDestSock (snd e) = Some sock \<longrightarrow>
         mDestSock (snd (last (line_queue d l))) \<noteq> Some sock \<longrightarrow>
         last (line_queue d l) \<in> set (line_queue d l')
         \<and> fst (last (line_queue d l)) \<in> set ts)"
proof -
  let ?q = "line_queue d l" and ?k = "filter (\<lambda>e. mDestSock (snd e) \<noteq> Some sock) (line_queue d l)"
  have q: "line_queue d l' = ?k" and t: "ts = map fst (drop (length ?k) ?q)"
    using assms by (auto simp: removeActiveMessages_def remove_if_cells_def Let_def)
  have "last ?q \<in> set ?k \<and> fst (last ?q) \<in> set ts"
    if e: "e \<in> set ?q" "mDestSock (snd e) = Some sock" and last: "mDestSock (snd (last ?q)) \<noteq> Some sock" for e
  proof -
    have "length ?k < length ?q" using e by (simp add: length_filter_less)
    then have "drop (length ?k) ?q \<noteq> []" by simp
    then have "last ?q \<in> set (drop (length ?k) ?q)"
      by (metis last_drop last_in_set \<open>length ?k < length ?q\<close>)
    moreover have "last ?q \<in> set ?q" using e by (cases ?q) auto
    ultimately show ?thesis using t last by auto
  qed
  then show ?thesis using q t by auto
qed

definition example_crowded_line :: network_line where
  "example_crowded_line = example_line\<lparr>mForwardLineQueue :=
     [(Interval 10, (example_message 0 1 [7])\<lparr>mArrivesFully := Interval 10\<rparr>),
      (Interval 20, (example_message 0 2 [8])\<lparr>mArrivesFully := Interval 20\<rparr>)]\<rparr>"

theorem removeActiveMessages_reports_witness:
  "\<exists>l'. removeActiveMessages 1 FORWARD example_crowded_line = ([Interval 20], l')
    \<and> map fst (line_queue FORWARD l') = [Interval 20]
    \<and> Interval 20 \<in> set (map fst (line_queue FORWARD l'))"
proof -
  obtain ts l' where r: "removeActiveMessages 1 FORWARD example_crowded_line = (ts, l')"
    by (cases "removeActiveMessages 1 FORWARD example_crowded_line")
  show ?thesis
    using removeActiveMessages_reports [OF r] r
    by (simp add: example_crowded_line_def line_queue_def example_message_def message_new_def)
qed

end
