(* ===== verification/StdString.thy ===== *)
theory StdString
  imports Prelude
begin

text \<open>
  The C and C++ string operations the code uses: \<^verbatim>\<open>std::string::find\<close> of a character,
  \<^verbatim>\<open>atoi\<close>, and \<^verbatim>\<open>sprintf("%u")\<close>.  \<open>None\<close> is \<^verbatim>\<open>std::string::npos\<close>.  \<^verbatim>\<open>atoi\<close> skips white
  space, takes a sign and the digits that follow and stops at the first other character;
  a value outside \<^verbatim>\<open>int\<close> is undefined behaviour.
\<close>

definition find_char :: "char \<Rightarrow> string \<Rightarrow> nat \<Rightarrow> nat option" where
  "find_char c s pos =
     (let pre = takeWhile (\<lambda>x. x \<noteq> c) (drop pos s)
      in if pos + length pre < length s then Some (pos + length pre) else None)"

definition digit_of :: "nat \<Rightarrow> char" where
  "digit_of d = char_of (48 + d)"

definition is_digit :: "char \<Rightarrow> bool" where
  "is_digit c \<longleftrightarrow> 48 \<le> (of_char c :: nat) \<and> (of_char c :: nat) \<le> 57"

definition is_space :: "char \<Rightarrow> bool" where
  "is_space c \<longleftrightarrow> (of_char c :: nat) = 32 \<or> 9 \<le> (of_char c :: nat) \<and> (of_char c :: nat) \<le> 13"

fun digits_val :: "nat \<Rightarrow> string \<Rightarrow> nat" where
  "digits_val a [] = a"
| "digits_val a (c # s) = (if is_digit c then digits_val (10 * a + (of_char c - 48)) s else a)"

definition atoi :: "string \<Rightarrow> int result" where
  "atoi s =
     (let t = dropWhile is_space s;
          v = (case t of [] \<Rightarrow> 0
               | c # r \<Rightarrow> if c = CHR ''-'' then - int (digits_val 0 r)
                          else if c = CHR ''+'' then int (digits_val 0 r)
                          else int (digits_val 0 t))
      in if - (2 ^ 31) \<le> v \<and> v < 2 ^ 31 then Inr v else Inl (Undefined ''atoi out of range''))"

fun dec :: "nat \<Rightarrow> string" where
  "dec n = (if n < 10 then [digit_of n] else dec (n div 10) @ [digit_of (n mod 10)])"

declare dec.simps [simp del]

lemma digit_of_props:
  assumes "d < 10"
  shows "of_char (digit_of d) = 48 + d" "is_digit (digit_of d)" "\<not> is_space (digit_of d)"
    "digit_of d \<noteq> CHR ''.''" "digit_of d \<noteq> CHR ''-''" "digit_of d \<noteq> CHR ''+''" "digit_of d \<noteq> CHR '':''"
proof -
  show v: "of_char (digit_of d) = 48 + d" using assms by (simp add: digit_of_def)
  then show "is_digit (digit_of d)" "\<not> is_space (digit_of d)"
    using assms by (simp_all add: is_digit_def is_space_def)
  show "digit_of d \<noteq> CHR ''.''" "digit_of d \<noteq> CHR ''-''" "digit_of d \<noteq> CHR ''+''"
    "digit_of d \<noteq> CHR '':''"
    using v assms by auto
qed

lemma dec_digits: "\<forall>c \<in> set (dec n). \<exists>d < 10. c = digit_of d"
proof (induction n rule: dec.induct)
  case (1 n)
  have "\<exists>d < 10. digit_of (n mod 10) = digit_of d"
    by (rule exI [of _ "n mod 10"]) simp
  with 1 show ?case by (cases "n < 10") (auto simp: dec.simps [of n])
qed

lemma dec_not_Nil [simp]: "dec n \<noteq> []"
  by (simp add: dec.simps [of n])

lemma dec_no_dot: "CHR ''.'' \<notin> set (dec n)"
  using dec_digits digit_of_props(4) by fastforce

lemma digits_val_dec: "digits_val a (dec n @ r) = digits_val (a * 10 ^ length (dec n) + n) r"
proof (induction n arbitrary: a r rule: dec.induct)
  case (1 n)
  show ?case
  proof (cases "n < 10")
    case True
    then show ?thesis by (simp add: dec.simps [of n] digit_of_props mult.commute)
  next
    case False
    then have "digits_val a (dec n @ r)
        = digits_val a (dec (n div 10) @ (digit_of (n mod 10) # r))"
      by (simp add: dec.simps [of n])
    also have "\<dots> = digits_val (10 * (a * 10 ^ length (dec (n div 10)) + n div 10) + n mod 10) r"
      using 1 [OF False] by (simp add: digit_of_props)
    also have "10 * (a * 10 ^ length (dec (n div 10)) + n div 10) + n mod 10
        = a * 10 ^ length (dec n) + n"
      using False by (simp add: dec.simps [of n] algebra_simps)
    finally show ?thesis .
  qed
qed

lemma digits_val_stop: "s = [] \<or> \<not> is_digit (hd s) \<Longrightarrow> digits_val a s = a"
  by (cases s) auto

lemma dec_hd: "\<exists>d < 10. hd (dec n) = digit_of d"
  using dec_digits [of n] by (meson dec_not_Nil hd_in_set)

text \<open>\<^verbatim>\<open>atoi\<close> reads back what \<^verbatim>\<open>sprintf\<close> wrote.\<close>

lemma atoi_dec:
  assumes "n < 2 ^ 31" and "r = [] \<or> \<not> is_digit (hd r)"
  shows "atoi (dec n @ r) = Inr (int n)"
proof -
  obtain d where d: "d < 10" "hd (dec n) = digit_of d" using dec_hd by blast
  obtain c s where cs: "dec n @ r = c # s" and c: "c = digit_of d"
    using d(2) by (metis append_Cons dec_not_Nil list.exhaust_sel)
  have "dropWhile is_space (dec n @ r) = dec n @ r"
    using cs c digit_of_props(3) [OF d(1)] by simp
  moreover have "digits_val 0 (dec n @ r) = n"
    using digits_val_dec [of 0 n r] digits_val_stop [OF assms(2)] by simp
  ultimately show ?thesis
    unfolding atoi_def Let_def
    using cs c digit_of_props(5,6) [OF d(1)] assms(1) by simp
qed

text \<open>Finding a character behind a prefix that ends before it.\<close>

lemma find_char_skip:
  assumes "c \<notin> set w"
  shows "find_char c (p @ w @ c # r) (length p) = Some (length p + length w)"
proof -
  have "takeWhile (\<lambda>x. x \<noteq> c) (w @ c # r) = w"
    using assms by (induction w) auto
  then show ?thesis by (simp add: find_char_def Let_def)
qed

lemma find_char_None:
  assumes "c \<notin> set w"
  shows "find_char c (p @ w) (length p) = None"
proof -
  have "takeWhile (\<lambda>x. x \<noteq> c) w = w"
    using assms by (induction w) auto
  then show ?thesis by (simp add: find_char_def Let_def del: takeWhile_eq_all_conv)
qed
section \<open>Hexadecimal numbers\<close>

text \<open>
  \<^verbatim>\<open>%0nX\<close> of \<^verbatim>\<open>printf\<close> for a value of at most \<open>n\<close> hexadecimal digits, and \<^verbatim>\<open>%0nx\<close> of
  \<^verbatim>\<open>scanf\<close>: white space is skipped, then a sign, the prefix \<^verbatim>\<open>0x\<close> and digits are taken, at
  most \<open>n\<close> characters in all; without a digit the conversion fails.
\<close>

definition hex_digit :: "nat \<Rightarrow> char" where
  "hex_digit d = (if d < 10 then char_of (48 + d) else char_of (55 + d))"

fun print_hex :: "nat \<Rightarrow> nat \<Rightarrow> string" where
  "print_hex 0 v = []"
| "print_hex (Suc n) v = print_hex n (v div 16) @ [hex_digit (v mod 16)]"

definition hex_value :: "char \<Rightarrow> nat option" where
  "hex_value c =
     (let k = (of_char c :: nat) in
      if 48 \<le> k \<and> k \<le> 57 then Some (k - 48)
      else if 65 \<le> k \<and> k \<le> 70 then Some (k - 55)
      else if 97 \<le> k \<and> k \<le> 102 then Some (k - 87)
      else None)"

fun hex_digits :: "nat \<Rightarrow> nat \<Rightarrow> string \<Rightarrow> nat \<times> nat \<times> string" where
  "hex_digits 0 a s = (a, 0, s)"
| "hex_digits (Suc n) a [] = (a, 0, [])"
| "hex_digits (Suc n) a (c # s) =
     (case hex_value c of
        None \<Rightarrow> (a, 0, c # s)
      | Some d \<Rightarrow> (let (v, k, r) = hex_digits n (16 * a + d) s in (v, Suc k, r)))"

definition scan_hex :: "nat \<Rightarrow> string \<Rightarrow> (int \<times> string) option" where
  "scan_hex width s =
     (let s1 = dropWhile is_space s;
          signed = (width > 0 \<and> s1 \<noteq> [] \<and> (hd s1 = CHR ''+'' \<or> hd s1 = CHR ''-''));
          neg = (signed \<and> hd s1 = CHR ''-'');
          s2 = (if signed then tl s1 else s1);
          w2 = (if signed then width - 1 else width);
          prefixed = (w2 \<ge> 2 \<and> (take 2 s2 = ''0x'' \<or> take 2 s2 = ''0X''));
          s3 = (if prefixed then drop 2 s2 else s2);
          w3 = (if prefixed then w2 - 2 else w2);
          (v, k, r) = hex_digits w3 0 s3
      in if k = 0 then None else Some (if neg then - int v else int v, r))"

lemma of_char_hex_digit:
  "d < 16 \<Longrightarrow> (of_char (hex_digit d) :: nat) = (if d < 10 then 48 + d else 55 + d)"
  by (simp add: hex_digit_def)

lemma hex_value_digit [simp]: "d < 16 \<Longrightarrow> hex_value (hex_digit d) = Some d"
  by (simp add: hex_value_def of_char_hex_digit)

lemma length_print_hex [simp]: "length (print_hex n v) = n"
  by (induction n v rule: print_hex.induct) simp_all

lemma print_hex_chars: "\<forall>c \<in> set (print_hex n v). \<exists>d < 16. c = hex_digit d"
proof (induction n v rule: print_hex.induct)
  case (2 n v)
  have "\<exists>d < 16. hex_digit (v mod 16) = hex_digit d" by (rule exI [of _ "v mod 16"]) simp
  then show ?case using 2 by simp
qed simp

lemma hex_digits_append:
  "\<forall>c \<in> set w. hex_value c \<noteq> None \<Longrightarrow> length w \<le> n \<Longrightarrow>
   hex_digits n a (w @ s) =
     (let (v, k, r) = hex_digits (n - length w) (fst (hex_digits (length w) a w)) s in (v, length w + k, r))"
proof (induction w arbitrary: n a)
  case (Cons c w)
  then obtain d where d: "hex_value c = Some d" by auto
  obtain m where m: "n = Suc m" using Cons.prems(2) by (cases n) auto
  have "hex_digits m (16 * a + d) (w @ s) =
     (let (v, k, r) = hex_digits (m - length w) (fst (hex_digits (length w) (16 * a + d) w)) s in (v, length w + k, r))"
    using Cons m by simp
  then show ?case using d m by (simp add: case_prod_beta Let_def)
qed simp

lemma hex_digits_full:
  "\<forall>c \<in> set w. hex_value c \<noteq> None \<Longrightarrow>
   hex_digits (length w) a (w @ s) = (fst (hex_digits (length w) a w), length w, s)"
  using hex_digits_append [of w "length w" a s] by simp

lemma print_hex_values: "\<forall>c \<in> set (print_hex n v). hex_value c \<noteq> None"
  using print_hex_chars [of n v] by fastforce

lemma hex_digits_print: "v < 16 ^ n \<Longrightarrow> fst (hex_digits n a (print_hex n v)) = 16 ^ n * a + v"
proof (induction n v arbitrary: a rule: print_hex.induct)
  case (2 n v)
  have lt: "v div 16 < 16 ^ n" using 2(2) by (simp add: less_mult_imp_div_less)
  have "hex_digits (Suc n) a (print_hex n (v div 16) @ [hex_digit (v mod 16)])
      = (let (u, k, r) = hex_digits (Suc n - n) (fst (hex_digits n a (print_hex n (v div 16))))
           [hex_digit (v mod 16)] in (u, n + k, r))"
    using hex_digits_append [OF print_hex_values, of n "v div 16" "Suc n" a "[hex_digit (v mod 16)]"] by simp
  then have "fst (hex_digits (Suc n) a (print_hex (Suc n) v)) = 16 * (16 ^ n * a + v div 16) + v mod 16"
    using 2(1) [OF lt] by (simp add: case_prod_beta Let_def Suc_diff_le)
  also have "\<dots> = 16 ^ Suc n * a + v" by (simp add: algebra_simps)
  finally show ?case .
qed simp

lemma hex_digit_plain:
  assumes "d < 16"
  shows "\<not> is_space (hex_digit d)" "hex_digit d \<noteq> CHR ''+''" "hex_digit d \<noteq> CHR ''-''"
    "hex_digit d \<noteq> CHR ''x''" "hex_digit d \<noteq> CHR ''X''"
proof -
  have k: "(of_char (hex_digit d) :: nat) = (if d < 10 then 48 + d else 55 + d)"
    using assms by (rule of_char_hex_digit)
  show "\<not> is_space (hex_digit d)" using assms k by (simp add: is_space_def)
  show "hex_digit d \<noteq> CHR ''+''" "hex_digit d \<noteq> CHR ''-''" "hex_digit d \<noteq> CHR ''x''" "hex_digit d \<noteq> CHR ''X''"
    using assms k by (auto split: if_splits)
qed

lemma scan_print_hex:
  assumes "v < 16 ^ n" and "0 < n"
  shows "scan_hex n (print_hex n v @ s) = Some (int v, s)"
proof -
  let ?w = "print_hex n v"
  obtain c w where w: "?w = c # w" using assms(2) length_print_hex [of n v] by (cases ?w) auto
  obtain d where d: "d < 16" "c = hex_digit d" using print_hex_chars [of n v] w by auto
  have pre: "take 2 (?w @ s) \<noteq> ''0x'' \<and> take 2 (?w @ s) \<noteq> ''0X''" if "2 \<le> n"
  proof -
    have "length w = n - 1" using arg_cong [OF w, of length] by simp
    then obtain b u where u: "w = b # u" using \<open>2 \<le> n\<close> by (cases w) auto
    obtain e where "e < 16" "b = hex_digit e" using print_hex_chars [of n v] w u by auto
    then have "b \<noteq> CHR ''x'' \<and> b \<noteq> CHR ''X''" using hex_digit_plain(4,5) by auto
    then show ?thesis using w u by (simp add: numeral_2_eq_2)
  qed
  have drop: "dropWhile is_space (?w @ s) = ?w @ s" using w d hex_digit_plain(1) by simp
  have sign: "hd (?w @ s) \<noteq> CHR ''+''" "hd (?w @ s) \<noteq> CHR ''-''" using w d hex_digit_plain(2,3) by auto
  have "hex_digits n 0 (?w @ s) = (v, n, s)"
    using hex_digits_full [OF print_hex_values, of n v 0 s] hex_digits_print [OF assms(1), of 0] by simp
  then show ?thesis
    unfolding scan_hex_def Let_def drop using sign pre assms(2) by (cases "2 \<le> n") auto
qed

end
