(* ===== verification/SimNode.thy ===== *)
theory SimNode
  imports ByteOrder StdString
begin

text \<open>
  The network simulator, part two: addresses and nodes
  (\<^verbatim>\<open>md/SIM/IO/Socket/InetAddrSIM.h\<close>, \<^verbatim>\<open>InetAddrSIM.cpp\<close>, \<^verbatim>\<open>md/SIM/Network/NetworkNode.h\<close>,
  \<^verbatim>\<open>NetworkNode.cpp\<close>).  A node has an IP address and two tables, from port to socket; a
  socket is a number.
\<close>

section \<open>Addresses\<close>

record inet_addr =
  mPort :: u32
  mAddress :: u32

definition LocalHostIpAddrValue :: u32 where
  "LocalHostIpAddrValue = 0x7F000001"

definition inet_addr_new :: inet_addr where
  "inet_addr_new = \<lparr>mPort = 0, mAddress = 0x7F000001\<rparr>"

definition AnyAddr :: inet_addr where
  "AnyAddr = inet_addr_new"

definition setAddress :: "u32 \<Rightarrow> u32 \<Rightarrow> inet_addr \<Rightarrow> inet_addr" where
  "setAddress address port a = a\<lparr>mAddress := address, mPort := port\<rparr>"

definition inet_equals :: "inet_addr \<Rightarrow> inet_addr \<Rightarrow> bool" where
  "inet_equals a b \<longleftrightarrow> mPort a = mPort b \<and> mAddress a = mAddress b"

lemma inet_equals_eq [simp]: "inet_equals a b \<longleftrightarrow> a = b"
  by (cases a; cases b) (simp add: inet_equals_def)

definition getAddressString :: "bool \<Rightarrow> inet_addr \<Rightarrow> string" where
  "getAddressString le a =
     (let bytes = host_bytes le 4 (Htonl le (mAddress a))
      in dec (unat (bytes ! 0)) @ ''.'' @ dec (unat (bytes ! 1)) @ ''.''
         @ dec (unat (bytes ! 2)) @ ''.'' @ dec (unat (bytes ! 3)))"

section \<open>Nodes\<close>

datatype socket_type = STREAM | DATAGRAM

type_synonym socket_map = "(u32, nat) omap"

record network_node =
  mIndex :: u32
  mType :: u8
  mIpStr :: string
  mIpAddr :: u32
  mStreamSocketMap :: socket_map
  mDgramSocketMap :: socket_map

text \<open>
  The constructor's loop: four times, the text from \<open>cur_pos\<close> to the next dot.  Without
  one, \<^verbatim>\<open>npos + 1\<close> is 0 and the next round starts over at the front.
\<close>

fun ip_bytes :: "nat \<Rightarrow> nat \<Rightarrow> string \<Rightarrow> u8 list result" where
  "ip_bytes 0 cur_pos ip_str = Inr []"
| "ip_bytes (Suc n) cur_pos ip_str =
     (let next_dot = find_char CHR ''.'' ip_str cur_pos;
          cur_val = (case next_dot of None \<Rightarrow> drop cur_pos ip_str
                     | Some d \<Rightarrow> take (d - cur_pos) (drop cur_pos ip_str));
          cur_pos' = (case next_dot of None \<Rightarrow> 0 | Some d \<Rightarrow> d + 1)
      in rbind (atoi cur_val) (\<lambda>v.
         rbind (ip_bytes n cur_pos' ip_str) (\<lambda>bytes. Inr (word_of_int v # bytes))))"

definition network_node_new :: "bool \<Rightarrow> u32 \<Rightarrow> u8 \<Rightarrow> string \<Rightarrow> network_node result" where
  "network_node_new le index type ip_str =
     rbind (ip_bytes 4 0 ip_str) (\<lambda>bytes.
       Inr \<lparr>mIndex = index, mType = type, mIpStr = ip_str,
            mIpAddr = Ntohl le (host_word le bytes),
            mStreamSocketMap = [], mDgramSocketMap = []\<rparr>)"

definition node_map :: "socket_type \<Rightarrow> network_node \<Rightarrow> socket_map" where
  "node_map t n = (case t of STREAM \<Rightarrow> mStreamSocketMap n | DATAGRAM \<Rightarrow> mDgramSocketMap n)"

definition set_node_map :: "socket_type \<Rightarrow> socket_map \<Rightarrow> network_node \<Rightarrow> network_node" where
  "set_node_map t m n =
     (case t of STREAM \<Rightarrow> n\<lparr>mStreamSocketMap := m\<rparr> | DATAGRAM \<Rightarrow> n\<lparr>mDgramSocketMap := m\<rparr>)"

definition hasSocket :: "u32 \<Rightarrow> socket_type \<Rightarrow> network_node \<Rightarrow> bool" where
  "hasSocket port t n = (map_of (node_map t n) port \<noteq> None)"

definition getSocket :: "u32 \<Rightarrow> socket_type \<Rightarrow> network_node \<Rightarrow> nat result" where
  "getSocket port t n =
     (case map_of (node_map t n) port of
        None \<Rightarrow> Inl (AssertionFailed ''getSocket doesn't have a socket of the given type'')
      | Some s \<Rightarrow> Inr s)"

text \<open>The socket to add or remove is its number, its local address and its type.\<close>

definition addSocket :: "nat \<Rightarrow> inet_addr \<Rightarrow> socket_type \<Rightarrow> network_node \<Rightarrow> network_node result" where
  "addSocket sock local_addr t n =
     rbind (require (mIpAddr n = mAddress local_addr)
              (AssertionFailed ''Trying to add socket to node of wrong ip addr'')) (\<lambda>_.
     rbind (require (\<not> hasSocket (mPort local_addr) t n)
              (AssertionFailed ''Tried to overwrite an existing socket'')) (\<lambda>_.
     Inr (set_node_map t (omap_put (mPort local_addr) sock (node_map t n)) n)))"

definition removeSocket :: "inet_addr \<Rightarrow> socket_type \<Rightarrow> network_node \<Rightarrow> network_node result" where
  "removeSocket local_addr t n =
     rbind (require (hasSocket (mPort local_addr) t n)
              (AssertionFailed ''Trying to remove a socket that isn't registered with node'')) (\<lambda>_.
     rbind (require (mIpAddr n = mAddress local_addr)
              (AssertionFailed ''Removing socket from wrong node [ip addresses differ]'')) (\<lambda>_.
     let n' = set_node_map t (omap_erase (mPort local_addr) (node_map t n)) n in
     rbind (require (\<not> hasSocket (mPort local_addr) t n')
              (AssertionFailed ''Erasing did nothing'')) (\<lambda>_. Inr n')))"

text \<open>The loop both port searches share: the first gap behind an entry of the table.\<close>

fun first_gap :: "socket_map \<Rightarrow> u32" where
  "first_gap [] = 1"
| "first_gap [(port, s)] = port + 1"
| "first_gap ((port, s) # (next, s') # m) =
     (if next \<noteq> port + 1 then port + 1 else first_gap ((next, s') # m))"

definition unassigned_port :: "socket_map \<Rightarrow> u32 result" where
  "unassigned_port m =
     (let ret_val = first_gap m in
      if map_of m ret_val = None then Inr ret_val
      else Inl (AssertionFailed ''Returned a value that already exists''))"

definition getUnassignedTcpPortNumber :: "network_node \<Rightarrow> u32 result" where
  "getUnassignedTcpPortNumber n = unassigned_port (mStreamSocketMap n)"

definition getUnassignedUdpPortNumber :: "network_node \<Rightarrow> u32 result" where
  "getUnassignedUdpPortNumber n = unassigned_port (mDgramSocketMap n)"

section \<open>What a node keeps\<close>

definition node_wf :: "network_node \<Rightarrow> bool" where
  "node_wf n \<longleftrightarrow> omap_wf (mStreamSocketMap n) \<and> omap_wf (mDgramSocketMap n)"

lemma node_map_set [simp]:
  "node_map t (set_node_map t m n) = m"
  "t \<noteq> t' \<Longrightarrow> node_map t (set_node_map t' m n) = node_map t n"
  "mIpAddr (set_node_map t m n) = mIpAddr n"
  by (cases t; cases t'; simp add: node_map_def set_node_map_def)+

lemma node_wf_maps: "node_wf n \<longleftrightarrow> (\<forall>t. omap_wf (node_map t n))"
  by (auto simp: node_wf_def node_map_def split: socket_type.splits)

lemma node_wf_map: "node_wf n \<Longrightarrow> omap_wf (node_map t n)"
  by (simp add: node_wf_maps)

lemma node_wf_set: "node_wf n \<Longrightarrow> omap_wf m \<Longrightarrow> node_wf (set_node_map t m n)"
  by (cases t) (simp_all add: node_wf_def set_node_map_def)

lemma network_node_new_wf: "network_node_new le i t s = Inr n \<Longrightarrow> node_wf n"
  by (auto simp: network_node_new_def rbind_Inr_iff node_wf_def)

lemma addSocket_effect:
  "addSocket sock a t n = Inr n' \<longleftrightarrow>
     mIpAddr n = mAddress a \<and> map_of (node_map t n) (mPort a) = None
     \<and> n' = set_node_map t (omap_put (mPort a) sock (node_map t n)) n"
  by (auto simp: addSocket_def hasSocket_def require_def)

lemma removeSocket_effect:
  assumes "node_wf n"
  shows "removeSocket a t n = Inr n' \<longleftrightarrow>
     mIpAddr n = mAddress a \<and> map_of (node_map t n) (mPort a) \<noteq> None
     \<and> n' = set_node_map t (omap_erase (mPort a) (node_map t n)) n"
  using omap_erase_lookup [OF node_wf_map [OF assms, of t], of "mPort a"]
  by (auto simp: removeSocket_def hasSocket_def require_def Let_def)

lemma addSocket_wf [wf_intros]: "node_wf n \<Longrightarrow> addSocket s a t n = Inr n' \<Longrightarrow> node_wf n'"
  by (auto simp: addSocket_effect intro!: node_wf_set omap_put_wf node_wf_map)

lemma removeSocket_wf [wf_intros]: "node_wf n \<Longrightarrow> removeSocket a t n = Inr n' \<Longrightarrow> node_wf n'"
  by (auto simp: removeSocket_effect intro!: node_wf_set omap_erase_wf node_wf_map)

lemma u32_succ:
  fixes p :: u32
  assumes "p \<noteq> 0xffffffff"
  shows "unat (p + 1) = unat p + 1"
proof -
  have "unat p \<noteq> 2 ^ 32 - 1" using assms by (simp add: word_unat_eq_iff)
  then show ?thesis using unat_u32_bound [of p] by (simp add: unat_word_ariths)
qed

lemma first_gap_free:
  assumes "omap_wf m" and "0xffffffff \<notin> fst ` set m"
  shows "first_gap m \<notin> fst ` set m \<and> first_gap m \<noteq> 0
    \<and> (\<forall>e \<in> set (take 1 m). fst e < first_gap m)"
  using assms
proof (induction m rule: first_gap.induct)
  case 1
  then show ?case by simp
next
  case (2 port s)
  have "unat (port + 1) = unat port + 1" using 2 by (intro u32_succ) auto
  then show ?case by (auto simp: word_less_nat_alt)
next
  case (3 port s "next" s' m)
  have p: "port \<noteq> 0xffffffff" and "port < next" and above: "\<forall>e \<in> set m. next < fst e"
    using 3(2,3) by (auto simp: omap_wf_Cons)
  have inc: "0 < port + 1 \<and> port < port + 1 \<and> (\<forall>x > port. port + 1 \<le> x)"
    using u32_succ [OF p] by (simp add: word_less_nat_alt word_le_nat_alt)
  show ?case
  proof (cases "next = port + 1")
    case True
    have "omap_wf ((next, s') # m)" using 3(2) by (simp add: omap_wf_Cons)
    then show ?thesis using 3(1) [OF _ _] 3(3) True \<open>port < next\<close> by auto
  next
    case False
    with inc \<open>port < next\<close> have "port + 1 < next" by (auto simp: le_less)
    then show ?thesis using inc above False by auto
  qed
qed

lemma unassigned_port_ok:
  assumes "omap_wf m" and "0xffffffff \<notin> fst ` set m"
  shows "unassigned_port m = Inr (first_gap m) \<and> map_of m (first_gap m) = None \<and> first_gap m \<noteq> 0"
  using first_gap_free [OF assms] by (simp add: unassigned_port_def Let_def map_of_eq_None_iff)

text \<open>
  A port asked for is a free one: on a node whose tables are in order and that does
  not use the last port, the search returns a port that is not 0 and that no socket of the
  type has, and binding a socket to it succeeds; the node then finds that socket under the
  port, every other socket as before, and removing it again leaves the other sockets.
\<close>

theorem unassigned_port_binds:
  assumes "node_wf n" and "0xffffffff \<notin> fst ` set (node_map t n)"
  shows "\<exists>port n'. (case t of STREAM \<Rightarrow> getUnassignedTcpPortNumber n
        | DATAGRAM \<Rightarrow> getUnassignedUdpPortNumber n) = Inr port
    \<and> port \<noteq> 0 \<and> \<not> hasSocket port t n
    \<and> addSocket sock \<lparr>mPort = port, mAddress = mIpAddr n\<rparr> t n = Inr n'
    \<and> node_wf n' \<and> getSocket port t n' = Inr sock
    \<and> (\<forall>p t'. (p, t') \<noteq> (port, t) \<longrightarrow> getSocket p t' n' = getSocket p t' n)
    \<and> (\<exists>n''. removeSocket \<lparr>mPort = port, mAddress = mIpAddr n\<rparr> t n' = Inr n''
         \<and> (\<forall>p t'. getSocket p t' n'' = getSocket p t' n))"
proof -
  let ?m = "node_map t n" let ?p = "first_gap ?m"
  let ?a = "\<lparr>mPort = ?p, mAddress = mIpAddr n\<rparr>"
  let ?n' = "set_node_map t (omap_put ?p sock ?m) n"
  let ?u = "set_node_map t (omap_erase ?p (node_map t ?n')) ?n'"
  have m: "omap_wf ?m" using assms(1) by (rule node_wf_map)
  have free: "unassigned_port ?m = Inr ?p" "map_of ?m ?p = None" "?p \<noteq> 0"
    using unassigned_port_ok [OF m assms(2)] by auto
  have find: "(case t of STREAM \<Rightarrow> getUnassignedTcpPortNumber n
        | DATAGRAM \<Rightarrow> getUnassignedUdpPortNumber n) = Inr ?p"
    using free(1) by (cases t) (simp_all add: getUnassignedTcpPortNumber_def
        getUnassignedUdpPortNumber_def node_map_def)
  have add: "addSocket sock ?a t n = Inr ?n'" using free by (simp add: addSocket_effect)
  have wf': "node_wf ?n'" using addSocket_wf [OF assms(1) add] .
  have others: "getSocket p t' ?n' = getSocket p t' n" if "(p, t') \<noteq> (?p, t)" for p t'
    using that by (cases "t' = t") (auto simp: getSocket_def omap_put_lookup)
  have rem: "removeSocket ?a t ?n'
      = Inr ?u"
    by (simp add: removeSocket_effect [OF wf'] omap_put_lookup)
  have restored: "getSocket p t' ?u = getSocket p t' n" for p t'
  proof (cases "t' = t")
    case True
    have "map_of (omap_erase ?p (omap_put ?p sock ?m)) = map_of ?m"
      using free(2) by (simp add: omap_erase_lookup omap_put_wf m omap_put_lookup fun_upd_idem)
    with True show ?thesis by (simp add: getSocket_def)
  next
    case False
    then show ?thesis using others by (auto simp: getSocket_def)
  qed
  show ?thesis
    using find free add wf' others rem restored
    by (intro exI [of _ ?p] exI [of _ ?n']) (auto simp: hasSocket_def getSocket_def omap_put_lookup)
qed

definition example_node :: network_node where
  "example_node = \<lparr>mIndex = 0, mType = 1, mIpStr = ''10.0.0.1'', mIpAddr = 0x0A000001,
     mStreamSocketMap = [(1, 4), (2, 5), (7, 6)], mDgramSocketMap = []\<rparr>"

theorem unassigned_port_binds_witness:
  "getUnassignedTcpPortNumber example_node = Inr 3
   \<and> (\<exists>n'. addSocket 9 \<lparr>mPort = 3, mAddress = 0x0A000001\<rparr> STREAM example_node = Inr n'
        \<and> getSocket 3 STREAM n' = Inr 9)"
proof -
  have port: "getUnassignedTcpPortNumber example_node = Inr 3"
    by (simp add: getUnassignedTcpPortNumber_def unassigned_port_def example_node_def)
  have "node_wf example_node" "0xffffffff \<notin> fst ` set (node_map STREAM example_node)"
    by (simp_all add: node_wf_def omap_wf_def example_node_def node_map_def)
  from unassigned_port_binds [OF this, of 9] port
  show ?thesis by (auto simp: example_node_def)
qed

section \<open>Dotted addresses\<close>

lemma atoi_byte: "atoi (dec (unat (b :: u8))) = Inr (int (unat b))"
proof -
  have "unat b < 2 ^ 8" by (rule order.strict_trans2 [OF unsigned_less]) simp
  then show ?thesis using atoi_dec [of "unat b" "[]"] by simp
qed

lemma ip_bytes_dot:
  assumes "s = p @ dec (unat (b :: u8)) @ CHR ''.'' # r" and "pos = length p"
  shows "ip_bytes (Suc n) pos s =
    rbind (ip_bytes n (length (p @ dec (unat b) @ ''.'')) s) (\<lambda>bytes. Inr (b # bytes))"
proof -
  have "find_char CHR ''.'' s pos = Some (length p + length (dec (unat b)))"
    unfolding assms by (rule find_char_skip [OF dec_no_dot])
  then show ?thesis by (simp add: assms atoi_byte)
qed

lemma ip_bytes_last:
  assumes "s = p @ dec (unat (b :: u8))" and "pos = length p"
  shows "ip_bytes 1 pos s = Inr [b]"
proof -
  have "find_char CHR ''.'' s pos = None"
    unfolding assms by (rule find_char_None [OF dec_no_dot])
  then show ?thesis by (simp add: assms atoi_byte)
qed

lemma ip_bytes_print:
  fixes a b c d :: u8
  shows "ip_bytes 4 0 (dec (unat a) @ ''.'' @ dec (unat b) @ ''.'' @ dec (unat c) @ ''.'' @ dec (unat d))
    = Inr [a, b, c, d]"
proof -
  let ?A = "dec (unat a) @ ''.''" let ?B = "?A @ dec (unat b) @ ''.''"
  let ?C = "?B @ dec (unat c) @ ''.''" let ?s = "?C @ dec (unat d)"
  have 1: "ip_bytes 1 (length ?C) ?s = Inr [d]"
    by (rule ip_bytes_last [where p = ?C]) simp_all
  have 2: "ip_bytes (Suc 1) (length ?B) ?s = rbind (ip_bytes 1 (length ?C) ?s) (\<lambda>bytes. Inr (c # bytes))"
    by (rule ip_bytes_dot [where p = ?B and r = "dec (unat d)"]) simp_all
  have 3: "ip_bytes (Suc (Suc 1)) (length ?A) ?s
      = rbind (ip_bytes (Suc 1) (length ?B) ?s) (\<lambda>bytes. Inr (b # bytes))"
    by (rule ip_bytes_dot [where p = ?A and r = "dec (unat c) @ ''.'' @ dec (unat d)"]) simp_all
  have 4: "ip_bytes (Suc (Suc (Suc 1))) 0 ?s
      = rbind (ip_bytes (Suc (Suc 1)) (length ([] @ dec (unat a) @ ''.'')) ?s) (\<lambda>bytes. Inr (a # bytes))"
    by (rule ip_bytes_dot [where p = "[]" and r = "dec (unat b) @ ''.'' @ dec (unat c) @ ''.'' @ dec (unat d)"]) simp_all
  have "ip_bytes (Suc (Suc (Suc 1))) 0 ?s = Inr [a, b, c, d]"
    by (simp only: 4 append.append_Nil 3 2 1 rbind_simps)
  moreover have "(4 :: nat) = Suc (Suc (Suc 1))" by simp
  ultimately show ?thesis by (simp only: append_assoc)
qed

lemma length_4_list: "length xs = 4 \<Longrightarrow> \<exists>a b c d. xs = [a, b, c, d]"
  by (auto simp: length_Suc_conv eval_nat_numeral)

text \<open>
  A node built from the text of an address has that address, on a host of either
  byte order: the constructor's parser reads back what \<open>getAddressString\<close> prints.
\<close>

theorem address_string_roundtrip:
  "\<exists>n. network_node_new le index ty (getAddressString le a) = Inr n
     \<and> mIpAddr n = mAddress a \<and> mIpStr n = getAddressString le a \<and> node_wf n"
proof -
  obtain b0 b1 b2 b3 where bs: "host_bytes le 4 (Htonl le (mAddress a)) = [b0, b1, b2, b3]"
    using length_host_bytes [of le 4 "Htonl le (mAddress a)"]
    by (metis length_4_list)
  have "ip_bytes 4 0 (getAddressString le a) = Inr [b0, b1, b2, b3]"
    unfolding getAddressString_def Let_def bs using ip_bytes_print [of b0 b1 b2 b3] by simp
  moreover have "Ntohl le (host_word le [b0, b1, b2, b3]) = mAddress a"
    using Ntohl_host_word [of "[b0, b1, b2, b3]" le] host_bytes_Htonl [of le "mAddress a"] bs
    by (simp add: host_word_net_bytes)
  ultimately show ?thesis
    by (simp add: network_node_new_def node_wf_def)
qed

end
