(* ===== verification/SimNet.thy ===== *)
theory SimNet
  imports SimLine SimNode "HOL-Library.Multiset"
begin

text \<open>
  The network simulator, part three: the graph and the controller
  (\<^verbatim>\<open>md/SIM/Network/NetworkGraph.h\<close>, \<^verbatim>\<open>NetworkGraph.cpp\<close>, \<^verbatim>\<open>md/SIM/Controller.h\<close>,
  \<^verbatim>\<open>Controller.cpp\<close>, and \<^verbatim>\<open>sendMessage\<close> of \<^verbatim>\<open>SocketManager.cpp\<close>, which starts a message
  on its first line).

  The state \<open>net\<close> holds the clock, the pending events in time order, the lines and nodes of
  the graph and the sockets.  Boost's graph library is an argument: what
  \<^verbatim>\<open>boost::edge\<close> answers for two vertices (a line and the descriptor's source), the
  predecessors \<^verbatim>\<open>boost::dijkstra_shortest_paths\<close> computes, and the degree of a vertex.  A
  message object is a value here: nothing modelled reads a message's bytes through two
  pointers.
\<close>

declare interval_order_simps [simp del]

section \<open>Sockets, events, the state\<close>

record socket =
  mOpen :: bool
  mBound :: bool
  mBlocking :: bool
  mLocalAddr :: inet_addr
  mRemoteAddr :: inet_addr
  mSockType :: socket_type
  mReuseAddr :: bool
  mArrivedQueue :: "message list"
  mNetworkNode :: nat
  mPathToPeer :: "nat list option"
  mConnected :: bool
  mPeer :: "nat option"
  mConnectorQueue :: "nat list"
  mNoDelay :: bool

datatype event_data =
    MESSAGE nat line_direction
  | CONNECTION_INIT nat
  | CONNECTION_COMPLETE nat
  | LOCALHOST_DELIVERY nat

fun event_eq :: "event_data \<Rightarrow> event_data \<Rightarrow> bool" where
  "event_eq (MESSAGE e d) (MESSAGE e' d') = (e = e' \<and> d = d')"
| "event_eq (CONNECTION_INIT s) (CONNECTION_INIT s') = (s = s')"
| "event_eq (CONNECTION_COMPLETE s) (CONNECTION_COMPLETE s') = (s = s')"
| "event_eq (LOCALHOST_DELIVERY s) (LOCALHOST_DELIVERY s') = (s = s')"
| "event_eq _ _ = False"

record net =
  mClock :: clock
  mEvents :: "(interval \<times> event_data) list"
  mLines :: "network_line list"
  mNodes :: "network_node list"
  mGraphValid :: bool
  mActive :: bool
  mSockets :: "socket list"
  mListenerList :: "inet_addr \<rightharpoonup> nat"
  mNetworkNodes :: "u32 \<rightharpoonup> nat"

record boost_graph =
  bg_edge :: "nat \<Rightarrow> nat \<Rightarrow> (nat \<times> nat) option"
  bg_pred :: "nat \<Rightarrow> nat \<Rightarrow> nat"
  bg_degree :: "nat \<Rightarrow> nat"

definition upd_sock :: "nat \<Rightarrow> (socket \<Rightarrow> socket) \<Rightarrow> net \<Rightarrow> net" where
  "upd_sock k f s = s\<lparr>mSockets := (mSockets s)[k := f (mSockets s ! k)]\<rparr>"

definition upd_line :: "nat \<Rightarrow> network_line \<Rightarrow> net \<Rightarrow> net" where
  "upd_line e l s = s\<lparr>mLines := (mLines s)[e := l]\<rparr>"

section \<open>The graph\<close>

definition getEdge :: "boost_graph \<Rightarrow> nat \<Rightarrow> nat \<Rightarrow> (nat \<times> nat) option" where
  "getEdge B u v = bg_edge B u v"

definition isSource :: "nat \<Rightarrow> nat \<times> nat \<Rightarrow> bool" where
  "isSource v edge \<longleftrightarrow> v = snd edge"

fun find_node :: "u32 \<Rightarrow> network_node list \<Rightarrow> nat \<Rightarrow> nat option" where
  "find_node addr [] i = None"
| "find_node addr (n # ns) i = (if mIpAddr n = addr then Some i else find_node addr ns (Suc i))"

definition getNodeWithAddr :: "u32 \<Rightarrow> net \<Rightarrow> nat option result" where
  "getNodeWithAddr addr s =
     rbind (require (mGraphValid s) (AssertionFailed ''Trying to use invalid graph''))
       (\<lambda>_. Inr (find_node addr (mNodes s) 0))"

definition getAllAddresses :: "net \<Rightarrow> (nat \<times> u32) list" where
  "getAllAddresses s = enumerate 0 (map mIpAddr (mNodes s))"

text \<open>
  The walk from the destination back to the source.  \<open>fuel\<close> is the number of vertices: a
  longer walk visits a vertex twice, and the code does not return.
\<close>

fun pred_walk :: "nat \<Rightarrow> (nat \<Rightarrow> nat) \<Rightarrow> nat \<Rightarrow> nat list option" where
  "pred_walk 0 pred p = None"
| "pred_walk (Suc fuel) pred p =
     (let q = pred p in
      if q \<noteq> p then map_option ((#) p) (pred_walk fuel pred q) else Some [p])"

definition getShortestPath :: "boost_graph \<Rightarrow> nat \<Rightarrow> nat \<Rightarrow> net \<Rightarrow> nat list result" where
  "getShortestPath B src dest s =
     rbind (require (bg_degree B src > 0) (AssertionFailed ''No outgoing edges from source'')) (\<lambda>_.
     rbind (require (bg_degree B dest > 0) (AssertionFailed ''No outgoing edges from destination'')) (\<lambda>_.
     case pred_walk (length (mNodes s)) (bg_pred B src) dest of
       None \<Rightarrow> Inl (Undefined ''the predecessors form a cycle'')
     | Some vlist \<Rightarrow>
         rbind (require (last vlist = src) (AssertionFailed ''Destination is unreachable from source!''))
           (\<lambda>_. Inr (rev vlist))))"

fun reverse_copy :: "nat list \<Rightarrow> nat \<Rightarrow> nat list" where
  "reverse_copy path 0 = []"
| "reverse_copy path (Suc i) = path ! i # reverse_copy path i"

definition reversePath :: "nat list \<Rightarrow> nat list" where
  "reversePath path = reverse_copy path (length path)"

section \<open>The controller\<close>

definition addMessageEvent :: "interval \<Rightarrow> nat \<Rightarrow> line_direction \<Rightarrow> net \<Rightarrow> net" where
  "addMessageEvent event_time edge dir s =
     s\<lparr>mEvents := mmap_insert event_time (MESSAGE edge dir) (mEvents s)\<rparr>"

definition addConnectionEvent :: "interval \<Rightarrow> nat \<Rightarrow> net \<Rightarrow> net" where
  "addConnectionEvent event_time acceptor_sock s =
     s\<lparr>mEvents := mmap_insert event_time (CONNECTION_INIT acceptor_sock) (mEvents s)\<rparr>"

definition addConnectionCompletionEvent :: "interval \<Rightarrow> nat \<Rightarrow> net \<Rightarrow> net" where
  "addConnectionCompletionEvent event_time connector_sock s =
     s\<lparr>mEvents := mmap_insert event_time (CONNECTION_COMPLETE connector_sock) (mEvents s)\<rparr>"

definition addLocalhostDeliveryEvent :: "interval \<Rightarrow> nat \<Rightarrow> net \<Rightarrow> net" where
  "addLocalhostDeliveryEvent event_time connector_sock s =
     s\<lparr>mEvents := mmap_insert event_time (LOCALHOST_DELIVERY connector_sock) (mEvents s)\<rparr>"

definition addArrivedMessage :: "nat \<Rightarrow> message \<Rightarrow> net \<Rightarrow> net result" where
  "addArrivedMessage sock msg s =
     rbind (require (mDestSock msg = Some sock) (AssertionFailed ''Message delivered to incorrect destination''))
       (\<lambda>_. if sock < length (mSockets s)
            then Inr (upd_sock sock (\<lambda>k. k\<lparr>mArrivedQueue := mArrivedQueue k @ [msg]\<rparr>) s)
            else Inl (Undefined ''no such socket''))"

text \<open>Putting a message on the line between two vertices, which two callers share.\<close>

definition start_on_line :: "boost_graph \<Rightarrow> nat \<times> nat \<Rightarrow> nat \<Rightarrow> message \<Rightarrow> interval \<Rightarrow> net \<Rightarrow> net result" where
  "start_on_line B edge hop msg cur_time s =
     (let e = fst edge; dir = (if isSource hop edge then FORWARD else REVERSE) in
      if e < length (mLines s) then
        rbind (calculateMessageEventTimes msg cur_time dir (mLines s ! e)) (\<lambda>msg'.
        rbind (addMessage msg' dir (mLines s ! e)) (\<lambda>l.
        Inr (addMessageEvent (mArrivesFully msg') e dir (upd_line e l s))))
      else Inl (Undefined ''no such line''))"

definition moveMessage :: "boost_graph \<Rightarrow> message \<Rightarrow> interval \<Rightarrow> net \<Rightarrow> (nat option \<times> net) result" where
  "moveMessage B msg cur_time s =
     rbind (getNextHop msg) (\<lambda>next_hop.
     let (end_of_path, msg1) = incNextHop msg in
     if \<not> end_of_path then
       rbind (getNextHop msg1) (\<lambda>next_next_hop.
       case getEdge B next_hop next_next_hop of
         None \<Rightarrow> Inl (AssertionFailed ''Edge between nodes not found!'')
       | Some next_line \<Rightarrow>
           rbind (start_on_line B next_line next_hop msg1 cur_time s) (\<lambda>s'. Inr (None, s')))
     else
       (case mDestSock msg1 of
          None \<Rightarrow> Inl (Undefined ''no destination socket'')
        | Some dest \<Rightarrow>
            if dest < length (mSockets s) then
              rbind (require (mOpen (mSockets s ! dest))
                       (AssertionFailed ''The destination socket has been closed (or possibly destroyed)''))
                (\<lambda>_. rbind (addArrivedMessage dest msg1 s) (\<lambda>s'. Inr (Some dest, s')))
            else Inl (Undefined ''no such socket'')))"

text \<open>
  \<^verbatim>\<open>processNextEvent\<close>.  The code erases the event by its iterator after the message has
  moved; a \<^verbatim>\<open>multimap\<close> gives the same events when it is taken out first.  The first
  component is \<^verbatim>\<open>*recvSocket\<close>.
\<close>

definition processNextEvent :: "boost_graph \<Rightarrow> net \<Rightarrow> (nat option \<times> net) result" where
  "processNextEvent B s =
     (case mEvents s of
        [] \<Rightarrow> Inr (None, s)
      | (event_time, ev) # events \<Rightarrow>
          let s1 = s\<lparr>mClock := setCurrentTime event_time (mClock s), mEvents := events\<rparr> in
          (case ev of
             MESSAGE edge dir \<Rightarrow>
               if edge < length (mLines s1) then
                 rbind (getArrivedMessage event_time dir (mLines s1 ! edge)) (\<lambda>(msg, l).
                 moveMessage B msg event_time (upd_line edge l s1))
               else Inl (Undefined ''no such line'')
           | CONNECTION_COMPLETE sock \<Rightarrow> Inr (Some sock, s1)
           | CONNECTION_INIT sock \<Rightarrow> Inr (Some sock, s1)
           | LOCALHOST_DELIVERY sock \<Rightarrow> Inr (Some sock, s1)))"

text \<open>The loop of \<^verbatim>\<open>processEvents\<close>; \<open>None\<close> when it does not return.\<close>

partial_function (option) process_loop :: "boost_graph \<Rightarrow> interval \<Rightarrow> net \<Rightarrow> net result option" where
  "process_loop B event_time s =
     (if mEvents s \<noteq> [] \<and> fst (hd (mEvents s)) \<le> event_time
      then (case processNextEvent B s of
              Inl e \<Rightarrow> Some (Inl e)
            | Inr (_, s') \<Rightarrow> process_loop B event_time s')
      else Some (Inr s))"

definition processEvents :: "boost_graph \<Rightarrow> interval \<Rightarrow> net \<Rightarrow> net result option" where
  "processEvents B time_step s =
     (let event_time = mCurrentTime (mClock s) + time_step
      in process_loop B event_time (s\<lparr>mClock := setCurrentTime event_time (mClock s)\<rparr>))"

text \<open>\<^verbatim>\<open>SocketManager::sendMessage\<close>: the first line, or straight into the queue on the same node.\<close>

definition sendMessage :: "boost_graph \<Rightarrow> message \<Rightarrow> net \<Rightarrow> net result" where
  "sendMessage B msg s =
     rbind (require (mActive s) (AssertionFailed ''Socket manager not activated yet'')) (\<lambda>_.
     rbind (getNextHop msg) (\<lambda>first_hop.
     let (end_of_path, msg1) = incNextHop msg; now = mCurrentTime (mClock s) in
     if \<not> end_of_path then
       rbind (getNextHop msg1) (\<lambda>second_hop.
       case getEdge B first_hop second_hop of
         None \<Rightarrow> Inr s
       | Some first_edge \<Rightarrow> start_on_line B first_edge first_hop msg1 now s)
     else
       (case (mSrcSock msg1, mDestSock msg1) of
          (Some src, Some dest) \<Rightarrow>
            if src < length (mSockets s) \<and> dest < length (mSockets s) then
              rbind (require (mAddress (mLocalAddr (mSockets s ! src)) = mAddress (mLocalAddr (mSockets s ! dest)))
                       (AssertionFailed ''Could not get second node in message's path'')) (\<lambda>_.
              rbind (addArrivedMessage dest msg1 s) (\<lambda>s'.
              Inr (addLocalhostDeliveryEvent now dest s')))
            else Inl (Undefined ''no such socket'')
        | _ \<Rightarrow> Inl (Undefined ''no socket''))))"

text \<open>
  \<^verbatim>\<open>flushPath\<close>: along the path, the line towards the next vertex loses the socket's
  messages, and the events at the times it reports are erased.  The code goes on from an
  erased iterator, which is undefined behaviour.
\<close>

fun erase_events :: "interval \<Rightarrow> event_data \<Rightarrow> (interval \<times> event_data) list \<Rightarrow>
    (interval \<times> event_data) list result" where
  "erase_events t ev [] = Inr []"
| "erase_events t ev ((t', ev') # m) =
     (if t' = t \<and> event_eq ev ev' then Inl (Undefined ''increment of an erased iterator'')
      else rbind (erase_events t ev m) (\<lambda>m'. Inr ((t', ev') # m')))"

fun flushPath :: "boost_graph \<Rightarrow> nat \<Rightarrow> nat list \<Rightarrow> net \<Rightarrow> net result" where
  "flushPath B sock [] s = Inl (Undefined ''increment past the end'')"
| "flushPath B sock [source] s = Inr s"
| "flushPath B sock (source # dest # path) s =
     (case getEdge B source dest of
        None \<Rightarrow> flushPath B sock (dest # path) s
      | Some line \<Rightarrow>
          let e = fst line; dir = (if isSource source line then FORWARD else REVERSE) in
          if e < length (mLines s) then
            (case removeActiveMessages sock dir (mLines s ! e) of (event_times, l) \<Rightarrow>
              rbind (rfold (\<lambda>t. erase_events t (MESSAGE e dir)) event_times (mEvents s)) (\<lambda>events.
              flushPath B sock (dest # path) ((upd_line e l s)\<lparr>mEvents := events\<rparr>)))
          else Inl (Undefined ''no such line''))"

section \<open>Messages in flight\<close>

text \<open>A quantity summed over the messages on all lines.\<close>

definition queue_sum :: "(message \<Rightarrow> 'a::comm_monoid_add) \<Rightarrow> msg_queue \<Rightarrow> 'a" where
  "queue_sum f q = sum_list (map (\<lambda>x. f (snd x)) q)"

definition line_sum :: "(message \<Rightarrow> 'a::comm_monoid_add) \<Rightarrow> network_line \<Rightarrow> 'a" where
  "line_sum f l = queue_sum f (mForwardLineQueue l) + queue_sum f (mReverseLineQueue l)"

definition flying :: "(message \<Rightarrow> 'a::comm_monoid_add) \<Rightarrow> net \<Rightarrow> 'a" where
  "flying f s = sum_list (map (line_sum f) (mLines s))"

definition queue_at :: "net \<Rightarrow> nat \<Rightarrow> line_direction \<Rightarrow> msg_queue" where
  "queue_at s e d = (if e < length (mLines s) then line_queue d (mLines s ! e) else [])"

lemma queue_sum_simps [simp]:
  "queue_sum f [] = 0"
  "queue_sum f (x # q) = f (snd x) + queue_sum f q"
  "queue_sum f (q @ q') = queue_sum f q + queue_sum f q'"
  by (simp_all add: queue_sum_def)

lemma line_sum_set_queue:
  "line_sum f (set_line_queue d q l) + queue_sum f (line_queue d l) = line_sum f l + queue_sum f q"
  by (cases d) (simp_all add: line_sum_def set_line_queue_def line_queue_def add_ac)

lemma sum_list_upd:
  fixes g :: "'b \<Rightarrow> 'a::comm_monoid_add"
  shows "i < length xs \<Longrightarrow> sum_list (map g (xs[i := x])) + g (xs ! i) = sum_list (map g xs) + g x"
  by (induction xs arbitrary: i) (auto simp: add_ac nth_Cons' split: nat.splits)

lemma mLines_upd_line [simp]:
  "mLines (upd_line e l s) = (mLines s)[e := l]"
  "mEvents (upd_line e l s) = mEvents s" "mClock (upd_line e l s) = mClock s"
  "mSockets (upd_line e l s) = mSockets s"
  by (simp_all add: upd_line_def)

lemma flying_upd:
  fixes f :: "message \<Rightarrow> 'a::cancel_comm_monoid_add"
  assumes "e < length (mLines s)"
  shows "flying f (upd_line e (set_line_queue d q (mLines s ! e)) s) + queue_sum f (queue_at s e d)
    = flying f s + queue_sum f q"
proof -
  let ?l = "mLines s ! e" and ?l' = "set_line_queue d q (mLines s ! e)"
  have "flying f (upd_line e ?l' s) + line_sum f ?l = flying f s + line_sum f ?l'"
    using sum_list_upd [OF assms, of "line_sum f" ?l'] by (simp add: flying_def)
  then have "flying f (upd_line e ?l' s) + line_sum f ?l + queue_sum f (line_queue d ?l)
      = flying f s + (line_sum f ?l + queue_sum f q)"
    using line_sum_set_queue [of f d q ?l] by (simp add: add.assoc)
  then have "(flying f (upd_line e ?l' s) + queue_sum f (line_queue d ?l)) + line_sum f ?l
      = (flying f s + queue_sum f q) + line_sum f ?l"
    by (simp add: add_ac)
  then show ?thesis using assms by (simp add: queue_at_def)
qed

lemma flying_cong [simp]:
  "flying f (s\<lparr>mEvents := es\<rparr>) = flying f s" "flying f (s\<lparr>mClock := c\<rparr>) = flying f s"
  "flying f (upd_sock k g s) = flying f s" "flying f (addMessageEvent t e d s) = flying f s"
  by (simp_all add: flying_def upd_sock_def addMessageEvent_def)

lemma queue_at_cong [simp]:
  "queue_at (s\<lparr>mEvents := es\<rparr>) e d = queue_at s e d" "queue_at (s\<lparr>mClock := c\<rparr>) e d = queue_at s e d"
  "queue_at (upd_sock k g s) e d = queue_at s e d" "queue_at (addMessageEvent t e' d' s) e d = queue_at s e d"
  by (simp_all add: queue_at_def upd_sock_def addMessageEvent_def)

lemma queue_at_upd:
  "e < length (mLines s) \<Longrightarrow> queue_at (upd_line e (set_line_queue d q (mLines s ! e)) s) e' d'
    = (if e' = e \<and> d' = d then q else queue_at s e' d')"
  by (auto simp: queue_at_def nth_list_update)

section \<open>The invariant\<close>

definition line_events :: "nat \<Rightarrow> line_direction \<Rightarrow> (interval \<times> event_data) list \<Rightarrow> interval list" where
  "line_events e d evs = map fst (filter (\<lambda>x. snd x = MESSAGE e d) evs)"

fun path_ok :: "boost_graph \<Rightarrow> nat \<Rightarrow> nat list \<Rightarrow> bool" where
  "path_ok B n [] = False"
| "path_ok B n [v] = True"
| "path_ok B n (u # v # p) =
     ((case bg_edge B u v of None \<Rightarrow> False | Some e \<Rightarrow> fst e < n) \<and> path_ok B n (v # p))"

definition dest_open :: "socket list \<Rightarrow> message \<Rightarrow> bool" where
  "dest_open ks m = (case mDestSock m of None \<Rightarrow> False | Some k \<Rightarrow> k < length ks \<and> mOpen (ks ! k))"

definition msg_ok :: "boost_graph \<Rightarrow> net \<Rightarrow> message \<Rightarrow> bool" where
  "msg_ok B s m \<longleftrightarrow> path_ok B (length (mLines s)) (drop (mNextHop m) (mMsgPath m))
     \<and> dest_open (mSockets s) m \<and> (\<forall>l \<in> set (mLines s). message_fits m l)"

text \<open>
  The lines are well-formed, the events are in time order, the message events of a line's
  direction are the arrivals queued there, in the same order, and every message on a line
  has a way to go to a socket that is open.
\<close>

definition net_wf :: "boost_graph \<Rightarrow> net \<Rightarrow> bool" where
  "net_wf B s \<longleftrightarrow> (\<forall>l \<in> set (mLines s). line_wf l) \<and> mmap_wf (mEvents s)
     \<and> (\<forall>e d. line_events e d (mEvents s) = map fst (queue_at s e d))
     \<and> (\<forall>e d. \<forall>x \<in> set (queue_at s e d). msg_ok B s (snd x))"

definition times_le :: "nat \<Rightarrow> net \<Rightarrow> bool" where
  "times_le T s \<longleftrightarrow> (\<forall>e d. \<forall>x \<in> set (queue_at s e d). us (fst x) \<le> T)"

definition hops_left :: "message \<Rightarrow> nat" where
  "hops_left m = length (mMsgPath m) - mNextHop m"

fun is_message :: "event_data \<Rightarrow> bool" where
  "is_message (MESSAGE e d) = True"
| "is_message _ = False"

definition work :: "net \<Rightarrow> nat" where
  "work s = length (filter (\<lambda>x. \<not> is_message (snd x)) (mEvents s)) + flying hops_left s"

text \<open>All messages of the network, with their destination: on lines and arrived.\<close>

definition in_flight :: "net \<Rightarrow> (nat option \<times> u8 list) multiset" where
  "in_flight s = flying (\<lambda>m. {# (mDestSock m, mMsg m) #}) s"

definition arrived :: "net \<Rightarrow> (nat option \<times> u8 list) multiset" where
  "arrived s = (\<Sum>k\<leftarrow>mSockets s. mset (map (\<lambda>m. (mDestSock m, mMsg m)) (mArrivedQueue k)))"

lemma filter_mmap_insert:
  assumes "mmap_wf m" and "P (k, v) \<Longrightarrow> \<forall>x \<in> set m. P x \<longrightarrow> fst x < k"
  shows "filter P (mmap_insert k v m) = (if P (k, v) then filter P m @ [(k, v)] else filter P m)"
  using assms
proof (induction k v m rule: mmap_insert.induct)
  case (1 k v)
  then show ?case by simp
next
  case (2 k v k' v' m)
  have wf: "mmap_wf m" using 2(2) by (rule mmap_wf_tl)
  show ?case
  proof (cases "k < k'")
    case True
    have "filter P ((k', v') # m) = []" if "P (k, v)"
    proof -
      have "\<not> P x" if x: "x \<in> set ((k', v') # m)" for x
      proof
        assume "P x"
        then have "fst x < k" using 2(3) [OF \<open>P (k, v)\<close>] x by blast
        moreover have "k' \<le> fst x" using 2(2) x by (auto simp: mmap_wf_def)
        ultimately show False using True by simp
      qed
      then show ?thesis by (simp add: filter_empty_conv)
    qed
    with True show ?thesis by auto
  next
    case False
    have "P (k, v) \<Longrightarrow> \<forall>x \<in> set m. P x \<longrightarrow> fst x < k" using 2(3) by simp
    with 2(1) [OF False wf] False show ?thesis by auto
  qed
qed

lemma path_ok_length: "path_ok B n p \<Longrightarrow> p \<noteq> []"
  by (cases p) auto

lemma msg_ok_hop: "msg_ok B s m \<Longrightarrow> mNextHop m < length (mMsgPath m)"
  using path_ok_length unfolding msg_ok_def by fastforce

lemma net_wf_line: "net_wf B s \<Longrightarrow> e < length (mLines s) \<Longrightarrow> line_wf (mLines s ! e)"
  by (simp add: net_wf_def)

lemma net_wf_msg: "net_wf B s \<Longrightarrow> x \<in> set (queue_at s e d) \<Longrightarrow> msg_ok B s (snd x)"
  by (simp add: net_wf_def)

lemma message_fits_queue [simp]: "message_fits m (set_line_queue d q l) = message_fits m l"
  by (simp add: message_fits_def access_time_def)

lemma access_time_times [simp]:
  "message_fits (m\<lparr>mStartOnWire := a, mFullyOnWire := b, mArrivesFully := c\<rparr>) l = message_fits m l"
  "dest_open ks (m\<lparr>mStartOnWire := a, mFullyOnWire := b, mArrivesFully := c\<rparr>) = dest_open ks m"
  "hops_left (m\<lparr>mStartOnWire := a, mFullyOnWire := b, mArrivesFully := c\<rparr>) = hops_left m"
  by (simp_all add: message_fits_def access_time_def getSize_def dest_open_def hops_left_def)

lemma ball_list_update:
  assumes "i < length xs" and "P y = P (xs ! i)"
  shows "(\<forall>x \<in> set (xs[i := y]). P x) \<longleftrightarrow> (\<forall>x \<in> set xs. P x)"
proof -
  have "(\<forall>j < length xs. P (xs[i := y] ! j)) \<longleftrightarrow> (\<forall>j < length xs. P (xs ! j))"
  proof (rule iffI; intro allI impI)
    fix j assume *: "\<forall>j < length xs. P (xs[i := y] ! j)" and j: "j < length xs"
    then show "P (xs ! j)" using assms by (cases "j = i") (auto simp: nth_list_update)
  next
    fix j assume "\<forall>j < length xs. P (xs ! j)" and "j < length xs"
    then show "P (xs[i := y] ! j)" using assms by (simp add: nth_list_update)
  qed
  then show ?thesis by (simp add: all_set_conv_all_nth)
qed

lemma msg_ok_upd_line:
  assumes "e < length (mLines s)"
  shows "msg_ok B (upd_line e (set_line_queue d q (mLines s ! e)) s) m = msg_ok B s m"
proof -
  have "(\<forall>l \<in> set ((mLines s)[e := set_line_queue d q (mLines s ! e)]). message_fits m l)
      \<longleftrightarrow> (\<forall>l \<in> set (mLines s). message_fits m l)"
    by (rule ball_list_update) (simp_all add: assms)
  then show ?thesis by (simp add: msg_ok_def)
qed

lemma msg_ok_cong [simp]:
  "msg_ok B (s\<lparr>mEvents := es\<rparr>) m = msg_ok B s m" "msg_ok B (s\<lparr>mClock := c\<rparr>) m = msg_ok B s m"
  "msg_ok B (addMessageEvent t e d s) m = msg_ok B s m"
  by (simp_all add: msg_ok_def addMessageEvent_def)

lemma net_wf_last_event:
  assumes "net_wf B s" and "x \<in> set (mEvents s)" and "snd x = MESSAGE e d"
    and "\<forall>y \<in> set (queue_at s e d). fst y < t"
  shows "fst x < t"
proof -
  have "fst x \<in> set (line_events e d (mEvents s))"
    using assms(2,3) by (auto simp: line_events_def)
  then have "fst x \<in> fst ` set (queue_at s e d)" using assms(1) by (simp add: net_wf_def)
  then show ?thesis using assms(4) by auto
qed

text \<open>Queueing a message behind the others of a line, with its event, keeps the invariant.\<close>

lemma net_wf_enqueue:
  assumes wf: "net_wf B s" and e: "e < length (mLines s)" and ok: "msg_ok B s m"
    and line: "line_wf (set_line_queue d (line_queue d (mLines s ! e) @ [(t, m)]) (mLines s ! e))"
    and later: "\<forall>x \<in> set (line_queue d (mLines s ! e)). fst x < t"
  shows "net_wf B (addMessageEvent t e d
    (upd_line e (set_line_queue d (line_queue d (mLines s ! e) @ [(t, m)]) (mLines s ! e)) s))"
    (is "net_wf B (addMessageEvent t e d ?s)")
proof -
  have later_at: "\<forall>y \<in> set (queue_at s e d). fst y < t"
    using later e by (simp add: queue_at_def)
  have later': "\<forall>x \<in> set (mEvents s). snd x = MESSAGE e d \<longrightarrow> fst x < t"
    using net_wf_last_event [OF wf] later_at by blast
  have order: "mmap_wf (mEvents s)" using wf by (simp add: net_wf_def)
  have events: "line_events e' d' (mmap_insert t (MESSAGE e d) (mEvents s))
      = (if e' = e \<and> d' = d then line_events e' d' (mEvents s) @ [t] else line_events e' d' (mEvents s))" for e' d'
    unfolding line_events_def using later' by (subst filter_mmap_insert [OF order]) auto
  have queues: "queue_at ?s e' d'
      = (if e' = e \<and> d' = d then queue_at s e d @ [(t, m)] else queue_at s e' d')" for e' d'
    using queue_at_upd [OF e] e by (simp add: queue_at_def)
  have lines: "\<forall>l \<in> set (mLines ?s). line_wf l"
    using wf line set_update_subset_insert [of "mLines s" e] by (auto simp: net_wf_def)
  have "\<forall>e' d'. line_events e' d' (mEvents (addMessageEvent t e d ?s))
      = map fst (queue_at (addMessageEvent t e d ?s) e' d')"
    using wf by (auto simp: addMessageEvent_def events queues net_wf_def)
  moreover have "\<forall>e' d'. \<forall>x \<in> set (queue_at (addMessageEvent t e d ?s) e' d').
      msg_ok B (addMessageEvent t e d ?s) (snd x)"
    using net_wf_msg [OF wf] ok by (auto simp: queues msg_ok_upd_line [OF e] split: if_splits)
  moreover have "mmap_wf (mEvents (addMessageEvent t e d ?s))"
    using order by (simp add: addMessageEvent_def mmap_insert_wf)
  ultimately show ?thesis using lines by (simp add: net_wf_def) (simp add: addMessageEvent_def)
qed

definition hop_time :: nat where
  "hop_time = 2 ^ 33"

lemma line_times_le:
  assumes "line_wf l" and "\<forall>x \<in> set (line_queue d l). us (fst x) \<le> T" and "message_fits m l"
    and "us cur \<le> T" and "T + hop_time < 2 ^ 64"
  shows "room_for m cur d l" and "line_wf l \<Longrightarrow> prop_time l < 2 ^ 32"
proof -
  have pt: "prop_time l < 2 ^ 32"
    using assms(1) prop_time_bound by (simp add: line_wf_def)
  then show "line_wf l \<Longrightarrow> prop_time l < 2 ^ 32" by simp
  have ac: "access_time m l < 2 ^ 32" using assms(3) by (simp add: message_fits_def)
  have "us (mFullyOnWire (snd x)) \<le> T" if x: "x \<in> set (line_queue d l)" for x
    using queue_wf_full [OF line_wf_queue [OF assms(1)] x] assms(2) x by fastforce
  then show "room_for m cur d l"
    using assms(3-5) pt ac by (fastforce simp: room_for_def hop_time_def)
qed

lemma start_on_line_ok:
  assumes wf: "net_wf B s" and le: "times_le T s" and "us cur \<le> T" and "T + hop_time < 2 ^ 64"
    and e: "fst edge < length (mLines s)" and ok: "msg_ok B s msg"
  shows "\<exists>t m d. start_on_line B edge hop msg cur s
      = Inr (addMessageEvent t (fst edge) d (upd_line (fst edge)
          (set_line_queue d (line_queue d (mLines s ! fst edge) @ [(t, m)]) (mLines s ! fst edge)) s))
    \<and> (\<exists>a b c. m = msg\<lparr>mStartOnWire := a, mFullyOnWire := b, mArrivesFully := c\<rparr>)
    \<and> us t \<le> T + hop_time
    \<and> net_wf B (addMessageEvent t (fst edge) d (upd_line (fst edge)
          (set_line_queue d (line_queue d (mLines s ! fst edge) @ [(t, m)]) (mLines s ! fst edge)) s))"
proof -
  let ?l = "mLines s ! fst edge" and ?d = "if isSource hop edge then FORWARD else REVERSE"
  have l: "line_wf ?l" by (rule net_wf_line [OF wf e])
  have fits: "message_fits msg ?l" using ok e by (simp add: msg_ok_def)
  have q: "\<forall>x \<in> set (line_queue ?d ?l). us (fst x) \<le> T"
    using le e unfolding times_le_def queue_at_def by metis
  have room: "room_for msg cur ?d ?l" and pt: "prop_time ?l < 2 ^ 32"
    using line_times_le [OF l q fits assms(3,4)] l by auto
  obtain m l' where m: "calculateMessageEventTimes msg cur ?d ?l = Inr m"
    and l': "addMessage m ?d ?l = Inr l'" "line_wf l'"
      "l' = set_line_queue ?d (line_queue ?d ?l @ [(mArrivesFully m, m)]) ?l"
    and upd: "\<exists>a b c. m = msg\<lparr>mStartOnWire := a, mFullyOnWire := b, mArrivesFully := c\<rparr>"
    and later: "\<forall>x \<in> set (line_queue ?d ?l). fst x < mArrivesFully m"
    using line_schedule [OF l room] by blast
  have "us (mArrivesFully m) \<le> T + hop_time"
    using arrival_bound [OF l room m, of T] assms(3) fits pt q
    by (auto simp: hop_time_def message_fits_def)
  moreover have "msg_ok B s m" using ok upd by (auto simp: msg_ok_def)
  ultimately show ?thesis
    using net_wf_enqueue [OF wf e, of m ?d "mArrivesFully m"] l' later upd m e
    by (intro exI [of _ "mArrivesFully m"] exI [of _ m] exI [of _ ?d])
       (simp add: start_on_line_def Let_def)
qed

lemma net_wf_head:
  assumes wf: "net_wf B s" and ev: "mEvents s = (t, MESSAGE e d) # evs"
  shows "e < length (mLines s)"
    and "\<exists>m q. line_queue d (mLines s ! e) = (t, m) # q"
proof -
  have "line_events e d (mEvents s) = t # line_events e d evs"
    by (simp add: ev line_events_def)
  then have q: "map fst (queue_at s e d) = t # line_events e d evs"
    using wf by (simp add: net_wf_def)
  then show "e < length (mLines s)" by (auto simp: queue_at_def split: if_splits)
  then show "\<exists>m q. line_queue d (mLines s ! e) = (t, m) # q"
    using q by (auto simp: queue_at_def)
qed

text \<open>Taking the first event and the message it announces keeps the invariant.\<close>

lemma net_wf_dequeue:
  assumes wf: "net_wf B s" and ev: "mEvents s = (t, MESSAGE e d) # evs"
    and q: "line_queue d (mLines s ! e) = (t, m) # q"
  shows "getArrivedMessage t d (mLines s ! e) = Inr (m, set_line_queue d q (mLines s ! e))"
    and "net_wf B (upd_line e (set_line_queue d q (mLines s ! e)) (s\<lparr>mClock := c, mEvents := evs\<rparr>))"
    and "msg_ok B s m"
proof -
  let ?s = "s\<lparr>mClock := c, mEvents := evs\<rparr>" let ?l = "mLines s ! e"
  have e: "e < length (mLines s)" by (rule net_wf_head(1) [OF wf ev])
  then have at: "queue_at s e d = (t, m) # q" using q by (simp add: queue_at_def)
  have l: "line_wf ?l" by (rule net_wf_line [OF wf e])
  then have qwf: "queue_wf (prop_time ?l) ((t, m) # q)" using line_wf_queue q by metis
  then have "t = mArrivesFully m" by (rule queue_wf_head)
  then show "getArrivedMessage t d ?l = Inr (m, set_line_queue d q ?l)"
    using q by (simp add: getArrivedMessage_def interval_eq_def)
  show "msg_ok B s m" using net_wf_msg [OF wf, of "(t, m)" e d] at by simp
  have lines: "\<forall>k \<in> set ((mLines s)[e := set_line_queue d q ?l]). line_wf k"
    using wf line_wf_set_queue [OF l queue_wf_tl [OF qwf]] set_update_subset_insert [of "mLines s" e]
    by (auto simp: net_wf_def)
  have queues: "queue_at (upd_line e (set_line_queue d q ?l) ?s) e' d'
      = (if e' = e \<and> d' = d then q else queue_at s e' d')" for e' d'
    using queue_at_upd [of e ?s d q] e by simp
  have "line_events e' d' evs = map fst (if e' = e \<and> d' = d then q else queue_at s e' d')" for e' d'
  proof -
    have "line_events e' d' (mEvents s) = map fst (queue_at s e' d')"
      using wf by (simp add: net_wf_def)
    then show ?thesis using at by (auto simp: ev line_events_def split: if_splits)
  qed
  moreover have "msg_ok B (upd_line e (set_line_queue d q ?l) ?s) (snd x)"
    if "x \<in> set (if e' = e \<and> d' = d then q else queue_at s e' d')" for e' d' x
  proof -
    have "x \<in> set (queue_at s e' d')" using that at by (auto split: if_splits)
    then have "msg_ok B s (snd x)" by (rule net_wf_msg [OF wf])
    then show ?thesis using msg_ok_upd_line [of e ?s B d q "snd x"] e by simp
  qed
  moreover have "mmap_wf evs"
    using wf mmap_wf_tl [of "(t, MESSAGE e d)" evs] unfolding net_wf_def ev by blast
  ultimately show "net_wf B (upd_line e (set_line_queue d q ?l) ?s)"
    using lines unfolding net_wf_def queues by simp
qed

lemma msg_ok_incNextHop:
  assumes "msg_ok B s m" and "incNextHop m = (False, m1)"
  shows "\<exists>u v edge. getNextHop m = Inr u \<and> getNextHop m1 = Inr v \<and> getEdge B u v = Some edge
    \<and> fst edge < length (mLines s) \<and> msg_ok B s m1 \<and> hops_left m = Suc (hops_left m1)
    \<and> mMsg m1 = mMsg m \<and> mDestSock m1 = mDestSock m"
proof -
  let ?p = "mMsgPath m" and ?i = "mNextHop m"
  have i: "?i < length ?p" by (rule msg_ok_hop [OF assms(1)])
  have m1: "m1 = m\<lparr>mNextHop := ?i + 1\<rparr>" and ne: "Suc ?i \<noteq> length ?p"
    using assms(2) by (auto simp: incNextHop_def Let_def)
  have i1: "Suc ?i < length ?p" using i ne by simp
  have drop: "drop ?i ?p = ?p ! ?i # ?p ! Suc ?i # drop (Suc (Suc ?i)) ?p"
    using i i1 by (simp add: Cons_nth_drop_Suc)
  have tail: "drop (Suc ?i) ?p = ?p ! Suc ?i # drop (Suc (Suc ?i)) ?p"
    using i1 by (simp add: Cons_nth_drop_Suc)
  have p: "path_ok B (length (mLines s)) (drop ?i ?p)" using assms(1) by (simp add: msg_ok_def)
  obtain edge where edge: "bg_edge B (?p ! ?i) (?p ! Suc ?i) = Some edge" "fst edge < length (mLines s)"
    and p1: "path_ok B (length (mLines s)) (drop (Suc ?i) ?p)"
    using p unfolding drop tail by (auto split: option.splits)
  have "msg_ok B s m1"
    using assms(1) p1 by (simp add: msg_ok_def m1 dest_open_def message_fits_def access_time_def getSize_def)
  then show ?thesis
    using i i1 edge by (cases edge) (simp add: m1 getNextHop_def getEdge_def hops_left_def Suc_diff_Suc)
qed

lemma msg_ok_last_hop:
  assumes "msg_ok B s m" and "incNextHop m = (True, m1)"
  shows "\<exists>u k. getNextHop m = Inr u \<and> mDestSock m1 = Some k \<and> k < length (mSockets s)
    \<and> mOpen (mSockets s ! k) \<and> hops_left m = 1 \<and> mMsg m1 = mMsg m \<and> mDestSock m1 = mDestSock m"
proof -
  have i: "mNextHop m < length (mMsgPath m)" by (rule msg_ok_hop [OF assms(1)])
  moreover have "m1 = m\<lparr>mNextHop := mNextHop m + 1\<rparr>" "Suc (mNextHop m) = length (mMsgPath m)"
    using assms(2) by (auto simp: incNextHop_def Let_def)
  moreover have "dest_open (mSockets s) m" using assms(1) by (simp add: msg_ok_def)
  ultimately show ?thesis
    by (auto simp: getNextHop_def dest_open_def hops_left_def split: option.splits)
qed

text \<open>Delivery to a socket touches nothing of the network but the socket's queue.\<close>

lemma arrived_upd_sock:
  assumes "k < length (mSockets s)"
  shows "arrived (upd_sock k (\<lambda>x. x\<lparr>mArrivedQueue := mArrivedQueue x @ [m]\<rparr>) s)
    = arrived s + {# (mDestSock m, mMsg m) #}"
proof -
  let ?g = "\<lambda>x. mset (map (\<lambda>m. (mDestSock m, mMsg m)) (mArrivedQueue x))"
  let ?k = "mSockets s ! k"
  have "sum_list (map ?g ((mSockets s)[k := ?k\<lparr>mArrivedQueue := mArrivedQueue ?k @ [m]\<rparr>])) + ?g ?k
      = sum_list (map ?g (mSockets s)) + (?g ?k + {# (mDestSock m, mMsg m) #})"
    using sum_list_upd [OF assms, of ?g] by simp
  then have "(sum_list (map ?g ((mSockets s)[k := ?k\<lparr>mArrivedQueue := mArrivedQueue ?k @ [m]\<rparr>]))) + ?g ?k
      = (sum_list (map ?g (mSockets s)) + {# (mDestSock m, mMsg m) #}) + ?g ?k"
    by (simp only: ac_simps)
  then show ?thesis by (simp add: arrived_def upd_sock_def)
qed

lemma dest_open_arrived:
  "k < length ks \<Longrightarrow> dest_open (ks[k := (ks ! k)\<lparr>mArrivedQueue := a\<rparr>]) m = dest_open ks m"
  by (auto simp: dest_open_def nth_list_update split: option.splits)

lemma net_wf_deliver:
  assumes "k < length (mSockets s)"
  shows "net_wf B (upd_sock k (\<lambda>x. x\<lparr>mArrivedQueue := mArrivedQueue x @ [m]\<rparr>) s) = net_wf B s"
proof -
  let ?s = "upd_sock k (\<lambda>x. x\<lparr>mArrivedQueue := mArrivedQueue x @ [m]\<rparr>) s"
  have "msg_ok B ?s x = msg_ok B s x" for x
    using dest_open_arrived [OF assms] by (simp add: msg_ok_def upd_sock_def)
  then show ?thesis by (simp add: net_wf_def) (simp add: upd_sock_def)
qed

lemma net_wf_events:
  assumes "net_wf B s" and "mEvents s = (t, ev) # evs" and "\<not> is_message ev"
  shows "net_wf B (s\<lparr>mClock := c, mEvents := evs\<rparr>)"
proof -
  have "line_events e d (mEvents s) = line_events e d evs" for e d
    using assms(2,3) by (auto simp: line_events_def)
  moreover have "mmap_wf evs"
    using assms(1) mmap_wf_tl [of "(t, ev)" evs] unfolding net_wf_def assms(2) by blast
  ultimately show ?thesis using assms(1) by (simp add: net_wf_def)
qed

text \<open>What every event step does: one unit of work, no message lost, no time out of reach.\<close>

definition step_ok :: "boost_graph \<Rightarrow> nat \<Rightarrow> net \<Rightarrow> net \<Rightarrow> bool" where
  "step_ok B T s s' \<longleftrightarrow> net_wf B s' \<and> times_le (T + hop_time) s' \<and> work s = Suc (work s')
     \<and> in_flight s' + arrived s' = in_flight s + arrived s
     \<and> mCurrentTime (mClock s') = max (fst (hd (mEvents s))) (mCurrentTime (mClock s))"

lemma times_le_mono: "times_le T s \<Longrightarrow> T \<le> T' \<Longrightarrow> times_le T' s"
  by (fastforce simp: times_le_def)

lemma work_parts:
  "work (s\<lparr>mClock := c, mEvents := evs\<rparr>) = length (filter (\<lambda>x. \<not> is_message (snd x)) evs) + flying hops_left s"
  by (simp add: work_def)

lemma arrived_cong [simp]:
  "arrived (s\<lparr>mClock := c, mEvents := evs\<rparr>) = arrived s" "arrived (upd_line e l s) = arrived s"
  "arrived (addMessageEvent t e d s) = arrived s"
  by (simp_all add: arrived_def upd_line_def addMessageEvent_def)

lemma step_other_event:
  assumes wf: "net_wf B s" and le: "times_le T s"
    and ev: "mEvents s = (t, ev) # evs" and "\<not> is_message ev"
  shows "step_ok B T s (s\<lparr>mClock := setCurrentTime t (mClock s), mEvents := evs\<rparr>)"
proof -
  have "work s = Suc (work (s\<lparr>mClock := setCurrentTime t (mClock s), mEvents := evs\<rparr>))"
    using assms(4) by (simp add: work_parts) (simp add: work_def ev)
  moreover have "times_le (T + hop_time) (s\<lparr>mClock := setCurrentTime t (mClock s), mEvents := evs\<rparr>)"
    using times_le_mono [OF le, of "T + hop_time"] by (simp add: times_le_def)
  ultimately show ?thesis
    using net_wf_events [OF wf ev assms(4)] ev
    by (simp add: step_ok_def in_flight_def setCurrentTime_time)
qed

lemma flying_enqueue:
  fixes f :: "message \<Rightarrow> 'a::cancel_comm_monoid_add"
  assumes "e < length (mLines s)"
  shows "flying f (upd_line e (set_line_queue d (line_queue d (mLines s ! e) @ [(t, m)]) (mLines s ! e)) s)
    = flying f s + f m"
  using flying_upd [OF assms, of f d "line_queue d (mLines s ! e) @ [(t, m)]"] assms
  by (simp add: queue_at_def) (metis add.assoc add.commute add_right_cancel)

lemma flying_dequeue:
  fixes f :: "message \<Rightarrow> 'a::cancel_comm_monoid_add"
  assumes "e < length (mLines s)" and "line_queue d (mLines s ! e) = (t, m) # q"
  shows "flying f s = flying f (upd_line e (set_line_queue d q (mLines s ! e)) s) + f m"
  using flying_upd [OF assms(1), of f d q] assms
  by (simp add: queue_at_def) (metis add.assoc add_right_cancel)

lemma times_leD: "times_le T s \<Longrightarrow> x \<in> set (queue_at s e d) \<Longrightarrow> us (fst x) \<le> T"
  by (simp add: times_le_def)

lemma times_leI: "(\<And>e d x. x \<in> set (queue_at s e d) \<Longrightarrow> us (fst x) \<le> T) \<Longrightarrow> times_le T s"
  by (simp add: times_le_def)

lemma times_le_dequeue:
  assumes "times_le T s" and "e < length (mLines s)" and "line_queue d (mLines s ! e) = (t, m) # q"
  shows "times_le T (upd_line e (set_line_queue d q (mLines s ! e)) s)"
proof (rule times_leI)
  fix e' d' x
  assume "x \<in> set (queue_at (upd_line e (set_line_queue d q (mLines s ! e)) s) e' d')"
  then have "x \<in> set (if e' = e \<and> d' = d then q else queue_at s e' d')"
    by (simp only: queue_at_upd [OF assms(2)])
  then have "x \<in> set (queue_at s e' d')"
    using assms(2,3) by (auto simp: queue_at_def split: if_splits)
  then show "us (fst x) \<le> T" by (rule times_leD [OF assms(1)])
qed

lemma times_le_enqueue:
  assumes "times_le T s" and "e < length (mLines s)" and "us t \<le> T + hop_time"
  shows "times_le (T + hop_time) (addMessageEvent t e d
    (upd_line e (set_line_queue d (line_queue d (mLines s ! e) @ [(t, m)]) (mLines s ! e)) s))"
    (is "times_le _ ?s")
proof (rule times_leI)
  fix e' d' x
  assume "x \<in> set (queue_at ?s e' d')"
  then have "x \<in> set (if e' = e \<and> d' = d then line_queue d (mLines s ! e) @ [(t, m)] else queue_at s e' d')"
    by (simp only: queue_at_cong queue_at_upd [OF assms(2)])
  then have "x = (t, m) \<or> x \<in> set (queue_at s e' d')"
    using assms(2) by (auto simp: queue_at_def split: if_splits)
  then show "us (fst x) \<le> T + hop_time" using times_leD [OF assms(1)] assms(3) by fastforce
qed

lemma work_enqueue:
  assumes "e < length (mLines s)"
  shows "work (addMessageEvent t e d (upd_line e
      (set_line_queue d (line_queue d (mLines s ! e) @ [(t, m)]) (mLines s ! e)) s))
    = work s + hops_left m"
proof -
  have "length (filter (\<lambda>x. \<not> is_message (snd x)) (mmap_insert t (MESSAGE e d) es))
      = length (filter (\<lambda>x. \<not> is_message (snd x)) es)" for es
    by (induction t "MESSAGE e d" es rule: mmap_insert.induct) auto
  then show ?thesis
    using flying_enqueue [OF assms, of hops_left d t m] by (simp add: work_def) (simp add: addMessageEvent_def)
qed

lemma mClock_addMessageEvent [simp]:
  "mClock (addMessageEvent t e d s) = mClock s" "mClock (upd_sock k f s) = mClock s"
  by (simp_all add: addMessageEvent_def upd_sock_def)

lemma step_message_event:
  assumes wf: "net_wf B s" and le: "times_le T s" and T: "T + hop_time < 2 ^ 64"
    and ev: "mEvents s = (t, MESSAGE e d) # evs"
  shows "\<exists>r s'. processNextEvent B s = Inr (r, s') \<and> step_ok B T s s'"
proof -
  let ?s1 = "s\<lparr>mClock := setCurrentTime t (mClock s), mEvents := evs\<rparr>"
  have e: "e < length (mLines s)" by (rule net_wf_head(1) [OF wf ev])
  obtain m q where q: "line_queue d (mLines s ! e) = (t, m) # q"
    using net_wf_head(2) [OF wf ev] by blast
  let ?s2 = "upd_line e (set_line_queue d q (mLines s ! e)) ?s1"
  note deq = net_wf_dequeue [OF wf ev q]
  have wf2: "net_wf B ?s2" by (rule deq(2))
  have fly: "flying f s = flying f ?s2 + f m" for f :: "message \<Rightarrow> 'a::cancel_comm_monoid_add"
    using flying_dequeue [of e ?s1 d t m q f] e q by simp
  have le2: "times_le T ?s2"
    using times_le_dequeue [of T ?s1 e d t m q] le e q by (simp add: times_le_def)
  have t: "us t \<le> T" using times_leD [OF le, of "(t, m)" e d] e q by (simp add: queue_at_def)
  have work2: "work s = work ?s2 + hops_left m"
    using fly [of hops_left] by (simp add: work_def ev)
  have flight2: "in_flight s = in_flight ?s2 + {# (mDestSock m, mMsg m) #}"
    using fly [of "\<lambda>m. {# (mDestSock m, mMsg m) #}"] by (simp add: in_flight_def)
  have nxt: "processNextEvent B s = moveMessage B m t ?s2"
    using deq(1) e by (simp add: processNextEvent_def ev Let_def)
  have ok2: "msg_ok B ?s2 m" using msg_ok_upd_line [of e ?s1 B d q m] deq(3) e by simp
  have clock: "mCurrentTime (mClock ?s2) = max (fst (hd (mEvents s))) (mCurrentTime (mClock s))"
    by (simp add: ev setCurrentTime_time)
  obtain b m1 where inc: "incNextHop m = (b, m1)" by (cases "incNextHop m")
  show ?thesis
  proof (cases b)
    case True
    obtain u k where k: "getNextHop m = Inr u" "mDestSock m1 = Some k" "k < length (mSockets s)"
      "mOpen (mSockets s ! k)" "hops_left m = 1" "mMsg m1 = mMsg m" "mDestSock m1 = mDestSock m"
      using msg_ok_last_hop [OF deq(3), of m1] inc True by auto
    let ?s3 = "upd_sock k (\<lambda>x. x\<lparr>mArrivedQueue := mArrivedQueue x @ [m1]\<rparr>) ?s2"
    have k2: "k < length (mSockets ?s2)" using k(3) by simp
    have "processNextEvent B s = Inr (Some k, ?s3)"
      unfolding nxt moveMessage_def using inc True k by (simp add: addArrivedMessage_def)
    moreover have "net_wf B ?s3" by (simp only: net_wf_deliver [OF k2] wf2)
    moreover have "in_flight ?s3 + arrived ?s3 = in_flight s + arrived s"
      unfolding arrived_upd_sock [OF k2] flight2 using k(6,7) by (simp add: in_flight_def)
    moreover have "times_le (T + hop_time) ?s3"
      using times_le_mono [OF le2, of "T + hop_time"] by (simp add: times_le_def)
    moreover have "work ?s3 = work ?s2" by (simp add: work_def) (simp add: upd_sock_def)
    ultimately show ?thesis using work2 k(5) clock by (auto simp: step_ok_def)
  next
    case False
    then have inc': "incNextHop m = (False, m1)" using inc by simp
    obtain u v edge where h: "getNextHop m = Inr u" "getNextHop m1 = Inr v" "getEdge B u v = Some edge"
      "fst edge < length (mLines ?s2)" "msg_ok B ?s2 m1" "hops_left m = Suc (hops_left m1)"
      "mMsg m1 = mMsg m" "mDestSock m1 = mDestSock m"
      using msg_ok_incNextHop [OF ok2 inc'] by blast
    let ?s3 = "\<lambda>t' d' m2. addMessageEvent t' (fst edge) d'
        (upd_line (fst edge) (set_line_queue d' (line_queue d' (mLines ?s2 ! fst edge) @ [(t', m2)])
           (mLines ?s2 ! fst edge)) ?s2)"
    obtain t' m2 d' where sol: "start_on_line B edge u m1 t ?s2 = Inr (?s3 t' d' m2)"
      and m2: "\<exists>a b c. m2 = m1\<lparr>mStartOnWire := a, mFullyOnWire := b, mArrivesFully := c\<rparr>"
      and t': "us t' \<le> T + hop_time" and wf3: "net_wf B (?s3 t' d' m2)"
      using start_on_line_ok [OF wf2 le2 t T h(4,5), of u] by blast
    have m2': "hops_left m2 = hops_left m1" "mMsg m2 = mMsg m" "mDestSock m2 = mDestSock m"
      using m2 h(7,8) by auto
    have "processNextEvent B s = Inr (None, (?s3 t' d' m2))"
      unfolding nxt moveMessage_def using inc False h(1-3) sol by simp
    moreover have "times_le (T + hop_time) (?s3 t' d' m2)" by (rule times_le_enqueue [OF le2 h(4) t'])
    moreover have "work (?s3 t' d' m2) = work ?s2 + hops_left m1"
      using work_enqueue [OF h(4)] m2' by metis
    moreover have "in_flight (?s3 t' d' m2) + arrived (?s3 t' d' m2) = in_flight s + arrived s"
      using flying_enqueue [OF h(4), of "\<lambda>m. {# (mDestSock m, mMsg m) #}" d' t' m2] m2' flight2
      unfolding in_flight_def by simp
    ultimately show ?thesis using work2 h(6) wf3 clock by (auto simp: step_ok_def)
  qed
qed

lemma process_step:
  assumes "net_wf B s" and "times_le T s" and "T + hop_time < 2 ^ 64" and "mEvents s \<noteq> []"
  shows "\<exists>r s'. processNextEvent B s = Inr (r, s') \<and> step_ok B T s s'"
proof -
  obtain t ev evs where ev: "mEvents s = (t, ev) # evs" using assms(4) by (metis list.exhaust prod.exhaust)
  show ?thesis
  proof (cases ev)
    case (MESSAGE e d)
    then show ?thesis using step_message_event [OF assms(1-3)] ev by blast
  qed (use step_other_event [OF assms(1,2) ev] ev in \<open>auto simp: processNextEvent_def Let_def\<close>)
qed

lemma process_loop_complete:
  assumes "net_wf B s" and "times_le T s" and "T + hop_time * work s < 2 ^ 64"
    and "event_time \<le> mCurrentTime (mClock s)"
  shows "\<exists>s'. process_loop B event_time s = Some (Inr s') \<and> net_wf B s'
    \<and> in_flight s' + arrived s' = in_flight s + arrived s
    \<and> mCurrentTime (mClock s') = mCurrentTime (mClock s)
    \<and> (\<forall>x \<in> set (mEvents s'). event_time < fst x)"
  using assms
proof (induction "work s" arbitrary: s T rule: less_induct)
  case less
  show ?case
  proof (cases "mEvents s \<noteq> [] \<and> fst (hd (mEvents s)) \<le> event_time")
    case True
    obtain t ev evs where ev: "mEvents s = (t, ev) # evs" using True by (metis list.exhaust prod.exhaust)
    have w: "0 < work s"
    proof (cases "is_message ev")
      case False
      then show ?thesis by (simp add: work_def ev)
    next
      case True
      then obtain e d where "ev = MESSAGE e d" by (cases ev) auto
      then have ev': "mEvents s = (t, MESSAGE e d) # evs" using ev by simp
      have e: "e < length (mLines s)" by (rule net_wf_head(1) [OF less.prems(1) ev'])
      obtain m q where q: "line_queue d (mLines s ! e) = (t, m) # q"
        using net_wf_head(2) [OF less.prems(1) ev'] by blast
      have "0 < hops_left m"
        using msg_ok_hop [OF net_wf_dequeue(3) [OF less.prems(1) ev' q]] by (simp add: hops_left_def)
      then show ?thesis using flying_dequeue [OF e q, of hops_left] by (simp add: work_def)
    qed
    then obtain w' where w': "work s = Suc w'" by (cases "work s") auto
    have "T + hop_time < 2 ^ 64" using less.prems(3) by (simp add: w')
    then obtain r s1 where step: "processNextEvent B s = Inr (r, s1)" and ok: "step_ok B T s s1"
      using process_step [OF less.prems(1,2)] True by blast
    have s1: "work s1 < work s" "net_wf B s1" "times_le (T + hop_time) s1"
      "in_flight s1 + arrived s1 = in_flight s + arrived s" "work s1 = w'"
      using ok w' by (auto simp: step_ok_def)
    have "mCurrentTime (mClock s1) = mCurrentTime (mClock s)"
      using ok True less.prems(4) unfolding step_ok_def by (metis max_absorb2 order_trans)
    moreover have "T + hop_time + hop_time * work s1 < 2 ^ 64"
      using less.prems(3) by (simp add: w' s1(5))
    ultimately show ?thesis
      using less.hyps [OF s1(1-3)] less.prems(4) s1(4) True step
      by (subst process_loop.simps) simp
  next
    case False
    have "mmap_wf (mEvents s)" using less.prems(1) by (simp add: net_wf_def)
    then have "\<forall>x \<in> set (mEvents s). event_time < fst x"
      using False by (cases "mEvents s") (auto simp: mmap_wf_def intro: less_le_trans)
    then show ?thesis using False less.prems(1) by (subst process_loop.simps) auto
  qed
qed

lemma flying_nonneg_cong: "flying f (s\<lparr>mClock := c\<rparr>) = flying f s"
  by simp

lemma net_wf_clock: "net_wf B (s\<lparr>mClock := c\<rparr>) = net_wf B s"
  by (simp add: net_wf_def)

text \<open>
  C1. Moving the simulated clock: from a network whose events and line queues agree, the
  event loop returns, no assertion of the code fails on the way (each event finds its
  message at the front of its line's queue, no message is queued out of order, every hop
  has an edge), the clock ends at the requested time, every event due by then is done and
  the others are left, and no message is lost or made up: what was on the lines or had
  arrived is on a line or has arrived, at the socket it was sent to.
\<close>

theorem processEvents_complete:
  assumes "net_wf B s" and "times_le T s" and "T + hop_time * work s < 2 ^ 64"
  shows "\<exists>s'. processEvents B time_step s = Some (Inr s') \<and> net_wf B s'
    \<and> in_flight s' + arrived s' = in_flight s + arrived s
    \<and> mCurrentTime (mClock s') = max (mCurrentTime (mClock s) + time_step) (mCurrentTime (mClock s))
    \<and> (\<forall>x \<in> set (mEvents s'). mCurrentTime (mClock s) + time_step < fst x)"
proof -
  let ?t = "mCurrentTime (mClock s) + time_step"
  let ?s = "s\<lparr>mClock := setCurrentTime ?t (mClock s)\<rparr>"
  have "work ?s = work s" by (simp add: work_def)
  moreover have "net_wf B ?s" using assms(1) by (simp only: net_wf_clock)
  moreover have "times_le T ?s" using assms(2) by (simp add: times_le_def)
  moreover have "?t \<le> mCurrentTime (mClock ?s)" by (simp add: setCurrentTime_time)
  ultimately have "\<exists>s'. process_loop B ?t ?s = Some (Inr s') \<and> net_wf B s'
    \<and> in_flight s' + arrived s' = in_flight ?s + arrived ?s
    \<and> mCurrentTime (mClock s') = mCurrentTime (mClock ?s)
    \<and> (\<forall>x \<in> set (mEvents s'). ?t < fst x)"
    using process_loop_complete [of B ?s T ?t] assms(3) by simp
  moreover have "in_flight ?s + arrived ?s = in_flight s + arrived s"
    by (simp add: in_flight_def arrived_def)
  moreover have "mCurrentTime (mClock ?s) = max ?t (mCurrentTime (mClock s))"
    by (simp add: setCurrentTime_time)
  ultimately show ?thesis by (simp add: processEvents_def Let_def)
qed

text \<open>A network of three nodes in a row, with a message under way on the first line.\<close>

definition example_graph :: boost_graph where
  "example_graph = \<lparr>bg_edge = (\<lambda>u v. if {u, v} = {0, 1} then Some (0, u) else if {u, v} = {1, 2} then Some (1, u) else None),
     bg_pred = (\<lambda>src p. if p < src then p + 1 else if src < p then p - 1 else p), bg_degree = (\<lambda>v. 1)\<rparr>"

definition example_socket :: socket where
  "example_socket = \<lparr>mOpen = True, mBound = False, mBlocking = False, mLocalAddr = AnyAddr,
     mRemoteAddr = AnyAddr, mSockType = STREAM, mReuseAddr = False, mArrivedQueue = [],
     mNetworkNode = 0, mPathToPeer = None, mConnected = False, mPeer = None,
     mConnectorQueue = [], mNoDelay = False\<rparr>"

definition example_sent :: message where
  "example_sent = (example_message 0 1 [1, 2, 3, 4, 5])
     \<lparr>mStartOnWire := Interval 7, mFullyOnWire := Interval 11, mArrivesFully := Interval 1011,
      mMsgPath := [0, 1, 2], mNextHop := 1\<rparr>"

definition example_net :: net where
  "example_net = \<lparr>mClock = \<lparr>mCurrentTime = Interval 7\<rparr>,
     mEvents = [(Interval 1011, MESSAGE 0 FORWARD), (Interval 2000, CONNECTION_INIT 1)],
     mLines = [example_line\<lparr>mForwardLineQueue := [(Interval 1011, example_sent)]\<rparr>, example_line],
     mNodes = [], mGraphValid = True, mActive = True,
     mSockets = [example_socket, example_socket],
     mListenerList = (\<lambda>_. None), mNetworkNodes = (\<lambda>_. None)\<rparr>"

lemma example_queue_at:
  "queue_at example_net e d = (if e = 0 \<and> d = FORWARD then [(Interval 1011, example_sent)] else [])"
  by (cases d) (auto simp: queue_at_def example_net_def example_line_def network_line_new_def
      line_queue_def nth_Cons' less_Suc_eq)

lemma example_msg_ok: "msg_ok example_graph example_net example_sent"
  by (simp add: msg_ok_def example_sent_def example_net_def example_message_def message_new_def
      example_graph_def doubleton_eq_iff dest_open_def example_socket_def message_fits_def
      access_time_def getSize_def example_line_def network_line_new_def)

lemma example_events:
  "mEvents example_net = [(Interval 1011, MESSAGE 0 FORWARD), (Interval 2000, CONNECTION_INIT 1)]"
  by (simp add: example_net_def)

lemma example_net_wf: "net_wf example_graph example_net"
proof -
  have "line_wf l" if "l \<in> set (mLines example_net)" for l
  proof -
    have "line_queue d (example_line\<lparr>mForwardLineQueue := [(Interval 1011, example_sent)]\<rparr>)
        = (if d = FORWARD then [(Interval 1011, example_sent)] else [])" for d
      by (cases d) (simp_all add: line_queue_def example_line_def network_line_new_def)
    moreover have "line_ok (example_line\<lparr>mForwardLineQueue := q\<rparr>)" for q
      by (simp add: line_ok_def example_line_def network_line_new_def)
    moreover have "prop_time (example_line\<lparr>mForwardLineQueue := q\<rparr>) = 1000" for q
      by (simp add: prop_time_def example_line_def network_line_new_def)
    ultimately have "line_wf (example_line\<lparr>mForwardLineQueue := [(Interval 1011, example_sent)]\<rparr>)"
      by (simp add: line_wf_def example_sent_def)
    then show ?thesis using that example_line_wf by (auto simp: example_net_def)
  qed
  moreover have "line_events e d (mEvents example_net) = map fst (queue_at example_net e d)" for e d
    by (auto simp: example_queue_at line_events_def example_events)
  moreover have "mmap_wf (mEvents example_net)"
    by (simp add: example_net_def mmap_wf_def interval_order_simps)
  moreover have "msg_ok example_graph example_net (snd x)" if "x \<in> set (queue_at example_net e d)" for e d x
    using that example_msg_ok by (auto simp: example_queue_at split: if_splits)
  ultimately show ?thesis by (simp add: net_wf_def)
qed

theorem processEvents_complete_witness:
  "\<exists>s'. processEvents example_graph (interval_set 1 Sec) example_net = Some (Inr s')
    \<and> in_flight s' + arrived s' = {# (Some 1, [1, 2, 3, 4, 5]) #}
    \<and> mCurrentTime (mClock s') = Interval 1000007"
proof -
  have le: "times_le 1011 example_net"
    by (auto simp: times_le_def example_queue_at split: if_splits)
  have work: "work example_net = 3"
    by (simp add: work_def flying_def line_sum_def example_net_def example_line_def
        network_line_new_def example_sent_def hops_left_def)
  have all: "in_flight example_net + arrived example_net = {# (Some 1, [1, 2, 3, 4, 5]) #}"
    by (simp add: in_flight_def flying_def line_sum_def example_net_def example_line_def arrived_def
        example_socket_def network_line_new_def example_sent_def example_message_def message_new_def)
  have "1011 + hop_time * work example_net < 2 ^ 64" by (simp add: work hop_time_def)
  from processEvents_complete [OF example_net_wf le this, of "interval_set 1 Sec"]
  show ?thesis unfolding all by (auto simp: example_net_def max_def interval_order_simps)
qed

end
