(* ===== verification/SimSocket.thy ===== *)
theory SimSocket
  imports SimNet
begin

text \<open>
  The network simulator, part four: the socket manager and the sockets
  (\<^verbatim>\<open>md/SIM/SocketManager.cpp\<close>, \<^verbatim>\<open>md/SIM/IO/Socket/SocketImplSIM.h\<close>, \<^verbatim>\<open>SocketImplSIM.cpp\<close>,
  \<^verbatim>\<open>SocketStreamImplSIM.cpp\<close>, \<^verbatim>\<open>SocketDatagramImplSIM.cpp\<close>).

  A socket is an index into \<open>mSockets\<close>; an index past its end is a dangling pointer.  A
  \<^verbatim>\<open>dynamic_cast\<close> to the stream or datagram class is a test of the socket's type.
\<close>

datatype return_code = Succeed | Fail | WouldBlock | Timeout | InProgress | NotConnected

section \<open>Construction and state\<close>

definition socket_new :: "socket_type \<Rightarrow> bool \<Rightarrow> nat \<Rightarrow> socket" where
  "socket_new sockType garbage_reuse garbage_node =
     \<lparr>mOpen = False, mBound = False, mBlocking = False, mLocalAddr = inet_addr_new,
      mRemoteAddr = inet_addr_new, mSockType = sockType, mReuseAddr = False, mArrivedQueue = [],
      mNetworkNode = garbage_node, mPathToPeer = None, mConnected = False, mPeer = None,
      mConnectorQueue = [], mNoDelay = False\<rparr>"

text \<open>This constructor leaves \<^verbatim>\<open>mReuseAddr\<close> (and the node) as it finds the memory.\<close>

definition socket_new_addr :: "inet_addr \<Rightarrow> inet_addr \<Rightarrow> socket_type \<Rightarrow> bool \<Rightarrow> nat \<Rightarrow> socket" where
  "socket_new_addr localAddr remoteAddr sockType garbage_reuse garbage_node =
     (socket_new sockType garbage_reuse garbage_node)
       \<lparr>mLocalAddr := localAddr, mRemoteAddr := remoteAddr, mReuseAddr := garbage_reuse\<rparr>"

definition sock :: "nat \<Rightarrow> net \<Rightarrow> socket result" where
  "sock k s = (if k < length (mSockets s) then Inr (mSockets s ! k) else Inl (Undefined ''no such socket''))"

definition setConnectState :: "nat option \<Rightarrow> socket \<Rightarrow> socket" where
  "setConnectState peer x = x\<lparr>mPeer := peer, mConnected := (peer \<noteq> None)\<rparr>"

definition disconnect :: "socket \<Rightarrow> socket" where
  "disconnect x = setConnectState None x"

definition sock_open :: "nat \<Rightarrow> net \<Rightarrow> net" where
  "sock_open k s = upd_sock k (\<lambda>x. x\<lparr>mOpen := True\<rparr>) s"

definition setBlocking :: "nat \<Rightarrow> bool \<Rightarrow> net \<Rightarrow> net" where
  "setBlocking k b s = upd_sock k (\<lambda>x. x\<lparr>mBlocking := b\<rparr>) s"

definition setLocalAddr :: "nat \<Rightarrow> inet_addr \<Rightarrow> net \<Rightarrow> net result" where
  "setLocalAddr k addr s =
     rbind (sock k s) (\<lambda>x.
     if mBound x then Inl (AssertionFailed ''Can't change address of a bound socket'')
     else Inr (upd_sock k (\<lambda>x. x\<lparr>mLocalAddr := addr\<rparr>) s))"

definition setRemoteAddr :: "nat \<Rightarrow> inet_addr \<Rightarrow> net \<Rightarrow> (return_code \<times> net) result" where
  "setRemoteAddr k addr s =
     rbind (sock k s) (\<lambda>x.
     if mConnected x then Inr (Fail, s)
     else Inr (Succeed, upd_sock k (\<lambda>x. x\<lparr>mRemoteAddr := addr\<rparr>) s))"

definition completeConnection :: "nat \<Rightarrow> nat \<Rightarrow> net \<Rightarrow> net result" where
  "completeConnection k connectedPeer s =
     rbind (sock connectedPeer s) (\<lambda>peer.
     Inr (upd_sock k (\<lambda>x. (setConnectState (Some connectedPeer) x)\<lparr>mRemoteAddr := mLocalAddr peer\<rparr>) s))"

section \<open>Binding to a node\<close>

definition ensureNetworkNodeIsRegistered :: "u32 \<Rightarrow> net \<Rightarrow> net result" where
  "ensureNetworkNodeIsRegistered ipAddr s =
     (case mNetworkNodes s ipAddr of
        Some v \<Rightarrow> Inr s
      | None \<Rightarrow>
          rbind (getNodeWithAddr ipAddr s) (\<lambda>node.
          case node of
            None \<Rightarrow> Inl (AssertionFailed ''Specified IP address does not actually exist in the sim net graph.'')
          | Some v \<Rightarrow> Inr (s\<lparr>mNetworkNodes := (mNetworkNodes s)(ipAddr \<mapsto> v)\<rparr>)))"

definition assignToNode :: "nat \<Rightarrow> net \<Rightarrow> net result" where
  "assignToNode k s =
     rbind (sock k s) (\<lambda>handle.
     let local_addr = (if inet_equals (mLocalAddr handle) AnyAddr
                       then setAddress LocalHostIpAddrValue 0 (mLocalAddr handle)
                       else mLocalAddr handle) in
     rbind (ensureNetworkNodeIsRegistered (mAddress local_addr) s) (\<lambda>s1.
     case mNetworkNodes s1 (mAddress local_addr) of
       None \<Rightarrow> Inl (AssertionFailed ''mNetworkNodes.find'')
     | Some v \<Rightarrow>
         if v < length (mNodes s1) then
           let net_node = mNodes s1 ! v in
           rbind (if mPort local_addr = 0
                  then rbind (case mSockType handle of
                                STREAM \<Rightarrow> getUnassignedTcpPortNumber net_node
                              | DATAGRAM \<Rightarrow> getUnassignedUdpPortNumber net_node)
                         (\<lambda>port_num. Inr (local_addr\<lparr>mPort := port_num\<rparr>))
                  else Inr local_addr) (\<lambda>local_addr.
           rbind (setLocalAddr k local_addr s1) (\<lambda>s2.
           rbind (addSocket k local_addr (mSockType handle) net_node) (\<lambda>net_node'.
           let s3 = s2\<lparr>mNodes := (mNodes s2)[v := net_node']\<rparr> in
           rbind (getNodeWithAddr (mAddress local_addr) s3) (\<lambda>node.
           case node of
             None \<Rightarrow> Inl (AssertionFailed ''status.success()'')
           | Some node_vertex \<Rightarrow> Inr (upd_sock k (\<lambda>x. x\<lparr>mNetworkNode := node_vertex\<rparr>) s3)))))
         else Inl (Undefined ''no such node'')))"

text \<open>\<^verbatim>\<open>SocketManager::bind\<close> asserts its precondition; \<^verbatim>\<open>SocketImplSIM::bind\<close> notes the success.\<close>

definition sock_bind :: "nat \<Rightarrow> net \<Rightarrow> net result" where
  "sock_bind k s =
     rbind (sock k s) (\<lambda>handle.
     rbind (require (mOpen handle \<and> \<not> mBound handle)
              (AssertionFailed ''Against preconditions to have a handle not open or already bound'')) (\<lambda>_.
     rbind (assignToNode k s) (\<lambda>s'.
     Inr (upd_sock k (\<lambda>x. x\<lparr>mBound := True\<rparr>) s'))))"

definition unassignFromNode :: "nat \<Rightarrow> net \<Rightarrow> net result" where
  "unassignFromNode k s =
     rbind (sock k s) (\<lambda>handle.
     let local_addr = mLocalAddr handle in
     case mNetworkNodes s (mAddress local_addr) of
       None \<Rightarrow> Inl (AssertionFailed ''mNetworkNodes.find'')
     | Some v \<Rightarrow>
         if v < length (mNodes s) then
           rbind (removeSocket local_addr (mSockType handle) (mNodes s ! v)) (\<lambda>net_node'.
           Inr (s\<lparr>mNodes := (mNodes s)[v := net_node']\<rparr>))
         else Inl (Undefined ''no such node''))"

definition unbind :: "nat \<Rightarrow> net \<Rightarrow> net result" where
  "unbind k s =
     rbind (sock k s) (\<lambda>handle.
     rbind (require (mBound handle) (AssertionFailed ''Can't unbind and unbound handle'')) (\<lambda>_.
     unassignFromNode k s))"

section \<open>Listening, connecting, accepting\<close>

definition isListening :: "inet_addr \<Rightarrow> net \<Rightarrow> bool" where
  "isListening address s = (mListenerList s address \<noteq> None)"

definition listen :: "nat \<Rightarrow> net \<Rightarrow> net result" where
  "listen k s =
     rbind (sock k s) (\<lambda>handle.
     rbind (require (mBound handle) (AssertionFailed ''Can't listen on unbound socket'')) (\<lambda>_.
     rbind (require (mSockType handle = STREAM) (AssertionFailed ''Trying to listen with not stream socket'')) (\<lambda>_.
     let s' = s\<lparr>mListenerList := (mListenerList s)(mLocalAddr handle \<mapsto> k)\<rparr> in
     rbind (require (isListening (mLocalAddr handle) s') (AssertionFailed ''Didn't add listener''))
       (\<lambda>_. Inr s'))))"

definition addConnector :: "nat \<Rightarrow> nat \<Rightarrow> net \<Rightarrow> (return_code \<times> net) result" where
  "addConnector k peerSock s =
     rbind (sock peerSock s) (\<lambda>peer.
     rbind (require (mSockType peer = STREAM) (AssertionFailed ''Tried to connect to a non-stream socket!''))
       (\<lambda>_. Inr (InProgress, upd_sock k (\<lambda>x. x\<lparr>mConnectorQueue := mConnectorQueue x @ [peerSock]\<rparr>) s)))"

definition mgr_connect :: "boost_graph \<Rightarrow> nat \<Rightarrow> inet_addr \<Rightarrow> net \<Rightarrow> (return_code \<times> net) result" where
  "mgr_connect B localSock remoteName s =
     rbind (sock localSock s) (\<lambda>loc.
     rbind (require (mActive s) (AssertionFailed ''Socket manager not activated yet'')) (\<lambda>_.
     rbind (require (mBound loc) (AssertionFailed ''Precondition is that socket is bound'')) (\<lambda>_.
     rbind (require (\<not> inet_equals (mLocalAddr loc) AnyAddr) (AssertionFailed ''Must be bound to an address'')) (\<lambda>_.
     if mSockType loc = STREAM then
       (case mListenerList s remoteName of
          None \<Rightarrow> Inl (AssertionFailed ''Tried to connect to a non-listening node'')
        | Some remote_sock \<Rightarrow>
            rbind (sock remote_sock s) (\<lambda>remote.
            rbind (require (mSockType remote = STREAM)
                     (AssertionFailed ''We should have a stream socket, but don't'')) (\<lambda>_.
            rbind (addConnector remote_sock localSock s) (\<lambda>(status, s').
            rbind (require (status \<noteq> Fail) (AssertionFailed ''Failed to add connector'')) (\<lambda>_.
            Inr (status, addConnectionEvent (mCurrentTime (mClock s')) remote_sock s'))))))
     else
       (case mListenerList s remoteName of
          None \<Rightarrow> Inl (AssertionFailed ''mListenerList.find'')
        | Some remote_sock \<Rightarrow>
            rbind (sock remote_sock s) (\<lambda>remote.
            rbind (require (mSockType remote = DATAGRAM)
                     (AssertionFailed ''remote_dgram_socket != NULL'')) (\<lambda>_.
            rbind (completeConnection localSock remote_sock s) (\<lambda>s'.
            rbind (getShortestPath B (mNetworkNode loc) (mNetworkNode remote) s') (\<lambda>path.
            Inr (Succeed, upd_sock localSock (\<lambda>x. x\<lparr>mPathToPeer := Some path\<rparr>) s')))))))))) "

definition connect :: "boost_graph \<Rightarrow> nat \<Rightarrow> net \<Rightarrow> (return_code \<times> net) result" where
  "connect B k s =
     rbind (sock k s) (\<lambda>x.
     rbind (require (mOpen x) (AssertionFailed ''An unopened socket cannot connect'')) (\<lambda>_.
     rbind (if \<not> mBound x then sock_bind k s else Inr s) (\<lambda>s1.
     rbind (sock k s1) (\<lambda>x1.
     rbind (require (mBound x1) (AssertionFailed ''We must be bound first'')) (\<lambda>_.
     mgr_connect B k (mRemoteAddr x1) s1)))))"

definition findRoute :: "boost_graph \<Rightarrow> nat \<Rightarrow> nat \<Rightarrow> net \<Rightarrow> net result" where
  "findRoute B src_sock dest_sock s =
     rbind (require (mActive s) (AssertionFailed ''Socket manager not activated!'')) (\<lambda>_.
     rbind (sock src_sock s) (\<lambda>src.
     rbind (sock dest_sock s) (\<lambda>dest.
     rbind (getShortestPath B (mNetworkNode src) (mNetworkNode dest) s) (\<lambda>path.
     Inr (upd_sock dest_sock (\<lambda>x. x\<lparr>mPathToPeer := Some (reversePath path)\<rparr>)
           (upd_sock src_sock (\<lambda>x. x\<lparr>mPathToPeer := Some path\<rparr>) s))))))"

definition accept :: "boost_graph \<Rightarrow> nat \<Rightarrow> nat \<Rightarrow> net \<Rightarrow> (return_code \<times> net) result" where
  "accept B k clientSock s =
     rbind (sock k s) (\<lambda>self.
     case mConnectorQueue self of
       [] \<Rightarrow> Inr (WouldBlock, s)
     | peer_ptr # queue \<Rightarrow>
         rbind (sock peer_ptr s) (\<lambda>peer.
         let s1 = upd_sock k (\<lambda>x. x\<lparr>mConnectorQueue := queue\<rparr>) s;
             s2 = upd_sock clientSock (\<lambda>x. (setConnectState (Some peer_ptr)
                    (x\<lparr>mRemoteAddr := mLocalAddr peer, mOpen := True, mBlocking := mBlocking self\<rparr>))
                    \<lparr>mLocalAddr := (mLocalAddr self)\<lparr>mPort := 0\<rparr>\<rparr>) s1 in
         rbind (sock_bind clientSock s2) (\<lambda>s3.
         rbind (findRoute B peer_ptr clientSock s3) (\<lambda>s4.
         rbind (completeConnection peer_ptr clientSock s4) (\<lambda>s5.
         let s6 = addConnectionCompletionEvent (mCurrentTime (mClock s5)) peer_ptr s5 in
         rbind (sock peer_ptr s6) (\<lambda>peer'.
         rbind (sock clientSock s6) (\<lambda>client'.
         rbind (require (inet_equals (mRemoteAddr peer') (mLocalAddr client'))
                  (AssertionFailed ''Connector doesn't know peer's IP address''))
           (\<lambda>_. Inr (Succeed, s6)))))))))"

section \<open>Closing\<close>

definition sock_close :: "boost_graph \<Rightarrow> nat \<Rightarrow> net \<Rightarrow> net result" where
  "sock_close B k s =
     rbind (sock k s) (\<lambda>x.
     rbind (if mConnected x then
              (case mPeer x of
                 None \<Rightarrow> Inl (AssertionFailed ''I am connected to a NULL peer'')
               | Some peer \<Rightarrow>
                   rbind (sock peer s) (\<lambda>_.
                   case mPathToPeer x of
                      None \<Rightarrow> Inl (Undefined ''no path'')
                    | Some path \<Rightarrow> flushPath B k path (upd_sock k disconnect (upd_sock peer disconnect s))))
            else Inr s) (\<lambda>s1.
     rbind (sock k s1) (\<lambda>x1.
     rbind (require (mPeer x1 = None) (AssertionFailed ''I should not have a peer at this point'')) (\<lambda>_.
     rbind (if mBound x1 then rbind (unbind k s1) (\<lambda>s2. Inr (upd_sock k (\<lambda>x. x\<lparr>mBound := False\<rparr>) s2))
            else Inr s1) (\<lambda>s2.
     Inr (upd_sock k (\<lambda>x. x\<lparr>mOpen := False\<rparr>) s2))))))"

section \<open>Reading and writing\<close>

definition availableBytes :: "nat \<Rightarrow> net \<Rightarrow> u32 result" where
  "availableBytes k s =
     rbind (sock k s) (\<lambda>x.
     rbind (require (mBound x) (AssertionFailed ''We must be bound first'')) (\<lambda>_.
     Inr (case mArrivedQueue x of [] \<Rightarrow> 0 | m # _ \<Rightarrow> getSize m)))"

text \<open>
  The part \<^verbatim>\<open>read_i\<close> and \<^verbatim>\<open>recvfrom\<close> share: copy up to \<open>len\<close> bytes of the front
  message, keep the rest of it, and drop it when nothing is left.
\<close>

definition read_front :: "u32 \<Rightarrow> message list \<Rightarrow> (u8 list \<times> message list) result" where
  "read_front len queue =
     (case queue of
        [] \<Rightarrow> Inr ([], [])
      | message # rest \<Rightarrow>
          let msg_size = getSize message; copy_len = (if len > msg_size then msg_size else len) in
          rbind (message_resize copy_len message) (\<lambda>(left, message').
          Inr (take (unat copy_len) (mMsg message), if left = 0 then rest else message' # rest)))"

definition read_i :: "nat \<Rightarrow> u32 \<Rightarrow> net \<Rightarrow> (u8 list \<times> net) result" where
  "read_i k len s =
     rbind (sock k s) (\<lambda>x.
     rbind (require (mOpen x) (AssertionFailed ''Cannot read on an unopened socket'')) (\<lambda>_.
     rbind (read_front len (mArrivedQueue x)) (\<lambda>(bytes, queue).
     Inr (bytes, upd_sock k (\<lambda>x. x\<lparr>mArrivedQueue := queue\<rparr>) s))))"

text \<open>The overload that hands over a whole message.\<close>

definition read_data_i :: "nat \<Rightarrow> net \<Rightarrow> (u8 list option \<times> u32 \<times> net) result" where
  "read_data_i k s =
     rbind (sock k s) (\<lambda>x.
     rbind (require (mOpen x) (AssertionFailed ''Cannot read on an unopened socket'')) (\<lambda>_.
     case mArrivedQueue x of
       [] \<Rightarrow> Inr (None, 0, s)
     | m # queue \<Rightarrow> Inr (Some (mMsg m), of_nat (length (mMsg m)),
                         upd_sock k (\<lambda>x. x\<lparr>mArrivedQueue := queue\<rparr>) s)))"

text \<open>Both \<^verbatim>\<open>write_i\<close> overloads: bytes of the caller's buffer, or a message's data.\<close>

definition write_i :: "boost_graph \<Rightarrow> nat \<Rightarrow> u8 list \<Rightarrow> net \<Rightarrow> (u32 \<times> net) result" where
  "write_i B k buffer s =
     rbind (sock k s) (\<lambda>x.
     rbind (require (mBound x) (AssertionFailed ''We must be bound first'')) (\<lambda>_.
     rbind (require (mOpen x) (AssertionFailed ''We must be open first'')) (\<lambda>_.
     case mPeer x of
       None \<Rightarrow> Inl (AssertionFailed ''Trying to write to NULL peer'')
     | Some peer \<Rightarrow>
         (case mPathToPeer x of
            None \<Rightarrow> Inl (Undefined ''no path'')
          | Some path \<Rightarrow>
              rbind (require (path \<noteq> []) (AssertionFailed ''Path not set'')) (\<lambda>_.
              rbind (setPath path k peer (message_new buffer)) (\<lambda>msg.
              rbind (sendMessage B msg s) (\<lambda>s'.
              Inr (of_nat (length buffer), s'))))))))"

definition recvfrom :: "nat \<Rightarrow> u32 \<Rightarrow> net \<Rightarrow> (u8 list \<times> inet_addr option \<times> net) result" where
  "recvfrom k len s =
     rbind (sock k s) (\<lambda>x.
     rbind (require (mBound x) (AssertionFailed ''Can recvfrom if we are not bound so they can send to us'')) (\<lambda>_.
     case mArrivedQueue x of
       [] \<Rightarrow> Inr ([], None, s)
     | m # _ \<Rightarrow>
         (case mSrcSock m of
            None \<Rightarrow> Inl (Undefined ''no source socket'')
          | Some src \<Rightarrow>
              rbind (sock src s) (\<lambda>source.
              rbind (read_front len (mArrivedQueue x)) (\<lambda>(bytes, queue).
              Inr (bytes, Some (mLocalAddr source), upd_sock k (\<lambda>x. x\<lparr>mArrivedQueue := queue\<rparr>) s))))))"

text \<open>A message to an address no socket is bound to is dropped without an error.\<close>

definition sendMessageTo :: "boost_graph \<Rightarrow> message \<Rightarrow> nat \<Rightarrow> inet_addr \<Rightarrow> net \<Rightarrow> net result" where
  "sendMessageTo B msg src_sock dest_addr s =
     rbind (sock src_sock s) (\<lambda>src.
     rbind (require (mSockType src = DATAGRAM)
              (AssertionFailed ''Only datagram sockets may use sendMessageTo()'')) (\<lambda>_.
     rbind (getNodeWithAddr (mAddress dest_addr) s) (\<lambda>node.
     case node of
       None \<Rightarrow> Inr s
     | Some dest_node \<Rightarrow>
         let dest_node_prop = mNodes s ! dest_node in
         if hasSocket (mPort dest_addr) DATAGRAM dest_node_prop then
           rbind (getSocket (mPort dest_addr) DATAGRAM dest_node_prop) (\<lambda>peer.
           rbind (require (mBound src) (AssertionFailed ''Trying to send from socket not bound.'')) (\<lambda>_.
           rbind (getShortestPath B (mNetworkNode src) dest_node s) (\<lambda>path.
           rbind (setPath path src_sock peer msg) (\<lambda>msg'.
           sendMessage B msg' s))))
         else Inr s)))"

definition sendto :: "boost_graph \<Rightarrow> nat \<Rightarrow> u8 list \<Rightarrow> inet_addr \<Rightarrow> net \<Rightarrow> (u32 \<times> net) result" where
  "sendto B k msg to s =
     rbind (sock k s) (\<lambda>x.
     rbind (if \<not> mBound x then sock_bind k s else Inr s) (\<lambda>s1.
     rbind (sock k s1) (\<lambda>x1.
     rbind (require (mBound x1) (AssertionFailed ''Must be bound before sending'')) (\<lambda>_.
     rbind (sendMessageTo B (message_new msg) k to s1) (\<lambda>s2.
     Inr (of_nat (length msg), s2))))))"

definition stream_isReadReady :: "socket \<Rightarrow> return_code" where
  "stream_isReadReady x =
     (let status = (if mOpen x \<and> mConnected x \<and> mArrivedQueue x \<noteq> [] then Succeed else Fail)
      in if mOpen x \<and> length (mConnectorQueue x) > 0 then Succeed else status)"

definition stream_isWriteReady :: "socket \<Rightarrow> return_code" where
  "stream_isWriteReady x = (if \<not> mOpen x \<or> \<not> mConnected x then Fail else Succeed)"

definition datagram_isReadReady :: "socket \<Rightarrow> return_code" where
  "datagram_isReadReady x = (if \<not> mOpen x \<or> mArrivedQueue x = [] then Fail else Succeed)"

definition datagram_isWriteReady :: "socket \<Rightarrow> return_code" where
  "datagram_isWriteReady x = (if \<not> mOpen x then Fail else Succeed)"

section \<open>Options\<close>

datatype socket_option = Linger | ReuseAddr | KeepAlive | RecvBufferSize | SendBufferSize
  | IpTimeToLive | IpTypeOfService | AddMember | DropMember | Broadcast | McastInterface
  | McastTimeToLive | McastLoopback | NoDelay | NoPush | MaxSegment | SockError

datatype option_data = ReuseAddrData bool | BufferSizeData u32 | LowDelayData | NoData

definition SOCK_MAX_BUFFER_SIZE :: u32 where
  "SOCK_MAX_BUFFER_SIZE = 65536"

text \<open>An option no case names leaves the data alone and reports success.\<close>

fun getOption :: "socket_option \<Rightarrow> socket \<Rightarrow> return_code \<times> option_data" where
  "getOption Linger x = (Fail, NoData)"
| "getOption ReuseAddr x = (Succeed, ReuseAddrData (mReuseAddr x))"
| "getOption KeepAlive x = (Fail, NoData)"
| "getOption RecvBufferSize x = (Succeed, BufferSizeData SOCK_MAX_BUFFER_SIZE)"
| "getOption SendBufferSize x = (Succeed, BufferSizeData SOCK_MAX_BUFFER_SIZE)"
| "getOption IpTimeToLive x = (Fail, NoData)"
| "getOption IpTypeOfService x = (Succeed, LowDelayData)"
| "getOption AddMember x = (Fail, NoData)"
| "getOption DropMember x = (Fail, NoData)"
| "getOption McastInterface x = (Fail, NoData)"
| "getOption McastTimeToLive x = (Fail, NoData)"
| "getOption McastLoopback x = (Fail, NoData)"
| "getOption NoDelay x = (Fail, NoData)"
| "getOption MaxSegment x = (Fail, NoData)"
| "getOption _ x = (Succeed, NoData)"

fun setOption :: "socket_option \<Rightarrow> bool \<Rightarrow> socket \<Rightarrow> return_code \<times> socket" where
  "setOption ReuseAddr reuse_addr x = (Succeed, x\<lparr>mReuseAddr := reuse_addr\<rparr>)"
| "setOption Broadcast _ x = (Succeed, x)"
| "setOption NoPush _ x = (Succeed, x)"
| "setOption SockError _ x = (Succeed, x)"
| "setOption _ _ x = (Fail, x)"

section \<open>Reading keeps the order of the bytes\<close>

lemma sock_upd [simp]:
  "sock k (upd_sock j f s) = (if k < length (mSockets s)
     then Inr (if j = k then f (mSockets s ! k) else mSockets s ! k) else Inl (Undefined ''no such socket''))"
  by (simp add: sock_def upd_sock_def)

lemma sock_Inr: "sock k s = Inr x \<longleftrightarrow> k < length (mSockets s) \<and> x = mSockets s ! k"
  by (auto simp: sock_def)

definition byte_stream :: "message list \<Rightarrow> u8 list" where
  "byte_stream q = concat (map mMsg q)"

lemma of_nat_u32_eq_0: "j < 2 ^ 32 \<Longrightarrow> (of_nat j :: u32) = 0 \<longleftrightarrow> j = 0"
  by (simp add: word_unat_eq_iff unat_of_nat)

lemma read_front_stream:
  assumes "\<forall>m \<in> set q. length (mMsg m) < 2 ^ 32"
  shows "\<exists>bytes q'. read_front len q = Inr (bytes, q') \<and> bytes @ byte_stream q' = byte_stream q
    \<and> length bytes = (case q of [] \<Rightarrow> 0 | m # _ \<Rightarrow> min (unat len) (length (mMsg m)))
    \<and> (\<forall>m \<in> set q'. length (mMsg m) < 2 ^ 32)"
proof (cases q)
  case Nil
  then show ?thesis by (simp add: read_front_def)
next
  case (Cons m rest)
  let ?L = "length (mMsg m)" let ?n = "min (unat len) ?L"
  have L: "?L < 2 ^ 32" using assms Cons by simp
  have size: "unat (getSize m) = ?L" using L by (simp add: getSize_def unat_of_nat)
  have n: "unat (of_nat ?n :: u32) = ?n" using L by (simp add: unat_of_nat)
  have copy: "(if len > getSize m then getSize m else len) = of_nat ?n"
    unfolding word_unat_eq_iff n using size by (simp add: word_less_nat_alt)
  have resize: "message_resize (of_nat ?n) m
      = Inr (of_nat (?L - ?n), if ?n < ?L then m\<lparr>mMsg := drop ?n (mMsg m)\<rparr> else m)"
    by (rule message_resize_read [OF L]) simp
  have zero: "(of_nat (?L - ?n) :: u32) = 0 \<longleftrightarrow> ?L \<le> unat len"
    using of_nat_u32_eq_0 [of "?L - ?n"] L by (simp only:) auto
  show ?thesis
    unfolding read_front_def Cons list.case Let_def copy resize rbind_simps prod.case n zero
    using assms Cons by (auto simp: byte_stream_def min_def)
qed

text \<open>
  Reading a socket never loses, repeats or reorders a byte: a read hands out up to
  the requested number of bytes of the front message, and these followed by what is still
  queued are what was queued before; no other socket changes, and a read of at least one
  byte from a non-empty front message makes progress.
\<close>

theorem read_keeps_stream:
  assumes "k < length (mSockets s)" and "mOpen (mSockets s ! k)"
    and "\<forall>m \<in> set (mArrivedQueue (mSockets s ! k)). length (mMsg m) < 2 ^ 32"
  shows "\<exists>bytes s'. read_i k len s = Inr (bytes, s')
    \<and> bytes @ byte_stream (mArrivedQueue (mSockets s' ! k)) = byte_stream (mArrivedQueue (mSockets s ! k))
    \<and> length bytes = (case mArrivedQueue (mSockets s ! k) of [] \<Rightarrow> 0
         | m # _ \<Rightarrow> min (unat len) (length (mMsg m)))
    \<and> (\<forall>j. j \<noteq> k \<longrightarrow> mSockets s' ! j = mSockets s ! j)"
proof -
  obtain bytes q' where r: "read_front len (mArrivedQueue (mSockets s ! k)) = Inr (bytes, q')"
    "bytes @ byte_stream q' = byte_stream (mArrivedQueue (mSockets s ! k))"
    "length bytes = (case mArrivedQueue (mSockets s ! k) of [] \<Rightarrow> 0
       | m # _ \<Rightarrow> min (unat len) (length (mMsg m)))"
    using read_front_stream [OF assms(3), of len] by blast
  then show ?thesis
    using assms(1,2) by (simp add: read_i_def sock_def) (simp add: upd_sock_def)
qed

definition example_inbox :: net where
  "example_inbox = upd_sock 1 (\<lambda>x. x\<lparr>mArrivedQueue := [message_new [1, 2, 3], message_new [4, 5]]\<rparr>) example_net"

theorem read_keeps_stream_witness:
  "\<exists>bytes s'. read_i 1 2 example_inbox = Inr (bytes, s')
    \<and> bytes @ byte_stream (mArrivedQueue (mSockets s' ! 1)) = [1, 2, 3, 4, 5] \<and> length bytes = 2"
proof -
  have q: "mArrivedQueue (mSockets example_inbox ! 1) = [message_new [1, 2, 3], message_new [4, 5]]"
    "1 < length (mSockets example_inbox)" "mOpen (mSockets example_inbox ! 1)"
    by (simp_all add: example_inbox_def upd_sock_def example_net_def example_socket_def)
  have "\<forall>m \<in> set (mArrivedQueue (mSockets example_inbox ! 1)). length (mMsg m) < 2 ^ 32"
    unfolding q(1) by (simp add: message_new_def)
  from read_keeps_stream [OF q(2,3) this, of 2]
  show ?thesis unfolding q(1) by (auto simp: byte_stream_def message_new_def)
qed

section \<open>Writing\<close>

lemma net_wf_other_event:
  assumes "net_wf B s" and "\<not> is_message ev"
  shows "net_wf B (s\<lparr>mEvents := mmap_insert t ev (mEvents s)\<rparr>)"
proof -
  have "mmap_wf (mEvents s)" using assms(1) by (simp add: net_wf_def)
  then have "line_events e d (mmap_insert t ev (mEvents s)) = line_events e d (mEvents s)" for e d
    using assms(2) unfolding line_events_def by (subst filter_mmap_insert) auto
  then show ?thesis using assms(1) by (simp add: net_wf_def mmap_insert_wf)
qed

lemma sendMessage_ok:
  assumes wf: "net_wf B s" and le: "times_le T s" and now: "us (mCurrentTime (mClock s)) \<le> T"
    and T: "T + hop_time < 2 ^ 64" and act: "mActive s" and ok: "msg_ok B s msg"
    and local: "hops_left msg = 1 \<longrightarrow> (\<exists>src dest. mSrcSock msg = Some src \<and> mDestSock msg = Some dest
      \<and> src < length (mSockets s)
      \<and> mAddress (mLocalAddr (mSockets s ! src)) = mAddress (mLocalAddr (mSockets s ! dest)))"
  shows "\<exists>s'. sendMessage B msg s = Inr s' \<and> net_wf B s' \<and> times_le (T + hop_time) s'
    \<and> in_flight s' + arrived s' = in_flight s + arrived s + {# (mDestSock msg, mMsg msg) #}"
proof -
  obtain b m1 where inc: "incNextHop msg = (b, m1)" by (cases "incNextHop msg")
  show ?thesis
  proof (cases b)
    case True
    obtain u k where k: "getNextHop msg = Inr u" "mDestSock m1 = Some k" "k < length (mSockets s)"
      "hops_left msg = 1" "mMsg m1 = mMsg msg" "mDestSock m1 = mDestSock msg"
      using msg_ok_last_hop [OF ok, of m1] inc True by auto
    have src: "mSrcSock m1 = mSrcSock msg" using inc by (auto simp: incNextHop_def Let_def)
    let ?s1 = "upd_sock k (\<lambda>x. x\<lparr>mArrivedQueue := mArrivedQueue x @ [m1]\<rparr>) s"
    let ?s2 = "addLocalhostDeliveryEvent (mCurrentTime (mClock s)) k ?s1"
    have "sendMessage B msg s = Inr ?s2"
      using act k inc True local src by (auto simp: sendMessage_def addArrivedMessage_def)
    moreover have "net_wf B ?s2"
      unfolding addLocalhostDeliveryEvent_def
      by (rule net_wf_other_event) (simp_all only: net_wf_deliver [OF k(3)] wf is_message.simps not_False_eq_True)
    moreover have "times_le (T + hop_time) ?s2"
      using times_le_mono [OF le, of "T + hop_time"] by (simp add: times_le_def addLocalhostDeliveryEvent_def)
    moreover have "in_flight ?s2 + arrived ?s2 = in_flight s + arrived s + {# (mDestSock msg, mMsg msg) #}"
    proof -
      have "in_flight ?s2 = in_flight s" by (simp add: in_flight_def addLocalhostDeliveryEvent_def)
      moreover have "arrived ?s2 = arrived ?s1" by (simp add: arrived_def addLocalhostDeliveryEvent_def)
      ultimately show ?thesis using arrived_upd_sock [OF k(3), of m1] k(5,6) by simp
    qed
    ultimately show ?thesis by blast
  next
    case False
    then have inc': "incNextHop msg = (False, m1)" using inc by simp
    obtain u v edge where h: "getNextHop msg = Inr u" "getNextHop m1 = Inr v" "getEdge B u v = Some edge"
      "fst edge < length (mLines s)" "msg_ok B s m1" "mMsg m1 = mMsg msg" "mDestSock m1 = mDestSock msg"
      using msg_ok_incNextHop [OF ok inc'] by blast
    let ?s3 = "\<lambda>t' d' m2. addMessageEvent t' (fst edge) d'
        (upd_line (fst edge) (set_line_queue d' (line_queue d' (mLines s ! fst edge) @ [(t', m2)])
           (mLines s ! fst edge)) s)"
    obtain t' m2 d' where sol: "start_on_line B edge u m1 (mCurrentTime (mClock s)) s = Inr (?s3 t' d' m2)"
      and m2: "\<exists>a b c. m2 = m1\<lparr>mStartOnWire := a, mFullyOnWire := b, mArrivesFully := c\<rparr>"
      and t': "us t' \<le> T + hop_time" and wf3: "net_wf B (?s3 t' d' m2)"
      using start_on_line_ok [OF wf le now T h(4,5), of u] by blast
    have "sendMessage B msg s = Inr (?s3 t' d' m2)"
      using act inc' h(1-3) sol by (simp add: sendMessage_def)
    moreover have "times_le (T + hop_time) (?s3 t' d' m2)" by (rule times_le_enqueue [OF le h(4) t'])
    moreover have "in_flight (?s3 t' d' m2) + arrived (?s3 t' d' m2)
        = in_flight s + arrived s + {# (mDestSock msg, mMsg msg) #}"
      using flying_enqueue [OF h(4), of "\<lambda>m. {# (mDestSock m, mMsg m) #}" d' t' m2] m2 h(6,7)
      unfolding in_flight_def by auto
    ultimately show ?thesis using wf3 by blast
  qed
qed

text \<open>A connected socket that can send: what \<open>accept\<close> and \<open>connect\<close> leave behind.\<close>

definition can_send :: "boost_graph \<Rightarrow> net \<Rightarrow> nat \<Rightarrow> nat \<Rightarrow> nat list \<Rightarrow> bool" where
  "can_send B s k peer path \<longleftrightarrow> k < length (mSockets s) \<and> mBound (mSockets s ! k) \<and> mOpen (mSockets s ! k)
     \<and> mPeer (mSockets s ! k) = Some peer \<and> mPathToPeer (mSockets s ! k) = Some path
     \<and> peer < length (mSockets s) \<and> mOpen (mSockets s ! peer) \<and> path_ok B (length (mLines s)) path
     \<and> (length path = 1 \<longrightarrow> mAddress (mLocalAddr (mSockets s ! k)) = mAddress (mLocalAddr (mSockets s ! peer)))"

text \<open>
  Writing to a connected socket whose path is a way through the network: all bytes
  are taken, no assertion fails, the network's invariant holds afterwards, and exactly one
  message, with these bytes, for the peer, has been added to what is on the lines or has
  arrived.
\<close>

theorem write_sends_message:
  assumes "net_wf B s" and "times_le T s" and "us (mCurrentTime (mClock s)) \<le> T"
    and "T + hop_time < 2 ^ 64" and "mActive s" and "can_send B s k peer path"
    and "\<forall>l \<in> set (mLines s). message_fits (message_new data) l"
  shows "\<exists>s'. write_i B k data s = Inr (of_nat (length data), s') \<and> net_wf B s'
    \<and> times_le (T + hop_time) s'
    \<and> in_flight s' + arrived s' = in_flight s + arrived s + {# (Some peer, data) #}"
proof -
  have path: "path \<noteq> []" using assms(6) path_ok_length by (auto simp: can_send_def)
  let ?m = "(message_new data)\<lparr>mMsgPath := path, mNextHop := 0, mSrcSock := Some k, mDestSock := Some peer\<rparr>"
  have set_path: "setPath path k peer (message_new data) = Inr ?m"
    using path by (simp add: setPath_def)
  have fits: "message_fits ?m l = message_fits (message_new data) l" for l
    by (simp add: message_fits_def access_time_def getSize_def)
  have ok: "msg_ok B s ?m"
    using assms(6,7) by (simp add: msg_ok_def fits dest_open_def can_send_def)
  have "\<exists>s'. sendMessage B ?m s = Inr s' \<and> net_wf B s' \<and> times_le (T + hop_time) s'
      \<and> in_flight s' + arrived s' = in_flight s + arrived s + {# (mDestSock ?m, mMsg ?m) #}"
    by (rule sendMessage_ok [OF assms(1-5) ok]) (use assms(6) in \<open>simp add: can_send_def hops_left_def\<close>)
  then show ?thesis
    using assms(6) path set_path by (auto simp: write_i_def can_send_def sock_def message_new_def)
qed

definition example_pair :: net where
  "example_pair = example_net\<lparr>mSockets :=
     [example_socket\<lparr>mBound := True, mConnected := True, mPeer := Some 1, mPathToPeer := Some [0, 1, 2]\<rparr>,
      example_socket\<lparr>mBound := True, mConnected := True, mPeer := Some 0, mPathToPeer := Some [2, 1, 0],
        mNetworkNode := 2\<rparr>]\<rparr>"

lemma example_pair_wf: "net_wf example_graph example_pair" "times_le 1011 example_pair"
proof -
  have queues: "queue_at example_pair e d = queue_at example_net e d" for e d
    by (simp add: queue_at_def example_pair_def)
  have "msg_ok example_graph example_pair m = msg_ok example_graph example_net m" for m
    by (simp add: msg_ok_def example_pair_def example_net_def dest_open_def example_socket_def
        nth_Cons' split: option.splits)
  then show "net_wf example_graph example_pair"
    using example_net_wf by (simp add: net_wf_def queues) (simp add: example_pair_def)
  show "times_le 1011 example_pair"
    by (auto simp: times_le_def queues example_queue_at split: if_splits)
qed

theorem write_sends_message_witness:
  "\<exists>s'. write_i example_graph 0 [6, 7, 8, 9, 10] example_pair = Inr (5, s')
    \<and> in_flight s' + arrived s' = {# (Some 1, [1, 2, 3, 4, 5]), (Some 1, [6, 7, 8, 9, 10]) #}"
proof -
  have send: "can_send example_graph example_pair 0 1 [0, 1, 2]"
    by (simp add: can_send_def example_pair_def example_socket_def example_graph_def
        example_net_def doubleton_eq_iff)
  have fits: "\<forall>l \<in> set (mLines example_pair). message_fits (message_new [6, 7, 8, 9, 10]) l"
    by (simp add: example_pair_def example_net_def message_fits_def access_time_def getSize_def
        message_new_def example_line_def network_line_new_def)
  have all: "in_flight example_pair + arrived example_pair = {# (Some 1, [1, 2, 3, 4, 5]) #}"
    by (simp add: in_flight_def flying_def line_sum_def example_pair_def example_net_def arrived_def
        example_line_def example_socket_def network_line_new_def example_sent_def
        example_message_def message_new_def)
  have now: "us (mCurrentTime (mClock example_pair)) \<le> 1011" "mActive example_pair"
    by (simp_all add: example_pair_def example_net_def)
  have "1011 + hop_time < 2 ^ 64" by (simp add: hop_time_def)
  from write_sends_message [OF example_pair_wf now(1) this now(2) send fits] all
  show ?thesis by auto
qed

section \<open>Connecting a datagram socket\<close>

text \<open>Only stream sockets listen, so the table connect looks in holds no datagram socket.\<close>

definition listeners_stream :: "net \<Rightarrow> bool" where
  "listeners_stream s \<longleftrightarrow> (\<forall>a k. mListenerList s a = Some k \<longrightarrow>
     k < length (mSockets s) \<and> mSockType (mSockets s ! k) = STREAM)"

lemma listen_listeners:
  "listeners_stream s \<Longrightarrow> listen k s = Inr s' \<Longrightarrow> listeners_stream s'"
  by (auto simp: listen_def listeners_stream_def rbind_Inr_iff sock_Inr Let_def require_def split: if_splits)

text \<open>
  A datagram socket can never be connected: whatever address it is given and whatever
  sockets listen, the call ends in a failed assertion.
\<close>

theorem datagram_connect_fails:
  assumes "listeners_stream s" and "k < length (mSockets s)" and "mSockType (mSockets s ! k) = DATAGRAM"
  shows "\<exists>why. mgr_connect B k remoteName s = Inl (AssertionFailed why)"
proof (cases "mActive s \<and> mBound (mSockets s ! k) \<and> mLocalAddr (mSockets s ! k) \<noteq> AnyAddr")
  case True
  show ?thesis
  proof (cases "mListenerList s remoteName")
    case None
    with True show ?thesis using assms(2,3) by (auto simp: mgr_connect_def sock_def)
  next
    case (Some r)
    then have "r < length (mSockets s)" "mSockType (mSockets s ! r) = STREAM"
      using assms(1) by (auto simp: listeners_stream_def)
    with True Some show ?thesis using assms(2,3) by (auto simp: mgr_connect_def sock_def)
  qed
next
  case False
  then show ?thesis using assms(2) by (auto simp: mgr_connect_def sock_def require_def)
qed

definition example_datagram :: net where
  "example_datagram = example_net\<lparr>mSockets :=
     [example_socket\<lparr>mBound := True, mLocalAddr := \<lparr>mPort = 1, mAddress = 0x0A000001\<rparr>\<rparr>,
      example_socket\<lparr>mSockType := DATAGRAM, mBound := True, mLocalAddr := \<lparr>mPort = 1, mAddress = 0x0A000002\<rparr>\<rparr>],
     mListenerList := (\<lambda>_. None)(\<lparr>mPort = 1, mAddress = 0x0A000001\<rparr> \<mapsto> 0)\<rparr>"

theorem datagram_connect_fails_witness:
  "\<exists>why. mgr_connect example_graph 1 \<lparr>mPort = 1, mAddress = 0x0A000001\<rparr> example_datagram
    = Inl (AssertionFailed why)"
  by (rule datagram_connect_fails)
     (auto simp: listeners_stream_def example_datagram_def example_net_def example_socket_def split: if_splits)

section \<open>Flushing a path\<close>

text \<open>The messages \<open>flushPath\<close> looks at, hop by hop.\<close>

fun path_messages :: "boost_graph \<Rightarrow> net \<Rightarrow> nat list \<Rightarrow> message list" where
  "path_messages B s (u # v # p) =
     (case getEdge B u v of None \<Rightarrow> []
      | Some line \<Rightarrow> map snd (queue_at s (fst line) (if isSource u line then FORWARD else REVERSE)))
     @ path_messages B s (v # p)"
| "path_messages B s _ = []"

lemma erase_events_hit:
  "(t, ev) \<in> set m \<Longrightarrow> event_eq ev ev \<Longrightarrow> \<exists>why. erase_events t ev m = Inl (Undefined why)"
  by (induction m) (auto split: if_splits)

lemma set_line_queue_same [simp]: "set_line_queue d (line_queue d l) l = l"
  by (cases d) (simp_all add: set_line_queue_def line_queue_def)

lemma flush_hop:
  assumes wf: "net_wf B s" and e: "e < length (mLines s)"
  shows "if \<exists>x \<in> set (queue_at s e d). mDestSock (snd x) = Some k
    then \<exists>ts l why. removeActiveMessages k d (mLines s ! e) = (ts, l)
      \<and> rfold (\<lambda>t. erase_events t (MESSAGE e d)) ts (mEvents s) = Inl (Undefined why)
    else removeActiveMessages k d (mLines s ! e) = ([], mLines s ! e)"
proof -
  let ?q = "line_queue d (mLines s ! e)"
  let ?kept = "filter (\<lambda>x. mDestSock (snd x) \<noteq> Some k) ?q"
  have at: "queue_at s e d = ?q" using e by (simp add: queue_at_def)
  have r: "removeActiveMessages k d (mLines s ! e)
      = (map fst (drop (length ?kept) ?q), set_line_queue d ?kept (mLines s ! e))"
    by (simp add: removeActiveMessages_def remove_if_cells_def Let_def)
  show ?thesis
  proof (cases "\<exists>x \<in> set ?q. mDestSock (snd x) = Some k")
    case True
    then have "length ?kept < length ?q" by (auto intro: length_filter_less)
    then obtain x rest where x: "drop (length ?kept) ?q = x # rest"
      by (cases "drop (length ?kept) ?q") auto
    then have "x \<in> set ?q" by (metis in_set_dropD list.set_intros(1))
    then have "fst x \<in> set (line_events e d (mEvents s))"
      using wf at by (simp add: net_wf_def)
    then have "(fst x, MESSAGE e d) \<in> set (mEvents s)" by (auto simp: line_events_def)
    then obtain why where "erase_events (fst x) (MESSAGE e d) (mEvents s) = Inl (Undefined why)"
      using erase_events_hit [of "fst x" "MESSAGE e d" "mEvents s"] by auto
    then show ?thesis using r x True at by simp
  next
    case False
    then have "?kept = ?q" by (simp add: filter_id_conv)
    then show ?thesis using r False at by simp
  qed
qed

text \<open>
  Flushing a closing socket's path works only when there is nothing to flush: if no
  message for the socket waits on the lines of the path, in the direction of the path, the
  network is left as it is; if one does, removing its event leaves the loop with an erased
  iterator, which it then increments.
\<close>

theorem flushPath_erased_iterator:
  assumes "net_wf B s" and "path \<noteq> []"
    and "\<forall>u v. case getEdge B u v of None \<Rightarrow> True | Some line \<Rightarrow> fst line < length (mLines s)"
  shows "if \<exists>m \<in> set (path_messages B s path). mDestSock m = Some k
    then \<exists>why. flushPath B k path s = Inl (Undefined why)
    else flushPath B k path s = Inr s"
  using assms(2)
proof (induction path rule: induct_list012)
  case (3 u v p)
  note IH = 3(2)
  show ?case
  proof (cases "getEdge B u v")
    case None
    then show ?thesis using IH by simp
  next
    case (Some line)
    define d where "d = (if isSource u line then FORWARD else REVERSE)"
    have e: "fst line < length (mLines s)" using assms(3) Some by (metis option.simps(5))
    have same: "upd_line (fst line) (mLines s ! fst line) s\<lparr>mEvents := mEvents s\<rparr> = s"
      by (simp add: upd_line_def)
    have flush: "flushPath B k (u # v # p) s = (case removeActiveMessages k d (mLines s ! fst line) of
        (ts, l) \<Rightarrow> rbind (rfold (\<lambda>t. erase_events t (MESSAGE (fst line) d)) ts (mEvents s)) (\<lambda>events.
          flushPath B k (v # p) ((upd_line (fst line) l s)\<lparr>mEvents := events\<rparr>)))"
      using Some e by (simp add: Let_def d_def)
    have messages: "(\<exists>m \<in> set (path_messages B s (u # v # p)). mDestSock m = Some k)
        \<longleftrightarrow> (\<exists>x \<in> set (queue_at s (fst line) d). mDestSock (snd x) = Some k)
          \<or> (\<exists>m \<in> set (path_messages B s (v # p)). mDestSock m = Some k)"
      using Some by (auto simp: d_def)
    show ?thesis
    proof (cases "\<exists>x \<in> set (queue_at s (fst line) d). mDestSock (snd x) = Some k")
      case True
      then show ?thesis
        unfolding messages flush using flush_hop [OF assms(1) e, of d k] by auto
    next
      case False
      then have "removeActiveMessages k d (mLines s ! fst line) = ([], mLines s ! fst line)"
        using flush_hop [OF assms(1) e, of d k] by (simp only: if_False)
      then have "flushPath B k (u # v # p) s = flushPath B k (v # p) s"
        unfolding flush by (simp add: same del: flushPath.simps)
      then show ?thesis using IH messages False by simp
    qed
  qed
qed simp_all

theorem flushPath_erased_iterator_witness:
  "(\<exists>why. flushPath example_graph 1 [0, 1, 2] example_net = Inl (Undefined why))
   \<and> flushPath example_graph 0 [0, 1, 2] example_net = Inr example_net"
proof -
  have edges: "\<forall>u v. case getEdge example_graph u v of None \<Rightarrow> True
      | Some line \<Rightarrow> fst line < length (mLines example_net)"
    by (auto simp: getEdge_def example_graph_def example_net_def)
  have msgs: "path_messages example_graph example_net [0, 1, 2] = [example_sent]"
    by (simp add: getEdge_def example_graph_def doubleton_eq_iff isSource_def example_queue_at)
  have dest: "mDestSock example_sent = Some 1"
    by (simp add: example_sent_def example_message_def message_new_def)
  show ?thesis
    using flushPath_erased_iterator [OF example_net_wf _ edges, of "[0, 1, 2]" 1]
      flushPath_erased_iterator [OF example_net_wf _ edges, of "[0, 1, 2]" 0]
    unfolding msgs by (simp add: dest del: flushPath.simps path_messages.simps)
qed

section \<open>Binding and accepting\<close>

text \<open>A node the manager can bind sockets to: found under its address, with ports to give.\<close>

definition node_ready :: "u32 \<Rightarrow> nat \<Rightarrow> net \<Rightarrow> bool" where
  "node_ready ip v s \<longleftrightarrow> mGraphValid s \<and> v < length (mNodes s) \<and> find_node ip (mNodes s) 0 = Some v
     \<and> (mNetworkNodes s ip = None \<or> mNetworkNodes s ip = Some v) \<and> node_wf (mNodes s ! v)
     \<and> (\<forall>t. 0xffffffff \<notin> fst ` set (node_map t (mNodes s ! v)))"

lemma find_node_range: "find_node a ns i = Some v \<Longrightarrow> i \<le> v \<and> v < i + length ns \<and> mIpAddr (ns ! (v - i)) = a"
  by (induction ns arbitrary: i) (force split: if_splits simp: nth_Cons')+

lemma find_node_update:
  "mIpAddr n = mIpAddr (ns ! v) \<Longrightarrow> find_node a (ns[v := n]) i = find_node a ns i"
  by (induction ns arbitrary: i v) (auto split: nat.splits)

lemma node_ready_ip: "node_ready ip v s \<Longrightarrow> mIpAddr (mNodes s ! v) = ip"
  using find_node_range [of ip "mNodes s" 0 v] by (simp add: node_ready_def)

lemma ensure_ready:
  assumes "node_ready ip v s"
  shows "ensureNetworkNodeIsRegistered ip s = Inr (s\<lparr>mNetworkNodes := (mNetworkNodes s)(ip \<mapsto> v)\<rparr>)"
proof (cases "mNetworkNodes s ip")
  case None
  then show ?thesis
    using assms by (simp add: ensureNetworkNodeIsRegistered_def getNodeWithAddr_def node_ready_def)
next
  case (Some w)
  then have "mNetworkNodes s ip = Some v" using assms by (auto simp: node_ready_def)
  then show ?thesis by (simp add: ensureNetworkNodeIsRegistered_def fun_upd_idem)
qed

text \<open>Binding without a port: the socket gets the node's first free one.\<close>

lemma sock_bind_ok:
  assumes k: "k < length (mSockets s)" and x: "mSockets s ! k = x" "mOpen x" "\<not> mBound x"
    "mPort (mLocalAddr x) = 0" "mAddress (mLocalAddr x) = ip" and ready: "node_ready ip v s"
  defines "t \<equiv> mSockType x" and "n \<equiv> mNodes s ! v" and "port \<equiv> first_gap (node_map (mSockType x) (mNodes s ! v))"
  shows "sock_bind k s = Inr (s\<lparr>
      mSockets := (mSockets s)[k := x\<lparr>mLocalAddr := \<lparr>mPort = port, mAddress = ip\<rparr>,
        mNetworkNode := v, mBound := True\<rparr>],
      mNodes := (mNodes s)[v := set_node_map t (omap_put port k (node_map t n)) n],
      mNetworkNodes := (mNetworkNodes s)(ip \<mapsto> v)\<rparr>)"
    and "port \<noteq> 0" and "\<not> hasSocket port t n"
proof -
  have v: "v < length (mNodes s)" and wf: "node_wf n" and last: "0xffffffff \<notin> fst ` set (node_map t n)"
    and find: "find_node ip (mNodes s) 0 = Some v"
    using ready by (simp_all add: node_ready_def n_def t_def)
  have ip: "mIpAddr n = ip" using node_ready_ip [OF ready] by (simp add: n_def)
  have free: "unassigned_port (node_map t n) = Inr port" "map_of (node_map t n) port = None" "port \<noteq> 0"
    using unassigned_port_ok [OF node_wf_map [OF wf] last] by (simp_all add: port_def t_def n_def)
  show "port \<noteq> 0" "\<not> hasSocket port t n" using free by (simp_all add: hasSocket_def)
  have search: "(case t of STREAM \<Rightarrow> getUnassignedTcpPortNumber n
      | DATAGRAM \<Rightarrow> getUnassignedUdpPortNumber n) = Inr port"
    using free(1) by (cases t) (simp_all add: getUnassignedTcpPortNumber_def
        getUnassignedUdpPortNumber_def node_map_def)
  have search': "(case t of STREAM \<Rightarrow> getUnassignedTcpPortNumber (mNodes (s\<lparr>mNetworkNodes := m\<rparr>) ! v)
      | DATAGRAM \<Rightarrow> getUnassignedUdpPortNumber (mNodes (s\<lparr>mNetworkNodes := m\<rparr>) ! v)) = Inr port" for m
    using search by (cases t) (simp_all add: n_def)
  have addr: "(if inet_equals (mLocalAddr x) AnyAddr then setAddress LocalHostIpAddrValue 0 (mLocalAddr x)
      else mLocalAddr x) = \<lparr>mPort = 0, mAddress = ip\<rparr>"
    using x(4,5) by (cases "mLocalAddr x")
      (auto simp: AnyAddr_def inet_addr_new_def setAddress_def LocalHostIpAddrValue_def)
  have add: "addSocket k \<lparr>mPort = port, mAddress = ip\<rparr> t n
      = Inr (set_node_map t (omap_put port k (node_map t n)) n)"
    using free ip by (simp add: addSocket_effect)
  have found: "find_node ip ((mNodes s)[v := set_node_map t (omap_put port k (node_map t n)) n]) 0 = Some v"
    using find by (subst find_node_update) (simp_all add: n_def)
  have valid: "mGraphValid s" using ready by (simp add: node_ready_def)
  have sk: "sock k s = Inr x" using k x(1) by (simp add: sock_def)
  show "sock_bind k s = Inr (s\<lparr>
      mSockets := (mSockets s)[k := x\<lparr>mLocalAddr := \<lparr>mPort = port, mAddress = ip\<rparr>,
        mNetworkNode := v, mBound := True\<rparr>],
      mNodes := (mNodes s)[v := set_node_map t (omap_put port k (node_map t n)) n],
      mNetworkNodes := (mNetworkNodes s)(ip \<mapsto> v)\<rparr>)"
    unfolding sock_bind_def assignToNode_def sk rbind_simps Let_def addr
    using k x v found search' add valid
    by (simp add: ensure_ready [OF ready] setLocalAddr_def sock_def upd_sock_def getNodeWithAddr_def
        flip: t_def n_def)
qed

lemma reverse_copy_rev: "n \<le> length path \<Longrightarrow> reverse_copy path n = rev (take n path)"
  by (induction n) (simp_all add: take_Suc_conv_app_nth)

lemma reversePath_rev [simp]: "reversePath path = rev path"
  by (simp add: reversePath_def reverse_copy_rev)

lemma getShortestPath_cong:
  "length (mNodes s') = length (mNodes s) \<Longrightarrow> getShortestPath B u v s' = getShortestPath B u v s"
  by (simp add: getShortestPath_def)

text \<open>What a completed handshake leaves: two sockets that are each other's peer.\<close>

definition connected_pair :: "net \<Rightarrow> nat \<Rightarrow> nat \<Rightarrow> nat list \<Rightarrow> bool" where
  "connected_pair s p c path \<longleftrightarrow>
     (let x = mSockets s ! p; y = mSockets s ! c in
      mConnected x \<and> mConnected y \<and> mPeer x = Some c \<and> mPeer y = Some p
      \<and> mRemoteAddr x = mLocalAddr y \<and> mRemoteAddr y = mLocalAddr x
      \<and> mPathToPeer x = Some path \<and> mPathToPeer y = Some (rev path))"

text \<open>The end of \<open>accept\<close>, once the new socket is bound.\<close>

lemma handshake_end:
  assumes len: "p < length (mSockets s)" "c < length (mSockets s)" "p \<noteq> c" and act: "mActive s"
    and y: "mPeer (mSockets s ! c) = Some p" "mConnected (mSockets s ! c)"
      "mRemoteAddr (mSockets s ! c) = mLocalAddr (mSockets s ! p)" "mNetworkNode (mSockets s ! c) = v"
    and path: "getShortestPath B (mNetworkNode (mSockets s ! p)) v s = Inr path"
  shows "\<exists>s'. rbind (findRoute B p c s) (\<lambda>s4.
      rbind (completeConnection p c s4) (\<lambda>s5.
      let s6 = addConnectionCompletionEvent (mCurrentTime (mClock s5)) p s5 in
      rbind (sock p s6) (\<lambda>peer'. rbind (sock c s6) (\<lambda>client'.
      rbind (require (inet_equals (mRemoteAddr peer') (mLocalAddr client'))
        (AssertionFailed ''Connector doesn't know peer's IP address'')) (\<lambda>_. Inr (Succeed, s6))))))
      = Inr (Succeed, s')
    \<and> connected_pair s' p c path \<and> mNodes s' = mNodes s
    \<and> mOpen (mSockets s' ! c) = mOpen (mSockets s ! c) \<and> mBound (mSockets s' ! c) = mBound (mSockets s ! c)
    \<and> mLocalAddr (mSockets s' ! c) = mLocalAddr (mSockets s ! c)
    \<and> (\<forall>j. mConnectorQueue (mSockets s' ! j) = mConnectorQueue (mSockets s ! j))
    \<and> (mCurrentTime (mClock s), CONNECTION_COMPLETE p) \<in> set (mEvents s')"
proof -
  let ?s4 = "upd_sock c (\<lambda>x. x\<lparr>mPathToPeer := Some (rev path)\<rparr>) (upd_sock p (\<lambda>x. x\<lparr>mPathToPeer := Some path\<rparr>) s)"
  have route: "findRoute B p c s = Inr ?s4"
    using act len path y by (simp add: findRoute_def sock_def)
  let ?s5 = "upd_sock p (\<lambda>x. (setConnectState (Some c) x)\<lparr>mRemoteAddr := mLocalAddr (mSockets s ! c)\<rparr>) ?s4"
  have complete: "completeConnection p c ?s4 = Inr ?s5"
    using len by (simp add: completeConnection_def) (simp add: upd_sock_def nth_list_update)
  let ?s6 = "addConnectionCompletionEvent (mCurrentTime (mClock s)) p ?s5"
  have socks: "mSockets ?s6 = (mSockets s)[p := (setConnectState (Some c) ((mSockets s ! p)\<lparr>mPathToPeer := Some path\<rparr>))
        \<lparr>mRemoteAddr := mLocalAddr (mSockets s ! c)\<rparr>, c := (mSockets s ! c)\<lparr>mPathToPeer := Some (rev path)\<rparr>]"
    by (rule nth_equalityI) (use len in \<open>auto simp: addConnectionCompletionEvent_def upd_sock_def nth_list_update\<close>)
  have queues: "mConnectorQueue (mSockets ?s6 ! j) = mConnectorQueue (mSockets s ! j)" for j
    unfolding socks using len by (cases "j < length (mSockets s)") (auto simp: nth_list_update setConnectState_def)
  show ?thesis
    unfolding route rbind_simps complete Let_def
    using len y socks queues
    by (intro exI [of _ ?s6])
       (auto simp: sock_def connected_pair_def Let_def setConnectState_def nth_list_update
         addConnectionCompletionEvent_def mmap_insert_set upd_sock_def)
qed

text \<open>
  The second half of the handshake: when a connector waits at a listening socket,
  accepting it with a fresh socket succeeds.  The two sockets become each other's peer,
  each with the other's address and the path to it, one the reverse of the other; the new
  socket is open, bound to a port of the listener's address that was free and is now its
  own; the connector has left the queue and its completion event is pending.
\<close>

theorem accept_connects_pair:
  assumes len: "k < length (mSockets s)" "p < length (mSockets s)" "c < length (mSockets s)" "k \<noteq> c" "p \<noteq> c"
    and queue: "mConnectorQueue (mSockets s ! k) = p # rest"
    and fresh: "\<not> mBound (mSockets s ! c)"
    and ready: "node_ready (mAddress (mLocalAddr (mSockets s ! k))) v s" and act: "mActive s"
    and path: "getShortestPath B (mNetworkNode (mSockets s ! p)) v s = Inr path"
  shows "\<exists>s'. accept B k c s = Inr (Succeed, s') \<and> connected_pair s' p c path
    \<and> mOpen (mSockets s' ! c) \<and> mBound (mSockets s' ! c)
    \<and> mAddress (mLocalAddr (mSockets s' ! c)) = mAddress (mLocalAddr (mSockets s ! k))
    \<and> \<not> hasSocket (mPort (mLocalAddr (mSockets s' ! c))) (mSockType (mSockets s ! c)) (mNodes s ! v)
    \<and> getSocket (mPort (mLocalAddr (mSockets s' ! c))) (mSockType (mSockets s ! c)) (mNodes s' ! v) = Inr c
    \<and> mConnectorQueue (mSockets s' ! k) = rest
    \<and> (mCurrentTime (mClock s), CONNECTION_COMPLETE p) \<in> set (mEvents s')"
proof -
  let ?self = "mSockets s ! k" and ?peer = "mSockets s ! p" and ?x = "mSockets s ! c"
  let ?ip = "mAddress (mLocalAddr ?self)"
  let ?s1 = "upd_sock k (\<lambda>x. x\<lparr>mConnectorQueue := rest\<rparr>) s"
  let ?y = "(setConnectState (Some p) (?x\<lparr>mRemoteAddr := mLocalAddr ?peer, mOpen := True,
      mBlocking := mBlocking ?self\<rparr>))\<lparr>mLocalAddr := (mLocalAddr ?self)\<lparr>mPort := 0\<rparr>\<rparr>"
  let ?s2 = "upd_sock c (\<lambda>x. (setConnectState (Some p) (x\<lparr>mRemoteAddr := mLocalAddr ?peer, mOpen := True,
      mBlocking := mBlocking ?self\<rparr>))\<lparr>mLocalAddr := (mLocalAddr ?self)\<lparr>mPort := 0\<rparr>\<rparr>) ?s1"
  let ?n = "mNodes s ! v" and ?t = "mSockType ?x"
  let ?port = "first_gap (node_map ?t ?n)"
  have c2: "c < length (mSockets ?s2)" and x2: "mSockets ?s2 ! c = ?y"
    using len by (simp_all add: upd_sock_def nth_list_update)
  have ready2: "node_ready ?ip v ?s2" using ready by (simp add: node_ready_def upd_sock_def)
  have y: "mOpen ?y" "\<not> mBound ?y" "mPort (mLocalAddr ?y) = 0" "mAddress (mLocalAddr ?y) = ?ip"
    "mSockType ?y = ?t"
    using fresh by (simp_all add: setConnectState_def)
  note bind = sock_bind_ok [OF c2 x2 y(1-4) ready2]
  have nodes2: "mNodes ?s2 = mNodes s" by (simp add: upd_sock_def)
  let ?s3 = "?s2\<lparr>mSockets := (mSockets ?s2)[c := ?y\<lparr>mLocalAddr := \<lparr>mPort = ?port, mAddress = ?ip\<rparr>,
      mNetworkNode := v, mBound := True\<rparr>],
    mNodes := (mNodes s)[v := set_node_map ?t (omap_put ?port c (node_map ?t ?n)) ?n],
    mNetworkNodes := (mNetworkNodes ?s2)(?ip \<mapsto> v)\<rparr>"
  define s3 where "s3 = ?s3"
  have s3: "sock_bind c ?s2 = Inr s3"
    using bind(1) unfolding y(5) nodes2 s3_def .
  have free: "\<not> hasSocket ?port ?t ?n" using bind(3) unfolding y(5) nodes2 .
  have path3: "getShortestPath B (mNetworkNode ?peer) v s3 = Inr path"
    using path by (subst getShortestPath_cong) (simp_all add: s3_def)
  have v: "v < length (mNodes s)" using ready by (simp add: node_ready_def)
  have s2: "mConnectorQueue ?self = p # rest" "sock k s = Inr ?self" "sock p s = Inr ?peer"
    using queue len by (simp_all add: sock_def)
  have peer3: "mSockets s3 ! p = (if p = k then ?peer\<lparr>mConnectorQueue := rest\<rparr> else ?peer)"
    "mSockets s3 ! c = ?y\<lparr>mLocalAddr := \<lparr>mPort = ?port, mAddress = ?ip\<rparr>, mNetworkNode := v, mBound := True\<rparr>"
    "length (mSockets s3) = length (mSockets s)" "mActive s3"
    "mConnectorQueue (mSockets s3 ! k) = rest" "mClock s3 = mClock s"
    "mNodes s3 ! v = set_node_map ?t (omap_put ?port c (node_map ?t ?n)) ?n"
    using len act v by (auto simp: s3_def upd_sock_def nth_list_update)
  have accept: "accept B k c s = rbind (findRoute B p c s3) (\<lambda>s4.
      rbind (completeConnection p c s4) (\<lambda>s5.
      let s6 = addConnectionCompletionEvent (mCurrentTime (mClock s5)) p s5 in
      rbind (sock p s6) (\<lambda>peer'. rbind (sock c s6) (\<lambda>client'.
      rbind (require (inet_equals (mRemoteAddr peer') (mLocalAddr client'))
        (AssertionFailed ''Connector doesn't know peer's IP address'')) (\<lambda>_. Inr (Succeed, s6))))))"
    unfolding accept_def s2(2,3) rbind_simps Let_def s2(1) list.case s3 ..
  have len3: "p < length (mSockets s3)" "c < length (mSockets s3)" using len peer3(3) by simp_all
  have y3: "mPeer (mSockets s3 ! c) = Some p" "mConnected (mSockets s3 ! c)"
    "mRemoteAddr (mSockets s3 ! c) = mLocalAddr (mSockets s3 ! p)" "mNetworkNode (mSockets s3 ! c) = v"
    "mOpen (mSockets s3 ! c)" "mBound (mSockets s3 ! c)"
    "mLocalAddr (mSockets s3 ! c) = \<lparr>mPort = ?port, mAddress = ?ip\<rparr>"
    by (simp_all add: peer3(1,2) setConnectState_def)
  have "mNetworkNode (mSockets s3 ! p) = mNetworkNode ?peer" by (simp add: peer3(1))
  then have path3': "getShortestPath B (mNetworkNode (mSockets s3 ! p)) v s3 = Inr path" using path3 by simp
  have own: "getSocket ?port ?t (mNodes s3 ! v) = Inr c"
    by (simp add: peer3(7) getSocket_def omap_put_lookup)
  show ?thesis
    unfolding accept
    using handshake_end [OF len3 len(5) peer3(4) y3(1-4) path3'] y3(5-7) free own peer3(5,6)
    by (elim exE conjE) (rule exI, intro conjI, assumption, simp_all)
qed

text \<open>Three nodes; socket 0 listens on the last one, socket 1, on the first, waits for it.\<close>

definition example_listening :: net where
  "example_listening = example_net\<lparr>
     mNodes := [example_node, example_node\<lparr>mIpAddr := 0x0A000002\<rparr>,
       example_node\<lparr>mIpAddr := 0x0A000003, mStreamSocketMap := [(1, 0)]\<rparr>],
     mSockets := [example_socket\<lparr>mBound := True, mConnectorQueue := [1], mNetworkNode := 2,
         mLocalAddr := \<lparr>mPort = 1, mAddress = 0x0A000003\<rparr>\<rparr>,
       example_socket\<lparr>mBound := True, mLocalAddr := \<lparr>mPort = 1, mAddress = 0x0A000001\<rparr>\<rparr>,
       socket_new STREAM False 0]\<rparr>"

theorem accept_connects_pair_witness:
  "\<exists>s'. accept example_graph 0 2 example_listening = Inr (Succeed, s')
    \<and> connected_pair s' 1 2 [0, 1, 2] \<and> mConnectorQueue (mSockets s' ! 0) = []"
proof -
  have ready: "node_ready (mAddress (mLocalAddr (mSockets example_listening ! 0))) 2 example_listening"
    by (auto simp: node_ready_def example_listening_def example_net_def example_node_def
        node_wf_def omap_wf_Cons node_map_def split: socket_type.split)
  have path: "getShortestPath example_graph (mNetworkNode (mSockets example_listening ! 1)) 2 example_listening
      = Inr [0, 1, 2]"
    by (simp add: getShortestPath_def example_listening_def example_net_def example_socket_def
        example_graph_def eval_nat_numeral Let_def)
  have rest: "0 < length (mSockets example_listening)" "1 < length (mSockets example_listening)"
    "2 < length (mSockets example_listening)" "(0 :: nat) \<noteq> 2" "(1 :: nat) \<noteq> 2"
    "mConnectorQueue (mSockets example_listening ! 0) = [1]"
    "\<not> mBound (mSockets example_listening ! 2)"
    by (simp_all add: example_listening_def socket_new_def)
  have "mActive example_listening" by (simp add: example_listening_def example_net_def)
  from accept_connects_pair [OF rest ready this path] show ?thesis by blast
qed

section \<open>The route\<close>

lemma pred_walk_tree:
  fixes depth :: "nat \<Rightarrow> nat"
  assumes "\<And>v. v < N \<Longrightarrow> pred v \<noteq> v \<Longrightarrow> depth (pred v) < depth v \<and> pred v < N \<and> E (pred v) v"
    and "depth v < fuel" and "v < N"
  shows "\<exists>p. pred_walk fuel pred v = Some (v # p) \<and> pred (last (v # p)) = last (v # p)
    \<and> last (v # p) < N \<and> successively (\<lambda>x y. E y x) (v # p)"
  using assms(2,3)
proof (induction fuel arbitrary: v)
  case (Suc fuel)
  show ?case
  proof (cases "pred v = v")
    case True
    then show ?thesis using Suc.prems by simp
  next
    case False
    then obtain p where "pred_walk fuel pred (pred v) = Some (pred v # p)"
      "pred (last (pred v # p)) = last (pred v # p)" "last (pred v # p) < N"
      "successively (\<lambda>x y. E y x) (pred v # p)"
      using Suc.IH [of "pred v"] assms(1) [of v] Suc.prems by fastforce
    then show ?thesis using False assms(1) [of v] Suc.prems by simp
  qed
qed simp

lemma path_ok_successively:
  "p \<noteq> [] \<Longrightarrow> successively (\<lambda>u v. case bg_edge B u v of None \<Rightarrow> False | Some e \<Rightarrow> fst e < n) p
    \<Longrightarrow> path_ok B n p"
  by (induction B n p rule: path_ok.induct) auto

text \<open>
  The route between two nodes.  When the predecessors Boost computes form a tree
  rooted at the source (each step goes one way along an edge of the graph and strictly
  closer to the root), the walk back from the destination ends, and the path returned runs
  from the source to the destination along edges; reversed, it runs back when the graph is
  undirected.
\<close>

theorem getShortestPath_route:
  fixes depth :: "nat \<Rightarrow> nat"
  assumes "bg_degree B src > 0" and "bg_degree B dest > 0" and "dest < length (mNodes s)"
    and "\<forall>v < length (mNodes s). bg_pred B src v = v \<longrightarrow> v = src"
    and "\<forall>v < length (mNodes s). bg_pred B src v \<noteq> v \<longrightarrow>
      depth (bg_pred B src v) < depth v \<and> bg_pred B src v < length (mNodes s)
      \<and> (\<exists>e < n. \<exists>w. bg_edge B (bg_pred B src v) v = Some (e, w))"
    and "\<forall>u v e w. bg_edge B u v = Some (e, w) \<longrightarrow> (\<exists>w'. bg_edge B v u = Some (e, w'))"
    and "depth dest < length (mNodes s)"
  shows "\<exists>path. getShortestPath B src dest s = Inr path \<and> hd path = src \<and> last path = dest
    \<and> path_ok B n path \<and> path_ok B n (reversePath path)"
proof -
  let ?N = "length (mNodes s)"
  let ?E = "\<lambda>u v. case bg_edge B u v of None \<Rightarrow> False | Some e \<Rightarrow> fst e < n"
  have step: "depth (bg_pred B src v) < depth v \<and> bg_pred B src v < ?N \<and> ?E (bg_pred B src v) v"
    if "v < ?N" "bg_pred B src v \<noteq> v" for v
    using assms(5) that by force
  obtain p where p: "pred_walk ?N (bg_pred B src) dest = Some (dest # p)"
    "bg_pred B src (last (dest # p)) = last (dest # p)" "last (dest # p) < ?N"
    "successively (\<lambda>x y. ?E y x) (dest # p)"
    using pred_walk_tree [of ?N "bg_pred B src" depth ?E dest, OF step assms(7,3)] by blast
  have root: "last (dest # p) = src" using p(2,3) assms(4) by blast
  have sym: "?E u v \<Longrightarrow> ?E v u" for u v
    using assms(6) by (fastforce split: option.splits)
  have "successively ?E (rev (dest # p))"
    using p(4) by (simp only: successively_rev)
  then have forth: "path_ok B n (rev (dest # p))" by (intro path_ok_successively) simp_all
  have "successively ?E (dest # p)"
    using p(4) by (rule successively_mono) (use sym in blast)
  then have reversed: "path_ok B n (dest # p)" by (intro path_ok_successively) simp_all
  have "getShortestPath B src dest s = Inr (rev (dest # p))"
    using assms(1,2) p(1) root by (simp add: getShortestPath_def)
  moreover have "hd (rev (dest # p)) = src" using root by (simp only: hd_rev)
  ultimately show ?thesis using forth reversed by auto
qed

theorem getShortestPath_route_witness:
  "\<exists>path. getShortestPath example_graph 0 2 example_listening = Inr path \<and> hd path = 0 \<and> last path = 2
    \<and> path_ok example_graph 2 path \<and> path_ok example_graph 2 (reversePath path)"
  by (rule getShortestPath_route [where depth = "\<lambda>v. v"])
     (auto simp: example_graph_def example_listening_def doubleton_eq_iff less_Suc_eq eval_nat_numeral
       split: if_splits)

end
