(* ===== verification/Guid.thy ===== *)
theory Guid
  imports BufferSerial StdString
begin

text \<open>
  Globally unique identifiers (\<^verbatim>\<open>vpr/Util/GUID.h\<close>, \<^verbatim>\<open>GUID.cpp\<close>): the union's
  \<^verbatim>\<open>StdGUID\<close> view is the record; its \<^verbatim>\<open>packed\<close> view, the four words in the host's byte
  order that the comparisons use, is computed from it; the \<^verbatim>\<open>moz\<close> view differs only in
  that \<^verbatim>\<open>m3[0]\<close>, \<^verbatim>\<open>m3[1]\<close> are \<open>g_m3\<close>, \<open>g_m4\<close> and the other six bytes \<open>g_m5\<close>.  The text
  form goes through \<^verbatim>\<open>snprintf\<close> and \<^verbatim>\<open>sscanf\<close>, whose \<^verbatim>\<open>%0nX\<close> and \<^verbatim>\<open>%0nx\<close> are
  \<open>print_hex\<close> and \<open>scan_hex\<close>.
\<close>

record guid =
  g_m0 :: u32
  g_m1 :: u16
  g_m2 :: u16
  g_m3 :: u8
  g_m4 :: u8
  g_m5 :: "u8 list"

text \<open>The array \<^verbatim>\<open>m5\<close> has six elements.\<close>

definition guid_ok :: "guid \<Rightarrow> bool" where
  "guid_ok g \<longleftrightarrow> length (g_m5 g) = 6"

definition NullGUID :: guid where
  "NullGUID = \<lparr>g_m0 = 0, g_m1 = 0, g_m2 = 0, g_m3 = 0, g_m4 = 0, g_m5 = [0, 0, 0, 0, 0, 0]\<rparr>"

lemma guid_ok_Null [simp]: "guid_ok NullGUID"
  by (simp add: guid_ok_def NullGUID_def)

section \<open>Comparison\<close>

definition packed :: "bool \<Rightarrow> guid \<Rightarrow> u32 list" where
  "packed le g =
     [g_m0 g,
      host_word le (host_bytes le 2 (g_m1 g) @ host_bytes le 2 (g_m2 g)),
      host_word le [g_m3 g, g_m4 g, g_m5 g ! 0, g_m5 g ! 1],
      host_word le [g_m5 g ! 2, g_m5 g ! 3, g_m5 g ! 4, g_m5 g ! 5]]"

definition guid_equal :: "bool \<Rightarrow> guid \<Rightarrow> guid \<Rightarrow> bool" where
  "guid_equal le g h \<longleftrightarrow>
     packed le g ! 0 = packed le h ! 0 \<and> packed le g ! 1 = packed le h ! 1
     \<and> packed le g ! 2 = packed le h ! 2 \<and> packed le g ! 3 = packed le h ! 3"

definition guid_less :: "bool \<Rightarrow> guid \<Rightarrow> guid \<Rightarrow> bool" where
  "guid_less le g r =
     (let p = packed le g; q = packed le r in
      if p ! 0 < q ! 0 then True
      else if p ! 0 = q ! 0 then
        if p ! 1 < q ! 1 then True
        else if p ! 1 = q ! 1 then
          if p ! 2 < q ! 2 then True
          else if p ! 2 = q ! 2 then
            if p ! 3 < q ! 3 then True else False
          else False
        else False
      else False)"

definition guid_hash :: "bool \<Rightarrow> guid \<Rightarrow> u32" where
  "guid_hash le g = packed le g ! 0 + packed le g ! 1 + packed le g ! 2 + packed le g ! 3"

lemma host_word_4_inject:
  assumes "length as = 4" and "length bs = 4"
  shows "(host_word le as :: u32) = host_word le bs \<longleftrightarrow> as = bs"
proof
  assume "(host_word le as :: u32) = host_word le bs"
  then have "host_bytes le 4 (host_word le as :: u32) = host_bytes le 4 (host_word le bs :: u32)"
    by (rule arg_cong)
  then show "as = bs"
    using assms by (simp add: host_bytes_host_word)
qed (rule arg_cong)

lemma host_bytes_2_inject: "host_bytes le 2 (v :: u16) = host_bytes le 2 w \<longleftrightarrow> v = w"
proof
  assume "host_bytes le 2 v = host_bytes le 2 w"
  then have "(host_word le (host_bytes le 2 v) :: u16) = host_word le (host_bytes le 2 w)"
    by (rule arg_cong)
  then show "v = w" by (simp add: host_word_host_bytes)
qed (rule arg_cong)

lemma list_6_eq:
  assumes "length xs = 6" and "length ys = 6"
    and "xs ! 0 = ys ! 0" and "xs ! 1 = ys ! 1" and "xs ! 2 = ys ! 2"
    and "xs ! 3 = ys ! 3" and "xs ! 4 = ys ! 4" and "xs ! 5 = ys ! 5"
  shows "xs = ys"
proof (rule nth_equalityI)
  show "xs ! i = ys ! i" if "i < length xs" for i
  proof -
    have "i \<in> {0, 1, 2, 3, 4, 5}" using that assms(1) by auto
    then show ?thesis using assms by auto
  qed
qed (use assms in simp)

lemma guid_equal_iff:
  assumes "guid_ok g" and "guid_ok h"
  shows "guid_equal le g h \<longleftrightarrow> g = h"
proof
  assume "guid_equal le g h"
  then have "g_m0 g = g_m0 h" "g_m1 g = g_m1 h" "g_m2 g = g_m2 h" "g_m3 g = g_m3 h"
      "g_m4 g = g_m4 h" and "g_m5 g = g_m5 h"
    using assms
    by (auto simp: guid_equal_def packed_def host_word_4_inject host_bytes_2_inject guid_ok_def
        intro: list_6_eq)
  then show "g = h" by simp
qed (simp add: guid_equal_def)

lemma guid_less_cases:
  "guid_less le g r \<longleftrightarrow>
     (let p = packed le g; q = packed le r in
      p ! 0 < q ! 0 \<or> p ! 0 = q ! 0 \<and> (p ! 1 < q ! 1 \<or> p ! 1 = q ! 1 \<and>
        (p ! 2 < q ! 2 \<or> p ! 2 = q ! 2 \<and> p ! 3 < q ! 3)))"
  unfolding guid_less_def Let_def by (simp split: if_splits)

lemma guid_less_irrefl: "\<not> guid_less le g g"
  by (simp add: guid_less_def)

lemma lex_step_trans:
  fixes a b c :: "'a::linorder"
  assumes "a < b \<or> a = b \<and> P" and "b < c \<or> b = c \<and> Q" and "P \<Longrightarrow> Q \<Longrightarrow> R"
  shows "a < c \<or> a = c \<and> R"
  using assms by auto

lemma guid_less_trans: "guid_less le f g \<Longrightarrow> guid_less le g h \<Longrightarrow> guid_less le f h"
  unfolding guid_less_cases Let_def
  by (erule lex_step_trans, assumption, erule lex_step_trans, assumption,
      erule lex_step_trans, assumption, rule order.strict_trans)

lemma guid_less_total: "guid_less le g h \<or> guid_equal le g h \<or> guid_less le h g"
  unfolding guid_less_cases guid_equal_def Let_def by (metis linorder_less_linear)
section \<open>Serialization\<close>

definition guid_writeObject :: "bool \<Rightarrow> guid \<Rightarrow> writer \<Rightarrow> writer" where
  "guid_writeObject le g w =
     (let w = writeUint32 le (g_m0 g) w;
          w = writeUint16 le (g_m1 g) w;
          w = writeUint16 le (g_m2 g) w;
          w = writeUint8 (g_m3 g) w;
          w = writeUint8 (g_m4 g) w;
          w = writeUint8 (g_m5 g ! 0) w;
          w = writeUint8 (g_m5 g ! 1) w;
          w = writeUint8 (g_m5 g ! 2) w;
          w = writeUint8 (g_m5 g ! 3) w;
          w = writeUint8 (g_m5 g ! 4) w
      in writeUint8 (g_m5 g ! 5) w)"

definition guid_readObject :: "bool \<Rightarrow> reader \<Rightarrow> (guid \<times> reader) result" where
  "guid_readObject le r =
     rbind (readUint32 le r) (\<lambda>(a0, r).
     rbind (readUint16 le r) (\<lambda>(a1, r).
     rbind (readUint16 le r) (\<lambda>(a2, r).
     rbind (readUint8 r) (\<lambda>(a3, r).
     rbind (readUint8 r) (\<lambda>(a4, r).
     rbind (readUint8 r) (\<lambda>(b0, r).
     rbind (readUint8 r) (\<lambda>(b1, r).
     rbind (readUint8 r) (\<lambda>(b2, r).
     rbind (readUint8 r) (\<lambda>(b3, r).
     rbind (readUint8 r) (\<lambda>(b4, r).
     rbind (readUint8 r) (\<lambda>(b5, r).
     Inr (\<lparr>g_m0 = a0, g_m1 = a1, g_m2 = a2, g_m3 = a3, g_m4 = a4,
           g_m5 = [b0, b1, b2, b3, b4, b5]\<rparr>, r))))))))))))"

definition guid_bytes :: "guid \<Rightarrow> u8 list" where
  "guid_bytes g = net_bytes 4 (g_m0 g) @ net_bytes 2 (g_m1 g) @ net_bytes 2 (g_m2 g)
     @ [g_m3 g, g_m4 g] @ g_m5 g"

lemma guid_ok_list:
  assumes "guid_ok g"
  obtains b0 b1 b2 b3 b4 b5 where "g_m5 g = [b0, b1, b2, b3, b4, b5]"
proof -
  have "length (g_m5 g) = Suc (Suc (Suc (Suc (Suc (Suc 0)))))" using assms by (simp add: guid_ok_def)
  then show thesis using that by (auto simp: length_Suc_conv)
qed

lemma length_guid_bytes [simp]: "guid_ok g \<Longrightarrow> length (guid_bytes g) = 16"
  by (simp add: guid_bytes_def guid_ok_def)

lemma guid_write_emits: "guid_ok g \<Longrightarrow> guid_writeObject le g w = emit (guid_bytes g) w"
  by (elim guid_ok_list)
     (simp add: guid_writeObject_def guid_bytes_def write_word_emit emit_emit)

lemma remains_drop:
  assumes "remains r bs" and "i \<le> length bs"
  shows "remains (advance i r) (drop i bs)"
  using remains_advance [of r "take i bs" "drop i bs"] assms by (simp add: min_absorb2)

lemma readUint8_at:
  assumes "remains r bs" and "i < length bs"
  shows "readUint8 (advance i r) = Inr (bs ! i, advance (Suc i) r)"
  using read_word_remains(1) [of "advance i r" "bs ! i" "drop (Suc i) bs"] remains_drop [OF assms(1), of i]
    assms(2) by (simp add: Cons_nth_drop_Suc advance_advance)

lemma remains_step:
  "remains r (net_bytes 4 (v32 :: u32) @ bs) \<Longrightarrow> remains (advance 4 r) bs"
  "remains r (net_bytes 2 (v16 :: u16) @ bs) \<Longrightarrow> remains (advance 2 r) bs"
  using remains_advance [of r "net_bytes 4 v32" bs] remains_advance [of r "net_bytes 2 v16" bs]
  by simp_all

lemma guid_read_returns:
  assumes "guid_ok g" and r: "remains r (guid_bytes g @ bs)"
  shows "guid_readObject le r = Inr (g, advance (length (guid_bytes g)) r)"
proof -
  obtain b0 b1 b2 b3 b4 b5 where m5: "g_m5 g = [b0, b1, b2, b3, b4, b5]"
    using assms(1) by (rule guid_ok_list)
  let ?as = "guid_bytes g @ bs"
  have len: "16 \<le> length ?as" using assms(1) by simp
  have w0: "readUint32 le r = Inr (g_m0 g, advance 4 r)"
    using r read_word_remains(3) [of r "g_m0 g"] by (simp add: guid_bytes_def)
  have "remains (advance 4 r) (net_bytes 2 (g_m1 g) @ drop 6 ?as)"
    using remains_drop [OF r, of 4] len by (simp add: guid_bytes_def)
  note w1 = read_word_remains(2) [OF this, of le]
  have "remains (advance 6 r) (net_bytes 2 (g_m2 g) @ drop 8 ?as)"
    using remains_drop [OF r, of 6] len by (simp add: guid_bytes_def)
  note w2 = read_word_remains(2) [OF this, of le]
  note at = readUint8_at [OF r]
  have nth: "?as ! 8 = g_m3 g" "?as ! 9 = g_m4 g" "?as ! 10 = b0" "?as ! 11 = b1" "?as ! 12 = b2"
      "?as ! 13 = b3" "?as ! 14 = b4" "?as ! 15 = b5"
    by (simp_all add: guid_bytes_def nth_append m5)
  show ?thesis
    using w0 w1 w2 at [of 8] at [of 9] at [of 10] at [of 11] at [of 12] at [of 13] at [of 14] at [of 15] len
    by (simp add: guid_readObject_def advance_advance nth m5 [symmetric] length_guid_bytes [OF assms(1)])
qed

interpretation guid: serial_codec "\<lambda>g w. Inr (guid_writeObject le_w g w)" "guid_readObject le_r" guid_bytes guid_ok
  for le_w le_r
  by unfold_locales (simp_all add: guid_write_emits guid_read_returns)

section \<open>Text\<close>

definition guid_toString :: "guid \<Rightarrow> string" where
  "guid_toString g =
     print_hex 8 (unat (g_m0 g)) @ ''-'' @ print_hex 4 (unat (g_m1 g)) @ ''-''
     @ print_hex 4 (unat (g_m2 g)) @ ''-''
     @ print_hex 2 (unat (g_m3 g)) @ print_hex 2 (unat (g_m4 g)) @ ''-''
     @ print_hex 2 (unat (g_m5 g ! 0)) @ print_hex 2 (unat (g_m5 g ! 1)) @ print_hex 2 (unat (g_m5 g ! 2))
     @ print_hex 2 (unat (g_m5 g ! 3)) @ print_hex 2 (unat (g_m5 g ! 4)) @ print_hex 2 (unat (g_m5 g ! 5))"

text \<open>
  One conversion or literal of the format after the other; \<^verbatim>\<open>sscanf\<close> stops at the first
  that fails, and then \<^verbatim>\<open>fromString\<close> copies variables that were never assigned.
\<close>

definition scan_fail :: failure where
  "scan_fail = Undefined ''uninitialized bytes of a GUID''"

definition scan_num :: "nat \<Rightarrow> string \<Rightarrow> (int \<times> string) result" where
  "scan_num width s = (case scan_hex width s of None \<Rightarrow> Inl scan_fail | Some x \<Rightarrow> Inr x)"

definition scan_dash :: "string \<Rightarrow> string result" where
  "scan_dash s = (if s \<noteq> [] \<and> hd s = CHR ''-'' then Inr (tl s) else Inl scan_fail)"

definition guid_fromString :: "string \<Rightarrow> guid result" where
  "guid_fromString s =
     rbind (scan_num 8 s) (\<lambda>(a0, s). rbind (scan_dash s) (\<lambda>s.
     rbind (scan_num 4 s) (\<lambda>(a1, s). rbind (scan_dash s) (\<lambda>s.
     rbind (scan_num 4 s) (\<lambda>(a2, s). rbind (scan_dash s) (\<lambda>s.
     rbind (scan_num 2 s) (\<lambda>(b0, s). rbind (scan_num 2 s) (\<lambda>(b1, s). rbind (scan_dash s) (\<lambda>s.
     rbind (scan_num 2 s) (\<lambda>(b2, s). rbind (scan_num 2 s) (\<lambda>(b3, s). rbind (scan_num 2 s) (\<lambda>(b4, s).
     rbind (scan_num 2 s) (\<lambda>(b5, s). rbind (scan_num 2 s) (\<lambda>(b6, s). rbind (scan_num 2 s) (\<lambda>(b7, s).
     Inr \<lparr>g_m0 = of_int a0, g_m1 = of_int a1, g_m2 = of_int a2, g_m3 = of_int b0, g_m4 = of_int b1,
          g_m5 = [of_int b2, of_int b3, of_int b4, of_int b5, of_int b6, of_int b7]\<rparr>)))))))))))))))"

lemma scan_num_print:
  "scan_num 8 (print_hex 8 (unat (v32 :: u32)) @ s) = Inr (uint v32, s)"
  "scan_num 4 (print_hex 4 (unat (v16 :: u16)) @ s) = Inr (uint v16, s)"
  "scan_num 2 (print_hex 2 (unat (v8 :: u8)) @ s) = Inr (uint v8, s)"
proof -
  have "unat v32 < 16 ^ 8" by (rule order.strict_trans2 [OF unsigned_less]) simp
  then show "scan_num 8 (print_hex 8 (unat v32) @ s) = Inr (uint v32, s)"
    by (simp add: scan_num_def scan_print_hex)
  have "unat v16 < 16 ^ 4" by (rule order.strict_trans2 [OF unsigned_less]) simp
  then show "scan_num 4 (print_hex 4 (unat v16) @ s) = Inr (uint v16, s)"
    by (simp add: scan_num_def scan_print_hex)
  have "unat v8 < 16 ^ 2" by (rule order.strict_trans2 [OF unsigned_less]) simp
  then show "scan_num 2 (print_hex 2 (unat v8) @ s) = Inr (uint v8, s)"
    by (simp add: scan_num_def scan_print_hex)
qed

lemma hex_digits_step:
  "hex_digits (numeral k) a (c # s) =
     (case hex_value c of None \<Rightarrow> (a, 0, c # s)
      | Some d \<Rightarrow> (let (v, k, r) = hex_digits (pred_numeral k) (16 * a + d) s in (v, Suc k, r)))"
  by (simp add: numeral_eq_Suc)

lemma scan_num_plain:
  "\<not> is_space c \<Longrightarrow> c \<noteq> CHR ''+'' \<Longrightarrow> c \<noteq> CHR ''-'' \<Longrightarrow> b \<noteq> CHR ''x'' \<Longrightarrow> b \<noteq> CHR ''X'' \<Longrightarrow>
   scan_num n (c # b # s) =
     (let (v, k, r) = hex_digits n 0 (c # b # s) in if k = 0 then Inl scan_fail else Inr (int v, r))"
  by (auto simp: scan_num_def scan_hex_def Let_def case_prod_beta)

lemma scan_dash_dash [simp]: "scan_dash (CHR ''-'' # s) = Inr s"
  by (simp add: scan_dash_def)

text \<open>
  The text form of a GUID: it fills 36 characters, which with the terminating zero is
  the 37 of \<^verbatim>\<open>toString\<close>'s buffer, and \<^verbatim>\<open>fromString\<close> reads it back as the same GUID.
\<close>

theorem guid_string_roundtrip:
  assumes "guid_ok g"
  shows "length (guid_toString g) = 36 \<and> guid_fromString (guid_toString g) = Inr g"
proof -
  obtain b0 b1 b2 b3 b4 b5 where m5: "g_m5 g = [b0, b1, b2, b3, b4, b5]"
    using assms by (rule guid_ok_list)
  have "guid_fromString (guid_toString g) = Inr g"
    unfolding guid_fromString_def guid_toString_def
    using scan_num_print(3) [of b5 "[]"]
    by (simp del: print_hex.simps add: scan_num_print m5)
  then show ?thesis by (simp add: guid_toString_def del: print_hex.simps)
qed

text \<open>A GUID whose bytes show the leading zeros.\<close>

theorem guid_string_roundtrip_witness:
  "guid_fromString ''00000102-0A0B-000C-0D0E-000000000010''
     = Inr \<lparr>g_m0 = 0x102, g_m1 = 0xA0B, g_m2 = 0xC, g_m3 = 0xD, g_m4 = 0xE,
            g_m5 = [0, 0, 0, 0, 0, 0x10]\<rparr>"
proof -
  let ?g = "\<lparr>g_m0 = 0x102, g_m1 = 0xA0B, g_m2 = 0xC, g_m3 = 0xD, g_m4 = 0xE,
      g_m5 = [0, 0, 0, 0, 0, 0x10]\<rparr> :: guid"
  have "guid_toString ?g = ''00000102-0A0B-000C-0D0E-000000000010''" by code_simp
  then show ?thesis using guid_string_roundtrip [of ?g] by (simp add: guid_ok_def)
qed

text \<open>
  The order of GUIDs meets what an ordered container asks of its comparison: on a host
  of either byte order it is irreflexive and transitive, and two GUIDs neither of which
  comes first are the same GUID.
\<close>

theorem guid_order_strict:
  assumes "guid_ok f" and "guid_ok g" and "guid_ok h"
  shows "\<not> guid_less le f f
    \<and> (guid_less le f g \<longrightarrow> guid_less le g h \<longrightarrow> guid_less le f h)
    \<and> (guid_less le f g \<or> f = g \<or> guid_less le g f)
    \<and> (guid_equal le f g \<longleftrightarrow> f = g)"
  using guid_less_irrefl guid_less_trans [of le f g h] guid_less_total [of le f g]
    guid_equal_iff [OF assms(1,2), of le] by blast

theorem guid_order_strict_witness:
  "\<not> guid_less True NullGUID NullGUID \<and> (guid_equal False NullGUID NullGUID \<longleftrightarrow> True)"
  using guid_order_strict [of NullGUID NullGUID NullGUID True]
    guid_order_strict [of NullGUID NullGUID NullGUID False] by simp

end
