(* ===== verification/ClusterPacket.thy ===== *)
theory ClusterPacket
  imports Guid
begin

text \<open>
  The packets cluster nodes exchange (\<^verbatim>\<open>gadgeteer/cluster/Packets/\<close>): a header of twelve
  bytes and a body.  The subclasses of \<^verbatim>\<open>Packet\<close> are the constructors of
  \<open>packet_body\<close>; their virtual \<^verbatim>\<open>parse\<close> is the case distinction \<open>parse_packet\<close>.  The
  buffer \<^verbatim>\<open>mData\<close> is shared by the packet's reader and writer, so a packet keeps the bytes
  once and the two positions.  Members a default constructor leaves indeterminate are 0
  until \<^verbatim>\<open>parse\<close> sets them.

  As before, \<open>le\<close> is the byte order of the host that runs the operation.
\<close>

section \<open>The header\<close>

definition RIM_PACKET :: u16 where "RIM_PACKET = 400"
definition RIM_DATA_PACKET :: u16 where "RIM_DATA_PACKET = 401"
definition RIM_DEVICE_ACK :: u16 where "RIM_DEVICE_ACK = 403"
definition RIM_END_BLOCK :: u16 where "RIM_END_BLOCK = 410"
definition CONFIG_PACKET :: u16 where "CONFIG_PACKET = 412"
definition RIM_PACKET_HEAD_SIZE :: nat where "RIM_PACKET_HEAD_SIZE = 12"

lemmas rim_defs = RIM_PACKET_def RIM_DATA_PACKET_def RIM_DEVICE_ACK_def RIM_END_BLOCK_def
  CONFIG_PACKET_def RIM_PACKET_HEAD_SIZE_def

record header =
  mRIMCode :: u16
  mPacketType :: u16
  mPacketLength :: u32
  mFrame :: u32

definition header_new :: "u16 \<Rightarrow> u16 \<Rightarrow> u32 \<Rightarrow> u32 \<Rightarrow> header" where
  "header_new code type len frame =
     \<lparr>mRIMCode = code, mPacketType = type, mPacketLength = len, mFrame = frame\<rparr>"

definition prependSerializedHeader :: "bool \<Rightarrow> header \<Rightarrow> writer \<Rightarrow> header \<times> writer" where
  "prependSerializedHeader le h packetWriter =
     (let h = h\<lparr>mPacketLength := of_nat (length (wData packetWriter) + RIM_PACKET_HEAD_SIZE)\<rparr>;
          w = writer_on [] 0;
          w = writeUint16 le (mRIMCode h) w;
          w = writeUint16 le (mPacketType h) w;
          w = writeUint32 le (mFrame h) w;
          w = writeUint32 le (mPacketLength h) w
      in (h, packetWriter\<lparr>wData := wData w @ wData packetWriter, wHeadPos := mPacketLength h\<rparr>))"

definition parseHeader :: "bool \<Rightarrow> u8 list \<Rightarrow> header result" where
  "parseHeader le headerData =
     rbind (readUint16 le (reader_on headerData 0)) (\<lambda>(code, r).
     rbind (readUint16 le r) (\<lambda>(type, r).
     rbind (readUint32 le r) (\<lambda>(frame, r).
     rbind (readUint32 le r) (\<lambda>(len, r).
     if RIM_PACKET \<noteq> code
     then Inl (ClusterError ''Header::parseHeader() - Invalid packet header!'')
     else Inr (header_new code type len frame)))))"

section \<open>Packets\<close>

datatype packet_body =
    ConfigPacket string u16
  | DataPacket guid
  | DeviceAck guid string string string bool
  | EndBlock u16

record packet =
  mHeader :: "header option"
  mData :: "u8 list"
  mReaderPos :: u32
  mWriterPos :: u32
  mPluginId :: guid
  mBody :: packet_body

definition packet_new :: "guid \<Rightarrow> packet_body \<Rightarrow> packet" where
  "packet_new pluginId body =
     \<lparr>mHeader = None, mData = [], mReaderPos = 0, mWriterPos = 0, mPluginId = pluginId, mBody = body\<rparr>"

definition packet_reader :: "packet \<Rightarrow> reader" where
  "packet_reader p = reader_on (mData p) (mReaderPos p)"

text \<open>
  What every \<^verbatim>\<open>serialize\<close> does around the writes of its kind of packet.  The members a
  subclass adds, which its \<^verbatim>\<open>serialize\<close> writes, are arguments of the model's.
\<close>

definition serialize_with :: "bool \<Rightarrow> (writer \<Rightarrow> writer result) \<Rightarrow> packet \<Rightarrow> packet result" where
  "serialize_with le write_body p =
     rbind (write_body (writer_on [] 0)) (\<lambda>w.
     case mHeader p of
       None \<Rightarrow> Inl (Undefined ''null header'')
     | Some h \<Rightarrow>
         (let (h', w') = prependSerializedHeader le h w
          in Inr (p\<lparr>mHeader := Some h', mData := wData w', mWriterPos := wHeadPos w'\<rparr>)))"

subsection \<open>Configuration\<close>

definition config_guid :: "guid result" where
  "config_guid = guid_fromString ''f3ea94e2-82fc-43f6-a57f-474d3fd1d6eb''"

definition config_default :: "packet result" where
  "config_default = rbind config_guid (\<lambda>g. Inr (packet_new g (ConfigPacket [] 0)))"

definition config_serialize :: "bool \<Rightarrow> string \<Rightarrow> u16 \<Rightarrow> packet \<Rightarrow> packet result" where
  "config_serialize le config type =
     serialize_with le (\<lambda>w. rbind (writeString le config w) (\<lambda>w. Inr (writeUint16 le type w)))"

definition config_new :: "bool \<Rightarrow> string \<Rightarrow> u16 \<Rightarrow> packet result" where
  "config_new le config type =
     rbind config_guid (\<lambda>g.
     let h = header_new RIM_PACKET CONFIG_PACKET
               (of_nat (RIM_PACKET_HEAD_SIZE + unat STRING_LENGTH_SIZE + length config + 2)) 0
     in config_serialize le config type ((packet_new g (ConfigPacket config type))\<lparr>mHeader := Some h\<rparr>))"

definition config_parse :: "bool \<Rightarrow> packet \<Rightarrow> packet result" where
  "config_parse le p =
     rbind (readString le (setCurPos 0 (packet_reader p))) (\<lambda>(config, r).
     rbind (readUint16 le r) (\<lambda>(type, r).
     Inr (p\<lparr>mReaderPos := rHeadPos r, mBody := ConfigPacket config type\<rparr>)))"

subsection \<open>Device data\<close>

text \<open>The object's \<^verbatim>\<open>writeObject\<close> is an argument.\<close>

definition data_default :: packet where
  "data_default = packet_new NullGUID (DataPacket NullGUID)"

definition data_new :: "guid \<Rightarrow> guid \<Rightarrow> packet" where
  "data_new pluginId objectId =
     (packet_new pluginId (DataPacket objectId))\<lparr>mHeader :=
        Some (header_new RIM_PACKET RIM_DATA_PACKET (of_nat (RIM_PACKET_HEAD_SIZE + 16 + 16 + 0)) 0)\<rparr>"

definition data_serialize :: "bool \<Rightarrow> guid \<Rightarrow> (writer \<Rightarrow> writer result) \<Rightarrow> packet \<Rightarrow> packet result" where
  "data_serialize le objectId writeObject p =
     serialize_with le (\<lambda>w. writeObject (guid_writeObject le objectId (guid_writeObject le (mPluginId p) w))) p"

definition data_parse :: "bool \<Rightarrow> packet \<Rightarrow> packet result" where
  "data_parse le p =
     rbind (guid_readObject le (setCurPos 0 (packet_reader p))) (\<lambda>(pluginId, r).
     rbind (guid_readObject le r) (\<lambda>(objectId, r).
     Inr (p\<lparr>mReaderPos := rHeadPos r, mPluginId := pluginId, mBody := DataPacket objectId\<rparr>)))"

subsection \<open>Device acknowledgement\<close>

definition ack_default :: packet where
  "ack_default = packet_new NullGUID (DeviceAck NullGUID [] [] [] False)"

definition ack_serialize :: "bool \<Rightarrow> guid \<Rightarrow> string \<Rightarrow> string \<Rightarrow> string \<Rightarrow> bool \<Rightarrow> packet \<Rightarrow> packet result" where
  "ack_serialize le ident name base hostname ack p =
     serialize_with le (\<lambda>w.
       rbind (writeString le name (guid_writeObject le ident (guid_writeObject le (mPluginId p) w))) (\<lambda>w.
       rbind (writeString le base w) (\<lambda>w.
       rbind (writeString le hostname w) (\<lambda>w. Inr (writeBool ack w))))) p"

text \<open>\<open>localhost\<close> is the name \<^verbatim>\<open>InetAddr::getLocalHost().getHostname()\<close> returns.\<close>

definition ack_new :: "bool \<Rightarrow> string \<Rightarrow> guid \<Rightarrow> guid \<Rightarrow> string \<Rightarrow> string \<Rightarrow> bool \<Rightarrow> packet result" where
  "ack_new le localhost pluginId ident name base ack =
     (let h = header_new RIM_PACKET RIM_DEVICE_ACK
                (of_nat (RIM_PACKET_HEAD_SIZE + 16 + 16
                   + unat STRING_LENGTH_SIZE + length name
                   + unat STRING_LENGTH_SIZE + length base
                   + unat STRING_LENGTH_SIZE + length localhost + 1)) 0
      in ack_serialize le ident name base localhost ack
           ((packet_new pluginId (DeviceAck ident name base localhost ack))\<lparr>mHeader := Some h\<rparr>))"

definition ack_parse :: "bool \<Rightarrow> packet \<Rightarrow> packet result" where
  "ack_parse le p =
     rbind (guid_readObject le (setCurPos 0 (packet_reader p))) (\<lambda>(pluginId, r).
     rbind (guid_readObject le r) (\<lambda>(ident, r).
     rbind (readString le r) (\<lambda>(name, r).
     rbind (readString le r) (\<lambda>(base, r).
     rbind (readString le r) (\<lambda>(hostname, r).
     rbind (readBool r) (\<lambda>(ack, r).
     Inr (p\<lparr>mReaderPos := rHeadPos r, mPluginId := pluginId,
            mBody := DeviceAck ident name base hostname ack\<rparr>)))))))"

subsection \<open>End of a block\<close>

text \<open>The frame number is kept in a 16-bit member; the header has all 32 bits of it.\<close>

definition end_default :: packet where
  "end_default = packet_new NullGUID (EndBlock 0)"

definition end_serialize :: "bool \<Rightarrow> u16 \<Rightarrow> packet \<Rightarrow> packet result" where
  "end_serialize le tempVar = serialize_with le (\<lambda>w. Inr (writeUint16 le tempVar w))"

definition end_new :: "bool \<Rightarrow> u32 \<Rightarrow> packet result" where
  "end_new le frameNum =
     end_serialize le (ucast frameNum)
       ((packet_new NullGUID (EndBlock (ucast frameNum)))\<lparr>mHeader :=
          Some (header_new RIM_PACKET RIM_END_BLOCK (of_nat (RIM_PACKET_HEAD_SIZE + 2)) frameNum)\<rparr>)"

definition end_parse :: "bool \<Rightarrow> packet \<Rightarrow> packet result" where
  "end_parse le p =
     rbind (readUint16 le (setCurPos 0 (packet_reader p))) (\<lambda>(tempVar, r).
     Inr (p\<lparr>mReaderPos := rHeadPos r, mBody := EndBlock tempVar\<rparr>))"

definition parse_packet :: "bool \<Rightarrow> packet \<Rightarrow> packet result" where
  "parse_packet le p =
     (case mBody p of
        ConfigPacket config type \<Rightarrow> config_parse le p
      | DataPacket objectId \<Rightarrow> data_parse le p
      | DeviceAck ident name base hostname ack \<Rightarrow> ack_parse le p
      | EndBlock tempVar \<Rightarrow> end_parse le p)"

section \<open>The factory\<close>

text \<open>A creator only calls a default constructor, so the map holds what it returns.\<close>

type_synonym factory = "u16 \<rightharpoonup> packet result"

definition registerCreator :: "u16 \<Rightarrow> packet result \<Rightarrow> factory \<Rightarrow> bool \<times> factory" where
  "registerCreator ident creator m =
     (if m ident = None then (True, m(ident \<mapsto> creator)) else (False, m))"

definition unregisterCreator :: "u16 \<Rightarrow> factory \<Rightarrow> bool \<times> factory" where
  "unregisterCreator ident m = (m ident \<noteq> None, m(ident := None))"

definition isRegistered :: "u16 \<Rightarrow> factory \<Rightarrow> bool" where
  "isRegistered ident m \<longleftrightarrow> m ident \<noteq> None"

text \<open>An unknown type gives a null pointer.\<close>

definition createObject :: "u16 \<Rightarrow> factory \<Rightarrow> packet option result" where
  "createObject ident m = (case m ident of None \<Rightarrow> Inr None | Some creator \<Rightarrow> rbind creator (\<lambda>p. Inr (Some p)))"

text \<open>The creators the four files register when the library is loaded.\<close>

definition packet_factory :: factory where
  "packet_factory =
     snd (registerCreator CONFIG_PACKET config_default
     (snd (registerCreator RIM_DATA_PACKET (Inr data_default)
     (snd (registerCreator RIM_DEVICE_ACK (Inr ack_default)
     (snd (registerCreator RIM_END_BLOCK (Inr end_default) Map.empty)))))))"
section \<open>What is on the wire\<close>

text \<open>
  The abstract messages: what a constructor is given, and for device data the values the
  object writes.  \<open>wire\<close> is the bytes of a message, header first.
\<close>

datatype message =
    ConfigMsg string u16
  | DataMsg guid guid "serial_item list"
  | AckMsg guid guid string string bool
  | EndMsg u32

definition header_bytes :: "header \<Rightarrow> u8 list" where
  "header_bytes h = net_bytes 2 (mRIMCode h) @ net_bytes 2 (mPacketType h)
     @ net_bytes 4 (mFrame h) @ net_bytes 4 (mPacketLength h)"

fun payload :: "string \<Rightarrow> message \<Rightarrow> u8 list" where
  "payload host (ConfigMsg config type) = string_bytes config @ net_bytes 2 type"
| "payload host (DataMsg pluginId objectId items) =
     guid_bytes pluginId @ guid_bytes objectId @ concat (map item_bytes items)"
| "payload host (AckMsg pluginId ident name base ack) =
     guid_bytes pluginId @ guid_bytes ident @ string_bytes name @ string_bytes base
     @ string_bytes host @ [if ack then 1 else 0]"
| "payload host (EndMsg frameNum) = net_bytes 2 (ucast frameNum :: u16)"

fun message_type :: "message \<Rightarrow> u16" where
  "message_type (ConfigMsg config type) = CONFIG_PACKET"
| "message_type (DataMsg pluginId objectId items) = RIM_DATA_PACKET"
| "message_type (AckMsg pluginId ident name base ack) = RIM_DEVICE_ACK"
| "message_type (EndMsg frameNum) = RIM_END_BLOCK"

fun message_frame :: "message \<Rightarrow> u32" where
  "message_frame (EndMsg frameNum) = frameNum"
| "message_frame m = 0"

fun message_ok :: "string \<Rightarrow> message \<Rightarrow> bool" where
  "message_ok host (DataMsg pluginId objectId items) \<longleftrightarrow> guid_ok pluginId \<and> guid_ok objectId
     \<and> (\<forall>x \<in> set items. item_ok x) \<and> length (payload host (DataMsg pluginId objectId items)) + 12 < 2 ^ 32"
| "message_ok host (AckMsg pluginId ident name base ack) \<longleftrightarrow> guid_ok pluginId \<and> guid_ok ident
     \<and> length (payload host (AckMsg pluginId ident name base ack)) + 12 < 2 ^ 32"
| "message_ok host m \<longleftrightarrow> length (payload host m) + 12 < 2 ^ 32"

definition message_header :: "string \<Rightarrow> message \<Rightarrow> header" where
  "message_header host m =
     header_new RIM_PACKET (message_type m) (of_nat (length (payload host m) + 12)) (message_frame m)"

definition wire :: "string \<Rightarrow> message \<Rightarrow> u8 list" where
  "wire host m = header_bytes (message_header host m) @ payload host m"

text \<open>The call of the code that makes a message's packet.\<close>

fun make_packet :: "bool \<Rightarrow> string \<Rightarrow> message \<Rightarrow> packet result" where
  "make_packet le host (ConfigMsg config type) = config_new le config type"
| "make_packet le host (DataMsg pluginId objectId items) =
     data_serialize le objectId (write_items le items) (data_new pluginId objectId)"
| "make_packet le host (AckMsg pluginId ident name base ack) = ack_new le host pluginId ident name base ack"
| "make_packet le host (EndMsg frameNum) = end_new le frameNum"

lemma length_header_bytes [simp]: "length (header_bytes h) = 12"
  by (simp add: header_bytes_def)

lemma header_bytes_nonempty [simp]: "header_bytes h \<noteq> []"
  using length_header_bytes [of h] by fastforce

lemma message_ok_length: "message_ok host m \<Longrightarrow> length (payload host m) + 12 < 2 ^ 32"
  by (cases m) (auto simp only: message_ok.simps)

lemma payload_nonempty: "message_ok host m \<Longrightarrow> payload host m \<noteq> []"
  by (cases m) (auto simp flip: length_greater_0_conv)

text \<open>The length a constructor predicts is the one \<^verbatim>\<open>prependSerializedHeader\<close> computes.\<close>

lemma serialize_with_emits:
  assumes "write_body (writer_on [] 0) = Inr (emit bs (writer_on [] 0))"
    and "mHeader p = Some h"
  shows "serialize_with le write_body p =
    (let h' = h\<lparr>mPacketLength := of_nat (length bs + 12)\<rparr> in
     Inr (p\<lparr>mHeader := Some h', mData := header_bytes h' @ bs, mWriterPos := mPacketLength h'\<rparr>))"
  using assms
  by (simp add: serialize_with_def prependSerializedHeader_def Let_def write_word_emit emit_emit
      header_bytes_def writer_on_def RIM_PACKET_HEAD_SIZE_def emit_def)

lemma config_guid_value:
  "config_guid = Inr \<lparr>g_m0 = 0xf3ea94e2, g_m1 = 0x82fc, g_m2 = 0x43f6, g_m3 = 0xa5, g_m4 = 0x7f,
     g_m5 = [0x47, 0x4d, 0x3f, 0xd1, 0xd6, 0xeb]\<rparr>"
  by (simp add: config_guid_def guid_fromString_def scan_num_plain
      is_space_def hex_value_def hex_digits_step)

lemma make_packet_wire:
  assumes "message_ok host m"
  shows "\<exists>p. make_packet le host m = Inr p \<and> mData p = wire host m \<and> mHeader p = Some (message_header host m)"
proof (cases m)
  case (ConfigMsg config type)
  then have "length config < 2 ^ 32" using assms by simp
  then show ?thesis
    using ConfigMsg
    by (simp add: config_new_def config_guid_value config_serialize_def serialize_with_emits
        writeString_emit write_word_emit emit_emit Let_def wire_def message_header_def header_new_def)
next
  case (DataMsg pluginId objectId items)
  then show ?thesis
    using assms
    by (simp add: data_serialize_def data_new_def serialize_with_emits write_items_emits
        guid_write_emits emit_emit Let_def wire_def message_header_def header_new_def packet_new_def)
next
  case (AckMsg pluginId ident name base ack)
  then have "length name < 2 ^ 32" "length base < 2 ^ 32" "length host < 2 ^ 32" using assms by auto
  then show ?thesis
    using assms AckMsg
    by (simp add: ack_serialize_def ack_new_def serialize_with_emits writeString_emit write_word_emit
        guid_write_emits emit_emit Let_def wire_def message_header_def header_new_def packet_new_def)
next
  case (EndMsg frameNum)
  then show ?thesis
    by (simp add: end_new_def end_serialize_def serialize_with_emits write_word_emit Let_def wire_def
        message_header_def header_new_def)
qed
section \<open>Reading what was written\<close>

text \<open>
  What a receiver has of a message: for device data the object's values are next to be read
  from the packet's reader, by a host of any byte order.
\<close>

fun received :: "string \<Rightarrow> message \<Rightarrow> packet \<Rightarrow> bool" where
  "received host (ConfigMsg config type) p \<longleftrightarrow> config_guid = Inr (mPluginId p) \<and> mBody p = ConfigPacket config type"
| "received host (DataMsg pluginId objectId items) p \<longleftrightarrow>
     mPluginId p = pluginId \<and> mBody p = DataPacket objectId
     \<and> remains (packet_reader p) (concat (map item_bytes items))
     \<and> (\<forall>le. \<exists>r. read_items le (map type_of_item items) (packet_reader p) = Inr (items, r))"
| "received host (AckMsg pluginId ident name base ack) p \<longleftrightarrow>
     mPluginId p = pluginId \<and> mBody p = DeviceAck ident name base host ack"
| "received host (EndMsg frameNum) p \<longleftrightarrow> mBody p = EndBlock (ucast frameNum)"

lemma header_bytes_parse:
  "parseHeader le (header_bytes h) =
     (if mRIMCode h = RIM_PACKET then Inr h
      else Inl (ClusterError ''Header::parseHeader() - Invalid packet header!''))"
proof -
  let ?r = "reader_on (header_bytes h) 0"
  have r0: "remains ?r (net_bytes 2 (mRIMCode h) @ net_bytes 2 (mPacketType h) @ net_bytes 4 (mFrame h)
      @ net_bytes 4 (mPacketLength h) @ [])"
    using remains_reader_on [of "header_bytes h"] by (simp add: header_bytes_def)
  note r1 = remains_step(2) [OF r0]
  note r2 = remains_step(2) [OF r1, unfolded advance_advance]
  note r3 = remains_step(1) [OF r2, unfolded advance_advance]
  show ?thesis
    using read_word_remains(2) [OF r0, of le] read_word_remains(2) [OF r1, of le]
      read_word_remains(3) [OF r2, of le] read_word_remains(3) [OF r3, of le]
    by (simp add: parseHeader_def advance_advance header_new_def)
qed

lemma createObject_factory:
  "createObject CONFIG_PACKET packet_factory = rbind config_default (\<lambda>p. Inr (Some p))"
  "createObject RIM_DATA_PACKET packet_factory = Inr (Some data_default)"
  "createObject RIM_DEVICE_ACK packet_factory = Inr (Some ack_default)"
  "createObject RIM_END_BLOCK packet_factory = Inr (Some end_default)"
  by (simp_all add: createObject_def packet_factory_def registerCreator_def rim_defs)

lemma createObject_unknown:
  "ident \<notin> {CONFIG_PACKET, RIM_DATA_PACKET, RIM_DEVICE_ACK, RIM_END_BLOCK} \<Longrightarrow>
     createObject ident packet_factory = Inr None"
  by (auto simp: createObject_def packet_factory_def registerCreator_def rim_defs)

lemma setCurPos_reader [simp]: "mReaderPos p = 0 \<Longrightarrow> setCurPos 0 (packet_reader p) = reader_on (mData p) 0"
  by (simp add: setCurPos_def packet_reader_def reader_on_def)

lemma setCurPos_reader_on [simp]: "setCurPos 0 (reader_on bs i) = reader_on bs 0"
  by (simp add: setCurPos_def reader_on_def)

lemma rHeadPos_advance_reader [simp]: "rHeadPos (advance n (reader_on bs 0)) = of_nat n"
  by (simp add: advance_def reader_on_def)

lemma reader_on_advance: "reader_on bs (of_nat n) = advance n (reader_on bs 0)"
  by (simp add: advance_def reader_on_def)

lemma config_parse_payload:
  assumes "message_ok host (ConfigMsg config type)" and "mData p = payload host (ConfigMsg config type)"
    and "mReaderPos p = 0" and "config_guid = Inr (mPluginId p)"
  shows "\<exists>p'. config_parse le p = Inr p' \<and> received host (ConfigMsg config type) p' \<and> mHeader p' = mHeader p"
proof -
  let ?r = "reader_on (mData p) 0"
  have len: "length config < 2 ^ 32" and r0: "remains ?r (string_bytes config @ net_bytes 2 type @ [])"
    using assms(1,2) remains_reader_on [of "mData p"] by auto
  note r1 = remains_advance [OF r0]
  show ?thesis
    using readString_remains [OF r0 len, of le] read_word_remains(2) [OF r1, of le] assms(3,4)
    by (simp add: config_parse_def)
qed

lemma data_parse_payload:
  assumes "message_ok host (DataMsg pluginId objectId items)"
    and "mData p = payload host (DataMsg pluginId objectId items)" and "mReaderPos p = 0"
  shows "\<exists>p'. data_parse le p = Inr p' \<and> received host (DataMsg pluginId objectId items) p' \<and> mHeader p' = mHeader p"
proof -
  let ?r = "reader_on (mData p) 0" and ?bs = "concat (map item_bytes items)"
  have ok: "guid_ok pluginId" "guid_ok objectId" "\<forall>x \<in> set items. item_ok x"
    using assms(1) by simp_all
  have r0: "remains ?r (guid_bytes pluginId @ guid_bytes objectId @ ?bs)"
    using assms(1,2) remains_reader_on [of "mData p"] ok by simp
  note r1 = remains_advance [OF r0]
  note r2 = remains_advance [OF r1, unfolded advance_advance]
  have "\<exists>r. read_items le' (map type_of_item items) (advance 32 ?r) = Inr (items, r)" for le'
    using read_items_returns [OF ok(3), of "advance 32 ?r" "[]"] r2 ok by simp
  then show ?thesis
    using guid_read_returns [OF ok(1) r0, of le] guid_read_returns [OF ok(2) r1, of le] ok assms(3) r2
      reader_on_advance [of "mData p" 32]
    by (simp add: data_parse_def packet_reader_def advance_advance)
qed

lemma ack_parse_payload:
  assumes "message_ok host (AckMsg pluginId ident name base ack)"
    and "mData p = payload host (AckMsg pluginId ident name base ack)" and "mReaderPos p = 0"
  shows "\<exists>p'. ack_parse le p = Inr p' \<and> received host (AckMsg pluginId ident name base ack) p' \<and> mHeader p' = mHeader p"
proof -
  let ?r = "reader_on (mData p) 0"
  have ok: "guid_ok pluginId" "guid_ok ident" "length name < 2 ^ 32" "length base < 2 ^ 32" "length host < 2 ^ 32"
    using assms(1) by auto
  have r0: "remains ?r (guid_bytes pluginId @ guid_bytes ident @ string_bytes name @ string_bytes base
      @ string_bytes host @ (if ack then 1 else 0) # [])"
    using assms(1,2) remains_reader_on [of "mData p"] ok by simp
  note r1 = remains_advance [OF r0]
  note r2 = remains_advance [OF r1]
  note r3 = remains_advance [OF r2]
  note r4 = remains_advance [OF r3]
  note r5 = remains_advance [OF r4]
  show ?thesis
    using guid_read_returns [OF ok(1) r0, of le] guid_read_returns [OF ok(2) r1, of le]
      readString_remains [OF r2 ok(3), of le] readString_remains [OF r3 ok(4), of le]
      readString_remains [OF r4 ok(5), of le] read_word_remains(7) [OF r5] assms(3)
    by (simp add: ack_parse_def)
qed

lemma end_parse_payload:
  assumes "mData p = payload host (EndMsg frameNum)" and "mReaderPos p = 0"
  shows "\<exists>p'. end_parse le p = Inr p' \<and> received host (EndMsg frameNum) p' \<and> mHeader p' = mHeader p"
proof -
  have "remains (reader_on (mData p) 0) (net_bytes 2 (ucast frameNum :: u16) @ [])"
    using assms(1) remains_reader_on [of "mData p"] by simp
  from read_word_remains(2) [OF this, of le] show ?thesis
    using assms(2) by (simp add: end_parse_def)
qed

text \<open>The factory's packet for a message's type, given the message's bytes, parses to the message.\<close>

lemma factory_parse:
  assumes "message_ok host m"
  shows "\<exists>p0 p. createObject (message_type m) packet_factory = Inr (Some p0)
    \<and> parse_packet le (p0\<lparr>mHeader := h, mData := payload host m\<rparr>) = Inr p
    \<and> received host m p \<and> mHeader p = h"
proof (cases m)
  case (ConfigMsg config type)
  obtain p0 g where g: "config_guid = Inr g" "p0 = packet_new g (ConfigPacket [] 0)" using config_guid_value by blast
  have p0: "config_default = Inr p0" "mReaderPos p0 = 0" "mBody p0 = ConfigPacket [] 0" "config_guid = Inr (mPluginId p0)"
    unfolding config_default_def g rbind_simps by (simp_all add: packet_new_def)
  have create: "createObject (message_type m) packet_factory = Inr (Some p0)"
    unfolding ConfigMsg message_type.simps createObject_factory p0(1) by simp
  then show ?thesis
    using config_parse_payload [of host config type "p0\<lparr>mHeader := h, mData := payload host m\<rparr>" le]
      assms ConfigMsg p0(2-4)
    by - (rule exI [of _ p0], simp add: parse_packet_def)
next
  case (DataMsg pluginId objectId items)
  note ok = assms [unfolded DataMsg]
  show ?thesis
    using data_parse_payload [OF ok, of "data_default\<lparr>mHeader := h, mData := payload host m\<rparr>" le] DataMsg
    by (simp add: createObject_factory data_default_def parse_packet_def packet_new_def)
next
  case (AckMsg pluginId ident name base ack)
  note ok = assms [unfolded AckMsg]
  show ?thesis
    using ack_parse_payload [OF ok, of "ack_default\<lparr>mHeader := h, mData := payload host m\<rparr>" le] AckMsg
    by (simp add: createObject_factory ack_default_def parse_packet_def packet_new_def)
next
  case (EndMsg frameNum)
  then show ?thesis
    using end_parse_payload [of "end_default\<lparr>mHeader := h, mData := payload host m\<rparr>" host frameNum le] assms
    by (simp add: createObject_factory end_default_def parse_packet_def packet_new_def)
qed

end
