(* ===== verification/ClusterNode.thy ===== *)
theory ClusterNode
  imports ClusterPacket
begin

text \<open>
  A node of the cluster as its peers see it (\<^verbatim>\<open>gadgeteer/gadget/Node.h\<close>, \<^verbatim>\<open>Node.cpp\<close>,
  \<^verbatim>\<open>Header::readData\<close>): a connection that packets are sent to and received from.

  The connection is a blocking TCP stream of the operating system.  \<open>sIncoming\<close> is what the
  peer sends before the connection ends: \<^verbatim>\<open>readn\<close> waits for all the bytes it is asked
  for, and throws when the connection ends first.  \<open>sOutgoing\<close> is what was written so far;
  writing fails when \<open>sBroken\<close>.  The mutexes of a node guard single calls; the model is of
  one thread.
\<close>

section \<open>Streams\<close>

record stream =
  sHandle :: nat
  sIncoming :: "u8 list"
  sOutgoing :: "u8 list"
  sBroken :: bool

text \<open>Reading into a vector of length 0 takes the address of its first element.\<close>

definition stream_readn :: "nat \<Rightarrow> stream \<Rightarrow> u8 list result \<times> stream" where
  "stream_readn n s =
     (if n = 0 then (Inl (Undefined ''first element of an empty vector''), s)
      else if n \<le> length (sIncoming s)
      then (Inr (take n (sIncoming s)), s\<lparr>sIncoming := drop n (sIncoming s)\<rparr>)
      else (Inl (IOError ''connection closed''), s\<lparr>sIncoming := []\<rparr>))"

definition stream_write :: "u8 list \<Rightarrow> u32 \<Rightarrow> stream \<Rightarrow> stream result" where
  "stream_write buffer len s =
     rbind (require (unat len \<le> length buffer) (AssertionFailed ''length was bigger than the data given'')) (\<lambda>_.
     if sBroken s then Inl (IOError ''write failed'')
     else Inr (s\<lparr>sOutgoing := sOutgoing s @ take (unat len) buffer\<rparr>))"

section \<open>Nodes\<close>

datatype node_status = DISCONNECTED | PENDING | NEWCONNECTION | CONNECTED

record node =
  mName :: string
  mHostname :: string
  mPort :: u16
  mSockStream :: "stream option"
  mStatus :: node_status
  mUpdated :: bool

definition node_new :: "string \<Rightarrow> string \<Rightarrow> u16 \<Rightarrow> stream option \<Rightarrow> node" where
  "node_new name hostName port socketStream =
     \<lparr>mName = name, mHostname = hostName, mPort = port, mSockStream = socketStream,
      mStatus = DISCONNECTED, mUpdated = False\<rparr>"

definition setStatus :: "node_status \<Rightarrow> node \<Rightarrow> node" where
  "setStatus connect n = n\<lparr>mStatus := connect\<rparr>"

definition isConnected :: "node \<Rightarrow> bool" where
  "isConnected n \<longleftrightarrow> CONNECTED = mStatus n"

text \<open>The stream is closed and deleted.\<close>

definition node_shutdown :: "node \<Rightarrow> node" where
  "node_shutdown n = (setStatus DISCONNECTED n)\<lparr>mSockStream := None\<rparr>"

text \<open>The handlers for \<^verbatim>\<open>IOException\<close> also catch its subclass \<^verbatim>\<open>EOFException\<close>.\<close>

fun catch_io :: "failure \<Rightarrow> failure \<Rightarrow> failure" where
  "catch_io thrown (IOError msg) = thrown"
| "catch_io thrown (EOFError msg) = thrown"
| "catch_io thrown e = e"

definition node_send :: "packet \<Rightarrow> node \<Rightarrow> node result" where
  "node_send outPacket n =
     (case mSockStream n of
        None \<Rightarrow> Inl (AssertionFailed ''Node::send() - SocketStream can't be NULL'')
      | Some s \<Rightarrow>
          (case mHeader outPacket of
             None \<Rightarrow> Inl (Undefined ''null header'')
           | Some h \<Rightarrow>
               (case stream_write (mData outPacket) (mPacketLength h) s of
                  Inl e \<Rightarrow> Inl (catch_io (ClusterError ''Packet::send() - Sending Data failed!'') e)
                | Inr s' \<Rightarrow> Inr (n\<lparr>mSockStream := Some s'\<rparr>))))"

text \<open>\<^verbatim>\<open>Header::readData\<close>; an \<^verbatim>\<open>IOException\<close> is thrown on.\<close>

definition readData :: "bool \<Rightarrow> stream option \<Rightarrow> header result \<times> stream option" where
  "readData le stream =
     (case stream of
        None \<Rightarrow> (Inl (AssertionFailed ''Can not create a Header using a NULL SocketStream''), None)
      | Some s \<Rightarrow>
          (case stream_readn RIM_PACKET_HEAD_SIZE s of
             (Inl e, s') \<Rightarrow> (Inl e, Some s')
           | (Inr header_data, s') \<Rightarrow> (parseHeader le header_data, Some s')))"

definition recvPacket :: "bool \<Rightarrow> factory \<Rightarrow> node \<Rightarrow> packet result \<times> node" where
  "recvPacket le factory n =
     (case readData le (mSockStream n) of
        (Inl e, st) \<Rightarrow> (Inl e, n\<lparr>mSockStream := st\<rparr>)
      | (Inr packet_head, st) \<Rightarrow>
          (case createObject (mPacketType packet_head) factory of
             Inl e \<Rightarrow> (Inl e, n\<lparr>mSockStream := st\<rparr>)
           | Inr None \<Rightarrow>
               (Inl (ClusterError ''Node::recvPacket() - Packet was not found in Factory.''), n\<lparr>mSockStream := st\<rparr>)
           | Inr (Some new_packet) \<Rightarrow>
               (case st of
                  None \<Rightarrow> (Inl (ClusterError ''Node::recvPacket::recv() - mSocketStream is NULL!''), n\<lparr>mSockStream := st\<rparr>)
                | Some s \<Rightarrow>
                    (case stream_readn (unat (mPacketLength packet_head - of_nat RIM_PACKET_HEAD_SIZE)) s of
                       (Inl e, s') \<Rightarrow>
                         (Inl (catch_io (ClusterError ''Node::recvPacket() - Reading packet data failed!'') e),
                          n\<lparr>mSockStream := Some s'\<rparr>)
                     | (Inr data, s') \<Rightarrow>
                         (parse_packet le (new_packet\<lparr>mHeader := Some packet_head, mData := data\<rparr>),
                          n\<lparr>mSockStream := Some s'\<rparr>)))))"

section \<open>A packet at a time\<close>

lemma stream_readn_append:
  "bs \<noteq> [] \<Longrightarrow> sIncoming s = bs @ rest \<Longrightarrow> n = length bs
    \<Longrightarrow> stream_readn n s = (Inr bs, s\<lparr>sIncoming := rest\<rparr>)"
  by (simp add: stream_readn_def)

lemma length_wire: "length (wire host m) = length (payload host m) + 12"
  by (simp add: wire_def)

lemma node_send_wire:
  assumes "message_ok host m" and "mSockStream n = Some s" and "\<not> sBroken s"
  shows "\<exists>p. make_packet le host m = Inr p
    \<and> node_send p n = Inr (n\<lparr>mSockStream := Some (s\<lparr>sOutgoing := sOutgoing s @ wire host m\<rparr>)\<rparr>)"
proof -
  obtain p where p: "make_packet le host m = Inr p" "mData p = wire host m"
    "mHeader p = Some (message_header host m)"
    using make_packet_wire [OF assms(1)] by blast
  have "unat (mPacketLength (message_header host m)) = length (wire host m)"
    unfolding message_header_def header_new_def length_wire header.simps
    by (rule unat_of_nat_u32 [OF message_ok_length [OF assms(1)]])
  then show ?thesis
    using p assms(2,3) by (simp add: node_send_def stream_write_def require_def)
qed

lemma recvPacket_wire:
  assumes "message_ok host m" and "mSockStream n = Some s" and "sIncoming s = wire host m @ rest"
  shows "\<exists>p. recvPacket le packet_factory n = (Inr p, n\<lparr>mSockStream := Some (s\<lparr>sIncoming := rest\<rparr>)\<rparr>)
    \<and> received host m p \<and> mHeader p = Some (message_header host m)"
proof -
  let ?h = "message_header host m"
  let ?s1 = "s\<lparr>sIncoming := payload host m @ rest\<rparr>"
  have "stream_readn 12 s = (Inr (header_bytes ?h), ?s1)"
    by (rule stream_readn_append) (simp_all add: assms(3) wire_def)
  moreover have "parseHeader le (header_bytes ?h) = Inr ?h"
    by (simp only: header_bytes_parse) (simp add: message_header_def header_new_def)
  ultimately have rd: "readData le (mSockStream n) = (Inr ?h, Some ?s1)"
    by (simp add: readData_def assms(2) RIM_PACKET_HEAD_SIZE_def)
  have "mPacketLength ?h - 12 = of_nat (length (payload host m))"
    by (simp add: message_header_def header_new_def)
  then have len: "unat (mPacketLength ?h - 12) = length (payload host m)"
    using message_ok_length [OF assms(1)] unat_of_nat_u32 [of "length (payload host m)"] by simp
  have body: "stream_readn (length (payload host m)) ?s1 = (Inr (payload host m), ?s1\<lparr>sIncoming := rest\<rparr>)"
    by (rule stream_readn_append [OF payload_nonempty [OF assms(1)]]) simp_all
  obtain p0 p where "createObject (message_type m) packet_factory = Inr (Some p0)"
    "parse_packet le (p0\<lparr>mHeader := Some ?h, mData := payload host m\<rparr>) = Inr p"
    "received host m p" "mHeader p = Some ?h"
    using factory_parse [OF assms(1), of le "Some ?h"] by blast
  moreover have "mPacketType ?h = message_type m" by (simp add: message_header_def header_new_def)
  ultimately show ?thesis
    using rd len body by (simp add: recvPacket_def RIM_PACKET_HEAD_SIZE_def)
qed
section \<open>A stream of packets\<close>

fun recv_n :: "bool \<Rightarrow> nat \<Rightarrow> node \<Rightarrow> (packet list \<times> node) result" where
  "recv_n le 0 n = Inr ([], n)"
| "recv_n le (Suc k) n =
     (case recvPacket le packet_factory n of
        (Inl e, n') \<Rightarrow> Inl e
      | (Inr p, n') \<Rightarrow> rbind (recv_n le k n') (\<lambda>(ps, n''). Inr (p # ps, n'')))"

definition send_message :: "bool \<Rightarrow> string \<Rightarrow> message \<Rightarrow> node \<Rightarrow> node result" where
  "send_message le host m n = rbind (make_packet le host m) (\<lambda>p. node_send p n)"

lemma send_messages_wire:
  "\<forall>m \<in> set ms. message_ok host m \<Longrightarrow> mSockStream n = Some s \<Longrightarrow> \<not> sBroken s \<Longrightarrow>
   rfold (send_message le host) ms n
     = Inr (n\<lparr>mSockStream := Some (s\<lparr>sOutgoing := sOutgoing s @ concat (map (wire host) ms)\<rparr>)\<rparr>)"
proof (induction ms arbitrary: n s)
  case (Cons m ms)
  let ?s = "s\<lparr>sOutgoing := sOutgoing s @ wire host m\<rparr>"
  have "send_message le host m n = Inr (n\<lparr>mSockStream := Some ?s\<rparr>)"
    using node_send_wire [of host m n s le] Cons.prems by (auto simp: send_message_def)
  then show ?case using Cons.IH [of "n\<lparr>mSockStream := Some ?s\<rparr>" ?s] Cons.prems by simp
qed simp

lemma recv_n_wire:
  "\<forall>m \<in> set ms. message_ok host m \<Longrightarrow> mSockStream n = Some s \<Longrightarrow>
   sIncoming s = concat (map (wire host) ms) @ rest \<Longrightarrow>
   \<exists>ps. recv_n le (length ms) n = Inr (ps, n\<lparr>mSockStream := Some (s\<lparr>sIncoming := rest\<rparr>)\<rparr>)
     \<and> list_all2 (\<lambda>m p. received host m p \<and> mHeader p = Some (message_header host m)) ms ps"
proof (induction ms arbitrary: n s)
  case (Cons m ms)
  let ?s = "s\<lparr>sIncoming := concat (map (wire host) ms) @ rest\<rparr>"
  obtain p where p: "recvPacket le packet_factory n = (Inr p, n\<lparr>mSockStream := Some ?s\<rparr>)"
    "received host m p" "mHeader p = Some (message_header host m)"
    using recvPacket_wire [of host m n s "concat (map (wire host) ms) @ rest" le] Cons.prems by auto
  obtain ps where "recv_n le (length ms) (n\<lparr>mSockStream := Some ?s\<rparr>)
      = Inr (ps, n\<lparr>mSockStream := Some (?s\<lparr>sIncoming := rest\<rparr>)\<rparr>)"
    "list_all2 (\<lambda>m p. received host m p \<and> mHeader p = Some (message_header host m)) ms ps"
    using Cons.IH [of "n\<lparr>mSockStream := Some ?s\<rparr>" ?s] Cons.prems by auto
  then show ?case using p by (intro exI [of _ "p # ps"]) simp
qed simp

text \<open>
  C10. Packets survive the wire.  Whatever sequence of packets a node sends (configurations,
  device data, acknowledgements, block ends) on a connection that works, every one is sent,
  and a peer of either byte order that has received those bytes, and possibly more after
  them, gets as many packets, in order, each with the contents and the header (type, frame,
  length) it was sent with, and has exactly the bytes after them left.
\<close>

theorem packet_stream_roundtrip:
  assumes "\<forall>m \<in> set ms. message_ok host m"
    and "mSockStream a = Some s" and "\<not> sBroken s" and "sOutgoing s = []"
  shows "\<exists>s'. rfold (send_message le_w host) ms a = Inr (a\<lparr>mSockStream := Some s'\<rparr>)
    \<and> (\<forall>b t rest. mSockStream b = Some t \<and> sIncoming t = sOutgoing s' @ rest \<longrightarrow>
        (\<exists>ps. recv_n le_r (length ms) b = Inr (ps, b\<lparr>mSockStream := Some (t\<lparr>sIncoming := rest\<rparr>)\<rparr>)
          \<and> list_all2 (\<lambda>m p. received host m p \<and> mHeader p = Some (message_header host m)) ms ps))"
  using send_messages_wire [OF assms(1-3), of le_w] recv_n_wire [OF assms(1), of _ _ _ le_r] assms(4)
  by auto

text \<open>A configuration and a block end, from a little-endian to a big-endian host.\<close>

theorem packet_stream_roundtrip_witness:
  "\<exists>ps n. recv_n False 2 (node_new ''b'' ''host'' 7000
       (Some \<lparr>sHandle = 4, sIncoming = wire ''a'' (ConfigMsg ''cfg'' 1) @ wire ''a'' (EndMsg 70000) @ [9],
             sOutgoing = [], sBroken = False\<rparr>)) = Inr (ps, n)
     \<and> map mBody ps = [ConfigPacket ''cfg'' 1, EndBlock 4464]"
proof -
  let ?ms = "[ConfigMsg ''cfg'' 1, EndMsg 70000]"
  let ?s = "\<lparr>sHandle = 3, sIncoming = [], sOutgoing = [], sBroken = False\<rparr> :: stream"
  let ?a = "node_new ''a'' ''host'' 7000 (Some ?s)"
  let ?t = "\<lparr>sHandle = 4, sIncoming = wire ''a'' (ConfigMsg ''cfg'' 1) @ wire ''a'' (EndMsg 70000) @ [9],
      sOutgoing = [], sBroken = False\<rparr>"
  let ?b = "node_new ''b'' ''host'' 7000 (Some ?t)"
  have ok: "\<forall>m \<in> set ?ms. message_ok ''a'' m" by simp
  have s: "mSockStream ?a = Some ?s" "\<not> sBroken ?s" "sOutgoing ?s = []" by (simp_all add: node_new_def)
  obtain s' where s': "rfold (send_message True ''a'') ?ms ?a = Inr (?a\<lparr>mSockStream := Some s'\<rparr>)"
    and recv: "\<And>b t rest. mSockStream b = Some t \<and> sIncoming t = sOutgoing s' @ rest \<Longrightarrow>
        (\<exists>ps. recv_n False (length ?ms) b = Inr (ps, b\<lparr>mSockStream := Some (t\<lparr>sIncoming := rest\<rparr>)\<rparr>)
          \<and> list_all2 (\<lambda>m p. received ''a'' m p \<and> mHeader p = Some (message_header ''a'' m)) ?ms ps)"
    using packet_stream_roundtrip [OF ok s, of True False] by blast
  have "sOutgoing s' = concat (map (wire ''a'') ?ms)"
    using s' send_messages_wire [OF ok s(1,2), of True] s(3) by (simp add: node_new_def)
  then have "mSockStream ?b = Some ?t \<and> sIncoming ?t = sOutgoing s' @ [9]"
    by (simp add: node_new_def)
  then obtain ps where ps: "recv_n False (length ?ms) ?b = Inr (ps, ?b\<lparr>mSockStream := Some (?t\<lparr>sIncoming := [9]\<rparr>)\<rparr>)"
      "list_all2 (\<lambda>m p. received ''a'' m p \<and> mHeader p = Some (message_header ''a'' m)) ?ms ps"
    using recv by blast
  have "map mBody ps = [ConfigPacket ''cfg'' 1, EndBlock 4464]"
    using ps(2) by (auto simp: list_all2_Cons1)
  moreover have "length ?ms = 2" by simp
  ultimately show ?thesis using ps(1) by metis
qed

text \<open>
  What a receiver does with a stream that is not a packet: a connection that ends inside
  a header is an \<^verbatim>\<open>IOException\<close>; a wrong code, a type nobody registered and a connection
  that ends inside the body are a \<^verbatim>\<open>ClusterException\<close>.
\<close>

theorem recvPacket_errors:
  assumes "mSockStream n = Some s"
  shows "(length (sIncoming s) < 12 \<longrightarrow>
      fst (recvPacket le packet_factory n) = Inl (IOError ''connection closed''))
    \<and> (sIncoming s = header_bytes h @ rest \<and> mRIMCode h \<noteq> RIM_PACKET \<longrightarrow>
      fst (recvPacket le packet_factory n) = Inl (ClusterError ''Header::parseHeader() - Invalid packet header!''))
    \<and> (sIncoming s = header_bytes h @ rest \<and> mRIMCode h = RIM_PACKET
        \<and> mPacketType h \<notin> {CONFIG_PACKET, RIM_DATA_PACKET, RIM_DEVICE_ACK, RIM_END_BLOCK} \<longrightarrow>
      fst (recvPacket le packet_factory n) = Inl (ClusterError ''Node::recvPacket() - Packet was not found in Factory.''))
    \<and> (message_ok host m \<and> k < length (payload host m)
        \<and> sIncoming s = header_bytes (message_header host m) @ take k (payload host m) \<longrightarrow>
      fst (recvPacket le packet_factory n) = Inl (ClusterError ''Node::recvPacket() - Reading packet data failed!''))"
proof -
  have header: "readData le (mSockStream n)
      = (if mRIMCode h = RIM_PACKET then Inr h
         else Inl (ClusterError ''Header::parseHeader() - Invalid packet header!''), Some (s\<lparr>sIncoming := bs\<rparr>))"
    if "sIncoming s = header_bytes h @ bs" for h bs
  proof -
    have "stream_readn 12 s = (Inr (header_bytes h), s\<lparr>sIncoming := bs\<rparr>)"
      by (rule stream_readn_append) (simp_all add: that)
    then show ?thesis by (simp add: readData_def assms RIM_PACKET_HEAD_SIZE_def header_bytes_parse)
  qed
  have body: "fst (recvPacket le packet_factory n) = Inl (ClusterError ''Node::recvPacket() - Reading packet data failed!'')"
    if m: "message_ok host m" "k < length (payload host m)"
      and inc: "sIncoming s = header_bytes (message_header host m) @ take k (payload host m)"
  proof -
    let ?h = "message_header host m"
    have h: "mRIMCode ?h = RIM_PACKET" "mPacketType ?h = message_type m"
      "mPacketLength ?h - 12 = of_nat (length (payload host m))"
      by (simp_all add: message_header_def header_new_def)
    have len: "unat (mPacketLength ?h - 12) = length (payload host m)"
      unfolding h(3) using message_ok_length [OF m(1)] unat_of_nat_u32 [of "length (payload host m)"] by simp
    obtain p0 where "createObject (message_type m) packet_factory = Inr (Some p0)"
      using factory_parse [OF m(1)] by blast
    then show ?thesis
      using header [OF inc] h(1,2) len m(2) payload_nonempty [OF m(1)]
      by (simp add: recvPacket_def RIM_PACKET_HEAD_SIZE_def stream_readn_def min_absorb2)
  qed
  have "fst (recvPacket le packet_factory n) = Inl (IOError ''connection closed'')" if "length (sIncoming s) < 12"
    using that by (simp add: recvPacket_def readData_def assms RIM_PACKET_HEAD_SIZE_def stream_readn_def)
  moreover have "fst (recvPacket le packet_factory n) = Inl (ClusterError ''Header::parseHeader() - Invalid packet header!'')"
    if "sIncoming s = header_bytes h @ rest" "mRIMCode h \<noteq> RIM_PACKET"
    using header [OF that(1)] that(2) by (simp add: recvPacket_def)
  moreover have "fst (recvPacket le packet_factory n) = Inl (ClusterError ''Node::recvPacket() - Packet was not found in Factory.'')"
    if "sIncoming s = header_bytes h @ rest" "mRIMCode h = RIM_PACKET"
      "mPacketType h \<notin> {CONFIG_PACKET, RIM_DATA_PACKET, RIM_DEVICE_ACK, RIM_END_BLOCK}"
    using header [OF that(1)] that(2) createObject_unknown [OF that(3)] by (simp add: recvPacket_def)
  ultimately show ?thesis using body by blast
qed

theorem recvPacket_errors_witness:
  "fst (recvPacket True packet_factory (node_new ''n'' ''host'' 1
     (Some \<lparr>sHandle = 0, sIncoming = [1, 144, 1], sOutgoing = [], sBroken = False\<rparr>)))
   = Inl (IOError ''connection closed'')
   \<and> fst (recvPacket False packet_factory (node_new ''n'' ''host'' 1
     (Some \<lparr>sHandle = 0, sIncoming = header_bytes (message_header ''a'' (EndMsg 3)) @ [0],
            sOutgoing = [], sBroken = False\<rparr>)))
   = Inl (ClusterError ''Node::recvPacket() - Reading packet data failed!'')"
proof (rule conjI)
  let ?s = "\<lparr>sHandle = 0, sIncoming = [1, 144, 1], sOutgoing = [], sBroken = False\<rparr>"
  have s: "mSockStream (node_new ''n'' ''host'' 1 (Some ?s)) = Some ?s" by (simp add: node_new_def)
  show "fst (recvPacket True packet_factory (node_new ''n'' ''host'' 1 (Some ?s))) = Inl (IOError ''connection closed'')"
    using recvPacket_errors [OF s, THEN conjunct1] by simp
  let ?t = "\<lparr>sHandle = 0, sIncoming = header_bytes (message_header ''a'' (EndMsg 3)) @ [0],
      sOutgoing = [], sBroken = False\<rparr>"
  have t: "mSockStream (node_new ''n'' ''host'' 1 (Some ?t)) = Some ?t" by (simp add: node_new_def)
  have m: "message_ok ''a'' (EndMsg 3)" "1 < length (payload ''a'' (EndMsg 3))"
    "take 1 (payload ''a'' (EndMsg 3)) = [0]"
    by (simp_all add: net_bytes_def le_bytes_def upt_rec drop_bit_eq_div)
  show "fst (recvPacket False packet_factory (node_new ''n'' ''host'' 1 (Some ?t)))
   = Inl (ClusterError ''Node::recvPacket() - Reading packet data failed!'')"
    by (rule recvPacket_errors [OF t, THEN conjunct2, THEN conjunct2, THEN conjunct2, rule_format,
          of "''a''" "EndMsg 3" 1]) (simp only: m stream.simps simp_thms)
qed

end
