(* ===== verification/ClusterNet.thy ===== *)
theory ClusterNet
  imports ClusterNode
begin

text \<open>
  The cluster's network manager and its reactor (\<^verbatim>\<open>gadgeteer/gadget/NetworkManager.cpp\<close>,
  \<^verbatim>\<open>Reactor.cpp\<close>): the lock step of the nodes.  Every frame a node sends an end block to
  each peer and then handles packets from all of them until each has sent its own.

  Nodes are shared pointers: a pointer is a number, \<open>nHeap\<close> maps it to the node, and the
  manager and the reactor both hold pointers.  A plug-in's packet handler is a function of
  the packet, the node it came from and the application's state, of type \<open>'a\<close>; it may throw.
  What \<^verbatim>\<open>Selector::select\<close> reports is the operating system's: the argument \<open>sel\<close> gives,
  call by call, either a timeout (\<open>None\<close>) or the handles with data.  It fails when a descriptor
  it was given has been closed: the loop checks that first (\<open>select_fails\<close>).
\<close>

record reactor =
  mSelector :: "nat list"
  mDemuxTable :: "nat \<rightharpoonup> nat"

type_synonym 'a packet_handler = "packet \<Rightarrow> nat \<Rightarrow> 'a \<Rightarrow> unit result \<times> 'a"

record 'a netmgr =
  nHeap :: "nat \<Rightarrow> node"
  nNext :: nat
  mNodes :: "nat list"
  mHandlerMap :: "guid \<rightharpoonup> 'a packet_handler"
  mReactor :: reactor
  nApp :: 'a

definition upd_heap :: "nat \<Rightarrow> (node \<Rightarrow> node) \<Rightarrow> 'a netmgr \<Rightarrow> 'a netmgr" where
  "upd_heap k f st = st\<lparr>nHeap := (nHeap st)(k := f (nHeap st k))\<rparr>"

section \<open>The reactor\<close>

text \<open>\<^verbatim>\<open>Selector::addHandle\<close> appends, \<^verbatim>\<open>removeHandle\<close> removes; they keep the handles' order.\<close>

definition reactor_addNode :: "node \<Rightarrow> nat \<Rightarrow> reactor \<Rightarrow> reactor result" where
  "reactor_addNode n k r =
     (case mSockStream n of
        None \<Rightarrow> Inl (Undefined ''null stream'')
      | Some s \<Rightarrow>
          Inr (if mDemuxTable r (sHandle s) = None
               then r\<lparr>mDemuxTable := (mDemuxTable r)(sHandle s \<mapsto> k), mSelector := mSelector r @ [sHandle s]\<rparr>
               else r))"

definition reactor_removeNode :: "node \<Rightarrow> reactor \<Rightarrow> reactor result" where
  "reactor_removeNode n r =
     (case mSockStream n of
        None \<Rightarrow> Inl (Undefined ''null stream'')
      | Some s \<Rightarrow>
          Inr (if mDemuxTable r (sHandle s) \<noteq> None
               then r\<lparr>mDemuxTable := (mDemuxTable r)(sHandle s := None),
                      mSelector := remove1 (sHandle s) (mSelector r)\<rparr>
               else r))"

text \<open>
  The nodes of the handles with events, in the selector's order.  Looking a handle up that
  is not in the table gives a null pointer.
\<close>

definition getReadyNodes :: "nat list \<Rightarrow> reactor \<Rightarrow> nat option list" where
  "getReadyNodes events r = map (mDemuxTable r) (filter (\<lambda>h. h \<in> set events) (mSelector r))"

text \<open>
  \<^verbatim>\<open>select\<close> on a closed descriptor is an error, which \<^verbatim>\<open>SelectorImplBSD::select\<close> throws as an
  \<^verbatim>\<open>IOException\<close> (\<^verbatim>\<open>md/POSIX/IO/SelectorImplBSD.cpp\<close>).  \<^verbatim>\<open>Node::shutdown\<close> closes and drops the
  stream and leaves its handle in the selector and the table.
\<close>

definition select_fails :: "'a netmgr \<Rightarrow> bool" where
  "select_fails st \<longleftrightarrow> (\<exists>h \<in> set (mSelector (mReactor st)).
     case mDemuxTable (mReactor st) h of None \<Rightarrow> False | Some k \<Rightarrow> mSockStream (nHeap st k) = None)"

definition select_error :: failure where
  "select_error = IOError ''SelectorImplBSD::select: Error selecting''"

section \<open>Nodes and handlers\<close>

definition netmgr_new :: "'a \<Rightarrow> 'a netmgr" where
  "netmgr_new app =
     \<lparr>nHeap = (\<lambda>_. node_new [] [] 0 None), nNext = 0, mNodes = [], mHandlerMap = Map.empty,
      mReactor = \<lparr>mSelector = [], mDemuxTable = Map.empty\<rparr>, nApp = app\<rparr>"

definition addNode :: "string \<Rightarrow> string \<Rightarrow> u16 \<Rightarrow> stream option \<Rightarrow> 'a netmgr \<Rightarrow> 'a netmgr" where
  "addNode name hostName port socketStream st =
     st\<lparr>nHeap := (nHeap st)(nNext st := node_new name hostName port socketStream), nNext := nNext st + 1,
        mNodes := mNodes st @ [nNext st]\<rparr>"

definition addNodePtr :: "nat \<Rightarrow> 'a netmgr \<Rightarrow> 'a netmgr" where
  "addNodePtr k st = st\<lparr>mNodes := mNodes st @ [k]\<rparr>"

definition removeNode :: "string \<Rightarrow> 'a netmgr \<Rightarrow> 'a netmgr result" where
  "removeNode nodeHostname st =
     (case find (\<lambda>k. mHostname (nHeap st k) = nodeHostname) (mNodes st) of
        None \<Rightarrow> Inr st
      | Some k \<Rightarrow>
          rbind (reactor_removeNode (nHeap st k) (mReactor st)) (\<lambda>r.
          Inr (st\<lparr>mReactor := r, mNodes := remove1 k (mNodes st)\<rparr>)))"

definition getNodeByName :: "string \<Rightarrow> 'a netmgr \<Rightarrow> nat option" where
  "getNodeByName node_name st = find (\<lambda>k. mName (nHeap st k) = node_name) (mNodes st)"

definition getHandlerByGUID :: "guid \<Rightarrow> 'a netmgr \<Rightarrow> 'a packet_handler option" where
  "getHandlerByGUID handlerGuid st = mHandlerMap st handlerGuid"

text \<open>\<^verbatim>\<open>insert\<close> keeps a handler already there.\<close>

definition addHandler :: "guid \<Rightarrow> 'a packet_handler \<Rightarrow> 'a netmgr \<Rightarrow> 'a netmgr" where
  "addHandler handlerGUID newHandler st =
     (if mHandlerMap st handlerGUID = None
      then st\<lparr>mHandlerMap := (mHandlerMap st)(handlerGUID \<mapsto> newHandler)\<rparr> else st)"

definition netmgr_shutdown :: "'a netmgr \<Rightarrow> 'a netmgr" where
  "netmgr_shutdown st = fold (\<lambda>k. upd_heap k node_shutdown) (mNodes st) st"

definition setAllUpdated :: "bool \<Rightarrow> 'a netmgr \<Rightarrow> nat \<times> 'a netmgr" where
  "setAllUpdated updated st =
     (length (mNodes st), fold (\<lambda>k. upd_heap k (\<lambda>n. n\<lparr>mUpdated := updated\<rparr>)) (mNodes st) st)"

section \<open>Sending\<close>

text \<open>To every node, connected or not: a node without a stream fails \<^verbatim>\<open>send\<close>'s assertion.\<close>

fun send_to_all :: "packet \<Rightarrow> nat list \<Rightarrow> 'a netmgr \<Rightarrow> unit result \<times> 'a netmgr" where
  "send_to_all packet [] st = (Inr (), st)"
| "send_to_all packet (k # ks) st =
     (case node_send packet (nHeap st k) of
        Inr n \<Rightarrow> send_to_all packet ks (upd_heap k (\<lambda>_. n) st)
      | Inl (ClusterError msg) \<Rightarrow>
          send_to_all packet ks (upd_heap k (\<lambda>n. node_shutdown (setStatus DISCONNECTED n)) st)
      | Inl e \<Rightarrow> (Inl e, st))"

definition sendToAll :: "packet \<Rightarrow> 'a netmgr \<Rightarrow> unit result \<times> 'a netmgr" where
  "sendToAll packet st = send_to_all packet (mNodes st) st"

fun send_end_block :: "packet \<Rightarrow> nat list \<Rightarrow> nat \<Rightarrow> 'a netmgr \<Rightarrow> nat result \<times> 'a netmgr" where
  "send_end_block end_block [] num_nodes st = (Inr num_nodes, st)"
| "send_end_block end_block (k # ks) num_nodes st =
     (if isConnected (nHeap st k)
      then case node_send end_block (nHeap st k) of
             Inr n \<Rightarrow> send_end_block end_block ks (num_nodes + 1) (upd_heap k (\<lambda>_. n) st)
           | Inl (ClusterError msg) \<Rightarrow> send_end_block end_block ks num_nodes (upd_heap k node_shutdown st)
           | Inl e \<Rightarrow> (Inl e, st)
      else send_end_block end_block ks num_nodes st)"

text \<open>The \<^verbatim>\<open>int\<close> argument becomes the 32-bit frame number of the packet.\<close>

definition sendEndBlocks :: "bool \<Rightarrow> int \<Rightarrow> 'a netmgr \<Rightarrow> nat result \<times> 'a netmgr" where
  "sendEndBlocks le temp st =
     (case end_new le (word_of_int temp) of
        Inl e \<Rightarrow> (Inl e, st)
      | Inr end_block \<Rightarrow> send_end_block end_block (mNodes st) 0 st)"

section \<open>Receiving\<close>

definition handlePacket :: "packet \<Rightarrow> nat \<Rightarrow> 'a netmgr \<Rightarrow> unit result \<times> 'a netmgr" where
  "handlePacket packet k st =
     (if (case mHeader packet of Some h \<Rightarrow> mPacketType h = RIM_END_BLOCK | None \<Rightarrow> False)
      then (Inr (), upd_heap k (\<lambda>n. n\<lparr>mUpdated := True\<rparr>) st)
      else case getHandlerByGUID (mPluginId packet) st of
             Some handler \<Rightarrow> (let (res, app) = handler packet k (nApp st) in (res, st\<lparr>nApp := app\<rparr>))
           | None \<Rightarrow> (Inr (), st))"

text \<open>
  The inner loop of \<^verbatim>\<open>updateAllNodes\<close>: packets of one node until its end block.  Each
  packet takes its twelve header bytes and more off the stream, so the loop ends.
\<close>

definition pending :: "node \<Rightarrow> nat" where
  "pending n = (case mSockStream n of None \<Rightarrow> 0 | Some s \<Rightarrow> length (sIncoming s))"

lemma stream_readn_less:
  "stream_readn n s = (Inr bs, s') \<Longrightarrow> length (sIncoming s') < length (sIncoming s)"
  by (auto simp: stream_readn_def split: if_splits)

lemma recvPacket_less:
  assumes "recvPacket le f n = (Inr p, n')"
  shows "pending n' < pending n"
proof -
  obtain h st where rd: "readData le (mSockStream n) = (Inr h, st)"
    using assms by (cases "readData le (mSockStream n)") (auto simp: recvPacket_def split: sum.splits)
  then obtain s s' where s: "mSockStream n = Some s" "st = Some s'" "length (sIncoming s') < length (sIncoming s)"
    by (auto simp: readData_def split: option.splits sum.splits prod.splits dest: stream_readn_less)
  then obtain s'' where "n' = n\<lparr>mSockStream := Some s''\<rparr>" "length (sIncoming s'') < length (sIncoming s')"
    using assms rd
    by (auto simp: recvPacket_def split: option.splits sum.splits prod.splits dest: stream_readn_less)
  then show ?thesis using s by (simp add: pending_def)
qed

lemma handlePacket_pending:
  "handlePacket p k st = (r, st') \<Longrightarrow> pending (nHeap st' j) = pending (nHeap st j)"
  by (auto simp: handlePacket_def upd_heap_def pending_def Let_def split: if_splits option.splits prod.splits)

function update_node :: "bool \<Rightarrow> nat \<Rightarrow> 'a netmgr \<Rightarrow> unit result \<times> 'a netmgr" where
  "update_node le k st =
     (if mUpdated (nHeap st k) then (Inr (), st)
      else if \<not> isConnected (nHeap st k)
      then (Inl (AssertionFailed ''Node is not connected, we can not update!''), st)
      else case recvPacket le packet_factory (nHeap st k) of
             (Inl e, n) \<Rightarrow> (Inl e, upd_heap k (\<lambda>_. n) st)
           | (Inr temp_packet, n) \<Rightarrow>
               (case handlePacket temp_packet k (upd_heap k (\<lambda>_. n) st) of
                  (Inl e, st') \<Rightarrow> (Inl e, st')
                | (Inr _, st') \<Rightarrow> update_node le k st'))"
  by pat_completeness auto

termination
proof (relation "measure (\<lambda>(le, k, st). pending (nHeap st k))")
  fix le :: bool and k :: nat and st st' :: "'a netmgr" and n p x r u
  assume recv: "(x, n) = recvPacket le packet_factory (nHeap st k)" "x = Inr p"
    and "(r, st') = handlePacket p k (upd_heap k (\<lambda>_. n) st)" "r = Inr u"
  then have "pending (nHeap st' k) = pending n"
    using handlePacket_pending [of p k "upd_heap k (\<lambda>_. n) st" r st' k] by (simp add: upd_heap_def)
  moreover have "pending n < pending (nHeap st k)"
    using recvPacket_less [of le packet_factory "nHeap st k" p n] recv by simp
  ultimately show "((le, k, st'), le, k, st) \<in> measure (\<lambda>(le, k, st). pending (nHeap st k))"
    by simp
qed simp

declare update_node.simps [simp del]

text \<open>The body of the outer loop: the nodes that are ready, \<^verbatim>\<open>ClusterException\<close>s caught.\<close>

fun ready_pass :: "bool \<Rightarrow> nat option list \<Rightarrow> nat \<Rightarrow> 'a netmgr \<Rightarrow> nat result \<times> 'a netmgr" where
  "ready_pass le [] completed_nodes st = (Inr completed_nodes, st)"
| "ready_pass le (None # ks) completed_nodes st = (Inl (Undefined ''null node''), st)"
| "ready_pass le (Some k # ks) completed_nodes st =
     (if mUpdated (nHeap st k) then ready_pass le ks completed_nodes st
      else case update_node le k st of
             (Inr _, st') \<Rightarrow> ready_pass le ks (completed_nodes + 1) st'
           | (Inl (ClusterError msg), st') \<Rightarrow> ready_pass le ks (completed_nodes + 1) (upd_heap k node_shutdown st')
           | (Inl e, st') \<Rightarrow> (Inl e, st'))"

text \<open>
  The outer loop; after a timeout the ready nodes of the call before are still in the vector.
  Only timeouts are caught: the selector's \<^verbatim>\<open>IOException\<close> leaves the function.
  Whether it ends is up to the peers, so it is a partial function: \<open>None\<close> is not returning.
\<close>

partial_function (option) update_loop ::
  "bool \<Rightarrow> (nat \<Rightarrow> nat list option) \<Rightarrow> nat \<Rightarrow> nat \<Rightarrow> nat \<Rightarrow> nat option list \<Rightarrow> 'a netmgr
     \<Rightarrow> (unit result \<times> 'a netmgr) option" where
  "update_loop le sel numNodes i completed_nodes ready_nodes st =
     (if completed_nodes = numNodes then Some (Inr (), st)
      else if select_fails st then Some (Inl select_error, st)
      else let ready = (case sel i of None \<Rightarrow> ready_nodes | Some events \<Rightarrow> getReadyNodes events (mReactor st)) in
        case ready_pass le ready completed_nodes st of
          (Inl e, st') \<Rightarrow> Some (Inl e, st')
        | (Inr completed, st') \<Rightarrow> update_loop le sel numNodes (Suc i) completed ready st')"

definition updateAllNodes :: "bool \<Rightarrow> (nat \<Rightarrow> nat list option) \<Rightarrow> nat \<Rightarrow> 'a netmgr
     \<Rightarrow> (unit result \<times> 'a netmgr) option" where
  "updateAllNodes le sel numNodes st = update_loop le sel numNodes 0 0 [] st"

text \<open>
  Corking sets a socket option of every node's stream, connected or not; without a stream
  the null pointer is dereferenced.
\<close>

definition setNoPush :: "bool \<Rightarrow> node \<Rightarrow> unit result" where
  "setNoPush enable n =
     (case mSockStream n of None \<Rightarrow> Inl (Undefined ''null stream'') | Some s \<Rightarrow> Inr ())"

definition corkNetwork :: "'a netmgr \<Rightarrow> unit result" where
  "corkNetwork st = rfold (\<lambda>k _. setNoPush True (nHeap st k)) (mNodes st) ()"

definition uncorkNetwork :: "'a netmgr \<Rightarrow> unit result" where
  "uncorkNetwork st = rfold (\<lambda>k _. setNoPush False (nHeap st k)) (mNodes st) ()"

definition update :: "bool \<Rightarrow> (nat \<Rightarrow> nat list option) \<Rightarrow> int \<Rightarrow> 'a netmgr
     \<Rightarrow> (unit result \<times> 'a netmgr) option" where
  "update le sel temp st =
     (case sendEndBlocks le temp (snd (setAllUpdated False st)) of
        (Inl e, st') \<Rightarrow> Some (Inl e, st')
      | (Inr num_nodes, st') \<Rightarrow>
          (case uncorkNetwork st' of
             Inl e \<Rightarrow> Some (Inl e, st')
           | Inr _ \<Rightarrow> updateAllNodes le sel num_nodes st'))"

definition barrier :: "bool \<Rightarrow> (nat \<Rightarrow> nat list option) \<Rightarrow> bool \<Rightarrow> 'a netmgr
     \<Rightarrow> (unit result \<times> 'a netmgr) option" where
  "barrier le sel master st =
     (if master
      then let num_nodes = length (mNodes st) in
           (case updateAllNodes le sel num_nodes (snd (setAllUpdated False st)) of
              None \<Rightarrow> None
            | Some (Inl e, st') \<Rightarrow> Some (Inl e, st')
            | Some (Inr _, st') \<Rightarrow>
                (case sendEndBlocks le 0 st' of
                   (Inl e, st'') \<Rightarrow> Some (Inl e, st'')
                 | (Inr _, st'') \<Rightarrow> Some (Inr (), st'')))
      else (case sendEndBlocks le 0 st of
              (Inl e, st') \<Rightarrow> Some (Inl e, st')
            | (Inr num_nodes, st') \<Rightarrow> updateAllNodes le sel num_nodes (snd (setAllUpdated False st'))))"
section \<open>One node's packets\<close>

text \<open>
  \<open>node_goes host ms f out rest n\<close>: the node is connected, was sent \<open>out\<close>, and its peer sends
  the messages \<open>ms\<close>, the end block of its frame \<open>f\<close> and then \<open>rest\<close>; up to the end block is
  handled once the node is marked updated.
\<close>

definition node_goes :: "string \<Rightarrow> message list \<Rightarrow> u32 \<Rightarrow> u8 list \<Rightarrow> u8 list \<Rightarrow> node \<Rightarrow> bool" where
  "node_goes host ms f out rest n \<longleftrightarrow> isConnected n
     \<and> (\<exists>s. mSockStream n = Some s \<and> \<not> sBroken s \<and> sOutgoing s = out
          \<and> sIncoming s = (if mUpdated n then rest
              else concat (map (wire host) ms) @ wire host (EndMsg f) @ rest))"

definition block_ok :: "string \<Rightarrow> message list \<Rightarrow> bool" where
  "block_ok host ms \<longleftrightarrow> (\<forall>m \<in> set ms. message_ok host m \<and> message_type m \<noteq> RIM_END_BLOCK)"

text \<open>
  The registered handlers take the messages \<open>ms\<close> of node \<open>k\<close> without throwing, as long as the
  application's state satisfies \<open>J\<close>, which they keep.
\<close>

definition handled :: "('a \<Rightarrow> bool) \<Rightarrow> (guid \<rightharpoonup> 'a packet_handler) \<Rightarrow> nat \<Rightarrow> string \<Rightarrow> message list \<Rightarrow> bool" where
  "handled J hs k host ms \<longleftrightarrow> (\<forall>m \<in> set ms. \<forall>p a h. received host m p \<longrightarrow> mHeader p = Some (message_header host m)
     \<longrightarrow> J a \<longrightarrow> hs (mPluginId p) = Some h \<longrightarrow> (\<exists>a'. h p k a = (Inr (), a') \<and> J a'))"

definition finish_node :: "nat \<Rightarrow> u8 list \<Rightarrow> 'a \<Rightarrow> 'a netmgr \<Rightarrow> 'a netmgr" where
  "finish_node k rest app st =
     (upd_heap k (\<lambda>n. n\<lparr>mSockStream := map_option (\<lambda>s. s\<lparr>sIncoming := rest\<rparr>) (mSockStream n), mUpdated := True\<rparr>) st)
       \<lparr>nApp := app\<rparr>"

lemma message_header_type: "mPacketType (message_header host m) = message_type m"
  by (simp add: message_header_def header_new_def)

lemma handlePacket_plugin:
  assumes "handled J (mHandlerMap st) k host ms" and "m \<in> set ms" and "J (nApp st)" and "received host m p"
    and "mHeader p = Some (message_header host m)" and "message_type m \<noteq> RIM_END_BLOCK"
  shows "\<exists>app. handlePacket p k st = (Inr (), st\<lparr>nApp := app\<rparr>) \<and> J app"
proof (cases "mHandlerMap st (mPluginId p)")
  case None
  then show ?thesis using assms(3,5,6)
    by (intro exI [of _ "nApp st"]) (simp add: handlePacket_def message_header_type getHandlerByGUID_def)
next
  case (Some h)
  then obtain app where "h p k (nApp st) = (Inr (), app)" "J app"
    using assms(1-5) unfolding handled_def by blast
  then show ?thesis
    using Some assms(5,6)
    by (intro exI [of _ app]) (simp add: handlePacket_def message_header_type getHandlerByGUID_def)
qed

lemma handlePacket_end:
  "mHeader p = Some (message_header host (EndMsg f)) \<Longrightarrow>
     handlePacket p k st = (Inr (), upd_heap k (\<lambda>n. n\<lparr>mUpdated := True\<rparr>) st)"
  by (simp add: handlePacket_def message_header_type)

lemma update_node_goes:
  assumes "block_ok host ms" and "handled J (mHandlerMap st) k host ms" and "isConnected (nHeap st k)"
    and "\<not> mUpdated (nHeap st k)" and "mSockStream (nHeap st k) = Some s"
    and "sIncoming s = concat (map (wire host) ms) @ wire host (EndMsg f) @ rest" and "J (nApp st)"
  shows "\<exists>app. update_node le k st = (Inr (), finish_node k rest app st) \<and> J app"
  using assms
proof (induction ms arbitrary: st s)
  case Nil
  have "message_ok host (EndMsg f)" by simp
  from recvPacket_wire [OF this Nil.prems(5), of rest le]
  obtain p where p: "recvPacket le packet_factory (nHeap st k) = (Inr p, (nHeap st k)\<lparr>mSockStream := Some (s\<lparr>sIncoming := rest\<rparr>)\<rparr>)"
    "mHeader p = Some (message_header host (EndMsg f))" using Nil.prems(6) by auto
  have "update_node le k st = (Inr (), finish_node k rest (nApp st) st)"
    using Nil.prems(3-5) p
    by (simp add: update_node.simps handlePacket_end finish_node_def upd_heap_def)
  then show ?case using Nil.prems(7) by blast
next
  case (Cons m ms)
  let ?tail = "concat (map (wire host) ms) @ wire host (EndMsg f) @ rest"
  let ?s = "s\<lparr>sIncoming := ?tail\<rparr>"
  let ?st = "upd_heap k (\<lambda>n. n\<lparr>mSockStream := Some ?s\<rparr>) st"
  have m: "message_ok host m" "message_type m \<noteq> RIM_END_BLOCK" "block_ok host ms"
    using Cons.prems(1) by (auto simp: block_ok_def)
  obtain p where p: "recvPacket le packet_factory (nHeap st k) = (Inr p, (nHeap st k)\<lparr>mSockStream := Some ?s\<rparr>)"
    "received host m p" "mHeader p = Some (message_header host m)"
    using recvPacket_wire [OF m(1) Cons.prems(5), of ?tail le] Cons.prems(6) by auto
  have st: "upd_heap k (\<lambda>_. (nHeap st k)\<lparr>mSockStream := Some ?s\<rparr>) st = ?st" by (simp add: upd_heap_def)
  have "handled J (mHandlerMap ?st) k host (m # ms)" "J (nApp ?st)"
    using Cons.prems(2,7) by (simp_all add: upd_heap_def)
  then obtain app where app: "handlePacket p k ?st = (Inr (), ?st\<lparr>nApp := app\<rparr>)" "J app"
    using handlePacket_plugin [OF _ _ _ p(2,3) m(2), of J ?st k "m # ms"] by auto
  have "update_node le k st = update_node le k (?st\<lparr>nApp := app\<rparr>)"
    using Cons.prems(3,4) p(1) app by (subst update_node.simps) (simp add: st)
  moreover have "\<exists>app'. update_node le k (?st\<lparr>nApp := app\<rparr>) = (Inr (), finish_node k rest app' (?st\<lparr>nApp := app\<rparr>)) \<and> J app'"
    by (rule Cons.IH [OF m(3), of _ ?s])
       (use Cons.prems app(2) in \<open>auto simp: upd_heap_def handled_def isConnected_def\<close>)
  moreover have "finish_node k rest app' (?st\<lparr>nApp := app\<rparr>) = finish_node k rest app' st" for app'
    using Cons.prems(5) by (simp add: finish_node_def upd_heap_def)
  ultimately show ?case by auto
qed
section \<open>The outer loop\<close>

record peers =
  peer_nodes :: "nat list"
  peer_host :: "nat \<Rightarrow> string"
  peer_messages :: "nat \<Rightarrow> message list"
  peer_frame :: "nat \<Rightarrow> u32"
  peer_rest :: "nat \<Rightarrow> u8 list"
  sent :: "nat \<Rightarrow> u8 list"

text \<open>
  What the loop keeps, for the connected nodes \<open>K\<close>: every peer's messages are well-formed,
  every node is where its peer's stream says, and the reactor knows exactly these nodes.
\<close>

definition update_inv :: "('a \<Rightarrow> bool) \<Rightarrow> peers \<Rightarrow> reactor \<Rightarrow> nat set \<Rightarrow> 'a netmgr \<Rightarrow> bool" where
  "update_inv J P r K st \<longleftrightarrow> J (nApp st) \<and> mNodes st = peer_nodes P \<and> mReactor st = r \<and> finite K
     \<and> mDemuxTable r ` set (mSelector r) \<subseteq> Some ` K
     \<and> (\<forall>k \<in> K. block_ok (peer_host P k) (peer_messages P k)
          \<and> handled J (mHandlerMap st) k (peer_host P k) (peer_messages P k)
          \<and> node_goes (peer_host P k) (peer_messages P k) (peer_frame P k) (sent P k) (peer_rest P k) (nHeap st k))"

definition waiting :: "nat set \<Rightarrow> 'a netmgr \<Rightarrow> nat set" where
  "waiting K st = {k \<in> K. \<not> mUpdated (nHeap st k)}"

lemma update_inv_selects: "update_inv J P r K st \<Longrightarrow> \<not> select_fails st"
  by (force simp: update_inv_def select_fails_def node_goes_def split: option.splits)

lemma update_inv_node:
  assumes "update_inv J P r K st" and "k \<in> K" and "\<not> mUpdated (nHeap st k)"
  shows "\<exists>app. update_node le k st = (Inr (), finish_node k (peer_rest P k) app st) \<and> J app"
proof -
  obtain s where "isConnected (nHeap st k)" "mSockStream (nHeap st k) = Some s"
    "sIncoming s = concat (map (wire (peer_host P k)) (peer_messages P k))
       @ wire (peer_host P k) (EndMsg (peer_frame P k)) @ peer_rest P k"
    using assms by (auto simp: update_inv_def node_goes_def)
  moreover have "block_ok (peer_host P k) (peer_messages P k)" "J (nApp st)"
    "handled J (mHandlerMap st) k (peer_host P k) (peer_messages P k)"
    using assms(1,2) by (auto simp: update_inv_def)
  ultimately show ?thesis using update_node_goes assms(3) by blast
qed

lemma update_inv_finish:
  assumes "update_inv J P r K st" and "k \<in> K" and "J app"
  shows "update_inv J P r K (finish_node k (peer_rest P k) app st)"
    and "waiting K (finish_node k (peer_rest P k) app st) = waiting K st - {k}"
  using assms
  by (auto simp: update_inv_def finish_node_def upd_heap_def node_goes_def waiting_def isConnected_def)

lemma finite_waiting: "update_inv J P r K st \<Longrightarrow> finite (waiting K st)"
  by (simp add: update_inv_def waiting_def)

lemma ready_pass_goes:
  assumes "update_inv J P r K st" and "set ks \<subseteq> Some ` K"
  shows "\<exists>c' st'. ready_pass le ks c st = (Inr c', st') \<and> update_inv J P r K st'
    \<and> c' + card (waiting K st') = c + card (waiting K st)
    \<and> waiting K st' = waiting K st - {k. Some k \<in> set ks}"
  using assms
proof (induction ks arbitrary: c st)
  case (Cons x ks)
  then obtain k where k: "x = Some k" "k \<in> K" by auto
  show ?case
  proof (cases "mUpdated (nHeap st k)")
    case True
    have "waiting K st - {j. Some j \<in> set (x # ks)} = waiting K st - {j. Some j \<in> set ks}"
      using True k by (auto simp: waiting_def)
    then show ?thesis using Cons.IH [OF Cons.prems(1), of c] Cons.prems(2) True k by simp
  next
    case False
    obtain app where step: "update_node le k st = (Inr (), finish_node k (peer_rest P k) app st)" and J: "J app"
      using update_inv_node [OF Cons.prems(1) k(2) False] by blast
    let ?st = "finish_node k (peer_rest P k) app st"
    have inv: "update_inv J P r K ?st" and w: "waiting K ?st = waiting K st - {k}"
      using update_inv_finish [OF Cons.prems(1) k(2) J] by simp_all
    have "k \<in> waiting K st" using False k by (simp add: waiting_def)
    then have card: "card (waiting K st) = Suc (card (waiting K ?st))"
      using finite_waiting [OF Cons.prems(1)] card.remove [of "waiting K st" k] w by simp
    have diff: "waiting K ?st - {j. Some j \<in> set ks} = waiting K st - {j. Some j \<in> set (x # ks)}"
      using w k by auto
    obtain c' st' where "ready_pass le ks (c + 1) ?st = (Inr c', st')" "update_inv J P r K st'"
        "c' + card (waiting K st') = c + 1 + card (waiting K ?st)"
        "waiting K st' = waiting K ?st - {j. Some j \<in> set ks}"
      using Cons.IH [OF inv, of "c + 1"] Cons.prems(2) by auto
    then show ?thesis using False step k card diff by auto
  qed
qed simp

definition next_ready :: "(nat \<Rightarrow> nat list option) \<Rightarrow> nat \<Rightarrow> nat option list \<Rightarrow> reactor \<Rightarrow> nat option list" where
  "next_ready sel i ready r = (case sel i of None \<Rightarrow> ready | Some events \<Rightarrow> getReadyNodes events r)"

lemma next_ready_subset:
  assumes "update_inv J P r K st" and "set ready \<subseteq> Some ` K"
  shows "set (next_ready sel i ready r) \<subseteq> Some ` K"
  using assms by (auto simp: next_ready_def getReadyNodes_def update_inv_def split: option.splits)

lemma update_loop_pass:
  assumes "completed \<noteq> num" and "mReactor st = r" and "\<not> select_fails st"
    and "ready_pass le (next_ready sel i ready r) completed st = (Inr c, st')"
  shows "update_loop le sel num i completed ready st
    = update_loop le sel num (Suc i) c (next_ready sel i ready r) st'"
  using assms by (subst update_loop.simps) (auto simp: next_ready_def Let_def)

text \<open>Every node with data is reported again and again.\<close>

definition fair :: "(nat \<Rightarrow> nat list option) \<Rightarrow> reactor \<Rightarrow> nat set \<Rightarrow> bool" where
  "fair sel r K \<longleftrightarrow> (\<forall>k \<in> K. \<forall>i. \<exists>j \<ge> i. \<exists>events. sel j = Some events
     \<and> (\<exists>h \<in> set events. h \<in> set (mSelector r) \<and> mDemuxTable r h = Some k))"

definition loop_done :: "('a \<Rightarrow> bool) \<Rightarrow> peers \<Rightarrow> reactor \<Rightarrow> nat set \<Rightarrow> (unit result \<times> 'a netmgr) option \<Rightarrow> bool" where
  "loop_done J P r K res \<longleftrightarrow> (\<exists>st'. res = Some (Inr (), st') \<and> update_inv J P r K st' \<and> waiting K st' = {})"

lemma update_loop_until:
  fixes st :: "'a netmgr"
  assumes IH: "\<And>i c ready (st :: 'a netmgr). update_inv J P r K st \<Longrightarrow> waiting K st \<subset> W \<Longrightarrow> c + card (waiting K st) = num \<Longrightarrow>
        set ready \<subseteq> Some ` K \<Longrightarrow> loop_done J P r K (update_loop le sel num i c ready st)"
    and event: "sel j = Some events" "h \<in> set events" "h \<in> set (mSelector r)" "mDemuxTable r h = Some k" "k \<in> W"
  shows "update_inv J P r K st \<Longrightarrow> waiting K st = W \<Longrightarrow> c + card W = num \<Longrightarrow> set ready \<subseteq> Some ` K \<Longrightarrow>
    j = i + d \<Longrightarrow> loop_done J P r K (update_loop le sel num i c ready st)"
proof (induction d arbitrary: i c ready st)
  case (0 i c ready st)
  have "finite W" using finite_waiting [OF 0(1)] 0(2) by simp
  then have "card W \<noteq> 0" using event(5) by auto
  then have c: "c \<noteq> num" using 0(3) by simp
  let ?ready = "next_ready sel i ready r"
  have ready: "set ?ready \<subseteq> Some ` K" by (rule next_ready_subset [OF 0(1,4)])
  obtain c' st' where pass: "ready_pass le ?ready c st = (Inr c', st')" "update_inv J P r K st'"
      "c' + card (waiting K st') = num" "waiting K st' = W - {k. Some k \<in> set ?ready}"
    using ready_pass_goes [OF 0(1) ready, of le c] 0(2,3) by auto
  have "Some k \<in> set ?ready"
    using event 0(5) by (force simp: next_ready_def getReadyNodes_def)
  then have "waiting K st' \<subset> W" using pass(4) event(5) by auto
  then have "loop_done J P r K (update_loop le sel num (Suc i) c' ?ready st')"
    using IH pass(2,3) ready by blast
  then show ?case
    using update_loop_pass [OF c _ update_inv_selects [OF 0(1)] pass(1)] 0(1) by (simp add: update_inv_def)
next
  case (Suc d i c ready st)
  have "finite W" using finite_waiting [OF Suc.prems(1)] Suc.prems(2) by simp
  then have "card W \<noteq> 0" using event(5) by auto
  then have c: "c \<noteq> num" using Suc.prems(3) by simp
  let ?ready = "next_ready sel i ready r"
  have ready: "set ?ready \<subseteq> Some ` K" by (rule next_ready_subset [OF Suc.prems(1,4)])
  obtain c' st' where pass: "ready_pass le ?ready c st = (Inr c', st')" "update_inv J P r K st'"
      "c' + card (waiting K st') = num" "waiting K st' = W - {k. Some k \<in> set ?ready}"
    using ready_pass_goes [OF Suc.prems(1) ready, of le c] Suc.prems(2,3) by auto
  have "loop_done J P r K (update_loop le sel num (Suc i) c' ?ready st')"
  proof (cases "waiting K st' = W")
    case True
    then show ?thesis using Suc.IH [OF pass(2) True _ ready, of c' "Suc i"] pass(3) Suc.prems(5) by simp
  next
    case False
    then have "waiting K st' \<subset> W" using pass(4) by auto
    then show ?thesis using IH pass(2,3) ready by blast
  qed
  then show ?case
    using update_loop_pass [OF c _ update_inv_selects [OF Suc.prems(1)] pass(1)] Suc.prems(1) by (simp add: update_inv_def)
qed

lemma update_loop_completes:
  assumes fair: "fair sel r K"
  shows "update_inv J P r K st \<Longrightarrow> c + card (waiting K st) = num \<Longrightarrow> set ready \<subseteq> Some ` K \<Longrightarrow>
    loop_done J P r K (update_loop le sel num i c ready st)"
proof (induction "card (waiting K st)" arbitrary: st i c ready rule: less_induct)
  case less
  show ?case
  proof (cases "waiting K st = {}")
    case True
    then have "c = num" using less.prems(2) by simp
    then show ?thesis using less.prems(1) True by (subst update_loop.simps) (simp add: loop_done_def)
  next
    case False
    then obtain k where k: "k \<in> waiting K st" by blast
    then have "k \<in> K" by (simp add: waiting_def)
    then obtain j events h where j: "i \<le> j" "sel j = Some events" "h \<in> set events"
        "h \<in> set (mSelector r)" "mDemuxTable r h = Some k"
      using fair unfolding fair_def by blast
    have "card W < card (waiting K st)" if "W \<subset> waiting K st" for W
      using psubset_card_mono [OF finite_waiting [OF less.prems(1)] that] .
    then have IH: "loop_done J P r K (update_loop le sel num i' c' ready' st')"
      if "update_inv J P r K st'" "waiting K st' \<subset> waiting K st" "c' + card (waiting K st') = num"
        "set ready' \<subseteq> Some ` K" for i' c' ready' and st' :: "'a netmgr"
      using less.hyps that by blast
    show ?thesis
      by (rule update_loop_until [OF IH j(2-5) k less.prems(1) refl less.prems(2,3), where d = "j - i"])
         (use j(1) in auto)
  qed
qed
section \<open>Sending the end blocks\<close>

definition append_out :: "u8 list \<Rightarrow> node \<Rightarrow> node" where
  "append_out bs n = n\<lparr>mSockStream := map_option (\<lambda>s. s\<lparr>sOutgoing := sOutgoing s @ bs\<rparr>) (mSockStream n)\<rparr>"

definition end_block_bytes :: "int \<Rightarrow> u8 list" where
  "end_block_bytes frame = wire [] (EndMsg (word_of_int frame))"

definition works :: "node \<Rightarrow> bool" where
  "works n \<longleftrightarrow> (\<exists>s. mSockStream n = Some s \<and> \<not> sBroken s)"

lemma end_block_sent:
  assumes "end_new le (word_of_int frame) = Inr p" and "works n"
  shows "node_send p n = Inr (append_out (end_block_bytes frame) n)"
proof -
  obtain s where s: "mSockStream n = Some s" "\<not> sBroken s" using assms(2) by (auto simp: works_def)
  have "message_ok [] (EndMsg (word_of_int frame))" by simp
  from node_send_wire [OF this s, of le] show ?thesis
    using assms(1) s by (auto simp: append_out_def end_block_bytes_def)
qed

lemma end_new_ok: "\<exists>p. end_new le f = Inr p"
  using make_packet_wire [of "[]" "EndMsg f" le] by auto

lemma isConnected_append_out [simp]: "isConnected (append_out bs n) = isConnected n"
  by (simp add: append_out_def isConnected_def)

lemma send_end_block_connected:
  assumes "\<And>n. works n \<Longrightarrow> node_send p n = Inr (append_out bs n)"
  shows "distinct ks \<Longrightarrow> \<forall>k \<in> set ks. isConnected (nHeap st k) \<longrightarrow> works (nHeap st k) \<Longrightarrow>
    send_end_block p ks c st
      = (Inr (c + length (filter (\<lambda>k. isConnected (nHeap st k)) ks)),
         st\<lparr>nHeap := \<lambda>k. if k \<in> set ks \<and> isConnected (nHeap st k) then append_out bs (nHeap st k) else nHeap st k\<rparr>)"
proof (induction ks arbitrary: c st)
  case Nil
  have "(\<lambda>k. if k \<in> set [] \<and> isConnected (nHeap st k) then append_out bs (nHeap st k) else nHeap st k) = nHeap st"
    by auto
  then show ?case by simp
next
  case (Cons k ks)
  show ?case
  proof (cases "isConnected (nHeap st k)")
    case True
    let ?st = "upd_heap k (\<lambda>_. append_out bs (nHeap st k)) st"
    have "filter (\<lambda>j. isConnected (nHeap ?st j)) ks = filter (\<lambda>j. isConnected (nHeap st j)) ks"
      using Cons.prems(1) by (intro filter_cong) (auto simp: upd_heap_def)
    moreover have "(\<lambda>j. if j \<in> set ks \<and> isConnected (nHeap ?st j) then append_out bs (nHeap ?st j) else nHeap ?st j)
        = (\<lambda>j. if j \<in> set (k # ks) \<and> isConnected (nHeap st j) then append_out bs (nHeap st j) else nHeap st j)"
      using Cons.prems(1) True by (auto simp: upd_heap_def fun_eq_iff)
    moreover have "\<forall>j \<in> set ks. isConnected (nHeap ?st j) \<longrightarrow> works (nHeap ?st j)"
      using Cons.prems by (auto simp: upd_heap_def)
    ultimately have "send_end_block p ks (c + 1) ?st
        = (Inr (c + 1 + length (filter (\<lambda>k. isConnected (nHeap st k)) ks)),
           ?st\<lparr>nHeap := \<lambda>j. if j \<in> set (k # ks) \<and> isConnected (nHeap st j) then append_out bs (nHeap st j) else nHeap st j\<rparr>)"
      using Cons.IH [of ?st "c + 1"] Cons.prems(1) by simp
    moreover have "node_send p (nHeap st k) = Inr (append_out bs (nHeap st k))"
      using assms Cons.prems(2) True by simp
    ultimately show ?thesis using True by (simp add: upd_heap_def)
  next
    case False
    then have "(\<lambda>j. if j \<in> set (k # ks) \<and> isConnected (nHeap st j) then append_out bs (nHeap st j) else nHeap st j)
        = (\<lambda>j. if j \<in> set ks \<and> isConnected (nHeap st j) then append_out bs (nHeap st j) else nHeap st j)"
      by (auto simp: fun_eq_iff)
    then show ?thesis using False Cons.IH [of st c] Cons.prems by simp
  qed
qed

lemma setAllUpdated_heap:
  "setAllUpdated b st = (length (mNodes st),
     st\<lparr>nHeap := \<lambda>k. if k \<in> set (mNodes st) then (nHeap st k)\<lparr>mUpdated := b\<rparr> else nHeap st k\<rparr>)"
proof -
  have "fold (\<lambda>k. upd_heap k (\<lambda>n. n\<lparr>mUpdated := b\<rparr>)) ks st
      = st\<lparr>nHeap := \<lambda>k. if k \<in> set ks then (nHeap st k)\<lparr>mUpdated := b\<rparr> else nHeap st k\<rparr>" for ks
  proof (induction ks arbitrary: st)
    case (Cons k ks)
    have "(\<lambda>j. if j \<in> set ks then ((nHeap (upd_heap k (\<lambda>n. n\<lparr>mUpdated := b\<rparr>) st) j)\<lparr>mUpdated := b\<rparr>)
             else nHeap (upd_heap k (\<lambda>n. n\<lparr>mUpdated := b\<rparr>) st) j)
        = (\<lambda>j. if j \<in> set (k # ks) then (nHeap st j)\<lparr>mUpdated := b\<rparr> else nHeap st j)"
      by (auto simp: upd_heap_def fun_eq_iff)
    then show ?case using Cons.IH [of "upd_heap k (\<lambda>n. n\<lparr>mUpdated := b\<rparr>) st"] by (simp add: upd_heap_def)
  qed simp
  then show ?thesis by (simp add: setAllUpdated_def)
qed

lemma uncorkNetwork_ok: "\<forall>k \<in> set (mNodes st). works (nHeap st k) \<Longrightarrow> uncorkNetwork st = Inr ()"
proof -
  have "\<forall>k \<in> set ks. works (nHeap st k) \<Longrightarrow> rfold (\<lambda>k _. setNoPush False (nHeap st k)) ks () = Inr ()" for ks
    by (induction ks) (auto simp: setNoPush_def works_def)
  then show "\<forall>k \<in> set (mNodes st). works (nHeap st k) \<Longrightarrow> uncorkNetwork st = Inr ()"
    by (simp add: uncorkNetwork_def)
qed

section \<open>The lock step\<close>

text \<open>
  What a connected node's peer sends in one frame: packets of other kinds, an end block and
  then the next frame's \<open>rest\<close>, on a connection that works.
\<close>

definition peer_sends :: "string \<Rightarrow> message list \<Rightarrow> u32 \<Rightarrow> u8 list \<Rightarrow> node \<Rightarrow> bool" where
  "peer_sends host ms f rest n \<longleftrightarrow> block_ok host ms
     \<and> (\<exists>s. mSockStream n = Some s \<and> \<not> sBroken s
          \<and> sIncoming s = concat (map (wire host) ms) @ wire host (EndMsg f) @ rest)"

definition connected :: "'a netmgr \<Rightarrow> nat set" where
  "connected st = {k \<in> set (mNodes st). isConnected (nHeap st k)}"

definition reactor_knows :: "'a netmgr \<Rightarrow> bool" where
  "reactor_knows st \<longleftrightarrow> mDemuxTable (mReactor st) ` set (mSelector (mReactor st)) \<subseteq> Some ` connected st"

text \<open>The state after the end blocks were sent and every node was marked not updated.\<close>

definition after_send :: "int \<Rightarrow> 'a netmgr \<Rightarrow> 'a netmgr" where
  "after_send frame st = st\<lparr>nHeap := \<lambda>k.
     if k \<in> connected st then append_out (end_block_bytes frame) ((nHeap st k)\<lparr>mUpdated := False\<rparr>)
     else if k \<in> set (mNodes st) then (nHeap st k)\<lparr>mUpdated := False\<rparr> else nHeap st k\<rparr>"

lemma finite_connected: "finite (connected st)"
  by (simp add: connected_def)

lemma card_connected: "distinct (mNodes st) \<Longrightarrow>
    length (filter (\<lambda>k. isConnected (nHeap st k)) (mNodes st)) = card (connected st)"
  by (simp add: connected_def flip: distinct_card)

lemma send_then_clear:
  assumes "distinct (mNodes st)" and "\<forall>k \<in> connected st. works (nHeap st k)"
  shows "\<exists>st1. sendEndBlocks le frame st = (Inr (card (connected st)), st1)
    \<and> snd (setAllUpdated False st1) = after_send frame st"
proof -
  obtain p where p: "end_new le (word_of_int frame) = Inr p" using end_new_ok by blast
  have "\<forall>k \<in> set (mNodes st). isConnected (nHeap st k) \<longrightarrow> works (nHeap st k)"
    using assms(2) by (simp add: connected_def)
  from send_end_block_connected [OF end_block_sent [OF p] assms(1) this, of 0] show ?thesis
    using p card_connected [OF assms(1)]
    by (auto simp: sendEndBlocks_def setAllUpdated_heap after_send_def connected_def append_out_def fun_eq_iff)
qed

lemma clear_then_send:
  assumes "distinct (mNodes st)" and "\<forall>k \<in> connected st. works (nHeap st k)"
  shows "sendEndBlocks le frame (snd (setAllUpdated False st)) = (Inr (card (connected st)), after_send frame st)"
proof -
  let ?st = "snd (setAllUpdated False st)"
  obtain p where p: "end_new le (word_of_int frame) = Inr p" using end_new_ok by blast
  have conn: "isConnected (nHeap ?st k) = isConnected (nHeap st k)" for k
    by (simp add: setAllUpdated_heap isConnected_def)
  have nodes: "mNodes ?st = mNodes st" by (simp add: setAllUpdated_heap)
  have "\<forall>k \<in> set (mNodes ?st). isConnected (nHeap ?st k) \<longrightarrow> works (nHeap ?st k)"
    using assms(2) unfolding conn nodes by (auto simp: connected_def setAllUpdated_heap works_def)
  from send_end_block_connected [OF end_block_sent [OF p] _ this, of 0] show ?thesis
    using p card_connected [OF assms(1)] assms(1) unfolding conn nodes
    by (auto simp: sendEndBlocks_def setAllUpdated_heap after_send_def connected_def append_out_def fun_eq_iff)
qed
definition frame_peers :: "(nat \<Rightarrow> string) \<Rightarrow> (nat \<Rightarrow> message list) \<Rightarrow> (nat \<Rightarrow> u32) \<Rightarrow> (nat \<Rightarrow> u8 list) \<Rightarrow> int
    \<Rightarrow> 'a netmgr \<Rightarrow> peers" where
  "frame_peers host ms f rest frame st =
     \<lparr>peer_nodes = mNodes st, peer_host = host, peer_messages = ms, peer_frame = f, peer_rest = rest,
      sent = \<lambda>k. case mSockStream (nHeap st k) of None \<Rightarrow> [] | Some s \<Rightarrow> sOutgoing s @ end_block_bytes frame\<rparr>"

lemma after_send_inv:
  assumes "J (nApp st)" and "\<forall>k \<in> connected st. handled J (mHandlerMap st) k (host k) (ms k)" and "reactor_knows st"
    and "\<forall>k \<in> connected st. peer_sends (host k) (ms k) (f k) (rest k) (nHeap st k)"
  shows "update_inv J (frame_peers host ms f rest frame st) (mReactor st) (connected st) (after_send frame st)"
    and "waiting (connected st) (after_send frame st) = connected st"
proof -
  have "finite (connected st)" by (simp add: connected_def)
  moreover have "node_goes (host k) (ms k) (f k) (sent (frame_peers host ms f rest frame st) k) (rest k)
      (nHeap (after_send frame st) k)" if k: "k \<in> connected st" for k
  proof -
    obtain s where "mSockStream (nHeap st k) = Some s" "\<not> sBroken s"
        "sIncoming s = concat (map (wire (host k)) (ms k)) @ wire (host k) (EndMsg (f k)) @ rest k"
      using assms(4) k by (auto simp: peer_sends_def)
    then show ?thesis
      using k by (simp add: node_goes_def after_send_def append_out_def frame_peers_def isConnected_def connected_def)
  qed
  ultimately show "update_inv J (frame_peers host ms f rest frame st) (mReactor st) (connected st) (after_send frame st)"
    using assms unfolding update_inv_def reactor_knows_def
    by (auto simp: after_send_def frame_peers_def peer_sends_def)
  show "waiting (connected st) (after_send frame st) = connected st"
    by (auto simp: waiting_def after_send_def append_out_def)
qed

lemma peer_sends_works: "peer_sends host ms f rest n \<Longrightarrow> works n"
  by (auto simp: peer_sends_def works_def)

text \<open>What a node has seen when its frame is over.\<close>

definition frame_over :: "int \<Rightarrow> (nat \<Rightarrow> u8 list) \<Rightarrow> 'a netmgr \<Rightarrow> 'a netmgr \<Rightarrow> nat \<Rightarrow> bool" where
  "frame_over frame rest st st' k \<longleftrightarrow> isConnected (nHeap st' k) \<and> mUpdated (nHeap st' k)
     \<and> (\<exists>s s'. mSockStream (nHeap st k) = Some s \<and> mSockStream (nHeap st' k) = Some s'
          \<and> sIncoming s' = rest k \<and> sOutgoing s' = sOutgoing s @ end_block_bytes frame)"

lemma loop_done_frame_over:
  assumes "loop_done J (frame_peers host ms f rest frame st) r (connected st) res"
    and "\<forall>k \<in> connected st. works (nHeap st k)"
  shows "\<exists>st'. res = Some (Inr (), st') \<and> J (nApp st') \<and> (\<forall>k \<in> connected st. frame_over frame rest st st' k)"
proof -
  obtain st' where st': "res = Some (Inr (), st')" "waiting (connected st) st' = {}"
    "update_inv J (frame_peers host ms f rest frame st) r (connected st) st'"
    using assms(1) by (auto simp: loop_done_def)
  have "frame_over frame rest st st' k" if k: "k \<in> connected st" for k
  proof -
    obtain s where "mSockStream (nHeap st k) = Some s" using assms(2) k by (auto simp: works_def)
    then show ?thesis
      using st'(2,3) k unfolding frame_over_def
      by (auto simp: update_inv_def node_goes_def waiting_def frame_peers_def)
  qed
  moreover have "J (nApp st')" using st'(3) by (simp add: update_inv_def)
  ultimately show ?thesis using st'(1) by blast
qed

lemma updateAllNodes_after_send:
  assumes "J (nApp st)" and "\<forall>k \<in> connected st. handled J (mHandlerMap st) k (host k) (ms k)" and "reactor_knows st"
    and "fair sel (mReactor st) (connected st)"
    and "\<forall>k \<in> connected st. peer_sends (host k) (ms k) (f k) (rest k) (nHeap st k)"
  shows "\<exists>st'. updateAllNodes le sel (card (connected st)) (after_send frame st) = Some (Inr (), st') \<and> J (nApp st')
    \<and> (\<forall>k \<in> connected st. frame_over frame rest st st' k)"
proof (rule loop_done_frame_over)
  show "loop_done J (frame_peers host ms f rest frame st) (mReactor st) (connected st)
      (updateAllNodes le sel (card (connected st)) (after_send frame st))"
    unfolding updateAllNodes_def
    by (rule update_loop_completes [OF assms(4) after_send_inv(1) [OF assms(1-3,5)]])
       (simp_all add: after_send_inv(2) [OF assms(1-3,5)])
  show "\<forall>k \<in> connected st. works (nHeap st k)" using assms(5) peer_sends_works by blast
qed

lemma update_returns:
  assumes "J (nApp st)" and "\<forall>k \<in> set (mNodes st). handled J (mHandlerMap st) k (host k) (ms k)"
    and "reactor_knows st" and "fair sel (mReactor st) (set (mNodes st))"
    and "distinct (mNodes st)" and "\<forall>k \<in> set (mNodes st). isConnected (nHeap st k)"
    and "\<forall>k \<in> set (mNodes st). peer_sends (host k) (ms k) (f k) (rest k) (nHeap st k)"
  shows "\<exists>st'. update le sel frame st = Some (Inr (), st') \<and> J (nApp st')
    \<and> (\<forall>k \<in> set (mNodes st). frame_over frame rest st st' k)"
proof -
  have K: "connected st = set (mNodes st)" using assms(6) by (auto simp: connected_def)
  have works: "\<forall>k \<in> connected st. works (nHeap st k)" using assms(7) K peer_sends_works by blast
  then have "\<forall>k \<in> set (mNodes (after_send frame st)). works (nHeap (after_send frame st) k)"
    unfolding K by (auto simp: after_send_def K append_out_def works_def)
  then have "uncorkNetwork (after_send frame st) = Inr ()" by (rule uncorkNetwork_ok)
  moreover have "sendEndBlocks le frame (snd (setAllUpdated False st)) = (Inr (card (connected st)), after_send frame st)"
    by (rule clear_then_send [OF assms(5) works])
  moreover have "\<exists>st'. updateAllNodes le sel (card (connected st)) (after_send frame st) = Some (Inr (), st') \<and> J (nApp st')
      \<and> (\<forall>k \<in> connected st. frame_over frame rest st st' k)"
    by (rule updateAllNodes_after_send) (use assms K in auto)
  ultimately show ?thesis using K by (simp add: update_def)
qed

text \<open>
  C4. The frame's lock step ends.  When every node is connected and known to the reactor,
  no connection breaks, every peer sends packets the handlers take and then its end block,
  and the selector keeps reporting nodes with data (with any number of timeouts in between,
  in any order), \<^verbatim>\<open>update\<close> returns; then what the
  handlers keep of the application's state holds, every node was sent this frame's end block, is
  marked updated, and exactly its peer's packets of this frame were taken off its stream.
\<close>

theorem update_completes:
  assumes "J (nApp st)" and "\<forall>k \<in> set (mNodes st). handled J (mHandlerMap st) k (host k) (ms k)"
    and "reactor_knows st" and "fair sel (mReactor st) (set (mNodes st))"
    and "distinct (mNodes st)" and "\<forall>k \<in> set (mNodes st). isConnected (nHeap st k)"
    and "\<forall>k \<in> set (mNodes st). peer_sends (host k) (ms k) (f k) (rest k) (nHeap st k)"
  shows "\<exists>st'. update le sel frame st = Some (Inr (), st') \<and> J (nApp st')
    \<and> (\<forall>k \<in> set (mNodes st). frame_over frame rest st st' k)"
  by (rule update_returns [OF assms])

text \<open>The master's barrier waits before it sends.\<close>

definition barrier_peers :: "(nat \<Rightarrow> string) \<Rightarrow> (nat \<Rightarrow> message list) \<Rightarrow> (nat \<Rightarrow> u32) \<Rightarrow> (nat \<Rightarrow> u8 list) \<Rightarrow> 'a netmgr \<Rightarrow> peers" where
  "barrier_peers host ms f rest st =
     \<lparr>peer_nodes = mNodes st, peer_host = host, peer_messages = ms, peer_frame = f, peer_rest = rest,
      sent = \<lambda>k. case mSockStream (nHeap st k) of None \<Rightarrow> [] | Some s \<Rightarrow> sOutgoing s\<rparr>"

lemma cleared_inv:
  assumes "J (nApp st)" and "\<forall>k \<in> connected st. handled J (mHandlerMap st) k (host k) (ms k)" and "reactor_knows st"
    and "\<forall>k \<in> connected st. peer_sends (host k) (ms k) (f k) (rest k) (nHeap st k)"
  shows "update_inv J (barrier_peers host ms f rest st) (mReactor st) (connected st) (snd (setAllUpdated False st))"
  using assms unfolding update_inv_def reactor_knows_def barrier_peers_def
  by (auto simp: setAllUpdated_heap connected_def peer_sends_def node_goes_def isConnected_def)

lemma barrier_master:
  assumes "J (nApp st)" and "\<forall>k \<in> set (mNodes st). handled J (mHandlerMap st) k (host k) (ms k)"
    and "reactor_knows st" and "fair sel (mReactor st) (set (mNodes st))"
    and "distinct (mNodes st)" and "\<forall>k \<in> set (mNodes st). isConnected (nHeap st k)"
    and "\<forall>k \<in> set (mNodes st). peer_sends (host k) (ms k) (f k) (rest k) (nHeap st k)"
  shows "\<exists>st'. barrier le sel True st = Some (Inr (), st') \<and> J (nApp st') \<and> mNodes st' = mNodes st
    \<and> (\<forall>k \<in> set (mNodes st). frame_over 0 rest st st' k)"
proof -
  let ?P = "barrier_peers host ms f rest st" and ?K = "set (mNodes st)" and ?st = "snd (setAllUpdated False st)"
  have K: "connected st = ?K" using assms(6) by (auto simp: connected_def)
  have inv: "update_inv J ?P (mReactor st) ?K ?st"
    using cleared_inv [of J st host ms f rest] assms(1-3,7) unfolding K by blast
  have "waiting ?K ?st = ?K" by (auto simp: waiting_def setAllUpdated_heap)
  then have "card (waiting ?K ?st) = length (mNodes st)" using distinct_card [OF assms(5)] by simp
  then have "loop_done J ?P (mReactor st) ?K (updateAllNodes le sel (length (mNodes st)) ?st)"
    unfolding updateAllNodes_def by (intro update_loop_completes [OF assms(4) inv]) simp_all
  then obtain st1 where st1: "updateAllNodes le sel (length (mNodes st)) ?st = Some (Inr (), st1)"
    "update_inv J ?P (mReactor st) ?K st1" "waiting ?K st1 = {}" by (auto simp: loop_done_def)
  have nodes: "mNodes st1 = mNodes st" "J (nApp st1)" using st1(2) by (simp_all add: update_inv_def barrier_peers_def)
  have node: "isConnected (nHeap st1 k) \<and> mUpdated (nHeap st1 k) \<and> (\<exists>s s'. mSockStream (nHeap st k) = Some s
      \<and> mSockStream (nHeap st1 k) = Some s' \<and> \<not> sBroken s' \<and> sIncoming s' = rest k \<and> sOutgoing s' = sOutgoing s)" if "k \<in> ?K" for k
  proof -
    obtain s where "mSockStream (nHeap st k) = Some s" using assms(7) \<open>k \<in> ?K\<close> by (auto simp: peer_sends_def)
    then show ?thesis
      using st1(2,3) \<open>k \<in> ?K\<close> by (auto simp: update_inv_def node_goes_def waiting_def barrier_peers_def)
  qed
  obtain p where p: "end_new le (word_of_int 0) = Inr p" using end_new_ok by blast
  have "\<forall>k \<in> set (mNodes st1). isConnected (nHeap st1 k) \<longrightarrow> works (nHeap st1 k)"
    using node unfolding nodes works_def by blast
  from send_end_block_connected [OF end_block_sent [OF p] _ this, of 0] obtain st2 c where st2:
    "send_end_block p (mNodes st1) 0 st1 = (Inr c, st2)" "mNodes st2 = mNodes st1" "nApp st2 = nApp st1"
    "\<And>k. k \<in> ?K \<Longrightarrow> nHeap st2 k = append_out (end_block_bytes 0) (nHeap st1 k)"
    using assms(5) node unfolding nodes by (auto simp: nodes)
  have "frame_over 0 rest st st2 k" if "k \<in> ?K" for k
    using node [OF that] st2(4) [OF that] by (auto simp: frame_over_def append_out_def isConnected_def)
  moreover have "barrier le sel True st = Some (Inr (), st2)"
    using st1(1) st2(1) p by (simp add: barrier_def sendEndBlocks_def)
  ultimately show ?thesis using st2(2,3) nodes by auto
qed

text \<open>Node 0 is connected and its peer has sent an end block; node 1 never was.\<close>

definition lost_example :: "unit netmgr" where
  "lost_example =
     \<lparr>nHeap = (\<lambda>k. if k = 0
        then (node_new ''a'' ''host-a'' 7000 (Some \<lparr>sHandle = 7, sIncoming = wire ''a'' (EndMsg 3),
               sOutgoing = [], sBroken = False\<rparr>))\<lparr>mStatus := CONNECTED\<rparr>
        else node_new ''b'' ''host-b'' 7000 None),
      nNext = 2, mNodes = [0, 1], mHandlerMap = Map.empty,
      mReactor = \<lparr>mSelector = [7], mDemuxTable = [7 \<mapsto> 0]\<rparr>, nApp = ()\<rparr>"

lemma lost_example_ok:
  "handled (\<lambda>_. True) (mHandlerMap (lost_example\<lparr>mNodes := ks\<rparr>)) k host ms"
  "isConnected (nHeap (lost_example\<lparr>mNodes := ks\<rparr>) k) \<longleftrightarrow> k = 0"
  "0 \<in> set ks \<Longrightarrow> connected (lost_example\<lparr>mNodes := ks\<rparr>) = {0}"
  "0 \<in> set ks \<Longrightarrow> reactor_knows (lost_example\<lparr>mNodes := ks\<rparr>)"
  "fair (\<lambda>_. Some [7]) (mReactor (lost_example\<lparr>mNodes := ks\<rparr>)) {0}"
  "peer_sends ''a'' [] 3 [] (nHeap (lost_example\<lparr>mNodes := ks\<rparr>) 0)"
  by (auto simp: lost_example_def handled_def isConnected_def node_new_def connected_def
      reactor_knows_def fair_def peer_sends_def block_ok_def)

theorem update_completes_witness:
  "\<exists>st'. update True (\<lambda>_. Some [7]) 12 (lost_example\<lparr>mNodes := [0]\<rparr>) = Some (Inr (), st')
     \<and> mUpdated (nHeap st' 0)"
proof -
  let ?st = "lost_example\<lparr>mNodes := [0]\<rparr>"
  have set: "set (mNodes ?st) = {0}" by simp
  have "\<exists>st'. update True (\<lambda>_. Some [7]) 12 ?st = Some (Inr (), st')
      \<and> True \<and> (\<forall>k \<in> set (mNodes ?st). frame_over 12 (\<lambda>_. []) ?st st' k)"
    by (rule update_completes [where J = "\<lambda>_. True" and host = "\<lambda>_. ''a''" and ms = "\<lambda>_. []" and f = "\<lambda>_. 3"])
       (use lost_example_ok [of "[0]"] in \<open>simp_all only: set ball_simps simp_thms\<close>, simp_all)
  then show ?thesis by (auto simp: frame_over_def)
qed

section \<open>Failures in a frame\<close>

text \<open>
  A peer whose connection ends is not shut down: the end of the stream is an
  \<^verbatim>\<open>IOException\<close>, which \<^verbatim>\<open>recvPacket\<close> throws on and the handler for
  \<^verbatim>\<open>ClusterException\<close> does not catch, so it leaves \<^verbatim>\<open>updateAllNodes\<close> with the node still
  marked connected and the other nodes not updated.
\<close>

theorem lost_peer_escapes:
  assumes "num \<noteq> 0" and "\<not> select_fails st" and "sel 0 = Some events" and "getReadyNodes events (mReactor st) = Some k # ks"
    and "isConnected (nHeap st k)" and "\<not> mUpdated (nHeap st k)"
    and "mSockStream (nHeap st k) = Some s" and "length (sIncoming s) < 12"
  shows "\<exists>st'. updateAllNodes le sel num st = Some (Inl (IOError ''connection closed''), st')
    \<and> isConnected (nHeap st' k) \<and> (\<forall>j. mUpdated (nHeap st' j) = mUpdated (nHeap st j))"
proof -
  let ?n = "(nHeap st k)\<lparr>mSockStream := Some (s\<lparr>sIncoming := []\<rparr>)\<rparr>"
  have "recvPacket le packet_factory (nHeap st k) = (Inl (IOError ''connection closed''), ?n)"
    using assms(7,8) by (simp add: recvPacket_def readData_def stream_readn_def RIM_PACKET_HEAD_SIZE_def)
  then have "update_node le k st = (Inl (IOError ''connection closed''), upd_heap k (\<lambda>_. ?n) st)"
    using assms(5,6) by (simp add: update_node.simps)
  then have "updateAllNodes le sel num st = Some (Inl (IOError ''connection closed''), upd_heap k (\<lambda>_. ?n) st)"
    using assms(1-4,6) by (simp add: updateAllNodes_def update_loop.simps)
  then show ?thesis using assms(5) by (simp add: upd_heap_def isConnected_def)
qed

theorem lost_peer_escapes_witness:
  "\<exists>st'. updateAllNodes True (\<lambda>_. Some [7]) 1 (upd_heap 0 (\<lambda>n. n\<lparr>mSockStream :=
       Some \<lparr>sHandle = 7, sIncoming = [], sOutgoing = [], sBroken = False\<rparr>\<rparr>) lost_example)
     = Some (Inl (IOError ''connection closed''), st') \<and> isConnected (nHeap st' 0)"
proof -
  let ?s = "\<lparr>sHandle = 7, sIncoming = [], sOutgoing = [], sBroken = False\<rparr> :: stream"
  let ?st = "upd_heap 0 (\<lambda>n. n\<lparr>mSockStream := Some ?s\<rparr>) lost_example"
  have "\<exists>st'. updateAllNodes True (\<lambda>_. Some [7]) 1 ?st = Some (Inl (IOError ''connection closed''), st')
      \<and> isConnected (nHeap st' 0) \<and> (\<forall>j. mUpdated (nHeap st' j) = mUpdated (nHeap ?st j))"
    by (rule lost_peer_escapes [where events = "[7]" and s = ?s and ks = "[]"])
       (simp_all add: lost_example_def upd_heap_def getReadyNodes_def isConnected_def node_new_def select_fails_def)
  then show ?thesis by blast
qed

text \<open>
  A node whose peer sends a bad packet is shut down in the loop.  If more nodes are awaited the
  next call of the selector, on the closed descriptor, throws.
\<close>

lemma shutdown_pass:
  assumes "isConnected (nHeap st k)" and "\<not> mUpdated (nHeap st k)"
    and "recvPacket le packet_factory (nHeap st k) = (Inl (ClusterError msg), n)"
  shows "ready_pass le [Some k] c st = (Inr (c + 1), upd_heap k (\<lambda>_. node_shutdown n) st)"
proof -
  have "update_node le k st = (Inl (ClusterError msg), upd_heap k (\<lambda>_. n) st)"
    using assms by (simp add: update_node.simps)
  then show ?thesis using assms(2) by (simp add: upd_heap_def)
qed

lemma closed_handle_fails:
  "h \<in> set (mSelector (mReactor st)) \<Longrightarrow> mDemuxTable (mReactor st) h = Some k \<Longrightarrow>
     nHeap st k = node_shutdown n \<Longrightarrow> select_fails st"
  by (auto simp: select_fails_def node_shutdown_def intro!: bexI [of _ h])

lemma update_loop_fails: "c \<noteq> num \<Longrightarrow> select_fails st \<Longrightarrow> update_loop le sel num i c ready st = Some (Inl select_error, st)"
  by (subst update_loop.simps) simp

lemma update_loop_none: "update_loop le sel c i c ready st = Some (Inr (), st)"
  by (subst update_loop.simps) simp

lemma shutdown_in_frame:
  assumes "num \<noteq> 0" and "\<not> select_fails st" and "sel 0 = Some events" and "getReadyNodes events (mReactor st) = [Some k]"
    and "isConnected (nHeap st k)" and "\<not> mUpdated (nHeap st k)"
    and "recvPacket le packet_factory (nHeap st k) = (Inl (ClusterError msg), n)"
    and "h \<in> set (mSelector (mReactor st))" and "mDemuxTable (mReactor st) h = Some k"
  shows "updateAllNodes le sel num st
    = Some (if num = 1 then Inr () else Inl select_error, upd_heap k (\<lambda>_. node_shutdown n) st)"
proof -
  let ?st = "upd_heap k (\<lambda>_. node_shutdown n) st"
  have "updateAllNodes le sel num st = update_loop le sel num 1 1 [Some k] ?st"
    unfolding updateAllNodes_def using assms(1-4) shutdown_pass [OF assms(5-7), of 0] by (subst update_loop.simps) simp
  moreover have "select_fails ?st"
    by (rule closed_handle_fails [of h _ k n]) (use assms(8,9) in \<open>simp_all add: upd_heap_def\<close>)
  ultimately show ?thesis by (simp add: update_loop_none [of _ _ "Suc 0"] update_loop_fails)
qed

text \<open>
  A node that was shut down stays in the manager's list, and the next \<^verbatim>\<open>update\<close>
  dereferences its deleted stream to uncork it, after it has sent the end blocks.
\<close>

lemma update_after_loss:
  assumes "distinct (mNodes st)" and "\<forall>k \<in> connected st. works (nHeap st k)"
    and "lost \<in> set (mNodes st)" and "nHeap st lost = node_shutdown n"
  shows "update le sel frame st = Some (Inl (Undefined ''null stream''), after_send frame st)"
proof -
  have "lost \<notin> connected st" using assms(4) by (simp add: connected_def isConnected_def node_shutdown_def setStatus_def)
  then have null: "mSockStream (nHeap (after_send frame st) lost) = None"
    using assms(4) by (simp add: after_send_def node_shutdown_def setStatus_def)
  have "rfold (\<lambda>k _. setNoPush False (nHeap st' k)) ks () = Inl (Undefined ''null stream'')"
    if "lost \<in> set ks" "mSockStream (nHeap st' lost) = None" for ks and st' :: "'a netmgr"
    using that by (induction ks) (auto simp: setNoPush_def split: option.splits)
  moreover have "lost \<in> set (mNodes (after_send frame st))" using assms(3) by (simp add: after_send_def)
  ultimately have "uncorkNetwork (after_send frame st) = Inl (Undefined ''null stream'')"
    using null unfolding uncorkNetwork_def by blast
  then show ?thesis using clear_then_send [OF assms(1,2), of le frame] by (simp add: update_def)
qed

lemma select_fails_cong:
  "mReactor st' = mReactor st \<Longrightarrow> (\<And>k. mSockStream (nHeap st k) = None \<Longrightarrow> mSockStream (nHeap st' k) = None) \<Longrightarrow>
     select_fails st \<Longrightarrow> select_fails st'"
  by (force simp: select_fails_def split: option.splits)

text \<open>
  C11. A lost node ends the lock step for good.  Let one of the manager's nodes have been shut
  down, as \<^verbatim>\<open>updateAllNodes\<close> does with a node whose packets are bad: it stays in the manager's list
  and its handle in the reactor.  Let the connections still open work.  Then \<^verbatim>\<open>update\<close> sends the
  end blocks and dereferences the lost node's deleted stream; the master's barrier ends with the
  selector's exception before it has sent anything; a slave's barrier, which counts the nodes it
  sent to, returns when none is left, and ends with that exception otherwise.  No packet is read.
\<close>

theorem barrier_lost_node:
  assumes "distinct (mNodes st)" and "\<forall>k \<in> connected st. works (nHeap st k)"
    and "lost \<in> set (mNodes st)" and "nHeap st lost = node_shutdown n"
    and "h \<in> set (mSelector (mReactor st))" and "mDemuxTable (mReactor st) h = Some lost"
  shows "update le sel frame st = Some (Inl (Undefined ''null stream''), after_send frame st)
    \<and> barrier le sel True st = Some (Inl select_error, snd (setAllUpdated False st))
    \<and> barrier le sel False st
        = Some (if connected st = {} then Inr () else Inl select_error, after_send 0 st)"
proof -
  note fails = closed_handle_fails [OF assms(5,6,4)]
  have "length (mNodes st) \<noteq> 0" using assms(3) by auto
  moreover have "select_fails (snd (setAllUpdated False st))"
    by (rule select_fails_cong [OF _ _ fails]) (simp_all add: setAllUpdated_heap)
  ultimately have "barrier le sel True st = Some (Inl select_error, snd (setAllUpdated False st))"
    by (simp add: barrier_def updateAllNodes_def update_loop_fails)
  moreover have "select_fails (after_send 0 st)"
    by (rule select_fails_cong [OF _ _ fails]) (simp_all add: after_send_def append_out_def)
  then have "updateAllNodes le sel (card (connected st)) (after_send 0 st)
      = Some (if connected st = {} then Inr () else Inl select_error, after_send 0 st)"
    by (cases "connected st = {}")
      (simp_all add: updateAllNodes_def update_loop_fails update_loop_none [of _ _ 0] finite_connected card_gt_0_iff)
  then have "barrier le sel False st
      = Some (if connected st = {} then Inr () else Inl select_error, after_send 0 st)"
    using send_then_clear [OF assms(1,2), of le 0] by (cases "connected st = {}") (auto simp: barrier_def)
  ultimately show ?thesis using update_after_loss [OF assms(1-4)] by blast
qed

text \<open>A run: the only node sends a header of no kind, is shut down, and the master comes to a barrier.\<close>

definition bad_stream :: stream where
  "bad_stream = \<lparr>sHandle = 7, sIncoming = header_bytes (header_new 401 0 12 0), sOutgoing = [], sBroken = False\<rparr>"

definition bad_peer :: "unit netmgr" where
  "bad_peer = upd_heap 0 (\<lambda>n. n\<lparr>mSockStream := Some bad_stream\<rparr>) (lost_example\<lparr>mNodes := [0]\<rparr>)"

lemma bad_peer_shut_down:
  "\<exists>n. updateAllNodes True (\<lambda>_. Some [7]) 1 bad_peer = Some (Inr (), upd_heap 0 (\<lambda>_. node_shutdown n) bad_peer)"
proof -
  have "mSockStream (nHeap bad_peer 0) = Some bad_stream" by (simp add: bad_peer_def upd_heap_def)
  then have "fst (recvPacket True packet_factory (nHeap bad_peer 0))
      = Inl (ClusterError ''Header::parseHeader() - Invalid packet header!'')"
    by (simp add: recvPacket_def readData_def stream_readn_def RIM_PACKET_HEAD_SIZE_def
        header_bytes_parse header_new_def RIM_PACKET_def bad_stream_def)
  then obtain n where recv: "recvPacket True packet_factory (nHeap bad_peer 0)
      = (Inl (ClusterError ''Header::parseHeader() - Invalid packet header!''), n)"
    by (metis prod.collapse)
  have "updateAllNodes True (\<lambda>_. Some [7]) 1 bad_peer
      = Some (if (1::nat) = 1 then Inr () else Inl select_error, upd_heap 0 (\<lambda>_. node_shutdown n) bad_peer)"
    by (rule shutdown_in_frame [where events = "[7]" and h = 7, OF _ _ _ _ _ _ recv])
      (simp_all add: bad_peer_def lost_example_def upd_heap_def getReadyNodes_def isConnected_def node_new_def
        select_fails_def)
  then show ?thesis by auto
qed

theorem barrier_lost_node_witness:
  "\<exists>st. updateAllNodes True (\<lambda>_. Some [7]) 1 bad_peer = Some (Inr (), st)
     \<and> update True (\<lambda>_. Some [7]) 2 st = Some (Inl (Undefined ''null stream''), after_send 2 st)
     \<and> barrier True (\<lambda>_. Some [7]) True st = Some (Inl select_error, snd (setAllUpdated False st))"
proof -
  obtain n where run: "updateAllNodes True (\<lambda>_. Some [7]) 1 bad_peer
      = Some (Inr (), upd_heap 0 (\<lambda>_. node_shutdown n) bad_peer)"
    using bad_peer_shut_down by blast
  let ?st = "upd_heap 0 (\<lambda>_. node_shutdown n) bad_peer"
  have st: "mNodes ?st = [0]" "nHeap ?st 0 = node_shutdown n" "mSelector (mReactor ?st) = [7]"
    "mDemuxTable (mReactor ?st) 7 = Some 0"
    by (simp_all add: bad_peer_def lost_example_def upd_heap_def)
  then have "connected ?st = {}" by (auto simp: connected_def node_shutdown_def setStatus_def isConnected_def)
  then show ?thesis using barrier_lost_node [of ?st 0 n 7] st run by (intro exI [of _ ?st]) simp
qed

end
