(* ===== verification/JcclConfig.thy ===== *)
theory JcclConfig
  imports Prelude "HOL-Library.Multiset"
begin

text \<open>
  Run-time reconfiguration (\<^verbatim>\<open>jackal/rtrc/jccl/RTRC/ConfigManager.cpp\<close>,
  \<^verbatim>\<open>ConfigElementHandler.cpp\<close>, \<^verbatim>\<open>DependencyManager.cpp\<close>, \<^verbatim>\<open>DepChecker.cpp\<close> and
  Gadgeteer's two dependency checkers): requests to add and remove configuration elements
  wait in a list until a handler takes them, an addition only when the elements it depends
  on are active.

  A configuration element is what the manager asks of it: its name, its type and the names
  \<^verbatim>\<open>getElementPtrDependencies\<close> collects from its XML tree.  Handlers are clients: what
  they can handle, and what \<^verbatim>\<open>configAdd\<close> and \<^verbatim>\<open>configRemove\<close> answer and do to their own
  state of type \<open>'s\<close>, are arguments, and so are the slots connected to the configuration
  signal.  A handler runs while the manager holds the pending list's lock, and may use the
  manager: it is given the lists and the locks as they are, may fail, for one by asking for
  a lock that is held, and may ask for more elements.  (What the model leaves out is a handler
  that registers or removes handlers while it is called.)  \<^verbatim>\<open>vpr::Mutex\<close> is not recursive:
  taking one twice never returns.
\<close>

record config_element =
  getName :: string
  getID :: string
  getElementPtrDependencies :: "string list"

datatype pending_type = ADD | REMOVE

record pending_element =
  mType :: pending_type
  mElement :: config_element

section \<open>Configurations\<close>

type_synonym configuration = "config_element list"

definition config_get :: "string \<Rightarrow> configuration \<Rightarrow> config_element option" where
  "config_get name els = find (\<lambda>e. name = getName e) els"

definition config_getByType :: "string \<Rightarrow> configuration \<Rightarrow> configuration" where
  "config_getByType typeName els = filter (\<lambda>e. typeName = getID e) els"

fun config_remove :: "string \<Rightarrow> configuration \<Rightarrow> bool \<times> configuration" where
  "config_remove name [] = (False, [])"
| "config_remove name (e # els) =
     (if name = getName e then (True, els)
      else let (found, els') = config_remove name els in (found, e # els'))"

text \<open>An element of the same name is replaced where it is.\<close>

fun config_add :: "config_element \<Rightarrow> configuration \<Rightarrow> configuration" where
  "config_add newElement [] = [newElement]"
| "config_add newElement (e # els) =
     (if getName e = getName newElement then newElement # els else e # config_add newElement els)"

section \<open>Checkers\<close>

text \<open>The base class and the two that Gadgeteer registers.\<close>

datatype dep_checker = DepChecker | ProxyDepChecker | ClusterDepChecker

fun canHandle :: "dep_checker \<Rightarrow> config_element \<Rightarrow> bool" where
  "canHandle DepChecker element \<longleftrightarrow> True"
| "canHandle ProxyDepChecker element \<longleftrightarrow>
     getID element = ''analog_proxy'' \<or> getID element = ''digital_proxy'' \<or> getID element = ''gesture_proxy''
     \<or> getID element = ''glove_proxy'' \<or> getID element = ''keyboard_mouse_proxy'' \<or> getID element = ''position_proxy''"
| "canHandle ClusterDepChecker element \<longleftrightarrow> getID element = ''cluster_node''"

section \<open>The manager\<close>

text \<open>The manager's lists and locks, and with them the state of its clients.\<close>

record config_lists =
  mActiveConfig :: configuration
  mPendingConfig :: "pending_element list"
  mPendingLock :: bool
  mActiveLock :: bool
  mIncomingConfig :: "pending_element list"
  mIncomingLock :: bool
  mElementHandlers :: "nat list"
  mPendingCountMutex :: bool
  mPendingCheckCount :: int
  mLastPendingSize :: nat
  mDepCheckers :: "dep_checker list"

record 's config_manager = config_lists +
  cmClient :: 's

text \<open>
  A handler's call answers whether it did what it was asked, which elements it asked for
  meanwhile, and its state.
\<close>

record 's handlers =
  configCanHandle :: "nat \<Rightarrow> config_element \<Rightarrow> bool"
  configAdd :: "nat \<Rightarrow> config_element \<Rightarrow> config_lists \<Rightarrow> 's \<Rightarrow> (bool \<times> pending_element list \<times> 's) result"
  configRemove :: "nat \<Rightarrow> config_element \<Rightarrow> config_lists \<Rightarrow> 's \<Rightarrow> (bool \<times> pending_element list \<times> 's) result"
  mConfigurationSignal :: "configuration \<Rightarrow> pending_type \<Rightarrow> 's \<Rightarrow> 's result"

definition config_manager_new :: "'s \<Rightarrow> 's config_manager" where
  "config_manager_new client =
     \<lparr>mActiveConfig = [], mPendingConfig = [], mPendingLock = False, mActiveLock = False,
      mIncomingConfig = [], mIncomingLock = False, mElementHandlers = [], mPendingCountMutex = False,
      mPendingCheckCount = 0, mLastPendingSize = 0, mDepCheckers = [], cmClient = client\<rparr>"

definition deadlock :: failure where
  "deadlock = LockError ''mutex already held by this thread''"

definition lockPending :: "'a config_lists_scheme \<Rightarrow> 'a config_lists_scheme result" where
  "lockPending st = (if mPendingLock st then Inl deadlock else Inr (st\<lparr>mPendingLock := True\<rparr>))"

definition unlockPending :: "'a config_lists_scheme \<Rightarrow> 'a config_lists_scheme" where
  "unlockPending st = st\<lparr>mPendingLock := False\<rparr>"

definition lockActive :: "'a config_lists_scheme \<Rightarrow> 'a config_lists_scheme result" where
  "lockActive st = (if mActiveLock st then Inl deadlock else Inr (st\<lparr>mActiveLock := True\<rparr>))"

definition unlockActive :: "'a config_lists_scheme \<Rightarrow> 'a config_lists_scheme" where
  "unlockActive st = st\<lparr>mActiveLock := False\<rparr>"

definition lockIncoming :: "'a config_lists_scheme \<Rightarrow> 'a config_lists_scheme result" where
  "lockIncoming st = (if mIncomingLock st then Inl deadlock else Inr (st\<lparr>mIncomingLock := True\<rparr>))"

definition unlockIncoming :: "'a config_lists_scheme \<Rightarrow> 'a config_lists_scheme" where
  "unlockIncoming st = st\<lparr>mIncomingLock := False\<rparr>"

definition lockCount :: "'a config_lists_scheme \<Rightarrow> 'a config_lists_scheme result" where
  "lockCount st = (if mPendingCountMutex st then Inl deadlock else Inr (st\<lparr>mPendingCountMutex := True\<rparr>))"

definition unlockCount :: "'a config_lists_scheme \<Rightarrow> 'a config_lists_scheme" where
  "unlockCount st = st\<lparr>mPendingCountMutex := False\<rparr>"

subsection \<open>Queries\<close>

text \<open>The guard of a query releases the lock again, so its state is the one before.\<close>

definition getElementFromActive :: "string \<Rightarrow> 'a config_lists_scheme \<Rightarrow> config_element option result" where
  "getElementFromActive elementName st =
     rbind (lockActive st) (\<lambda>st. Inr (find (\<lambda>e. getName e = elementName) (mActiveConfig st)))"

text \<open>The loop over the pending list does not stop at the first match: the last one counts.\<close>

definition getElementFromPending :: "string \<Rightarrow> 'a config_lists_scheme \<Rightarrow> config_element option result" where
  "getElementFromPending elementName st =
     rbind (lockPending st) (\<lambda>st.
     Inr (foldl (\<lambda>elt p. if getName (mElement p) = elementName then Some (mElement p) else elt)
            None (mPendingConfig st)))"

definition getElementNamed :: "string \<Rightarrow> 'a config_lists_scheme \<Rightarrow> config_element option result" where
  "getElementNamed elementName st =
     rbind (getElementFromActive elementName st) (\<lambda>elt.
     if elt = None then getElementFromPending elementName st else Inr elt)"

definition isElementInActiveList :: "string \<Rightarrow> 'a config_lists_scheme \<Rightarrow> bool result" where
  "isElementInActiveList element_name st =
     rbind (lockActive st) (\<lambda>st. Inr (list_ex (\<lambda>e. getName e = element_name) (mActiveConfig st)))"

definition isElementTypeInActiveList :: "string \<Rightarrow> 'a config_lists_scheme \<Rightarrow> bool result" where
  "isElementTypeInActiveList elementType st =
     rbind (lockActive st) (\<lambda>st. Inr (list_ex (\<lambda>e. getID e = elementType) (mActiveConfig st)))"

definition isElementTypeInPendingList :: "string \<Rightarrow> 'a config_lists_scheme \<Rightarrow> bool result" where
  "isElementTypeInPendingList elementType st =
     rbind (lockPending st) (\<lambda>st. Inr (list_ex (\<lambda>p. getID (mElement p) = elementType) (mPendingConfig st)))"

definition hasElementType :: "string \<Rightarrow> 'a config_lists_scheme \<Rightarrow> bool result" where
  "hasElementType elementType st =
     rbind (isElementTypeInActiveList elementType st) (\<lambda>found.
     if found then Inr True else isElementTypeInPendingList elementType st)"

subsection \<open>Dependencies\<close>

fun check_deps :: "string list \<Rightarrow> bool \<Rightarrow> 'a config_lists_scheme \<Rightarrow> bool result" where
  "check_deps [] pass st = Inr pass"
| "check_deps (d # ds) pass st =
     rbind (isElementInActiveList d st) (\<lambda>active. check_deps ds (if \<not> active then False else pass) st)"

fun depSatisfied :: "dep_checker \<Rightarrow> config_element \<Rightarrow> 'a config_lists_scheme \<Rightarrow> bool result" where
  "depSatisfied DepChecker element st = check_deps (getElementPtrDependencies element) True st"
| "depSatisfied ProxyDepChecker element st = Inr True"
| "depSatisfied ClusterDepChecker element st = Inr True"

definition registerChecker :: "dep_checker \<Rightarrow> 'a config_lists_scheme \<Rightarrow> 'a config_lists_scheme" where
  "registerChecker checker st = st\<lparr>mDepCheckers := mDepCheckers st @ [checker]\<rparr>"

definition unregisterChecker :: "dep_checker \<Rightarrow> 'a config_lists_scheme \<Rightarrow> 'a config_lists_scheme" where
  "unregisterChecker checker st = st\<lparr>mDepCheckers := remove1 checker (mDepCheckers st)\<rparr>"

definition findDepChecker :: "config_element \<Rightarrow> dep_checker list \<Rightarrow> dep_checker" where
  "findDepChecker element checkers =
     (case find (\<lambda>c. canHandle c element) checkers of Some checker \<Rightarrow> checker | None \<Rightarrow> DepChecker)"

definition isSatisfied :: "config_element \<Rightarrow> 'a config_lists_scheme \<Rightarrow> bool result" where
  "isSatisfied element st = depSatisfied (findDepChecker element (mDepCheckers st)) element st"

subsection \<open>The lists\<close>

definition refreshPendingList :: "'a config_lists_scheme \<Rightarrow> 'a config_lists_scheme result" where
  "refreshPendingList st =
     rbind (require (\<not> mPendingCountMutex st) (AssertionFailed ''0 == mPendingCountMutex.test()'')) (\<lambda>_.
     rbind (lockCount st) (\<lambda>st. Inr (unlockCount (st\<lparr>mPendingCheckCount := 0\<rparr>))))"

definition addPending :: "pending_element \<Rightarrow> 'a config_lists_scheme \<Rightarrow> 'a config_lists_scheme result" where
  "addPending p st =
     rbind (require (mPendingLock st) (AssertionFailed ''1 == mPendingLock.test()'')) (\<lambda>_.
     refreshPendingList (st\<lparr>mPendingConfig := mPendingConfig st @ [p]\<rparr>))"

definition addActive :: "config_element \<Rightarrow> 'a config_lists_scheme \<Rightarrow> 'a config_lists_scheme result" where
  "addActive element st =
     rbind (require (\<not> mActiveLock st) (AssertionFailed ''0 == mActiveLock.test()'')) (\<lambda>_.
     rbind (lockActive st) (\<lambda>st. Inr (unlockActive (st\<lparr>mActiveConfig := mActiveConfig st @ [element]\<rparr>))))"

definition removeActive :: "string \<Rightarrow> 'a config_lists_scheme \<Rightarrow> 'a config_lists_scheme result" where
  "removeActive elementName st =
     rbind (require (\<not> mActiveLock st) (AssertionFailed ''0 == mActiveLock.test()'')) (\<lambda>_.
     rbind (lockActive st) (\<lambda>st.
     Inr (unlockActive (st\<lparr>mActiveConfig := snd (config_remove elementName (mActiveConfig st))\<rparr>))))"

definition add_incoming :: "pending_type \<Rightarrow> configuration \<Rightarrow> 'a config_lists_scheme \<Rightarrow> 'a config_lists_scheme" where
  "add_incoming t cfg st =
     st\<lparr>mIncomingConfig := mIncomingConfig st @ map (\<lambda>e. \<lparr>mType = t, mElement = e\<rparr>) cfg\<rparr>"

text \<open>The slots run first, and one that throws leaves the lists as they were.\<close>

definition addConfigurationAdditions :: "'s handlers \<Rightarrow> configuration \<Rightarrow> 's config_manager \<Rightarrow> 's config_manager result" where
  "addConfigurationAdditions H cfg st =
     rbind (mConfigurationSignal H cfg ADD (cmClient st)) (\<lambda>c.
     rbind (lockIncoming (st\<lparr>cmClient := c\<rparr>)) (\<lambda>st. Inr (unlockIncoming (add_incoming ADD cfg st))))"

definition addConfigurationRemovals :: "'s handlers \<Rightarrow> configuration \<Rightarrow> 's config_manager \<Rightarrow> 's config_manager result" where
  "addConfigurationRemovals H cfg st =
     rbind (mConfigurationSignal H cfg REMOVE (cmClient st)) (\<lambda>c.
     rbind (lockIncoming (st\<lparr>cmClient := c\<rparr>)) (\<lambda>st. Inr (unlockIncoming (add_incoming REMOVE cfg st))))"

definition addConfigElement :: "config_element \<Rightarrow> pending_type \<Rightarrow> 's config_manager \<Rightarrow> 's config_manager" where
  "addConfigElement elt t st = st\<lparr>mIncomingConfig := mIncomingConfig st @ [\<lparr>mType = t, mElement = elt\<rparr>]\<rparr>"

definition getNumIncoming :: "'s config_manager \<Rightarrow> nat result" where
  "getNumIncoming st = rbind (lockIncoming st) (\<lambda>st. Inr (length (mIncomingConfig st)))"

definition mergeIncomingToPending :: "'s config_manager \<Rightarrow> 's config_manager result" where
  "mergeIncomingToPending st =
     rbind (lockPending st) (\<lambda>st.
     rbind (lockIncoming st) (\<lambda>st.
     Inr (unlockPending (unlockIncoming
       (st\<lparr>mPendingConfig := mPendingConfig st @ mIncomingConfig st, mIncomingConfig := []\<rparr>)))))"

subsection \<open>When to look at the pending list\<close>

definition pending_repeat_limit :: int where
  "pending_repeat_limit = 3"

text \<open>Going stale prints the list, for which it takes and releases the list's lock.\<close>

definition shouldCheckPending :: "'s config_manager \<Rightarrow> (bool \<times> 's config_manager) result" where
  "shouldCheckPending st =
     rbind (lockCount st) (\<lambda>st.
     let cur_pending_size = length (mPendingConfig st) in
     if cur_pending_size \<noteq> mLastPendingSize st
     then Inr (True, unlockCount (st\<lparr>mPendingCheckCount := 0, mLastPendingSize := cur_pending_size\<rparr>))
     else if mPendingCheckCount st < pending_repeat_limit
     then Inr (True, unlockCount (st\<lparr>mPendingCheckCount := mPendingCheckCount st + 1\<rparr>))
     else if mPendingCheckCount st = pending_repeat_limit
     then rbind (lockPending (st\<lparr>mPendingCheckCount := mPendingCheckCount st + 1\<rparr>)) (\<lambda>st.
          Inr (False, unlockCount (unlockPending st)))
     else Inr (False, unlockCount st))"

definition isPendingStale :: "'s config_manager \<Rightarrow> bool result" where
  "isPendingStale st = rbind (lockCount st) (\<lambda>st. Inr (mPendingCheckCount st \<ge> pending_repeat_limit))"

subsection \<open>Processing the pending list\<close>

text \<open>
  The loop of \<^verbatim>\<open>configProcessPending\<close> with its iterator between \<open>kept\<close> and the elements
  still to be looked at; \<open>scan\<close> is \<^verbatim>\<open>scan_for_lost_dependants\<close>.
\<close>

definition handler_effect :: "pending_element list \<Rightarrow> 's \<Rightarrow> 's config_manager \<Rightarrow> 's config_manager" where
  "handler_effect asked c st = st\<lparr>mIncomingConfig := mIncomingConfig st @ asked, cmClient := c\<rparr>"

fun process_items :: "'s handlers \<Rightarrow> nat \<Rightarrow> pending_element list \<Rightarrow> pending_element list \<Rightarrow> bool
    \<Rightarrow> 's config_manager \<Rightarrow> (bool \<times> 's config_manager) result" where
  "process_items H h kept [] scan st = Inr (scan, st)"
| "process_items H h kept (current # rest) scan st =
     (let cur_element = mElement current in
      if configCanHandle H h cur_element then
        (case mType current of
           ADD \<Rightarrow>
             rbind (isSatisfied cur_element st) (\<lambda>satisfied.
             if satisfied then
               rbind (configAdd H h cur_element (config_lists.truncate st) (cmClient st)) (\<lambda>(added, asked, c).
               let st = handler_effect asked c st in
               if added then
                 rbind (require (mPendingLock st) (AssertionFailed ''1 == mPendingLock.test()'')) (\<lambda>_.
                 rbind (addActive cur_element (st\<lparr>mPendingConfig := kept @ rest\<rparr>)) (\<lambda>st.
                 process_items H h kept rest scan st))
               else process_items H h (kept @ [current]) rest scan st)
             else process_items H h (kept @ [current]) rest scan st)
         | REMOVE \<Rightarrow>
             rbind (configRemove H h cur_element (config_lists.truncate st) (cmClient st)) (\<lambda>(removed, asked, c).
             let st = handler_effect asked c st in
             if removed then
               rbind (require (mPendingLock st) (AssertionFailed ''1 == mPendingLock.test()'')) (\<lambda>_.
               rbind (removeActive (getName cur_element) (st\<lparr>mPendingConfig := kept @ rest\<rparr>)) (\<lambda>st.
               process_items H h kept rest True st))
             else process_items H h (kept @ [current]) rest scan st))
      else process_items H h (kept @ [current]) rest scan st)"

text \<open>Every lost element is asked to be removed and added again.\<close>

fun scan_elements :: "configuration \<Rightarrow> nat \<Rightarrow> 's config_manager \<Rightarrow> (nat \<times> 's config_manager) result" where
  "scan_elements [] num_lost_deps st = Inr (num_lost_deps, st)"
| "scan_elements (e # els) num_lost_deps st =
     rbind (isSatisfied e st) (\<lambda>satisfied.
     if \<not> satisfied then
       rbind (addPending \<lparr>mType = REMOVE, mElement = e\<rparr> st) (\<lambda>st.
       rbind (addPending \<lparr>mType = ADD, mElement = e\<rparr> st) (\<lambda>st.
       scan_elements els (num_lost_deps + 1) st))
     else scan_elements els num_lost_deps st)"

definition scanForLostDependencies :: "'s config_manager \<Rightarrow> (nat \<times> 's config_manager) result" where
  "scanForLostDependencies st =
     rbind (require (\<not> mActiveLock st) (AssertionFailed ''0 == mActiveLock.test()'')) (\<lambda>_.
     rbind (lockActive st) (\<lambda>st.
     let elements = mActiveConfig st in
     scan_elements elements 0 (unlockActive st)))"

definition configProcessPending :: "'s handlers \<Rightarrow> nat \<Rightarrow> 's config_manager \<Rightarrow> (int \<times> 's config_manager) result" where
  "configProcessPending H h st =
     (let num_pending_before = length (mPendingConfig st) in
      rbind (require (mPendingLock st) (AssertionFailed ''1 == mPendingLock.test()'')) (\<lambda>_.
      rbind (process_items H h [] (mPendingConfig st) False st) (\<lambda>(scan, st).
      let num_pending_after = length (mPendingConfig st) in
      rbind (if scan then rbind (scanForLostDependencies st) (\<lambda>(n, st). Inr st) else Inr st) (\<lambda>st.
      Inr (int num_pending_before - int num_pending_after, st)))))"

fun process_handlers :: "'s handlers \<Rightarrow> nat list \<Rightarrow> int \<Rightarrow> 's config_manager \<Rightarrow> (int \<times> 's config_manager) result" where
  "process_handlers H [] elements_processed st = Inr (elements_processed, st)"
| "process_handlers H (h # hs) elements_processed st =
     rbind (configProcessPending H h st) (\<lambda>(n, st). process_handlers H hs (elements_processed + n) st)"

definition attemptReconfiguration :: "'s handlers \<Rightarrow> 's config_manager \<Rightarrow> (int \<times> 's config_manager) result" where
  "attemptReconfiguration H st =
     rbind (mergeIncomingToPending st) (\<lambda>st.
     rbind (shouldCheckPending st) (\<lambda>(should, st).
     if should then
       rbind (lockPending st) (\<lambda>st.
       rbind (process_handlers H (mElementHandlers st) 0 st) (\<lambda>(n, st). Inr (n, unlockPending st)))
     else Inr (0, st)))"

text \<open>The kernel's loop, \<^verbatim>\<open>do ... while (num_processed > 0)\<close>; \<open>None\<close> is not returning.\<close>

partial_function (option) checkForReconfig ::
  "'s handlers \<Rightarrow> 's config_manager \<Rightarrow> 's config_manager result option" where
  "checkForReconfig H st =
     (case attemptReconfiguration H st of
        Inl e \<Rightarrow> Some (Inl e)
      | Inr (n, st') \<Rightarrow> if n > 0 then checkForReconfig H st' else Some (Inr st'))"

definition addConfigElementHandler :: "nat \<Rightarrow> 's config_manager \<Rightarrow> 's config_manager" where
  "addConfigElementHandler h st = st\<lparr>mElementHandlers := mElementHandlers st @ [h]\<rparr>"

definition removeConfigElementHandler :: "nat \<Rightarrow> 's config_manager \<Rightarrow> 's config_manager" where
  "removeConfigElementHandler h st = st\<lparr>mElementHandlers := remove1 h (mElementHandlers st)\<rparr>"

definition clear_all :: "'s config_manager \<Rightarrow> 's config_manager" where
  "clear_all st = st\<lparr>mPendingConfig := [], mActiveConfig := [], mIncomingConfig := [],
     mElementHandlers := [], mPendingCheckCount := 0, mLastPendingSize := 0\<rparr>"

text \<open>Each list is cleared under its lock.\<close>

definition shutdown :: "'s handlers \<Rightarrow> bool \<Rightarrow> 's config_manager \<Rightarrow> 's config_manager result option" where
  "shutdown H attemptRemoval st =
     (case (if attemptRemoval
            then (case rbind (lockActive st) (\<lambda>st.
                         rbind (addConfigurationRemovals H (mActiveConfig st) st) (\<lambda>st. Inr (unlockActive st))) of
                    Inl e \<Rightarrow> Some (Inl e)
                  | Inr st \<Rightarrow> checkForReconfig H st)
            else Some (Inr st)) of
        None \<Rightarrow> None
      | Some (Inl e) \<Rightarrow> Some (Inl e)
      | Some (Inr st) \<Rightarrow>
          Some (rbind (lockPending st) (\<lambda>st. rbind (lockActive (unlockPending st)) (\<lambda>st.
                rbind (lockIncoming (unlockActive st)) (\<lambda>st. rbind (lockCount (unlockIncoming st)) (\<lambda>st.
                Inr (clear_all (unlockCount st))))))))"

section \<open>What a checker promises\<close>

text \<open>
  The scan and the processing rest on one law: a satisfied element stays satisfied when more
  elements become active.
\<close>

definition names :: "configuration \<Rightarrow> string set" where
  "names els = getName ` set els"

locale dep_check =
  fixes sat :: "config_element \<Rightarrow> string set \<Rightarrow> bool"
  assumes sat_mono: "sat e A \<Longrightarrow> A \<subseteq> B \<Longrightarrow> sat e B"
begin

text \<open>Elements that lost a dependency have a removal pending.\<close>

definition tracked :: "configuration \<Rightarrow> pending_element list \<Rightarrow> bool" where
  "tracked active pending \<longleftrightarrow>
     (\<forall>e \<in> set active. \<not> sat e (names active) \<longrightarrow> \<lparr>mType = REMOVE, mElement = e\<rparr> \<in> set pending)"

lemma tracked_more_pending: "tracked active pending \<Longrightarrow> set pending \<subseteq> set pending' \<Longrightarrow> tracked active pending'"
  unfolding tracked_def by blast

lemma tracked_add:
  assumes "tracked active pending" and "sat e (names active)"
    and "\<And>x. mType x = REMOVE \<Longrightarrow> x \<in> set pending \<Longrightarrow> x \<in> set pending'"
  shows "tracked (active @ [e]) pending'"
  unfolding tracked_def
proof (intro ballI impI)
  have sub: "names active \<subseteq> names (active @ [e])" by (auto simp: names_def)
  fix x
  assume "x \<in> set (active @ [e])" and lost: "\<not> sat x (names (active @ [e]))"
  then have "x \<in> set active" "\<not> sat x (names active)"
    using sat_mono [OF _ sub] assms(2) by auto
  then show "\<lparr>mType = REMOVE, mElement = x\<rparr> \<in> set pending'"
    using assms(1,3) unfolding tracked_def by auto
qed

end

fun checker_sat :: "dep_checker \<Rightarrow> config_element \<Rightarrow> string set \<Rightarrow> bool" where
  "checker_sat DepChecker e A \<longleftrightarrow> set (getElementPtrDependencies e) \<subseteq> A"
| "checker_sat ProxyDepChecker e A \<longleftrightarrow> True"
| "checker_sat ClusterDepChecker e A \<longleftrightarrow> True"

definition manager_sat :: "dep_checker list \<Rightarrow> config_element \<Rightarrow> string set \<Rightarrow> bool" where
  "manager_sat checkers e A = checker_sat (findDepChecker e checkers) e A"

interpretation checker: dep_check "checker_sat c" for c
proof
  fix e A B
  assume "checker_sat c e A" "A \<subseteq> B"
  then show "checker_sat c e B" by (cases c) auto
qed

interpretation manager: dep_check "manager_sat checkers" for checkers
  by unfold_locales (auto simp: manager_sat_def intro: checker.sat_mono)

section \<open>One pass over the pending list\<close>

definition quiet :: "'s config_manager \<Rightarrow> bool" where
  "quiet st \<longleftrightarrow> \<not> mActiveLock st \<and> \<not> mIncomingLock st \<and> \<not> mPendingCountMutex st"

abbreviation sat_in :: "'s config_manager \<Rightarrow> config_element \<Rightarrow> bool" where
  "sat_in st e \<equiv> manager_sat (mDepCheckers st) e (names (mActiveConfig st))"

definition same_setup :: "'s config_manager \<Rightarrow> 's config_manager \<Rightarrow> bool" where
  "same_setup st st' \<longleftrightarrow> mDepCheckers st' = mDepCheckers st \<and> mElementHandlers st' = mElementHandlers st
     \<and> mPendingLock st' = mPendingLock st
     \<and> quiet st' = quiet st \<and> mLastPendingSize st' = mLastPendingSize st"

lemma same_setup_refl [simp]: "same_setup st st"
  by (simp add: same_setup_def)

lemma same_setup_trans: "same_setup st st' \<Longrightarrow> same_setup st' st'' \<Longrightarrow> same_setup st st''"
  by (simp add: same_setup_def)

lemma check_deps_value:
  "\<not> mActiveLock st \<Longrightarrow> check_deps ds pass st = Inr (pass \<and> set ds \<subseteq> names (mActiveConfig st))"
  by (induction ds arbitrary: pass)
     (auto simp: isElementInActiveList_def lockActive_def list_ex_iff names_def image_iff)

lemma isSatisfied_value: "\<not> mActiveLock st \<Longrightarrow> isSatisfied e st = Inr (sat_in st e)"
  by (cases "findDepChecker e (mDepCheckers st)") (simp_all add: isSatisfied_def manager_sat_def check_deps_value)

lemma addActive_value:
  "\<not> mActiveLock st \<Longrightarrow> addActive e st = Inr (st\<lparr>mActiveConfig := mActiveConfig st @ [e]\<rparr>)"
  by (simp add: addActive_def lockActive_def unlockActive_def)

lemma removeActive_value:
  "\<not> mActiveLock st \<Longrightarrow> removeActive n st = Inr (st\<lparr>mActiveConfig := snd (config_remove n (mActiveConfig st))\<rparr>)"
  by (simp add: removeActive_def lockActive_def unlockActive_def)

text \<open>The failures of a call that ends as it should or when a handler fails, the pending list locked.\<close>

definition handler_failure :: "'s handlers \<Rightarrow> failure \<Rightarrow> bool" where
  "handler_failure H e \<longleftrightarrow> (\<exists>h el cfg c. mPendingLock cfg \<and> configCanHandle H h el
     \<and> (configAdd H h el cfg c = Inl e \<or> configRemove H h el cfg c = Inl e))"

definition outcome :: "'s handlers \<Rightarrow> 'r result \<Rightarrow> ('r \<Rightarrow> bool) \<Rightarrow> bool" where
  "outcome H r Q \<longleftrightarrow> (case r of Inl e \<Rightarrow> handler_failure H e | Inr x \<Rightarrow> Q x)"

lemma outcome_simps [simp]: "outcome H (Inr x) Q = Q x" "outcome H (Inl e) Q = handler_failure H e"
  by (simp_all add: outcome_def)

lemma outcome_bind: "outcome H m Q \<Longrightarrow> (\<And>x. Q x \<Longrightarrow> outcome H (f x) R) \<Longrightarrow> outcome H (rbind m f) R"
  by (cases m) auto

lemma outcome_mono: "outcome H m Q \<Longrightarrow> (\<And>x. Q x \<Longrightarrow> R x) \<Longrightarrow> outcome H m R"
  by (cases m) auto

text \<open>What requests that are taken do to the active list, in order.\<close>

fun apply_requests :: "pending_element list \<Rightarrow> configuration \<Rightarrow> configuration" where
  "apply_requests [] els = els"
| "apply_requests (p # ps) els =
     apply_requests ps (case mType p of ADD \<Rightarrow> els @ [mElement p]
                                      | REMOVE \<Rightarrow> snd (config_remove (getName (mElement p)) els))"

text \<open>An element was satisfied when it was added.\<close>

fun justified :: "(config_element \<Rightarrow> string set \<Rightarrow> bool) \<Rightarrow> pending_element list \<Rightarrow> configuration \<Rightarrow> bool" where
  "justified sat [] els \<longleftrightarrow> True"
| "justified sat (p # ps) els \<longleftrightarrow>
     (mType p = ADD \<longrightarrow> sat (mElement p) (names els)) \<and> justified sat ps (apply_requests [p] els)"

text \<open>
  A pass of a handler, one request after the other: what becomes of the first one, and what it
  leaves behind it.
\<close>

definition try_request :: "'s handlers \<Rightarrow> nat \<Rightarrow> pending_element \<Rightarrow> 's config_manager
    \<Rightarrow> (bool \<times> pending_element list \<times> 's) result" where
  "try_request H h p st =
     (if configCanHandle H h (mElement p)
      then case mType p of
             ADD \<Rightarrow> if sat_in st (mElement p)
                    then configAdd H h (mElement p) (config_lists.truncate st) (cmClient st)
                    else Inr (False, [], cmClient st)
           | REMOVE \<Rightarrow> configRemove H h (mElement p) (config_lists.truncate st) (cmClient st)
      else Inr (False, [], cmClient st))"

definition after_request :: "pending_element list \<Rightarrow> pending_element \<Rightarrow> pending_element list
    \<Rightarrow> bool \<Rightarrow> pending_element list \<Rightarrow> 's \<Rightarrow> 's config_manager \<Rightarrow> 's config_manager" where
  "after_request kept p rest took asked c st =
     (if took
      then (handler_effect asked c st)\<lparr>mPendingConfig := kept @ rest, mActiveConfig := apply_requests [p] (mActiveConfig st)\<rparr>
      else handler_effect asked c st)"

text \<open>Which requests the pass takes, and the state at its end.\<close>

fun run_pass :: "'s handlers \<Rightarrow> nat \<Rightarrow> pending_element list \<Rightarrow> pending_element list \<Rightarrow> 's config_manager
    \<Rightarrow> (bool list \<times> 's config_manager) result" where
  "run_pass H h kept [] st = Inr ([], st)"
| "run_pass H h kept (p # rest) st =
     rbind (try_request H h p st) (\<lambda>(b, asked, c).
     rbind (run_pass H h (if b then kept else kept @ [p]) rest (after_request kept p rest b asked c st)) (\<lambda>(bs, st').
     Inr (b # bs, st')))"

definition taken_of :: "pending_element list \<Rightarrow> bool list \<Rightarrow> pending_element list" where
  "taken_of ps took = map fst (filter snd (zip ps took))"

definition left_of :: "pending_element list \<Rightarrow> bool list \<Rightarrow> pending_element list" where
  "left_of ps took = map fst (filter (\<lambda>(p, b). \<not> b) (zip ps took))"

lemma taken_left_simps [simp]:
  "taken_of [] took = []" "left_of [] took = []"
  "taken_of (p # ps) (b # bs) = (if b then p # taken_of ps bs else taken_of ps bs)"
  "left_of (p # ps) (b # bs) = (if b then left_of ps bs else p # left_of ps bs)"
  by (simp_all add: taken_of_def left_of_def)

lemma taken_left_mset: "length took = length ps \<Longrightarrow> mset ps = mset (taken_of ps took) + mset (left_of ps took)"
  by (induction took ps rule: list_induct2) auto

lemma handler_effect_fields [simp]:
  "quiet (handler_effect asked c st) = quiet st" "mPendingLock (handler_effect asked c st) = mPendingLock st"
  "mPendingConfig (handler_effect asked c st) = mPendingConfig st" "mActiveConfig (handler_effect asked c st) = mActiveConfig st"
  "mActiveLock (handler_effect asked c st) = mActiveLock st" "mDepCheckers (handler_effect asked c st) = mDepCheckers st"
  "mElementHandlers (handler_effect asked c st) = mElementHandlers st" "cmClient (handler_effect asked c st) = c"
  "mIncomingConfig (handler_effect asked c st) = mIncomingConfig st @ asked"
  "mLastPendingSize (handler_effect asked c st) = mLastPendingSize st"
  "mPendingCheckCount (handler_effect asked c st) = mPendingCheckCount st"
  by (simp_all add: handler_effect_def quiet_def)

lemma handler_effect_none [simp]: "handler_effect [] (cmClient st) st = st"
  by (simp add: handler_effect_def)

lemma after_request_fields [simp]:
  "quiet (after_request kept p rest b asked c st) = quiet st"
  "mPendingLock (after_request kept p rest b asked c st) = mPendingLock st"
  "mPendingConfig (after_request kept p rest b asked c st) = (if b then kept @ rest else mPendingConfig st)"
  "mActiveConfig (after_request kept p rest b asked c st) = (if b then apply_requests [p] (mActiveConfig st) else mActiveConfig st)"
  "cmClient (after_request kept p rest b asked c st) = c"
  "mIncomingConfig (after_request kept p rest b asked c st) = mIncomingConfig st @ asked"
  "same_setup (after_request kept p rest b asked c st) st' = same_setup st st'"
  "mDepCheckers (after_request kept p rest b asked c st) = mDepCheckers st"
  "mPendingCheckCount (after_request kept p rest b asked c st) = mPendingCheckCount st"
  by (simp_all add: after_request_def same_setup_def quiet_def handler_effect_def)

lemma truncate_lock [simp]: "mPendingLock (config_lists.truncate st) = mPendingLock st"
  by (simp add: config_lists.truncate_def)

lemma try_request_fails:
  "try_request H h p st = Inl e \<Longrightarrow> mPendingLock st \<Longrightarrow> handler_failure H e"
  unfolding handler_failure_def
  by (rule exI [of _ h], rule exI [of _ "mElement p"], rule exI [of _ "config_lists.truncate st"], rule exI [of _ "cmClient st"])
    (auto simp: try_request_def split: if_splits pending_type.splits)

lemma try_request_taken:
  "try_request H h p st = Inr (True, asked, c) \<Longrightarrow>
     configCanHandle H h (mElement p) \<and> (mType p = ADD \<longrightarrow> sat_in st (mElement p))"
  by (auto simp: try_request_def split: if_splits)

text \<open>The loop of the code makes this pass.\<close>

lemma process_items_step:
  assumes "quiet st" and "mPendingLock st" and "mPendingConfig st = kept @ p # rest"
  shows "process_items H h kept (p # rest) scan st = rbind (try_request H h p st) (\<lambda>(b, asked, c).
    process_items H h (if b then kept else kept @ [p]) rest (scan \<or> b \<and> mType p = REMOVE) (after_request kept p rest b asked c st))"
proof (cases "configCanHandle H h (mElement p)")
  case False
  then show ?thesis by (simp add: try_request_def after_request_def)
next
  case can: True
  have lock: "\<not> mActiveLock st" using assms(1) by (simp add: quiet_def)
  show ?thesis
  proof (cases "mType p")
    case ADD
    show ?thesis
    proof (cases "sat_in st (mElement p)")
      case False
      then show ?thesis using can ADD lock by (simp add: try_request_def after_request_def isSatisfied_value)
    next
      case True
      then show ?thesis using can ADD lock assms(2)
        by (cases "configAdd H h (mElement p) (config_lists.truncate st) (cmClient st)")
          (auto simp: try_request_def after_request_def isSatisfied_value addActive_value Let_def)
    qed
  next
    case REMOVE
    then show ?thesis using can lock assms(2)
      by (cases "configRemove H h (mElement p) (config_lists.truncate st) (cmClient st)")
        (auto simp: try_request_def after_request_def removeActive_value Let_def)
  qed
qed

declare process_items.simps(2) [simp del]

lemma process_items_run:
  assumes "quiet st" and "mPendingLock st" and "mPendingConfig st = kept @ todo"
  shows "process_items H h kept todo scan st = rbind (run_pass H h kept todo st) (\<lambda>(took, st').
    Inr (scan \<or> (\<exists>p \<in> set (taken_of todo took). mType p = REMOVE), st'))"
  using assms
proof (induction todo arbitrary: kept scan st)
  case (Cons p rest)
  show ?case
  proof (cases "try_request H h p st")
    case (Inl e)
    then show ?thesis by (simp add: process_items_step [OF Cons.prems])
  next
    case (Inr r)
    obtain b asked c where r: "r = (b, asked, c)" using prod_cases3 by blast
    let ?st = "after_request kept p rest b asked c st" and ?kept = "if b then kept else kept @ [p]"
    have "quiet ?st" "mPendingLock ?st" "mPendingConfig ?st = ?kept @ rest" using Cons.prems by simp_all
    note IH = Cons.IH [OF this]
    show ?thesis
      by (cases "run_pass H h ?kept rest ?st") (auto simp: process_items_step [OF Cons.prems] Inr r IH)
  qed
qed simp

definition pass_result :: "'s handlers \<Rightarrow> nat \<Rightarrow> 's config_manager \<Rightarrow> 's config_manager \<Rightarrow> pending_element list \<Rightarrow> bool" where
  "pass_result H h st st' taken \<longleftrightarrow> same_setup st st'
     \<and> (\<forall>p \<in> set taken. configCanHandle H h (mElement p))
     \<and> mActiveConfig st' = apply_requests taken (mActiveConfig st)
     \<and> justified (manager_sat (mDepCheckers st)) taken (mActiveConfig st)
     \<and> mPendingCheckCount st' = mPendingCheckCount st"

lemma run_pass_result:
  "mPendingLock st \<Longrightarrow> mPendingConfig st = kept @ todo \<Longrightarrow>
    outcome H (run_pass H h kept todo st) (\<lambda>(took, st'). length took = length todo
      \<and> mPendingConfig st' = kept @ left_of todo took \<and> pass_result H h st st' (taken_of todo took))"
proof (induction todo arbitrary: kept st)
  case Nil
  then show ?case by (simp add: pass_result_def)
next
  case (Cons p rest)
  show ?case
  proof (cases "try_request H h p st")
    case (Inl e)
    then show ?thesis using try_request_fails Cons.prems(1) by simp
  next
    case (Inr r)
    obtain b asked c where r: "r = (b, asked, c)" using prod_cases3 by blast
    let ?st = "after_request kept p rest b asked c st" and ?kept = "if b then kept else kept @ [p]"
    have st: "mPendingLock ?st" "mPendingConfig ?st = ?kept @ rest" using Cons.prems by simp_all
    have took: "b \<longrightarrow> configCanHandle H h (mElement p) \<and> (mType p = ADD \<longrightarrow> sat_in st (mElement p))"
      using try_request_taken [of H h p st asked c] Inr r by auto
    have step: "pass_result H h st st' (taken_of (p # rest) (b # bs))"
      if "pass_result H h ?st st' (taken_of rest bs)" for bs st'
      using that took by (auto simp: pass_result_def)
    show ?thesis
      using Cons.IH [OF st] step by (cases "run_pass H h ?kept rest ?st") (auto simp: Inr r)
  qed
qed

context dep_check
begin

lemma tracked_adds:
  assumes "\<forall>p \<in> set taken. mType p = ADD" and "justified sat taken active" and "tracked active pending"
    and "\<And>x. mType x = REMOVE \<Longrightarrow> x \<in> set pending \<Longrightarrow> x \<in> set pending'"
  shows "tracked (apply_requests taken active) pending'"
  using assms
proof (induction taken arbitrary: active pending)
  case Nil
  then show ?case by (auto simp: tracked_def)
next
  case (Cons p taken)
  have p: "mType p = ADD" "sat (mElement p) (names active)" "justified sat taken (active @ [mElement p])"
    using Cons.prems(1,2) by simp_all
  have "tracked (active @ [mElement p]) pending'"
    using tracked_add [OF Cons.prems(3) p(2) Cons.prems(4)] .
  then show ?case using Cons.IH [of "active @ [mElement p]" pending'] Cons.prems(1) p by simp
qed

end

definition lost_requests :: "(config_element \<Rightarrow> bool) \<Rightarrow> configuration \<Rightarrow> pending_element list" where
  "lost_requests satisfied els =
     concat (map (\<lambda>e. if satisfied e then []
       else [\<lparr>mType = REMOVE, mElement = e\<rparr>, \<lparr>mType = ADD, mElement = e\<rparr>]) els)"

lemma addPending_value:
  "\<not> mPendingCountMutex st \<Longrightarrow> mPendingLock st \<Longrightarrow>
   addPending p st = Inr (st\<lparr>mPendingConfig := mPendingConfig st @ [p], mPendingCheckCount := 0\<rparr>)"
  by (simp add: addPending_def refreshPendingList_def lockCount_def unlockCount_def)

lemma scan_elements_value:
  "quiet st \<Longrightarrow> mPendingLock st \<Longrightarrow> \<exists>k c. scan_elements els n st
     = Inr (k, st\<lparr>mPendingConfig := mPendingConfig st @ lost_requests (sat_in st) els, mPendingCheckCount := c\<rparr>)"
proof (induction els arbitrary: n st)
  case Nil
  show ?case by (simp add: lost_requests_def) (rule exI [of _ "mPendingCheckCount st"], simp)
next
  case (Cons e els)
  have lock: "\<not> mActiveLock st" "\<not> mPendingCountMutex st" using Cons.prems(1) by (simp_all add: quiet_def)
  show ?case
  proof (cases "sat_in st e")
    case True
    then show ?thesis using Cons.IH [OF Cons.prems, of n] lock by (simp add: isSatisfied_value lost_requests_def)
  next
    case False
    let ?st = "st\<lparr>mPendingConfig := mPendingConfig st
        @ [\<lparr>mType = REMOVE, mElement = e\<rparr>, \<lparr>mType = ADD, mElement = e\<rparr>], mPendingCheckCount := 0\<rparr>"
    have "quiet ?st" "mPendingLock ?st" using Cons.prems by (simp_all add: quiet_def)
    from Cons.IH [OF this, of "n + 1"] show ?thesis
      using False lock Cons.prems(2) by (simp add: isSatisfied_value addPending_value lost_requests_def)
  qed
qed

text \<open>After the pass, if it took a removal, come the requests for the elements that are lost.\<close>

definition after_scan :: "pending_element list \<Rightarrow> int \<Rightarrow> 's config_manager \<Rightarrow> 's config_manager" where
  "after_scan taken k st =
     (if \<exists>p \<in> set taken. mType p = REMOVE
      then st\<lparr>mPendingConfig := mPendingConfig st @ lost_requests (sat_in st) (mActiveConfig st), mPendingCheckCount := k\<rparr>
      else st)"

lemma after_scan_fields [simp]:
  "mActiveConfig (after_scan taken k st) = mActiveConfig st" "mDepCheckers (after_scan taken k st) = mDepCheckers st"
  "cmClient (after_scan taken k st) = cmClient st" "mIncomingConfig (after_scan taken k st) = mIncomingConfig st"
  "same_setup st0 (after_scan taken k st) = same_setup st0 st"
  by (simp_all add: after_scan_def same_setup_def quiet_def)

lemma configProcessPending_run:
  assumes "quiet st" and "mPendingLock st" and run: "run_pass H h [] (mPendingConfig st) st = Inr (took, st1)"
  defines "taken \<equiv> taken_of (mPendingConfig st) took"
  shows "\<exists>k. configProcessPending H h st = Inr (int (length taken), after_scan taken k st1)"
    and "length took = length (mPendingConfig st)" and "pass_result H h st st1 taken"
    and "mPendingConfig st1 = left_of (mPendingConfig st) took"
proof -
  have res: "length took = length (mPendingConfig st)" "mPendingConfig st1 = left_of (mPendingConfig st) took"
      "pass_result H h st st1 taken"
    using run_pass_result [of st "[]" "mPendingConfig st" H h] assms(2) by (simp_all add: run taken_def)
  then show "length took = length (mPendingConfig st)" "pass_result H h st st1 taken"
    "mPendingConfig st1 = left_of (mPendingConfig st) took" by simp_all
  have run': "process_items H h [] (mPendingConfig st) False st = Inr (\<exists>p \<in> set taken. mType p = REMOVE, st1)"
    using process_items_run [OF assms(1,2), of "[]" "mPendingConfig st" H h False] by (simp add: run taken_def)
  have len: "int (length (mPendingConfig st)) - int (length (mPendingConfig st1)) = int (length taken)"
    using arg_cong [OF taken_left_mset [OF res(1)], of size] res(2) by (simp add: taken_def)
  have frame: "quiet st1" "mPendingLock st1" "\<not> mActiveLock st1"
    using res(3) assms(1,2) by (auto simp: pass_result_def same_setup_def quiet_def)
  obtain n c where scan: "scan_elements (mActiveConfig st1) 0 st1
      = Inr (n, st1\<lparr>mPendingConfig := mPendingConfig st1 @ lost_requests (sat_in st1) (mActiveConfig st1),
               mPendingCheckCount := c\<rparr>)"
    using scan_elements_value [OF frame(1,2)] by blast
  have same: "st1\<lparr>mActiveLock := False\<rparr> = st1" using frame(3) by simp
  have "scanForLostDependencies st1 = Inr (n, st1\<lparr>mPendingConfig := mPendingConfig st1
        @ lost_requests (sat_in st1) (mActiveConfig st1), mPendingCheckCount := c\<rparr>)"
    using frame(3) by (simp add: scanForLostDependencies_def lockActive_def unlockActive_def scan same)
  then have "configProcessPending H h st = Inr (int (length taken), after_scan taken c st1)"
    using run' len assms(2) by (simp add: configProcessPending_def after_scan_def)
  then show "\<exists>k. configProcessPending H h st = Inr (int (length taken), after_scan taken k st1)" by blast
qed

lemma configProcessPending_fails:
  assumes "quiet st" and "mPendingLock st" and "run_pass H h [] (mPendingConfig st) st = Inl e"
  shows "configProcessPending H h st = Inl e" "handler_failure H e"
  using process_items_run [OF assms(1,2), of "[]"] run_pass_result [of st "[]" "mPendingConfig st" H h] assms(2,3)
  by (simp_all add: configProcessPending_def)

lemma configProcessPending_outcome:
  assumes "quiet st" and "mPendingLock st"
    and "\<And>took st1 k. run_pass H h [] (mPendingConfig st) st = Inr (took, st1) \<Longrightarrow> length took = length (mPendingConfig st)
      \<Longrightarrow> pass_result H h st st1 (taken_of (mPendingConfig st) took) \<Longrightarrow> mPendingConfig st1 = left_of (mPendingConfig st) took
      \<Longrightarrow> Q (int (length (taken_of (mPendingConfig st) took)), after_scan (taken_of (mPendingConfig st) took) k st1)"
  shows "outcome H (configProcessPending H h st) Q"
proof (cases "run_pass H h [] (mPendingConfig st) st")
  case (Inl e)
  then show ?thesis using configProcessPending_fails [OF assms(1,2)] by simp
next
  case (Inr r)
  obtain took st1 where r: "r = (took, st1)" by fastforce
  note run = configProcessPending_run [OF assms(1,2) Inr [unfolded r]]
  obtain k where "configProcessPending H h st
      = Inr (int (length (taken_of (mPendingConfig st) took)), after_scan (taken_of (mPendingConfig st) took) k st1)"
    using run(1) by blast
  then show ?thesis using assms(3) [OF Inr [unfolded r] run(2-4), of k] by simp
qed

text \<open>After a pass every active element that is not satisfied has its removal pending.\<close>

definition all_tracked :: "'s config_manager \<Rightarrow> bool" where
  "all_tracked st \<longleftrightarrow> (\<forall>e \<in> set (mActiveConfig st). \<not> sat_in st e
     \<longrightarrow> \<lparr>mType = REMOVE, mElement = e\<rparr> \<in> set (mPendingConfig st))"

lemma all_tracked_iff: "all_tracked st \<longleftrightarrow> manager.tracked (mDepCheckers st) (mActiveConfig st) (mPendingConfig st)"
  by (simp add: all_tracked_def manager.tracked_def)

lemma lost_requests_tracked:
  "e \<in> set els \<Longrightarrow> \<not> sat e \<Longrightarrow> \<lparr>mType = REMOVE, mElement = e\<rparr> \<in> set (lost_requests sat els)"
  by (auto simp: lost_requests_def)

lemma pass_tracked:
  assumes "all_tracked st" and "pass_result H h st st1 (taken_of (mPendingConfig st) took)"
    and "length took = length (mPendingConfig st)" and "mPendingConfig st1 = left_of (mPendingConfig st) took"
    and adds: "\<forall>p \<in> set (taken_of (mPendingConfig st) took). mType p = ADD"
  shows "all_tracked st1"
proof -
  let ?taken = "taken_of (mPendingConfig st) took"
  have "x \<in> set (mPendingConfig st1)" if "mType x = REMOVE" "x \<in> set (mPendingConfig st)" for x
  proof -
    have "x \<in># mset ?taken + mset (left_of (mPendingConfig st) took)"
      using that(2) unfolding taken_left_mset [OF assms(3), symmetric] by simp
    then show ?thesis using that(1) adds assms(4) by auto
  qed
  then have "manager.tracked (mDepCheckers st) (apply_requests ?taken (mActiveConfig st)) (mPendingConfig st1)"
    using assms(2)
    by (intro manager.tracked_adds [OF adds _ assms(1) [unfolded all_tracked_iff]]) (auto simp: pass_result_def)
  then show ?thesis unfolding all_tracked_iff using assms(2) by (simp add: pass_result_def same_setup_def)
qed

lemma configProcessPending_tracked:
  assumes "quiet st" and "mPendingLock st" and "all_tracked st"
  shows "outcome H (configProcessPending H h st) (\<lambda>(n, st'). same_setup st st' \<and> all_tracked st')"
proof (rule configProcessPending_outcome [OF assms(1,2)], simp only: prod.case, intro conjI)
  fix took st1 k
  let ?taken = "taken_of (mPendingConfig st) took"
  assume res: "length took = length (mPendingConfig st)" "pass_result H h st st1 ?taken"
    "mPendingConfig st1 = left_of (mPendingConfig st) took"
  show "same_setup st (after_scan ?taken k st1)" using res(2) by (simp add: pass_result_def)
  show "all_tracked (after_scan ?taken k st1)"
  proof (cases "\<exists>p \<in> set ?taken. mType p = REMOVE")
    case True
    then show ?thesis using lost_requests_tracked [of _ "mActiveConfig st1" "sat_in st1"]
      by (simp add: all_tracked_def after_scan_def)
  next
    case False
    then have "\<forall>p \<in> set ?taken. mType p = ADD" by (metis pending_type.exhaust)
    from pass_tracked [OF assms(3) res(2,1,3) this] False show ?thesis by (simp add: after_scan_def)
  qed
qed

lemma process_handlers_tracked:
  "quiet st \<Longrightarrow> mPendingLock st \<Longrightarrow> all_tracked st \<Longrightarrow>
   outcome H (process_handlers H hs n st) (\<lambda>(n', st'). same_setup st st' \<and> all_tracked st')"
proof (induction hs arbitrary: n st)
  case (Cons h hs)
  show ?case
    unfolding process_handlers.simps
  proof (rule outcome_bind [OF configProcessPending_tracked [OF Cons.prems, of H h]], clarify)
    fix k st1
    assume "same_setup st st1" "all_tracked st1"
    moreover from this have "quiet st1" "mPendingLock st1" using Cons.prems(1,2) by (simp_all add: same_setup_def)
    ultimately show "outcome H (process_handlers H hs (n + k) st1) (\<lambda>(n', st'). same_setup st st' \<and> all_tracked st')"
      by (intro outcome_mono [OF Cons.IH]) (auto intro: same_setup_trans)
  qed
qed simp

section \<open>The manager as a transition system\<close>

text \<open>
  The public operations, in any order.  No checker is taken away again: only the registry
  of a plug-in that is being unloaded would do that.
\<close>

inductive cm_step :: "'s handlers \<Rightarrow> 's config_manager \<Rightarrow> 's config_manager \<Rightarrow> bool" for H where
  cm_additions: "addConfigurationAdditions H cfg st = Inr st' \<Longrightarrow> cm_step H st st'"
| cm_removals: "addConfigurationRemovals H cfg st = Inr st' \<Longrightarrow> cm_step H st st'"
| cm_element: "cm_step H st (addConfigElement e t st)"
| cm_attempt: "attemptReconfiguration H st = Inr (n, st') \<Longrightarrow> cm_step H st st'"
| cm_refresh: "refreshPendingList st = Inr st' \<Longrightarrow> cm_step H st st'"
| cm_add_handler: "cm_step H st (addConfigElementHandler h st)"
| cm_remove_handler: "cm_step H st (removeConfigElementHandler h st)"
| cm_register: "cm_step H st (registerChecker checker st)"
| cm_shutdown: "shutdown H attemptRemoval st = Some (Inr st') \<Longrightarrow> cm_step H st st'"

definition cm_init :: "'s config_manager \<Rightarrow> bool" where
  "cm_init st \<longleftrightarrow> (\<exists>client. st = config_manager_new client)"

definition cm_inv :: "'s config_manager \<Rightarrow> bool" where
  "cm_inv st \<longleftrightarrow> quiet st \<and> \<not> mPendingLock st \<and> all_tracked st"

lemma shouldCheckPending_value:
  assumes "quiet st" and "\<not> mPendingLock st"
  shows "\<exists>b c l. shouldCheckPending st = Inr (b, st\<lparr>mPendingCheckCount := c, mLastPendingSize := l\<rparr>)"
  using assms
  by (cases st) (auto simp: shouldCheckPending_def lockCount_def unlockCount_def lockPending_def
    unlockPending_def quiet_def Let_def)

lemma mergeIncomingToPending_value:
  "quiet st \<Longrightarrow> \<not> mPendingLock st \<Longrightarrow> mergeIncomingToPending st
     = Inr (st\<lparr>mPendingConfig := mPendingConfig st @ mIncomingConfig st, mIncomingConfig := []\<rparr>)"
  by (cases st) (simp add: mergeIncomingToPending_def lockPending_def lockIncoming_def unlockPending_def
    unlockIncoming_def quiet_def)

lemma attemptReconfiguration_inv:
  assumes "cm_inv st"
  shows "outcome H (attemptReconfiguration H st) (\<lambda>(n, st'). cm_inv st')"
proof -
  let ?st1 = "st\<lparr>mPendingConfig := mPendingConfig st @ mIncomingConfig st, mIncomingConfig := []\<rparr>"
  have quiet1: "quiet ?st1" "\<not> mPendingLock ?st1" "all_tracked ?st1"
    using assms by (auto simp: cm_inv_def quiet_def all_tracked_def)
  have merge: "mergeIncomingToPending st = Inr ?st1"
    using assms by (simp add: mergeIncomingToPending_value cm_inv_def)
  obtain b c l where check: "shouldCheckPending ?st1 = Inr (b, ?st1\<lparr>mPendingCheckCount := c, mLastPendingSize := l\<rparr>)"
    using shouldCheckPending_value [OF quiet1(1,2)] by blast
  define st2 where "st2 = ?st1\<lparr>mPendingCheckCount := c, mLastPendingSize := l\<rparr>"
  let ?st3 = "st2\<lparr>mPendingLock := True\<rparr>"
  have quiet2: "quiet st2" "\<not> mPendingLock st2" "all_tracked st2"
    and quiet3: "quiet ?st3" "mPendingLock ?st3" "all_tracked ?st3"
    using quiet1 by (simp_all add: st2_def quiet_def all_tracked_def)
  have att: "attemptReconfiguration H st
      = (if b then rbind (process_handlers H (mElementHandlers st2) 0 ?st3) (\<lambda>(n, st). Inr (n, unlockPending st))
         else Inr (0, st2))"
    using merge check quiet2(2) unfolding st2_def [symmetric]
    by (simp add: attemptReconfiguration_def lockPending_def)
  have "cm_inv (unlockPending st4)" if "same_setup ?st3 st4" "all_tracked st4" for st4
    using that quiet2(1) by (simp add: cm_inv_def unlockPending_def quiet_def all_tracked_def same_setup_def)
  then have "outcome H (rbind (process_handlers H (mElementHandlers st2) 0 ?st3) (\<lambda>(n, st). Inr (n, unlockPending st)))
      (\<lambda>(n, st'). cm_inv st')"
    by (intro outcome_bind [OF process_handlers_tracked [OF quiet3]]) auto
  then show ?thesis using quiet2 by (simp add: att cm_inv_def)
qed

lemma checkForReconfig_inv:
  assumes "checkForReconfig H st = Some r" and "cm_inv st"
  shows "outcome H r cm_inv"
proof -
  have "cm_inv st \<longrightarrow> outcome H r cm_inv"
  proof (rule checkForReconfig.raw_induct [where P = "\<lambda>H st r. cm_inv st \<longrightarrow> outcome H r cm_inv", OF _ assms(1)], intro impI)
    fix loop and H :: "'a handlers" and st r
    assume IH: "\<And>H st r. loop H st = Some r \<Longrightarrow> cm_inv st \<longrightarrow> outcome H r cm_inv"
      and body: "(case attemptReconfiguration H st of Inl e \<Rightarrow> Some (Inl e)
         | Inr (n, st') \<Rightarrow> if n > 0 then loop H st' else Some (Inr st')) = Some r"
      and inv: "cm_inv st"
    from attemptReconfiguration_inv [OF inv, of H] show "outcome H r cm_inv"
      using body IH by (auto split: sum.splits if_splits)
  qed
  then show ?thesis using assms(2) ..
qed

lemma find_append_cases: "find P (xs @ ys) = (case find P xs of None \<Rightarrow> find P ys | Some x \<Rightarrow> Some x)"
  by (induction xs) auto

lemma register_more: "manager_sat cs e A \<Longrightarrow> manager_sat (cs @ [c]) e A"
  by (cases "find (\<lambda>c. canHandle c e) cs"; cases c) (auto simp: manager_sat_def findDepChecker_def find_append_cases)

lemma registerChecker_inv: "cm_inv st \<Longrightarrow> cm_inv (registerChecker c st)"
  using register_more by (auto simp: cm_inv_def registerChecker_def quiet_def all_tracked_def)

lemma addConfigurationRemovals_inv:
  "addConfigurationRemovals H cfg st = Inr st' \<Longrightarrow> \<not> mIncomingLock st \<Longrightarrow>
   \<exists>c i. st' = st\<lparr>cmClient := c, mIncomingConfig := i\<rparr>"
  by (cases st) (auto simp: addConfigurationRemovals_def rbind_Inr_iff lockIncoming_def unlockIncoming_def
    add_incoming_def quiet_def split: if_splits)

lemma addConfigurationAdditions_inv:
  "addConfigurationAdditions H cfg st = Inr st' \<Longrightarrow> \<not> mIncomingLock st \<Longrightarrow>
   \<exists>c i. st' = st\<lparr>cmClient := c, mIncomingConfig := i\<rparr>"
  by (cases st) (auto simp: addConfigurationAdditions_def rbind_Inr_iff lockIncoming_def unlockIncoming_def
    add_incoming_def split: if_splits)

lemma cm_inv_incoming: "cm_inv (st\<lparr>cmClient := c, mIncomingConfig := i\<rparr>) = cm_inv st"
  by (simp add: cm_inv_def quiet_def all_tracked_def)

lemma clear_all_inv:
  "rbind (lockPending st) (\<lambda>st. rbind (lockActive (unlockPending st)) (\<lambda>st.
     rbind (lockIncoming (unlockActive st)) (\<lambda>st. rbind (lockCount (unlockIncoming st)) (\<lambda>st.
     Inr (clear_all (unlockCount st)))))) = Inr st' \<Longrightarrow> cm_inv st'"
  by (cases st)
     (auto simp: rbind_Inr_iff lockPending_def lockActive_def lockIncoming_def lockCount_def unlockPending_def
       unlockActive_def unlockIncoming_def unlockCount_def clear_all_def cm_inv_def quiet_def all_tracked_def
       split: if_splits)

lemma shutdown_inv: "shutdown H attemptRemoval st = Some (Inr st') \<Longrightarrow> cm_inv st'"
  unfolding shutdown_def
  by (auto simp del: if_split split: option.splits sum.splits if_splits dest!: clear_all_inv)

lemma refreshPendingList_value:
  "\<not> mPendingCountMutex st \<Longrightarrow> refreshPendingList st = Inr (st\<lparr>mPendingCheckCount := 0\<rparr>)"
  by (cases st) (simp add: refreshPendingList_def lockCount_def unlockCount_def)

lemma cm_step_inv:
  assumes "cm_inv st" and "cm_step H st st'"
  shows "cm_inv st'"
proof -
  have free: "\<not> mIncomingLock st" using assms(1) by (simp add: cm_inv_def quiet_def)
  show ?thesis
    using assms(2)
  proof cases
    case (cm_additions cfg)
    then show ?thesis using addConfigurationAdditions_inv [OF cm_additions free] assms(1)
      by (auto simp: cm_inv_incoming)
  next
    case (cm_removals cfg)
    then show ?thesis using addConfigurationRemovals_inv [OF cm_removals free] assms(1)
      by (auto simp: cm_inv_incoming)
  next
    case (cm_attempt n)
    then show ?thesis using attemptReconfiguration_inv [OF assms(1), of H] by simp
  next
    case cm_refresh
    then show ?thesis using assms(1)
      by (auto simp: refreshPendingList_value cm_inv_def quiet_def all_tracked_def)
  next
    case (cm_register checker)
    then show ?thesis using registerChecker_inv [OF assms(1)] by simp
  next
    case (cm_shutdown attemptRemoval)
    then show ?thesis by (rule shutdown_inv)
  qed (use assms(1) in \<open>simp_all add: cm_inv_def quiet_def all_tracked_def addConfigElement_def
          addConfigElementHandler_def removeConfigElementHandler_def\<close>)
qed

lemma cm_init_inv: "cm_init st \<Longrightarrow> cm_inv st"
  by (auto simp: cm_init_def config_manager_new_def cm_inv_def quiet_def all_tracked_def)

interpretation cm: transition_system cm_init "cm_step H" cm_inv for H
  by unfold_locales (auto intro: cm_init_inv cm_step_inv)

section \<open>What handlers keep\<close>

text \<open>
  A property of the clients' state that every handler keeps survives reconfiguration,
  whatever the pending list holds and even if an attempt fails half-way.
\<close>

locale handlers_keep =
  fixes H :: "'s handlers" and keeps :: "'s \<Rightarrow> bool"
  assumes add_keeps: "keeps c \<Longrightarrow> configAdd H h e cfg c = Inr (b, asked, c') \<Longrightarrow> keeps c'"
    and remove_keeps: "keeps c \<Longrightarrow> configRemove H h e cfg c = Inr (b, asked, c') \<Longrightarrow> keeps c'"
begin

lemma process_items_keeps:
  "process_items H h kept todo scan st = Inr (scan', st') \<Longrightarrow> keeps (cmClient st) \<Longrightarrow> keeps (cmClient st')"
proof (induction todo arbitrary: kept scan st)
  case (Cons p rest)
  note c = add_keeps [OF Cons.prems(2)] remove_keeps [OF Cons.prems(2)]
  show ?case
  proof (cases "configCanHandle H h (mElement p)")
    case False
    then show ?thesis using Cons by (simp add: process_items.simps)
  next
    case True
    show ?thesis
    proof (cases "mType p")
      case ADD
      show ?thesis using True ADD c Cons.prems
        by (auto simp: process_items.simps Let_def rbind_Inr_iff addActive_def lockActive_def unlockActive_def split: if_splits
          dest!: Cons.IH)
    next
      case REMOVE
      show ?thesis using True REMOVE c Cons.prems
        by (auto simp: process_items.simps Let_def rbind_Inr_iff removeActive_def lockActive_def unlockActive_def split: if_splits
          dest!: Cons.IH)
    qed
  qed
qed simp

lemma scan_elements_client: "scan_elements els n st = Inr (k, st') \<Longrightarrow> cmClient st' = cmClient st"
  by (induction els arbitrary: n st)
     (auto simp: rbind_Inr_iff addPending_def refreshPendingList_def lockCount_def unlockCount_def split: if_splits)

lemma configProcessPending_keeps:
  "configProcessPending H h st = Inr (n, st') \<Longrightarrow> keeps (cmClient st) \<Longrightarrow> keeps (cmClient st')"
  by (auto simp: configProcessPending_def rbind_Inr_iff scanForLostDependencies_def lockActive_def unlockActive_def
    split: if_splits dest!: process_items_keeps scan_elements_client)

lemma process_handlers_keeps:
  "process_handlers H hs n st = Inr (m, st') \<Longrightarrow> keeps (cmClient st) \<Longrightarrow> keeps (cmClient st')"
  by (induction hs arbitrary: n st) (auto simp: rbind_Inr_iff dest: configProcessPending_keeps)

lemma attemptReconfiguration_keeps:
  "attemptReconfiguration H st = Inr (n, st') \<Longrightarrow> keeps (cmClient st) \<Longrightarrow> keeps (cmClient st')"
  by (auto simp: attemptReconfiguration_def mergeIncomingToPending_def shouldCheckPending_def rbind_Inr_iff
    lockPending_def unlockPending_def lockIncoming_def unlockIncoming_def lockCount_def unlockCount_def Let_def
    split: if_splits dest!: process_handlers_keeps)

lemma checkForReconfig_keeps:
  assumes "checkForReconfig H st = Some (Inr st')" and "keeps (cmClient st)"
  shows "keeps (cmClient st')"
proof -
  have "H' = H \<longrightarrow> keeps (cmClient st) \<longrightarrow> r = Inr st' \<longrightarrow> keeps (cmClient st')"
    if "checkForReconfig H' st = Some r" for H' st r st'
  proof (rule checkForReconfig.raw_induct [where P = "\<lambda>H' st r. \<forall>st'. H' = H \<longrightarrow> keeps (cmClient st) \<longrightarrow> r = Inr st' \<longrightarrow> keeps (cmClient st')",
        OF _ that, THEN spec], intro allI impI)
    fix loop and H' :: "'s handlers" and st r st'
    assume IH: "\<And>H' st r. loop H' st = Some r \<Longrightarrow> \<forall>st'. H' = H \<longrightarrow> keeps (cmClient st) \<longrightarrow> r = Inr st' \<longrightarrow> keeps (cmClient st')"
      and body: "(case attemptReconfiguration H' st of Inl e \<Rightarrow> Some (Inl e)
         | Inr (n, st') \<Rightarrow> if n > 0 then loop H' st' else Some (Inr st')) = Some r"
      and st: "H' = H" "keeps (cmClient st)" "r = Inr st'"
    show "keeps (cmClient st')"
      using body st IH attemptReconfiguration_keeps [of st]
      by (auto split: sum.splits if_splits)
  qed
  then show ?thesis using assms by blast
qed

end

section \<open>Additions only\<close>

definition only_adds :: "pending_element list \<Rightarrow> bool" where
  "only_adds ps \<longleftrightarrow> (\<forall>p \<in> set ps. mType p = ADD)"

text \<open>The handler adds what it can handle, and asks for nothing itself.\<close>

definition adds_succeed :: "'s handlers \<Rightarrow> nat \<Rightarrow> bool" where
  "adds_succeed H h \<longleftrightarrow> (\<forall>e cfg c. configCanHandle H h e \<longrightarrow> (\<exists>c'. configAdd H h e cfg c = Inr (True, [], c')))"

lemma apply_adds: "only_adds ps \<Longrightarrow> apply_requests ps els = els @ map mElement ps"
  by (induction ps arbitrary: els) (simp_all add: only_adds_def)

lemma names_append [simp]: "names (xs @ ys) = names xs \<union> names ys"
  by (auto simp: names_def)

lemma sat_in_more:
  "\<not> sat_in st' e \<Longrightarrow> mDepCheckers st' = mDepCheckers st \<Longrightarrow> names (mActiveConfig st) \<subseteq> names (mActiveConfig st')
   \<Longrightarrow> \<not> sat_in st e"
  using manager.sat_mono by metis

text \<open>What is left after a pass of additions was not satisfied when the pass began.\<close>

lemma run_pass_adds:
  assumes "only_adds todo" and "adds_succeed H h"
  shows "\<exists>took st'. run_pass H h kept todo st = Inr (took, st') \<and> mIncomingConfig st' = mIncomingConfig st
    \<and> (\<forall>p \<in> set (left_of todo took). configCanHandle H h (mElement p) \<longrightarrow> \<not> sat_in st (mElement p))"
  using assms(1)
proof (induction todo arbitrary: kept st)
  case (Cons p rest)
  have p: "mType p = ADD" "only_adds rest" using Cons.prems by (simp_all add: only_adds_def)
  obtain b c where one: "try_request H h p st = Inr (b, [], c)"
      and b: "b \<longleftrightarrow> configCanHandle H h (mElement p) \<and> sat_in st (mElement p)"
  proof (cases "configCanHandle H h (mElement p) \<and> sat_in st (mElement p)")
    case True
    then obtain c where "configAdd H h (mElement p) (config_lists.truncate st) (cmClient st) = Inr (True, [], c)"
      using assms(2) unfolding adds_succeed_def by blast
    then show ?thesis using that [of True c] True p(1) by (simp add: try_request_def)
  next
    case False
    then show ?thesis using that [of False "cmClient st"] p(1) by (auto simp: try_request_def)
  qed
  let ?st = "after_request kept p rest b [] c st"
  obtain took st' where run: "run_pass H h (if b then kept else kept @ [p]) rest ?st = Inr (took, st')"
      "mIncomingConfig st' = mIncomingConfig st"
      and left: "\<forall>p \<in> set (left_of rest took). configCanHandle H h (mElement p) \<longrightarrow> \<not> sat_in ?st (mElement p)"
    using Cons.IH [OF p(2), of "if b then kept else kept @ [p]" ?st] unfolding after_request_fields append_Nil2 by blast
  have weaker: "\<not> sat_in st e" if "\<not> sat_in ?st e" for e
    by (rule sat_in_more [OF that]) (use p(1) in \<open>auto simp: names_append\<close>)
  have "run_pass H h kept (p # rest) st = Inr (b # took, st')" using one run(1) by simp
  moreover have "\<not> sat_in st (mElement q)"
    if "q \<in> set (left_of (p # rest) (b # took))" "configCanHandle H h (mElement q)" for q
  proof (cases "q \<in> set (left_of rest took)")
    case True
    with left that(2) have "\<not> sat_in ?st (mElement q)" by blast
    then show ?thesis by (rule weaker)
  next
    case False
    then have "q = p" "\<not> b" using that(1) by (simp_all split: if_splits)
    then show ?thesis using b that(2) by simp
  qed
  ultimately show ?case using run(2) by blast
qed simp

text \<open>What one attempt does when there are only additions: \<open>taken\<close> moved to the active list.\<close>

definition adds_pass :: "'s handlers \<Rightarrow> nat list \<Rightarrow> 's config_manager \<Rightarrow> 's config_manager \<Rightarrow> pending_element list \<Rightarrow> bool" where
  "adds_pass H hs st st' taken \<longleftrightarrow> same_setup st st' \<and> mIncomingConfig st' = mIncomingConfig st
     \<and> mset (mPendingConfig st) = mset taken + mset (mPendingConfig st')
     \<and> mActiveConfig st' = mActiveConfig st @ map mElement taken
     \<and> (\<forall>p \<in> set (mPendingConfig st'). (\<exists>h \<in> set hs. configCanHandle H h (mElement p)) \<longrightarrow> \<not> sat_in st (mElement p))"

lemma only_adds_mset: "only_adds xs \<Longrightarrow> mset xs = mset ys + mset zs \<Longrightarrow> only_adds ys \<and> only_adds zs"
  by (metis mset_append only_adds_def set_append set_mset_mset Un_iff)

lemma configProcessPending_adds:
  assumes "quiet st" and "mPendingLock st" and "only_adds (mPendingConfig st)" and "adds_succeed H h"
  shows "\<exists>taken st'. configProcessPending H h st = Inr (int (length taken), st') \<and> adds_pass H [h] st st' taken"
proof -
  obtain took st1 where run: "run_pass H h [] (mPendingConfig st) st = Inr (took, st1)"
      and inc: "mIncomingConfig st1 = mIncomingConfig st"
      and left: "\<forall>p \<in> set (left_of (mPendingConfig st) took). configCanHandle H h (mElement p) \<longrightarrow> \<not> sat_in st (mElement p)"
    using run_pass_adds [OF assms(3,4), of "[]" st] by blast
  note res = configProcessPending_run [OF assms(1,2) run]
  let ?taken = "taken_of (mPendingConfig st) took"
  have split: "mset (mPendingConfig st) = mset ?taken + mset (mPendingConfig st1)"
    using taken_left_mset [OF res(2)] res(4) by simp
  have adds: "only_adds ?taken" using only_adds_mset [OF assms(3) split] ..
  then have "after_scan ?taken k st1 = st1" for k by (auto simp: after_scan_def only_adds_def)
  then have "configProcessPending H h st = Inr (int (length ?taken), st1)" using res(1) by auto
  moreover have "adds_pass H [h] st st1 ?taken"
    using left inc res(3,4) split apply_adds [OF adds] by (simp add: adds_pass_def pass_result_def)
  ultimately show ?thesis by blast
qed

lemma process_handlers_adds:
  assumes "quiet st" and "mPendingLock st" and "only_adds (mPendingConfig st)" and "\<forall>h \<in> set hs. adds_succeed H h"
  shows "\<exists>taken st'. process_handlers H hs n st = Inr (n + int (length taken), st') \<and> adds_pass H hs st st' taken"
  using assms
proof (induction hs arbitrary: n st)
  case Nil
  then show ?case by (intro exI [of _ "[]"] exI [of _ st]) (simp add: adds_pass_def)
next
  case (Cons h hs)
  obtain t1 st1 where run1: "configProcessPending H h st = Inr (int (length t1), st1)" and pass1: "adds_pass H [h] st st1 t1"
    using configProcessPending_adds [of st H h] Cons.prems by auto
  have "quiet st1" "mPendingLock st1" "only_adds (mPendingConfig st1)"
    using pass1 Cons.prems(1,2) only_adds_mset [OF Cons.prems(3)] by (auto simp: adds_pass_def same_setup_def)
  then obtain t2 st2 where run2: "process_handlers H hs (n + int (length t1)) st1 = Inr (n + int (length t1) + int (length t2), st2)"
      and pass2: "adds_pass H hs st1 st2 t2"
    using Cons.IH [of st1 "n + int (length t1)"] Cons.prems(4) by auto
  have weaker: "\<not> sat_in st e" if "\<not> sat_in st1 e" for e
    by (rule sat_in_more [OF that]) (use pass1 in \<open>auto simp: adds_pass_def same_setup_def\<close>)
  have "set (mPendingConfig st2) \<subseteq> set (mPendingConfig st1)"
    using pass2 unfolding adds_pass_def by (metis mset_subset_eq_add_right set_mset_mono set_mset_mset)
  then have left: "\<forall>p \<in> set (mPendingConfig st2). (\<exists>h \<in> set (h # hs). configCanHandle H h (mElement p)) \<longrightarrow> \<not> sat_in st (mElement p)"
    using pass1 pass2 weaker unfolding adds_pass_def by auto
  have "adds_pass H (h # hs) st st2 (t1 @ t2)"
    using pass1 pass2 left same_setup_trans unfolding adds_pass_def by (simp add: add.assoc) blast
  then show ?case using run1 run2 by (intro exI [of _ "t1 @ t2"] exI [of _ st2]) (simp add: add.assoc)
qed

text \<open>Every dependency is active or is itself asked for, and the requests do not depend on each other in a cycle.\<close>

definition provided :: "(string \<Rightarrow> nat) \<Rightarrow> configuration \<Rightarrow> pending_element list \<Rightarrow> bool" where
  "provided rank els todo \<longleftrightarrow> (\<forall>p \<in> set todo. \<forall>d \<in> set (getElementPtrDependencies (mElement p)).
     d \<in> names els \<or> (\<exists>q \<in> set todo. getName (mElement q) = d \<and> rank d < rank (getName (mElement p))))"

definition requests :: "'s config_manager \<Rightarrow> pending_element list" where
  "requests st = mPendingConfig st @ mIncomingConfig st"

definition due :: "'s config_manager \<Rightarrow> bool" where
  "due st \<longleftrightarrow> length (requests st) \<noteq> mLastPendingSize st \<or> mPendingCheckCount st < pending_repeat_limit"

definition all_handled :: "'s handlers \<Rightarrow> 's config_manager \<Rightarrow> bool" where
  "all_handled H st \<longleftrightarrow> (\<forall>h \<in> set (mElementHandlers st). adds_succeed H h)
     \<and> (\<forall>p \<in> set (requests st). \<exists>h \<in> set (mElementHandlers st). configCanHandle H h (mElement p))"

lemma some_satisfied:
  assumes "provided rank els todo" and "todo \<noteq> []"
  shows "\<exists>p \<in> set todo. manager_sat cs (mElement p) (names els)"
proof -
  define f where "f p = rank (getName (mElement p))" for p :: pending_element
  have "\<exists>p. p \<in> set todo \<and> (\<forall>q. q \<in> set todo \<longrightarrow> f p \<le> f q)"
    using assms(2) ex_has_least_nat [of "\<lambda>p. p \<in> set todo" "hd todo" f] by auto
  then obtain p where p: "p \<in> set todo" and least: "\<And>q. q \<in> set todo \<Longrightarrow> f p \<le> f q" by blast
  have "set (getElementPtrDependencies (mElement p)) \<subseteq> names els"
    using assms(1) p least unfolding provided_def f_def by (metis linorder_not_le subsetI)
  then have "manager_sat cs (mElement p) (names els)"
    by (cases "findDepChecker (mElement p) cs") (simp_all add: manager_sat_def)
  then show ?thesis using p by blast
qed

lemma shouldCheckPending_due:
  "quiet st \<Longrightarrow> length (mPendingConfig st) \<noteq> mLastPendingSize st \<or> mPendingCheckCount st < pending_repeat_limit \<Longrightarrow>
   \<exists>c. shouldCheckPending st = Inr (True, st\<lparr>mPendingCheckCount := c, mLastPendingSize := length (mPendingConfig st)\<rparr>)"
  by (cases st) (auto simp: shouldCheckPending_def lockCount_def unlockCount_def quiet_def Let_def)

lemma attemptReconfiguration_adds:
  assumes "cm_inv st" and "only_adds (requests st)" and "all_handled H st" and "due st"
  shows "\<exists>taken st'. attemptReconfiguration H st = Inr (int (length taken), st') \<and> cm_inv st'
    \<and> mElementHandlers st' = mElementHandlers st \<and> mIncomingConfig st' = []
    \<and> mLastPendingSize st' = length (requests st)
    \<and> mset (requests st) = mset taken + mset (mPendingConfig st')
    \<and> mActiveConfig st' = mActiveConfig st @ map mElement taken
    \<and> (\<forall>p \<in> set (mPendingConfig st'). \<not> sat_in st (mElement p))"
proof -
  let ?st1 = "st\<lparr>mPendingConfig := mPendingConfig st @ mIncomingConfig st, mIncomingConfig := []\<rparr>"
  have quiet1: "quiet ?st1" "\<not> mPendingLock ?st1" and quiet0: "quiet st" "\<not> mPendingLock st"
    using assms(1) by (auto simp: cm_inv_def quiet_def)
  have merge: "mergeIncomingToPending st = Inr ?st1" by (rule mergeIncomingToPending_value [OF quiet0])
  obtain c where check: "shouldCheckPending ?st1 = Inr (True, ?st1\<lparr>mPendingCheckCount := c, mLastPendingSize := length (requests st)\<rparr>)"
    using shouldCheckPending_due [OF quiet1(1)] assms(4) by (auto simp: due_def requests_def)
  define st2 where "st2 = ?st1\<lparr>mPendingCheckCount := c, mLastPendingSize := length (requests st)\<rparr>"
  let ?st3 = "st2\<lparr>mPendingLock := True\<rparr>"
  have quiet3: "quiet ?st3" "mPendingLock ?st3" "only_adds (mPendingConfig ?st3)"
      "\<forall>h \<in> set (mElementHandlers st2). adds_succeed H h" "\<not> mPendingLock st2"
    using quiet1 assms(2,3) by (simp_all add: quiet_def st2_def requests_def all_handled_def)
  obtain taken st4 where run: "process_handlers H (mElementHandlers st2) 0 ?st3 = Inr (int (length taken), st4)"
      and pass: "adds_pass H (mElementHandlers st2) ?st3 st4 taken"
    using process_handlers_adds [OF quiet3(1-4), of 0] by auto
  have att: "attemptReconfiguration H st = Inr (int (length taken), unlockPending st4)"
    using merge check run quiet3(5) unfolding st2_def [symmetric]
    by (simp add: attemptReconfiguration_def lockPending_def)
  have "set (mPendingConfig st4) \<subseteq> set (mPendingConfig ?st3)"
    using pass unfolding adds_pass_def by (metis mset_subset_eq_add_right set_mset_mono set_mset_mset)
  then have handled: "\<exists>h \<in> set (mElementHandlers st2). configCanHandle H h (mElement p)"
    if "p \<in> set (mPendingConfig st4)" for p
    using that assms(3) by (auto simp: st2_def all_handled_def requests_def)
  have "\<not> sat_in st (mElement p)" if "p \<in> set (mPendingConfig st4)" for p
    using pass that handled [OF that] by (auto simp: adds_pass_def st2_def)
  moreover have "cm_inv (unlockPending st4)" using attemptReconfiguration_inv [OF assms(1), of H] att by simp
  ultimately show ?thesis using pass att
    by (intro exI [of _ taken] exI [of _ "unlockPending st4"])
       (simp add: adds_pass_def same_setup_def unlockPending_def st2_def requests_def)
qed

lemma provided_later:
  assumes "provided rank els todo" and "mset todo = mset taken + mset left"
  shows "provided rank (els @ map mElement taken) left"
proof -
  have split: "set todo = set taken \<union> set left" by (metis assms(2) set_mset_mset set_mset_union)
  show ?thesis
    unfolding provided_def
  proof (intro ballI)
    fix p d
    assume p: "p \<in> set left" and d: "d \<in> set (getElementPtrDependencies (mElement p))"
    have "d \<in> names els \<or> (\<exists>q \<in> set todo. getName (mElement q) = d \<and> rank d < rank (getName (mElement p)))"
      using assms(1) p d split unfolding provided_def by blast
    then consider "d \<in> names els" | q where "q \<in> set taken" "getName (mElement q) = d"
      | q where "q \<in> set left" "getName (mElement q) = d" "rank d < rank (getName (mElement p))"
      using split by blast
    then show "d \<in> names (els @ map mElement taken)
        \<or> (\<exists>q \<in> set left. getName (mElement q) = d \<and> rank d < rank (getName (mElement p)))"
      by cases (auto simp: names_def)
  qed
qed

lemma checkForReconfig_adds:
  assumes "cm_inv st" and "only_adds (requests st)" and "all_handled H st" and "due st"
    and "provided rank (mActiveConfig st) (requests st)"
  shows "\<exists>st'. checkForReconfig H st = Some (Inr st') \<and> requests st' = []
    \<and> mset (mActiveConfig st') = mset (mActiveConfig st) + mset (map mElement (requests st))"
  using assms
proof (induction "length (requests st)" arbitrary: st rule: less_induct)
  case less
  obtain taken st1 where run: "attemptReconfiguration H st = Inr (int (length taken), st1)" and inv: "cm_inv st1"
      and same: "mElementHandlers st1 = mElementHandlers st" "mIncomingConfig st1 = []"
        "mLastPendingSize st1 = length (requests st)"
      and split: "mset (requests st) = mset taken + mset (mPendingConfig st1)"
      and active: "mActiveConfig st1 = mActiveConfig st @ map mElement taken"
      and left: "\<forall>p \<in> set (mPendingConfig st1). \<not> sat_in st (mElement p)"
    using attemptReconfiguration_adds [OF less.prems(1-4)] by blast
  have req: "requests st1 = mPendingConfig st1" using same(2) by (simp add: requests_def)
  have set_split: "set (requests st) = set taken \<union> set (mPendingConfig st1)"
    by (metis split set_mset_mset set_mset_union)
  have sum: "mset (map mElement (requests st)) = mset (map mElement taken) + mset (map mElement (mPendingConfig st1))"
    using split by (metis image_mset_union mset_map)
  show ?case
  proof (cases "taken = []")
    case True
    have "mset (requests st) = mset (mPendingConfig st1)" using split True by simp
    then have "set (requests st) = set (mPendingConfig st1)" by (metis set_mset_mset)
    then have "requests st = []"
      using some_satisfied [OF less.prems(5), of "mDepCheckers st"] left by blast
    then show ?thesis using run True split active req
      by (intro exI [of _ st1]) (simp add: checkForReconfig.simps)
  next
    case False
    have shorter: "length (requests st1) < length (requests st)"
      using arg_cong [OF split, of size] False by (simp add: req)
    have "only_adds (requests st1)" using only_adds_mset [OF less.prems(2) split] req by simp
    moreover have "all_handled H st1" using less.prems(3) same(1) set_split req by (auto simp: all_handled_def)
    moreover have "due st1" using shorter same(3) by (simp add: due_def)
    moreover have "provided rank (mActiveConfig st1) (requests st1)"
      using provided_later [OF less.prems(5) split] active req by simp
    ultimately obtain st' where "checkForReconfig H st1 = Some (Inr st')" "requests st' = []"
        "mset (mActiveConfig st') = mset (mActiveConfig st1) + mset (map mElement (requests st1))"
      using less.hyps [OF shorter inv] by blast
    then show ?thesis using run False active req sum
      by (intro exI [of _ st']) (simp add: checkForReconfig.simps [of H st])
  qed
qed

lemma shouldCheckPending_stale:
  "quiet st \<Longrightarrow> \<not> mPendingLock st \<Longrightarrow> length (mPendingConfig st) = mLastPendingSize st \<Longrightarrow>
   pending_repeat_limit \<le> mPendingCheckCount st \<Longrightarrow>
   \<exists>c. shouldCheckPending st = Inr (False, st\<lparr>mPendingCheckCount := c\<rparr>) \<and> pending_repeat_limit < c"
  by (cases st) (auto simp: shouldCheckPending_def lockCount_def unlockCount_def lockPending_def
    unlockPending_def quiet_def Let_def)

lemma attemptReconfiguration_stale:
  assumes "cm_inv st" and "length (requests st) = mLastPendingSize st" and "pending_repeat_limit \<le> mPendingCheckCount st"
  shows "\<exists>c. attemptReconfiguration H st
    = Inr (0, st\<lparr>mPendingConfig := requests st, mIncomingConfig := [], mPendingCheckCount := c\<rparr>) \<and> pending_repeat_limit < c"
proof -
  have idle: "quiet st" "\<not> mPendingLock st" using assms(1) by (simp_all add: cm_inv_def)
  let ?st = "st\<lparr>mPendingConfig := requests st, mIncomingConfig := []\<rparr>"
  have merge: "mergeIncomingToPending st = Inr ?st" using idle by (simp add: mergeIncomingToPending_value requests_def)
  have "quiet ?st" "\<not> mPendingLock ?st" "length (mPendingConfig ?st) = mLastPendingSize ?st"
      "pending_repeat_limit \<le> mPendingCheckCount ?st"
    using idle assms(2,3) by (simp_all add: quiet_def)
  from shouldCheckPending_stale [OF this] show ?thesis
    using merge by (auto simp: attemptReconfiguration_def)
qed

subsection \<open>A small configuration\<close>

text \<open>\<open>unit_b\<close> points to \<open>unit_a\<close>; the handler accepts everything once it has refused \<open>n\<close> additions.\<close>

definition unit_a :: config_element where
  "unit_a = \<lparr>getName = ''a'', getID = ''unit'', getElementPtrDependencies = []\<rparr>"

definition unit_b :: config_element where
  "unit_b = \<lparr>getName = ''b'', getID = ''unit'', getElementPtrDependencies = [''a'']\<rparr>"

definition patient_handler :: "nat \<Rightarrow> nat handlers" where
  "patient_handler n = \<lparr>configCanHandle = \<lambda>h e. True, configAdd = \<lambda>h e cfg c. Inr (n \<le> c, [], c + 1),
     configRemove = \<lambda>h e cfg c. Inr (True, [], c), mConfigurationSignal = \<lambda>cfg t c. Inr c\<rparr>"

text \<open>A handler that looks something up in the pending list.\<close>

definition asking_handler :: "nat handlers" where
  "asking_handler = (patient_handler 0)\<lparr>configAdd := \<lambda>h e cfg c.
     rbind (getElementFromPending ''c'' cfg) (\<lambda>found. Inr (found = None, [], c))\<rparr>"

definition example_state :: "configuration \<Rightarrow> pending_element list \<Rightarrow> pending_element list \<Rightarrow> int \<Rightarrow> nat
    \<Rightarrow> nat \<Rightarrow> nat config_manager" where
  "example_state active pending incoming checks lastSize client =
     (config_manager_new client)\<lparr>mActiveConfig := active, mPendingConfig := pending, mIncomingConfig := incoming,
        mElementHandlers := [0], mPendingCheckCount := checks, mLastPendingSize := lastSize\<rparr>"

lemmas cm_eval = attemptReconfiguration_def mergeIncomingToPending_def shouldCheckPending_def
  configProcessPending_def process_items.simps handler_effect_def scanForLostDependencies_def isSatisfied_def findDepChecker_def isElementInActiveList_def
  addActive_def removeActive_def addPending_def refreshPendingList_def lockPending_def lockActive_def
  lockIncoming_def lockCount_def unlockPending_def unlockActive_def unlockIncoming_def unlockCount_def
  pending_repeat_limit_def config_manager_new_def patient_handler_def unit_a_def unit_b_def example_state_def
  addConfigurationAdditions_def add_incoming_def addConfigElement_def addConfigElementHandler_def Let_def

abbreviation "ask_add e \<equiv> \<lparr>mType = ADD, mElement = e\<rparr>"
abbreviation "ask_remove e \<equiv> \<lparr>mType = REMOVE, mElement = e\<rparr>"

lemma example_start: "reach cm_init (cm_step H) (example_state [] [] [] 0 0 0)"
proof -
  have "reach cm_init (cm_step H) (config_manager_new 0)"
    by (rule reach.intros) (auto simp: cm_init_def)
  from reach.reach_step [OF this cm_add_handler [of _ _ 0]] show ?thesis by (simp add: cm_eval)
qed

lemma example_asked:
  assumes "reach cm_init (cm_step H) (example_state act pend inc k l c)"
  shows "reach cm_init (cm_step H) (example_state act pend (inc @ [\<lparr>mType = t, mElement = e\<rparr>]) k l c)"
  using reach.reach_step [OF assms cm_element [of _ _ e t]] by (simp add: cm_eval)

lemma example_attempt:
  assumes "reach cm_init (cm_step (patient_handler n)) st"
    and "attemptReconfiguration (patient_handler n) st = Inr (k, st')"
  shows "reach cm_init (cm_step (patient_handler n)) st'"
  using reach.reach_step [OF assms(1) cm_attempt [OF assms(2)]] .

lemma example_requested: "reach cm_init (cm_step (patient_handler 0)) (example_state [] [] [ask_add unit_b, ask_add unit_a] 0 0 0)"
  using example_asked [OF example_asked [OF example_start]] by simp

lemma example_both: "reach cm_init (cm_step (patient_handler 0)) (example_state [unit_a, unit_b] [] [] 0 1 2)"
proof -
  have "attemptReconfiguration (patient_handler 0) (example_state [] [] [ask_add unit_b, ask_add unit_a] 0 0 0)
      = Inr (1, example_state [unit_a] [ask_add unit_b] [] 0 2 1)"
    by (simp add: cm_eval)
  note first = example_attempt [OF example_requested this]
  have "attemptReconfiguration (patient_handler 0) (example_state [unit_a] [ask_add unit_b] [] 0 2 1)
      = Inr (1, example_state [unit_a, unit_b] [] [] 0 1 2)"
    by (simp add: cm_eval)
  from example_attempt [OF first this] show ?thesis .
qed

lemma example_lost: "reach cm_init (cm_step (patient_handler 0))
    (example_state [unit_b] [ask_remove unit_b, ask_add unit_b] [] 0 1 2)"
proof -
  have "reach cm_init (cm_step (patient_handler 0)) (example_state [unit_a, unit_b] [] [ask_remove unit_a] 0 1 2)"
    using example_asked [OF example_both] by simp
  moreover have "attemptReconfiguration (patient_handler 0) (example_state [unit_a, unit_b] [] [ask_remove unit_a] 0 1 2)
      = Inr (1, example_state [unit_b] [ask_remove unit_b, ask_add unit_b] [] 0 1 2)"
    by (simp add: cm_eval)
  ultimately show ?thesis by (rule example_attempt)
qed

lemma example_late: "reach cm_init (cm_step (patient_handler 3)) (example_state [unit_a] [] [ask_add unit_b] 3 1 4)"
proof -
  have asked: "reach cm_init (cm_step (patient_handler 3)) (example_state [] [] [ask_add unit_a] 0 0 0)"
    using example_asked [OF example_start] by simp
  have "attemptReconfiguration (patient_handler 3) (example_state [] [] [ask_add unit_a] 0 0 0)
      = Inr (0, example_state [] [ask_add unit_a] [] 0 1 1)"
    by (simp add: cm_eval)
  note one = example_attempt [OF asked this]
  have "attemptReconfiguration (patient_handler 3) (example_state [] [ask_add unit_a] [] 0 1 1)
      = Inr (0, example_state [] [ask_add unit_a] [] 1 1 2)"
    by (simp add: cm_eval)
  note two = example_attempt [OF one this]
  have "attemptReconfiguration (patient_handler 3) (example_state [] [ask_add unit_a] [] 1 1 2)
      = Inr (0, example_state [] [ask_add unit_a] [] 2 1 3)"
    by (simp add: cm_eval)
  note three = example_attempt [OF two this]
  have "attemptReconfiguration (patient_handler 3) (example_state [] [ask_add unit_a] [] 2 1 3)
      = Inr (1, example_state [unit_a] [] [] 3 1 4)"
    by (simp add: cm_eval)
  from example_asked [OF example_attempt [OF three this]] show ?thesis by simp
qed

section \<open>Properties\<close>

text \<open>
  C25. Whatever sequence of requests, reconfigurations, registrations and shutdowns the
  program makes, and whatever its handlers do, in every state it reaches no lock is held, every
  active element whose dependencies are no longer active has its removal in the pending list,
  and the next attempt to reconfigure fails in only one way: a call of \<^verbatim>\<open>configAdd\<close> or
  \<^verbatim>\<open>configRemove\<close> fails, which the manager makes with its pending list locked.  (A handler that
  looks into that list is such a call: it waits for the lock its own thread holds.)
\<close>
theorem reconfiguration_tracks_dependencies:
  assumes "reach cm_init (cm_step H) st"
  shows "\<not> mPendingLock st \<and> \<not> mActiveLock st \<and> \<not> mIncomingLock st \<and> \<not> mPendingCountMutex st
    \<and> (\<forall>e \<in> set (mActiveConfig st). isSatisfied e st = Inr False
          \<longrightarrow> \<lparr>mType = REMOVE, mElement = e\<rparr> \<in> set (mPendingConfig st))
    \<and> (case attemptReconfiguration H st of
         Inl failed \<Rightarrow> (\<exists>h el cfg c. mPendingLock cfg \<and> configCanHandle H h el
            \<and> (configAdd H h el cfg c = Inl failed \<or> configRemove H h el cfg c = Inl failed))
       | Inr (n, st') \<Rightarrow> \<not> mPendingLock st' \<and> \<not> mActiveLock st' \<and> \<not> mIncomingLock st' \<and> \<not> mPendingCountMutex st')"
proof -
  have inv: "cm_inv st" by (rule cm.reach_inv [OF assms])
  then have "\<not> mActiveLock st" by (simp add: cm_inv_def quiet_def)
  then show ?thesis using inv attemptReconfiguration_inv [OF inv, of H]
    by (cases "attemptReconfiguration H st")
      (auto simp: cm_inv_def quiet_def all_tracked_def isSatisfied_value handler_failure_def)
qed

theorem reconfiguration_tracks_dependencies_witness:
  "(let st = example_state [unit_b] [ask_remove unit_b, ask_add unit_b] [] 0 1 2 in
    isSatisfied unit_b st = Inr False \<and> ask_remove unit_b \<in> set (mPendingConfig st))
   \<and> attemptReconfiguration asking_handler (example_state [] [] [ask_add unit_a] 0 0 0) = Inl deadlock
   \<and> (\<exists>h el cfg c. mPendingLock cfg \<and> (configAdd asking_handler h el cfg c = Inl deadlock
        \<or> configRemove asking_handler h el cfg c = Inl deadlock))"
proof -
  have "isSatisfied unit_b (example_state [unit_b] [ask_remove unit_b, ask_add unit_b] [] 0 1 2) = Inr False"
    by (simp add: cm_eval)
  moreover have "unit_b \<in> set (mActiveConfig (example_state [unit_b] [ask_remove unit_b, ask_add unit_b] [] 0 1 2))"
    by (simp add: example_state_def)
  moreover have asked: "reach cm_init (cm_step asking_handler) (example_state [] [] [ask_add unit_a] 0 0 0)"
    using example_asked [OF example_start] by simp
  moreover have "attemptReconfiguration asking_handler (example_state [] [] [ask_add unit_a] 0 0 0) = Inl deadlock"
    by (simp add: cm_eval asking_handler_def getElementFromPending_def)
  ultimately show ?thesis
    using reconfiguration_tracks_dependencies [OF example_lost] reconfiguration_tracks_dependencies [OF asked]
    unfolding Let_def by auto
qed

text \<open>
  C26. Requested elements become active.  Let only additions be requested, let the handlers add
  what they can handle and ask for nothing themselves, some handler handle each request, and every
  dependency of a request be active or requested, without a cycle.  If the manager is due to look
  at the list, as the number of requests differs from the last look's or it has looked at a list
  of this length fewer than three times more, the kernel's loop returns with every request taken: the active
  elements are those from before and all the requested ones.  If it is not due, the loop returns
  with no request tried, and all of them still pending.
\<close>
theorem requests_become_active:
  assumes "reach cm_init (cm_step H) st"
    and "only_adds (requests st)" and "all_handled H st"
    and "provided rank (mActiveConfig st) (requests st)"
  shows "\<exists>st'. checkForReconfig H st = Some (Inr st') \<and> mIncomingConfig st' = []
    \<and> (if due st
       then mPendingConfig st' = [] \<and> mset (mActiveConfig st') = mset (mActiveConfig st)
              + mset (map mElement (mPendingConfig st @ mIncomingConfig st))
       else mPendingConfig st' = mPendingConfig st @ mIncomingConfig st \<and> mActiveConfig st' = mActiveConfig st)"
proof -
  have inv: "cm_inv st" by (rule cm.reach_inv [OF assms(1)])
  show ?thesis
  proof (cases "due st")
    case True
    then show ?thesis using checkForReconfig_adds [OF inv assms(2,3) True assms(4)] by (auto simp: requests_def)
  next
    case False
    then show ?thesis using attemptReconfiguration_stale [OF inv, of H]
      by (auto simp: due_def requests_def checkForReconfig.simps)
  qed
qed

theorem requests_become_active_witness:
  "\<exists>st'. checkForReconfig (patient_handler 0) (example_state [] [] [ask_add unit_b, ask_add unit_a] 0 0 0) = Some (Inr st')
    \<and> mPendingConfig st' = [] \<and> mset (mActiveConfig st') = {#unit_b, unit_a#}"
proof -
  let ?st = "example_state [] [] [ask_add unit_b, ask_add unit_a] 0 0 0 :: nat config_manager"
  have due: "due ?st" by (simp add: due_def requests_def cm_eval)
  have "only_adds (requests ?st)" "all_handled (patient_handler 0) ?st"
    "provided (\<lambda>n. if n = ''b'' then 1 else 0) (mActiveConfig ?st) (requests ?st)"
    by (simp_all add: only_adds_def all_handled_def provided_def requests_def adds_succeed_def cm_eval)
  from requests_become_active [OF example_requested this] show ?thesis
    unfolding if_P [OF due] by (auto simp: example_state_def config_manager_new_def add_mset_commute)
qed

text \<open>
  C27. A handler's pass over the pending list, with the list locked, asks about the requests one
  after the other, in the list's order (\<open>run_pass\<close>): a request is taken exactly when the handler can
  handle it, for an addition its dependencies are active at that moment, and the handler's call
  answers that it did it.  At the end the active list is the old one with the requests taken
  applied in order, the others are still in the list in their order, the answer is how many were
  taken, and what the handlers asked for is incoming; after a removal every active element that is
  no longer satisfied is asked to be removed and added again.  The pass fails exactly when a
  handler's call does.
\<close>
theorem pass_applies_requests:
  assumes "quiet st" and "mPendingLock st"
  shows "case run_pass H h [] (mPendingConfig st) st of
      Inl failed \<Rightarrow> configProcessPending H h st = Inl failed
    | Inr (took, st1) \<Rightarrow> \<exists>st'. configProcessPending H h st = Inr (int (length (taken_of (mPendingConfig st) took)), st')
        \<and> length took = length (mPendingConfig st)
        \<and> mActiveConfig st' = apply_requests (taken_of (mPendingConfig st) took) (mActiveConfig st)
        \<and> justified (manager_sat (mDepCheckers st)) (taken_of (mPendingConfig st) took) (mActiveConfig st)
        \<and> cmClient st' = cmClient st1 \<and> mIncomingConfig st' = mIncomingConfig st1
        \<and> mPendingConfig st' = left_of (mPendingConfig st) took
            @ (if \<exists>p \<in> set (taken_of (mPendingConfig st) took). mType p = REMOVE
               then lost_requests (\<lambda>e. isSatisfied e st' = Inr True) (mActiveConfig st') else [])"
proof (cases "run_pass H h [] (mPendingConfig st) st")
  case (Inl e)
  then show ?thesis using configProcessPending_fails [OF assms] by simp
next
  case (Inr r)
  obtain took st1 where r: "r = (took, st1)" by fastforce
  let ?taken = "taken_of (mPendingConfig st) took"
  note run = configProcessPending_run [OF assms Inr [unfolded r]]
  obtain k where k: "configProcessPending H h st = Inr (int (length ?taken), after_scan ?taken k st1)"
    using run(1) by blast
  have "same_setup st (after_scan ?taken k st1)" using run(3) by (simp add: pass_result_def)
  then have "\<not> mActiveLock (after_scan ?taken k st1)" using assms(1) by (simp add: same_setup_def quiet_def)
  then show ?thesis
    using k run(2-4) by (simp add: Inr r pass_result_def isSatisfied_value) (simp add: after_scan_def)
qed

theorem pass_applies_requests_witness:
  "\<exists>st'. configProcessPending (patient_handler 0) 0
        ((example_state [unit_a, unit_b] [ask_remove unit_a] [] 0 1 2)\<lparr>mPendingLock := True\<rparr>) = Inr (1, st')
    \<and> mActiveConfig st' = [unit_b]
    \<and> mPendingConfig st' = lost_requests (\<lambda>e. isSatisfied e st' = Inr True) [unit_b]"
proof -
  let ?st = "(example_state [unit_a, unit_b] [ask_remove unit_a] [] 0 1 2)\<lparr>mPendingLock := True\<rparr> :: nat config_manager"
  have st: "quiet ?st" "mPendingLock ?st" "mPendingConfig ?st = [ask_remove unit_a]"
    "mActiveConfig ?st = [unit_a, unit_b]" "mDepCheckers ?st = []"
    by (simp_all add: quiet_def example_state_def config_manager_new_def)
  obtain st1 where run: "run_pass (patient_handler 0) 0 [] (mPendingConfig ?st) ?st = Inr ([True], st1)"
    unfolding st(3) by (simp add: try_request_def) (simp add: patient_handler_def)
  show ?thesis
    using pass_applies_requests [OF st(1,2), of "patient_handler 0" 0] run unfolding st(3,4)
    by (auto simp: unit_a_def unit_b_def)
qed

text \<open>
  The manager decides by the number of pending requests whether the list has changed:
  when as many new requests arrive as were taken since the last look and the count has reached
  its limit, the new requests are not looked at, now or in any later attempt, although none
  of them has been tried.
\<close>
theorem same_size_is_stale:
  assumes "reach cm_init (cm_step H) st" and "length (mPendingConfig st @ mIncomingConfig st) = mLastPendingSize st"
    and "pending_repeat_limit \<le> mPendingCheckCount st"
  shows "\<exists>st'. attemptReconfiguration H st = Inr (0, st') \<and> checkForReconfig H st = Some (Inr st')
    \<and> mPendingConfig st' = mPendingConfig st @ mIncomingConfig st \<and> mActiveConfig st' = mActiveConfig st
    \<and> cmClient st' = cmClient st \<and> isPendingStale st' = Inr True
    \<and> (\<exists>st''. attemptReconfiguration H st' = Inr (0, st'') \<and> mPendingConfig st'' = mPendingConfig st')"
proof -
  have inv: "cm_inv st" by (rule cm.reach_inv [OF assms(1)])
  obtain c where att: "attemptReconfiguration H st
      = Inr (0, st\<lparr>mPendingConfig := requests st, mIncomingConfig := [], mPendingCheckCount := c\<rparr>)"
      and c: "pending_repeat_limit < c"
    using attemptReconfiguration_stale [OF inv _ assms(3), of H] assms(2) by (auto simp: requests_def)
  let ?st = "st\<lparr>mPendingConfig := requests st, mIncomingConfig := [], mPendingCheckCount := c\<rparr>"
  have inv': "cm_inv ?st" using attemptReconfiguration_inv [OF inv, of H] att by simp
  have "isPendingStale ?st = Inr True"
    using inv c by (simp add: isPendingStale_def lockCount_def cm_inv_def quiet_def)
  moreover obtain c' where "attemptReconfiguration H ?st = Inr (0, ?st\<lparr>mPendingCheckCount := c'\<rparr>)"
    using attemptReconfiguration_stale [OF inv', of H] assms(2) c by (auto simp: requests_def)
  moreover have "checkForReconfig H st = Some (Inr ?st)" by (simp add: checkForReconfig.simps att)
  ultimately show ?thesis using att by (intro exI [of _ ?st]) (simp add: requests_def)
qed

theorem same_size_is_stale_witness:
  "let st = example_state [unit_a] [] [ask_add unit_b] 3 1 4 in
   \<exists>st'. attemptReconfiguration (patient_handler 3) st = Inr (0, st') \<and> mPendingConfig st' = [ask_add unit_b]
     \<and> isSatisfied unit_b st = Inr True \<and> isPendingStale st' = Inr True"
proof -
  let ?st = "example_state [unit_a] [] [ask_add unit_b] 3 1 4 :: nat config_manager"
  have "length (mPendingConfig ?st @ mIncomingConfig ?st) = mLastPendingSize ?st"
    "pending_repeat_limit \<le> mPendingCheckCount ?st" "isSatisfied unit_b ?st = Inr True"
    by (simp_all add: cm_eval)
  with same_size_is_stale [OF example_late this(1,2)] show ?thesis
    unfolding Let_def by (auto simp: example_state_def config_manager_new_def)
qed

end
