(* ===== verification/DisplayMgr.thy ===== *)
theory DisplayMgr
  imports JcclConfig
begin

text \<open>
  The display manager (\<^verbatim>\<open>vrj/Display/DisplayManager.cpp\<close>) and what the OpenGL draw manager
  keeps of the displays it is told about (\<^verbatim>\<open>mWins\<close> of \<^verbatim>\<open>vrj/Draw/OpenGL/DrawManager.cpp\<close>).

  Calls that leave the kernel and the display manager for an application, a draw manager, a
  sound manager, the cluster or the input manager are recorded in the order they are made;
  these objects are numbers.  A display is the part of it the manager looks at; its number is
  its address, so two displays with the same number are the same object.

  A draw manager that is told of a display configures a window for it.  Some windows ask the
  display manager for the display system's element meanwhile (\<^verbatim>\<open>WindowXWin::configWindow\<close>): which
  draw managers have such windows is the argument \<open>asks\<close>.  The question goes to the configuration
  manager, whose lists and locks are the argument \<open>cfg\<close>, and takes its locks.
\<close>

record display =
  dispId :: nat
  dispName :: string
  isActive :: bool

datatype vrj_call =
    AppInit nat | AppApiInit nat | AppExit nat
  | PreFrame nat | LatePreFrame nat | IntraFrame nat | PostFrame nat
  | SetApp nat nat | InitAPI nat | CloseAPI nat | Draw nat | Sync nat
  | AddDisplay nat display | RemoveDisplay nat display
  | SoundUpdate nat | SoundSync nat | SoundCloseAPI nat
  | ClusterBarrier | ClusterPreDraw | ClusterPostPostFrame
  | InputReset | InputUpdateDevices | InputUpdateProxies | InputShutdown

record display_manager =
  mActiveDisplays :: "display list"
  mInactiveDisplays :: "display list"
  dispDrawManager :: "nat option"
  mDisplaySystemElement :: "config_element option"
  nextDisplay :: nat
  vrjCalls :: "vrj_call list"

definition display_manager_new :: display_manager where
  "display_manager_new = \<lparr>mActiveDisplays = [], mInactiveDisplays = [], dispDrawManager = None,
     mDisplaySystemElement = None, nextDisplay = 0, vrjCalls = []\<rparr>"

definition vrj_call_made :: "vrj_call \<Rightarrow> display_manager \<Rightarrow> display_manager" where
  "vrj_call_made c dm = dm\<lparr>vrjCalls := vrjCalls dm @ [c]\<rparr>"

definition getAllDisplays :: "display_manager \<Rightarrow> display list" where
  "getAllDisplays dm = mActiveDisplays dm @ mInactiveDisplays dm"

section \<open>Operations\<close>

text \<open>The display system element is looked for in the active and then in the pending list.\<close>

definition getDisplaySystemElement :: "'a config_lists_scheme \<Rightarrow> display_manager \<Rightarrow> (config_element option \<times> display_manager) result" where
  "getDisplaySystemElement cfg dm =
     rbind (if mDisplaySystemElement dm = None
            then rbind (lockActive cfg) (\<lambda>cfg.
                 Inr (case find (\<lambda>e. getID e = ''display_system'') (mActiveConfig cfg) of
                        Some e \<Rightarrow> dm\<lparr>mDisplaySystemElement := Some e\<rparr> | None \<Rightarrow> dm))
            else Inr dm) (\<lambda>dm.
     rbind (if mDisplaySystemElement dm = None
            then rbind (lockPending cfg) (\<lambda>cfg.
                 Inr (case find (\<lambda>p. getID (mElement p) = ''display_system'') (mPendingConfig cfg) of
                        Some p \<Rightarrow> dm\<lparr>mDisplaySystemElement := Some (mElement p)\<rparr> | None \<Rightarrow> dm))
            else Inr dm) (\<lambda>dm.
     Inr (mDisplaySystemElement dm, dm)))"

text \<open>
  \<^verbatim>\<open>DrawManager::addDisplay\<close>, up to the window's place in \<^verbatim>\<open>mWins\<close>.  A window that asks reads its
  pipe from the element, and so dereferences a null pointer if there is none.
\<close>

definition no_display_system :: failure where
  "no_display_system = Undefined ''null display system element''"

definition tell_display :: "(nat \<Rightarrow> bool) \<Rightarrow> 'a config_lists_scheme \<Rightarrow> nat \<Rightarrow> display \<Rightarrow> display_manager \<Rightarrow> display_manager result" where
  "tell_display asks cfg d disp dm =
     rbind (if asks d
            then rbind (getDisplaySystemElement cfg dm) (\<lambda>(disp_sys_elt, dm).
                 if disp_sys_elt = None then Inl no_display_system else Inr dm)
            else Inr dm) (\<lambda>dm.
     Inr (vrj_call_made (AddDisplay d disp) dm))"

text \<open>The draw manager is told of the displays that are active already.\<close>

definition setDrawManager :: "(nat \<Rightarrow> bool) \<Rightarrow> 'a config_lists_scheme \<Rightarrow> nat option \<Rightarrow> display_manager \<Rightarrow> display_manager result" where
  "setDrawManager asks cfg drawMgr dm =
     (let dm = dm\<lparr>dispDrawManager := drawMgr\<rparr> in
      case drawMgr of
        None \<Rightarrow> Inr dm
      | Some d \<Rightarrow> rfold (tell_display asks cfg d) (mActiveDisplays dm) dm)"

definition isMemberDisplay :: "display \<Rightarrow> display_manager \<Rightarrow> bool" where
  "isMemberDisplay disp dm \<longleftrightarrow> disp \<in> set (mActiveDisplays dm) \<or> disp \<in> set (mInactiveDisplays dm)"

definition findDisplayNamed :: "string \<Rightarrow> display_manager \<Rightarrow> display option" where
  "findDisplayNamed name dm =
     (case find (\<lambda>d. dispName d = name) (mActiveDisplays dm) of
        Some d \<Rightarrow> Some d
      | None \<Rightarrow> find (\<lambda>d. dispName d = name) (mInactiveDisplays dm))"

definition addDisplay :: "(nat \<Rightarrow> bool) \<Rightarrow> 'a config_lists_scheme \<Rightarrow> display \<Rightarrow> bool \<Rightarrow> display_manager \<Rightarrow> display_manager result" where
  "addDisplay asks cfg disp notifyDrawMgr dm =
     (let dm = (if isActive disp then dm\<lparr>mActiveDisplays := mActiveDisplays dm @ [disp]\<rparr>
                else dm\<lparr>mInactiveDisplays := mInactiveDisplays dm @ [disp]\<rparr>) in
      case dispDrawManager dm of
        Some d \<Rightarrow> if notifyDrawMgr \<and> isActive disp then tell_display asks cfg d disp dm else Inr dm
      | None \<Rightarrow> Inr dm)"

definition closeDisplay :: "display \<Rightarrow> bool \<Rightarrow> display_manager \<Rightarrow> display_manager result" where
  "closeDisplay disp notifyDrawMgr dm =
     rbind (require (isMemberDisplay disp dm) (AssertionFailed ''isMemberDisplay(disp)'')) (\<lambda>_.
     let dm1 = (case dispDrawManager dm of
                  Some d \<Rightarrow> if notifyDrawMgr \<and> isActive disp then vrj_call_made (RemoveDisplay d disp) dm else dm
                | None \<Rightarrow> dm);
         num_before_close = length (mActiveDisplays dm1) + length (mInactiveDisplays dm1);
         dm2 = dm1\<lparr>mActiveDisplays := removeAll disp (mActiveDisplays dm1),
                   mInactiveDisplays := removeAll disp (mInactiveDisplays dm1)\<rparr> in
     rbind (require (num_before_close = 1 + length (mActiveDisplays dm2) + length (mInactiveDisplays dm2))
              (AssertionFailed ''num_before_close == (1+mActiveDisplays.size() + mInactiveDisplays.size())'')) (\<lambda>_.
     Inr dm2))"

definition displayCanHandle :: "config_element \<Rightarrow> bool" where
  "displayCanHandle element \<longleftrightarrow> getID element = ''surfaceDisplay'' \<or> getID element = ''simDisplay''
     \<or> getID element = ''display_system'' \<or> getID element = ''display_window''"

text \<open>
  \<^verbatim>\<open>Display::create\<close> and \<^verbatim>\<open>config\<close>: whether the element's \<^verbatim>\<open>active\<close> property is set is an
  argument, as the XML library would answer it.
\<close>

definition display_create :: "(config_element \<Rightarrow> bool) \<Rightarrow> config_element \<Rightarrow> display_manager \<Rightarrow> display \<times> display_manager" where
  "display_create active element dm =
     (\<lparr>dispId = nextDisplay dm, dispName = getName element, isActive = active element\<rparr>,
      dm\<lparr>nextDisplay := nextDisplay dm + 1\<rparr>)"

definition configAddDisplay :: "(nat \<Rightarrow> bool) \<Rightarrow> 'a config_lists_scheme \<Rightarrow> (config_element \<Rightarrow> bool) \<Rightarrow> config_element
    \<Rightarrow> display_manager \<Rightarrow> (bool \<times> display_manager) result" where
  "configAddDisplay asks cfg active element dm =
     rbind (require (displayCanHandle element) (AssertionFailed ''configCanHandle(element)'')) (\<lambda>_.
     rbind (case findDisplayNamed (getName element) dm of
              Some cur_disp \<Rightarrow> closeDisplay cur_disp True dm
            | None \<Rightarrow> Inr dm) (\<lambda>dm.
     if getID element = ''display_window''
     then (let (newDisp, dm) = display_create active element dm in
           rbind (addDisplay asks cfg newDisp True dm) (\<lambda>dm. Inr (True, dm)))
     else Inr (True, dm)))"

definition configRemoveDisplay :: "config_element \<Rightarrow> display_manager \<Rightarrow> (bool \<times> display_manager) result" where
  "configRemoveDisplay element dm =
     rbind (require (displayCanHandle element) (AssertionFailed ''configCanHandle(element)'')) (\<lambda>_.
     if getID element = ''display_window''
     then (case findDisplayNamed (getName element) dm of
             Some remove_disp \<Rightarrow> rbind (closeDisplay remove_disp True dm) (\<lambda>dm. Inr (True, dm))
           | None \<Rightarrow> Inr (False, dm))
     else Inr (False, dm))"

definition displayConfigAdd :: "(nat \<Rightarrow> bool) \<Rightarrow> 'a config_lists_scheme \<Rightarrow> (config_element \<Rightarrow> bool) \<Rightarrow> config_element
    \<Rightarrow> display_manager \<Rightarrow> (bool \<times> display_manager) result" where
  "displayConfigAdd asks cfg active element dm =
     rbind (require (displayCanHandle element) (AssertionFailed ''configCanHandle(element)'')) (\<lambda>_.
     if getID element = ''surfaceDisplay'' \<or> getID element = ''simDisplay'' then Inr (False, dm)
     else if getID element = ''display_window'' then configAddDisplay asks cfg active element dm
     else if getID element = ''display_system'' then Inr (True, dm\<lparr>mDisplaySystemElement := Some element\<rparr>)
     else Inr (False, dm))"

definition displayConfigRemove :: "config_element \<Rightarrow> display_manager \<Rightarrow> (bool \<times> display_manager) result" where
  "displayConfigRemove element dm =
     rbind (require (displayCanHandle element) (AssertionFailed ''configCanHandle(element)'')) (\<lambda>_.
     if getID element = ''surfaceDisplay'' \<or> getID element = ''simDisplay'' then Inr (False, dm)
     else if getID element = ''display_window'' then configRemoveDisplay element dm
     else if getID element = ''display_system'' then Inr (True, dm\<lparr>mDisplaySystemElement := None\<rparr>)
     else Inr (False, dm))"

section \<open>The draw manager's windows\<close>

text \<open>
  The OpenGL draw manager has a window for each display it was told about:
  \<^verbatim>\<open>addDisplay\<close> appends one, \<^verbatim>\<open>removeDisplay\<close> asserts that there is one and erases it,
  \<^verbatim>\<open>closeAPI\<close> clears the list.
\<close>

fun window_call :: "nat \<Rightarrow> display list result \<Rightarrow> vrj_call \<Rightarrow> display list result" where
  "window_call d wins (AddDisplay d' disp) = (if d' = d then rbind wins (\<lambda>w. Inr (w @ [disp])) else wins)"
| "window_call d wins (RemoveDisplay d' disp) =
     (if d' = d
      then rbind wins (\<lambda>w. if disp \<in> set w then Inr (removeAll disp w)
                           else Inl (AssertionFailed ''removeDisplay: display not found''))
      else wins)"
| "window_call d wins (CloseAPI d') = (if d' = d then rbind wins (\<lambda>w. Inr []) else wins)"
| "window_call d wins _ = wins"

definition windows :: "nat \<Rightarrow> vrj_call list \<Rightarrow> display list result" where
  "windows d calls = foldl (window_call d) (Inr []) calls"

lemma windows_simps [simp]:
  "windows d [] = Inr []"
  "windows d (calls @ [c]) = window_call d (windows d calls) c"
  by (simp_all add: windows_def)

section \<open>The displays and their windows\<close>

text \<open>Names are unique, and each draw manager has a window for exactly the displays it should show.\<close>

definition display_ok :: "display_manager \<Rightarrow> bool" where
  "display_ok dm \<longleftrightarrow> distinct (map dispName (getAllDisplays dm))
     \<and> (\<forall>d \<in> set (mActiveDisplays dm). isActive d) \<and> (\<forall>d \<in> set (mInactiveDisplays dm). \<not> isActive d)
     \<and> (\<forall>d. windows d (vrjCalls dm) = Inr (if dispDrawManager dm = Some d then mActiveDisplays dm else []))"

lemma display_ok_new: "display_ok display_manager_new"
  by (simp add: display_ok_def display_manager_new_def getAllDisplays_def)

lemma display_ok_update [simp]:
  "display_ok (dm\<lparr>nextDisplay := n\<rparr>) = display_ok dm"
  "display_ok (dm\<lparr>mDisplaySystemElement := e\<rparr>) = display_ok dm"
  by (simp_all add: display_ok_def getAllDisplays_def)

lemma find_named:
  "findDisplayNamed name dm = Some disp \<Longrightarrow> isMemberDisplay disp dm \<and> dispName disp = name"
  by (auto simp: findDisplayNamed_def isMemberDisplay_def find_Some_iff split: option.splits)

lemma find_unnamed:
  "findDisplayNamed name dm = None \<longleftrightarrow> name \<notin> dispName ` set (getAllDisplays dm)"
  by (auto simp: findDisplayNamed_def getAllDisplays_def find_None_iff find_Some_iff split: option.splits)

lemma length_removeAll_distinct: "distinct xs \<Longrightarrow> x \<in> set xs \<Longrightarrow> Suc (length (removeAll x xs)) = length xs"
  by (metis One_nat_def Suc_pred distinct_remove1_removeAll length_pos_if_in_set length_remove1)

lemma closeDisplay_ok:
  assumes "display_ok dm" and "isMemberDisplay disp dm"
  shows "\<exists>dm'. closeDisplay disp True dm = Inr dm' \<and> display_ok dm'
    \<and> mActiveDisplays dm' = removeAll disp (mActiveDisplays dm)
    \<and> mInactiveDisplays dm' = removeAll disp (mInactiveDisplays dm)
    \<and> dispDrawManager dm' = dispDrawManager dm"
proof -
  let ?act = "mActiveDisplays dm" and ?ina = "mInactiveDisplays dm"
  have dist: "distinct ?act" "distinct ?ina" "set ?act \<inter> set ?ina = {}"
    and names: "distinct (map dispName ?act)" "distinct (map dispName ?ina)"
      "dispName ` set ?act \<inter> dispName ` set ?ina = {}"
    using assms(1) by (auto simp: display_ok_def getAllDisplays_def distinct_map)
  have len: "length ?act + length ?ina = 1 + length (removeAll disp ?act) + length (removeAll disp ?ina)"
  proof (cases "disp \<in> set ?act")
    case True
    then have "removeAll disp ?ina = ?ina" using dist(3) by (intro removeAll_id) blast
    then show ?thesis using length_removeAll_distinct [OF dist(1) True] by simp
  next
    case False
    then have "disp \<in> set ?ina" using assms(2) by (simp add: isMemberDisplay_def)
    then show ?thesis using length_removeAll_distinct [OF dist(2)] False by (simp add: removeAll_id)
  qed
  have keep: "distinct (map dispName (removeAll disp ?act @ removeAll disp ?ina))"
    using names by (auto simp: distinct_map distinct_removeAll intro: inj_on_subset)
  have active: "isActive disp \<longleftrightarrow> disp \<in> set ?act"
    using assms by (auto simp: display_ok_def isMemberDisplay_def)
  show ?thesis
    using assms(1) len keep active assms(2)
    by (cases "dispDrawManager dm")
       (auto simp: closeDisplay_def vrj_call_made_def display_ok_def getAllDisplays_def Let_def removeAll_id)
qed

lemma getDisplaySystemElement_effect:
  "getDisplaySystemElement cfg dm = Inr (elt, dm') \<Longrightarrow> dm' = dm\<lparr>mDisplaySystemElement := mDisplaySystemElement dm'\<rparr>"
  "getDisplaySystemElement cfg dm = Inl e \<Longrightarrow> e = deadlock"
  by (auto simp: getDisplaySystemElement_def rbind_Inr_iff rbind_Inl_iff lockActive_def lockPending_def
    split: if_splits option.splits)

lemma tell_display_Inr:
  assumes "tell_display asks cfg d disp dm = Inr dm'"
  obtains e where "dm' = vrj_call_made (AddDisplay d disp) (dm\<lparr>mDisplaySystemElement := e\<rparr>)"
proof (cases "asks d")
  case True
  then obtain elt dm1 where "getDisplaySystemElement cfg dm = Inr (elt, dm1)" "dm' = vrj_call_made (AddDisplay d disp) dm1"
    using assms by (auto simp: tell_display_def rbind_Inr_iff split: if_splits sum.splits)
  then show ?thesis using that getDisplaySystemElement_effect(1) by metis
next
  case False
  then have "dm' = vrj_call_made (AddDisplay d disp) (dm\<lparr>mDisplaySystemElement := mDisplaySystemElement dm\<rparr>)"
    using assms by (simp add: tell_display_def)
  then show ?thesis by (rule that)
qed

lemma tell_display_Inl:
  "tell_display asks cfg d disp dm = Inl e \<Longrightarrow> asks d \<and> e \<in> {deadlock, no_display_system}"
  by (auto simp: tell_display_def rbind_Inl_iff dest!: getDisplaySystemElement_effect(2) split: if_splits)

text \<open>\<^verbatim>\<open>addDisplay\<close> enters the display, tells its draw manager, and may have looked up the element.\<close>

definition entered :: "display \<Rightarrow> display_manager \<Rightarrow> display_manager" where
  "entered disp dm = (if isActive disp then dm\<lparr>mActiveDisplays := mActiveDisplays dm @ [disp]\<rparr>
                      else dm\<lparr>mInactiveDisplays := mInactiveDisplays dm @ [disp]\<rparr>)"

lemma addDisplay_Inr:
  assumes "addDisplay asks cfg disp True dm = Inr dm'"
  obtains e where "dm' = (case dispDrawManager dm of
      Some d \<Rightarrow> if isActive disp then vrj_call_made (AddDisplay d disp) ((entered disp dm)\<lparr>mDisplaySystemElement := e\<rparr>) else entered disp dm
    | None \<Rightarrow> entered disp dm)"
proof (cases "dispDrawManager dm")
  case None
  then show ?thesis using assms that by (simp add: addDisplay_def entered_def split: if_splits)
next
  case (Some d)
  show ?thesis
  proof (cases "isActive disp")
    case True
    then have "tell_display asks cfg d disp (entered disp dm) = Inr dm'"
      using assms Some by (simp add: addDisplay_def entered_def)
    then obtain e where "dm' = vrj_call_made (AddDisplay d disp) ((entered disp dm)\<lparr>mDisplaySystemElement := e\<rparr>)"
      by (rule tell_display_Inr)
    then show ?thesis using that Some True by simp
  next
    case False
    then show ?thesis using assms that Some by (simp add: addDisplay_def entered_def)
  qed
qed

lemma addDisplay_ok:
  assumes "display_ok dm" and "dispName disp \<notin> dispName ` set (getAllDisplays dm)"
    and "addDisplay asks cfg disp True dm = Inr dm'"
  shows "display_ok dm'"
proof -
  obtain e where "dm' = (case dispDrawManager dm of
      Some d \<Rightarrow> if isActive disp then vrj_call_made (AddDisplay d disp) ((entered disp dm)\<lparr>mDisplaySystemElement := e\<rparr>) else entered disp dm
    | None \<Rightarrow> entered disp dm)"
    using addDisplay_Inr [OF assms(3)] .
  then show ?thesis using assms(1,2)
    by (cases "dispDrawManager dm") (auto simp: display_ok_def getAllDisplays_def vrj_call_made_def entered_def)
qed

lemma addDisplay_fails:
  "addDisplay asks cfg disp True dm = Inl e \<Longrightarrow>
     \<exists>d. dispDrawManager dm = Some d \<and> asks d \<and> e \<in> {deadlock, no_display_system}"
  by (auto simp: addDisplay_def Let_def dest!: tell_display_Inl split: if_splits option.splits)

text \<open>Adding a display fails no assertion, and only a draw manager that asks can make it fail.\<close>

definition display_outcome :: "(nat \<Rightarrow> bool) \<Rightarrow> display_manager \<Rightarrow> (bool \<times> display_manager) result \<Rightarrow> bool" where
  "display_outcome asks dm r \<longleftrightarrow> (case r of
     Inl e \<Rightarrow> (\<exists>d. dispDrawManager dm = Some d \<and> asks d \<and> e \<in> {deadlock, no_display_system})
   | Inr (b, dm') \<Rightarrow> display_ok dm')"

lemma display_outcome_simps [simp]:
  "display_outcome asks dm (Inl e) \<longleftrightarrow> (\<exists>d. dispDrawManager dm = Some d \<and> asks d \<and> e \<in> {deadlock, no_display_system})"
  "display_outcome asks dm (Inr (b, dm')) = display_ok dm'"
  by (simp_all add: display_outcome_def)

lemma add_new_display:
  assumes "display_ok dm1" and "getName e \<notin> dispName ` set (getAllDisplays dm1)" and "dispDrawManager dm1 = dispDrawManager dm"
  shows "display_outcome asks dm (if getID e = ''display_window''
    then (let (newDisp, dm2) = display_create active e dm1 in
          rbind (addDisplay asks cfg newDisp True dm2) (\<lambda>dm3. Inr (True, dm3)))
    else Inr (True, dm1))"
proof -
  let ?disp = "\<lparr>dispId = nextDisplay dm1, dispName = getName e, isActive = active e\<rparr>" and ?dm = "dm1\<lparr>nextDisplay := nextDisplay dm1 + 1\<rparr>"
  have "display_ok ?dm" "dispName ?disp \<notin> dispName ` set (getAllDisplays ?dm)"
    using assms(1,2) by (simp_all add: getAllDisplays_def)
  note ok = addDisplay_ok [OF this, of asks cfg] and fails = addDisplay_fails [of asks cfg ?disp ?dm]
  show ?thesis
    using assms(1,3) ok fails
    by (cases "addDisplay asks cfg ?disp True ?dm") (auto simp: display_create_def)
qed

lemma configAddDisplay_ok:
  assumes "display_ok dm" and "displayCanHandle e"
  shows "display_outcome asks dm (configAddDisplay asks cfg active e dm)"
proof (cases "findDisplayNamed (getName e) dm")
  case None
  then have "getName e \<notin> dispName ` set (getAllDisplays dm)" by (simp add: find_unnamed)
  from add_new_display [OF assms(1) this refl, of asks active cfg] show ?thesis using assms(2) None
    by (simp add: configAddDisplay_def)
next
  case (Some disp)
  obtain dm1 where close: "closeDisplay disp True dm = Inr dm1" and ok: "display_ok dm1"
    and lists: "mActiveDisplays dm1 = removeAll disp (mActiveDisplays dm)"
      "mInactiveDisplays dm1 = removeAll disp (mInactiveDisplays dm)" "dispDrawManager dm1 = dispDrawManager dm"
    using closeDisplay_ok [OF assms(1)] find_named [OF Some] by blast
  have "inj_on dispName (set (getAllDisplays dm))" using assms(1) by (simp add: display_ok_def distinct_map)
  moreover have "disp \<in> set (getAllDisplays dm)"
    using find_named [OF Some] by (auto simp: isMemberDisplay_def getAllDisplays_def)
  ultimately have "getName e \<notin> dispName ` set (getAllDisplays dm1)"
    using find_named [OF Some] lists by (auto simp: getAllDisplays_def inj_on_def)
  from add_new_display [OF ok this lists(3), of asks active cfg] show ?thesis using assms(2) Some close
    by (simp add: configAddDisplay_def)
qed

lemma configRemoveDisplay_ok:
  assumes "display_ok dm" and "displayCanHandle e"
  shows "\<exists>b dm'. configRemoveDisplay e dm = Inr (b, dm') \<and> display_ok dm'"
  using assms find_named [of "getName e" dm] closeDisplay_ok [OF assms(1)]
  by (cases "findDisplayNamed (getName e) dm") (fastforce simp: configRemoveDisplay_def)+

lemma displayConfigAdd_ok:
  "display_ok dm \<Longrightarrow> displayCanHandle e \<Longrightarrow> display_outcome asks dm (displayConfigAdd asks cfg active e dm)"
  using configAddDisplay_ok [of dm e asks cfg active]
  by (cases "getID e = ''display_window''"; cases "getID e = ''display_system''") (auto simp: displayConfigAdd_def)

lemma displayConfigRemove_ok:
  "display_ok dm \<Longrightarrow> displayCanHandle e \<Longrightarrow> \<exists>b dm'. displayConfigRemove e dm = Inr (b, dm') \<and> display_ok dm'"
  using configRemoveDisplay_ok [of dm e]
  by (cases "getID e = ''display_window''"; cases "getID e = ''display_system''") (auto simp: displayConfigRemove_def)

lemma tell_displays:
  "rfold (tell_display asks cfg d') disps dm = Inr dm' \<Longrightarrow>
     windows d (vrjCalls dm')
       = (if d' = d then rbind (windows d (vrjCalls dm)) (\<lambda>w. Inr (w @ disps)) else windows d (vrjCalls dm))
     \<and> mActiveDisplays dm' = mActiveDisplays dm \<and> mInactiveDisplays dm' = mInactiveDisplays dm
     \<and> dispDrawManager dm' = dispDrawManager dm \<and> vrjCalls dm' = vrjCalls dm @ map (AddDisplay d') disps"
proof (induction disps arbitrary: dm)
  case Nil
  then show ?case by (cases "windows d (vrjCalls dm)") simp_all
next
  case (Cons disp disps)
  then obtain dm0 where "tell_display asks cfg d' disp dm = Inr dm0" "rfold (tell_display asks cfg d') disps dm0 = Inr dm'"
    by (auto simp: rbind_Inr_iff)
  then obtain dm1 e where dm1: "rfold (tell_display asks cfg d') disps dm1 = Inr dm'"
      "dm1 = vrj_call_made (AddDisplay d' disp) (dm\<lparr>mDisplaySystemElement := e\<rparr>)"
    using tell_display_Inr by metis
  have "windows d (vrjCalls dm1) = window_call d (windows d (vrjCalls dm)) (AddDisplay d' disp)"
    by (simp add: dm1(2) vrj_call_made_def)
  moreover have "mActiveDisplays dm1 = mActiveDisplays dm" "mInactiveDisplays dm1 = mInactiveDisplays dm"
      "dispDrawManager dm1 = dispDrawManager dm" "vrjCalls dm1 = vrjCalls dm @ [AddDisplay d' disp]"
    by (simp_all add: dm1(2) vrj_call_made_def)
  ultimately show ?case using Cons.IH [OF dm1(1)] by (cases "windows d (vrjCalls dm)") (auto simp del: windows_simps)
qed

text \<open>A draw manager is set only when there is none, which the kernel sees to.\<close>

lemma setDrawManager_effect:
  assumes "setDrawManager asks cfg (Some d) dm = Inr dm'"
  shows "dispDrawManager dm' = Some d \<and> mActiveDisplays dm' = mActiveDisplays dm
    \<and> mInactiveDisplays dm' = mInactiveDisplays dm \<and> vrjCalls dm' = vrjCalls dm @ map (AddDisplay d) (mActiveDisplays dm)"
  using assms tell_displays [of asks cfg d "mActiveDisplays dm" "dm\<lparr>dispDrawManager := Some d\<rparr>" dm']
  by (simp add: setDrawManager_def)

lemma setDrawManager_ok:
  assumes "display_ok dm" and "dispDrawManager dm = None" and "setDrawManager asks cfg (Some d) dm = Inr dm'"
  shows "display_ok dm'"
  using assms(1,2) setDrawManager_effect [OF assms(3)]
    tell_displays [of asks cfg d "mActiveDisplays dm" "dm\<lparr>dispDrawManager := Some d\<rparr>" dm'] assms(3)
  by (auto simp: setDrawManager_def display_ok_def getAllDisplays_def Let_def)

lemma setDrawManager_None [simp]: "setDrawManager asks cfg None dm = Inr (dm\<lparr>dispDrawManager := None\<rparr>)"
  by (simp add: setDrawManager_def)

lemma closeAPI_ok:
  "display_ok dm \<Longrightarrow> dispDrawManager dm = Some d \<or> dispDrawManager dm = None \<Longrightarrow>
   display_ok ((vrj_call_made (CloseAPI d) dm)\<lparr>dispDrawManager := None\<rparr>)"
  by (auto simp: display_ok_def getAllDisplays_def vrj_call_made_def)

text \<open>
  The deadlock the comment in \<^verbatim>\<open>getDisplaySystemElement\<close> warns of: a window is added during a
  reconfiguration, its draw manager asks for the display system, and none is active.
\<close>

lemma add_window_deadlocks:
  assumes "mPendingLock cfg" and "\<not> mActiveLock cfg" and "\<forall>e \<in> set (mActiveConfig cfg). getID e \<noteq> ''display_system''"
    and "dispDrawManager dm = Some d" and "asks d" and "mDisplaySystemElement dm = None"
    and "getID el = ''display_window''" and "active el" and "findDisplayNamed (getName el) dm = None"
  shows "displayConfigAdd asks cfg active el dm = Inl deadlock"
proof -
  have "find (\<lambda>e. getID e = ''display_system'') (mActiveConfig cfg) = None" using assms(3) by (simp add: find_None_iff)
  then show ?thesis
    using assms(1,2,4-9)
    by (simp add: displayConfigAdd_def displayCanHandle_def configAddDisplay_def display_create_def addDisplay_def
      tell_display_def getDisplaySystemElement_def lockActive_def lockPending_def)
qed

section \<open>What reconfiguration calls\<close>

text \<open>Adding and removing displays calls nothing but the draw manager that is set.\<close>

definition only_display_calls :: "display_manager \<Rightarrow> display_manager \<Rightarrow> bool" where
  "only_display_calls dm dm' \<longleftrightarrow> dispDrawManager dm' = dispDrawManager dm
     \<and> (\<exists>calls. vrjCalls dm' = vrjCalls dm @ calls
          \<and> (\<forall>c \<in> set calls. \<exists>d disp. dispDrawManager dm = Some d \<and> (c = AddDisplay d disp \<or> c = RemoveDisplay d disp)))"

lemma only_display_calls_refl [simp]: "only_display_calls dm dm"
  by (simp add: only_display_calls_def)

lemma only_display_calls_same [simp]:
  "only_display_calls dm (dm'\<lparr>nextDisplay := n\<rparr>) = only_display_calls dm dm'"
  "only_display_calls dm (dm'\<lparr>mDisplaySystemElement := e\<rparr>) = only_display_calls dm dm'"
  "only_display_calls dm (dm'\<lparr>mActiveDisplays := xs\<rparr>) = only_display_calls dm dm'"
  "only_display_calls dm (dm'\<lparr>mInactiveDisplays := xs\<rparr>) = only_display_calls dm dm'"
  by (simp_all add: only_display_calls_def)

lemma only_display_calls_made:
  "only_display_calls dm dm' \<Longrightarrow> dispDrawManager dm' = Some d \<Longrightarrow> c = AddDisplay d disp \<or> c = RemoveDisplay d disp \<Longrightarrow>
   only_display_calls dm (vrj_call_made c dm')"
  unfolding only_display_calls_def vrj_call_made_def by auto

lemma closeDisplay_calls:
  "closeDisplay disp n dm' = Inr dm'' \<Longrightarrow> only_display_calls dm dm' \<Longrightarrow> only_display_calls dm dm''"
  by (auto simp: closeDisplay_def rbind_Inr_iff Let_def split: option.splits if_splits
    intro: only_display_calls_made)

lemma tell_display_calls:
  "tell_display asks cfg d disp dm' = Inr dm'' \<Longrightarrow> dispDrawManager dm' = Some d \<Longrightarrow> only_display_calls dm dm' \<Longrightarrow>
   only_display_calls dm dm''"
  by (erule tell_display_Inr) (simp add: only_display_calls_made)

lemma addDisplay_calls:
  "addDisplay asks cfg disp n dm' = Inr dm'' \<Longrightarrow> only_display_calls dm dm' \<Longrightarrow> only_display_calls dm dm''"
  by (auto simp: addDisplay_def Let_def split: option.splits if_splits elim!: tell_display_calls)

lemma displayConfigAdd_calls: "displayConfigAdd asks cfg active e dm = Inr (b, dm') \<Longrightarrow> only_display_calls dm dm'"
  by (auto simp: displayConfigAdd_def configAddDisplay_def display_create_def rbind_Inr_iff
    split: if_splits option.splits elim!: addDisplay_calls closeDisplay_calls)

lemma displayConfigRemove_calls: "displayConfigRemove e dm = Inr (b, dm') \<Longrightarrow> only_display_calls dm dm'"
  by (auto simp: displayConfigRemove_def configRemoveDisplay_def rbind_Inr_iff
    split: if_splits option.splits elim!: closeDisplay_calls)

end
