(* ===== verification/VrjKernel.thy ===== *)
theory VrjKernel
  imports DisplayMgr "HOL-Library.Sublist"
begin

text \<open>
  The kernel (\<^verbatim>\<open>vrj/Kernel/Kernel.cpp\<close>): the control loop, the switch from one application
  to the next, and its users.  It drives JCCL's configuration manager, whose handlers are the
  kernel itself, the display manager, and objects that are arguments of the model: the input
  and cluster manager, applications, draw managers and sound managers, each a number.
\<close>

record 'e vrj_client =
  cDisplays :: display_manager
  mUsers :: "string list"
  cOther :: 'e

text \<open>
  What the applications and their managers answer.  \<open>drawManagerAccepts\<close> is false where
  \<^verbatim>\<open>setApp\<close> throws a \<^verbatim>\<open>DrawMgrException\<close>; \<open>asksDisplaySystem\<close> is true where the windows of a draw
  manager ask for the display system's element.
\<close>

record 'e vrj_env =
  others :: "'e handlers"
  displayActive :: "config_element \<Rightarrow> bool"
  appDepSatisfied :: "nat \<Rightarrow> 'e \<Rightarrow> bool"
  getDrawManager :: "nat \<Rightarrow> nat option"
  getSoundManager :: "nat \<Rightarrow> nat option"
  drawManagerAccepts :: "nat \<Rightarrow> nat \<Rightarrow> bool"
  asksDisplaySystem :: "nat \<Rightarrow> bool"

definition kernel_id :: nat where "kernel_id = 0"
definition input_manager_id :: nat where "input_manager_id = 1"
definition cluster_manager_id :: nat where "cluster_manager_id = 2"
definition display_manager_id :: nat where "display_manager_id = 3"

section \<open>The kernel as a handler\<close>

definition kernelCanHandle :: "config_element \<Rightarrow> bool" where
  "kernelCanHandle element \<longleftrightarrow> getID element = ''user''"

definition getUser :: "string \<Rightarrow> string list \<Rightarrow> string option" where
  "getUser userName users = find (\<lambda>u. userName = u) users"

definition addUser :: "config_element \<Rightarrow> string list \<Rightarrow> bool \<times> string list" where
  "addUser element users = (True, users @ [getName element])"

definition removeUser :: "config_element \<Rightarrow> string list \<Rightarrow> bool \<times> string list" where
  "removeUser element users =
     (case getUser (getName element) users of
        Some user \<Rightarrow> (True, remove1 user users)
      | None \<Rightarrow> (False, users))"

text \<open>The handlers, by their number.  The kernel and the display manager ask for no elements.\<close>

definition display_handler :: "(display_manager \<Rightarrow> (bool \<times> display_manager) result) \<Rightarrow> 'e vrj_client
    \<Rightarrow> (bool \<times> pending_element list \<times> 'e vrj_client) result" where
  "display_handler f c = rbind (f (cDisplays c)) (\<lambda>(b, dm). Inr (b, [], c\<lparr>cDisplays := dm\<rparr>))"

definition vrj_handlers :: "'e vrj_env \<Rightarrow> 'e vrj_client handlers" where
  "vrj_handlers E =
     \<lparr>configCanHandle = (\<lambda>h e. if h = kernel_id then kernelCanHandle e
         else if h = display_manager_id then displayCanHandle e else configCanHandle (others E) h e),
      configAdd = (\<lambda>h e cfg c.
         if h = kernel_id then (let (b, us) = addUser e (mUsers c) in Inr (b, [], c\<lparr>mUsers := us\<rparr>))
         else if h = display_manager_id
         then display_handler (displayConfigAdd (asksDisplaySystem E) cfg (displayActive E) e) c
         else rbind (configAdd (others E) h e cfg (cOther c)) (\<lambda>(b, asked, x). Inr (b, asked, c\<lparr>cOther := x\<rparr>))),
      configRemove = (\<lambda>h e cfg c.
         if h = kernel_id then (let (b, us) = removeUser e (mUsers c) in Inr (b, [], c\<lparr>mUsers := us\<rparr>))
         else if h = display_manager_id
         then display_handler (displayConfigRemove e) c
         else rbind (configRemove (others E) h e cfg (cOther c)) (\<lambda>(b, asked, x). Inr (b, asked, c\<lparr>cOther := x\<rparr>))),
      mConfigurationSignal = (\<lambda>cfg t c.
         rbind (mConfigurationSignal (others E) cfg t (cOther c)) (\<lambda>x. Inr (c\<lparr>cOther := x\<rparr>)))\<rparr>"

section \<open>The kernel\<close>

text \<open>Where the control thread is in \<^verbatim>\<open>controlLoop\<close>.\<close>

datatype kernel_pc = AtHead | AtReconfig bool | AtUpdate bool | Exited

record 'e vrj_kernel =
  mApp :: "nat option"
  mNewApp :: "nat option"
  mNewAppSet :: bool
  mIsRunning :: bool
  mExitFlag :: bool
  mDrawManager :: "nat option"
  mSoundManager :: "nat option"
  firstCluster :: bool
  kernelPc :: kernel_pc
  kConfig :: "'e vrj_client config_manager"

definition on_client :: "('e vrj_client \<Rightarrow> 'e vrj_client) \<Rightarrow> 'e vrj_kernel \<Rightarrow> 'e vrj_kernel" where
  "on_client f k = k\<lparr>kConfig := (kConfig k)\<lparr>cmClient := f (cmClient (kConfig k))\<rparr>\<rparr>"

definition on_displays :: "(display_manager \<Rightarrow> display_manager) \<Rightarrow> 'e vrj_kernel \<Rightarrow> 'e vrj_kernel" where
  "on_displays f = on_client (\<lambda>c. c\<lparr>cDisplays := f (cDisplays c)\<rparr>)"

definition try_displays :: "(display_manager \<Rightarrow> display_manager result) \<Rightarrow> 'e vrj_kernel \<Rightarrow> 'e vrj_kernel result" where
  "try_displays f k = rbind (f (cDisplays (cmClient (kConfig k)))) (\<lambda>dm. Inr (on_displays (\<lambda>_. dm) k))"

abbreviation calls_made :: "vrj_call \<Rightarrow> 'e vrj_kernel \<Rightarrow> 'e vrj_kernel" where
  "calls_made c \<equiv> on_displays (vrj_call_made c)"

text \<open>The constructor, and \<^verbatim>\<open>start\<close> up to the control loop with \<^verbatim>\<open>initConfig\<close>.\<close>

definition kernel_new :: "'e \<Rightarrow> dep_checker list \<Rightarrow> 'e vrj_kernel" where
  "kernel_new x checkers =
     \<lparr>mApp = None, mNewApp = None, mNewAppSet = False, mIsRunning = False, mExitFlag = False,
      mDrawManager = None, mSoundManager = None, firstCluster = True, kernelPc = Exited,
      kConfig = (config_manager_new \<lparr>cDisplays = display_manager_new, mUsers = [], cOther = x\<rparr>)
                  \<lparr>mDepCheckers := checkers\<rparr>\<rparr>"

definition initConfig :: "'e vrj_kernel \<Rightarrow> 'e vrj_kernel" where
  "initConfig k = k\<lparr>kConfig :=
     addConfigElementHandler display_manager_id (addConfigElementHandler cluster_manager_id
       (addConfigElementHandler input_manager_id (addConfigElementHandler kernel_id (kConfig k))))\<rparr>"

definition kernel_start :: "'e vrj_kernel \<Rightarrow> nat \<times> 'e vrj_kernel" where
  "kernel_start k =
     (let k = k\<lparr>mIsRunning := True\<rparr> in
      if mExitFlag k then (0, k\<lparr>mIsRunning := False\<rparr>)
      else (1, initConfig (k\<lparr>firstCluster := True, kernelPc := AtHead\<rparr>)))"

definition setApplication :: "nat option \<Rightarrow> 'e vrj_kernel \<Rightarrow> 'e vrj_kernel" where
  "setApplication newApp k = k\<lparr>mNewApp := newApp, mNewAppSet := True\<rparr>"

definition kernel_stop :: "'e vrj_kernel \<Rightarrow> 'e vrj_kernel" where
  "kernel_stop k = setApplication None (k\<lparr>mExitFlag := True\<rparr>)"

definition waiters_proceed :: "'e vrj_kernel \<Rightarrow> bool" where
  "waiters_proceed k \<longleftrightarrow> \<not> mIsRunning k \<and> mExitFlag k"

section \<open>Switching applications\<close>

text \<open>Setting the display manager's draw manager to null tells nobody of a display (\<open>setDrawManager_None\<close>).\<close>

definition stopDrawManager :: "'e vrj_kernel \<Rightarrow> 'e vrj_kernel" where
  "stopDrawManager k =
     (case mDrawManager k of
        None \<Rightarrow> k
      | Some d \<Rightarrow> on_displays (\<lambda>dm. dm\<lparr>dispDrawManager := None\<rparr>) ((calls_made (CloseAPI d) k)\<lparr>mDrawManager := None\<rparr>))"

definition stopSoundManager :: "'e vrj_kernel \<Rightarrow> 'e vrj_kernel" where
  "stopSoundManager k =
     (case mSoundManager k of
        None \<Rightarrow> k
      | Some s \<Rightarrow> (calls_made (SoundCloseAPI s) k)\<lparr>mSoundManager := None\<rparr>)"

text \<open>No handler is null, so asking for null to be removed does nothing.\<close>

definition remove_handler :: "nat option \<Rightarrow> 'e vrj_kernel \<Rightarrow> 'e vrj_kernel" where
  "remove_handler h k = (case h of None \<Rightarrow> k | Some h \<Rightarrow> k\<lparr>kConfig := removeConfigElementHandler h (kConfig k)\<rparr>)"

definition add_handler :: "nat \<Rightarrow> 'e vrj_kernel \<Rightarrow> 'e vrj_kernel" where
  "add_handler h k = k\<lparr>kConfig := addConfigElementHandler h (kConfig k)\<rparr>"

text \<open>A draw manager that refuses the application leaves it where it is, with a warning.\<close>

definition startDrawManager :: "'e vrj_env \<Rightarrow> bool \<Rightarrow> 'e vrj_kernel \<Rightarrow> 'e vrj_kernel result" where
  "startDrawManager E newMgr k =
     (case (mApp k, mDrawManager k) of
        (Some a, Some d) \<Rightarrow>
          rbind (if newMgr
                 then rbind (lockPending (kConfig k)) (\<lambda>cfg.
                      rbind (configProcessPending (vrj_handlers E) d cfg) (\<lambda>(n, cfg).
                      Inr (k\<lparr>kConfig := unlockPending cfg\<rparr>)))
                 else Inr k) (\<lambda>k.
          let k = calls_made (SetApp d a) k in
          if drawManagerAccepts E d a
          then let k = calls_made (AppInit a) k;
                   k = (if newMgr then calls_made (InitAPI d) k else k);
                   k = calls_made (AppApiInit a) k in
               if newMgr then try_displays (setDrawManager (asksDisplaySystem E) (kConfig k) (Some d)) k else Inr k
          else Inr k)
      | _ \<Rightarrow> Inl (AssertionFailed ''(mApp != NULL) && (mDrawManager != NULL)''))"

text \<open>The managers the next application does not use are stopped, and the old one is told to exit.\<close>

definition leaveApplication :: "'e vrj_env \<Rightarrow> nat option \<Rightarrow> 'e vrj_kernel \<Rightarrow> 'e vrj_kernel" where
  "leaveApplication E newApp k =
     (let other_draw = (case newApp of None \<Rightarrow> True
            | Some a \<Rightarrow> mDrawManager k \<noteq> None \<and> getDrawManager E a \<noteq> mDrawManager k);
          k = (if other_draw then let k = stopDrawManager k in remove_handler (mDrawManager k) k else k);
          other_sound = (case newApp of None \<Rightarrow> True
            | Some a \<Rightarrow> mSoundManager k \<noteq> None \<and> getSoundManager E a \<noteq> mSoundManager k);
          k = (if other_sound then let k = stopSoundManager k in remove_handler (mSoundManager k) k else k) in
      case mApp k of None \<Rightarrow> k | Some old \<Rightarrow> calls_made (AppExit old) (remove_handler (mApp k) k))"

definition enterApplication :: "'e vrj_env \<Rightarrow> nat \<Rightarrow> 'e vrj_kernel \<Rightarrow> 'e vrj_kernel result" where
  "enterApplication E a k =
     rbind (if getDrawManager E a \<noteq> mDrawManager k
            then (case getDrawManager E a of
                    None \<Rightarrow> Inl (AssertionFailed ''NULL != mDrawManager'')
                  | Some d \<Rightarrow> startDrawManager E True (add_handler d (k\<lparr>mDrawManager := Some d\<rparr>)))
            else startDrawManager E False k) (\<lambda>k.
     let k = (case getSoundManager E a of
                Some s \<Rightarrow> if Some s \<noteq> mSoundManager k then add_handler s (k\<lparr>mSoundManager := Some s\<rparr>) else k
              | None \<Rightarrow> k\<lparr>mSoundManager := None\<rparr>);
         k = add_handler a k in
     rbind (refreshPendingList (kConfig k)) (\<lambda>cfg. Inr (k\<lparr>kConfig := cfg\<rparr>)))"

definition changeApplication :: "'e vrj_env \<Rightarrow> nat option \<Rightarrow> 'e vrj_kernel \<Rightarrow> 'e vrj_kernel result" where
  "changeApplication E newApp k =
     (if newApp = mApp k then Inr k
      else
        let k = (leaveApplication E newApp k)\<lparr>mApp := newApp\<rparr> in
        case newApp of None \<Rightarrow> Inr k | Some a \<Rightarrow> enterApplication E a k)"

section \<open>The control loop\<close>

text \<open>The first part of an iteration: the frame, when there is an application and the cluster allows it.\<close>

definition frame_due :: "bool \<Rightarrow> bool \<Rightarrow> 'e vrj_kernel \<Rightarrow> bool" where
  "frame_due cluster_active cluster_ready k \<longleftrightarrow>
     mApp k \<noteq> None \<and> mDrawManager k \<noteq> None \<and> (\<not> cluster_active \<or> cluster_ready)"

definition call_on_sound :: "(nat \<Rightarrow> vrj_call) \<Rightarrow> 'e vrj_kernel \<Rightarrow> 'e vrj_kernel result" where
  "call_on_sound c k =
     (case mSoundManager k of
        None \<Rightarrow> Inl (Undefined ''mSoundManager is null'')
      | Some s \<Rightarrow> Inr (calls_made (c s) k))"

definition draw_frame :: "'e vrj_kernel \<Rightarrow> 'e vrj_kernel result" where
  "draw_frame k =
     (let a = the (mApp k); d = the (mDrawManager k) in
      rbind (call_on_sound SoundUpdate (calls_made (Draw d) (calls_made (LatePreFrame a) k))) (\<lambda>k.
      rbind (call_on_sound SoundSync (calls_made (IntraFrame a) k)) (\<lambda>k.
      Inr (calls_made (PostFrame a) (calls_made (Sync d) k)))))"

definition loop_frame :: "bool \<Rightarrow> bool \<Rightarrow> 'e vrj_kernel \<Rightarrow> 'e vrj_kernel result" where
  "loop_frame cluster_active cluster_ready k =
     (let call_cluster = cluster_active \<and> cluster_ready;
          due = frame_due cluster_active cluster_ready k;
          k = (if call_cluster \<and> firstCluster k then calls_made ClusterBarrier (k\<lparr>firstCluster := False\<rparr>) else k);
          k = (if due then calls_made (PreFrame (the (mApp k))) k else k);
          k = (if call_cluster then calls_made ClusterPreDraw k else k) in
      rbind (if due then draw_frame k else Inr k) (\<lambda>k. Inr (k\<lparr>kernelPc := AtReconfig call_cluster\<rparr>)))"

definition kernelCheckForReconfig :: "'e vrj_env \<Rightarrow> 'e vrj_kernel \<Rightarrow> 'e vrj_kernel result option" where
  "kernelCheckForReconfig E k =
     (case checkForReconfig (vrj_handlers E) (kConfig k) of
        None \<Rightarrow> None
      | Some (Inl e) \<Rightarrow> Some (Inl e)
      | Some (Inr cfg) \<Rightarrow>
          let k = k\<lparr>kConfig := cfg\<rparr> in
          Some (if mNewAppSet k
                then if (case mNewApp k of None \<Rightarrow> True | Some a \<Rightarrow> appDepSatisfied E a (cOther (cmClient cfg)))
                     then changeApplication E (mNewApp k) (k\<lparr>mNewAppSet := False\<rparr>)
                     else Inr k
                else Inr k))"

text \<open>The rest; \<open>pressed\<close> is whether the button that stops the kernel has just gone on.\<close>

definition checkSignalButtons :: "bool \<Rightarrow> 'e vrj_kernel \<Rightarrow> 'e vrj_kernel" where
  "checkSignalButtons pressed k = (if pressed then kernel_stop k else k)"

definition loop_update :: "bool \<Rightarrow> bool \<Rightarrow> 'e vrj_kernel \<Rightarrow> 'e vrj_kernel" where
  "loop_update call_cluster pressed k =
     (let k = checkSignalButtons pressed k;
          k = calls_made InputUpdateDevices (calls_made InputReset k);
          k = (if call_cluster then calls_made ClusterPostPostFrame k else k) in
      (calls_made InputUpdateProxies k)\<lparr>kernelPc := AtHead\<rparr>)"

definition loop_done :: "'e vrj_kernel \<Rightarrow> bool" where
  "loop_done k \<longleftrightarrow> mExitFlag k \<and> mApp k = None"

definition loop_exit :: "'e vrj_kernel \<Rightarrow> 'e vrj_kernel" where
  "loop_exit k = (calls_made InputShutdown k)\<lparr>mIsRunning := False, kernelPc := Exited\<rparr>"

text \<open>
  One step of the control thread: the head of the loop with the frame, the reconfiguration,
  or the update of the devices.
\<close>

definition control_step :: "'e vrj_env \<Rightarrow> bool \<Rightarrow> bool \<Rightarrow> bool \<Rightarrow> 'e vrj_kernel \<Rightarrow> 'e vrj_kernel result option" where
  "control_step E cluster_active cluster_ready pressed k =
     (case kernelPc k of
        AtHead \<Rightarrow> Some (if loop_done k then Inr (loop_exit k) else loop_frame cluster_active cluster_ready k)
      | AtReconfig c \<Rightarrow> map_option (\<lambda>r. rbind r (\<lambda>k. Inr (k\<lparr>kernelPc := AtUpdate c\<rparr>))) (kernelCheckForReconfig E k)
      | AtUpdate c \<Rightarrow> Some (Inr (loop_update c pressed k))
      | Exited \<Rightarrow> Some (Inr k))"

text \<open>Other threads set an application, stop the kernel and request configuration at any time.\<close>

inductive kernel_step :: "'e vrj_env \<Rightarrow> 'e vrj_kernel \<Rightarrow> 'e vrj_kernel \<Rightarrow> bool" for E where
  step_control: "control_step E active ready pressed k = Some (Inr k') \<Longrightarrow> kernel_step E k k'"
| step_set: "kernel_step E k (setApplication newApp k)"
| step_stop: "kernel_step E k (kernel_stop k)"
| step_additions: "addConfigurationAdditions (vrj_handlers E) els (kConfig k) = Inr cfg \<Longrightarrow>
    kernel_step E k (k\<lparr>kConfig := cfg\<rparr>)"
| step_removals: "addConfigurationRemovals (vrj_handlers E) els (kConfig k) = Inr cfg \<Longrightarrow>
    kernel_step E k (k\<lparr>kConfig := cfg\<rparr>)"
| step_element: "kernel_step E k (k\<lparr>kConfig := addConfigElement e t (kConfig k)\<rparr>)"

definition kernel_started :: "'e vrj_kernel \<Rightarrow> bool" where
  "kernel_started k \<longleftrightarrow> (\<exists>x checkers newApp isSet.
     k = snd (kernel_start ((kernel_new x checkers)\<lparr>mNewApp := newApp, mNewAppSet := isSet\<rparr>)))"

section \<open>The life of an application\<close>

text \<open>
  The contract of \<^verbatim>\<open>vrj/Kernel/App.h\<close> and \<^verbatim>\<open>vrj/Draw/DrawManager.h\<close> as an automaton over
  the calls: an application is given to its draw manager and initialised, the graphics
  interface is initialised before \<^verbatim>\<open>apiInit\<close>, then come whole frames in their order, and
  \<^verbatim>\<open>exit\<close> ends it, after the draw manager was closed or while it goes on to the next.
\<close>

datatype life =
    NoApp | Offered nat nat | Begun nat nat | Ready nat nat | InPre nat nat | InLate nat nat
  | Drawing nat nat | Drawn nat nat | Synced nat nat | Closing nat

fun life_step :: "life \<Rightarrow> vrj_call \<Rightarrow> life option" where
  "life_step l (SetApp d a) = (if l = NoApp then Some (Offered d a) else None)"
| "life_step l (AppInit a) = (case l of Offered d a' \<Rightarrow> if a' = a then Some (Begun d a) else None | _ \<Rightarrow> None)"
| "life_step l (InitAPI d) = (case l of Begun d' a \<Rightarrow> if d' = d then Some l else None | _ \<Rightarrow> None)"
| "life_step l (AppApiInit a) = (case l of Begun d a' \<Rightarrow> if a' = a then Some (Ready d a) else None | _ \<Rightarrow> None)"
| "life_step l (PreFrame a) = (case l of Ready d a' \<Rightarrow> if a' = a then Some (InPre d a) else None | _ \<Rightarrow> None)"
| "life_step l (LatePreFrame a) = (case l of InPre d a' \<Rightarrow> if a' = a then Some (InLate d a) else None | _ \<Rightarrow> None)"
| "life_step l (Draw d) = (case l of InLate d' a \<Rightarrow> if d' = d then Some (Drawing d a) else None | _ \<Rightarrow> None)"
| "life_step l (IntraFrame a) = (case l of Drawing d a' \<Rightarrow> if a' = a then Some (Drawn d a) else None | _ \<Rightarrow> None)"
| "life_step l (Sync d) = (case l of Drawn d' a \<Rightarrow> if d' = d then Some (Synced d a) else None | _ \<Rightarrow> None)"
| "life_step l (PostFrame a) = (case l of Synced d a' \<Rightarrow> if a' = a then Some (Ready d a) else None | _ \<Rightarrow> None)"
| "life_step l (CloseAPI d) = (case l of Ready d' a \<Rightarrow> if d' = d then Some (Closing a) else None | _ \<Rightarrow> None)"
| "life_step l (AppExit a) =
     (case l of Ready d a' \<Rightarrow> if a' = a then Some NoApp else None
              | Closing a' \<Rightarrow> if a' = a then Some NoApp else None | _ \<Rightarrow> None)"
| "life_step l (AddDisplay d disp) = (case l of Ready d' a \<Rightarrow> if d' = d then Some l else None | _ \<Rightarrow> None)"
| "life_step l (RemoveDisplay d disp) = (case l of Ready d' a \<Rightarrow> if d' = d then Some l else None | _ \<Rightarrow> None)"
| "life_step l _ = Some l"

definition life :: "vrj_call list \<Rightarrow> life option" where
  "life calls = foldl (\<lambda>l c. Option.bind l (\<lambda>l. life_step l c)) (Some NoApp) calls"

lemma life_simps [simp]:
  "life [] = Some NoApp"
  "life (calls @ [c]) = Option.bind (life calls) (\<lambda>l. life_step l c)"
  by (simp_all add: life_def)

definition alive :: "nat option \<Rightarrow> nat option \<Rightarrow> life" where
  "alive app draw = (case (app, draw) of (Some a, Some d) \<Rightarrow> Ready d a | _ \<Rightarrow> NoApp)"

lemma life_display_calls:
  "life calls = Some (alive app draw) \<Longrightarrow> (\<forall>c \<in> set cs. \<exists>d disp. app \<noteq> None \<and> draw = Some d \<and> (c = AddDisplay d disp \<or> c = RemoveDisplay d disp))
   \<Longrightarrow> life (calls @ cs) = Some (alive app draw)"
proof (induction cs rule: rev_induct)
  case (snoc c cs)
  have IH: "life (calls @ cs) = Some (alive app draw)"
    by (rule snoc.IH [OF snoc.prems(1)]) (use snoc.prems(2) in simp)
  obtain a d disp where "app = Some a" "draw = Some d" "c = AddDisplay d disp \<or> c = RemoveDisplay d disp"
    using snoc.prems(2) by (metis in_set_conv_decomp option.exhaust)
  then have "life_step (alive app draw) c = Some (alive app draw)" by (auto simp: alive_def)
  then have "life ((calls @ cs) @ [c]) = Some (alive app draw)" by (simp only: life_simps IH bind.bind_lunit)
  then show ?case by (simp only: append_assoc)
qed simp

section \<open>What reconfiguration keeps of the kernel's clients\<close>

definition client_ok :: "nat option \<Rightarrow> nat option \<Rightarrow> 'e vrj_client \<Rightarrow> bool" where
  "client_ok app draw c \<longleftrightarrow> display_ok (cDisplays c) \<and> dispDrawManager (cDisplays c) = draw \<and> (draw \<noteq> None \<longrightarrow> app \<noteq> None)
     \<and> life (vrjCalls (cDisplays c)) = Some (alive app draw)"

text \<open>The displays are as they should be, and the display manager tells \<open>draw\<close> of them.\<close>

definition shown :: "nat option \<Rightarrow> 'e vrj_client \<Rightarrow> bool" where
  "shown draw c \<longleftrightarrow> display_ok (cDisplays c) \<and> dispDrawManager (cDisplays c) = draw"

definition called :: "vrj_call list \<Rightarrow> 'e vrj_client \<Rightarrow> bool" where
  "called calls c \<longleftrightarrow> prefix calls (vrjCalls (cDisplays c))"

lemma only_display_calls_life:
  assumes "only_display_calls dm dm'" and "dispDrawManager dm = draw" and "draw \<noteq> None \<longrightarrow> app \<noteq> None"
    and "life (vrjCalls dm) = Some (alive app draw)"
  shows "dispDrawManager dm' = draw \<and> life (vrjCalls dm') = Some (alive app draw)"
  using assms unfolding only_display_calls_def by (auto intro!: life_display_calls)

text \<open>What the display manager's two functions keep, all handlers keep.\<close>

lemma vrj_handlers_keep:
  assumes add: "\<And>c asks (cfg :: config_lists) active e b dm. P c \<Longrightarrow> displayConfigAdd asks cfg active e (cDisplays c) = Inr (b, dm) \<Longrightarrow> P (c\<lparr>cDisplays := dm\<rparr>)"
    and rem: "\<And>c e b dm. P c \<Longrightarrow> displayConfigRemove e (cDisplays c) = Inr (b, dm) \<Longrightarrow> P (c\<lparr>cDisplays := dm\<rparr>)"
    and same: "\<And>c us. P c \<Longrightarrow> P (c\<lparr>mUsers := us\<rparr>)" "\<And>c x. P c \<Longrightarrow> P (c\<lparr>cOther := x\<rparr>)"
  shows "handlers_keep (vrj_handlers E) P"
proof
  fix c h e cfg b asked c'
  assume c: "P c"
  show "P c'" if "configAdd (vrj_handlers E) h e cfg c = Inr (b, asked, c')"
    using that add [OF c] same [OF c]
    by (auto simp: vrj_handlers_def display_handler_def rbind_Inr_iff split: if_splits prod.splits)
  show "P c'" if "configRemove (vrj_handlers E) h e cfg c = Inr (b, asked, c')"
    using that rem [OF c] same [OF c]
    by (auto simp: vrj_handlers_def display_handler_def rbind_Inr_iff split: if_splits prod.splits)
qed

lemma displayConfig_handled:
  "displayConfigAdd asks cfg active e dm = Inr r \<Longrightarrow> displayCanHandle e"
  "displayConfigRemove e dm = Inr r \<Longrightarrow> displayCanHandle e"
  by (auto simp: displayConfigAdd_def displayConfigRemove_def rbind_Inr_iff require_def split: if_splits)

lemma displayConfig_display_ok:
  "display_ok dm \<Longrightarrow> displayConfigAdd asks cfg active e dm = Inr (b, dm') \<Longrightarrow> display_ok dm'"
  "display_ok dm \<Longrightarrow> displayConfigRemove e dm = Inr (b, dm') \<Longrightarrow> display_ok dm'"
  using displayConfigAdd_ok [of dm e asks cfg active] displayConfigRemove_ok [of dm e]
    displayConfig_handled(1) [of asks cfg active e dm] displayConfig_handled(2) [of e dm]
  by auto

lemmas displayConfig_keeps = displayConfig_display_ok displayConfigAdd_calls displayConfigRemove_calls

interpretation vrj: handlers_keep "vrj_handlers E" "client_ok app draw" for E app draw
proof (rule vrj_handlers_keep)
  show "client_ok app draw (c\<lparr>cDisplays := dm\<rparr>)"
    if "client_ok app draw c" "displayConfigAdd asks cfg active e (cDisplays c) = Inr (b, dm)" for c asks active e b dm and cfg :: config_lists
    using that displayConfig_keeps(1) [OF _ that(2)] only_display_calls_life [OF displayConfig_keeps(3) [OF that(2)], of draw app]
    by (auto simp: client_ok_def)
  show "client_ok app draw (c\<lparr>cDisplays := dm\<rparr>)"
    if "client_ok app draw c" "displayConfigRemove e (cDisplays c) = Inr (b, dm)" for c e b dm
    using that displayConfig_keeps(2) [OF _ that(2)] only_display_calls_life [OF displayConfig_keeps(4) [OF that(2)], of draw app]
    by (auto simp: client_ok_def)
qed (simp_all add: client_ok_def)

interpretation vrj_shown: handlers_keep "vrj_handlers E" "shown draw" for E draw
proof (rule vrj_handlers_keep)
  show "shown draw (c\<lparr>cDisplays := dm\<rparr>)"
    if "shown draw c" "displayConfigAdd asks cfg active e (cDisplays c) = Inr (b, dm)" for c asks active e b dm and cfg :: config_lists
    using that displayConfig_keeps(1) [OF _ that(2)] displayConfig_keeps(3) [OF that(2)]
    by (auto simp: shown_def only_display_calls_def)
  show "shown draw (c\<lparr>cDisplays := dm\<rparr>)"
    if "shown draw c" "displayConfigRemove e (cDisplays c) = Inr (b, dm)" for c e b dm
    using that displayConfig_keeps(2) [OF _ that(2)] displayConfig_keeps(4) [OF that(2)]
    by (auto simp: shown_def only_display_calls_def)
qed (simp_all add: shown_def)

interpretation vrj_called: handlers_keep "vrj_handlers E" "called calls" for E calls
proof (rule vrj_handlers_keep)
  show "called calls (c\<lparr>cDisplays := dm\<rparr>)"
    if "called calls c" "displayConfigAdd asks cfg active e (cDisplays c) = Inr (b, dm)" for c asks active e b dm and cfg :: config_lists
    using that displayConfig_keeps(3) [OF that(2)] by (auto simp: called_def only_display_calls_def intro: prefix_prefix)
  show "called calls (c\<lparr>cDisplays := dm\<rparr>)"
    if "called calls c" "displayConfigRemove e (cDisplays c) = Inr (b, dm)" for c e b dm
    using that displayConfig_keeps(4) [OF that(2)] by (auto simp: called_def only_display_calls_def intro: prefix_prefix)
qed (simp_all add: called_def)

section \<open>The invariant of the kernel\<close>

abbreviation kernel_client :: "'e vrj_kernel \<Rightarrow> 'e vrj_client" where
  "kernel_client k \<equiv> cmClient (kConfig k)"

abbreviation kcalls :: "'e vrj_kernel \<Rightarrow> vrj_call list" where
  "kcalls k \<equiv> vrjCalls (cDisplays (kernel_client k))"

text \<open>No draw manager has rejected an application it was offered so far.\<close>

definition accepted :: "'e vrj_env \<Rightarrow> vrj_call list \<Rightarrow> bool" where
  "accepted E calls \<longleftrightarrow> (\<forall>d a. SetApp d a \<in> set calls \<longrightarrow> drawManagerAccepts E d a)"

lemma accepted_prefix: "prefix xs ys \<Longrightarrow> accepted E ys \<Longrightarrow> accepted E xs"
  by (auto simp: accepted_def prefix_def)

definition kernel_inv :: "'e vrj_env \<Rightarrow> 'e vrj_kernel \<Rightarrow> bool" where
  "kernel_inv E k \<longleftrightarrow> cm_inv (kConfig k) \<and> client_ok (mApp k) (mDrawManager k) (kernel_client k)
     \<and> (mApp k = None \<longleftrightarrow> mDrawManager k = None)
     \<and> (\<forall>a. mApp k = Some a \<longrightarrow> getDrawManager E a = mDrawManager k \<and> getSoundManager E a = mSoundManager k)"

text \<open>Between two applications.\<close>

definition between_apps :: "'e vrj_kernel \<Rightarrow> bool" where
  "between_apps k \<longleftrightarrow> cm_inv (kConfig k) \<and> display_ok (cDisplays (kernel_client k))
     \<and> dispDrawManager (cDisplays (kernel_client k)) = mDrawManager k
     \<and> life (vrjCalls (cDisplays (kernel_client k))) = Some NoApp"

lemma cm_inv_same [simp]:
  "cm_inv (st\<lparr>cmClient := c\<rparr>) = cm_inv st"
  "cm_inv (st\<lparr>mElementHandlers := hs\<rparr>) = cm_inv st"
  "cm_inv (st\<lparr>mPendingCheckCount := n\<rparr>) = cm_inv st"
  "cm_inv (addConfigElementHandler h st) = cm_inv st"
  "cm_inv (removeConfigElementHandler h st) = cm_inv st"
  by (simp_all add: cm_inv_def quiet_def all_tracked_def addConfigElementHandler_def removeConfigElementHandler_def)

lemma life_append: "life (xs @ ys) = foldl (\<lambda>l c. Option.bind l (\<lambda>l. life_step l c)) (life xs) ys"
  by (simp add: life_def)

lemma windows_append: "windows d (xs @ ys) = foldl (window_call d) (windows d xs) ys"
  by (simp add: windows_def)

lemma handlers_client [simp]:
  "cmClient (addConfigElementHandler h st) = cmClient st"
  "cmClient (removeConfigElementHandler h st) = cmClient st"
  by (simp_all add: addConfigElementHandler_def removeConfigElementHandler_def)

lemmas kernel_calls = on_displays_def on_client_def vrj_call_made_def

lemma remove_handler_keeps [simp]:
  "mApp (remove_handler h k) = mApp k" "mDrawManager (remove_handler h k) = mDrawManager k"
  "mSoundManager (remove_handler h k) = mSoundManager k" "kernel_client (remove_handler h k) = kernel_client k"
  "cm_inv (kConfig (remove_handler h k)) = cm_inv (kConfig k)"
  by (cases h; simp add: remove_handler_def)+

lemma add_handler_keeps [simp]:
  "mApp (add_handler h k) = mApp k" "mDrawManager (add_handler h k) = mDrawManager k"
  "mSoundManager (add_handler h k) = mSoundManager k" "kernel_client (add_handler h k) = kernel_client k"
  "cm_inv (kConfig (add_handler h k)) = cm_inv (kConfig k)"
  by (simp_all add: add_handler_def)

lemma between_apps_app [simp]: "between_apps (k\<lparr>mApp := a\<rparr>) = between_apps k"
  by (simp add: between_apps_def)

lemma on_displays_fields [simp]:
  "mApp (on_displays f k) = mApp k" "mDrawManager (on_displays f k) = mDrawManager k"
  "mSoundManager (on_displays f k) = mSoundManager k"
  "cDisplays (kernel_client (on_displays f k)) = f (cDisplays (kernel_client k))"
  "cm_inv (kConfig (on_displays f k)) = cm_inv (kConfig k)"
  by (simp_all add: on_displays_def on_client_def)

lemma call_made_fields [simp]:
  "dispDrawManager (vrj_call_made c dm) = dispDrawManager dm"
  "vrjCalls (vrj_call_made c dm) = vrjCalls dm @ [c]"
  by (simp_all add: vrj_call_made_def)

lemma display_ok_call: "(\<And>d w. window_call d w c = w) \<Longrightarrow> display_ok (vrj_call_made c dm) = display_ok dm"
  by (simp add: display_ok_def vrj_call_made_def getAllDisplays_def)

text \<open>An application that may be told to exit.\<close>

definition leavable :: "nat \<Rightarrow> 'e vrj_kernel \<Rightarrow> bool" where
  "leavable a k \<longleftrightarrow> cm_inv (kConfig k) \<and> display_ok (cDisplays (kernel_client k))
     \<and> dispDrawManager (cDisplays (kernel_client k)) = mDrawManager k
     \<and> Option.bind (life (vrjCalls (cDisplays (kernel_client k)))) (\<lambda>l. life_step l (AppExit a)) = Some NoApp"

lemma leavable_app:
  "kernel_inv E k \<Longrightarrow> mApp k = Some a \<Longrightarrow> leavable a k"
  by (auto simp: kernel_inv_def client_ok_def alive_def leavable_def)

lemma leavable_stopDrawManager:
  assumes "kernel_inv E k" and "mApp k = Some a"
  shows "leavable a (stopDrawManager k)"
proof -
  obtain d where d: "mDrawManager k = Some d" using assms by (auto simp: kernel_inv_def)
  have dm: "display_ok (cDisplays (kernel_client k))" "dispDrawManager (cDisplays (kernel_client k)) = Some d"
      "life (vrjCalls (cDisplays (kernel_client k))) = Some (Ready d a)" "cm_inv (kConfig k)"
    using assms d by (simp_all add: kernel_inv_def client_ok_def alive_def)
  then have "display_ok ((vrj_call_made (CloseAPI d) (cDisplays (kernel_client k)))\<lparr>dispDrawManager := None\<rparr>)"
    using closeAPI_ok by blast
  then show ?thesis using dm d
    by (simp add: leavable_def stopDrawManager_def on_displays_def on_client_def)
qed

lemma leavable_remove_handler [simp]: "leavable a (remove_handler h k) = leavable a k"
  by (simp add: leavable_def)

lemma leavable_stopSoundManager [simp]: "leavable a (stopSoundManager k) = leavable a k"
proof (cases "mSoundManager k")
  case (Some s)
  have "life_step l (SoundCloseAPI s) = Some l" for l by (cases l) simp_all
  then have "Option.bind (Option.bind x (\<lambda>l. life_step l (SoundCloseAPI s))) f = Option.bind x f" for x and f :: "life \<Rightarrow> life option"
    by (cases x) simp_all
  then show ?thesis using Some by (simp add: leavable_def stopSoundManager_def display_ok_call)
qed (simp add: stopSoundManager_def)

lemma leavable_exit: "leavable a k \<Longrightarrow> between_apps (calls_made (AppExit a) k)"
  by (simp add: leavable_def between_apps_def display_ok_call)

lemma locked_pass:
  assumes "cm_inv st" and "configProcessPending H h (st\<lparr>mPendingLock := True\<rparr>) = Inr (n, st')"
  shows "cm_inv (unlockPending st')" "mElementHandlers st' = mElementHandlers st"
proof -
  let ?st = "st\<lparr>mPendingLock := True\<rparr>"
  have st: "quiet ?st" "mPendingLock ?st" "all_tracked ?st"
    using assms(1) by (simp_all add: cm_inv_def quiet_def all_tracked_def)
  have "same_setup ?st st'" "all_tracked st'" using configProcessPending_tracked [OF st, of H h] assms(2) by simp_all
  then show "cm_inv (unlockPending st')" "mElementHandlers st' = mElementHandlers st"
    using st(1) by (simp_all add: cm_inv_def quiet_def all_tracked_def unlockPending_def same_setup_def)
qed

lemma startDrawManager_ok:
  assumes "between_apps k" and "mApp k = Some a" and "mDrawManager k = Some d" and "drawManagerAccepts E d a"
  shows "\<exists>k'. startDrawManager E False k = Inr k' \<and> cm_inv (kConfig k')
    \<and> client_ok (Some a) (Some d) (kernel_client k') \<and> mApp k' = Some a \<and> mDrawManager k' = Some d
    \<and> mSoundManager k' = mSoundManager k"
  using assms
  by (simp add: startDrawManager_def between_apps_def client_ok_def alive_def display_ok_call life_append)

text \<open>An application its new draw manager has taken.\<close>

definition begun :: "nat \<Rightarrow> nat \<Rightarrow> 'e vrj_kernel \<Rightarrow> 'e vrj_kernel" where
  "begun d a k = calls_made (AppApiInit a) (calls_made (InitAPI d) (calls_made (AppInit a) (calls_made (SetApp d a) k)))"

lemma startDrawManager_new:
  assumes "startDrawManager E True k = Inr k'" and "mApp k = Some a" and "mDrawManager k = Some d"
  obtains n cfg where "\<not> mPendingLock (kConfig k)"
    "configProcessPending (vrj_handlers E) d ((kConfig k)\<lparr>mPendingLock := True\<rparr>) = Inr (n, cfg)"
    "if drawManagerAccepts E d a
     then try_displays (setDrawManager (asksDisplaySystem E) (kConfig (begun d a (k\<lparr>kConfig := unlockPending cfg\<rparr>))) (Some d))
          (begun d a (k\<lparr>kConfig := unlockPending cfg\<rparr>)) = Inr k'
     else k' = calls_made (SetApp d a) (k\<lparr>kConfig := unlockPending cfg\<rparr>)"
  using assms
  by (auto simp: startDrawManager_def begun_def rbind_Inr_iff lockPending_def Let_def split: if_splits)

lemma startDrawManager_new_ok:
  assumes inv: "cm_inv (kConfig k)" and client: "client_ok None None (kernel_client k)"
    and app: "mApp k = Some a" "mDrawManager k = Some d" and "drawManagerAccepts E d a"
    and run: "startDrawManager E True k = Inr k'"
  shows "cm_inv (kConfig k') \<and> client_ok (Some a) (Some d) (kernel_client k') \<and> mApp k' = Some a
    \<and> mDrawManager k' = Some d \<and> mSoundManager k' = mSoundManager k"
proof -
  obtain n cfg where pass: "configProcessPending (vrj_handlers E) d ((kConfig k)\<lparr>mPendingLock := True\<rparr>) = Inr (n, cfg)"
      and set: "if drawManagerAccepts E d a
     then try_displays (setDrawManager (asksDisplaySystem E) (kConfig (begun d a (k\<lparr>kConfig := unlockPending cfg\<rparr>))) (Some d))
          (begun d a (k\<lparr>kConfig := unlockPending cfg\<rparr>)) = Inr k'
     else k' = calls_made (SetApp d a) (k\<lparr>kConfig := unlockPending cfg\<rparr>)"
    by (rule startDrawManager_new [OF run app])
  have "client_ok None None (cmClient cfg)"
    using vrj.configProcessPending_keeps [OF pass, of None None] client by simp
  then have dm: "display_ok (cDisplays (cmClient (unlockPending cfg)))" "dispDrawManager (cDisplays (cmClient (unlockPending cfg))) = None"
      "life (vrjCalls (cDisplays (cmClient (unlockPending cfg)))) = Some NoApp"
    by (simp_all add: client_ok_def alive_def unlockPending_def)
  define k1 where "k1 = begun d a (k\<lparr>kConfig := unlockPending cfg\<rparr>)"
  have k1: "display_ok (cDisplays (kernel_client k1))" "dispDrawManager (cDisplays (kernel_client k1)) = None"
      "life (kcalls k1) = Some (Ready d a)"
      "cm_inv (kConfig k1)" "mApp k1 = Some a" "mDrawManager k1 = Some d" "mSoundManager k1 = mSoundManager k"
    using dm locked_pass(1) [OF inv pass] app by (simp_all add: k1_def begun_def display_ok_call life_append)
  obtain dm' where dm': "setDrawManager (asksDisplaySystem E) (kConfig k1) (Some d) (cDisplays (kernel_client k1)) = Inr dm'"
      "k' = on_displays (\<lambda>_. dm') k1"
    using set assms(5) by (auto simp: try_displays_def rbind_Inr_iff k1_def)
  have "life (calls @ map (AddDisplay d) disps) = Some (Ready d a)" if "life calls = Some (Ready d a)" for calls disps
    using that by (induction disps arbitrary: calls) (simp_all add: life_append)
  then have "client_ok (Some a) (Some d) (kernel_client k')"
    using setDrawManager_ok [OF k1(1,2) dm'(1)] setDrawManager_effect [OF dm'(1)] k1(3)
    by (simp add: client_ok_def alive_def dm'(2))
  then show ?thesis using k1 by (simp add: dm'(2))
qed

lemma stopSoundManager_between: "between_apps (stopSoundManager k) = between_apps k"
  by (cases "mSoundManager k") (simp_all add: stopSoundManager_def between_apps_def display_ok_call)

lemma stopDrawManager_fields [simp]:
  "mDrawManager (stopDrawManager k) = None" "mSoundManager (stopDrawManager k) = mSoundManager k"
  "mApp (stopDrawManager k) = mApp k"
  by (cases "mDrawManager k"; simp add: stopDrawManager_def on_displays_def on_client_def)+

lemma stopSoundManager_fields [simp]:
  "mDrawManager (stopSoundManager k) = mDrawManager k" "mSoundManager (stopSoundManager k) = None"
  "mApp (stopSoundManager k) = mApp k"
  by (cases "mSoundManager k"; simp add: stopSoundManager_def)+

lemma between_remove_handler [simp]: "between_apps (remove_handler h k) = between_apps k"
  by (simp add: between_apps_def)

lemma leaveApplication_ok:
  assumes inv: "kernel_inv E k"
  shows "between_apps (leaveApplication E newApp k)"
    and "mDrawManager (leaveApplication E newApp k) =
      (case newApp of None \<Rightarrow> None | Some a \<Rightarrow> if getDrawManager E a = mDrawManager k then mDrawManager k else None)"
    and "mSoundManager (leaveApplication E newApp k) =
      (case newApp of None \<Rightarrow> None | Some a \<Rightarrow> if getSoundManager E a = mSoundManager k then mSoundManager k else None)"
proof -
  show "mDrawManager (leaveApplication E newApp k) =
      (case newApp of None \<Rightarrow> None | Some a \<Rightarrow> if getDrawManager E a = mDrawManager k then mDrawManager k else None)"
    by (auto simp: leaveApplication_def Let_def split: option.splits)
  show "mSoundManager (leaveApplication E newApp k) =
      (case newApp of None \<Rightarrow> None | Some a \<Rightarrow> if getSoundManager E a = mSoundManager k then mSoundManager k else None)"
    by (auto simp: leaveApplication_def Let_def split: option.splits)
  show "between_apps (leaveApplication E newApp k)"
  proof (cases "mApp k")
    case None
    then have "between_apps k" "mDrawManager k = None"
      using inv by (simp_all add: kernel_inv_def client_ok_def alive_def between_apps_def)
    then show ?thesis using None
      by (simp add: leaveApplication_def Let_def stopSoundManager_between stopDrawManager_def split: option.splits)
  next
    case (Some a)
    then show ?thesis
      using leavable_app [OF inv Some] leavable_stopDrawManager [OF inv Some]
      by (auto simp: leaveApplication_def Let_def intro!: leavable_exit)
  qed
qed

text \<open>The sound manager and the application follow the draw manager.\<close>

definition with_sound :: "'e vrj_env \<Rightarrow> nat \<Rightarrow> 'e vrj_kernel \<Rightarrow> 'e vrj_kernel" where
  "with_sound E a k1 = add_handler a (case getSoundManager E a of
     Some s \<Rightarrow> if Some s \<noteq> mSoundManager k1 then add_handler s (k1\<lparr>mSoundManager := Some s\<rparr>) else k1
   | None \<Rightarrow> k1\<lparr>mSoundManager := None\<rparr>)"

lemma enterApplication_start:
  assumes "enterApplication E a k = Inr k'"
  obtains d k1 cfg where "getDrawManager E a = Some d"
    "(if getDrawManager E a \<noteq> mDrawManager k then startDrawManager E True (add_handler d (k\<lparr>mDrawManager := Some d\<rparr>))
      else startDrawManager E False k) = Inr k1"
    "refreshPendingList (kConfig (with_sound E a k1)) = Inr cfg"
    "k' = (with_sound E a k1)\<lparr>kConfig := cfg\<rparr>"
proof (cases "getDrawManager E a")
  case None
  have False
    using assms None
    by (cases "mDrawManager k") (auto simp: enterApplication_def startDrawManager_def split: option.splits)
  then show ?thesis ..
next
  case (Some d)
  then show ?thesis using assms that
    by (auto simp: enterApplication_def with_sound_def rbind_Inr_iff Let_def split: if_splits)
qed

lemma enterApplication_ok:
  assumes "between_apps k" and "mApp k = Some a"
    and "mDrawManager k \<noteq> None \<longrightarrow> getDrawManager E a = mDrawManager k"
    and "enterApplication E a k = Inr k'" and accepts: "\<And>d. getDrawManager E a = Some d \<Longrightarrow> drawManagerAccepts E d a"
  shows "kernel_inv E k' \<and> mApp k' = Some a"
proof -
  obtain d k1 cfg where d: "getDrawManager E a = Some d"
    and start: "(if getDrawManager E a \<noteq> mDrawManager k then startDrawManager E True (add_handler d (k\<lparr>mDrawManager := Some d\<rparr>))
      else startDrawManager E False k) = Inr k1"
    and refresh: "refreshPendingList (kConfig (with_sound E a k1)) = Inr cfg"
    and k': "k' = (with_sound E a k1)\<lparr>kConfig := cfg\<rparr>"
    by (rule enterApplication_start [OF assms(4)])
  have k1: "cm_inv (kConfig k1) \<and> client_ok (Some a) (Some d) (kernel_client k1) \<and> mApp k1 = Some a \<and> mDrawManager k1 = Some d"
  proof (cases "mDrawManager k")
    case None
    have "client_ok None None (kernel_client (add_handler d (k\<lparr>mDrawManager := Some d\<rparr>)))"
      using assms(1) None by (simp add: between_apps_def client_ok_def alive_def)
    then show ?thesis
      using startDrawManager_new_ok [of "add_handler d (k\<lparr>mDrawManager := Some d\<rparr>)" a d E k1] assms(1,2) None d accepts [OF d] start
      by (simp add: between_apps_def)
  next
    case (Some d')
    then show ?thesis using startDrawManager_ok [OF assms(1,2) _ accepts [OF d]] assms(3) d start by auto
  qed
  define k2 where "k2 = with_sound E a k1"
  have k2: "cm_inv (kConfig k2)" "client_ok (Some a) (Some d) (kernel_client k2)" "mApp k2 = Some a"
      "mDrawManager k2 = Some d" "mSoundManager k2 = getSoundManager E a"
    using k1 by (auto simp: k2_def with_sound_def split: option.split)
  have "cfg = (kConfig k2)\<lparr>mPendingCheckCount := 0\<rparr>"
    using refresh k2(1) by (simp add: refreshPendingList_value cm_inv_def quiet_def k2_def)
  then show ?thesis using k2 d by (simp add: kernel_inv_def k' flip: k2_def)
qed

section \<open>The calls only grow\<close>

lemma kext_stops:
  "prefix cs (kcalls k) \<Longrightarrow> prefix cs (kcalls (stopDrawManager k))"
  "prefix cs (kcalls k) \<Longrightarrow> prefix cs (kcalls (stopSoundManager k))"
  by (auto simp: stopDrawManager_def stopSoundManager_def split: option.split intro: prefix_prefix)

lemma kext_leave: "prefix cs (kcalls k) \<Longrightarrow> prefix cs (kcalls (leaveApplication E newApp k))"
  by (auto simp: leaveApplication_def Let_def kext_stops split: option.split intro!: prefix_prefix kext_stops)

lemma kext_pass:
  "configProcessPending (vrj_handlers E) h (cfg\<lparr>mPendingLock := True\<rparr>) = Inr (n, cfg') \<Longrightarrow>
     prefix cs (vrjCalls (cDisplays (cmClient cfg))) \<Longrightarrow> prefix cs (vrjCalls (cDisplays (cmClient (unlockPending cfg'))))"
  using vrj_called.configProcessPending_keeps [of E h "cfg\<lparr>mPendingLock := True\<rparr>" n cfg' cs]
  by (simp add: called_def unlockPending_def)

lemma kext_start:
  assumes "startDrawManager E newMgr k = Inr k'" and "prefix cs (kcalls k)"
  shows "prefix cs (kcalls k')" and "\<exists>a d. mApp k = Some a \<and> mDrawManager k = Some d \<and> SetApp d a \<in> set (kcalls k')"
proof -
  obtain a d where app: "mApp k = Some a" "mDrawManager k = Some d"
    using assms(1) by (auto simp: startDrawManager_def split: option.splits)
  have "prefix cs (kcalls k') \<and> SetApp d a \<in> set (kcalls k')"
  proof (cases newMgr)
    case False
    then show ?thesis using assms app
      by (auto simp: startDrawManager_def Let_def split: if_splits intro: prefix_prefix)
  next
    case True
    have run: "startDrawManager E True k = Inr k'" using assms(1) True by simp
    obtain n cfg where pass: "configProcessPending (vrj_handlers E) d ((kConfig k)\<lparr>mPendingLock := True\<rparr>) = Inr (n, cfg)"
      and set: "if drawManagerAccepts E d a
       then try_displays (setDrawManager (asksDisplaySystem E) (kConfig (begun d a (k\<lparr>kConfig := unlockPending cfg\<rparr>))) (Some d))
            (begun d a (k\<lparr>kConfig := unlockPending cfg\<rparr>)) = Inr k'
       else k' = calls_made (SetApp d a) (k\<lparr>kConfig := unlockPending cfg\<rparr>)"
      by (rule startDrawManager_new [OF run app])
    show ?thesis
      using set kext_pass [OF pass assms(2)]
      by (auto simp: try_displays_def rbind_Inr_iff begun_def dest!: setDrawManager_effect split: if_splits intro: prefix_prefix)
  qed
  then show "prefix cs (kcalls k')" "\<exists>a d. mApp k = Some a \<and> mDrawManager k = Some d \<and> SetApp d a \<in> set (kcalls k')"
    using app by blast+
qed

lemma with_sound_client [simp]: "kernel_client (with_sound E a k) = kernel_client k"
  by (simp add: with_sound_def split: option.split)

lemma refreshPendingList_client: "refreshPendingList st = Inr st' \<Longrightarrow> cmClient st' = cmClient st"
  by (auto simp: refreshPendingList_def lockCount_def unlockCount_def rbind_Inr_iff split: if_splits)

lemma kext_enter:
  assumes "enterApplication E a k = Inr k'" and "prefix cs (kcalls k)" and "mApp k = Some a"
  shows "prefix cs (kcalls k')" and "\<exists>d. getDrawManager E a = Some d \<and> SetApp d a \<in> set (kcalls k')"
proof -
  obtain d k1 cfg where d: "getDrawManager E a = Some d"
    and start: "(if getDrawManager E a \<noteq> mDrawManager k then startDrawManager E True (add_handler d (k\<lparr>mDrawManager := Some d\<rparr>))
      else startDrawManager E False k) = Inr k1"
    and refresh: "refreshPendingList (kConfig (with_sound E a k1)) = Inr cfg"
    and k': "k' = (with_sound E a k1)\<lparr>kConfig := cfg\<rparr>"
    by (rule enterApplication_start [OF assms(1)])
  have "kcalls k' = kcalls k1" using refreshPendingList_client [OF refresh] by (simp add: k')
  moreover have "prefix cs (kcalls k1) \<and> SetApp d a \<in> set (kcalls k1)"
    using start d kext_start [where cs = cs and k' = k1] assms(2,3) by (fastforce split: if_splits)
  ultimately show "prefix cs (kcalls k')" "\<exists>d. getDrawManager E a = Some d \<and> SetApp d a \<in> set (kcalls k')"
    using d by simp_all
qed

lemma kext_change:
  "changeApplication E newApp k = Inr k' \<Longrightarrow> prefix cs (kcalls k) \<Longrightarrow> prefix cs (kcalls k')"
  using kext_enter(1) [of E _ "(leaveApplication E newApp k)\<lparr>mApp := newApp\<rparr>" k' cs] kext_leave [of cs k E newApp]
  by (auto simp: changeApplication_def Let_def split: if_splits option.splits)

lemma kext_check:
  assumes "kernelCheckForReconfig E k = Some (Inr k')" and "prefix cs (kcalls k)"
  shows "prefix cs (kcalls k')"
proof -
  obtain cfg where cfg: "checkForReconfig (vrj_handlers E) (kConfig k) = Some (Inr cfg)"
    using assms(1) by (auto simp: kernelCheckForReconfig_def split: option.splits sum.splits)
  have "called cs (cmClient cfg)"
    by (rule vrj_called.checkForReconfig_keeps [OF cfg]) (use assms(2) in \<open>simp add: called_def\<close>)
  then have p: "prefix cs (kcalls (k\<lparr>kConfig := cfg, mNewAppSet := b\<rparr>))" "prefix cs (kcalls (k\<lparr>kConfig := cfg\<rparr>))" for b
    by (simp_all add: called_def)
  have "k' = k\<lparr>kConfig := cfg\<rparr> \<or> changeApplication E (mNewApp k) (k\<lparr>kConfig := cfg, mNewAppSet := False\<rparr>) = Inr k'"
    using assms(1) cfg by (auto simp: kernelCheckForReconfig_def Let_def split: if_splits)
  then show ?thesis using p kext_change by blast
qed

lemma kext_frame: "loop_frame active ready k = Inr k' \<Longrightarrow> prefix cs (kcalls k) \<Longrightarrow> prefix cs (kcalls k')"
  by (auto simp: loop_frame_def draw_frame_def call_on_sound_def Let_def rbind_Inr_iff
    split: if_splits option.splits intro!: prefix_prefix)

lemma kext_update: "prefix cs (kcalls k) \<Longrightarrow> prefix cs (kcalls (loop_update c pressed k))"
  by (auto simp: loop_update_def Let_def checkSignalButtons_def kernel_stop_def setApplication_def intro!: prefix_prefix)

lemma control_step_calls:
  assumes "control_step E active ready pressed k = Some (Inr k')" and "prefix cs (kcalls k)"
  shows "prefix cs (kcalls k')"
proof (cases "kernelPc k")
  case AtHead
  then show ?thesis using assms kext_frame [OF _ assms(2), of active ready k']
    by (auto simp: control_step_def loop_exit_def split: if_splits intro!: prefix_prefix)
next
  case (AtReconfig c)
  then obtain k1 where "kernelCheckForReconfig E k = Some (Inr k1)" "k' = k1\<lparr>kernelPc := AtUpdate c\<rparr>"
    using assms(1) by (auto simp: control_step_def rbind_Inr_iff)
  then show ?thesis using kext_check [OF _ assms(2)] by simp
next
  case (AtUpdate c)
  then show ?thesis using assms kext_update [OF assms(2), of c pressed] by (auto simp: control_step_def)
qed (use assms in \<open>simp add: control_step_def\<close>)

section \<open>Every reachable state of the kernel\<close>

lemma changeApplication_ok:
  assumes "kernel_inv E k" and "changeApplication E newApp k = Inr k'" and "accepted E (kcalls k')"
  shows "kernel_inv E k' \<and> mApp k' = newApp"
proof (cases "newApp = mApp k")
  case True
  then show ?thesis using assms(1,2) by (simp add: changeApplication_def)
next
  case False
  note left = leaveApplication_ok [OF assms(1), of newApp]
  show ?thesis
  proof (cases newApp)
    case None
    have "kernel_inv E ((leaveApplication E None k)\<lparr>mApp := None\<rparr>)"
      using left None by (simp add: kernel_inv_def between_apps_def client_ok_def alive_def)
    moreover have "k' = (leaveApplication E None k)\<lparr>mApp := None\<rparr>"
      using False None assms(2) by (simp add: changeApplication_def)
    ultimately show ?thesis using None by simp
  next
    case (Some a)
    let ?k = "(leaveApplication E newApp k)\<lparr>mApp := newApp\<rparr>"
    have k: "between_apps ?k" "mApp ?k = Some a" "mDrawManager ?k \<noteq> None \<longrightarrow> getDrawManager E a = mDrawManager ?k"
      using left Some by auto
    have run: "enterApplication E a ?k = Inr k'" using assms(2) False Some by (simp add: changeApplication_def Let_def)
    have "drawManagerAccepts E d a" if "getDrawManager E a = Some d" for d
      using kext_enter(2) [OF run prefix_order.refl k(2)] that assms(3) by (auto simp: accepted_def)
    from enterApplication_ok [OF k run this] show ?thesis using Some by simp
  qed
qed

lemma kernel_inv_flags [simp]:
  "kernel_inv E (k\<lparr>mNewAppSet := b\<rparr>) = kernel_inv E k" "kernel_inv E (k\<lparr>kernelPc := pc\<rparr>) = kernel_inv E k"
  "kernel_inv E (k\<lparr>mNewApp := n\<rparr>) = kernel_inv E k" "kernel_inv E (k\<lparr>mExitFlag := b\<rparr>) = kernel_inv E k"
  "kernel_inv E (k\<lparr>mIsRunning := b\<rparr>) = kernel_inv E k" "kernel_inv E (k\<lparr>firstCluster := b\<rparr>) = kernel_inv E k"
  "kernel_inv E (setApplication n k) = kernel_inv E k" "kernel_inv E (kernel_stop k) = kernel_inv E k"
  by (simp_all add: kernel_inv_def setApplication_def kernel_stop_def)

lemma client_ok_call:
  "(\<And>d w. window_call d w c = w) \<Longrightarrow> (\<And>d a. life_step (Ready d a) c = Some (Ready d a)) \<Longrightarrow> life_step NoApp c = Some NoApp \<Longrightarrow>
   client_ok app draw x \<Longrightarrow> client_ok app draw (x\<lparr>cDisplays := vrj_call_made c (cDisplays x)\<rparr>)"
  by (auto simp: client_ok_def display_ok_call alive_def split: option.splits)

lemma kernel_inv_call:
  "(\<And>d w. window_call d w c = w) \<Longrightarrow> (\<And>d a. life_step (Ready d a) c = Some (Ready d a)) \<Longrightarrow> life_step NoApp c = Some NoApp \<Longrightarrow>
   kernel_inv E k \<Longrightarrow> kernel_inv E (calls_made c k)"
  using client_ok_call [of c "mApp k" "mDrawManager k" "kernel_client k"]
  by (simp add: kernel_inv_def on_displays_def on_client_def)

lemma loop_update_inv: "kernel_inv E k \<Longrightarrow> kernel_inv E (loop_update c pressed k)"
  by (simp add: loop_update_def Let_def checkSignalButtons_def kernel_inv_call)

lemma loop_exit_inv: "kernel_inv E k \<Longrightarrow> kernel_inv E (loop_exit k)"
  by (simp add: loop_exit_def kernel_inv_call)

text \<open>A frame: the calls it makes, in their order.\<close>

definition frame_calls :: "nat \<Rightarrow> nat \<Rightarrow> nat \<Rightarrow> bool \<Rightarrow> vrj_call list" where
  "frame_calls a d s call_cluster =
     [PreFrame a] @ (if call_cluster then [ClusterPreDraw] else [])
     @ [LatePreFrame a, Draw d, SoundUpdate s, IntraFrame a, SoundSync s, Sync d, PostFrame a]"

lemma display_ok_calls:
  "list_all (\<lambda>c. \<forall>d w. window_call d w c = w) cs \<Longrightarrow> display_ok (dm\<lparr>vrjCalls := vrjCalls dm @ cs\<rparr>) = display_ok dm"
proof -
  assume cs: "list_all (\<lambda>c. \<forall>d w. window_call d w c = w) cs"
  have "foldl (window_call d) w cs = w" for d w using cs by (induction cs) simp_all
  then show ?thesis by (simp add: display_ok_def getAllDisplays_def windows_append)
qed

lemma draw_frame_calls:
  assumes "mApp k = Some a" and "mDrawManager k = Some d" and "mSoundManager k = Some s"
  shows "draw_frame k = Inr (on_displays (\<lambda>dm. dm\<lparr>vrjCalls := vrjCalls dm
    @ [LatePreFrame a, Draw d, SoundUpdate s, IntraFrame a, SoundSync s, Sync d, PostFrame a]\<rparr>) k)"
  using assms by (simp add: draw_frame_def call_on_sound_def on_displays_def on_client_def vrj_call_made_def)

lemma frame_has_sound:
  assumes "loop_frame active ready k = Inr k'" and "frame_due active ready k"
  obtains s where "mSoundManager k = Some s"
  using assms by (auto simp: loop_frame_def draw_frame_def call_on_sound_def Let_def rbind_Inr_iff split: option.splits if_splits)

lemma loop_frame_inv:
  assumes "kernel_inv E k" and "loop_frame active ready k = Inr k'"
  shows "kernel_inv E k'"
proof (cases "frame_due active ready k")
  case False
  then show ?thesis using assms by (auto simp: loop_frame_def Let_def kernel_inv_call split: if_splits)
next
  case True
  define k1 where "k1 = (if (active \<and> ready) \<and> firstCluster k then calls_made ClusterBarrier (k\<lparr>firstCluster := False\<rparr>) else k)"
  have inv1: "kernel_inv E k1" using assms(1) by (simp add: k1_def kernel_inv_call)
  obtain a d where app: "mApp k1 = Some a" "mDrawManager k1 = Some d" using True by (cases "(active \<and> ready) \<and> firstCluster k") (auto simp: frame_due_def k1_def)
  obtain s where "mSoundManager k = Some s" by (rule frame_has_sound [OF assms(2) True])
  then have sound: "mSoundManager k1 = Some s" by (simp add: k1_def)
  define k2 where "k2 = (if active \<and> ready then calls_made ClusterPreDraw (calls_made (PreFrame a) k1) else calls_made (PreFrame a) k1)"
  have k2: "mApp k2 = Some a" "mDrawManager k2 = Some d" "mSoundManager k2 = Some s"
    using app sound by (simp_all add: k2_def)
  let ?rest = "[LatePreFrame a, Draw d, SoundUpdate s, IntraFrame a, SoundSync s, Sync d, PostFrame a]"
  have app_k: "mApp k = Some a" using app(1) by (auto simp: k1_def split: if_splits)
  have "loop_frame active ready k = rbind (draw_frame k2) (\<lambda>k. Inr (k\<lparr>kernelPc := AtReconfig (active \<and> ready)\<rparr>))"
    using True app_k
    by (cases "active \<and> ready"; cases "firstCluster k") (auto simp: loop_frame_def Let_def k2_def k1_def)
  then have k': "k' = (on_displays (\<lambda>dm. dm\<lparr>vrjCalls := vrjCalls dm @ ?rest\<rparr>) k2)\<lparr>kernelPc := AtReconfig (active \<and> ready)\<rparr>"
    using assms(2) by (simp add: draw_frame_calls [OF k2])
  have "kernel_inv E (on_displays (\<lambda>dm. dm\<lparr>vrjCalls := vrjCalls dm @ ?rest\<rparr>) k2)"
    using inv1 app sound
    by (auto simp: kernel_inv_def client_ok_def alive_def k2_def on_displays_def on_client_def life_append
      vrj_call_made_def display_ok_calls)
  then show ?thesis by (simp add: k')
qed

lemma kernelCheckForReconfig_inv:
  assumes "kernel_inv E k" and "kernelCheckForReconfig E k = Some (Inr k')" and "accepted E (kcalls k')"
  shows "kernel_inv E k'"
proof -
  have cm: "cm_inv (kConfig k)" "client_ok (mApp k) (mDrawManager k) (kernel_client k)"
    using assms(1) by (simp_all add: kernel_inv_def)
  obtain cfg where cfg: "checkForReconfig (vrj_handlers E) (kConfig k) = Some (Inr cfg)"
    using assms(2) by (auto simp: kernelCheckForReconfig_def split: option.splits sum.splits)
  have "cm_inv cfg" using checkForReconfig_inv [OF cfg cm(1)] by simp
  moreover have "client_ok (mApp k) (mDrawManager k) (cmClient cfg)"
    by (rule vrj.checkForReconfig_keeps [OF cfg cm(2)])
  ultimately have inv: "kernel_inv E (k\<lparr>kConfig := cfg\<rparr>)" "kernel_inv E (k\<lparr>kConfig := cfg, mNewAppSet := False\<rparr>)"
    using assms(1) by (simp_all add: kernel_inv_def)
  have "k' = k\<lparr>kConfig := cfg\<rparr> \<or> changeApplication E (mNewApp k) (k\<lparr>kConfig := cfg, mNewAppSet := False\<rparr>) = Inr k'"
    using assms(2) cfg by (auto simp: kernelCheckForReconfig_def Let_def split: if_splits)
  then show ?thesis using inv changeApplication_ok [OF inv(2) _ assms(3)] by blast
qed

lemma signal_keeps:
  "mConfigurationSignal (vrj_handlers E) els t c = Inr c' \<Longrightarrow> \<exists>x. c' = c\<lparr>cOther := x\<rparr>"
  by (auto simp: vrj_handlers_def rbind_Inr_iff)

lemma cm_inv_element [simp]: "cm_inv (addConfigElement e t st) = cm_inv st"
  by (simp add: cm_inv_def quiet_def all_tracked_def addConfigElement_def)

text \<open>What other threads do to the configuration manager: it keeps its invariant and its clients.\<close>

definition asked_for :: "'e vrj_client config_manager \<Rightarrow> 'e vrj_client config_manager \<Rightarrow> bool" where
  "asked_for st st' \<longleftrightarrow> (cm_inv st \<longrightarrow> cm_inv st') \<and> (\<exists>x. cmClient st' = (cmClient st)\<lparr>cOther := x\<rparr>)"

lemma requested:
  assumes "addConfigurationAdditions (vrj_handlers E) els st = Inr cfg \<or> addConfigurationRemovals (vrj_handlers E) els st = Inr cfg"
  shows "asked_for st cfg"
proof -
  have "cm_step (vrj_handlers E) st cfg" using assms by (auto intro: cm_additions cm_removals)
  then have "cm_inv st \<longrightarrow> cm_inv cfg" using cm_step_inv by blast
  moreover have "\<exists>x. cmClient cfg = (cmClient st)\<lparr>cOther := x\<rparr>"
    using assms by (auto simp: addConfigurationAdditions_def addConfigurationRemovals_def rbind_Inr_iff lockIncoming_def
      unlockIncoming_def add_incoming_def split: if_splits dest!: signal_keeps)
  ultimately show ?thesis by (simp add: asked_for_def)
qed

lemma requested_element: "asked_for st (addConfigElement e t st)"
proof -
  have "cmClient (addConfigElement e t st) = (cmClient st)\<lparr>cOther := cOther (cmClient st)\<rparr>"
    by (simp add: addConfigElement_def)
  then show ?thesis unfolding asked_for_def by (metis cm_inv_element)
qed

text \<open>The steps of all threads, by what they may change.\<close>

lemma kernel_step_cases:
  assumes "kernel_step E k k'"
  obtains (control) active ready pressed where "control_step E active ready pressed k = Some (Inr k')"
  | (flags) "kConfig k' = kConfig k" "mApp k' = mApp k" "mDrawManager k' = mDrawManager k" "mSoundManager k' = mSoundManager k"
  | (asked) cfg where "k' = k\<lparr>kConfig := cfg\<rparr>" "asked_for (kConfig k) cfg"
  using assms
proof cases
  case (step_additions els cfg)
  then show ?thesis using requested [OF disjI1] asked by blast
next
  case (step_removals els cfg)
  then show ?thesis using requested [OF disjI2] asked by blast
next
  case (step_element e t)
  then show ?thesis using requested_element asked by blast
qed (use control flags in \<open>auto simp: setApplication_def kernel_stop_def\<close>)

lemma kernel_step_calls:
  assumes "kernel_step E k k'"
  shows "prefix (kcalls k) (kcalls k')"
  using assms
proof (cases rule: kernel_step_cases)
  case (control active ready pressed)
  then show ?thesis by (rule control_step_calls) simp
qed (auto simp: asked_for_def)

lemma control_step_inv:
  assumes "kernel_inv E k" and "control_step E active ready pressed k = Some (Inr k')" and "accepted E (kcalls k')"
  shows "kernel_inv E k'"
proof (cases "kernelPc k")
  case AtHead
  then show ?thesis
    using assms(2) loop_frame_inv [OF assms(1), of active ready k'] loop_exit_inv [OF assms(1)]
    by (auto simp: control_step_def split: if_splits)
next
  case (AtReconfig c)
  then obtain k1 where "kernelCheckForReconfig E k = Some (Inr k1)" "k' = k1\<lparr>kernelPc := AtUpdate c\<rparr>"
    using assms(2) by (auto simp: control_step_def rbind_Inr_iff)
  then show ?thesis using kernelCheckForReconfig_inv [OF assms(1), of k1] assms(3) by simp
next
  case (AtUpdate c)
  then show ?thesis using assms(1,2) loop_update_inv by (auto simp: control_step_def)
next
  case Exited
  then show ?thesis using assms(1,2) by (auto simp: control_step_def)
qed

lemma kernel_step_inv:
  assumes "accepted E (kcalls k) \<longrightarrow> kernel_inv E k" and "kernel_step E k k'"
  shows "accepted E (kcalls k') \<longrightarrow> kernel_inv E k'"
proof
  assume acc: "accepted E (kcalls k')"
  have inv: "kernel_inv E k" using assms(1) accepted_prefix [OF kernel_step_calls [OF assms(2)] acc] by blast
  show "kernel_inv E k'"
    using assms(2)
  proof (cases rule: kernel_step_cases)
    case (control active ready pressed)
    then show ?thesis by (rule control_step_inv [OF inv _ acc])
  next
    case flags
    then show ?thesis using inv by (simp add: kernel_inv_def)
  next
    case (asked cfg)
    then show ?thesis using inv by (auto simp: kernel_inv_def asked_for_def client_ok_def)
  qed
qed

lemma kernel_started_inv: "kernel_started k \<Longrightarrow> kernel_inv E k"
  by (auto simp: kernel_started_def kernel_start_def kernel_new_def initConfig_def kernel_inv_def client_ok_def
    alive_def display_ok_new)
     (simp_all add: config_manager_new_def cm_inv_def quiet_def all_tracked_def display_manager_new_def
       display_ok_def getAllDisplays_def)

interpretation kernel: transition_system kernel_started "kernel_step E" "\<lambda>k. accepted E (kcalls k) \<longrightarrow> kernel_inv E k" for E
  by unfold_locales (use kernel_started_inv kernel_step_inv in blast)+

lemma kernel_reach_inv:
  assumes "reach kernel_started (kernel_step E) k" and "accepted E (kcalls k)"
  shows "kernel_inv E k"
  using kernel.reach_inv [OF assms(1)] assms(2) by blast

section \<open>The displays in every reachable state\<close>

text \<open>The display manager tells no other draw manager than the kernel's, accepted or not.\<close>

definition displays_inv :: "'e vrj_kernel \<Rightarrow> bool" where
  "displays_inv k \<longleftrightarrow> display_ok (cDisplays (kernel_client k))
     \<and> (dispDrawManager (cDisplays (kernel_client k)) = None \<or> dispDrawManager (cDisplays (kernel_client k)) = mDrawManager k)"

lemma displays_inv_call [simp]: "(\<And>d w. window_call d w c = w) \<Longrightarrow> displays_inv (calls_made c k) = displays_inv k"
  by (simp add: displays_inv_def display_ok_call)

lemma displays_inv_same [simp]:
  "displays_inv (k\<lparr>mApp := a\<rparr>) = displays_inv k" "displays_inv (k\<lparr>mSoundManager := x\<rparr>) = displays_inv k"
  "displays_inv (k\<lparr>kernelPc := p\<rparr>) = displays_inv k" "displays_inv (k\<lparr>firstCluster := b\<rparr>) = displays_inv k"
  "displays_inv (k\<lparr>mIsRunning := b\<rparr>) = displays_inv k" "displays_inv (k\<lparr>mNewAppSet := b\<rparr>) = displays_inv k"
  "displays_inv (kernel_stop k) = displays_inv k"
  "displays_inv (remove_handler h k) = displays_inv k" "displays_inv (add_handler h0 k) = displays_inv k"
  "displays_inv (stopSoundManager k) = displays_inv k"
  by (simp_all add: displays_inv_def kernel_stop_def setApplication_def)
    (cases "mSoundManager k"; simp add: stopSoundManager_def display_ok_call)

lemma displays_stopDrawManager: "displays_inv k \<Longrightarrow> displays_inv (stopDrawManager k)"
  using closeAPI_ok [of "cDisplays (kernel_client k)"]
  by (cases "mDrawManager k") (auto simp: stopDrawManager_def displays_inv_def)

lemma displays_leave: "displays_inv k \<Longrightarrow> displays_inv (leaveApplication E newApp k)"
  by (auto simp: leaveApplication_def Let_def displays_stopDrawManager split: option.split)

lemma displays_start:
  assumes "startDrawManager E newMgr k = Inr k'" and "displays_inv k"
    and "newMgr \<longrightarrow> dispDrawManager (cDisplays (kernel_client k)) = None"
  shows "displays_inv k'"
proof -
  obtain a d where app: "mApp k = Some a" "mDrawManager k = Some d"
    using assms(1) by (auto simp: startDrawManager_def split: option.splits)
  show ?thesis
  proof (cases newMgr)
    case False
    then show ?thesis using assms(1,2) app by (auto simp: startDrawManager_def Let_def split: if_splits)
  next
    case True
    have run: "startDrawManager E True k = Inr k'" using assms(1) True by simp
    obtain n cfg where pass: "configProcessPending (vrj_handlers E) d ((kConfig k)\<lparr>mPendingLock := True\<rparr>) = Inr (n, cfg)"
      and set: "if drawManagerAccepts E d a
       then try_displays (setDrawManager (asksDisplaySystem E) (kConfig (begun d a (k\<lparr>kConfig := unlockPending cfg\<rparr>))) (Some d))
            (begun d a (k\<lparr>kConfig := unlockPending cfg\<rparr>)) = Inr k'
       else k' = calls_made (SetApp d a) (k\<lparr>kConfig := unlockPending cfg\<rparr>)"
      by (rule startDrawManager_new [OF run app])
    have "shown None (cmClient cfg)"
      by (rule vrj_shown.configProcessPending_keeps [OF pass]) (use assms(2,3) True in \<open>simp add: shown_def displays_inv_def\<close>)
    then have shown: "display_ok (cDisplays (kernel_client k1))" "dispDrawManager (cDisplays (kernel_client k1)) = None"
      if "k1 = k\<lparr>kConfig := unlockPending cfg\<rparr>" for k1
      by (simp_all add: that shown_def unlockPending_def)
    show ?thesis
    proof (cases "drawManagerAccepts E d a")
      case False
      then show ?thesis using set shown [OF refl] by (simp add: displays_inv_def display_ok_call)
    next
      case True
      let ?k1 = "begun d a (k\<lparr>kConfig := unlockPending cfg\<rparr>)"
      obtain dm where dm: "setDrawManager (asksDisplaySystem E) (kConfig ?k1) (Some d) (cDisplays (kernel_client ?k1)) = Inr dm"
          "k' = on_displays (\<lambda>_. dm) ?k1"
        using set True by (auto simp: try_displays_def rbind_Inr_iff)
      have "display_ok (cDisplays (kernel_client ?k1))" "dispDrawManager (cDisplays (kernel_client ?k1)) = None"
        using shown [OF refl] by (simp_all add: begun_def display_ok_call)
      from setDrawManager_ok [OF this dm(1)] setDrawManager_effect [OF dm(1)] show ?thesis
        using app by (simp add: dm(2) displays_inv_def begun_def)
    qed
  qed
qed

lemma with_sound_fields [simp]: "mDrawManager (with_sound E a k) = mDrawManager k" "mApp (with_sound E a k) = mApp k"
  by (simp_all add: with_sound_def split: option.split)

lemma displays_enter:
  assumes "enterApplication E a k = Inr k'" and "displays_inv k"
    and "mDrawManager k = None \<or> mDrawManager k = getDrawManager E a"
  shows "displays_inv k'"
proof -
  obtain d k1 cfg where d: "getDrawManager E a = Some d"
    and start: "(if getDrawManager E a \<noteq> mDrawManager k then startDrawManager E True (add_handler d (k\<lparr>mDrawManager := Some d\<rparr>))
      else startDrawManager E False k) = Inr k1"
    and refresh: "refreshPendingList (kConfig (with_sound E a k1)) = Inr cfg"
    and k': "k' = (with_sound E a k1)\<lparr>kConfig := cfg\<rparr>"
    by (rule enterApplication_start [OF assms(1)])
  have "displays_inv k1"
  proof (cases "getDrawManager E a = mDrawManager k")
    case True
    then show ?thesis using start displays_start [OF _ assms(2), of E False k1] by simp
  next
    case False
    then have none: "dispDrawManager (cDisplays (kernel_client k)) = None"
      using assms(2,3) by (cases "mDrawManager k") (simp_all add: displays_inv_def)
    let ?k = "add_handler d (k\<lparr>mDrawManager := Some d\<rparr>)"
    have "startDrawManager E True ?k = Inr k1" using start False by simp
    moreover have "displays_inv ?k" using assms(2) none by (simp add: displays_inv_def)
    ultimately show ?thesis by (rule displays_start) (simp add: none)
  qed
  then show ?thesis using refreshPendingList_client [OF refresh] by (simp add: k' displays_inv_def)
qed

lemma leave_drawManager:
  "mDrawManager (leaveApplication E newApp k) =
     (case newApp of None \<Rightarrow> None | Some a \<Rightarrow> if getDrawManager E a = mDrawManager k then mDrawManager k else None)"
  by (auto simp: leaveApplication_def Let_def split: option.splits)

lemma displays_change:
  assumes "changeApplication E newApp k = Inr k'" and "displays_inv k"
  shows "displays_inv k'"
proof (cases "newApp = mApp k")
  case False
  let ?k = "(leaveApplication E newApp k)\<lparr>mApp := newApp\<rparr>"
  have k: "displays_inv ?k" using displays_leave [OF assms(2)] by simp
  show ?thesis
  proof (cases newApp)
    case None
    then show ?thesis using assms(1) False k by (auto simp: changeApplication_def Let_def)
  next
    case (Some a)
    have run: "enterApplication E a ?k = Inr k'" using assms(1) False Some by (simp add: changeApplication_def Let_def)
    have "mDrawManager ?k = None \<or> mDrawManager ?k = getDrawManager E a" by (simp add: leave_drawManager Some)
    then show ?thesis by (rule displays_enter [OF run k])
  qed
qed (use assms in \<open>simp add: changeApplication_def\<close>)

lemma displays_frame: "loop_frame active ready k = Inr k' \<Longrightarrow> displays_inv k \<Longrightarrow> displays_inv k'"
  by (auto simp: loop_frame_def draw_frame_def call_on_sound_def Let_def rbind_Inr_iff
    split: if_splits option.splits)

lemma displays_check:
  assumes "kernelCheckForReconfig E k = Some (Inr k')" and "displays_inv k"
  shows "displays_inv k'"
proof -
  obtain cfg where cfg: "checkForReconfig (vrj_handlers E) (kConfig k) = Some (Inr cfg)"
    using assms(1) by (auto simp: kernelCheckForReconfig_def split: option.splits sum.splits)
  have "shown (dispDrawManager (cDisplays (kernel_client k))) (cmClient cfg)"
    by (rule vrj_shown.checkForReconfig_keeps [OF cfg]) (use assms(2) in \<open>simp add: shown_def displays_inv_def\<close>)
  then have inv: "displays_inv (k\<lparr>kConfig := cfg\<rparr>)" "displays_inv (k\<lparr>kConfig := cfg, mNewAppSet := False\<rparr>)"
    using assms(2) by (simp_all add: displays_inv_def shown_def)
  have "k' = k\<lparr>kConfig := cfg\<rparr> \<or> changeApplication E (mNewApp k) (k\<lparr>kConfig := cfg, mNewAppSet := False\<rparr>) = Inr k'"
    using assms(1) cfg by (auto simp: kernelCheckForReconfig_def Let_def split: if_splits)
  then show ?thesis using inv displays_change by blast
qed

lemma displays_control:
  assumes "control_step E active ready pressed k = Some (Inr k')" and "displays_inv k"
  shows "displays_inv k'"
proof (cases "kernelPc k")
  case AtHead
  then show ?thesis using assms displays_frame [of active ready k k']
    by (auto simp: control_step_def loop_exit_def split: if_splits)
next
  case (AtReconfig c)
  then obtain k1 where "kernelCheckForReconfig E k = Some (Inr k1)" "k' = k1\<lparr>kernelPc := AtUpdate c\<rparr>"
    using assms(1) by (auto simp: control_step_def rbind_Inr_iff)
  then show ?thesis using displays_check [OF _ assms(2)] by simp
next
  case (AtUpdate c)
  then show ?thesis using assms by (auto simp: control_step_def loop_update_def Let_def checkSignalButtons_def)
qed (use assms in \<open>simp add: control_step_def\<close>)

lemma displays_step:
  assumes "displays_inv k" and "kernel_step E k k'"
  shows "displays_inv k'"
  using assms(2)
proof (cases rule: kernel_step_cases)
  case (control active ready pressed)
  then show ?thesis by (rule displays_control [OF _ assms(1)])
qed (use assms(1) in \<open>auto simp: displays_inv_def asked_for_def\<close>)

interpretation displays: transition_system kernel_started "kernel_step E" displays_inv for E
proof unfold_locales
  show "displays_inv k" if "kernel_started k" for k :: "'e vrj_kernel"
    using kernel_started_inv [OF that] by (auto simp: kernel_inv_def client_ok_def displays_inv_def)
  show "displays_inv k'" if "displays_inv k" and "kernel_step E k k'" for E and k k' :: "'e vrj_kernel"
    using that by (rule displays_step)
qed

section \<open>Stopping\<close>

text \<open>The control thread on its own, with what the cluster and the stop button answer in each step.\<close>

fun control_run :: "'e vrj_env \<Rightarrow> (bool \<times> bool \<times> bool) list \<Rightarrow> 'e vrj_kernel \<Rightarrow> 'e vrj_kernel result option" where
  "control_run E [] k = Some (Inr k)"
| "control_run E ((active, ready, pressed) # inputs) k =
     (case control_step E active ready pressed k of
        Some (Inr k') \<Rightarrow> control_run E inputs k'
      | r \<Rightarrow> r)"

text \<open>The kernel after further calls; whether reconfiguration returns, whatever was called meanwhile.\<close>

abbreviation with_calls :: "vrj_call list \<Rightarrow> 'e vrj_kernel \<Rightarrow> 'e vrj_kernel" where
  "with_calls calls \<equiv> on_displays (\<lambda>dm. dm\<lparr>vrjCalls := calls\<rparr>)"

definition reconfig_returns :: "'e vrj_env \<Rightarrow> 'e vrj_kernel \<Rightarrow> bool" where
  "reconfig_returns E k \<longleftrightarrow>
     (\<forall>calls. \<exists>cfg. checkForReconfig (vrj_handlers E) (kConfig (with_calls calls k)) = Some (Inr cfg))"

definition stopping :: "'e vrj_env \<Rightarrow> 'e vrj_kernel \<Rightarrow> bool" where
  "stopping E k \<longleftrightarrow> mExitFlag k
     \<and> (mApp k \<noteq> None \<longrightarrow> mNewAppSet k \<and> mNewApp k = None \<and> mSoundManager k \<noteq> None \<and> reconfig_returns E k)
     \<and> (case kernelPc k of AtReconfig c \<Rightarrow> (mNewAppSet k \<longrightarrow> mNewApp k = None) \<and> reconfig_returns E k
        | Exited \<Rightarrow> mApp k = None \<and> \<not> mIsRunning k | _ \<Rightarrow> True)"

text \<open>The steps the control thread still takes.\<close>

fun stop_steps :: "kernel_pc \<Rightarrow> bool \<Rightarrow> nat" where
  "stop_steps AtHead has_app = (if has_app then 4 else 1)"
| "stop_steps (AtReconfig c) has_app = 3"
| "stop_steps (AtUpdate c) has_app = (if has_app then 5 else 2)"
| "stop_steps Exited has_app = 0"

text \<open>The application may have gone, and then it was told so.\<close>

definition app_exits :: "'e vrj_kernel \<Rightarrow> 'e vrj_kernel \<Rightarrow> bool" where
  "app_exits k k' \<longleftrightarrow> (\<exists>cs. kcalls k' = kcalls k @ cs
     \<and> (mApp k' = mApp k \<or> mApp k' = None \<and> (\<forall>a. mApp k = Some a \<longrightarrow> AppExit a \<in> set cs)))"

lemma app_exits_trans:
  assumes "app_exits k k1" and "app_exits k1 k2"
  shows "app_exits k k2"
proof -
  obtain cs ds where calls: "kcalls k1 = kcalls k @ cs" "kcalls k2 = kcalls k1 @ ds"
    and app: "mApp k1 = mApp k \<or> mApp k1 = None \<and> (\<forall>a. mApp k = Some a \<longrightarrow> AppExit a \<in> set cs)"
      "mApp k2 = mApp k1 \<or> mApp k2 = None \<and> (\<forall>a. mApp k1 = Some a \<longrightarrow> AppExit a \<in> set ds)"
    using assms by (auto simp: app_exits_def)
  have "kcalls k2 = kcalls k @ (cs @ ds)" using calls by simp
  moreover have "mApp k2 = mApp k \<or> mApp k2 = None \<and> (\<forall>a. mApp k = Some a \<longrightarrow> AppExit a \<in> set (cs @ ds))"
    using app by auto
  ultimately show ?thesis unfolding app_exits_def by blast
qed

lemma app_exits_same: "prefix (kcalls k) (kcalls k') \<Longrightarrow> mApp k' = mApp k \<Longrightarrow> app_exits k k'"
  by (auto simp: app_exits_def prefix_def)

lemma kernel_flags [simp]:
  "mExitFlag (on_displays f k) = mExitFlag k" "mNewApp (on_displays f k) = mNewApp k"
  "mNewAppSet (on_displays f k) = mNewAppSet k" "firstCluster (on_displays f k) = firstCluster k"
  "kernelPc (on_displays f k) = kernelPc k" "mIsRunning (on_displays f k) = mIsRunning k"
  "mExitFlag (remove_handler h k) = mExitFlag k"
  by (simp_all add: on_displays_def on_client_def remove_handler_def split: option.split)

lemma leave_exitFlag [simp]: "mExitFlag (leaveApplication E newApp k) = mExitFlag k"
proof -
  have "mExitFlag (stopDrawManager k) = mExitFlag k" "mExitFlag (stopSoundManager k) = mExitFlag k" for k :: "'a vrj_kernel"
    by (simp_all add: stopDrawManager_def stopSoundManager_def split: option.split)
  then show ?thesis by (auto simp: leaveApplication_def Let_def split: option.split)
qed

text \<open>A frame changes nothing of what stops the kernel.\<close>

definition calls_only :: "'e vrj_kernel \<Rightarrow> 'e vrj_kernel \<Rightarrow> bool" where
  "calls_only k k' \<longleftrightarrow> (\<exists>calls. kConfig k' = kConfig (with_calls calls k)) \<and> mApp k' = mApp k
     \<and> mSoundManager k' = mSoundManager k \<and> mExitFlag k' = mExitFlag k \<and> mNewApp k' = mNewApp k
     \<and> mNewAppSet k' = mNewAppSet k"

lemma with_calls_self: "kConfig (with_calls (kcalls k) k) = kConfig k"
  by (simp add: on_displays_def on_client_def)

lemma calls_only_refl [simp]: "calls_only k k"
  unfolding calls_only_def using with_calls_self [of k] by metis

lemma calls_only_made [simp]: "calls_only k k' \<Longrightarrow> calls_only k (calls_made c k')"
  by (auto simp: calls_only_def on_displays_def on_client_def vrj_call_made_def)

lemma calls_only_flags [simp]:
  "calls_only k (k'\<lparr>firstCluster := b\<rparr>) = calls_only k k'" "calls_only k (k'\<lparr>kernelPc := pc\<rparr>) = calls_only k k'"
  by (simp_all add: calls_only_def)

lemma calls_only_returns: "calls_only k k' \<Longrightarrow> reconfig_returns E k \<Longrightarrow> reconfig_returns E k'"
  by (auto simp: calls_only_def reconfig_returns_def on_displays_def on_client_def)

lemma call_on_sound_only: "call_on_sound c k' = Inr k'' \<Longrightarrow> calls_only k k' \<Longrightarrow> calls_only k k''"
  by (auto simp: call_on_sound_def split: option.splits)

lemma draw_frame_only: "draw_frame k' = Inr k'' \<Longrightarrow> calls_only k k' \<Longrightarrow> calls_only k k''"
  by (auto simp: draw_frame_def Let_def rbind_Inr_iff
    intro!: calls_only_made dest!: call_on_sound_only [where k = k])

lemma loop_frame_only:
  assumes "loop_frame active ready k = Inr k'"
  shows "calls_only k k' \<and> kernelPc k' = AtReconfig (active \<and> ready)"
  using assms
  by (auto simp: loop_frame_def Let_def rbind_Inr_iff simp del: kernel_flags on_displays_fields split: if_splits
    elim!: draw_frame_only)

lemma loop_frame_runs:
  assumes "mSoundManager k \<noteq> None"
  shows "\<exists>k'. loop_frame active ready k = Inr k'"
proof -
  obtain s where "mSoundManager k = Some s" using assms by blast
  then show ?thesis
    by (cases "active \<and> ready"; cases "firstCluster k"; cases "frame_due active ready k")
      (simp_all add: loop_frame_def draw_frame_def call_on_sound_def Let_def)
qed

lemma leave_calls:
  assumes "mApp k = Some a" and "prefix cs (kcalls k)"
  shows "\<exists>ds. kcalls (leaveApplication E None k) = cs @ ds @ [AppExit a]"
proof -
  have "prefix cs (kcalls (stopSoundManager (stopDrawManager k)))" using kext_stops assms(2) by blast
  then show ?thesis using assms(1) by (auto simp: leaveApplication_def Let_def prefix_def remove_handler_def [of None])
qed

lemma stop_at_reconfig:
  assumes "stopping E k" and pc: "kernelPc k = AtReconfig c"
  shows "\<exists>k'. control_step E active ready pressed k = Some (Inr k') \<and> kernelPc k' = AtUpdate c \<and> mExitFlag k'
    \<and> mApp k' = None \<and> app_exits k k'"
proof -
  have returns: "reconfig_returns E k" and exit: "mExitFlag k" "mNewAppSet k \<longrightarrow> mNewApp k = None"
      "mApp k \<noteq> None \<longrightarrow> mNewAppSet k"
    using assms by (auto simp: stopping_def)
  obtain cfg where cfg: "checkForReconfig (vrj_handlers E) (kConfig k) = Some (Inr cfg)"
    using returns with_calls_self [of k] unfolding reconfig_returns_def by metis
  have ext: "prefix (kcalls k) (vrjCalls (cDisplays (cmClient cfg)))"
    using vrj_called.checkForReconfig_keeps [OF cfg, of "kcalls k"] by (simp add: called_def)
  let ?k = "k\<lparr>kConfig := cfg\<rparr>"
  show ?thesis
  proof (cases "mApp k")
    case None
    have step: "control_step E active ready pressed k
      = Some (Inr ((if mNewAppSet k then ?k\<lparr>mNewAppSet := False\<rparr> else ?k)\<lparr>kernelPc := AtUpdate c\<rparr>))"
      using cfg exit None by (simp add: control_step_def pc kernelCheckForReconfig_def Let_def changeApplication_def)
    show ?thesis unfolding step using exit None ext by (auto intro!: app_exits_same)
  next
    case (Some a)
    let ?k' = "(leaveApplication E None (?k\<lparr>mNewAppSet := False\<rparr>))\<lparr>mApp := None, kernelPc := AtUpdate c\<rparr>"
    have step: "control_step E active ready pressed k = Some (Inr ?k')"
      using cfg exit Some by (simp add: control_step_def pc kernelCheckForReconfig_def Let_def changeApplication_def)
    obtain ds where "kcalls ?k' = kcalls k @ ds @ [AppExit a]"
      using leave_calls [of "?k\<lparr>mNewAppSet := False\<rparr>" a "kcalls k" E] Some ext by auto
    then have "app_exits k ?k'" using Some by (simp add: app_exits_def)
    then show ?thesis unfolding step using exit by simp
  qed
qed

lemma loop_update_facts:
  "mApp (loop_update c pressed k) = mApp k" "mSoundManager (loop_update c pressed k) = mSoundManager k"
  "kernelPc (loop_update c pressed k) = AtHead" "mExitFlag k \<Longrightarrow> mExitFlag (loop_update c pressed k)"
  "mNewAppSet k \<Longrightarrow> mNewAppSet (loop_update c pressed k)"
  "mNewApp k = None \<Longrightarrow> mNewApp (loop_update c pressed k) = None"
  by (simp_all add: loop_update_def Let_def checkSignalButtons_def kernel_stop_def setApplication_def)

lemma loop_update_returns: "reconfig_returns E k \<Longrightarrow> reconfig_returns E (loop_update c pressed k)"
proof -
  have "\<exists>calls. kConfig (loop_update c pressed k) = kConfig (with_calls calls k)"
    by (auto simp: loop_update_def Let_def checkSignalButtons_def kernel_stop_def setApplication_def
      on_displays_def on_client_def vrj_call_made_def)
  then show "reconfig_returns E k \<Longrightarrow> ?thesis"
    by (auto simp: reconfig_returns_def on_displays_def on_client_def)
qed

text \<open>Each step of the stopping control thread.\<close>

lemma stop_step:
  assumes "stopping E k" and "kernelPc k \<noteq> Exited"
  shows "\<exists>k'. control_step E active ready pressed k = Some (Inr k') \<and> stopping E k' \<and> app_exits k k'
    \<and> stop_steps (kernelPc k') (mApp k' \<noteq> None) < stop_steps (kernelPc k) (mApp k \<noteq> None)"
proof (cases "kernelPc k")
  case AtHead
  show ?thesis
  proof (cases "mApp k")
    case None
    have "app_exits k (loop_exit k)" using None by (auto simp: loop_exit_def intro: app_exits_same)
    then show ?thesis using assms AtHead None by (simp add: control_step_def loop_done_def stopping_def loop_exit_def)
  next
    case (Some a)
    obtain k' where frame: "loop_frame active ready k = Inr k'"
      using loop_frame_runs [of k active ready] assms(1) Some by (auto simp: stopping_def)
    have k': "calls_only k k'" "kernelPc k' = AtReconfig (active \<and> ready)" using loop_frame_only [OF frame] by simp_all
    then have "stopping E k'" using assms(1) Some calls_only_returns [OF k'(1)] by (simp add: stopping_def calls_only_def)
    moreover have "app_exits k k'" using k'(1) kext_frame [OF frame] by (auto simp: calls_only_def intro: app_exits_same)
    moreover have "mApp k' = Some a" using k'(1) Some by (simp add: calls_only_def)
    ultimately show ?thesis using frame AtHead Some k'(2) by (simp add: control_step_def loop_done_def)
  qed
next
  case (AtReconfig c)
  obtain k' where "control_step E active ready pressed k = Some (Inr k')" "kernelPc k' = AtUpdate c" "mExitFlag k'"
      "mApp k' = None" "app_exits k k'"
    using stop_at_reconfig [OF assms(1) AtReconfig] by blast
  then show ?thesis using AtReconfig by (simp add: stopping_def)
next
  case (AtUpdate c)
  have "stopping E (loop_update c pressed k)"
    using assms(1) by (simp add: stopping_def loop_update_facts loop_update_returns)
  moreover have "app_exits k (loop_update c pressed k)"
    by (rule app_exits_same) (simp_all add: kext_update loop_update_facts)
  ultimately show ?thesis using AtUpdate by (simp add: control_step_def loop_update_facts)
qed (use assms(2) in simp)

lemma stopping_run:
  assumes "stopping E k" and "stop_steps (kernelPc k) (mApp k \<noteq> None) \<le> length inputs"
  shows "\<exists>k'. control_run E inputs k = Some (Inr k') \<and> kernelPc k' = Exited \<and> stopping E k' \<and> app_exits k k'"
  using assms
proof (induction inputs arbitrary: k)
  case Nil
  then have "kernelPc k = Exited" by (cases "kernelPc k") (auto split: if_splits)
  then show ?case using Nil.prems(1) by (simp add: app_exits_same)
next
  case (Cons i inputs)
  obtain active ready pressed where i: "i = (active, ready, pressed)" by (cases i)
  obtain k' where k': "control_step E active ready pressed k = Some (Inr k')" "stopping E k'" "app_exits k k'"
      "stop_steps (kernelPc k') (mApp k' \<noteq> None) \<le> length inputs"
  proof (cases "kernelPc k = Exited")
    case True
    then show ?thesis using that [of k] Cons.prems(1) by (simp add: control_step_def app_exits_same)
  next
    case False
    then show ?thesis using stop_step [OF Cons.prems(1), of active ready pressed] Cons.prems(2) that by fastforce
  qed
  then show ?case using Cons.IH [OF k'(2,4)] app_exits_trans [OF k'(3)] i by auto
qed


section \<open>The handlers an application leaves behind\<close>

abbreviation kernel_handlers :: "'e vrj_kernel \<Rightarrow> nat list" where
  "kernel_handlers k \<equiv> mElementHandlers (kConfig k)"

lemma on_displays_handlers [simp]: "kernel_handlers (on_displays f k) = kernel_handlers k"
  by (simp add: on_displays_def on_client_def)

lemma stopped_handlers [simp]:
  "kernel_handlers (stopDrawManager k) = kernel_handlers k" "kernel_handlers (stopSoundManager k) = kernel_handlers k"
  by (simp_all add: stopDrawManager_def stopSoundManager_def split: option.split)

lemma add_handler_list [simp]: "kernel_handlers (add_handler h k) = kernel_handlers k @ [h]"
  by (simp add: add_handler_def addConfigElementHandler_def)

text \<open>The managers are set to null before they are to be removed, so only the application goes.\<close>

lemma leave_all_handlers:
  "mApp k = Some a \<Longrightarrow> kernel_handlers (leaveApplication E None k) = remove1 a (kernel_handlers k)"
  by (simp add: leaveApplication_def Let_def) (simp add: remove_handler_def removeConfigElementHandler_def)

lemma startDrawManager_handlers:
  assumes "startDrawManager E newMgr k = Inr k'" and "cm_inv (kConfig k)"
  shows "kernel_handlers k' = kernel_handlers k"
proof -
  obtain a d where app: "mApp k = Some a" "mDrawManager k = Some d"
    using assms(1) by (auto simp: startDrawManager_def split: option.splits)
  show ?thesis
  proof (cases newMgr)
    case False
    then show ?thesis using assms(1) app by (auto simp: startDrawManager_def Let_def split: if_splits)
  next
    case True
    have run: "startDrawManager E True k = Inr k'" using assms(1) True by simp
    obtain n cfg where pass: "configProcessPending (vrj_handlers E) d ((kConfig k)\<lparr>mPendingLock := True\<rparr>) = Inr (n, cfg)"
      and set: "if drawManagerAccepts E d a
       then try_displays (setDrawManager (asksDisplaySystem E) (kConfig (begun d a (k\<lparr>kConfig := unlockPending cfg\<rparr>))) (Some d))
            (begun d a (k\<lparr>kConfig := unlockPending cfg\<rparr>)) = Inr k'
       else k' = calls_made (SetApp d a) (k\<lparr>kConfig := unlockPending cfg\<rparr>)"
      by (rule startDrawManager_new [OF run app])
    show ?thesis using set locked_pass(2) [OF assms(2) pass]
      by (auto simp: try_displays_def rbind_Inr_iff begun_def unlockPending_def split: if_splits)
  qed
qed

lemma remove1_count: "x \<noteq> a \<Longrightarrow> count_list (remove1 a xs) x = count_list xs x"
  by (induction xs) auto

lemma refreshPendingList_handlers: "refreshPendingList st = Inr st' \<Longrightarrow> mElementHandlers st' = mElementHandlers st"
  by (auto simp: refreshPendingList_def lockCount_def unlockCount_def rbind_Inr_iff split: if_splits)

lemma enter_first_handlers:
  assumes "enterApplication E a k = Inr k'" and "cm_inv (kConfig k)" and "mDrawManager k = None"
    and "getDrawManager E a = Some d" and "getSoundManager E a = Some s"
  shows "kernel_handlers k' = kernel_handlers k @ [d, s, a] \<or> kernel_handlers k' = kernel_handlers k @ [d, a]"
proof -
  let ?k = "add_handler d (k\<lparr>mDrawManager := Some d\<rparr>)"
  obtain k1 cfg where start: "startDrawManager E True ?k = Inr k1"
      and refresh: "refreshPendingList (kConfig (with_sound E a k1)) = Inr cfg" and k': "k' = (with_sound E a k1)\<lparr>kConfig := cfg\<rparr>"
    by (rule enterApplication_start [OF assms(1)]) (use assms(3,4) in auto)
  have "kernel_handlers k1 = kernel_handlers ?k" by (rule startDrawManager_handlers [OF start]) (use assms(2) in simp)
  then show ?thesis using refreshPendingList_handlers [OF refresh] assms(5) by (simp add: k' with_sound_def)
qed

section \<open>An application its draw manager rejects\<close>

text \<open>
  The exception is caught with a warning: neither \<^verbatim>\<open>init\<close> nor \<^verbatim>\<open>apiInit\<close> is called, no display
  is shown, and yet the application becomes the current one.
\<close>

lemma startDrawManager_rejected:
  assumes run: "startDrawManager E True k = Inr k'" and client: "client_ok None None (kernel_client k)"
    and app: "mApp k = Some a" "mDrawManager k = Some d" and "\<not> drawManagerAccepts E d a"
  shows "life (kcalls k') = Some (Offered d a) \<and> dispDrawManager (cDisplays (kernel_client k')) = None
    \<and> mApp k' = Some a \<and> mDrawManager k' = Some d"
proof -
  obtain n cfg where pass: "configProcessPending (vrj_handlers E) d ((kConfig k)\<lparr>mPendingLock := True\<rparr>) = Inr (n, cfg)"
      and k': "k' = calls_made (SetApp d a) (k\<lparr>kConfig := unlockPending cfg\<rparr>)"
    using startDrawManager_new [OF run app] assms(5) by (metis (full_types))
  have "client_ok None None (cmClient cfg)"
    using vrj.configProcessPending_keeps [OF pass, of None None] client by simp
  then show ?thesis using app by (simp add: k' unlockPending_def client_ok_def alive_def)
qed

lemma rejected_application_stays:
  assumes inv: "kernel_inv E k" "mApp k = None" and managers: "getDrawManager E a = Some d" "getSoundManager E a = Some s"
    and "\<not> drawManagerAccepts E d a" and run: "changeApplication E (Some a) k = Inr k'"
  shows "mApp k' = Some a \<and> mDrawManager k' = Some d \<and> mSoundManager k' = Some s
    \<and> life (kcalls k') = Some (Offered d a) \<and> dispDrawManager (cDisplays (kernel_client k')) = None"
proof -
  let ?k = "(leaveApplication E (Some a) k)\<lparr>mApp := Some a\<rparr>"
  have none: "mDrawManager k = None" using inv by (simp add: kernel_inv_def)
  have "between_apps ?k" "mDrawManager ?k = None"
    using leaveApplication_ok [OF inv(1), of "Some a"] none by simp_all
  then have k: "client_ok None None (kernel_client (add_handler d (?k\<lparr>mDrawManager := Some d\<rparr>)))" "mDrawManager ?k = None"
    by (simp_all add: between_apps_def client_ok_def alive_def)
  have "enterApplication E a ?k = Inr k'" using run inv(2) by (simp add: changeApplication_def)
  then obtain k1 cfg where start: "startDrawManager E True (add_handler d (?k\<lparr>mDrawManager := Some d\<rparr>)) = Inr k1"
      and refresh: "refreshPendingList (kConfig (with_sound E a k1)) = Inr cfg" and k': "k' = (with_sound E a k1)\<lparr>kConfig := cfg\<rparr>"
    by (rule enterApplication_start) (use managers(1) k(2) in auto)
  have "life (kcalls k1) = Some (Offered d a) \<and> dispDrawManager (cDisplays (kernel_client k1)) = None
      \<and> mApp k1 = Some a \<and> mDrawManager k1 = Some d"
    by (rule startDrawManager_rejected [OF start k(1)]) (use assms(5) in simp_all)
  then show ?thesis using refreshPendingList_client [OF refresh] managers(2) by (simp add: k' with_sound_def)
qed

text \<open>The next pass through the loop shows it a whole frame, against the contract.\<close>

lemma loop_frame_calls:
  assumes "mApp k = Some a" and "mDrawManager k = Some d" and "mSoundManager k = Some s"
  shows "\<exists>k'. loop_frame False ready k = Inr k' \<and> kcalls k' = kcalls k @ frame_calls a d s False"
proof -
  have "loop_frame False ready k = rbind (draw_frame (calls_made (PreFrame a) k)) (\<lambda>k. Inr (k\<lparr>kernelPc := AtReconfig False\<rparr>))"
    using assms by (simp add: loop_frame_def frame_due_def Let_def)
  then show ?thesis
    using draw_frame_calls [of "calls_made (PreFrame a) k" a d s] assms by (simp add: frame_calls_def)
qed

lemma rejected_application_runs:
  assumes "kernel_inv E k" and "mApp k = None" and "getDrawManager E a = Some d" and "getSoundManager E a = Some s"
    and "\<not> drawManagerAccepts E d a" and "changeApplication E (Some a) k = Inr k1"
  shows "\<exists>k2. loop_frame False ready k1 = Inr k2 \<and> life (kcalls k2) = None"
proof -
  note k1 = rejected_application_stays [OF assms]
  obtain k2 where "loop_frame False ready k1 = Inr k2" "kcalls k2 = kcalls k1 @ frame_calls a d s False"
    using loop_frame_calls [of k1 a d s ready] k1 by blast
  then show ?thesis using k1 by (simp add: life_append frame_calls_def)
qed

text \<open>
  The kernel sets its draw manager to null before it asks the configuration manager to
  remove it, so a stopped draw manager stays a handler: closing an application and starting it
  again registers its draw manager once more each time.
\<close>

lemma stopped_manager_stays_handler:
  assumes inv: "kernel_inv E k" and app: "mApp k = Some a" "mDrawManager k = Some d" "mSoundManager k = Some s" "distinct [a, d, s]"
    and change: "changeApplication E None k = Inr k1" "changeApplication E (Some a) k1 = Inr k2"
  shows "count_list (kernel_handlers k1) d = count_list (kernel_handlers k) d
    \<and> count_list (kernel_handlers k2) d = count_list (kernel_handlers k) d + 1"
proof -
  have E: "getDrawManager E a = Some d" "getSoundManager E a = Some s" using inv app by (simp_all add: kernel_inv_def)
  have k1: "k1 = (leaveApplication E None k)\<lparr>mApp := None\<rparr>" using change(1) app(1) by (simp add: changeApplication_def)
  have none: "mDrawManager k1 = None" "mSoundManager k1 = None" "mApp k1 = None" "cm_inv (kConfig k1)"
      "kernel_handlers k1 = remove1 a (kernel_handlers k)"
    using leaveApplication_ok [OF inv, of None] leave_all_handlers [OF app(1), of E] by (simp_all add: k1 between_apps_def)
  have "leaveApplication E (Some a) k1 = k1" using none by (simp add: leaveApplication_def)
  then have "enterApplication E a (k1\<lparr>mApp := Some a\<rparr>) = Inr k2"
    using change(2) none by (simp add: changeApplication_def)
  from enter_first_handlers [OF this _ _ E] have
    "kernel_handlers k2 = kernel_handlers k1 @ [d, s, a] \<or> kernel_handlers k2 = kernel_handlers k1 @ [d, a]"
    using none by simp
  then have "count_list (kernel_handlers k2) d = count_list (kernel_handlers k1) d + 1"
    using app(4) by (auto simp: count_list_append)
  moreover have "count_list (kernel_handlers k1) d = count_list (kernel_handlers k) d"
    using none(5) app(4) by (simp add: remove1_count)
  ultimately show ?thesis by simp
qed

section \<open>A kernel with one application\<close>

definition example_env :: "unit vrj_env" where
  "example_env =
     \<lparr>others = \<lparr>configCanHandle = \<lambda>h e. False, configAdd = \<lambda>h e cfg c. Inr (False, [], c),
        configRemove = \<lambda>h e cfg c. Inr (False, [], c), mConfigurationSignal = \<lambda>cfg t c. Inr c\<rparr>,
      displayActive = \<lambda>e. True, appDepSatisfied = \<lambda>a c. True, getDrawManager = \<lambda>a. Some 20,
      getSoundManager = \<lambda>a. Some 30, drawManagerAccepts = \<lambda>d a. a = 10, asksDisplaySystem = \<lambda>d. False\<rparr>"

definition example_started :: "unit vrj_kernel" where
  "example_started = snd (kernel_start ((kernel_new () [])\<lparr>mNewApp := Some 10, mNewAppSet := True\<rparr>))"

lemmas kernel_eval = example_env_def example_started_def kernel_start_def kernel_new_def initConfig_def
  control_step_def loop_frame_def frame_due_def kernelCheckForReconfig_def checkForReconfig.simps
  changeApplication_def leaveApplication_def enterApplication_def startDrawManager_def stopDrawManager_def
  stopSoundManager_def add_handler_def remove_handler_def addConfigElementHandler_def removeConfigElementHandler_def
  kernel_id_def input_manager_id_def cluster_manager_id_def display_manager_id_def setDrawManager_def try_displays_def
  display_manager_new_def loop_done_def loop_update_def checkSignalButtons_def draw_frame_def call_on_sound_def
  kernel_calls cm_eval

lemmas display_eval = vrj_handlers_def kernelCanHandle_def displayCanHandle_def display_handler_def
  displayConfigAdd_def configAddDisplay_def findDisplayNamed_def display_create_def addDisplay_def tell_display_def

definition example_running :: "display list \<Rightarrow> vrj_call list \<Rightarrow> config_element list \<Rightarrow> nat \<Rightarrow> unit vrj_kernel" where
  "example_running displays calls active pending_size =
     \<lparr>mApp = Some 10, mNewApp = Some 10, mNewAppSet = False, mIsRunning = True, mExitFlag = False,
      mDrawManager = Some 20, mSoundManager = Some 30, firstCluster = True, kernelPc = AtHead,
      kConfig = (config_manager_new \<lparr>cDisplays = display_manager_new
          \<lparr>mActiveDisplays := displays, dispDrawManager := Some 20, nextDisplay := length displays, vrjCalls := calls\<rparr>,
          mUsers = [], cOther = ()\<rparr>)
        \<lparr>mActiveConfig := active, mElementHandlers := [0, 1, 2, 3, 20, 30, 10], mLastPendingSize := pending_size\<rparr>\<rparr>"

abbreviation "update_calls \<equiv> [InputReset, InputUpdateDevices, InputUpdateProxies]"
abbreviation "begin_calls \<equiv> [SetApp 20 10, AppInit 10, InitAPI 20, AppApiInit 10] @ update_calls"
abbreviation "example_window \<equiv> \<lparr>getName = ''window'', getID = ''display_window'', getElementPtrDependencies = []\<rparr>"
abbreviation "example_display \<equiv> \<lparr>dispId = 0, dispName = ''window'', isActive = True\<rparr>"

lemma run_reach:
  "reach kernel_started (kernel_step E) k \<Longrightarrow> control_run E inputs k = Some (Inr k') \<Longrightarrow> reach kernel_started (kernel_step E) k'"
proof (induction inputs arbitrary: k)
  case (Cons i inputs)
  obtain active ready pressed where i: "i = (active, ready, pressed)" by (cases i)
  with Cons.prems(2) obtain k1 where "control_step E active ready pressed k = Some (Inr k1)"
      "control_run E inputs k1 = Some (Inr k')"
    by (auto split: option.splits sum.splits)
  then show ?case using Cons.IH reach.reach_step [OF Cons.prems(1) step_control] by blast
qed simp

abbreviation "no_input \<equiv> (False, False, False)"

lemma example_running_reach:
  "reach kernel_started (kernel_step example_env) (example_running [] begin_calls [] 0)"
proof (rule run_reach)
  show "reach kernel_started (kernel_step example_env) example_started"
    by (rule reach.intros) (auto simp: kernel_started_def example_started_def)
  show "control_run example_env [no_input, no_input, no_input] example_started
      = Some (Inr (example_running [] begin_calls [] 0))"
    by (simp add: kernel_eval example_running_def)
qed

abbreviation "window_calls \<equiv>
  begin_calls @ frame_calls 10 20 30 False @ AddDisplay 20 example_display # update_calls"

lemma example_window_reach:
  "reach kernel_started (kernel_step example_env) (example_running [example_display] window_calls [example_window] 0)"
proof (rule run_reach)
  let ?k = "example_running [] begin_calls [] 0"
  show "reach kernel_started (kernel_step example_env) (?k\<lparr>kConfig := addConfigElement example_window ADD (kConfig ?k)\<rparr>)"
    by (rule reach.reach_step [OF example_running_reach step_element])
  show "control_run example_env [no_input, no_input, no_input] (?k\<lparr>kConfig := addConfigElement example_window ADD (kConfig ?k)\<rparr>)
      = Some (Inr (example_running [example_display] window_calls [example_window] 0))"
    by (simp add: kernel_eval display_eval example_running_def frame_calls_def)
qed

section \<open>Properties\<close>

text \<open>
  C12. As long as no draw manager has rejected an application it was given, the calls the
  kernel makes follow the contract of the application interface, whatever other threads set,
  stop and request: in every reachable state the current application has been given to its
  draw manager, initialised before and after the graphics interface and shown whole frames
  only, and every earlier one has been told to exit.
\<close>
theorem application_life_cycle:
  assumes "reach kernel_started (kernel_step E) k"
    and "\<forall>d a. SetApp d a \<in> set (kcalls k) \<longrightarrow> drawManagerAccepts E d a"
  shows "life (kcalls k) = Some (case mApp k of None \<Rightarrow> NoApp | Some a \<Rightarrow> Ready (the (mDrawManager k)) a)"
proof -
  have "kernel_inv E k" using kernel_reach_inv [OF assms(1)] assms(2) by (simp add: accepted_def)
  then show ?thesis by (auto simp: kernel_inv_def client_ok_def alive_def split: option.splits)
qed

theorem application_life_cycle_witness:
  "let k = example_running [example_display] window_calls [example_window] 0 in
   life (kcalls k) = Some (Ready 20 10) \<and> \<not> drawManagerAccepts example_env 20 11"
proof -
  have "\<forall>d a. SetApp d a \<in> set window_calls \<longrightarrow> drawManagerAccepts example_env d a"
    by (auto simp: frame_calls_def example_env_def)
  then show ?thesis
    using application_life_cycle [OF example_window_reach]
    unfolding Let_def by (simp add: example_running_def config_manager_new_def) (simp add: example_env_def)
qed

text \<open>
  C28. In every reachable state the draw manager the display manager tells of its displays has
  a window for exactly the active displays and every other draw manager has none; it is the
  kernel's draw manager or nobody, and the kernel's if no draw manager has rejected an
  application.  Display names are unique.  Removing an element the display manager handles
  fails no assertion, and adding one fails only if the kernel's draw manager asks for the
  display system: with the lock taken twice, or because there is none.
\<close>
theorem windows_show_displays:
  assumes "reach kernel_started (kernel_step E) k" and "displayCanHandle el"
  shows "windows d (kcalls k) = Inr (if dispDrawManager (cDisplays (kernel_client k)) = Some d
        then mActiveDisplays (cDisplays (kernel_client k)) else [])
    \<and> (dispDrawManager (cDisplays (kernel_client k)) = None
       \<or> dispDrawManager (cDisplays (kernel_client k)) = mDrawManager k)
    \<and> (accepted E (kcalls k) \<longrightarrow> dispDrawManager (cDisplays (kernel_client k)) = mDrawManager k)
    \<and> distinct (map dispName (getAllDisplays (cDisplays (kernel_client k))))
    \<and> (\<exists>b dm. displayConfigRemove el (cDisplays (kernel_client k)) = Inr (b, dm))
    \<and> (\<forall>e. displayConfigAdd (asksDisplaySystem E) (kConfig k) (displayActive E) el (cDisplays (kernel_client k)) = Inl e
         \<longrightarrow> (\<exists>m. mDrawManager k = Some m \<and> asksDisplaySystem E m \<and> e \<in> {deadlock, no_display_system}))"
proof -
  let ?dm = "cDisplays (kernel_client k)"
  have inv: "displays_inv k" by (rule displays.reach_inv [OF assms(1)])
  then have ok: "display_ok ?dm" and "dispDrawManager ?dm = None \<or> dispDrawManager ?dm = mDrawManager k"
    by (simp_all add: displays_inv_def)
  moreover have "accepted E (kcalls k) \<longrightarrow> dispDrawManager ?dm = mDrawManager k"
    using kernel_reach_inv [OF assms(1)] by (simp add: kernel_inv_def client_ok_def)
  moreover have "\<exists>b dm. displayConfigRemove el ?dm = Inr (b, dm)" using displayConfigRemove_ok [OF ok assms(2)] by blast
  ultimately show ?thesis
    using displayConfigAdd_ok [OF ok assms(2), of "asksDisplaySystem E" "kConfig k" "displayActive E"]
    by (auto simp: display_ok_def)
qed

theorem windows_show_displays_witness:
  "let k = example_running [example_display] window_calls [example_window] 0 in
   windows 20 (kcalls k) = Inr [example_display]"
proof -
  have "displayCanHandle example_window" by (simp add: displayCanHandle_def)
  then show ?thesis
    using windows_show_displays [OF example_window_reach, of example_window 20]
    unfolding Let_def by (simp add: example_running_def config_manager_new_def)
qed



end
