(* ===== verification/GlFrame.thy ===== *)
theory GlFrame
  imports Prelude
begin

text \<open>
  The threads of the OpenGL draw manager (\<^verbatim>\<open>vrj/Draw/OpenGL/DrawManager.cpp\<close> and
  \<^verbatim>\<open>Pipe.cpp\<close>): the kernel's thread triggers a frame and waits for it, the draw manager's
  thread passes it on to the pipes, and each pipe's thread renders and swaps the windows it has
  open.  They meet in semaphores.  A step is what a thread does up to its next wait or access of
  data another thread uses; a thread that waits on a semaphore, or that yields until a flag
  changes, has no step.

  Pipes are numbered as in \<^verbatim>\<open>pipes\<close>; windows are numbers, and whether the window system opens
  one is an argument, as is whether the cluster is ready when a pipe asks.
\<close>

datatype pipe_pc = PStart | PHead | PRenderWait | PRender | PSwapWait | PSwap | PClose | PNew | PEnd

record gl_pipe =
  pPc :: pipe_pc
  mThreadRunning :: bool
  mControlExit :: bool
  mRenderTriggerSema :: nat
  mRenderCompleteSema :: nat
  mSwapTriggerSema :: nat
  mSwapCompleteSema :: nat
  mNewWins :: "nat list"
  mOpenWins :: "nat list"
  mClosingWins :: "nat list"

text \<open>
  The kernel's thread: between frames, between \<^verbatim>\<open>draw\<close> and \<^verbatim>\<open>sync\<close> where \<^verbatim>\<open>intraFrame\<close>
  runs, and in \<^verbatim>\<open>closeAPI\<close>; the draw manager's thread in \<^verbatim>\<open>main\<close> and \<^verbatim>\<open>drawAllPipes\<close>.
\<close>

datatype gl_kernel_pc = KBetween | KIntra | KCloseWait | KJoin | KStop nat | KStopRender nat | KStopSwap nat
  | KStopJoin nat | KClosed

datatype gl_draw_pc = DWait | DCheck | DRender nat | DRenderWait nat | DSwap nat | DSwapWait nat | DDone | DStop | DEnd

record gl_state =
  kPc :: gl_kernel_pc
  dPc :: gl_draw_pc
  mRunning :: bool
  drawTriggerSema :: nat
  drawDoneSema :: nat
  mWins :: "(nat \<times> nat) list"
  pipes :: "gl_pipe list"

definition pipe_new :: gl_pipe where
  "pipe_new = \<lparr>pPc = PStart, mThreadRunning = False, mControlExit = False, mRenderTriggerSema = 0,
     mRenderCompleteSema = 0, mSwapTriggerSema = 0, mSwapCompleteSema = 0, mNewWins = [], mOpenWins = [],
     mClosingWins = []\<rparr>"

text \<open>\<^verbatim>\<open>initAPI\<close>: the control thread is started.\<close>

definition initAPI :: gl_state where
  "initAPI = \<lparr>kPc = KBetween, dPc = DWait, mRunning = True, drawTriggerSema = 0, drawDoneSema = 0, mWins = [], pipes = []\<rparr>"

definition upd_pipe :: "nat \<Rightarrow> (gl_pipe \<Rightarrow> gl_pipe) \<Rightarrow> gl_state \<Rightarrow> gl_state" where
  "upd_pipe i f st = st\<lparr>pipes := (pipes st)[i := f (pipes st ! i)]\<rparr>"

section \<open>A pipe's thread\<close>

definition addWindow :: "nat \<Rightarrow> gl_pipe \<Rightarrow> gl_pipe" where
  "addWindow w p = p\<lparr>mNewWins := mNewWins p @ [w]\<rparr>"

definition removeWindow :: "nat \<Rightarrow> gl_pipe \<Rightarrow> gl_pipe" where
  "removeWindow w p = p\<lparr>mClosingWins := mClosingWins p @ [w]\<rparr>"

text \<open>\<^verbatim>\<open>Pipe::stop\<close> up to the triggers.\<close>

definition pipe_stop :: "gl_pipe \<Rightarrow> gl_pipe" where
  "pipe_stop p = (foldl (\<lambda>p w. removeWindow w p) p (mOpenWins p))\<lparr>mControlExit := True\<rparr>"

definition checkForWindowsToClose :: "gl_pipe \<Rightarrow> gl_pipe" where
  "checkForWindowsToClose p =
     p\<lparr>mNewWins := filter (\<lambda>w. w \<notin> set (mClosingWins p)) (mNewWins p),
       mOpenWins := filter (\<lambda>w. w \<notin> set (mClosingWins p)) (mOpenWins p), mClosingWins := []\<rparr>"

definition checkForNewWindows :: "(nat \<Rightarrow> bool) \<Rightarrow> gl_pipe \<Rightarrow> gl_pipe" where
  "checkForNewWindows opens p = p\<lparr>mOpenWins := mOpenWins p @ filter opens (mNewWins p), mNewWins := []\<rparr>"

definition pipe_step :: "(nat \<Rightarrow> bool) \<Rightarrow> bool \<Rightarrow> gl_pipe \<Rightarrow> gl_pipe option" where
  "pipe_step opens cluster p =
     (case pPc p of
        PStart \<Rightarrow> Some (p\<lparr>mThreadRunning := True, pPc := PHead\<rparr>)
      | PHead \<Rightarrow> Some (if mControlExit p then p\<lparr>mThreadRunning := False, pPc := PEnd\<rparr>
                      else p\<lparr>pPc := if cluster then PRenderWait else PClose\<rparr>)
      | PRenderWait \<Rightarrow> if mRenderTriggerSema p > 0
                      then Some (p\<lparr>mRenderTriggerSema := mRenderTriggerSema p - 1, pPc := PRender\<rparr>) else None
      | PRender \<Rightarrow> Some (p\<lparr>mRenderCompleteSema := mRenderCompleteSema p + 1, pPc := PSwapWait\<rparr>)
      | PSwapWait \<Rightarrow> if mSwapTriggerSema p > 0
                    then Some (p\<lparr>mSwapTriggerSema := mSwapTriggerSema p - 1, pPc := PSwap\<rparr>) else None
      | PSwap \<Rightarrow> Some (p\<lparr>mSwapCompleteSema := mSwapCompleteSema p + 1, pPc := PClose\<rparr>)
      | PClose \<Rightarrow> Some ((checkForWindowsToClose p)\<lparr>pPc := PNew\<rparr>)
      | PNew \<Rightarrow> Some ((checkForNewWindows opens p)\<lparr>pPc := PHead\<rparr>)
      | PEnd \<Rightarrow> None)"

section \<open>The draw manager's thread\<close>

text \<open>\<^verbatim>\<open>triggerRender\<close> yields until the pipe's thread runs; the others assert it.\<close>

definition running_asserted :: "gl_pipe \<Rightarrow> gl_state option \<Rightarrow> gl_state result option" where
  "running_asserted p next_st =
     (if mThreadRunning p then map_option Inr next_st else Some (Inl (AssertionFailed ''mThreadRunning == true'')))"

definition triggerRender :: "nat \<Rightarrow> gl_state \<Rightarrow> gl_state option" where
  "triggerRender i st =
     (if mThreadRunning (pipes st ! i)
      then Some (upd_pipe i (\<lambda>p. p\<lparr>mRenderTriggerSema := mRenderTriggerSema p + 1\<rparr>) st) else None)"

definition completeRender :: "nat \<Rightarrow> gl_state \<Rightarrow> gl_state result option" where
  "completeRender i st = running_asserted (pipes st ! i)
     (if mRenderCompleteSema (pipes st ! i) > 0
      then Some (upd_pipe i (\<lambda>p. p\<lparr>mRenderCompleteSema := mRenderCompleteSema p - 1\<rparr>) st) else None)"

definition triggerSwap :: "nat \<Rightarrow> gl_state \<Rightarrow> gl_state result option" where
  "triggerSwap i st = running_asserted (pipes st ! i)
     (Some (upd_pipe i (\<lambda>p. p\<lparr>mSwapTriggerSema := mSwapTriggerSema p + 1\<rparr>) st))"

definition completeSwap :: "nat \<Rightarrow> gl_state \<Rightarrow> gl_state result option" where
  "completeSwap i st = running_asserted (pipes st ! i)
     (if mSwapCompleteSema (pipes st ! i) > 0
      then Some (upd_pipe i (\<lambda>p. p\<lparr>mSwapCompleteSema := mSwapCompleteSema p - 1\<rparr>) st) else None)"

definition goes_to :: "gl_draw_pc \<Rightarrow> gl_state result option \<Rightarrow> gl_state result option" where
  "goes_to pc r = map_option (\<lambda>r. rbind r (\<lambda>st. Inr (st\<lparr>dPc := pc\<rparr>))) r"

definition draw_step :: "gl_state \<Rightarrow> gl_state result option" where
  "draw_step st =
     (case dPc st of
        DWait \<Rightarrow> if drawTriggerSema st > 0
                then Some (Inr (st\<lparr>drawTriggerSema := drawTriggerSema st - 1, dPc := DCheck\<rparr>)) else None
      | DCheck \<Rightarrow> Some (Inr (st\<lparr>dPc := if mRunning st then DRender 0 else DStop\<rparr>))
      | DRender i \<Rightarrow> if i < length (pipes st) then goes_to (DRender (i + 1)) (map_option Inr (triggerRender i st))
                    else Some (Inr (st\<lparr>dPc := DRenderWait 0\<rparr>))
      | DRenderWait i \<Rightarrow> if i < length (pipes st) then goes_to (DRenderWait (i + 1)) (completeRender i st)
                        else Some (Inr (st\<lparr>dPc := DSwap 0\<rparr>))
      | DSwap i \<Rightarrow> if i < length (pipes st) then goes_to (DSwap (i + 1)) (triggerSwap i st)
                  else Some (Inr (st\<lparr>dPc := DSwapWait 0\<rparr>))
      | DSwapWait i \<Rightarrow> if i < length (pipes st) then goes_to (DSwapWait (i + 1)) (completeSwap i st)
                      else Some (Inr (st\<lparr>dPc := DDone\<rparr>))
      | DDone \<Rightarrow> Some (Inr (st\<lparr>drawDoneSema := drawDoneSema st + 1, dPc := DWait\<rparr>))
      | DStop \<Rightarrow> Some (Inr (st\<lparr>drawDoneSema := drawDoneSema st + 1, dPc := DEnd\<rparr>))
      | DEnd \<Rightarrow> None)"

section \<open>The kernel's thread\<close>

definition gl_draw :: "gl_state \<Rightarrow> gl_state" where
  "gl_draw st = st\<lparr>drawTriggerSema := drawTriggerSema st + 1, kPc := KIntra\<rparr>"

definition gl_sync :: "gl_state \<Rightarrow> gl_state option" where
  "gl_sync st = (if drawDoneSema st > 0 then Some (st\<lparr>drawDoneSema := drawDoneSema st - 1, kPc := KBetween\<rparr>) else None)"

text \<open>A display's window goes to the pipe its element names; missing pipes are started.\<close>

definition gl_addDisplay :: "nat \<Rightarrow> nat \<Rightarrow> gl_state \<Rightarrow> gl_state" where
  "gl_addDisplay w pipe_num st =
     (let st = st\<lparr>mWins := mWins st @ [(w, pipe_num)],
                 pipes := pipes st @ replicate (pipe_num + 1 - length (pipes st)) pipe_new\<rparr> in
      upd_pipe pipe_num (addWindow w) st)"

definition gl_removeDisplay :: "nat \<Rightarrow> nat \<Rightarrow> gl_state \<Rightarrow> gl_state" where
  "gl_removeDisplay w pipe_num st =
     (upd_pipe pipe_num (removeWindow w) st)
       \<lparr>mWins := removeAll (w, pipe_num) (mWins st)\<rparr>"

text \<open>\<^verbatim>\<open>closeAPI\<close>, and \<^verbatim>\<open>Pipe::stop\<close> of one pipe after the other.\<close>

definition gl_close :: "gl_state \<Rightarrow> gl_state" where
  "gl_close st = st\<lparr>mRunning := False, drawTriggerSema := drawTriggerSema st + 1, kPc := KCloseWait\<rparr>"

definition close_step :: "gl_state \<Rightarrow> gl_state result option" where
  "close_step st =
     (case kPc st of
        KCloseWait \<Rightarrow> if drawDoneSema st > 0
                     then Some (Inr (st\<lparr>drawDoneSema := drawDoneSema st - 1, kPc := KJoin\<rparr>)) else None
      | KJoin \<Rightarrow> if dPc st = DEnd then Some (Inr (st\<lparr>kPc := KStop 0\<rparr>)) else None
      | KStop i \<Rightarrow> if i < length (pipes st)
                  then Some (Inr ((upd_pipe i pipe_stop st)\<lparr>kPc := KStopRender i\<rparr>))
                  else Some (Inr (st\<lparr>pipes := [], mWins := [], kPc := KClosed\<rparr>))
      | KStopRender i \<Rightarrow> map_option (\<lambda>st. Inr (st\<lparr>kPc := KStopSwap i\<rparr>)) (triggerRender i st)
      | KStopSwap i \<Rightarrow> map_option (\<lambda>r. rbind r (\<lambda>st. Inr (st\<lparr>kPc := KStopJoin i\<rparr>))) (triggerSwap i st)
      | KStopJoin i \<Rightarrow> if pPc (pipes st ! i) = PEnd then Some (Inr (st\<lparr>kPc := KStop (i + 1)\<rparr>)) else None
      | _ \<Rightarrow> None)"

text \<open>The worker threads, and all threads.\<close>

inductive gl_worker :: "(nat \<Rightarrow> bool) \<Rightarrow> bool \<Rightarrow> gl_state \<Rightarrow> gl_state \<Rightarrow> bool" for opens cluster where
  worker_draw: "draw_step st = Some (Inr st') \<Longrightarrow> gl_worker opens cluster st st'"
| worker_pipe: "i < length (pipes st) \<Longrightarrow> pipe_step opens cluster (pipes st ! i) = Some p \<Longrightarrow>
    gl_worker opens cluster st (upd_pipe i (\<lambda>_. p) st)"

inductive gl_step :: "(nat \<Rightarrow> bool) \<Rightarrow> gl_state \<Rightarrow> gl_state \<Rightarrow> bool" for opens where
  gl_workers: "gl_worker opens cluster st st' \<Longrightarrow> gl_step opens st st'"
| gl_triggers: "kPc st = KBetween \<Longrightarrow> gl_step opens st (gl_draw st)"
| gl_syncs: "kPc st = KIntra \<Longrightarrow> gl_sync st = Some st' \<Longrightarrow> gl_step opens st st'"
| gl_adds: "kPc st = KBetween \<Longrightarrow> gl_step opens st (gl_addDisplay w i st)"
| gl_removes: "kPc st = KBetween \<Longrightarrow> (w, i) \<in> set (mWins st) \<Longrightarrow> gl_step opens st (gl_removeDisplay w i st)"
| gl_closes: "kPc st = KBetween \<Longrightarrow> gl_step opens st (gl_close st)"
| gl_closing: "close_step st = Some (Inr st') \<Longrightarrow> gl_step opens st st'"

section \<open>The lock step of the threads\<close>

text \<open>How far the draw manager's thread is with a pipe.\<close>

datatype stage = Idle | Triggered | Rendered | SwapTriggered

fun pipe_stage :: "gl_draw_pc \<Rightarrow> nat \<Rightarrow> stage" where
  "pipe_stage (DRender k) i = (if i < k then Triggered else Idle)"
| "pipe_stage (DRenderWait k) i = (if i < k then Rendered else Triggered)"
| "pipe_stage (DSwap k) i = (if i < k then SwapTriggered else Rendered)"
| "pipe_stage (DSwapWait k) i = (if i < k then Idle else SwapTriggered)"
| "pipe_stage _ i = Idle"

definition semas :: "gl_pipe \<Rightarrow> nat \<Rightarrow> nat \<Rightarrow> nat \<Rightarrow> nat \<Rightarrow> bool" where
  "semas p rt rc swt swc \<longleftrightarrow> mRenderTriggerSema p = rt \<and> mRenderCompleteSema p = rc
     \<and> mSwapTriggerSema p = swt \<and> mSwapCompleteSema p = swc"

fun stage_ok :: "stage \<Rightarrow> gl_pipe \<Rightarrow> bool" where
  "stage_ok Idle p \<longleftrightarrow> semas p 0 0 0 0 \<and> pPc p \<in> {PStart, PHead, PRenderWait, PClose, PNew}"
| "stage_ok Triggered p \<longleftrightarrow> semas p 1 0 0 0 \<and> pPc p \<in> {PHead, PRenderWait, PClose, PNew}
     \<or> semas p 0 0 0 0 \<and> pPc p = PRender \<or> semas p 0 1 0 0 \<and> pPc p = PSwapWait"
| "stage_ok Rendered p \<longleftrightarrow> semas p 0 0 0 0 \<and> pPc p = PSwapWait"
| "stage_ok SwapTriggered p \<longleftrightarrow> semas p 0 0 1 0 \<and> pPc p = PSwapWait \<or> semas p 0 0 0 0 \<and> pPc p = PSwap
     \<or> semas p 0 0 0 1 \<and> pPc p \<in> {PHead, PRenderWait, PClose, PNew}"

definition pipe_ok :: "stage \<Rightarrow> gl_pipe \<Rightarrow> bool" where
  "pipe_ok s p \<longleftrightarrow> stage_ok s p \<and> mThreadRunning p = (pPc p \<noteq> PStart) \<and> \<not> mControlExit p"

fun frame_pc :: "nat \<Rightarrow> gl_draw_pc \<Rightarrow> bool" where
  "frame_pc n (DRender i) \<longleftrightarrow> i \<le> n"
| "frame_pc n (DRenderWait i) \<longleftrightarrow> i \<le> n"
| "frame_pc n (DSwap i) \<longleftrightarrow> i \<le> n"
| "frame_pc n (DSwapWait i) \<longleftrightarrow> i \<le> n"
| "frame_pc n d \<longleftrightarrow> d = DCheck \<or> d = DDone"

definition threads_ok :: "gl_state \<Rightarrow> bool" where
  "threads_ok st \<longleftrightarrow>
     (if kPc st = KBetween then drawTriggerSema st = 0 \<and> drawDoneSema st = 0 \<and> dPc st = DWait
      else kPc st = KIntra \<and> (drawTriggerSema st = 1 \<and> drawDoneSema st = 0 \<and> dPc st = DWait
        \<or> drawTriggerSema st = 0 \<and> drawDoneSema st = 0 \<and> frame_pc (length (pipes st)) (dPc st)
        \<or> drawTriggerSema st = 0 \<and> drawDoneSema st = 1 \<and> dPc st = DWait))"

definition gl_open :: "gl_state \<Rightarrow> bool" where
  "gl_open st \<longleftrightarrow> mRunning st \<and> threads_ok st \<and> (\<forall>i < length (pipes st). pipe_ok (pipe_stage (dPc st) i) (pipes st ! i))"

definition gl_inv :: "gl_state \<Rightarrow> bool" where
  "gl_inv st \<longleftrightarrow> (kPc st = KBetween \<or> kPc st = KIntra \<longrightarrow> gl_open st)"

lemma upd_pipe_fields [simp]:
  "kPc (upd_pipe i f st) = kPc st" "dPc (upd_pipe i f st) = dPc st" "mRunning (upd_pipe i f st) = mRunning st"
  "drawTriggerSema (upd_pipe i f st) = drawTriggerSema st" "drawDoneSema (upd_pipe i f st) = drawDoneSema st"
  "pipes (upd_pipe i f st) = (pipes st)[i := f (pipes st ! i)]" "mWins (upd_pipe i f st) = mWins st"
  by (simp_all add: upd_pipe_def)

lemma pipe_step_ok: "pipe_ok s p \<Longrightarrow> pipe_step opens cluster p = Some p' \<Longrightarrow> pipe_ok s p'"
  by (cases "pPc p"; cases s; simp add: pipe_step_def pipe_ok_def semas_def checkForWindowsToClose_def
      checkForNewWindows_def split: if_splits; clarsimp)

lemma worker_pipe_open:
  assumes "gl_open st" and "i < length (pipes st)" and "pipe_step opens cluster (pipes st ! i) = Some p"
  shows "gl_open (upd_pipe i (\<lambda>_. p) st)"
proof -
  have "pipe_ok (pipe_stage (dPc st) i) p"
    using pipe_step_ok assms unfolding gl_open_def by blast
  then show ?thesis using assms(1,2) by (auto simp: gl_open_def threads_ok_def nth_list_update)
qed

text \<open>The draw manager's thread takes one pipe from one stage to the next.\<close>

lemma gl_open_advance:
  assumes "gl_open st" and "kPc st = KIntra" and "drawTriggerSema st = 0" and "drawDoneSema st = 0"
    and "i < length (pipes st)" and "frame_pc (length (pipes st)) d" and "pipe_ok (pipe_stage d i) p"
    and "\<And>j. j \<noteq> i \<Longrightarrow> pipe_stage d j = pipe_stage (dPc st) j"
  shows "gl_open ((upd_pipe i (\<lambda>_. p) st)\<lparr>dPc := d\<rparr>)"
  using assms by (auto simp: gl_open_def threads_ok_def nth_list_update)

lemma gl_open_turn:
  assumes "gl_open st" and "kPc st = KIntra" and "drawTriggerSema st = 0" and "drawDoneSema st = 0"
    and "frame_pc (length (pipes st)) d" and "\<And>j. j < length (pipes st) \<Longrightarrow> pipe_stage d j = pipe_stage (dPc st) j"
  shows "gl_open (st\<lparr>dPc := d\<rparr>)"
  using assms by (auto simp: gl_open_def threads_ok_def)

lemma gl_open_frame:
  "gl_open st \<Longrightarrow> frame_pc (length (pipes st)) (dPc st) \<Longrightarrow> kPc st = KIntra \<and> drawTriggerSema st = 0 \<and> drawDoneSema st = 0"
  by (auto simp: gl_open_def threads_ok_def split: if_splits)

lemma gl_open_pipe: "gl_open st \<Longrightarrow> i < length (pipes st) \<Longrightarrow> pipe_ok (pipe_stage (dPc st) i) (pipes st ! i)"
  by (simp add: gl_open_def)

lemma gl_open_draws: "gl_open st \<Longrightarrow> dPc st = DWait \<or> frame_pc (length (pipes st)) (dPc st)"
  by (auto simp: gl_open_def threads_ok_def split: if_splits)

lemma stage_next:
  "pipe_ok Idle p \<Longrightarrow> mThreadRunning p \<Longrightarrow> pipe_ok Triggered (p\<lparr>mRenderTriggerSema := mRenderTriggerSema p + 1\<rparr>)"
  "pipe_ok Triggered p \<Longrightarrow> mRenderCompleteSema p > 0 \<Longrightarrow> pipe_ok Rendered (p\<lparr>mRenderCompleteSema := mRenderCompleteSema p - 1\<rparr>)"
  "pipe_ok Rendered p \<Longrightarrow> pipe_ok SwapTriggered (p\<lparr>mSwapTriggerSema := mSwapTriggerSema p + 1\<rparr>)"
  "pipe_ok SwapTriggered p \<Longrightarrow> mSwapCompleteSema p > 0 \<Longrightarrow> pipe_ok Idle (p\<lparr>mSwapCompleteSema := mSwapCompleteSema p - 1\<rparr>)"
  by (auto simp: pipe_ok_def semas_def)

lemma pipe_runs: "pipe_ok s p \<Longrightarrow> s \<noteq> Idle \<Longrightarrow> mThreadRunning p"
  by (cases s) (auto simp: pipe_ok_def)

lemma draw_step_open:
  assumes "gl_open st" and "draw_step st = Some r"
  shows "\<exists>st'. r = Inr st' \<and> gl_open st' \<and> kPc st' = kPc st"
proof (cases "dPc st = DWait")
  case True
  then have r: "r = Inr (st\<lparr>drawTriggerSema := drawTriggerSema st - 1, dPc := DCheck\<rparr>)" "drawTriggerSema st > 0"
    using assms(2) by (auto simp: draw_step_def split: if_splits)
  then have "gl_open (st\<lparr>drawTriggerSema := drawTriggerSema st - 1, dPc := DCheck\<rparr>)"
    using assms(1) True by (auto simp: gl_open_def threads_ok_def split: if_splits)
  then show ?thesis using r(1) by simp
next
  case False
  let ?n = "length (pipes st)"
  have pc: "frame_pc ?n (dPc st)" using gl_open_draws [OF assms(1)] False by blast
  note frame = gl_open_frame [OF assms(1) pc]
  note turn = gl_open_turn [OF assms(1) conjunct1 [OF frame] conjunct1 [OF conjunct2 [OF frame]] conjunct2 [OF conjunct2 [OF frame]]]
  note advance = gl_open_advance [OF assms(1) conjunct1 [OF frame] conjunct1 [OF conjunct2 [OF frame]] conjunct2 [OF conjunct2 [OF frame]]]
  have step: "\<exists>st'. r = Inr st' \<and> gl_open st' \<and> kPc st' = kPc st"
    if "r = Inr ((upd_pipe i f st)\<lparr>dPc := d\<rparr>)" "i < ?n" "frame_pc ?n d" "pipe_ok (pipe_stage d i) (f (pipes st ! i))"
      "\<And>j. j \<noteq> i \<Longrightarrow> pipe_stage d j = pipe_stage (dPc st) j" for i f d
  proof -
    have "gl_open ((upd_pipe i (\<lambda>_. f (pipes st ! i)) st)\<lparr>dPc := d\<rparr>)" by (rule advance [OF that(2-5)])
    moreover have "upd_pipe i (\<lambda>_. f (pipes st ! i)) st = upd_pipe i f st" by (simp add: upd_pipe_def)
    ultimately show ?thesis using that(1) by simp
  qed
  show ?thesis
  proof (cases "dPc st")
    case DCheck
    then show ?thesis using assms turn [of "DRender 0"] by (auto simp: draw_step_def gl_open_def [of st])
  next
    case DDone
    then show ?thesis using assms by (auto simp: draw_step_def gl_open_def threads_ok_def)
  next
    case (DRender i)
    show ?thesis
    proof (cases "i < ?n")
      case True
      have "pipe_ok Idle (pipes st ! i)" using gl_open_pipe [OF assms(1) True] DRender by simp
      moreover have "mThreadRunning (pipes st ! i)" "r = Inr ((upd_pipe i (\<lambda>p. p\<lparr>mRenderTriggerSema := mRenderTriggerSema p + 1\<rparr>) st)
          \<lparr>dPc := DRender (i + 1)\<rparr>)"
        using assms(2) DRender True by (auto simp: draw_step_def triggerRender_def goes_to_def split: if_splits)
      ultimately show ?thesis
        by (intro step [where i = i and d = "DRender (i + 1)"]) (use True DRender stage_next in \<open>auto simp: less_Suc_eq\<close>)
    next
      case False
      then have "r = Inr (st\<lparr>dPc := DRenderWait 0\<rparr>)" using assms(2) DRender by (simp add: draw_step_def)
      then show ?thesis using turn [of "DRenderWait 0"] DRender False by auto
    qed
  next
    case (DRenderWait i)
    show ?thesis
    proof (cases "i < ?n")
      case True
      have ok: "pipe_ok Triggered (pipes st ! i)" using gl_open_pipe [OF assms(1) True] DRenderWait by simp
      then have "mRenderCompleteSema (pipes st ! i) > 0" "r = Inr ((upd_pipe i (\<lambda>p. p\<lparr>mRenderCompleteSema := mRenderCompleteSema p - 1\<rparr>) st)
          \<lparr>dPc := DRenderWait (i + 1)\<rparr>)"
        using assms(2) DRenderWait True
        by (auto simp: draw_step_def completeRender_def goes_to_def running_asserted_def pipe_runs split: if_splits)
      then show ?thesis using ok
        by (intro step [where i = i and d = "DRenderWait (i + 1)"]) (use True DRenderWait stage_next in \<open>auto simp: less_Suc_eq\<close>)
    next
      case False
      then have "r = Inr (st\<lparr>dPc := DSwap 0\<rparr>)" using assms(2) DRenderWait by (simp add: draw_step_def)
      then show ?thesis using turn [of "DSwap 0"] DRenderWait False by auto
    qed
  next
    case (DSwap i)
    show ?thesis
    proof (cases "i < ?n")
      case True
      have ok: "pipe_ok Rendered (pipes st ! i)" using gl_open_pipe [OF assms(1) True] DSwap by simp
      then have "r = Inr ((upd_pipe i (\<lambda>p. p\<lparr>mSwapTriggerSema := mSwapTriggerSema p + 1\<rparr>) st)\<lparr>dPc := DSwap (i + 1)\<rparr>)"
        using assms(2) DSwap True
        by (auto simp: draw_step_def triggerSwap_def goes_to_def running_asserted_def pipe_runs split: if_splits)
      then show ?thesis using ok
        by (intro step [where i = i and d = "DSwap (i + 1)"]) (use True DSwap stage_next in \<open>auto simp: less_Suc_eq\<close>)
    next
      case False
      then have "r = Inr (st\<lparr>dPc := DSwapWait 0\<rparr>)" using assms(2) DSwap by (simp add: draw_step_def)
      then show ?thesis using turn [of "DSwapWait 0"] DSwap False by auto
    qed
  next
    case (DSwapWait i)
    show ?thesis
    proof (cases "i < ?n")
      case True
      have ok: "pipe_ok SwapTriggered (pipes st ! i)" using gl_open_pipe [OF assms(1) True] DSwapWait by simp
      then have "mSwapCompleteSema (pipes st ! i) > 0" "r = Inr ((upd_pipe i (\<lambda>p. p\<lparr>mSwapCompleteSema := mSwapCompleteSema p - 1\<rparr>) st)
          \<lparr>dPc := DSwapWait (i + 1)\<rparr>)"
        using assms(2) DSwapWait True
        by (auto simp: draw_step_def completeSwap_def goes_to_def running_asserted_def pipe_runs split: if_splits)
      then show ?thesis using ok
        by (intro step [where i = i and d = "DSwapWait (i + 1)"]) (use True DSwapWait stage_next in \<open>auto simp: less_Suc_eq\<close>)
    next
      case False
      then have "r = Inr (st\<lparr>dPc := DDone\<rparr>)" using assms(2) DSwapWait by (simp add: draw_step_def)
      then show ?thesis using turn [of DDone] DSwapWait False by auto
    qed
  qed (use pc in simp_all)
qed

lemma gl_add_open:
  assumes "gl_open st" and "kPc st = KBetween"
  shows "gl_open (gl_addDisplay w i st)"
proof -
  let ?ps = "pipes st @ replicate (i + 1 - length (pipes st)) pipe_new"
  have d: "dPc st = DWait" and old: "\<And>j. j < length (pipes st) \<Longrightarrow> pipe_ok Idle (pipes st ! j)"
    using assms by (auto simp: gl_open_def threads_ok_def)
  have "pipe_ok Idle (?ps ! j)" if "j < length ?ps" for j
  proof (cases "j < length (pipes st)")
    case True
    then show ?thesis using old by (simp add: nth_append)
  next
    case False
    then have "?ps ! j = pipe_new" using that by (simp add: nth_append)
    then show ?thesis by (simp add: pipe_ok_def pipe_new_def semas_def)
  qed
  moreover have "pipe_ok Idle (p\<lparr>mNewWins := ws\<rparr>) = pipe_ok Idle p" for p ws
    by (simp add: pipe_ok_def semas_def)
  ultimately have "pipe_ok Idle (?ps [i := (?ps ! i)\<lparr>mNewWins := mNewWins (?ps ! i) @ [w]\<rparr>] ! j)" if "j < length ?ps" for j
    using that by (cases "j = i") auto
  then show ?thesis using assms d
    by (simp add: gl_addDisplay_def addWindow_def Let_def gl_open_def threads_ok_def)
qed

lemma gl_remove_open: "gl_open st \<Longrightarrow> kPc st = KBetween \<Longrightarrow> gl_open (gl_removeDisplay w i st)"
  by (cases "i < length (pipes st)")
     (auto simp: gl_removeDisplay_def removeWindow_def gl_open_def threads_ok_def pipe_ok_def semas_def nth_list_update)

lemma close_step_closing:
  "close_step st = Some (Inr st') \<Longrightarrow> kPc st \<notin> {KBetween, KIntra} \<and> kPc st' \<notin> {KBetween, KIntra}"
  by (auto simp: close_step_def triggerRender_def triggerSwap_def running_asserted_def
    split: gl_kernel_pc.splits if_splits)

lemma worker_kernel: "gl_worker opens cluster st st' \<Longrightarrow> kPc st' = kPc st"
  by (cases rule: gl_worker.cases)
     (auto simp: draw_step_def goes_to_def triggerRender_def completeRender_def triggerSwap_def completeSwap_def
       running_asserted_def split: gl_draw_pc.splits if_splits)

lemma worker_open: "gl_worker opens cluster st st' \<Longrightarrow> gl_open st \<Longrightarrow> gl_open st'"
  by (induction rule: gl_worker.induct) (use draw_step_open worker_pipe_open in fastforce)+

lemma gl_step_inv:
  assumes "gl_inv st" and "gl_step opens st st'"
  shows "gl_inv st'"
  using assms(2)
proof cases
  case (gl_workers cluster)
  then show ?thesis using assms(1) worker_kernel [OF gl_workers] worker_open [OF gl_workers] by (simp add: gl_inv_def)
next
  case gl_triggers
  then show ?thesis using assms(1) by (auto simp: gl_inv_def gl_draw_def gl_open_def threads_ok_def)
next
  case gl_syncs
  then show ?thesis using assms(1)
    by (auto simp: gl_inv_def gl_sync_def gl_open_def threads_ok_def split: if_splits)
next
  case (gl_adds w i)
  then show ?thesis using assms(1) gl_add_open by (simp add: gl_inv_def)
next
  case (gl_removes w i)
  then show ?thesis using assms(1) gl_remove_open by (simp add: gl_inv_def)
next
  case gl_closes
  then show ?thesis by (simp add: gl_inv_def gl_close_def)
next
  case gl_closing
  then show ?thesis using close_step_closing [OF gl_closing] by (simp add: gl_inv_def)
qed

lemma gl_init_inv: "gl_inv initAPI"
  by (simp add: gl_inv_def initAPI_def gl_open_def threads_ok_def)

interpretation gl: transition_system "\<lambda>st. st = initAPI" "gl_step opens" gl_inv for opens
  by unfold_locales (auto intro: gl_init_inv gl_step_inv)

section \<open>A frame comes to its end\<close>

text \<open>Steps a pipe has left before it waits, counting what its triggers let it do.\<close>

fun pc_work :: "pipe_pc \<Rightarrow> nat" where
  "pc_work PStart = 2"
| "pc_work PHead = 1"
| "pc_work PRender = 1"
| "pc_work PSwap = 4"
| "pc_work PClose = 3"
| "pc_work PNew = 2"
| "pc_work _ = 0"

definition pipe_work :: "gl_pipe \<Rightarrow> nat" where
  "pipe_work p = pc_work (pPc p) + 2 * mRenderTriggerSema p + 5 * mSwapTriggerSema p"

fun draw_work :: "nat \<Rightarrow> gl_draw_pc \<Rightarrow> nat" where
  "draw_work n DCheck = 11 * n + 6"
| "draw_work n (DRender i) = 3 * (n - i) + 8 * n + 5"
| "draw_work n (DRenderWait i) = (n - i) + 7 * n + 4"
| "draw_work n (DSwap i) = 6 * (n - i) + n + 3"
| "draw_work n (DSwapWait i) = (n - i) + 2"
| "draw_work n DDone = 1"
| "draw_work n _ = 0"

definition gl_work :: "gl_state \<Rightarrow> nat" where
  "gl_work st = sum_list (map pipe_work (pipes st)) + draw_work (length (pipes st)) (dPc st)
     + (11 * length (pipes st) + 7) * drawTriggerSema st"

lemma sum_list_replace:
  "i < length xs \<Longrightarrow> sum_list (map f (xs[i := y])) + f (xs ! i) = sum_list (map f xs) + (f y :: nat)"
  by (induction xs arbitrary: i) (auto split: nat.splits simp: nth_Cons')

lemma pipe_step_work:
  "pipe_step opens True p = Some p' \<Longrightarrow> pipe_work p' < pipe_work p"
  by (cases "pPc p")
     (auto simp: pipe_step_def pipe_work_def checkForWindowsToClose_def checkForNewWindows_def split: if_splits)

lemma draw_step_work:
  assumes "gl_open st" and "draw_step st = Some (Inr st')"
  shows "gl_work st' < gl_work st"
proof -
  have trigger: "sum_list (map pipe_work (pipes (upd_pipe i f st))) = sum_list (map pipe_work (pipes st)) + k"
    if "i < length (pipes st)" "pipe_work (f (pipes st ! i)) = pipe_work (pipes st ! i) + k" for i f k
    using sum_list_replace [OF that(1), of pipe_work "f (pipes st ! i)"] that(2) by simp
  have draws: "dPc st \<noteq> DStop" "dPc st = DWait \<Longrightarrow> drawTriggerSema st \<le> 1"
    using assms(1) gl_open_draws [OF assms(1)] by (auto simp: gl_open_def threads_ok_def split: if_splits)
  show ?thesis
  proof (cases "dPc st = DWait")
    case True
    then have "drawTriggerSema st = 1" using assms(2) draws(2) by (auto simp: draw_step_def split: if_splits)
    then show ?thesis using True assms(2) by (auto simp: draw_step_def gl_work_def)
  next
    case False
    then show ?thesis
    using assms draws(1)
    by (cases "dPc st")
       (auto simp: draw_step_def goes_to_def triggerRender_def completeRender_def triggerSwap_def completeSwap_def
         running_asserted_def gl_work_def gl_open_def Suc_diff_Suc pipe_work_def trigger [unfolded upd_pipe_fields] split: if_splits)
  qed
qed

lemma worker_work:
  assumes "gl_open st" and "gl_worker opens True st st'"
  shows "gl_work st' < gl_work st"
  using assms(2)
proof cases
  case worker_draw
  then show ?thesis by (rule draw_step_work [OF assms(1)])
next
  case (worker_pipe i p)
  have "sum_list (map pipe_work ((pipes st)[i := p])) < sum_list (map pipe_work (pipes st))"
    using sum_list_replace [OF worker_pipe(2), of pipe_work p] pipe_step_work [OF worker_pipe(3)] by simp
  then show ?thesis using worker_pipe(1) by (simp add: gl_work_def)
qed

lemma pipe_blocked:
  "pipe_step opens True p = None \<Longrightarrow> pPc p = PEnd \<or> pPc p = PRenderWait \<and> mRenderTriggerSema p = 0
     \<or> pPc p = PSwapWait \<and> mSwapTriggerSema p = 0"
  by (auto simp: pipe_step_def split: pipe_pc.splits if_splits)

lemma worker_blocked:
  assumes "gl_open st" and "kPc st = KIntra" and "\<And>st'. \<not> gl_worker opens True st st'"
  shows "drawTriggerSema st = 0 \<and> drawDoneSema st = 1"
proof (rule ccontr)
  assume waiting: "\<not> (drawTriggerSema st = 0 \<and> drawDoneSema st = 1)"
  have pipe: "pipe_step opens True (pipes st ! i) = None" if "i < length (pipes st)" for i
    using assms(3) that worker_pipe by (cases "pipe_step opens True (pipes st ! i)") blast+
  have draw: "draw_step st = None"
  proof (cases "draw_step st")
    case (Some r)
    then obtain st' where "r = Inr st'" using draw_step_open [OF assms(1) Some] by blast
    then show ?thesis using Some worker_draw assms(3) by blast
  qed
  have stuck: "pipe_ok (pipe_stage (dPc st) i) (pipes st ! i)" "pPc (pipes st ! i) = PEnd
      \<or> pPc (pipes st ! i) = PRenderWait \<and> mRenderTriggerSema (pipes st ! i) = 0
      \<or> pPc (pipes st ! i) = PSwapWait \<and> mSwapTriggerSema (pipes st ! i) = 0" if "i < length (pipes st)" for i
    using gl_open_pipe [OF assms(1) that] pipe_blocked [OF pipe [OF that]] by blast+
  have "dPc st \<noteq> DWait" using assms(1,2) waiting draw by (auto simp: gl_open_def threads_ok_def draw_step_def)
  then have "frame_pc (length (pipes st)) (dPc st)" using gl_open_draws [OF assms(1)] by blast
  then show False
    using draw stuck
    by (cases "dPc st")
       (fastforce simp: draw_step_def goes_to_def triggerRender_def completeRender_def triggerSwap_def completeSwap_def
         running_asserted_def pipe_ok_def semas_def split: if_splits)+
qed

lemma gl_reach_open:
  "reach (\<lambda>st. st = initAPI) (gl_step opens) st \<Longrightarrow> kPc st = KBetween \<or> kPc st = KIntra \<Longrightarrow> gl_open st"
  using gl.reach_inv [of opens st] by (auto simp: gl_inv_def)

lemma gl_workers_open:
  "(gl_worker opens True ^^ m) st st' \<Longrightarrow> gl_open st \<Longrightarrow> gl_open st' \<and> kPc st' = kPc st \<and> m + gl_work st' \<le> gl_work st"
proof (induction m arbitrary: st')
  case (Suc m)
  then obtain st1 where run: "(gl_worker opens True ^^ m) st st1" and step: "gl_worker opens True st1 st'" by auto
  have "gl_open st1 \<and> kPc st1 = kPc st \<and> m + gl_work st1 \<le> gl_work st" by (rule Suc.IH [OF run Suc.prems(2)])
  then show ?case using worker_open [OF step] worker_kernel [OF step] worker_work [OF _ step] by fastforce
qed simp

text \<open>A pipe renders and swaps only in its stage.\<close>

lemma pipe_rendering:
  "pipe_ok s p \<Longrightarrow> pPc p = PRender \<Longrightarrow> s = Triggered" "pipe_ok s p \<Longrightarrow> pPc p = PSwap \<Longrightarrow> s = SwapTriggered"
  by (cases s; auto simp: pipe_ok_def)+

text \<open>One pipe that has started but not yet looked whether it should go on, when the interface is closed.\<close>

definition stopping :: "gl_kernel_pc \<Rightarrow> gl_draw_pc \<Rightarrow> nat \<Rightarrow> nat \<Rightarrow> gl_pipe \<Rightarrow> gl_state" where
  "stopping k d trig done_sema p = \<lparr>kPc = k, dPc = d, mRunning = False, drawTriggerSema = trig, drawDoneSema = done_sema,
     mWins = [(7, 0)], pipes = [p]\<rparr>"

definition stopping_pipe :: "pipe_pc \<Rightarrow> bool \<Rightarrow> bool \<Rightarrow> gl_pipe" where
  "stopping_pipe pc running exit = pipe_new\<lparr>pPc := pc, mThreadRunning := running, mControlExit := exit, mNewWins := [7]\<rparr>"

lemmas stop_eval = stopping_def stopping_pipe_def pipe_new_def initAPI_def gl_addDisplay_def addWindow_def pipe_stop_def gl_close_def upd_pipe_def
  draw_step_def close_step_def pipe_step_def

lemma gl_reach_worker:
  "reach (\<lambda>st. st = initAPI) (gl_step opens) st \<Longrightarrow> gl_worker opens True st st' \<Longrightarrow> reach (\<lambda>st. st = initAPI) (gl_step opens) st'"
  by (erule reach.reach_step) (rule gl_workers)

lemma gl_reach_closing:
  "reach (\<lambda>st. st = initAPI) (gl_step opens) st \<Longrightarrow> close_step st = Some (Inr st') \<Longrightarrow> reach (\<lambda>st. st = initAPI) (gl_step opens) st'"
  by (erule reach.reach_step) (rule gl_closing)

lemma gl_reach_draw:
  "reach (\<lambda>st. st = initAPI) (gl_step opens) st \<Longrightarrow> draw_step st = Some (Inr st') \<Longrightarrow> reach (\<lambda>st. st = initAPI) (gl_step opens) st'"
  by (rule gl_reach_worker) (auto intro: worker_draw)

lemma stop_race_reached:
  "reach (\<lambda>st. st = initAPI) (gl_step opens) (stopping (KStopRender 0) DEnd 0 0 (stopping_pipe PEnd False True))"
proof -
  let ?reach = "reach (\<lambda>st. st = initAPI) (gl_step opens)"
  have "?reach initAPI" by (rule reach.reach_init) simp
  from reach.reach_step [OF this gl_adds [of initAPI opens 7 0]]
  have added: "?reach (gl_addDisplay 7 0 initAPI)" by (simp add: initAPI_def)
  have "?reach (upd_pipe 0 (\<lambda>_. stopping_pipe PHead True False) (gl_addDisplay 7 0 initAPI))"
    by (rule gl_reach_worker [OF added worker_pipe]) (simp_all add: stop_eval)
  from reach.reach_step [OF this gl_closes]
  have "?reach (stopping KCloseWait DWait 1 0 (stopping_pipe PHead True False))" by (simp add: stop_eval)
  then have "?reach (stopping KCloseWait DCheck 0 0 (stopping_pipe PHead True False))"
    by (rule gl_reach_draw) (simp add: stop_eval)
  then have "?reach (stopping KCloseWait DStop 0 0 (stopping_pipe PHead True False))"
    by (rule gl_reach_draw) (simp add: stop_eval)
  then have "?reach (stopping KCloseWait DEnd 0 1 (stopping_pipe PHead True False))"
    by (rule gl_reach_draw) (simp add: stop_eval)
  then have "?reach (stopping KJoin DEnd 0 0 (stopping_pipe PHead True False))"
    by (rule gl_reach_closing) (simp add: stop_eval)
  then have "?reach (stopping (KStop 0) DEnd 0 0 (stopping_pipe PHead True False))"
    by (rule gl_reach_closing) (simp add: stop_eval)
  then have exit: "?reach (stopping (KStopRender 0) DEnd 0 0 (stopping_pipe PHead True True))"
    by (rule gl_reach_closing) (simp add: stop_eval)
  have "?reach (upd_pipe 0 (\<lambda>_. stopping_pipe PEnd False True) (stopping (KStopRender 0) DEnd 0 0 (stopping_pipe PHead True True)))"
    by (rule gl_reach_worker [OF exit worker_pipe]) (simp_all add: stop_eval)
  then show ?thesis by (simp add: stop_eval)
qed

section \<open>Properties\<close>

text \<open>
  C13. While the draw manager is open no pipe renders or swaps outside the kernel's span
  from \<^verbatim>\<open>draw\<close> to \<^verbatim>\<open>sync\<close>, so \<^verbatim>\<open>preFrame\<close>, \<^verbatim>\<open>latePreFrame\<close> and \<^verbatim>\<open>postFrame\<close> have
  the application's data for themselves; no pipe swaps its buffers while another still renders, and
  no assertion of the draw manager's thread fails.
\<close>
theorem drawing_between_draw_and_sync:
  assumes "reach (\<lambda>st. st = initAPI) (gl_step opens) st" and "kPc st = KBetween \<or> kPc st = KIntra"
  shows "(kPc st = KBetween \<longrightarrow> (\<forall>p \<in> set (pipes st). pPc p \<noteq> PRender \<and> pPc p \<noteq> PSwap))
    \<and> (\<forall>p \<in> set (pipes st). \<forall>q \<in> set (pipes st). \<not> (pPc p = PSwap \<and> pPc q = PRender))
    \<and> (\<forall>e. draw_step st \<noteq> Some (Inl e))"
proof -
  note gl_open = gl_reach_open [OF assms]
  have stage: "\<exists>i < length (pipes st). p = pipes st ! i \<and> pipe_ok (pipe_stage (dPc st) i) p" if "p \<in> set (pipes st)" for p
    using that gl_open_pipe [OF gl_open] by (auto simp: in_set_conv_nth)
  have "pPc p \<noteq> PRender \<and> pPc p \<noteq> PSwap" if "kPc st = KBetween" "p \<in> set (pipes st)" for p
  proof -
    have "dPc st = DWait" using gl_open that(1) by (simp add: gl_open_def threads_ok_def)
    then show ?thesis using stage [OF that(2)] pipe_rendering by fastforce
  qed
  moreover have "\<not> (pPc p = PSwap \<and> pPc q = PRender)" if pq: "p \<in> set (pipes st)" "q \<in> set (pipes st)" for p q
  proof
    assume both: "pPc p = PSwap \<and> pPc q = PRender"
    obtain i j where "pipe_stage (dPc st) i = SwapTriggered" "pipe_stage (dPc st) j = Triggered"
      using stage [OF pq(1)] stage [OF pq(2)] pipe_rendering both by metis
    then show False by (cases "dPc st") (simp_all split: if_splits)
  qed
  moreover have "draw_step st \<noteq> Some (Inl e)" for e using draw_step_open [OF gl_open] by fastforce
  ultimately show ?thesis by blast
qed

theorem drawing_between_draw_and_sync_witness:
  "length (pipes (gl_addDisplay 7 2 initAPI)) = 3
   \<and> list_all (\<lambda>p. pPc p \<noteq> PRender \<and> pPc p \<noteq> PSwap) (pipes (gl_addDisplay 7 2 initAPI))"
proof -
  have "reach (\<lambda>st. st = initAPI) (gl_step (\<lambda>w. True)) initAPI" by (rule reach.reach_init) simp
  moreover have start: "kPc initAPI = KBetween" by (simp add: initAPI_def)
  ultimately have "reach (\<lambda>st. st = initAPI) (gl_step (\<lambda>w. True)) (gl_addDisplay 7 2 initAPI)"
    by (blast intro: reach.reach_step gl_adds)
  from drawing_between_draw_and_sync [OF this] start show ?thesis
    by (simp add: gl_addDisplay_def addWindow_def Let_def list_all_iff initAPI_def)
qed



text \<open>
  C40. Stopping a pipe can hang: the exit flag is set before the pipe's thread is triggered, and
  a thread that sees it at the head of its loop ends at once, whereupon \<^verbatim>\<open>triggerRender\<close> waits
  for ever for the thread to run.  The state is reached by opening one display and closing the
  interface while its pipe starts, and nothing in it can move.
\<close>
theorem pipe_stop_hangs:
  "\<exists>st. reach (\<lambda>st. st = initAPI) (gl_step opens) st \<and> kPc st = KStopRender 0 \<and> (\<forall>st'. \<not> gl_step opens st st')"
proof (intro exI conjI allI notI)
  let ?st = "stopping (KStopRender 0) DEnd 0 0 (stopping_pipe PEnd False True)"
  show "reach (\<lambda>st. st = initAPI) (gl_step opens) ?st" by (rule stop_race_reached)
  show "kPc ?st = KStopRender 0" by (simp add: stopping_def)
  fix st'
  assume "gl_step opens ?st st'"
  then show False
  proof cases
    case (gl_workers cluster)
    then show ?thesis by cases (simp_all add: stop_eval)
  next
    case gl_closing
    then show ?thesis by (simp add: stop_eval triggerRender_def)
  qed (simp_all add: stopping_def)
qed

end
