(* ===== verification/KeyboardMouse.thy ===== *)
theory KeyboardMouse
  imports VprInterval BufferSerial
begin

text \<open>
  Keyboard and mouse input (\<^verbatim>\<open>modules/gadgeteer/gadget/Type/KeyboardMouse.h\<close>, \<^verbatim>\<open>.cpp\<close> and
  \<^verbatim>\<open>KeyboardMouse/Keys.h\<close>, \<^verbatim>\<open>Event.h\<close>, \<^verbatim>\<open>KeyEvent.cpp\<close>, \<^verbatim>\<open>MouseEvent.cpp\<close>): the key counts
  and the event queue of a frame, and their serialization for the nodes of a cluster.

  A key is the number of its enumerator; \<open>key ''KEY_ESC''\<close> is \<^verbatim>\<open>gadget::KEY_ESC\<close>.  Counts and
  coordinates are C++ \<^verbatim>\<open>int\<close>s as integers; where they are sent as \<^verbatim>\<open>Uint32\<close> they wrap.  An event's
  source is the index of the input area it came from.
\<close>

section \<open>Keys\<close>

definition Keys :: "string list" where
  "Keys =
    [''KEY_NONE'', ''KEY_UP'', ''KEY_DOWN'', ''KEY_LEFT'', ''KEY_RIGHT'', ''KEY_SHIFT'',
     ''KEY_CTRL'', ''KEY_ALT'', ''KEY_COMMAND'', ''KEY_1'', ''KEY_2'', ''KEY_3'', ''KEY_4'',
     ''KEY_5'', ''KEY_6'', ''KEY_7'', ''KEY_8'', ''KEY_9'', ''KEY_0'', ''KEY_A'', ''KEY_B'',
     ''KEY_C'', ''KEY_D'', ''KEY_E'', ''KEY_F'', ''KEY_G'', ''KEY_H'', ''KEY_I'', ''KEY_J'',
     ''KEY_K'', ''KEY_L'', ''KEY_M'', ''KEY_N'', ''KEY_O'', ''KEY_P'', ''KEY_Q'', ''KEY_R'',
     ''KEY_S'', ''KEY_T'', ''KEY_U'', ''KEY_V'', ''KEY_W'', ''KEY_X'', ''KEY_Y'', ''KEY_Z'',
     ''KEY_ESC'', ''MOUSE_POSX'', ''MOUSE_NEGX'', ''MOUSE_POSY'', ''MOUSE_NEGY'', ''MBUTTON1'',
     ''MBUTTON2'', ''MBUTTON3'', ''MBUTTON4'', ''MBUTTON5'', ''MBUTTON6'', ''MBUTTON7'',
     ''MBUTTON8'', ''MBUTTON9'', ''NO_MBUTTON'', ''MOUSE_SCROLL_UP'', ''MOUSE_SCROLL_DOWN'',
     ''MOUSE_SCROLL_LEFT'', ''MOUSE_SCROLL_RIGHT'', ''KEY_TAB'', ''KEY_BACKTAB'',
     ''KEY_BACKSPACE'', ''KEY_RETURN'', ''KEY_ENTER'', ''KEY_INSERT'', ''KEY_DELETE'',
     ''KEY_PAUSE'', ''KEY_PRINT'', ''KEY_SYSREQ'', ''KEY_HOME'', ''KEY_END'', ''KEY_PRIOR'',
     ''KEY_NEXT'', ''KEY_CAPS_LOCK'', ''KEY_NUM_LOCK'', ''KEY_SCROLL_LOCK'', ''KEY_F1'',
     ''KEY_F2'', ''KEY_F3'', ''KEY_F4'', ''KEY_F5'', ''KEY_F6'', ''KEY_F7'', ''KEY_F8'',
     ''KEY_F9'', ''KEY_F10'', ''KEY_F11'', ''KEY_F12'', ''KEY_F13'', ''KEY_F14'', ''KEY_F15'',
     ''KEY_F16'', ''KEY_F17'', ''KEY_F18'', ''KEY_F19'', ''KEY_F20'', ''KEY_F21'', ''KEY_F22'',
     ''KEY_F23'', ''KEY_F24'', ''KEY_F25'', ''KEY_F26'', ''KEY_F27'', ''KEY_F28'', ''KEY_F29'',
     ''KEY_F30'', ''KEY_F31'', ''KEY_F32'', ''KEY_F33'', ''KEY_F34'', ''KEY_F35'',
     ''KEY_SUPER_L'', ''KEY_SUPER_R'', ''KEY_MENU'', ''KEY_HYPER_L'', ''KEY_HYPER_R'',
     ''KEY_HELP'', ''KEY_SPACE'', ''KEY_ANY'', ''KEY_EXCLAM'', ''KEY_QUOTE_DBL'',
     ''KEY_NUMBER_SIGN'', ''KEY_DOLLAR'', ''KEY_PERCENT'', ''KEY_AMPERSAND'',
     ''KEY_APOSTROPHE'', ''KEY_PAREN_LEFT'', ''KEY_PAREN_RIGHT'', ''KEY_ASTERISK'',
     ''KEY_PLUS'', ''KEY_COMMA'', ''KEY_MINUS'', ''KEY_PERIOD'', ''KEY_SLASH'', ''KEY_COLON'',
     ''KEY_SEMICOLON'', ''KEY_LESS'', ''KEY_EQUAL'', ''KEY_GREATER'', ''KEY_QUESTION'',
     ''KEY_AT'', ''KEY_BRACKET_LEFT'', ''KEY_BACKSLASH'', ''KEY_BRACKET_RIGHT'',
     ''KEY_ASCII_CIRCUM'', ''KEY_UNDERSCORE'', ''KEY_QUOTE_LEFT'', ''KEY_BRACE_LEFT'',
     ''KEY_BAR'', ''KEY_BRACE_RIGHT'', ''KEY_ASCII_TILDE'', ''KEY_UNKNOWN'', ''LAST_KEY'']"

definition key :: "string \<Rightarrow> nat" where
  "key name = length (takeWhile (\<lambda>n. n \<noteq> name) Keys)"

definition LAST_KEY :: nat where
  "LAST_KEY = key ''LAST_KEY''"

text \<open>
  The symbolic name of a key: the strings of the switch in \<^verbatim>\<open>getKeyName\<close>, whose cases are in the
  enumeration's order.
\<close>

definition key_names :: "string list" where
  "key_names =
    [''KEY_NONE'', ''KEY_UP'', ''KEY_DOWN'', ''KEY_LEFT'', ''KEY_RIGHT'', ''KEY_SHIFT'',
     ''KEY_CTRL'', ''KEY_ALT'', ''KEY_COMMAND'', ''KEY_1'', ''KEY_2'', ''KEY_3'', ''KEY_4'',
     ''KEY_5'', ''KEY_6'', ''KEY_7'', ''KEY_8'', ''KEY_9'', ''KEY_0'', ''KEY_A'', ''KEY_B'',
     ''KEY_C'', ''KEY_D'', ''KEY_E'', ''KEY_F'', ''KEY_G'', ''KEY_H'', ''KEY_I'', ''KEY_J'',
     ''KEY_K'', ''KEY_L'', ''KEY_M'', ''KEY_N'', ''KEY_O'', ''KEY_P'', ''KEY_Q'', ''KEY_R'',
     ''KEY_S'', ''KEY_T'', ''KEY_U'', ''KEY_V'', ''KEY_W'', ''KEY_X'', ''KEY_Y'', ''KEY_Z'',
     ''KEY_ESC'', ''MOUSE_POSX'', ''MOUSE_NEGX'', ''MOUSE_POSY'', ''MOUSE_NEGY'', ''MBUTTON1'',
     ''MBUTTON2'', ''MBUTTON3'', ''MBUTTON4'', ''MBUTTON5'', ''MBUTTON5'', ''MBUTTON7'',
     ''MBUTTON8'', ''MBUTTON9'', ''NO_MBUTTON'', ''MOUSE_SCROLL_UP'', ''MOUSE_SCROLL_DOWN'',
     ''MOUSE_SCROLL_LEFT'', ''MOUSE_SCROLL_RIGHT'', ''KEY_TAB'', ''KEY_BACKTAB'',
     ''KEY_BACKSPACE'', ''KEY_RETURN'', ''KEY_ENTER'', ''KEY_INSERT'', ''KEY_DELETE'',
     ''KEY_PAUSE'', ''KEY_PRINT'', ''KEY_SYSREQ'', ''KEY_HOME'', ''KEY_END'', ''KEY_PRIOR'',
     ''KEY_NEXT'', ''KEY_CAPS_LOCK'', ''KEY_NUM_LOCK'', ''KEY_SCROLL_LOCK'', ''KEY_F1'',
     ''KEY_F2'', ''KEY_F3'', ''KEY_F4'', ''KEY_F5'', ''KEY_F6'', ''KEY_F7'', ''KEY_F8'',
     ''KEY_F9'', ''KEY_F10'', ''KEY_F11'', ''KEY_F12'', ''KEY_F13'', ''KEY_F14'', ''KEY_F15'',
     ''KEY_F16'', ''KEY_F17'', ''KEY_F18'', ''KEY_F19'', ''KEY_F20'', ''KEY_F21'', ''KEY_F22'',
     ''KEY_F23'', ''KEY_F24'', ''KEY_F25'', ''KEY_F26'', ''KEY_F27'', ''KEY_F28'', ''KEY_F29'',
     ''KEY_F30'', ''KEY_F31'', ''KEY_F32'', ''KEY_F33'', ''KEY_F34'', ''KEY_F35'',
     ''KEY_SUPER_L'', ''KEY_SUPER_R'', ''KEY_MENU'', ''KEY_HYPER_L'', ''KEY_HYPER_R'',
     ''KEY_HELP'', ''KEY_SPACE'', ''KEY_ANY'', ''KEY_EXCLAM'', ''KEY_QUOTE_DBL'',
     ''KEY_NUMBER_SIGN'', ''KEY_DOLLAR'', ''KEY_PERCENT'', ''KEY_AMPERSAND'',
     ''KEY_APOSTROPHE'', ''KEY_PAREN_LEFT'', ''KEY_PAREN_RIGHT'', ''KEY_ASTERISK'',
     ''KEY_PLUS'', ''KEY_COMMA'', ''KEY_MINUS'', ''KEY_PERIOD'', ''KEY_SLASH'', ''KEY_COLON'',
     ''KEY_SEMICOLON'', ''KEY_LESS'', ''KEY_EQUAL'', ''KEY_GREATER'', ''KEY_QUESTION'',
     ''KEY_AT'', ''KEY_BRACKET_LEFT'', ''KEY_BACKSLASH'', ''KEY_BRACKET_RIGHT'',
     ''KEY_ASCII_CIRCUM'', ''KEY_UNDERSCORE'', ''KEY_QUOTE_LEFT'', ''KEY_BRACE_LEFT'',
     ''KEY_BAR'', ''KEY_BRACE_RIGHT'', ''KEY_ASCII_TILDE'', ''KEY_UNKNOWN'', ''LAST_KEY'']"

definition getKeyName :: "nat \<Rightarrow> string" where
  "getKeyName k = (if k < length key_names then key_names ! k else ''Unrecognized key'')"

lemma key_values [simp]:
  "key ''KEY_NONE'' = 0" "key ''KEY_SHIFT'' = 5" "key ''KEY_CTRL'' = 6" "key ''KEY_ALT'' = 7"
  "key ''KEY_COMMAND'' = 8" "key ''KEY_A'' = 19" "key ''KEY_ESC'' = 45" "key ''MOUSE_POSX'' = 46"
  "key ''MOUSE_NEGX'' = 47" "key ''MOUSE_POSY'' = 48" "key ''MOUSE_NEGY'' = 49"
  "key ''MBUTTON1'' = 50" "key ''MBUTTON2'' = 51" "key ''MBUTTON3'' = 52" "key ''MBUTTON4'' = 53"
  "key ''MBUTTON5'' = 54" "key ''MBUTTON6'' = 55" "key ''MBUTTON7'' = 56" "key ''MBUTTON8'' = 57"
  "key ''MBUTTON9'' = 58" "key ''NO_MBUTTON'' = 59" "key ''MOUSE_SCROLL_UP'' = 60"
  "key ''MOUSE_SCROLL_DOWN'' = 61" "key ''MOUSE_SCROLL_LEFT'' = 62"
  "key ''MOUSE_SCROLL_RIGHT'' = 63" "key ''KEY_SPACE'' = 122" "key ''KEY_UNKNOWN'' = 156"
  by code_simp+

lemma LAST_KEY_value [simp]: "LAST_KEY = 157"
  by code_simp

text \<open>Every key has its enumerator as its name, but the sixth mouse button has the fifth's.\<close>

lemma getKeyName_values: "map getKeyName [0..<158] = Keys[55 := ''MBUTTON5'']"
  by code_simp

section \<open>Events\<close>

text \<open>\<^verbatim>\<open>EventType\<close>: the numbers that go over the wire.\<close>

definition KeyPressEvent :: u16 where "KeyPressEvent = 1"
definition KeyReleaseEvent :: u16 where "KeyReleaseEvent = 2"
definition MouseButtonPressEvent :: u16 where "MouseButtonPressEvent = 3"
definition MouseButtonReleaseEvent :: u16 where "MouseButtonReleaseEvent = 4"
definition MouseMoveEvent :: u16 where "MouseMoveEvent = 5"
definition MouseScrollEvent :: u16 where "MouseScrollEvent = 6"

lemmas event_type_defs = KeyPressEvent_def KeyReleaseEvent_def MouseButtonPressEvent_def
  MouseButtonReleaseEvent_def MouseMoveEvent_def MouseScrollEvent_def

record event_head =
  mType :: u16
  mTime :: u64
  mSource :: "nat option"

record key_event = event_head +
  mKey :: nat
  mModifierMask :: int
  mAsciiKey :: u8
  mUnicodeKey :: u32

record mouse_event = event_head +
  mButton :: nat
  mRelativeX :: int
  mRelativeY :: int
  mGlobalX :: int
  mGlobalY :: int
  mScrollDeltaX :: u32
  mScrollDeltaY :: u32
  mState :: int

datatype event = KeyEvent key_event | MouseEvent mouse_event

definition KeyEvent_new :: key_event where
  "KeyEvent_new = \<lparr>mType = 0, mTime = 0, mSource = None, mKey = key ''KEY_SPACE'',
     mModifierMask = 0, mAsciiKey = 32, mUnicodeKey = 32\<rparr>"

definition MouseEvent_new :: mouse_event where
  "MouseEvent_new = \<lparr>mType = 0, mTime = 0, mSource = None, mButton = key ''NO_MBUTTON'',
     mRelativeX = 0, mRelativeY = 0, mGlobalX = 0, mGlobalY = 0, mScrollDeltaX = 0,
     mScrollDeltaY = 0, mState = 0\<rparr>"

text \<open>\<^verbatim>\<open>writeObject\<close> and \<^verbatim>\<open>readObject\<close> of the two kinds of event.\<close>

definition write_key_event :: "bool \<Rightarrow> key_event \<Rightarrow> writer \<Rightarrow> writer" where
  "write_key_event le e w =
     (let w = writeUint16 le (mType e) w;
          w = writeUint32 le (of_nat (mKey e)) w;
          w = writeUint32 le (of_int (mModifierMask e)) w;
          w = writeUint64 le (mTime e) w
      in writeUint8 (mAsciiKey e) w)"

definition write_mouse_event :: "bool \<Rightarrow> mouse_event \<Rightarrow> writer \<Rightarrow> writer" where
  "write_mouse_event le e w =
     (let w = writeUint16 le (mType e) w;
          w = writeUint32 le (of_nat (mButton e)) w;
          w = writeUint32 le (of_int (mRelativeX e)) w;
          w = writeUint32 le (of_int (mRelativeY e)) w;
          w = writeUint32 le (of_int (mGlobalX e)) w;
          w = writeUint32 le (of_int (mGlobalY e)) w;
          w = writeFloat le (mScrollDeltaX e) w;
          w = writeFloat le (mScrollDeltaY e) w
      in writeUint32 le (of_int (mState e)) w)"

fun write_event :: "bool \<Rightarrow> event \<Rightarrow> writer \<Rightarrow> writer" where
  "write_event le (KeyEvent e) w = write_key_event le e w"
| "write_event le (MouseEvent e) w = write_mouse_event le e w"

definition read_key_event :: "bool \<Rightarrow> key_event \<Rightarrow> reader \<Rightarrow> (key_event \<times> reader) result" where
  "read_key_event le e r =
     rbind (readUint32 le r) (\<lambda>(k, r).
     rbind (readUint32 le r) (\<lambda>(mask, r).
     rbind (readUint64 le r) (\<lambda>(time, r).
     rbind (readUint8 r) (\<lambda>(ascii, r).
     Inr (e\<lparr>mKey := unat k, mModifierMask := sint mask, mTime := time, mAsciiKey := ascii\<rparr>, r)))))"

definition read_mouse_event :: "bool \<Rightarrow> mouse_event \<Rightarrow> reader \<Rightarrow> (mouse_event \<times> reader) result" where
  "read_mouse_event le e r =
     rbind (readUint32 le r) (\<lambda>(button, r).
     rbind (readUint32 le r) (\<lambda>(x, r).
     rbind (readUint32 le r) (\<lambda>(y, r).
     rbind (readUint32 le r) (\<lambda>(gx, r).
     rbind (readUint32 le r) (\<lambda>(gy, r).
     rbind (readFloat le r) (\<lambda>(dx, r).
     rbind (readFloat le r) (\<lambda>(dy, r).
     rbind (readUint32 le r) (\<lambda>(state, r).
     Inr (e\<lparr>mButton := unat button, mRelativeX := sint x, mRelativeY := sint y,
            mGlobalX := sint gx, mGlobalY := sint gy, mScrollDeltaX := dx, mScrollDeltaY := dy,
            mState := sint state\<rparr>, r)))))))))"

text \<open>The event factory: the creators registered for the six types; any other type has none.\<close>

definition event_create :: "u16 \<Rightarrow> event option" where
  "event_create t =
     (if t \<in> {KeyPressEvent, KeyReleaseEvent} then Some (KeyEvent KeyEvent_new)
      else if t \<in> {MouseButtonPressEvent, MouseButtonReleaseEvent, MouseMoveEvent, MouseScrollEvent}
      then Some (MouseEvent MouseEvent_new) else None)"

text \<open>One round of the loop in \<^verbatim>\<open>KeyboardMouse::readObject\<close>.\<close>

definition read_event :: "bool \<Rightarrow> reader \<Rightarrow> (event \<times> reader) result" where
  "read_event le r =
     rbind (readUint16 le r) (\<lambda>(event_type, r).
     case event_create event_type of
       None \<Rightarrow> Inl (AssertionFailed ''temp_event == NULL, Event Type does not exist.'')
     | Some (KeyEvent e) \<Rightarrow>
         rbind (read_key_event le (e\<lparr>mType := event_type\<rparr>) r) (\<lambda>(e, r). Inr (KeyEvent e, r))
     | Some (MouseEvent e) \<Rightarrow>
         rbind (read_mouse_event le (e\<lparr>mType := event_type\<rparr>) r) (\<lambda>(e, r). Inr (MouseEvent e, r)))"

section \<open>The keyboard and mouse of a frame\<close>

definition MSG_DATA_EVENT_WINDOW :: u16 where
  "MSG_DATA_EVENT_WINDOW = 420"

record keyboard_mouse =
  mCurKeys :: "int list"
  mCurEventQueue :: "event list"
  mWorkingEventQueue :: "event list"
  mSyncTime :: interval

definition KeyboardMouse_new :: keyboard_mouse where
  "KeyboardMouse_new = \<lparr>mCurKeys = (replicate LAST_KEY 0)[key ''KEY_NONE'' := 1],
     mCurEventQueue = [], mWorkingEventQueue = [], mSyncTime = Interval 0\<rparr>"

definition addEvent :: "event \<Rightarrow> 'a keyboard_mouse_scheme \<Rightarrow> 'a keyboard_mouse_scheme" where
  "addEvent e km = km\<lparr>mWorkingEventQueue := mWorkingEventQueue km @ [e]\<rparr>"

definition updateEventQueue :: "interval \<Rightarrow> 'a keyboard_mouse_scheme \<Rightarrow> 'a keyboard_mouse_scheme" where
  "updateEventQueue now km =
     km\<lparr>mSyncTime := now, mCurEventQueue := mWorkingEventQueue km, mWorkingEventQueue := []\<rparr>"

text \<open>The array is indexed unchecked: past its end the read is undefined.\<close>

definition keyPressed :: "nat \<Rightarrow> 'a keyboard_mouse_scheme \<Rightarrow> int result" where
  "keyPressed keyId km =
     (if keyId < LAST_KEY then Inr (mCurKeys km ! keyId)
      else Inl (Undefined ''index past the end of mCurKeys''))"

definition modifierOnly :: "nat \<Rightarrow> 'a keyboard_mouse_scheme \<Rightarrow> bool result" where
  "modifierOnly modKey km =
     (let down = (\<lambda>name. mCurKeys km ! key name \<noteq> 0);
          shift = down ''KEY_SHIFT''; ctrl = down ''KEY_CTRL''; alt = down ''KEY_ALT'';
          command = down ''KEY_COMMAND''
      in if modKey = key ''KEY_NONE'' then Inr (\<not> shift \<and> \<not> ctrl \<and> \<not> alt \<and> \<not> command)
         else if modKey = key ''KEY_SHIFT'' then Inr (shift \<and> \<not> ctrl \<and> \<not> alt \<and> \<not> command)
         else if modKey = key ''KEY_CTRL'' then Inr (\<not> shift \<and> ctrl \<and> \<not> alt \<and> \<not> command)
         else if modKey = key ''KEY_ALT'' then Inr (\<not> shift \<and> \<not> ctrl \<and> alt \<and> \<not> command)
         else if modKey = key ''KEY_COMMAND'' then Inr (\<not> shift \<and> \<not> ctrl \<and> \<not> alt \<and> command)
         else Inl (AssertionFailed ''false''))"

text \<open>\<^verbatim>\<open>writeObject\<close>; the number of events is a \<^verbatim>\<open>Uint16\<close>.\<close>

definition km_writeObject :: "bool \<Rightarrow> 'a keyboard_mouse_scheme \<Rightarrow> writer \<Rightarrow> writer" where
  "km_writeObject le km w =
     (let w = writeUint16 le MSG_DATA_EVENT_WINDOW w;
          w = writeUint64 le (getBaseVal (mSyncTime km)) w;
          w = writeUint16 le (of_nat LAST_KEY) w;
          w = fold (\<lambda>i. writeUint32 le (of_int (mCurKeys km ! i))) [0..<LAST_KEY] w;
          w = writeUint16 le (of_nat (length (mCurEventQueue km))) w
      in fold (write_event le) (mCurEventQueue km) w)"

fun read_keys :: "bool \<Rightarrow> nat \<Rightarrow> nat \<Rightarrow> reader \<Rightarrow> 'a keyboard_mouse_scheme
    \<Rightarrow> reader result \<times> 'a keyboard_mouse_scheme" where
  "read_keys le 0 i r km = (Inr r, km)"
| "read_keys le (Suc n) i r km =
     read_into (readUint32 le r) km (\<lambda>(v, r).
     read_keys le n (i + 1) r (km\<lparr>mCurKeys := (mCurKeys km)[i := sint v]\<rparr>))"

fun read_events :: "bool \<Rightarrow> nat \<Rightarrow> reader \<Rightarrow> 'a keyboard_mouse_scheme
    \<Rightarrow> reader result \<times> 'a keyboard_mouse_scheme" where
  "read_events le 0 r km = (Inr r, km)"
| "read_events le (Suc n) r km =
     read_into (read_event le r) km (\<lambda>(e, r). read_events le n r (addEvent e km))"

definition km_readObject :: "bool \<Rightarrow> interval \<Rightarrow> reader \<Rightarrow> 'a keyboard_mouse_scheme
    \<Rightarrow> reader result \<times> 'a keyboard_mouse_scheme" where
  "km_readObject le now r km =
     read_into
       (rbind (readUint16 le r) (\<lambda>(data_type, r).
        rbind (require (data_type = MSG_DATA_EVENT_WINDOW)
                 (AssertionFailed ''[KeyboardMouse::readObject()] Not KeyboardMouse Data'')) (\<lambda>_.
        rbind (readUint64 le r) (\<lambda>(temp_sync, r).
        rbind (readUint16 le r) (\<lambda>(num_keys, r).
        rbind (require (LAST_KEY = unat num_keys)
                 (AssertionFailed ''[KeyboardMouse::readObject()] Different number of keys.'')) (\<lambda>_.
        Inr (temp_sync, num_keys, r)))))))
       km (\<lambda>(temp_sync, num_keys, r).
     then_into (read_keys le (unat num_keys) 0 r km) (\<lambda>r km.
     read_into (readUint16 le r) km (\<lambda>(num_events, r).
     then_into (read_events le (unat num_events) r km) (\<lambda>r km.
     (Inr r, (updateEventQueue now km)\<lparr>mSyncTime := interval_set temp_sync Base\<rparr>)))))"

section \<open>What a remote node receives\<close>

text \<open>
  The wire form of an event: a mouse event goes without its time, a key event without its
  Unicode character, and neither has its source.
\<close>

fun remote_event :: "event \<Rightarrow> event" where
  "remote_event (KeyEvent e) = KeyEvent (e\<lparr>mSource := None, mUnicodeKey := 32\<rparr>)"
| "remote_event (MouseEvent e) = MouseEvent (e\<lparr>mSource := None, mTime := 0\<rparr>)"

definition int32 :: "int \<Rightarrow> bool" where
  "int32 i \<longleftrightarrow> - (2 ^ 31) \<le> i \<and> i < 2 ^ 31"

fun event_ok :: "event \<Rightarrow> bool" where
  "event_ok (KeyEvent e) \<longleftrightarrow> mType e \<in> {KeyPressEvent, KeyReleaseEvent} \<and> mKey e < 2 ^ 32
     \<and> int32 (mModifierMask e)"
| "event_ok (MouseEvent e) \<longleftrightarrow>
     mType e \<in> {MouseButtonPressEvent, MouseButtonReleaseEvent, MouseMoveEvent, MouseScrollEvent}
     \<and> mButton e < 2 ^ 32 \<and> int32 (mRelativeX e) \<and> int32 (mRelativeY e) \<and> int32 (mGlobalX e)
     \<and> int32 (mGlobalY e) \<and> int32 (mState e)"

definition int_bytes :: "int \<Rightarrow> u8 list" where
  "int_bytes i = net_bytes 4 (of_int i :: u32)"

fun event_bytes :: "event \<Rightarrow> u8 list" where
  "event_bytes (KeyEvent e) = net_bytes 2 (mType e) @ net_bytes 4 (of_nat (mKey e) :: u32)
     @ int_bytes (mModifierMask e) @ net_bytes 8 (mTime e) @ [mAsciiKey e]"
| "event_bytes (MouseEvent e) = net_bytes 2 (mType e) @ net_bytes 4 (of_nat (mButton e) :: u32)
     @ int_bytes (mRelativeX e) @ int_bytes (mRelativeY e) @ int_bytes (mGlobalX e)
     @ int_bytes (mGlobalY e) @ net_bytes 4 (mScrollDeltaX e) @ net_bytes 4 (mScrollDeltaY e)
     @ int_bytes (mState e)"

lemma sint_of_int32: "int32 i \<Longrightarrow> sint (of_int i :: u32) = i"
  by (simp add: int32_def signed_of_int signed_take_bit_int_eq_self)

lemma length_int_bytes [simp]: "length (int_bytes i) = 4"
  by (simp add: int_bytes_def)

lemma write_event_emits: "write_event le e w = emit (event_bytes e) w"
  by (cases e) (simp_all add: write_key_event_def write_mouse_event_def Let_def serial_simps int_bytes_def)

lemma event_bytes_remote: "event_bytes (remote_event e) = event_bytes e"
  by (cases e) simp_all

lemma event_ok_remote: "event_ok e \<Longrightarrow> event_ok (remote_event e)"
  by (cases e) simp_all

lemma read_key_event_returns:
  assumes "event_ok (KeyEvent k)"
    and r: "remains r (net_bytes 4 (of_nat (mKey k) :: u32) @ net_bytes 4 (of_int (mModifierMask k) :: u32)
      @ net_bytes 8 (mTime k) @ mAsciiKey k # bs)"
  shows "read_key_event le e r = Inr (e\<lparr>mKey := mKey k, mModifierMask := mModifierMask k,
      mTime := mTime k, mAsciiKey := mAsciiKey k\<rparr>, advance 17 r)"
  unfolding read_key_event_def
  apply (rule bind_reads(3) [OF r], simp add: advance_advance)
  apply (erule bind_reads, simp add: advance_advance)+
  using assms(1) apply (simp add: sint_of_int32 unat_of_nat_u32)
  done

lemma read_mouse_event_returns:
  assumes "event_ok (MouseEvent m)"
    and r: "remains r (net_bytes 4 (of_nat (mButton m) :: u32) @ net_bytes 4 (of_int (mRelativeX m) :: u32)
      @ net_bytes 4 (of_int (mRelativeY m) :: u32) @ net_bytes 4 (of_int (mGlobalX m) :: u32)
      @ net_bytes 4 (of_int (mGlobalY m) :: u32) @ net_bytes 4 (mScrollDeltaX m)
      @ net_bytes 4 (mScrollDeltaY m) @ net_bytes 4 (of_int (mState m) :: u32) @ bs)"
  shows "read_mouse_event le e r = Inr (e\<lparr>mButton := mButton m, mRelativeX := mRelativeX m,
      mRelativeY := mRelativeY m, mGlobalX := mGlobalX m, mGlobalY := mGlobalY m,
      mScrollDeltaX := mScrollDeltaX m, mScrollDeltaY := mScrollDeltaY m, mState := mState m\<rparr>,
      advance 32 r)"
  unfolding read_mouse_event_def
  apply (rule bind_reads(3) [OF r], simp add: advance_advance)
  apply (erule bind_reads, simp add: advance_advance)+
  using assms(1) apply (simp add: sint_of_int32 unat_of_nat_u32)
  done

lemma read_event_returns:
  assumes "event_ok e" and "remains r (event_bytes e @ bs)"
  shows "read_event le r = Inr (remote_event e, advance (length (event_bytes e)) r)"
proof (cases e)
  case (KeyEvent k)
  have created: "event_create (mType k) = Some (KeyEvent KeyEvent_new)"
    using assms(1) KeyEvent by (auto simp: event_create_def)
  have r: "remains r (net_bytes 2 (mType k) @ net_bytes 4 (of_nat (mKey k) :: u32)
     @ net_bytes 4 (of_int (mModifierMask k) :: u32) @ net_bytes 8 (mTime k) @ mAsciiKey k # bs)"
    using assms(2) KeyEvent by (simp add: int_bytes_def)
  have ok: "event_ok (KeyEvent k)" using assms(1) KeyEvent by simp
  show ?thesis
    unfolding read_event_def
    by (rule bind_reads(2) [OF r])
       (simp add: created read_key_event_returns [OF ok] advance_advance KeyEvent KeyEvent_new_def)
next
  case (MouseEvent m)
  have created: "event_create (mType m) = Some (MouseEvent MouseEvent_new)"
    using assms(1) MouseEvent by (auto simp: event_create_def event_type_defs)
  have r: "remains r (net_bytes 2 (mType m) @ net_bytes 4 (of_nat (mButton m) :: u32)
      @ net_bytes 4 (of_int (mRelativeX m) :: u32)
      @ net_bytes 4 (of_int (mRelativeY m) :: u32) @ net_bytes 4 (of_int (mGlobalX m) :: u32)
      @ net_bytes 4 (of_int (mGlobalY m) :: u32) @ net_bytes 4 (mScrollDeltaX m)
      @ net_bytes 4 (mScrollDeltaY m) @ net_bytes 4 (of_int (mState m) :: u32) @ bs)"
    using assms(2) MouseEvent by (simp add: int_bytes_def)
  have ok: "event_ok (MouseEvent m)" using assms(1) MouseEvent by simp
  show ?thesis
    unfolding read_event_def
    by (rule bind_reads(2) [OF r])
       (simp add: created read_mouse_event_returns [OF ok] advance_advance MouseEvent MouseEvent_new_def)
qed
text \<open>Events are a codec for the values a remote node can hold.\<close>

interpretation event_codec: serial_codec
    "\<lambda>e w. Inr (write_event le e w)" "read_event le'" event_bytes "\<lambda>e. event_ok e \<and> remote_event e = e"
  for le le'
  by unfold_locales (auto simp: write_event_emits read_event_returns)

lemma read_events_returns:
  assumes "\<forall>e \<in> set es. event_ok e" and "remains r (concat (map event_bytes es) @ bs)"
  shows "read_events le (length es) r km =
    (Inr (advance (length (concat (map event_bytes es))) r),
     km\<lparr>mWorkingEventQueue := mWorkingEventQueue km @ map remote_event es\<rparr>)"
  using assms
proof (induction es arbitrary: r km)
  case Nil
  then show ?case by simp
next
  case (Cons e es)
  from Cons.prems(2) have r: "remains r (event_bytes e @ (concat (map event_bytes es) @ bs))" by simp
  show ?case
    using Cons.prems(1) Cons.IH [OF _ remains_advance [OF r]] read_event_returns [OF _ r]
    by (simp add: advance_advance addEvent_def)
qed

lemma fold_write_events: "fold (write_event le) es w = emit (concat (map event_bytes es)) w"
  by (induction es arbitrary: w) (simp_all add: write_event_emits emit_emit)

lemma fold_write_keys:
  "fold (\<lambda>i. writeUint32 le (of_int (f i))) is w = emit (concat (map (\<lambda>i. int_bytes (f i)) is)) w"
  by (induction "is" arbitrary: w) (simp_all add: serial_simps int_bytes_def)

lemma read_keys_returns:
  assumes "\<forall>v \<in> set vs. int32 v" and "remains r (concat (map int_bytes vs) @ bs)"
    and "i + length vs \<le> length (mCurKeys km)"
  shows "read_keys le (length vs) i r km =
    (Inr (advance (4 * length vs) r),
     km\<lparr>mCurKeys := take i (mCurKeys km) @ vs @ drop (i + length vs) (mCurKeys km)\<rparr>)"
  using assms
proof (induction vs arbitrary: i r km)
  case Nil
  then show ?case by simp
next
  case (Cons v vs)
  have r: "remains r (net_bytes 4 (of_int v :: u32) @ concat (map int_bytes vs) @ bs)"
    using Cons.prems(2) by (simp add: int_bytes_def [of v])
  let ?km = "km\<lparr>mCurKeys := (mCurKeys km)[i := v]\<rparr>"
  have "take (i + 1) (mCurKeys ?km) @ vs @ drop (i + 1 + length vs) (mCurKeys ?km)
      = take i (mCurKeys km) @ (v # vs) @ drop (i + length (v # vs)) (mCurKeys km)"
    using Cons.prems(3) by (simp add: take_Suc_conv_app_nth)
  then show ?case
    using Cons.prems(1,3) Cons.IH [OF _ remains_advance [OF r, simplified], of "i + 1" ?km] read_word_remains(3) [OF r, of le]
    by (simp add: sint_of_int32 advance_advance)
qed

definition km_ok :: "'a keyboard_mouse_scheme \<Rightarrow> bool" where
  "km_ok km \<longleftrightarrow> length (mCurKeys km) = LAST_KEY \<and> list_all int32 (mCurKeys km)
     \<and> list_all event_ok (mCurEventQueue km) \<and> length (mCurEventQueue km) < 2 ^ 16"

definition km_bytes :: "'a keyboard_mouse_scheme \<Rightarrow> u8 list" where
  "km_bytes km = net_bytes 2 MSG_DATA_EVENT_WINDOW @ net_bytes 8 (mMicroSeconds (mSyncTime km))
     @ net_bytes 2 (of_nat LAST_KEY :: u16) @ concat (map int_bytes (mCurKeys km))
     @ net_bytes 2 (of_nat (length (mCurEventQueue km)) :: u16)
     @ concat (map event_bytes (mCurEventQueue km))"

lemma km_writeObject_emits:
  assumes "length (mCurKeys km) = LAST_KEY"
  shows "km_writeObject le km w = emit (km_bytes km) w"
proof -
  have "map (\<lambda>i. int_bytes (mCurKeys km ! i)) [0..<LAST_KEY] = map int_bytes (mCurKeys km)"
    using assms by (auto intro: nth_equalityI)
  then show ?thesis
    by (simp add: km_writeObject_def km_bytes_def Let_def serial_simps fold_write_keys
        fold_write_events getBaseVal_def del: LAST_KEY_value)
qed

lemma length_event_bytes: "length (event_bytes e) \<le> 34"
  by (cases e) simp_all

lemma length_km_bytes:
  assumes "km_ok km"
  shows "length (km_bytes km) < 2 ^ 32"
proof -
  have "length (concat (map event_bytes es)) \<le> 34 * length es" for es
    by (induction es) (simp_all add: le_trans [OF add_mono [OF length_event_bytes]])
  moreover have "length (concat (map int_bytes vs)) = 4 * length vs" for vs
    by (induction vs) simp_all
  ultimately show ?thesis
    using assms le_trans [of "length (concat (map event_bytes (mCurEventQueue km)))"
        "34 * length (mCurEventQueue km)" "34 * 2 ^ 16"]
    by (simp add: km_bytes_def km_ok_def)
qed
lemma km_readObject_returns:
  assumes "km_ok km" and "length (mCurKeys km') = LAST_KEY" and r: "remains r (km_bytes km @ bs)"
  shows "km_readObject le now r km' =
      (Inr (advance (length (km_bytes km)) r),
       km'\<lparr>mCurKeys := mCurKeys km,
           mCurEventQueue := mWorkingEventQueue km' @ map remote_event (mCurEventQueue km),
           mWorkingEventQueue := [], mSyncTime := mSyncTime km\<rparr>)"
proof -
  have lens: "length (mCurKeys km) = 157" "unat (of_nat (length (mCurEventQueue km)) :: u16) = length (mCurEventQueue km)"
    using assms(1) by (simp_all add: km_ok_def unat_of_nat)
  have ok: "\<forall>v \<in> set (mCurKeys km). int32 v" "\<forall>e \<in> set (mCurEventQueue km). event_ok e"
    using assms(1) by (simp_all add: km_ok_def list_all_iff)
  let ?es = "concat (map event_bytes (mCurEventQueue km))"
  let ?tail = "net_bytes 2 (of_nat (length (mCurEventQueue km)) :: u16) @ ?es @ bs"
  let ?km = "km'\<lparr>mCurKeys := mCurKeys km\<rparr>"
  have r0: "remains r (net_bytes 2 MSG_DATA_EVENT_WINDOW @ net_bytes 8 (mMicroSeconds (mSyncTime km))
      @ net_bytes 2 (157 :: u16) @ concat (map int_bytes (mCurKeys km)) @ ?tail)"
    using r by (simp add: km_bytes_def)
  let ?r = "advance 12 r"
  note r1 = remains_advance [OF r0, simplified]
  note r2 = remains_advance [OF r1, simplified advance_advance, simplified]
  note r3 = remains_advance [OF r2, simplified advance_advance, simplified]
  have keys: "read_keys le 157 0 ?r km' = (Inr (advance 628 ?r), ?km)"
    using read_keys_returns [OF ok(1) r3, of 0 km' le] assms(2) lens by simp
  have four: "length (concat (map int_bytes vs)) = 4 * length vs" for vs by (induction vs) simp_all
  then have r4: "remains (advance 628 ?r) ?tail"
    using remains_advance [OF r3] lens by simp
  note r5 = remains_advance [OF r4, simplified]
  have events: "read_events le (length (mCurEventQueue km)) (advance 2 (advance 628 ?r)) ?km =
      (Inr (advance (length ?es) (advance 2 (advance 628 ?r))),
       ?km\<lparr>mWorkingEventQueue := mWorkingEventQueue km' @ map remote_event (mCurEventQueue km)\<rparr>)"
    using read_events_returns [OF ok(2), of "advance 2 (advance 628 ?r)" bs le ?km] r5 by simp
  have "length (km_bytes km) = 642 + length ?es" using four lens by (simp add: km_bytes_def)
  moreover have "interval_set (mMicroSeconds (mSyncTime km)) Base = mSyncTime km" by simp
  ultimately show ?thesis
    using read_word_remains(2) [OF r0, of le] read_word_remains(4) [OF r1, of le]
      read_word_remains(2) [OF r2, of le] keys read_word_remains(2) [OF r4, of le] events lens
    by (simp add: km_readObject_def advance_advance updateEventQueue_def)
qed

text \<open>
  C34. A frame of keyboard and mouse input reaches a remote node: whatever the byte orders of the
  two hosts, the node's key counts and synchronization time become the sender's, and its
  event queue becomes the sender's events in order, each in its remote form, behind any
  events the node had in work; the whole message is consumed.
\<close>

theorem keyboard_frame_roundtrip:
  assumes "km_ok km" and "length (mCurKeys km') = LAST_KEY"
  shows "\<exists>r. km_readObject le' now (reader_on (wData (km_writeObject le km writer_new)) 0) km' =
      (Inr r, km'\<lparr>mCurKeys := mCurKeys km,
                  mCurEventQueue := mWorkingEventQueue km' @ map remote_event (mCurEventQueue km),
                  mWorkingEventQueue := [], mSyncTime := mSyncTime km\<rparr>)
    \<and> remains r []"
proof -
  have "length (mCurKeys km) = LAST_KEY" using assms(1) by (simp add: km_ok_def)
  then have w: "wData (km_writeObject le km writer_new) = km_bytes km"
    by (simp add: km_writeObject_emits writer_new_def del: LAST_KEY_value)
  have r: "remains (reader_on (km_bytes km) 0) (km_bytes km @ [])"
    using remains_reader_on [OF length_km_bytes [OF assms(1)]] by simp
  show ?thesis
    unfolding w using km_readObject_returns [OF assms r] remains_advance [OF r] by simp
qed

definition example_frame :: keyboard_mouse where
  "example_frame = updateEventQueue (Interval 77)
     (addEvent (MouseEvent (MouseEvent_new\<lparr>mType := MouseMoveEvent, mTime := 5, mRelativeX := -3\<rparr>))
       (addEvent (KeyEvent (KeyEvent_new\<lparr>mType := KeyPressEvent, mTime := 4, mKey := key ''KEY_A''\<rparr>))
         KeyboardMouse_new))"

theorem keyboard_frame_roundtrip_witness:
  "\<exists>km r. km_readObject False (Interval 90) (reader_on (wData (km_writeObject True example_frame writer_new)) 0)
       KeyboardMouse_new = (Inr r, km)
     \<and> mCurKeys km = mCurKeys example_frame \<and> mSyncTime km = Interval 77
     \<and> mCurEventQueue km =
         [KeyEvent (KeyEvent_new\<lparr>mType := KeyPressEvent, mTime := 4, mKey := key ''KEY_A''\<rparr>),
          MouseEvent (MouseEvent_new\<lparr>mType := MouseMoveEvent, mRelativeX := -3\<rparr>)]"
proof -
  have "list_all int32 (mCurKeys KeyboardMouse_new)"
    by (auto simp: KeyboardMouse_new_def list_all_iff int32_def dest: set_update_subset_insert [THEN subsetD])
  then have "km_ok example_frame" "length (mCurKeys KeyboardMouse_new) = LAST_KEY"
    by (simp_all add: km_ok_def example_frame_def updateEventQueue_def addEvent_def KeyboardMouse_new_def
        KeyEvent_new_def MouseEvent_new_def int32_def event_type_defs)
  from keyboard_frame_roundtrip [OF this, of False "Interval 90" True]
  show ?thesis
    by (auto simp: example_frame_def updateEventQueue_def addEvent_def KeyboardMouse_new_def
        KeyEvent_new_def MouseEvent_new_def)
qed

end
