(* ===== verification/InputArea.thy ===== *)
theory InputArea
  imports KeyboardMouse
begin

text \<open>
  Where key counts and events come from: \<^verbatim>\<open>KeyboardMouseDevice\<close>
  (\<^verbatim>\<open>modules/gadgeteer/gadget/Devices/KeyboardMouseDevice/KeyboardMouseDevice.cpp\<close>), which hands
  a frame's counts to the application, and \<^verbatim>\<open>InputArea\<close> and \<^verbatim>\<open>InputAreaXWin\<close>
  (\<^verbatim>\<open>InputArea.cpp\<close>, \<^verbatim>\<open>InputAreaXWin.cpp\<close>), which turn the events of an X window into counts,
  queued events and the state of the mouse lock.

  X is not part of the program: its events are the input, with keysyms named by their
  constants, modifier masks as lists of names and the first character of \<^verbatim>\<open>XLookupString\<close>'s
  buffer as a field; the requests sent to it are logged in \<open>xCalls\<close>.  The height of the root
  window is an argument.
\<close>

section \<open>The device\<close>

record km_device = keyboard_mouse +
  mKeys :: "int list"
  mRealkeys :: "int list"
  mUseButtonsForScrolling :: bool

text \<open>
  \<^verbatim>\<open>config\<close> copies the initial counts; \<^verbatim>\<open>updateData\<close> scales the four mouse counts (the product
  with the sensitivity, a \<^verbatim>\<open>float\<close>, is the argument \<open>scale\<close>), hands the counts over and starts
  the next frame with the keys that are down.
\<close>

definition km_device_config :: "bool \<Rightarrow> km_device \<Rightarrow> km_device" where
  "km_device_config scroll_as_buttons d =
     d\<lparr>mUseButtonsForScrolling := scroll_as_buttons, mRealkeys := mCurKeys d, mKeys := mCurKeys d\<rparr>"

definition scale_key :: "(int \<Rightarrow> int) \<Rightarrow> string \<Rightarrow> int list \<Rightarrow> int list" where
  "scale_key scale name keys = keys[key name := scale (keys ! key name)]"

definition updateData :: "(int \<Rightarrow> int) \<Rightarrow> interval \<Rightarrow> km_device \<Rightarrow> km_device" where
  "updateData scale now d =
     (let keys = scale_key scale ''MOUSE_NEGY'' (scale_key scale ''MOUSE_POSY''
                   (scale_key scale ''MOUSE_NEGX'' (scale_key scale ''MOUSE_POSX'' (mKeys d))))
      in updateEventQueue now (d\<lparr>mCurKeys := keys, mKeys := mRealkeys d\<rparr>))"

section \<open>Events and requests of X\<close>

datatype x_mod = ShiftMask | ControlMask | Mod1Mask | OtherMask
  | Button1Mask | Button2Mask | Button3Mask | Button4Mask | Button5Mask

record x_key =
  xkSym :: string
  xkX :: int
  xkY :: int
  xkState :: "x_mod list"
  xkTime :: u64
  xkChar :: u8

record x_pointer =
  xpX :: int
  xpY :: int
  xpXRoot :: int
  xpYRoot :: int
  xpState :: "x_mod list"
  xpTime :: u64

datatype x_event =
    KeyPress x_key | KeyRelease x_key
  | MotionNotify x_pointer
  | ButtonPress nat x_pointer | ButtonRelease nat x_pointer
  | ConfigureNotify u32 u32
  | OtherEvent

datatype x_call =
    XDefineCursor | XUndefineCursor | XWarpPointer int int
  | XGrabKeyboard | XUngrabKeyboard | XGrabPointer | XUngrabPointer

section \<open>The input area\<close>

datatype lock_state = Unlocked | Lock_LockKey | Lock_KeyDown | Lock_API

record input_area =
  areaId :: nat
  mAllowMouseLocking :: bool
  mLockState :: lock_state
  mLockStoredKey :: int
  mLockToggleKey :: int
  mLockXCenter :: u32
  mLockYCenter :: u32
  mWidth :: u32
  mHeight :: u32
  mEmptyCursorSet :: bool
  mPrevX :: int
  mPrevY :: int
  mKeyboardMouseDevice :: km_device
  xCalls :: "x_call list"

definition upd_device :: "(km_device \<Rightarrow> km_device) \<Rightarrow> input_area \<Rightarrow> input_area" where
  "upd_device f st = st\<lparr>mKeyboardMouseDevice := f (mKeyboardMouseDevice st)\<rparr>"

definition x_request :: "x_call list \<Rightarrow> input_area \<Rightarrow> input_area" where
  "x_request cs st = st\<lparr>xCalls := xCalls st @ cs\<rparr>"

text \<open>
  \<^verbatim>\<open>lockMouse\<close> with the position of the event it was called for, or \<^verbatim>\<open>NULL\<close>: then the centre is
  the last known position.
\<close>

definition x_lockMouse :: "(int \<times> int) option \<Rightarrow> input_area \<Rightarrow> input_area" where
  "x_lockMouse ev st =
     (let st = (case ev of
                  Some (x, y) \<Rightarrow> st\<lparr>mLockXCenter := of_int x, mLockYCenter := of_int y\<rparr>
                | None \<Rightarrow> st\<lparr>mLockXCenter := of_int (mPrevX st), mLockYCenter := of_int (mPrevY st)\<rparr>)
      in x_request ((if mEmptyCursorSet st then [XDefineCursor] else [])
           @ [XWarpPointer (sint (mLockXCenter st)) (sint (mLockYCenter st)), XGrabKeyboard, XGrabPointer]) st)"

definition x_unlockMouse :: "input_area \<Rightarrow> input_area" where
  "x_unlockMouse st =
     x_request ([XUngrabKeyboard, XUngrabPointer] @ (if mEmptyCursorSet st then [XUndefineCursor] else [])) st"

text \<open>The two calls an application may make.\<close>

definition lockMouse :: "input_area \<Rightarrow> input_area" where
  "lockMouse st = x_lockMouse None (st\<lparr>mLockState := Lock_API\<rparr>)"

definition unlockMouse :: "input_area \<Rightarrow> input_area" where
  "unlockMouse st = x_unlockMouse (st\<lparr>mLockState := Unlocked\<rparr>)"

text \<open>
  \<^verbatim>\<open>config\<close>: the device is looked up by name in the registry, which may not have it; the X
  window's control loop then locks a mouse that is to start locked.
\<close>

definition area_config :: "bool \<Rightarrow> int \<Rightarrow> bool \<Rightarrow> km_device option \<Rightarrow> input_area \<Rightarrow> bool \<times> input_area" where
  "area_config allow lock_key start_locked found st =
     (let st = st\<lparr>mAllowMouseLocking := allow, mLockToggleKey := lock_key\<rparr>;
          st = (if start_locked then st\<lparr>mLockState := Lock_LockKey\<rparr> else st)
      in case found of None \<Rightarrow> (False, st) | Some d \<Rightarrow> (True, st\<lparr>mKeyboardMouseDevice := d\<rparr>))"

definition initial_lock :: "input_area \<Rightarrow> input_area" where
  "initial_lock st = (if mLockState st = Lock_LockKey then x_lockMouse None st else st)"

definition updateOriginAndSize :: "u32 \<Rightarrow> u32 \<Rightarrow> input_area \<Rightarrow> input_area" where
  "updateOriginAndSize width height st = st\<lparr>mWidth := width, mHeight := height\<rparr>"

text \<open>
  Masks.  Keys and keysyms: the switch as a table (\<^verbatim>\<open>XK_BackTab\<close> is only compiled for terminals
  with 3270 keysyms and left out).
\<close>

definition mask_bit :: "x_mod \<Rightarrow> u32" where
  "mask_bit m = (case m of ShiftMask \<Rightarrow> 1 | ControlMask \<Rightarrow> 4 | Mod1Mask \<Rightarrow> 2 | OtherMask \<Rightarrow> 0
     | Button1Mask \<Rightarrow> 16 | Button2Mask \<Rightarrow> 32 | Button3Mask \<Rightarrow> 64 | Button4Mask \<Rightarrow> 128
     | Button5Mask \<Rightarrow> 256)"

definition getMask :: "x_mod list \<Rightarrow> u32" where
  "getMask state =
     fold (\<lambda>m acc. if m \<in> set state then or acc (mask_bit m) else acc)
       [ShiftMask, ControlMask, Mod1Mask, Button1Mask, Button2Mask, Button3Mask, Button4Mask,
        Button5Mask] 0"

definition getButtonMask :: "nat \<Rightarrow> u32" where
  "getButtonMask button =
     (if button = 1 then 16 else if button = 2 then 32 else if button = 3 then 64
      else if button = 4 then 128 else if button = 5 then 256 else 0)"

definition x_keys :: "(string \<times> string) list" where
  "x_keys =
    [(''XK_Up'', ''KEY_UP''), (''XK_Down'', ''KEY_DOWN''), (''XK_Left'', ''KEY_LEFT''),
     (''XK_Right'', ''KEY_RIGHT''), (''XK_Control_L'', ''KEY_CTRL''),
     (''XK_Control_R'', ''KEY_CTRL''), (''XK_Shift_L'', ''KEY_SHIFT''),
     (''XK_Shift_R'', ''KEY_SHIFT''), (''XK_Alt_L'', ''KEY_ALT''), (''XK_Alt_R'', ''KEY_ALT''),
     (''XK_1'', ''KEY_1''), (''XK_KP_1'', ''KEY_1''), (''XK_KP_End'', ''KEY_1''),
     (''XK_2'', ''KEY_2''), (''XK_KP_2'', ''KEY_2''), (''XK_KP_Down'', ''KEY_2''),
     (''XK_3'', ''KEY_3''), (''XK_KP_3'', ''KEY_3''), (''XK_KP_Page_Down'', ''KEY_3''),
     (''XK_4'', ''KEY_4''), (''XK_KP_4'', ''KEY_4''), (''XK_KP_Left'', ''KEY_4''),
     (''XK_5'', ''KEY_5''), (''XK_KP_5'', ''KEY_5''), (''XK_KP_Begin'', ''KEY_5''),
     (''XK_6'', ''KEY_6''), (''XK_KP_6'', ''KEY_6''), (''XK_KP_Right'', ''KEY_6''),
     (''XK_7'', ''KEY_7''), (''XK_KP_7'', ''KEY_7''), (''XK_KP_Home'', ''KEY_7''),
     (''XK_8'', ''KEY_8''), (''XK_KP_8'', ''KEY_8''), (''XK_KP_Up'', ''KEY_8''),
     (''XK_9'', ''KEY_9''), (''XK_KP_9'', ''KEY_9''), (''XK_KP_Page_Up'', ''KEY_9''),
     (''XK_0'', ''KEY_0''), (''XK_KP_0'', ''KEY_0''), (''XK_KP_Insert'', ''KEY_0''),
     (''XK_A'', ''KEY_A''), (''XK_B'', ''KEY_B''), (''XK_C'', ''KEY_C''),
     (''XK_D'', ''KEY_D''), (''XK_E'', ''KEY_E''), (''XK_F'', ''KEY_F''),
     (''XK_G'', ''KEY_G''), (''XK_H'', ''KEY_H''), (''XK_I'', ''KEY_I''),
     (''XK_J'', ''KEY_J''), (''XK_K'', ''KEY_K''), (''XK_L'', ''KEY_L''),
     (''XK_M'', ''KEY_M''), (''XK_N'', ''KEY_N''), (''XK_O'', ''KEY_O''),
     (''XK_P'', ''KEY_P''), (''XK_Q'', ''KEY_Q''), (''XK_R'', ''KEY_R''),
     (''XK_S'', ''KEY_S''), (''XK_T'', ''KEY_T''), (''XK_U'', ''KEY_U''),
     (''XK_V'', ''KEY_V''), (''XK_W'', ''KEY_W''), (''XK_X'', ''KEY_X''),
     (''XK_Y'', ''KEY_Y''), (''XK_Z'', ''KEY_Z''), (''XK_a'', ''KEY_A''),
     (''XK_b'', ''KEY_B''), (''XK_c'', ''KEY_C''), (''XK_d'', ''KEY_D''),
     (''XK_e'', ''KEY_E''), (''XK_f'', ''KEY_F''), (''XK_g'', ''KEY_G''),
     (''XK_h'', ''KEY_H''), (''XK_i'', ''KEY_I''), (''XK_j'', ''KEY_J''),
     (''XK_k'', ''KEY_K''), (''XK_l'', ''KEY_L''), (''XK_m'', ''KEY_M''),
     (''XK_n'', ''KEY_N''), (''XK_o'', ''KEY_O''), (''XK_p'', ''KEY_P''),
     (''XK_q'', ''KEY_Q''), (''XK_r'', ''KEY_R''), (''XK_s'', ''KEY_S''),
     (''XK_t'', ''KEY_T''), (''XK_u'', ''KEY_U''), (''XK_v'', ''KEY_V''),
     (''XK_w'', ''KEY_W''), (''XK_x'', ''KEY_X''), (''XK_y'', ''KEY_Y''),
     (''XK_z'', ''KEY_Z''), (''XK_Escape'', ''KEY_ESC''), (''XK_Tab'', ''KEY_TAB''),
     (''XK_BackSpace'', ''KEY_BACKSPACE''), (''XK_Return'', ''KEY_RETURN''),
     (''XK_KP_Enter'', ''KEY_RETURN''), (''XK_Insert'', ''KEY_INSERT''),
     (''XK_Delete'', ''KEY_DELETE''), (''XK_Pause'', ''KEY_PAUSE''),
     (''XK_Print'', ''KEY_PRINT''), (''XK_Sys_Req'', ''KEY_SYSREQ''),
     (''XK_Home'', ''KEY_HOME''), (''XK_End'', ''KEY_END''), (''XK_Prior'', ''KEY_PRIOR''),
     (''XK_Next'', ''KEY_NEXT''), (''XK_Caps_Lock'', ''KEY_CAPS_LOCK''),
     (''XK_Num_Lock'', ''KEY_NUM_LOCK''), (''XK_Scroll_Lock'', ''KEY_SCROLL_LOCK''),
     (''XK_F1'', ''KEY_F1''), (''XK_F2'', ''KEY_F2''), (''XK_F3'', ''KEY_F3''),
     (''XK_F4'', ''KEY_F4''), (''XK_F5'', ''KEY_F5''), (''XK_F6'', ''KEY_F6''),
     (''XK_F7'', ''KEY_F7''), (''XK_F8'', ''KEY_F8''), (''XK_F9'', ''KEY_F9''),
     (''XK_F10'', ''KEY_F10''), (''XK_F11'', ''KEY_F11''), (''XK_F12'', ''KEY_F12''),
     (''XK_F13'', ''KEY_F13''), (''XK_F14'', ''KEY_F14''), (''XK_F15'', ''KEY_F15''),
     (''XK_F16'', ''KEY_F16''), (''XK_F17'', ''KEY_F17''), (''XK_F18'', ''KEY_F18''),
     (''XK_F19'', ''KEY_F19''), (''XK_F20'', ''KEY_F20''), (''XK_F21'', ''KEY_F21''),
     (''XK_F22'', ''KEY_F22''), (''XK_F23'', ''KEY_F23''), (''XK_F24'', ''KEY_F24''),
     (''XK_F25'', ''KEY_F25''), (''XK_F26'', ''KEY_F26''), (''XK_F27'', ''KEY_F27''),
     (''XK_F28'', ''KEY_F28''), (''XK_F29'', ''KEY_F29''), (''XK_F30'', ''KEY_F30''),
     (''XK_F31'', ''KEY_F31''), (''XK_F32'', ''KEY_F32''), (''XK_F33'', ''KEY_F33''),
     (''XK_F34'', ''KEY_F34''), (''XK_F35'', ''KEY_F35''), (''XK_Super_L'', ''KEY_SUPER_L''),
     (''XK_Super_R'', ''KEY_SUPER_R''), (''XK_Menu'', ''KEY_MENU''),
     (''XK_Hyper_L'', ''KEY_HYPER_L''), (''XK_Hyper_R'', ''KEY_HYPER_R''),
     (''XK_Help'', ''KEY_HELP''), (''XK_KP_Space'', ''KEY_SPACE''),
     (''XK_space'', ''KEY_SPACE''), (''XK_exclam'', ''KEY_EXCLAM''),
     (''XK_quotedbl'', ''KEY_QUOTE_DBL''), (''XK_numbersign'', ''KEY_NUMBER_SIGN''),
     (''XK_dollar'', ''KEY_DOLLAR''), (''XK_percent'', ''KEY_PERCENT''),
     (''XK_ampersand'', ''KEY_AMPERSAND''), (''XK_parenleft'', ''KEY_PAREN_LEFT''),
     (''XK_parenright'', ''KEY_PAREN_RIGHT''), (''XK_asterisk'', ''KEY_ASTERISK''),
     (''XK_plus'', ''KEY_PLUS''), (''XK_comma'', ''KEY_COMMA''), (''XK_minus'', ''KEY_MINUS''),
     (''XK_period'', ''KEY_PERIOD''), (''XK_slash'', ''KEY_SLASH''),
     (''XK_colon'', ''KEY_COLON''), (''XK_semicolon'', ''KEY_SEMICOLON''),
     (''XK_less'', ''KEY_LESS''), (''XK_equal'', ''KEY_EQUAL''),
     (''XK_greater'', ''KEY_GREATER''), (''XK_question'', ''KEY_QUESTION''),
     (''XK_at'', ''KEY_AT''), (''XK_bracketleft'', ''KEY_BRACKET_LEFT''),
     (''XK_backslash'', ''KEY_BACKSLASH''), (''XK_bracketright'', ''KEY_BRACKET_RIGHT''),
     (''XK_asciicircum'', ''KEY_ASCII_CIRCUM''), (''XK_underscore'', ''KEY_UNDERSCORE''),
     (''XK_quoteleft'', ''KEY_QUOTE_LEFT''), (''XK_braceleft'', ''KEY_BRACE_LEFT''),
     (''XK_bar'', ''KEY_BAR''), (''XK_braceright'', ''KEY_BRACE_RIGHT''),
     (''XK_asciitilde'', ''KEY_ASCII_TILDE'')]"

definition xKeyToKey :: "string \<Rightarrow> nat" where
  "xKeyToKey xKey = (case map_of x_keys xKey of Some name \<Rightarrow> key name | None \<Rightarrow> key ''KEY_UNKNOWN'')"

section \<open>Handling events\<close>

definition addKeyEvent :: "nat \<Rightarrow> u16 \<Rightarrow> x_key \<Rightarrow> input_area \<Rightarrow> input_area" where
  "addKeyEvent k type event st =
     upd_device (addEvent (KeyEvent \<lparr>mType = type, mTime = xkTime event, mSource = Some (areaId st),
       mKey = k, mModifierMask = sint (getMask (xkState event)), mAsciiKey = xkChar event,
       mUnicodeKey = ucast (xkChar event)\<rparr>)) st"

text \<open>
  A mouse event's position counts from the bottom of the window: \<^verbatim>\<open>mHeight - event.y\<close> is
  unsigned and becomes an \<^verbatim>\<open>int\<close> again.
\<close>

definition add_mouse_event :: "int \<Rightarrow> u16 \<Rightarrow> nat \<Rightarrow> u32 \<Rightarrow> u32 \<Rightarrow> u32 \<Rightarrow> x_pointer \<Rightarrow> input_area \<Rightarrow> input_area" where
  "add_mouse_event rootH type button dx dy modifiers event st =
     upd_device (addEvent (MouseEvent \<lparr>mType = type, mTime = xpTime event, mSource = Some (areaId st),
       mButton = button, mRelativeX = xpX event, mRelativeY = sint (mHeight st - of_int (xpY event)),
       mGlobalX = xpXRoot event, mGlobalY = rootH - xpYRoot event, mScrollDeltaX = dx,
       mScrollDeltaY = dy, mState = sint modifiers\<rparr>)) st"

definition addMouseMoveEvent :: "int \<Rightarrow> x_pointer \<Rightarrow> input_area \<Rightarrow> input_area" where
  "addMouseMoveEvent rootH event st =
     add_mouse_event rootH MouseMoveEvent (key ''NO_MBUTTON'') 0 0 (getMask (xpState event)) event st"

definition addMouseButtonEvent :: "int \<Rightarrow> nat \<Rightarrow> u16 \<Rightarrow> nat \<Rightarrow> x_pointer \<Rightarrow> input_area \<Rightarrow> input_area" where
  "addMouseButtonEvent rootH gadget_button type button event st =
     add_mouse_event rootH type gadget_button 0 0
       (or (getButtonMask button) (getMask (xpState event))) event st"

text \<open>A key or button goes down, comes up.\<close>

definition press :: "nat \<Rightarrow> km_device \<Rightarrow> km_device" where
  "press k d = d\<lparr>mRealkeys := (mRealkeys d)[k := 1], mKeys := (mKeys d)[k := mKeys d ! k + 1]\<rparr>"

definition release :: "nat \<Rightarrow> km_device \<Rightarrow> km_device" where
  "release k d = d\<lparr>mRealkeys := (mRealkeys d)[k := 0]\<rparr>"

definition move_by :: "string \<Rightarrow> int \<Rightarrow> km_device \<Rightarrow> km_device" where
  "move_by name n d = d\<lparr>mKeys := (mKeys d)[key name := mKeys d ! key name + n]\<rparr>"

text \<open>The lock's part of a key press and of a key release.\<close>

definition lock_key_press :: "nat \<Rightarrow> int \<times> int \<Rightarrow> input_area \<Rightarrow> input_area" where
  "lock_key_press vj_key pos st =
     (if vj_key = key ''KEY_ESC'' then
        (if mLockState st \<noteq> Unlocked then st\<lparr>mLockState := Unlocked\<rparr> else st)
      else if mLockState st = Unlocked then
        (if int vj_key \<noteq> mLockToggleKey st
            \<and> vj_key \<in> {key ''KEY_ALT'', key ''KEY_CTRL'', key ''KEY_SHIFT''}
         then x_lockMouse (Some pos) (st\<lparr>mLockState := Lock_KeyDown, mLockStoredKey := int vj_key\<rparr>)
         else if int vj_key = mLockToggleKey st
         then x_lockMouse (Some pos) (st\<lparr>mLockState := Lock_LockKey\<rparr>) else st)
      else if mLockState st = Lock_KeyDown \<and> int vj_key = mLockToggleKey st
      then st\<lparr>mLockState := Lock_LockKey\<rparr>
      else if mLockState st = Lock_LockKey \<and> int vj_key = mLockToggleKey st
      then x_unlockMouse (st\<lparr>mLockState := Unlocked\<rparr>)
      else st)"

definition handle_key_press :: "x_key \<Rightarrow> input_area \<Rightarrow> input_area" where
  "handle_key_press event st =
     (let vj_key = xKeyToKey (xkSym event);
          st = upd_device (press vj_key) st;
          st = addKeyEvent vj_key KeyPressEvent event st
      in if mAllowMouseLocking st then lock_key_press vj_key (xkX event, xkY event) st else st)"

definition handle_key_release :: "x_key \<Rightarrow> input_area \<Rightarrow> input_area" where
  "handle_key_release event st =
     (let vj_key = xKeyToKey (xkSym event);
          st = upd_device (release vj_key) st;
          st = addKeyEvent vj_key KeyReleaseEvent event st
      in if mAllowMouseLocking st \<and> mLockState st = Lock_KeyDown \<and> int vj_key = mLockStoredKey st
         then x_unlockMouse (st\<lparr>mLockState := Unlocked\<rparr>) else st)"

definition handle_motion :: "int \<Rightarrow> x_pointer \<Rightarrow> input_area \<Rightarrow> input_area" where
  "handle_motion rootH event st =
     (let cur_x = xpX event; cur_y = xpY event;
          st = addMouseMoveEvent rootH event st;
          (dx, dy, st) =
            (if mLockState st = Unlocked
             then (cur_x - mPrevX st, cur_y - mPrevY st, st\<lparr>mPrevX := cur_x, mPrevY := cur_y\<rparr>)
             else let win_center_x = sint (mLockXCenter st); win_center_y = sint (mLockYCenter st);
                      dx = cur_x - win_center_x; dy = cur_y - win_center_y;
                      st = st\<lparr>mPrevX := win_center_x, mPrevY := win_center_y\<rparr>
                  in (dx, dy, if dx \<noteq> 0 \<or> dy \<noteq> 0
                              then x_request [XWarpPointer win_center_x win_center_y] st else st));
          st = upd_device (if dx > 0 then move_by ''MOUSE_POSX'' dx else move_by ''MOUSE_NEGX'' (- dx)) st
      in upd_device (if dy > 0 then move_by ''MOUSE_POSY'' dy else move_by ''MOUSE_NEGY'' (- dy)) st)"

definition button_key :: "nat \<Rightarrow> nat" where
  "button_key button =
     (if button = 1 then key ''MBUTTON1'' else if button = 2 then key ''MBUTTON2''
      else if button = 3 then key ''MBUTTON3'' else if button = 4 then key ''MBUTTON4''
      else if button = 5 then key ''MBUTTON5'' else if button = 6 then key ''MBUTTON6''
      else if button = 7 then key ''MBUTTON7'' else if button = 8 then key ''MBUTTON8''
      else if button = 9 then key ''MBUTTON9'' else key ''KEY_UNKNOWN'')"

definition handleMouseButtonEvent :: "int \<Rightarrow> bool \<Rightarrow> nat \<Rightarrow> x_pointer \<Rightarrow> input_area \<Rightarrow> input_area" where
  "handleMouseButtonEvent rootH pressed button event st =
     (let gadget_button = button_key button
      in if gadget_button \<noteq> key ''KEY_UNKNOWN'' then
           (if pressed
            then let st = x_request [XGrabPointer] (upd_device (press gadget_button) st)
                 in addMouseButtonEvent rootH gadget_button MouseButtonPressEvent button event st
            else let st = x_request [XUngrabPointer] (upd_device (release gadget_button) st)
                 in addMouseButtonEvent rootH gadget_button MouseButtonReleaseEvent button event st)
         else st)"

text \<open>The scroll deltas \<^verbatim>\<open>1.0f\<close> and \<^verbatim>\<open>-1.0f\<close> are IEEE bit patterns.\<close>

definition scroll_button :: "nat \<Rightarrow> nat \<times> u32 \<times> u32" where
  "scroll_button button =
     (if button = 4 then (key ''MOUSE_SCROLL_UP'', 0, 0x3F800000)
      else if button = 5 then (key ''MOUSE_SCROLL_DOWN'', 0, 0xBF800000)
      else if button = 6 then (key ''MOUSE_SCROLL_LEFT'', 0xBF800000, 0)
      else if button = 7 then (key ''MOUSE_SCROLL_RIGHT'', 0x3F800000, 0)
      else (key ''KEY_UNKNOWN'', 0, 0))"

definition handleMouseScrollEvent :: "int \<Rightarrow> bool \<Rightarrow> nat \<Rightarrow> x_pointer \<Rightarrow> input_area \<Rightarrow> input_area" where
  "handleMouseScrollEvent rootH pressed button event st =
     (let (scroll_key, delta_x, delta_y) = scroll_button button
      in if scroll_key \<noteq> key ''KEY_UNKNOWN'' then
           let st = upd_device (if pressed then press scroll_key else release scroll_key) st
           in add_mouse_event rootH MouseScrollEvent (key ''NO_MBUTTON'') delta_x delta_y
                (getMask (xpState event)) event st
         else st)"

definition handle_button :: "int \<Rightarrow> bool \<Rightarrow> nat \<Rightarrow> x_pointer \<Rightarrow> input_area \<Rightarrow> input_area" where
  "handle_button rootH pressed button event st =
     (if button \<in> {4, 5, 6, 7} then
        (if mUseButtonsForScrolling (mKeyboardMouseDevice st)
         then handleMouseButtonEvent rootH pressed button event st
         else handleMouseScrollEvent rootH pressed button event st)
      else handleMouseButtonEvent rootH pressed button event st)"

fun handleEvent :: "int \<Rightarrow> x_event \<Rightarrow> input_area \<Rightarrow> input_area" where
  "handleEvent rootH (KeyPress event) st = handle_key_press event st"
| "handleEvent rootH (KeyRelease event) st = handle_key_release event st"
| "handleEvent rootH (MotionNotify event) st = handle_motion rootH event st"
| "handleEvent rootH (ButtonPress button event) st = handle_button rootH True button event st"
| "handleEvent rootH (ButtonRelease button event) st = handle_button rootH False button event st"
| "handleEvent rootH (ConfigureNotify w h) st = updateOriginAndSize w h st"
| "handleEvent rootH OtherEvent st = st"

text \<open>\<^verbatim>\<open>handleEvents\<close>: all events that wait, with the keys of the device locked.\<close>

definition handleEvents :: "int \<Rightarrow> x_event list \<Rightarrow> input_area \<Rightarrow> input_area" where
  "handleEvents rootH events st = fold (handleEvent rootH) events st"
section \<open>Which keys an event presses and releases\<close>

lemma x_keys_known: "set (map snd x_keys) \<subseteq> set (take 157 Keys)"
  by (simp add: x_keys_def Keys_def)

lemma key_less: "name \<in> set (take n Keys) \<Longrightarrow> key name < n"
proof -
  assume "name \<in> set (take n Keys)"
  then obtain i where "i < n" "i < length Keys" "Keys ! i = name" by (auto simp: in_set_conv_nth)
  then have "length (takeWhile (\<lambda>m. m \<noteq> name) Keys) \<le> i"
    by (metis (full_types) length_takeWhile_less_P_nth linorder_not_le set_takeWhileD takeWhile_nth nth_mem)
  then show ?thesis using \<open>i < n\<close> by (simp add: key_def)
qed

text \<open>No keysym leads outside the arrays.\<close>

lemma xKeyToKey_less: "xKeyToKey s < LAST_KEY"
proof (cases "map_of x_keys s")
  case (Some name)
  then have "name \<in> set (map snd x_keys)" by (force dest: map_of_SomeD)
  then have "key name < 157" using x_keys_known by (intro key_less) blast
  then show ?thesis using Some by (simp add: xKeyToKey_def)
qed (simp add: xKeyToKey_def)

fun key_action :: "bool \<Rightarrow> x_event \<Rightarrow> (nat \<times> bool) option" where
  "key_action scrollButtons (KeyPress e) = Some (xKeyToKey (xkSym e), True)"
| "key_action scrollButtons (KeyRelease e) = Some (xKeyToKey (xkSym e), False)"
| "key_action scrollButtons (ButtonPress b e) =
     (let k = (if b \<in> {4, 5, 6, 7} \<and> \<not> scrollButtons then fst (scroll_button b) else button_key b)
      in if k = key ''KEY_UNKNOWN'' then None else Some (k, True))"
| "key_action scrollButtons (ButtonRelease b e) =
     (let k = (if b \<in> {4, 5, 6, 7} \<and> \<not> scrollButtons then fst (scroll_button b) else button_key b)
      in if k = key ''KEY_UNKNOWN'' then None else Some (k, False))"
| "key_action scrollButtons _ = None"

definition motion_keys :: "nat set" where
  "motion_keys = {key ''MOUSE_POSX'', key ''MOUSE_NEGX'', key ''MOUSE_POSY'', key ''MOUSE_NEGY''}"

abbreviation buttons_scroll :: "input_area \<Rightarrow> bool" where
  "buttons_scroll st \<equiv> mUseButtonsForScrolling (mKeyboardMouseDevice st)"

abbreviation counts :: "input_area \<Rightarrow> int list" where
  "counts st \<equiv> mKeys (mKeyboardMouseDevice st)"

abbreviation real_keys :: "input_area \<Rightarrow> int list" where
  "real_keys st \<equiv> mRealkeys (mKeyboardMouseDevice st)"

lemma device_of_lock [simp]:
  "mKeyboardMouseDevice (x_request cs st) = mKeyboardMouseDevice st"
  "mKeyboardMouseDevice (x_lockMouse pos st) = mKeyboardMouseDevice st"
  "mKeyboardMouseDevice (x_unlockMouse st) = mKeyboardMouseDevice st"
  by (auto simp: x_request_def x_lockMouse_def x_unlockMouse_def Let_def split: option.splits)

lemma device_of_lock_key [simp]:
  "mKeyboardMouseDevice (lock_key_press k p st) = mKeyboardMouseDevice st"
  by (simp add: lock_key_press_def)

lemma keys_of_add [simp]:
  "mKeys (addEvent e d) = mKeys d" "mRealkeys (addEvent e d) = mRealkeys d"
  "mUseButtonsForScrolling (addEvent e d) = mUseButtonsForScrolling d" "mCurKeys (addEvent e d) = mCurKeys d"
  by (simp_all add: addEvent_def)

lemma device_upd [simp]: "mKeyboardMouseDevice (upd_device f st) = f (mKeyboardMouseDevice st)"
  by (simp add: upd_device_def)

lemma keys_of_press [simp]:
  "mRealkeys (press k d) = (mRealkeys d)[k := 1]" "mRealkeys (release k d) = (mRealkeys d)[k := 0]"
  "mRealkeys (move_by name n d) = mRealkeys d" "mKeys (release k d) = mKeys d"
  "length (mKeys (press k d)) = length (mKeys d)" "length (mKeys (move_by name n d)) = length (mKeys d)"
  "mUseButtonsForScrolling (press k d) = mUseButtonsForScrolling d"
  "mUseButtonsForScrolling (release k d) = mUseButtonsForScrolling d"
  "mUseButtonsForScrolling (move_by name n d) = mUseButtonsForScrolling d"
  "mCurKeys (press k d) = mCurKeys d" "mCurKeys (release k d) = mCurKeys d"
  "mCurKeys (move_by name n d) = mCurKeys d"
  by (simp_all add: press_def release_def move_by_def)

lemma count_of_press:
  "mKeys (press k d) ! j = mKeys d ! j + (if j = k \<and> k < length (mKeys d) then 1 else 0)"
  "key name \<noteq> j \<Longrightarrow> mKeys (move_by name n d) ! j = mKeys d ! j"
  by (cases "j = k"; cases "k < length (mKeys d)"; simp add: press_def list_update_beyond)
     (simp add: move_by_def)

text \<open>What an event does to the device.\<close>

lemma device_key_press:
  "\<exists>e'. mKeyboardMouseDevice (handle_key_press ev st)
     = addEvent e' (press (xKeyToKey (xkSym ev)) (mKeyboardMouseDevice st))"
  by (auto simp: handle_key_press_def addKeyEvent_def Let_def)

lemma device_key_release:
  "\<exists>e'. mKeyboardMouseDevice (handle_key_release ev st)
     = addEvent e' (release (xKeyToKey (xkSym ev)) (mKeyboardMouseDevice st))"
  by (auto simp: handle_key_release_def addKeyEvent_def Let_def)

lemma device_button:
  assumes "k = (if b \<in> {4, 5, 6, 7} \<and> \<not> buttons_scroll st then fst (scroll_button b) else button_key b)"
  shows "if k = key ''KEY_UNKNOWN'' then mKeyboardMouseDevice (handle_button rootH p b ev st) = mKeyboardMouseDevice st
    else \<exists>e'. mKeyboardMouseDevice (handle_button rootH p b ev st)
      = addEvent e' ((if p then press else release) k (mKeyboardMouseDevice st))"
proof (cases "b \<in> {4, 5, 6, 7} \<and> \<not> buttons_scroll st")
  case True
  obtain dx dy where "scroll_button b = (k, dx, dy)"
    using assms True by (metis prod.collapse)
  then have "handle_button rootH p b ev st = (if k = key ''KEY_UNKNOWN'' then st else
      add_mouse_event rootH MouseScrollEvent (key ''NO_MBUTTON'') dx dy (getMask (xpState ev)) ev
        (upd_device (if p then press k else release k) st))"
    using True by (simp add: handle_button_def handleMouseScrollEvent_def Let_def)
  then show ?thesis by (auto simp: add_mouse_event_def)
next
  case False
  then have "handle_button rootH p b ev st = handleMouseButtonEvent rootH p b ev st" "k = button_key b"
    using assms by (auto simp: handle_button_def)
  then show ?thesis
    by (auto simp: handleMouseButtonEvent_def addMouseButtonEvent_def add_mouse_event_def Let_def)
qed

lemma device_motion:
  "real_keys (handle_motion rootH ev st) = real_keys st"
  "buttons_scroll (handle_motion rootH ev st) = buttons_scroll st"
  "length (counts (handle_motion rootH ev st)) = length (counts st)"
  "j \<notin> motion_keys \<Longrightarrow> counts (handle_motion rootH ev st) ! j = counts st ! j"
  by (simp_all add: handle_motion_def addMouseMoveEvent_def add_mouse_event_def Let_def split_def
      count_of_press(2) motion_keys_def)

lemma handleEvent_keys:
  "real_keys (handleEvent rootH ev st) =
     (case key_action (buttons_scroll st) ev of None \<Rightarrow> real_keys st
      | Some (k, p) \<Rightarrow> (real_keys st)[k := of_bool p])
   \<and> buttons_scroll (handleEvent rootH ev st) = buttons_scroll st
   \<and> length (counts (handleEvent rootH ev st)) = length (counts st)
   \<and> (j \<notin> motion_keys \<longrightarrow> counts (handleEvent rootH ev st) ! j = counts st ! j +
        (if key_action (buttons_scroll st) ev = Some (j, True) \<and> j < length (counts st) then 1 else 0))"
proof (cases ev)
  case (KeyPress e)
  then show ?thesis using device_key_press [of e st] by (auto simp: count_of_press)
next
  case (KeyRelease e)
  then show ?thesis using device_key_release [of e st] by (auto simp: count_of_press)
next
  case (ButtonPress b e)
  then show ?thesis using device_button [OF refl, of b st rootH True e]
    by (auto simp: count_of_press Let_def split: if_splits)
next
  case (ButtonRelease b e)
  then show ?thesis using device_button [OF refl, of b st rootH False e]
    by (auto simp: count_of_press Let_def split: if_splits)
qed (simp_all add: device_motion updateOriginAndSize_def)

end
