(* ===== verification/InputFrames.thy ===== *)
theory InputFrames
  imports InputArea
begin

text \<open>
  What an application sees of a keyboard and mouse: the key counts of a frame against the events
  that came in, and the mouse lock against the grabs that X holds.
\<close>

section \<open>Frames\<close>

text \<open>A frame: the waiting events are handled, then the device's data is updated.\<close>

definition run_frame :: "int \<Rightarrow> (int \<Rightarrow> int) \<Rightarrow> interval \<times> x_event list \<Rightarrow> input_area \<Rightarrow> input_area" where
  "run_frame rootH scale frame st =
     upd_device (updateData scale (fst frame)) (handleEvents rootH (snd frame) st)"

text \<open>
  What the counts are to mean, read off the events: whether a key is down after them, and how
  often it was pressed.
\<close>

fun key_down :: "bool \<Rightarrow> nat \<Rightarrow> x_event list \<Rightarrow> bool \<Rightarrow> bool" where
  "key_down b k [] down = down"
| "key_down b k (ev # evs) down = key_down b k evs
     (case key_action b ev of Some (k', p) \<Rightarrow> if k' = k then p else down | None \<Rightarrow> down)"

definition presses :: "bool \<Rightarrow> nat \<Rightarrow> x_event list \<Rightarrow> nat" where
  "presses b k evs = length (filter (\<lambda>ev. key_action b ev = Some (k, True)) evs)"

definition counts_start :: "bool \<Rightarrow> (nat \<Rightarrow> bool) \<Rightarrow> input_area \<Rightarrow> bool" where
  "counts_start b down st \<longleftrightarrow> buttons_scroll st = b \<and> length (counts st) = LAST_KEY
     \<and> length (real_keys st) = LAST_KEY
     \<and> (\<forall>k < LAST_KEY. real_keys st ! k = of_bool (down k)
          \<and> (k \<notin> motion_keys \<longrightarrow> counts st ! k = of_bool (down k)))"

lemma nth_update_in: "k < length xs \<Longrightarrow> xs[i := x] ! k = (if i = k then x else xs ! k)"
  by (cases "i = k") simp_all

lemma handleEvents_keys:
  assumes "length (real_keys st) = LAST_KEY" "length (counts st) = LAST_KEY" and "k < LAST_KEY"
    and "buttons_scroll st = b" and "real_keys st ! k = of_bool down"
  shows "buttons_scroll (handleEvents rootH evs st) = b
    \<and> length (counts (handleEvents rootH evs st)) = LAST_KEY
    \<and> length (real_keys (handleEvents rootH evs st)) = LAST_KEY
    \<and> real_keys (handleEvents rootH evs st) ! k = of_bool (key_down b k evs down)
    \<and> (k \<notin> motion_keys \<longrightarrow>
         counts (handleEvents rootH evs st) ! k = counts st ! k + int (presses b k evs))"
  using assms
proof (induction evs arbitrary: st down)
  case Nil
  then show ?case by (simp add: handleEvents_def presses_def)
next
  case (Cons ev evs)
  let ?st = "handleEvent rootH ev st"
  let ?down = "case key_action b ev of Some (k', p) \<Rightarrow> if k' = k then p else down | None \<Rightarrow> down"
  have "real_keys ?st ! k = of_bool ?down" "length (real_keys ?st) = LAST_KEY"
    using handleEvent_keys [of rootH ev st k] Cons.prems
    by (auto simp: nth_update_in split: option.splits)
  then show ?case
    using Cons.IH [of ?st ?down] handleEvent_keys [of rootH ev st k] Cons.prems
    by (simp add: handleEvents_def presses_def del: LAST_KEY_value)
qed

lemma scale_key_other:
  "k \<noteq> key name \<Longrightarrow> scale_key scale name keys ! k = keys ! k"
  "length (scale_key scale name keys) = length keys"
  by (simp_all add: scale_key_def)

lemma run_frame_keys:
  assumes "counts_start b down st"
  shows "counts_start b (\<lambda>k. key_down b k (snd frame) (down k)) (run_frame rootH scale frame st)"
    and "k < LAST_KEY \<Longrightarrow> k \<notin> motion_keys \<Longrightarrow>
      keyPressed k (mKeyboardMouseDevice (run_frame rootH scale frame st))
        = Inr (of_bool (down k) + int (presses b k (snd frame)))"
proof -
  have keys: "buttons_scroll (handleEvents rootH (snd frame) st) = b
    \<and> length (counts (handleEvents rootH (snd frame) st)) = LAST_KEY
    \<and> length (real_keys (handleEvents rootH (snd frame) st)) = LAST_KEY
    \<and> real_keys (handleEvents rootH (snd frame) st) ! j = of_bool (key_down b j (snd frame) (down j))
    \<and> (j \<notin> motion_keys \<longrightarrow> counts (handleEvents rootH (snd frame) st) ! j
         = of_bool (down j) + int (presses b j (snd frame)))" if "j < LAST_KEY" for j
    using handleEvents_keys [OF _ _ that, of st b "down j" rootH "snd frame"] assms that
    by (simp add: counts_start_def del: LAST_KEY_value)
  from keys [of 0] keys show "counts_start b (\<lambda>k. key_down b k (snd frame) (down k)) (run_frame rootH scale frame st)"
    by (simp add: counts_start_def run_frame_def updateData_def Let_def updateEventQueue_def)
  show "keyPressed k (mKeyboardMouseDevice (run_frame rootH scale frame st))
        = Inr (of_bool (down k) + int (presses b k (snd frame)))" if "k < LAST_KEY" "k \<notin> motion_keys"
    using keys [OF that(1)] that
    by (simp add: keyPressed_def run_frame_def updateData_def Let_def updateEventQueue_def
        scale_key_other motion_keys_def)
qed

lemma run_frames_start:
  "counts_start b down st \<Longrightarrow>
     counts_start b (\<lambda>k. key_down b k (concat (map snd frames)) (down k)) (fold (run_frame rootH scale) frames st)"
proof (induction frames arbitrary: st down)
  case Nil
  then show ?case by simp
next
  case (Cons f fs)
  have "key_down b k (evs @ evs') d = key_down b k evs' (key_down b k evs d)" for k evs evs' d
    by (induction evs arbitrary: d) simp_all
  then show ?case using Cons.IH [OF run_frame_keys(1) [OF Cons.prems, of f rootH scale]] by simp
qed
section \<open>The lock and X's grabs\<close>

text \<open>Whether X has the keyboard, the pointer grabbed after a sequence of requests.\<close>

definition keyboard_grabbed :: "x_call list \<Rightarrow> bool" where
  "keyboard_grabbed cs =
     fold (\<lambda>c g. if c = XGrabKeyboard then True else if c = XUngrabKeyboard then False else g) cs False"

definition pointer_grabbed :: "x_call list \<Rightarrow> bool" where
  "pointer_grabbed cs =
     fold (\<lambda>c g. if c = XGrabPointer then True else if c = XUngrabPointer then False else g) cs False"

lemma grabbed_simps [simp]:
  "keyboard_grabbed (cs @ [c]) =
     (if c = XGrabKeyboard then True else if c = XUngrabKeyboard then False else keyboard_grabbed cs)"
  "pointer_grabbed (cs @ [c]) =
     (if c = XGrabPointer then True else if c = XUngrabPointer then False else pointer_grabbed cs)"
  by (simp_all add: keyboard_grabbed_def pointer_grabbed_def)

lemma append_one: "cs @ c # c' # ds = (cs @ [c]) @ c' # ds"
  by simp

lemma grabbed_lock [simp]:
  "keyboard_grabbed (xCalls (x_lockMouse pos st))" "pointer_grabbed (xCalls (x_lockMouse pos st))"
  "\<not> keyboard_grabbed (xCalls (x_unlockMouse st))" "\<not> pointer_grabbed (xCalls (x_unlockMouse st))"
  by (auto simp: x_lockMouse_def x_unlockMouse_def x_request_def Let_def keyboard_grabbed_def
      pointer_grabbed_def split: option.splits)

lemma lock_fields [simp]:
  "mLockState (upd_device f st) = mLockState st" "xCalls (upd_device f st) = xCalls st"
  "mLockToggleKey (upd_device f st) = mLockToggleKey st"
  "mAllowMouseLocking (upd_device f st) = mAllowMouseLocking st"
  "mLockState (x_request cs st) = mLockState st" "xCalls (x_request cs st) = xCalls st @ cs"
  "mLockToggleKey (x_request cs st) = mLockToggleKey st"
  "mAllowMouseLocking (x_request cs st) = mAllowMouseLocking st"
  by (simp_all add: upd_device_def x_request_def)

lemma lock_state_requests [simp]:
  "mLockState (x_lockMouse pos st) = mLockState st" "mLockState (x_unlockMouse st) = mLockState st"
  "mLockToggleKey (x_lockMouse pos st) = mLockToggleKey st"
  "mAllowMouseLocking (x_lockMouse pos st) = mAllowMouseLocking st"
  "mLockToggleKey (x_unlockMouse st) = mLockToggleKey st"
  "mAllowMouseLocking (x_unlockMouse st) = mAllowMouseLocking st"
  by (auto simp: x_lockMouse_def x_unlockMouse_def Let_def split: option.splits)

text \<open>The mouse's events leave the lock and the keyboard alone.\<close>

lemma handle_motion_lock:
  "mLockState (handle_motion rootH e st) = mLockState st"
  "mLockToggleKey (handle_motion rootH e st) = mLockToggleKey st"
  "mAllowMouseLocking (handle_motion rootH e st) = mAllowMouseLocking st"
  "keyboard_grabbed (xCalls (handle_motion rootH e st)) = keyboard_grabbed (xCalls st)"
  "pointer_grabbed (xCalls (handle_motion rootH e st)) = pointer_grabbed (xCalls st)"
  by (simp_all add: handle_motion_def addMouseMoveEvent_def add_mouse_event_def Let_def split_def)

lemma handle_button_lock:
  "mLockState (handle_button rootH p b e st) = mLockState st"
  "mLockToggleKey (handle_button rootH p b e st) = mLockToggleKey st"
  "mAllowMouseLocking (handle_button rootH p b e st) = mAllowMouseLocking st"
  "keyboard_grabbed (xCalls (handle_button rootH p b e st)) = keyboard_grabbed (xCalls st)"
  "p \<Longrightarrow> pointer_grabbed (xCalls st) \<Longrightarrow> pointer_grabbed (xCalls (handle_button rootH p b e st))"
  by (simp_all add: handle_button_def handleMouseButtonEvent_def handleMouseScrollEvent_def
      addMouseButtonEvent_def add_mouse_event_def Let_def split_def)

definition key_of_press :: "x_event \<Rightarrow> nat option" where
  "key_of_press ev = (case ev of KeyPress e \<Rightarrow> Some (xKeyToKey (xkSym e)) | _ \<Rightarrow> None)"

definition lock_agrees :: "input_area \<Rightarrow> bool" where
  "lock_agrees st \<longleftrightarrow> (keyboard_grabbed (xCalls st) \<longleftrightarrow> mLockState st \<noteq> Unlocked)"

lemma lock_key_press_agrees:
  "lock_agrees st \<Longrightarrow> k \<noteq> key ''KEY_ESC'' \<Longrightarrow> lock_agrees (lock_key_press k pos st)"
  by (auto simp: lock_agrees_def lock_key_press_def)

lemma handleEvent_agrees:
  assumes "lock_agrees st" and "key_of_press ev \<noteq> Some (key ''KEY_ESC'')"
  shows "lock_agrees (handleEvent rootH ev st)"
proof (cases ev)
  case (KeyPress e)
  have "lock_agrees (addKeyEvent k t e (upd_device f st))" for k t f
    using assms(1) by (simp add: lock_agrees_def addKeyEvent_def)
  then show ?thesis
    using assms(2) KeyPress lock_key_press_agrees
    by (auto simp: handle_key_press_def Let_def key_of_press_def)
next
  case (KeyRelease e)
  then show ?thesis using assms(1) by (simp add: lock_agrees_def handle_key_release_def addKeyEvent_def Let_def)
qed (use assms(1) in \<open>simp_all add: lock_agrees_def handle_motion_lock handle_button_lock updateOriginAndSize_def\<close>)

text \<open>A press that can begin a lock: the toggle key, or one of the three modifiers.\<close>

definition may_lock :: "input_area \<Rightarrow> nat \<Rightarrow> bool" where
  "may_lock st k \<longleftrightarrow> int k = mLockToggleKey st \<or> k \<in> {key ''KEY_ALT'', key ''KEY_CTRL'', key ''KEY_SHIFT''}"

definition stale_grab :: "int \<Rightarrow> bool \<Rightarrow> input_area \<Rightarrow> bool" where
  "stale_grab toggle pointer st \<longleftrightarrow> mLockState st = Unlocked \<and> mLockToggleKey st = toggle
     \<and> keyboard_grabbed (xCalls st) \<and> (pointer \<longrightarrow> pointer_grabbed (xCalls st))"

lemma handleEvent_stale:
  assumes "stale_grab (mLockToggleKey st) pointer st"
    and "\<And>k. key_of_press ev = Some k \<Longrightarrow> \<not> may_lock st k"
    and "pointer \<Longrightarrow> \<forall>b e. ev \<noteq> ButtonRelease b e"
  shows "stale_grab (mLockToggleKey st) pointer (handleEvent rootH ev st)"
proof (cases ev)
  case (KeyPress e)
  then show ?thesis
    using assms(1,2) by (auto simp: stale_grab_def handle_key_press_def addKeyEvent_def Let_def
        lock_key_press_def may_lock_def key_of_press_def)
next
  case (KeyRelease e)
  then show ?thesis
    using assms(1) by (simp add: stale_grab_def handle_key_release_def addKeyEvent_def Let_def)
qed (use assms(1,3) in \<open>auto simp: stale_grab_def handle_motion_lock handle_button_lock updateOriginAndSize_def\<close>)
lemma handleEvents_stale:
  assumes "stale_grab (mLockToggleKey st) pointer st"
    and "\<And>ev k. ev \<in> set evs \<Longrightarrow> key_of_press ev = Some k \<Longrightarrow> \<not> may_lock st k"
    and "\<And>b e. pointer \<Longrightarrow> ButtonRelease b e \<notin> set evs"
  shows "stale_grab (mLockToggleKey st) pointer (handleEvents rootH evs st)"
  using assms
proof (induction evs arbitrary: st)
  case Nil
  then show ?case by (simp add: handleEvents_def)
next
  case (Cons ev evs)
  let ?st = "handleEvent rootH ev st"
  have "stale_grab (mLockToggleKey st) pointer ?st"
    using Cons.prems by (intro handleEvent_stale) auto
  moreover from this have "mLockToggleKey ?st = mLockToggleKey st" by (simp add: stale_grab_def)
  ultimately show ?case
    using Cons.IH [of ?st] Cons.prems(2,3) by (auto simp: handleEvents_def may_lock_def)
qed

section \<open>Properties\<close>

definition example_area :: input_area where
  "example_area = snd (area_config True (int (key ''KEY_SPACE'')) False
     (Some (km_device_config False (keyboard_mouse.extend KeyboardMouse_new
              \<lparr>mKeys = [], mRealkeys = [], mUseButtonsForScrolling = False\<rparr>)))
     \<lparr>areaId = 0, mAllowMouseLocking = True, mLockState = Unlocked, mLockStoredKey = -1,
      mLockToggleKey = -1, mLockXCenter = 0, mLockYCenter = 0, mWidth = 640, mHeight = 480,
      mEmptyCursorSet = False, mPrevX = 0, mPrevY = 0,
      mKeyboardMouseDevice = keyboard_mouse.extend KeyboardMouse_new
        \<lparr>mKeys = [], mRealkeys = [], mUseButtonsForScrolling = False\<rparr>, xCalls = []\<rparr>)"

definition example_key :: "string \<Rightarrow> x_key" where
  "example_key keysym = \<lparr>xkSym = keysym, xkX = 10, xkY = 20, xkState = [], xkTime = 0, xkChar = 0\<rparr>"

lemma new_keys:
  "length (mCurKeys KeyboardMouse_new) = LAST_KEY"
  "k < LAST_KEY \<Longrightarrow> mCurKeys KeyboardMouse_new ! k = of_bool (k = 0)"
  by (simp_all add: KeyboardMouse_new_def nth_update_in del: LAST_KEY_value)

lemma example_device:
  "mKeyboardMouseDevice example_area = km_device_config False (keyboard_mouse.extend KeyboardMouse_new
     \<lparr>mKeys = [], mRealkeys = [], mUseButtonsForScrolling = False\<rparr>)"
  by (simp add: example_area_def area_config_def)

lemma example_area_start: "counts_start False (\<lambda>k. k = 0) example_area"
  using new_keys by (simp add: counts_start_def example_device km_device_config_def keyboard_mouse.defs
      del: LAST_KEY_value)

lemma xKeyToKey_examples [simp]:
  "xKeyToKey ''XK_a'' = 19" "xKeyToKey ''XK_Control_L'' = 6" "xKeyToKey ''XK_Escape'' = 45"
  by code_simp+

text \<open>
  C29. What \<^verbatim>\<open>keyPressed\<close> tells an application: after any frames and one more, the count of every
  key but the mouse movements is one if the key was down when the frame began plus the number
  of its presses in the frame, so it is non-zero exactly for the keys that were down at some
  time in the frame, however short.
\<close>

theorem key_counts_frame:
  assumes "counts_start b down st" and "k < LAST_KEY" and "k \<notin> motion_keys"
  shows "let held = key_down b k (concat (map snd frames)) (down k);
             n = of_bool held + int (presses b k (snd frame))
         in keyPressed k (mKeyboardMouseDevice (fold (run_frame rootH scale) (frames @ [frame]) st)) = Inr n
          \<and> (n \<noteq> 0 \<longleftrightarrow> held \<or> (\<exists>ev \<in> set (snd frame). key_action b ev = Some (k, True)))"
  using run_frame_keys(2) [OF run_frames_start [OF assms(1), of frames rootH scale] assms(2,3), of rootH scale frame]
  by (auto simp: Let_def presses_def filter_empty_conv)

theorem key_counts_frame_witness:
  "keyPressed 19 (mKeyboardMouseDevice (fold (run_frame 1024 (\<lambda>n. n))
      ([(Interval 1, [KeyPress (example_key ''XK_a'')])]
        @ [(Interval 2, [KeyRelease (example_key ''XK_a''), KeyPress (example_key ''XK_a'')])]) example_area)) = Inr 2"
  using key_counts_frame [OF example_area_start, of 19 "[(Interval 1, [KeyPress (example_key ''XK_a'')])]"
      "(Interval 2, [KeyRelease (example_key ''XK_a''), KeyPress (example_key ''XK_a'')])" 1024 "\<lambda>n. n"]
  by (simp add: motion_keys_def presses_def example_key_def)

text \<open>
  C35. The keyboard is grabbed exactly while the mouse is locked: this holds across any events
  other than a press of the escape key, and whatever the application's lock and unlock calls
  do afterwards.
\<close>

theorem keyboard_grabbed_while_locked:
  assumes "lock_agrees st" and "\<forall>ev \<in> set evs. key_of_press ev \<noteq> Some (key ''KEY_ESC'')"
  shows "lock_agrees (handleEvents rootH evs st)
    \<and> lock_agrees (lockMouse (handleEvents rootH evs st))
    \<and> lock_agrees (unlockMouse (handleEvents rootH evs st))"
proof -
  have "lock_agrees (handleEvents rootH evs st)"
    using assms by (induction evs arbitrary: st) (simp_all add: handleEvents_def handleEvent_agrees)
  then show ?thesis by (simp add: lock_agrees_def lockMouse_def unlockMouse_def)
qed

theorem keyboard_grabbed_while_locked_witness:
  "lock_agrees (handleEvents 1024 [KeyPress (example_key ''XK_Control_L''), KeyRelease (example_key ''XK_Control_L'')] example_area)"
  using keyboard_grabbed_while_locked [of example_area
      "[KeyPress (example_key ''XK_Control_L''), KeyRelease (example_key ''XK_Control_L'')]" 1024]
  by (simp add: key_of_press_def example_key_def lock_agrees_def example_area_def area_config_def keyboard_grabbed_def)

text \<open>
  The escape key leaves a locked mouse's state, but not X's grabs: the area is unlocked, the
  keyboard stays grabbed, and so does the pointer if no button is released, through any further
  events that do not begin a new lock.
\<close>

theorem escape_keeps_grab:
  assumes "mAllowMouseLocking st" and "mLockState st \<noteq> Unlocked"
    and "keyboard_grabbed (xCalls st)" and "pointer_grabbed (xCalls st)"
    and "xKeyToKey (xkSym e) = key ''KEY_ESC''"
    and "\<forall>ev \<in> set evs. \<forall>k. key_of_press ev = Some k \<longrightarrow> \<not> may_lock st k"
  shows "mLockState (handleEvents rootH (KeyPress e # evs) st) = Unlocked
    \<and> keyboard_grabbed (xCalls (handleEvents rootH (KeyPress e # evs) st))
    \<and> ((\<forall>b p. ButtonRelease b p \<notin> set evs)
        \<longrightarrow> pointer_grabbed (xCalls (handleEvents rootH (KeyPress e # evs) st)))"
proof -
  let ?st = "handleEvent rootH (KeyPress e) st"
  let ?pointer = "\<forall>b p. ButtonRelease b p \<notin> set evs"
  have "stale_grab (mLockToggleKey st) ?pointer ?st"
    using assms(1-5) by (simp add: stale_grab_def handle_key_press_def lock_key_press_def addKeyEvent_def Let_def)
  moreover from this have "mLockToggleKey ?st = mLockToggleKey st" by (simp add: stale_grab_def)
  ultimately have "stale_grab (mLockToggleKey st) ?pointer (handleEvents rootH evs ?st)"
    using handleEvents_stale [of ?st ?pointer evs rootH] assms(6) by (auto simp: may_lock_def)
  then show ?thesis by (simp add: stale_grab_def handleEvents_def)
qed

theorem escape_keeps_grab_witness:
  "mLockState (handleEvents 1024 [KeyPress (example_key ''XK_Escape''), KeyPress (example_key ''XK_a'')]
       (lockMouse example_area)) = Unlocked
   \<and> keyboard_grabbed (xCalls (handleEvents 1024
       [KeyPress (example_key ''XK_Escape''), KeyPress (example_key ''XK_a'')] (lockMouse example_area)))"
  using escape_keeps_grab [of "lockMouse example_area" "example_key ''XK_Escape''" "[KeyPress (example_key ''XK_a'')]" 1024]
  by (simp add: lockMouse_def example_key_def key_of_press_def may_lock_def example_area_def area_config_def)

end
