(* ===== verification/InputSamples.thy ===== *)
theory InputSamples
  imports KeyboardMouse
begin

text \<open>
  Samples of input devices (\<^verbatim>\<open>modules/gadgeteer/gadget/Type/SampleBuffer.h\<close>, \<^verbatim>\<open>InputData.h\<close>
  and \<^verbatim>\<open>Digital\<close>, \<^verbatim>\<open>Analog\<close>, \<^verbatim>\<open>Command\<close>, \<^verbatim>\<open>String\<close>, \<^verbatim>\<open>Position\<close>): the buffer between a
  device's sampling thread and the frames of the application, and its serialization for the
  remote nodes of a cluster.

  A datum is a value with its time; a digital value and a command is an \<^verbatim>\<open>int\<close>, an analog
  value the bits of a \<^verbatim>\<open>float\<close>, a position the sixteen \<^verbatim>\<open>float\<close>s of its matrix.  The locale
  \<open>sample_codec\<close> is what the loops over the buffer need of the value they write and read; the
  five types interpret it.
\<close>

section \<open>The sample buffer\<close>

record 'v input_data =
  dValue :: 'v
  mTimeStamp :: interval

text \<open>The two buffers and whether the mutex is held.\<close>

record 'd sample_buffer =
  mStableBuffer :: "'d list list"
  mReadyBuffer :: "'d list list"
  mLock :: bool

definition sample_buffer_new :: "'d sample_buffer" where
  "sample_buffer_new = \<lparr>mStableBuffer = [], mReadyBuffer = [], mLock = False\<rparr>"

definition MAX_BUFFER_SIZE :: nat where
  "MAX_BUFFER_SIZE = 5000"

definition blocked :: failure where
  "blocked = LockError ''the buffer's mutex is never released''"

definition buffer_lock :: "'d sample_buffer \<Rightarrow> 'd sample_buffer result" where
  "buffer_lock b = (if mLock b then Inl blocked else Inr (b\<lparr>mLock := True\<rparr>))"

definition buffer_unlock :: "'d sample_buffer \<Rightarrow> 'd sample_buffer" where
  "buffer_unlock b = b\<lparr>mLock := False\<rparr>"

text \<open>\<^verbatim>\<open>addSample\<close>: old samples fall out of the front, in a loop of their own.\<close>

function drop_oldest :: "'d list list \<Rightarrow> 'd list list" where
  "drop_oldest b = (if length b > MAX_BUFFER_SIZE then drop_oldest (tl b) else b)"
  by auto
termination
  by (relation "measure length") (auto simp: MAX_BUFFER_SIZE_def)

declare drop_oldest.simps [simp del]

definition addSample :: "'d list \<Rightarrow> 'd sample_buffer \<Rightarrow> 'd sample_buffer result" where
  "addSample dataSample b =
     rbind (require (mLock b) (AssertionFailed ''mLock.test()'')) (\<lambda>_.
     Inr (b\<lparr>mReadyBuffer := drop_oldest (mReadyBuffer b @ [dataSample])\<rparr>))"

definition swapBuffers :: "'d sample_buffer \<Rightarrow> 'd sample_buffer result" where
  "swapBuffers b =
     rbind (buffer_lock b) (\<lambda>b.
     let b = (if mReadyBuffer b \<noteq> [] then b\<lparr>mStableBuffer := mReadyBuffer b\<rparr> else b)
     in Inr (buffer_unlock (b\<lparr>mReadyBuffer := []\<rparr>)))"

text \<open>\<^verbatim>\<open>addDigitalSample\<close> and its like for the other types.\<close>

definition add_samples :: "'d list \<Rightarrow> 'd sample_buffer \<Rightarrow> 'd sample_buffer result" where
  "add_samples dataSample b =
     rbind (buffer_lock b) (\<lambda>b. rbind (addSample dataSample b) (\<lambda>b. Inr (buffer_unlock b)))"

text \<open>
  \<^verbatim>\<open>getDigitalData\<close> and its like: a unit of the newest stable sample, or the default.  The
  unit number is compared as an \<^verbatim>\<open>unsigned\<close>.
\<close>

definition sample_at :: "'d \<Rightarrow> int \<Rightarrow> 'd sample_buffer \<Rightarrow> 'd" where
  "sample_at dflt devNum b =
     (if mStableBuffer b \<noteq> [] \<and> length (last (mStableBuffer b)) > unat (of_int devNum :: u32)
      then last (mStableBuffer b) ! unat (of_int devNum :: u32) else dflt)"

definition DigitalData_default :: "int input_data" where
  "DigitalData_default = \<lparr>dValue = 0, mTimeStamp = Interval 0\<rparr>"

definition AnalogData_default :: "u32 input_data" where
  "AnalogData_default = \<lparr>dValue = 0, mTimeStamp = Interval 0\<rparr>"

definition StringData_default :: "string input_data" where
  "StringData_default = \<lparr>dValue = [], mTimeStamp = Interval 0\<rparr>"

section \<open>Serialization\<close>

text \<open>One datum of each type: the time and the value, and for a position the value first.\<close>

definition write_digital :: "bool \<Rightarrow> int input_data \<Rightarrow> writer \<Rightarrow> writer result" where
  "write_digital le d w =
     Inr (writeUint32 le (of_int (dValue d)) (writeUint64 le (interval_usec (mTimeStamp d)) w))"

definition write_analog :: "bool \<Rightarrow> u32 input_data \<Rightarrow> writer \<Rightarrow> writer result" where
  "write_analog le d w =
     Inr (writeFloat le (dValue d) (writeUint64 le (interval_usec (mTimeStamp d)) w))"

definition write_string :: "bool \<Rightarrow> string input_data \<Rightarrow> writer \<Rightarrow> writer result" where
  "write_string le d w = writeString le (dValue d) (writeUint64 le (interval_usec (mTimeStamp d)) w)"

definition write_position :: "bool \<Rightarrow> u32 list input_data \<Rightarrow> writer \<Rightarrow> writer result" where
  "write_position le d w =
     Inr (writeUint64 le (interval_usec (mTimeStamp d))
       (fold (\<lambda>n. writeFloat le (dValue d ! n)) [0..<16] w))"

text \<open>A glove's angles, \<^verbatim>\<open>mAngles[6][4]\<close>, are a list row by row.\<close>

definition NUM_COMPONENTS :: nat where "NUM_COMPONENTS = 6"
definition NUM_JOINTS :: nat where "NUM_JOINTS = 4"

definition write_glove :: "bool \<Rightarrow> u32 list input_data \<Rightarrow> writer \<Rightarrow> writer result" where
  "write_glove le d w =
     Inr (writeUint64 le (interval_usec (mTimeStamp d))
       (fold (\<lambda>component. fold (\<lambda>joint. writeFloat le (dValue d ! (component * NUM_JOINTS + joint)))
               [0..<NUM_JOINTS]) [0..<NUM_COMPONENTS] w))"

definition received_at :: "u64 \<Rightarrow> u64 \<Rightarrow> interval" where
  "received_at timeStamp delta = interval_set (timeStamp + delta) Usec"

definition read_digital :: "bool \<Rightarrow> u64 \<Rightarrow> reader \<Rightarrow> (int input_data \<times> reader) result" where
  "read_digital le delta r =
     rbind (readUint64 le r) (\<lambda>(timeStamp, r).
     rbind (readUint32 le r) (\<lambda>(v, r).
     Inr (\<lparr>dValue = sint v, mTimeStamp = received_at timeStamp delta\<rparr>, r)))"

definition read_analog :: "bool \<Rightarrow> u64 \<Rightarrow> reader \<Rightarrow> (u32 input_data \<times> reader) result" where
  "read_analog le delta r =
     rbind (readUint64 le r) (\<lambda>(timeStamp, r).
     rbind (readFloat le r) (\<lambda>(v, r).
     Inr (\<lparr>dValue = v, mTimeStamp = received_at timeStamp delta\<rparr>, r)))"

definition read_string :: "bool \<Rightarrow> u64 \<Rightarrow> reader \<Rightarrow> (string input_data \<times> reader) result" where
  "read_string le delta r =
     rbind (readUint64 le r) (\<lambda>(timeStamp, r).
     rbind (readString le r) (\<lambda>(v, r).
     Inr (\<lparr>dValue = v, mTimeStamp = received_at timeStamp delta\<rparr>, r)))"

fun read_floats :: "bool \<Rightarrow> nat \<Rightarrow> reader \<Rightarrow> (u32 list \<times> reader) result" where
  "read_floats le 0 r = Inr ([], r)"
| "read_floats le (Suc n) r =
     rbind (readFloat le r) (\<lambda>(v, r). rbind (read_floats le n r) (\<lambda>(vs, r). Inr (v # vs, r)))"

definition read_position :: "bool \<Rightarrow> u64 \<Rightarrow> reader \<Rightarrow> (u32 list input_data \<times> reader) result" where
  "read_position le delta r =
     rbind (read_floats le 16 r) (\<lambda>(vs, r).
     rbind (readUint64 le r) (\<lambda>(timeStamp, r).
     Inr (\<lparr>dValue = vs, mTimeStamp = received_at timeStamp delta\<rparr>, r)))"

definition read_glove :: "bool \<Rightarrow> u64 \<Rightarrow> reader \<Rightarrow> (u32 list input_data \<times> reader) result" where
  "read_glove le delta r =
     rbind (read_floats le (NUM_COMPONENTS * NUM_JOINTS) r) (\<lambda>(vs, r).
     rbind (readUint64 le r) (\<lambda>(timeStamp, r).
     Inr (\<lparr>dValue = vs, mTimeStamp = received_at timeStamp delta\<rparr>, r)))"

text \<open>The loops of \<^verbatim>\<open>writeObject\<close> over the samples and of \<^verbatim>\<open>readObject\<close>, the same in every type.\<close>

definition write_sample :: "bool \<Rightarrow> ('d \<Rightarrow> writer \<Rightarrow> writer result) \<Rightarrow> 'd list \<Rightarrow> writer \<Rightarrow> writer result" where
  "write_sample le wr sample w = rfold wr sample (writeUint16 le (of_nat (length sample)) w)"

definition write_samples :: "bool \<Rightarrow> u16 \<Rightarrow> ('d \<Rightarrow> writer \<Rightarrow> writer result) \<Rightarrow> 'd sample_buffer \<Rightarrow> writer
    \<Rightarrow> writer result" where
  "write_samples le tag wr b w =
     (let w = writeUint16 le (of_nat (length (mStableBuffer b))) (writeUint16 le tag w)
      in if mStableBuffer b \<noteq> []
         then rbind (buffer_lock b) (\<lambda>_. rfold (write_sample le wr) (mStableBuffer b) w)
         else Inr w)"

fun read_sample :: "(reader \<Rightarrow> ('d \<times> reader) result) \<Rightarrow> nat \<Rightarrow> reader \<Rightarrow> ('d list \<times> reader) result" where
  "read_sample rd 0 r = Inr ([], r)"
| "read_sample rd (Suc n) r =
     rbind (rd r) (\<lambda>(d, r). rbind (read_sample rd n r) (\<lambda>(ds, r). Inr (d # ds, r)))"

fun read_samples :: "bool \<Rightarrow> (reader \<Rightarrow> ('d \<times> reader) result) \<Rightarrow> nat \<Rightarrow> reader \<Rightarrow> 'd sample_buffer
    \<Rightarrow> reader result \<times> 'd sample_buffer" where
  "read_samples le rd 0 r b = (Inr r, b)"
| "read_samples le rd (Suc n) r b =
     read_into (rbind (readUint16 le r) (\<lambda>(num, r). read_sample rd (unat num) r)) b (\<lambda>(dataSample, r).
     read_into (addSample dataSample b) b (\<lambda>b. read_samples le rd n r b))"

definition read_buffer :: "bool \<Rightarrow> u16 \<Rightarrow> (reader \<Rightarrow> ('d \<times> reader) result) \<Rightarrow> reader \<Rightarrow> 'd sample_buffer
    \<Rightarrow> reader result \<times> 'd sample_buffer" where
  "read_buffer le tag rd r b =
     read_into
       (rbind (readUint16 le r) (\<lambda>(temp, r).
        rbind (require (temp = tag) (AssertionFailed ''[Remote Input Manager] wrong data'')) (\<lambda>_.
        rbind (readUint16 le r) (\<lambda>(numVectors, r).
        rbind (buffer_lock b) (\<lambda>b. Inr (numVectors, r, b))))))
       b (\<lambda>(numVectors, r, b).
     then_into (read_samples le rd (unat numVectors) r b) (\<lambda>r b.
     read_into (swapBuffers (buffer_unlock b)) b (\<lambda>b. (Inr r, b))))"

definition MSG_DATA_DIGITAL :: u16 where "MSG_DATA_DIGITAL = 420"
definition MSG_DATA_ANALOG :: u16 where "MSG_DATA_ANALOG = 421"
definition MSG_DATA_POS :: u16 where "MSG_DATA_POS = 422"
definition MSG_DATA_COMMAND :: u16 where "MSG_DATA_COMMAND = 423"
definition MSG_DATA_STRING :: u16 where "MSG_DATA_STRING = 430"
definition MSG_DATA_GLOVE :: u16 where "MSG_DATA_GLOVE = 520"

definition digital_writeObject :: "bool \<Rightarrow> int input_data sample_buffer \<Rightarrow> writer \<Rightarrow> writer result" where
  "digital_writeObject le = write_samples le MSG_DATA_DIGITAL (write_digital le)"

definition digital_readObject where
  "digital_readObject le delta = read_buffer le MSG_DATA_DIGITAL (read_digital le delta)"

definition command_writeObject :: "bool \<Rightarrow> int input_data sample_buffer \<Rightarrow> writer \<Rightarrow> writer result" where
  "command_writeObject le = write_samples le MSG_DATA_COMMAND (write_digital le)"

definition command_readObject where
  "command_readObject le delta = read_buffer le MSG_DATA_COMMAND (read_digital le delta)"

definition string_writeObject :: "bool \<Rightarrow> string input_data sample_buffer \<Rightarrow> writer \<Rightarrow> writer result" where
  "string_writeObject le = write_samples le MSG_DATA_STRING (write_string le)"

definition string_readObject where
  "string_readObject le delta = read_buffer le MSG_DATA_STRING (read_string le delta)"

definition position_writeObject :: "bool \<Rightarrow> u32 list input_data sample_buffer \<Rightarrow> writer \<Rightarrow> writer result" where
  "position_writeObject le = write_samples le MSG_DATA_POS (write_position le)"

definition position_readObject where
  "position_readObject le delta = read_buffer le MSG_DATA_POS (read_position le delta)"

definition glove_writeObject :: "bool \<Rightarrow> u32 list input_data sample_buffer \<Rightarrow> writer \<Rightarrow> writer result" where
  "glove_writeObject le = write_samples le MSG_DATA_GLOVE (write_glove le)"

definition glove_readObject where
  "glove_readObject le delta = read_buffer le MSG_DATA_GLOVE (read_glove le delta)"

text \<open>\<^verbatim>\<open>Analog::writeObject\<close> writes the number of samples only when there are any, and else a zero.\<close>

definition analog_writeObject :: "bool \<Rightarrow> u32 input_data sample_buffer \<Rightarrow> writer \<Rightarrow> writer result" where
  "analog_writeObject le b w =
     (let w = writeUint16 le MSG_DATA_ANALOG w
      in if mStableBuffer b \<noteq> []
         then rbind (buffer_lock b) (\<lambda>_.
                rfold (write_sample le (write_analog le)) (mStableBuffer b)
                  (writeUint16 le (of_nat (length (mStableBuffer b))) w))
         else Inr (writeUint16 le 0 w))"

definition analog_readObject where
  "analog_readObject le delta = read_buffer le MSG_DATA_ANALOG (read_analog le delta)"
section \<open>The buffer as a bounded queue\<close>

lemma drop_oldest_drop: "drop_oldest b = drop (length b - MAX_BUFFER_SIZE) b"
proof (induction b rule: drop_oldest.induct)
  case (1 b)
  show ?case
  proof (cases "length b > MAX_BUFFER_SIZE")
    case True
    then have "length b - MAX_BUFFER_SIZE = Suc (length (tl b) - MAX_BUFFER_SIZE)" by simp
    then show ?thesis using 1 True by (subst drop_oldest.simps) (simp add: drop_Suc)
  qed (simp add: drop_oldest.simps)
qed

definition newest :: "'d list list \<Rightarrow> 'd list list" where
  "newest samples = drop (length samples - MAX_BUFFER_SIZE) samples"

lemma drop_oldest_newest: "drop_oldest b = newest b"
  by (simp add: drop_oldest_drop newest_def)

lemma newest_append: "newest (newest as @ bs) = newest (as @ bs)"
  by (cases "length as \<le> MAX_BUFFER_SIZE") (simp_all add: newest_def add.commute)

lemma newest_short: "length b \<le> MAX_BUFFER_SIZE \<Longrightarrow> newest b = b"
  by (simp add: newest_def)

lemma newest_Nil_iff [simp]: "newest b = [] \<longleftrightarrow> b = []"
  by (cases b) (simp_all add: newest_def MAX_BUFFER_SIZE_def)

lemma addSample_newest:
  "mLock b \<Longrightarrow> addSample s b = Inr (b\<lparr>mReadyBuffer := newest (mReadyBuffer b @ [s])\<rparr>)"
  by (simp add: addSample_def drop_oldest_newest)

lemma swapBuffers_value:
  "\<not> mLock b \<Longrightarrow> swapBuffers b = Inr \<lparr>mStableBuffer = (if mReadyBuffer b = [] then mStableBuffer b else mReadyBuffer b),
     mReadyBuffer = [], mLock = False\<rparr>"
  by (cases b) (simp add: swapBuffers_def buffer_lock_def buffer_unlock_def Let_def)

lemma add_samples_value:
  "\<not> mLock b \<Longrightarrow> add_samples s b = Inr (b\<lparr>mReadyBuffer := newest (mReadyBuffer b @ [s])\<rparr>)"
  by (simp add: add_samples_def buffer_lock_def addSample_newest buffer_unlock_def)

section \<open>What the loops need of a datum\<close>

text \<open>
  A datum is written as its encoding and read back with its time moved by the difference of
  the nodes' clocks.
\<close>

definition shift :: "u64 \<Rightarrow> 'v input_data \<Rightarrow> 'v input_data" where
  "shift delta d = d\<lparr>mTimeStamp := Interval (mMicroSeconds (mTimeStamp d) + delta)\<rparr>"

definition received :: "u64 \<Rightarrow> 'v input_data sample_buffer \<Rightarrow> 'v input_data sample_buffer \<Rightarrow> 'v input_data sample_buffer" where
  "received delta b b' =
     (let ready = newest (mReadyBuffer b' @ map (map (shift delta)) (mStableBuffer b))
      in \<lparr>mStableBuffer = (if ready = [] then mStableBuffer b' else ready), mReadyBuffer = [], mLock = False\<rparr>)"

locale sample_codec =
  fixes wr :: "bool \<Rightarrow> 'v input_data \<Rightarrow> writer \<Rightarrow> writer result"
    and rd :: "bool \<Rightarrow> u64 \<Rightarrow> reader \<Rightarrow> ('v input_data \<times> reader) result"
    and enc :: "'v input_data \<Rightarrow> u8 list"
    and ok :: "'v input_data \<Rightarrow> bool"
  assumes wr_emits: "ok d \<Longrightarrow> wr le d w = Inr (emit (enc d) w)"
    and rd_returns: "ok d \<Longrightarrow> remains r (enc d @ bs)
      \<Longrightarrow> rd le delta r = Inr (shift delta d, advance (length (enc d)) r)"
begin

definition sample_ok :: "'v input_data list \<Rightarrow> bool" where
  "sample_ok sample \<longleftrightarrow> length sample < 2 ^ 16 \<and> list_all ok sample"

definition sample_bytes :: "'v input_data list \<Rightarrow> u8 list" where
  "sample_bytes sample = net_bytes 2 (of_nat (length sample) :: u16) @ concat (map enc sample)"

lemma write_sample_emits:
  assumes "sample_ok sample"
  shows "write_sample le (wr le) sample w = Inr (emit (sample_bytes sample) w)"
proof -
  have "rfold (wr le) ds w = Inr (emit (concat (map enc ds)) w)" if "list_all ok ds" for ds w
    using that by (induction ds arbitrary: w) (simp_all add: wr_emits emit_emit)
  then show ?thesis
    using assms by (simp add: write_sample_def sample_bytes_def sample_ok_def serial_simps)
qed

lemma rfold_write_sample:
  "list_all sample_ok ss \<Longrightarrow>
     rfold (write_sample le (wr le)) ss w = Inr (emit (concat (map sample_bytes ss)) w)"
  by (induction ss arbitrary: w) (simp_all add: write_sample_emits emit_emit)

lemma read_sample_returns:
  "list_all ok ds \<Longrightarrow> remains r (concat (map enc ds) @ bs) \<Longrightarrow>
     read_sample (rd le delta) (length ds) r
       = Inr (map (shift delta) ds, advance (length (concat (map enc ds))) r)"
proof (induction ds arbitrary: r)
  case Nil
  then show ?case by simp
next
  case (Cons d ds)
  from Cons.prems have r: "remains r (enc d @ (concat (map enc ds) @ bs))" by simp
  show ?case
    using Cons.prems(1) Cons.IH [OF _ remains_advance [OF r]] rd_returns [OF _ r]
    by (simp add: advance_advance)
qed

lemma read_samples_returns:
  assumes "list_all sample_ok ss" and "remains r (concat (map sample_bytes ss) @ bs)" and "mLock b"
    and "length (mReadyBuffer b) \<le> MAX_BUFFER_SIZE"
  shows "read_samples le (rd le delta) (length ss) r b =
    (Inr (advance (length (concat (map sample_bytes ss))) r),
     b\<lparr>mReadyBuffer := newest (mReadyBuffer b @ map (map (shift delta)) ss)\<rparr>)"
  using assms
proof (induction ss arbitrary: r b)
  case Nil
  then show ?case by (simp add: newest_short)
next
  case (Cons s ss)
  have r: "remains r (net_bytes 2 (of_nat (length s) :: u16) @ concat (map enc s) @ concat (map sample_bytes ss) @ bs)"
    using Cons.prems(2) by (simp add: sample_bytes_def [of s])
  have s: "list_all ok s" "unat (of_nat (length s) :: u16) = length s"
    using Cons.prems(1) by (simp_all add: sample_ok_def unat_of_nat)
  note r2 = remains_advance [OF r, simplified]
  have one: "rbind (readUint16 le r) (\<lambda>(num, r). read_sample (rd le delta) (unat num) r)
      = Inr (map (shift delta) s, advance (length (sample_bytes s)) r)"
    using read_word_remains(2) [OF r, of le] read_sample_returns [OF s(1) r2] s(2)
    by (simp add: advance_advance sample_bytes_def)
  let ?b = "b\<lparr>mReadyBuffer := newest (mReadyBuffer b @ [map (shift delta) s])\<rparr>"
  have "remains (advance (length (sample_bytes s)) r) (concat (map sample_bytes ss) @ bs)"
    using Cons.prems(2) by (intro remains_advance) simp
  moreover have "length (mReadyBuffer ?b) \<le> MAX_BUFFER_SIZE" by (simp add: newest_def)
  ultimately show ?case
    using Cons.IH [of "advance (length (sample_bytes s)) r" ?b] Cons.prems(1,3) one
    by (simp add: addSample_newest newest_append advance_advance)
qed

text \<open>The whole buffer: what is written, and what the remote node's buffer becomes.\<close>

definition buffer_ok :: "'v input_data sample_buffer \<Rightarrow> bool" where
  "buffer_ok b \<longleftrightarrow> \<not> mLock b \<and> length (mStableBuffer b) < 2 ^ 16 \<and> list_all sample_ok (mStableBuffer b)"

definition buffer_bytes :: "u16 \<Rightarrow> 'v input_data sample_buffer \<Rightarrow> u8 list" where
  "buffer_bytes tag b = net_bytes 2 tag @ net_bytes 2 (of_nat (length (mStableBuffer b)) :: u16)
     @ concat (map sample_bytes (mStableBuffer b))"

lemma write_samples_emits:
  "buffer_ok b \<Longrightarrow> write_samples le tag (wr le) b w = Inr (emit (buffer_bytes tag b) w)"
  by (auto simp: write_samples_def Let_def serial_simps rfold_write_sample buffer_ok_def buffer_bytes_def
      buffer_lock_def emit_emit)

lemma read_buffer_returns:
  assumes "buffer_ok b" and r: "remains r (buffer_bytes tag b @ bs)"
    and "\<not> mLock b'" and "length (mReadyBuffer b') \<le> MAX_BUFFER_SIZE"
  shows "read_buffer le tag (rd le delta) r b' =
    (Inr (advance (length (buffer_bytes tag b)) r), received delta b b')"
proof -
  let ?ss = "mStableBuffer b"
  let ?body = "concat (map sample_bytes ?ss)"
  have r0: "remains r (net_bytes 2 tag @ net_bytes 2 (of_nat (length ?ss) :: u16) @ ?body @ bs)"
    using r by (simp add: buffer_bytes_def)
  note r1 = remains_advance [OF r0, simplified]
  note r2 = remains_advance [OF r1, simplified advance_advance, simplified]
  have ok: "list_all sample_ok ?ss" "unat (of_nat (length ?ss) :: u16) = length ?ss"
    using assms(1) by (simp_all add: buffer_ok_def unat_of_nat)
  let ?r = "advance 4 r"
  have "read_samples le (rd le delta) (length ?ss) ?r (b'\<lparr>mLock := True\<rparr>) =
      (Inr (advance (length ?body) ?r),
       b'\<lparr>mLock := True, mReadyBuffer := newest (mReadyBuffer b' @ map (map (shift delta)) ?ss)\<rparr>)"
    using read_samples_returns [OF ok(1), of ?r bs "b'\<lparr>mLock := True\<rparr>" le delta] r2 assms(4) by simp
  moreover have "length (buffer_bytes tag b) = 4 + length ?body" by (simp add: buffer_bytes_def)
  ultimately show ?thesis
    using read_word_remains(2) [OF r0, of le] read_word_remains(2) [OF r1, of le] ok(2) assms(3)
    by (simp add: read_buffer_def advance_advance buffer_lock_def buffer_unlock_def swapBuffers_value
        Let_def received_def)
qed

end
context sample_codec begin

text \<open>A message that ends where another sample is to come.\<close>

lemma read_samples_add:
  "read_samples le f (m + n) r b =
     then_into (read_samples le f m r b) (\<lambda>r b. read_samples le f n r b)"
  by (induction m arbitrary: r b) (auto simp: read_into_def split: sum.splits)

lemma truncated_keeps_lock:
  assumes "list_all sample_ok ss" and "length ss < unat (n :: u16)"
    and data: "data = net_bytes 2 tag @ net_bytes 2 n @ concat (map sample_bytes ss)"
    and "length data < 2 ^ 32" and "\<not> mLock b" and "length (mReadyBuffer b) \<le> MAX_BUFFER_SIZE"
  shows "\<exists>b'. read_buffer le tag (rd le delta) (reader_on data 0) b
      = (Inl (EOFError ''Attempted to read beyond data block''), b') \<and> mLock b'"
proof -
  let ?body = "concat (map sample_bytes ss)"
  have r0: "remains (reader_on data 0) (net_bytes 2 tag @ net_bytes 2 n @ ?body)"
    using remains_reader_on [OF assms(4)] data by simp
  note r1 = remains_advance [OF r0, simplified]
  note r2 = remains_advance [OF r1, simplified advance_advance, simplified]
  let ?r = "advance 4 (reader_on data 0)"
  obtain k where k: "unat n = length ss + Suc k" using less_imp_Suc_add [OF assms(2)] by auto
  have "remains (advance (length ?body) ?r) []"
    using remains_advance [of ?r ?body "[]"] r2 by simp
  then have "readUint16 le (advance (length ?body) ?r) = Inl (EOFError ''Attempted to read beyond data block'')"
    by (simp add: readUint16_def read_bytes_at_end)
  then have "read_samples le (rd le delta) (Suc k) (advance (length ?body) ?r) b'
      = (Inl (EOFError ''Attempted to read beyond data block''), b')" for b'
    by simp
  moreover have "read_samples le (rd le delta) (length ss) ?r (b\<lparr>mLock := True\<rparr>) =
      (Inr (advance (length ?body) ?r),
       b\<lparr>mLock := True, mReadyBuffer := newest (mReadyBuffer b @ map (map (shift delta)) ss)\<rparr>)"
    using read_samples_returns [OF assms(1), of ?r "[]" "b\<lparr>mLock := True\<rparr>" le delta] r2 assms(6) by simp
  ultimately have "read_samples le (rd le delta) (unat n) ?r (b\<lparr>mLock := True\<rparr>) =
      (Inl (EOFError ''Attempted to read beyond data block''),
       b\<lparr>mLock := True, mReadyBuffer := newest (mReadyBuffer b @ map (map (shift delta)) ss)\<rparr>)"
    by (simp only: k read_samples_add then_into_simps)
  then show ?thesis
    using read_word_remains(2) [OF r0, of le] read_word_remains(2) [OF r1, of le] assms(5)
    by (simp add: read_buffer_def advance_advance buffer_lock_def)
qed

end

section \<open>The types\<close>

definition digital_bytes :: "int input_data \<Rightarrow> u8 list" where
  "digital_bytes d = net_bytes 8 (mMicroSeconds (mTimeStamp d)) @ int_bytes (dValue d)"

definition analog_bytes :: "u32 input_data \<Rightarrow> u8 list" where
  "analog_bytes d = net_bytes 8 (mMicroSeconds (mTimeStamp d)) @ net_bytes 4 (dValue d)"

definition text_bytes :: "string input_data \<Rightarrow> u8 list" where
  "text_bytes d = net_bytes 8 (mMicroSeconds (mTimeStamp d)) @ string_bytes (dValue d)"

definition position_bytes :: "u32 list input_data \<Rightarrow> u8 list" where
  "position_bytes d = concat (map (net_bytes 4) (dValue d)) @ net_bytes 8 (mMicroSeconds (mTimeStamp d))"

lemma read_floats_returns:
  "remains r (concat (map (net_bytes 4) vs) @ bs) \<Longrightarrow>
     read_floats le (length vs) r = Inr (vs, advance (4 * length vs) r)
     \<and> remains (advance (4 * length vs) r) bs"
proof (induction vs arbitrary: r)
  case Nil
  then show ?case by simp
next
  case (Cons v vs)
  then have r: "remains r (net_bytes 4 v @ (concat (map (net_bytes 4) vs) @ bs))" by simp
  show ?case
    using Cons.IH [OF remains_advance [OF r, simplified]] read_word_remains(5) [OF r, of le]
    by (simp add: advance_advance)
qed

lemma fold_write_floats:
  "length vs = k \<Longrightarrow> fold (\<lambda>n. writeFloat le (vs ! n)) [0..<k] w = emit (concat (map (net_bytes 4) vs)) w"
proof -
  assume "length vs = k"
  then have "map (\<lambda>n. net_bytes 4 (vs ! n)) [0..<k] = map (net_bytes 4) vs"
    by (intro nth_equalityI) auto
  moreover have "fold (\<lambda>n. writeFloat le (f n)) ns w = emit (concat (map (\<lambda>n. net_bytes 4 (f n)) ns)) w"
    for f :: "nat \<Rightarrow> u32" and ns w
    by (induction ns arbitrary: w) (simp_all add: serial_simps)
  ultimately show ?thesis by (simp only:)
qed

text \<open>Glove data and positions are so many floats and the time.\<close>

lemma write_glove_fold:
  "write_glove le d w = Inr (writeUint64 le (interval_usec (mTimeStamp d))
     (fold (\<lambda>n. writeFloat le (dValue d ! n)) [0..<24] w))"
  by (simp add: write_glove_def NUM_COMPONENTS_def NUM_JOINTS_def upt_rec eval_nat_numeral)

lemma read_floats_time:
  assumes ok: "length (dValue d) = k" and "remains r (position_bytes d @ bs)"
  shows "rbind (read_floats le k r) (\<lambda>(vs, r). rbind (readUint64 le r) (\<lambda>(timeStamp, r).
      Inr (\<lparr>dValue = vs, mTimeStamp = received_at timeStamp delta\<rparr>, r)))
    = Inr (shift delta d, advance (length (position_bytes d)) r)"
proof -
  have "remains r (concat (map (net_bytes 4) (dValue d)) @ (net_bytes 8 (interval_usec (mTimeStamp d)) @ bs))"
    using assms(2) by (simp add: position_bytes_def interval_usec_def)
  note vs = read_floats_returns [OF this, of le, unfolded ok]
  have "length (concat (map (net_bytes 4) vs)) = 4 * length vs" for vs :: "u32 list"
    by (induction vs) simp_all
  then show ?thesis
    using vs read_word_remains(4) [of "advance (4 * k) r" "interval_usec (mTimeStamp d)" bs le] ok
    by (simp add: advance_advance received_at_def interval_usec_def shift_def position_bytes_def)
qed

lemma received_at_shift: "received_at (interval_usec t) delta = Interval (mMicroSeconds t + delta)"
  by (simp add: received_at_def interval_usec_def)

interpretation digital: sample_codec write_digital read_digital digital_bytes "\<lambda>d. int32 (dValue d)"
proof
  fix d :: "int input_data" and le w r bs delta
  assume ok: "int32 (dValue d)"
  show "write_digital le d w = Inr (emit (digital_bytes d) w)"
    by (simp add: write_digital_def digital_bytes_def serial_simps interval_usec_def int_bytes_def)
  assume "remains r (digital_bytes d @ bs)"
  then have r: "remains r (net_bytes 8 (interval_usec (mTimeStamp d)) @ net_bytes 4 (of_int (dValue d) :: u32) @ bs)"
    by (simp add: digital_bytes_def interval_usec_def int_bytes_def)
  show "read_digital le delta r = Inr (shift delta d, advance (length (digital_bytes d)) r)"
    unfolding read_digital_def
    apply (rule bind_reads(4) [OF r], simp)
    apply (erule bind_reads(3))
    using ok apply (simp add: advance_advance received_at_shift shift_def sint_of_int32 digital_bytes_def)
    done
qed

interpretation analog: sample_codec write_analog read_analog analog_bytes "\<lambda>d. True"
proof
  fix d :: "u32 input_data" and le w r bs delta
  show "write_analog le d w = Inr (emit (analog_bytes d) w)"
    by (simp add: write_analog_def analog_bytes_def serial_simps interval_usec_def)
  assume "remains r (analog_bytes d @ bs)"
  then have r: "remains r (net_bytes 8 (interval_usec (mTimeStamp d)) @ net_bytes 4 (dValue d) @ bs)"
    by (simp add: analog_bytes_def interval_usec_def)
  show "read_analog le delta r = Inr (shift delta d, advance (length (analog_bytes d)) r)"
    unfolding read_analog_def
    by (rule bind_reads(4) [OF r], simp, erule bind_reads(5))
       (simp add: advance_advance received_at_shift shift_def analog_bytes_def)
qed

interpretation text_string: sample_codec write_string read_string text_bytes "\<lambda>d. length (dValue d) < 2 ^ 32"
proof
  fix d :: "string input_data" and le w r bs delta
  assume ok: "length (dValue d) < 2 ^ 32"
  show "write_string le d w = Inr (emit (text_bytes d) w)"
    using ok by (simp add: write_string_def text_bytes_def serial_simps interval_usec_def)
  assume "remains r (text_bytes d @ bs)"
  then have r: "remains r (net_bytes 8 (interval_usec (mTimeStamp d)) @ string_bytes (dValue d) @ bs)"
    by (simp add: text_bytes_def interval_usec_def)
  show "read_string le delta r = Inr (shift delta d, advance (length (text_bytes d)) r)"
    using readString_remains [OF remains_advance [OF r] ok, of le] read_word_remains(4) [OF r, of le]
    by (simp add: read_string_def advance_advance received_at_shift shift_def text_bytes_def)
qed

interpretation position: sample_codec write_position read_position position_bytes "\<lambda>d. length (dValue d) = 16"
proof
  fix d :: "u32 list input_data" and le w r bs delta
  assume ok: "length (dValue d) = 16"
  show "write_position le d w = Inr (emit (position_bytes d) w)"
    using ok by (simp add: write_position_def fold_write_floats position_bytes_def serial_simps interval_usec_def)
  assume "remains r (position_bytes d @ bs)"
  then show "read_position le delta r = Inr (shift delta d, advance (length (position_bytes d)) r)"
    unfolding read_position_def by (rule read_floats_time [OF ok])
qed

interpretation glove: sample_codec write_glove read_glove position_bytes "\<lambda>d. length (dValue d) = 24"
proof
  fix d :: "u32 list input_data" and le w r bs delta
  assume ok: "length (dValue d) = 24"
  show "write_glove le d w = Inr (emit (position_bytes d) w)"
    using ok by (simp add: write_glove_fold fold_write_floats position_bytes_def serial_simps interval_usec_def)
  assume "remains r (position_bytes d @ bs)"
  then show "read_glove le delta r = Inr (shift delta d, advance (length (position_bytes d)) r)"
    unfolding read_glove_def NUM_COMPONENTS_def NUM_JOINTS_def using read_floats_time [OF ok] by simp
qed

text \<open>An empty analog buffer writes the same bytes as the other types would.\<close>

lemma analog_writeObject_samples:
  "analog_writeObject le b w = write_samples le MSG_DATA_ANALOG (write_analog le) b w"
  by (simp add: analog_writeObject_def write_samples_def Let_def)

section \<open>Properties\<close>

text \<open>
  A message cut off between two samples wedges the device: the read ends in an end-of-file
  exception with the buffer's mutex still held, after which no sample can be added, no buffer
  swapped and no further message read.
\<close>

theorem truncated_samples_wedge:
  assumes "list_all digital.sample_ok ss" and "length ss < unat (n :: u16)"
    and "data = net_bytes 2 MSG_DATA_DIGITAL @ net_bytes 2 n @ concat (map digital.sample_bytes ss)"
    and "length data < 2 ^ 32" and "\<not> mLock b" and "length (mReadyBuffer b) \<le> MAX_BUFFER_SIZE"
  shows "\<exists>b'. digital_readObject le delta (reader_on data 0) b
      = (Inl (EOFError ''Attempted to read beyond data block''), b')
    \<and> add_samples sample b' = Inl blocked \<and> swapBuffers b' = Inl blocked"
  using digital.truncated_keeps_lock [OF assms, of le delta]
  by (auto simp: digital_readObject_def add_samples_def swapBuffers_def buffer_lock_def)

theorem truncated_samples_wedge_witness:
  "\<exists>b'. digital_readObject True 0 (reader_on (net_bytes 2 MSG_DATA_DIGITAL @ net_bytes 2 (1 :: u16)) 0)
       sample_buffer_new = (Inl (EOFError ''Attempted to read beyond data block''), b')
     \<and> add_samples [DigitalData_default] b' = Inl blocked \<and> swapBuffers b' = Inl blocked"
  using truncated_samples_wedge [of "[]" 1 "net_bytes 2 MSG_DATA_DIGITAL @ net_bytes 2 (1 :: u16)" sample_buffer_new]
  by (simp add: sample_buffer_new_def)

end
