(* ===== verification/InputMgr.thy ===== *)
theory InputMgr
  imports InputSamples "HOL-Library.Char_ord" "HOL-Library.List_Lexorder"
begin

text \<open>
  The input manager (\<^verbatim>\<open>modules/gadgeteer/gadget/InputManager.cpp\<close>) with input devices
  (\<^verbatim>\<open>Type/Input.h\<close>), proxies (\<^verbatim>\<open>Type/Proxy.h\<close>, \<^verbatim>\<open>DigitalProxy.cpp\<close>, \<^verbatim>\<open>AnalogProxy.cpp\<close>,
  \<^verbatim>\<open>CommandProxy.cpp\<close>, \<^verbatim>\<open>StringProxy.cpp\<close>), the proxy factory and the device interfaces an
  application holds (\<^verbatim>\<open>Type/DeviceInterface.cpp\<close>).

  Devices and proxies are shared by pointer: they live in two lists, a pointer is an index or
  \<^verbatim>\<open>NULL\<close>.  A device's driver is not modelled: its \<^verbatim>\<open>updateData\<close> is the argument \<open>drv\<close>, which
  sees the whole state and gives the device's new buffers; nor is the input logger, which may
  replay data into the devices.  What a position proxy copies (the filtered and transformed
  matrix) is not modelled; glove and keyboard proxies copy nothing.
\<close>

section \<open>Devices and proxies\<close>

text \<open>The interfaces a device can have, the targets of \<^verbatim>\<open>dynamic_pointer_cast\<close>.\<close>

datatype dev_type = TAnalog | TDigital | TPosition | TGlove | TKeyboardMouse | TCommand | TTextString

record device_data =
  dDigital :: "int input_data sample_buffer"
  dAnalog :: "u32 input_data sample_buffer"
  dCommand :: "int input_data sample_buffer"
  dString :: "string input_data sample_buffer"
  dPosition :: "u32 list input_data sample_buffer"
  dGlove :: "u32 list input_data sample_buffer"
  dKeyboard :: keyboard_mouse

record device =
  mInstName :: string
  dTypes :: "dev_type list"
  dNeedUpdate :: bool
  dStopped :: bool
  dData :: device_data

record proxy =
  mName :: string
  mStupefied :: bool
  mNeedUpdate :: bool
  mDeviceName :: string
  mTypedDevice :: "nat option"
  pType :: dev_type
  mUnitNum :: int
  mDigitalData :: "int input_data"
  mAnalogData :: "u32 input_data"
  mCommandData :: "int input_data"
  mStringData :: "string input_data"

text \<open>A device interface of the application; without a proxy it points to its dummy, \<open>None\<close>.\<close>

record dev_interface =
  mProxyName :: string
  mNameSet :: bool
  ifType :: dev_type
  mProxyPtr :: "nat option"
  mTypeSpecificProxy :: "nat option"

record input_manager =
  devs :: "device list"
  proxies :: "proxy list"
  mDevTable :: "(string, nat option) omap"
  mProxyTable :: "(string, nat) omap"
  mProxyAliases :: "(string, string) omap"
  mAllocatedDevices :: "dev_interface list"
  mDisplaySystemElement :: "string option"
  mConstructors :: "string list"

definition InputManager_new :: "string list \<Rightarrow> input_manager" where
  "InputManager_new drivers = \<lparr>devs = [], proxies = [], mDevTable = [], mProxyTable = [],
     mProxyAliases = [], mAllocatedDevices = [], mDisplaySystemElement = None, mConstructors = drivers\<rparr>"

definition upd_dev :: "nat \<Rightarrow> (device \<Rightarrow> device) \<Rightarrow> input_manager \<Rightarrow> input_manager" where
  "upd_dev d f st = st\<lparr>devs := (devs st)[d := f (devs st ! d)]\<rparr>"

definition upd_proxy :: "nat \<Rightarrow> (proxy \<Rightarrow> proxy) \<Rightarrow> input_manager \<Rightarrow> input_manager" where
  "upd_proxy p f st = st\<lparr>proxies := (proxies st)[p := f (proxies st ! p)]\<rparr>"

definition null_pointer :: failure where
  "null_pointer = Undefined ''null pointer dereferenced''"

text \<open>\<^verbatim>\<open>getInstanceName\<close>.\<close>

definition getInstanceName :: "device \<Rightarrow> string" where
  "getInstanceName d = (if mInstName d = [] then ''Undefined'' else mInstName d)"

definition getDevice :: "string \<Rightarrow> input_manager \<Rightarrow> nat option" where
  "getDevice deviceName st =
     (case map_of (mDevTable st) deviceName of Some ret_dev \<Rightarrow> ret_dev | None \<Rightarrow> None)"

definition stupefy :: "bool \<Rightarrow> proxy \<Rightarrow> proxy" where
  "stupefy newState p = p\<lparr>mStupefied := newState\<rparr>"

text \<open>\<^verbatim>\<open>TypedProxy::refresh\<close>.\<close>

definition refresh_proxy :: "input_manager \<Rightarrow> proxy \<Rightarrow> bool \<times> proxy" where
  "refresh_proxy st p =
     (case getDevice (mDeviceName p) st of
        None \<Rightarrow> (True, stupefy True p)
      | Some input_dev \<Rightarrow>
          if pType p \<in> set (dTypes (devs st ! input_dev))
          then (True, stupefy False (p\<lparr>mTypedDevice := Some input_dev\<rparr>))
          else (False, stupefy True p))"

definition getProxiedInputDevice :: "proxy \<Rightarrow> nat option" where
  "getProxiedInputDevice p = (if mTypedDevice p = None \<or> mStupefied p then None else mTypedDevice p)"

section \<open>Updating data\<close>

type_synonym driver = "nat \<Rightarrow> input_manager \<Rightarrow> device_data"

definition dev_updateDataIfNeeded :: "driver \<Rightarrow> nat \<Rightarrow> input_manager \<Rightarrow> input_manager" where
  "dev_updateDataIfNeeded drv d st =
     (if dNeedUpdate (devs st ! d)
      then let st = upd_dev d (\<lambda>dev. dev\<lparr>dNeedUpdate := False\<rparr>) st
           in upd_dev d (\<lambda>dev. dev\<lparr>dData := drv d st\<rparr>) st
      else st)"

text \<open>The states of a digital proxy.\<close>

definition digital_OFF :: int where "digital_OFF = 0"
definition digital_ON :: int where "digital_ON = 1"
definition digital_TOGGLE_ON :: int where "digital_TOGGLE_ON = 2"
definition digital_TOGGLE_OFF :: int where "digital_TOGGLE_OFF = 3"

lemmas digital_state_defs = digital_OFF_def digital_ON_def digital_TOGGLE_ON_def digital_TOGGLE_OFF_def

definition digital_transition :: "int \<Rightarrow> int input_data \<Rightarrow> int input_data" where
  "digital_transition old_state mData =
     (let new_state = dValue mData
      in if old_state = digital_OFF
         then (if new_state \<noteq> 0 then mData\<lparr>dValue := digital_TOGGLE_ON\<rparr> else mData\<lparr>dValue := digital_OFF\<rparr>)
         else if old_state = digital_ON
         then (if new_state \<noteq> 0 then mData\<lparr>dValue := digital_ON\<rparr> else mData\<lparr>dValue := digital_TOGGLE_OFF\<rparr>)
         else if old_state = digital_TOGGLE_ON
         then (if new_state \<noteq> 0 then mData\<lparr>dValue := digital_ON\<rparr> else mData\<lparr>dValue := digital_TOGGLE_OFF\<rparr>)
         else if old_state = digital_TOGGLE_OFF
         then (if new_state \<noteq> 0 then mData\<lparr>dValue := digital_TOGGLE_ON\<rparr> else mData\<lparr>dValue := digital_OFF\<rparr>)
         else mData)"

text \<open>
  \<^verbatim>\<open>updateData\<close> of the proxies: the device comes up to date first.  Keyboard and glove proxies
  keep the base class's, which does nothing; of a position proxy the copied data is left out.
\<close>

definition copy_data :: "device_data \<Rightarrow> proxy \<Rightarrow> proxy" where
  "copy_data dd p =
     (case pType p of
        TDigital \<Rightarrow> p\<lparr>mDigitalData := digital_transition (dValue (mDigitalData p))
                        (sample_at DigitalData_default (mUnitNum p) (dDigital dd))\<rparr>
      | TAnalog \<Rightarrow> p\<lparr>mAnalogData := sample_at AnalogData_default (mUnitNum p) (dAnalog dd)\<rparr>
      | TCommand \<Rightarrow> p\<lparr>mCommandData := sample_at DigitalData_default (mUnitNum p) (dCommand dd)\<rparr>
      | TTextString \<Rightarrow> p\<lparr>mStringData := sample_at StringData_default (mUnitNum p) (dString dd)\<rparr>
      | _ \<Rightarrow> p)"

definition proxy_updateData :: "driver \<Rightarrow> nat \<Rightarrow> input_manager \<Rightarrow> input_manager result" where
  "proxy_updateData drv i st =
     (let p = proxies st ! i
      in if pType p \<in> {TKeyboardMouse, TGlove} \<or> mStupefied p \<or> (pType p = TPosition \<and> mTypedDevice p = None)
         then Inr st
         else case getProxiedInputDevice p of
                None \<Rightarrow> Inl null_pointer
              | Some d \<Rightarrow>
                  let st = dev_updateDataIfNeeded drv d st
                  in Inr (upd_proxy i (copy_data (dData (devs st ! d))) st))"

definition proxy_updateDataIfNeeded :: "driver \<Rightarrow> nat \<Rightarrow> input_manager \<Rightarrow> input_manager result" where
  "proxy_updateDataIfNeeded drv i st =
     (if mNeedUpdate (proxies st ! i)
      then proxy_updateData drv i (upd_proxy i (\<lambda>p. p\<lparr>mNeedUpdate := False\<rparr>) st)
      else Inr st)"

text \<open>What an application reads: \<^verbatim>\<open>getData\<close> of a digital, analog and command proxy.\<close>

definition digital_getData :: "proxy \<Rightarrow> int" where
  "digital_getData p = (if mStupefied p then digital_OFF else dValue (mDigitalData p))"

definition analog_getData :: "proxy \<Rightarrow> u32" where
  "analog_getData p = (if mStupefied p then 0 else dValue (mAnalogData p))"

definition command_getData :: "proxy \<Rightarrow> int" where
  "command_getData p = (if mStupefied p then 0 else dValue (mCommandData p))"

section \<open>The manager's operations\<close>

definition resetAllDevicesAndProxies :: "input_manager \<Rightarrow> input_manager" where
  "resetAllDevicesAndProxies st =
     (let st = fold (\<lambda>(_, p). upd_proxy p (\<lambda>p. p\<lparr>mNeedUpdate := True\<rparr>)) (mProxyTable st) st
      in fold (\<lambda>(_, d) st. case d of Some d \<Rightarrow> upd_dev d (\<lambda>dev. dev\<lparr>dNeedUpdate := True\<rparr>) st
                                   | None \<Rightarrow> st) (mDevTable st) st)"

text \<open>
  At its end \<^verbatim>\<open>updateAllDevices\<close> also lets the input logger record or replay the devices' data;
  the logger is not modelled (it is idle until an element configures it).
\<close>

definition updateAllDevices :: "driver \<Rightarrow> input_manager \<Rightarrow> input_manager" where
  "updateAllDevices drv st =
     fold (\<lambda>(_, d) st. case d of Some d \<Rightarrow> dev_updateDataIfNeeded drv d st | None \<Rightarrow> st) (mDevTable st) st"

definition updateAllProxies :: "driver \<Rightarrow> input_manager \<Rightarrow> input_manager result" where
  "updateAllProxies drv st = rfold (\<lambda>(_, p). proxy_updateDataIfNeeded drv p) (mProxyTable st) st"

definition refreshAllProxies :: "input_manager \<Rightarrow> input_manager" where
  "refreshAllProxies st = fold (\<lambda>(_, p) st. upd_proxy p (\<lambda>q. snd (refresh_proxy st q)) st) (mProxyTable st) st"

definition addDevice :: "nat option \<Rightarrow> input_manager \<Rightarrow> input_manager result" where
  "addDevice devPtr st =
     (case devPtr of
        None \<Rightarrow> Inl null_pointer
      | Some d \<Rightarrow> Inr (refreshAllProxies
                   (st\<lparr>mDevTable := omap_put (getInstanceName (devs st ! d)) devPtr (mDevTable st)\<rparr>)))"

definition addRemoteDevice :: "nat option \<Rightarrow> string \<Rightarrow> input_manager \<Rightarrow> input_manager" where
  "addRemoteDevice devPtr device_name st =
     refreshAllProxies (st\<lparr>mDevTable := omap_put device_name devPtr (mDevTable st)\<rparr>)"

definition removeDevice :: "string \<Rightarrow> input_manager \<Rightarrow> bool \<times> input_manager" where
  "removeDevice instName st =
     (case map_of (mDevTable st) instName of
        None \<Rightarrow> (False, st)
      | Some None \<Rightarrow> (False, st)
      | Some (Some d) \<Rightarrow>
          let st = fold (\<lambda>(_, p) st. if getProxiedInputDevice (proxies st ! p) = Some d
                                     then upd_proxy p (stupefy True) st else st) (mProxyTable st) st;
              st = upd_dev d (\<lambda>dev. dev\<lparr>dStopped := True\<rparr>) st
          in (True, refreshAllProxies (st\<lparr>mDevTable := omap_erase instName (mDevTable st)\<rparr>)))"

text \<open>\<^verbatim>\<open>removeDevice\<close> by pointer removes the first entry that has it.\<close>

definition removeDevice_ptr :: "nat option \<Rightarrow> input_manager \<Rightarrow> bool \<times> input_manager" where
  "removeDevice_ptr devPtr st =
     (case find (\<lambda>(_, d). d = devPtr) (mDevTable st) of
        Some (name, _) \<Rightarrow> removeDevice name st | None \<Rightarrow> (False, st))"

definition addProxy :: "nat \<Rightarrow> input_manager \<Rightarrow> (bool \<times> input_manager) result" where
  "addProxy p st =
     (let proxy_name = mName (proxies st ! p)
      in rbind (require (proxy_name \<noteq> []) (AssertionFailed ''Tried to add proxy with empty name'')) (\<lambda>_.
         Inr (if map_of (mProxyTable st) proxy_name \<noteq> None then (False, st)
              else (True, st\<lparr>mProxyTable := omap_put proxy_name p (mProxyTable st)\<rparr>))))"

definition getProxy :: "string \<Rightarrow> input_manager \<Rightarrow> nat option" where
  "getProxy proxyName st =
     (case map_of (mProxyTable st) proxyName of
        Some p \<Rightarrow> Some p
      | None \<Rightarrow>
          (case map_of (mProxyAliases st) proxyName of
             Some aliased \<Rightarrow> map_of (mProxyTable st) aliased
           | None \<Rightarrow> None))"

definition removeProxy :: "string \<Rightarrow> input_manager \<Rightarrow> bool \<times> input_manager" where
  "removeProxy proxyName st =
     (if map_of (mProxyTable st) proxyName = None then (False, st)
      else (True, st\<lparr>mProxyTable := omap_erase proxyName (mProxyTable st)\<rparr>))"

definition addProxyAlias :: "string \<Rightarrow> string \<Rightarrow> input_manager \<Rightarrow> input_manager" where
  "addProxyAlias aliasName proxyName st =
     st\<lparr>mProxyAliases := omap_put aliasName proxyName (mProxyAliases st)\<rparr>"

text \<open>
  Removing an alias; where debug output is on, its last statement looks up the alias of the
  empty \<^verbatim>\<open>proxy_name\<close> with \<^verbatim>\<open>operator[]\<close>, which enters it.
\<close>

definition removeProxyAlias :: "bool \<Rightarrow> string \<Rightarrow> input_manager \<Rightarrow> bool \<times> input_manager" where
  "removeProxyAlias debug alias_name st =
     (if map_of (mProxyAliases st) alias_name = None then (False, st)
      else let aliases = omap_erase alias_name (mProxyAliases st)
           in (True, st\<lparr>mProxyAliases :=
                (if debug \<and> map_of aliases [] = None then omap_put [] [] aliases else aliases)\<rparr>))"

text \<open>\<^verbatim>\<open>shutdown\<close>: the devices are stopped, the tables cleared.\<close>

definition input_shutdown :: "input_manager \<Rightarrow> input_manager" where
  "input_shutdown st =
     (fold (\<lambda>(_, d) st. case d of Some d \<Rightarrow> upd_dev d (\<lambda>dev. dev\<lparr>dStopped := True\<rparr>) st | None \<Rightarrow> st)
        (mDevTable st) st)\<lparr>mDevTable := [], mProxyTable := []\<rparr>"

section \<open>Device interfaces\<close>

definition refresh_interface :: "input_manager \<Rightarrow> dev_interface \<Rightarrow> dev_interface" where
  "refresh_interface st i =
     (let i = (if mNameSet i then i\<lparr>mProxyPtr := getProxy (mProxyName i) st\<rparr> else i)
      in case mProxyPtr i of
           None \<Rightarrow> i\<lparr>mTypeSpecificProxy := None\<rparr>
         | Some p \<Rightarrow> i\<lparr>mTypeSpecificProxy := (if pType (proxies st ! p) = ifType i then Some p else None)\<rparr>)"

definition refreshAllInterfaces :: "input_manager \<Rightarrow> input_manager" where
  "refreshAllInterfaces st = st\<lparr>mAllocatedDevices := map (refresh_interface st) (mAllocatedDevices st)\<rparr>"

text \<open>A new interface and its \<^verbatim>\<open>init\<close>.\<close>

definition addDevInterface :: "dev_type \<Rightarrow> input_manager \<Rightarrow> input_manager" where
  "addDevInterface t st = st\<lparr>mAllocatedDevices := mAllocatedDevices st
     @ [\<lparr>mProxyName = ''UnInitialized'', mNameSet = False, ifType = t, mProxyPtr = None,
         mTypeSpecificProxy = None\<rparr>]\<rparr>"

definition interface_init :: "nat \<Rightarrow> string \<Rightarrow> input_manager \<Rightarrow> input_manager" where
  "interface_init i proxyName st =
     st\<lparr>mAllocatedDevices := (mAllocatedDevices st)
       [i := refresh_interface st ((mAllocatedDevices st ! i)\<lparr>mProxyName := proxyName, mNameSet := True\<rparr>)]\<rparr>"

definition removeDevInterface :: "nat \<Rightarrow> input_manager \<Rightarrow> input_manager" where
  "removeDevInterface i st =
     st\<lparr>mAllocatedDevices := take i (mAllocatedDevices st) @ drop (Suc i) (mAllocatedDevices st)\<rparr>"
section \<open>Configuration\<close>

record input_element =
  ieID :: string
  ieName :: string
  ieFullName :: string
  ieDevice :: string
  ieUnit :: int
  ieProxy :: string
  ieKeyboard :: string
  ieInputDevice :: bool

text \<open>
  What the manager asks of others: the cluster's state, the active configuration, the drivers
  (whether a device can be made from an element, with which interfaces and data, and whether
  it starts sampling), the driver plug-ins and the logger.
\<close>

record input_env =
  clusterActive :: bool
  clusterMaster :: bool
  remoteDevice :: "input_element \<Rightarrow> bool"
  activeElement :: "string \<Rightarrow> bool"
  createDevice :: "input_element \<Rightarrow> (dev_type list \<times> device_data) option"
  startSampling :: "input_element \<Rightarrow> bool"
  loadDrivers :: "input_element \<Rightarrow> string list option"
  loggerConfig :: "input_element \<Rightarrow> bool"
  driver :: driver
  debugOutput :: bool

definition recognizeDevice :: "input_manager \<Rightarrow> input_element \<Rightarrow> bool" where
  "recognizeDevice st e \<longleftrightarrow> ieID e \<in> set (mConstructors st)"

text \<open>The proxies the factory knows.\<close>

definition proxy_constructors :: "(string \<times> dev_type) list" where
  "proxy_constructors = [(''analog_proxy'', TAnalog), (''digital_proxy'', TDigital),
     (''position_proxy'', TPosition), (''glove_proxy'', TGlove),
     (''keyboard_mouse_proxy'', TKeyboardMouse), (''command_proxy'', TCommand),
     (''string_proxy'', TTextString)]"

definition recognizeProxy :: "input_element \<Rightarrow> bool" where
  "recognizeProxy e \<longleftrightarrow> map_of proxy_constructors (ieID e) \<noteq> None"

definition recognizeProxyAlias :: "input_element \<Rightarrow> bool" where
  "recognizeProxyAlias e \<longleftrightarrow> ieID e = ''alias''"

definition configCanHandle :: "input_env \<Rightarrow> input_manager \<Rightarrow> input_element \<Rightarrow> bool" where
  "configCanHandle env st e \<longleftrightarrow>
     recognizeDevice st e \<and> \<not> remoteDevice env e \<or> recognizeProxy e \<or> recognizeProxyAlias e
     \<or> ieID e = ''display_system'' \<or> ieID e = ''input_manager'' \<or> ieID e = ''gadget_logger''"

definition device_new :: "string \<Rightarrow> dev_type list \<Rightarrow> device_data \<Rightarrow> device" where
  "device_new name types dd =
     \<lparr>mInstName = name, dTypes = types, dNeedUpdate = True, dStopped = False, dData = dd\<rparr>"

definition configureDevice :: "input_env \<Rightarrow> input_element \<Rightarrow> input_manager \<Rightarrow> (bool \<times> input_manager) result" where
  "configureDevice env e st =
     (case createDevice env e of
        None \<Rightarrow> Inr (False, st)
      | Some (types, dd) \<Rightarrow>
          if startSampling env e
          then rbind (addDevice (Some (length (devs st)))
                 (st\<lparr>devs := devs st @ [device_new (ieFullName e) types dd]\<rparr>)) (\<lambda>st. Inr (True, st))
          else Inr (False, st))"

text \<open>A proxy as constructed, and its \<^verbatim>\<open>config\<close>; a keyboard proxy has no unit.\<close>

definition proxy_new :: "dev_type \<Rightarrow> proxy" where
  "proxy_new t = \<lparr>mName = [], mStupefied = True, mNeedUpdate = True, mDeviceName = ''Unknown'',
     mTypedDevice = None, pType = t, mUnitNum = -1, mDigitalData = DigitalData_default,
     mAnalogData = AnalogData_default, mCommandData = DigitalData_default, mStringData = StringData_default\<rparr>"

definition proxy_config :: "input_element \<Rightarrow> input_manager \<Rightarrow> proxy \<Rightarrow> proxy" where
  "proxy_config e st p =
     (let p = p\<lparr>mName := ieFullName e\<rparr>;
          p = (if pType p = TKeyboardMouse then p else p\<lparr>mUnitNum := ieUnit e\<rparr>)
      in snd (refresh_proxy st (p\<lparr>mDeviceName := ieDevice e\<rparr>)))"

definition configureProxy :: "input_element \<Rightarrow> input_manager \<Rightarrow> (bool \<times> input_manager) result" where
  "configureProxy e st =
     (case map_of proxy_constructors (ieID e) of
        None \<Rightarrow> Inl (AssertionFailed ''recognizeProxy(element)'')
      | Some t \<Rightarrow>
          let p = proxy_config e st (proxy_new t)
          in addProxy (length (proxies st)) (st\<lparr>proxies := proxies st @ [p]\<rparr>))"

definition configureProxyAlias :: "input_element \<Rightarrow> input_manager \<Rightarrow> (bool \<times> input_manager) result" where
  "configureProxyAlias e st = Inr (True, addProxyAlias (ieName e) (ieProxy e) st)"

text \<open>An \<^verbatim>\<open>input_manager\<close> element loads drivers, unless it is of an old version.\<close>

definition configureInputManager :: "input_env \<Rightarrow> input_element \<Rightarrow> input_manager \<Rightarrow> bool \<times> input_manager" where
  "configureInputManager env e st =
     (case loadDrivers env e of
        None \<Rightarrow> (False, st)
      | Some drivers \<Rightarrow> (True, st\<lparr>mConstructors := mConstructors st @ drivers\<rparr>))"

text \<open>After a successful change all data is brought up to date.\<close>

definition bring_up_to_date :: "driver \<Rightarrow> input_manager \<Rightarrow> input_manager result" where
  "bring_up_to_date drv st =
     rbind (updateAllProxies drv (updateAllDevices drv (resetAllDevicesAndProxies st)))
       (\<lambda>st. Inr (refreshAllInterfaces st))"

definition after_config :: "driver \<Rightarrow> bool \<times> input_manager \<Rightarrow> (bool \<times> input_manager) result" where
  "after_config drv = (\<lambda>(ret_val, st).
     if ret_val then rbind (bring_up_to_date drv st) (\<lambda>st. Inr (True, st)) else Inr (False, st))"

definition input_configAdd :: "input_env \<Rightarrow> input_element \<Rightarrow> input_manager \<Rightarrow> (bool \<times> input_manager) result" where
  "input_configAdd env e st =
     rbind (require (configCanHandle env st e) (AssertionFailed ''configCanHandle(element)'')) (\<lambda>_.
     rbind
       (if clusterActive env \<and> ieInputDevice e then Inr (False, st)
        else if ieID e = ''input_window'' then
          (if activeElement env (ieKeyboard e) \<and> clusterActive env \<and> \<not> clusterMaster env
           then Inr (True, st) else configureDevice env e st)
        else if recognizeDevice st e then configureDevice env e st
        else if recognizeProxy e then configureProxy e st
        else if recognizeProxyAlias e then configureProxyAlias e st
        else if ieID e = ''display_system''
        then Inr (True, st\<lparr>mDisplaySystemElement := Some (ieFullName e)\<rparr>)
        else if ieID e = ''gadget_logger'' then Inr (loggerConfig env e, st)
        else if ieID e = ''input_manager''
        then Inr (configureInputManager env e st)
        else Inr (False, st))
       (after_config (driver env)))"

definition input_configRemove :: "input_env \<Rightarrow> input_element \<Rightarrow> input_manager \<Rightarrow> (bool \<times> input_manager) result" where
  "input_configRemove env e st =
     rbind (require (configCanHandle env st e) (AssertionFailed ''configCanHandle(element)'')) (\<lambda>_.
     after_config (driver env)
       (if remoteDevice env e then (False, st)
        else if recognizeDevice st e then removeDevice (ieFullName e) st
        else if recognizeProxyAlias e then removeProxyAlias (debugOutput env) (ieName e) st
        else if recognizeProxy e then removeProxy (ieFullName e) st
        else if ieID e = ''display_system'' then (True, st\<lparr>mDisplaySystemElement := None\<rparr>)
        else (False, st)))"

text \<open>The input part of a round of the kernel's loop.\<close>

definition input_frame :: "driver \<Rightarrow> input_manager \<Rightarrow> input_manager result" where
  "input_frame drv st = updateAllProxies drv (updateAllDevices drv (resetAllDevicesAndProxies st))"

text \<open>
  The manager as a transition system: configuration, the remote input plug-in with a device
  of its own, frames, sampling threads that change a device's data at any time, and the
  application's interfaces.
\<close>

inductive im_step :: "input_manager \<Rightarrow> input_manager \<Rightarrow> bool" where
  im_adds: "input_configAdd env e st = Inr (b, st') \<Longrightarrow> im_step st st'"
| im_removes: "input_configRemove env e st = Inr (b, st') \<Longrightarrow> im_step st st'"
| im_remote: "im_step st (addRemoteDevice (Some (length (devs st))) name
                (st\<lparr>devs := devs st @ [device_new inst types dd]\<rparr>))"
| im_unremote: "im_step st (snd (removeDevice name st))"
| im_frames: "input_frame drv st = Inr st' \<Longrightarrow> im_step st st'"
| im_samples: "im_step st (upd_dev d (\<lambda>dev. dev\<lparr>dData := dd\<rparr>) st)"
| im_interface: "im_step st (addDevInterface t st)"
| im_inits: "i < length (mAllocatedDevices st) \<Longrightarrow> im_step st (interface_init i name st)"
| im_drops: "im_step st (removeDevInterface i st)"
section \<open>What the operations change\<close>

text \<open>The fields of a device and of a proxy that data and update flags are not.\<close>

definition dev_core :: "device \<Rightarrow> string \<times> dev_type list \<times> bool" where
  "dev_core d = (mInstName d, dTypes d, dStopped d)"

definition proxy_core :: "proxy \<Rightarrow> string \<times> bool \<times> string \<times> nat option \<times> dev_type" where
  "proxy_core p = (mName p, mStupefied p, mDeviceName p, mTypedDevice p, pType p)"

definition digital_ok :: "proxy \<Rightarrow> bool" where
  "digital_ok p \<longleftrightarrow> dValue (mDigitalData p) \<in> {digital_OFF, digital_ON, digital_TOGGLE_ON, digital_TOGGLE_OFF}"

text \<open>Only data and flags change: tables, cores and interfaces stay.\<close>

definition only_data :: "input_manager \<Rightarrow> input_manager \<Rightarrow> bool" where
  "only_data st st' \<longleftrightarrow> map dev_core (devs st') = map dev_core (devs st)
     \<and> map proxy_core (proxies st') = map proxy_core (proxies st)
     \<and> mDevTable st' = mDevTable st \<and> mProxyTable st' = mProxyTable st
     \<and> mProxyAliases st' = mProxyAliases st \<and> mAllocatedDevices st' = mAllocatedDevices st
     \<and> (list_all digital_ok (proxies st) \<longrightarrow> list_all digital_ok (proxies st'))"

lemma only_data_refl [simp]: "only_data st st"
  by (simp add: only_data_def)

lemma only_data_trans: "only_data st st' \<Longrightarrow> only_data st' st'' \<Longrightarrow> only_data st st''"
  by (auto simp: only_data_def)

lemma map_update_same: "f y = f (xs ! i) \<Longrightarrow> map f (xs[i := y]) = map f xs"
  by (metis list_update_id map_update)

lemma list_all_update: "list_all P xs \<Longrightarrow> (i < length xs \<Longrightarrow> P y) \<Longrightarrow> list_all P (xs[i := y])"
  by (cases "i < length xs") (auto simp: list_all_length nth_list_update list_update_beyond)

lemma only_data_upd_dev: "dev_core (f (devs st ! d)) = dev_core (devs st ! d) \<Longrightarrow> only_data st (upd_dev d f st)"
  by (simp add: only_data_def upd_dev_def map_update_same)

lemma only_data_upd_proxy:
  assumes "proxy_core (f (proxies st ! p)) = proxy_core (proxies st ! p)"
    and "p < length (proxies st) \<Longrightarrow> digital_ok (proxies st ! p) \<Longrightarrow> digital_ok (f (proxies st ! p))"
  shows "only_data st (upd_proxy p f st)"
proof -
  have "list_all digital_ok ((proxies st)[p := f (proxies st ! p)])" if ok: "list_all digital_ok (proxies st)"
    using ok assms(2) by (intro list_all_update) (simp_all add: list_all_length)
  then show ?thesis using assms(1) by (simp add: only_data_def upd_proxy_def map_update_same)
qed

lemma only_data_fold:
  assumes "\<And>x st. only_data st (f x st)"
  shows "only_data st (fold f xs st)"
proof (induction xs arbitrary: st)
  case (Cons x xs)
  then show ?case using assms [of st x] by (auto intro: only_data_trans)
qed simp

lemma only_data_dev_update: "only_data st (dev_updateDataIfNeeded drv d st)"
proof (cases "dNeedUpdate (devs st ! d)")
  case True
  let ?st = "upd_dev d (\<lambda>dev. dev\<lparr>dNeedUpdate := False\<rparr>) st"
  have "only_data st ?st" by (rule only_data_upd_dev) (simp add: dev_core_def)
  moreover have "only_data ?st (upd_dev d (\<lambda>dev. dev\<lparr>dData := drv d ?st\<rparr>) ?st)"
    by (rule only_data_upd_dev) (simp add: dev_core_def)
  ultimately show ?thesis using True by (auto simp: dev_updateDataIfNeeded_def Let_def intro: only_data_trans)
qed (simp add: dev_updateDataIfNeeded_def)

lemma only_data_updateAllDevices: "only_data st (updateAllDevices drv st)"
  unfolding updateAllDevices_def
  by (rule only_data_fold) (auto simp: only_data_dev_update split: option.splits)

lemma only_data_reset: "only_data st (resetAllDevicesAndProxies st)"
proof -
  have p: "only_data s (upd_proxy p (\<lambda>q. q\<lparr>mNeedUpdate := True\<rparr>) s)" for s p
    by (rule only_data_upd_proxy) (simp_all add: proxy_core_def digital_ok_def)
  have d: "only_data s (upd_dev d (\<lambda>dev. dev\<lparr>dNeedUpdate := True\<rparr>) s)" for s d
    by (rule only_data_upd_dev) (simp add: dev_core_def)
  show ?thesis
    unfolding resetAllDevicesAndProxies_def Let_def
  proof (rule only_data_trans)
    show "only_data st (fold (\<lambda>(_, p). upd_proxy p (\<lambda>p. p\<lparr>mNeedUpdate := True\<rparr>)) (mProxyTable st) st)"
      by (rule only_data_fold) (simp add: p split: prod.split)
  qed (rule only_data_fold, simp add: d split: prod.split option.split)
qed

lemma digital_transition_state:
  "old \<in> {digital_OFF, digital_ON, digital_TOGGLE_ON, digital_TOGGLE_OFF} \<Longrightarrow>
     dValue (digital_transition old d) \<in> {digital_OFF, digital_ON, digital_TOGGLE_ON, digital_TOGGLE_OFF}"
  by (auto simp: digital_transition_def Let_def)

lemma copy_data_core: "proxy_core (copy_data dd p) = proxy_core p"
  by (cases "pType p") (simp_all add: copy_data_def proxy_core_def)

lemma copy_data_flag: "mNeedUpdate (copy_data dd p) = mNeedUpdate p"
  by (cases "pType p") (simp_all add: copy_data_def)

lemma copy_data_digital: "digital_ok p \<Longrightarrow> digital_ok (copy_data dd p)"
  using digital_transition_state [of "dValue (mDigitalData p)"]
  by (cases "pType p") (simp_all add: copy_data_def digital_ok_def)

lemmas copy_data_keeps = copy_data_core copy_data_flag copy_data_digital

text \<open>A proxy that is not stupefied has its device: its update never meets a null pointer.\<close>

definition proxy_points :: "proxy \<Rightarrow> bool" where
  "proxy_points p \<longleftrightarrow> mStupefied p \<or> mTypedDevice p \<noteq> None"

lemma proxy_updateData_only:
  assumes "proxy_points (proxies st ! i)"
  shows "\<exists>st'. proxy_updateData drv i st = Inr st' \<and> only_data st st'"
proof (cases "pType (proxies st ! i) \<in> {TKeyboardMouse, TGlove} \<or> mStupefied (proxies st ! i)
    \<or> (pType (proxies st ! i) = TPosition \<and> mTypedDevice (proxies st ! i) = None)")
  case True
  then have "proxy_updateData drv i st = Inr st" by (simp add: proxy_updateData_def Let_def)
  then show ?thesis by simp
next
  case False
  then obtain d where d: "mTypedDevice (proxies st ! i) = Some d" "\<not> mStupefied (proxies st ! i)"
    using assms by (auto simp: proxy_points_def)
  let ?st = "dev_updateDataIfNeeded drv d st"
  have "only_data st ?st" by (rule only_data_dev_update)
  moreover have "only_data ?st (upd_proxy i (copy_data (dData (devs ?st ! d))) ?st)"
    by (intro only_data_upd_proxy copy_data_keeps)
  ultimately show ?thesis
    using False d by (auto simp: proxy_updateData_def Let_def getProxiedInputDevice_def intro: only_data_trans)
qed

lemma proxy_update_only:
  assumes "proxy_points (proxies st ! i)"
  shows "\<exists>st'. proxy_updateDataIfNeeded drv i st = Inr st' \<and> only_data st st'"
proof (cases "mNeedUpdate (proxies st ! i)")
  case True
  let ?st = "upd_proxy i (\<lambda>p. p\<lparr>mNeedUpdate := False\<rparr>) st"
  have "only_data st ?st" by (rule only_data_upd_proxy) (simp_all add: proxy_core_def digital_ok_def)
  moreover have "proxy_points (proxies ?st ! i)"
    using assms by (cases "i < length (proxies st)") (auto simp: upd_proxy_def proxy_points_def list_update_beyond)
  ultimately show ?thesis
    using True proxy_updateData_only [of ?st i drv]
    by (auto simp: proxy_updateDataIfNeeded_def intro: only_data_trans)
qed (simp add: proxy_updateDataIfNeeded_def)

lemma proxy_core_points:
  "map proxy_core (proxies st') = map proxy_core (proxies st) \<Longrightarrow> i < length (proxies st) \<Longrightarrow>
     proxy_points (proxies st' ! i) = proxy_points (proxies st ! i)"
proof -
  assume "map proxy_core (proxies st') = map proxy_core (proxies st)" "i < length (proxies st)"
  then have "proxy_core (proxies st' ! i) = proxy_core (proxies st ! i)"
    by (metis length_map nth_map)
  then show ?thesis by (simp add: proxy_points_def proxy_core_def)
qed

lemma updateAllProxies_only:
  assumes "\<forall>(n, p) \<in> set (mProxyTable st). p < length (proxies st) \<and> proxy_points (proxies st ! p)"
  shows "\<exists>st'. updateAllProxies drv st = Inr st' \<and> only_data st st'"
proof -
  have "\<exists>st''. rfold (\<lambda>(_, p). proxy_updateDataIfNeeded drv p) t st' = Inr st'' \<and> only_data st st''"
    if "only_data st st'" "set t \<subseteq> set (mProxyTable st)" for t st'
    using that
  proof (induction t arbitrary: st')
    case (Cons e t)
    obtain n p where e: "e = (n, p)" by (cases e)
    have p: "p < length (proxies st)" "proxy_points (proxies st ! p)" using assms Cons.prems(2) e by auto
    then have "proxy_points (proxies st' ! p)"
      using Cons.prems(1) proxy_core_points by (auto simp: only_data_def)
    then obtain st1 where st1: "proxy_updateDataIfNeeded drv p st' = Inr st1" "only_data st' st1"
      using proxy_update_only by blast
    have "only_data st st1" using Cons.prems(1) st1(2) by (rule only_data_trans)
    then show ?case using Cons.IH [of st1] Cons.prems(2) st1(1) e by auto
  qed simp
  from this [of st "mProxyTable st"] show ?thesis by (simp add: updateAllProxies_def)
qed

end
