(* ===== verification/InputProxies.thy ===== *)
theory InputProxies
  imports InputMgr
begin

text \<open>
  The invariant of the input manager over everything that drives it (\<open>im_step\<close>): the registered
  devices are sampling, every registered proxy points to the device registered under the name
  it was configured with, or is stupefied, and every interface points to the proxy its name
  resolves to.  On top of it, that a frame never meets a null pointer and that a digital proxy
  reports the edges of the samples it reads.
\<close>

section \<open>The invariant\<close>

text \<open>The device a proxy should have: the registered one of its name, if it has the interface.\<close>

definition proxy_target :: "input_manager \<Rightarrow> proxy \<Rightarrow> nat option" where
  "proxy_target st q =
     (case getDevice (mDeviceName q) st of
        Some d \<Rightarrow> if pType q \<in> set (dTypes (devs st ! d)) then Some d else None
      | None \<Rightarrow> None)"

definition proxy_fresh :: "input_manager \<Rightarrow> proxy \<Rightarrow> bool" where
  "proxy_fresh st q \<longleftrightarrow>
     (case proxy_target st q of
        None \<Rightarrow> mStupefied q
      | Some d \<Rightarrow> \<not> mStupefied q \<and> mTypedDevice q = Some d)"

definition interface_fresh :: "input_manager \<Rightarrow> dev_interface \<Rightarrow> bool" where
  "interface_fresh st i \<longleftrightarrow>
     mProxyPtr i = (if mNameSet i then getProxy (mProxyName i) st else None)
     \<and> mTypeSpecificProxy i = (case mProxyPtr i of
          Some p \<Rightarrow> if pType (proxies st ! p) = ifType i then Some p else None
        | None \<Rightarrow> None)"

text \<open>What holds even while a change is under way.\<close>

definition devices_ok :: "input_manager \<Rightarrow> bool" where
  "devices_ok st \<longleftrightarrow> omap_wf (mDevTable st) \<and> distinct (map snd (mDevTable st))
     \<and> (\<forall>(n, x) \<in> set (mDevTable st). \<exists>d. x = Some d \<and> d < length (devs st) \<and> \<not> dStopped (devs st ! d))"

definition proxies_ok :: "input_manager \<Rightarrow> bool" where
  "proxies_ok st \<longleftrightarrow> omap_wf (mProxyTable st) \<and> list_all digital_ok (proxies st)
     \<and> (\<forall>(n, p) \<in> set (mProxyTable st). p < length (proxies st) \<and> mName (proxies st ! p) = n)"

definition interfaces_ok :: "input_manager \<Rightarrow> bool" where
  "interfaces_ok st \<longleftrightarrow> list_all (\<lambda>i. mNameSet i \<or> mProxyPtr i = None) (mAllocatedDevices st)"

definition im_base :: "input_manager \<Rightarrow> bool" where
  "im_base st \<longleftrightarrow> devices_ok st \<and> proxies_ok st \<and> interfaces_ok st"

definition proxies_fresh :: "input_manager \<Rightarrow> bool" where
  "proxies_fresh st \<longleftrightarrow> (\<forall>(n, p) \<in> set (mProxyTable st). proxy_fresh st (proxies st ! p))"

definition im_inv :: "input_manager \<Rightarrow> bool" where
  "im_inv st \<longleftrightarrow> im_base st \<and> proxies_fresh st \<and> list_all (interface_fresh st) (mAllocatedDevices st)"

section \<open>Loops over the tables\<close>

lemma omap_wf_distinct: "omap_wf m \<Longrightarrow> distinct (map fst m)"
  by (simp add: omap_wf_def strict_sorted_iff)

text \<open>Registered proxies have different names, so they are different proxies.\<close>

lemma proxies_distinct:
  assumes "proxies_ok st"
  shows "distinct (map snd (mProxyTable st))"
proof -
  have "map fst (mProxyTable st) = map (\<lambda>p. mName (proxies st ! p)) (map snd (mProxyTable st))"
    using assms by (auto simp: proxies_ok_def)
  then show ?thesis
    using assms omap_wf_distinct by (metis distinct_map proxies_ok_def)
qed

lemma upd_proxy_proxies [simp]:
  "length (proxies (upd_proxy p f st)) = length (proxies st)"
  "devs (upd_proxy p f st) = devs st" "mDevTable (upd_proxy p f st) = mDevTable st"
  by (simp_all add: upd_proxy_def)

text \<open>A loop that changes each registered proxy by the same function.\<close>

lemma fold_upd_proxy:
  assumes "distinct (map snd t)"
  shows "\<exists>ps. fold (\<lambda>(_, p). upd_proxy p g) t st = st\<lparr>proxies := ps\<rparr> \<and> length ps = length (proxies st)
     \<and> (\<forall>i < length ps. ps ! i = (if i \<in> snd ` set t then g (proxies st ! i) else proxies st ! i))"
  using assms
proof (induction t arbitrary: st)
  case Nil
  show ?case by (rule exI [of _ "proxies st"]) simp
next
  case (Cons e t)
  obtain n p where e: "e = (n, p)" by (cases e)
  let ?st = "upd_proxy p g st"
  obtain ps where ps: "fold (\<lambda>(_, p). upd_proxy p g) t ?st = ?st\<lparr>proxies := ps\<rparr>"
    "length ps = length (proxies ?st)"
    "\<forall>i < length ps. ps ! i = (if i \<in> snd ` set t then g (proxies ?st ! i) else proxies ?st ! i)"
    using Cons.IH [of ?st] Cons.prems by auto
  have "ps ! i = (if i \<in> snd ` set (e # t) then g (proxies st ! i) else proxies st ! i)"
    if "i < length ps" for i
    using that ps(2,3) Cons.prems e by (cases "i = p") (auto simp: upd_proxy_def)
  moreover have "fold (\<lambda>(_, p). upd_proxy p g) (e # t) st = st\<lparr>proxies := ps\<rparr>"
    using ps(1) e by (simp add: upd_proxy_def)
  ultimately show ?case using ps(2) by (intro exI [of _ ps]) simp
qed

lemma refresh_proxy_cong:
  "mDevTable st' = mDevTable st \<Longrightarrow> devs st' = devs st \<Longrightarrow> refresh_proxy st' = refresh_proxy st"
  by (rule ext) (simp add: refresh_proxy_def getDevice_def split: option.split)

lemma refreshAllProxies_fold:
  "refreshAllProxies st = fold (\<lambda>(_, p). upd_proxy p (\<lambda>q. snd (refresh_proxy st q))) (mProxyTable st) st"
proof -
  have "fold (\<lambda>(_, p) st. upd_proxy p (\<lambda>q. snd (refresh_proxy st q)) st) t s
      = fold (\<lambda>(_, p). upd_proxy p (\<lambda>q. snd (refresh_proxy st q))) t s"
    if "mDevTable s = mDevTable st" "devs s = devs st" for t s
    using that
  proof (induction t arbitrary: s)
    case (Cons e t)
    have "refresh_proxy s = refresh_proxy st" using Cons.prems by (rule refresh_proxy_cong)
    then show ?case using Cons by (cases e) simp
  qed simp
  from this [OF refl refl] show ?thesis by (simp add: refreshAllProxies_def)
qed

lemma refreshAllProxies_nth:
  assumes "proxies_ok st"
  shows "\<exists>ps. refreshAllProxies st = st\<lparr>proxies := ps\<rparr> \<and> length ps = length (proxies st)
     \<and> (\<forall>i < length ps. ps ! i = (if i \<in> snd ` set (mProxyTable st)
            then snd (refresh_proxy st (proxies st ! i)) else proxies st ! i))"
  unfolding refreshAllProxies_fold by (rule fold_upd_proxy [OF proxies_distinct [OF assms]])

lemma refresh_proxy_keeps:
  "mName (snd (refresh_proxy st q)) = mName q" "pType (snd (refresh_proxy st q)) = pType q"
  "mDeviceName (snd (refresh_proxy st q)) = mDeviceName q" "mNeedUpdate (snd (refresh_proxy st q)) = mNeedUpdate q"
  "mDigitalData (snd (refresh_proxy st q)) = mDigitalData q"
  by (simp_all add: refresh_proxy_def stupefy_def split: option.split)

lemma proxy_target_cong:
  assumes "mDevTable st' = mDevTable st" "\<And>d. Some d \<in> snd ` set (mDevTable st) \<Longrightarrow> dTypes (devs st' ! d) = dTypes (devs st ! d)"
  shows "proxy_target st' = proxy_target st"
proof (rule ext)
  fix q
  show "proxy_target st' q = proxy_target st q"
  proof (cases "getDevice (mDeviceName q) st")
    case (Some d)
    then have "map_of (mDevTable st) (mDeviceName q) = Some (Some d)"
      by (simp add: getDevice_def split: option.splits)
    then have "Some d \<in> snd ` set (mDevTable st)" by (force dest: map_of_SomeD)
    then show ?thesis using assms Some by (simp add: proxy_target_def getDevice_def)
  qed (use assms in \<open>simp add: proxy_target_def getDevice_def\<close>)
qed

lemma proxy_target_registered:
  assumes "proxy_target st q = Some d"
  shows "Some d \<in> snd ` set (mDevTable st)"
proof -
  have "getDevice (mDeviceName q) st = Some d"
    using assms by (auto simp: proxy_target_def split: option.splits if_splits)
  then have "map_of (mDevTable st) (mDeviceName q) = Some (Some d)"
    by (simp add: getDevice_def split: option.splits)
  then show ?thesis by (force dest: map_of_SomeD)
qed

lemma proxy_fresh_cong: "mDevTable st' = mDevTable st \<Longrightarrow> devs st' = devs st \<Longrightarrow> proxy_fresh st' = proxy_fresh st"
  using proxy_target_cong [of st' st] by (simp add: proxy_fresh_def fun_eq_iff)

lemma refresh_proxy_fresh: "proxy_fresh st (snd (refresh_proxy st q))"
  by (auto simp: proxy_fresh_def proxy_target_def refresh_proxy_def stupefy_def split: option.split)

section \<open>What each operation keeps\<close>

lemma proxies_ok_fold_stupefy:
  "\<exists>ps. fold (\<lambda>(_, p) st. if getProxiedInputDevice (proxies st ! p) = d then upd_proxy p (stupefy True) st else st) t st
      = st\<lparr>proxies := ps\<rparr> \<and> map mName ps = map mName (proxies st) \<and> map pType ps = map pType (proxies st)
      \<and> map mDigitalData ps = map mDigitalData (proxies st)"
proof (induction t arbitrary: st)
  case Nil
  show ?case by (rule exI [of _ "proxies st"]) simp
next
  case (Cons e t)
  obtain n p where e: "e = (n, p)" by (cases e)
  define st1 where "st1 = (if getProxiedInputDevice (proxies st ! p) = d then upd_proxy p (stupefy True) st else st)"
  have "map mName (proxies st1) = map mName (proxies st)" "map pType (proxies st1) = map pType (proxies st)"
    "map mDigitalData (proxies st1) = map mDigitalData (proxies st)"
    by (auto simp: st1_def upd_proxy_def map_update_same stupefy_def)
  moreover obtain ps where "fold (\<lambda>(_, p) st. if getProxiedInputDevice (proxies st ! p) = d
        then upd_proxy p (stupefy True) st else st) t st1 = st1\<lparr>proxies := ps\<rparr>"
      "map mName ps = map mName (proxies st1)" "map pType ps = map pType (proxies st1)"
      "map mDigitalData ps = map mDigitalData (proxies st1)"
    using Cons.IH by blast
  ultimately show ?case using e by (intro exI [of _ ps]) (auto simp: st1_def upd_proxy_def)
qed

text \<open>Refreshing restores what a changed device table broke.\<close>

lemma proxies_ok_refresh:
  assumes "proxies_ok st"
  shows "proxies_ok (refreshAllProxies st) \<and> proxies_fresh (refreshAllProxies st)"
proof -
  obtain ps where ps: "refreshAllProxies st = st\<lparr>proxies := ps\<rparr>" "length ps = length (proxies st)"
    "\<forall>i < length ps. ps ! i = (if i \<in> snd ` set (mProxyTable st)
        then snd (refresh_proxy st (proxies st ! i)) else proxies st ! i)"
    using refreshAllProxies_nth [OF assms] by auto
  have same: "mName (ps ! i) = mName (proxies st ! i)" "digital_ok (ps ! i)" if "i < length ps" for i
    using that ps(2,3) assms by (auto simp: refresh_proxy_keeps digital_ok_def proxies_ok_def list_all_length)
  have fresh: "proxy_fresh (st\<lparr>proxies := ps\<rparr>) (ps ! p)" if "(n, p) \<in> set (mProxyTable st)" for n p
  proof -
    have "p < length ps" using that assms ps(2) by (auto simp: proxies_ok_def)
    moreover have "p \<in> snd ` set (mProxyTable st)" using that by force
    ultimately have "ps ! p = snd (refresh_proxy st (proxies st ! p))" using ps(3) by simp
    then have "proxy_fresh st (ps ! p)" using refresh_proxy_fresh by simp
    then show ?thesis using proxy_fresh_cong [of "st\<lparr>proxies := ps\<rparr>" st] by simp
  qed
  show ?thesis
    using assms ps(2) same fresh
    by (auto simp: ps(1) proxies_ok_def proxies_fresh_def list_all_length)
qed

lemma only_data_nth:
  assumes "only_data st st'"
  shows "p < length (proxies st) \<Longrightarrow> proxy_core (proxies st' ! p) = proxy_core (proxies st ! p)"
    and "d < length (devs st) \<Longrightarrow> dev_core (devs st' ! d) = dev_core (devs st ! d)"
    and "length (proxies st') = length (proxies st)" "length (devs st') = length (devs st)"
  using assms by (auto simp: only_data_def dest: map_eq_imp_length_eq) (metis length_map nth_map)+

lemma interface_fresh_cong:
  assumes "proxies_ok st" "mProxyTable st' = mProxyTable st" "mProxyAliases st' = mProxyAliases st"
    and "\<And>p. p < length (proxies st) \<Longrightarrow> pType (proxies st' ! p) = pType (proxies st ! p)"
  shows "interface_fresh st' i = interface_fresh st i"
proof -
  have get: "getProxy n st' = getProxy n st" for n using assms(2,3) by (simp add: getProxy_def split: option.split)
  have "p < length (proxies st)" if "getProxy n st = Some p" for n p
    using that assms(1) by (auto simp: getProxy_def proxies_ok_def split: option.splits dest!: map_of_SomeD)
  then have "pType (proxies st' ! p) = pType (proxies st ! p)" if "getProxy n st = Some p" for n p
    using that assms(4) by blast
  then show ?thesis
    by (auto simp: interface_fresh_def get split: option.splits if_splits)
qed

lemma only_data_base:
  assumes "im_base st" "only_data st st'"
  shows "im_base st'"
proof -
  note [simp] = only_data_nth [OF assms(2)]
  have st: "mDevTable st' = mDevTable st" "mProxyTable st' = mProxyTable st"
    "mAllocatedDevices st' = mAllocatedDevices st"
    using assms(2) by (simp_all add: only_data_def)
  have "dStopped (devs st' ! d) = dStopped (devs st ! d)" if "d < length (devs st)" for d
    using only_data_nth(2) [OF assms(2) that] by (simp add: dev_core_def)
  moreover have "mName (proxies st' ! p) = mName (proxies st ! p)" if "p < length (proxies st)" for p
    using only_data_nth(1) [OF assms(2) that] by (simp add: proxy_core_def)
  moreover have "list_all digital_ok (proxies st')"
    using assms by (auto simp: only_data_def im_base_def proxies_ok_def)
  ultimately show ?thesis
    using assms(1) by (fastforce simp: im_base_def devices_ok_def proxies_ok_def interfaces_ok_def st)
qed

lemma only_data_fresh:
  assumes "im_base st" "proxies_fresh st" "only_data st st'"
  shows "proxies_fresh st'"
proof -
  have st: "mDevTable st' = mDevTable st" "mProxyTable st' = mProxyTable st"
    using assms(3) by (simp_all add: only_data_def)
  have "dTypes (devs st' ! d) = dTypes (devs st ! d)" if "Some d \<in> snd ` set (mDevTable st)" for d
  proof -
    have "d < length (devs st)" using that assms(1) by (fastforce simp: im_base_def devices_ok_def)
    then show ?thesis using only_data_nth(2) [OF assms(3)] by (simp add: dev_core_def)
  qed
  then have target: "proxy_target st' = proxy_target st" by (rule proxy_target_cong [OF st(1)])
  have "proxy_fresh st' (proxies st' ! p) = proxy_fresh st (proxies st ! p)" if "(n, p) \<in> set (mProxyTable st)" for n p
  proof -
    have "p < length (proxies st)" using that assms(1) by (auto simp: im_base_def proxies_ok_def)
    then have "proxy_core (proxies st' ! p) = proxy_core (proxies st ! p)" by (rule only_data_nth(1) [OF assms(3)])
    then have "proxy_target st (proxies st' ! p) = proxy_target st (proxies st ! p)"
      "mStupefied (proxies st' ! p) = mStupefied (proxies st ! p)"
      "mTypedDevice (proxies st' ! p) = mTypedDevice (proxies st ! p)"
      by (simp_all add: proxy_core_def proxy_target_def split: option.split)
    then show ?thesis by (simp add: proxy_fresh_def target split: option.split)
  qed
  then show ?thesis using assms(2) by (auto simp: proxies_fresh_def st)
qed

lemma only_data_inv:
  assumes "im_inv st" "only_data st st'"
  shows "im_inv st'"
proof -
  have "im_base st" "proxies_ok st" using assms(1) by (simp_all add: im_inv_def im_base_def)
  have "pType (proxies st' ! p) = pType (proxies st ! p)" if "p < length (proxies st)" for p
    using only_data_nth(1) [OF assms(2) that] by (simp add: proxy_core_def)
  with \<open>proxies_ok st\<close> have "interface_fresh st' i = interface_fresh st i" for i
    using assms(2) interface_fresh_cong unfolding only_data_def by blast
  moreover have "mAllocatedDevices st' = mAllocatedDevices st" using assms(2) by (simp add: only_data_def)
  moreover have "list_all (interface_fresh st) (mAllocatedDevices st)" using assms(1) by (simp add: im_inv_def)
  ultimately have "list_all (interface_fresh st') (mAllocatedDevices st')" by (simp add: list_all_iff)
  moreover have "im_base st'" using \<open>im_base st\<close> assms(2) by (rule only_data_base)
  moreover have "proxies_fresh st'"
    using \<open>im_base st\<close> _ assms(2) by (rule only_data_fresh) (use assms(1) in \<open>simp add: im_inv_def\<close>)
  ultimately show ?thesis by (simp add: im_inv_def)
qed

text \<open>A fresh proxy that is not stupefied has a device.\<close>

lemma fresh_points: "proxy_fresh st q \<Longrightarrow> proxy_points q"
  by (auto simp: proxy_fresh_def proxy_points_def split: option.splits)

lemma fresh_device: "proxy_fresh st q \<Longrightarrow> getProxiedInputDevice q = proxy_target st q"
  by (auto simp: proxy_fresh_def getProxiedInputDevice_def split: option.splits)

lemma input_frame_only:
  assumes "im_base st" "proxies_fresh st"
  shows "\<exists>st'. input_frame drv st = Inr st' \<and> only_data st st'"
proof -
  let ?st = "updateAllDevices drv (resetAllDevicesAndProxies st)"
  have only: "only_data st ?st"
    using only_data_reset only_data_updateAllDevices by (rule only_data_trans)
  have "im_base ?st" using assms(1) only by (rule only_data_base)
  moreover have "proxies_fresh ?st" using assms only by (rule only_data_fresh)
  ultimately have "\<forall>(n, p) \<in> set (mProxyTable ?st). p < length (proxies ?st) \<and> proxy_points (proxies ?st ! p)"
    by (auto simp: im_base_def proxies_ok_def proxies_fresh_def intro: fresh_points)
  then obtain st' where "updateAllProxies drv ?st = Inr st'" "only_data ?st st'"
    using updateAllProxies_only by blast
  then show ?thesis using only only_data_trans by (auto simp: input_frame_def)
qed

lemma refresh_interface_fresh:
  assumes "mNameSet i \<or> mProxyPtr i = None"
  shows "interface_fresh st (refresh_interface st i)"
  using assms by (cases "mNameSet i")
    (auto simp: interface_fresh_def refresh_interface_def Let_def split: option.splits)

lemma refreshAllInterfaces_inv:
  assumes "im_base st" "proxies_fresh st"
  shows "im_inv (refreshAllInterfaces st)"
proof -
  let ?st = "refreshAllInterfaces st"
  have same: "mDevTable ?st = mDevTable st" "devs ?st = devs st" "proxies ?st = proxies st"
    "mProxyTable ?st = mProxyTable st" "mProxyAliases ?st = mProxyAliases st"
    by (simp_all add: refreshAllInterfaces_def)
  have named: "mNameSet i \<or> mProxyPtr i = None" if "i \<in> set (mAllocatedDevices st)" for i
    using that assms(1) by (auto simp: im_base_def interfaces_ok_def list_all_iff)
  have fresh: "interface_fresh ?st j" if j: "j \<in> set (mAllocatedDevices ?st)" for j
  proof -
    obtain i where i: "i \<in> set (mAllocatedDevices st)" "j = refresh_interface st i"
      using j by (auto simp: refreshAllInterfaces_def)
    have "interface_fresh st j" unfolding i(2) by (rule refresh_interface_fresh [OF named [OF i(1)]])
    moreover have "proxies_ok st" using assms(1) by (simp add: im_base_def)
    ultimately show ?thesis using interface_fresh_cong [of st ?st j] same by simp
  qed
  then have "interfaces_ok ?st" by (auto simp: interfaces_ok_def interface_fresh_def list_all_iff)
  then have "im_base ?st"
    using assms(1) by (simp add: im_base_def devices_ok_def proxies_ok_def same)
  moreover have "proxies_fresh ?st"
    using assms(2) proxy_fresh_cong [OF same(1,2)] by (simp add: proxies_fresh_def same)
  ultimately show ?thesis using fresh by (simp add: im_inv_def list_all_iff)
qed

lemma bring_up_to_date_inv:
  assumes "im_base st" "proxies_fresh st"
  shows "\<exists>st'. bring_up_to_date drv st = Inr st' \<and> im_inv st'"
proof -
  obtain st' where st': "input_frame drv st = Inr st'" "only_data st st'"
    using input_frame_only [OF assms] by blast
  have "im_base st'" "proxies_fresh st'"
    using assms st'(2) by (blast intro: only_data_base only_data_fresh)+
  then have "im_inv (refreshAllInterfaces st')" by (rule refreshAllInterfaces_inv)
  then show ?thesis using st'(1) by (simp add: bring_up_to_date_def input_frame_def)
qed

lemma after_config_inv:
  assumes "im_base st" "proxies_fresh st" "ok \<or> im_inv st"
  shows "\<exists>b st'. after_config drv (ok, st) = Inr (b, st') \<and> im_inv st'"
  using assms bring_up_to_date_inv [OF assms(1,2), of drv] by (auto simp: after_config_def)

section \<open>Every step keeps the invariant\<close>

lemma refresh_base: "im_base st \<Longrightarrow> im_base (refreshAllProxies st)"
  and refresh_fresh: "im_base st \<Longrightarrow> proxies_fresh (refreshAllProxies st)"
proof -
  assume base: "im_base st"
  then have ok: "proxies_ok (refreshAllProxies st)" "proxies_fresh (refreshAllProxies st)"
    using proxies_ok_refresh [of st] by (simp_all add: im_base_def)
  show "proxies_fresh (refreshAllProxies st)" by (fact ok(2))
  obtain ps where "refreshAllProxies st = st\<lparr>proxies := ps\<rparr>"
    using refreshAllProxies_nth [of st] base by (auto simp: im_base_def)
  then show "im_base (refreshAllProxies st)"
    using base ok(1) by (simp add: im_base_def devices_ok_def interfaces_ok_def)
qed

lemma refresh_inv:
  assumes base: "im_base st" and fresh: "list_all (interface_fresh st) (mAllocatedDevices st)"
  shows "im_inv (refreshAllProxies st)"
proof -
  have ok: "proxies_ok st" using base by (simp add: im_base_def)
  obtain ps where ps: "refreshAllProxies st = st\<lparr>proxies := ps\<rparr>" "length ps = length (proxies st)"
    "\<forall>i < length ps. ps ! i = (if i \<in> snd ` set (mProxyTable st)
        then snd (refresh_proxy st (proxies st ! i)) else proxies st ! i)"
    using refreshAllProxies_nth [OF ok] by auto
  have "interface_fresh (st\<lparr>proxies := ps\<rparr>) i = interface_fresh st i" for i
    by (rule interface_fresh_cong [OF ok]) (simp_all add: ps(2,3) refresh_proxy_keeps)
  then show ?thesis
    using refresh_base [OF base] refresh_fresh [OF base] fresh by (simp add: im_inv_def ps(1) list_all_iff)
qed

text \<open>The device table with a new device, and without one.\<close>

lemma omap_distinct_snd: "omap_wf m \<Longrightarrow> distinct (map snd m) \<longleftrightarrow> inj_on snd (set m)"
  using omap_wf_distinct [of m] by (auto simp: distinct_map)

lemma omap_put_distinct_snd:
  assumes "omap_wf m" "distinct (map snd m)" "v \<notin> snd ` set m"
  shows "distinct (map snd (omap_put k v m))"
proof -
  have wf: "omap_wf (omap_put k v m)" by (rule omap_put_wf) (fact assms(1))
  have "inj_on snd (set m)" using assms(1,2) by (simp add: omap_distinct_snd)
  then have "inj_on snd (insert (k, v) (set m))" using assms(3) by (auto simp: inj_on_def image_iff)
  then have "inj_on snd (set (omap_put k v m))"
    by (rule inj_on_subset) (auto dest: omap_put_elem)
  then show ?thesis using wf by (simp add: omap_distinct_snd)
qed

lemma omap_erase_distinct_snd:
  assumes "omap_wf m" "distinct (map snd m)"
  shows "distinct (map snd (omap_erase k m))"
proof -
  have "inj_on snd (set m)" using assms by (simp add: omap_distinct_snd)
  then have "inj_on snd (set (omap_erase k m))" by (rule inj_on_subset) (auto dest: omap_erase_elem)
  then show ?thesis using assms(1) by (simp add: omap_distinct_snd omap_erase_wf)
qed

lemma new_device_base:
  assumes "im_base st"
  shows "im_base (st\<lparr>devs := devs st @ [device_new inst types dd],
           mDevTable := omap_put name (Some (length (devs st))) (mDevTable st)\<rparr>)"
proof -
  have ok: "devices_ok st" using assms by (simp add: im_base_def)
  then have wf: "omap_wf (mDevTable st)" "distinct (map snd (mDevTable st))" by (simp_all add: devices_ok_def)
  have "Some (length (devs st)) \<notin> snd ` set (mDevTable st)" using ok by (auto simp: devices_ok_def)
  then have "distinct (map snd (omap_put name (Some (length (devs st))) (mDevTable st)))"
    using wf by (intro omap_put_distinct_snd)
  moreover have "\<exists>d. x = Some d \<and> d < Suc (length (devs st))
      \<and> \<not> dStopped ((devs st @ [device_new inst types dd]) ! d)"
    if "(n, x) \<in> set (omap_put name (Some (length (devs st))) (mDevTable st))" for n x
    using omap_put_elem [OF that] ok by (fastforce simp: devices_ok_def device_new_def nth_append)
  ultimately show ?thesis
    using assms wf(1) by (auto simp: im_base_def devices_ok_def proxies_ok_def interfaces_ok_def omap_put_wf)
qed

lemma new_device_inv:
  assumes "im_inv st"
  shows "im_inv (refreshAllProxies (st\<lparr>devs := devs st @ [device_new inst types dd],
           mDevTable := omap_put name (Some (length (devs st))) (mDevTable st)\<rparr>))" (is "im_inv (refreshAllProxies ?st)")
proof (rule refresh_inv)
  show "im_base ?st" using assms by (intro new_device_base) (simp add: im_inv_def)
  have "interface_fresh ?st i = interface_fresh st i" for i
    using assms by (intro interface_fresh_cong) (simp_all add: im_inv_def im_base_def)
  then show "list_all (interface_fresh ?st) (mAllocatedDevices ?st)" using assms by (simp add: im_inv_def list_all_iff)
qed

lemma removeDevice_inv:
  assumes "im_inv st"
  shows "im_inv (snd (removeDevice name st))"
proof (cases "map_of (mDevTable st) name")
  case (Some x)
  have ok: "devices_ok st" "proxies_ok st" "interfaces_ok st" "list_all (interface_fresh st) (mAllocatedDevices st)"
    using assms by (simp_all add: im_inv_def im_base_def)
  have mem: "(name, x) \<in> set (mDevTable st)" using Some by (rule map_of_SomeD)
  then obtain d where d: "x = Some d" "d < length (devs st)" using ok(1) by (auto simp: devices_ok_def)
  obtain ps where ps: "fold (\<lambda>(_, p) st. if getProxiedInputDevice (proxies st ! p) = Some d
        then upd_proxy p (stupefy True) st else st) (mProxyTable st) st = st\<lparr>proxies := ps\<rparr>"
    "map mName ps = map mName (proxies st)" "map pType ps = map pType (proxies st)"
    "map mDigitalData ps = map mDigitalData (proxies st)"
    using proxies_ok_fold_stupefy [of "Some d" "mProxyTable st" st] by blast
  let ?st = "st\<lparr>proxies := ps, devs := (devs st)[d := (devs st ! d)\<lparr>dStopped := True\<rparr>],
      mDevTable := omap_erase name (mDevTable st)\<rparr>"
  have res: "snd (removeDevice name st) = refreshAllProxies ?st"
    using Some d ps(1) by (simp add: removeDevice_def upd_dev_def)
  have len: "length ps = length (proxies st)" using ps(2) by (metis length_map)
  have nth: "mName (ps ! i) = mName (proxies st ! i)" "pType (ps ! i) = pType (proxies st ! i)"
    "mDigitalData (ps ! i) = mDigitalData (proxies st ! i)" if "i < length (proxies st)" for i
    using that ps(2-4) len by (metis nth_map)+
  have wf: "omap_wf (mDevTable st)" "distinct (map snd (mDevTable st))" using ok(1) by (simp_all add: devices_ok_def)
  have other: "\<exists>k. y = Some k \<and> k < length (devs st) \<and> k \<noteq> d \<and> \<not> dStopped (devs st ! k)"
    if y: "(n, y) \<in> set (omap_erase name (mDevTable st))" for n y
  proof -
    have "map_of (omap_erase name (mDevTable st)) n = Some y"
      using y omap_wf_distinct [OF omap_erase_wf [OF wf(1)]] by simp
    then have ny: "n \<noteq> name" "(n, y) \<in> set (mDevTable st)"
      using omap_erase_lookup [OF wf(1), of name] y by (auto dest: omap_erase_elem)
    then have "y \<noteq> x" using wf mem omap_distinct_snd by (fastforce simp: inj_on_def)
    then show ?thesis using ny(2) ok(1) d(1) by (auto simp: devices_ok_def)
  qed
  have "devices_ok ?st"
    using other omap_erase_wf [OF wf(1)] omap_erase_distinct_snd [OF wf]
    by (fastforce simp: devices_ok_def)
  moreover have "proxies_ok ?st"
    using ok(2) len nth by (auto simp: proxies_ok_def list_all_length digital_ok_def)
  moreover have "interface_fresh ?st i = interface_fresh st i" for i
    using nth by (intro interface_fresh_cong [OF ok(2)]) simp_all
  ultimately show ?thesis
    unfolding res using ok(3,4) by (intro refresh_inv) (simp_all add: im_base_def interfaces_ok_def list_all_iff)
qed (use assms in \<open>simp add: removeDevice_def\<close>)

text \<open>What the operations of a configuration change owe before the data is brought up to date.\<close>

definition config_ok :: "bool \<times> input_manager \<Rightarrow> bool" where
  "config_ok = (\<lambda>(ret, st). im_base st \<and> proxies_fresh st \<and> (ret \<or> im_inv st))"

lemma config_ok_inv: "im_inv st \<Longrightarrow> config_ok (ret, st)"
  by (simp add: config_ok_def im_inv_def)

lemma after_config_ok: "config_ok x \<Longrightarrow> \<exists>b st'. after_config drv x = Inr (b, st') \<and> im_inv st'"
  using after_config_inv by (cases x) (auto simp: config_ok_def)

text \<open>Changes of the other tables leave devices and proxies as they are.\<close>

lemma config_ok_tables:
  assumes "im_inv st" "mDevTable st' = mDevTable st" "devs st' = devs st" "proxies st' = proxies st"
    and "omap_wf (mProxyTable st')" "set (mProxyTable st') \<subseteq> set (mProxyTable st)"
    and "mAllocatedDevices st' = mAllocatedDevices st"
  shows "config_ok (True, st')"
proof -
  have "proxies_fresh st'"
    using assms proxy_fresh_cong [OF assms(2,3)] by (auto simp: im_inv_def proxies_fresh_def)
  moreover have "im_base st'"
    using assms by (auto simp: im_inv_def im_base_def devices_ok_def proxies_ok_def interfaces_ok_def)
  ultimately show ?thesis by (simp add: config_ok_def)
qed

text \<open>A new proxy, in the list but not in the table.\<close>

lemma new_proxy_inv:
  assumes "im_inv st" "digital_ok q"
  shows "im_inv (st\<lparr>proxies := proxies st @ [q]\<rparr>)" (is "im_inv ?st")
proof -
  have ok: "proxies_ok st" using assms(1) by (simp add: im_inv_def im_base_def)
  have "interface_fresh ?st i = interface_fresh st i" for i
    by (rule interface_fresh_cong [OF ok]) (simp_all add: nth_append)
  moreover have "proxies_ok ?st"
    using ok assms(2) by (auto simp: proxies_ok_def nth_append)
  moreover have "proxies_fresh ?st"
    using assms(1) ok proxy_fresh_cong [of ?st st]
    by (fastforce simp: im_inv_def proxies_fresh_def proxies_ok_def nth_append)
  ultimately show ?thesis
    using assms(1) by (simp add: im_inv_def im_base_def devices_ok_def interfaces_ok_def list_all_iff)
qed

lemma configureProxy_ok:
  assumes "im_inv st" "configureProxy e st = Inr x"
  shows "config_ok x"
proof -
  obtain t where t: "map_of proxy_constructors (ieID e) = Some t"
    using assms(2) by (auto simp: configureProxy_def split: option.splits)
  define q where "q = proxy_config e st (proxy_new t)"
  let ?st = "st\<lparr>proxies := proxies st @ [q]\<rparr>"
  have q: "mName q = ieFullName e" "digital_ok q" "proxy_fresh st q"
    by (simp_all add: q_def proxy_config_def proxy_new_def Let_def refresh_proxy_keeps refresh_proxy_fresh
        digital_ok_def DigitalData_default_def digital_OFF_def)
  have inv: "im_inv ?st" using assms(1) q(2) by (rule new_proxy_inv)
  have x: "x = (if map_of (mProxyTable st) (mName q) \<noteq> None then (False, ?st)
      else (True, ?st\<lparr>mProxyTable := omap_put (mName q) (length (proxies st)) (mProxyTable st)\<rparr>))"
    using assms(2) t by (simp add: configureProxy_def q_def addProxy_def Let_def rbind_Inr_iff split: if_splits)
  show ?thesis
  proof (cases "map_of (mProxyTable st) (mName q) = None")
    case True
    let ?st' = "?st\<lparr>mProxyTable := omap_put (mName q) (length (proxies st)) (mProxyTable st)\<rparr>"
    have "proxies_ok ?st'"
      using inv by (auto simp: im_inv_def im_base_def proxies_ok_def omap_put_wf dest!: omap_put_elem)
    moreover have "proxies_fresh ?st'"
      using inv q(3) proxy_fresh_cong [of ?st' st] proxy_fresh_cong [of ?st st]
      by (auto simp: im_inv_def proxies_fresh_def dest!: omap_put_elem)
    ultimately show ?thesis
      using True x inv by (simp add: config_ok_def im_inv_def im_base_def devices_ok_def interfaces_ok_def)
  qed (use x inv in \<open>simp add: config_ok_inv\<close>)
qed

lemma configureDevice_ok:
  assumes "im_inv st" "configureDevice env e st = Inr x"
  shows "config_ok x"
  using assms new_device_inv [OF assms(1)]
  by (auto simp: configureDevice_def addDevice_def rbind_Inr_iff intro!: config_ok_inv split: option.splits if_splits)

lemma input_configAdd_inv:
  assumes "im_inv st" "input_configAdd env e st = Inr (b, st')"
  shows "im_inv st'"
proof -
  have wf: "omap_wf (mProxyTable st)" using assms(1) by (simp add: im_inv_def im_base_def proxies_ok_def)
  have tables: "config_ok (True, addProxyAlias n p st)"
    "config_ok (True, st\<lparr>mDisplaySystemElement := el\<rparr>)" "config_ok (configureInputManager env e st)" for n p el
    using config_ok_tables [OF assms(1)] config_ok_inv [OF assms(1)] wf
    by (simp_all add: addProxyAlias_def configureInputManager_def split: option.split)
  note ok = configureProxy_ok [OF assms(1)] configureDevice_ok [OF assms(1)] config_ok_inv [OF assms(1)] tables
  obtain x where x: "(if clusterActive env \<and> ieInputDevice e then Inr (False, st)
        else if ieID e = ''input_window'' then
          (if activeElement env (ieKeyboard e) \<and> clusterActive env \<and> \<not> clusterMaster env
           then Inr (True, st) else configureDevice env e st)
        else if recognizeDevice st e then configureDevice env e st
        else if recognizeProxy e then configureProxy e st
        else if recognizeProxyAlias e then configureProxyAlias e st
        else if ieID e = ''display_system''
        then Inr (True, st\<lparr>mDisplaySystemElement := Some (ieFullName e)\<rparr>)
        else if ieID e = ''gadget_logger'' then Inr (loggerConfig env e, st)
        else if ieID e = ''input_manager''
        then Inr (configureInputManager env e st)
        else Inr (False, st)) = Inr x" "after_config (driver env) x = Inr (b, st')"
    using assms(2) unfolding input_configAdd_def rbind_Inr_iff by blast
  from x(1) have "config_ok x"
    by (simp add: configureProxyAlias_def split: if_split_asm)
      (use ok in \<open>auto simp del: not_None_eq\<close>)
  then show ?thesis using after_config_ok [of x "driver env"] x(2) by auto
qed

lemma input_configRemove_inv:
  assumes "im_inv st" "input_configRemove env e st = Inr (b, st')"
  shows "im_inv st'"
proof -
  have wf: "omap_wf (mProxyTable st)" using assms(1) by (simp add: im_inv_def im_base_def proxies_ok_def)
  have dev: "config_ok (removeDevice n st)" for n
    using removeDevice_inv [OF assms(1), of n] by (cases "removeDevice n st") (auto intro: config_ok_inv)
  have no_alias: "config_ok (removeProxyAlias dbg n st)" for dbg n
    using config_ok_inv [OF assms(1)] config_ok_tables [OF assms(1)] wf by (simp add: removeProxyAlias_def Let_def)
  have proxy: "config_ok (removeProxy n st)" for n
    using config_ok_inv [OF assms(1)] config_ok_tables [OF assms(1)] wf
    by (simp add: removeProxy_def omap_erase_wf subset_iff omap_erase_elem)
  have disp: "config_ok (True, st\<lparr>mDisplaySystemElement := None\<rparr>)"
    using config_ok_tables [OF assms(1)] wf by simp
  define x where "x = (if remoteDevice env e then (False, st)
        else if recognizeDevice st e then removeDevice (ieFullName e) st
        else if recognizeProxyAlias e then removeProxyAlias (debugOutput env) (ieName e) st
        else if recognizeProxy e then removeProxy (ieFullName e) st
        else if ieID e = ''display_system'' then (True, st\<lparr>mDisplaySystemElement := None\<rparr>)
        else (False, st))"
  then have "config_ok x" using dev no_alias proxy disp config_ok_inv [OF assms(1)] by simp
  moreover have "after_config (driver env) x = Inr (b, st')"
    using assms(2) unfolding input_configRemove_def rbind_Inr_iff x_def by blast
  ultimately show ?thesis using after_config_ok [of x "driver env"] by auto
qed
lemma interface_table:
  assumes "im_inv st" "list_all (interface_fresh st) is"
  shows "im_inv (st\<lparr>mAllocatedDevices := is\<rparr>)" (is "im_inv ?st")
proof -
  have ok: "proxies_ok st" using assms(1) by (simp add: im_inv_def im_base_def)
  have "interface_fresh ?st i = interface_fresh st i" for i
    by (rule interface_fresh_cong [OF ok]) simp_all
  moreover have "mNameSet i \<or> mProxyPtr i = None" if "i \<in> set is" for i
    using that assms(2) by (auto simp: interface_fresh_def list_all_iff)
  ultimately show ?thesis
    using assms proxy_fresh_cong [of ?st st]
    by (simp add: im_inv_def im_base_def devices_ok_def proxies_ok_def proxies_fresh_def interfaces_ok_def list_all_iff)
qed

lemma im_inv_interfaces: "im_inv st \<Longrightarrow> list_all (interface_fresh st) (mAllocatedDevices st)"
  by (simp add: im_inv_def)

lemma addDevInterface_inv: "im_inv st \<Longrightarrow> im_inv (addDevInterface t st)"
  unfolding addDevInterface_def
  by (rule interface_table) (simp_all add: im_inv_interfaces, simp add: interface_fresh_def)

lemma interface_init_inv:
  assumes "im_inv st"
  shows "im_inv (interface_init i name st)"
proof -
  have "interface_fresh st (refresh_interface st ((mAllocatedDevices st ! i)\<lparr>mProxyName := name, mNameSet := True\<rparr>))"
    by (rule refresh_interface_fresh) simp
  then show ?thesis
    using assms unfolding interface_init_def by (intro interface_table list_all_update im_inv_interfaces)
qed

lemma removeDevInterface_inv: "im_inv st \<Longrightarrow> im_inv (removeDevInterface i st)"
  unfolding removeDevInterface_def
  by (rule interface_table)
    (auto simp: im_inv_def list_all_iff dest: in_set_takeD in_set_dropD)

lemma input_frame_inv:
  assumes "im_inv st"
  obtains st' where "input_frame drv st = Inr st'" "only_data st st'" "im_inv st'"
  using assms input_frame_only only_data_inv [OF assms] by (metis im_inv_def)

lemma im_step_inv: "im_inv st \<Longrightarrow> im_step st st' \<Longrightarrow> im_inv st'"
proof (erule im_step.cases; hypsubst)
  fix d dd st
  assume inv: "im_inv st"
  then show "im_inv (upd_dev d (\<lambda>dev. dev\<lparr>dData := dd\<rparr>) st)"
    by (rule only_data_inv) (rule only_data_upd_dev, simp add: dev_core_def)
next
  fix drv st st'
  assume "im_inv st" "input_frame drv st = Inr st'"
  then show "im_inv st'" by (metis input_frame_inv sum.inject(2))
next
  fix st name inst types dd
  assume "im_inv st"
  then show "im_inv (addRemoteDevice (Some (length (devs st))) name
      (st\<lparr>devs := devs st @ [device_new inst types dd]\<rparr>))"
    using new_device_inv by (simp add: addRemoteDevice_def)
qed (blast intro: input_configAdd_inv input_configRemove_inv removeDevice_inv addDevInterface_inv
    interface_init_inv removeDevInterface_inv)+

definition im_init :: "input_manager \<Rightarrow> bool" where
  "im_init st \<longleftrightarrow> st = InputManager_new (mConstructors st)"

lemma im_new_inv: "im_inv (InputManager_new drivers)"
  by (simp add: InputManager_new_def im_inv_def im_base_def devices_ok_def proxies_ok_def
      interfaces_ok_def proxies_fresh_def)

lemma im_init_inv: "im_init st \<Longrightarrow> im_inv st"
  unfolding im_init_def by (metis im_new_inv)

interpretation im: transition_system im_init im_step im_inv
  by unfold_locales (fact im_init_inv, fact im_step_inv)
section \<open>What a frame does to a proxy\<close>

text \<open>The device's sample a digital proxy stands for, and the edge detector of two samples.\<close>

definition digital_sample :: "input_manager \<Rightarrow> proxy \<Rightarrow> bool" where
  "digital_sample st q =
     (case getProxiedInputDevice q of
        Some d \<Rightarrow> dValue (sample_at DigitalData_default (mUnitNum q) (dDigital (dData (devs st ! d)))) \<noteq> 0
      | None \<Rightarrow> False)"

definition edge :: "bool \<Rightarrow> bool \<Rightarrow> int" where
  "edge before now =
     (if now then (if before then digital_ON else digital_TOGGLE_ON)
      else (if before then digital_TOGGLE_OFF else digital_OFF))"

definition reads_on :: "int \<Rightarrow> bool" where
  "reads_on v \<longleftrightarrow> v = digital_ON \<or> v = digital_TOGGLE_ON"

lemma edge_on [simp]: "reads_on (edge before now) = now"
  by (simp add: edge_def reads_on_def digital_state_defs)

lemma digital_transition_edge:
  "old \<in> {digital_OFF, digital_ON, digital_TOGGLE_ON, digital_TOGGLE_OFF} \<Longrightarrow>
     dValue (digital_transition old d) = edge (reads_on old) (dValue d \<noteq> 0)"
  by (auto simp: digital_transition_def edge_def reads_on_def digital_state_defs Let_def)

text \<open>The devices after \<open>updateAllDevices\<close>: the registered ones need no update.\<close>

lemma dev_update_proxies [simp]: "proxies (dev_updateDataIfNeeded drv d st) = proxies st"
  by (simp add: dev_updateDataIfNeeded_def upd_dev_def Let_def)

lemma dev_update_length [simp]: "length (devs (dev_updateDataIfNeeded drv d st)) = length (devs st)"
  by (simp add: dev_updateDataIfNeeded_def upd_dev_def Let_def)

lemma dev_update_flag:
  "k < length (devs st) \<Longrightarrow>
     dNeedUpdate (devs (dev_updateDataIfNeeded drv d st) ! k) = (dNeedUpdate (devs st ! k) \<and> k \<noteq> d)"
  by (cases "k = d") (auto simp: dev_updateDataIfNeeded_def upd_dev_def Let_def)

lemma updateAllDevices_flags:
  "proxies (updateAllDevices drv st) = proxies st \<and> length (devs (updateAllDevices drv st)) = length (devs st)
   \<and> (\<forall>k < length (devs st). dNeedUpdate (devs (updateAllDevices drv st) ! k) =
        (dNeedUpdate (devs st ! k) \<and> Some k \<notin> snd ` set (mDevTable st)))"
proof -
  let ?f = "\<lambda>(_, d) st. case d of Some d \<Rightarrow> dev_updateDataIfNeeded drv d st | None \<Rightarrow> st"
  have "proxies (fold ?f t s) = proxies s \<and> length (devs (fold ?f t s)) = length (devs s)
      \<and> (\<forall>k < length (devs s). dNeedUpdate (devs (fold ?f t s) ! k) =
           (dNeedUpdate (devs s ! k) \<and> Some k \<notin> snd ` set t))" for t :: "(string \<times> nat option) list" and s
  proof (induction t arbitrary: s)
    case (Cons e t)
    show ?case
    proof (cases e)
      case (Pair n x)
      show ?thesis
        using Cons.IH by (cases x) (auto simp: Pair dev_update_flag)
    qed
  qed simp
  then show ?thesis by (simp add: updateAllDevices_def)
qed

text \<open>What updating does to a proxy whose device is up to date.\<close>

definition updated :: "input_manager \<Rightarrow> proxy \<Rightarrow> proxy" where
  "updated st q =
     (if \<not> mNeedUpdate q then q
      else let q = q\<lparr>mNeedUpdate := False\<rparr>
           in case getProxiedInputDevice q of
                Some d \<Rightarrow> if pType q = TKeyboardMouse \<or> pType q = TGlove then q
                          else copy_data (dData (devs st ! d)) q
              | None \<Rightarrow> q)"

lemma upd_proxy_twice: "upd_proxy p g (upd_proxy p f st) = upd_proxy p (\<lambda>q. g (f q)) st" if "p < length (proxies st)"
  using that by (simp add: upd_proxy_def)

lemma proxy_update_exact:
  assumes "p < length (proxies st)" "proxy_points (proxies st ! p)"
    and "\<And>d. getProxiedInputDevice (proxies st ! p) = Some d \<Longrightarrow> \<not> dNeedUpdate (devs st ! d)"
  shows "proxy_updateDataIfNeeded drv p st = Inr (upd_proxy p (updated st) st)"
proof (cases "mNeedUpdate (proxies st ! p)")
  case False
  then show ?thesis by (simp add: proxy_updateDataIfNeeded_def upd_proxy_def updated_def)
next
  case True
  let ?q = "(proxies st ! p)\<lparr>mNeedUpdate := False\<rparr>"
  let ?st = "upd_proxy p (\<lambda>p. p\<lparr>mNeedUpdate := False\<rparr>) st"
  have q: "proxies ?st ! p = ?q" using assms(1) by (simp add: upd_proxy_def)
  show ?thesis
  proof (cases "getProxiedInputDevice ?q")
    case None
    then have "mStupefied ?q" using assms(2) by (auto simp: getProxiedInputDevice_def proxy_points_def split: if_splits)
    then show ?thesis
      using True None q by (simp add: proxy_updateDataIfNeeded_def proxy_updateData_def upd_proxy_def updated_def)
  next
    case (Some d)
    then have d: "getProxiedInputDevice (proxies st ! p) = Some d" "mTypedDevice ?q = Some d" "\<not> mStupefied ?q"
      by (auto simp: getProxiedInputDevice_def split: if_splits)
    have "dev_updateDataIfNeeded drv d ?st = ?st"
      using assms(3) [OF d(1)] by (simp add: dev_updateDataIfNeeded_def)
    then have "proxy_updateData drv p ?st = (if pType ?q = TKeyboardMouse \<or> pType ?q = TGlove then Inr ?st
        else Inr (upd_proxy p (copy_data (dData (devs st ! d))) ?st))"
      using Some d(2,3) q by (simp add: proxy_updateData_def Let_def)
    then show ?thesis
      using True Some assms(1) by (simp add: proxy_updateDataIfNeeded_def upd_proxy_twice upd_proxy_def updated_def)
  qed
qed
lemma updated_cong: "devs st' = devs st \<Longrightarrow> updated st' = updated st"
  by (rule ext) (simp add: updated_def Let_def split: option.split)

lemma updateAllProxies_exact:
  assumes "proxies_ok st" "proxies_fresh st"
    and "\<And>d. Some d \<in> snd ` set (mDevTable st) \<Longrightarrow> \<not> dNeedUpdate (devs st ! d)"
  shows "updateAllProxies drv st = Inr (fold (\<lambda>(_, p). upd_proxy p (updated st)) (mProxyTable st) st)"
proof -
  let ?ok = "\<lambda>s p. p < length (proxies s) \<and> proxy_points (proxies s ! p) \<and>
      (\<forall>d. getProxiedInputDevice (proxies s ! p) = Some d \<longrightarrow> \<not> dNeedUpdate (devs s ! d))"
  have loop: "rfold (\<lambda>(_, p). proxy_updateDataIfNeeded drv p) t s
      = Inr (fold (\<lambda>(_, p). upd_proxy p (updated st)) t s)"
    if "distinct (map snd t)" "devs s = devs st" "\<forall>(n, p) \<in> set t. ?ok s p" for t :: "(string \<times> nat) list" and s
    using that
  proof (induction t arbitrary: s)
    case (Cons e t)
    obtain n p where e: "e = (n, p)" by (cases e)
    let ?s = "upd_proxy p (updated st) s"
    have step: "proxy_updateDataIfNeeded drv p s = Inr ?s"
      using proxy_update_exact [of p s drv] Cons.prems(2,3) e updated_cong [of s st] by simp
    have "\<forall>(m, k) \<in> set t. ?ok ?s k"
    proof clarify
      fix m k assume mk: "(m, k) \<in> set t"
      then have "k \<noteq> p" using Cons.prems(1) e by force
      then show "?ok ?s k" using Cons.prems(3) mk by (fastforce simp: upd_proxy_def)
    qed
    then show ?case using Cons.IH [of ?s] Cons.prems(1,2) step e by simp
  qed simp
  have "?ok st p" if np: "(n, p) \<in> set (mProxyTable st)" for n p
  proof -
    have fresh: "proxy_fresh st (proxies st ! p)" "p < length (proxies st)"
      using assms(1,2) np by (auto simp: proxies_ok_def proxies_fresh_def)
    have "\<not> dNeedUpdate (devs st ! d)" if "getProxiedInputDevice (proxies st ! p) = Some d" for d
    proof -
      have "Some d \<in> snd ` set (mDevTable st)"
        using that fresh_device [OF fresh(1)] proxy_target_registered by simp
      then show ?thesis by (rule assms(3))
    qed
    then show ?thesis using fresh fresh_points by blast
  qed
  then have "\<forall>(n, p) \<in> set (mProxyTable st). ?ok st p" by auto
  from loop [OF proxies_distinct [OF assms(1)] refl this] show ?thesis by (simp add: updateAllProxies_def)
qed

lemma resetAll_proxies:
  assumes "proxies_ok st"
  shows "length (proxies (resetAllDevicesAndProxies st)) = length (proxies st) \<and>
    (\<forall>i < length (proxies st). i \<in> snd ` set (mProxyTable st) \<longrightarrow>
       proxies (resetAllDevicesAndProxies st) ! i = (proxies st ! i)\<lparr>mNeedUpdate := True\<rparr>)"
proof -
  obtain ps where ps: "fold (\<lambda>(_, p). upd_proxy p (\<lambda>p. p\<lparr>mNeedUpdate := True\<rparr>)) (mProxyTable st) st
      = st\<lparr>proxies := ps\<rparr>" "length ps = length (proxies st)"
    "\<forall>i < length ps. ps ! i = (if i \<in> snd ` set (mProxyTable st) then (proxies st ! i)\<lparr>mNeedUpdate := True\<rparr>
       else proxies st ! i)"
    using fold_upd_proxy [OF proxies_distinct [OF assms], of "\<lambda>p. p\<lparr>mNeedUpdate := True\<rparr>" st] by auto
  have "proxies (fold (\<lambda>(_, d) st. case d of Some d \<Rightarrow> upd_dev d (\<lambda>dev. dev\<lparr>dNeedUpdate := True\<rparr>) st
      | None \<Rightarrow> st) t s) = proxies s" for t :: "(string \<times> nat option) list" and s
    by (induction t arbitrary: s) (auto simp: upd_dev_def split: option.split)
  then have "proxies (resetAllDevicesAndProxies st) = ps"
    using ps(1) by (simp add: resetAllDevicesAndProxies_def Let_def)
  then show ?thesis using ps(2,3) by simp
qed

text \<open>A frame reads each registered proxy's data from its device, once.\<close>

lemma input_frame_exact:
  assumes "im_inv st" "map_of (mProxyTable st) n = Some p" "input_frame drv st = Inr st'"
  shows "proxies st' ! p = updated st' ((proxies st ! p)\<lparr>mNeedUpdate := True\<rparr>)"
proof -
  let ?r = "resetAllDevicesAndProxies st"
  let ?s = "updateAllDevices drv ?r"
  have inv: "im_base st" "proxies_ok st" "proxies_fresh st" using assms(1) by (simp_all add: im_inv_def im_base_def)
  have only: "only_data st ?s" using only_data_reset only_data_updateAllDevices by (rule only_data_trans)
  have base: "im_base ?s" using inv(1) only by (rule only_data_base)
  have fresh: "proxies_fresh ?s" using inv(1,3) only by (rule only_data_fresh)
  have ok: "proxies_ok ?s" using base by (simp add: im_base_def)
  have tab: "mProxyTable ?s = mProxyTable st" "mDevTable ?s = mDevTable st"
    using only by (simp_all add: only_data_def)
  have len: "length (devs ?r) = length (devs st)" "mDevTable ?r = mDevTable st"
    using only_data_reset [of st] only_data_nth(4) by (auto simp: only_data_def)
  have "\<not> dNeedUpdate (devs ?s ! d)" if "Some d \<in> snd ` set (mDevTable ?s)" for d
  proof -
    have "d < length (devs st)" using that inv(1) tab by (fastforce simp: im_base_def devices_ok_def)
    then show ?thesis using that updateAllDevices_flags [of drv ?r] len tab by simp
  qed
  then have "st' = fold (\<lambda>(_, p). upd_proxy p (updated ?s)) (mProxyTable ?s) ?s"
    using assms(3) updateAllProxies_exact [OF ok fresh] by (simp add: input_frame_def)
  then obtain ps where ps: "st' = ?s\<lparr>proxies := ps\<rparr>" "length ps = length (proxies ?s)"
    "\<forall>i < length ps. ps ! i = (if i \<in> snd ` set (mProxyTable ?s) then updated ?s (proxies ?s ! i) else proxies ?s ! i)"
    using fold_upd_proxy [OF proxies_distinct [OF ok], of "updated ?s" ?s] by metis
  have mem: "(n, p) \<in> set (mProxyTable st)" using assms(2) by (rule map_of_SomeD)
  then have p: "p < length (proxies st)" "p \<in> snd ` set (mProxyTable st)"
    using inv(2) by (auto simp: proxies_ok_def) force
  have "proxies ?s ! p = (proxies st ! p)\<lparr>mNeedUpdate := True\<rparr>"
    using resetAll_proxies [OF inv(2)] p updateAllDevices_flags [of drv ?r] by simp
  moreover have "p < length ps" using p(1) ps(2) only_data_nth(3) [OF only] by simp
  moreover have "updated st' = updated ?s" using ps(1) by (intro updated_cong) simp
  ultimately show ?thesis using ps p(2) tab by simp
qed
text \<open>The states after each frame of a series, and the edges of a series of samples.\<close>

fun frame_states :: "driver list \<Rightarrow> input_manager \<Rightarrow> input_manager list" where
  "frame_states [] st = []"
| "frame_states (drv # drvs) st =
     (case input_frame drv st of Inr st' \<Rightarrow> st' # frame_states drvs st' | Inl _ \<Rightarrow> [])"

fun edges :: "bool \<Rightarrow> bool list \<Rightarrow> int list" where
  "edges before [] = []"
| "edges before (now # samples) = edge before now # edges now samples"

lemma input_frame_digital:
  assumes "im_inv st" "map_of (mProxyTable st) n = Some p" "pType (proxies st ! p) = TDigital"
    and frame: "input_frame drv st = Inr st'"
  shows "digital_getData (proxies st' ! p)
    = edge (reads_on (digital_getData (proxies st ! p))) (digital_sample st' (proxies st' ! p))"
proof -
  let ?q = "proxies st ! p"
  have ok: "proxies_ok st" "proxies_fresh st" using assms(1) by (simp_all add: im_inv_def im_base_def)
  have mem: "(n, p) \<in> set (mProxyTable st)" using assms(2) by (rule map_of_SomeD)
  have q: "digital_ok ?q" "proxy_points ?q"
    using ok mem fresh_points by (fastforce simp: proxies_ok_def proxies_fresh_def list_all_length)+
  have exact: "proxies st' ! p = updated st' (?q\<lparr>mNeedUpdate := True\<rparr>)"
    by (rule input_frame_exact [OF assms(1,2) frame])
  show ?thesis
  proof (cases "mStupefied ?q")
    case True
    then show ?thesis
      by (simp add: exact updated_def getProxiedInputDevice_def digital_getData_def digital_sample_def
          edge_def reads_on_def digital_state_defs)
  next
    case False
    then obtain d where d: "mTypedDevice ?q = Some d" using q(2) by (auto simp: proxy_points_def)
    then show ?thesis
      using False assms(3) q(1) digital_transition_edge [of "dValue (mDigitalData ?q)"]
      by (simp add: exact updated_def getProxiedInputDevice_def digital_getData_def digital_sample_def
          copy_data_def digital_ok_def)
  qed
qed

text \<open>
  C24. A digital proxy is an edge detector: over any series of frames, from any reachable state and
  whatever the drivers read, the states the application sees are the edges of the series of its
  device's samples, beginning with the state it was in.  A proxy without a device reads off.
\<close>

theorem digital_proxy_detects_edges:
  assumes "reach im_init im_step st" "map_of (mProxyTable st) n = Some p" "pType (proxies st ! p) = TDigital"
  shows "length (frame_states drvs st) = length drvs \<and>
    map (\<lambda>s. digital_getData (proxies s ! p)) (frame_states drvs st)
    = edges (reads_on (digital_getData (proxies st ! p)))
        (map (\<lambda>s. digital_sample s (proxies s ! p)) (frame_states drvs st))"
proof -
  have "im_inv st" using assms(1) by (rule im.reach_inv)
  then show ?thesis
    using assms(2,3)
  proof (induction drvs arbitrary: st)
    case (Cons drv drvs)
    obtain st' where st': "input_frame drv st = Inr st'" "only_data st st'" "im_inv st'"
      using Cons.prems(1) by (rule input_frame_inv)
    have "p < length (proxies st)"
      using Cons.prems(1,2) by (auto simp: im_inv_def im_base_def proxies_ok_def dest: map_of_SomeD)
    then have "proxy_core (proxies st' ! p) = proxy_core (proxies st ! p)" by (rule only_data_nth(1) [OF st'(2)])
    then have "pType (proxies st' ! p) = TDigital" using Cons.prems(3) by (simp add: proxy_core_def)
    moreover have "map_of (mProxyTable st') n = Some p" using Cons.prems(2) st'(2) by (simp add: only_data_def)
    ultimately show ?case
      using Cons.IH [OF st'(3)] input_frame_digital [OF Cons.prems st'(1)] st'(1) by simp
  qed simp
qed

text \<open>
  C18. In every reachable state, and after any further frame, each registered proxy has exactly the
  device that is registered under its device name and has its interface, which is sampling, or
  none; the update of a frame never fails; and each interface of the application points to the
  proxy its name resolves to.
\<close>

theorem proxies_follow_devices:
  assumes "reach im_init im_step st" "map_of (mProxyTable st) n = Some p"
  shows "getProxiedInputDevice (proxies st ! p) = proxy_target st (proxies st ! p)
    \<and> pred_option (\<lambda>d. d < length (devs st) \<and> \<not> dStopped (devs st ! d)) (proxy_target st (proxies st ! p))
    \<and> (\<exists>st'. input_frame drv st = Inr st'
          \<and> getProxiedInputDevice (proxies st' ! p) = proxy_target st (proxies st ! p))
    \<and> list_all (interface_fresh st) (mAllocatedDevices st)"
proof -
  have inv: "im_inv st" using assms(1) by (rule im.reach_inv)
  have mem: "(n, p) \<in> set (mProxyTable st)" using assms(2) by (rule map_of_SomeD)
  then have q: "proxy_fresh st (proxies st ! p)" "p < length (proxies st)"
    using inv by (auto simp: im_inv_def im_base_def proxies_ok_def proxies_fresh_def)
  note dev = fresh_device [OF q(1)]
  obtain st' where st': "input_frame drv st = Inr st'" "only_data st st'" using inv by (rule input_frame_inv)
  have "getProxiedInputDevice (proxies st' ! p) = getProxiedInputDevice (proxies st ! p)"
    using only_data_nth(1) [OF st'(2) q(2)] by (simp add: proxy_core_def getProxiedInputDevice_def)
  moreover have "d < length (devs st) \<and> \<not> dStopped (devs st ! d)" if "proxy_target st (proxies st ! p) = Some d" for d
    using proxy_target_registered [OF that] inv by (fastforce simp: im_inv_def im_base_def devices_ok_def)
  ultimately show ?thesis
    using dev st'(1) inv by (auto simp: im_inv_interfaces pred_option_def elim!: option.set_cases)
qed
section \<open>A configured manager\<close>

definition pad_data :: "int \<Rightarrow> device_data" where
  "pad_data v = \<lparr>dDigital = sample_buffer_new\<lparr>mStableBuffer := [[\<lparr>dValue = v, mTimeStamp = Interval 1\<rparr>]]\<rparr>,
     dAnalog = sample_buffer_new, dCommand = sample_buffer_new, dString = sample_buffer_new,
     dPosition = sample_buffer_new, dGlove = sample_buffer_new, dKeyboard = KeyboardMouse_new\<rparr>"

definition pad_env :: input_env where
  "pad_env = \<lparr>clusterActive = False, clusterMaster = False, remoteDevice = (\<lambda>_. False),
     activeElement = (\<lambda>_. True), createDevice = (\<lambda>_. Some ([TDigital], pad_data 0)),
     startSampling = (\<lambda>_. True), loadDrivers = (\<lambda>_. Some []), loggerConfig = (\<lambda>_. True),
     driver = (\<lambda>_ _. pad_data 1), debugOutput = False\<rparr>"

definition pad_device :: input_element where
  "pad_device = \<lparr>ieID = ''pad'', ieName = ''P'', ieFullName = ''P'', ieDevice = [], ieUnit = 0, ieProxy = [],
     ieKeyboard = [], ieInputDevice = True\<rparr>"

definition pad_proxy :: input_element where
  "pad_proxy = \<lparr>ieID = ''digital_proxy'', ieName = ''b'', ieFullName = ''b'', ieDevice = ''P'', ieUnit = 0,
     ieProxy = [], ieKeyboard = [], ieInputDevice = False\<rparr>"

definition pad_configured :: "input_manager result" where
  "pad_configured =
     rbind (input_configAdd pad_env pad_proxy (InputManager_new [''pad''])) (\<lambda>(_, st).
     rbind (input_configAdd pad_env pad_device st) (\<lambda>(_, st). Inr st))"

lemma pad_configured_reach:
  assumes "pad_configured = Inr st"
  shows "reach im_init im_step st"
proof -
  obtain b st1 b' where "input_configAdd pad_env pad_proxy (InputManager_new [''pad'']) = Inr (b, st1)"
    "input_configAdd pad_env pad_device st1 = Inr (b', st)"
    using assms by (auto simp: pad_configured_def rbind_Inr_iff)
  moreover have "im_init (InputManager_new [''pad''])" by (simp add: im_init_def InputManager_new_def)
  ultimately show ?thesis by (metis reach_init reach_step im_adds)
qed

lemma pad_configured_value:
  "case pad_configured of
     Inr st \<Rightarrow> map_of (mProxyTable st) ''b'' = Some 0 \<and> pType (proxies st ! 0) = TDigital
       \<and> proxy_target st (proxies st ! 0) = Some 0
   | Inl _ \<Rightarrow> False"
  by code_simp

lemma pad_configured_state:
  obtains st where "pad_configured = Inr st" "map_of (mProxyTable st) ''b'' = Some 0"
    "pType (proxies st ! 0) = TDigital" "proxy_target st (proxies st ! 0) = Some 0"
proof (cases pad_configured)
  case (Inl a)
  show ?thesis using pad_configured_value unfolding Inl by simp
next
  case (Inr st)
  show ?thesis using pad_configured_value that [OF Inr] unfolding Inr by simp
qed

theorem proxies_follow_devices_witness:
  "\<exists>st. pad_configured = Inr st \<and> getProxiedInputDevice (proxies st ! 0) = Some 0
     \<and> \<not> dStopped (devs st ! 0) \<and> (\<exists>st'. input_frame (driver pad_env) st = Inr st')"
proof -
  obtain st where st: "pad_configured = Inr st" "map_of (mProxyTable st) ''b'' = Some 0"
    "proxy_target st (proxies st ! 0) = Some 0"
    by (rule pad_configured_state)
  show ?thesis
    using proxies_follow_devices [OF pad_configured_reach [OF st(1)] st(2), of "driver pad_env"] st(1,3) by auto
qed

theorem digital_proxy_detects_edges_witness:
  "\<exists>st. pad_configured = Inr st \<and>
     map (\<lambda>s. digital_getData (proxies s ! 0)) (frame_states [\<lambda>_ _. pad_data 1, \<lambda>_ _. pad_data 0, \<lambda>_ _. pad_data 0] st)
     = [digital_ON, digital_TOGGLE_OFF, digital_OFF]"
proof -
  let ?drvs = "[\<lambda>_ _. pad_data 1, \<lambda>_ _. pad_data 0, \<lambda>_ _. pad_data 0]"
  obtain st where st: "pad_configured = Inr st" "map_of (mProxyTable st) ''b'' = Some 0"
    "pType (proxies st ! 0) = TDigital"
    by (rule pad_configured_state)
  have samples: "case pad_configured of Inr st \<Rightarrow> digital_getData (proxies st ! 0) = digital_TOGGLE_ON
      \<and> map (\<lambda>s. digital_sample s (proxies s ! 0)) (frame_states ?drvs st) = [True, False, False]
    | Inl _ \<Rightarrow> False" by code_simp
  show ?thesis
    using digital_proxy_detects_edges [OF pad_configured_reach [OF st(1)] st(2,3), of ?drvs] samples st(1)
    unfolding st(1) sum.case reads_on_def by (simp del: frame_states.simps add: edge_def)
qed

end
