(* ===== verification/ClusterBlock.thy ===== *)
theory ClusterBlock
  imports ClusterNet
begin

text \<open>
  What a plug-in needs of the network: a packet it sends to all nodes reaches each of them, and
  the packets of a peer's block are handled one after the other.  The locale \<open>block_handler\<close>
  is the contract of a plug-in's \<^verbatim>\<open>handlePacket\<close>: on the messages it knows it does not throw,
  and it changes the application's state by a function of the message; then so does the whole
  block.
\<close>

section \<open>Sending to all nodes\<close>

definition sent_to_all :: "u8 list \<Rightarrow> 'a netmgr \<Rightarrow> 'a netmgr" where
  "sent_to_all bs st = st\<lparr>nHeap := \<lambda>k. if k \<in> set (mNodes st) then append_out bs (nHeap st k) else nHeap st k\<rparr>"

definition nodes_work :: "'a netmgr \<Rightarrow> bool" where
  "nodes_work st \<longleftrightarrow> distinct (mNodes st) \<and> (\<forall>k \<in> set (mNodes st). works (nHeap st k))"

lemma append_out_append_out [simp]: "append_out bs (append_out as n) = append_out (as @ bs) n"
  by (cases "mSockStream n") (simp_all add: append_out_def)

lemma append_out_Nil [simp]: "append_out [] n = n"
  by (cases "mSockStream n") (simp_all add: append_out_def)

lemma works_append_out [simp]: "works (append_out bs n) = works n"
  by (auto simp: works_def append_out_def)

lemma sent_to_all_twice: "sent_to_all bs (sent_to_all as st) = sent_to_all (as @ bs) st"
  by (auto simp: sent_to_all_def fun_eq_iff)

lemma sent_to_all_app [simp]:
  "sent_to_all bs (st\<lparr>nApp := a\<rparr>) = (sent_to_all bs st)\<lparr>nApp := a\<rparr>" "nApp (sent_to_all bs st) = nApp st"
  by (cases st, simp add: sent_to_all_def cong: if_cong) (simp add: sent_to_all_def)

lemma sent_to_all_Nil [simp]: "sent_to_all [] st = st"
  by (simp add: sent_to_all_def cong: if_cong)

lemma nodes_work_app [simp]: "nodes_work (st\<lparr>nApp := a\<rparr>) = nodes_work st"
  by (simp add: nodes_work_def)

lemma nodes_work_sent [simp]: "nodes_work (sent_to_all bs st) = nodes_work st"
proof -
  have "mNodes (sent_to_all bs st) = mNodes st"
    "works (nHeap (sent_to_all bs st) k) = works (nHeap st k)" for k
    by (simp_all add: sent_to_all_def)
  then show ?thesis by (simp add: nodes_work_def)
qed

lemma send_to_all_wire:
  assumes "mData p = wire host m" and "mHeader p = Some (message_header host m)" and "message_ok host m"
  shows "distinct ks \<Longrightarrow> \<forall>k \<in> set ks. works (nHeap st k) \<Longrightarrow>
    send_to_all p ks st = (Inr (),
      st\<lparr>nHeap := \<lambda>k. if k \<in> set ks then append_out (wire host m) (nHeap st k) else nHeap st k\<rparr>)"
proof (induction ks arbitrary: st)
  case (Cons k ks)
  obtain s where s: "mSockStream (nHeap st k) = Some s" "\<not> sBroken s"
    using Cons.prems(2) by (auto simp: works_def)
  have "unat (mPacketLength (message_header host m)) = length (wire host m)"
    unfolding message_header_def header_new_def length_wire header.simps
    by (rule unat_of_nat_u32 [OF message_ok_length [OF assms(3)]])
  then have "node_send p (nHeap st k) = Inr (append_out (wire host m) (nHeap st k))"
    using s assms(1,2) by (simp add: node_send_def stream_write_def require_def append_out_def)
  moreover have "\<forall>j \<in> set ks. works (nHeap (upd_heap k (\<lambda>_. append_out (wire host m) (nHeap st k)) st) j)"
    using Cons.prems by (auto simp: upd_heap_def)
  ultimately show ?case
    using Cons.IH [of "upd_heap k (\<lambda>_. append_out (wire host m) (nHeap st k)) st"] Cons.prems(1)
    by (auto simp: upd_heap_def fun_eq_iff intro!: arg_cong [where f = "\<lambda>h. st\<lparr>nHeap := h\<rparr>"])
qed simp

lemma sendToAll_wire:
  "mData p = wire host m \<Longrightarrow> mHeader p = Some (message_header host m) \<Longrightarrow> message_ok host m \<Longrightarrow> nodes_work st \<Longrightarrow>
     sendToAll p st = (Inr (), sent_to_all (wire host m) st)"
  using send_to_all_wire [of p host m "mNodes st" st]
  by (simp add: sendToAll_def sent_to_all_def nodes_work_def)

lemma raw_items [simp]: "concat (map item_bytes (map SUint8 bs)) = bs" "concat (map (item_bytes \<circ> SUint8) bs) = bs"
  by (induction bs) simp_all

definition sent_bytes :: "'a netmgr \<Rightarrow> nat \<Rightarrow> u8 list" where
  "sent_bytes st k = (case mSockStream (nHeap st k) of Some s \<Rightarrow> sOutgoing s | None \<Rightarrow> [])"

lemma sent_bytes_all:
  "nodes_work st \<Longrightarrow> k \<in> set (mNodes st) \<Longrightarrow> sent_bytes (sent_to_all bs st) k = sent_bytes st k @ bs"
  by (auto simp: sent_bytes_def sent_to_all_def append_out_def nodes_work_def works_def)

text \<open>A data packet is serialized anew each frame; it is the message of the bytes its object writes.\<close>

definition data_packet_ok :: "guid \<Rightarrow> packet \<Rightarrow> bool" where
  "data_packet_ok g p \<longleftrightarrow> guid_ok g \<and> mPluginId p = g
     \<and> (\<exists>len. mHeader p = Some (header_new RIM_PACKET RIM_DATA_PACKET len 0))"

lemma data_packet_new: "guid_ok g \<Longrightarrow> data_packet_ok g (data_new g ident)"
  by (simp add: data_packet_ok_def data_new_def packet_new_def header_new_def)

lemma data_serialize_wire:
  assumes "data_packet_ok g p" and "guid_ok ident" and "\<And>w. write w = Inr (emit bs w)"
  shows "\<exists>p'. data_serialize le ident write p = Inr p' \<and> data_packet_ok g p'
    \<and> mData p' = wire host (DataMsg g ident (map SUint8 bs))
    \<and> mHeader p' = Some (message_header host (DataMsg g ident (map SUint8 bs)))"
proof -
  obtain len where p: "guid_ok g" "mPluginId p = g" "mHeader p = Some (header_new RIM_PACKET RIM_DATA_PACKET len 0)"
    using assms(1) by (auto simp: data_packet_ok_def)
  let ?bs = "guid_bytes g @ guid_bytes ident @ bs"
  have "write (guid_writeObject le ident (guid_writeObject le (mPluginId p) (writer_on [] 0))) = Inr (emit ?bs (writer_on [] 0))"
    using p assms(2,3) by (simp add: guid_write_emits emit_emit)
  then have "serialize_with le (\<lambda>w. write (guid_writeObject le ident (guid_writeObject le (mPluginId p) w))) p =
    (let h' = (header_new RIM_PACKET RIM_DATA_PACKET len 0)\<lparr>mPacketLength := of_nat (length ?bs + 12)\<rparr> in
     Inr (p\<lparr>mHeader := Some h', mData := header_bytes h' @ ?bs, mWriterPos := mPacketLength h'\<rparr>))"
    using p(3) by (rule serialize_with_emits)
  then have "data_serialize le ident write p = Inr (p
      \<lparr>mHeader := Some (header_new RIM_PACKET RIM_DATA_PACKET (of_nat (length ?bs + 12)) 0),
       mData := header_bytes (header_new RIM_PACKET RIM_DATA_PACKET (of_nat (length ?bs + 12)) 0) @ ?bs,
       mWriterPos := of_nat (length ?bs + 12)\<rparr>)"
    unfolding data_serialize_def Let_def by (simp add: header_new_def)
  moreover have "message_header host (DataMsg g ident (map SUint8 bs))
      = header_new RIM_PACKET RIM_DATA_PACKET (of_nat (length ?bs + 12)) 0"
    "payload host (DataMsg g ident (map SUint8 bs)) = ?bs"
    using p(1) assms(2) by (simp_all add: message_header_def)
  ultimately show ?thesis using p by (intro exI) (auto simp: data_packet_ok_def wire_def)
qed

section \<open>A plug-in's packets\<close>

fun message_plugin :: "message \<Rightarrow> guid option" where
  "message_plugin (DataMsg pluginId objectId items) = Some pluginId"
| "message_plugin (AckMsg pluginId ident name base ack) = Some pluginId"
| "message_plugin (ConfigMsg config type) = (case config_guid of Inl e \<Rightarrow> None | Inr g \<Rightarrow> Some g)"
| "message_plugin (EndMsg frameNum) = None"

lemma message_plugin_type: "message_plugin m = Some g \<Longrightarrow> message_type m \<noteq> RIM_END_BLOCK"
  by (cases m) (auto simp: rim_defs)

lemma message_plugin_received: "message_plugin m = Some g \<Longrightarrow> received host m p \<Longrightarrow> mPluginId p = g"
  by (cases m) (auto split: sum.splits, metis sum.inject(2))

locale block_handler =
  fixes handler :: "'a packet_handler" and k :: nat and host :: string and g :: guid
    and msg :: "'m \<Rightarrow> message" and ok :: "'m \<Rightarrow> bool" and step :: "'m \<Rightarrow> 'a \<Rightarrow> 'a" and inv :: "'a \<Rightarrow> bool"
  assumes plugin: "message_plugin (msg m) = Some g"
    and handles: "inv a \<Longrightarrow> ok m \<Longrightarrow> received host (msg m) p
      \<Longrightarrow> mHeader p = Some (message_header host (msg m)) \<Longrightarrow> handler p k a = (Inr (), step m a)"
    and keeps: "inv a \<Longrightarrow> ok m \<Longrightarrow> inv (step m a)"
begin

lemma fold_keeps: "inv a \<Longrightarrow> list_all ok ms \<Longrightarrow> inv (fold step ms a)"
  by (induction ms arbitrary: a) (simp_all add: keeps)

lemma handles_block:
  "list_all ok ms \<Longrightarrow> hs g = Some handler \<Longrightarrow> handled inv hs k host (map msg ms)"
  using handles keeps message_plugin_received [OF plugin]
  unfolding handled_def by (fastforce simp: list_all_iff)

lemma update_node_block:
  assumes "list_all ok ms" and "\<forall>m \<in> set ms. message_ok host (msg m)" and "inv (nApp st)"
    and "mHandlerMap st g = Some handler" and "isConnected (nHeap st k)" and "\<not> mUpdated (nHeap st k)"
    and "mSockStream (nHeap st k) = Some s"
    and "sIncoming s = concat (map (\<lambda>m. wire host (msg m)) ms) @ wire host (EndMsg f) @ rest"
  shows "update_node le k st = (Inr (), finish_node k rest (fold step ms (nApp st)) st)"
  using assms
proof (induction ms arbitrary: st s)
  case Nil
  have "message_ok host (EndMsg f)" by simp
  from recvPacket_wire [OF this Nil.prems(7), of rest le]
  obtain p where p: "recvPacket le packet_factory (nHeap st k) = (Inr p, (nHeap st k)\<lparr>mSockStream := Some (s\<lparr>sIncoming := rest\<rparr>)\<rparr>)"
    "mHeader p = Some (message_header host (EndMsg f))" using Nil.prems(8) by auto
  then show ?case
    using Nil.prems(5-7) by (simp add: update_node.simps handlePacket_end finish_node_def upd_heap_def)
next
  case (Cons m ms)
  let ?tail = "concat (map (\<lambda>m. wire host (msg m)) ms) @ wire host (EndMsg f) @ rest"
  let ?s = "s\<lparr>sIncoming := ?tail\<rparr>"
  let ?st = "upd_heap k (\<lambda>n. n\<lparr>mSockStream := Some ?s\<rparr>) st"
  have m: "ok m" "message_ok host (msg m)" using Cons.prems(1,2) by auto
  obtain p where p: "recvPacket le packet_factory (nHeap st k) = (Inr p, (nHeap st k)\<lparr>mSockStream := Some ?s\<rparr>)"
    "received host (msg m) p" "mHeader p = Some (message_header host (msg m))"
    using recvPacket_wire [OF m(2) Cons.prems(7), of ?tail le] Cons.prems(8) by auto
  have st: "upd_heap k (\<lambda>_. (nHeap st k)\<lparr>mSockStream := Some ?s\<rparr>) st = ?st" by (simp add: upd_heap_def)
  have "mPluginId p = g" using message_plugin_received [OF plugin p(2)] .
  then have app: "handlePacket p k ?st = (Inr (), ?st\<lparr>nApp := step m (nApp st)\<rparr>)"
    using handles [OF Cons.prems(3) m(1) p(2,3)] p(3) message_plugin_type [OF plugin, of m] Cons.prems(4)
    by (simp add: handlePacket_def message_header_type getHandlerByGUID_def upd_heap_def)
  have "update_node le k st = update_node le k (?st\<lparr>nApp := step m (nApp st)\<rparr>)"
    using Cons.prems(5,6) p(1) app by (subst update_node.simps) (simp add: st)
  moreover have "update_node le k (?st\<lparr>nApp := step m (nApp st)\<rparr>)
      = (Inr (), finish_node k rest (fold step ms (nApp (?st\<lparr>nApp := step m (nApp st)\<rparr>))) (?st\<lparr>nApp := step m (nApp st)\<rparr>))"
    by (rule Cons.IH [of _ ?s])
       (use Cons.prems keeps in \<open>auto simp: upd_heap_def isConnected_def\<close>)
  moreover have "finish_node k rest app (?st\<lparr>nApp := a\<rparr>) = finish_node k rest app st" for app a
    using Cons.prems(7) by (simp add: finish_node_def upd_heap_def)
  ultimately show ?case by simp
qed

end
section \<open>One packet from one peer\<close>

text \<open>A node whose peer sends one packet and its end block; the handler is called once.\<close>

lemma update_node_single:
  assumes "message_ok host m" and "message_plugin m = Some g" and "mHandlerMap st g = Some h"
    and "\<And>p. received host m p \<Longrightarrow> mHeader p = Some (message_header host m) \<Longrightarrow> h p k (nApp st) = (Inr (), a)"
    and "isConnected (nHeap st k)" and "\<not> mUpdated (nHeap st k)" and "mSockStream (nHeap st k) = Some s"
    and "sIncoming s = wire host m @ wire host (EndMsg f) @ rest"
  shows "update_node le k st = (Inr (), finish_node k rest a st)"
proof -
  let ?s = "s\<lparr>sIncoming := wire host (EndMsg f) @ rest\<rparr>"
  let ?st = "upd_heap k (\<lambda>n. n\<lparr>mSockStream := Some ?s\<rparr>) st"
  obtain p where p: "recvPacket le packet_factory (nHeap st k) = (Inr p, (nHeap st k)\<lparr>mSockStream := Some ?s\<rparr>)"
    "received host m p" "mHeader p = Some (message_header host m)"
    using recvPacket_wire [OF assms(1,7), of "wire host (EndMsg f) @ rest" le] assms(8) by auto
  have st: "upd_heap k (\<lambda>_. (nHeap st k)\<lparr>mSockStream := Some ?s\<rparr>) st = ?st" by (simp add: upd_heap_def)
  have app: "handlePacket p k ?st = (Inr (), ?st\<lparr>nApp := a\<rparr>)"
    using assms(3) assms(4) [OF p(2,3)] p(3) message_plugin_type [OF assms(2)] message_plugin_received [OF assms(2) p(2)]
    by (simp add: handlePacket_def message_header_type getHandlerByGUID_def upd_heap_def)
  have "update_node le k st = update_node le k (?st\<lparr>nApp := a\<rparr>)"
    using assms(5,6) p(1) app by (subst update_node.simps) (simp add: st)
  moreover have "\<exists>app. update_node le k (?st\<lparr>nApp := a\<rparr>) = (Inr (), finish_node k rest app (?st\<lparr>nApp := a\<rparr>)) \<and> app = a"
    by (rule update_node_goes [where ms = "[]" and s = ?s and host = host and f = f])
      (use assms(5,6) in \<open>simp_all add: block_ok_def handled_def upd_heap_def isConnected_def\<close>)
  moreover have "finish_node k rest a (?st\<lparr>nApp := a\<rparr>) = finish_node k rest a st"
    using assms(7) by (simp add: finish_node_def upd_heap_def)
  ultimately show ?thesis by auto
qed

lemma update_node_stream:
  assumes "update_node le k st = (Inr (), st')" and "\<not> mUpdated (nHeap st k)"
  shows "mSockStream (nHeap st k) \<noteq> None"
proof
  assume "mSockStream (nHeap st k) = None"
  then obtain e n where "recvPacket le packet_factory (nHeap st k) = (Inl e, n)"
    by (simp add: recvPacket_def readData_def)
  then show False using assms by (simp add: update_node.simps split: if_splits)
qed

lemma single_selects:
  "mReactor st = \<lparr>mSelector = [h], mDemuxTable = [h \<mapsto> k]\<rparr> \<Longrightarrow> mSockStream (nHeap st k) \<noteq> None \<Longrightarrow> \<not> select_fails st"
  by (simp add: select_fails_def)

lemma single_ready:
  "getReadyNodes events \<lparr>mSelector = [h], mDemuxTable = [h \<mapsto> k]\<rparr> = (if h \<in> set events then [Some k] else [])"
  by (simp add: getReadyNodes_def)

text \<open>A network of one node: the loop waits until the selector names it, and is done.\<close>

lemma updateAllNodes_single:
  assumes "mReactor st = \<lparr>mSelector = [h], mDemuxTable = [h \<mapsto> k]\<rparr>" and "\<not> mUpdated (nHeap st k)"
    and "update_node le k st = (Inr (), st')" and "sel j = Some events" and "h \<in> set events"
  shows "updateAllNodes le sel 1 st = Some (Inr (), st')"
proof -
  note selects = single_selects [OF assms(1) update_node_stream [OF assms(3,2)]]
  have over: "update_loop le sel (Suc 0) i (Suc 0) ready st' = Some (Inr (), st')" for i ready
    by (subst update_loop.simps) simp
  have "update_loop le sel 1 i 0 [] st = Some (Inr (), st')" if "j = i + d" for i d
    using that
  proof (induction d arbitrary: i)
    case 0
    then show ?case
      using assms selects by (subst update_loop.simps) (simp add: single_ready over)
  next
    case (Suc d)
    then have IH: "update_loop le sel 1 (Suc i) 0 [] st = Some (Inr (), st')" by simp
    show ?case
    proof (cases "\<exists>events. sel i = Some events \<and> h \<in> set events")
      case True
      then show ?thesis
        using assms selects by (subst update_loop.simps) (auto simp: single_ready over)
    next
      case False
      then show ?thesis
        using assms(1) IH selects by (subst update_loop.simps) (auto simp: single_ready split: option.split)
    qed
  qed
  then show ?thesis by (simp add: updateAllNodes_def)
qed

end
