(* ===== verification/DeviceStream.thy ===== *)
theory DeviceStream
  imports InputMgr
begin

text \<open>
  Whole devices on the wire.  A device class is a stack of mix-ins
  (\<^verbatim>\<open>modules/gadgeteer/gadget/Type/InputMixer.h\<close>), whose \<^verbatim>\<open>writeObject\<close> and \<^verbatim>\<open>readObject\<close> are those
  of the composed types in order; a cluster node stands in for a device of another node with a
  placeholder of the same stack, made from the stack's name (\<^verbatim>\<open>BaseTypeFactory.cpp\<close>,
  \<^verbatim>\<open>InputBaseTypes.h\<close>).  \<^verbatim>\<open>Input\<close> and \<^verbatim>\<open>SimInput\<close>, the bottom of every stack, write nothing.
\<close>

section \<open>Stacks and their names\<close>

text \<open>\<^verbatim>\<open>getInputTypeName\<close> of the types and of a stack, which may be one of simulated devices.\<close>

definition type_name :: "dev_type \<Rightarrow> string" where
  "type_name t =
     (case t of TAnalog \<Rightarrow> ''Analog'' | TDigital \<Rightarrow> ''Digital'' | TPosition \<Rightarrow> ''Position'' | TGlove \<Rightarrow> ''Glove''
      | TKeyboardMouse \<Rightarrow> ''keyboard_mouse'' | TCommand \<Rightarrow> ''Command'' | TTextString \<Rightarrow> ''String'')"

definition getInputTypeName :: "bool \<Rightarrow> dev_type list \<Rightarrow> string" where
  "getInputTypeName sim types =
     fold (\<lambda>t name. name @ type_name t) types (if sim then ''SimInput'' @ ''Input'' else ''Input'')"

text \<open>The stacks \<^verbatim>\<open>hackLoadKnownDevices\<close> registers, in its order.\<close>

definition known_devices :: "(bool \<times> dev_type list) list" where
  "known_devices =
    [(False, [TDigital]), (False, [TAnalog]), (False, [TPosition]), (False, [TKeyboardMouse]),
     (False, [TTextString]), (False, [TCommand]), (False, [TCommand, TAnalog]), (False, [TGlove]),
     (False, [TDigital, TAnalog]), (False, [TDigital, TPosition]), (False, [TAnalog, TPosition]),
     (False, [TGlove, TDigital]), (False, [TGlove, TDigital, TAnalog, TPosition]),
     (False, [TDigital, TAnalog, TPosition]), (True, [TPosition]), (True, [TDigital]),
     (True, [TAnalog]), (True, [TDigital, TGlove])]"

text \<open>The factory; an unknown name gives the null pointer.\<close>

definition base_createObject :: "string \<Rightarrow> dev_type list option" where
  "base_createObject base_type =
     map_of (map (\<lambda>(sim, types). (getInputTypeName sim types, types)) known_devices) base_type"

lemma known_devices_made:
  "list_all (\<lambda>(sim, types). base_createObject (getInputTypeName sim types) = Some types) known_devices"
  by code_simp

lemma base_createObject_known:
  "(sim, types) \<in> set known_devices \<Longrightarrow> base_createObject (getInputTypeName sim types) = Some types"
  using known_devices_made by (auto simp: list_all_iff)

text \<open>The data of a placeholder.\<close>

definition placeholder_data :: device_data where
  "placeholder_data = \<lparr>dDigital = sample_buffer_new, dAnalog = sample_buffer_new, dCommand = sample_buffer_new,
     dString = sample_buffer_new, dPosition = sample_buffer_new, dGlove = sample_buffer_new,
     dKeyboard = KeyboardMouse_new\<rparr>"

section \<open>Serialization\<close>

definition type_writeObject :: "bool \<Rightarrow> device_data \<Rightarrow> dev_type \<Rightarrow> writer \<Rightarrow> writer result" where
  "type_writeObject le dd t w =
     (case t of
        TAnalog \<Rightarrow> analog_writeObject le (dAnalog dd) w
      | TDigital \<Rightarrow> digital_writeObject le (dDigital dd) w
      | TPosition \<Rightarrow> position_writeObject le (dPosition dd) w
      | TGlove \<Rightarrow> glove_writeObject le (dGlove dd) w
      | TKeyboardMouse \<Rightarrow> Inr (km_writeObject le (dKeyboard dd) w)
      | TCommand \<Rightarrow> command_writeObject le (dCommand dd) w
      | TTextString \<Rightarrow> string_writeObject le (dString dd) w)"

definition device_writeObject :: "bool \<Rightarrow> dev_type list \<Rightarrow> device_data \<Rightarrow> writer \<Rightarrow> writer result" where
  "device_writeObject le types dd w = rfold (type_writeObject le dd) types w"

definition type_readObject :: "bool \<Rightarrow> u64 \<Rightarrow> interval \<Rightarrow> dev_type \<Rightarrow> reader \<Rightarrow> device_data
    \<Rightarrow> reader result \<times> device_data" where
  "type_readObject le delta now t r dd =
     (case t of
        TAnalog \<Rightarrow> map_prod id (\<lambda>b. dd\<lparr>dAnalog := b\<rparr>) (analog_readObject le delta r (dAnalog dd))
      | TDigital \<Rightarrow> map_prod id (\<lambda>b. dd\<lparr>dDigital := b\<rparr>) (digital_readObject le delta r (dDigital dd))
      | TPosition \<Rightarrow> map_prod id (\<lambda>b. dd\<lparr>dPosition := b\<rparr>) (position_readObject le delta r (dPosition dd))
      | TGlove \<Rightarrow> map_prod id (\<lambda>b. dd\<lparr>dGlove := b\<rparr>) (glove_readObject le delta r (dGlove dd))
      | TKeyboardMouse \<Rightarrow> map_prod id (\<lambda>km. dd\<lparr>dKeyboard := km\<rparr>) (km_readObject le now r (dKeyboard dd))
      | TCommand \<Rightarrow> map_prod id (\<lambda>b. dd\<lparr>dCommand := b\<rparr>) (command_readObject le delta r (dCommand dd))
      | TTextString \<Rightarrow> map_prod id (\<lambda>b. dd\<lparr>dString := b\<rparr>) (string_readObject le delta r (dString dd)))"

fun device_readObject :: "bool \<Rightarrow> u64 \<Rightarrow> interval \<Rightarrow> dev_type list \<Rightarrow> reader \<Rightarrow> device_data
    \<Rightarrow> reader result \<times> device_data" where
  "device_readObject le delta now [] r dd = (Inr r, dd)"
| "device_readObject le delta now (t # types) r dd =
     then_into (type_readObject le delta now t r dd) (\<lambda>r dd. device_readObject le delta now types r dd)"

section \<open>What goes over\<close>

definition type_ok :: "device_data \<Rightarrow> dev_type \<Rightarrow> bool" where
  "type_ok dd t =
     (case t of
        TAnalog \<Rightarrow> analog.buffer_ok (dAnalog dd)
      | TDigital \<Rightarrow> digital.buffer_ok (dDigital dd)
      | TPosition \<Rightarrow> position.buffer_ok (dPosition dd)
      | TGlove \<Rightarrow> glove.buffer_ok (dGlove dd)
      | TKeyboardMouse \<Rightarrow> km_ok (dKeyboard dd)
      | TCommand \<Rightarrow> digital.buffer_ok (dCommand dd)
      | TTextString \<Rightarrow> text_string.buffer_ok (dString dd))"

definition type_bytes :: "device_data \<Rightarrow> dev_type \<Rightarrow> u8 list" where
  "type_bytes dd t =
     (case t of
        TAnalog \<Rightarrow> analog.buffer_bytes MSG_DATA_ANALOG (dAnalog dd)
      | TDigital \<Rightarrow> digital.buffer_bytes MSG_DATA_DIGITAL (dDigital dd)
      | TPosition \<Rightarrow> position.buffer_bytes MSG_DATA_POS (dPosition dd)
      | TGlove \<Rightarrow> glove.buffer_bytes MSG_DATA_GLOVE (dGlove dd)
      | TKeyboardMouse \<Rightarrow> km_bytes (dKeyboard dd)
      | TCommand \<Rightarrow> digital.buffer_bytes MSG_DATA_COMMAND (dCommand dd)
      | TTextString \<Rightarrow> text_string.buffer_bytes MSG_DATA_STRING (dString dd))"

definition device_bytes :: "dev_type list \<Rightarrow> device_data \<Rightarrow> u8 list" where
  "device_bytes types dd = concat (map (type_bytes dd) types)"

text \<open>A receiver's buffers must not be in use, nor hold more than fits.\<close>

definition buffer_ready :: "'d sample_buffer \<Rightarrow> bool" where
  "buffer_ready b \<longleftrightarrow> \<not> mLock b \<and> length (mReadyBuffer b) \<le> MAX_BUFFER_SIZE"

definition type_ready :: "device_data \<Rightarrow> dev_type \<Rightarrow> bool" where
  "type_ready dd t =
     (case t of
        TAnalog \<Rightarrow> buffer_ready (dAnalog dd)
      | TDigital \<Rightarrow> buffer_ready (dDigital dd)
      | TPosition \<Rightarrow> buffer_ready (dPosition dd)
      | TGlove \<Rightarrow> buffer_ready (dGlove dd)
      | TKeyboardMouse \<Rightarrow> length (mCurKeys (dKeyboard dd)) = LAST_KEY
      | TCommand \<Rightarrow> buffer_ready (dCommand dd)
      | TTextString \<Rightarrow> buffer_ready (dString dd))"

definition received_keyboard :: "keyboard_mouse \<Rightarrow> keyboard_mouse \<Rightarrow> keyboard_mouse" where
  "received_keyboard km km' = km'\<lparr>mCurKeys := mCurKeys km,
     mCurEventQueue := mWorkingEventQueue km' @ map remote_event (mCurEventQueue km),
     mWorkingEventQueue := [], mSyncTime := mSyncTime km\<rparr>"

definition received_type :: "u64 \<Rightarrow> device_data \<Rightarrow> dev_type \<Rightarrow> device_data \<Rightarrow> device_data" where
  "received_type delta dd t dd' =
     (case t of
        TAnalog \<Rightarrow> dd'\<lparr>dAnalog := received delta (dAnalog dd) (dAnalog dd')\<rparr>
      | TDigital \<Rightarrow> dd'\<lparr>dDigital := received delta (dDigital dd) (dDigital dd')\<rparr>
      | TPosition \<Rightarrow> dd'\<lparr>dPosition := received delta (dPosition dd) (dPosition dd')\<rparr>
      | TGlove \<Rightarrow> dd'\<lparr>dGlove := received delta (dGlove dd) (dGlove dd')\<rparr>
      | TKeyboardMouse \<Rightarrow> dd'\<lparr>dKeyboard := received_keyboard (dKeyboard dd) (dKeyboard dd')\<rparr>
      | TCommand \<Rightarrow> dd'\<lparr>dCommand := received delta (dCommand dd) (dCommand dd')\<rparr>
      | TTextString \<Rightarrow> dd'\<lparr>dString := received delta (dString dd) (dString dd')\<rparr>)"

definition received_device :: "u64 \<Rightarrow> dev_type list \<Rightarrow> device_data \<Rightarrow> device_data \<Rightarrow> device_data" where
  "received_device delta types dd dd' = fold (received_type delta dd) types dd'"
section \<open>A device at a time\<close>

lemma type_writeObject_emits: "type_ok dd t \<Longrightarrow> type_writeObject le dd t w = Inr (emit (type_bytes dd t) w)"
  by (cases t)
     (simp_all add: type_ok_def type_writeObject_def type_bytes_def analog_writeObject_samples
       digital_writeObject_def position_writeObject_def glove_writeObject_def command_writeObject_def
       string_writeObject_def analog.write_samples_emits digital.write_samples_emits
       position.write_samples_emits glove.write_samples_emits text_string.write_samples_emits
       km_writeObject_emits km_ok_def del: LAST_KEY_value)

lemma device_writeObject_emits:
  "list_all (type_ok dd) types \<Longrightarrow>
     device_writeObject le types dd w = Inr (emit (device_bytes types dd) w)"
  unfolding device_writeObject_def device_bytes_def
  by (induction types arbitrary: w) (simp_all add: type_writeObject_emits emit_emit)

lemma type_readObject_returns:
  assumes "type_ok dd t" and "type_ready dd' t" and "remains r (type_bytes dd t @ bs)"
  shows "type_readObject le delta now t r dd' =
    (Inr (advance (length (type_bytes dd t)) r), received_type delta dd t dd')"
  using assms
  by (cases t)
     (simp_all add: type_ok_def type_ready_def type_bytes_def type_readObject_def received_type_def buffer_ready_def
       analog_readObject_def digital_readObject_def position_readObject_def glove_readObject_def
       command_readObject_def string_readObject_def received_keyboard_def
       analog.read_buffer_returns digital.read_buffer_returns position.read_buffer_returns
       glove.read_buffer_returns text_string.read_buffer_returns km_readObject_returns del: LAST_KEY_value)

text \<open>A received buffer is ready for the next frame.\<close>

lemma buffer_ready_received [simp]: "buffer_ready (received delta b b')"
  by (simp add: buffer_ready_def received_def Let_def)

lemma type_ready_received:
  "type_ok dd t \<Longrightarrow> type_ready dd' t' \<Longrightarrow> type_ready (received_type delta dd t dd') t'"
  by (cases t; cases t') (simp_all add: type_ready_def type_ok_def received_type_def received_keyboard_def
      km_ok_def del: LAST_KEY_value)

lemma device_ready_received:
  "list_all (type_ok dd) types \<Longrightarrow> list_all (type_ready dd') types' \<Longrightarrow>
     list_all (type_ready (received_device delta types dd dd')) types'"
  unfolding received_device_def
  by (induction types arbitrary: dd') (auto simp: list_all_iff type_ready_received)

lemma device_readObject_returns:
  "list_all (type_ok dd) types \<Longrightarrow> list_all (type_ready dd') types \<Longrightarrow> remains r (device_bytes types dd @ bs) \<Longrightarrow>
     device_readObject le delta now types r dd' =
       (Inr (advance (length (device_bytes types dd)) r), received_device delta types dd dd')"
proof (induction types arbitrary: r dd')
  case (Cons t types)
  from Cons.prems(3) have r: "remains r (type_bytes dd t @ device_bytes types dd @ bs)"
    by (simp add: device_bytes_def)
  have "list_all (type_ready (received_type delta dd t dd')) types"
    using Cons.prems by (auto simp: list_all_iff type_ready_received)
  from Cons.IH [OF _ this remains_advance [OF r]] show ?case
    using Cons.prems type_readObject_returns [OF _ _ r, of dd' le delta now]
    by (simp add: device_bytes_def received_device_def advance_advance)
qed (simp_all add: device_bytes_def received_device_def)

section \<open>Any message\<close>

text \<open>However a message came about, a device that has read it is ready for the next.\<close>

lemma read_into_Inr:
  "read_into m s f = (Inr r, s') \<Longrightarrow> \<exists>x. m = Inr x \<and> f x = (Inr r, s')"
  by (cases m) simp_all

lemma then_into_Inr:
  "then_into m f = (Inr r, s') \<Longrightarrow> \<exists>x s. m = (Inr x, s) \<and> f x s = (Inr r, s')"
  by (cases m rule: prod.exhaust, rename_tac x s, case_tac x) simp_all

lemma swapBuffers_ready: "swapBuffers b = Inr b' \<Longrightarrow> buffer_ready b'"
  by (auto simp: swapBuffers_def buffer_lock_def buffer_unlock_def buffer_ready_def Let_def split: if_splits)

lemma read_buffer_ready: "read_buffer le tag rd r b = (Inr r', b') \<Longrightarrow> buffer_ready b'"
  unfolding read_buffer_def
  by (auto dest!: read_into_Inr then_into_Inr simp: swapBuffers_ready split: prod.splits)

lemma read_keys_length: "length (mCurKeys (snd (read_keys le n i r km))) = length (mCurKeys km)"
  by (induction n arbitrary: i r km) (auto simp: read_into_def split: sum.splits prod.splits)

lemma read_events_keys: "mCurKeys (snd (read_events le n r km)) = mCurKeys km"
  by (induction n arbitrary: r km) (auto simp: read_into_def addEvent_def split: sum.splits prod.splits)

lemma km_readObject_length:
  "km_readObject le now r km = (Inr r', km') \<Longrightarrow> length (mCurKeys km') = length (mCurKeys km)"
  unfolding km_readObject_def
  apply (auto dest!: read_into_Inr then_into_Inr split: prod.splits simp: updateEventQueue_def)
  by (metis read_keys_length read_events_keys snd_conv)

lemma type_readObject_ready:
  assumes "type_readObject le delta now t r dd = (Inr r', dd')" and "type_ready dd t'"
  shows "type_ready dd' t'"
  using assms
  by (cases t; cases t')
     (auto simp: type_readObject_def type_ready_def map_prod_def analog_readObject_def digital_readObject_def
       position_readObject_def glove_readObject_def command_readObject_def string_readObject_def
       split: prod.splits dest: read_buffer_ready km_readObject_length)

lemma device_readObject_ready:
  "device_readObject le delta now types r dd = (Inr r', dd') \<Longrightarrow> list_all (type_ready dd) types' \<Longrightarrow>
     list_all (type_ready dd') types'"
  by (induction types arbitrary: r dd)
     (auto dest!: then_into_Inr simp: list_all_iff type_readObject_ready)

section \<open>Properties\<close>

text \<open>
  C32. A frame of a device's data reaches the node that stands in for the device.  Whatever the
  device's types and the byte orders of the two hosts, the stand-in's data becomes the
  device's (every stable sample with its time moved by the difference of the clocks, all key
  counts and events in their remote form), and the message is consumed to its last byte.
\<close>

theorem device_data_roundtrip:
  assumes "list_all (type_ok dd) types" and "list_all (type_ready dd') types"
    and "length (device_bytes types dd) < 2 ^ 32"
  shows "\<exists>w r. device_writeObject le types dd writer_new = Inr w
    \<and> device_readObject le' delta now types (reader_on (wData w) 0) dd' =
        (Inr r, received_device delta types dd dd')
    \<and> remains r []"
proof -
  have w: "device_writeObject le types dd writer_new = Inr (emit (device_bytes types dd) writer_new)"
    by (rule device_writeObject_emits [OF assms(1)])
  have r: "remains (reader_on (device_bytes types dd) 0) (device_bytes types dd @ [])"
    using remains_reader_on [OF assms(3)] by simp
  show ?thesis
    unfolding w using device_readObject_returns [OF assms(1,2) r, of le' delta now] remains_advance [OF r]
    by (simp add: writer_new_def)
qed

text \<open>A wand: two buttons pressed and a joystick, sampled twice in the frame.\<close>

definition example_wand :: device_data where
  "example_wand = placeholder_data
     \<lparr>dDigital := sample_buffer_new\<lparr>mStableBuffer :=
        [[\<lparr>dValue = 1, mTimeStamp = Interval 5\<rparr>, \<lparr>dValue = 0, mTimeStamp = Interval 5\<rparr>],
         [\<lparr>dValue = 1, mTimeStamp = Interval 6\<rparr>, \<lparr>dValue = 1, mTimeStamp = Interval 6\<rparr>]]\<rparr>,
      dAnalog := sample_buffer_new\<lparr>mStableBuffer := [[\<lparr>dValue = 0x3F000000, mTimeStamp = Interval 7\<rparr>]]\<rparr>\<rparr>"

lemma int32_bit: "int32 0" "int32 1"
  by (simp_all add: int32_def)

lemma example_wand_ok:
  "list_all (type_ok example_wand) [TDigital, TAnalog]"
  "list_all (type_ready placeholder_data) [TDigital, TAnalog]"
  "length (device_bytes [TDigital, TAnalog] example_wand) < 100"
  by (simp_all add: type_ok_def type_ready_def buffer_ready_def placeholder_data_def sample_buffer_new_def
      example_wand_def digital.buffer_ok_def digital.sample_ok_def analog.buffer_ok_def analog.sample_ok_def
      int32_bit device_bytes_def type_bytes_def digital.buffer_bytes_def analog.buffer_bytes_def
      digital.sample_bytes_def analog.sample_bytes_def digital_bytes_def analog_bytes_def int_bytes_def)

theorem device_data_roundtrip_witness:
  "\<exists>w r dd. device_writeObject True [TDigital, TAnalog] example_wand writer_new = Inr w
     \<and> device_readObject False 10 (Interval 0) [TDigital, TAnalog] (reader_on (wData w) 0) placeholder_data = (Inr r, dd)
     \<and> dValue (sample_at DigitalData_default 1 (dDigital dd)) = 1
     \<and> sample_at AnalogData_default 0 (dAnalog dd) = \<lparr>dValue = 0x3F000000, mTimeStamp = Interval 17\<rparr>"
proof -
  have "length (device_bytes [TDigital, TAnalog] example_wand) < 2 ^ 32"
    using example_wand_ok(3) by simp
  from device_data_roundtrip [OF example_wand_ok(1,2) this, of True False 10 "Interval 0"]
  obtain w r where "device_writeObject True [TDigital, TAnalog] example_wand writer_new = Inr w"
    "device_readObject False 10 (Interval 0) [TDigital, TAnalog] (reader_on (wData w) 0) placeholder_data =
       (Inr r, received_device 10 [TDigital, TAnalog] example_wand placeholder_data)" by blast
  moreover have "dValue (sample_at DigitalData_default 1 (dDigital (received_device 10 [TDigital, TAnalog] example_wand placeholder_data))) = 1"
    "sample_at AnalogData_default 0 (dAnalog (received_device 10 [TDigital, TAnalog] example_wand placeholder_data))
       = \<lparr>dValue = 0x3F000000, mTimeStamp = Interval 17\<rparr>"
    by (simp_all add: received_device_def received_type_def received_def example_wand_def placeholder_data_def
        sample_buffer_new_def newest_def MAX_BUFFER_SIZE_def shift_def sample_at_def)
  ultimately show ?thesis by blast
qed

end
