(* ===== verification/ClusterRim.thy ===== *)
theory ClusterRim
  imports ClusterBlock DeviceStream InputProxies "HOL-Library.AList"
begin

text \<open>
  Remote input (\<^verbatim>\<open>modules/gadgeteer/plugins/RIMPlugin/\<close>): the cluster plug-in that lets the
  nodes of a cluster use the master's devices.  The master makes a device server for each
  device and announces the device; every frame the servers send the devices' data.  The other
  nodes make a virtual device for each announcement and enter it in their input manager.

  The plug-in's state and the node's input manager are the application's state of the network
  manager of \<open>ClusterNet\<close>.  A device pointer is an index of the input manager's devices.  The
  hash map of virtual devices is an association list; nothing depends on its order as long as
  the names differ.
\<close>

section \<open>Device servers and virtual devices\<close>

record device_server =
  dsName :: string
  dsDevice :: nat
  dsId :: guid
  dsPacket :: packet

record virtual_device =
  vdName :: string
  vdBaseType :: string
  vdRemoteHostname :: string
  vdId :: guid
  vdDevice :: nat

text \<open>The number of GUIDs generated so far tells which one the generator returns next.\<close>

record rim_world =
  rInput :: input_manager
  mVirtualDevices :: "(guid \<times> virtual_device) list"
  mDeviceServers :: "device_server list"
  rGenerated :: nat

record rim_env =
  inputEnv :: input_env
  localHostname :: string
  generate :: "nat \<Rightarrow> guid"
  simDevice :: "input_element \<Rightarrow> bool"

definition rim_guid :: guid where
  "rim_guid = \<lparr>g_m0 = 0x9c3fb301, g_m1 = 0xb142, g_m2 = 0x4c6f, g_m3 = 0x8c, g_m4 = 0xa3,
     g_m5 = [0x15, 0x70, 0x89, 0x89, 0x74, 0xd0]\<rparr>"

lemma rim_guid_value: "guid_fromString ''9c3fb301-b142-4c6f-8ca3-1570898974d0'' = Inr rim_guid"
  by (simp add: rim_guid_def guid_fromString_def scan_num_plain is_space_def hex_value_def hex_digits_step)

lemma rim_guid_ok [simp]: "guid_ok rim_guid"
  by (simp add: guid_ok_def rim_guid_def)

text \<open>A device server generates its GUID anew until it differs from one it generated before.\<close>

partial_function (option) generate_until :: "(nat \<Rightarrow> guid) \<Rightarrow> guid \<Rightarrow> nat \<Rightarrow> (guid \<times> nat) option" where
  "generate_until gen temp n =
     (if gen n = temp then generate_until gen temp (Suc n) else Some (gen n, Suc n))"

definition DeviceServer_new :: "rim_env \<Rightarrow> string \<Rightarrow> nat \<Rightarrow> nat \<Rightarrow> (device_server \<times> nat) option" where
  "DeviceServer_new env name device n =
     (case generate_until (generate env) (generate env n) (Suc n) of
        None \<Rightarrow> None
      | Some (ident, n) \<Rightarrow>
          Some (\<lparr>dsName = name, dsDevice = device, dsId = ident, dsPacket = data_new rim_guid ident\<rparr>, n))"

definition updateLocalData :: "bool \<Rightarrow> input_manager \<Rightarrow> device_server \<Rightarrow> device_server result" where
  "updateLocalData le im ds =
     (let dev = devs im ! dsDevice ds
      in rbind (data_serialize le (dsId ds) (device_writeObject le (dTypes dev) (dData dev)) (dsPacket ds)) (\<lambda>p.
         Inr (ds\<lparr>dsPacket := p\<rparr>)))"

section \<open>The plug-in\<close>

definition getVirtualDevice :: "guid \<Rightarrow> rim_world \<Rightarrow> nat option" where
  "getVirtualDevice deviceId w = map_option vdDevice (map_of (mVirtualDevices w) deviceId)"

definition getVirtualDevice_name :: "string \<Rightarrow> rim_world \<Rightarrow> nat option" where
  "getVirtualDevice_name deviceName w =
     map_option (\<lambda>(_, vd). vdDevice vd) (find (\<lambda>(_, vd). vdName vd = deviceName) (mVirtualDevices w))"

definition addVirtualDevice :: "guid \<Rightarrow> string \<Rightarrow> string \<Rightarrow> string \<Rightarrow> rim_world \<Rightarrow> rim_world result" where
  "addVirtualDevice device_id name device_base_type hostname w =
     (case base_createObject device_base_type of
        None \<Rightarrow> Inl (AssertionFailed ''BaseTypeFactory returned a NULL input device.'')
      | Some types \<Rightarrow>
          let im = rInput w; d = length (devs im)
          in Inr (w\<lparr>rInput := im\<lparr>devs := devs im @ [device_new [] types placeholder_data]\<rparr>,
               mVirtualDevices := AList.update device_id
                 \<lparr>vdName = name, vdBaseType = device_base_type, vdRemoteHostname = hostname,
                  vdId = device_id, vdDevice = d\<rparr> (mVirtualDevices w)\<rparr>))"

definition rim_removeDevice :: "string \<Rightarrow> rim_world \<Rightarrow> rim_world" where
  "rim_removeDevice name w = w\<lparr>rInput := snd (removeDevice name (rInput w))\<rparr>"

definition removeVirtualDevice_id :: "guid \<Rightarrow> rim_world \<Rightarrow> rim_world" where
  "removeVirtualDevice_id device_id w =
     (case map_of (mVirtualDevices w) device_id of
        None \<Rightarrow> w
      | Some vd \<Rightarrow> (rim_removeDevice (vdName vd) w)\<lparr>mVirtualDevices := AList.delete device_id (mVirtualDevices w)\<rparr>)"

definition removeVirtualDevice :: "string \<Rightarrow> rim_world \<Rightarrow> rim_world" where
  "removeVirtualDevice device_name w =
     (let w = rim_removeDevice device_name w
      in case find (\<lambda>(_, vd). vdName vd = device_name) (mVirtualDevices w) of
           None \<Rightarrow> w
         | Some (ident, _) \<Rightarrow> w\<lparr>mVirtualDevices := AList.delete ident (mVirtualDevices w)\<rparr>)"

text \<open>The loop goes on with the iterator of the entry it has erased.\<close>

definition removeVirtualDevicesOnHost :: "string \<Rightarrow> rim_world \<Rightarrow> bool result" where
  "removeVirtualDevicesOnHost hostName w =
     (if list_ex (\<lambda>(_, vd). vdRemoteHostname vd = hostName) (mVirtualDevices w)
      then Inl (Undefined ''iterator of an erased entry incremented'') else Inr True)"

definition addDeviceServer :: "rim_env \<Rightarrow> string \<Rightarrow> nat \<Rightarrow> rim_world \<Rightarrow> rim_world option" where
  "addDeviceServer env name device w =
     (case DeviceServer_new env name device (rGenerated w) of
        None \<Rightarrow> None
      | Some (ds, n) \<Rightarrow> Some (w\<lparr>mDeviceServers := mDeviceServers w @ [ds], rGenerated := n\<rparr>))"

definition getDeviceServer :: "string \<Rightarrow> rim_world \<Rightarrow> device_server option" where
  "getDeviceServer deviceName w = find (\<lambda>ds. dsName ds = deviceName) (mDeviceServers w)"

text \<open>\<^verbatim>\<open>std::remove_if\<close> moves the others to the front and leaves the vector as long as it was.\<close>

definition removeDeviceServer :: "string \<Rightarrow> rim_world \<Rightarrow> rim_world" where
  "removeDeviceServer deviceName w =
     (let kept = filter (\<lambda>ds. dsName ds \<noteq> deviceName) (mDeviceServers w)
      in w\<lparr>mDeviceServers := kept @ drop (length kept) (mDeviceServers w)\<rparr>)"

subsection \<open>Configuration\<close>

definition rim_configCanHandle :: "rim_env \<Rightarrow> input_element \<Rightarrow> bool" where
  "rim_configCanHandle env elm \<longleftrightarrow> remoteDevice (inputEnv env) elm"

text \<open>\<open>None\<close> is a device server that never finds a GUID.\<close>

definition rim_configAdd :: "bool \<Rightarrow> rim_env \<Rightarrow> input_element \<Rightarrow> rim_world netmgr
    \<Rightarrow> (bool result \<times> rim_world netmgr) option" where
  "rim_configAdd le env elm st =
     (if \<not> remoteDevice (inputEnv env) elm
      then Some (Inl (AssertionFailed ''recognizeRemoteDeviceConfig(elm)''), st)
      else if \<not> clusterActive (inputEnv env)
      then Some (Inl (AssertionFailed ''isClusterActive()''), st)
      else if clusterMaster (inputEnv env)
      then case configureDevice (inputEnv env) elm (rInput (nApp st)) of
             Inl e \<Rightarrow> Some (Inl e, st)
           | Inr (_, im) \<Rightarrow>
               let w = (nApp st)\<lparr>rInput := im\<rparr>; device_name = ieName elm
               in case getDevice device_name im of
                    None \<Rightarrow> Some (Inr False, st\<lparr>nApp := w\<rparr>)
                  | Some input_device \<Rightarrow>
                      (case addDeviceServer env device_name input_device w of
                         None \<Rightarrow> None
                       | Some w \<Rightarrow>
                           let st = st\<lparr>nApp := w\<rparr>
                           in case getDeviceServer device_name w of
                                None \<Rightarrow> Some (Inl (AssertionFailed ''Must have device server.''), st)
                              | Some device_server \<Rightarrow>
                                  (case ack_new le (localHostname env) rim_guid (dsId device_server) device_name
                                          (getInputTypeName (simDevice env elm) (dTypes (devs im ! input_device))) True of
                                     Inl e \<Rightarrow> Some (Inl e, st)
                                   | Inr device_ack \<Rightarrow>
                                       (case sendToAll device_ack st of
                                          (Inl e, st) \<Rightarrow> Some (Inl e, st)
                                        | (Inr _, st) \<Rightarrow> Some (Inr True, st))))
      else Some (Inr True, st))"

text \<open>The plug-in never removes a device.\<close>

definition rim_configRemove :: "input_element \<Rightarrow> bool" where
  "rim_configRemove elm = False"

subsection \<open>A frame\<close>

fun serve_devices :: "bool \<Rightarrow> nat list \<Rightarrow> rim_world netmgr \<Rightarrow> unit result \<times> rim_world netmgr" where
  "serve_devices le [] st = (Inr (), st)"
| "serve_devices le (i # is) st =
     (case updateLocalData le (rInput (nApp st)) (mDeviceServers (nApp st) ! i) of
        Inl e \<Rightarrow> (Inl e, st)
      | Inr ds \<Rightarrow>
          (case sendToAll (dsPacket ds)
                  (st\<lparr>nApp := (nApp st)\<lparr>mDeviceServers := (mDeviceServers (nApp st))[i := ds]\<rparr>\<rparr>) of
             (Inl e, st) \<Rightarrow> (Inl e, st)
           | (Inr _, st) \<Rightarrow> serve_devices le is st))"

definition rim_postPostFrame :: "bool \<Rightarrow> rim_world netmgr \<Rightarrow> unit result \<times> rim_world netmgr" where
  "rim_postPostFrame le st = serve_devices le [0..<length (mDeviceServers (nApp st))] st"

text \<open>
  The reader's attributes are of any type; one read as another type is that type's zero.  The
  clock difference is set as the pointer \<^verbatim>\<open>Node::getDelta\<close> returns, and read as a \<^verbatim>\<open>Uint64\<close>.
\<close>

datatype any_value = AnyUint64 u64 | AnyUint64Pointer

definition getAttrib_Uint64 :: "any_value \<Rightarrow> u64" where
  "getAttrib_Uint64 attrib = (case attrib of AnyUint64 v \<Rightarrow> v | AnyUint64Pointer \<Rightarrow> 0)"

definition getDelta :: any_value where
  "getDelta = AnyUint64Pointer"

definition rim_handlePacket :: "bool \<Rightarrow> interval \<Rightarrow> rim_world packet_handler" where
  "rim_handlePacket le now packet node w =
     (case mHeader packet of
        None \<Rightarrow> (Inl null_pointer, w)
      | Some h \<Rightarrow>
          if mPacketType h = RIM_DEVICE_ACK
          then case mBody packet of
                 DeviceAck ident device_name base hostname ack \<Rightarrow>
                   if \<not> ack then (Inl (AssertionFailed ''We only have device ACKs now.''), w)
                   else (case getVirtualDevice_name device_name w of
                           Some _ \<Rightarrow> (Inr (), w)
                         | None \<Rightarrow>
                             (case addVirtualDevice ident device_name base hostname w of
                                Inl e \<Rightarrow> (Inl e, w)
                              | Inr w \<Rightarrow>
                                  (case getVirtualDevice_name device_name w of
                                     None \<Rightarrow> (Inl (AssertionFailed ''Can't have a NULL device.''), w)
                                   | input_dev \<Rightarrow>
                                       (Inr (), w\<lparr>rInput := addRemoteDevice input_dev device_name (rInput w)\<rparr>))))
               | _ \<Rightarrow> (Inl (AssertionFailed ''Dynamic cast failed!''), w)
          else if mPacketType h = RIM_DATA_PACKET
          then case mBody packet of
                 DataPacket objectId \<Rightarrow>
                   (case getVirtualDevice objectId w of
                      None \<Rightarrow> (Inr (), w)
                    | Some virtual_device \<Rightarrow>
                        let dev = devs (rInput w) ! virtual_device;
                            delta = getAttrib_Uint64 getDelta;
                            (res, dd) = device_readObject le delta now (dTypes dev) (packet_reader packet) (dData dev)
                        in (map_sum id (\<lambda>_. ()) res,
                            w\<lparr>rInput := upd_dev virtual_device (\<lambda>dev. dev\<lparr>dData := dd\<rparr>) (rInput w)\<rparr>))
               | _ \<Rightarrow> (Inl (AssertionFailed ''Dynamic cast failed!''), w)
          else (Inl (ClusterError ''RIMPlugin does not handle packet type: ''), w))"
section \<open>Sending a frame\<close>

text \<open>A device server between frames, and the message it sends.\<close>

definition server_ok :: "input_manager \<Rightarrow> device_server \<Rightarrow> bool" where
  "server_ok im ds \<longleftrightarrow> guid_ok (dsId ds) \<and> data_packet_ok rim_guid (dsPacket ds)
     \<and> list_all (type_ok (dData (devs im ! dsDevice ds))) (dTypes (devs im ! dsDevice ds))
     \<and> length (device_bytes (dTypes (devs im ! dsDevice ds)) (dData (devs im ! dsDevice ds))) + 44 < 2 ^ 32"

definition data_message :: "guid \<Rightarrow> dev_type list \<Rightarrow> device_data \<Rightarrow> message" where
  "data_message ident types dd = DataMsg rim_guid ident (map SUint8 (device_bytes types dd))"

definition server_message :: "input_manager \<Rightarrow> device_server \<Rightarrow> message" where
  "server_message im ds = data_message (dsId ds) (dTypes (devs im ! dsDevice ds)) (dData (devs im ! dsDevice ds))"

lemma data_message_ok:
  "guid_ok ident \<Longrightarrow> length (device_bytes types dd) + 44 < 2 ^ 32 \<Longrightarrow> message_ok host (data_message ident types dd)"
  by (auto simp: data_message_def)

lemma server_message_ok: "server_ok im ds \<Longrightarrow> message_ok host (server_message im ds)"
  unfolding server_message_def by (rule data_message_ok) (simp_all add: server_ok_def)

lemma updateLocalData_message:
  assumes "server_ok im ds"
  shows "\<exists>p. updateLocalData le im ds = Inr (ds\<lparr>dsPacket := p\<rparr>) \<and> server_ok im (ds\<lparr>dsPacket := p\<rparr>)
    \<and> mData p = wire host (server_message im ds) \<and> mHeader p = Some (message_header host (server_message im ds))"
proof -
  let ?dev = "devs im ! dsDevice ds"
  have ok: "data_packet_ok rim_guid (dsPacket ds)" "guid_ok (dsId ds)" "list_all (type_ok (dData ?dev)) (dTypes ?dev)"
    using assms by (auto simp: server_ok_def)
  from data_serialize_wire [where le = le and host = host, OF ok(1,2) device_writeObject_emits [where le = le, OF ok(3)]] show ?thesis
    using assms by (auto simp: updateLocalData_def Let_def server_ok_def server_message_def data_message_def)
qed

text \<open>The servers of a frame in turn.\<close>

definition same_server :: "device_server \<Rightarrow> device_server \<Rightarrow> bool" where
  "same_server ds ds' \<longleftrightarrow> (\<exists>p. ds' = ds\<lparr>dsPacket := p\<rparr>)"

lemma same_server_refl [simp]: "same_server ds ds"
  unfolding same_server_def by (rule exI [of _ "dsPacket ds"]) simp

lemma server_message_same: "same_server ds ds' \<Longrightarrow> server_message im ds' = server_message im ds"
  by (auto simp: same_server_def server_message_def)

lemma serve_devices_sends:
  assumes "nodes_work st" and "list_all (server_ok (rInput (nApp st))) (mDeviceServers (nApp st))"
    and "i \<le> length (mDeviceServers (nApp st))"
  shows "\<exists>servers. serve_devices le [i..<length (mDeviceServers (nApp st))] st =
      (Inr (), (sent_to_all (concat (map (\<lambda>ds. wire host (server_message (rInput (nApp st)) ds))
          (drop i (mDeviceServers (nApp st))))) st)\<lparr>nApp := (nApp st)\<lparr>mDeviceServers := servers\<rparr>\<rparr>)
    \<and> list_all (server_ok (rInput (nApp st))) servers \<and> list_all2 same_server (mDeviceServers (nApp st)) servers"
  using assms
proof (induction "length (mDeviceServers (nApp st)) - i" arbitrary: i st)
  case 0
  then show ?case
    by (intro exI [of _ "mDeviceServers (nApp st)"])
       (auto simp: list_all2_same)
next
  case (Suc n)
  let ?im = "rInput (nApp st)" and ?ds = "mDeviceServers (nApp st) ! i"
  have i: "i < length (mDeviceServers (nApp st))" using Suc.hyps(2) by simp
  then have "server_ok ?im ?ds" using Suc.prems(2) by (simp add: list_all_length)
  from updateLocalData_message [OF this, of le host] server_message_ok [OF this, of host]
  obtain p where p: "updateLocalData le ?im ?ds = Inr (?ds\<lparr>dsPacket := p\<rparr>)" "server_ok ?im (?ds\<lparr>dsPacket := p\<rparr>)"
    "mData p = wire host (server_message ?im ?ds)" "mHeader p = Some (message_header host (server_message ?im ?ds))"
    and m: "message_ok host (server_message ?im ?ds)" by blast
  let ?w = "(nApp st)\<lparr>mDeviceServers := (mDeviceServers (nApp st))[i := ?ds\<lparr>dsPacket := p\<rparr>]\<rparr>"
  let ?st = "sent_to_all (wire host (server_message ?im ?ds)) (st\<lparr>nApp := ?w\<rparr>)"
  have "nodes_work (st\<lparr>nApp := ?w\<rparr>)" using Suc.prems(1) by simp
  from sendToAll_wire [OF p(3,4) m this]
  have sent: "sendToAll (dsPacket (?ds\<lparr>dsPacket := p\<rparr>)) (st\<lparr>nApp := ?w\<rparr>) = (Inr (), ?st)" by simp
  have "\<exists>servers. serve_devices le [Suc i..<length (mDeviceServers (nApp ?st))] ?st =
      (Inr (), (sent_to_all (concat (map (\<lambda>ds. wire host (server_message (rInput (nApp ?st)) ds))
          (drop (Suc i) (mDeviceServers (nApp ?st))))) ?st)\<lparr>nApp := (nApp ?st)\<lparr>mDeviceServers := servers\<rparr>\<rparr>)
    \<and> list_all (server_ok (rInput (nApp ?st))) servers \<and> list_all2 same_server (mDeviceServers (nApp ?st)) servers"
    using Suc.hyps(2) Suc.prems i p(2) by (intro Suc.hyps(1)) (auto simp: list_all_update)
  then obtain servers where servers: "serve_devices le [Suc i..<length (mDeviceServers (nApp st))] ?st =
      (Inr (), (sent_to_all (concat (map (\<lambda>ds. wire host (server_message ?im ds))
          (drop (Suc i) (mDeviceServers (nApp st))))) ?st)\<lparr>nApp := ?w\<lparr>mDeviceServers := servers\<rparr>\<rparr>)"
    "list_all (server_ok ?im) servers" "list_all2 same_server (mDeviceServers ?w) servers"
    by auto
  have "list_all2 same_server (mDeviceServers (nApp st)) (mDeviceServers ?w)"
    using i by (auto simp: list_all2_conv_all_nth nth_list_update) (auto simp: same_server_def)
  then have "list_all2 same_server (mDeviceServers (nApp st)) servers"
    by (rule list_all2_trans [rotated, OF _ servers(3)]) (auto simp: same_server_def)
  moreover have "[i..<length (mDeviceServers (nApp st))] = i # [Suc i..<length (mDeviceServers (nApp st))]"
    using i by (rule upt_conv_Cons)
  moreover have "drop i (mDeviceServers (nApp st)) = ?ds # drop (Suc i) (mDeviceServers (nApp st))"
    using i by (simp add: Cons_nth_drop_Suc)
  ultimately show ?case
    using servers(1,2) p(1) sent by (intro exI [of _ servers]) (simp add: sent_to_all_twice)
qed
section \<open>Receiving\<close>

text \<open>The messages of the plug-in, and what a node makes of one.\<close>

datatype rim_message =
    Announce guid string bool "dev_type list"
  | Frame guid "dev_type list" device_data

fun rim_msg :: "rim_message \<Rightarrow> message" where
  "rim_msg (Announce ident name sim types) = AckMsg rim_guid ident name (getInputTypeName sim types) True"
| "rim_msg (Frame ident types dd) = data_message ident types dd"

definition new_virtual :: "guid \<Rightarrow> string \<Rightarrow> string \<Rightarrow> string \<Rightarrow> dev_type list \<Rightarrow> rim_world \<Rightarrow> rim_world" where
  "new_virtual ident name base hostname types w =
     (let im = rInput w
      in w\<lparr>rInput := addRemoteDevice (Some (length (devs im))) name
             (im\<lparr>devs := devs im @ [device_new [] types placeholder_data]\<rparr>),
           mVirtualDevices := AList.update ident
             \<lparr>vdName = name, vdBaseType = base, vdRemoteHostname = hostname, vdId = ident,
              vdDevice = length (devs im)\<rparr> (mVirtualDevices w)\<rparr>)"

definition set_data :: "nat \<Rightarrow> device_data \<Rightarrow> rim_world \<Rightarrow> rim_world" where
  "set_data d dd w = w\<lparr>rInput := upd_dev d (\<lambda>dev. dev\<lparr>dData := dd\<rparr>) (rInput w)\<rparr>"

fun rim_receive :: "string \<Rightarrow> rim_message \<Rightarrow> rim_world \<Rightarrow> rim_world" where
  "rim_receive host (Announce ident name sim types) w =
     (if getVirtualDevice_name name w = None
      then new_virtual ident name (getInputTypeName sim types) host types w else w)"
| "rim_receive host (Frame ident types dd) w =
     (case getVirtualDevice ident w of
        None \<Rightarrow> w
      | Some d \<Rightarrow> set_data d (received_device 0 types dd (dData (devs (rInput w) ! d))) w)"

text \<open>
  A node's virtual devices: each has a GUID, a name and a device of its own, a placeholder of
  the announced type that is ready to read.
\<close>

definition vd_ok :: "input_manager \<Rightarrow> guid \<times> virtual_device \<Rightarrow> bool" where
  "vd_ok im = (\<lambda>(ident, vd). vdId vd = ident \<and> vdDevice vd < length (devs im)
     \<and> base_createObject (vdBaseType vd) = Some (dTypes (devs im ! vdDevice vd))
     \<and> list_all (type_ready (dData (devs im ! vdDevice vd))) (dTypes (devs im ! vdDevice vd)))"

definition rim_inv :: "rim_world \<Rightarrow> bool" where
  "rim_inv w \<longleftrightarrow> im_inv (rInput w) \<and> distinct (map fst (mVirtualDevices w))
     \<and> distinct (map (\<lambda>(_, vd). vdName vd) (mVirtualDevices w))
     \<and> distinct (map (\<lambda>(_, vd). vdDevice vd) (mVirtualDevices w))
     \<and> list_all (vd_ok (rInput w)) (mVirtualDevices w)"

lemma getVirtualDevice_name_None:
  "getVirtualDevice_name name w = None \<longleftrightarrow> name \<notin> (\<lambda>(_, vd). vdName vd) ` set (mVirtualDevices w)"
  by (auto simp: getVirtualDevice_name_def find_None_iff)

lemma find_new_name:
  assumes "name \<notin> (\<lambda>(_, vd). vdName vd) ` set vds" and "vdName vd = name"
  shows "find (\<lambda>(_, vd). vdName vd = name) (AList.update ident vd vds) = Some (ident, vd)"
  using assms by (induction vds) auto

lemma update_elem: "x \<in> set (AList.update k v m) \<Longrightarrow> x = (k, v) \<or> x \<in> set m"
  by (induction m) (auto split: if_splits)

lemma distinct_update_map:
  assumes "distinct (map f m)" and "f (k, v) \<notin> f ` set m" and "distinct (map fst m)"
  shows "distinct (map f (AList.update k v m))"
  using assms by (induction m) (auto dest: update_elem split: if_splits)

lemma refreshAllProxies_devs:
  assumes "proxies_ok st"
  shows "devs (refreshAllProxies st) = devs st" "mDevTable (refreshAllProxies st) = mDevTable st"
    "mProxyTable (refreshAllProxies st) = mProxyTable st"
    "length (proxies (refreshAllProxies st)) = length (proxies st)"
  using refreshAllProxies_nth [OF assms] by auto

lemma addRemoteDevice_devs:
  assumes "im_inv im"
  shows "devs (addRemoteDevice d name (im\<lparr>devs := ds\<rparr>)) = ds"
    "mDevTable (addRemoteDevice d name (im\<lparr>devs := ds\<rparr>)) = omap_put name d (mDevTable im)"
proof -
  have "proxies_ok (im\<lparr>devs := ds, mDevTable := omap_put name d (mDevTable im)\<rparr>)"
    using assms by (simp add: im_inv_def im_base_def proxies_ok_def)
  from refreshAllProxies_devs [OF this]
  show "devs (addRemoteDevice d name (im\<lparr>devs := ds\<rparr>)) = ds"
    "mDevTable (addRemoteDevice d name (im\<lparr>devs := ds\<rparr>)) = omap_put name d (mDevTable im)"
    by (simp_all add: addRemoteDevice_def)
qed

lemma placeholder_ready: "type_ready placeholder_data t"
  by (cases t) (simp_all add: type_ready_def placeholder_data_def buffer_ready_def sample_buffer_new_def KeyboardMouse_new_def)

lemma new_virtual_inv:
  assumes "rim_inv w" and "base_createObject base = Some types" and "getVirtualDevice_name name w = None"
  shows "rim_inv (new_virtual ident name base hostname types w)"
proof -
  let ?im = "rInput w" and ?w = "new_virtual ident name base hostname types w"
  let ?d = "length (devs ?im)" and ?dev = "device_new [] types placeholder_data"
  have im: "im_inv ?im" using assms(1) by (simp add: rim_inv_def)
  have input: "rInput ?w = addRemoteDevice (Some ?d) name (?im\<lparr>devs := devs ?im @ [?dev]\<rparr>)"
    by (simp add: new_virtual_def Let_def)
  have devs: "devs (rInput ?w) = devs ?im @ [?dev]"
    unfolding input by (rule addRemoteDevice_devs(1) [OF im])
  have inv: "im_inv (rInput ?w)" unfolding input by (rule im_step_inv [OF im im_remote])
  have old: "vd_ok (rInput ?w) x" if "vd_ok ?im x" for x
    using that by (auto simp: vd_ok_def devs nth_append split: prod.splits)
  have new: "list_all (vd_ok (rInput ?w)) (mVirtualDevices ?w)"
    unfolding list_all_iff
  proof
    fix x assume "x \<in> set (mVirtualDevices ?w)"
    then consider "x = (ident, \<lparr>vdName = name, vdBaseType = base, vdRemoteHostname = hostname, vdId = ident, vdDevice = ?d\<rparr>)"
      | "x \<in> set (mVirtualDevices w)"
      by (auto simp: new_virtual_def Let_def dest: update_elem)
    then show "vd_ok (rInput ?w) x"
    proof cases
      case 1
      then show ?thesis
        using assms(2) by (simp add: vd_ok_def devs device_new_def nth_append list_all_iff placeholder_ready)
    qed (use assms(1) in \<open>auto simp: rim_inv_def list_all_iff intro: old\<close>)
  qed
  have "?d \<notin> (\<lambda>(_, vd). vdDevice vd) ` set (mVirtualDevices w)"
    using assms(1) by (auto simp: rim_inv_def list_all_iff vd_ok_def)
  then show ?thesis
    using assms(1,3) inv new
    by (auto simp: rim_inv_def new_virtual_def Let_def distinct_update getVirtualDevice_name_None
        intro!: distinct_update_map)
qed

lemma set_data_devs: "devs (rInput (set_data d dd w)) = (devs (rInput w))[d := (devs (rInput w) ! d)\<lparr>dData := dd\<rparr>]"
  by (simp add: set_data_def upd_dev_def)

lemma set_data_inv:
  assumes "rim_inv w" and "d < length (devs (rInput w)) \<Longrightarrow>
    list_all (type_ready (dData (devs (rInput w) ! d))) (dTypes (devs (rInput w) ! d)) \<Longrightarrow>
    list_all (type_ready dd) (dTypes (devs (rInput w) ! d))"
  shows "rim_inv (set_data d dd w)"
proof -
  have "im_inv (rInput (set_data d dd w))"
    using assms(1) im_step_inv [OF _ im_samples] by (simp add: rim_inv_def set_data_def)
  moreover have "vd_ok (rInput (set_data d dd w)) x" if "vd_ok (rInput w) x" for x
    using that assms(2)
    by (cases x; cases "vdDevice (snd x) = d") (simp_all add: vd_ok_def set_data_devs)
  ultimately show ?thesis using assms(1) by (auto simp: rim_inv_def list_all_iff set_data_def)
qed

lemma getVirtualDevice_ok:
  assumes "rim_inv w" and "getVirtualDevice ident w = Some d"
  shows "d < length (devs (rInput w))" "list_all (type_ready (dData (devs (rInput w) ! d))) (dTypes (devs (rInput w) ! d))"
  using assms by (auto simp: rim_inv_def getVirtualDevice_def list_all_iff vd_ok_def dest!: map_of_SomeD)
text \<open>Any packet the plug-in handles without an exception leaves the virtual devices in order.\<close>

lemma rim_handle_ack:
  assumes p: "mHeader p = Some h" "mPacketType h = RIM_DEVICE_ACK" "mBody p = DeviceAck ident name base hostname True"
  shows "rim_handlePacket le now p k w =
    (if getVirtualDevice_name name w \<noteq> None then (Inr (), w)
     else case base_createObject base of
            None \<Rightarrow> (Inl (AssertionFailed ''BaseTypeFactory returned a NULL input device.''), w)
          | Some types \<Rightarrow> (Inr (), new_virtual ident name base hostname types w))"
proof (cases "getVirtualDevice_name name w")
  case None
  let ?vd = "\<lparr>vdName = name, vdBaseType = base, vdRemoteHostname = hostname, vdId = ident,
    vdDevice = length (devs (rInput w))\<rparr>"
  have "find (\<lambda>(_, vd). vdName vd = name) (AList.update ident ?vd (mVirtualDevices w)) = Some (ident, ?vd)"
    using None by (intro find_new_name) (simp_all add: getVirtualDevice_name_None)
  then show ?thesis
    using p None
    by (cases "base_createObject base")
       (simp_all add: rim_handlePacket_def addVirtualDevice_def Let_def getVirtualDevice_name_def new_virtual_def)
qed (use p in \<open>simp add: rim_handlePacket_def\<close>)

lemma rim_handle_data:
  assumes "mHeader p = Some h" and "mPacketType h = RIM_DATA_PACKET" and "mBody p = DataPacket ident"
  shows "rim_handlePacket le now p k w =
    (case getVirtualDevice ident w of
       None \<Rightarrow> (Inr (), w)
     | Some d \<Rightarrow>
         (case device_readObject le 0 now (dTypes (devs (rInput w) ! d)) (packet_reader p) (dData (devs (rInput w) ! d)) of
            (res, dd) \<Rightarrow> (map_sum id (\<lambda>_. ()) res, set_data d dd w)))"
  using assms
  by (simp add: rim_handlePacket_def rim_defs getDelta_def getAttrib_Uint64_def set_data_def split: option.split prod.split)

text \<open>
  C20. The virtual devices of a node stay in order: whatever packet the plug-in handles without an
  exception, afterwards each virtual device still has a GUID, a name and a device of its own,
  a placeholder of its type whose buffers are ready for the next message, and the input
  manager's invariant holds (each proxy has the device of its name).
\<close>

theorem rim_handlePacket_keeps:
  assumes "rim_inv w" and "rim_handlePacket le now p k w = (Inr u, w')"
  shows "rim_inv w'"
proof -
  obtain h where h: "mHeader p = Some h" "mPacketType h = RIM_DEVICE_ACK \<or> mPacketType h = RIM_DATA_PACKET"
    using assms(2) by (auto simp: rim_handlePacket_def split: option.splits if_splits)
  show ?thesis
  proof (cases "mPacketType h = RIM_DEVICE_ACK")
    case True
    then obtain ident name base hostname where body: "mBody p = DeviceAck ident name base hostname True"
      using assms(2) h(1) by (auto simp: rim_handlePacket_def split: packet_body.splits if_splits)
    show ?thesis
      using assms new_virtual_inv [OF assms(1)]
      unfolding rim_handle_ack [OF h(1) True body]
      by (auto split: if_splits option.splits)
  next
    case False
    then have data: "mPacketType h = RIM_DATA_PACKET" using h(2) by simp
    then obtain ident where body: "mBody p = DataPacket ident"
      using assms(2) h(1) False by (auto simp: rim_handlePacket_def split: packet_body.splits)
    show ?thesis
    proof (cases "getVirtualDevice ident w")
      case None
      then show ?thesis using assms unfolding rim_handle_data [OF h(1) data body] by simp
    next
      case (Some d)
      let ?dev = "devs (rInput w) ! d"
      obtain r dd where dd: "device_readObject le 0 now (dTypes ?dev) (packet_reader p) (dData ?dev) = (Inr r, dd)"
        "w' = set_data d dd w"
        using assms(2) Some unfolding rim_handle_data [OF h(1) data body]
        by (auto simp: map_sum_def split: prod.splits sum.splits)
      show ?thesis
        unfolding dd(2) by (rule set_data_inv [OF assms(1)]) (rule device_readObject_ready [OF dd(1)])
    qed
  qed
qed

section \<open>The plug-in as a client of the network\<close>

text \<open>
  \<open>T\<close> gives the types of the device of each GUID: the master's announcements and data agree
  on them.
\<close>

definition rim_node :: "(guid \<Rightarrow> dev_type list) \<Rightarrow> rim_world \<Rightarrow> bool" where
  "rim_node T w \<longleftrightarrow> rim_inv w
     \<and> list_all (\<lambda>(ident, vd). dTypes (devs (rInput w) ! vdDevice vd) = T ident) (mVirtualDevices w)"

fun rim_ok :: "(guid \<Rightarrow> dev_type list) \<Rightarrow> rim_message \<Rightarrow> bool" where
  "rim_ok T (Announce ident name sim types) \<longleftrightarrow> (sim, types) \<in> set known_devices \<and> T ident = types"
| "rim_ok T (Frame ident types dd) \<longleftrightarrow> list_all (type_ok dd) types \<and> T ident = types"

lemma rim_node_types: "rim_node T w \<Longrightarrow> getVirtualDevice ident w = Some d \<Longrightarrow> dTypes (devs (rInput w) ! d) = T ident"
  by (auto simp: rim_node_def getVirtualDevice_def list_all_iff dest!: map_of_SomeD)

lemma rim_handles:
  assumes node: "rim_node T w" and ok: "rim_ok T m" and recv: "ClusterPacket.received host (rim_msg m) p"
    and h: "mHeader p = Some (message_header host (rim_msg m))"
  shows "rim_handlePacket le now p k w = (Inr (), rim_receive host m w)"
proof (cases m)
  case (Announce ident name sim types)
  then show ?thesis
    using rim_handle_ack [OF h, of ident name "getInputTypeName sim types" host] recv ok
    by (auto simp: message_header_type base_createObject_known)
next
  case (Frame ident types dd)
  have body: "mBody p = DataPacket ident" "remains (packet_reader p) (device_bytes types dd)"
    using recv Frame by (simp_all add: data_message_def)
  have type: "mPacketType (message_header host (rim_msg m)) = RIM_DATA_PACKET"
    using Frame by (simp add: message_header_type data_message_def)
  show ?thesis
  proof (cases "getVirtualDevice ident w")
    case None
    then show ?thesis using Frame by (simp add: rim_handle_data [OF h type body(1)])
  next
    case (Some d)
    have types: "dTypes (devs (rInput w) ! d) = types" using rim_node_types [OF node Some] ok Frame by simp
    have inv: "rim_inv w" using node by (simp add: rim_node_def)
    have ready: "list_all (type_ready (dData (devs (rInput w) ! d))) types"
      using getVirtualDevice_ok(2) [OF inv Some] types by simp
    have "remains (packet_reader p) (device_bytes types dd @ [])" using body(2) by simp
    from device_readObject_returns [OF _ ready this, of le 0 now] show ?thesis
      using ok Frame Some types by (simp add: rim_handle_data [OF h type body(1)])
  qed
qed

lemma rim_receive_node:
  assumes "rim_node T w" and "rim_ok T m"
  shows "rim_node T (rim_receive host m w)"
proof (cases m)
  case (Announce ident name sim types)
  show ?thesis
  proof (cases "getVirtualDevice_name name w")
    case None
    let ?w = "new_virtual ident name (getInputTypeName sim types) host types w"
    have w: "rim_inv w" "im_inv (rInput w)" using assms(1) by (simp_all add: rim_node_def rim_inv_def)
    have "rim_inv ?w"
      using assms(2) Announce None by (intro new_virtual_inv [OF w(1)]) (auto simp: base_createObject_known)
    moreover have "devs (rInput ?w) = devs (rInput w) @ [device_new [] types placeholder_data]"
      by (simp add: new_virtual_def Let_def addRemoteDevice_devs(1) [OF w(2)])
    moreover have "vdDevice vd < length (devs (rInput w))" if "(i, vd) \<in> set (mVirtualDevices w)" for i vd
      using w(1) that by (auto simp: rim_inv_def list_all_iff vd_ok_def)
    ultimately have "rim_node T ?w"
      using assms Announce
      by (auto simp: rim_node_def new_virtual_def Let_def list_all_iff device_new_def nth_append dest!: update_elem)
    then show ?thesis using Announce None by simp
  qed (use assms Announce in simp)
next
  case (Frame ident types dd)
  show ?thesis
  proof (cases "getVirtualDevice ident w")
    case (Some d)
    let ?dd = "received_device 0 types dd (dData (devs (rInput w) ! d))"
    have "rim_inv (set_data d ?dd w)"
      by (rule set_data_inv)
         (use assms Frame in \<open>auto simp: rim_node_def intro: device_ready_received\<close>)
    moreover have "dTypes (devs (rInput (set_data d ?dd w)) ! j) = dTypes (devs (rInput w) ! j)" for j
      by (cases "d < length (devs (rInput w))") (simp_all add: set_data_devs nth_list_update list_update_beyond)
    ultimately show ?thesis using assms(1) Frame Some by (simp add: rim_node_def list_all_iff) (simp add: set_data_def)
  qed (use assms Frame in simp)
qed

interpretation rim: block_handler "rim_handlePacket le now" k host rim_guid rim_msg "rim_ok T" "rim_receive host" "rim_node T"
  for le now k host T
proof
  show "message_plugin (rim_msg m) = Some rim_guid" for m by (cases m) (simp_all add: data_message_def)
qed (rule rim_handles rim_receive_node; assumption)+
section \<open>A frame over the wire\<close>

text \<open>What a remote node shows: the newest sample of each type, and the keys.\<close>

definition same_newest :: "'d sample_buffer \<Rightarrow> 'd sample_buffer \<Rightarrow> bool" where
  "same_newest b b' \<longleftrightarrow> mStableBuffer b = []
     \<or> (mStableBuffer b' \<noteq> [] \<and> last (mStableBuffer b') = last (mStableBuffer b))"

definition mirrors :: "device_data \<Rightarrow> device_data \<Rightarrow> dev_type \<Rightarrow> bool" where
  "mirrors dd dd' t =
     (case t of
        TAnalog \<Rightarrow> same_newest (dAnalog dd) (dAnalog dd')
      | TDigital \<Rightarrow> same_newest (dDigital dd) (dDigital dd')
      | TPosition \<Rightarrow> same_newest (dPosition dd) (dPosition dd')
      | TGlove \<Rightarrow> same_newest (dGlove dd) (dGlove dd')
      | TKeyboardMouse \<Rightarrow> mCurKeys (dKeyboard dd') = mCurKeys (dKeyboard dd)
          \<and> mSyncTime (dKeyboard dd') = mSyncTime (dKeyboard dd)
      | TCommand \<Rightarrow> same_newest (dCommand dd) (dCommand dd')
      | TTextString \<Rightarrow> same_newest (dString dd) (dString dd'))"

lemma shift_0 [simp]: "shift 0 d = d"
  by (cases "mTimeStamp d") (simp add: shift_def)

lemma last_newest: "xs \<noteq> [] \<Longrightarrow> last (newest xs) = last xs"
  unfolding newest_def by (rule last_drop) (simp add: MAX_BUFFER_SIZE_def)

lemma same_newest_received: "same_newest b (received 0 b b')"
proof (cases "mStableBuffer b = []")
  case False
  have id: "map (map (shift 0)) ss = ss" for ss :: "'a input_data list list"
    by (simp add: map_idI)
  have "last (newest (mReadyBuffer b' @ mStableBuffer b)) = last (mStableBuffer b)"
    using False by (simp add: last_newest)
  then show ?thesis using False by (simp add: same_newest_def received_def Let_def id)
qed (simp add: same_newest_def)

lemma mirrors_received: "mirrors dd (received_type 0 dd t dd') t"
  by (cases t) (simp_all add: mirrors_def received_type_def same_newest_received received_keyboard_def)

lemma mirrors_keeps: "mirrors dd dd' t \<Longrightarrow> mirrors dd (received_type 0 dd t' dd') t"
  by (cases t; cases t') (simp_all add: mirrors_def received_type_def same_newest_received received_keyboard_def)

lemma mirrors_fold: "mirrors dd dd' t \<Longrightarrow> mirrors dd (fold (received_type 0 dd) types dd') t"
  by (induction types arbitrary: dd') (simp_all add: mirrors_keeps)

lemma received_device_mirrors: "list_all (mirrors dd (received_device 0 types dd dd')) types"
  unfolding received_device_def
  by (induction types arbitrary: dd') (simp_all add: mirrors_fold mirrors_received)

text \<open>The frames of a block change each virtual device by its own frame.\<close>

lemma receive_frame_vds [simp]: "mVirtualDevices (rim_receive host (Frame ident types dd) w) = mVirtualDevices w"
  by (simp add: set_data_def split: option.split)

lemma receive_frame_dev:
  "devs (rInput (rim_receive host (Frame ident types dd) w)) ! d =
     (if getVirtualDevice ident w = Some d \<and> d < length (devs (rInput w))
      then (devs (rInput w) ! d)\<lparr>dData := received_device 0 types dd (dData (devs (rInput w) ! d))\<rparr>
      else devs (rInput w) ! d)"
  "length (devs (rInput (rim_receive host (Frame ident types dd) w))) = length (devs (rInput w))"
proof -
  have "xs[x := y] ! d = xs ! d" if "x = d \<longrightarrow> \<not> d < length xs" for xs :: "device list" and x y
    using that by (cases "x = d") (auto simp: list_update_beyond)
  then show "devs (rInput (rim_receive host (Frame ident types dd) w)) ! d =
     (if getVirtualDevice ident w = Some d \<and> d < length (devs (rInput w))
      then (devs (rInput w) ! d)\<lparr>dData := received_device 0 types dd (dData (devs (rInput w) ! d))\<rparr>
      else devs (rInput w) ! d)"
    by (auto simp: set_data_devs split: option.split)
  show "length (devs (rInput (rim_receive host (Frame ident types dd) w))) = length (devs (rInput w))"
    by (simp add: set_data_devs split: option.split)
qed

lemma receive_frames_dev:
  assumes "\<And>i i'. getVirtualDevice i w = Some d \<Longrightarrow> getVirtualDevice i' w = Some d \<Longrightarrow> i = i'"
    and "d < length (devs (rInput w))" and "distinct (map fst fs)"
  shows "devs (rInput (fold (rim_receive host) (map (\<lambda>(i, types, dd). Frame i types dd) fs) w)) ! d =
    (case find (\<lambda>x. getVirtualDevice (fst x) w = Some d) fs of
       None \<Rightarrow> devs (rInput w) ! d
     | Some (i, types, dd) \<Rightarrow>
         (devs (rInput w) ! d)\<lparr>dData := received_device 0 types dd (dData (devs (rInput w) ! d))\<rparr>)"
  using assms
proof (induction fs arbitrary: w)
  case (Cons f fs)
  obtain i types dd where f: "f = (i, types, dd)" by (cases f)
  let ?w = "rim_receive host (Frame i types dd) w"
  have gets: "getVirtualDevice i' ?w = getVirtualDevice i' w" for i'
    by (simp only: getVirtualDevice_def receive_frame_vds)
  have IH: "devs (rInput (fold (rim_receive host) (map (\<lambda>(i, types, dd). Frame i types dd) fs) ?w)) ! d =
    (case find (\<lambda>x. getVirtualDevice (fst x) w = Some d) fs of
       None \<Rightarrow> devs (rInput ?w) ! d
     | Some (i, types, dd) \<Rightarrow>
         (devs (rInput ?w) ! d)\<lparr>dData := received_device 0 types dd (dData (devs (rInput ?w) ! d))\<rparr>)"
    using Cons.IH [of ?w] Cons.prems unfolding gets receive_frame_dev(2) by auto
  show ?case
  proof (cases "getVirtualDevice i w = Some d")
    case True
    have "getVirtualDevice (fst x) w \<noteq> Some d" if "x \<in> set fs" for x
      using Cons.prems(1,3) True that f by (metis distinct.simps(2) fst_conv image_eqI image_set list.simps(9))
    then have "find (\<lambda>x. getVirtualDevice (fst x) w = Some d) fs = None"
      by (auto simp: find_None_iff)
    then show ?thesis using IH True Cons.prems(2) f by (simp del: rim_receive.simps add: receive_frame_dev(1))
  next
    case False
    then have "devs (rInput ?w) ! d = devs (rInput w) ! d" by (simp only: receive_frame_dev(1) if_False simp_thms)
    from IH [unfolded this] show ?thesis using False f by (simp del: rim_receive.simps)
  qed
qed simp

lemma getVirtualDevice_inj:
  assumes "rim_inv w" and "getVirtualDevice i w = Some d" and "getVirtualDevice i' w = Some d"
  shows "i = i'"
proof -
  obtain vd vd' where "(i, vd) \<in> set (mVirtualDevices w)" "(i', vd') \<in> set (mVirtualDevices w)"
    "vdDevice vd = d" "vdDevice vd' = d"
    using assms(2,3) by (auto simp: getVirtualDevice_def dest!: map_of_SomeD)
  moreover have "inj_on (\<lambda>(_, vd). vdDevice vd) (set (mVirtualDevices w))"
    using assms(1) by (simp add: rim_inv_def distinct_map)
  ultimately have "(i, vd) = (i', vd')" by (intro inj_onD [of "\<lambda>(_, vd). vdDevice vd"]) auto
  then show ?thesis by simp
qed

definition server_frame :: "input_manager \<Rightarrow> device_server \<Rightarrow> guid \<times> dev_type list \<times> device_data" where
  "server_frame im ds = (dsId ds, dTypes (devs im ! dsDevice ds), dData (devs im ! dsDevice ds))"

text \<open>The messages of a frame of the master's devices.\<close>

definition rim_frame :: "rim_world \<Rightarrow> rim_message list" where
  "rim_frame w = map (\<lambda>(ident, types, dd). Frame ident types dd) (map (server_frame (rInput w)) (mDeviceServers w))"

definition rim_frame_bytes :: "string \<Rightarrow> rim_world \<Rightarrow> u8 list" where
  "rim_frame_bytes host w = concat (map (\<lambda>m. wire host (rim_msg m)) (rim_frame w))"

definition rim_frame_typed :: "(guid \<Rightarrow> dev_type list) \<Rightarrow> rim_world \<Rightarrow> bool" where
  "rim_frame_typed T w \<longleftrightarrow> list_all (server_ok (rInput w)) (mDeviceServers w)
     \<and> list_all (\<lambda>ds. T (dsId ds) = dTypes (devs (rInput w) ! dsDevice ds)) (mDeviceServers w)"

lemma rim_frame_sent:
  assumes "nodes_work st" and "list_all (server_ok (rInput (nApp st))) (mDeviceServers (nApp st))"
  shows "\<exists>servers. rim_postPostFrame le st =
    (Inr (), (sent_to_all (rim_frame_bytes host (nApp st)) st)\<lparr>nApp := (nApp st)\<lparr>mDeviceServers := servers\<rparr>\<rparr>)"
proof -
  have "rim_frame_bytes host (nApp st) = concat (map (\<lambda>ds. wire host (server_message (rInput (nApp st)) ds)) (mDeviceServers (nApp st)))"
    by (simp add: rim_frame_bytes_def rim_frame_def comp_def server_frame_def server_message_def)
  then show ?thesis
    using serve_devices_sends [OF assms, of 0 le host] by (auto simp: rim_postPostFrame_def)
qed

lemma rim_frame_ok:
  assumes "rim_frame_typed T w"
  shows "list_all (rim_ok T) (rim_frame w)" and "\<forall>m \<in> set (rim_frame w). message_ok host (rim_msg m)"
  using assms
  by (auto simp: rim_frame_typed_def rim_frame_def list_all_iff server_frame_def server_ok_def intro: data_message_ok)

lemma rim_frame_shows:
  fixes host :: string and old master :: rim_world
  assumes "rim_frame_typed T master" and "distinct (map dsId (mDeviceServers master))" and "rim_node T old"
  defines "w \<equiv> fold (rim_receive host) (rim_frame master) old"
  shows "rim_node T w \<and> mVirtualDevices w = mVirtualDevices old
    \<and> list_all (\<lambda>ds. pred_option (\<lambda>d.
          list_all (mirrors (dData (devs (rInput master) ! dsDevice ds)) (dData (devs (rInput w) ! d)))
            (dTypes (devs (rInput master) ! dsDevice ds)))
        (getVirtualDevice (dsId ds) w)) (mDeviceServers master)"
proof -
  let ?im = "rInput master" and ?servers = "mDeviceServers master"
  let ?fs = "map (server_frame ?im) ?servers"
  have w: "w = fold (rim_receive host) (map (\<lambda>(ident, types, dd). Frame ident types dd) ?fs) old"
    by (simp add: w_def rim_frame_def)
  have w0: "rim_inv old" using assms(3) by (simp add: rim_node_def)
  have ids: "distinct (map fst ?fs)" using assms(2) by (simp add: comp_def server_frame_def)
  have "mVirtualDevices (fold (rim_receive host) (map (\<lambda>(i, types, dd). Frame i types dd) fs) w) = mVirtualDevices w" for fs w
    by (induction fs arbitrary: w) (auto simp del: rim_receive.simps)
  then have vds: "mVirtualDevices w = mVirtualDevices old" unfolding w .
  have "list_all (mirrors (dData (devs ?im ! dsDevice ds)) (dData (devs (rInput w) ! d))) (dTypes (devs ?im ! dsDevice ds))"
    if ds: "ds \<in> set ?servers" and d: "getVirtualDevice (dsId ds) old = Some d" for ds d
  proof -
    have "find (\<lambda>x. getVirtualDevice (fst x) old = Some d) ?fs = Some (server_frame ?im ds)"
    proof (cases "find (\<lambda>x. getVirtualDevice (fst x) old = Some d) ?fs")
      case None
      then show ?thesis using ds d by (auto simp: find_None_iff server_frame_def)
    next
      case (Some x)
      then have x: "x \<in> set ?fs" "getVirtualDevice (fst x) old = Some d" by (auto simp: find_Some_iff)
      then have "fst x = dsId ds" using getVirtualDevice_inj [OF w0 _ d] by blast
      moreover have "server_frame ?im ds \<in> set ?fs" "fst (server_frame ?im ds) = dsId ds" using ds by (auto simp: server_frame_def)
      ultimately have "x = server_frame ?im ds" using x(1) eq_key_imp_eq_value [OF ids] by (metis prod.collapse)
      then show ?thesis using Some by simp
    qed
    then have "devs (rInput w) ! d = (devs (rInput old) ! d)\<lparr>dData :=
        received_device 0 (dTypes (devs ?im ! dsDevice ds)) (dData (devs ?im ! dsDevice ds)) (dData (devs (rInput old) ! d))\<rparr>"
      using receive_frames_dev [where host = host, OF getVirtualDevice_inj [OF w0] getVirtualDevice_ok(1) [OF w0 d] ids]
      by (simp add: w server_frame_def)
    then show ?thesis by (simp add: received_device_mirrors)
  qed
  then have "list_all (\<lambda>ds. pred_option (\<lambda>d.
      list_all (mirrors (dData (devs ?im ! dsDevice ds)) (dData (devs (rInput w) ! d))) (dTypes (devs ?im ! dsDevice ds)))
      (getVirtualDevice (dsId ds) w)) ?servers"
    by (auto simp: list_all_iff pred_option_def getVirtualDevice_def vds)
  moreover have "rim_node T w"
    unfolding w_def using rim.fold_keeps [OF assms(3) rim_frame_ok(1) [OF assms(1)]] .
  ultimately show ?thesis using vds by blast
qed

text \<open>
  A frame of the master's devices is mirrored.  The master's end of a frame sends, to a node
  that works, the data of every device it serves; a node of any byte order that handles this
  block (and the block's end) handles all of it, and afterwards each virtual device it has for
  one of the devices shows what the device shows on the master: the same newest sample, digital,
  analog, position, glove, command and string, with the same time, and the same keys.
\<close>

theorem remote_frame_mirrors:
  fixes st slave :: "rim_world netmgr"
  defines "servers \<equiv> mDeviceServers (nApp st)" and "master \<equiv> devs (rInput (nApp st))"
  assumes master: "nodes_work st" "list_all (server_ok (rInput (nApp st))) servers" "distinct (map dsId servers)"
    "j \<in> set (mNodes st)" "sent_bytes st j = []"
    and frame: "rim_postPostFrame le st = (res, st')"
    and slave: "rim_node T (nApp slave)" "list_all (\<lambda>ds. T (dsId ds) = dTypes (master ! dsDevice ds)) servers"
    "mHandlerMap slave rim_guid = Some (rim_handlePacket le' now)"
    "isConnected (nHeap slave k)" "\<not> mUpdated (nHeap slave k)" "mSockStream (nHeap slave k) = Some s"
    and net: "sIncoming s = sent_bytes st' j @ wire host (EndMsg f) @ rest"
  shows "res = Inr () \<and> (\<exists>w. update_node le' k slave = (Inr (), finish_node k rest w slave)
    \<and> rim_node T w \<and> mVirtualDevices w = mVirtualDevices (nApp slave)
    \<and> list_all (\<lambda>ds. pred_option (\<lambda>d.
          list_all (mirrors (dData (master ! dsDevice ds)) (dData (devs (rInput w) ! d))) (dTypes (master ! dsDevice ds)))
        (getVirtualDevice (dsId ds) w)) servers)"
proof -
  let ?w = "fold (rim_receive host) (rim_frame (nApp st)) (nApp slave)"
  have typed: "rim_frame_typed T (nApp st)"
    using master(2) slave(2) by (simp add: rim_frame_typed_def servers_def master_def)
  have st': "res = Inr ()" "sent_bytes st' j = rim_frame_bytes host (nApp st)"
    using frame rim_frame_sent [OF master(1) master(2) [unfolded servers_def], of le host]
      sent_bytes_all [OF master(1,4)] master(5) by (auto simp: sent_bytes_def)
  have "update_node le' k slave = (Inr (), finish_node k rest ?w slave)"
    by (rule rim.update_node_block [OF rim_frame_ok [OF typed] slave(1,3-6)])
      (use net st'(2) in \<open>simp add: rim_frame_bytes_def\<close>)
  then show ?thesis
    using st'(1) rim_frame_shows [OF typed master(3) [unfolded servers_def] slave(1), of host]
    unfolding servers_def master_def by blast
qed
section \<open>An announcement over the wire\<close>

lemma generate_until_distinct: "gen n \<noteq> temp \<Longrightarrow> generate_until gen temp n = Some (gen n, Suc n)"
  by (simp add: generate_until.simps)

lemma configureDevice_new:
  assumes "im_inv im" and "createDevice ienv elm = Some (types, dd)" and "startSampling ienv elm" and "ieFullName elm \<noteq> []"
  shows "\<exists>im'. configureDevice ienv elm im = Inr (True, im') \<and> getDevice (ieFullName elm) im' = Some (length (devs im))
    \<and> devs im' = devs im @ [device_new (ieFullName elm) types dd]"
proof -
  let ?dev = "device_new (ieFullName elm) types dd"
  let ?im = "addRemoteDevice (Some (length (devs im))) (ieFullName elm) (im\<lparr>devs := devs im @ [?dev]\<rparr>)"
  have "configureDevice ienv elm im = Inr (True, ?im)"
    using assms(2-4) by (simp add: configureDevice_def addDevice_def addRemoteDevice_def getInstanceName_def device_new_def)
  then show ?thesis
    using addRemoteDevice_devs [OF assms(1)] by (simp add: getDevice_def omap_put_lookup)
qed

lemma new_virtual_appears:
  fixes hostname :: string and ident :: guid
  assumes "rim_inv w" and "base_createObject base = Some types" and "getVirtualDevice_name name w = None"
  defines "w' \<equiv> new_virtual ident name base hostname types w" and "d \<equiv> length (devs (rInput w))"
  shows "getVirtualDevice ident w' = Some d" "getDevice name (rInput w') = Some d" "dTypes (devs (rInput w') ! d) = types"
    and "\<And>n p. (n, p) \<in> set (mProxyTable (rInput w')) \<Longrightarrow> mDeviceName (proxies (rInput w') ! p) = name \<Longrightarrow>
      pType (proxies (rInput w') ! p) \<in> set types \<Longrightarrow> getProxiedInputDevice (proxies (rInput w') ! p) = Some d"
proof -
  have im: "im_inv (rInput w)" using assms(1) by (simp add: rim_inv_def)
  note devs = addRemoteDevice_devs [OF im]
  show "getVirtualDevice ident w' = Some d"
    by (simp add: getVirtualDevice_def w'_def d_def new_virtual_def Let_def update_Some_unfold)
  show dev: "getDevice name (rInput w') = Some d" "dTypes (devs (rInput w') ! d) = types"
    by (simp_all add: w'_def d_def new_virtual_def Let_def getDevice_def devs omap_put_lookup device_new_def)
  fix n p
  assume p: "(n, p) \<in> set (mProxyTable (rInput w'))" "mDeviceName (proxies (rInput w') ! p) = name"
    "pType (proxies (rInput w') ! p) \<in> set types"
  have "rim_inv w'" unfolding w'_def by (rule new_virtual_inv [OF assms(1-3)])
  then have "proxy_fresh (rInput w') (proxies (rInput w') ! p)"
    using p(1) by (auto simp: rim_inv_def im_inv_def proxies_fresh_def)
  from fresh_device [OF this] show "getProxiedInputDevice (proxies (rInput w') ! p) = Some d"
    using p(2,3) dev by (simp add: proxy_target_def)
qed

lemma find_snoc: "find P xs = None \<Longrightarrow> P y \<Longrightarrow> find P (xs @ [y]) = Some y"
  by (induction xs) (auto split: if_splits)

text \<open>The announcement of a new device.\<close>

lemma rim_configAdd_announces:
  fixes st :: "rim_world netmgr" and env :: rim_env
  defines "ident \<equiv> generate env (Suc (rGenerated (nApp st)))"
  assumes env: "clusterActive (inputEnv env)" "clusterMaster (inputEnv env)" "remoteDevice (inputEnv env) elm"
    and dev: "createDevice (inputEnv env) elm = Some (types, dd)" "startSampling (inputEnv env) elm"
      "ieFullName elm = ieName elm" "ieName elm \<noteq> []"
    and gen: "generate env (rGenerated (nApp st)) \<noteq> ident"
    and ok: "message_ok (localHostname env) (rim_msg (Announce ident (ieName elm) (simDevice env elm) types))"
    and master: "im_inv (rInput (nApp st))" "getDeviceServer (ieName elm) (nApp st) = None" "nodes_work st"
  shows "\<exists>w. rim_configAdd le env elm st = Some (Inr True,
        (sent_to_all (wire (localHostname env) (rim_msg (Announce ident (ieName elm) (simDevice env elm) types))) st)\<lparr>nApp := w\<rparr>)
    \<and> (\<exists>ds. getDeviceServer (ieName elm) w = Some ds \<and> dsId ds = ident
          \<and> getDevice (ieName elm) (rInput w) = Some (dsDevice ds))"
proof -
  let ?m = "rim_msg (Announce ident (ieName elm) (simDevice env elm) types)" and ?host = "localHostname env"
  let ?d = "length (devs (rInput (nApp st)))"
  let ?ds = "\<lparr>dsName = ieName elm, dsDevice = ?d, dsId = ident, dsPacket = data_new rim_guid ident\<rparr>"
  obtain im where im: "configureDevice (inputEnv env) elm (rInput (nApp st)) = Inr (True, im)"
    "getDevice (ieName elm) im = Some ?d" "dTypes (devs im ! ?d) = types"
    using configureDevice_new [OF master(1) dev(1,2)] dev(3,4) by (auto simp: device_new_def)
  let ?w = "(nApp st)\<lparr>rInput := im, mDeviceServers := mDeviceServers (nApp st) @ [?ds],
    rGenerated := Suc (Suc (rGenerated (nApp st)))\<rparr>"
  have add: "addDeviceServer env (ieName elm) ?d ((nApp st)\<lparr>rInput := im\<rparr>) = Some ?w"
    using gen by (simp add: addDeviceServer_def DeviceServer_new_def ident_def generate_until_distinct)
  have server: "getDeviceServer (ieName elm) ?w = Some ?ds"
    using master(2) by (simp add: getDeviceServer_def find_snoc)
  obtain p where p: "make_packet le ?host ?m = Inr p" "mData p = wire ?host ?m" "mHeader p = Some (message_header ?host ?m)"
    using make_packet_wire [OF ok] by blast
  have "sendToAll p (st\<lparr>nApp := ?w\<rparr>) = (Inr (), (sent_to_all (wire ?host ?m) st)\<lparr>nApp := ?w\<rparr>)"
    using sendToAll_wire [OF p(2,3) ok, of "st\<lparr>nApp := ?w\<rparr>"] master(3) by simp
  then show ?thesis
    using env im add server p(1) by (intro exI [of _ ?w]) (simp add: rim_configAdd_def Let_def)
qed
text \<open>
  C19. A device the master configures appears on the other nodes.  Once the master has configured
  the element of a device it can start, it serves the device under a fresh GUID and has
  announced it to every node; a node that handles the announcement has a virtual device with
  that GUID and with the device's types, has entered it in its input manager under the
  device's name, and each of its proxies for that name and one of the types now points to it.
\<close>

theorem announced_device_appears:
  fixes st slave :: "rim_world netmgr" and env :: rim_env
  defines "ident \<equiv> generate env (Suc (rGenerated (nApp st)))"
  assumes env: "clusterActive (inputEnv env)" "clusterMaster (inputEnv env)" "remoteDevice (inputEnv env) elm"
    and dev: "createDevice (inputEnv env) elm = Some (types, dd)" "startSampling (inputEnv env) elm"
      "ieFullName elm = ieName elm" "ieName elm \<noteq> []" "(simDevice env elm, types) \<in> set known_devices"
    and gen: "generate env (rGenerated (nApp st)) \<noteq> ident"
    and ok: "message_ok (localHostname env) (rim_msg (Announce ident (ieName elm) (simDevice env elm) types))"
    and master: "im_inv (rInput (nApp st))" "getDeviceServer (ieName elm) (nApp st) = None" "nodes_work st"
      "j \<in> set (mNodes st)" "sent_bytes st j = []"
    and configured: "rim_configAdd le env elm st = Some (res, st')"
    and slave: "rim_node T (nApp slave)" "T ident = types" "getVirtualDevice_name (ieName elm) (nApp slave) = None"
      "mHandlerMap slave rim_guid = Some (rim_handlePacket le' now)"
      "isConnected (nHeap slave k)" "\<not> mUpdated (nHeap slave k)" "mSockStream (nHeap slave k) = Some s"
    and net: "sIncoming s = sent_bytes st' j @ wire (localHostname env) (EndMsg f) @ rest"
  shows "res = Inr True
    \<and> (\<exists>ds. getDeviceServer (ieName elm) (nApp st') = Some ds \<and> dsId ds = ident
          \<and> getDevice (ieName elm) (rInput (nApp st')) = Some (dsDevice ds))
    \<and> (\<exists>w d. update_node le' k slave = (Inr (), finish_node k rest w slave) \<and> rim_node T w
          \<and> getVirtualDevice ident w = Some d \<and> getDevice (ieName elm) (rInput w) = Some d
          \<and> dTypes (devs (rInput w) ! d) = types
          \<and> (\<forall>n p. (n, p) \<in> set (mProxyTable (rInput w)) \<longrightarrow> mDeviceName (proxies (rInput w) ! p) = ieName elm
               \<longrightarrow> pType (proxies (rInput w) ! p) \<in> set types
               \<longrightarrow> getProxiedInputDevice (proxies (rInput w) ! p) = Some d))"
proof -
  let ?m = "Announce ident (ieName elm) (simDevice env elm) types" and ?host = "localHostname env"
  let ?w = "rim_receive ?host ?m (nApp slave)"
  obtain v where v: "rim_configAdd le env elm st = Some (Inr True, (sent_to_all (wire ?host (rim_msg ?m)) st)\<lparr>nApp := v\<rparr>)"
    "\<exists>ds. getDeviceServer (ieName elm) v = Some ds \<and> dsId ds = ident \<and> getDevice (ieName elm) (rInput v) = Some (dsDevice ds)"
    using rim_configAdd_announces [OF env dev(1-4) gen [unfolded ident_def] ok [unfolded ident_def] master(1-3), of le]
    unfolding ident_def by blast
  then have st': "res = Inr True" "nApp st' = v" "sent_bytes st' j = wire ?host (rim_msg ?m)"
    using configured sent_bytes_all [OF master(3,4), of "wire ?host (rim_msg ?m)"] master(5)
    by (auto simp: sent_bytes_def)
  have rim_ok: "list_all (rim_ok T) [?m]" using dev(5) slave(2) by simp
  have oks: "\<forall>m \<in> set [?m]. message_ok ?host (rim_msg m)"
    using ok by (simp del: rim_msg.simps message_ok.simps)
  have goes: "update_node le' k slave = (Inr (), finish_node k rest (fold (rim_receive ?host) [?m] (nApp slave)) slave)"
    by (rule rim.update_node_block [OF rim_ok oks slave(1,4-7)]) (use net st'(3) in simp)
  have inv: "rim_inv (nApp slave)" "base_createObject (getInputTypeName (simDevice env elm) types) = Some types"
    using slave(1) dev(5) by (simp_all add: rim_node_def base_createObject_known)
  have w: "?w = new_virtual ident (ieName elm) (getInputTypeName (simDevice env elm) types) ?host types (nApp slave)"
    using slave(3) by simp
  show ?thesis
    using st'(1,2) v(2) goes rim.fold_keeps [where host = ?host, OF slave(1) rim_ok] w
      new_virtual_appears [where ident = ident and hostname = ?host, OF inv slave(3)]
    by (simp del: rim_receive.simps) blast
qed

section \<open>A wand in a cluster of two\<close>

definition wand_env :: rim_env where
  "wand_env = \<lparr>inputEnv = \<lparr>clusterActive = True, clusterMaster = True, remoteDevice = (\<lambda>_. True),
       activeElement = (\<lambda>_. True), createDevice = (\<lambda>_. Some ([TDigital, TAnalog], example_wand)),
       startSampling = (\<lambda>_. True), loadDrivers = (\<lambda>_. None), loggerConfig = (\<lambda>_. True),
       driver = (\<lambda>d st. dData (devs st ! d)), debugOutput = False\<rparr>,
     localHostname = ''m'',
     generate = (\<lambda>n. \<lparr>g_m0 = of_nat n, g_m1 = 0, g_m2 = 0, g_m3 = 0, g_m4 = 0, g_m5 = [0, 0, 0, 0, 0, 0]\<rparr>),
     simDevice = (\<lambda>_. False)\<rparr>"

definition wand_element :: input_element where
  "wand_element = \<lparr>ieID = ''wand'', ieName = ''W'', ieFullName = ''W'', ieDevice = [], ieUnit = 0, ieProxy = [],
     ieKeyboard = [], ieInputDevice = True\<rparr>"

definition rim_world_new :: rim_world where
  "rim_world_new = \<lparr>rInput = InputManager_new [], mVirtualDevices = [], mDeviceServers = [], rGenerated = 0\<rparr>"

definition node_with :: "u8 list \<Rightarrow> rim_world \<Rightarrow> rim_world netmgr" where
  "node_with incoming w =
     \<lparr>nHeap = (\<lambda>_. (node_new ''n'' ''n'' 7000 (Some \<lparr>sHandle = 7, sIncoming = incoming, sOutgoing = [],
        sBroken = False\<rparr>))\<lparr>mStatus := CONNECTED\<rparr>),
      nNext = 1, mNodes = [0], mHandlerMap = [rim_guid \<mapsto> rim_handlePacket False (Interval 0)],
      mReactor = \<lparr>mSelector = [7], mDemuxTable = [7 \<mapsto> 0]\<rparr>, nApp = w\<rparr>"

lemma node_with_simps [simp]:
  "nApp (node_with bs w) = w" "mNodes (node_with bs w) = [0]" "nodes_work (node_with bs w)"
  "sent_bytes (node_with bs w) 0 = []" "isConnected (nHeap (node_with bs w) 0)" "\<not> mUpdated (nHeap (node_with bs w) 0)"
  "mHandlerMap (node_with bs w) rim_guid = Some (rim_handlePacket False (Interval 0))"
  "mSockStream (nHeap (node_with bs w) 0) = Some \<lparr>sHandle = 7, sIncoming = bs, sOutgoing = [], sBroken = False\<rparr>"
  by (simp_all add: node_with_def nodes_work_def works_def sent_bytes_def isConnected_def node_new_def)

lemma rim_world_new_node: "rim_node T rim_world_new"
  by (simp add: rim_node_def rim_inv_def rim_world_new_def im_new_inv)

definition wand_guid :: guid where
  "wand_guid = generate wand_env 1"

lemma wand_guid_ok [simp]: "guid_ok wand_guid"
  by (simp add: wand_guid_def wand_env_def guid_ok_def)

theorem rim_handlePacket_keeps_witness:
  "\<exists>w'. rim_handlePacket False (Interval 0)
        ((packet_new rim_guid (DeviceAck wand_guid ''W'' (getInputTypeName False [TDigital, TAnalog]) ''m'' True))\<lparr>mHeader :=
           Some (header_new RIM_PACKET RIM_DEVICE_ACK 12 0)\<rparr>) 0 rim_world_new = (Inr (), w')
     \<and> rim_inv w' \<and> getVirtualDevice wand_guid w' = Some 0"
proof -
  let ?base = "getInputTypeName False [TDigital, TAnalog]"
  let ?p = "(packet_new rim_guid (DeviceAck wand_guid ''W'' ?base ''m'' True))\<lparr>mHeader :=
    Some (header_new RIM_PACKET RIM_DEVICE_ACK 12 0)\<rparr>"
  have known: "base_createObject ?base = Some [TDigital, TAnalog]"
    by (rule base_createObject_known) (simp add: known_devices_def)
  have inv: "rim_inv rim_world_new" using rim_world_new_node [of "\<lambda>_. []"] by (simp add: rim_node_def)
  have "rim_handlePacket False (Interval 0) ?p 0 rim_world_new
      = (Inr (), new_virtual wand_guid ''W'' ?base ''m'' [TDigital, TAnalog] rim_world_new)"
    using rim_handle_ack [of ?p _ wand_guid "''W''" ?base "''m''" False "Interval 0" 0 rim_world_new] known
    by (simp add: packet_new_def header_new_def getVirtualDevice_name_def rim_world_new_def)
  with rim_handlePacket_keeps [OF inv this] show ?thesis
    by (auto simp: new_virtual_def Let_def getVirtualDevice_def rim_world_new_def InputManager_new_def)
qed

theorem announced_device_appears_witness:
  "\<exists>st' w d. rim_configAdd True wand_env wand_element (node_with [] rim_world_new) = Some (Inr True, st')
     \<and> update_node False 0 (node_with (sent_bytes st' 0 @ wire ''m'' (EndMsg 3)) rim_world_new)
         = (Inr (), finish_node 0 [] w (node_with (sent_bytes st' 0 @ wire ''m'' (EndMsg 3)) rim_world_new))
     \<and> getVirtualDevice wand_guid w = Some d \<and> getDevice ''W'' (rInput w) = Some d
     \<and> dTypes (devs (rInput w) ! d) = [TDigital, TAnalog]"
proof -
  let ?st = "node_with [] rim_world_new"
  note [simp] = wand_env_def wand_element_def rim_world_new_def
  have ok: "message_ok (localHostname wand_env) (rim_msg (Announce wand_guid (ieName wand_element) (simDevice wand_env wand_element) [TDigital, TAnalog]))"
    by (simp add: getInputTypeName_def type_name_def)
  have known: "(False, [TDigital, TAnalog]) \<in> set known_devices" by (simp add: known_devices_def)
  obtain w where "rim_configAdd True wand_env wand_element ?st = Some (Inr True,
      (sent_to_all (wire (localHostname wand_env) (rim_msg (Announce (generate wand_env (Suc (rGenerated (nApp ?st))))
         (ieName wand_element) (simDevice wand_env wand_element) [TDigital, TAnalog]))) ?st)\<lparr>nApp := w\<rparr>)"
    using rim_configAdd_announces [of wand_env wand_element "[TDigital, TAnalog]" example_wand ?st True] ok
    by (auto simp: wand_guid_def im_new_inv getDeviceServer_def simp del: rim_msg.simps)
  then obtain res st' where conf: "rim_configAdd True wand_env wand_element ?st = Some (res, st')" by blast
  let ?slave = "node_with (sent_bytes st' 0 @ wire ''m'' (EndMsg 3)) rim_world_new"
  show ?thesis
    using announced_device_appears [where env = wand_env and elm = wand_element and types = "[TDigital, TAnalog]"
        and dd = example_wand and st = ?st and le = True and res = res and st' = st' and j = 0
        and T = "\<lambda>_. [TDigital, TAnalog]" and slave = ?slave and k = 0 and le' = False and now = "Interval 0"
        and f = 3 and rest = "[]" and s = "\<lparr>sHandle = 7, sIncoming = sent_bytes st' 0 @ wire ''m'' (EndMsg 3), sOutgoing = [], sBroken = False\<rparr>"]
      conf ok known rim_world_new_node
    by (auto simp: im_new_inv getDeviceServer_def getVirtualDevice_name_def wand_guid_def simp del: rim_msg.simps)
qed

definition wand_master :: rim_world where
  "wand_master = rim_world_new\<lparr>rInput := (InputManager_new [])\<lparr>devs := [device_new ''W'' [TDigital, TAnalog] example_wand]\<rparr>,
     mDeviceServers := [\<lparr>dsName = ''W'', dsDevice = 0, dsId = wand_guid, dsPacket = data_new rim_guid wand_guid\<rparr>]\<rparr>"

definition wand_remote :: rim_world where
  "wand_remote = rim_receive ''m'' (Announce wand_guid ''W'' False [TDigital, TAnalog]) rim_world_new"

theorem remote_frame_mirrors_witness:
  "\<exists>st' w d. rim_postPostFrame True (node_with [] wand_master) = (Inr (), st')
     \<and> update_node False 0 (node_with (sent_bytes st' 0 @ wire ''m'' (EndMsg 3)) wand_remote)
         = (Inr (), finish_node 0 [] w (node_with (sent_bytes st' 0 @ wire ''m'' (EndMsg 3)) wand_remote))
     \<and> getVirtualDevice wand_guid w = Some d
     \<and> last (mStableBuffer (dDigital (dData (devs (rInput w) ! d)))) =
         [\<lparr>dValue = 1, mTimeStamp = Interval 6\<rparr>, \<lparr>dValue = 1, mTimeStamp = Interval 6\<rparr>]"
proof -
  let ?st = "node_with [] wand_master" and ?T = "\<lambda>_ :: guid. [TDigital, TAnalog]"
  obtain res st' where frame: "rim_postPostFrame True ?st = (res, st')" by (cases "rim_postPostFrame True ?st")
  let ?in = "sent_bytes st' 0 @ wire ''m'' (EndMsg 3)"
  let ?slave = "node_with ?in wand_remote"
  have wand: "rInput wand_master = (InputManager_new [])\<lparr>devs := [device_new ''W'' [TDigital, TAnalog] example_wand]\<rparr>"
    "mDeviceServers wand_master = [\<lparr>dsName = ''W'', dsDevice = 0, dsId = wand_guid, dsPacket = data_new rim_guid wand_guid\<rparr>]"
    by (simp_all add: wand_master_def)
  have "list_all (server_ok (rInput wand_master)) (mDeviceServers wand_master)"
    using example_wand_ok by (simp add: wand server_ok_def device_new_def data_packet_new)
  moreover have "(False, [TDigital, TAnalog]) \<in> set known_devices" by (simp add: known_devices_def)
  then have node: "rim_node ?T wand_remote"
    unfolding wand_remote_def by (intro rim_receive_node rim_world_new_node) simp
  ultimately have mirror: "res = Inr () \<and> (\<exists>w. update_node False 0 ?slave = (Inr (), finish_node 0 [] w ?slave)
      \<and> rim_node ?T w \<and> mVirtualDevices w = mVirtualDevices wand_remote
      \<and> list_all (\<lambda>ds. pred_option (\<lambda>d. list_all (mirrors (dData (devs (rInput wand_master) ! dsDevice ds))
            (dData (devs (rInput w) ! d))) (dTypes (devs (rInput wand_master) ! dsDevice ds)))
          (getVirtualDevice (dsId ds) w)) (mDeviceServers wand_master))"
    using remote_frame_mirrors [where st = ?st and j = 0 and le = True and res = res and st' = st' and T = ?T
        and slave = ?slave and le' = False and now = "Interval 0" and k = 0 and host = "''m''" and f = 3 and rest = "[]"
        and s = "\<lparr>sHandle = 7, sIncoming = ?in, sOutgoing = [], sBroken = False\<rparr>"] frame
    by (simp add: wand device_new_def)
  have "getVirtualDevice wand_guid wand_remote = Some 0"
    by (simp add: wand_remote_def rim_world_new_def getVirtualDevice_name_def getVirtualDevice_def new_virtual_def
        Let_def InputManager_new_def)
  then show ?thesis
    using mirror frame
    by (auto simp: wand device_new_def getVirtualDevice_def mirrors_def same_newest_def example_wand_def
        placeholder_data_def sample_buffer_new_def)
qed

end
