(* ===== verification/ClusterApp.thy ===== *)
theory ClusterApp
  imports ClusterBlock "HOL-Library.AList"
begin

text \<open>
  Data an application shares between the nodes of a cluster
  (\<^verbatim>\<open>modules/gadgeteer/plugins/ApplicationDataManager/\<close>) and the barriers its nodes wait at
  (\<^verbatim>\<open>modules/gadgeteer/plugins/ApplicationBarrierManager/\<close>).

  Every node registers its object under the same GUID; before each draw the master sends the
  objects' values, and the other nodes read them into theirs.  What a value is, and its
  \<^verbatim>\<open>writeObject\<close> and \<^verbatim>\<open>readObject\<close>, is the application's: the arguments \<open>wr\<close> and \<open>rd\<close>, with
  the contract \<open>object_codec\<close>.  Objects are shared by pointer, an index of \<open>aObjects\<close>.  The
  hash maps are association lists.
\<close>

section \<open>Shared objects\<close>

record 'v app_object =
  adId :: guid
  adLocal :: bool
  adValue :: 'v
  adAlive :: bool

record app_server =
  asObject :: nat
  asPacket :: packet

record 'v app_world =
  aObjects :: "'v app_object list"
  mObjects :: "(guid \<times> nat) list"
  mServers :: "(guid \<times> app_server) list"
  mActive :: bool

definition app_world_new :: "'v app_world" where
  "app_world_new = \<lparr>aObjects = [], mObjects = [], mServers = [], mActive = False\<rparr>"

definition app_guid :: guid where
  "app_guid = \<lparr>g_m0 = 0xcc6ca39f, g_m1 = 0x03f2, g_m2 = 0x4779, g_m3 = 0xaa, g_m4 = 0x4b,
     g_m5 = [0x04, 0x8f, 0x77, 0x4f, 0xf9, 0xa5]\<rparr>"

lemma app_guid_value: "guid_fromString ''cc6ca39f-03f2-4779-aa4b-048f774ff9a5'' = Inr app_guid"
  by (simp add: app_guid_def guid_fromString_def scan_num_plain is_space_def hex_value_def hex_digits_step)

lemma app_guid_ok [simp]: "guid_ok app_guid"
  by (simp add: guid_ok_def app_guid_def)

definition upd_object :: "nat \<Rightarrow> ('v app_object \<Rightarrow> 'v app_object) \<Rightarrow> 'v app_world \<Rightarrow> 'v app_world" where
  "upd_object p f w = w\<lparr>aObjects := (aObjects w)[p := f (aObjects w ! p)]\<rparr>"

definition addSerializableObject :: "bool \<Rightarrow> nat \<Rightarrow> 'v app_world \<Rightarrow> 'v app_world" where
  "addSerializableObject master p w =
     (let ident = adId (aObjects w ! p);
          w = w\<lparr>mObjects := AList.update ident p (mObjects w)\<rparr>;
          w = upd_object p (\<lambda>ob. ob\<lparr>adLocal := master\<rparr>) w;
          w = (if master
               then w\<lparr>mServers := AList.update ident \<lparr>asObject = p, asPacket = data_new app_guid ident\<rparr> (mServers w)\<rparr>
               else w)
      in w\<lparr>mActive := True\<rparr>)"

text \<open>\<^verbatim>\<open>ApplicationData::init\<close>; \<open>loaded\<close> tells whether the cluster manager has the plug-in.\<close>

definition app_data_init :: "bool \<Rightarrow> bool \<Rightarrow> guid \<Rightarrow> nat \<Rightarrow> 'v app_world \<Rightarrow> 'v app_world" where
  "app_data_init loaded master guid p w =
     (let w = upd_object p (\<lambda>ob. ob\<lparr>adId := guid\<rparr>) w
      in if loaded then addSerializableObject master p w else upd_object p (\<lambda>ob. ob\<lparr>adLocal := True\<rparr>) w)"

text \<open>\<^verbatim>\<open>UserData::init\<close> makes the object; its destructor frees it, and tells nobody.\<close>

definition user_data_init :: "bool \<Rightarrow> bool \<Rightarrow> guid \<Rightarrow> 'v \<Rightarrow> 'v app_world \<Rightarrow> nat \<times> 'v app_world" where
  "user_data_init loaded master guid v w =
     (let p = length (aObjects w);
          w = w\<lparr>aObjects := aObjects w @ [\<lparr>adId = NullGUID, adLocal = False, adValue = v, adAlive = True\<rparr>]\<rparr>
      in (p, app_data_init loaded master guid p w))"

definition user_data_destroy :: "nat \<Rightarrow> 'v app_world \<Rightarrow> 'v app_world" where
  "user_data_destroy p w = upd_object p (\<lambda>ob. ob\<lparr>adAlive := False\<rparr>) w"

definition user_data_isLocal :: "nat \<Rightarrow> 'v app_world \<Rightarrow> bool" where
  "user_data_isLocal p w = adLocal (aObjects w ! p)"

definition freed_object :: failure where
  "freed_object = Undefined ''use of a freed object''"

definition getApplicationData :: "guid \<Rightarrow> 'v app_world \<Rightarrow> nat option" where
  "getApplicationData ident w = map_of (mObjects w) ident"

section \<open>The plug-in's frame\<close>

definition app_serialize :: "bool \<Rightarrow> ('v \<Rightarrow> writer \<Rightarrow> writer result) \<Rightarrow> 'v app_world \<Rightarrow> guid \<Rightarrow> app_server
    \<Rightarrow> app_server result" where
  "app_serialize le wr w ident server =
     (let ob = aObjects w ! asObject server
      in rbind (require (adAlive ob) freed_object) (\<lambda>_.
         rbind (data_serialize le ident (wr (adValue ob)) (asPacket server)) (\<lambda>p.
         Inr (server\<lparr>asPacket := p\<rparr>))))"

fun serialize_and_send :: "bool \<Rightarrow> ('v \<Rightarrow> writer \<Rightarrow> writer result) \<Rightarrow> guid list \<Rightarrow> 'v app_world netmgr
    \<Rightarrow> unit result \<times> 'v app_world netmgr" where
  "serialize_and_send le wr [] st = (Inr (), st)"
| "serialize_and_send le wr (ident # idents) st =
     (case app_serialize le wr (nApp st) ident (the (map_of (mServers (nApp st)) ident)) of
        Inl e \<Rightarrow> (Inl e, st)
      | Inr server \<Rightarrow>
          (case sendToAll (asPacket server)
                  (st\<lparr>nApp := (nApp st)\<lparr>mServers := AList.update ident server (mServers (nApp st))\<rparr>\<rparr>) of
             (Inl e, st) \<Rightarrow> (Inl e, st)
           | (Inr _, st) \<Rightarrow> serialize_and_send le wr idents st))"

definition app_preDraw :: "bool \<Rightarrow> bool \<Rightarrow> ('v \<Rightarrow> writer \<Rightarrow> writer result) \<Rightarrow> 'v app_world netmgr
    \<Rightarrow> unit result \<times> 'v app_world netmgr" where
  "app_preDraw le master wr st =
     (if master then serialize_and_send le wr (map fst (mServers (nApp st))) st else (Inr (), st))"

definition app_handlePacket :: "(reader \<Rightarrow> 'v \<Rightarrow> reader result \<times> 'v) \<Rightarrow> 'v app_world packet_handler" where
  "app_handlePacket rd packet node w =
     (case mHeader packet of
        None \<Rightarrow> (Inl (Undefined ''null header''), w)
      | Some h \<Rightarrow>
          if mPacketType h = RIM_DATA_PACKET
          then case mBody packet of
                 DataPacket objectId \<Rightarrow>
                   (case getApplicationData objectId w of
                      None \<Rightarrow> (Inr (), w)
                    | Some p \<Rightarrow>
                        if \<not> adAlive (aObjects w ! p) then (Inl freed_object, w)
                        else let (res, v) = rd (packet_reader packet) (adValue (aObjects w ! p))
                             in (map_sum id (\<lambda>_. ()) res, upd_object p (\<lambda>ob. ob\<lparr>adValue := v\<rparr>) w))
               | _ \<Rightarrow> (Inl (AssertionFailed ''Dynamic cast failed!''), w)
          else (Inr (), w))"

section \<open>What a shared type promises\<close>

locale object_codec =
  fixes wr :: "'v \<Rightarrow> writer \<Rightarrow> writer result"
    and rd :: "reader \<Rightarrow> 'v \<Rightarrow> reader result \<times> 'v"
    and enc :: "'v \<Rightarrow> u8 list"
    and ok :: "'v \<Rightarrow> bool"
  assumes wr_emits: "ok v \<Longrightarrow> wr v w = Inr (emit (enc v) w)"
    and rd_returns: "ok v \<Longrightarrow> remains r (enc v @ bs) \<Longrightarrow> rd r v' = (Inr (advance (length (enc v)) r), v)"

text \<open>The \<^verbatim>\<open>readObject\<close> of a type that assigns its value only once it is read.\<close>

definition read_whole :: "(reader \<Rightarrow> ('v \<times> reader) result) \<Rightarrow> reader \<Rightarrow> 'v \<Rightarrow> reader result \<times> 'v" where
  "read_whole rd r v = (case rd r of Inl e \<Rightarrow> (Inl e, v) | Inr (v', r') \<Rightarrow> (Inr r', v'))"
text \<open>Objects' values travel in data packets; \<open>app_receive\<close> is what a node makes of one.\<close>

definition value_message :: "('v \<Rightarrow> u8 list) \<Rightarrow> guid \<times> 'v \<Rightarrow> message" where
  "value_message enc = (\<lambda>(ident, v). DataMsg app_guid ident (map SUint8 (enc v)))"

definition app_receive :: "guid \<times> 'v \<Rightarrow> 'v app_world \<Rightarrow> 'v app_world" where
  "app_receive = (\<lambda>(ident, v) w.
     case getApplicationData ident w of None \<Rightarrow> w | Some p \<Rightarrow> upd_object p (\<lambda>ob. ob\<lparr>adValue := v\<rparr>) w)"

text \<open>A node's registered objects: of its own, and not yet freed.\<close>

definition app_inv :: "'v app_world \<Rightarrow> bool" where
  "app_inv w \<longleftrightarrow> distinct (map fst (mObjects w)) \<and> distinct (map snd (mObjects w))
     \<and> list_all (\<lambda>(ident, p). p < length (aObjects w) \<and> adId (aObjects w ! p) = ident \<and> adAlive (aObjects w ! p)) (mObjects w)"

lemma upd_object_objects [simp]:
  "mObjects (upd_object p f w) = mObjects w" "mServers (upd_object p f w) = mServers w"
  "length (aObjects (upd_object p f w)) = length (aObjects w)"
  by (simp_all add: upd_object_def)

lemma upd_object_nth:
  "aObjects (upd_object p f w) ! q = (if q = p \<and> p < length (aObjects w) then f (aObjects w ! p) else aObjects w ! q)"
  by (cases "p < length (aObjects w)") (auto simp: upd_object_def nth_list_update list_update_beyond)

lemma getApplicationData_alive:
  "app_inv w \<Longrightarrow> getApplicationData ident w = Some p \<Longrightarrow> p < length (aObjects w) \<and> adAlive (aObjects w ! p)"
  by (auto simp: app_inv_def getApplicationData_def list_all_iff dest!: map_of_SomeD)

lemma app_inv_value: "app_inv w \<Longrightarrow> app_inv (upd_object p (\<lambda>ob. ob\<lparr>adValue := v\<rparr>) w)"
  by (auto simp: app_inv_def list_all_iff upd_object_nth)

lemma app_receive_inv: "app_inv w \<Longrightarrow> app_inv (app_receive m w)"
  by (auto simp: app_receive_def app_inv_value split: prod.split option.split)

lemma app_receive_objects [simp]: "mObjects (app_receive m w) = mObjects w"
  by (simp add: app_receive_def split: prod.split option.split)

sublocale object_codec \<subseteq> app: block_handler "app_handlePacket rd" k host app_guid "value_message enc" "\<lambda>(ident, v). ok v"
    app_receive app_inv
  for k host
proof
  show "message_plugin (value_message enc m) = Some app_guid" for m by (cases m) (simp add: value_message_def)
  show "app_inv (app_receive m w)" if "app_inv w" for m w using that by (rule app_receive_inv)
  fix w :: "'v app_world" and m p
  assume inv: "app_inv w" and ok: "case m of (ident, v) \<Rightarrow> ok v"
    and recv: "received host (value_message enc m) p" and h: "mHeader p = Some (message_header host (value_message enc m))"
  obtain ident v where m: "m = (ident, v)" by (cases m)
  have body: "mBody p = DataPacket ident" "remains (packet_reader p) (enc v @ [])"
    using recv m by (simp_all add: value_message_def)
  have type: "mPacketType (message_header host (value_message enc m)) = RIM_DATA_PACKET"
    using m by (simp add: message_header_type value_message_def)
  show "app_handlePacket rd p k w = (Inr (), app_receive m w)"
    using h type body(1) rd_returns [OF _ body(2)] ok m getApplicationData_alive [OF inv]
    by (auto simp: app_handlePacket_def app_receive_def split: option.split)
qed

interpretation guid_object: object_codec "\<lambda>g w. Inr (guid_writeObject le_w g w)" "read_whole (guid_readObject le_r)"
    guid_bytes guid_ok
  for le_w le_r
  by unfold_locales (simp_all add: guid_write_emits read_whole_def guid_read_returns)

section \<open>A frame of shared data\<close>

definition app_server_ok :: "('v \<Rightarrow> u8 list) \<Rightarrow> ('v \<Rightarrow> bool) \<Rightarrow> 'v app_world \<Rightarrow> guid \<times> app_server \<Rightarrow> bool" where
  "app_server_ok enc ok w = (\<lambda>(ident, server). guid_ok ident \<and> data_packet_ok app_guid (asPacket server)
     \<and> adAlive (aObjects w ! asObject server) \<and> ok (adValue (aObjects w ! asObject server))
     \<and> length (enc (adValue (aObjects w ! asObject server))) + 44 < 2 ^ 32)"

definition served :: "'v app_world \<Rightarrow> guid \<times> app_server \<Rightarrow> guid \<times> 'v" where
  "served w = (\<lambda>(ident, server). (ident, adValue (aObjects w ! asObject server)))"

lemma value_message_ok:
  "guid_ok ident \<Longrightarrow> length (enc v) + 44 < 2 ^ 32 \<Longrightarrow> message_ok host (value_message enc (ident, v))"
  by (auto simp: value_message_def)

context object_codec begin

lemma app_serialize_message:
  assumes "app_server_ok enc ok w (ident, server)"
  shows "\<exists>p. app_serialize le wr w ident server = Inr (server\<lparr>asPacket := p\<rparr>)
    \<and> app_server_ok enc ok w (ident, server\<lparr>asPacket := p\<rparr>)
    \<and> mData p = wire host (value_message enc (served w (ident, server)))
    \<and> mHeader p = Some (message_header host (value_message enc (served w (ident, server))))"
proof -
  let ?v = "adValue (aObjects w ! asObject server)"
  have s: "data_packet_ok app_guid (asPacket server)" "guid_ok ident" "adAlive (aObjects w ! asObject server)" "ok ?v"
    using assms by (auto simp: app_server_ok_def)
  from data_serialize_wire [where le = le and host = host, OF s(1,2) wr_emits [OF s(4)]] show ?thesis
    using assms s(3) by (auto simp: app_serialize_def Let_def app_server_ok_def value_message_def served_def)
qed

end
text \<open>The servers in turn: each node that works is sent the value of every served object.\<close>

context object_codec begin

lemmas app_update_node_block = app.update_node_block

lemma serialize_and_send_all:
  assumes "nodes_work st" and "distinct idents"
    and "\<forall>i \<in> set idents. \<exists>server. map_of (mServers (nApp st)) i = Some server \<and> app_server_ok enc ok (nApp st) (i, server)"
  shows "\<exists>servers. serialize_and_send le wr idents st =
    (Inr (), (sent_to_all (concat (map (\<lambda>i. wire host (value_message enc
        (served (nApp st) (i, the (map_of (mServers (nApp st)) i))))) idents)) st)
      \<lparr>nApp := (nApp st)\<lparr>mServers := servers\<rparr>\<rparr>)"
  using assms
proof (induction idents arbitrary: st)
  case Nil
  then show ?case by (intro exI [of _ "mServers (nApp st)"]) simp
next
  case (Cons i idents)
  let ?w = "nApp st"
  obtain server where s: "map_of (mServers ?w) i = Some server" "app_server_ok enc ok ?w (i, server)"
    using Cons.prems(3) by auto
  let ?m = "value_message enc (served ?w (i, server))"
  obtain p where p: "app_serialize le wr ?w i server = Inr (server\<lparr>asPacket := p\<rparr>)"
    "mData p = wire host ?m" "mHeader p = Some (message_header host ?m)"
    using app_serialize_message [OF s(2), of le host] by blast
  have "message_ok host ?m"
    using s(2) by (auto simp: served_def app_server_ok_def intro: value_message_ok)
  note sent = sendToAll_wire [OF p(2,3) this]
  let ?v = "?w\<lparr>mServers := AList.update i (server\<lparr>asPacket := p\<rparr>) (mServers ?w)\<rparr>"
  let ?st = "(sent_to_all (wire host ?m) st)\<lparr>nApp := ?v\<rparr>"
  have sent: "sendToAll p (st\<lparr>nApp := ?v\<rparr>) = (Inr (), ?st)"
    using sent [of "st\<lparr>nApp := ?v\<rparr>"] Cons.prems(1) by simp
  have other: "map_of (mServers ?v) j = map_of (mServers ?w) j" "served ?v = served ?w"
    "app_server_ok enc ok ?v = app_server_ok enc ok ?w" if "j \<in> set idents" for j
    using Cons.prems(2) that by (auto simp: update_conv' served_def app_server_ok_def fun_eq_iff)
  have msgs: "map (\<lambda>i. wire host (value_message enc (served ?v (i, the (map_of (mServers ?v) i))))) idents
      = map (\<lambda>i. wire host (value_message enc (served ?w (i, the (map_of (mServers ?w) i))))) idents"
    using other by auto
  have "\<exists>servers. serialize_and_send le wr idents ?st =
    (Inr (), (sent_to_all (concat (map (\<lambda>i. wire host (value_message enc
        (served ?v (i, the (map_of (mServers ?v) i))))) idents)) ?st)\<lparr>nApp := ?v\<lparr>mServers := servers\<rparr>\<rparr>)"
    using Cons.IH [of ?st] Cons.prems other by simp
  then obtain servers where "serialize_and_send le wr idents ?st =
    (Inr (), (sent_to_all (concat (map (\<lambda>i. wire host (value_message enc
        (served ?w (i, the (map_of (mServers ?w) i))))) idents)) ?st)\<lparr>nApp := ?v\<lparr>mServers := servers\<rparr>\<rparr>)"
    unfolding msgs by blast
  then show ?case
    using s(1) p(1) by (intro exI [of _ servers]) (simp add: sent sent_to_all_twice)
qed

end

lemma app_receive_fold:
  "app_inv w \<Longrightarrow> app_inv (fold app_receive ms w)" "mObjects (fold app_receive ms w) = mObjects w"
  by (induction ms arbitrary: w) (simp_all add: app_receive_inv)

text \<open>Reading a block of values: each object has the value sent under its GUID.\<close>

lemma app_receive_value:
  assumes "app_inv w" and "getApplicationData ident w = Some p" and "distinct (map fst ms)"
  shows "aObjects (fold app_receive ms w) ! p =
    (case map_of ms ident of None \<Rightarrow> aObjects w ! p | Some v \<Rightarrow> (aObjects w ! p)\<lparr>adValue := v\<rparr>)"
  using assms
proof (induction ms arbitrary: w)
  case (Cons m ms)
  obtain i v where m: "m = (i, v)" by (cases m)
  have get: "getApplicationData j (app_receive m w) = getApplicationData j w" for j
    by (simp add: getApplicationData_def)
  have p: "p < length (aObjects w)" using getApplicationData_alive [OF Cons.prems(1,2)] by simp
  have same: "i = ident" if "getApplicationData i w = Some p"
  proof -
    have "(i, p) \<in> set (mObjects w)" "(ident, p) \<in> set (mObjects w)"
      using that Cons.prems(2) by (auto simp: getApplicationData_def dest: map_of_SomeD)
    then have "adId (aObjects w ! p) = i" "adId (aObjects w ! p) = ident"
      using Cons.prems(1) by (fastforce simp: app_inv_def list_all_iff)+
    then show ?thesis by simp
  qed
  have dev: "aObjects (app_receive m w) ! p = (if i = ident then (aObjects w ! p)\<lparr>adValue := v\<rparr> else aObjects w ! p)"
  proof (cases "i = ident")
    case True
    then show ?thesis using m p Cons.prems(2) by (simp add: app_receive_def upd_object_nth)
  next
    case False
    then have "getApplicationData i w \<noteq> Some p" using same by blast
    then show ?thesis
      using False m by (cases "getApplicationData i w") (auto simp: app_receive_def upd_object_nth)
  qed
  have IH: "aObjects (fold app_receive ms (app_receive m w)) ! p = (case map_of ms ident of
      None \<Rightarrow> aObjects (app_receive m w) ! p | Some v \<Rightarrow> (aObjects (app_receive m w) ! p)\<lparr>adValue := v\<rparr>)"
    using Cons.IH [OF app_receive_inv [OF Cons.prems(1)]] Cons.prems(2,3) get by simp
  show ?case
  proof (cases "i = ident")
    case True
    then have "map_of ms ident = None" using Cons.prems(3) m by (simp add: map_of_eq_None_iff)
    then show ?thesis using IH dev True m by simp
  next
    case False
    then have "aObjects (app_receive m w) ! p = aObjects w ! p" using dev by simp
    from IH [unfolded this] show ?thesis using False m by simp
  qed
qed simp

section \<open>Properties\<close>

text \<open>
  C6. Shared data is the master's on every node.  Before a draw the master sends the value of
  every object registered with it to each node that works; a node that handles this block
  handles all of it, and each of its objects whose GUID the master serves then has the master's
  value, whatever the type, as long as the type's \<^verbatim>\<open>readObject\<close> reads what its \<^verbatim>\<open>writeObject\<close>
  wrote.
\<close>

theorem shared_data_follows_master:
  fixes st slave :: "'v app_world netmgr" and enc :: "'v \<Rightarrow> u8 list"
  assumes codec: "object_codec wr rd enc ok"
    and master: "nodes_work st" "distinct (map fst (mServers (nApp st)))"
      "list_all (app_server_ok enc ok (nApp st)) (mServers (nApp st))" "j \<in> set (mNodes st)" "sent_bytes st j = []"
    and frame: "app_preDraw le True wr st = (res, st')"
    and slave: "app_inv (nApp slave)" "mHandlerMap slave app_guid = Some (app_handlePacket rd)"
      "isConnected (nHeap slave k)" "\<not> mUpdated (nHeap slave k)" "mSockStream (nHeap slave k) = Some s"
    and net: "sIncoming s = sent_bytes st' j @ wire host (EndMsg f) @ rest"
    and object: "map_of (mServers (nApp st)) ident = Some server" "getApplicationData ident (nApp slave) = Some p"
  shows "res = Inr () \<and> (\<exists>w. update_node le' k slave = (Inr (), finish_node k rest w slave)
    \<and> app_inv w \<and> mObjects w = mObjects (nApp slave)
    \<and> adValue (aObjects w ! p) = adValue (aObjects (nApp st) ! asObject server))"
proof -
  let ?idents = "map fst (mServers (nApp st))"
  let ?ms = "map (served (nApp st)) (mServers (nApp st))"
  let ?w = "fold app_receive ?ms (nApp slave)"
  have lookup: "map_of (mServers (nApp st)) (fst x) = Some (snd x)" if "x \<in> set (mServers (nApp st))" for x
    using that master(2) by simp
  then have ok: "\<forall>i \<in> set ?idents. \<exists>server. map_of (mServers (nApp st)) i = Some server \<and> app_server_ok enc ok (nApp st) (i, server)"
    using master(3) by (fastforce simp: list_all_iff)
  have eq: "map (\<lambda>i. wire host (value_message enc (served (nApp st) (i, the (map_of (mServers (nApp st)) i))))) ?idents
      = map (\<lambda>m. wire host (value_message enc m)) ?ms"
    using lookup by (auto simp: comp_def)
  from object_codec.serialize_and_send_all [OF codec master(1,2) ok, of le host, unfolded eq]
  obtain servers where "app_preDraw le True wr st =
      (Inr (), (sent_to_all (concat (map (\<lambda>m. wire host (value_message enc m)) ?ms)) st)\<lparr>nApp := (nApp st)\<lparr>mServers := servers\<rparr>\<rparr>)"
    unfolding app_preDraw_def if_True by blast
  then have st': "res = Inr ()" "sent_bytes st' j = concat (map (\<lambda>m. wire host (value_message enc m)) ?ms)"
    using frame sent_bytes_all [OF master(1,4)] master(5) by (auto simp: sent_bytes_def)
  have ms: "list_all (\<lambda>(ident, v). ok v) ?ms" "\<forall>m \<in> set ?ms. message_ok host (value_message enc m)"
    using master(3) by (fastforce simp: list_all_iff served_def app_server_ok_def intro: value_message_ok)+
  have goes: "update_node le' k slave = (Inr (), finish_node k rest ?w slave)"
    by (rule object_codec.app_update_node_block [OF codec ms slave(1-5)]) (use net st'(2) in simp)
  have ids: "map fst ?ms = ?idents" by (simp add: served_def case_prod_beta)
  have dist: "distinct (map fst ?ms)" unfolding ids by (rule master(2))
  have "(ident, adValue (aObjects (nApp st) ! asObject server)) \<in> set ?ms"
    using map_of_SomeD [OF object(1)] by (force simp: served_def)
  then have "map_of ?ms ident = Some (adValue (aObjects (nApp st) ! asObject server))"
    by (rule map_of_is_SomeI [OF dist])
  then have "adValue (aObjects ?w ! p) = adValue (aObjects (nApp st) ! asObject server)"
    using app_receive_value [OF slave(1) object(2) dist] by simp
  moreover have "app_inv ?w" "mObjects ?w = mObjects (nApp slave)"
    using slave(1) by (simp_all add: app_receive_fold)
  ultimately show ?thesis using st'(1) goes by blast
qed
definition shared_example :: "bool \<Rightarrow> guid \<Rightarrow> guid app_world" where
  "shared_example master v = snd (user_data_init True master NullGUID v app_world_new)"

definition example_node :: "u8 list \<Rightarrow> guid app_world \<Rightarrow> guid app_world netmgr" where
  "example_node incoming w =
     \<lparr>nHeap = (\<lambda>_. (node_new ''n'' ''n'' 7000 (Some \<lparr>sHandle = 7, sIncoming = incoming, sOutgoing = [],
        sBroken = False\<rparr>))\<lparr>mStatus := CONNECTED\<rparr>),
      nNext = 1, mNodes = [0], mHandlerMap = [app_guid \<mapsto> app_handlePacket (read_whole (guid_readObject False))],
      mReactor = \<lparr>mSelector = [7], mDemuxTable = [7 \<mapsto> 0]\<rparr>, nApp = w\<rparr>"

lemma shared_example_value:
  "shared_example master v = \<lparr>aObjects = [\<lparr>adId = NullGUID, adLocal = master, adValue = v, adAlive = True\<rparr>],
     mObjects = [(NullGUID, 0)], mServers = (if master then [(NullGUID, \<lparr>asObject = 0, asPacket = data_new app_guid NullGUID\<rparr>)] else []),
     mActive = True\<rparr>"
  by (simp add: shared_example_def user_data_init_def app_data_init_def addSerializableObject_def app_world_new_def
      upd_object_def Let_def)

theorem shared_data_follows_master_witness:
  "\<exists>st' w. app_preDraw True True (\<lambda>g w. Inr (guid_writeObject True g w)) (example_node [] (shared_example True app_guid)) = (Inr (), st')
     \<and> update_node False 0 (example_node (sent_bytes st' 0 @ wire ''m'' (EndMsg 3)) (shared_example False NullGUID))
         = (Inr (), finish_node 0 [] w (example_node (sent_bytes st' 0 @ wire ''m'' (EndMsg 3)) (shared_example False NullGUID)))
     \<and> adValue (aObjects w ! 0) = app_guid"
proof -
  let ?wr = "\<lambda>g w. Inr (guid_writeObject True g w)"
  let ?st = "example_node [] (shared_example True app_guid)"
  obtain res st' where frame: "app_preDraw True True ?wr ?st = (res, st')" by (cases "app_preDraw True True ?wr ?st")
  let ?in = "sent_bytes st' 0 @ wire ''m'' (EndMsg 3)"
  let ?slave = "example_node ?in (shared_example False NullGUID)"
  have "nodes_work ?st" "sent_bytes ?st 0 = []" "isConnected (nHeap ?slave 0)" "\<not> mUpdated (nHeap ?slave 0)"
    by (simp_all add: example_node_def nodes_work_def works_def sent_bytes_def isConnected_def node_new_def)
  moreover have "list_all (app_server_ok guid_bytes guid_ok (nApp ?st)) (mServers (nApp ?st))"
    by (simp add: example_node_def shared_example_value app_server_ok_def data_packet_new)
  moreover have "app_inv (nApp ?slave)" by (simp add: example_node_def shared_example_value app_inv_def)
  ultimately show ?thesis
    using shared_data_follows_master [OF guid_object.object_codec_axioms, of ?st 0 True True res st' ?slave False 0
        "\<lparr>sHandle = 7, sIncoming = ?in, sOutgoing = [], sBroken = False\<rparr>" "''m''" 3 "[]" NullGUID
        "\<lparr>asObject = 0, asPacket = data_new app_guid NullGUID\<rparr>" 0 False] frame
    by (auto simp: example_node_def shared_example_value node_new_def getApplicationData_def)
qed
lemma send_to_all_app: "nApp (snd (send_to_all p ks st)) = nApp st"
  by (induction p ks st rule: send_to_all.induct)
     (auto simp: upd_heap_def split: sum.splits failure.splits)

lemma sendToAll_app: "sendToAll p st = (r, st') \<Longrightarrow> nApp st' = nApp st"
  using send_to_all_app [of p "mNodes st" st] by (simp add: sendToAll_def)

lemma serialize_freed:
  "ident \<in> set idents \<Longrightarrow> map_of (mServers (nApp st)) ident = Some server \<Longrightarrow>
     \<not> adAlive (aObjects (nApp st) ! asObject server) \<Longrightarrow> fst (serialize_and_send le wr idents st) \<noteq> Inr ()"
proof (induction idents arbitrary: st server)
  case (Cons i idents)
  show ?case
  proof (cases "app_serialize le wr (nApp st) i (the (map_of (mServers (nApp st)) i))")
    case (Inr s)
    then obtain p where s: "s = (the (map_of (mServers (nApp st)) i))\<lparr>asPacket := p\<rparr>"
      and "adAlive (aObjects (nApp st) ! asObject (the (map_of (mServers (nApp st)) i)))"
      by (auto simp: app_serialize_def Let_def require_def rbind_Inr_iff split: if_splits)
    with Cons.prems have "i \<noteq> ident" by auto
    then have ident: "ident \<in> set idents" using Cons.prems(1) by simp
    let ?w = "(nApp st)\<lparr>mServers := AList.update i s (mServers (nApp st))\<rparr>"
    show ?thesis
    proof (cases "sendToAll (asPacket s) (st\<lparr>nApp := ?w\<rparr>)")
      case (Pair r st')
      then have "nApp st' = ?w" using sendToAll_app by fastforce
      then have "fst (serialize_and_send le wr idents st') \<noteq> Inr ()"
        using Cons.prems(2,3) \<open>i \<noteq> ident\<close> by (intro Cons.IH [OF ident, of st' server]) (simp_all add: update_conv')
      then show ?thesis using Inr Pair by (cases r) simp_all
    qed
  qed simp
qed simp

text \<open>
  Freeing shared data breaks the cluster.  Once an object registered with the plug-in on the
  master is freed, which its destructor does not tell the plug-in, the plug-in's part of a draw
  never completes again: it uses the freed object (or fails before it gets to it).
\<close>

theorem freed_object_breaks_draw:
  assumes "user_data_init True True guid v w = (p, w')" and "nApp st = user_data_destroy p w'"
  shows "fst (app_preDraw le True wr st) \<noteq> Inr ()"
proof -
  have server: "map_of (mServers (nApp st)) guid = Some \<lparr>asObject = p, asPacket = data_new app_guid guid\<rparr>"
    and dead: "\<not> adAlive (aObjects (nApp st) ! p)"
    using assms
    by (auto simp: user_data_init_def app_data_init_def addSerializableObject_def user_data_destroy_def Let_def
        upd_object_nth update_conv' upd_object_def)
  then have "guid \<in> set (map fst (mServers (nApp st)))"
    by (metis map_of_eq_None_iff list.set_map option.distinct(1))
  from serialize_freed [OF this server] dead show ?thesis by (simp add: app_preDraw_def)
qed

theorem freed_object_breaks_draw_witness:
  "fst (app_preDraw True True (\<lambda>g w. Inr (guid_writeObject True g w))
     (example_node [] (user_data_destroy 0 (shared_example True app_guid)))) \<noteq> Inr ()"
  by (rule freed_object_breaks_draw [of NullGUID app_guid app_world_new 0 "shared_example True app_guid"])
     (simp_all add: shared_example_def user_data_init_def app_world_new_def example_node_def)

end
