(* ===== verification/ClusterBarrier.thy ===== *)
theory ClusterBarrier
  imports ClusterBlock "HOL-Library.AList"
begin

text \<open>
  Barriers the nodes of a cluster wait at
  (\<^verbatim>\<open>modules/gadgeteer/plugins/ApplicationBarrierManager/\<close>).  A node that waits tells the
  nodes it is connected to, and goes on once as many have told it as there are such nodes.  The
  cluster is a star: the master is connected to every slave and a slave to the master alone
  (\<open>ClusterConnect\<close>, \<open>ClusterStart\<close>), and nobody passes a packet on.

  The waiting thread and the thread that handles packets share the barrier's counters, its
  mutex and its condition variable: they are the steps of \<open>bar_step\<close>, of one node, and of
  \<open>cluster_step\<close>, of all nodes.  A counter's increment is one step.  The counters are natural
  numbers.  A condition variable may wake its waiter for no reason.
\<close>

section \<open>The plug-in\<close>

record barrier_object =
  boId :: guid
  boTotal :: nat
  boWaiting :: nat

record barrier_server =
  bsObject :: nat
  bsPacket :: packet

record barrier_world =
  bObjects :: "barrier_object list"
  mBarriers :: "(guid \<times> nat) list"
  mBarrierServers :: "(guid \<times> barrier_server) list"
  mBarrierActive :: bool

definition barrier_guid :: guid where
  "barrier_guid = \<lparr>g_m0 = 0x5edddf06, g_m1 = 0xcf73, g_m2 = 0x43ad, g_m3 = 0x92, g_m4 = 0x8e,
     g_m5 = [0x31, 0x8c, 0x3e, 0x67, 0x81, 0x5e]\<rparr>"

lemma barrier_guid_value: "guid_fromString ''5edddf06-cf73-43ad-928e-318c3e67815e'' = Inr barrier_guid"
  by (simp add: barrier_guid_def guid_fromString_def scan_num_plain is_space_def hex_value_def hex_digits_step)

text \<open>The constructor sets neither counter: they are whatever the memory held.\<close>

definition ApplicationBarrier_new :: "nat \<Rightarrow> nat \<Rightarrow> barrier_object" where
  "ApplicationBarrier_new tot wt = \<lparr>boId = NullGUID, boTotal = tot, boWaiting = wt\<rparr>"

definition barrier_addSerializableObject :: "nat \<Rightarrow> barrier_world \<Rightarrow> barrier_world" where
  "barrier_addSerializableObject p w =
     (let ident = boId (bObjects w ! p)
      in w\<lparr>mBarriers := AList.update ident p (mBarriers w),
           mBarrierServers := AList.update ident \<lparr>bsObject = p, bsPacket = data_new barrier_guid ident\<rparr> (mBarrierServers w),
           mBarrierActive := True\<rparr>)"

definition barrier_init :: "bool \<Rightarrow> guid \<Rightarrow> nat \<Rightarrow> barrier_world \<Rightarrow> barrier_world" where
  "barrier_init loaded guid p w =
     (let w = w\<lparr>bObjects := (bObjects w)[p := (bObjects w ! p)\<lparr>boId := guid\<rparr>]\<rparr>
      in if loaded then barrier_addSerializableObject p w else w)"

text \<open>
  \<^verbatim>\<open>sendWait\<close>: looking up a server that is not there enters a null one, which the second
  assertion catches.  The packet is the barrier's GUID.
\<close>

definition sendWait :: "bool \<Rightarrow> guid \<Rightarrow> barrier_world netmgr \<Rightarrow> unit result \<times> barrier_world netmgr" where
  "sendWait le ident st =
     (if ident = NullGUID then (Inl (AssertionFailed ''id != vpr::GUID::NullGUID''), st)
      else case map_of (mBarrierServers (nApp st)) ident of
             None \<Rightarrow> (Inl (AssertionFailed ''server.get() != NULL''), st)
           | Some server \<Rightarrow>
               (case data_serialize le ident
                       (\<lambda>w. Inr (guid_writeObject le (boId (bObjects (nApp st) ! bsObject server)) w)) (bsPacket server) of
                  Inl e \<Rightarrow> (Inl e, st)
                | Inr p \<Rightarrow>
                    sendToAll p (st\<lparr>nApp := (nApp st)\<lparr>mBarrierServers :=
                      AList.update ident (server\<lparr>bsPacket := p\<rparr>) (mBarrierServers (nApp st))\<rparr>\<rparr>)))"

text \<open>\<^verbatim>\<open>incWaitingNodes\<close>, and whether it wakes the waiting thread.\<close>

definition incWaitingNodes :: "barrier_object \<Rightarrow> bool \<times> barrier_object" where
  "incWaitingNodes ob =
     (let ob = ob\<lparr>boWaiting := boWaiting ob + 1\<rparr> in (boWaiting ob = boTotal ob, ob))"

definition barrier_handlePacket :: "barrier_world packet_handler" where
  "barrier_handlePacket packet node w =
     (case mHeader packet of
        None \<Rightarrow> (Inl (Undefined ''null header''), w)
      | Some h \<Rightarrow>
          if mPacketType h = RIM_DATA_PACKET
          then case mBody packet of
                 DataPacket objectId \<Rightarrow>
                   (case map_of (mBarriers w) objectId of
                      None \<Rightarrow> (Inr (), w)
                    | Some p \<Rightarrow> (Inr (), w\<lparr>bObjects := (bObjects w)[p := snd (incWaitingNodes (bObjects w ! p))]\<rparr>))
               | _ \<Rightarrow> (Inl (AssertionFailed ''Dynamic cast failed!''), w)
          else (Inr (), w))"

section \<open>One node\<close>

text \<open>Where the waiting thread and the packet thread are, and who has the mutex.\<close>

datatype waiter = Idle | Sending | Acquiring | Testing | Sleeping | Woken
datatype counter = Listening | Counted | Locking | Signalling
datatype holder = Waiter | Counter

record bar =
  bTotal :: nat
  bWaiting :: nat
  bApp :: waiter
  bNet :: counter
  bLock :: "holder option"
  bWaits :: nat
  bReturns :: nat

definition bar_new :: "nat \<Rightarrow> nat \<Rightarrow> bar" where
  "bar_new tot wt = \<lparr>bTotal = tot, bWaiting = wt, bApp = Idle, bNet = Listening, bLock = None,
     bWaits = 0, bReturns = 0\<rparr>"

text \<open>
  \<^verbatim>\<open>wait\<close> on a node with \<open>n\<close> neighbours, step by step, and what \<^verbatim>\<open>incWaitingNodes\<close> does after its
  increment.  \<open>n\<close> is \<^verbatim>\<open>getNumNodes()\<close>, the nodes it is connected to.
\<close>

inductive bar_step :: "nat \<Rightarrow> bar \<Rightarrow> bar \<Rightarrow> bool" for n where
  bar_wait: "bApp b = Idle \<Longrightarrow> bar_step n b (b\<lparr>bTotal := n, bApp := Sending\<rparr>)"
| bar_send: "bApp b = Sending \<Longrightarrow> bar_step n b (b\<lparr>bApp := Acquiring, bWaits := bWaits b + 1\<rparr>)"
| bar_acquire: "bApp b = Acquiring \<Longrightarrow> bLock b = None \<Longrightarrow> bar_step n b (b\<lparr>bApp := Testing, bLock := Some Waiter\<rparr>)"
| bar_return: "bApp b = Testing \<Longrightarrow> bWaiting b = bTotal b \<Longrightarrow>
    bar_step n b (b\<lparr>bApp := Idle, bWaiting := 0, bLock := None, bReturns := bReturns b + 1\<rparr>)"
| bar_sleep: "bApp b = Testing \<Longrightarrow> bWaiting b \<noteq> bTotal b \<Longrightarrow> bar_step n b (b\<lparr>bApp := Sleeping, bLock := None\<rparr>)"
| bar_spurious: "bApp b = Sleeping \<Longrightarrow> bar_step n b (b\<lparr>bApp := Woken\<rparr>)"
| bar_wake: "bApp b = Woken \<Longrightarrow> bLock b = None \<Longrightarrow> bar_step n b (b\<lparr>bApp := Testing, bLock := Some Waiter\<rparr>)"
| bar_below: "bNet b = Counted \<Longrightarrow> bWaiting b \<noteq> bTotal b \<Longrightarrow> bar_step n b (b\<lparr>bNet := Listening\<rparr>)"
| bar_full: "bNet b = Counted \<Longrightarrow> bWaiting b = bTotal b \<Longrightarrow> bar_step n b (b\<lparr>bNet := Locking\<rparr>)"
| bar_lock: "bNet b = Locking \<Longrightarrow> bLock b = None \<Longrightarrow> bar_step n b (b\<lparr>bNet := Signalling, bLock := Some Counter\<rparr>)"
| bar_signal: "bNet b = Signalling \<Longrightarrow>
    bar_step n b (b\<lparr>bApp := (if bApp b = Sleeping then Woken else bApp b), bNet := Listening, bLock := None\<rparr>)"

text \<open>A packet's increment.\<close>

definition bar_packet :: "bar \<Rightarrow> bar" where
  "bar_packet b = b\<lparr>bWaiting := bWaiting b + 1, bNet := Counted\<rparr>"

section \<open>All nodes\<close>

text \<open>Of node \<open>j\<close>'s packets, \<open>cGot i j\<close> have reached node \<open>i\<close>; they arrive in order.\<close>

record cluster_bar =
  cNodes :: "nat \<Rightarrow> bar"
  cGot :: "nat \<Rightarrow> nat \<Rightarrow> nat"

definition cluster_new :: "(nat \<Rightarrow> bar) \<Rightarrow> cluster_bar" where
  "cluster_new nodes = \<lparr>cNodes = nodes, cGot = (\<lambda>_ _. 0)\<rparr>"

text \<open>Node 0 is the master: the nodes each node is connected to.\<close>

definition peers :: "nat \<Rightarrow> nat \<Rightarrow> nat set" where
  "peers N i = (if i = 0 then {1..<N} else {0})"

lemma peers_simps [simp]:
  "finite (peers N i)" "i \<notin> peers N i" "card (peers N 0) = N - 1" "0 < i \<Longrightarrow> card (peers N i) = 1"
  "i < N \<Longrightarrow> j \<in> peers N i \<Longrightarrow> j < N"
  by (auto simp: peers_def split: if_splits)

inductive cluster_step :: "nat \<Rightarrow> cluster_bar \<Rightarrow> cluster_bar \<Rightarrow> bool" for N where
  cluster_local: "i < N \<Longrightarrow> bar_step (card (peers N i)) (cNodes c i) b \<Longrightarrow>
    cluster_step N c (c\<lparr>cNodes := (cNodes c)(i := b)\<rparr>)"
| cluster_packet: "i < N \<Longrightarrow> j \<in> peers N i \<Longrightarrow> cGot c i j < bWaits (cNodes c j) \<Longrightarrow> bNet (cNodes c i) = Listening \<Longrightarrow>
    cluster_step N c (c\<lparr>cNodes := (cNodes c)(i := bar_packet (cNodes c i)),
                        cGot := (cGot c)(i := (cGot c i)(j := cGot c i j + 1))\<rparr>)"
inductive_cases bar_step_elim: "bar_step n b b'"

text \<open>The constructor sets no counter: node \<open>i\<close> starts with \<open>wt i\<close> counted, and any total.\<close>

definition cluster_init :: "(nat \<Rightarrow> nat) \<Rightarrow> cluster_bar \<Rightarrow> bool" where
  "cluster_init wt c \<longleftrightarrow> (\<exists>tot. c = cluster_new (\<lambda>i. bar_new (tot i) (wt i)))"

section \<open>What a node has counted\<close>

definition waits_now :: "bar \<Rightarrow> bool" where
  "waits_now b \<longleftrightarrow> bApp b \<in> {Acquiring, Testing, Sleeping, Woken}"

definition bar_inv :: "nat \<Rightarrow> bar \<Rightarrow> bool" where
  "bar_inv n b \<longleftrightarrow> (bApp b \<noteq> Idle \<longrightarrow> bTotal b = n)
     \<and> bWaits b = bReturns b + (if waits_now b then 1 else 0)"

lemma bar_inv_step: "bar_inv n b \<Longrightarrow> bar_step n b b' \<Longrightarrow> bar_inv n b'"
  by (erule bar_step_elim) (auto simp: bar_inv_def waits_now_def)

lemma bar_inv_packet: "bar_inv n b \<Longrightarrow> bar_inv n (bar_packet b)"
  by (simp add: bar_inv_def bar_packet_def waits_now_def)

text \<open>A step keeps the packets counted, or is a return after as many as there are neighbours.\<close>

lemma bar_step_counts:
  assumes "bar_step n b b'" and "bar_inv n b"
  shows "n * bReturns b' + bWaiting b' = n * bReturns b + bWaiting b" "bWaits b \<le> bWaits b'"
    "bReturns b' = bReturns b \<or> (bReturns b' = bReturns b + 1 \<and> bWaiting b = n \<and> bWaits b = bReturns b + 1)"
  using assms by (auto elim!: bar_step_elim simp: bar_inv_def waits_now_def algebra_simps)

definition cluster_inv :: "nat \<Rightarrow> (nat \<Rightarrow> nat) \<Rightarrow> cluster_bar \<Rightarrow> bool" where
  "cluster_inv N wt c \<longleftrightarrow> (\<forall>i < N. bar_inv (card (peers N i)) (cNodes c i)
     \<and> (\<Sum>j \<in> peers N i. cGot c i j) + wt i
         = card (peers N i) * bReturns (cNodes c i) + bWaiting (cNodes c i)
     \<and> (\<forall>j \<in> peers N i. cGot c i j \<le> bWaits (cNodes c j)))"

lemma cluster_inv_step:
  assumes inv: "cluster_inv N wt c" and step: "cluster_step N c c'"
  shows "cluster_inv N wt c'"
  using step
proof cases
  case (cluster_local i b)
  note c' = cluster_local(1) and i = cluster_local(2) and b = cluster_local(3)
  have bar: "bar_inv (card (peers N i)) (cNodes c i)" using inv i by (simp add: cluster_inv_def)
  note counts = bar_step_counts [OF b bar]
  have "cGot c k i \<le> bWaits b" if "k < N" "i \<in> peers N k" for k
    using counts(2) inv that unfolding cluster_inv_def by (meson le_trans)
  then show ?thesis
    using inv bar_inv_step [OF bar b] counts(1) i unfolding cluster_inv_def c' by auto
next
  case (cluster_packet i j)
  note c' = cluster_packet(1) and ij = cluster_packet(2,3) and got = cluster_packet(4)
  let ?g = "(cGot c i)(j := cGot c i j + 1)"
  have "(\<Sum>k \<in> peers N i. ?g k) = (\<Sum>k \<in> peers N i. cGot c i k) + 1"
    using ij(2) by (simp add: sum.remove [of _ j])
  moreover have "bWaits (bar_packet b) = bWaits b" "bReturns (bar_packet b) = bReturns b"
    "bWaiting (bar_packet b) = bWaiting b + 1" for b
    by (simp_all add: bar_packet_def)
  ultimately show ?thesis
    using inv bar_inv_packet ij got unfolding cluster_inv_def c' by (auto simp: Suc_leI)
qed

interpretation barrier: transition_system "cluster_init wt" "cluster_step N" "cluster_inv N wt" for N wt
proof
  show "cluster_inv N wt c" if "cluster_init wt c" for c
    using that by (auto simp: cluster_init_def cluster_new_def cluster_inv_def bar_inv_def bar_new_def waits_now_def)
qed (rule cluster_inv_step)

text \<open>A node with one neighbour returns only after its neighbour's packets, or what it started with.\<close>

lemma single_peer_bound:
  assumes "cluster_inv N wt c" and "i < N" and "peers N i = {j}"
  shows "bReturns (cNodes c i) \<le> bWaits (cNodes c j) + wt i"
proof -
  have "cGot c i j + wt i = bReturns (cNodes c i) + bWaiting (cNodes c i)" "cGot c i j \<le> bWaits (cNodes c j)"
    using assms unfolding cluster_inv_def by auto
  then show ?thesis by linarith
qed

section \<open>A node left behind\<close>

text \<open>The node waits, and more packets have come than it has neighbours.\<close>

definition overtaken :: "nat \<Rightarrow> bar \<Rightarrow> bool" where
  "overtaken n b \<longleftrightarrow> waits_now b \<and> bTotal b = n \<and> n < bWaiting b"

lemma overtaken_step:
  assumes "overtaken n b" and "bar_step n b b'"
  shows "overtaken n b' \<and> bReturns b' = bReturns b"
  using assms(2,1) by cases (auto simp: overtaken_def waits_now_def)

lemma overtaken_packet: "overtaken n b \<Longrightarrow> overtaken n (bar_packet b) \<and> bReturns (bar_packet b) = bReturns b"
  by (simp add: overtaken_def bar_packet_def waits_now_def)

lemma cluster_overtaken:
  assumes "cluster_step N c c'" and "overtaken (card (peers N i)) (cNodes c i)"
  shows "overtaken (card (peers N i)) (cNodes c' i) \<and> bReturns (cNodes c' i) = bReturns (cNodes c i)"
  using assms by cases (auto simp: overtaken_step overtaken_packet)

text \<open>The steps as a function of what happens next, for runs of a given schedule.\<close>

definition bar_exec :: "nat \<Rightarrow> bool \<Rightarrow> bar \<Rightarrow> bar option" where
  "bar_exec n app b =
     (if app
      then case bApp b of
             Idle \<Rightarrow> Some (b\<lparr>bTotal := n, bApp := Sending\<rparr>)
           | Sending \<Rightarrow> Some (b\<lparr>bApp := Acquiring, bWaits := bWaits b + 1\<rparr>)
           | Acquiring \<Rightarrow> if bLock b = None then Some (b\<lparr>bApp := Testing, bLock := Some Waiter\<rparr>) else None
           | Testing \<Rightarrow>
               if bWaiting b = bTotal b
               then Some (b\<lparr>bApp := Idle, bWaiting := 0, bLock := None, bReturns := bReturns b + 1\<rparr>)
               else Some (b\<lparr>bApp := Sleeping, bLock := None\<rparr>)
           | Sleeping \<Rightarrow> None
           | Woken \<Rightarrow> if bLock b = None then Some (b\<lparr>bApp := Testing, bLock := Some Waiter\<rparr>) else None
      else case bNet b of
             Listening \<Rightarrow> None
           | Counted \<Rightarrow> Some (b\<lparr>bNet := (if bWaiting b = bTotal b then Locking else Listening)\<rparr>)
           | Locking \<Rightarrow> if bLock b = None then Some (b\<lparr>bNet := Signalling, bLock := Some Counter\<rparr>) else None
           | Signalling \<Rightarrow> Some (b\<lparr>bApp := (if bApp b = Sleeping then Woken else bApp b), bNet := Listening, bLock := None\<rparr>))"

lemma bar_exec_step: "bar_exec n app b = Some b' \<Longrightarrow> bar_step n b b'"
  by (auto simp: bar_exec_def bar_step.simps split: if_splits waiter.splits counter.splits)

lemma bar_step_exec: "bar_step n b b' \<longleftrightarrow> (\<exists>app. bar_exec n app b = Some b') \<or> (bApp b = Sleeping \<and> b' = b\<lparr>bApp := Woken\<rparr>)"
proof
  assume "bar_step n b b'"
  then show "(\<exists>app. bar_exec n app b = Some b') \<or> (bApp b = Sleeping \<and> b' = b\<lparr>bApp := Woken\<rparr>)"
    by cases (auto simp: bar_exec_def intro: exI [of _ True] exI [of _ False])
qed (auto intro: bar_exec_step bar_spurious)

datatype schedule = App nat | Net nat | Packet nat nat

fun cluster_exec :: "nat \<Rightarrow> schedule list \<Rightarrow> cluster_bar \<Rightarrow> cluster_bar option" where
  "cluster_exec N [] c = Some c"
| "cluster_exec N (Packet i j # l) c =
     (if i < N \<and> j \<in> peers N i \<and> cGot c i j < bWaits (cNodes c j) \<and> bNet (cNodes c i) = Listening
      then cluster_exec N l (c\<lparr>cNodes := (cNodes c)(i := bar_packet (cNodes c i)),
                               cGot := (cGot c)(i := (cGot c i)(j := cGot c i j + 1))\<rparr>)
      else None)"
| "cluster_exec N (App i # l) c =
     (case bar_exec (card (peers N i)) True (cNodes c i) of
        Some b \<Rightarrow> if i < N then cluster_exec N l (c\<lparr>cNodes := (cNodes c)(i := b)\<rparr>) else None
      | None \<Rightarrow> None)"
| "cluster_exec N (Net i # l) c =
     (case bar_exec (card (peers N i)) False (cNodes c i) of
        Some b \<Rightarrow> if i < N then cluster_exec N l (c\<lparr>cNodes := (cNodes c)(i := b)\<rparr>) else None
      | None \<Rightarrow> None)"

lemma exec_local:
  "reach (cluster_init wt) (cluster_step N) c \<Longrightarrow> i < N \<Longrightarrow> bar_exec (card (peers N i)) app (cNodes c i) = Some b \<Longrightarrow>
     reach (cluster_init wt) (cluster_step N) (c\<lparr>cNodes := (cNodes c)(i := b)\<rparr>)"
  by (erule reach_step) (intro cluster_local bar_exec_step; assumption)

lemma cluster_exec_reach:
  "reach (cluster_init wt) (cluster_step N) c \<Longrightarrow> cluster_exec N l c = Some c' \<Longrightarrow> reach (cluster_init wt) (cluster_step N) c'"
proof (induction N l c rule: cluster_exec.induct)
  case (2 N i j l c)
  let ?c = "c\<lparr>cNodes := (cNodes c)(i := bar_packet (cNodes c i)),
    cGot := (cGot c)(i := (cGot c i)(j := cGot c i j + 1))\<rparr>"
  let ?g = "i < N \<and> j \<in> peers N i \<and> cGot c i j < bWaits (cNodes c j) \<and> bNet (cNodes c i) = Listening"
  have "(if ?g then cluster_exec N l ?c else None) = Some c'" using 2(3) by (simp only: cluster_exec.simps)
  then have g: ?g and l: "cluster_exec N l ?c = Some c'" by (metis option.distinct(1))+
  from g have "cluster_step N c ?c" by (blast intro: cluster_packet)
  with 2(2) have "reach (cluster_init wt) (cluster_step N) ?c" by (rule reach_step)
  then show ?case using 2(1) [OF g] l by blast
next
  case (3 N i l c)
  from 3(3) obtain b where b: "bar_exec (card (peers N i)) True (cNodes c i) = Some b" "i < N"
    "cluster_exec N l (c\<lparr>cNodes := (cNodes c)(i := b)\<rparr>) = Some c'" by (simp split: option.splits if_splits)
  from 3(1) [OF b(1,2) exec_local [OF 3(2) b(2,1)] b(3)] show ?case .
next
  case (4 N i l c)
  from 4(3) obtain b where b: "bar_exec (card (peers N i)) False (cNodes c i) = Some b" "i < N"
    "cluster_exec N l (c\<lparr>cNodes := (cNodes c)(i := b)\<rparr>) = Some c'" by (simp split: option.splits if_splits)
  from 4(1) [OF b(1,2) exec_local [OF 4(2) b(2,1)] b(3)] show ?case .
qed simp

text \<open>Two nodes: the slave waits twice before the master's waiting thread has run.\<close>

definition fast_and_slow :: "schedule list" where
  "fast_and_slow =
     [App 0, App 0, App 0, App 0, App 1, App 1, App 1, App 1,
      Packet 0 1, Net 0, Net 0, Net 0, Packet 1 0, Net 1, Net 1, Net 1,
      App 1, App 1, App 1, App 1, Packet 0 1]"

definition left_behind :: "cluster_bar option" where
  "left_behind = cluster_exec 2 fast_and_slow (cluster_new (\<lambda>_. bar_new 0 0))"

lemma left_behind_value:
  "map_option (\<lambda>c. (cNodes c 0, cNodes c 1)) left_behind =
     Some (\<lparr>bTotal = 1, bWaiting = 2, bApp = Woken, bNet = Counted, bLock = None, bWaits = 1, bReturns = 0\<rparr>,
           \<lparr>bTotal = 1, bWaiting = 0, bApp = Acquiring, bNet = Listening, bLock = None, bWaits = 2, bReturns = 1\<rparr>)"
  by (simp add: left_behind_def fast_and_slow_def cluster_new_def bar_new_def bar_exec_def bar_packet_def peers_def)

lemma exec_from_zero:
  assumes "cluster_exec N l (cluster_new (\<lambda>_. bar_new 0 0)) = Some c"
  shows "reach (cluster_init (\<lambda>_. 0)) (cluster_step N) c"
  by (rule cluster_exec_reach [OF reach_init assms]) (auto simp: cluster_init_def)

lemma left_behind_reach:
  "\<exists>c. reach (cluster_init (\<lambda>_. 0)) (cluster_step 2) c \<and> overtaken (card (peers 2 0)) (cNodes c 0)
     \<and> bReturns (cNodes c 0) = 0 \<and> bReturns (cNodes c 1) = 1 \<and> bWaits (cNodes c 0) = 1"
proof -
  obtain c where c: "left_behind = Some c" using left_behind_value by (cases left_behind) auto
  have "cNodes c 0 = \<lparr>bTotal = 1, bWaiting = 2, bApp = Woken, bNet = Counted, bLock = None, bWaits = 1, bReturns = 0\<rparr>"
    "cNodes c 1 = \<lparr>bTotal = 1, bWaiting = 0, bApp = Acquiring, bNet = Listening, bLock = None, bWaits = 2, bReturns = 1\<rparr>"
    using left_behind_value [unfolded c] by simp_all
  then show ?thesis
    using exec_from_zero [OF c [unfolded left_behind_def]]
    by (intro exI [of _ c]) (simp add: overtaken_def waits_now_def)
qed

text \<open>Three nodes: the first slave comes to the barrier twice, and the master counts it for both.\<close>

definition twice_counted :: "schedule list" where
  "twice_counted =
     [App 0, App 0, App 1, App 1, Packet 0 1, Net 0, Packet 1 0, Net 1, Net 1, Net 1,
      App 1, App 1, App 1, App 1, Packet 0 1, Net 0, Net 0, Net 0, App 0, App 0]"

lemma twice_counted_value:
  "map_option (\<lambda>c. (bReturns (cNodes c 0), bReturns (cNodes c 1), bWaits (cNodes c 2)))
     (cluster_exec 3 twice_counted (cluster_new (\<lambda>_. bar_new 0 0))) = Some (1, 1, 0)"
  by (simp add: twice_counted_def cluster_new_def bar_new_def bar_exec_def bar_packet_def peers_def)

lemma twice_counted_reach:
  "\<exists>c. reach (cluster_init (\<lambda>_. 0)) (cluster_step 3) c
     \<and> bReturns (cNodes c 0) = 1 \<and> bReturns (cNodes c 1) = 1 \<and> bWaits (cNodes c 2) = 0"
proof -
  obtain c where "cluster_exec 3 twice_counted (cluster_new (\<lambda>_. bar_new 0 0)) = Some c"
    "bReturns (cNodes c 0) = 1" "bReturns (cNodes c 1) = 1" "bWaits (cNodes c 2) = 0"
    using twice_counted_value
    by (cases "cluster_exec 3 twice_counted (cluster_new (\<lambda>_. bar_new 0 0))") auto
  then show ?thesis using exec_from_zero by blast
qed

section \<open>Properties\<close>

text \<open>
  C7. What the barrier waits for.  However the threads of the nodes interleave and however long
  packets take, no node starts more rounds than the master: a node that has returned from its wait
  \<open>k\<close> times finds that the master has started its \<open>k\<close>-th wait, and with two nodes that every node
  has; for a counter that did not start at 0, up to what it started with.  With more nodes that is
  all: a state is reachable, with every counter started at 0, in which the master and one slave have
  returned and the other slave has not come to the barrier at all, though \<^verbatim>\<open>wait\<close> is to wait until
  all nodes are waiting.
\<close>

theorem barrier_waits_for_master:
  assumes "reach (cluster_init wt) (cluster_step N) c" and "i < N" and "j < N" and "j = 0 \<or> N = 2"
  shows "bReturns (cNodes c i) \<le> bWaits (cNodes c j) + wt i
    \<and> (\<exists>c. reach (cluster_init (\<lambda>_. 0)) (cluster_step 3) c
        \<and> bReturns (cNodes c 0) = 1 \<and> bReturns (cNodes c 1) = 1 \<and> bWaits (cNodes c 2) = 0)"
proof -
  have inv: "cluster_inv N wt c" by (rule barrier.reach_inv [OF assms(1)])
  have "bReturns (cNodes c i) \<le> bWaits (cNodes c j) + wt i"
  proof (cases "i = j")
    case True
    then show ?thesis using inv assms(2) by (auto simp: cluster_inv_def bar_inv_def)
  next
    case False
    have "peers N i = {j}"
    proof (cases "j = 0")
      case True
      then show ?thesis using False by (simp add: peers_def)
    next
      case j: False
      then have "N = 2" "j = 1" "i = 0" using False assms(2-4) by simp_all
      then show ?thesis by (auto simp: peers_def)
    qed
    then show ?thesis by (rule single_peer_bound [OF inv assms(2)])
  qed
  then show ?thesis using twice_counted_reach by blast
qed

theorem barrier_waits_for_master_witness:
  "\<exists>c. reach (cluster_init (\<lambda>_. 0)) (cluster_step 2) c
     \<and> bReturns (cNodes c 1) = 1 \<and> bReturns (cNodes c 1) \<le> bWaits (cNodes c 0)"
proof -
  obtain c where c: "reach (cluster_init (\<lambda>_. 0)) (cluster_step 2) c" "bReturns (cNodes c 1) = 1"
    using left_behind_reach by blast
  then show ?thesis using barrier_waits_for_master [OF c(1), of 1 0] by (intro exI [of _ c]) simp
qed



end
