(* ===== verification/ClusterConnect.thy ===== *)
theory ClusterConnect
  imports ClusterBlock
begin

text \<open>
  Making the cluster's connections (\<^verbatim>\<open>gadgeteer/gadget/NetworkManager.cpp\<close>): the master
  connects to every node of its list, a slave waits for the master.  The operating system is an
  argument: which address a host name has (\<open>None\<close> is an \<^verbatim>\<open>IOException\<close>), the local
  interfaces, whether a socket can be opened, what the attempts to connect and the wait for a
  connection give.  A connection is the stream of what the peer will send.
\<close>

record net_env =
  resolve :: "string \<Rightarrow> u32 option"
  addressString :: "u32 \<Rightarrow> string"
  localAddrs :: "u32 list option"
  localHostAddr :: "u32 option"
  openStream :: "string \<Rightarrow> u16 \<Rightarrow> bool"
  attempt :: "string \<Rightarrow> u16 \<Rightarrow> nat \<Rightarrow> stream option"
  openServer :: "u16 \<Rightarrow> bool"
  acceptStream :: "u16 \<Rightarrow> (stream \<times> string \<times> u16) option"

section \<open>Hosts\<close>

definition unknown_host :: failure where
  "unknown_host = IOError ''unknown host''"

text \<open>Without a list of interfaces the local host's address is the only one, if that is known.\<close>

definition local_interfaces :: "'e net_env_scheme \<Rightarrow> u32 list" where
  "local_interfaces env =
     (case localAddrs env of
        Some addrs \<Rightarrow> addrs
      | None \<Rightarrow> (case localHostAddr env of Some addr \<Rightarrow> [addr] | None \<Rightarrow> []))"

definition isLocalHost :: "'e net_env_scheme \<Rightarrow> string \<Rightarrow> bool result" where
  "isLocalHost env testHostName =
     (case resolve env testHostName of
        None \<Rightarrow> Inl unknown_host
      | Some remote_address \<Rightarrow> Inr (list_ex (\<lambda>addr. addr = remote_address) (local_interfaces env)))"

fun find_address :: "'e net_env_scheme \<Rightarrow> string \<Rightarrow> 'a netmgr \<Rightarrow> nat list \<Rightarrow> nat option result" where
  "find_address env addr st [] = Inr None"
| "find_address env addr st (k # ks) =
     (case resolve env (mHostname (nHeap st k)) of
        None \<Rightarrow> Inl unknown_host
      | Some testing_node \<Rightarrow>
          if addr = addressString env testing_node then Inr (Some k) else find_address env addr st ks)"

definition getNodeByHostname :: "'e net_env_scheme \<Rightarrow> string \<Rightarrow> 'a netmgr \<Rightarrow> nat option result" where
  "getNodeByHostname env hostName st =
     (case resolve env hostName of
        None \<Rightarrow> Inl unknown_host
      | Some searching_for_node \<Rightarrow> find_address env (addressString env searching_for_node) st (mNodes st))"

section \<open>The master connects\<close>

lemma retry_next: "unat (r :: u16) < 51 \<Longrightarrow> unat (r + 1) = unat r + 1"
  by (simp add: unat_word_ariths(1))

lemma retry_more: "\<not> r > 50 \<longleftrightarrow> unat (r :: u16) < 51"
  by (simp add: word_less_nat_alt) arith

text \<open>The loop of \<^verbatim>\<open>connectTo\<close>; the exception is thrown on when 51 retries have been counted.\<close>

function connect_loop :: "(nat \<Rightarrow> stream option) \<Rightarrow> u16 \<Rightarrow> stream result" where
  "connect_loop att retry_count =
     (case att (unat retry_count) of
        Some s \<Rightarrow> Inr s
      | None \<Rightarrow>
          if retry_count > 50 then Inl (IOError ''connect failed'')
          else connect_loop att (retry_count + 1))"
  by pat_completeness auto

termination
  by (relation "measure (\<lambda>(att, retry_count). 51 - unat retry_count)") (auto simp: retry_next retry_more)

declare connect_loop.simps [simp del]

text \<open>\<^verbatim>\<open>connectTo\<close>; the answer of the reactor is not looked at.\<close>

definition connectTo :: "'e net_env_scheme \<Rightarrow> nat \<Rightarrow> 'a netmgr \<Rightarrow> bool result \<times> 'a netmgr" where
  "connectTo env k st =
     (let host = mHostname (nHeap st k); port = mPort (nHeap st k)
      in if resolve env host = None then (Inr False, st)
         else if \<not> openStream env host port then (Inl (IOError ''open failed''), st)
         else case connect_loop (attempt env host port) 0 of
                Inl e \<Rightarrow> (Inl e, st)
              | Inr sock_stream \<Rightarrow>
                  let st = upd_heap k (\<lambda>n. setStatus CONNECTED (n\<lparr>mSockStream := Some sock_stream\<rparr>)) st
                  in case reactor_addNode (nHeap st k) k (mReactor st) of
                       Inl e \<Rightarrow> (Inl e, st)
                     | Inr r \<Rightarrow> (Inr True, st\<lparr>mReactor := r\<rparr>))"

fun connect_all :: "'e net_env_scheme \<Rightarrow> nat list \<Rightarrow> bool \<Rightarrow> 'a netmgr \<Rightarrow> bool result \<times> 'a netmgr" where
  "connect_all env [] ret_val st = (Inr ret_val, st)"
| "connect_all env (k # ks) ret_val st =
     (case connectTo env k st of
        (Inl e, st) \<Rightarrow> (Inl e, st)
      | (Inr success, st) \<Rightarrow> connect_all env ks (ret_val \<or> success) st)"

definition connectToSlaves :: "'e net_env_scheme \<Rightarrow> 'a netmgr \<Rightarrow> bool result \<times> 'a netmgr" where
  "connectToSlaves env st = connect_all env (mNodes st) False st"

section \<open>A slave waits\<close>

text \<open>
  \<open>None\<close> is the call of \<^verbatim>\<open>exit\<close> when the port cannot be opened.  Any other
  \<^verbatim>\<open>IOException\<close> is caught: the new socket is closed and the slave goes on without a master.
\<close>

definition waitForConnection :: "'e net_env_scheme \<Rightarrow> u16 \<Rightarrow> 'a netmgr \<Rightarrow> (unit result \<times> 'a netmgr) option" where
  "waitForConnection env listenPort st =
     (if \<not> openServer env listenPort then None
      else Some (case acceptStream env listenPort of
        None \<Rightarrow> (Inr (), st)
      | Some (client_sock, remote_host_name, port) \<Rightarrow>
          (case getNodeByHostname env remote_host_name st of
             Inl e \<Rightarrow> (Inr (), st)
           | Inr (Some _) \<Rightarrow> (Inl (AssertionFailed ''We already know about the master node.''), st)
           | Inr None \<Rightarrow>
               if localHostAddr env = None then (Inr (), st)
               else
                 let st = addNode ''master'' remote_host_name port (Some client_sock) st
                 in case getNodeByHostname env remote_host_name st of
                      Inl e \<Rightarrow> (Inl (Undefined ''a node with a deleted stream''), st)
                    | Inr None \<Rightarrow> (Inl (AssertionFailed ''Master node must exist now.''), st)
                    | Inr (Some k) \<Rightarrow>
                        let st = upd_heap k (setStatus CONNECTED) st
                        in case reactor_addNode (nHeap st k) k (mReactor st) of
                             Inl e \<Rightarrow> (Inl e, st)
                           | Inr r \<Rightarrow> (Inr (), st\<lparr>mReactor := r\<rparr>))))"

section \<open>Bounds of the retries\<close>

lemma connect_loop_succeeds:
  "att (unat r + d) = Some s \<Longrightarrow> (\<forall>j < d. att (unat r + j) = None) \<Longrightarrow> unat r + d \<le> 51 \<Longrightarrow>
     connect_loop att r = Inr s"
proof (induction d arbitrary: r)
  case 0
  then show ?case by (simp add: connect_loop.simps)
next
  case (Suc d)
  have r: "unat (r + 1) = unat r + 1" "\<not> r > 50" using retry_next [of r] retry_more [of r] Suc.prems(3) by auto
  have "att (unat r) = None" using Suc.prems(2) by force
  moreover have "connect_loop att (r + 1) = Inr s"
    by (rule Suc.IH) (use Suc.prems r(1) in auto)
  ultimately show ?case using r(2) by (simp add: connect_loop.simps [of att r])
qed

lemma connect_loop_fails:
  "(\<forall>j \<le> 51. att j = None) \<Longrightarrow> unat r + d = 51 \<Longrightarrow> connect_loop att r = Inl (IOError ''connect failed'')"
proof (induction d arbitrary: r)
  case 0
  then have "r > 50" by (simp add: word_less_nat_alt)
  then show ?case using 0 by (simp add: connect_loop.simps)
next
  case (Suc d)
  have r: "unat (r + 1) = unat r + 1" "\<not> r > 50" using retry_next [of r] retry_more [of r] Suc.prems(2) by auto
  have "connect_loop att (r + 1) = Inl (IOError ''connect failed'')"
    by (rule Suc.IH) (use Suc.prems r(1) in auto)
  moreover have "att (unat r) = None" using Suc.prems by simp
  ultimately show ?case using r(2) by (simp add: connect_loop.simps [of att r])
qed

section \<open>The network once connected\<close>

text \<open>
  \<open>connects env n s\<close>: one of the first 52 attempts to connect to node \<open>n\<close> gives the stream
  \<open>s\<close>.  \<open>gives_up env n\<close>: the node's socket cannot be opened or all these attempts fail.
\<close>

definition connects :: "'e net_env_scheme \<Rightarrow> node \<Rightarrow> stream \<Rightarrow> bool" where
  "connects env n s \<longleftrightarrow> resolve env (mHostname n) \<noteq> None \<and> openStream env (mHostname n) (mPort n)
     \<and> (\<exists>i \<le> 51. attempt env (mHostname n) (mPort n) i = Some s \<and> (\<forall>j < i. attempt env (mHostname n) (mPort n) j = None))"

definition gives_up :: "'e net_env_scheme \<Rightarrow> node \<Rightarrow> bool" where
  "gives_up env n \<longleftrightarrow> resolve env (mHostname n) \<noteq> None \<and>
     (openStream env (mHostname n) (mPort n) \<longrightarrow> (\<forall>i \<le> 51. attempt env (mHostname n) (mPort n) i = None))"

definition joined :: "nat \<Rightarrow> stream \<Rightarrow> 'a netmgr \<Rightarrow> 'a netmgr" where
  "joined k s st = (upd_heap k (\<lambda>n. n\<lparr>mSockStream := Some s, mStatus := CONNECTED\<rparr>) st)\<lparr>mReactor :=
     (if mDemuxTable (mReactor st) (sHandle s) = None
      then (mReactor st)\<lparr>mDemuxTable := (mDemuxTable (mReactor st))(sHandle s \<mapsto> k),
             mSelector := mSelector (mReactor st) @ [sHandle s]\<rparr>
      else mReactor st)\<rparr>"

text \<open>A node whose name has no address is passed over.\<close>

definition tried :: "(nat \<Rightarrow> stream option) \<Rightarrow> nat \<Rightarrow> 'a netmgr \<Rightarrow> 'a netmgr" where
  "tried str k st = (case str k of Some s \<Rightarrow> joined k s st | None \<Rightarrow> st)"

definition tries :: "'e net_env_scheme \<Rightarrow> (nat \<Rightarrow> stream option) \<Rightarrow> nat \<Rightarrow> 'a netmgr \<Rightarrow> bool" where
  "tries env str k st \<longleftrightarrow> (case str k of Some s \<Rightarrow> connects env (nHeap st k) s
     | None \<Rightarrow> resolve env (mHostname (nHeap st k)) = None)"

lemma connectTo_connects:
  assumes "connects env (nHeap st k) s"
  shows "connectTo env k st = (Inr True, joined k s st)"
proof -
  obtain i where "i \<le> 51" "attempt env (mHostname (nHeap st k)) (mPort (nHeap st k)) i = Some s"
    "\<forall>j < i. attempt env (mHostname (nHeap st k)) (mPort (nHeap st k)) j = None"
    using assms by (auto simp: connects_def)
  then have "connect_loop (attempt env (mHostname (nHeap st k)) (mPort (nHeap st k))) 0 = Inr s"
    using connect_loop_succeeds [of _ 0 i s] by simp
  then show ?thesis
    using assms
    by (simp add: connectTo_def connects_def Let_def upd_heap_def setStatus_def reactor_addNode_def joined_def)
qed

lemma connectTo_gives_up:
  assumes "gives_up env (nHeap st k)"
  shows "\<exists>msg. connectTo env k st = (Inl (IOError msg), st)"
  using assms connect_loop_fails [of "attempt env (mHostname (nHeap st k)) (mPort (nHeap st k))" 0 51]
  by (auto simp: connectTo_def gives_up_def Let_def)

lemma connectTo_tries: "tries env str k st \<Longrightarrow> connectTo env k st = (Inr (str k \<noteq> None), tried str k st)"
  by (cases "str k") (simp_all add: tries_def tried_def connectTo_connects, simp add: connectTo_def)

lemma tried_heap: "j \<noteq> k \<Longrightarrow> nHeap (tried str k st) j = nHeap st j"
  by (simp add: tried_def joined_def upd_heap_def split: option.split)

lemma connect_all_tries:
  "distinct ks \<Longrightarrow> \<forall>k \<in> set ks. tries env str k st \<Longrightarrow>
     connect_all env (ks @ rest) b st = connect_all env rest (b \<or> (\<exists>k \<in> set ks. str k \<noteq> None)) (fold (tried str) ks st)"
proof (induction ks arbitrary: b st)
  case (Cons k ks)
  have "tries env str j (tried str k st) = tries env str j st" if "j \<in> set ks" for j
  proof -
    have "j \<noteq> k" using that Cons.prems(1) by auto
    then show ?thesis by (cases "str j") (simp_all add: tries_def tried_heap)
  qed
  then have "\<forall>j \<in> set ks. tries env str j (tried str k st)" using Cons.prems(2) by simp
  then show ?case
    using Cons.IH [of "tried str k st" "b \<or> str k \<noteq> None"] Cons.prems connectTo_tries [of env str k st] by (auto simp: disj_assoc)
qed simp

lemma fold_tried_heap:
  "distinct ks \<Longrightarrow> nHeap (fold (tried str) ks st) k =
     (case str k of Some s \<Rightarrow> if k \<in> set ks then (nHeap st k)\<lparr>mSockStream := Some s, mStatus := CONNECTED\<rparr> else nHeap st k
      | None \<Rightarrow> nHeap st k)"
  by (induction ks arbitrary: st) (auto simp: tried_def joined_def upd_heap_def split: option.split)

lemma fold_tried_other [simp]:
  "mNodes (fold (tried str) ks st) = mNodes st" "nApp (fold (tried str) ks st) = nApp st"
  "mHandlerMap (fold (tried str) ks st) = mHandlerMap st" "nNext (fold (tried str) ks st) = nNext st"
  by (induction ks arbitrary: st) (simp_all add: tried_def joined_def upd_heap_def split: option.split)

lemma fold_tried_reactor:
  assumes "inj_on (\<lambda>k. sHandle (str k)) (set ks)" and "distinct ks"
    and "\<forall>k \<in> set ks. mDemuxTable (mReactor st) (sHandle (str k)) = None"
  shows "mReactor (fold (tried (\<lambda>k. Some (str k))) ks st) =
    \<lparr>mSelector = mSelector (mReactor st) @ map (\<lambda>k. sHandle (str k)) ks,
     mDemuxTable = mDemuxTable (mReactor st) ++ map_of (map (\<lambda>k. (sHandle (str k), k)) ks)\<rparr>"
  using assms
proof (induction ks arbitrary: st)
  case (Cons k ks)
  let ?st = "joined k (str k) st"
  have r: "mReactor ?st = \<lparr>mSelector = mSelector (mReactor st) @ [sHandle (str k)],
      mDemuxTable = (mDemuxTable (mReactor st))(sHandle (str k) \<mapsto> k)\<rparr>"
    using Cons.prems(3) by (simp add: joined_def)
  have new: "sHandle (str j) \<noteq> sHandle (str k)" if "j \<in> set ks" for j
    using that Cons.prems(1,2) by (auto simp: inj_on_def)
  have "\<forall>j \<in> set ks. mDemuxTable (mReactor ?st) (sHandle (str j)) = None"
    using Cons.prems(3) new by (simp add: r)
  then have IH: "mReactor (fold (tried (\<lambda>k. Some (str k))) ks ?st) =
      \<lparr>mSelector = mSelector (mReactor ?st) @ map (\<lambda>k. sHandle (str k)) ks,
       mDemuxTable = mDemuxTable (mReactor ?st) ++ map_of (map (\<lambda>k. (sHandle (str k), k)) ks)\<rparr>"
    using Cons.IH [of ?st] Cons.prems(1,2) by simp
  have "sHandle (str k) \<notin> dom (map_of (map (\<lambda>k. (sHandle (str k), k)) ks))"
  proof
    assume "sHandle (str k) \<in> dom (map_of (map (\<lambda>k. (sHandle (str k), k)) ks))"
    then obtain j where "j \<in> set ks" "sHandle (str k) = sHandle (str j)" by (auto simp: dom_map_of_conv_image_fst)
    with new show False by metis
  qed
  then have upd: "(m(sHandle (str k) \<mapsto> k)) ++ map_of (map (\<lambda>k. (sHandle (str k), k)) ks)
      = m ++ map_of (map (\<lambda>k. (sHandle (str k), k)) (k # ks))" for m :: "nat \<rightharpoonup> nat"
    by (auto simp: map_add_def fun_eq_iff dom_def split: option.split)
  have step: "fold (tried (\<lambda>k. Some (str k))) (k # ks) st = fold (tried (\<lambda>k. Some (str k))) ks ?st"
    by (simp add: tried_def [of _ k])
  show ?case
    unfolding step IH r by (simp only: reactor.select_convs upd list.map append_assoc append_Cons append_Nil)
qed simp

lemma waitForConnection_accepts:
  assumes "openServer env port" and "acceptStream env port = Some (s, remote, p)" and "resolve env remote = Some a"
    and "localHostAddr env \<noteq> None" and "mNodes st = []" and "mReactor st = \<lparr>mSelector = [], mDemuxTable = Map.empty\<rparr>"
  shows "waitForConnection env port st = Some (Inr (),
    st\<lparr>nHeap := (nHeap st)(nNext st := (node_new ''master'' remote p (Some s))\<lparr>mStatus := CONNECTED\<rparr>),
       nNext := nNext st + 1, mNodes := [nNext st],
       mReactor := \<lparr>mSelector = [sHandle s], mDemuxTable = [sHandle s \<mapsto> nNext st]\<rparr>\<rparr>)"
  using assms
  by (auto simp: waitForConnection_def getNodeByHostname_def addNode_def node_new_def Let_def upd_heap_def setStatus_def
      reactor_addNode_def)

section \<open>Properties\<close>

text \<open>
  C22. What becomes of the connections to the slaves.  The nodes are tried in the order of the
  list, each at most 52 times; one whose name has no address is passed over.  When the others
  can be reached the call tells whether any was connected; but the first that stays
  unreachable ends the whole call with an exception: those before it are connected, and
  nothing after it is tried, reachable or not.
\<close>

theorem connectToSlaves_outcome:
  assumes "mNodes st = ks @ rest" and "distinct (mNodes st)" and "\<forall>k \<in> set ks. tries env str k st"
    and "rest \<noteq> [] \<Longrightarrow> gives_up env (nHeap st (hd rest))"
  shows "\<exists>msg st'. connectToSlaves env st =
      (if rest = [] then Inr (\<exists>k \<in> set ks. str k \<noteq> None) else Inl (IOError msg), st')
    \<and> (\<forall>k. isConnected (nHeap st' k) \<longleftrightarrow> k \<in> set ks \<and> str k \<noteq> None \<or> isConnected (nHeap st k))
    \<and> (\<forall>k s. k \<in> set ks \<longrightarrow> str k = Some s \<longrightarrow> mSockStream (nHeap st' k) = Some s)
    \<and> (\<forall>k \<in> set rest. nHeap st' k = nHeap st k)"
proof -
  let ?st = "fold (tried str) ks st"
  have dist: "distinct ks" "set ks \<inter> set rest = {}" using assms(1,2) by auto
  note heap = fold_tried_heap [OF dist(1), of str st]
  have other: "\<forall>k \<in> set rest. nHeap ?st k = nHeap st k"
    using dist(2) by (auto simp: heap split: option.split)
  have all: "connectToSlaves env st = connect_all env rest (\<exists>k \<in> set ks. str k \<noteq> None) ?st"
    using connect_all_tries [OF dist(1) assms(3), of rest False]
    unfolding connectToSlaves_def assms(1) by simp
  have "\<exists>msg. connectToSlaves env st =
      (if rest = [] then Inr (\<exists>k \<in> set ks. str k \<noteq> None) else Inl (IOError msg), ?st)"
  proof (cases rest)
    case (Cons k rest')
    then obtain msg where "connectTo env k ?st = (Inl (IOError msg), ?st)"
      using connectTo_gives_up [of env ?st k] assms(4) other by auto
    then show ?thesis unfolding all Cons by simp
  qed (simp add: all)
  moreover have "isConnected (nHeap ?st k) \<longleftrightarrow> k \<in> set ks \<and> str k \<noteq> None \<or> isConnected (nHeap st k)" for k
    by (auto simp: heap isConnected_def split: option.split)
  moreover have "mSockStream (nHeap ?st k) = Some s" if "k \<in> set ks" "str k = Some s" for k s
    using that by (simp add: heap)
  ultimately show ?thesis using other by blast
qed
text \<open>
  Four nodes: one is reached at the third attempt, one has no address, one never answers, and
  one would answer but is not tried.
\<close>

definition hosts_env :: net_env where
  "hosts_env = \<lparr>resolve = (\<lambda>h. if h = ''nowhere'' then None else Some 1), addressString = (\<lambda>_. ''1''),
     localAddrs = None, localHostAddr = None, openStream = (\<lambda>_ _. True),
     attempt = (\<lambda>h _ i. if h = ''dead'' \<or> i < 2 then None
       else Some \<lparr>sHandle = 5, sIncoming = [], sOutgoing = [], sBroken = False\<rparr>),
     openServer = (\<lambda>_. True), acceptStream = (\<lambda>_. None)\<rparr>"

definition hosts_example :: "unit netmgr" where
  "hosts_example = addNode ''d'' ''host-d'' 7000 None (addNode ''c'' ''dead'' 7000 None
     (addNode ''b'' ''nowhere'' 7000 None (addNode ''a'' ''host-a'' 7000 None (netmgr_new ()))))"

lemma hosts_example_nodes:
  "mNodes hosts_example = [0, 1, 2, 3]" "nHeap hosts_example 0 = node_new ''a'' ''host-a'' 7000 None"
  "nHeap hosts_example 1 = node_new ''b'' ''nowhere'' 7000 None" "nHeap hosts_example 2 = node_new ''c'' ''dead'' 7000 None"
  by (simp_all add: hosts_example_def addNode_def netmgr_new_def)

theorem connectToSlaves_outcome_witness:
  "\<exists>msg st'. connectToSlaves hosts_env hosts_example = (Inl (IOError msg), st')
    \<and> isConnected (nHeap st' 0) \<and> \<not> isConnected (nHeap st' 1) \<and> nHeap st' 3 = nHeap hosts_example 3"
proof -
  let ?str = "\<lambda>k::nat. if k = 0 then Some \<lparr>sHandle = 5, sIncoming = [], sOutgoing = [], sBroken = False\<rparr> else None"
  have "connects hosts_env (nHeap hosts_example 0) \<lparr>sHandle = 5, sIncoming = [], sOutgoing = [], sBroken = False\<rparr>"
    unfolding connects_def by (intro conjI exI [of _ 2]) (simp_all add: hosts_example_nodes hosts_env_def node_new_def)
  then have "\<forall>k \<in> set [0, 1]. tries hosts_env ?str k hosts_example"
    by (simp add: tries_def hosts_example_nodes [unfolded One_nat_def]) (simp add: hosts_env_def node_new_def)
  moreover have "gives_up hosts_env (nHeap hosts_example 2)"
    by (simp add: gives_up_def hosts_example_nodes hosts_env_def node_new_def)
  ultimately show ?thesis
    using connectToSlaves_outcome [of hosts_example "[0, 1]" "[2, 3]" hosts_env ?str]
    by (auto simp: hosts_example_nodes hosts_example_nodes [unfolded One_nat_def] isConnected_def node_new_def)
qed

end
