(* ===== verification/ClusterMgr.thy ===== *)
theory ClusterMgr
  imports ClusterConnect ClusterRim ClusterApp JcclConfig
begin

text \<open>
  The cluster manager (\<^verbatim>\<open>gadgeteer/cluster/ClusterManager.cpp\<close>, \<^verbatim>\<open>ConfigHandler.cpp\<close>): it
  collects the cluster's configuration, starts the cluster (the master connects to the slaves
  and sends them its configuration), keeps the plug-ins and calls them around each frame.

  The application's state of the network manager is a \<open>cluster_world\<close>: what the manager knows
  of the configuration, the node's JCCL configuration manager, and the plug-ins' own state
  \<open>'p\<close>.  A plug-in is a number, \<open>plug\<close> gives its virtual functions.  The XML of elements and
  configurations and the loader of plug-in libraries are arguments, in \<open>cluster_env\<close>.
\<close>

section \<open>State\<close>

record cluster_env = net_env +
  elVersion :: "config_element \<Rightarrow> nat"
  elNodes :: "config_element \<Rightarrow> string list"
  elHostName :: "config_element \<Rightarrow> string"
  elListenPort :: "config_element \<Rightarrow> int"
  elDisplaySystems :: "config_element \<Rightarrow> nat"
  elChildren :: "config_element \<Rightarrow> configuration"
  elPlugins :: "config_element \<Rightarrow> string list"
  elSwapLock :: "config_element \<Rightarrow> bool"
  elInputDevice :: "config_element \<Rightarrow> bool"
  printConfiguration :: "configuration \<Rightarrow> string"
  readConfiguration :: "string \<Rightarrow> configuration result"
  loadPlugin :: "string \<Rightarrow> nat \<Rightarrow> nat option"

record cluster_setup =
  mClusterActive :: bool
  mClusterStarted :: bool
  mWindowOpened :: bool
  mIsMaster :: bool
  mSoftwareSwapLock :: bool
  mListenPort :: u16
  mConfigChangeConn :: bool
  mClusterElement :: "config_element option"
  mClusterNodeElements :: "string \<rightharpoonup> config_element"
  mLocalNodeElement :: "config_element option"
  mSystemConfiguration :: configuration

record 'p cluster_world =
  cwSetup :: cluster_setup
  cwConfig :: "unit config_manager"
  cwPlugins :: 'p

record 'p cluster_plugin =
  getHandlerGUID :: guid
  isPluginReady :: "'p cluster_world \<Rightarrow> bool"
  plugin_preDraw :: "'p cluster_world netmgr \<Rightarrow> unit result \<times> 'p cluster_world netmgr"
  plugin_postPostFrame :: "'p cluster_world netmgr \<Rightarrow> unit result \<times> 'p cluster_world netmgr"
  plugin_handlePacket :: "'p cluster_world packet_handler"

record 'p cluster_mgr =
  mPlugins :: "nat list"
  mLoadedPlugins :: "string list"
  mClusterNetwork :: "'p cluster_world netmgr"
  mPreDrawCallCount :: u64
  mPostPostFrameCallCount :: u64

definition upd_setup :: "(cluster_setup \<Rightarrow> cluster_setup) \<Rightarrow> 'p cluster_world \<Rightarrow> 'p cluster_world" where
  "upd_setup f w = w\<lparr>cwSetup := f (cwSetup w)\<rparr>"

definition upd_app :: "('a \<Rightarrow> 'a) \<Rightarrow> 'a netmgr \<Rightarrow> 'a netmgr" where
  "upd_app f st = st\<lparr>nApp := f (nApp st)\<rparr>"

definition upd_net :: "('p cluster_world netmgr \<Rightarrow> 'p cluster_world netmgr) \<Rightarrow> 'p cluster_mgr \<Rightarrow> 'p cluster_mgr" where
  "upd_net f m = m\<lparr>mClusterNetwork := f (mClusterNetwork m)\<rparr>"

definition setup_of :: "'p cluster_mgr \<Rightarrow> cluster_setup" where
  "setup_of m = cwSetup (nApp (mClusterNetwork m))"

definition set_setup :: "(cluster_setup \<Rightarrow> cluster_setup) \<Rightarrow> 'p cluster_mgr \<Rightarrow> 'p cluster_mgr" where
  "set_setup f m = upd_net (upd_app (upd_setup f)) m"

definition DEFAULT_SLAVE_PORT :: u16 where
  "DEFAULT_SLAVE_PORT = 12599"

section \<open>Configuration\<close>

definition getElementType :: string where
  "getElementType = ''cluster_manager''"

definition recognizeClusterManagerConfig :: "config_element \<Rightarrow> bool" where
  "recognizeClusterManagerConfig element \<longleftrightarrow> getID element = getElementType"

definition recognizeRemoteDeviceConfig :: "cluster_env \<Rightarrow> 'p cluster_mgr \<Rightarrow> config_element \<Rightarrow> bool" where
  "recognizeRemoteDeviceConfig env m element \<longleftrightarrow> mClusterActive (setup_of m) \<and> elInputDevice env element"

text \<open>The network manager's own configuration calls: it takes the nodes' elements and does nothing.\<close>

definition getClusterNodeElementType :: string where
  "getClusterNodeElementType = ''cluster_node''"

definition recognizeClusterMachineConfig :: "config_element \<Rightarrow> bool" where
  "recognizeClusterMachineConfig element \<longleftrightarrow> getID element = getClusterNodeElementType"

definition network_configCanHandle :: "config_element \<Rightarrow> bool" where
  "network_configCanHandle elm \<longleftrightarrow> recognizeClusterMachineConfig elm"

definition network_configAdd :: "config_element \<Rightarrow> 'a netmgr \<Rightarrow> bool \<times> 'a netmgr" where
  "network_configAdd elm st = (True, st)"

definition network_configRemove :: "config_element \<Rightarrow> 'a netmgr \<Rightarrow> bool \<times> 'a netmgr" where
  "network_configRemove elm st = (True, st)"

definition mergeConfigurations :: "configuration \<Rightarrow> pending_type \<Rightarrow> configuration \<Rightarrow> configuration" where
  "mergeConfigurations src t dst =
     (if t = ADD then fold config_add src dst
      else fold (\<lambda>e dst. snd (config_remove (getName e) dst)) src dst)"

text \<open>
  The slot on JCCL's configuration signal.  The elements inside the local node's element become
  requests of their own; a node without windows does not wait for one to open.
\<close>

definition add_local_node :: "cluster_env \<Rightarrow> config_element \<Rightarrow> 'p cluster_world \<Rightarrow> unit result \<times> 'p cluster_world" where
  "add_local_node env node_elm w =
     (let w = upd_setup (\<lambda>s. s\<lparr>mLocalNodeElement := Some node_elm\<rparr>) w
      in if elDisplaySystems env node_elm \<noteq> 1
         then (Inl (AssertionFailed ''A Cluster System element must have exactly 1 display_system element''), w)
         else
           let child_elms = elChildren env node_elm;
               w = (if find (\<lambda>e. getID e = ''display_window'') child_elms = None
                    then upd_setup (\<lambda>s. s\<lparr>mWindowOpened := True\<rparr>) w else w)
           in (Inr (), w\<lparr>cwConfig := fold (\<lambda>e. addConfigElement e ADD) child_elms (cwConfig w)\<rparr>))"

fun add_node_elements :: "cluster_env \<Rightarrow> configuration \<Rightarrow> 'p cluster_world \<Rightarrow> unit result \<times> 'p cluster_world" where
  "add_node_elements env [] w = (Inr (), w)"
| "add_node_elements env (node_elm # elms) w =
     (let node_name = getName node_elm
      in if mClusterNodeElements (cwSetup w) node_name \<noteq> None
         then (Inl (ClusterError ''Already have a configuration element for cluster node''), w)
         else
           let w = upd_setup (\<lambda>s. s\<lparr>mClusterNodeElements := (mClusterNodeElements s)(node_name \<mapsto> node_elm)\<rparr>) w
           in case isLocalHost env (elHostName env node_elm) of
                Inl e \<Rightarrow> (Inl e, w)
              | Inr False \<Rightarrow> add_node_elements env elms w
              | Inr True \<Rightarrow>
                  (case add_local_node env node_elm w of
                     (Inl e, w) \<Rightarrow> (Inl e, w)
                   | (Inr _, w) \<Rightarrow> add_node_elements env elms w))"

definition take_cluster_element :: "configuration \<Rightarrow> pending_type \<Rightarrow> 'p cluster_world \<Rightarrow> unit result \<times> 'p cluster_world" where
  "take_cluster_element cfg t w =
     (case config_getByType ''cluster_manager'' cfg of
        [] \<Rightarrow> (Inr (), w)
      | element # elements \<Rightarrow>
          if t = REMOVE then (Inl (ClusterError ''Can't remove a cluster_manager element.''), w)
          else if mClusterElement (cwSetup w) \<noteq> None \<or> elements \<noteq> []
          then (Inl (ClusterError ''Can't have more than one cluster configurations.''), w)
          else (Inr (), upd_setup (\<lambda>s. s\<lparr>mClusterElement := Some element\<rparr>) w))"

definition configurationChanged :: "cluster_env \<Rightarrow> configuration \<Rightarrow> pending_type \<Rightarrow> 'p cluster_world
    \<Rightarrow> unit result \<times> 'p cluster_world" where
  "configurationChanged env cfg t w =
     (if mIsMaster (cwSetup w) \<and> mClusterStarted (cwSetup w)
      then (Inl (AssertionFailed ''Configuration can not change after cluster is started.''), w)
      else case take_cluster_element cfg t w of
             (Inl e, w) \<Rightarrow> (Inl e, w)
           | (Inr _, w) \<Rightarrow>
               (case add_node_elements env (config_getByType ''cluster_node'' cfg) w of
                  (Inl e, w) \<Rightarrow> (Inl e, w)
                | (Inr _, w) \<Rightarrow>
                    (Inr (), upd_setup (\<lambda>s. s\<lparr>mSystemConfiguration :=
                       mergeConfigurations cfg t (mSystemConfiguration s)\<rparr>) w)))"

text \<open>
  \<^verbatim>\<open>addConfigurationAdditions\<close> and \<^verbatim>\<open>addConfigurationRemovals\<close> of JCCL's manager, with the
  cluster manager's slot on the signal, if it is connected.
\<close>

definition signal_configuration :: "cluster_env \<Rightarrow> configuration \<Rightarrow> pending_type \<Rightarrow> 'p cluster_world
    \<Rightarrow> unit result \<times> 'p cluster_world" where
  "signal_configuration env cfg t w =
     (case (if mConfigChangeConn (cwSetup w) then configurationChanged env cfg t w else (Inr (), w)) of
        (Inl e, w) \<Rightarrow> (Inl e, w)
      | (Inr _, w) \<Rightarrow>
          (case lockIncoming (cwConfig w) of
             Inl e \<Rightarrow> (Inl e, w)
           | Inr cm \<Rightarrow> (Inr (), w\<lparr>cwConfig := unlockIncoming (add_incoming t cfg cm)\<rparr>)))"

definition config_handler_guid :: guid where
  "config_handler_guid = \<lparr>g_m0 = 0xf3ea94e2, g_m1 = 0x82fc, g_m2 = 0x43f6, g_m3 = 0xa5, g_m4 = 0x7f,
     g_m5 = [0x47, 0x4d, 0x3f, 0xd1, 0xd6, 0xeb]\<rparr>"

lemma config_handler_guid: "config_guid = Inr config_handler_guid"
  by (simp add: config_guid_value config_handler_guid_def)

definition config_handlePacket :: "cluster_env \<Rightarrow> 'p cluster_world packet_handler" where
  "config_handlePacket env packet node w =
     (case mHeader packet of
        None \<Rightarrow> (Inl (Undefined ''null header''), w)
      | Some h \<Rightarrow>
          if mPacketType h \<noteq> CONFIG_PACKET then (Inl (AssertionFailed ''Not a config packet.''), w)
          else case mBody packet of
                 ConfigPacket config type \<Rightarrow>
                   (case readConfiguration env config of
                      Inl e \<Rightarrow> (Inl e, w)
                    | Inr incoming_config \<Rightarrow>
                        signal_configuration env incoming_config (if type = 0 then ADD else REMOVE) w)
               | _ \<Rightarrow> (Inl (AssertionFailed ''Failed to cast ConfigPacket.''), w))"

section \<open>Plug-ins\<close>

definition addPlugin :: "(nat \<Rightarrow> 'p cluster_plugin) \<Rightarrow> nat \<Rightarrow> 'p cluster_mgr \<Rightarrow> 'p cluster_mgr" where
  "addPlugin plug newPlugin m =
     (if newPlugin \<in> set (mPlugins m) then m
      else upd_net (addHandler (getHandlerGUID (plug newPlugin)) (plugin_handlePacket (plug newPlugin)))
             (m\<lparr>mPlugins := mPlugins m @ [newPlugin]\<rparr>))"

definition getPluginByGUID :: "(nat \<Rightarrow> 'p cluster_plugin) \<Rightarrow> guid \<Rightarrow> 'p cluster_mgr \<Rightarrow> nat option" where
  "getPluginByGUID plug pluginGuid m = find (\<lambda>p. getHandlerGUID (plug p) = pluginGuid) (mPlugins m)"

text \<open>The plug-in stays a packet handler of the network.\<close>

definition removePlugin :: "nat \<Rightarrow> 'p cluster_mgr \<Rightarrow> 'p cluster_mgr" where
  "removePlugin oldPlugin m = m\<lparr>mPlugins := remove1 oldPlugin (mPlugins m)\<rparr>"

definition pluginsReady :: "(nat \<Rightarrow> 'p cluster_plugin) \<Rightarrow> 'p cluster_mgr \<Rightarrow> bool" where
  "pluginsReady plug m \<longleftrightarrow> list_all (\<lambda>p. isPluginReady (plug p) (nApp (mClusterNetwork m))) (mPlugins m)"

definition isClusterReady :: "(nat \<Rightarrow> 'p cluster_plugin) \<Rightarrow> 'p cluster_mgr \<Rightarrow> bool" where
  "isClusterReady plug m \<longleftrightarrow> mWindowOpened (setup_of m) \<and> pluginsReady plug m"

text \<open>
  Loading a plug-in makes it: the loader's answer depends on how many have been made.  A
  library that is not found or is of another version is reported and passed over.
\<close>

definition load_plugin :: "cluster_env \<Rightarrow> (nat \<Rightarrow> 'p cluster_plugin) \<Rightarrow> string \<Rightarrow> 'p cluster_mgr \<Rightarrow> 'p cluster_mgr" where
  "load_plugin env plug plugin_dso_name m =
     (if plugin_dso_name = [] then m
      else case loadPlugin env plugin_dso_name (length (mLoadedPlugins m)) of
             None \<Rightarrow> m
           | Some p \<Rightarrow>
               let m = addPlugin plug p m
               in m\<lparr>mLoadedPlugins := mLoadedPlugins m @ [plugin_dso_name]\<rparr>)"

definition cluster_configAdd :: "cluster_env \<Rightarrow> (nat \<Rightarrow> 'p cluster_plugin) \<Rightarrow> config_element \<Rightarrow> 'p cluster_mgr
    \<Rightarrow> bool \<times> 'p cluster_mgr" where
  "cluster_configAdd env plug element m =
     (if elVersion env element < 3 then (False, m)
      else (True, set_setup (\<lambda>s. s\<lparr>mSoftwareSwapLock := elSwapLock env element\<rparr>)
                    (fold (load_plugin env plug) (elPlugins env element) m)))"

definition cluster_configRemove :: "config_element \<Rightarrow> bool" where
  "cluster_configRemove element \<longleftrightarrow> recognizeClusterManagerConfig element"

definition cluster_configCanHandle :: "config_element \<Rightarrow> bool" where
  "cluster_configCanHandle element \<longleftrightarrow> recognizeClusterManagerConfig element"

section \<open>Starting the cluster\<close>

definition ClusterManager_new :: "cluster_env \<Rightarrow> unit config_manager \<Rightarrow> 'p \<Rightarrow> 'p cluster_mgr" where
  "ClusterManager_new env cm plugins =
     \<lparr>mPlugins = [], mLoadedPlugins = [],
      mClusterNetwork = addHandler config_handler_guid (config_handlePacket env)
        (netmgr_new \<lparr>cwSetup = \<lparr>mClusterActive = False, mClusterStarted = False, mWindowOpened = False,
             mIsMaster = False, mSoftwareSwapLock = False, mListenPort = DEFAULT_SLAVE_PORT,
             mConfigChangeConn = False, mClusterElement = None, mClusterNodeElements = Map.empty,
             mLocalNodeElement = None, mSystemConfiguration = []\<rparr>, cwConfig = cm, cwPlugins = plugins\<rparr>),
      mPreDrawCallCount = 0, mPostPostFrameCallCount = 0\<rparr>"

definition connectToConfigManager :: "nat \<Rightarrow> 'p cluster_mgr \<Rightarrow> 'p cluster_mgr" where
  "connectToConfigManager network m =
     upd_net (upd_app (\<lambda>w. upd_setup (\<lambda>s. s\<lparr>mConfigChangeConn := True\<rparr>)
       (w\<lparr>cwConfig := registerChecker ClusterDepChecker (addConfigElementHandler network (cwConfig w))\<rparr>))) m"

definition disconnectFromConfigManager :: "nat \<Rightarrow> 'p cluster_mgr \<Rightarrow> 'p cluster_mgr" where
  "disconnectFromConfigManager network m =
     upd_net (upd_app (\<lambda>w. upd_setup (\<lambda>s. s\<lparr>mConfigChangeConn := False\<rparr>)
       (w\<lparr>cwConfig := unregisterChecker ClusterDepChecker (removeConfigElementHandler network (cwConfig w))\<rparr>))) m"

definition cluster_init_roles :: "bool \<Rightarrow> bool \<Rightarrow> 'p cluster_mgr \<Rightarrow> 'p cluster_mgr" where
  "cluster_init_roles master slave m =
     set_setup (\<lambda>s. s\<lparr>mIsMaster := master, mClusterActive := master \<or> slave\<rparr>) m"

definition setListenPort :: "u16 \<Rightarrow> 'p cluster_mgr \<Rightarrow> 'p cluster_mgr" where
  "setListenPort listenPort m = set_setup (\<lambda>s. s\<lparr>mListenPort := listenPort\<rparr>) m"

definition windowOpened :: "'p cluster_mgr \<Rightarrow> 'p cluster_mgr" where
  "windowOpened m = set_setup (\<lambda>s. s\<lparr>mWindowOpened := True\<rparr>) m"

text \<open>\<^verbatim>\<open>listen_port\<close> is read as an \<^verbatim>\<open>int\<close> and kept in 16 bits before it is compared with 0.\<close>

definition slave_port :: "cluster_env \<Rightarrow> config_element \<Rightarrow> u16" where
  "slave_port env node_element =
     (let listen_port = word_of_int (elListenPort env node_element)
      in if 0 = listen_port then DEFAULT_SLAVE_PORT else listen_port)"

fun add_cluster_nodes :: "cluster_env \<Rightarrow> string list \<Rightarrow> 'p cluster_world netmgr
    \<Rightarrow> unit result \<times> 'p cluster_world netmgr" where
  "add_cluster_nodes env [] st = (Inr (), st)"
| "add_cluster_nodes env (new_node # new_nodes) st =
     (case mClusterNodeElements (cwSetup (nApp st)) new_node of
        None \<Rightarrow> (Inl (ClusterError ''Can't find configuration for node''), st)
      | Some node_element \<Rightarrow>
          (case isLocalHost env (elHostName env node_element) of
             Inl e \<Rightarrow> (Inl e, st)
           | Inr local \<Rightarrow>
               add_cluster_nodes env new_nodes
                 (if local then st
                  else addNode (getName node_element) (elHostName env node_element) (slave_port env node_element) None st)))"

definition configCluster :: "cluster_env \<Rightarrow> config_element \<Rightarrow> 'p cluster_mgr \<Rightarrow> unit result \<times> 'p cluster_mgr" where
  "configCluster env element m =
     (if \<not> cluster_configCanHandle element then (Inl (AssertionFailed ''configCanHandle(element)''), m)
      else let (res, st) = add_cluster_nodes env (elNodes env element) (mClusterNetwork m) in (res, upd_net (\<lambda>_. st) m))"

fun send_configuration :: "bool \<Rightarrow> string \<Rightarrow> nat list \<Rightarrow> 'a netmgr \<Rightarrow> unit result \<times> 'a netmgr" where
  "send_configuration le config [] st = (Inr (), st)"
| "send_configuration le config (k # ks) st =
     (case rbind (config_new le config 0) (\<lambda>cfg_pkt. node_send cfg_pkt (nHeap st k)) of
        Inl e \<Rightarrow> (Inl e, st)
      | Inr n \<Rightarrow> send_configuration le config ks (upd_heap k (\<lambda>_. n) st))"

text \<open>
  \<^verbatim>\<open>ClusterManager::barrier\<close> and \<^verbatim>\<open>update\<close> are the network's.  The value \<open>None\<close> of these and
  of what follows is not returning (or, for a slave that starts, the call of \<^verbatim>\<open>exit\<close>).
\<close>

definition on_network :: "('p cluster_world netmgr \<Rightarrow> (unit result \<times> 'p cluster_world netmgr) option) \<Rightarrow> 'p cluster_mgr
    \<Rightarrow> (unit result \<times> 'p cluster_mgr) option" where
  "on_network f m = map_option (\<lambda>(res, st). (res, upd_net (\<lambda>_. st) m)) (f (mClusterNetwork m))"

definition cluster_barrier :: "bool \<Rightarrow> (nat \<Rightarrow> nat list option) \<Rightarrow> 'p cluster_mgr \<Rightarrow> (unit result \<times> 'p cluster_mgr) option" where
  "cluster_barrier le sel m = on_network (barrier le sel (mIsMaster (setup_of m))) m"

definition cluster_start :: "bool \<Rightarrow> (nat \<Rightarrow> nat list option) \<Rightarrow> cluster_env \<Rightarrow> 'p cluster_mgr
    \<Rightarrow> (unit result \<times> 'p cluster_mgr) option" where
  "cluster_start le sel env m =
     (let m = set_setup (\<lambda>s. s\<lparr>mClusterStarted := True\<rparr>) m
      in if mIsMaster (setup_of m)
         then case mClusterElement (setup_of m) of
                None \<Rightarrow> Some (Inl (ClusterError ''Master must have a ClusterManager config element.''), m)
              | Some element \<Rightarrow>
                  (case configCluster env element m of
                     (Inl e, m) \<Rightarrow> Some (Inl e, m)
                   | (Inr _, m) \<Rightarrow>
                       (case connectToSlaves env (mClusterNetwork m) of
                          (Inl e, st) \<Rightarrow> Some (Inl e, upd_net (\<lambda>_. st) m)
                        | (Inr _, st) \<Rightarrow>
                            (case send_configuration le (printConfiguration env (mSystemConfiguration (cwSetup (nApp st))))
                                    (mNodes st) st of
                               (Inl e, st) \<Rightarrow> Some (Inl e, upd_net (\<lambda>_. st) m)
                             | (Inr _, st) \<Rightarrow> cluster_barrier le sel (upd_net (\<lambda>_. st) m))))
         else case waitForConnection env (mListenPort (setup_of m)) (mClusterNetwork m) of
                None \<Rightarrow> None
              | Some (Inl e, st) \<Rightarrow> Some (Inl e, upd_net (\<lambda>_. st) m)
              | Some (Inr _, st) \<Rightarrow> cluster_barrier le sel (upd_net (\<lambda>_. st) m))"

section \<open>A frame\<close>

fun call_plugins :: "('w netmgr \<Rightarrow> unit result \<times> 'w netmgr) list \<Rightarrow> 'w netmgr \<Rightarrow> unit result \<times> 'w netmgr" where
  "call_plugins [] st = (Inr (), st)"
| "call_plugins (call # calls) st =
     (case call st of
        (Inl e, st) \<Rightarrow> (Inl e, st)
      | (Inr _, st) \<Rightarrow> call_plugins calls st)"

text \<open>Without plug-ins the network is corked and stays so: only \<^verbatim>\<open>update\<close> uncorks it.\<close>

definition cluster_preDraw :: "bool \<Rightarrow> (nat \<Rightarrow> nat list option) \<Rightarrow> (nat \<Rightarrow> 'p cluster_plugin) \<Rightarrow> 'p cluster_mgr
    \<Rightarrow> (unit result \<times> 'p cluster_mgr) option" where
  "cluster_preDraw le sel plug m =
     (case corkNetwork (mClusterNetwork m) of
        Inl e \<Rightarrow> Some (Inl e, m)
      | Inr _ \<Rightarrow>
          (case call_plugins (map (\<lambda>p. plugin_preDraw (plug p)) (mPlugins m)) (mClusterNetwork m) of
             (Inl e, st) \<Rightarrow> Some (Inl e, upd_net (\<lambda>_. st) m)
           | (Inr _, st) \<Rightarrow>
               let m = upd_net (\<lambda>_. st) m
               in if mPlugins m \<noteq> []
                  then on_network (update le sel 2) (m\<lparr>mPreDrawCallCount := mPreDrawCallCount m + 1\<rparr>)
                  else Some (Inr (), m)))"

definition cluster_postPostFrame :: "bool \<Rightarrow> (nat \<Rightarrow> nat list option) \<Rightarrow> (nat \<Rightarrow> 'p cluster_plugin) \<Rightarrow> 'p cluster_mgr
    \<Rightarrow> (unit result \<times> 'p cluster_mgr) option" where
  "cluster_postPostFrame le sel plug m =
     (case corkNetwork (mClusterNetwork m) of
        Inl e \<Rightarrow> Some (Inl e, m)
      | Inr _ \<Rightarrow>
          (case call_plugins (map (\<lambda>p. plugin_postPostFrame (plug p)) (mPlugins m)) (mClusterNetwork m) of
             (Inl e, st) \<Rightarrow> Some (Inl e, upd_net (\<lambda>_. st) m)
           | (Inr _, st) \<Rightarrow>
               let m = upd_net (\<lambda>_. st) m
               in if mPlugins m \<noteq> []
                  then on_network (update le sel 3) (m\<lparr>mPostPostFrameCallCount := mPostPostFrameCallCount m + 1\<rparr>)
                  else Some (Inr (), m)))"

definition swapBarrier :: "bool \<Rightarrow> (nat \<Rightarrow> nat list option) \<Rightarrow> 'p cluster_mgr \<Rightarrow> (unit result \<times> 'p cluster_mgr) option" where
  "swapBarrier le sel m =
     (if mSoftwareSwapLock (setup_of m) then cluster_barrier le sel m else Some (Inr (), m))"

section \<open>Properties\<close>

text \<open>
  C23. A plug-in that replaces another gets no packets.  Removing a plug-in from the manager
  leaves it the network's handler of its GUID, and the handler map keeps the first handler of a
  GUID: when another plug-in of the same GUID is added afterwards, the manager finds the new
  one and calls it in every frame, but every packet for it goes to the one removed.
\<close>

theorem replaced_plugin_deaf:
  assumes "old \<noteq> new" and "getHandlerGUID (plug old) = g" and "getHandlerGUID (plug new) = g"
    and "getPluginByGUID plug g m = None" and "getHandlerByGUID g (mClusterNetwork m) = None"
  defines "removed \<equiv> removePlugin old (addPlugin plug old m)"
  shows "getPluginByGUID plug g removed = None
    \<and> getHandlerByGUID g (mClusterNetwork removed) = Some (plugin_handlePacket (plug old))
    \<and> getPluginByGUID plug g (addPlugin plug new removed) = Some new
    \<and> getHandlerByGUID g (mClusterNetwork (addPlugin plug new removed)) = Some (plugin_handlePacket (plug old))"
proof -
  have none: "\<forall>p \<in> set (mPlugins m). getHandlerGUID (plug p) \<noteq> g"
    using assms(4) by (auto simp: getPluginByGUID_def find_None_iff)
  then have new: "old \<notin> set (mPlugins m)" "new \<notin> set (mPlugins m)" using assms(2,3) by auto
  then have removed: "mPlugins removed = mPlugins m"
    "mHandlerMap (mClusterNetwork removed) g = Some (plugin_handlePacket (plug old))"
    using assms(2,5)
    by (simp_all add: removed_def removePlugin_def addPlugin_def upd_net_def addHandler_def getHandlerByGUID_def remove1_append)
  moreover have "find (\<lambda>p. getHandlerGUID (plug p) = g) (mPlugins m) = None"
    using assms(4) by (simp add: getPluginByGUID_def)
  moreover have "find (\<lambda>p. getHandlerGUID (plug p) = g) (ps @ [new]) = Some new"
    if "\<forall>p \<in> set ps. getHandlerGUID (plug p) \<noteq> g" for ps
    using that assms(3) by (induction ps) auto
  note this [OF none]
  ultimately show ?thesis
    using new assms(3) by (simp add: getPluginByGUID_def getHandlerByGUID_def addPlugin_def upd_net_def addHandler_def)
qed
text \<open>
  Two hosts of a cluster: \<open>own\<close> is this one's address.  The master's host is 1; the
  configuration is three elements, for the cluster and its two nodes.
\<close>

definition example_element :: config_element where
  "example_element = \<lparr>getName = ''cluster'', getID = ''cluster_manager'', getElementPtrDependencies = []\<rparr>"

definition example_config :: configuration where
  "example_config = [example_element, \<lparr>getName = ''head'', getID = ''cluster_node'', getElementPtrDependencies = []\<rparr>,
     \<lparr>getName = ''wall'', getID = ''cluster_node'', getElementPtrDependencies = []\<rparr>]"

definition example_env :: "u32 \<Rightarrow> cluster_env" where
  "example_env own = \<lparr>resolve = (\<lambda>h. if h = ''head'' then Some 1 else if h = ''wall'' then Some 2 else None),
     addressString = (\<lambda>a. if a = 1 then ''1'' else ''2''), localAddrs = Some [own], localHostAddr = Some own,
     openStream = (\<lambda>_ _. True),
     attempt = (\<lambda>_ _ i. if i < 3 then None
       else Some \<lparr>sHandle = 5, sIncoming = wire [] (EndMsg 0), sOutgoing = [], sBroken = False\<rparr>),
     openServer = (\<lambda>_. True),
     acceptStream = (\<lambda>_. Some (\<lparr>sHandle = 7, sIncoming = wire [] (ConfigMsg ''<c/>'' 0) @ wire [] (EndMsg 0),
       sOutgoing = [], sBroken = False\<rparr>, ''head'', 7000)),
     elVersion = (\<lambda>_. 3), elNodes = (\<lambda>_. [''head'', ''wall'']), elHostName = getName, elListenPort = (\<lambda>_. 0),
     elDisplaySystems = (\<lambda>_. 1),
     elChildren = (\<lambda>e. [\<lparr>getName = ''window'', getID = ''display_window'', getElementPtrDependencies = []\<rparr>]),
     elPlugins = (\<lambda>_. []), elSwapLock = (\<lambda>_. False), elInputDevice = (\<lambda>_. False),
     printConfiguration = (\<lambda>_. ''<c/>''), readConfiguration = (\<lambda>_. Inr example_config), loadPlugin = (\<lambda>_ _. None)\<rparr>"

definition example_plugin :: "nat \<Rightarrow> unit cluster_plugin" where
  "example_plugin i = \<lparr>getHandlerGUID = config_handler_guid\<lparr>g_m0 := 0\<rparr>, isPluginReady = (\<lambda>_. True),
     plugin_preDraw = (\<lambda>st. (Inr (), st)), plugin_postPostFrame = (\<lambda>st. (Inr (), st)),
     plugin_handlePacket = (\<lambda>p k w. (if i = 0 then Inl (ClusterError ''old'') else Inr (), w))\<rparr>"

theorem replaced_plugin_deaf_witness:
  "let m = ClusterManager_new (example_env 1) (config_manager_new ()) () :: unit cluster_mgr;
       g = getHandlerGUID (example_plugin 0);
       m = addPlugin example_plugin 1 (removePlugin 0 (addPlugin example_plugin 0 m))
   in getPluginByGUID example_plugin g m = Some 1
      \<and> getHandlerByGUID g (mClusterNetwork m) = Some (plugin_handlePacket (example_plugin 0))"
  using replaced_plugin_deaf [of 0 1 example_plugin "getHandlerGUID (example_plugin 0)"
      "ClusterManager_new (example_env 1) (config_manager_new ()) ()"]
  by (simp add: example_plugin_def ClusterManager_new_def getPluginByGUID_def getHandlerByGUID_def addHandler_def
      netmgr_new_def config_handler_guid_def Let_def)

end
