(* ===== verification/ClusterStart.thy ===== *)
theory ClusterStart
  imports ClusterMgr
begin

text \<open>
  Starting a cluster: what the cluster manager takes from a configuration, what the master's
  start does to the network, and what a slave has when its start returns.
\<close>

section \<open>Taking a configuration\<close>

definition take_node :: "cluster_env \<Rightarrow> (config_element \<Rightarrow> bool) \<Rightarrow> config_element \<Rightarrow> 'p cluster_world \<Rightarrow> 'p cluster_world" where
  "take_node env loc e w =
     (let w = upd_setup (\<lambda>s. s\<lparr>mClusterNodeElements := (mClusterNodeElements s)(getName e \<mapsto> e)\<rparr>) w
      in if loc e then snd (add_local_node env e w) else w)"

text \<open>
  A configuration the manager accepts: one element for the cluster at most, and none before;
  each node's element with a new name and a host that can be found; \<open>loc\<close> tells which of
  the nodes are this host.
\<close>

definition acceptable :: "cluster_env \<Rightarrow> (config_element \<Rightarrow> bool) \<Rightarrow> configuration \<Rightarrow> cluster_setup \<Rightarrow> bool" where
  "acceptable env loc cfg s \<longleftrightarrow> \<not> (mIsMaster s \<and> mClusterStarted s)
     \<and> length (config_getByType ''cluster_manager'' cfg) \<le> 1
     \<and> (config_getByType ''cluster_manager'' cfg = [] \<or> mClusterElement s = None)
     \<and> distinct (map getName (config_getByType ''cluster_node'' cfg))
     \<and> list_all (\<lambda>e. mClusterNodeElements s (getName e) = None \<and> isLocalHost env (elHostName env e) = Inr (loc e)
          \<and> (loc e \<longrightarrow> elDisplaySystems env e = 1)) (config_getByType ''cluster_node'' cfg)"

definition local_children :: "cluster_env \<Rightarrow> (config_element \<Rightarrow> bool) \<Rightarrow> configuration \<Rightarrow> configuration" where
  "local_children env loc cfg =
     concat (map (elChildren env) (filter loc (config_getByType ''cluster_node'' cfg)))"

lemma upd_setup_other [simp]:
  "cwSetup (upd_setup f w) = f (cwSetup w)" "cwPlugins (upd_setup f w) = cwPlugins w" "cwConfig (upd_setup f w) = cwConfig w"
  by (simp_all add: upd_setup_def)

lemma add_local_node_other [simp]:
  "mClusterNodeElements (cwSetup (snd (add_local_node env e w))) = mClusterNodeElements (cwSetup w)"
  "mSystemConfiguration (cwSetup (snd (add_local_node env e w))) = mSystemConfiguration (cwSetup w)"
  "mClusterElement (cwSetup (snd (add_local_node env e w))) = mClusterElement (cwSetup w)"
  "mIsMaster (cwSetup (snd (add_local_node env e w))) = mIsMaster (cwSetup w)"
  "cwPlugins (snd (add_local_node env e w)) = cwPlugins w"
  by (auto simp: add_local_node_def Let_def)

lemma add_local_node_ok:
  assumes "elDisplaySystems env e = 1"
  shows "add_local_node env e w = (Inr (), snd (add_local_node env e w))"
    and "cwConfig (snd (add_local_node env e w)) = fold (\<lambda>c. addConfigElement c ADD) (elChildren env e) (cwConfig w)"
  using assms by (simp_all add: add_local_node_def Let_def)

lemma take_node_other [simp]:
  "mClusterNodeElements (cwSetup (take_node env loc e w)) = (mClusterNodeElements (cwSetup w))(getName e \<mapsto> e)"
  "mSystemConfiguration (cwSetup (take_node env loc e w)) = mSystemConfiguration (cwSetup w)"
  "mClusterElement (cwSetup (take_node env loc e w)) = mClusterElement (cwSetup w)"
  "mIsMaster (cwSetup (take_node env loc e w)) = mIsMaster (cwSetup w)"
  "cwPlugins (take_node env loc e w) = cwPlugins w"
  by (auto simp: take_node_def Let_def)

lemma take_node_config:
  assumes "loc e \<longrightarrow> elDisplaySystems env e = 1"
  shows "cwConfig (take_node env loc e w) =
      fold (\<lambda>c. addConfigElement c ADD) (if loc e then elChildren env e else []) (cwConfig w)"
  using assms by (auto simp: take_node_def add_local_node_def Let_def)

lemma add_node_elements_takes:
  "distinct (map getName es) \<Longrightarrow> list_all (\<lambda>e. mClusterNodeElements (cwSetup w) (getName e) = None
      \<and> isLocalHost env (elHostName env e) = Inr (loc e) \<and> (loc e \<longrightarrow> elDisplaySystems env e = 1)) es \<Longrightarrow>
    add_node_elements env es w = (Inr (), fold (take_node env loc) es w)"
proof (induction es arbitrary: w)
  case (Cons e es)
  have e: "mClusterNodeElements (cwSetup w) (getName e) = None" "isLocalHost env (elHostName env e) = Inr (loc e)"
    "loc e \<longrightarrow> elDisplaySystems env e = 1" using Cons.prems(2) by simp_all
  have "list_all (\<lambda>x. mClusterNodeElements (cwSetup (take_node env loc e w)) (getName x) = None
      \<and> isLocalHost env (elHostName env x) = Inr (loc x) \<and> (loc x \<longrightarrow> elDisplaySystems env x = 1)) es"
    using Cons.prems by (auto simp: list_all_iff image_iff)
  then have IH: "add_node_elements env es (take_node env loc e w) = (Inr (), fold (take_node env loc) es (take_node env loc e w))"
    using Cons.IH [of "take_node env loc e w"] Cons.prems(1) by simp
  show ?case
  proof (cases "loc e")
    case True
    let ?w = "upd_setup (\<lambda>s. s\<lparr>mClusterNodeElements := (mClusterNodeElements s)(getName e \<mapsto> e)\<rparr>) w"
    have "add_local_node env e ?w = (Inr (), snd (add_local_node env e ?w))"
      by (rule add_local_node_ok(1)) (use True e(3) in simp)
    also have "snd (add_local_node env e ?w) = take_node env loc e w" using True by (simp add: take_node_def)
    finally have "add_local_node env e ?w = (Inr (), take_node env loc e w)" .
    then show ?thesis using True e(1,2) IH by simp
  next
    case False
    then show ?thesis using e IH by (simp add: take_node_def [of env loc e w])
  qed
qed simp

lemma taken_nodes:
  assumes "list_all (\<lambda>e. loc e \<longrightarrow> elDisplaySystems env e = 1) es"
  shows "mSystemConfiguration (cwSetup (fold (take_node env loc) es w)) = mSystemConfiguration (cwSetup w)"
    and "mClusterElement (cwSetup (fold (take_node env loc) es w)) = mClusterElement (cwSetup w)"
    and "mIsMaster (cwSetup (fold (take_node env loc) es w)) = mIsMaster (cwSetup w)"
    and "cwPlugins (fold (take_node env loc) es w) = cwPlugins w"
    and "cwConfig (fold (take_node env loc) es w) =
      fold (\<lambda>c. addConfigElement c ADD) (concat (map (elChildren env) (filter loc es))) (cwConfig w)"
  using assms by (induction es arbitrary: w) (simp_all add: take_node_config)

lemma taken_node_elements_other:
  "n \<notin> getName ` set es \<Longrightarrow>
     mClusterNodeElements (cwSetup (fold (take_node env loc) es w)) n = mClusterNodeElements (cwSetup w) n"
  by (induction es arbitrary: w) simp_all

lemma taken_node_elements:
  "distinct (map getName es) \<Longrightarrow> e \<in> set es \<Longrightarrow>
     mClusterNodeElements (cwSetup (fold (take_node env loc) es w)) (getName e) = Some e"
  by (induction es arbitrary: w) (auto simp: taken_node_elements_other)

lemma fold_addConfigElement:
  "fold (\<lambda>c. addConfigElement c t) cs cm = cm\<lparr>mIncomingConfig := mIncomingConfig cm @ map (\<lambda>c. \<lparr>mType = t, mElement = c\<rparr>) cs\<rparr>"
  by (induction cs arbitrary: cm) (simp_all add: addConfigElement_def)

text \<open>What the manager has taken of an accepted configuration.\<close>

definition taken :: "cluster_env \<Rightarrow> (config_element \<Rightarrow> bool) \<Rightarrow> configuration \<Rightarrow> 'p cluster_world \<Rightarrow> 'p cluster_world \<Rightarrow> bool" where
  "taken env loc cfg w w' \<longleftrightarrow> cwPlugins w' = cwPlugins w
     \<and> mIncomingConfig (cwConfig w') = mIncomingConfig (cwConfig w)
         @ map (\<lambda>e. \<lparr>mType = ADD, mElement = e\<rparr>) (local_children env loc cfg @ cfg)
     \<and> mSystemConfiguration (cwSetup w') = fold config_add cfg (mSystemConfiguration (cwSetup w))
     \<and> (\<forall>e \<in> set (config_getByType ''cluster_node'' cfg). mClusterNodeElements (cwSetup w') (getName e) = Some e)
     \<and> (\<forall>e \<in> set (config_getByType ''cluster_manager'' cfg). mClusterElement (cwSetup w') = Some e)
     \<and> mIsMaster (cwSetup w') = mIsMaster (cwSetup w)"

lemma signal_configuration_takes:
  assumes "acceptable env loc cfg (cwSetup w)" and "mConfigChangeConn (cwSetup w)" and "\<not> mIncomingLock (cwConfig w)"
  shows "\<exists>w'. signal_configuration env cfg ADD w = (Inr (), w') \<and> taken env loc cfg w w'"
proof -
  let ?nodes = "config_getByType ''cluster_node'' cfg" and ?els = "config_getByType ''cluster_manager'' cfg"
  let ?w = "if ?els = [] then w else upd_setup (\<lambda>s. s\<lparr>mClusterElement := Some (hd ?els)\<rparr>) w"
  let ?w1 = "fold (take_node env loc) ?nodes ?w"
  have el: "take_cluster_element cfg ADD w = (Inr (), ?w)"
    using assms(1) by (cases ?els) (auto simp: take_cluster_element_def acceptable_def)
  have same: "mClusterNodeElements (cwSetup ?w) = mClusterNodeElements (cwSetup w)" "cwConfig ?w = cwConfig w"
    "mSystemConfiguration (cwSetup ?w) = mSystemConfiguration (cwSetup w)" "cwPlugins ?w = cwPlugins w"
    "mIsMaster (cwSetup ?w) = mIsMaster (cwSetup w)"
    by simp_all
  have nodes: "distinct (map getName ?nodes)" "list_all (\<lambda>e. mClusterNodeElements (cwSetup ?w) (getName e) = None
      \<and> isLocalHost env (elHostName env e) = Inr (loc e) \<and> (loc e \<longrightarrow> elDisplaySystems env e = 1)) ?nodes"
    using assms(1) unfolding acceptable_def same by simp_all
  then have disp: "list_all (\<lambda>e. loc e \<longrightarrow> elDisplaySystems env e = 1) ?nodes" by (simp add: list_all_iff)
  have "\<forall>e \<in> set ?els. mClusterElement (cwSetup ?w) = Some e"
    using assms(1) by (cases ?els) (auto simp: acceptable_def)
  moreover have "configurationChanged env cfg ADD w = (Inr (), upd_setup (\<lambda>s. s\<lparr>mSystemConfiguration :=
      mergeConfigurations cfg ADD (mSystemConfiguration s)\<rparr>) ?w1)"
    using assms(1) add_node_elements_takes [OF nodes]
    by (auto simp: configurationChanged_def acceptable_def el)
  ultimately show ?thesis
    using assms(2,3) taken_nodes [OF disp, of ?w, unfolded same] taken_node_elements [OF nodes(1), of _ env loc ?w]
    by (auto simp: signal_configuration_def lockIncoming_def unlockIncoming_def add_incoming_def taken_def
        mergeConfigurations_def local_children_def fold_addConfigElement)
qed

section \<open>A slave starts\<close>

text \<open>A network manager with the handlers it was given, and no nodes yet.\<close>

definition no_nodes :: "'p cluster_world netmgr \<Rightarrow> bool" where
  "no_nodes st \<longleftrightarrow> mNodes st = [] \<and> nNext st = 0 \<and> mReactor st = \<lparr>mSelector = [], mDemuxTable = Map.empty\<rparr>"

lemma config_handled:
  assumes "ClusterPacket.received host (ConfigMsg text 0) p" and "mHeader p = Some (message_header host (ConfigMsg text 0))"
    and "readConfiguration env text = Inr cfg"
  shows "config_handlePacket env p k w = signal_configuration env cfg ADD w"
  using assms by (simp add: config_handlePacket_def message_header_type)

lemma taken_started: "taken env loc cfg (upd_setup (\<lambda>s. s\<lparr>mClusterStarted := b\<rparr>) w) w' = taken env loc cfg w w'"
  by (simp add: taken_def)

lemma slave_barrier:
  assumes "mNodes st = [k]" and "isConnected (nHeap st k)" and "mSockStream (nHeap st k) = Some s" and "\<not> sBroken s"
    and "mReactor st = \<lparr>mSelector = [sHandle s], mDemuxTable = [sHandle s \<mapsto> k]\<rparr>"
    and "mHandlerMap st g = Some h" and "message_ok host msg" and "message_plugin msg = Some g"
    and "sIncoming s = wire host msg @ wire host (EndMsg f) @ rest"
    and "\<And>p. ClusterPacket.received host msg p \<Longrightarrow> mHeader p = Some (message_header host msg) \<Longrightarrow> h p k (nApp st) = (Inr (), a)"
    and "sel j = Some events" and "sHandle s \<in> set events"
  shows "barrier le sel False st = Some (Inr (), finish_node k rest a (after_send 0 st))"
proof -
  have K: "connected st = {k}" using assms(1,2) by (auto simp: connected_def)
  have "\<forall>k \<in> connected st. works (nHeap st k)" using assms(3,4) unfolding K by (simp add: works_def)
  then obtain st1 where st1: "sendEndBlocks le 0 st = (Inr (card (connected st)), st1)"
    "snd (setAllUpdated False st1) = after_send 0 st"
    using send_then_clear [of st le 0] assms(1) by auto
  let ?st = "after_send 0 st" and ?s = "s\<lparr>sOutgoing := sOutgoing s @ end_block_bytes 0\<rparr>"
  have node: "isConnected (nHeap ?st k)" "\<not> mUpdated (nHeap ?st k)" "mSockStream (nHeap ?st k) = Some ?s"
    using assms(2,3) by (simp_all add: after_send_def K append_out_def isConnected_def)
  have same: "mHandlerMap ?st = mHandlerMap st" "nApp ?st = nApp st" "mReactor ?st = mReactor st"
    by (simp_all add: after_send_def)
  have "update_node le k ?st = (Inr (), finish_node k rest a ?st)"
    by (rule update_node_single [where h = h, OF assms(7,8) _ _ node]) (use assms(6,9,10) same in simp_all)
  then have "updateAllNodes le sel 1 ?st = Some (Inr (), finish_node k rest a ?st)"
    using updateAllNodes_single [of ?st "sHandle s" k] assms(5,11,12) node(2) same(3) by simp
  then show ?thesis using st1 by (simp add: barrier_def K)
qed

text \<open>
  C8. A slave that starts takes the master's configuration.  It accepts the master's
  connection, sends its end block and handles what the master sends: the configuration packet
  and an end block.  \<^verbatim>\<open>start\<close> returns; then every element of the master's configuration, and
  first every element inside the local node's, is pending as an addition, the cluster's
  elements are known, and only the master's next packets are left on the connection.
\<close>

theorem slave_starts:
  assumes "\<not> mIsMaster (setup_of m)" and "no_nodes (mClusterNetwork m)"
    and "mHandlerMap (mClusterNetwork m) config_handler_guid = Some (config_handlePacket env)"
    and "openServer env (mListenPort (setup_of m))" and "acceptStream env (mListenPort (setup_of m)) = Some (s, remote, p)"
    and "resolve env remote = Some addr" and "localHostAddr env \<noteq> None" and "\<not> sBroken s"
    and "sIncoming s = wire [] (ConfigMsg text 0) @ wire [] (EndMsg f) @ rest" and "message_ok [] (ConfigMsg text 0)"
    and "readConfiguration env text = Inr cfg" and "acceptable env loc cfg (setup_of m)" and "mConfigChangeConn (setup_of m)"
    and "\<not> mIncomingLock (cwConfig (nApp (mClusterNetwork m)))" and "sel j = Some events" and "sHandle s \<in> set events"
  shows "\<exists>m'. cluster_start le sel env m = Some (Inr (), m')
    \<and> taken env loc cfg (nApp (mClusterNetwork m)) (nApp (mClusterNetwork m'))
    \<and> mNodes (mClusterNetwork m') = [0] \<and> isConnected (nHeap (mClusterNetwork m') 0)
    \<and> mSockStream (nHeap (mClusterNetwork m') 0)
        = Some (s\<lparr>sIncoming := rest, sOutgoing := sOutgoing s @ end_block_bytes 0\<rparr>)"
proof -
  let ?m = "set_setup (\<lambda>s. s\<lparr>mClusterStarted := True\<rparr>) m"
  let ?st = "mClusterNetwork ?m" and ?w = "upd_setup (\<lambda>s. s\<lparr>mClusterStarted := True\<rparr>) (nApp (mClusterNetwork m))"
  have net: "?st = (mClusterNetwork m)\<lparr>nApp := ?w\<rparr>" by (simp add: set_setup_def upd_net_def upd_app_def)
  have st: "mNodes ?st = []" "nNext ?st = 0" "mReactor ?st = \<lparr>mSelector = [], mDemuxTable = Map.empty\<rparr>"
    using assms(2) by (simp_all add: net no_nodes_def)
  let ?conn = "?st\<lparr>nHeap := (nHeap ?st)(0 := (node_new ''master'' remote p (Some s))\<lparr>mStatus := CONNECTED\<rparr>),
       nNext := 1, mNodes := [0], mReactor := \<lparr>mSelector = [sHandle s], mDemuxTable = [sHandle s \<mapsto> 0]\<rparr>\<rparr>"
  have started: "setup_of ?m = (setup_of m)\<lparr>mClusterStarted := True\<rparr>" by (simp add: setup_of_def net)
  have wait: "waitForConnection env (mListenPort (setup_of ?m)) ?st = Some (Inr (), ?conn)"
    using waitForConnection_accepts [OF _ _ assms(6,7) st(1,3)] assms(4,5) st(2) started by simp
  have "\<exists>w'. signal_configuration env cfg ADD ?w = (Inr (), w') \<and> taken env loc cfg ?w w'"
    by (rule signal_configuration_takes) (use assms(1,12-14) in \<open>auto simp: acceptable_def setup_of_def\<close>)
  then obtain w' where w': "signal_configuration env cfg ADD ?w = (Inr (), w')" "taken env loc cfg (nApp (mClusterNetwork m)) w'"
    unfolding taken_started by blast
  have "barrier le sel False ?conn = Some (Inr (), finish_node 0 rest w' (after_send 0 ?conn))"
    by (rule slave_barrier [where s = s and g = config_handler_guid and h = "config_handlePacket env"
          and msg = "ConfigMsg text 0" and host = "[]" and f = f and rest = rest and j = j and events = events])
      (use assms(3,8-10,15,16) w'(1) in \<open>simp_all add: net isConnected_def node_new_def config_handler_guid
         config_handled [OF _ _ assms(11)] del: message_ok.simps ClusterPacket.received.simps\<close>)
  moreover have "\<not> mIsMaster (setup_of (upd_net (\<lambda>_. ?conn) ?m))" using assms(1) by (simp add: setup_of_def upd_net_def net)
  ultimately have "cluster_start le sel env m =
      Some (Inr (), upd_net (\<lambda>_. finish_node 0 rest w' (after_send 0 ?conn)) ?m)"
    using assms(1) started wait by (simp add: cluster_start_def Let_def cluster_barrier_def on_network_def upd_net_def)
  moreover have "connected ?conn = {0}" by (auto simp: connected_def isConnected_def)
  ultimately show ?thesis
    using w'(2) by (simp add: upd_net_def finish_node_def upd_heap_def after_send_def append_out_def isConnected_def node_new_def)
qed
section \<open>The master starts\<close>

definition new_slave :: "cluster_env \<Rightarrow> config_element \<Rightarrow> node" where
  "new_slave env e = node_new (getName e) (elHostName env e) (slave_port env e) None"

definition add_slave :: "cluster_env \<Rightarrow> config_element \<Rightarrow> 'a netmgr \<Rightarrow> 'a netmgr" where
  "add_slave env e st = addNode (getName e) (elHostName env e) (slave_port env e) None st"

lemma add_slave_other [simp]:
  "nNext (add_slave env e st) = Suc (nNext st)" "mNodes (add_slave env e st) = mNodes st @ [nNext st]"
  "nHeap (add_slave env e st) k = (if k = nNext st then new_slave env e else nHeap st k)"
  "nApp (add_slave env e st) = nApp st" "mReactor (add_slave env e st) = mReactor st"
  "mHandlerMap (add_slave env e st) = mHandlerMap st"
  by (simp_all add: add_slave_def addNode_def new_slave_def)

lemma addNode_app: "nApp (addNode name host port s st) = nApp st"
  by (simp add: addNode_def)

lemma add_cluster_nodes_adds:
  assumes "list_all2 (\<lambda>n e. els n = Some e \<and> isLocalHost env (elHostName env e) = Inr (loc e)) ns es"
  shows "mClusterNodeElements (cwSetup (nApp st)) = els \<Longrightarrow>
    add_cluster_nodes env ns st = (Inr (), fold (add_slave env) (filter (\<lambda>e. \<not> loc e) es) st)"
  using assms
proof (induction ns arbitrary: es st)
  case (Cons n ns)
  then obtain e es' where es: "es = e # es'" "els n = Some e" "isLocalHost env (elHostName env e) = Inr (loc e)"
    "list_all2 (\<lambda>n e. els n = Some e \<and> isLocalHost env (elHostName env e) = Inr (loc e)) ns es'"
    by (auto simp: list_all2_Cons1)
  then show ?case
    using Cons.IH [OF _ es(4), of st] Cons.IH [OF _ es(4), of "add_slave env e st"] Cons.prems(1)
    by (auto simp: add_slave_def [of env e] addNode_app)
qed simp

lemma fold_add_slave:
  "nNext (fold (add_slave env) es st) = nNext st + length es"
  "mNodes (fold (add_slave env) es st) = mNodes st @ [nNext st..<nNext st + length es]"
  "nApp (fold (add_slave env) es st) = nApp st" "mReactor (fold (add_slave env) es st) = mReactor st"
  "mHandlerMap (fold (add_slave env) es st) = mHandlerMap st"
  by (induction es arbitrary: st) (simp_all add: upt_conv_Cons del: upt_Suc)

lemma fold_add_slave_heap:
  "nHeap (fold (add_slave env) es st) k =
     (if nNext st \<le> k \<and> k < nNext st + length es then new_slave env (es ! (k - nNext st)) else nHeap st k)"
proof (induction es arbitrary: st)
  case (Cons e es)
  then show ?case by (auto simp: nth_Cons' not_less_eq_eq le_Suc_eq)
qed auto

lemma send_configuration_all:
  "message_ok [] (ConfigMsg config 0) \<Longrightarrow> distinct ks \<Longrightarrow> \<forall>k \<in> set ks. works (nHeap st k) \<Longrightarrow>
     send_configuration le config ks st = (Inr (),
       st\<lparr>nHeap := \<lambda>k. if k \<in> set ks then append_out (wire [] (ConfigMsg config 0)) (nHeap st k) else nHeap st k\<rparr>)"
proof (induction ks arbitrary: st)
  case (Cons k ks)
  obtain s where s: "mSockStream (nHeap st k) = Some s" "\<not> sBroken s" using Cons.prems(3) by (auto simp: works_def)
  let ?n = "append_out (wire [] (ConfigMsg config 0)) (nHeap st k)"
  have "rbind (config_new le config 0) (\<lambda>p. node_send p (nHeap st k)) = Inr ?n"
    using node_send_wire [OF Cons.prems(1) s, of le] s(1) by (auto simp: append_out_def)
  moreover have "\<forall>j \<in> set ks. works (nHeap (upd_heap k (\<lambda>_. ?n) st) j)"
    using Cons.prems by (auto simp: upd_heap_def)
  ultimately show ?case
    using Cons.IH [of "upd_heap k (\<lambda>_. ?n) st"] Cons.prems(1,2)
    by (auto simp: upd_heap_def fun_eq_iff intro!: arg_cong [where f = "\<lambda>h. st\<lparr>nHeap := h\<rparr>"])
qed simp
text \<open>
  The streams \<open>str\<close> to the first \<open>n\<close> nodes: distinct, working, with the peer's end block first.
\<close>

definition answering :: "(nat \<Rightarrow> string) \<Rightarrow> (nat \<Rightarrow> u32) \<Rightarrow> (nat \<Rightarrow> u8 list) \<Rightarrow> (nat \<Rightarrow> stream) \<Rightarrow> nat \<Rightarrow> bool" where
  "answering host f rest str n \<longleftrightarrow> inj_on (\<lambda>k. sHandle (str k)) {..<n}
     \<and> list_all (\<lambda>k. \<not> sBroken (str k) \<and> sIncoming (str k) = wire (host k) (EndMsg (f k)) @ rest k) [0..<n]"

lemma fold_tried_connected:
  assumes "mNodes st = [0..<n]" and "mReactor st = \<lparr>mSelector = [], mDemuxTable = Map.empty\<rparr>"
    and "answering host f rest str n"
  defines "st' \<equiv> fold (tried (\<lambda>k. Some (str k))) [0..<n] st"
  shows "mReactor st' = \<lparr>mSelector = map (\<lambda>k. sHandle (str k)) [0..<n],
      mDemuxTable = map_of (map (\<lambda>k. (sHandle (str k), k)) [0..<n])\<rparr>"
    and "k < n \<Longrightarrow> isConnected (nHeap st' k) \<and> mSockStream (nHeap st' k) = Some (str k)"
    and "k < n \<Longrightarrow> mDemuxTable (mReactor st') (sHandle (str k)) = Some k"
proof -
  have inj: "inj_on (\<lambda>k. sHandle (str k)) (set [0..<n])"
    using assms(3) by (simp add: answering_def atLeast0LessThan)
  show r: "mReactor st' = \<lparr>mSelector = map (\<lambda>k. sHandle (str k)) [0..<n],
      mDemuxTable = map_of (map (\<lambda>k. (sHandle (str k), k)) [0..<n])\<rparr>"
    using fold_tried_reactor [OF inj, of st] assms(2) by (simp add: st'_def)
  show "isConnected (nHeap st' k) \<and> mSockStream (nHeap st' k) = Some (str k)" if "k < n"
    using that by (simp add: st'_def fold_tried_heap isConnected_def)
  have "distinct (map fst (map (\<lambda>k. (sHandle (str k), k)) [0..<n]))"
    using inj by (simp add: distinct_map inj_on_def)
  then show "mDemuxTable (mReactor st') (sHandle (str k)) = Some k" if "k < n"
    using that by (simp add: r)
qed

lemma master_barrier:
  assumes "mNodes st = [0..<n]" and "mReactor st = \<lparr>mSelector = map (\<lambda>k. sHandle (str k)) [0..<n],
      mDemuxTable = map_of (map (\<lambda>k. (sHandle (str k), k)) [0..<n])\<rparr>"
    and "answering host f rest str n"
    and "\<And>k. k < n \<Longrightarrow> isConnected (nHeap st k)
      \<and> mSockStream (nHeap st k) = Some ((str k)\<lparr>sOutgoing := sOutgoing (str k) @ out\<rparr>)"
    and "\<And>k. k < n \<Longrightarrow> mDemuxTable (mReactor st) (sHandle (str k)) = Some k"
    and "\<forall>k < n. \<forall>i. \<exists>j \<ge> i. \<exists>events. sel j = Some events \<and> sHandle (str k) \<in> set events"
  shows "\<exists>st'. barrier le sel True st = Some (Inr (), st') \<and> nApp st' = nApp st \<and> mNodes st' = [0..<n]
    \<and> (\<forall>k < n. isConnected (nHeap st' k) \<and> (\<exists>s. mSockStream (nHeap st' k) = Some s
        \<and> sIncoming s = rest k \<and> sOutgoing s = sOutgoing (str k) @ out @ end_block_bytes 0))"
proof -
  have K: "connected st = {..<n}" using assms(1,4) by (auto simp: connected_def)
  have "reactor_knows st"
    using assms(5) unfolding reactor_knows_def K by (auto simp: assms(2))
  moreover have "fair sel (mReactor st) (set (mNodes st))"
    unfolding fair_def
  proof (intro ballI allI)
    fix k i
    assume "k \<in> set (mNodes st)"
    then have k: "k < n" by (simp add: assms(1))
    then obtain j events where "i \<le> j" "sel j = Some events" "sHandle (str k) \<in> set events" using assms(6) by blast
    then show "\<exists>j\<ge>i. \<exists>events. sel j = Some events
        \<and> (\<exists>h\<in>set events. h \<in> set (mSelector (mReactor st)) \<and> mDemuxTable (mReactor st) h = Some k)"
      using assms(5) [OF k] k by (intro exI [of _ j] conjI exI [of _ events] bexI [of _ "sHandle (str k)"]) (simp_all add: assms(2))
  qed
  moreover have "peer_sends (host k) [] (f k) (rest k) (nHeap st k)" if "k \<in> set (mNodes st)" for k
    using that assms(3) assms(4) [of k] by (auto simp: assms(1) peer_sends_def block_ok_def answering_def list_all_iff)
  ultimately obtain st' where st': "barrier le sel True st = Some (Inr (), st')" "nApp st' = nApp st" "mNodes st' = mNodes st"
    "\<forall>k \<in> set (mNodes st). frame_over 0 rest st st' k"
    using barrier_master [where J = "\<lambda>a. a = nApp st" and ms = "\<lambda>_. []" and host = host and f = f and rest = rest and sel = sel and le = le and st = st]
      assms(1,4) by (auto simp: handled_def)
  have "isConnected (nHeap st' k) \<and> (\<exists>s. mSockStream (nHeap st' k) = Some s
        \<and> sIncoming s = rest k \<and> sOutgoing s = sOutgoing (str k) @ out @ end_block_bytes 0)" if "k < n" for k
  proof -
    have "frame_over 0 rest st st' k" using st'(4) that by (simp add: assms(1))
    then show ?thesis using assms(4) [OF that] by (auto simp: frame_over_def)
  qed
  then show ?thesis using st' assms(1) by auto
qed
text \<open>
  C9. The master's start reaches every slave.  The nodes its element lists, this host left
  out, become nodes of the network in their order, on the ports their elements give.  When
  each can be connected to, and each slave sends an end block, \<^verbatim>\<open>start\<close> returns; every slave is
  then connected and was sent the master's configuration and one end block, which is what a
  slave that starts waits for.
\<close>

theorem master_starts:
  assumes "mIsMaster (setup_of m)" and "mClusterElement (setup_of m) = Some element" and "getID element = ''cluster_manager''"
    and "no_nodes (mClusterNetwork m)"
    and "list_all2 (\<lambda>n e. mClusterNodeElements (setup_of m) n = Some e \<and> isLocalHost env (elHostName env e) = Inr (loc e))
      (elNodes env element) es"
  defines "slaves \<equiv> filter (\<lambda>e. \<not> loc e) es" and "config \<equiv> printConfiguration env (mSystemConfiguration (setup_of m))"
  assumes "\<And>k. k < length slaves \<Longrightarrow> connects env (new_slave env (slaves ! k)) (str k)"
    and "answering host f rest str (length slaves)" and "message_ok [] (ConfigMsg config 0)"
    and "\<And>k i. k < length slaves \<Longrightarrow> \<exists>j \<ge> i. \<exists>events. sel j = Some events \<and> sHandle (str k) \<in> set events"
  shows "\<exists>m'. cluster_start le sel env m = Some (Inr (), m') \<and> mNodes (mClusterNetwork m') = [0..<length slaves]
    \<and> (\<forall>k < length slaves. isConnected (nHeap (mClusterNetwork m') k)
        \<and> (\<exists>s. mSockStream (nHeap (mClusterNetwork m') k) = Some s \<and> sIncoming s = rest k
            \<and> sOutgoing s = sOutgoing (str k) @ wire [] (ConfigMsg config 0) @ wire [] (EndMsg 0)))"
proof -
  let ?n = "length slaves" and ?out = "wire [] (ConfigMsg config 0)"
  let ?m = "set_setup (\<lambda>s. s\<lparr>mClusterStarted := True\<rparr>) m"
  let ?st = "mClusterNetwork ?m"
  let ?added = "fold (add_slave env) slaves ?st"
  let ?conn = "fold (tried (\<lambda>k. Some (str k))) [0..<?n] ?added"
  let ?sent = "?conn\<lparr>nHeap := \<lambda>k. if k \<in> set [0..<?n] then append_out ?out (nHeap ?conn k) else nHeap ?conn k\<rparr>"
  have net: "?st = (mClusterNetwork m)\<lparr>nApp := upd_setup (\<lambda>s. s\<lparr>mClusterStarted := True\<rparr>) (nApp (mClusterNetwork m))\<rparr>"
    by (simp add: set_setup_def upd_net_def upd_app_def)
  have started: "cwSetup (nApp ?st) = (setup_of m)\<lparr>mClusterStarted := True\<rparr>" by (simp add: setup_of_def net)
  have added: "mNodes ?added = [0..<?n]" "mReactor ?added = \<lparr>mSelector = [], mDemuxTable = Map.empty\<rparr>" "nApp ?added = nApp ?st"
    "\<And>k. k < ?n \<Longrightarrow> nHeap ?added k = new_slave env (slaves ! k)"
    using assms(4) by (simp_all add: fold_add_slave fold_add_slave_heap no_nodes_def net)
  have "add_cluster_nodes env (elNodes env element) ?st = (Inr (), ?added)"
    unfolding slaves_def by (rule add_cluster_nodes_adds [OF assms(5)]) (simp add: started)
  then have nodes_added: "configCluster env element ?m = (Inr (), upd_net (\<lambda>_. ?added) ?m)"
    using assms(3) by (simp add: configCluster_def cluster_configCanHandle_def recognizeClusterManagerConfig_def getElementType_def)
  have "\<forall>k \<in> set [0..<?n]. tries env (\<lambda>k. Some (str k)) k ?added"
    using assms(8) added(4) by (simp add: tries_def)
  then have "connectToSlaves env ?added = (Inr (\<exists>k \<in> set [0..<?n]. Some (str k) \<noteq> None), ?conn)"
    using connect_all_tries [of "[0..<?n]" env "\<lambda>k. Some (str k)" ?added "[]" False] added(1)
    by (simp add: connectToSlaves_def)
  then obtain b where connect: "connectToSlaves env ?added = (Inr b, ?conn)" by blast
  note conn = fold_tried_connected [OF added(1,2) assms(9)]
  have nodes: "mNodes ?conn = [0..<?n]" "nApp ?conn = nApp ?st" using added(1,3) by simp_all
  have "\<forall>k \<in> set [0..<?n]. works (nHeap ?conn k)"
    using conn(2) assms(9) by (auto simp: works_def answering_def list_all_iff)
  then have send: "send_configuration le config (mNodes ?conn) ?conn = (Inr (), ?sent)"
    unfolding nodes(1) by (intro send_configuration_all [OF assms(10)]) simp_all
  have "\<exists>st'. barrier le sel True ?sent = Some (Inr (), st') \<and> nApp st' = nApp ?sent \<and> mNodes st' = [0..<?n]
    \<and> (\<forall>k < ?n. isConnected (nHeap st' k) \<and> (\<exists>s. mSockStream (nHeap st' k) = Some s
        \<and> sIncoming s = rest k \<and> sOutgoing s = sOutgoing (str k) @ ?out @ end_block_bytes 0))"
    by (rule master_barrier [OF _ _ assms(9)])
      (use nodes conn assms(11) in \<open>simp_all add: isConnected_def append_out_def\<close>)
  then obtain st' where bar: "barrier le sel True ?sent = Some (Inr (), st')" "mNodes st' = [0..<?n]"
    "\<forall>k < ?n. isConnected (nHeap st' k) \<and> (\<exists>s. mSockStream (nHeap st' k) = Some s
        \<and> sIncoming s = rest k \<and> sOutgoing s = sOutgoing (str k) @ ?out @ end_block_bytes 0)" by blast
  have flag: "mIsMaster (setup_of ?m)" "mClusterElement (setup_of ?m) = Some element" "mIsMaster (setup_of (upd_net (\<lambda>_. ?sent) m'))" for m'
    using assms(1,2) nodes(2) started by (simp_all add: setup_of_def upd_net_def)
  have printed: "printConfiguration env (mSystemConfiguration (cwSetup (nApp ?conn))) = config"
    unfolding nodes(2) started by (simp add: config_def)
  have "cluster_start le sel env m = cluster_barrier le sel (upd_net (\<lambda>_. ?sent) (upd_net (\<lambda>_. ?added) ?m))"
    using flag(1,2) nodes_added connect send printed by (simp add: cluster_start_def upd_net_def Let_def)
  also have "\<dots> = Some (Inr (), upd_net (\<lambda>_. st') (upd_net (\<lambda>_. ?sent) (upd_net (\<lambda>_. ?added) ?m)))"
    using bar(1) flag(3) by (simp add: cluster_barrier_def on_network_def upd_net_def setup_of_def)
  finally show ?thesis using bar(2,3) by (simp add: upd_net_def end_block_bytes_def)
qed
section \<open>Examples\<close>

definition slave_example :: "unit cluster_mgr" where
  "slave_example = connectToConfigManager 0 (ClusterManager_new (example_env 2) (config_manager_new ()) ())"

definition master_example :: "unit cluster_mgr" where
  "master_example = set_setup (\<lambda>s. s\<lparr>mIsMaster := True, mClusterElement := Some example_element,
      mClusterNodeElements := [''head'' \<mapsto> example_config ! 1, ''wall'' \<mapsto> example_config ! 2],
      mSystemConfiguration := example_config\<rparr>)
     (ClusterManager_new (example_env 1) (config_manager_new ()) ())"

lemmas start_example = slave_example_def master_example_def connectToConfigManager_def ClusterManager_new_def set_setup_def
  upd_net_def upd_app_def setup_of_def netmgr_new_def config_manager_new_def addHandler_def registerChecker_def
  addConfigElementHandler_def

lemma example_env_fields:
  "resolve (example_env own) ''head'' = Some 1" "localHostAddr (example_env own) = Some own"
  "openServer (example_env own) p = True" "openStream (example_env own) h p = True"
  "attempt (example_env own) h p i = (if i < 3 then None
     else Some \<lparr>sHandle = 5, sIncoming = wire [] (EndMsg 0), sOutgoing = [], sBroken = False\<rparr>)"
  "acceptStream (example_env own) p = Some (\<lparr>sHandle = 7, sIncoming = wire [] (ConfigMsg ''<c/>'' 0) @ wire [] (EndMsg 0),
     sOutgoing = [], sBroken = False\<rparr>, ''head'', 7000)"
  "elHostName (example_env own) = getName" "elDisplaySystems (example_env own) e = 1"
  "elNodes (example_env own) e = [''head'', ''wall'']" "readConfiguration (example_env own) c = Inr example_config"
  "printConfiguration (example_env own) cfg = ''<c/>''" "resolve (example_env own) ''wall'' = Some 2"
  by (simp_all add: example_env_def)

lemma example_local: "isLocalHost (example_env own) ''head'' = Inr (own = 1)" "isLocalHost (example_env own) ''wall'' = Inr (own = 2)"
  by (auto simp: isLocalHost_def local_interfaces_def example_env_def)

lemma example_acceptable: "acceptable (example_env 2) (\<lambda>e. getName e = ''wall'') example_config (setup_of slave_example)"
  by (simp add: acceptable_def start_example example_config_def example_element_def config_getByType_def
      example_local example_env_fields)

theorem slave_starts_witness:
  "\<exists>m'. cluster_start True (\<lambda>i. if i < 4 then None else Some [7]) (example_env 2) slave_example = Some (Inr (), m')
    \<and> taken (example_env 2) (\<lambda>e. getName e = ''wall'') example_config
        (nApp (mClusterNetwork slave_example)) (nApp (mClusterNetwork m'))
    \<and> mNodes (mClusterNetwork m') = [0] \<and> isConnected (nHeap (mClusterNetwork m') 0)"
  using slave_starts [of slave_example "example_env 2" "\<lparr>sHandle = 7, sIncoming = wire [] (ConfigMsg ''<c/>'' 0) @ wire [] (EndMsg 0),
       sOutgoing = [], sBroken = False\<rparr>" "''head''" 7000 1 "''<c/>''" 0 "[]" example_config "\<lambda>e. getName e = ''wall''"
       "\<lambda>i. if i < 4 then None else Some [7]" 4 "[7]" True] example_acceptable
  by (auto simp: start_example no_nodes_def example_env_fields)

theorem master_starts_witness:
  "\<exists>m'. cluster_start True (\<lambda>i. if i < 4 then None else Some [5]) (example_env 1) master_example = Some (Inr (), m')
    \<and> mNodes (mClusterNetwork m') = [0] \<and> isConnected (nHeap (mClusterNetwork m') 0)
    \<and> (\<exists>s. mSockStream (nHeap (mClusterNetwork m') 0) = Some s \<and> sIncoming s = []
        \<and> sOutgoing s = wire [] (ConfigMsg ''<c/>'' 0) @ wire [] (EndMsg 0))"
proof -
  let ?loc = "\<lambda>e. getName e = ''head''" and ?str = "\<lambda>_. \<lparr>sHandle = 5, sIncoming = wire [] (EndMsg 0), sOutgoing = [], sBroken = False\<rparr>"
  let ?es = "[example_config ! 1, example_config ! 2]" and ?sel = "\<lambda>i::nat. if i < 4 then None else Some [5::nat]"
  have slaves: "filter (\<lambda>e. \<not> ?loc e) ?es = [example_config ! 2]" by (simp add: example_config_def)
  have "connects (example_env 1) (new_slave (example_env 1) (example_config ! 2)) (?str 0)"
    unfolding connects_def
    by (intro conjI exI [of _ 3]) (simp_all add: example_env_fields new_slave_def node_new_def example_config_def)
  moreover have "answering (\<lambda>_. []) (\<lambda>_. 0) (\<lambda>_. []) ?str 1" by (simp add: answering_def lessThan_Suc)
  moreover have "\<exists>j \<ge> i. \<exists>events. ?sel j = Some events \<and> 5 \<in> set events" for i
    by (rule exI [of _ "i + 4"]) simp
  ultimately show ?thesis
    using master_starts [of master_example example_element "example_env 1" ?loc ?es ?str "\<lambda>_. []" "\<lambda>_. 0" "\<lambda>_. []" ?sel True]
    unfolding slaves
    by (auto simp: start_example no_nodes_def example_env_fields example_local example_element_def example_config_def)
qed

end
