(* ===== verification/ClusterFrame.thy ===== *)
theory ClusterFrame
  imports ClusterStart
begin

text \<open>
  A frame of the whole cluster: the cluster manager's calls, with the remote-input plug-in among
  its plug-ins.  A plug-in was modelled with its own state as the application's state of the
  network manager; here that state is a part of the plug-ins' state, reached by a pair of
  functions that meets the locale \<open>plugin_part\<close>, and the plug-in's calls and its handler are
  lifted along it.
\<close>

section \<open>A plug-in's part of the state\<close>

locale plugin_part =
  fixes get :: "'p \<Rightarrow> 'x" and put :: "'x \<Rightarrow> 'p \<Rightarrow> 'p"
  assumes get_put: "get (put x p) = x" and put_get: "put (get p) p = p"

definition part_net :: "('p \<Rightarrow> 'x) \<Rightarrow> 'p cluster_world netmgr \<Rightarrow> 'x netmgr" where
  "part_net get st = \<lparr>nHeap = nHeap st, nNext = nNext st, mNodes = mNodes st, mHandlerMap = Map.empty,
     mReactor = mReactor st, nApp = get (cwPlugins (nApp st))\<rparr>"

definition put_part :: "('x \<Rightarrow> 'p \<Rightarrow> 'p) \<Rightarrow> 'x \<Rightarrow> 'p cluster_world \<Rightarrow> 'p cluster_world" where
  "put_part put x w = w\<lparr>cwPlugins := put x (cwPlugins w)\<rparr>"

definition on_part :: "('p \<Rightarrow> 'x) \<Rightarrow> ('x \<Rightarrow> 'p \<Rightarrow> 'p) \<Rightarrow> ('x netmgr \<Rightarrow> unit result \<times> 'x netmgr)
    \<Rightarrow> 'p cluster_world netmgr \<Rightarrow> unit result \<times> 'p cluster_world netmgr" where
  "on_part get put f st =
     (let (res, part) = f (part_net get st)
      in (res, st\<lparr>nHeap := nHeap part, nNext := nNext part, mNodes := mNodes part, mReactor := mReactor part,
                  nApp := put_part put (nApp part) (nApp st)\<rparr>))"

definition part_handler :: "('p \<Rightarrow> 'x) \<Rightarrow> ('x \<Rightarrow> 'p \<Rightarrow> 'p) \<Rightarrow> 'x packet_handler \<Rightarrow> 'p cluster_world packet_handler" where
  "part_handler get put h packet k w = (let (res, x) = h packet k (get (cwPlugins w)) in (res, put_part put x w))"

definition step_part :: "('p \<Rightarrow> 'x) \<Rightarrow> ('x \<Rightarrow> 'p \<Rightarrow> 'p) \<Rightarrow> ('m \<Rightarrow> 'x \<Rightarrow> 'x) \<Rightarrow> 'm \<Rightarrow> 'p cluster_world \<Rightarrow> 'p cluster_world" where
  "step_part get put step m w = put_part put (step m (get (cwPlugins w))) w"

lemma on_part_sends:
  "f (part_net get st) = (Inr (), (sent_to_all bs (part_net get st))\<lparr>nApp := x\<rparr>) \<Longrightarrow>
     on_part get put f st = (Inr (), (sent_to_all bs st)\<lparr>nApp := put_part put x (nApp st)\<rparr>)"
  by (simp add: on_part_def part_net_def sent_to_all_def cong: if_cong)

lemma part_net_same [simp]:
  "nApp (part_net get st) = get (cwPlugins (nApp st))" "nodes_work (part_net get st) = nodes_work st"
  by (simp_all add: part_net_def nodes_work_def)

context plugin_part
begin

lemma get_put_part [simp]: "get (cwPlugins (put_part put x w)) = x"
  by (simp add: put_part_def get_put)

lemma put_part_same [simp]: "put_part put (get (cwPlugins w)) w = w"
  by (simp add: put_part_def put_get)

lemma fold_step_part: "get (cwPlugins (fold (step_part get put step) ms w)) = fold step ms (get (cwPlugins w))"
  by (induction ms arbitrary: w) (simp_all add: step_part_def)

lemma lift_block_handler:
  assumes "block_handler h k host g msg ok step keep"
  shows "block_handler (part_handler get put h) k host g msg ok (step_part get put step) (\<lambda>w. keep (get (cwPlugins w)))"
proof
  fix w :: "'p cluster_world" and m p
  show "message_plugin (msg m) = Some g" by (rule block_handler.plugin [OF assms])
  assume keep: "keep (get (cwPlugins w))" and ok: "ok m"
  then show "keep (get (cwPlugins (step_part get put step m w)))"
    using block_handler.keeps [OF assms] by (simp add: step_part_def)
  assume "ClusterPacket.received host (msg m) p" and "mHeader p = Some (message_header host (msg m))"
  then show "part_handler get put h p k w = (Inr (), step_part get put step m w)"
    using block_handler.handles [OF assms keep ok] by (simp add: part_handler_def step_part_def)
qed

end

interpretation whole: plugin_part "\<lambda>p. p" "\<lambda>x p. x"
  by unfold_locales simp_all

interpretation first: plugin_part fst "\<lambda>x p. (x, snd p)"
  by unfold_locales simp_all

interpretation second: plugin_part snd "\<lambda>x p. (fst p, x)"
  by unfold_locales simp_all

text \<open>Remote input as one of the manager's plug-ins; it does nothing before a draw.\<close>

definition rim_plugin :: "bool \<Rightarrow> interval \<Rightarrow> ('p \<Rightarrow> rim_world) \<Rightarrow> (rim_world \<Rightarrow> 'p \<Rightarrow> 'p) \<Rightarrow> 'p cluster_plugin" where
  "rim_plugin le now get put =
     \<lparr>getHandlerGUID = rim_guid, isPluginReady = (\<lambda>_. True), plugin_preDraw = (\<lambda>st. (Inr (), st)),
      plugin_postPostFrame = on_part get put (rim_postPostFrame le),
      plugin_handlePacket = part_handler get put (rim_handlePacket le now)\<rparr>"

section \<open>The calls of a frame\<close>

definition quiet_plugins :: "(nat \<Rightarrow> 'p cluster_plugin) \<Rightarrow> nat list \<Rightarrow> bool" where
  "quiet_plugins plug ps \<longleftrightarrow> list_all (\<lambda>p. plugin_postPostFrame (plug p) = (\<lambda>st. (Inr (), st))) ps"

lemma call_plugins_append:
  "call_plugins (cs @ cs') st = (case call_plugins cs st of (Inl e, st) \<Rightarrow> (Inl e, st) | (Inr _, st) \<Rightarrow> call_plugins cs' st)"
  by (induction cs arbitrary: st) (simp_all split: prod.split sum.split)

lemma quiet_calls: "quiet_plugins plug ps \<Longrightarrow> call_plugins (map (\<lambda>p. plugin_postPostFrame (plug p)) ps) st = (Inr (), st)"
  by (induction ps) (simp_all add: quiet_plugins_def)

lemma one_call:
  assumes "quiet_plugins plug ps" and "quiet_plugins plug qs" and "plugin_postPostFrame (plug r) st = (Inr (), st')"
  shows "call_plugins (map (\<lambda>p. plugin_postPostFrame (plug p)) (ps @ r # qs)) st = (Inr (), st')"
  using assms quiet_calls [of plug ps st] quiet_calls [of plug qs st'] by (simp add: call_plugins_append)

lemma corkNetwork_ok: "\<forall>k \<in> set (mNodes st). works (nHeap st k) \<Longrightarrow> corkNetwork st = Inr ()"
proof -
  have "\<forall>k \<in> set ks. works (nHeap st k) \<Longrightarrow> rfold (\<lambda>k _. setNoPush True (nHeap st k)) ks () = Inr ()" for ks
    by (induction ks) (auto simp: setNoPush_def works_def)
  then show "\<forall>k \<in> set (mNodes st). works (nHeap st k) \<Longrightarrow> corkNetwork st = Inr ()"
    by (simp add: corkNetwork_def)
qed

lemma postPostFrame_updates:
  assumes "mPlugins m = ps @ r # qs" and "quiet_plugins plug ps" and "quiet_plugins plug qs"
    and "\<forall>k \<in> set (mNodes (mClusterNetwork m)). works (nHeap (mClusterNetwork m) k)"
    and "plugin_postPostFrame (plug r) (mClusterNetwork m) = (Inr (), st)" and "update le sel 3 st = Some (Inr (), st')"
  shows "\<exists>m'. cluster_postPostFrame le sel plug m = Some (Inr (), m') \<and> mClusterNetwork m' = st'"
  using assms one_call [OF assms(2,3,5)] corkNetwork_ok [OF assms(4)]
  by (simp add: cluster_postPostFrame_def on_network_def upd_net_def)

text \<open>A network of one node: the end block goes out, and the node's block is handled.\<close>

lemma update_single:
  assumes "mNodes st = [k]" and "isConnected (nHeap st k)" and "mSockStream (nHeap st k) = Some s" and "\<not> sBroken s"
    and "mReactor st = \<lparr>mSelector = [sHandle s], mDemuxTable = [sHandle s \<mapsto> k]\<rparr>"
    and "update_node le k (after_send frame st) = (Inr (), st')" and "sel j = Some events" and "sHandle s \<in> set events"
  shows "update le sel frame st = Some (Inr (), st')"
proof -
  have K: "connected st = {k}" using assms(1,2) by (auto simp: connected_def)
  have works: "\<forall>k \<in> connected st. works (nHeap st k)" using assms(3,4) unfolding K by (simp add: works_def)
  have "mNodes (after_send frame st) = [k]" "mReactor (after_send frame st) = mReactor st"
    "works (nHeap (after_send frame st) k)" "\<not> mUpdated (nHeap (after_send frame st) k)"
    using assms(1,3,4) by (simp_all add: after_send_def K) (auto simp: works_def append_out_def)
  then show ?thesis
    using clear_then_send [OF _ works, of le frame] uncorkNetwork_ok [of "after_send frame st"] assms(1)
      updateAllNodes_single [of "after_send frame st" "sHandle s" k le st' sel j events] assms(5-8)
    by (simp add: update_def K)
qed

section \<open>A frame of two nodes\<close>

text \<open>A node whose network is the other alone.\<close>

definition only_peer :: "nat \<Rightarrow> stream \<Rightarrow> 'a netmgr \<Rightarrow> bool" where
  "only_peer k s st \<longleftrightarrow> mNodes st = [k] \<and> isConnected (nHeap st k) \<and> mSockStream (nHeap st k) = Some s \<and> \<not> sBroken s
     \<and> mReactor st = \<lparr>mSelector = [sHandle s], mDemuxTable = [sHandle s \<mapsto> k]\<rparr>"

definition device_frames_plugin :: "bool \<Rightarrow> interval \<Rightarrow> ('p \<Rightarrow> rim_world) \<Rightarrow> (rim_world \<Rightarrow> 'p \<Rightarrow> 'p)
    \<Rightarrow> (nat \<Rightarrow> 'p cluster_plugin) \<Rightarrow> nat \<Rightarrow> nat list \<Rightarrow> bool" where
  "device_frames_plugin le now get put plug r ps \<longleftrightarrow> plug r = rim_plugin le now get put
     \<and> (\<exists>as bs. ps = as @ r # bs \<and> quiet_plugins plug as \<and> quiet_plugins plug bs)"

lemma device_frame_sent:
  assumes "device_frames_plugin le now get put plug r (mPlugins m)" and "nodes_work (mClusterNetwork m)"
    and "list_all (server_ok (rInput (get (cwPlugins (nApp (mClusterNetwork m)))))) (mDeviceServers (get (cwPlugins (nApp (mClusterNetwork m)))))"
  defines "mine \<equiv> get (cwPlugins (nApp (mClusterNetwork m)))"
  shows "\<exists>servers. plugin_postPostFrame (plug r) (mClusterNetwork m) =
    (Inr (), (sent_to_all (rim_frame_bytes host mine) (mClusterNetwork m))
      \<lparr>nApp := put_part put (mine\<lparr>mDeviceServers := servers\<rparr>) (nApp (mClusterNetwork m))\<rparr>)"
proof -
  have "plugin_postPostFrame (plug r) = on_part get put (rim_postPostFrame le)"
    using assms(1) by (simp add: device_frames_plugin_def rim_plugin_def)
  then show ?thesis
    using rim_frame_sent [of "part_net get (mClusterNetwork m)" le host] assms(2,3) unfolding mine_def
    by (auto dest!: on_part_sends [where put = put])
qed

lemma device_frame_updates:
  assumes "device_frames_plugin le' now get put plug r (mPlugins m)"
    and "\<forall>k \<in> set (mNodes (mClusterNetwork m)). works (nHeap (mClusterNetwork m) k)"
    and "plugin_postPostFrame (plug r) (mClusterNetwork m) = (Inr (), st)" and "update le sel 3 st = Some (Inr (), st')"
  shows "\<exists>m'. cluster_postPostFrame le sel plug m = Some (Inr (), m') \<and> mClusterNetwork m' = st'"
proof -
  obtain as bs where "mPlugins m = as @ r # bs" "quiet_plugins plug as" "quiet_plugins plug bs"
    using assms(1) by (auto simp: device_frames_plugin_def)
  from postPostFrame_updates [where plug = plug and r = r and m = m, OF this assms(2-4)] show ?thesis .
qed

lemma device_frame_nodes:
  assumes "only_peer k s st"
  shows "nodes_work st" and "\<forall>k \<in> set (mNodes st). works (nHeap st k)"
  using assms by (auto simp: only_peer_def nodes_work_def works_def)

lemma slave_frame:
  assumes part: "plugin_part get put"
    and "device_frames_plugin le now get put plug r (mPlugins m)"
    and "mDeviceServers (get (cwPlugins (nApp (mClusterNetwork m)))) = []"
    and "only_peer k s (mClusterNetwork m)"
    and "mHandlerMap (mClusterNetwork m) rim_guid = Some (part_handler get put (rim_handlePacket le now))"
    and "rim_node T (get (cwPlugins (nApp (mClusterNetwork m))))"
    and "list_all (rim_ok T) ms" and "\<forall>x \<in> set ms. message_ok host (rim_msg x)"
    and "sIncoming s = concat (map (\<lambda>x. wire host (rim_msg x)) ms) @ wire host (EndMsg f) @ rest"
    and "sel j = Some events" and "sHandle s \<in> set events"
  shows "\<exists>m'. cluster_postPostFrame le sel plug m = Some (Inr (), m')
    \<and> get (cwPlugins (nApp (mClusterNetwork m'))) = fold (rim_receive host) ms (get (cwPlugins (nApp (mClusterNetwork m))))
    \<and> mSockStream (nHeap (mClusterNetwork m') k) = Some (s\<lparr>sIncoming := rest, sOutgoing := sOutgoing s @ end_block_bytes 3\<rparr>)"
proof -
  let ?st = "mClusterNetwork m" and ?sent = "after_send 3 (mClusterNetwork m)"
  have peer: "mNodes ?st = [k]" "isConnected (nHeap ?st k)" "mSockStream (nHeap ?st k) = Some s" "\<not> sBroken s"
    "mReactor ?st = \<lparr>mSelector = [sHandle s], mDemuxTable = [sHandle s \<mapsto> k]\<rparr>"
    using assms(4) by (simp_all add: only_peer_def)
  have K: "connected ?st = {k}" using peer(1,2) by (auto simp: connected_def)
  have quiet: "plugin_postPostFrame (plug r) ?st = (Inr (), ?st)"
    using assms(2,3) by (simp add: device_frames_plugin_def rim_plugin_def on_part_def part_net_def rim_postPostFrame_def put_part_def plugin_part.put_get [OF part])
  let ?w = "fold (step_part get put (rim_receive host)) ms (nApp ?sent)"
  have "update_node le k ?sent = (Inr (), finish_node k rest ?w ?sent)"
    by (rule block_handler.update_node_block [OF plugin_part.lift_block_handler [OF part rim.block_handler_axioms] assms(7,8),
          where s = "s\<lparr>sOutgoing := sOutgoing s @ end_block_bytes 3\<rparr>" and f = f])
      (use assms(5,6,9) peer K in \<open>simp_all add: after_send_def append_out_def isConnected_def\<close>)
  then have "update le sel 3 ?st = Some (Inr (), finish_node k rest ?w ?sent)"
    using update_single [OF peer] assms(10,11) by blast
  then have "\<exists>m'. cluster_postPostFrame le sel plug m = Some (Inr (), m') \<and> mClusterNetwork m' = finish_node k rest ?w ?sent"
    by (rule device_frame_updates [OF assms(2) device_frame_nodes(2) [OF assms(4)] quiet])
  then show ?thesis
    using peer K by (auto simp: finish_node_def upd_heap_def plugin_part.fold_step_part [OF part] after_send_def append_out_def)
qed

lemma master_frame:
  assumes "device_frames_plugin le now get put plug r (mPlugins m)" and "nodes_work (mClusterNetwork m)"
    and "list_all (server_ok (rInput (get (cwPlugins (nApp (mClusterNetwork m)))))) (mDeviceServers (get (cwPlugins (nApp (mClusterNetwork m)))))"
    and "\<forall>k \<in> set (mNodes (mClusterNetwork m)). isConnected (nHeap (mClusterNetwork m) k)
      \<and> peer_sends (host k) [] (f k) (rest k) (nHeap (mClusterNetwork m) k)"
    and "reactor_knows (mClusterNetwork m)" and "fair sel (mReactor (mClusterNetwork m)) (set (mNodes (mClusterNetwork m)))"
  shows "\<exists>m'. cluster_postPostFrame le sel plug m = Some (Inr (), m')
    \<and> (\<forall>k \<in> set (mNodes (mClusterNetwork m)). sent_bytes (mClusterNetwork m') k
        = sent_bytes (mClusterNetwork m) k @ rim_frame_bytes h (get (cwPlugins (nApp (mClusterNetwork m)))) @ end_block_bytes 3)"
proof -
  let ?st = "mClusterNetwork m"
  let ?bytes = "rim_frame_bytes h (get (cwPlugins (nApp ?st)))"
  obtain w where call: "plugin_postPostFrame (plug r) ?st = (Inr (), (sent_to_all ?bytes ?st)\<lparr>nApp := w\<rparr>)"
    using device_frame_sent [OF assms(1-3)] by blast
  let ?sent = "(sent_to_all ?bytes ?st)\<lparr>nApp := w\<rparr>"
  have same: "mNodes (sent_to_all ?bytes ?st) = mNodes ?st" "mReactor (sent_to_all ?bytes ?st) = mReactor ?st"
    "\<And>k. k \<in> set (mNodes ?st) \<Longrightarrow> nHeap (sent_to_all ?bytes ?st) k = append_out ?bytes (nHeap ?st k)"
    by (simp_all add: sent_to_all_def)
  have "connected ?sent = connected ?st" by (auto simp: connected_def sent_to_all_def)
  then have knows: "reactor_knows ?sent" using assms(5) same(2) by (simp add: reactor_knows_def)
  have peers: "\<forall>k \<in> set (mNodes ?sent). peer_sends (host k) [] (f k) (rest k) (nHeap ?sent k)"
    using assms(4) by (auto simp: same(1,3) peer_sends_def append_out_def)
  have "\<exists>st'. update le sel 3 ?sent = Some (Inr (), st') \<and> nApp st' = w
      \<and> (\<forall>k \<in> set (mNodes ?sent). frame_over 3 rest ?sent st' k)"
    by (rule update_returns [where ms = "\<lambda>_. []" and J = "\<lambda>a. a = w" and host = host and f = f])
      (use assms(2,4,6) same knows peers in \<open>simp_all add: handled_def nodes_work_def\<close>)
  then obtain st' where st': "update le sel 3 ?sent = Some (Inr (), st')"
    "\<forall>k \<in> set (mNodes ?st). frame_over 3 rest ?sent st' k" by (auto simp: same(1))
  have "\<forall>k \<in> set (mNodes ?st). works (nHeap ?st k)" using assms(2) by (simp add: nodes_work_def)
  then have "\<exists>m'. cluster_postPostFrame le sel plug m = Some (Inr (), m') \<and> mClusterNetwork m' = st'"
    by (rule device_frame_updates [OF assms(1) _ call st'(1)])
  moreover have "sent_bytes st' k = sent_bytes ?st k @ ?bytes @ end_block_bytes 3" if "k \<in> set (mNodes ?st)" for k
    using bspec [OF st'(2) that] same(3) [OF that]
    by (auto simp: frame_over_def sent_bytes_def append_out_def)
  ultimately show ?thesis by blast
qed

text \<open>
  C5. A cluster's frame mirrors the master's devices.  At the end of a frame the master's
  cluster manager sends every served device's data and its end block, waits for the slaves' end
  blocks and returns.  A slave of any byte order to which these bytes come returns from its own
  end of the frame, with its end block sent; then each virtual device it has for one of the
  master's devices shows what the device shows there.  Both managers may have other plug-ins
  that do nothing at the end of a frame.
\<close>

theorem cluster_frame_mirrors:
  fixes M S :: "'p cluster_mgr" and get :: "'p \<Rightarrow> rim_world"
  defines "mine \<equiv> get (cwPlugins (nApp (mClusterNetwork M)))" and "theirs \<equiv> get (cwPlugins (nApp (mClusterNetwork S)))"
  assumes part: "plugin_part get put"
    and master: "device_frames_plugin le now get put plug r (mPlugins M)" "nodes_work (mClusterNetwork M)"
    "\<forall>k \<in> set (mNodes (mClusterNetwork M)). isConnected (nHeap (mClusterNetwork M) k)
      \<and> peer_sends (host k) [] (f k) (rest k) (nHeap (mClusterNetwork M) k)"
    "reactor_knows (mClusterNetwork M)" "fair sel (mReactor (mClusterNetwork M)) (set (mNodes (mClusterNetwork M)))"
    "rim_frame_typed T mine" "distinct (map dsId (mDeviceServers mine))"
    "j \<in> set (mNodes (mClusterNetwork M))" "sent_bytes (mClusterNetwork M) j = []"
    and slave: "device_frames_plugin le' now' get put plug' r' (mPlugins S)" "mDeviceServers theirs = []"
    "only_peer k s (mClusterNetwork S)" "rim_node T theirs"
    "mHandlerMap (mClusterNetwork S) rim_guid = Some (part_handler get put (rim_handlePacket le' now'))"
    "sel' i = Some events" "sHandle s \<in> set events"
  shows "\<exists>M'. cluster_postPostFrame le sel plug M = Some (Inr (), M')
    \<and> (sIncoming s = sent_bytes (mClusterNetwork M') j @ later \<longrightarrow>
        (\<exists>S' w. cluster_postPostFrame le' sel' plug' S = Some (Inr (), S') \<and> w = get (cwPlugins (nApp (mClusterNetwork S')))
          \<and> sent_bytes (mClusterNetwork S') k = sOutgoing s @ wire [] (EndMsg 3)
          \<and> mVirtualDevices w = mVirtualDevices theirs
          \<and> list_all (\<lambda>ds. pred_option (\<lambda>d. list_all
                (mirrors (dData (devs (rInput mine) ! dsDevice ds)) (dData (devs (rInput w) ! d)))
                (dTypes (devs (rInput mine) ! dsDevice ds)))
              (getVirtualDevice (dsId ds) w)) (mDeviceServers mine)))"
proof -
  have servers: "list_all (server_ok (rInput (get (cwPlugins (nApp (mClusterNetwork M))))))
      (mDeviceServers (get (cwPlugins (nApp (mClusterNetwork M)))))"
    using master(6) by (simp add: rim_frame_typed_def mine_def)
  obtain M' where M': "cluster_postPostFrame le sel plug M = Some (Inr (), M')"
    "sent_bytes (mClusterNetwork M') j = rim_frame_bytes [] mine @ end_block_bytes 3"
    using master_frame [OF master(1,2) servers master(3-5), of "[]"] master(8,9) by (auto simp: mine_def)
  have "\<exists>S'. cluster_postPostFrame le' sel' plug' S = Some (Inr (), S')
      \<and> get (cwPlugins (nApp (mClusterNetwork S'))) = fold (rim_receive []) (rim_frame mine) theirs
      \<and> sent_bytes (mClusterNetwork S') k = sOutgoing s @ wire [] (EndMsg 3)"
    if "sIncoming s = sent_bytes (mClusterNetwork M') j @ later"
  proof -
    have "sIncoming s = concat (map (\<lambda>x. wire [] (rim_msg x)) (rim_frame mine)) @ wire [] (EndMsg 3) @ later"
      using that M'(2) by (simp add: rim_frame_bytes_def end_block_bytes_def)
    then have "\<exists>S'. cluster_postPostFrame le' sel' plug' S = Some (Inr (), S')
        \<and> get (cwPlugins (nApp (mClusterNetwork S'))) = fold (rim_receive []) (rim_frame mine) theirs
        \<and> mSockStream (nHeap (mClusterNetwork S') k) = Some (s\<lparr>sIncoming := later, sOutgoing := sOutgoing s @ end_block_bytes 3\<rparr>)"
      using slave part rim_frame_ok(1) [OF master(6)] rim_frame_ok(2) [OF master(6), of "[]"] unfolding theirs_def
      by (intro slave_frame [where get = get and put = put and plug = plug' and m = S and T = T and s = s and j = i]) simp_all
    then show ?thesis by (auto simp: sent_bytes_def end_block_bytes_def)
  qed
  note step = this
  show ?thesis
  proof (rule exI [of _ M'], intro conjI impI)
    show "cluster_postPostFrame le sel plug M = Some (Inr (), M')" by (rule M'(1))
    assume "sIncoming s = sent_bytes (mClusterNetwork M') j @ later"
    from step [OF this] obtain S' where S': "cluster_postPostFrame le' sel' plug' S = Some (Inr (), S')"
      "get (cwPlugins (nApp (mClusterNetwork S'))) = fold (rim_receive []) (rim_frame mine) theirs"
      "sent_bytes (mClusterNetwork S') k = sOutgoing s @ wire [] (EndMsg 3)" by blast
    show "\<exists>S' w. cluster_postPostFrame le' sel' plug' S = Some (Inr (), S') \<and> w = get (cwPlugins (nApp (mClusterNetwork S')))
          \<and> sent_bytes (mClusterNetwork S') k = sOutgoing s @ wire [] (EndMsg 3)
          \<and> mVirtualDevices w = mVirtualDevices theirs
          \<and> list_all (\<lambda>ds. pred_option (\<lambda>d. list_all
                (mirrors (dData (devs (rInput mine) ! dsDevice ds)) (dData (devs (rInput w) ! d)))
                (dTypes (devs (rInput mine) ! dsDevice ds)))
              (getVirtualDevice (dsId ds) w)) (mDeviceServers mine)"
      using S' rim_frame_shows [OF master(6,7) slave(4), of "[]"]
      by (intro exI [of _ S'] exI [of _ "get (cwPlugins (nApp (mClusterNetwork S')))"]) simp
  qed
qed
section \<open>Examples\<close>

definition frame_plugins :: "nat \<Rightarrow> rim_world cluster_plugin" where
  "frame_plugins i = rim_plugin True (Interval 0) (\<lambda>p. p) (\<lambda>x p. x)"

definition frame_mgr :: "u8 list \<Rightarrow> rim_world \<Rightarrow> rim_world cluster_mgr" where
  "frame_mgr incoming w =
     (let m = ClusterManager_new (example_env 1) (config_manager_new ()) w
      in m\<lparr>mPlugins := [0],
           mClusterNetwork := (mClusterNetwork m)
             \<lparr>nHeap := (\<lambda>_. (node_new ''peer'' ''peer'' 7000 (Some \<lparr>sHandle = 7, sIncoming = incoming, sOutgoing = [], sBroken = False\<rparr>))
                \<lparr>mStatus := CONNECTED\<rparr>),
              nNext := 1, mNodes := [0], mHandlerMap := [rim_guid \<mapsto> plugin_handlePacket (frame_plugins 0)],
              mReactor := \<lparr>mSelector = [7], mDemuxTable = [7 \<mapsto> 0]\<rparr>\<rparr>\<rparr>)"

lemma frame_mgr_fields:
  "mPlugins (frame_mgr bs w) = [0]" "cwPlugins (nApp (mClusterNetwork (frame_mgr bs w))) = w"
  "mNodes (mClusterNetwork (frame_mgr bs w)) = [0]"
  "nHeap (mClusterNetwork (frame_mgr bs w)) k = (node_new ''peer'' ''peer'' 7000
     (Some \<lparr>sHandle = 7, sIncoming = bs, sOutgoing = [], sBroken = False\<rparr>))\<lparr>mStatus := CONNECTED\<rparr>"
  "mReactor (mClusterNetwork (frame_mgr bs w)) = \<lparr>mSelector = [7], mDemuxTable = [7 \<mapsto> 0]\<rparr>"
  "mHandlerMap (mClusterNetwork (frame_mgr bs w)) = [rim_guid \<mapsto> plugin_handlePacket (frame_plugins 0)]"
  by (simp_all add: frame_mgr_def ClusterManager_new_def addHandler_def netmgr_new_def Let_def)

lemma frame_mgr_ok:
  "device_frames_plugin True (Interval 0) (\<lambda>p. p) (\<lambda>x p. x) frame_plugins 0 (mPlugins (frame_mgr bs w))"
  "nodes_work (mClusterNetwork (frame_mgr bs w))" "reactor_knows (mClusterNetwork (frame_mgr bs w))"
  "only_peer 0 \<lparr>sHandle = 7, sIncoming = bs, sOutgoing = [], sBroken = False\<rparr> (mClusterNetwork (frame_mgr bs w))"
  "sent_bytes (mClusterNetwork (frame_mgr bs w)) 0 = []"
  "isConnected (nHeap (mClusterNetwork (frame_mgr bs w)) k)"
  "fair (\<lambda>_. Some [7]) (mReactor (mClusterNetwork (frame_mgr bs w))) (set (mNodes (mClusterNetwork (frame_mgr bs w))))"
proof -
  have "[0] = [] @ 0 # []" by simp
  then show "device_frames_plugin True (Interval 0) (\<lambda>p. p) (\<lambda>x p. x) frame_plugins 0 (mPlugins (frame_mgr bs w))"
    unfolding device_frames_plugin_def frame_mgr_fields
    by (intro conjI exI [of _ "[]"]) (simp_all add: frame_plugins_def quiet_plugins_def)
qed (auto simp: frame_mgr_fields nodes_work_def works_def reactor_knows_def connected_def isConnected_def only_peer_def
      sent_bytes_def node_new_def fair_def)

lemma wand_frame_typed: "rim_frame_typed (\<lambda>_. [TDigital, TAnalog]) wand_master"
  using example_wand_ok
  by (simp add: rim_frame_typed_def wand_master_def server_ok_def device_new_def data_packet_new)

lemma wand_master_fields:
  "mDeviceServers wand_master = [\<lparr>dsName = ''W'', dsDevice = 0, dsId = wand_guid, dsPacket = data_new rim_guid wand_guid\<rparr>]"
  "devs (rInput wand_master) ! 0 = device_new ''W'' [TDigital, TAnalog] example_wand"
  "dTypes (device_new n types dd) = types" "dData (device_new n types dd) = dd"
  by (simp_all add: wand_master_def device_new_def)

lemma wand_remote_node: "rim_node (\<lambda>_. [TDigital, TAnalog]) wand_remote"
  unfolding wand_remote_def
  by (intro rim_receive_node rim_world_new_node) (simp add: known_devices_def)

lemma wand_remote_fields: "mDeviceServers wand_remote = []" "getVirtualDevice wand_guid wand_remote = Some 0"
  by (simp_all add: wand_remote_def rim_world_new_def getVirtualDevice_name_def getVirtualDevice_def new_virtual_def
      Let_def InputManager_new_def)

theorem cluster_frame_mirrors_witness:
  "\<exists>M' S' bs d w. cluster_postPostFrame True (\<lambda>_. Some [7]) frame_plugins (frame_mgr (wire [] (EndMsg 3)) wand_master) = Some (Inr (), M')
     \<and> bs = sent_bytes (mClusterNetwork M') 0
     \<and> cluster_postPostFrame True (\<lambda>_. Some [7]) frame_plugins (frame_mgr bs wand_remote) = Some (Inr (), S')
     \<and> w = cwPlugins (nApp (mClusterNetwork S')) \<and> getVirtualDevice wand_guid w = Some d
     \<and> last (mStableBuffer (dDigital (dData (devs (rInput w) ! d)))) =
         [\<lparr>dValue = 1, mTimeStamp = Interval 6\<rparr>, \<lparr>dValue = 1, mTimeStamp = Interval 6\<rparr>]"
proof -
  let ?M = "frame_mgr (wire [] (EndMsg 3)) wand_master" and ?bs = "rim_frame_bytes [] wand_master @ end_block_bytes 3"
  let ?S = "frame_mgr ?bs wand_remote" and ?sel = "\<lambda>_ :: nat. Some [7 :: nat]"
  have peers: "\<forall>k \<in> set (mNodes (mClusterNetwork ?M)). isConnected (nHeap (mClusterNetwork ?M) k)
      \<and> peer_sends [] [] 3 [] (nHeap (mClusterNetwork ?M) k)"
    by (simp add: frame_mgr_fields frame_mgr_ok isConnected_def peer_sends_def block_ok_def node_new_def)
  have servers: "list_all (server_ok (rInput wand_master)) (mDeviceServers wand_master)"
    using wand_frame_typed by (simp add: rim_frame_typed_def)
  obtain M' where M': "cluster_postPostFrame True ?sel frame_plugins ?M = Some (Inr (), M')"
    "sent_bytes (mClusterNetwork M') 0 = ?bs"
    using master_frame [where host = "\<lambda>_. []" and f = "\<lambda>_. 3" and rest = "\<lambda>_. []" and h = "[]" and sel = ?sel,
        OF frame_mgr_ok(1,2) _ peers frame_mgr_ok(3,7)] servers
    by (auto simp: frame_mgr_fields frame_mgr_ok(5))
  have "\<exists>S' w. cluster_postPostFrame True ?sel frame_plugins ?S = Some (Inr (), S') \<and> w = cwPlugins (nApp (mClusterNetwork S'))
      \<and> mVirtualDevices w = mVirtualDevices wand_remote
      \<and> list_all (\<lambda>ds. pred_option (\<lambda>d. list_all
                (mirrors (dData (devs (rInput wand_master) ! dsDevice ds)) (dData (devs (rInput w) ! d)))
                (dTypes (devs (rInput wand_master) ! dsDevice ds)))
              (getVirtualDevice (dsId ds) w)) (mDeviceServers wand_master)"
    using cluster_frame_mirrors [where M = ?M and S = ?S and get = "\<lambda>p. p" and put = "\<lambda>x p. x" and le = True and le' = True
        and plug = frame_plugins and plug' = frame_plugins and r = 0 and r' = 0 and j = 0 and k = 0 and i = 0 and events = "[7]"
        and host = "\<lambda>_. []" and f = "\<lambda>_. 3" and rest = "\<lambda>_. []" and sel = ?sel and sel' = ?sel and later = "[]"
        and s = "\<lparr>sHandle = 7, sIncoming = ?bs, sOutgoing = [], sBroken = False\<rparr>",
        OF whole.plugin_part_axioms frame_mgr_ok(1,2) peers frame_mgr_ok(3,7) _ _ _ _ frame_mgr_ok(1) _ frame_mgr_ok(4)]
      M' wand_frame_typed wand_remote_node
    by (auto simp: frame_mgr_fields frame_mgr_ok(5) wand_remote_fields frame_plugins_def rim_plugin_def wand_master_fields)
  then obtain S' w where S': "cluster_postPostFrame True ?sel frame_plugins ?S = Some (Inr (), S')"
    "w = cwPlugins (nApp (mClusterNetwork S'))" "getVirtualDevice wand_guid w = Some 0"
    "mirrors example_wand (dData (devs (rInput w) ! 0)) TDigital"
    using wand_remote_fields(2) by (auto simp: wand_master_fields getVirtualDevice_def)
  have "last (mStableBuffer (dDigital (dData (devs (rInput w) ! 0)))) =
      [\<lparr>dValue = 1, mTimeStamp = Interval 6\<rparr>, \<lparr>dValue = 1, mTimeStamp = Interval 6\<rparr>]"
    using S'(4) by (simp add: mirrors_def same_newest_def example_wand_def sample_buffer_new_def)
  then show ?thesis using M' S' by metis
qed

end
