(* ===== verification/SonixSound.thy ===== *)
theory SonixSound
  imports Prelude "HOL-Library.List_Lexorder" "HOL-Library.Char_ord" "HOL-Library.AList"
begin

text \<open>
  Sonix (\<^verbatim>\<open>sonix/snx\<close>), the sound interface: the base class of its implementations, the stub,
  the factory of implementations and the facade, which changes from one implementation to
  another while the application runs.

  An implementation's virtual functions are a record, \<open>sound_class\<close>; the objects are records
  with the base class's fields, the subclass's own and the state of the sound library it calls,
  which is handed on when the implementation changes.  A \<^verbatim>\<open>float\<close> is its 32 bits.
\<close>

section \<open>Sounds\<close>

type_synonym float32 = u32

datatype data_source = FILESYSTEM | DATA_16_MONO | DATA_8_MONO

record sound_info =
  soundAlias :: string
  datasource :: data_source
  filename :: string
  position :: "float32 \<times> float32 \<times> float32"
  ambient :: bool
  retriggerable :: bool
  repeat :: int
  pitchbend :: float32
  cutoff :: float32
  volume :: float32
  streaming :: bool
  triggerOnNextBind :: bool
  repeatCountdown :: int

definition float_one :: float32 where
  "float_one = 0x3F800000"

definition sound_info_new :: sound_info where
  "sound_info_new = \<lparr>soundAlias = [], datasource = FILESYSTEM, filename = [], position = (0, 0, 0), ambient = False,
     retriggerable = False, repeat = 1, pitchbend = float_one, cutoff = float_one, volume = float_one,
     streaming = False, triggerOnNextBind = False, repeatCountdown = 0\<rparr>"

datatype speaker_config = MONO | STEREO | QUAD | DOLBY5_1 | OCT

datatype sample_rate = STEREO_22050_KHZ | MONO_22050_KHZ | STEREO_44100_KHZ | MONO_44100_KHZ

record sound_api_info =
  voices :: int
  speakerConfig :: speaker_config
  sampleRate :: sample_rate

definition sound_api_info_new :: sound_api_info where
  "sound_api_info_new = \<lparr>voices = 65535, speakerConfig = STEREO, sampleRate = STEREO_22050_KHZ\<rparr>"

section \<open>Implementations\<close>

record ('b, 'w) sound_impl =
  mName :: string
  mSoundAPIInfo :: sound_api_info
  mSounds :: "(string, sound_info) omap"
  mListenerPos :: "float32 list"
  iOwn :: "'b option"
  iLib :: 'w

record ('b, 'w) sound_class =
  v_fresh :: "'b option"
  v_isStarted :: "('b, 'w) sound_impl \<Rightarrow> bool"
  v_startAPI :: "('b, 'w) sound_impl \<Rightarrow> (bool \<times> ('b, 'w) sound_impl) result"
  v_shutdownAPI :: "('b, 'w) sound_impl \<Rightarrow> ('b, 'w) sound_impl result"
  v_delete :: "('b, 'w) sound_impl \<Rightarrow> ('b, 'w) sound_impl result"
  v_bind :: "string \<Rightarrow> ('b, 'w) sound_impl \<Rightarrow> ('b, 'w) sound_impl result"
  v_unbind :: "string \<Rightarrow> ('b, 'w) sound_impl \<Rightarrow> ('b, 'w) sound_impl result"
  v_bindAll :: "('b, 'w) sound_impl \<Rightarrow> ('b, 'w) sound_impl result"
  v_unbindAll :: "('b, 'w) sound_impl \<Rightarrow> ('b, 'w) sound_impl result"
  v_clear :: "('b, 'w) sound_impl \<Rightarrow> ('b, 'w) sound_impl result"
  v_trigger :: "string \<Rightarrow> int \<Rightarrow> ('b, 'w) sound_impl \<Rightarrow> ('b, 'w) sound_impl result"
  v_isPlaying :: "string \<Rightarrow> ('b, 'w) sound_impl \<Rightarrow> bool result"
  v_isPaused :: "string \<Rightarrow> ('b, 'w) sound_impl \<Rightarrow> bool result"
  v_stop :: "string \<Rightarrow> ('b, 'w) sound_impl \<Rightarrow> ('b, 'w) sound_impl result"
  v_pause :: "string \<Rightarrow> ('b, 'w) sound_impl \<Rightarrow> ('b, 'w) sound_impl result"
  v_unpause :: "string \<Rightarrow> ('b, 'w) sound_impl \<Rightarrow> ('b, 'w) sound_impl result"
  v_setAmbient :: "string \<Rightarrow> bool \<Rightarrow> ('b, 'w) sound_impl \<Rightarrow> ('b, 'w) sound_impl result"
  v_setPitchBend :: "string \<Rightarrow> float32 \<Rightarrow> ('b, 'w) sound_impl \<Rightarrow> ('b, 'w) sound_impl result"
  v_setVolume :: "string \<Rightarrow> float32 \<Rightarrow> ('b, 'w) sound_impl \<Rightarrow> ('b, 'w) sound_impl result"
  v_setCutoff :: "string \<Rightarrow> float32 \<Rightarrow> ('b, 'w) sound_impl \<Rightarrow> ('b, 'w) sound_impl result"
  v_setPosition :: "string \<Rightarrow> float32 \<times> float32 \<times> float32 \<Rightarrow> ('b, 'w) sound_impl \<Rightarrow> ('b, 'w) sound_impl result"
  v_setListenerPosition :: "float32 list \<Rightarrow> ('b, 'w) sound_impl \<Rightarrow> ('b, 'w) sound_impl result"
  v_step :: "float32 \<Rightarrow> ('b, 'w) sound_impl \<Rightarrow> ('b, 'w) sound_impl result"

text \<open>\<^verbatim>\<open>lookup\<close> is \<^verbatim>\<open>mSounds[alias]\<close>: an alias that is not there is entered.\<close>

definition has_sound :: "string \<Rightarrow> ('b, 'w) sound_impl \<Rightarrow> bool" where
  "has_sound alias_name i \<longleftrightarrow> map_of (mSounds i) alias_name \<noteq> None"

definition sound_of :: "string \<Rightarrow> ('b, 'w) sound_impl \<Rightarrow> sound_info" where
  "sound_of alias_name i = (case map_of (mSounds i) alias_name of Some s \<Rightarrow> s | None \<Rightarrow> sound_info_new)"

definition upd_sound :: "string \<Rightarrow> (sound_info \<Rightarrow> sound_info) \<Rightarrow> ('b, 'w) sound_impl \<Rightarrow> ('b, 'w) sound_impl" where
  "upd_sound alias_name f i = i\<lparr>mSounds := omap_put alias_name (f (sound_of alias_name i)) (mSounds i)\<rparr>"

definition sound_lookup :: "string \<Rightarrow> ('b, 'w) sound_impl \<Rightarrow> sound_info \<times> ('b, 'w) sound_impl" where
  "sound_lookup alias_name i = (sound_of alias_name i, upd_sound alias_name id i)"

definition not_started :: failure where
  "not_started = AssertionFailed ''must call startAPI prior to this function''"

section \<open>The base class\<close>

definition si_copy :: "('b, 'w) sound_impl \<Rightarrow> ('b, 'w) sound_impl \<Rightarrow> ('b, 'w) sound_impl" where
  "si_copy si i = i\<lparr>mName := mName si, mSounds := mSounds si, mListenerPos := mListenerPos si,
     mSoundAPIInfo := mSoundAPIInfo si\<rparr>"

definition si_trigger :: "bool \<Rightarrow> string \<Rightarrow> int \<Rightarrow> ('b, 'w) sound_impl \<Rightarrow> ('b, 'w) sound_impl result" where
  "si_trigger started alias_name repeats i =
     rbind (require started not_started) (\<lambda>_.
     Inr (upd_sound alias_name (\<lambda>s. s\<lparr>repeat := repeats, repeatCountdown := repeats\<rparr>) i))"

definition si_stop :: "bool \<Rightarrow> string \<Rightarrow> ('b, 'w) sound_impl \<Rightarrow> ('b, 'w) sound_impl result" where
  "si_stop started alias_name i =
     rbind (require started not_started) (\<lambda>_. Inr (upd_sound alias_name (\<lambda>s. s\<lparr>repeatCountdown := 0\<rparr>) i))"

definition si_setRetriggerable :: "string \<Rightarrow> bool \<Rightarrow> ('b, 'w) sound_impl \<Rightarrow> ('b, 'w) sound_impl" where
  "si_setRetriggerable alias_name onOff i = upd_sound alias_name (\<lambda>s. s\<lparr>retriggerable := onOff\<rparr>) i"

definition si_isRetriggerable :: "string \<Rightarrow> ('b, 'w) sound_impl \<Rightarrow> bool \<times> ('b, 'w) sound_impl" where
  "si_isRetriggerable alias_name i = (let (s, i) = sound_lookup alias_name i in (retriggerable s, i))"

definition si_setAmbient :: "string \<Rightarrow> bool \<Rightarrow> ('b, 'w) sound_impl \<Rightarrow> ('b, 'w) sound_impl" where
  "si_setAmbient alias_name setting i = upd_sound alias_name (\<lambda>s. s\<lparr>ambient := setting\<rparr>) i"

definition si_isAmbient :: "string \<Rightarrow> ('b, 'w) sound_impl \<Rightarrow> bool \<times> ('b, 'w) sound_impl" where
  "si_isAmbient alias_name i = (let (s, i) = sound_lookup alias_name i in (ambient s, i))"

definition si_setPitchBend :: "string \<Rightarrow> float32 \<Rightarrow> ('b, 'w) sound_impl \<Rightarrow> ('b, 'w) sound_impl" where
  "si_setPitchBend alias_name amount i = upd_sound alias_name (\<lambda>s. s\<lparr>pitchbend := amount\<rparr>) i"

definition si_setVolume :: "string \<Rightarrow> float32 \<Rightarrow> ('b, 'w) sound_impl \<Rightarrow> ('b, 'w) sound_impl" where
  "si_setVolume alias_name amount i = upd_sound alias_name (\<lambda>s. s\<lparr>volume := amount\<rparr>) i"

definition si_setCutoff :: "string \<Rightarrow> float32 \<Rightarrow> ('b, 'w) sound_impl \<Rightarrow> ('b, 'w) sound_impl" where
  "si_setCutoff alias_name amount i = upd_sound alias_name (\<lambda>s. s\<lparr>cutoff := amount\<rparr>) i"

definition si_setPosition :: "bool \<Rightarrow> string \<Rightarrow> float32 \<times> float32 \<times> float32 \<Rightarrow> ('b, 'w) sound_impl \<Rightarrow> ('b, 'w) sound_impl result" where
  "si_setPosition started alias_name pos i =
     rbind (require started not_started) (\<lambda>_. Inr (upd_sound alias_name (\<lambda>s. s\<lparr>position := pos\<rparr>) i))"

definition si_getPosition :: "bool \<Rightarrow> string \<Rightarrow> ('b, 'w) sound_impl \<Rightarrow> ((float32 \<times> float32 \<times> float32) \<times> ('b, 'w) sound_impl) result" where
  "si_getPosition started alias_name i =
     rbind (require started not_started) (\<lambda>_. let (s, i) = sound_lookup alias_name i in Inr (position s, i))"

definition si_setListenerPosition :: "bool \<Rightarrow> float32 list \<Rightarrow> ('b, 'w) sound_impl \<Rightarrow> ('b, 'w) sound_impl result" where
  "si_setListenerPosition started mat i =
     rbind (require started not_started) (\<lambda>_. Inr (i\<lparr>mListenerPos := mat\<rparr>))"

definition si_getListenerPosition :: "bool \<Rightarrow> ('b, 'w) sound_impl \<Rightarrow> float32 list result" where
  "si_getListenerPosition started i = rbind (require started not_started) (\<lambda>_. Inr (mListenerPos i))"

definition si_configureAPI :: "sound_api_info \<Rightarrow> ('b, 'w) sound_impl \<Rightarrow> ('b, 'w) sound_impl" where
  "si_configureAPI sai i = i\<lparr>mSoundAPIInfo := sai\<rparr>"

definition si_bindAll :: "(string \<Rightarrow> ('b, 'w) sound_impl \<Rightarrow> ('b, 'w) sound_impl result) \<Rightarrow> ('b, 'w) sound_impl \<Rightarrow> ('b, 'w) sound_impl result" where
  "si_bindAll bind i = rfold bind (map fst (mSounds i)) i"

definition si_unbindAll :: "(string \<Rightarrow> ('b, 'w) sound_impl \<Rightarrow> ('b, 'w) sound_impl result) \<Rightarrow> ('b, 'w) sound_impl \<Rightarrow> ('b, 'w) sound_impl result" where
  "si_unbindAll unbind i = rfold unbind (map fst (mSounds i)) i"

text \<open>A sound's new description keeps whether the sound is to be triggered by its next binding.\<close>

definition si_configure :: "('b, 'w) sound_class \<Rightarrow> string \<Rightarrow> sound_info \<Rightarrow> ('b, 'w) sound_impl \<Rightarrow> ('b, 'w) sound_impl result" where
  "si_configure c alias_name description i =
     rbind (v_unbind c alias_name i) (\<lambda>i.
     let i = upd_sound alias_name (\<lambda>temp. description\<lparr>triggerOnNextBind := triggerOnNextBind temp\<rparr>) i
     in if v_isStarted c i then v_bind c alias_name i else Inr i)"

definition si_remove :: "('b, 'w) sound_class \<Rightarrow> string \<Rightarrow> ('b, 'w) sound_impl \<Rightarrow> ('b, 'w) sound_impl result" where
  "si_remove c alias_name i =
     rbind (if v_isStarted c i then v_unbind c alias_name i else Inr i) (\<lambda>i.
     Inr (i\<lparr>mSounds := omap_erase alias_name (mSounds i)\<rparr>))"

section \<open>The stub\<close>

definition identity_matrix :: "float32 list" where
  "identity_matrix = concat (map (\<lambda>r. map (\<lambda>k. if k = r then float_one else 0) [0..<4]) [0..<4])"

definition stub_new :: "'w \<Rightarrow> ('b, 'w) sound_impl" where
  "stub_new lib = \<lparr>mName = ''Stub'', mSoundAPIInfo = sound_api_info_new, mSounds = [], mListenerPos = identity_matrix,
     iOwn = None, iLib = lib\<rparr>"

definition stub_trigger :: "string \<Rightarrow> int \<Rightarrow> ('b, 'w) sound_impl \<Rightarrow> ('b, 'w) sound_impl result" where
  "stub_trigger alias_name looping i =
     rbind (si_trigger True alias_name looping i) (\<lambda>i. Inr (upd_sound alias_name (\<lambda>s. s\<lparr>triggerOnNextBind := True\<rparr>) i))"

definition stub_stop :: "string \<Rightarrow> ('b, 'w) sound_impl \<Rightarrow> ('b, 'w) sound_impl result" where
  "stub_stop alias_name i =
     rbind (si_stop True alias_name i) (\<lambda>i. Inr (upd_sound alias_name (\<lambda>s. s\<lparr>triggerOnNextBind := False\<rparr>) i))"

text \<open>Pausing is the base class's: it stops the sound, and unpausing triggers it.\<close>

definition stub_unpause :: "string \<Rightarrow> ('b, 'w) sound_impl \<Rightarrow> ('b, 'w) sound_impl result" where
  "stub_unpause alias_name i = (let (s, i) = sound_lookup alias_name i in stub_trigger alias_name (repeat s) i)"

definition stub_class :: "('b, 'w) sound_class" where
  "stub_class = \<lparr>v_fresh = None, v_isStarted = (\<lambda>_. True), v_startAPI = (\<lambda>i. Inr (True, i)), v_shutdownAPI = Inr,
     v_delete = Inr, v_bind = (\<lambda>_. Inr), v_unbind = (\<lambda>_. Inr), v_bindAll = Inr, v_unbindAll = Inr, v_clear = Inr,
     v_trigger = stub_trigger, v_isPlaying = (\<lambda>_ _. Inr False), v_isPaused = (\<lambda>_ _. Inr False), v_stop = stub_stop,
     v_pause = stub_stop, v_unpause = stub_unpause,
     v_setAmbient = (\<lambda>a b i. Inr (si_setAmbient a b i)), v_setPitchBend = (\<lambda>a x i. Inr (si_setPitchBend a x i)),
     v_setVolume = (\<lambda>a x i. Inr (si_setVolume a x i)), v_setCutoff = (\<lambda>a x i. Inr (si_setCutoff a x i)),
     v_setPosition = si_setPosition True, v_setListenerPosition = si_setListenerPosition True, v_step = (\<lambda>_. Inr)\<rparr>"
section \<open>The factory\<close>

text \<open>
  A class is a plug-in's, by number, or the stub's (\<open>None\<close>).  What is registered under a name
  is an object to clone, which is never started.
\<close>

type_synonym class_id = "nat option"

record ('b, 'w) plugin_lib =
  libLoads :: bool
  findNewPlugin :: bool
  findGetVersion :: bool
  findGetName :: bool
  libGetName :: string
  libNewPlugin :: "(nat \<times> ('b, 'w) sound_impl) option"

record ('b, 'w) sound_factory =
  mRegisteredImplementations :: "(string, nat \<times> ('b, 'w) sound_impl) omap"
  mPlugins :: "('b, 'w) plugin_lib list"

definition class_of :: "(nat \<Rightarrow> ('b, 'w) sound_class) \<Rightarrow> class_id \<Rightarrow> ('b, 'w) sound_class" where
  "class_of classes c = (case c of None \<Rightarrow> stub_class | Some n \<Rightarrow> classes n)"

definition sound_clone :: "('b, 'w) sound_class \<Rightarrow> 'w \<Rightarrow> ('b, 'w) sound_impl \<Rightarrow> ('b, 'w) sound_impl" where
  "sound_clone c lib i = si_copy i ((stub_new lib)\<lparr>iOwn := v_fresh c\<rparr>)"

definition factory_reg :: "string \<Rightarrow> (nat \<times> ('b, 'w) sound_impl) option \<Rightarrow> ('b, 'w) sound_factory \<Rightarrow> ('b, 'w) sound_factory" where
  "factory_reg apiName impl fac =
     (case impl of
        Some (c, i) \<Rightarrow> fac\<lparr>mRegisteredImplementations := omap_put apiName (c, i\<lparr>mName := apiName\<rparr>) (mRegisteredImplementations fac)\<rparr>
      | None \<Rightarrow> fac\<lparr>mRegisteredImplementations := omap_erase apiName (mRegisteredImplementations fac)\<rparr>)"

definition createImplementation :: "(nat \<Rightarrow> ('b, 'w) sound_class) \<Rightarrow> string \<Rightarrow> 'w \<Rightarrow> ('b, 'w) sound_factory
    \<Rightarrow> class_id \<times> ('b, 'w) sound_impl" where
  "createImplementation classes apiName lib fac =
     (case map_of (mRegisteredImplementations fac) apiName of
        Some (c, i) \<Rightarrow> (Some c, sound_clone (classes c) lib i)
      | None \<Rightarrow> (None, stub_new lib))"

definition isPlugin :: "('b, 'w) plugin_lib \<Rightarrow> bool" where
  "isPlugin lib \<longleftrightarrow> findNewPlugin lib \<and> findGetVersion lib \<and> findGetName lib"

text \<open>A library that fails to load is reported and passed over.\<close>

definition load_plugin_lib :: "('b, 'w) plugin_lib \<Rightarrow> ('b, 'w) sound_factory \<Rightarrow> ('b, 'w) sound_factory" where
  "load_plugin_lib lib fac =
     (if libLoads lib \<and> isPlugin lib \<and> map_of (mRegisteredImplementations fac) (libGetName lib) = None
      then let fac = fac\<lparr>mPlugins := mPlugins fac @ [lib]\<rparr>
           in case libNewPlugin lib of
                Some impl \<Rightarrow> factory_reg (libGetName lib) (Some impl) fac
              | None \<Rightarrow> fac
      else fac)"

definition loadPlugins :: "('b, 'w) plugin_lib list \<Rightarrow> ('b, 'w) sound_factory \<Rightarrow> ('b, 'w) sound_factory" where
  "loadPlugins libs fac = fold load_plugin_lib libs fac"

definition unloadPlugins :: "('b, 'w) sound_factory \<Rightarrow> ('b, 'w) sound_factory" where
  "unloadPlugins fac = (fold (\<lambda>lib. factory_reg (libGetName lib) None) (mPlugins fac) fac)\<lparr>mPlugins := []\<rparr>"

section \<open>The facade\<close>

text \<open>\<open>sxLib\<close> is the library's state while there is no implementation.\<close>

record ('b, 'w) sonix =
  mImplementation :: "(class_id \<times> ('b, 'w) sound_impl) option"
  sxFactory :: "('b, 'w) sound_factory"
  sxLib :: 'w

text \<open>\<^verbatim>\<open>impl()\<close> makes an implementation when there is none; whether it starts is not looked at.\<close>

definition sonix_impl :: "(nat \<Rightarrow> ('b, 'w) sound_class) \<Rightarrow> ('b, 'w) sonix
    \<Rightarrow> ((class_id \<times> ('b, 'w) sound_impl) \<times> ('b, 'w) sonix) result" where
  "sonix_impl classes sx =
     (case mImplementation sx of
        Some ci \<Rightarrow> Inr (ci, sx)
      | None \<Rightarrow>
          let (c, i) = createImplementation classes ''stub'' (sxLib sx) (sxFactory sx)
          in rbind (v_startAPI (class_of classes c) i) (\<lambda>(_, i).
             rbind (v_bindAll (class_of classes c) i) (\<lambda>i.
             Inr ((c, i), sx\<lparr>mImplementation := Some (c, i)\<rparr>))))"

definition on_impl :: "(nat \<Rightarrow> ('b, 'w) sound_class) \<Rightarrow> (('b, 'w) sound_class \<Rightarrow> ('b, 'w) sound_impl \<Rightarrow> ('r \<times> ('b, 'w) sound_impl) result)
    \<Rightarrow> ('b, 'w) sonix \<Rightarrow> ('r \<times> ('b, 'w) sonix) result" where
  "on_impl classes f sx =
     rbind (sonix_impl classes sx) (\<lambda>((c, i), sx).
     rbind (f (class_of classes c) i) (\<lambda>(r, i).
     Inr (r, sx\<lparr>mImplementation := Some (c, i)\<rparr>)))"

definition no_value :: "'a result \<Rightarrow> (unit \<times> 'a) result" where
  "no_value r = map_sum id (Pair ()) r"

definition sonix_trigger :: "(nat \<Rightarrow> ('b, 'w) sound_class) \<Rightarrow> string \<Rightarrow> int \<Rightarrow> ('b, 'w) sonix \<Rightarrow> (unit \<times> ('b, 'w) sonix) result" where
  "sonix_trigger classes alias_name repeats = on_impl classes (\<lambda>c i. no_value (v_trigger c alias_name repeats i))"

definition sonix_isPlaying :: "(nat \<Rightarrow> ('b, 'w) sound_class) \<Rightarrow> string \<Rightarrow> ('b, 'w) sonix \<Rightarrow> (bool \<times> ('b, 'w) sonix) result" where
  "sonix_isPlaying classes alias_name = on_impl classes (\<lambda>c i. rbind (v_isPlaying c alias_name i) (\<lambda>b. Inr (b, i)))"

definition sonix_setRetriggerable :: "(nat \<Rightarrow> ('b, 'w) sound_class) \<Rightarrow> string \<Rightarrow> bool \<Rightarrow> ('b, 'w) sonix \<Rightarrow> (unit \<times> ('b, 'w) sonix) result" where
  "sonix_setRetriggerable classes alias_name onOff = on_impl classes (\<lambda>c i. Inr ((), si_setRetriggerable alias_name onOff i))"

definition sonix_isRetriggerable :: "(nat \<Rightarrow> ('b, 'w) sound_class) \<Rightarrow> string \<Rightarrow> ('b, 'w) sonix \<Rightarrow> (bool \<times> ('b, 'w) sonix) result" where
  "sonix_isRetriggerable classes alias_name = on_impl classes (\<lambda>c i. Inr (si_isRetriggerable alias_name i))"

definition sonix_stop :: "(nat \<Rightarrow> ('b, 'w) sound_class) \<Rightarrow> string \<Rightarrow> ('b, 'w) sonix \<Rightarrow> (unit \<times> ('b, 'w) sonix) result" where
  "sonix_stop classes alias_name = on_impl classes (\<lambda>c i. no_value (v_stop c alias_name i))"

definition sonix_pause :: "(nat \<Rightarrow> ('b, 'w) sound_class) \<Rightarrow> string \<Rightarrow> ('b, 'w) sonix \<Rightarrow> (unit \<times> ('b, 'w) sonix) result" where
  "sonix_pause classes alias_name = on_impl classes (\<lambda>c i. no_value (v_pause c alias_name i))"

definition sonix_unpause :: "(nat \<Rightarrow> ('b, 'w) sound_class) \<Rightarrow> string \<Rightarrow> ('b, 'w) sonix \<Rightarrow> (unit \<times> ('b, 'w) sonix) result" where
  "sonix_unpause classes alias_name = on_impl classes (\<lambda>c i. no_value (v_unpause c alias_name i))"

definition sonix_isPaused :: "(nat \<Rightarrow> ('b, 'w) sound_class) \<Rightarrow> string \<Rightarrow> ('b, 'w) sonix \<Rightarrow> (bool \<times> ('b, 'w) sonix) result" where
  "sonix_isPaused classes alias_name = on_impl classes (\<lambda>c i. rbind (v_isPaused c alias_name i) (\<lambda>b. Inr (b, i)))"

definition sonix_setAmbient :: "(nat \<Rightarrow> ('b, 'w) sound_class) \<Rightarrow> string \<Rightarrow> bool \<Rightarrow> ('b, 'w) sonix \<Rightarrow> (unit \<times> ('b, 'w) sonix) result" where
  "sonix_setAmbient classes alias_name setting = on_impl classes (\<lambda>c i. no_value (v_setAmbient c alias_name setting i))"

definition sonix_isAmbient :: "(nat \<Rightarrow> ('b, 'w) sound_class) \<Rightarrow> string \<Rightarrow> ('b, 'w) sonix \<Rightarrow> (bool \<times> ('b, 'w) sonix) result" where
  "sonix_isAmbient classes alias_name = on_impl classes (\<lambda>c i. Inr (si_isAmbient alias_name i))"

definition sonix_setPitchBend :: "(nat \<Rightarrow> ('b, 'w) sound_class) \<Rightarrow> string \<Rightarrow> float32 \<Rightarrow> ('b, 'w) sonix \<Rightarrow> (unit \<times> ('b, 'w) sonix) result" where
  "sonix_setPitchBend classes alias_name amount = on_impl classes (\<lambda>c i. no_value (v_setPitchBend c alias_name amount i))"

definition sonix_setVolume :: "(nat \<Rightarrow> ('b, 'w) sound_class) \<Rightarrow> string \<Rightarrow> float32 \<Rightarrow> ('b, 'w) sonix \<Rightarrow> (unit \<times> ('b, 'w) sonix) result" where
  "sonix_setVolume classes alias_name amount = on_impl classes (\<lambda>c i. no_value (v_setVolume c alias_name amount i))"

definition sonix_setCutoff :: "(nat \<Rightarrow> ('b, 'w) sound_class) \<Rightarrow> string \<Rightarrow> float32 \<Rightarrow> ('b, 'w) sonix \<Rightarrow> (unit \<times> ('b, 'w) sonix) result" where
  "sonix_setCutoff classes alias_name amount = on_impl classes (\<lambda>c i. no_value (v_setCutoff c alias_name amount i))"

definition sonix_setPosition :: "(nat \<Rightarrow> ('b, 'w) sound_class) \<Rightarrow> string \<Rightarrow> float32 \<times> float32 \<times> float32 \<Rightarrow> ('b, 'w) sonix
    \<Rightarrow> (unit \<times> ('b, 'w) sonix) result" where
  "sonix_setPosition classes alias_name pos = on_impl classes (\<lambda>c i. no_value (v_setPosition c alias_name pos i))"

definition sonix_getPosition :: "(nat \<Rightarrow> ('b, 'w) sound_class) \<Rightarrow> string \<Rightarrow> ('b, 'w) sonix
    \<Rightarrow> ((float32 \<times> float32 \<times> float32) \<times> ('b, 'w) sonix) result" where
  "sonix_getPosition classes alias_name = on_impl classes (\<lambda>c i. si_getPosition (v_isStarted c i) alias_name i)"

definition sonix_setListenerPosition :: "(nat \<Rightarrow> ('b, 'w) sound_class) \<Rightarrow> float32 list \<Rightarrow> ('b, 'w) sonix \<Rightarrow> (unit \<times> ('b, 'w) sonix) result" where
  "sonix_setListenerPosition classes mat = on_impl classes (\<lambda>c i. no_value (v_setListenerPosition c mat i))"

definition sonix_getListenerPosition :: "(nat \<Rightarrow> ('b, 'w) sound_class) \<Rightarrow> ('b, 'w) sonix \<Rightarrow> (float32 list \<times> ('b, 'w) sonix) result" where
  "sonix_getListenerPosition classes =
     on_impl classes (\<lambda>c i. rbind (si_getListenerPosition (v_isStarted c i) i) (\<lambda>mat. Inr (mat, i)))"

definition sonix_configureAPI :: "(nat \<Rightarrow> ('b, 'w) sound_class) \<Rightarrow> sound_api_info \<Rightarrow> ('b, 'w) sonix \<Rightarrow> (unit \<times> ('b, 'w) sonix) result" where
  "sonix_configureAPI classes sai = on_impl classes (\<lambda>c i. Inr ((), si_configureAPI sai i))"

definition sonix_configure :: "(nat \<Rightarrow> ('b, 'w) sound_class) \<Rightarrow> string \<Rightarrow> sound_info \<Rightarrow> ('b, 'w) sonix \<Rightarrow> (unit \<times> ('b, 'w) sonix) result" where
  "sonix_configure classes alias_name description = on_impl classes (\<lambda>c i. no_value (si_configure c alias_name description i))"

definition sonix_remove :: "(nat \<Rightarrow> ('b, 'w) sound_class) \<Rightarrow> string \<Rightarrow> ('b, 'w) sonix \<Rightarrow> (unit \<times> ('b, 'w) sonix) result" where
  "sonix_remove classes alias_name = on_impl classes (\<lambda>c i. no_value (si_remove c alias_name i))"

definition sonix_step :: "(nat \<Rightarrow> ('b, 'w) sound_class) \<Rightarrow> float32 \<Rightarrow> ('b, 'w) sonix \<Rightarrow> (unit \<times> ('b, 'w) sonix) result" where
  "sonix_step classes timeElapsed = on_impl classes (\<lambda>c i. no_value (v_step c timeElapsed i))"

definition sonix_shutdownAPI :: "(nat \<Rightarrow> ('b, 'w) sound_class) \<Rightarrow> ('b, 'w) sonix \<Rightarrow> ('b, 'w) sonix result" where
  "sonix_shutdownAPI classes sx =
     (case mImplementation sx of
        None \<Rightarrow> Inr sx
      | Some (c, i) \<Rightarrow>
          rbind (v_unbindAll (class_of classes c) i) (\<lambda>i.
          rbind (v_shutdownAPI (class_of classes c) i) (\<lambda>i.
          rbind (v_delete (class_of classes c) i) (\<lambda>i.
          Inr (sx\<lparr>mImplementation := None, sxLib := iLib i\<rparr>)))))"

text \<open>
  The new object takes the sounds over before the old one unbinds them.  The library's state
  goes from the old object to the new one, which does not touch it in between.
\<close>

definition replace_impl :: "(nat \<Rightarrow> ('b, 'w) sound_class) \<Rightarrow> string \<Rightarrow> ('b, 'w) sound_factory \<Rightarrow> class_id \<times> ('b, 'w) sound_impl
    \<Rightarrow> (class_id \<times> ('b, 'w) sound_impl) result" where
  "replace_impl classes apiName fac old =
     (let (c', oldImpl) = old;
          (c, i) = createImplementation classes apiName (iLib oldImpl) fac;
          i = si_copy oldImpl i
      in rbind (v_unbindAll (class_of classes c') oldImpl) (\<lambda>oldImpl.
         rbind (v_shutdownAPI (class_of classes c') oldImpl) (\<lambda>oldImpl.
         rbind (v_delete (class_of classes c') oldImpl) (\<lambda>oldImpl.
         Inr (c, i\<lparr>iLib := iLib oldImpl\<rparr>)))))"

definition change_once :: "(nat \<Rightarrow> ('b, 'w) sound_class) \<Rightarrow> string \<Rightarrow> ('b, 'w) sonix \<Rightarrow> (bool \<times> ('b, 'w) sonix) result" where
  "change_once classes apiName sx =
     rbind (sonix_impl classes sx) (\<lambda>(old, sx).
     rbind (replace_impl classes apiName (sxFactory sx) old) (\<lambda>(c, i).
     rbind (v_startAPI (class_of classes c) i) (\<lambda>(ok, i).
     Inr (ok, sx\<lparr>mImplementation := Some (c, i)\<rparr>))))"

definition bind_current :: "(nat \<Rightarrow> ('b, 'w) sound_class) \<Rightarrow> ('b, 'w) sonix \<Rightarrow> ('b, 'w) sonix result" where
  "bind_current classes sx =
     (case mImplementation sx of
        None \<Rightarrow> Inl (Undefined ''null implementation'')
      | Some (c, i) \<Rightarrow> rbind (v_bindAll (class_of classes c) i) (\<lambda>i. Inr (sx\<lparr>mImplementation := Some (c, i)\<rparr>)))"

text \<open>
  An implementation that does not start is replaced by \<^verbatim>\<open>stub\<close>, by the same function, which
  nothing bounds; afterwards the sounds are bound once more.
\<close>

partial_function (option) changeAPI :: "(nat \<Rightarrow> ('b, 'w) sound_class) \<Rightarrow> string \<Rightarrow> ('b, 'w) sonix \<Rightarrow> ('b, 'w) sonix result option" where
  "changeAPI classes apiName sx =
     (case change_once classes apiName sx of
        Inl e \<Rightarrow> Some (Inl e)
      | Inr started \<Rightarrow>
          if fst started then Some (bind_current classes (snd started))
          else Option.bind (changeAPI classes ''stub'' (snd started)) (\<lambda>r. Some (rbind r (bind_current classes))))"
section \<open>What the facade relies on\<close>

text \<open>
  The settings an application has made: the sounds but for what playing them changes, the
  listener and the API's parameters; and the name, which \<open>si_copy\<close> also takes over.
\<close>

definition sound_settings :: "sound_info \<Rightarrow> sound_info" where
  "sound_settings s = s\<lparr>triggerOnNextBind := False, repeatCountdown := 0\<rparr>"

definition settings :: "('b, 'w) sound_impl \<Rightarrow> (string \<times> sound_info) list \<times> float32 list \<times> sound_api_info \<times> string" where
  "settings i = (map (\<lambda>(a, s). (a, sound_settings s)) (mSounds i), mListenerPos i, mSoundAPIInfo i, mName i)"

definition keeps_settings :: "('b, 'w) sound_class \<Rightarrow> (('b, 'w) sound_impl \<Rightarrow> bool)
    \<Rightarrow> (('b, 'w) sound_impl \<Rightarrow> ('b, 'w) sound_impl result) \<Rightarrow> ('b, 'w) sound_impl \<Rightarrow> bool" where
  "keeps_settings c ok f i \<longleftrightarrow> (\<exists>i'. f i = Inr i' \<and> ok i' \<and> settings i' = settings i)"

locale sound_backend =
  fixes c :: "('b, 'w) sound_class" and ok :: "('b, 'w) sound_impl \<Rightarrow> bool"
  assumes wf: "ok i \<Longrightarrow> omap_wf (mSounds i)"
    and start: "iOwn i = v_fresh c \<Longrightarrow> omap_wf (mSounds i) \<Longrightarrow>
      \<exists>b i'. v_startAPI c i = Inr (b, i') \<and> ok i' \<and> settings i' = settings i \<and> (b \<longrightarrow> v_isStarted c i')"
    and bind: "ok i \<Longrightarrow> v_isStarted c i \<Longrightarrow> keeps_settings c (\<lambda>i. ok i \<and> v_isStarted c i) (v_bindAll c) i"
    and unbind: "ok i \<Longrightarrow> keeps_settings c ok (v_unbindAll c) i"
    and shutdown: "ok i \<Longrightarrow> keeps_settings c ok (v_shutdownAPI c) i"
    and delete: "ok i \<Longrightarrow> keeps_settings c ok (v_delete c) i"
begin

lemma retire:
  assumes "ok i"
  shows "\<exists>i'. rbind (v_unbindAll c i) (\<lambda>i. rbind (v_shutdownAPI c i) (\<lambda>i. rbind (v_delete c i) f)) = f i'"
proof -
  obtain i1 where i1: "v_unbindAll c i = Inr i1" "ok i1" using unbind [OF assms] by (auto simp: keeps_settings_def)
  obtain i2 where i2: "v_shutdownAPI c i1 = Inr i2" "ok i2" using shutdown [OF i1(2)] by (auto simp: keeps_settings_def)
  obtain i3 where "v_delete c i2 = Inr i3" using delete [OF i2(2)] by (auto simp: keeps_settings_def)
  then show ?thesis using i1 i2 by auto
qed

end

interpretation stub: sound_backend stub_class "\<lambda>i. omap_wf (mSounds i)"
  by unfold_locales (auto simp: stub_class_def keeps_settings_def)

definition backend_ok :: "(nat \<Rightarrow> ('b, 'w) sound_impl \<Rightarrow> bool) \<Rightarrow> class_id \<Rightarrow> ('b, 'w) sound_impl \<Rightarrow> bool" where
  "backend_ok oks c = (case c of None \<Rightarrow> \<lambda>i. omap_wf (mSounds i) | Some n \<Rightarrow> oks n)"

lemma all_backends:
  assumes "\<forall>n. sound_backend (classes n) (oks n)"
  shows "sound_backend (class_of classes c) (backend_ok oks c)"
  using assms stub.sound_backend_axioms by (cases c) (simp_all add: class_of_def backend_ok_def)

lemma created_fresh:
  "createImplementation classes apiName lib fac = (c, i) \<Longrightarrow> iOwn i = v_fresh (class_of classes c)"
  by (auto simp: createImplementation_def sound_clone_def si_copy_def stub_new_def class_of_def stub_class_def
      split: option.splits)

lemma created_stub:
  "map_of (mRegisteredImplementations fac) apiName = None \<Longrightarrow> createImplementation classes apiName lib fac = (None, stub_new lib)"
  by (simp add: createImplementation_def)

lemma created_class:
  "createImplementation classes apiName lib fac = (c, i) \<Longrightarrow> c = map_option fst (map_of (mRegisteredImplementations fac) apiName)"
  by (auto simp: createImplementation_def split: option.splits)

lemma settings_copy [simp]: "settings ((si_copy si i)\<lparr>iLib := w\<rparr>) = settings si" "iOwn (si_copy si i) = iOwn i"
  by (simp_all add: settings_def si_copy_def)

lemma change_once_ok:
  assumes all: "\<forall>n. sound_backend (classes n) (oks n)" and i: "mImplementation sx = Some (c, i)" "backend_ok oks c i"
  shows "\<exists>b c' i'. change_once classes apiName sx = Inr (b, sx\<lparr>mImplementation := Some (c', i')\<rparr>) \<and> backend_ok oks c' i'
    \<and> settings i' = settings i \<and> (b \<longrightarrow> v_isStarted (class_of classes c') i')
    \<and> c' = map_option fst (map_of (mRegisteredImplementations (sxFactory sx)) apiName) \<and> (c' = None \<longrightarrow> b)"
proof -
  obtain c' i1 where new: "createImplementation classes apiName (iLib i) (sxFactory sx) = (c', i1)" by fastforce
  have "\<exists>lib. replace_impl classes apiName (sxFactory sx) (c, i) = Inr (c', (si_copy i i1)\<lparr>iLib := lib\<rparr>)"
    using sound_backend.retire [OF all_backends [OF all] i(2), of "\<lambda>old. Inr (c', (si_copy i i1)\<lparr>iLib := iLib old\<rparr>)"]
    unfolding replace_impl_def new Let_def prod.case by blast
  then obtain lib where "replace_impl classes apiName (sxFactory sx) (c, i) = Inr (c', (si_copy i i1)\<lparr>iLib := lib\<rparr>)" by blast
  moreover have "iOwn ((si_copy i i1)\<lparr>iLib := lib\<rparr>) = v_fresh (class_of classes c')"
    using created_fresh [OF new] by simp
  moreover have "omap_wf (mSounds ((si_copy i i1)\<lparr>iLib := lib\<rparr>))"
    using sound_backend.wf [OF all_backends [OF all] i(2)] by (simp add: si_copy_def)
  from sound_backend.start [OF all_backends [OF all] calculation(2) this]
  obtain b i' where "v_startAPI (class_of classes c') ((si_copy i i1)\<lparr>iLib := lib\<rparr>) = Inr (b, i')"
    "backend_ok oks c' i'" "settings i' = settings i" "b \<longrightarrow> v_isStarted (class_of classes c') i'" by auto
  moreover have "c' = None \<longrightarrow> b" using calculation(3) by (auto simp: class_of_def stub_class_def)
  moreover note created_class [OF new]
  ultimately show ?thesis
    using i(1) by (intro exI [of _ b] exI [of _ c'] exI [of _ i']) (simp add: change_once_def sonix_impl_def)
qed

lemma bind_current_ok:
  assumes "\<forall>n. sound_backend (classes n) (oks n)" and "mImplementation sx = Some (c, i)" and "backend_ok oks c i"
    and "v_isStarted (class_of classes c) i"
  shows "\<exists>i'. bind_current classes sx = Inr (sx\<lparr>mImplementation := Some (c, i')\<rparr>) \<and> backend_ok oks c i'
    \<and> settings i' = settings i \<and> v_isStarted (class_of classes c) i'"
  using sound_backend.bind [OF all_backends [OF assms(1)] assms(3,4)] assms(2)
  by (auto simp: bind_current_def keeps_settings_def)

text \<open>
  \<^verbatim>\<open>changeAPI\<close> returns when no plug-in is registered as \<^verbatim>\<open>stub\<close>, with an implementation that is
  started and has the settings of the one before.
\<close>

lemma changeAPI_ok:
  assumes all: "\<forall>n. sound_backend (classes n) (oks n)" and i: "mImplementation sx = Some (c, i)" "backend_ok oks c i"
    and stub: "map_of (mRegisteredImplementations (sxFactory sx)) ''stub'' = None"
  shows "\<exists>c' i'. changeAPI classes apiName sx = Some (Inr (sx\<lparr>mImplementation := Some (c', i')\<rparr>))
    \<and> (c' = map_option fst (map_of (mRegisteredImplementations (sxFactory sx)) apiName) \<or> c' = None) \<and> backend_ok oks c' i' \<and> v_isStarted (class_of classes c') i' \<and> settings i' = settings i"
proof -
  have started: "\<exists>i'. changeAPI classes name sx = Some (Inr (sx\<lparr>mImplementation := Some (c1, i')\<rparr>))
      \<and> backend_ok oks c1 i' \<and> v_isStarted (class_of classes c1) i' \<and> settings i' = settings i"
    if once: "change_once classes name sx = Inr (True, sx\<lparr>mImplementation := Some (c1, i1)\<rparr>)" "backend_ok oks c1 i1"
      "v_isStarted (class_of classes c1) i1" "settings i1 = settings i" for name and sx :: "('a, 'b) sonix" and c1 i i1
    using bind_current_ok [OF all _ once(2,3), of "sx\<lparr>mImplementation := Some (c1, i1)\<rparr>"] once(1,4)
    by (subst changeAPI.simps) auto
  obtain b c1 i1 where once: "change_once classes apiName sx = Inr (b, sx\<lparr>mImplementation := Some (c1, i1)\<rparr>)" "backend_ok oks c1 i1"
    "settings i1 = settings i" "b \<longrightarrow> v_isStarted (class_of classes c1) i1"
    "c1 = map_option fst (map_of (mRegisteredImplementations (sxFactory sx)) apiName)"
    using change_once_ok [OF all i] by blast
  show ?thesis
  proof (cases b)
    case True
    then have "\<exists>i'. changeAPI classes apiName sx = Some (Inr (sx\<lparr>mImplementation := Some (c1, i')\<rparr>))
        \<and> backend_ok oks c1 i' \<and> v_isStarted (class_of classes c1) i' \<and> settings i' = settings i"
      using once(1-4) by (intro started [of apiName sx c1 i1 i]) simp_all
    then show ?thesis using once(5) by blast
  next
    case False
    let ?sx = "sx\<lparr>mImplementation := Some (c1, i1)\<rparr>"
    obtain i2 where "change_once classes ''stub'' ?sx = Inr (True, ?sx\<lparr>mImplementation := Some (None, i2)\<rparr>)" "backend_ok oks None i2"
      "settings i2 = settings i1" "v_isStarted (class_of classes None) i2"
      using change_once_ok [OF all _ once(2), of ?sx "''stub''"] stub by auto
    then obtain i3 where r: "changeAPI classes ''stub'' ?sx = Some (Inr (?sx\<lparr>mImplementation := Some (None, i3)\<rparr>))"
      "backend_ok oks None i3" "v_isStarted (class_of classes None) i3" "settings i3 = settings i1"
      using started [of "''stub''" ?sx None i2 i1] by blast
    obtain i4 where "bind_current classes (?sx\<lparr>mImplementation := Some (None, i3)\<rparr>) = Inr (?sx\<lparr>mImplementation := Some (None, i4)\<rparr>)"
      "backend_ok oks None i4" "settings i4 = settings i3" "v_isStarted (class_of classes None) i4"
      using bind_current_ok [OF all _ r(2,3), of "?sx\<lparr>mImplementation := Some (None, i3)\<rparr>"] by auto
    then show ?thesis
      using False once(1,3) r(1,4) by (subst changeAPI.simps) auto
  qed
qed

end
