(* ===== verification/SonixOpenAL.thy ===== *)
theory SonixOpenAL
  imports SonixSound
begin

text \<open>
  Sonix's OpenAL implementation (\<^verbatim>\<open>sonix/plugins/OpenAL/OpenALSoundImplementation.cpp\<close>): which
  sounds are bound to a source and a buffer of the library, what is asked of the library, and how
  binding a sound and triggering it call each other.  OpenAL and ALUT are an argument, a record
  of functions on the library's state.
\<close>

section \<open>The library\<close>

datatype al_state = AL_INITIAL | AL_PLAYING | AL_PAUSED | AL_STOPPED

record wav =
  wavFormat :: nat
  wavData :: "u8 list"
  wavFreq :: nat

datatype al_command =
    SourcePlay nat
  | SourcePause nat
  | SourceStop nat
  | SourceLooping nat bool
  | SourceBuffer nat nat
  | SourceRelative nat bool
  | SourcePosition nat "float32 \<times> float32 \<times> float32"
  | SourceMinGain nat float32
  | SourceMaxGain nat float32
  | SourcePitch nat float32
  | SourceGain nat float32
  | BufferData nat wav
  | DeleteSource nat
  | DeleteBuffer nat
  | ListenerPosition "float32 list"
  | ListenerOrientation "float32 list"
  | InitWithoutContext
  | MakeContextCurrent
  | AlutExit
  | DestroyContext
  | CloseDevice

text \<open>
  \<^verbatim>\<open>alGetError\<close> gives the error (0 is none) and clears it.  The listener's vectors are taken
  from the matrix by GMTL, which is left to the library.
\<close>

record 'w openal =
  al_do :: "al_command \<Rightarrow> 'w \<Rightarrow> 'w"
  al_error :: "'w \<Rightarrow> nat \<times> 'w"
  al_isSource :: "nat \<Rightarrow> 'w \<Rightarrow> bool"
  al_sourceState :: "nat \<Rightarrow> 'w \<Rightarrow> al_state"
  al_genBuffer :: "'w \<Rightarrow> nat \<times> 'w"
  al_genSource :: "'w \<Rightarrow> nat \<times> 'w"
  al_openDevice :: "'w \<Rightarrow> bool \<times> 'w"
  al_createContext :: "'w \<Rightarrow> bool \<times> 'w"
  file_exists :: "string \<Rightarrow> 'w \<Rightarrow> bool option"
  load_wav :: "string \<Rightarrow> 'w \<Rightarrow> wav option"

section \<open>State\<close>

record al_sound_info =
  source :: nat
  buffer :: nat
  data :: "u8 list"

record al_own =
  mBindLookup :: "(string, al_sound_info) omap"
  mContextId :: bool
  mDev :: bool

type_synonym 'w al_impl = "(al_own, 'w) sound_impl"

definition al_own_new :: al_own where
  "al_own_new = \<lparr>mBindLookup = [], mContextId = False, mDev = False\<rparr>"

definition own :: "'w al_impl \<Rightarrow> al_own" where
  "own i = (case iOwn i of Some x \<Rightarrow> x | None \<Rightarrow> al_own_new)"

definition upd_own :: "(al_own \<Rightarrow> al_own) \<Rightarrow> 'w al_impl \<Rightarrow> 'w al_impl" where
  "upd_own f i = i\<lparr>iOwn := Some (f (own i))\<rparr>"

definition al_bound :: "string \<Rightarrow> 'w al_impl \<Rightarrow> al_sound_info option" where
  "al_bound a i = map_of (mBindLookup (own i)) a"

definition bind_entry :: "string \<Rightarrow> al_sound_info \<Rightarrow> 'w al_impl \<Rightarrow> 'w al_impl" where
  "bind_entry a b = upd_own (\<lambda>x. x\<lparr>mBindLookup := omap_put a b (mBindLookup x)\<rparr>)"

definition erase_entry :: "string \<Rightarrow> 'w al_impl \<Rightarrow> 'w al_impl" where
  "erase_entry a = upd_own (\<lambda>x. x\<lparr>mBindLookup := omap_erase a (mBindLookup x)\<rparr>)"

definition do_al :: "'w openal \<Rightarrow> al_command \<Rightarrow> 'w al_impl \<Rightarrow> 'w al_impl" where
  "do_al al cmd i = i\<lparr>iLib := al_do al cmd (iLib i)\<rparr>"

definition take_error :: "'w openal \<Rightarrow> 'w al_impl \<Rightarrow> nat \<times> 'w al_impl" where
  "take_error al i = (let (err, w) = al_error al (iLib i) in (err, i\<lparr>iLib := w\<rparr>))"

definition al_isStarted :: "'w al_impl \<Rightarrow> bool" where
  "al_isStarted i \<longleftrightarrow> mDev (own i) \<and> mContextId (own i)"

definition al_check :: "'w al_impl \<Rightarrow> unit result" where
  "al_check i = require (al_isStarted i) (AssertionFailed ''startAPI must be called prior to this function'')"

section \<open>Playing\<close>

definition al_state_of :: "'w openal \<Rightarrow> string \<Rightarrow> 'w al_impl \<Rightarrow> al_state option result" where
  "al_state_of al a i =
     rbind (al_check i) (\<lambda>_.
     case al_bound a i of
       None \<Rightarrow> Inr None
     | Some b \<Rightarrow>
         rbind (require (al_isSource al (source b) (iLib i)) (AssertionFailed ''weird, shouldn't happen...'')) (\<lambda>_.
         Inr (Some (al_sourceState al (source b) (iLib i)))))"

definition al_isPlaying :: "'w openal \<Rightarrow> string \<Rightarrow> 'w al_impl \<Rightarrow> bool result" where
  "al_isPlaying al a i = rbind (al_state_of al a i) (\<lambda>s. Inr (s = Some AL_PLAYING \<or> s = Some AL_PAUSED))"

definition al_isPaused :: "'w openal \<Rightarrow> string \<Rightarrow> 'w al_impl \<Rightarrow> bool result" where
  "al_isPaused al a i = rbind (al_state_of al a i) (\<lambda>s. Inr (s = Some AL_PAUSED))"

definition al_pause :: "'w openal \<Rightarrow> string \<Rightarrow> 'w al_impl \<Rightarrow> 'w al_impl result" where
  "al_pause al a i =
     rbind (al_check i) (\<lambda>_. Inr (case al_bound a i of None \<Rightarrow> i | Some b \<Rightarrow> do_al al (SourcePause (source b)) i))"

definition al_unpause :: "'w openal \<Rightarrow> string \<Rightarrow> 'w al_impl \<Rightarrow> 'w al_impl result" where
  "al_unpause al a i =
     rbind (al_check i) (\<lambda>_.
     case al_bound a i of
       None \<Rightarrow> Inr i
     | Some b \<Rightarrow> rbind (al_isPaused al a i) (\<lambda>paused. Inr (if paused then do_al al (SourcePlay (source b)) i else i)))"

definition al_stop :: "'w openal \<Rightarrow> string \<Rightarrow> 'w al_impl \<Rightarrow> 'w al_impl result" where
  "al_stop al a i =
     rbind (al_check i) (\<lambda>_.
     rbind (si_stop (al_isStarted i) a i) (\<lambda>i.
     Inr (case al_bound a i of None \<Rightarrow> i | Some b \<Rightarrow> do_al al (SourceStop (source b)) i)))"

section \<open>Settings\<close>

definition al_setAmbient :: "'w openal \<Rightarrow> string \<Rightarrow> bool \<Rightarrow> 'w al_impl \<Rightarrow> 'w al_impl" where
  "al_setAmbient al a setting i =
     (let i = si_setAmbient a setting i
      in case al_bound a i of
           Some b \<Rightarrow>
             if has_sound a i
             then if setting
                  then do_al al (SourcePosition (source b) (0, 0, 0)) (do_al al (SourceRelative (source b) True) i)
                  else do_al al (SourceRelative (source b) False) i
             else i
         | None \<Rightarrow> i)"

definition al_setPosition :: "'w openal \<Rightarrow> string \<Rightarrow> float32 \<times> float32 \<times> float32 \<Rightarrow> 'w al_impl \<Rightarrow> 'w al_impl result" where
  "al_setPosition al a pos i =
     rbind (al_check i) (\<lambda>_.
     rbind (si_setPosition (al_isStarted i) a pos i) (\<lambda>i.
     case al_bound a i of
       None \<Rightarrow> Inr i
     | Some b \<Rightarrow>
         let (amb, i) = si_isAmbient a i
         in Inr (if amb then i else do_al al (SourcePosition (source b) pos) i)))"

definition al_setListenerPosition :: "'w openal \<Rightarrow> float32 list \<Rightarrow> 'w al_impl \<Rightarrow> 'w al_impl result" where
  "al_setListenerPosition al mat i =
     rbind (al_check i) (\<lambda>_.
     rbind (si_setListenerPosition (al_isStarted i) mat i) (\<lambda>i.
     Inr (do_al al (ListenerOrientation mat) (do_al al (ListenerPosition mat) i))))"

text \<open>A \<^verbatim>\<open>float\<close> is not above 0 when it is a zero, or negative and not a NaN.\<close>

definition float_le_zero :: "float32 \<Rightarrow> bool" where
  "float_le_zero x \<longleftrightarrow> x = 0 \<or> 0x80000000 \<le> x \<and> x \<le> 0xFF800000"

definition al_setPitchBend :: "'w openal \<Rightarrow> string \<Rightarrow> float32 \<Rightarrow> 'w al_impl \<Rightarrow> 'w al_impl" where
  "al_setPitchBend al a amount i =
     (let i = si_setPitchBend a amount i
      in case al_bound a i of
           Some b \<Rightarrow> if has_sound a i
                     then do_al al (SourcePitch (source b) (if float_le_zero amount then 0x3A83126F else amount)) i else i
         | None \<Rightarrow> i)"

definition al_setGain :: "'w openal \<Rightarrow> string \<Rightarrow> float32 \<Rightarrow> 'w al_impl \<Rightarrow> 'w al_impl" where
  "al_setGain al a amount i =
     (case al_bound a i of
        Some b \<Rightarrow> if has_sound a i then do_al al (SourceGain (source b) amount) i else i
      | None \<Rightarrow> i)"

definition al_setVolume :: "'w openal \<Rightarrow> string \<Rightarrow> float32 \<Rightarrow> 'w al_impl \<Rightarrow> 'w al_impl" where
  "al_setVolume al a amount i = al_setGain al a amount (si_setVolume a amount i)"

text \<open>OpenAL has no cutoff; the gain is used instead.\<close>

definition al_setCutoff :: "'w openal \<Rightarrow> string \<Rightarrow> float32 \<Rightarrow> 'w al_impl \<Rightarrow> 'w al_impl" where
  "al_setCutoff al a amount i = al_setGain al a amount (si_setCutoff a amount i)"

section \<open>Binding\<close>

definition al_unbind :: "'w openal \<Rightarrow> string \<Rightarrow> 'w al_impl \<Rightarrow> 'w al_impl result" where
  "al_unbind al a i =
     (if \<not> al_isStarted i then Inr i
      else
        rbind (al_isPlaying al a i) (\<lambda>playing.
        rbind (if playing
               then rbind (al_stop al a i) (\<lambda>i.
                    Inr (if has_sound a i then upd_sound a (\<lambda>s. s\<lparr>triggerOnNextBind := True\<rparr>) i else i))
               else Inr i) (\<lambda>i.
        case al_bound a i of
          None \<Rightarrow> Inr i
        | Some b \<Rightarrow>
            let (err, i) = take_error al i;
                (err, i) = take_error al (do_al al (DeleteSource (source b)) i);
                (err, i) = take_error al (do_al al (DeleteBuffer (buffer b)) i)
            in Inr (erase_entry a i))))"

text \<open>
  The data goes into a buffer and the buffer to a source; after an error the alias is not bound.
\<close>

definition al_attach :: "'w openal \<Rightarrow> string \<Rightarrow> wav \<Rightarrow> 'w al_impl \<Rightarrow> 'w al_impl result" where
  "al_attach al a w i =
     (let i = bind_entry a \<lparr>source = 0, buffer = 0, data = wavData w\<rparr> i;
          (bufferID, lib) = al_genBuffer al (iLib i);
          (err, i) = take_error al (i\<lparr>iLib := lib\<rparr>);
          (err, i) = take_error al (do_al al (BufferData bufferID w) i)
      in if err \<noteq> 0 then Inr (erase_entry a (do_al al (DeleteBuffer bufferID) i))
         else
           let (sourceID, lib) = al_genSource al (iLib i);
               (err, i) = take_error al (i\<lparr>iLib := lib\<rparr>)
           in if err \<noteq> 0 then Inr (erase_entry a (do_al al (DeleteBuffer bufferID) i))
              else
                let i = do_al al (SourceBuffer sourceID bufferID) i;
                    i = bind_entry a \<lparr>source = sourceID, buffer = bufferID, data = wavData w\<rparr> i;
                    i = do_al al (SourceLooping sourceID False) i;
                    i = do_al al (SourceMinGain sourceID 0) i;
                    i = do_al al (SourceMaxGain sourceID float_one) i;
                    i = al_setAmbient al a (ambient (sound_of a i)) i
                in al_setPosition al a (position (sound_of a i)) i)"

text \<open>\<^verbatim>\<open>bind\<close> up to the trigger; the answer is whether it comes there.\<close>

definition al_load :: "'w openal \<Rightarrow> string \<Rightarrow> 'w al_impl \<Rightarrow> (bool \<times> 'w al_impl) result" where
  "al_load al a i =
     (let (err, i) = take_error al i
      in if \<not> al_isStarted i then Inr (False, i)
         else
           let (s, i) = sound_lookup a i
           in rbind (if al_bound a i \<noteq> None then al_unbind al a i else Inr i) (\<lambda>i.
              if file_exists al (filename (sound_of a i)) (iLib i) \<noteq> Some True then Inr (True, i)
              else case load_wav al (filename (sound_of a i)) (iLib i) of
                     None \<Rightarrow> Inr (False, i)
                   | Some w \<Rightarrow> rbind (al_attach al a w i) (\<lambda>i. Inr (True, i))))"

definition al_play :: "'w openal \<Rightarrow> string \<Rightarrow> int \<Rightarrow> 'w al_impl \<Rightarrow> 'w al_impl result" where
  "al_play al a looping i =
     (case al_bound a i of
        None \<Rightarrow> Inr i
      | Some b \<Rightarrow>
          let (retrig, i) = si_isRetriggerable a i
          in rbind (al_isPlaying al a i) (\<lambda>playing.
             rbind (al_isPaused al a i) (\<lambda>paused.
             Inr (if paused \<or> retrig \<or> \<not> playing
                  then do_al al (SourcePlay (source b)) (do_al al (SourceLooping (source b) (looping = -1 \<or> looping > 1)) i)
                  else i))))"
section \<open>Facts of the state\<close>

lemma upd_sound_simps [simp]:
  "own (upd_sound a f i) = own i" "iLib (upd_sound a f i) = iLib i" "iOwn (upd_sound a f i) = iOwn i"
  "sound_of b (upd_sound a f i) = (if b = a then f (sound_of a i) else sound_of b i)"
  "has_sound b (upd_sound a f i) \<longleftrightarrow> b = a \<or> has_sound b i"
  by (simp_all add: upd_sound_def own_def sound_of_def has_sound_def omap_put_lookup)

lemma upd_own_simps [simp]:
  "own (upd_own g i) = g (own i)" "iLib (upd_own g i) = iLib i" "mSounds (upd_own g i) = mSounds i"
  "sound_of b (upd_own g i) = sound_of b i" "has_sound b (upd_own g i) = has_sound b i"
  "settings (upd_own g i) = settings i"
  by (simp_all add: upd_own_def own_def sound_of_def has_sound_def settings_def)

lemma lib_simps [simp]:
  "own (i\<lparr>iLib := w\<rparr>) = own i" "sound_of b (i\<lparr>iLib := w\<rparr>) = sound_of b i" "has_sound b (i\<lparr>iLib := w\<rparr>) = has_sound b i"
  "settings (i\<lparr>iLib := w\<rparr>) = settings i"
  by (simp_all add: own_def sound_of_def has_sound_def settings_def)

lemma own_of_lib [simp]: "al_bound b (i\<lparr>iLib := w\<rparr>) = al_bound b i" "al_isStarted (i\<lparr>iLib := w\<rparr>) = al_isStarted i"
  by (simp_all add: al_bound_def al_isStarted_def)

lemma do_al_simps [simp]:
  "own (do_al al cmd i) = own i" "mSounds (do_al al cmd i) = mSounds i" "sound_of b (do_al al cmd i) = sound_of b i"
  "has_sound b (do_al al cmd i) = has_sound b i" "settings (do_al al cmd i) = settings i"
  "al_bound b (do_al al cmd i) = al_bound b i" "al_isStarted (do_al al cmd i) = al_isStarted i"
  "iLib (do_al al cmd i) = al_do al cmd (iLib i)"
  by (simp_all add: do_al_def)

lemma bound_simps [simp]:
  "al_bound b (upd_sound a f i) = al_bound b i" "al_isStarted (upd_sound a f i) = al_isStarted i"
  "al_bound b (bind_entry a x i) = (if b = a then Some x else al_bound b i)" "al_isStarted (bind_entry a x i) = al_isStarted i"
  "al_isStarted (erase_entry a i) = al_isStarted i"
  "sound_of b (bind_entry a x i) = sound_of b i" "sound_of b (erase_entry a i) = sound_of b i"
  "has_sound b (bind_entry a x i) = has_sound b i" "has_sound b (erase_entry a i) = has_sound b i"
  "iLib (bind_entry a x i) = iLib i" "iLib (erase_entry a i) = iLib i"
  "mSounds (bind_entry a x i) = mSounds i" "mSounds (erase_entry a i) = mSounds i"
  "settings (bind_entry a x i) = settings i" "settings (erase_entry a i) = settings i"
  by (simp_all add: al_bound_def al_isStarted_def bind_entry_def erase_entry_def omap_put_lookup)

text \<open>Loading a sound that is not bound leaves its trigger mark alone.\<close>

definition marked :: "string \<Rightarrow> 'w al_impl \<Rightarrow> bool" where
  "marked a i = triggerOnNextBind (sound_of a i)"

lemma marked_simps [simp]:
  "marked a (do_al al cmd i) = marked a i" "marked a (bind_entry b x i) = marked a i" "marked a (erase_entry b i) = marked a i"
  "marked a (i\<lparr>iLib := w\<rparr>) = marked a i" "marked a (upd_sound a id i) = marked a i"
  by (simp_all add: marked_def)

lemma al_setAmbient_marked [simp]: "marked a (al_setAmbient al a b i) = marked a i"
  by (simp add: al_setAmbient_def si_setAmbient_def Let_def marked_def split: option.split)

lemma al_setPosition_marked: "al_setPosition al a pos i = Inr i' \<Longrightarrow> marked a i' = marked a i"
  by (auto simp: al_setPosition_def al_check_def si_setPosition_def si_isAmbient_def sound_lookup_def Let_def marked_def
      result_simps split: option.splits if_splits)

lemma al_attach_marked: "al_attach al a w i = Inr i' \<Longrightarrow> marked a i' = marked a i"
  by (auto simp: al_attach_def take_error_def Let_def split: prod.splits if_splits dest!: al_setPosition_marked)

lemma al_load_marked: "al_load al a i = Inr (g, i') \<Longrightarrow> al_bound a i = None \<Longrightarrow> marked a i' = marked a i"
  by (auto simp: al_load_def take_error_def sound_lookup_def Let_def result_simps
      split: prod.splits if_splits option.splits dest!: al_attach_marked)

lemma si_trigger_value:
  "si_trigger started a n i = (if started then Inr (upd_sound a (\<lambda>s. s\<lparr>repeat := n, repeatCountdown := n\<rparr>) i) else Inl not_started)"
  by (simp add: si_trigger_def)

section \<open>Binding and triggering\<close>

text \<open>
  A sound that was playing when it was unbound is triggered by its next binding; a sound that is
  triggered is bound first when it is not.  The mark is cleared before the trigger, so this ends.
\<close>

datatype al_call = Bind | Trigger int

definition al_rank :: "al_call \<Rightarrow> string \<Rightarrow> 'w al_impl \<Rightarrow> nat" where
  "al_rank call a i = (case call of
     Bind \<Rightarrow> if marked a i \<or> al_bound a i \<noteq> None then 3 else 1
   | Trigger _ \<Rightarrow> if marked a i \<and> al_bound a i = None then 4 else 2)"

function al_run :: "'w openal \<Rightarrow> al_call \<Rightarrow> string \<Rightarrow> 'w al_impl \<Rightarrow> 'w al_impl result" where
  "al_run al Bind a i =
     rbind (al_load al a i) (\<lambda>(goes, i).
     if goes \<and> triggerOnNextBind (sound_of a i)
     then al_run al (Trigger (repeat (sound_of a i))) a (upd_sound a (\<lambda>s. s\<lparr>triggerOnNextBind := False\<rparr>) i)
     else Inr i)"
| "al_run al (Trigger looping) a i =
     rbind (al_check i) (\<lambda>_.
     rbind (si_trigger (al_isStarted i) a looping i) (\<lambda>i.
     rbind (if al_bound a i = None then al_run al Bind a i else Inr i) (\<lambda>i.
     al_play al a looping i)))"
  by pat_completeness auto

termination
proof (relation "measure (\<lambda>(al, call, a, i). al_rank call a i)")
  fix al :: "'w openal" and a i and x :: "bool \<times> 'w al_impl" and g i'
  assume load: "al_load al a i = Inr x" "(g, i') = x" and mark: "g \<and> triggerOnNextBind (sound_of a i')"
  have "marked a i \<or> al_bound a i \<noteq> None"
    using al_load_marked [of al a i g i'] load mark by (auto simp: marked_def)
  then show "((al, Trigger (repeat (sound_of a i')), a, upd_sound a (\<lambda>s. s\<lparr>triggerOnNextBind := False\<rparr>) i'), al, Bind, a, i)
      \<in> measure (\<lambda>(al, call, a, i). al_rank call a i)"
    by (simp add: al_rank_def marked_def)
next
  fix al :: "'w openal" and looping a and i i' :: "'w al_impl" and u
  assume "si_trigger (al_isStarted i) a looping i = Inr i'" "al_bound a i' = None"
  then show "((al, Bind, a, i'), al, Trigger looping, a, i) \<in> measure (\<lambda>(al, call, a, i). al_rank call a i)"
    by (auto simp: al_rank_def marked_def si_trigger_value split: if_splits)
qed simp

declare al_run.simps [simp del]

section \<open>Starting and stopping\<close>

definition al_startAPI :: "'w openal \<Rightarrow> 'w al_impl \<Rightarrow> (bool \<times> 'w al_impl) result" where
  "al_startAPI al i =
     (let (res, i) =
        (if \<not> mContextId (own i) \<and> \<not> mDev (own i)
         then let (dev, w) = al_openDevice al (iLib i); i = upd_own (\<lambda>x. x\<lparr>mDev := dev\<rparr>) (i\<lparr>iLib := w\<rparr>)
              in if \<not> dev then (False, i)
                 else
                   let i = do_al al InitWithoutContext i;
                       (ctx, w) = al_createContext al (iLib i);
                       i = upd_own (\<lambda>x. x\<lparr>mContextId := ctx\<rparr>) (i\<lparr>iLib := w\<rparr>)
                   in if \<not> ctx then (False, i) else (True, do_al al MakeContextCurrent i)
         else (True, i))
      in if \<not> res then Inr (False, i)
         else rbind (al_setListenerPosition al (mListenerPos i) i) (\<lambda>i. Inr (True, i)))"

definition al_unbindAll :: "'w openal \<Rightarrow> 'w al_impl \<Rightarrow> 'w al_impl result" where
  "al_unbindAll al = si_unbindAll (al_unbind al)"

definition al_shutdownAPI :: "'w openal \<Rightarrow> 'w al_impl \<Rightarrow> 'w al_impl result" where
  "al_shutdownAPI al i =
     (if \<not> al_isStarted i then Inr i
      else rbind (al_unbindAll al i) (\<lambda>i.
           Inr (upd_own (\<lambda>x. x\<lparr>mContextId := False, mDev := False\<rparr>)
             (do_al al CloseDevice (do_al al DestroyContext (do_al al AlutExit i))))))"

definition al_step :: "float32 \<Rightarrow> 'w al_impl \<Rightarrow> 'w al_impl result" where
  "al_step timeElapsed i = rbind (al_check i) (\<lambda>_. Inr i)"

definition openal_class :: "'w openal \<Rightarrow> (al_own, 'w) sound_class" where
  "openal_class al = \<lparr>v_fresh = Some al_own_new, v_isStarted = al_isStarted, v_startAPI = al_startAPI al,
     v_shutdownAPI = al_shutdownAPI al, v_delete = al_shutdownAPI al, v_bind = al_run al Bind, v_unbind = al_unbind al,
     v_bindAll = si_bindAll (al_run al Bind), v_unbindAll = al_unbindAll al, v_clear = al_unbindAll al,
     v_trigger = (\<lambda>a looping. al_run al (Trigger looping) a), v_isPlaying = al_isPlaying al, v_isPaused = al_isPaused al,
     v_stop = al_stop al, v_pause = al_pause al, v_unpause = al_unpause al,
     v_setAmbient = (\<lambda>a b i. Inr (al_setAmbient al a b i)), v_setPitchBend = (\<lambda>a x i. Inr (al_setPitchBend al a x i)),
     v_setVolume = (\<lambda>a x i. Inr (al_setVolume al a x i)), v_setCutoff = (\<lambda>a x i. Inr (al_setCutoff al a x i)),
     v_setPosition = al_setPosition al, v_setListenerPosition = al_setListenerPosition al, v_step = al_step\<rparr>"

end
