(* ===== verification/SonixBinding.thy ===== *)
theory SonixBinding
  imports SonixOpenAL
begin

text \<open>
  What Sonix's OpenAL implementation keeps: the locale \<open>openal_library\<close> states what OpenAL
  documents of sources, and in it every operation keeps the invariant \<open>al_ok\<close>, that each bound
  sound is a sound of the application and has a source of its own.  So it is a back end the facade can
  rely on (\<open>sound_backend\<close>).
\<close>

section \<open>The contract with the library\<close>

text \<open>
  What OpenAL promises of sources: generating one without an error gives a new one, and one is
  there until it, or its context, is deleted.
\<close>

locale openal_library =
  fixes al :: "'w openal"
  assumes gen_new: "al_genSource al w = (s, w1) \<Longrightarrow> al_error al w1 = (0, w2) \<Longrightarrow> al_isSource al s w2 \<and> \<not> al_isSource al s w"
    and gen_keeps: "al_isSource al x w \<Longrightarrow> al_isSource al x (snd (al_genSource al w))"
    and buffer_keeps: "al_isSource al x w \<Longrightarrow> al_isSource al x (snd (al_genBuffer al w))"
    and error_keeps: "al_isSource al x w \<Longrightarrow> al_isSource al x (snd (al_error al w))"
    and do_keeps: "al_isSource al x w \<Longrightarrow> cmd \<notin> {DeleteSource x, AlutExit, DestroyContext, CloseDevice}
      \<Longrightarrow> al_isSource al x (al_do al cmd w)"

definition al_ok :: "'w openal \<Rightarrow> 'w al_impl \<Rightarrow> bool" where
  "al_ok al i \<longleftrightarrow> omap_wf (mSounds i) \<and> omap_wf (mBindLookup (own i))
     \<and> (\<forall>a b. al_bound a i = Some b \<longrightarrow> al_isStarted i \<and> has_sound a i \<and> al_isSource al (source b) (iLib i))
     \<and> (\<forall>a a' b b'. al_bound a i = Some b \<longrightarrow> al_bound a' i = Some b' \<longrightarrow> source b = source b' \<longrightarrow> a = a')"

definition quiet :: "'w openal \<Rightarrow> 'w al_impl \<Rightarrow> 'w al_impl \<Rightarrow> bool" where
  "quiet al i i' \<longleftrightarrow> settings i' = settings i \<and> own i' = own i \<and> (\<forall>x. al_isSource al x (iLib i) \<longrightarrow> al_isSource al x (iLib i'))"

lemma has_sound_keys: "has_sound a i \<longleftrightarrow> a \<in> set (map fst (mSounds i))"
  by (auto simp: has_sound_def map_of_eq_None_iff)

lemma settings_keys: "settings i' = settings i \<Longrightarrow> map fst (mSounds i') = map fst (mSounds i)"
  by (auto simp: settings_def dest!: arg_cong [of "map _ (mSounds i')" _ "map fst"] simp: comp_def case_prod_unfold)

lemma settings_same:
  assumes "settings i' = settings i"
  shows "has_sound a i' = has_sound a i" "omap_wf (mSounds i') = omap_wf (mSounds i)"
  using settings_keys [OF assms] by (simp_all add: has_sound_keys omap_wf_def del: set_map)

lemma omap_put_map:
  "omap_wf m \<Longrightarrow> map_of m k = Some v \<Longrightarrow> f v' = f v
    \<Longrightarrow> map (\<lambda>(a, s). (a, f s)) (omap_put k v' m) = map (\<lambda>(a, s). (a, f s)) m"
  by (induction k v' m rule: omap_put.induct) (force simp: omap_wf_Cons dest: map_of_SomeD)+

lemma settings_upd_sound:
  assumes "omap_wf (mSounds i)" "has_sound a i" "sound_settings (f (sound_of a i)) = sound_settings (sound_of a i)"
  shows "settings (upd_sound a f i) = settings i"
  using assms omap_put_map [of "mSounds i" a "sound_of a i" sound_settings "f (sound_of a i)"]
  by (auto simp: settings_def upd_sound_def has_sound_def sound_of_def)

lemma quiet_refl [simp]: "quiet al i i"
  by (simp add: quiet_def)

lemma quiet_trans: "quiet al i j \<Longrightarrow> quiet al j k \<Longrightarrow> quiet al i k"
  by (simp add: quiet_def)

lemma quiet_same:
  assumes "quiet al i i'"
  shows "al_bound a i' = al_bound a i" "al_isStarted i' = al_isStarted i" "has_sound a i' = has_sound a i"
    "omap_wf (mSounds i') = omap_wf (mSounds i)"
  using assms settings_same(1) [of i' i a] settings_same(2) [of i' i] by (simp_all add: quiet_def al_bound_def al_isStarted_def)

lemma al_ok_quiet:
  assumes "al_ok al i" "quiet al i i'"
  shows "al_ok al i'"
proof -
  have "own i' = own i" "\<And>x. al_isSource al x (iLib i) \<Longrightarrow> al_isSource al x (iLib i')"
    using assms(2) by (simp_all add: quiet_def)
  then show ?thesis
    using assms(1) quiet_same [OF assms(2)] unfolding al_ok_def by simp
qed

lemma quiet_upd_sound:
  "al_ok al i \<Longrightarrow> has_sound a i \<Longrightarrow> sound_settings (f (sound_of a i)) = sound_settings (sound_of a i) \<Longrightarrow> quiet al i (upd_sound a f i)"
  by (simp add: quiet_def al_ok_def settings_upd_sound)

lemma al_ok_upd_sound: "al_ok al i \<Longrightarrow> al_ok al (upd_sound a f i)"
  by (auto simp: al_ok_def upd_sound_def has_sound_def omap_put_lookup omap_put_wf al_bound_def own_def al_isStarted_def)
lemma al_ok_bound:
  assumes "al_ok al i" "al_bound a i = Some b"
  shows "al_isStarted i" "has_sound a i" "al_isSource al (source b) (iLib i)"
    "al_bound a' i = Some b' \<Longrightarrow> source b = source b' \<Longrightarrow> a' = a"
  using assms unfolding al_ok_def by blast+

lemma al_bound_erase:
  "al_ok al i \<Longrightarrow> al_bound c (erase_entry a i) = (if c = a then None else al_bound c i)"
  by (simp add: al_ok_def al_bound_def erase_entry_def omap_erase_lookup)

lemma al_bound_own: "own i' = own i \<Longrightarrow> al_bound c i' = al_bound c i"
  by (simp add: al_bound_def)

text \<open>One alias gets another binding, or none, and the sources of the others are still there.\<close>

lemma al_ok_rebound:
  assumes ok: "al_ok al i" and same: "settings j = settings i" "al_isStarted j = al_isStarted i"
    and wf: "omap_wf (mBindLookup (own j))" and bound: "\<And>c. al_bound c j = (if c = a then r else al_bound c i)"
    and others: "\<And>c b. c \<noteq> a \<Longrightarrow> al_bound c i = Some b \<Longrightarrow> al_isSource al (source b) (iLib j)"
    and bind: "\<And>b. r = Some b \<Longrightarrow> al_isStarted i \<and> has_sound a i \<and> al_isSource al (source b) (iLib j)"
    and new: "\<And>b c b'. r = Some b \<Longrightarrow> al_bound c i = Some b' \<Longrightarrow> source b' \<noteq> source b \<and> source b \<noteq> source b'"
  shows "al_ok al j"
  using ok wf others bind new settings_same [OF same(1)] same(2) unfolding al_ok_def bound
  by (auto split: if_splits)

lemma erase_put:
  assumes "omap_wf (mBindLookup (own i))" "own j = own (bind_entry a x i)"
  shows "omap_wf (mBindLookup (own (erase_entry a j)))" "al_bound c (erase_entry a j) = (if c = a then None else al_bound c i)"
    "omap_wf (mBindLookup (own (bind_entry a y j)))" "al_bound c (bind_entry a y j) = (if c = a then Some y else al_bound c i)"
    "al_isStarted j = al_isStarted i"
  using assms by (simp_all add: erase_entry_def bind_entry_def al_bound_def al_isStarted_def
      omap_erase_wf omap_put_wf omap_erase_lookup omap_put_lookup)

lemma al_state_of_ok:
  assumes "al_ok al i" "al_isStarted i"
  obtains s where "al_state_of al a i = Inr s" "s = None \<longleftrightarrow> al_bound a i = None"
  using assms al_ok_bound(3) [OF assms(1), of a]
  by (cases "al_bound a i") (auto simp: al_state_of_def al_check_def result_simps)

context openal_library
begin

lemma quiet_do: "(\<And>x. cmd \<noteq> DeleteSource x) \<Longrightarrow> cmd \<notin> {AlutExit, DestroyContext, CloseDevice} \<Longrightarrow> quiet al i (do_al al cmd i)"
  by (auto simp: quiet_def intro: do_keeps)

lemma quiet_error: "take_error al i = (err, i') \<Longrightarrow> quiet al i i'"
  using error_keeps by (auto simp: take_error_def quiet_def split: prod.splits dest: error_keeps)

lemma quiet_stop:
  assumes "al_ok al i" "al_isStarted i" "has_sound a i"
  obtains i' where "al_stop al a i = Inr i'" "quiet al i i'"
proof -
  have 1: "quiet al i (upd_sound a (\<lambda>s. s\<lparr>repeatCountdown := 0\<rparr>) i)" (is "quiet al i ?i")
    using assms by (simp add: quiet_upd_sound sound_settings_def)
  have "al_stop al a i = Inr (case al_bound a i of None \<Rightarrow> ?i | Some b \<Rightarrow> do_al al (SourceStop (source b)) ?i)"
    using assms(2) by (simp add: al_stop_def al_check_def si_stop_def)
  moreover have "quiet al i (case al_bound a i of None \<Rightarrow> ?i | Some b \<Rightarrow> do_al al (SourceStop (source b)) ?i)"
    using 1 quiet_trans [OF 1 quiet_do] by (auto split: option.split)
  ultimately show ?thesis by (rule that)
qed

lemma quiet_mark:
  "al_ok al i \<Longrightarrow> quiet al i (if has_sound a i then upd_sound a (\<lambda>s. s\<lparr>triggerOnNextBind := True\<rparr>) i else i)"
  by (simp add: quiet_upd_sound sound_settings_def)

lemma quiet_silence:
  assumes ok: "al_ok al i" "al_isStarted i"
  obtains i' where "rbind (al_isPlaying al a i) (\<lambda>playing. rbind (if playing
      then rbind (al_stop al a i) (\<lambda>i. Inr (if has_sound a i then upd_sound a (\<lambda>s. s\<lparr>triggerOnNextBind := True\<rparr>) i else i))
      else Inr i) f) = f i'" "quiet al i i'"
proof -
  obtain s where s: "al_state_of al a i = Inr s" "s = None \<longleftrightarrow> al_bound a i = None"
    using al_state_of_ok [OF ok] .
  show ?thesis
  proof (cases "s = Some AL_PLAYING \<or> s = Some AL_PAUSED")
    case True
    then have "has_sound a i" using s(2) al_ok_bound(2) [OF ok(1)] by force
    then obtain j where j: "al_stop al a i = Inr j" "quiet al i j" using quiet_stop [OF ok] by blast
    show ?thesis
      using that [of "if has_sound a j then upd_sound a (\<lambda>s. s\<lparr>triggerOnNextBind := True\<rparr>) j else j"]
        True s(1) j quiet_trans [OF j(2) quiet_mark [OF al_ok_quiet [OF ok(1) j(2)]]]
      by (auto simp: al_isPlaying_def)
  next
    case False
    then show ?thesis using that [of i] s(1) by (auto simp: al_isPlaying_def)
  qed
qed

lemma unbind_ok:
  assumes ok: "al_ok al i"
  shows "\<exists>i'. al_unbind al a i = Inr i' \<and> al_ok al i' \<and> settings i' = settings i \<and> al_isStarted i' = al_isStarted i
    \<and> (\<forall>c. al_bound c i' = (if c = a then None else al_bound c i))"
proof (cases "al_isStarted i")
  case False
  then have "al_bound a i = None" using al_ok_bound(1) [OF ok] by (cases "al_bound a i") auto
  then show ?thesis using False ok by (auto simp: al_unbind_def)
next
  case True
  let ?del = "\<lambda>i. case al_bound a i of None \<Rightarrow> Inr i | Some b \<Rightarrow>
    let (err, i) = take_error al i; (err, i) = take_error al (do_al al (DeleteSource (source b)) i);
        (err, i) = take_error al (do_al al (DeleteBuffer (buffer b)) i) in Inr (erase_entry a i)"
  obtain j where j: "al_unbind al a i = ?del j" "quiet al i j"
    using quiet_silence [OF ok True, of a ?del] True by (auto simp: al_unbind_def)
  note okj = al_ok_quiet [OF ok j(2)] and same = quiet_same [OF j(2)]
  show ?thesis
  proof (cases "al_bound a j")
    case None
    then show ?thesis using j okj same by (auto simp: quiet_def)
  next
    case (Some b)
    obtain e1 j1 where j1: "take_error al j = (e1, j1)" by fastforce
    obtain e2 j2 where j2: "take_error al (do_al al (DeleteSource (source b)) j1) = (e2, j2)" by fastforce
    obtain e3 j3 where j3: "take_error al (do_al al (DeleteBuffer (buffer b)) j2) = (e3, j3)" by fastforce
    note q = quiet_error [OF j1] quiet_error [OF j2] quiet_trans [OF quiet_do quiet_error [OF j3]]
    have "settings j3 = settings j" "own j3 = own j" using q by (auto simp: quiet_def)
    moreover have "al_isSource al (source b') (iLib j3)" if "c \<noteq> a" "al_bound c j = Some b'" for c b'
    proof -
      have "source b' \<noteq> source b" using al_ok_bound(4) [OF okj that(2) Some] that(1) by metis
      then have "al_isSource al (source b') (iLib (do_al al (DeleteSource (source b)) j1))"
        using al_ok_bound(3) [OF okj that(2)] q(1) by (auto simp: quiet_def intro: do_keeps)
      then show ?thesis using q(2,3) by (auto simp: quiet_def)
    qed
    moreover have "omap_wf (mBindLookup (own (erase_entry a j3)))"
      "\<And>c. al_bound c (erase_entry a j3) = (if c = a then None else al_bound c j)" "al_isStarted j3 = al_isStarted j"
      using okj \<open>own j3 = own j\<close>
      by (simp_all add: al_ok_def erase_entry_def al_bound_def al_isStarted_def omap_erase_wf omap_erase_lookup)
    ultimately have "al_ok al (erase_entry a j3)" by (intro al_ok_rebound [OF okj, of _ a None]) simp_all
    moreover have "al_unbind al a i = Inr (erase_entry a j3)" using j(1) Some j1 j2 j3 by simp
    ultimately show ?thesis
      using same(1,2) j(2) \<open>settings j3 = settings j\<close> \<open>al_isStarted j3 = al_isStarted j\<close>
        \<open>\<And>c. al_bound c (erase_entry a j3) = (if c = a then None else al_bound c j)\<close> by (simp add: quiet_def)
  qed
qed

lemma quiet_ambient:
  assumes "al_ok al i" "has_sound a i"
  shows "quiet al i (al_setAmbient al a (ambient (sound_of a i)) i)"
proof -
  have 1: "quiet al i (si_setAmbient a (ambient (sound_of a i)) i)"
    using assms by (simp add: si_setAmbient_def quiet_upd_sound)
  show ?thesis
    using quiet_trans [OF 1 quiet_do] quiet_trans [OF 1 quiet_trans [OF quiet_do quiet_do]] 1
    by (auto simp: al_setAmbient_def Let_def split: option.split)
qed

lemma quiet_position:
  assumes "al_ok al i" "al_isStarted i" "has_sound a i"
  obtains i' where "al_setPosition al a (position (sound_of a i)) i = Inr i'" "quiet al i i'"
proof -
  let ?i = "upd_sound a (\<lambda>s. s\<lparr>position := position (sound_of a i)\<rparr>) i"
  have 1: "quiet al i ?i" using assms by (simp add: quiet_upd_sound)
  have 2: "quiet al i (upd_sound a id ?i)"
    using quiet_trans [OF 1 quiet_upd_sound [OF al_ok_quiet [OF assms(1) 1]]] by simp
  have "\<exists>i'. al_setPosition al a (position (sound_of a i)) i = Inr i' \<and> quiet al i i'"
    using assms(2) 1 2 quiet_trans [OF 2 quiet_do]
    by (auto simp: al_setPosition_def al_check_def si_setPosition_def si_isAmbient_def sound_lookup_def split: option.split)
  then show ?thesis using that by blast
qed

lemma attach_ok:
  assumes ok: "al_ok al i" "al_isStarted i" "has_sound a i" "al_bound a i = None"
  shows "\<exists>i'. al_attach al a w i = Inr i' \<and> al_ok al i' \<and> settings i' = settings i \<and> al_isStarted i'"
proof -
  let ?e = "bind_entry a \<lparr>source = 0, buffer = 0, data = wavData w\<rparr> i"
  obtain bufferID lib where g: "al_genBuffer al (iLib i) = (bufferID, lib)" by fastforce
  obtain e1 i1 where i1: "take_error al (?e\<lparr>iLib := lib\<rparr>) = (e1, i1)" by fastforce
  obtain e2 i2 where i2: "take_error al (do_al al (BufferData bufferID w) i1) = (e2, i2)" by fastforce
  obtain sourceID lib2 where g2: "al_genSource al (iLib i2) = (sourceID, lib2)" by fastforce
  obtain e3 i3 where i3: "take_error al (i2\<lparr>iLib := lib2\<rparr>) = (e3, i3)" by fastforce
  have q1: "quiet al ?e i1"
    using quiet_error [OF i1] buffer_keeps [of _ "iLib i"] g by (auto simp: quiet_def)
  have q2: "quiet al ?e i2" using quiet_trans [OF q1 quiet_trans [OF quiet_do quiet_error [OF i2]]] by simp
  have "quiet al i2 i3" using quiet_error [OF i3] gen_keeps [of _ "iLib i2"] g2 by (auto simp: quiet_def)
  then have q3: "quiet al ?e i3" by (rule quiet_trans [OF q2])
  have wf: "omap_wf (mBindLookup (own i))" using ok(1) by (simp add: al_ok_def)
  have kept: "settings j = settings i" "own j = own ?e" "\<And>x. al_isSource al x (iLib i) \<Longrightarrow> al_isSource al x (iLib j)"
    if "quiet al ?e j" for j
    using that by (simp_all add: quiet_def)
  have gone: "al_ok al (erase_entry a j) \<and> settings (erase_entry a j) = settings i \<and> al_isStarted (erase_entry a j)"
    if q: "quiet al ?e j" for j
    using al_ok_rebound [OF ok(1), of "erase_entry a j" a None] erase_put [OF wf kept(2) [OF q]] kept [OF q] ok(2)
      al_ok_bound(3) [OF ok(1)] by simp
  show ?thesis
  proof (cases "e2 = 0 \<and> e3 = 0")
    case False
    then show ?thesis
      using g i1 i2 g2 i3 gone [OF quiet_trans [OF q2 quiet_do]] gone [OF quiet_trans [OF q3 quiet_do]]
      by (auto simp: al_attach_def)
  next
    case True
    let ?j = "do_al al (SourceBuffer sourceID bufferID) i3" and ?y = "\<lparr>source = sourceID, buffer = bufferID, data = wavData w\<rparr>"
    have q: "quiet al ?e ?j" by (intro quiet_trans [OF q3 quiet_do]) simp_all
    have new: "al_isSource al sourceID (iLib i3) \<and> \<not> al_isSource al sourceID (iLib i2)"
      using gen_new [OF g2, of "iLib i3"] i3 True by (auto simp: take_error_def split: prod.splits)
    have "al_isSource al sourceID (iLib ?j)" using new by (auto intro: do_keeps)
    moreover have "\<forall>c b. al_bound c i = Some b \<longrightarrow> source b \<noteq> sourceID \<and> sourceID \<noteq> source b"
      using al_ok_bound(3) [OF ok(1)] kept(3) [OF q2] new by metis
    moreover have "settings (bind_entry a ?y ?j) = settings i" "al_isStarted (bind_entry a ?y ?j) = al_isStarted i"
      using kept(1) [OF q] erase_put(5) [OF wf kept(2) [OF q]] by simp_all
    ultimately have k: "al_ok al (bind_entry a ?y ?j)"
      using erase_put(3,4) [OF wf kept(2) [OF q]] ok(2,3) kept(3) [OF q] al_ok_bound(3) [OF ok(1)]
      by (intro al_ok_rebound [OF ok(1), of "bind_entry a ?y ?j" a "Some ?y"]) (auto simp del: do_al_simps)
    let ?k = "do_al al (SourceMaxGain sourceID float_one) (do_al al (SourceMinGain sourceID 0)
      (do_al al (SourceLooping sourceID False) (bind_entry a ?y ?j)))"
    have qk: "quiet al (bind_entry a ?y ?j) ?k" by (intro quiet_trans [OF _ quiet_do] quiet_refl) simp_all
    have k: "al_ok al ?k" "al_isStarted ?k" "has_sound a ?k" "settings ?k = settings i"
      using al_ok_quiet [OF k qk] quiet_same [OF qk] erase_put(5) [OF wf kept(2) [OF q]] kept(1) [OF q] ok(2,3)
        settings_same(1) [OF kept(1) [OF q]] by auto
    let ?l = "al_setAmbient al a (ambient (sound_of a ?k)) ?k"
    have ql: "quiet al ?k ?l" using k(1,3) by (rule quiet_ambient)
    obtain m where m: "al_setPosition al a (position (sound_of a ?l)) ?l = Inr m" "quiet al ?l m"
      using quiet_position [OF al_ok_quiet [OF k(1) ql], of a] quiet_same [OF ql] k(2,3) by auto
    have "al_attach al a w i = Inr m" using g i1 i2 g2 i3 True m(1) by (simp add: al_attach_def Let_def)
    moreover have qm: "quiet al ?k m" using quiet_trans [OF ql m(2)] .
    ultimately show ?thesis
      using al_ok_quiet [OF k(1) qm] quiet_same(2) [OF qm] k(2,4) by (auto simp: quiet_def)
  qed
qed

lemma lookup_ok:
  assumes "al_ok al i" "al_isStarted i"
  shows "al_ok al (upd_sound a id i)" "al_isStarted (upd_sound a id i)" "has_sound a (upd_sound a id i)"
    "has_sound a i \<Longrightarrow> settings (upd_sound a id i) = settings i"
proof -
  show "al_ok al (upd_sound a id i)" using assms(1) by (rule al_ok_upd_sound)
  show "has_sound a i \<Longrightarrow> settings (upd_sound a id i) = settings i"
    using assms(1) settings_upd_sound [of i a id] by (simp add: al_ok_def)
qed (use assms in simp_all)

lemma load_ok:
  assumes ok: "al_ok al i" "al_isStarted i"
  shows "\<exists>g i'. al_load al a i = Inr (g, i') \<and> al_ok al i' \<and> al_isStarted i' \<and> has_sound a i'
    \<and> settings i' = settings (upd_sound a id i)"
proof -
  obtain e i1 where i1: "take_error al i = (e, i1)" by fastforce
  note q = quiet_error [OF i1]
  have ok1: "al_ok al i1" "al_isStarted i1" using al_ok_quiet [OF ok(1) q] quiet_same(2) [OF q] ok(2) by auto
  have s1: "settings (upd_sound a id i1) = settings (upd_sound a id i)"
    using i1 by (auto simp: take_error_def settings_def upd_sound_def sound_of_def split: prod.splits)
  obtain i2 where i2: "(if al_bound a i1 \<noteq> None then al_unbind al a (upd_sound a id i1) else Inr (upd_sound a id i1)) = Inr i2"
    "al_ok al i2" "settings i2 = settings (upd_sound a id i1)" "al_isStarted i2" "al_bound a i2 = None"
    using unbind_ok [OF lookup_ok(1) [OF ok1], of a a] lookup_ok [OF ok1] by (cases "al_bound a i1") fastforce+
  have h: "has_sound a i2" using settings_same(1) [OF i2(3)] lookup_ok(3) [OF ok1] by simp
  obtain w where w: "w = load_wav al (filename (sound_of a i2)) (iLib i2)" by simp
  have "al_load al a i = (if file_exists al (filename (sound_of a i2)) (iLib i2) \<noteq> Some True then Inr (True, i2)
      else case w of None \<Rightarrow> Inr (False, i2) | Some w \<Rightarrow> rbind (al_attach al a w i2) (\<lambda>i. Inr (True, i)))"
    using i1 ok1 i2(1) by (simp add: al_load_def sound_lookup_def w)
  moreover obtain i3 where i3: "al_attach al a (the w) i2 = Inr i3" "al_ok al i3" "settings i3 = settings i2" "al_isStarted i3"
    using attach_ok [OF i2(2,4) h i2(5)] by blast
  moreover have "has_sound a i3" using settings_same(1) [OF i3(3)] h by simp
  ultimately show ?thesis using i2(2-4) h s1 by (cases w) auto
qed

lemma play_ok:
  assumes ok: "al_ok al i" "al_isStarted i" "has_sound a i"
  shows "\<exists>i'. al_play al a n i = Inr i' \<and> al_ok al i' \<and> settings i' = settings i \<and> al_isStarted i'"
proof (cases "al_bound a i")
  case None
  then show ?thesis using ok by (simp add: al_play_def)
next
  case (Some b)
  let ?i = "upd_sound a id i"
  have 1: "quiet al i ?i" using quiet_upd_sound [OF ok(1,3), of id] by simp
  obtain s where s: "al_state_of al a ?i = Inr s" using al_state_of_ok lookup_ok(1,2) [OF ok(1,2)] by metis
  have "\<exists>i'. al_play al a n i = Inr i' \<and> quiet al i i'"
    using 1 quiet_trans [OF 1 quiet_trans [OF quiet_do quiet_do]] s Some
    by (auto simp: al_play_def si_isRetriggerable_def sound_lookup_def al_isPlaying_def al_isPaused_def)
  then obtain i' where "al_play al a n i = Inr i'" "quiet al i i'" by blast
  then show ?thesis using al_ok_quiet [OF ok(1), of i'] quiet_same(2) [of al i i'] ok(2) by (auto simp: quiet_def)
qed

end

text \<open>What a call does to the application's settings: triggering sets how often to repeat.\<close>

definition call_effect :: "al_call \<Rightarrow> sound_info \<Rightarrow> sound_info" where
  "call_effect call s = (case call of Bind \<Rightarrow> s | Trigger n \<Rightarrow> s\<lparr>repeat := n\<rparr>)"

lemma settings_upd_cong:
  assumes "sound_settings (f (sound_of a i)) = sound_settings (g (sound_of a i))"
  shows "settings (upd_sound a f i) = settings (upd_sound a g i)"
proof -
  have "map (\<lambda>(a, s). (a, sound_settings s)) (omap_put a v m) = map (\<lambda>(a, s). (a, sound_settings s)) (omap_put a v' m)"
    if "sound_settings v = sound_settings v'" for v v' and m :: "(string, sound_info) omap"
    using that by (induction a v m rule: omap_put.induct) auto
  from this [OF assms, of "mSounds i"] show ?thesis by (simp add: settings_def upd_sound_def)
qed

context openal_library
begin

lemma run_ok:
  assumes "al_ok al i" "al_isStarted i"
  shows "\<exists>i'. al_run al call a i = Inr i' \<and> al_ok al i' \<and> al_isStarted i' \<and> settings i' = settings (upd_sound a (call_effect call) i)"
  using assms
proof (induction "al_rank call a i" arbitrary: call i rule: less_induct)
  case less
  show ?case
  proof (cases call)
    case Bind
    obtain g j where j: "al_load al a i = Inr (g, j)" "al_ok al j" "al_isStarted j" "has_sound a j" "settings j = settings (upd_sound a id i)"
      using load_ok less.prems by blast
    have eff: "settings j = settings (upd_sound a (call_effect call) i)"
      using j(5) Bind settings_upd_cong [of id a i "call_effect call"] by (simp add: call_effect_def)
    let ?j = "upd_sound a (\<lambda>s. s\<lparr>triggerOnNextBind := False\<rparr>) j" and ?n = "repeat (sound_of a j)"
    have q: "quiet al j ?j" using j(2,4) by (simp add: quiet_upd_sound sound_settings_def)
    have t: "settings (upd_sound a (call_effect (Trigger ?n)) ?j) = settings j"
      using settings_upd_sound [of ?j a "call_effect (Trigger ?n)"] al_ok_quiet [OF j(2) q] q
      by (simp add: call_effect_def al_ok_def quiet_def)
    have "al_rank (Trigger ?n) a ?j < al_rank call a i" if "triggerOnNextBind (sound_of a j)"
      using al_load_marked [OF j(1)] that Bind by (auto simp: al_rank_def marked_def)
    then show ?thesis
      using less.hyps [OF _ al_ok_quiet [OF j(2) q], of "Trigger ?n"] j(1-3) eff t Bind by (auto simp: al_run.simps)
  next
    case (Trigger n)
    let ?i = "upd_sound a (\<lambda>s. s\<lparr>repeat := n, repeatCountdown := n\<rparr>) i"
    have ok: "al_ok al ?i" "al_isStarted ?i" "has_sound a ?i" using less.prems by (simp_all add: al_ok_upd_sound)
    have eff: "settings ?i = settings (upd_sound a (call_effect call) i)"
      by (rule settings_upd_cong) (simp add: Trigger call_effect_def sound_settings_def)
    have "\<exists>j. (if al_bound a i = None then al_run al Bind a ?i else Inr ?i) = Inr j \<and> al_ok al j \<and> al_isStarted j \<and> has_sound a j
      \<and> settings j = settings ?i"
    proof (cases "al_bound a i")
      case None
      have "al_rank Bind a ?i < al_rank call a i" using None Trigger by (simp add: al_rank_def marked_def)
      from less.hyps [OF this ok(1,2)] obtain j where j: "al_run al Bind a ?i = Inr j" "al_ok al j" "al_isStarted j"
        "settings j = settings (upd_sound a (call_effect Bind) ?i)" by blast
      have "settings (upd_sound a (call_effect Bind) ?i) = settings ?i"
        using ok by (simp add: settings_upd_sound call_effect_def al_ok_def)
      then show ?thesis using j ok None settings_same(1) [of j ?i a] by simp
    qed (use ok in simp)
    then obtain j where j: "(if al_bound a i = None then al_run al Bind a ?i else Inr ?i) = Inr j" "al_ok al j" "al_isStarted j"
      "has_sound a j" "settings j = settings ?i" by blast
    obtain k where k: "al_play al a n j = Inr k" "al_ok al k" "settings k = settings j" "al_isStarted k"
      using play_ok [OF j(2-4)] by blast
    have "al_run al call a i = Inr k"
      using j(1) k(1) less.prems(2) Trigger by (simp add: al_run.simps al_check_def si_trigger_value)
    then show ?thesis using k j(5) eff by simp
  qed
qed

lemma bind_ok:
  assumes "al_ok al i" "al_isStarted i" "has_sound a i"
  shows "\<exists>i'. al_run al Bind a i = Inr i' \<and> al_ok al i' \<and> al_isStarted i' \<and> settings i' = settings i"
  using run_ok [OF assms(1,2), of Bind a] settings_upd_sound [of i a "call_effect Bind"] assms
  by (auto simp: al_ok_def call_effect_def)

lemma bind_each:
  assumes "al_ok al i" "al_isStarted i" "\<forall>a \<in> set as. has_sound a i"
  shows "\<exists>i'. rfold (al_run al Bind) as i = Inr i' \<and> al_ok al i' \<and> al_isStarted i' \<and> settings i' = settings i"
  using assms
proof (induction as arbitrary: i)
  case (Cons a as)
  obtain j where j: "al_run al Bind a i = Inr j" "al_ok al j" "al_isStarted j" "settings j = settings i"
    using bind_ok [of i a] Cons.prems by auto
  then show ?case using Cons.IH [of j] Cons.prems(3) settings_same(1) [OF j(4)] by auto
qed simp

lemma unbind_each:
  assumes "al_ok al i"
  shows "\<exists>i'. rfold (al_unbind al) as i = Inr i' \<and> al_ok al i' \<and> al_isStarted i' = al_isStarted i \<and> settings i' = settings i
    \<and> (\<forall>c. al_bound c i' = (if c \<in> set as then None else al_bound c i))"
  using assms
proof (induction as arbitrary: i)
  case (Cons a as)
  obtain j where j: "al_unbind al a i = Inr j" "al_ok al j" "al_isStarted j = al_isStarted i" "settings j = settings i"
    "\<forall>c. al_bound c j = (if c = a then None else al_bound c i)"
    using unbind_ok [OF Cons.prems] by blast
  then show ?case using Cons.IH [of j] by auto
qed simp

lemma unbindAll_ok:
  assumes "al_ok al i"
  shows "\<exists>i'. al_unbindAll al i = Inr i' \<and> al_ok al i' \<and> al_isStarted i' = al_isStarted i \<and> settings i' = settings i
    \<and> (\<forall>c. al_bound c i' = None)"
proof -
  obtain j where j: "al_unbindAll al i = Inr j" "al_ok al j" "al_isStarted j = al_isStarted i" "settings j = settings i"
    "\<forall>c. al_bound c j = (if c \<in> set (map fst (mSounds i)) then None else al_bound c i)"
    using unbind_each [OF assms, of "map fst (mSounds i)"] by (auto simp: al_unbindAll_def si_unbindAll_def)
  have "al_bound c j = None" for c
    using j(5) al_ok_bound(2) [OF assms, of c] by (cases "al_bound c i") (auto simp: has_sound_keys simp del: set_map)
  then show ?thesis using j by blast
qed

lemma al_ok_nothing:
  assumes "omap_wf (mSounds i)" "omap_wf (mBindLookup (own i))" "\<forall>c. al_bound c i = None"
  shows "al_ok al i"
  using assms by (simp add: al_ok_def)

lemma shutdown_ok:
  assumes "al_ok al i"
  shows "\<exists>i'. al_shutdownAPI al i = Inr i' \<and> al_ok al i' \<and> settings i' = settings i \<and> \<not> al_isStarted i'"
proof (cases "al_isStarted i")
  case False
  then show ?thesis using assms by (simp add: al_shutdownAPI_def)
next
  case True
  obtain j where j: "al_unbindAll al i = Inr j" "al_ok al j" "settings j = settings i" "\<forall>c. al_bound c j = None"
    using unbindAll_ok [OF assms] by blast
  let ?j = "upd_own (\<lambda>x. x\<lparr>mContextId := False, mDev := False\<rparr>)
    (do_al al CloseDevice (do_al al DestroyContext (do_al al AlutExit j)))"
  have "al_ok al ?j"
    using j(2,4) by (intro al_ok_nothing) (simp_all add: al_ok_def al_bound_def)
  then show ?thesis using True j(1,3) by (simp add: al_shutdownAPI_def al_isStarted_def)
qed

lemma start_ok:
  assumes own: "iOwn i = Some al_own_new" and wf: "omap_wf (mSounds i)"
  shows "\<exists>b i'. al_startAPI al i = Inr (b, i') \<and> al_ok al i' \<and> settings i' = settings i \<and> al_isStarted i' = b"
proof -
  have new: "own i = al_own_new" using own by (simp add: own_def)
  obtain dev w1 where w1: "al_openDevice al (iLib i) = (dev, w1)" by fastforce
  let ?i = "do_al al InitWithoutContext (upd_own (\<lambda>x. x\<lparr>mDev := dev\<rparr>) (i\<lparr>iLib := w1\<rparr>))"
  obtain ctx w2 where w2: "al_createContext al (iLib ?i) = (ctx, w2)" by fastforce
  have ok: "al_ok al j" if "mBindLookup (own j) = []" "mSounds j = mSounds i" for j
    using that wf by (intro al_ok_nothing) (simp_all add: al_bound_def)
  let ?j = "upd_own (\<lambda>x. x\<lparr>mContextId := ctx\<rparr>) (?i\<lparr>iLib := w2\<rparr>)"
  let ?k = "do_al al MakeContextCurrent ?j"
  let ?l = "do_al al (ListenerOrientation (mListenerPos i)) (do_al al (ListenerPosition (mListenerPos i)) ?k)"
  have listener: "mListenerPos (do_al al cmd j) = mListenerPos j" "mListenerPos (upd_own f j) = mListenerPos j"
    "m = mListenerPos j \<Longrightarrow> j\<lparr>mListenerPos := m\<rparr> = j" for j m cmd f
    by (simp_all add: do_al_def upd_own_def)
  have "al_startAPI al i =
    (if \<not> dev then Inr (False, upd_own (\<lambda>x. x\<lparr>mDev := False\<rparr>) (i\<lparr>iLib := w1\<rparr>)) else if \<not> ctx then Inr (False, ?j) else Inr (True, ?l))"
    using w1 w2 new
    by (cases dev; cases ctx) (simp_all add: al_startAPI_def al_own_new_def al_setListenerPosition_def al_check_def
        si_setListenerPosition_def al_isStarted_def listener)
  then show ?thesis
    by (cases dev; cases ctx) (auto simp: ok new al_own_new_def al_isStarted_def listener)
qed

end

sublocale openal_library \<subseteq> backend: sound_backend "openal_class al" "al_ok al"
proof unfold_locales
  show "al_ok al i \<Longrightarrow> omap_wf (mSounds i)" for i by (simp add: al_ok_def)
  show "\<exists>b i'. v_startAPI (openal_class al) i = Inr (b, i') \<and> al_ok al i' \<and> settings i' = settings i
      \<and> (b \<longrightarrow> v_isStarted (openal_class al) i')"
    if "iOwn i = v_fresh (openal_class al)" "omap_wf (mSounds i)" for i
    using start_ok [of i] that by (auto simp: openal_class_def)
  show "keeps_settings (openal_class al) (\<lambda>i. al_ok al i \<and> v_isStarted (openal_class al) i) (v_bindAll (openal_class al)) i"
    if "al_ok al i" "v_isStarted (openal_class al) i" for i
    using bind_each [of i "map fst (mSounds i)"] that
    by (auto simp: keeps_settings_def openal_class_def si_bindAll_def has_sound_keys simp del: set_map)
  show "keeps_settings (openal_class al) (al_ok al) (v_unbindAll (openal_class al)) i" if "al_ok al i" for i
    using unbindAll_ok [OF that] by (auto simp: keeps_settings_def openal_class_def)
  show "keeps_settings (openal_class al) (al_ok al) (v_shutdownAPI (openal_class al)) i" if "al_ok al i" for i
    using shutdown_ok [OF that] by (auto simp: keeps_settings_def openal_class_def)
  show "keeps_settings (openal_class al) (al_ok al) (v_delete (openal_class al)) i" if "al_ok al i" for i
    using shutdown_ok [OF that] by (auto simp: keeps_settings_def openal_class_def)
qed

end
