(* ===== verification/SonixFacade.thy ===== *)
theory SonixFacade
  imports SonixBinding
begin

text \<open>
  The Sonix facade as an application sees it: whatever calls it makes, whatever implementation is
  behind the facade and however often it is changed, every call returns, and the settings are the
  ones the calls make on a plain table from aliases to descriptions.

  \<open>sound_device\<close> is what the facade needs of an implementation.  The stub and
  OpenAL, over any library that meets \<open>openal_library\<close>, provide it.
\<close>

section \<open>The calls\<close>

datatype device_op =
    OpTrigger string int
  | OpIsPlaying string
  | OpSetRetriggerable string bool
  | OpIsRetriggerable string
  | OpStop string
  | OpPause string
  | OpUnpause string
  | OpIsPaused string
  | OpSetAmbient string bool
  | OpIsAmbient string
  | OpSetPitchBend string float32
  | OpSetVolume string float32
  | OpSetCutoff string float32
  | OpSetPosition string "float32 \<times> float32 \<times> float32"
  | OpGetPosition string
  | OpSetListenerPosition "float32 list"
  | OpGetListenerPosition
  | OpConfigureAPI sound_api_info
  | OpConfigure string sound_info
  | OpRemove string
  | OpStep float32

datatype sonix_call = Device device_op | ChangeAPI string | ShutdownAPI

text \<open>What a call asks of the implementation, and the facade's function, without their answers.\<close>

fun ask_device :: "('b, 'w) sound_class \<Rightarrow> device_op \<Rightarrow> ('b, 'w) sound_impl \<Rightarrow> ('b, 'w) sound_impl result" where
  "ask_device c (OpTrigger a n) i = v_trigger c a n i"
| "ask_device c (OpIsPlaying a) i = rbind (v_isPlaying c a i) (\<lambda>_. Inr i)"
| "ask_device c (OpSetRetriggerable a b) i = Inr (si_setRetriggerable a b i)"
| "ask_device c (OpIsRetriggerable a) i = Inr (snd (si_isRetriggerable a i))"
| "ask_device c (OpStop a) i = v_stop c a i"
| "ask_device c (OpPause a) i = v_pause c a i"
| "ask_device c (OpUnpause a) i = v_unpause c a i"
| "ask_device c (OpIsPaused a) i = rbind (v_isPaused c a i) (\<lambda>_. Inr i)"
| "ask_device c (OpSetAmbient a b) i = v_setAmbient c a b i"
| "ask_device c (OpIsAmbient a) i = Inr (snd (si_isAmbient a i))"
| "ask_device c (OpSetPitchBend a x) i = v_setPitchBend c a x i"
| "ask_device c (OpSetVolume a x) i = v_setVolume c a x i"
| "ask_device c (OpSetCutoff a x) i = v_setCutoff c a x i"
| "ask_device c (OpSetPosition a p) i = v_setPosition c a p i"
| "ask_device c (OpGetPosition a) i = rbind (si_getPosition (v_isStarted c i) a i) (\<lambda>(_, i). Inr i)"
| "ask_device c (OpSetListenerPosition m) i = v_setListenerPosition c m i"
| "ask_device c OpGetListenerPosition i = rbind (si_getListenerPosition (v_isStarted c i) i) (\<lambda>_. Inr i)"
| "ask_device c (OpConfigureAPI sai) i = Inr (si_configureAPI sai i)"
| "ask_device c (OpConfigure a d) i = si_configure c a d i"
| "ask_device c (OpRemove a) i = si_remove c a i"
| "ask_device c (OpStep t) i = v_step c t i"

definition no_answer :: "('r \<times> 's) result \<Rightarrow> 's result" where
  "no_answer r = map_sum id snd r"

fun sonix_op :: "(nat \<Rightarrow> ('b, 'w) sound_class) \<Rightarrow> device_op \<Rightarrow> ('b, 'w) sonix \<Rightarrow> ('b, 'w) sonix result" where
  "sonix_op cs (OpTrigger a n) sx = no_answer (sonix_trigger cs a n sx)"
| "sonix_op cs (OpIsPlaying a) sx = no_answer (sonix_isPlaying cs a sx)"
| "sonix_op cs (OpSetRetriggerable a b) sx = no_answer (sonix_setRetriggerable cs a b sx)"
| "sonix_op cs (OpIsRetriggerable a) sx = no_answer (sonix_isRetriggerable cs a sx)"
| "sonix_op cs (OpStop a) sx = no_answer (sonix_stop cs a sx)"
| "sonix_op cs (OpPause a) sx = no_answer (sonix_pause cs a sx)"
| "sonix_op cs (OpUnpause a) sx = no_answer (sonix_unpause cs a sx)"
| "sonix_op cs (OpIsPaused a) sx = no_answer (sonix_isPaused cs a sx)"
| "sonix_op cs (OpSetAmbient a b) sx = no_answer (sonix_setAmbient cs a b sx)"
| "sonix_op cs (OpIsAmbient a) sx = no_answer (sonix_isAmbient cs a sx)"
| "sonix_op cs (OpSetPitchBend a x) sx = no_answer (sonix_setPitchBend cs a x sx)"
| "sonix_op cs (OpSetVolume a x) sx = no_answer (sonix_setVolume cs a x sx)"
| "sonix_op cs (OpSetCutoff a x) sx = no_answer (sonix_setCutoff cs a x sx)"
| "sonix_op cs (OpSetPosition a p) sx = no_answer (sonix_setPosition cs a p sx)"
| "sonix_op cs (OpGetPosition a) sx = no_answer (sonix_getPosition cs a sx)"
| "sonix_op cs (OpSetListenerPosition m) sx = no_answer (sonix_setListenerPosition cs m sx)"
| "sonix_op cs OpGetListenerPosition sx = no_answer (sonix_getListenerPosition cs sx)"
| "sonix_op cs (OpConfigureAPI sai) sx = no_answer (sonix_configureAPI cs sai sx)"
| "sonix_op cs (OpConfigure a d) sx = no_answer (sonix_configure cs a d sx)"
| "sonix_op cs (OpRemove a) sx = no_answer (sonix_remove cs a sx)"
| "sonix_op cs (OpStep t) sx = no_answer (sonix_step cs t sx)"

lemma on_impl_no_answer:
  "no_answer (on_impl cs f sx) = rbind (sonix_impl cs sx) (\<lambda>((c, i), sx).
     rbind (no_answer (f (class_of cs c) i)) (\<lambda>i. Inr (sx\<lparr>mImplementation := Some (c, i)\<rparr>)))"
proof (cases "sonix_impl cs sx")
  case (Inr x)
  obtain c i sx' where "x = ((c, i), sx')" using surj_pair by (metis surj_pair)
  with Inr show ?thesis by (cases "f (class_of cs c) i") (auto simp: on_impl_def no_answer_def)
qed (simp add: on_impl_def no_answer_def)

lemma no_answer_simps [simp]:
  "no_answer (no_value r) = r" "no_answer (Inr (x, s)) = Inr s" "no_answer (Inr y) = Inr (snd y)"
  "no_answer (rbind m (\<lambda>x. Inr (g x, s))) = rbind m (\<lambda>_. Inr s)"
  by (cases r; simp add: no_answer_def no_value_def) (simp_all add: no_answer_def rbind_def split: sum.split)

text \<open>The facade only finds the implementation and passes the call on.\<close>

lemma sonix_op_passes:
  "sonix_op cs op sx = rbind (sonix_impl cs sx) (\<lambda>((c, i), sx).
     rbind (ask_device (class_of cs c) op i) (\<lambda>i. Inr (sx\<lparr>mImplementation := Some (c, i)\<rparr>)))"
proof -
  have pair: "no_answer r = rbind r (\<lambda>(_, i). Inr i)" for r :: "('r \<times> ('a, 'b) sound_impl) result"
    by (cases r) (auto simp: no_answer_def)
  show ?thesis
    by (cases op) (simp_all only: sonix_op.simps ask_device.simps sonix_trigger_def sonix_isPlaying_def sonix_setRetriggerable_def
        sonix_isRetriggerable_def sonix_stop_def sonix_pause_def sonix_unpause_def sonix_isPaused_def sonix_setAmbient_def
        sonix_isAmbient_def sonix_setPitchBend_def sonix_setVolume_def sonix_setCutoff_def sonix_setPosition_def sonix_getPosition_def
        sonix_setListenerPosition_def sonix_getListenerPosition_def sonix_configureAPI_def sonix_configure_def sonix_remove_def
        sonix_step_def on_impl_no_answer no_answer_simps pair [symmetric] snd_conv)
qed
section \<open>The table of settings\<close>

record app_settings =
  asSound :: "string \<Rightarrow> sound_info"
  asListener :: "float32 list"
  asApi :: sound_api_info

definition set_sound :: "string \<Rightarrow> (sound_info \<Rightarrow> sound_info) \<Rightarrow> app_settings \<Rightarrow> app_settings" where
  "set_sound a f s = s\<lparr>asSound := (asSound s)(a := f (asSound s a))\<rparr>"

fun app_op :: "device_op \<Rightarrow> app_settings \<Rightarrow> app_settings" where
  "app_op (OpTrigger a n) s = set_sound a (\<lambda>d. d\<lparr>repeat := n\<rparr>) s"
| "app_op (OpSetRetriggerable a b) s = set_sound a (\<lambda>d. d\<lparr>retriggerable := b\<rparr>) s"
| "app_op (OpSetAmbient a b) s = set_sound a (\<lambda>d. d\<lparr>ambient := b\<rparr>) s"
| "app_op (OpSetPitchBend a x) s = set_sound a (\<lambda>d. d\<lparr>pitchbend := x\<rparr>) s"
| "app_op (OpSetVolume a x) s = set_sound a (\<lambda>d. d\<lparr>volume := x\<rparr>) s"
| "app_op (OpSetCutoff a x) s = set_sound a (\<lambda>d. d\<lparr>cutoff := x\<rparr>) s"
| "app_op (OpSetPosition a p) s = set_sound a (\<lambda>d. d\<lparr>position := p\<rparr>) s"
| "app_op (OpSetListenerPosition m) s = s\<lparr>asListener := m\<rparr>"
| "app_op (OpConfigureAPI sai) s = s\<lparr>asApi := sai\<rparr>"
| "app_op (OpConfigure a d) s = set_sound a (\<lambda>_. sound_settings d) s"
| "app_op (OpRemove a) s = set_sound a (\<lambda>_. sound_info_new) s"
| "app_op _ s = s"

definition app :: "('b, 'w) sound_impl \<Rightarrow> app_settings" where
  "app i = \<lparr>asSound = (\<lambda>a. sound_settings (sound_of a i)), asListener = mListenerPos i, asApi = mSoundAPIInfo i\<rparr>"

lemma app_of_settings:
  assumes "settings i' = settings i"
  shows "app i' = app i"
proof -
  have "map_option sound_settings (map_of (mSounds i') a) = map_option sound_settings (map_of (mSounds i) a)" for a
    using assms map_of_map [of sound_settings "mSounds i"] map_of_map [of sound_settings "mSounds i'"]
    by (auto simp: settings_def fun_eq_iff)
  note m = this
  have "sound_settings (sound_of a i') = sound_settings (sound_of a i)" for a
    using m [of a] by (cases "map_of (mSounds i') a"; cases "map_of (mSounds i) a") (auto simp: sound_of_def)
  then show ?thesis using assms by (simp add: app_def settings_def)
qed

lemma listener_upd_sound [simp]:
  "mListenerPos (upd_sound a f i) = mListenerPos i" "mSoundAPIInfo (upd_sound a f i) = mSoundAPIInfo i"
  by (simp_all add: upd_sound_def)

lemma sound_of_upd: "sound_of b (upd_sound a f i) = (if b = a then f (sound_of a i) else sound_of b i)"
  by (simp add: upd_sound_def sound_of_def omap_put_lookup)

lemma app_entered [simp]: "app (upd_sound a id i) = app i"
  by (auto simp: app_def sound_of_upd)

locale sound_device = sound_backend +
  assumes device: "ok i \<Longrightarrow> v_isStarted c i \<Longrightarrow>
    \<exists>i'. ask_device c op i = Inr i' \<and> ok i' \<and> v_isStarted c i' \<and> app i' = app_op op (app i)"

section \<open>The stub\<close>

lemma sound_settings_simps [simp]:
  "sound_settings (s\<lparr>repeat := n\<rparr>) = (sound_settings s)\<lparr>repeat := n\<rparr>"
  "sound_settings (s\<lparr>retriggerable := b\<rparr>) = (sound_settings s)\<lparr>retriggerable := b\<rparr>"
  "sound_settings (s\<lparr>ambient := b\<rparr>) = (sound_settings s)\<lparr>ambient := b\<rparr>"
  "sound_settings (s\<lparr>pitchbend := x\<rparr>) = (sound_settings s)\<lparr>pitchbend := x\<rparr>"
  "sound_settings (s\<lparr>volume := x\<rparr>) = (sound_settings s)\<lparr>volume := x\<rparr>"
  "sound_settings (s\<lparr>cutoff := x\<rparr>) = (sound_settings s)\<lparr>cutoff := x\<rparr>"
  "sound_settings (s\<lparr>position := p\<rparr>) = (sound_settings s)\<lparr>position := p\<rparr>"
  "sound_settings (s\<lparr>triggerOnNextBind := b\<rparr>) = sound_settings s"
  "sound_settings (s\<lparr>repeatCountdown := n\<rparr>) = sound_settings s"
  by (simp_all add: sound_settings_def)

lemma app_sets:
  "app (upd_sound a (\<lambda>s. s\<lparr>repeat := n\<rparr>) i) = set_sound a (\<lambda>d. d\<lparr>repeat := n\<rparr>) (app i)"
  "app (upd_sound a (\<lambda>s. s\<lparr>repeat := n, repeatCountdown := n\<rparr>) i) = set_sound a (\<lambda>d. d\<lparr>repeat := n\<rparr>) (app i)"
  "app (upd_sound a (\<lambda>s. s\<lparr>repeatCountdown := n\<rparr>) i) = app i"
  "app (upd_sound a (\<lambda>s. s\<lparr>triggerOnNextBind := b\<rparr>) i) = app i"
  "app (upd_sound a (\<lambda>s. s\<lparr>retriggerable := b\<rparr>) i) = set_sound a (\<lambda>d. d\<lparr>retriggerable := b\<rparr>) (app i)"
  "app (upd_sound a (\<lambda>s. s\<lparr>ambient := b\<rparr>) i) = set_sound a (\<lambda>d. d\<lparr>ambient := b\<rparr>) (app i)"
  "app (upd_sound a (\<lambda>s. s\<lparr>pitchbend := x\<rparr>) i) = set_sound a (\<lambda>d. d\<lparr>pitchbend := x\<rparr>) (app i)"
  "app (upd_sound a (\<lambda>s. s\<lparr>volume := x\<rparr>) i) = set_sound a (\<lambda>d. d\<lparr>volume := x\<rparr>) (app i)"
  "app (upd_sound a (\<lambda>s. s\<lparr>cutoff := x\<rparr>) i) = set_sound a (\<lambda>d. d\<lparr>cutoff := x\<rparr>) (app i)"
  "app (upd_sound a (\<lambda>s. s\<lparr>position := p\<rparr>) i) = set_sound a (\<lambda>d. d\<lparr>position := p\<rparr>) (app i)"
  "app (upd_sound a (\<lambda>s. d\<lparr>triggerOnNextBind := g s\<rparr>) i) = set_sound a (\<lambda>_. sound_settings d) (app i)"
  "app (i\<lparr>mListenerPos := m\<rparr>) = (app i)\<lparr>asListener := m\<rparr>" "app (i\<lparr>mSoundAPIInfo := sai\<rparr>) = (app i)\<lparr>asApi := sai\<rparr>"
  "app (i\<lparr>iOwn := y\<rparr>) = app i" "app (i\<lparr>iLib := w\<rparr>) = app i"
  by (auto simp: app_def set_sound_def fun_eq_iff sound_of_upd) (simp_all add: sound_of_def)

lemma app_erased:
  "omap_wf (mSounds i) \<Longrightarrow> app (i\<lparr>mSounds := omap_erase a (mSounds i)\<rparr>) = set_sound a (\<lambda>_. sound_info_new) (app i)"
  by (auto simp: app_def set_sound_def fun_eq_iff sound_of_def omap_erase_lookup sound_settings_def sound_info_new_def)

lemma omap_wf_upd_sound [simp]: "omap_wf (mSounds i) \<Longrightarrow> omap_wf (mSounds (upd_sound a f i))"
  by (simp add: upd_sound_def omap_put_wf)

lemma repeat_again: "set_sound a (\<lambda>d. d\<lparr>repeat := repeat (sound_of a i)\<rparr>) (app i) = app i"
  by (auto simp: set_sound_def app_def sound_settings_def)

lemma stub_device:
  assumes "omap_wf (mSounds i)"
  shows "\<exists>i'. ask_device stub_class op i = Inr i' \<and> omap_wf (mSounds i') \<and> app i' = app_op op (app i)"
  using assms
  by (cases op) (auto simp: stub_class_def stub_trigger_def stub_stop_def stub_unpause_def si_trigger_def si_stop_def
      si_setRetriggerable_def si_isRetriggerable_def si_setAmbient_def si_isAmbient_def si_setPitchBend_def si_setVolume_def
      si_setCutoff_def si_setPosition_def si_getPosition_def si_setListenerPosition_def si_getListenerPosition_def
      si_configureAPI_def si_configure_def si_remove_def sound_lookup_def app_sets app_erased omap_erase_wf
      repeat_again sound_of_upd)
interpretation stub_dev: sound_device stub_class "\<lambda>i. omap_wf (mSounds i)"
proof unfold_locales
  show "\<exists>i'. ask_device stub_class op i = Inr i' \<and> omap_wf (mSounds i') \<and> v_isStarted stub_class i' \<and> app i' = app_op op (app i)"
    if "omap_wf (mSounds i)" for op and i :: "('a, 'b) sound_impl"
    using stub_device [OF that, of op] by (simp add: stub_class_def)
qed

section \<open>OpenAL\<close>

definition al_live :: "'w openal \<Rightarrow> 'w al_impl \<Rightarrow> bool" where
  "al_live al i \<longleftrightarrow> al_ok al i \<and> al_isStarted i"

lemma app_lib [simp]: "app (do_al al cmd i) = app i"
  by (simp add: do_al_def app_sets)

lemma al_live_upd_sound [simp]: "al_live al i \<Longrightarrow> al_live al (upd_sound a f i)"
  by (simp add: al_live_def al_ok_upd_sound)

lemma al_live_fields:
  "al_live al i \<Longrightarrow> al_live al (i\<lparr>mListenerPos := m\<rparr>)" "al_live al i \<Longrightarrow> al_live al (i\<lparr>mSoundAPIInfo := sai\<rparr>)"
  by (simp_all add: al_live_def al_ok_def al_bound_def own_def al_isStarted_def has_sound_def)

lemma al_live_remove:
  assumes "al_live al i" "al_bound a i = None"
  shows "al_live al (i\<lparr>mSounds := omap_erase a (mSounds i)\<rparr>)" (is "al_live al ?i")
proof -
  have "own ?i = own i" "al_isStarted ?i = al_isStarted i" "\<And>c. al_bound c ?i = al_bound c i" "iLib ?i = iLib i"
    by (simp_all add: own_def al_isStarted_def al_bound_def)
  moreover have "has_sound c ?i" if "al_bound c i = Some b" for c b
    using assms al_ok_bound(2) [of al i c b] that by (auto simp: al_live_def al_ok_def has_sound_def omap_erase_lookup)
  ultimately show ?thesis
    using assms by (auto simp: al_live_def al_ok_def omap_erase_wf)
qed

context openal_library
begin

lemma live_do:
  "al_live al i \<Longrightarrow> (\<And>x. cmd \<noteq> DeleteSource x) \<Longrightarrow> cmd \<notin> {AlutExit, DestroyContext, CloseDevice} \<Longrightarrow> al_live al (do_al al cmd i)"
  using al_ok_quiet [OF _ quiet_do] by (simp add: al_live_def)

lemma live_state:
  assumes "al_live al i"
  obtains s where "al_state_of al a i = Inr s"
  using assms al_state_of_ok unfolding al_live_def by metis

lemma live_configure:
  assumes "al_live al i"
  shows "\<exists>i'. si_configure (openal_class al) a d i = Inr i' \<and> al_live al i' \<and> app i' = set_sound a (\<lambda>_. sound_settings d) (app i)"
proof -
  obtain j where j: "al_unbind al a i = Inr j" "al_ok al j" "settings j = settings i" "al_isStarted j"
    using unbind_ok [of i a] assms by (auto simp: al_live_def)
  let ?j = "upd_sound a (\<lambda>temp. d\<lparr>triggerOnNextBind := triggerOnNextBind temp\<rparr>) j"
  obtain k where k: "al_run al Bind a ?j = Inr k" "al_ok al k" "al_isStarted k" "settings k = settings ?j"
    using bind_ok [of ?j a] al_ok_upd_sound [OF j(2)] j(4) by auto
  have "app k = set_sound a (\<lambda>_. sound_settings d) (app i)"
    using app_of_settings [OF k(4)] app_of_settings [OF j(3)] by (simp add: app_sets)
  then show ?thesis using j k by (auto simp: si_configure_def openal_class_def al_live_def)
qed

lemma live_remove:
  assumes "al_live al i"
  shows "\<exists>i'. si_remove (openal_class al) a i = Inr i' \<and> al_live al i' \<and> app i' = set_sound a (\<lambda>_. sound_info_new) (app i)"
proof -
  obtain j where j: "al_unbind al a i = Inr j" "al_ok al j" "settings j = settings i" "al_isStarted j" "al_bound a j = None"
    using unbind_ok [of i a] assms by (auto simp: al_live_def)
  have "app (j\<lparr>mSounds := omap_erase a (mSounds j)\<rparr>) = set_sound a (\<lambda>_. sound_info_new) (app i)"
    using app_erased [of j a] j(2) app_of_settings [OF j(3)] by (simp add: al_ok_def)
  then show ?thesis
    using j assms al_live_remove [of al j a] by (auto simp: si_remove_def openal_class_def al_live_def)
qed

lemma live_trigger:
  assumes "al_live al i"
  shows "\<exists>i'. al_run al (Trigger n) a i = Inr i' \<and> al_live al i' \<and> app i' = set_sound a (\<lambda>d. d\<lparr>repeat := n\<rparr>) (app i)"
proof -
  obtain j where j: "al_run al (Trigger n) a i = Inr j" "al_ok al j" "al_isStarted j"
    "settings j = settings (upd_sound a (call_effect (Trigger n)) i)"
    using run_ok [of i "Trigger n" a] assms by (auto simp: al_live_def)
  have "call_effect (Trigger n) = (\<lambda>s. s\<lparr>repeat := n\<rparr>)" by (auto simp: call_effect_def)
  then show ?thesis using j app_of_settings [OF j(4)] by (simp add: al_live_def app_sets)
qed

lemma live_device:
  assumes live: "al_live al i"
  shows "\<exists>i'. ask_device (openal_class al) op i = Inr i' \<and> al_live al i' \<and> app i' = app_op op (app i)"
proof -
  have st: "al_isStarted i" "al_check i = Inr ()" using live by (simp_all add: al_live_def al_check_def)
  note go = live_do al_live_fields app_sets
  show ?thesis
  proof (cases op)
    case (OpTrigger a n)
    then show ?thesis using live_trigger [OF live] by (simp add: openal_class_def)
  next
    case (OpIsPlaying a)
    moreover obtain s where "al_state_of al a i = Inr s" using live_state [OF live] .
    ultimately show ?thesis using live by (auto simp: openal_class_def al_isPlaying_def)
  next
    case (OpIsPaused a)
    moreover obtain s where "al_state_of al a i = Inr s" using live_state [OF live] .
    ultimately show ?thesis using live by (auto simp: openal_class_def al_isPaused_def)
  next
    case (OpUnpause a)
    moreover obtain s where "al_state_of al a i = Inr s" using live_state [OF live] .
    ultimately show ?thesis using live st
      by (auto simp: openal_class_def al_unpause_def al_isPaused_def go split: option.split)
  next
    case (OpConfigure a d)
    then show ?thesis using live_configure [OF live] by simp
  next
    case (OpRemove a)
    then show ?thesis using live_remove [OF live] by simp
  next
    case (OpSetPosition a p)
    then show ?thesis using live st
      by (auto simp: openal_class_def al_setPosition_def si_setPosition_def si_isAmbient_def sound_lookup_def go split: option.split)
  next
    case (OpSetAmbient a b)
    then show ?thesis using live
      by (auto simp: openal_class_def al_setAmbient_def si_setAmbient_def Let_def go split: option.split)
  qed (use live st in \<open>auto simp: openal_class_def al_pause_def al_stop_def si_stop_def al_setPitchBend_def si_setPitchBend_def
      al_setVolume_def si_setVolume_def al_setCutoff_def si_setCutoff_def al_setGain_def al_setListenerPosition_def
      si_setListenerPosition_def si_getListenerPosition_def si_getPosition_def si_setRetriggerable_def si_isRetriggerable_def
      si_isAmbient_def si_configureAPI_def al_step_def sound_lookup_def Let_def go split: option.split\<close>)
qed

end

sublocale openal_library \<subseteq> device: sound_device "openal_class al" "al_ok al"
proof unfold_locales
  show "\<exists>i'. ask_device (openal_class al) op i = Inr i' \<and> al_ok al i' \<and> v_isStarted (openal_class al) i' \<and> app i' = app_op op (app i)"
    if "al_ok al i" "v_isStarted (openal_class al) i" for op i
    using live_device [of i op] that by (auto simp: al_live_def openal_class_def)
qed

context openal_library
begin

lemmas openal_device = device.sound_device_axioms

end

lemmas openal_device = openal_library.openal_device

section \<open>A whole run\<close>

definition call_sonix :: "(nat \<Rightarrow> ('b, 'w) sound_class) \<Rightarrow> sonix_call \<Rightarrow> ('b, 'w) sonix \<Rightarrow> ('b, 'w) sonix result option" where
  "call_sonix cs call sx = (case call of
     Device op \<Rightarrow> Some (sonix_op cs op sx)
   | ChangeAPI apiName \<Rightarrow> changeAPI cs apiName sx
   | ShutdownAPI \<Rightarrow> Some (sonix_shutdownAPI cs sx))"

fun run_calls :: "(nat \<Rightarrow> ('b, 'w) sound_class) \<Rightarrow> sonix_call list \<Rightarrow> ('b, 'w) sonix \<Rightarrow> ('b, 'w) sonix result option" where
  "run_calls cs [] sx = Some (Inr sx)"
| "run_calls cs (call # calls) sx =
     (case call_sonix cs call sx of
        None \<Rightarrow> None
      | Some (Inl e) \<Rightarrow> Some (Inl e)
      | Some (Inr sx) \<Rightarrow> run_calls cs calls sx)"

text \<open>Without an implementation the settings are those of a new stub.\<close>

definition app_default :: app_settings where
  "app_default = \<lparr>asSound = (\<lambda>_. sound_info_new), asListener = identity_matrix, asApi = sound_api_info_new\<rparr>"

definition app_of :: "('b, 'w) sonix \<Rightarrow> app_settings" where
  "app_of sx = (case mImplementation sx of None \<Rightarrow> app_default | Some (c, i) \<Rightarrow> app i)"

definition app_call :: "sonix_call \<Rightarrow> app_settings \<Rightarrow> app_settings" where
  "app_call call s = (case call of Device op \<Rightarrow> app_op op s | ChangeAPI _ \<Rightarrow> s | ShutdownAPI \<Rightarrow> app_default)"

definition sonix_ok :: "(nat \<Rightarrow> ('b, 'w) sound_class) \<Rightarrow> (nat \<Rightarrow> ('b, 'w) sound_impl \<Rightarrow> bool) \<Rightarrow> ('b, 'w) sonix \<Rightarrow> bool" where
  "sonix_ok cs oks sx \<longleftrightarrow> map_of (mRegisteredImplementations (sxFactory sx)) ''stub'' = None
     \<and> (case mImplementation sx of None \<Rightarrow> True | Some (c, i) \<Rightarrow> backend_ok oks c i \<and> v_isStarted (class_of cs c) i)"

lemma all_devices:
  assumes "\<forall>n. sound_device (cs n) (oks n)"
  shows "sound_device (class_of cs c) (backend_ok oks c)"
  using assms stub_dev.sound_device_axioms by (cases c) (simp_all add: class_of_def backend_ok_def)

lemma app_stub [simp]: "app (stub_new lib) = app_default"
  by (simp add: app_def app_default_def stub_new_def sound_of_def sound_settings_def sound_info_new_def)

lemma impl_ok:
  assumes "sonix_ok cs oks sx"
  shows "\<exists>c i. sonix_impl cs sx = Inr ((c, i), sx\<lparr>mImplementation := Some (c, i)\<rparr>)
    \<and> backend_ok oks c i \<and> v_isStarted (class_of cs c) i \<and> app i = app_of sx"
proof (cases "mImplementation sx")
  case None
  then show ?thesis
    using assms created_stub [of "sxFactory sx" "''stub''" cs "sxLib sx"]
    by (simp add: sonix_ok_def sonix_impl_def class_of_def stub_class_def app_of_def backend_ok_def) (simp add: stub_new_def)
next
  case (Some ci)
  then show ?thesis using assms by (cases ci) (simp add: sonix_ok_def sonix_impl_def app_of_def)
qed
lemma device_call_ok:
  assumes all: "\<forall>n. sound_device (cs n) (oks n)" and ok: "sonix_ok cs oks sx"
  shows "\<exists>sx'. sonix_op cs op sx = Inr sx' \<and> sonix_ok cs oks sx' \<and> app_of sx' = app_op op (app_of sx)"
proof -
  obtain c i where i: "sonix_impl cs sx = Inr ((c, i), sx\<lparr>mImplementation := Some (c, i)\<rparr>)" "backend_ok oks c i"
    "v_isStarted (class_of cs c) i" "app i = app_of sx"
    using impl_ok [OF ok] by blast
  obtain i' where "ask_device (class_of cs c) op i = Inr i'" "backend_ok oks c i'" "v_isStarted (class_of cs c) i'"
    "app i' = app_op op (app i)"
    using sound_device.device [OF all_devices [OF all] i(2,3)] by blast
  then show ?thesis using i ok by (simp add: sonix_op_passes sonix_ok_def app_of_def)
qed

lemma change_call_ok:
  assumes all: "\<forall>n. sound_device (cs n) (oks n)" and ok: "sonix_ok cs oks sx"
  shows "\<exists>sx'. changeAPI cs apiName sx = Some (Inr sx') \<and> sonix_ok cs oks sx' \<and> app_of sx' = app_of sx"
proof -
  obtain c i where i: "sonix_impl cs sx = Inr ((c, i), sx\<lparr>mImplementation := Some (c, i)\<rparr>)" "backend_ok oks c i" "app i = app_of sx"
    using impl_ok [OF ok] by blast
  let ?sx = "sx\<lparr>mImplementation := Some (c, i)\<rparr>"
  have "change_once cs apiName sx = change_once cs apiName ?sx"
    using i(1) by (simp add: change_once_def) (simp add: sonix_impl_def)
  then have "changeAPI cs apiName sx = changeAPI cs apiName ?sx"
    by (subst (1 2) changeAPI.simps) simp
  moreover have "\<forall>n. sound_backend (cs n) (oks n)" using all by (simp add: sound_device_def)
  then obtain c' i' where "changeAPI cs apiName ?sx = Some (Inr (?sx\<lparr>mImplementation := Some (c', i')\<rparr>))" "backend_ok oks c' i'"
    "v_isStarted (class_of cs c') i'" "settings i' = settings i"
    using changeAPI_ok [of cs oks ?sx c i apiName] i(2) ok by (auto simp: sonix_ok_def)
  ultimately show ?thesis using ok i(3) app_of_settings [of i' i] by (simp add: sonix_ok_def app_of_def)
qed

lemma shutdown_call_ok:
  assumes all: "\<forall>n. sound_device (cs n) (oks n)" and ok: "sonix_ok cs oks sx"
  shows "\<exists>sx'. sonix_shutdownAPI cs sx = Inr sx' \<and> sonix_ok cs oks sx' \<and> app_of sx' = app_default"
proof (cases "mImplementation sx")
  case None
  then show ?thesis using ok by (simp add: sonix_shutdownAPI_def app_of_def)
next
  case (Some ci)
  obtain c i where ci: "ci = (c, i)" by fastforce
  have "sound_backend (class_of cs c) (backend_ok oks c)" using all_devices [OF all] by (simp add: sound_device_def)
  from sound_backend.retire [OF this, of i "\<lambda>i. Inr (sx\<lparr>mImplementation := None, sxLib := iLib i\<rparr>)"] ok Some ci
  show ?thesis by (auto simp: sonix_shutdownAPI_def sonix_ok_def app_of_def)
qed

lemma call_ok:
  assumes "\<forall>n. sound_device (cs n) (oks n)" and "sonix_ok cs oks sx"
  shows "\<exists>sx'. call_sonix cs call sx = Some (Inr sx') \<and> sonix_ok cs oks sx' \<and> app_of sx' = app_call call (app_of sx)"
  using device_call_ok [OF assms] change_call_ok [OF assms] shutdown_call_ok [OF assms]
  by (cases call) (auto simp: call_sonix_def app_call_def)

text \<open>What the facade answers is what the table says.\<close>

lemma answers_ok:
  assumes "sonix_ok cs oks sx"
  shows "map_sum id fst (sonix_isAmbient cs a sx) = Inr (ambient (asSound (app_of sx) a))"
    "map_sum id fst (sonix_isRetriggerable cs a sx) = Inr (retriggerable (asSound (app_of sx) a))"
    "map_sum id fst (sonix_getPosition cs a sx) = Inr (position (asSound (app_of sx) a))"
    "map_sum id fst (sonix_getListenerPosition cs sx) = Inr (asListener (app_of sx))"
proof -
  obtain c i where i: "sonix_impl cs sx = Inr ((c, i), sx\<lparr>mImplementation := Some (c, i)\<rparr>)"
    "v_isStarted (class_of cs c) i" and s: "app_of sx = app i"
    using impl_ok [OF assms] by metis
  show "map_sum id fst (sonix_isAmbient cs a sx) = Inr (ambient (asSound (app_of sx) a))"
    "map_sum id fst (sonix_isRetriggerable cs a sx) = Inr (retriggerable (asSound (app_of sx) a))"
    "map_sum id fst (sonix_getPosition cs a sx) = Inr (position (asSound (app_of sx) a))"
    "map_sum id fst (sonix_getListenerPosition cs sx) = Inr (asListener (app_of sx))"
    using i by (simp_all add: s sonix_isAmbient_def sonix_isRetriggerable_def sonix_getPosition_def sonix_getListenerPosition_def
        on_impl_def si_isAmbient_def si_isRetriggerable_def si_getPosition_def si_getListenerPosition_def sound_lookup_def
        app_def sound_settings_def)
qed

lemma calls_ok:
  assumes "\<forall>n. sound_device (cs n) (oks n)" and "sonix_ok cs oks sx"
  shows "\<exists>sx'. run_calls cs calls sx = Some (Inr sx') \<and> sonix_ok cs oks sx' \<and> app_of sx' = fold app_call calls (app_of sx)"
  using assms(2)
proof (induction calls arbitrary: sx)
  case (Cons call calls)
  obtain sx' where "call_sonix cs call sx = Some (Inr sx')" "sonix_ok cs oks sx'" "app_of sx' = app_call call (app_of sx)"
    using call_ok [OF assms(1) Cons.prems] by blast
  then show ?case using Cons.IH [of sx'] by simp
qed simp

section \<open>Properties\<close>

text \<open>
  C16. The facade over OpenAL and the stub is the table of settings.  Let every registered plug-in
  be the OpenAL back end, over any library that meets \<open>openal_library\<close>, none registered as
  \<^verbatim>\<open>stub\<close>, and let the implementation in use, if any, be started.  Every sequence of calls of the
  facade, with any aliases and with changes of the API and shutdowns among them, then runs to its
  end: no call fails an assertion of an implementation and \<^verbatim>\<open>changeAPI\<close> returns.  The settings,
  and what the facade answers about them, are those the calls make on the table, whatever
  implementations played the sounds; triggering or setting an alias nobody configured enters it.
  (Other plug-ins need not agree: Subsynth's \<^verbatim>\<open>setVolume\<close> ignores a negative volume.)
\<close>

theorem sonix_refines_table:
  assumes "\<forall>n. openal_library (als n)" and "cs = (\<lambda>n. openal_class (als n))"
    and "sonix_ok cs (\<lambda>n. al_ok (als n)) sx" and "table = fold app_call calls (app_of sx)"
  shows "\<exists>sx'. run_calls cs calls sx = Some (Inr sx') \<and> sonix_ok cs (\<lambda>n. al_ok (als n)) sx'
    \<and> map_sum id fst (sonix_isAmbient cs a sx') = Inr (ambient (asSound table a))
    \<and> map_sum id fst (sonix_isRetriggerable cs a sx') = Inr (retriggerable (asSound table a))
    \<and> map_sum id fst (sonix_getPosition cs a sx') = Inr (position (asSound table a))
    \<and> map_sum id fst (sonix_getListenerPosition cs sx') = Inr (asListener table) \<and> app_of sx' = table"
proof -
  have "\<forall>n. sound_device (cs n) (al_ok (als n))" using assms(1,2) by (simp add: openal_device)
  from calls_ok [OF this assms(3), of calls] show ?thesis using answers_ok assms(4) by metis
qed

text \<open>
  C30. Changing the sound API keeps every sound.  Whatever implementation is in use, \<^verbatim>\<open>changeAPI\<close>
  returns when no plug-in is registered as \<^verbatim>\<open>stub\<close>: with the implementation asked for, or with
  the stub when that is not registered or does not start.  The implementation is then started and
  has the settings made so far, every sound's description, the listener and the API's
  parameters, and also the name of the implementation before it.
\<close>

theorem changeAPI_keeps_sounds:
  assumes "\<forall>n. sound_backend (classes n) (oks n)" and "mImplementation sx = Some (c, i)" "backend_ok oks c i"
    and "map_of (mRegisteredImplementations (sxFactory sx)) ''stub'' = None"
  shows "\<exists>c' i'. changeAPI classes apiName sx = Some (Inr (sx\<lparr>mImplementation := Some (c', i')\<rparr>))
    \<and> (c' = map_option fst (map_of (mRegisteredImplementations (sxFactory sx)) apiName) \<or> c' = None) \<and> backend_ok oks c' i' \<and> v_isStarted (class_of classes c') i' \<and> settings i' = settings i"
  using assms by (rule changeAPI_ok)
section \<open>A library\<close>

text \<open>A library without errors, that has every file: its sources and what each is doing.\<close>

record sim_lib =
  simSources :: "(nat \<times> al_state) list"
  simBuffers :: nat

definition sim_set :: "nat \<Rightarrow> al_state \<Rightarrow> sim_lib \<Rightarrow> sim_lib" where
  "sim_set n s w = w\<lparr>simSources := map (\<lambda>(m, t). (m, if m = n then s else t)) (simSources w)\<rparr>"

fun sim_do :: "al_command \<Rightarrow> sim_lib \<Rightarrow> sim_lib" where
  "sim_do (SourcePlay n) w = sim_set n AL_PLAYING w"
| "sim_do (SourcePause n) w = sim_set n AL_PAUSED w"
| "sim_do (SourceStop n) w = sim_set n AL_STOPPED w"
| "sim_do (DeleteSource n) w = w\<lparr>simSources := filter (\<lambda>(m, _). m \<noteq> n) (simSources w)\<rparr>"
| "sim_do _ w = w"

definition sim_al :: "sim_lib openal" where
  "sim_al = \<lparr>al_do = sim_do, al_error = Pair 0, al_isSource = (\<lambda>n w. n \<in> set (map fst (simSources w))),
     al_sourceState = (\<lambda>n w. case map_of (simSources w) n of Some s \<Rightarrow> s | None \<Rightarrow> AL_INITIAL),
     al_genBuffer = (\<lambda>w. (Suc (simBuffers w), w\<lparr>simBuffers := Suc (simBuffers w)\<rparr>)),
     al_genSource = (\<lambda>w. let n = Suc (sum_list (map fst (simSources w))) in (n, w\<lparr>simSources := (n, AL_INITIAL) # simSources w\<rparr>)),
     al_openDevice = Pair True, al_createContext = Pair True, file_exists = (\<lambda>_ _. Some True),
     load_wav = (\<lambda>_ _. Some \<lparr>wavFormat = 0, wavData = [128], wavFreq = 22050\<rparr>)\<rparr>"

interpretation sim: openal_library sim_al
proof unfold_locales
  show "al_genSource sim_al w = (s, w1) \<Longrightarrow> al_error sim_al w1 = (0, w2) \<Longrightarrow> al_isSource sim_al s w2 \<and> \<not> al_isSource sim_al s w" for s w w1 w2
    using member_le_sum_list [of s "map fst (simSources w)"] by (auto simp: sim_al_def Let_def)
  show "al_isSource sim_al x w \<Longrightarrow> cmd \<notin> {DeleteSource x, AlutExit, DestroyContext, CloseDevice} \<Longrightarrow> al_isSource sim_al x (al_do sim_al cmd w)" for x w cmd
    by (cases cmd) (auto simp: sim_al_def sim_set_def image_iff split: prod.splits)
qed (auto simp: sim_al_def Let_def)

definition sim_sound :: sound_info where
  "sim_sound = sound_info_new\<lparr>soundAlias := ''bell'', filename := ''bell.wav'', ambient := True\<rparr>"

definition sim_classes :: "nat \<Rightarrow> (al_own, sim_lib) sound_class" where
  "sim_classes n = openal_class sim_al"

definition sim_sonix :: "(al_own, sim_lib) sonix" where
  "sim_sonix = \<lparr>mImplementation = None, sxFactory = factory_reg ''OpenAL''
       (Some (0, (stub_new \<lparr>simSources = [], simBuffers = 0\<rparr>)\<lparr>iOwn := Some al_own_new\<rparr>))
       \<lparr>mRegisteredImplementations = [], mPlugins = []\<rparr>,
     sxLib = \<lparr>simSources = [], simBuffers = 0\<rparr>\<rparr>"

definition sim_stub :: "(al_own, sim_lib) sonix" where
  "sim_stub = sim_sonix\<lparr>mImplementation := Some (None, upd_sound ''bell'' (\<lambda>_. sim_sound) (stub_new (sxLib sim_sonix)))\<rparr>"

lemma sim_libraries: "\<forall>n::nat. openal_library sim_al"
  using sim.openal_library_axioms by simp

lemma sim_classes_openal: "sim_classes = (\<lambda>n. openal_class sim_al)"
  by (simp add: sim_classes_def fun_eq_iff)

lemma sim_backends: "\<forall>n. sound_backend (sim_classes n) (al_ok sim_al)"
  using sim.backend.sound_backend_axioms by (simp add: sim_classes_def)

lemma sim_no_stub: "map_of (mRegisteredImplementations (sxFactory sim_sonix)) ''stub'' = None"
  by (simp add: sim_sonix_def factory_reg_def)

section \<open>Witnesses\<close>

theorem sonix_refines_table_witness:
  "\<exists>sx. run_calls sim_classes [Device (OpConfigure ''bell'' sim_sound), ChangeAPI ''OpenAL'', Device (OpTrigger ''bell'' 2),
      ChangeAPI ''Audiere'', Device (OpSetAmbient ''gong'' True), ChangeAPI ''OpenAL'', Device (OpUnpause ''drum'')] sim_sonix = Some (Inr sx)
    \<and> map_sum id fst (sonix_isAmbient sim_classes ''bell'' sx) = Inr True
    \<and> map_sum id fst (sonix_getPosition sim_classes ''bell'' sx) = Inr (0, 0, 0)"
proof -
  let ?calls = "[Device (OpConfigure ''bell'' sim_sound), ChangeAPI ''OpenAL'', Device (OpTrigger ''bell'' 2),
      ChangeAPI ''Audiere'', Device (OpSetAmbient ''gong'' True), ChangeAPI ''OpenAL'', Device (OpUnpause ''drum'')]"
  have ok: "sonix_ok sim_classes (\<lambda>_. al_ok sim_al) sim_sonix"
    using sim_no_stub by (simp add: sonix_ok_def sim_sonix_def)
  have "ambient (asSound (fold app_call ?calls (app_of sim_sonix)) ''bell'')"
    "position (asSound (fold app_call ?calls (app_of sim_sonix)) ''bell'') = (0, 0, 0)"
    by (simp_all add: app_call_def set_sound_def sim_sound_def sound_info_new_def sound_settings_def)
  then show ?thesis
    using sonix_refines_table [OF sim_libraries sim_classes_openal ok refl, of ?calls "''bell''"] by auto
qed

theorem changeAPI_keeps_sounds_witness:
  "\<exists>c i. changeAPI sim_classes ''OpenAL'' sim_stub = Some (Inr (sim_stub\<lparr>mImplementation := Some (c, i)\<rparr>))
    \<and> v_isStarted (class_of sim_classes c) i \<and> filename (sound_of ''bell'' i) = ''bell.wav''"
proof -
  let ?i = "upd_sound ''bell'' (\<lambda>_. sim_sound) (stub_new (sxLib sim_sonix)) :: (al_own, sim_lib) sound_impl"
  have i: "mImplementation sim_stub = Some (None, ?i)" "backend_ok (\<lambda>_. al_ok sim_al) None ?i"
    by (simp_all add: sim_stub_def backend_ok_def stub_new_def)
  have "map_of (mRegisteredImplementations (sxFactory sim_stub)) ''stub'' = None"
    using sim_no_stub by (simp add: sim_stub_def)
  from changeAPI_keeps_sounds [OF sim_backends i this, of "''OpenAL''"]
  obtain c j where j: "changeAPI sim_classes ''OpenAL'' sim_stub = Some (Inr (sim_stub\<lparr>mImplementation := Some (c, j)\<rparr>))"
    "v_isStarted (class_of sim_classes c) j" "settings j = settings ?i" by blast
  have "filename (asSound (app j) ''bell'') = filename (asSound (app ?i) ''bell'')" using app_of_settings [OF j(3)] by simp
  then have "filename (sound_of ''bell'' j) = ''bell.wav''"
    by (simp add: app_def sound_of_upd sim_sound_def sound_settings_def)
  then show ?thesis using j by blast
qed

end
