(* ===== verification/SonixPlaying.thy ===== *)
theory SonixPlaying
  imports SonixFacade
begin

text \<open>
  What becomes of a sound that plays in Sonix's OpenAL implementation when its description or the
  API is changed.  Configuring it again unbinds it, which marks it, and the next binding of a
  marked sound triggers it; but \<^verbatim>\<open>changeAPI\<close> gives the sounds to the new implementation before the
  old one marks them.
\<close>

section \<open>A library that plays\<close>

text \<open>Playing a source puts it into the playing state.\<close>

locale openal_player = openal_library +
  assumes plays: "al_isSource al x w \<Longrightarrow> al_sourceState al x (al_do al (SourcePlay x) w) = AL_PLAYING"
begin

lemma live_play:
  assumes live: "al_live al i" and bound: "al_bound a i = Some b"
  shows "\<exists>i'. al_play al a n i = Inr i' \<and> al_state_of al a i' = Inr (Some AL_PLAYING)"
proof -
  have src: "al_isStarted i" "al_isSource al (source b) (iLib i)"
    using live al_ok_bound(3) [OF _ bound] by (auto simp: al_live_def)
  let ?j = "do_al al (SourceLooping (source b) (n = -1 \<or> n > 1)) (upd_sound a id i)"
  have "al_isSource al (source b) (iLib ?j)" using src(2) by (auto intro: do_keeps)
  then have "al_isSource al (source b) (al_do al (SourcePlay (source b)) (iLib ?j))"
    "al_sourceState al (source b) (al_do al (SourcePlay (source b)) (iLib ?j)) = AL_PLAYING"
    by (auto intro: do_keeps plays)
  then show ?thesis
    using src bound by (cases "al_sourceState al (source b) (iLib i)")
      (auto simp: al_play_def si_isRetriggerable_def sound_lookup_def al_isPlaying_def al_isPaused_def al_state_of_def al_check_def)
qed

end

section \<open>Unbinding marks, binding triggers\<close>

lemma al_stop_own: "al_stop al a i = Inr i' \<Longrightarrow> own i' = own i \<and> has_sound a i'"
  by (auto simp: al_stop_def si_stop_def al_check_def result_simps split: option.splits)

lemma take_error_simps:
  assumes "take_error al i = (e, i')"
  shows "own i' = own i" "marked a i' = marked a i" "al_bound a i' = al_bound a i" "sound_of a i' = sound_of a i"
  using assms by (auto simp: take_error_def split: prod.splits)

lemma unbind_marks:
  assumes "al_isStarted i" "al_isPlaying al a i = Inr True" "al_unbind al a i = Inr i'"
  shows "marked a i'"
proof -
  obtain j where j: "al_stop al a i = Inr j" "has_sound a j" using assms al_stop_own by (fastforce simp: al_unbind_def rbind_Inr_iff)
  have "marked a (upd_sound a (\<lambda>s. s\<lparr>triggerOnNextBind := True\<rparr>) j)" by (simp add: marked_def)
  then show ?thesis
    using assms j by (auto simp: al_unbind_def take_error_simps split: option.splits prod.splits)
qed
text \<open>The library has no errors and the file can be loaded.\<close>

definition al_serves :: "'w openal \<Rightarrow> string \<Rightarrow> bool" where
  "al_serves al f \<longleftrightarrow> (\<forall>w. fst (al_error al w) = 0 \<and> file_exists al f w = Some True \<and> load_wav al f w \<noteq> None)"

lemma own_setPosition: "al_setPosition al a p i = Inr i' \<Longrightarrow> own i' = own i"
  by (auto simp: al_setPosition_def al_check_def si_setPosition_def si_isAmbient_def sound_lookup_def result_simps
      split: option.splits if_splits)

lemma own_setAmbient [simp]: "own (al_setAmbient al a b i) = own i"
  by (simp add: al_setAmbient_def si_setAmbient_def Let_def split: option.split)

lemma no_error:
  assumes "al_serves al f"
  obtains i' where "take_error al i = (0, i')"
  using assms by (cases "al_error al (iLib i)") (auto simp: al_serves_def take_error_def dest: spec [of _ "iLib i"])

lemma attach_binds:
  assumes "al_serves al f" "al_attach al a w i = Inr i'"
  shows "al_bound a i' \<noteq> None"
proof -
  obtain bufferID lib where g: "al_genBuffer al (iLib i) = (bufferID, lib)" by fastforce
  let ?e = "bind_entry a \<lparr>source = 0, buffer = 0, data = wavData w\<rparr> i"
  obtain i1 where i1: "take_error al (?e\<lparr>iLib := lib\<rparr>) = (0, i1)" using no_error [OF assms(1)] .
  obtain i2 where i2: "take_error al (do_al al (BufferData bufferID w) i1) = (0, i2)" using no_error [OF assms(1)] .
  obtain sourceID lib2 where g2: "al_genSource al (iLib i2) = (sourceID, lib2)" by fastforce
  obtain i3 where i3: "take_error al (i2\<lparr>iLib := lib2\<rparr>) = (0, i3)" using no_error [OF assms(1)] .
  obtain y j where j: "al_setPosition al a (position (sound_of a j)) j = Inr i'" "al_bound a j = Some y"
    using assms(2) g i1 i2 g2 i3 by (auto simp: al_attach_def Let_def al_bound_def bind_entry_def omap_put_lookup)
  then show ?thesis using own_setPosition [OF j(1)] by (simp add: al_bound_def)
qed

lemma load_binds:
  assumes "al_serves al (filename (sound_of a i))" "al_isStarted i" "al_bound a i = None" "al_load al a i = Inr (g, i')"
  shows "g" "al_bound a i' \<noteq> None"
proof -
  obtain i1 where i1: "take_error al i = (0, i1)" using no_error [OF assms(1)] .
  obtain w where "load_wav al (filename (sound_of a i)) (iLib i1) = Some w" "file_exists al (filename (sound_of a i)) (iLib i1) = Some True"
    using assms(1) by (auto simp: al_serves_def)
  moreover have "al_isStarted i1" using take_error_simps(1) [OF i1] assms(2) by (simp add: al_isStarted_def)
  ultimately have "rbind (al_attach al a w (upd_sound a id i1)) (\<lambda>i. Inr (True, i)) = Inr (g, i')"
    using assms(3,4) i1 take_error_simps(3,4) [OF i1] by (simp add: al_load_def sound_lookup_def)
  then show "g" "al_bound a i' \<noteq> None" using attach_binds [OF assms(1)] by (auto simp: rbind_Inr_iff)
qed

context openal_library
begin

lemma is_backend: "sound_backend (openal_class al) (al_ok al)"
  by (rule backend.sound_backend_axioms)

end

context openal_player
begin

lemma bind_plays:
  assumes live: "al_live al i" and "al_bound a i = None" "marked a i" and serves: "al_serves al (filename (sound_of a i))"
  shows "\<exists>i'. al_run al Bind a i = Inr i' \<and> al_state_of al a i' = Inr (Some AL_PLAYING)"
proof -
  obtain g j where j: "al_load al a i = Inr (g, j)" "al_live al j"
    using load_ok [of i a] live by (auto simp: al_live_def)
  have st: "al_isStarted i" using live by (simp add: al_live_def)
  obtain b where b: g "al_bound a j = Some b" "triggerOnNextBind (sound_of a j)"
    using load_binds [OF serves st assms(2) j(1)] al_load_marked [OF j(1) assms(2)] assms(3) by (auto simp: marked_def)
  let ?n = "repeat (sound_of a j)"
  let ?j = "upd_sound a (\<lambda>s. s\<lparr>repeat := ?n, repeatCountdown := ?n\<rparr>) (upd_sound a (\<lambda>s. s\<lparr>triggerOnNextBind := False\<rparr>) j)"
  obtain k where k: "al_play al a ?n ?j = Inr k" "al_state_of al a k = Inr (Some AL_PLAYING)"
    using live_play [of ?j a b ?n] j(2) b(2) by auto
  have "al_run al Bind a i = Inr k"
    using j b k(1) by (simp add: al_run.simps al_check_def si_trigger_value al_live_def)
  then show ?thesis using k(2) by blast
qed

lemma configure_plays:
  assumes live: "al_live al i" and playing: "al_isPlaying al a i = Inr True" and serves: "al_serves al (filename d)"
  shows "\<exists>i'. si_configure (openal_class al) a d i = Inr i' \<and> al_state_of al a i' = Inr (Some AL_PLAYING)"
proof -
  obtain j where j: "al_unbind al a i = Inr j" "al_ok al j" "al_isStarted j" "al_bound a j = None"
    using unbind_ok [of i a] live by (auto simp: al_live_def)
  have mark: "triggerOnNextBind (sound_of a j)" using unbind_marks [OF _ playing j(1)] live by (simp add: al_live_def marked_def)
  let ?j = "upd_sound a (\<lambda>temp. d\<lparr>triggerOnNextBind := triggerOnNextBind temp\<rparr>) j"
  have "al_live al ?j" using j by (simp add: al_live_def al_ok_upd_sound)
  from bind_plays [OF this, of a] obtain k where "al_run al Bind a ?j = Inr k" "al_state_of al a k = Inr (Some AL_PLAYING)"
    using j(4) mark serves by (auto simp: marked_def)
  then show ?thesis using j by (auto simp: si_configure_def openal_class_def)
qed

end
text \<open>Changing to an API that is not registered makes a stub of the sounds as they were.\<close>

lemma change_to_stub:
  assumes backend: "sound_backend (class_of classes c) ok" "ok i" and i: "mImplementation sx = Some (c, i)"
    and reg: "map_of (mRegisteredImplementations (sxFactory sx)) apiName = None"
  shows "\<exists>new. changeAPI classes apiName sx = Some (Inr (sx\<lparr>mImplementation := Some (None, new)\<rparr>)) \<and> mSounds new = mSounds i"
proof -
  let ?new = "\<lambda>lib. (si_copy i (stub_new (iLib i)))\<lparr>iLib := lib\<rparr>"
  have "\<exists>lib. replace_impl classes apiName (sxFactory sx) (c, i) = Inr (None, ?new lib)"
    using sound_backend.retire [OF backend, of "\<lambda>old. Inr (None :: class_id, ?new (iLib old))"]
    unfolding replace_impl_def created_stub [OF reg] Let_def prod.case by blast
  then obtain lib where "replace_impl classes apiName (sxFactory sx) (c, i) = Inr (None, ?new lib)" by blast
  then have "change_once classes apiName sx = Inr (True, sx\<lparr>mImplementation := Some (None, ?new lib)\<rparr>)"
    by (simp add: change_once_def sonix_impl_def i class_of_def stub_class_def)
  then have "changeAPI classes apiName sx = Some (Inr (sx\<lparr>mImplementation := Some (None, ?new lib)\<rparr>))"
    by (subst changeAPI.simps) (simp add: bind_current_def class_of_def stub_class_def)
  moreover have "mSounds (?new lib) = mSounds i" by (simp add: si_copy_def)
  ultimately show ?thesis by blast
qed

lemma map_of_marked: "x \<in> set (map fst xs) \<Longrightarrow> map_of (map (\<lambda>(m, t). (m, if m = x then y else t)) xs) x = Some y"
  by (induction xs) auto

interpretation sim_player: openal_player sim_al
proof unfold_locales
  show "al_isSource sim_al x w \<Longrightarrow> al_sourceState sim_al x (al_do sim_al (SourcePlay x) w) = AL_PLAYING" for x w
    using map_of_marked [of x "simSources w" AL_PLAYING] by (simp add: sim_al_def sim_set_def)
qed

section \<open>Properties\<close>

text \<open>
  C31. A sound that plays, or is paused, under OpenAL plays on when it is configured again, if the new file can
  be loaded: unbinding marks it and binding triggers it.  When instead the API is changed, to
  one that is not registered, the unbinding marks the sound too, but in the object that is
  deleted: the new implementation took the sounds over before, with the mark down, so the sound
  is silent and stays silent when OpenAL is chosen again.
\<close>

theorem configure_plays_on_change_forgets:
  assumes al: "openal_player al" and i: "mImplementation sx = Some (Some n, i)" "classes n = openal_class al"
    and ok: "al_ok al i" "al_isStarted i" and playing: "al_isPlaying al a i = Inr True" "\<not> triggerOnNextBind (sound_of a i)"
    and wav: "al_serves al (filename d)" and reg: "map_of (mRegisteredImplementations (sxFactory sx)) apiName = None"
  shows "(\<exists>i'. sonix_configure classes a d sx = Inr ((), sx\<lparr>mImplementation := Some (Some n, i')\<rparr>)
      \<and> al_state_of al a i' = Inr (Some AL_PLAYING))
    \<and> (\<exists>old new. al_unbind al a i = Inr old \<and> triggerOnNextBind (sound_of a old)
      \<and> changeAPI classes apiName sx = Some (Inr (sx\<lparr>mImplementation := Some (None, new)\<rparr>))
      \<and> \<not> triggerOnNextBind (sound_of a new))"
proof -
  have lib: "openal_library al" using al by (simp add: openal_player_def)
  have c: "class_of classes (Some n) = openal_class al" by (simp add: class_of_def i(2))
  obtain i' where "si_configure (openal_class al) a d i = Inr i'" "al_state_of al a i' = Inr (Some AL_PLAYING)"
    using openal_player.configure_plays [OF al _ playing(1) wav] ok by (auto simp: al_live_def)
  then have configured: "sonix_configure classes a d sx = Inr ((), sx\<lparr>mImplementation := Some (Some n, i')\<rparr>)"
      "al_state_of al a i' = Inr (Some AL_PLAYING)"
    by (simp_all add: sonix_configure_def on_impl_def sonix_impl_def i(1) c no_value_def)
  obtain old where old: "al_unbind al a i = Inr old" using openal_library.unbind_ok [OF lib ok(1)] by blast
  obtain new where "changeAPI classes apiName sx = Some (Inr (sx\<lparr>mImplementation := Some (None, new)\<rparr>))" "mSounds new = mSounds i"
    using change_to_stub [where classes = classes and c = "Some n" and ok = "al_ok al" and i = i and sx = sx and apiName = apiName]
      openal_library.is_backend [OF lib] ok(1) i(1) reg c by auto
  then show ?thesis
    using configured old unbind_marks [OF ok(2) playing(1) old] playing(2) by (auto simp: marked_def sound_of_def)
qed
definition sim_ringing :: "sim_lib al_impl" where
  "sim_ringing = (stub_new \<lparr>simSources = [(1, AL_PLAYING)], simBuffers = 1\<rparr>)\<lparr>mSounds := [(''bell'', sim_sound)],
     iOwn := Some \<lparr>mBindLookup = [(''bell'', \<lparr>source = 1, buffer = 1, data = [128]\<rparr>)], mContextId = True, mDev = True\<rparr>\<rparr>"

theorem configure_plays_on_change_forgets_witness:
  "(\<exists>i. sonix_configure sim_classes ''bell'' sim_sound (sim_sonix\<lparr>mImplementation := Some (Some 0, sim_ringing)\<rparr>)
      = Inr ((), sim_sonix\<lparr>mImplementation := Some (Some 0, i)\<rparr>) \<and> al_state_of sim_al ''bell'' i = Inr (Some AL_PLAYING))
    \<and> (\<exists>i. changeAPI sim_classes ''Audiere'' (sim_sonix\<lparr>mImplementation := Some (Some 0, sim_ringing)\<rparr>)
      = Some (Inr (sim_sonix\<lparr>mImplementation := Some (None, i)\<rparr>)) \<and> \<not> triggerOnNextBind (sound_of ''bell'' i))"
proof -
  let ?sx = "sim_sonix\<lparr>mImplementation := Some (Some 0, sim_ringing)\<rparr>"
  have i: "mImplementation ?sx = Some (Some 0, sim_ringing)" "sim_classes 0 = openal_class sim_al" by (simp_all add: sim_classes_def)
  have st: "al_isStarted sim_ringing" and own: "al_bound a sim_ringing = (if a = ''bell'' then Some \<lparr>source = 1, buffer = 1, data = [128]\<rparr> else None)" for a
    by (simp_all add: sim_ringing_def al_isStarted_def al_bound_def own_def)
  have ok: "al_ok sim_al sim_ringing"
    unfolding al_ok_def own by (auto simp: st split: if_splits) (simp_all add: sim_ringing_def omap_wf_def own_def has_sound_def sim_al_def stub_new_def)
  have playing: "al_isPlaying sim_al ''bell'' sim_ringing = Inr True"
    by (simp add: al_isPlaying_def al_state_of_def al_check_def st own) (simp add: sim_al_def sim_ringing_def stub_new_def)
  have quiet: "\<not> triggerOnNextBind (sound_of ''bell'' sim_ringing)"
    by (simp add: sim_ringing_def sound_of_def sim_sound_def sound_info_new_def)
  have serves: "al_serves sim_al (filename sim_sound)" by (simp add: al_serves_def sim_al_def)
  have reg: "map_of (mRegisteredImplementations (sxFactory ?sx)) ''Audiere'' = None"
    by (simp add: sim_sonix_def factory_reg_def)
  have same: "?sx\<lparr>mImplementation := x\<rparr> = sim_sonix\<lparr>mImplementation := x\<rparr>" for x by simp
  show ?thesis
    using configure_plays_on_change_forgets [where al = sim_al and sx = ?sx and n = 0 and i = sim_ringing and classes = sim_classes
        and a = "''bell''" and d = sim_sound and apiName = "''Audiere''"]
      sim_player.openal_player_axioms i ok st playing quiet serves reg unfolding same by blast
qed

end
