(* ===== verification/ThreadPool.thy ===== *)
theory ThreadPool
  imports Prelude "HOL-Library.Multiset"
begin

text \<open>
  The pool of threads (\<^verbatim>\<open>vpr/Thread/ThreadPool.h\<close>, \<^verbatim>\<open>ThreadPool.cpp\<close>) over the POSIX mutex and
  semaphore (\<^verbatim>\<open>vpr/md/POSIX/Sync\<close>).

  Each thread of the pool, the thread that constructs it and any number of clients are program
  counters; a step is one operation on a mutex or a semaphore, or one access to what they guard,
  and the steps of all threads interleave (\<open>pool_step\<close>).  The list of ready threads is linked
  through the threads' \<open>next\<close> pointers.  A job returns and does not use the pool itself.  The
  destructor, the listing on the standard error stream and failures of the operating system are
  left out.

  A mutex that checks errors (debug builds on Linux) may only be released by its owner; other
  mutexes are taken as Linux implements them, which is that anyone may release them.

  Four invariants hold in every state: who owns the two locks (\<open>locks_ok\<close>), that a thread is in
  one place (\<open>list_ok\<close>), what the count and \<open>mFinishedLock\<close> say (\<open>count_ok\<close>), and where the jobs are
  (\<open>jobs_ok\<close>).  With the measure \<open>pool_work\<close> they show that the pool finishes its jobs.
\<close>

section \<open>Mutexes and semaphores\<close>

datatype tid = Creator | Worker nat | Client nat

type_synonym mutex = "tid option"

text \<open>\<open>None\<close> is a thread that has to wait; \<^verbatim>\<open>DeadlockException\<close> and \<^verbatim>\<open>LockException\<close> are both \<open>LockError\<close>.\<close>

definition mutex_acquire :: "bool \<Rightarrow> tid \<Rightarrow> mutex \<Rightarrow> mutex result option" where
  "mutex_acquire checks t m =
     (case m of
        None \<Rightarrow> Some (Inr (Some t))
      | Some owner \<Rightarrow> if checks \<and> owner = t then Some (Inl (LockError ''Tried to lock mutex twice in the same thread'')) else None)"

definition mutex_tryAcquire :: "tid \<Rightarrow> mutex \<Rightarrow> bool \<times> mutex" where
  "mutex_tryAcquire t m = (case m of None \<Rightarrow> (True, Some t) | Some _ \<Rightarrow> (False, m))"

definition mutex_release :: "bool \<Rightarrow> tid \<Rightarrow> mutex \<Rightarrow> mutex result" where
  "mutex_release checks t m =
     (if checks \<and> m \<noteq> Some t then Inl (LockError ''Tried to release a mutex that this thread does not own'') else Inr None)"

definition sema_acquire :: "nat \<Rightarrow> nat option" where
  "sema_acquire n = (if n = 0 then None else Some (n - 1))"

section \<open>The pool\<close>

datatype worker_pc =
    WStart | WStarted
  | WSleep | WPush | WPushed | WReady | WWait
  | WEnter | WTest | WFinish | WInc | WLeave | WRun | WExit | WDec | WFinished | WOut

record 'j one_thread =
  next_thread :: "nat option"
  functor_of :: "'j option"
  threadWait :: nat
  wPc :: worker_pc

datatype 'j client_pc =
    CIdle
  | CReady 'j | CList 'j | CTake 'j | CTaken 'j nat | CAssign 'j nat | CWake 'j nat
  | CWait | CWaited

datatype creator_pc = AddAcquire nat | AddCreate nat | AddRelease nat | Constructed

text \<open>\<open>started\<close> and \<open>executed\<close> record what the clients asked for and what was run.\<close>

record 'j pool =
  mReadyThreads :: nat
  mListLock :: mutex
  mWorkingCountLock :: mutex
  mFinishedLock :: mutex
  mListHead :: "nat option"
  mWorkingCount :: int
  oneThreads :: "'j one_thread list"
  creator :: creator_pc
  clients :: "'j client_pc list"
  started :: "'j list"
  executed :: "'j list"

definition one_thread_new :: "'j one_thread" where
  "one_thread_new = \<lparr>next_thread = None, functor_of = None, threadWait = 0, wPc = WStart\<rparr>"

definition add_next :: "nat \<Rightarrow> creator_pc" where
  "add_next k = (if k = 0 then Constructed else AddAcquire k)"

text \<open>The constructor up to the loop that adds the threads.\<close>

definition pool_new :: "bool \<Rightarrow> nat \<Rightarrow> nat \<Rightarrow> 'j pool result" where
  "pool_new checks numToStartWith numClients =
     rbind (mutex_release checks Creator None) (\<lambda>listLock.
     rbind (mutex_release checks Creator None) (\<lambda>finishedLock.
     Inr \<lparr>mReadyThreads = 0, mListLock = listLock, mWorkingCountLock = None, mFinishedLock = finishedLock,
       mListHead = None, mWorkingCount = 0, oneThreads = [], creator = add_next numToStartWith,
       clients = replicate numClients CIdle, started = [], executed = []\<rparr>))"

definition upd_thread :: "nat \<Rightarrow> ('j one_thread \<Rightarrow> 'j one_thread) \<Rightarrow> 'j pool \<Rightarrow> 'j pool" where
  "upd_thread i f s = s\<lparr>oneThreads := (oneThreads s)[i := f (oneThreads s ! i)]\<rparr>"

definition w_goto :: "nat \<Rightarrow> worker_pc \<Rightarrow> 'j pool \<Rightarrow> 'j pool" where
  "w_goto i pc = upd_thread i (\<lambda>t. t\<lparr>wPc := pc\<rparr>)"

definition c_goto :: "nat \<Rightarrow> 'j client_pc \<Rightarrow> 'j pool \<Rightarrow> 'j pool" where
  "c_goto c pc s = s\<lparr>clients := (clients s)[c := pc]\<rparr>"

definition then_goto :: "('j pool \<Rightarrow> 'j pool) \<Rightarrow> 'j pool result option \<Rightarrow> 'j pool result option" where
  "then_goto f r = map_option (map_sum id f) r"

definition acquire_list :: "bool \<Rightarrow> tid \<Rightarrow> 'j pool \<Rightarrow> 'j pool result option" where
  "acquire_list checks t s = map_option (map_sum id (\<lambda>m. s\<lparr>mListLock := m\<rparr>)) (mutex_acquire checks t (mListLock s))"

definition release_list :: "bool \<Rightarrow> tid \<Rightarrow> 'j pool \<Rightarrow> 'j pool result option" where
  "release_list checks t s = Some (map_sum id (\<lambda>m. s\<lparr>mListLock := m\<rparr>) (mutex_release checks t (mListLock s)))"

definition acquire_count :: "bool \<Rightarrow> tid \<Rightarrow> 'j pool \<Rightarrow> 'j pool result option" where
  "acquire_count checks t s = map_option (map_sum id (\<lambda>m. s\<lparr>mWorkingCountLock := m\<rparr>)) (mutex_acquire checks t (mWorkingCountLock s))"

definition release_count :: "bool \<Rightarrow> tid \<Rightarrow> 'j pool \<Rightarrow> 'j pool result option" where
  "release_count checks t s = Some (map_sum id (\<lambda>m. s\<lparr>mWorkingCountLock := m\<rparr>) (mutex_release checks t (mWorkingCountLock s)))"

definition acquire_finished :: "bool \<Rightarrow> tid \<Rightarrow> 'j pool \<Rightarrow> 'j pool result option" where
  "acquire_finished checks t s = map_option (map_sum id (\<lambda>m. s\<lparr>mFinishedLock := m\<rparr>)) (mutex_acquire checks t (mFinishedLock s))"

definition release_finished :: "bool \<Rightarrow> tid \<Rightarrow> 'j pool \<Rightarrow> 'j pool result option" where
  "release_finished checks t s = Some (map_sum id (\<lambda>m. s\<lparr>mFinishedLock := m\<rparr>) (mutex_release checks t (mFinishedLock s)))"

text \<open>\<^verbatim>\<open>threadSleep\<close>, from \<open>WSleep\<close> to \<open>WWait\<close>.\<close>

definition threadSleep_step :: "bool \<Rightarrow> nat \<Rightarrow> 'j pool \<Rightarrow> 'j pool result option" where
  "threadSleep_step checks i s =
     (let me = Worker i; theThread = oneThreads s ! i in
      case wPc theThread of
        WSleep \<Rightarrow> then_goto (w_goto i WPush) (acquire_list checks me s)
      | WPush \<Rightarrow> Some (Inr (w_goto i WPushed ((upd_thread i (\<lambda>t. t\<lparr>next_thread := mListHead s\<rparr>) s)\<lparr>mListHead := Some i\<rparr>)))
      | WPushed \<Rightarrow> then_goto (w_goto i WReady) (release_list checks me s)
      | WReady \<Rightarrow> Some (Inr (w_goto i WWait (s\<lparr>mReadyThreads := mReadyThreads s + 1\<rparr>)))
      | WWait \<Rightarrow> map_option (\<lambda>n. Inr (w_goto i WEnter (upd_thread i (\<lambda>t. t\<lparr>threadWait := n\<rparr>) s))) (sema_acquire (threadWait theThread))
      | _ \<Rightarrow> None)"

text \<open>\<^verbatim>\<open>threadLoop\<close>.\<close>

definition worker_step :: "bool \<Rightarrow> nat \<Rightarrow> 'j pool \<Rightarrow> 'j pool result option" where
  "worker_step checks i s =
     (let me = Worker i; myThread = oneThreads s ! i in
      case wPc myThread of
        WStart \<Rightarrow> then_goto (w_goto i WStarted) (acquire_list checks me s)
      | WStarted \<Rightarrow> then_goto (w_goto i WSleep) (release_list checks me s)
      | WEnter \<Rightarrow> then_goto (w_goto i WTest) (acquire_count checks me s)
      | WTest \<Rightarrow> Some (Inr (w_goto i (if mWorkingCount s = 0 then WFinish else WInc) s))
      | WFinish \<Rightarrow> then_goto (w_goto i WInc) (acquire_finished checks me s)
      | WInc \<Rightarrow> Some (Inr (w_goto i WLeave (s\<lparr>mWorkingCount := mWorkingCount s + 1\<rparr>)))
      | WLeave \<Rightarrow> then_goto (w_goto i WRun) (release_count checks me s)
      | WRun \<Rightarrow> (case functor_of myThread of
          Some job \<Rightarrow> Some (Inr (w_goto i WExit (s\<lparr>executed := executed s @ [job]\<rparr>)))
        | None \<Rightarrow> Some (Inl (Undefined ''call of an empty function'')))
      | WExit \<Rightarrow> then_goto (w_goto i WDec) (acquire_count checks me s)
      | WDec \<Rightarrow> (let s = s\<lparr>mWorkingCount := mWorkingCount s - 1\<rparr>
          in Some (Inr (w_goto i (if mWorkingCount s = 0 then WFinished else WOut) s)))
      | WFinished \<Rightarrow> then_goto (w_goto i WOut) (release_finished checks me s)
      | WOut \<Rightarrow> then_goto (w_goto i WSleep) (release_count checks me s)
      | _ \<Rightarrow> threadSleep_step checks i s)"

text \<open>\<^verbatim>\<open>getThread\<close>, from \<open>CReady\<close> to \<open>CTaken\<close>.\<close>

definition getThread_step :: "bool \<Rightarrow> nat \<Rightarrow> 'j pool \<Rightarrow> 'j pool result option" where
  "getThread_step checks c s =
     (let me = Client c in
      case clients s ! c of
        CReady func \<Rightarrow> map_option (\<lambda>n. Inr (c_goto c (CList func) (s\<lparr>mReadyThreads := n\<rparr>))) (sema_acquire (mReadyThreads s))
      | CList func \<Rightarrow> then_goto (c_goto c (CTake func)) (acquire_list checks me s)
      | CTake func \<Rightarrow> (case mListHead s of
          Some t \<Rightarrow> Some (Inr (c_goto c (CTaken func t) (s\<lparr>mListHead := next_thread (oneThreads s ! t)\<rparr>)))
        | None \<Rightarrow> Some (Inl (Undefined ''null thread'')))
      | CTaken func t \<Rightarrow> then_goto (c_goto c (CAssign func t)) (release_list checks me s)
      | _ \<Rightarrow> None)"

text \<open>\<^verbatim>\<open>startFunc\<close>, from \<open>CReady\<close> to \<open>CWake\<close>, and \<^verbatim>\<open>wait\<close>.\<close>

definition client_step :: "bool \<Rightarrow> nat \<Rightarrow> 'j pool \<Rightarrow> 'j pool result option" where
  "client_step checks c s =
     (let me = Client c in
      case clients s ! c of
        CIdle \<Rightarrow> None
      | CAssign func t \<Rightarrow> Some (Inr (c_goto c (CWake func t) (upd_thread t (\<lambda>x. x\<lparr>functor_of := Some func\<rparr>) s)))
      | CWake func t \<Rightarrow> Some (Inr (c_goto c CIdle (upd_thread t (\<lambda>x. x\<lparr>threadWait := threadWait x + 1\<rparr>) s)))
      | CWait \<Rightarrow> then_goto (c_goto c CWaited) (acquire_finished checks me s)
      | CWaited \<Rightarrow> then_goto (c_goto c CIdle) (release_finished checks me s)
      | _ \<Rightarrow> getThread_step checks c s)"

text \<open>\<^verbatim>\<open>addThread\<close>, as often as the constructor calls it.\<close>

definition creator_step :: "bool \<Rightarrow> 'j pool \<Rightarrow> 'j pool result option" where
  "creator_step checks s =
     (case creator s of
        AddAcquire k \<Rightarrow> then_goto (\<lambda>s. s\<lparr>creator := AddCreate k\<rparr>) (acquire_list checks Creator s)
      | AddCreate k \<Rightarrow> Some (Inr (s\<lparr>oneThreads := oneThreads s @ [one_thread_new], creator := AddRelease k\<rparr>))
      | AddRelease k \<Rightarrow> then_goto (\<lambda>s. s\<lparr>creator := add_next (k - 1)\<rparr>) (release_list checks Creator s)
      | Constructed \<Rightarrow> None)"

text \<open>The threads' own steps, and the calls of the clients.\<close>

inductive pool_thread :: "bool \<Rightarrow> 'j pool \<Rightarrow> 'j pool result \<Rightarrow> bool" for checks where
  by_worker: "i < length (oneThreads s) \<Longrightarrow> worker_step checks i s = Some r \<Longrightarrow> pool_thread checks s r"
| by_client: "c < length (clients s) \<Longrightarrow> client_step checks c s = Some r \<Longrightarrow> pool_thread checks s r"
| by_creator: "creator_step checks s = Some r \<Longrightarrow> pool_thread checks s r"

definition startFunc :: "nat \<Rightarrow> 'j \<Rightarrow> 'j pool \<Rightarrow> 'j pool" where
  "startFunc c func s = c_goto c (CReady func) (s\<lparr>started := started s @ [func]\<rparr>)"

definition wait_call :: "nat \<Rightarrow> 'j pool \<Rightarrow> 'j pool" where
  "wait_call c s = c_goto c CWait s"

inductive pool_step :: "bool \<Rightarrow> 'j pool \<Rightarrow> 'j pool \<Rightarrow> bool" for checks where
  pool_runs: "pool_thread checks s (Inr s') \<Longrightarrow> pool_step checks s s'"
| pool_startFunc: "creator s = Constructed \<Longrightarrow> c < length (clients s) \<Longrightarrow> clients s ! c = CIdle
    \<Longrightarrow> pool_step checks s (startFunc c func s)"
| pool_wait: "creator s = Constructed \<Longrightarrow> c < length (clients s) \<Longrightarrow> clients s ! c = CIdle
    \<Longrightarrow> pool_step checks s (wait_call c s)"

text \<open>A schedule: the threads in the order in which they go on.\<close>

definition thread_step :: "bool \<Rightarrow> tid \<Rightarrow> 'j pool \<Rightarrow> 'j pool result option" where
  "thread_step checks t s =
     (case t of
        Creator \<Rightarrow> creator_step checks s
      | Worker i \<Rightarrow> if i < length (oneThreads s) then worker_step checks i s else None
      | Client c \<Rightarrow> if c < length (clients s) then client_step checks c s else None)"

fun pool_sched :: "tid list \<Rightarrow> 'j pool \<Rightarrow> 'j pool option" where
  "pool_sched [] s = Some s"
| "pool_sched (t # ts) s = (case thread_step False t s of Some (Inr s') \<Rightarrow> pool_sched ts s' | _ \<Rightarrow> None)"

section \<open>Steps\<close>

text \<open>From here on the mutexes do not check their owner.\<close>

lemma mutex_simps [simp]:
  "acquire_list False t s = (if mListLock s = None then Some (Inr (s\<lparr>mListLock := Some t\<rparr>)) else None)"
  "acquire_count False t s = (if mWorkingCountLock s = None then Some (Inr (s\<lparr>mWorkingCountLock := Some t\<rparr>)) else None)"
  "acquire_finished False t s = (if mFinishedLock s = None then Some (Inr (s\<lparr>mFinishedLock := Some t\<rparr>)) else None)"
  "release_list False t s = Some (Inr (s\<lparr>mListLock := None\<rparr>))"
  "release_count False t s = Some (Inr (s\<lparr>mWorkingCountLock := None\<rparr>))"
  "release_finished False t s = Some (Inr (s\<lparr>mFinishedLock := None\<rparr>))"
  "then_goto f None = None" "then_goto f (Some (Inr s)) = Some (Inr (f s))"
  by (simp_all add: acquire_list_def acquire_count_def acquire_finished_def release_list_def release_count_def
      release_finished_def mutex_acquire_def mutex_release_def then_goto_def split: option.split)

lemma then_goto_if [simp]: "then_goto f (if b then x else y) = (if b then then_goto f x else then_goto f y)"
  by simp

lemma sema_acquire_Some [simp]: "sema_acquire n = Some m \<longleftrightarrow> n = Suc m"
  by (auto simp: sema_acquire_def)

lemma pool_upd [simp]:
  "oneThreads (upd_thread i f s) = (oneThreads s)[i := f (oneThreads s ! i)]"
  "mReadyThreads (upd_thread i f s) = mReadyThreads s" "mListLock (upd_thread i f s) = mListLock s"
  "mWorkingCountLock (upd_thread i f s) = mWorkingCountLock s" "mFinishedLock (upd_thread i f s) = mFinishedLock s"
  "mListHead (upd_thread i f s) = mListHead s" "mWorkingCount (upd_thread i f s) = mWorkingCount s"
  "creator (upd_thread i f s) = creator s" "clients (upd_thread i f s) = clients s"
  "started (upd_thread i f s) = started s" "executed (upd_thread i f s) = executed s"
  by (simp_all add: upd_thread_def)

lemma c_goto_fields [simp]:
  "oneThreads (c_goto c pc s) = oneThreads s" "clients (c_goto c pc s) = (clients s)[c := pc]"
  "mReadyThreads (c_goto c pc s) = mReadyThreads s" "mListLock (c_goto c pc s) = mListLock s"
  "mWorkingCountLock (c_goto c pc s) = mWorkingCountLock s" "mFinishedLock (c_goto c pc s) = mFinishedLock s"
  "mListHead (c_goto c pc s) = mListHead s" "mWorkingCount (c_goto c pc s) = mWorkingCount s"
  "creator (c_goto c pc s) = creator s" "started (c_goto c pc s) = started s" "executed (c_goto c pc s) = executed s"
  by (simp_all add: c_goto_def)

text \<open>The ways through a worker's, a client's and the creator's step.\<close>

abbreviation pc_of :: "'j pool \<Rightarrow> nat \<Rightarrow> worker_pc" where
  "pc_of s i \<equiv> wPc (oneThreads s ! i)"

inductive w_step :: "nat \<Rightarrow> 'j pool \<Rightarrow> 'j pool \<Rightarrow> bool" for i s where
  w_start: "pc_of s i = WStart \<Longrightarrow> mListLock s = None \<Longrightarrow> w_step i s (w_goto i WStarted (s\<lparr>mListLock := Some (Worker i)\<rparr>))"
| w_started: "pc_of s i = WStarted \<Longrightarrow> w_step i s (w_goto i WSleep (s\<lparr>mListLock := None\<rparr>))"
| w_sleep: "pc_of s i = WSleep \<Longrightarrow> mListLock s = None \<Longrightarrow> w_step i s (w_goto i WPush (s\<lparr>mListLock := Some (Worker i)\<rparr>))"
| w_push: "pc_of s i = WPush \<Longrightarrow>
    w_step i s (w_goto i WPushed ((upd_thread i (\<lambda>t. t\<lparr>next_thread := mListHead s\<rparr>) s)\<lparr>mListHead := Some i\<rparr>))"
| w_pushed: "pc_of s i = WPushed \<Longrightarrow> w_step i s (w_goto i WReady (s\<lparr>mListLock := None\<rparr>))"
| w_ready: "pc_of s i = WReady \<Longrightarrow> w_step i s (w_goto i WWait (s\<lparr>mReadyThreads := Suc (mReadyThreads s)\<rparr>))"
| w_wait: "pc_of s i = WWait \<Longrightarrow> threadWait (oneThreads s ! i) = Suc n \<Longrightarrow>
    w_step i s (w_goto i WEnter (upd_thread i (\<lambda>t. t\<lparr>threadWait := n\<rparr>) s))"
| w_enter: "pc_of s i = WEnter \<Longrightarrow> mWorkingCountLock s = None \<Longrightarrow>
    w_step i s (w_goto i WTest (s\<lparr>mWorkingCountLock := Some (Worker i)\<rparr>))"
| w_test_first: "pc_of s i = WTest \<Longrightarrow> mWorkingCount s = 0 \<Longrightarrow> w_step i s (w_goto i WFinish s)"
| w_test: "pc_of s i = WTest \<Longrightarrow> mWorkingCount s \<noteq> 0 \<Longrightarrow> w_step i s (w_goto i WInc s)"
| w_finish: "pc_of s i = WFinish \<Longrightarrow> mFinishedLock s = None \<Longrightarrow> w_step i s (w_goto i WInc (s\<lparr>mFinishedLock := Some (Worker i)\<rparr>))"
| w_inc: "pc_of s i = WInc \<Longrightarrow> w_step i s (w_goto i WLeave (s\<lparr>mWorkingCount := mWorkingCount s + 1\<rparr>))"
| w_leave: "pc_of s i = WLeave \<Longrightarrow> w_step i s (w_goto i WRun (s\<lparr>mWorkingCountLock := None\<rparr>))"
| w_run: "pc_of s i = WRun \<Longrightarrow> functor_of (oneThreads s ! i) = Some job \<Longrightarrow> w_step i s (w_goto i WExit (s\<lparr>executed := executed s @ [job]\<rparr>))"
| w_exit: "pc_of s i = WExit \<Longrightarrow> mWorkingCountLock s = None \<Longrightarrow>
    w_step i s (w_goto i WDec (s\<lparr>mWorkingCountLock := Some (Worker i)\<rparr>))"
| w_dec_last: "pc_of s i = WDec \<Longrightarrow> mWorkingCount s = 1 \<Longrightarrow> w_step i s (w_goto i WFinished (s\<lparr>mWorkingCount := 0\<rparr>))"
| w_dec: "pc_of s i = WDec \<Longrightarrow> mWorkingCount s \<noteq> 1 \<Longrightarrow> w_step i s (w_goto i WOut (s\<lparr>mWorkingCount := mWorkingCount s - 1\<rparr>))"
| w_finished: "pc_of s i = WFinished \<Longrightarrow> w_step i s (w_goto i WOut (s\<lparr>mFinishedLock := None\<rparr>))"
| w_out: "pc_of s i = WOut \<Longrightarrow> w_step i s (w_goto i WSleep (s\<lparr>mWorkingCountLock := None\<rparr>))"

lemma worker_steps: "worker_step False i s = Some (Inr s') \<Longrightarrow> w_step i s s'"
  by (cases "pc_of s i") (auto simp: worker_step_def threadSleep_step_def Let_def intro: w_step.intros split: if_splits option.splits)

inductive c_step :: "nat \<Rightarrow> 'j pool \<Rightarrow> 'j pool \<Rightarrow> bool" for c s where
  c_ready: "clients s ! c = CReady j \<Longrightarrow> mReadyThreads s = Suc n \<Longrightarrow> c_step c s (c_goto c (CList j) (s\<lparr>mReadyThreads := n\<rparr>))"
| c_list: "clients s ! c = CList j \<Longrightarrow> mListLock s = None \<Longrightarrow> c_step c s (c_goto c (CTake j) (s\<lparr>mListLock := Some (Client c)\<rparr>))"
| c_take: "clients s ! c = CTake j \<Longrightarrow> mListHead s = Some t \<Longrightarrow>
    c_step c s (c_goto c (CTaken j t) (s\<lparr>mListHead := next_thread (oneThreads s ! t)\<rparr>))"
| c_taken: "clients s ! c = CTaken j t \<Longrightarrow> c_step c s (c_goto c (CAssign j t) (s\<lparr>mListLock := None\<rparr>))"
| c_assign: "clients s ! c = CAssign j t \<Longrightarrow> c_step c s (c_goto c (CWake j t) (upd_thread t (\<lambda>x. x\<lparr>functor_of := Some j\<rparr>) s))"
| c_wake: "clients s ! c = CWake j t \<Longrightarrow> c_step c s (c_goto c CIdle (upd_thread t (\<lambda>x. x\<lparr>threadWait := Suc (threadWait x)\<rparr>) s))"
| c_wait: "clients s ! c = CWait \<Longrightarrow> mFinishedLock s = None \<Longrightarrow> c_step c s (c_goto c CWaited (s\<lparr>mFinishedLock := Some (Client c)\<rparr>))"
| c_waited: "clients s ! c = CWaited \<Longrightarrow> c_step c s (c_goto c CIdle (s\<lparr>mFinishedLock := None\<rparr>))"

lemma client_steps: "client_step False c s = Some (Inr s') \<Longrightarrow> c_step c s s'"
  by (cases "clients s ! c") (auto simp: client_step_def getThread_step_def Let_def intro: c_step.intros split: if_splits option.splits)

inductive a_step :: "'j pool \<Rightarrow> 'j pool \<Rightarrow> bool" for s where
  a_acquire: "creator s = AddAcquire k \<Longrightarrow> mListLock s = None \<Longrightarrow> a_step s (s\<lparr>mListLock := Some Creator, creator := AddCreate k\<rparr>)"
| a_create: "creator s = AddCreate k \<Longrightarrow> a_step s (s\<lparr>oneThreads := oneThreads s @ [one_thread_new], creator := AddRelease k\<rparr>)"
| a_release: "creator s = AddRelease k \<Longrightarrow> a_step s (s\<lparr>mListLock := None, creator := add_next (k - Suc 0)\<rparr>)"

lemma creator_steps: "creator_step False s = Some (Inr s') \<Longrightarrow> a_step s s'"
  by (cases "creator s") (auto simp: creator_step_def intro: a_step.intros split: if_splits)

lemma w_goto_fields [simp]:
  "oneThreads (w_goto i pc s) = (oneThreads s)[i := (oneThreads s ! i)\<lparr>wPc := pc\<rparr>]"
  "mReadyThreads (w_goto i pc s) = mReadyThreads s" "mListLock (w_goto i pc s) = mListLock s"
  "mWorkingCountLock (w_goto i pc s) = mWorkingCountLock s" "mFinishedLock (w_goto i pc s) = mFinishedLock s"
  "mListHead (w_goto i pc s) = mListHead s" "mWorkingCount (w_goto i pc s) = mWorkingCount s"
  "creator (w_goto i pc s) = creator s" "clients (w_goto i pc s) = clients s"
  "started (w_goto i pc s) = started s" "executed (w_goto i pc s) = executed s"
  by (simp_all add: w_goto_def)

section \<open>Who holds which lock\<close>

fun list_cs :: "'j pool \<Rightarrow> tid \<Rightarrow> bool" where
  "list_cs s Creator \<longleftrightarrow> (case creator s of AddCreate _ \<Rightarrow> True | AddRelease _ \<Rightarrow> True | _ \<Rightarrow> False)"
| "list_cs s (Worker i) \<longleftrightarrow> i < length (oneThreads s) \<and> wPc (oneThreads s ! i) \<in> {WStarted, WPush, WPushed}"
| "list_cs s (Client c) \<longleftrightarrow> c < length (clients s) \<and> (case clients s ! c of CTake _ \<Rightarrow> True | CTaken _ _ \<Rightarrow> True | _ \<Rightarrow> False)"

fun count_cs :: "'j pool \<Rightarrow> tid \<Rightarrow> bool" where
  "count_cs s (Worker i) \<longleftrightarrow> i < length (oneThreads s)
     \<and> wPc (oneThreads s ! i) \<in> {WTest, WFinish, WInc, WLeave, WDec, WFinished, WOut}"
| "count_cs s _ \<longleftrightarrow> False"

definition owns :: "(tid \<Rightarrow> bool) \<Rightarrow> mutex \<Rightarrow> bool" where
  "owns cs m \<longleftrightarrow> (\<forall>t. cs t \<longleftrightarrow> m = Some t)"

definition locks_ok :: "'j pool \<Rightarrow> bool" where
  "locks_ok s \<longleftrightarrow> owns (list_cs s) (mListLock s) \<and> owns (count_cs s) (mWorkingCountLock s)"

text \<open>A thread's step takes a lock into its section, gives it up there, or does neither.\<close>

lemma owns_same: "owns cs m \<Longrightarrow> cs me = b \<Longrightarrow> owns (cs(me := b)) m"
  by (auto simp: owns_def)

lemma owns_take: "owns cs None \<Longrightarrow> owns (cs(me := True)) (Some me)"
  by (auto simp: owns_def)

lemma owns_give: "owns cs m \<Longrightarrow> cs me \<Longrightarrow> owns (cs(me := False)) None"
  by (auto simp: owns_def)

lemma cs_worker:
  assumes "i < length (oneThreads s)" "oneThreads s' = (oneThreads s)[i := x]" "creator s' = creator s" "clients s' = clients s"
  shows "list_cs s' = (list_cs s)(Worker i := wPc x \<in> {WStarted, WPush, WPushed})"
    "count_cs s' = (count_cs s)(Worker i := wPc x \<in> {WTest, WFinish, WInc, WLeave, WDec, WFinished, WOut})"
proof -
  have "list_cs s' t = ((list_cs s)(Worker i := wPc x \<in> {WStarted, WPush, WPushed})) t" for t
    using assms by (cases t) (auto simp: nth_list_update)
  then show "list_cs s' = (list_cs s)(Worker i := wPc x \<in> {WStarted, WPush, WPushed})" by blast
  have "count_cs s' t = ((count_cs s)(Worker i := wPc x \<in> {WTest, WFinish, WInc, WLeave, WDec, WFinished, WOut})) t" for t
    using assms by (cases t) (auto simp: nth_list_update)
  then show "count_cs s' = (count_cs s)(Worker i := wPc x \<in> {WTest, WFinish, WInc, WLeave, WDec, WFinished, WOut})" by blast
qed

lemma cs_client:
  assumes "c < length (clients s)" "clients s' = (clients s)[c := pc]" "creator s' = creator s"
    "length (oneThreads s') = length (oneThreads s)" "\<And>i. wPc (oneThreads s' ! i) = wPc (oneThreads s ! i)"
  shows "list_cs s' = (list_cs s)(Client c := case pc of CTake _ \<Rightarrow> True | CTaken _ _ \<Rightarrow> True | _ \<Rightarrow> False)" "count_cs s' = count_cs s"
proof -
  have "list_cs s' t = ((list_cs s)(Client c := case pc of CTake _ \<Rightarrow> True | CTaken _ _ \<Rightarrow> True | _ \<Rightarrow> False)) t" for t
    using assms by (cases t) (auto simp: nth_list_update)
  then show "list_cs s' = (list_cs s)(Client c := case pc of CTake _ \<Rightarrow> True | CTaken _ _ \<Rightarrow> True | _ \<Rightarrow> False)" by blast
  have "count_cs s' t = count_cs s t" for t using assms by (cases t) auto
  then show "count_cs s' = count_cs s" by blast
qed

lemma locks_worker:
  assumes "locks_ok s" "i < length (oneThreads s)" "w_step i s s'"
  shows "locks_ok s'"
  using assms(3)
proof cases
qed (use assms(1,2) in \<open>simp_all add: locks_ok_def cs_worker [where i = i and s = s] owns_same owns_take owns_give [where m = "mListLock s"]
      owns_give [where m = "mWorkingCountLock s"]\<close>)

lemma pc_upd_same: "wPc y = wPc (ts ! t) \<Longrightarrow> wPc (ts[t := y] ! i) = wPc (ts ! i)"
  by (cases "t < length ts") (auto simp: nth_list_update not_less list_update_beyond)

lemma locks_client:
  assumes "locks_ok s" "c < length (clients s)" "c_step c s s'"
  shows "locks_ok s'"
  using assms(3)
proof cases
qed (use assms(1,2) in \<open>simp_all add: locks_ok_def cs_client [where c = c and s = s] pc_upd_same owns_same owns_take owns_give [where m = "mListLock s"]
      owns_give [where m = "mWorkingCountLock s"]\<close>)

lemma locks_creator:
  assumes "locks_ok s" "a_step s s'"
  shows "locks_ok s'"
proof -
  have l: "list_cs s' = (list_cs s)(Creator := case creator s' of AddCreate _ \<Rightarrow> True | AddRelease _ \<Rightarrow> True | _ \<Rightarrow> False)"
  proof
    show "list_cs s' t = ((list_cs s)(Creator := case creator s' of AddCreate _ \<Rightarrow> True | AddRelease _ \<Rightarrow> True | _ \<Rightarrow> False)) t" for t
      using assms(2) by cases (cases t; auto simp: nth_append one_thread_new_def)+
  qed
  have c: "count_cs s' = count_cs s"
  proof
    show "count_cs s' t = count_cs s t" for t
      using assms(2) by cases (cases t; auto simp: nth_append one_thread_new_def)+
  qed
  show ?thesis
    using assms(2)
  proof cases
  qed (use assms(1) l c in \<open>simp_all add: locks_ok_def add_next_def owns_same owns_take owns_give [where m = "mListLock s"]\<close>)
qed

section \<open>Where a thread is\<close>

text \<open>
  Each thread of the pool is in one place: on the list, with the client that took it off, woken
  by its semaphore, or running.
\<close>

definition tally :: "('a \<Rightarrow> bool) \<Rightarrow> 'a list \<Rightarrow> nat" where
  "tally P xs = length (filter P xs)"

lemma tally_upd: "i < length xs \<Longrightarrow> tally P (xs[i := y]) + (if P (xs ! i) then 1 else 0) = tally P xs + (if P y then 1 else 0)"
proof (induction xs arbitrary: i)
  case (Cons x xs)
  show ?case
  proof (cases i)
    case (Suc k)
    then show ?thesis using Cons.IH [of k] Cons.prems by (simp add: tally_def)
  qed (simp add: tally_def)
qed simp

lemma tally_upd_same: "P y = P (xs ! i) \<Longrightarrow> tally P (xs[i := y]) = tally P xs"
  using tally_upd [of i xs P y] by (cases "i < length xs") (auto simp: not_less list_update_beyond)

lemma tally_upd_more: "i < length xs \<Longrightarrow> \<not> P (xs ! i) \<Longrightarrow> P y \<Longrightarrow> tally P (xs[i := y]) = Suc (tally P xs)"
  using tally_upd [of i xs P y] by simp

lemma tally_upd_less: "i < length xs \<Longrightarrow> P (xs ! i) \<Longrightarrow> \<not> P y \<Longrightarrow> Suc (tally P (xs[i := y])) = tally P xs"
  using tally_upd [of i xs P y] by simp

lemma tally_simps [simp]: "tally P [] = 0" "tally P (xs @ ys) = tally P xs + tally P ys" "tally P [x] = (if P x then 1 else 0)"
  by (simp_all add: tally_def)

lemma tally_pos: "0 < tally P xs \<longleftrightarrow> (\<exists>i < length xs. P (xs ! i))"
  by (auto simp: tally_def filter_empty_conv in_set_conv_nth) (metis nth_mem)

primrec linked :: "'j one_thread list \<Rightarrow> nat option \<Rightarrow> nat list \<Rightarrow> bool" where
  "linked ts h [] \<longleftrightarrow> h = None"
| "linked ts h (i # xs) \<longleftrightarrow> h = Some i \<and> i < length ts \<and> linked ts (next_thread (ts ! i)) xs"

lemma linked_upd: "i \<notin> set xs \<Longrightarrow> linked (ts[i := y]) h xs = linked ts h xs"
  by (induction xs arbitrary: h) auto

lemma linked_upd_next: "next_thread y = next_thread (ts ! i) \<Longrightarrow> linked (ts[i := y]) h xs = linked ts h xs"
proof (induction xs arbitrary: h)
  case (Cons k xs)
  have "next_thread (ts[i := y] ! k) = next_thread (ts ! k)" if "k < length ts"
    using Cons.prems that by (cases "i = k") simp_all
  then show ?case using Cons.IH [OF Cons.prems] by (simp cong: conj_cong)
qed simp

lemma linked_append: "linked ts h xs \<Longrightarrow> linked (ts @ us) h xs"
  by (induction xs arbitrary: h) (auto simp: nth_append)

lemma linked_less: "linked ts h xs \<Longrightarrow> i \<in> set xs \<Longrightarrow> i < length ts"
  by (induction xs arbitrary: h) auto

fun held_thread :: "'j client_pc \<Rightarrow> nat option" where
  "held_thread (CTaken j t) = Some t"
| "held_thread (CAssign j t) = Some t"
| "held_thread (CWake j t) = Some t"
| "held_thread _ = None"

definition parked :: "worker_pc \<Rightarrow> bool" where
  "parked pc \<longleftrightarrow> pc \<in> {WPushed, WReady, WWait}"

definition places :: "'j pool \<Rightarrow> nat list \<Rightarrow> nat \<Rightarrow> nat" where
  "places s xs i = count_list xs i + tally (\<lambda>pc. held_thread pc = Some i) (clients s) + threadWait (oneThreads s ! i)
     + (if parked (pc_of s i) then 0 else 1)"

definition posting :: "'j one_thread \<Rightarrow> bool" where
  "posting t \<longleftrightarrow> wPc t \<in> {WPushed, WReady}"

definition taking :: "'j client_pc \<Rightarrow> bool" where
  "taking pc \<longleftrightarrow> (case pc of CList _ \<Rightarrow> True | CTake _ \<Rightarrow> True | _ \<Rightarrow> False)"

definition list_ok :: "'j pool \<Rightarrow> nat list \<Rightarrow> bool" where
  "list_ok s xs \<longleftrightarrow> linked (oneThreads s) (mListHead s) xs \<and> (\<forall>i < length (oneThreads s). places s xs i = 1)
     \<and> length xs = mReadyThreads s + tally posting (oneThreads s) + tally taking (clients s)
     \<and> (\<forall>c < length (clients s). \<forall>t. held_thread (clients s ! c) = Some t \<longrightarrow> t < length (oneThreads s))"

lemma running_place:
  assumes "list_ok s xs" "i < length (oneThreads s)" "\<not> parked (pc_of s i)"
  shows "i \<notin> set xs" "threadWait (oneThreads s ! i) = 0" "tally (\<lambda>pc. held_thread pc = Some i) (clients s) = 0"
  using assms count_list_0_iff [of xs i] by (auto simp: list_ok_def places_def)

lemma list_worker_push:
  assumes ok: "list_ok s xs" and i: "i < length (oneThreads s)" and pc: "pc_of s i = WPush"
  shows "list_ok (w_goto i WPushed ((upd_thread i (\<lambda>t. t\<lparr>next_thread := mListHead s\<rparr>) s)\<lparr>mListHead := Some i\<rparr>)) (i # xs)"
proof -
  have "i \<notin> set xs" using running_place(1) [OF ok i] pc by (simp add: parked_def)
  then show ?thesis
    using ok i pc by (auto simp: list_ok_def places_def parked_def posting_def linked_upd nth_list_update tally_upd_more)
qed

lemma list_worker_same:
  assumes ok: "list_ok s xs" and i: "i < length (oneThreads s)" and step: "w_step i s s'" and pc: "pc_of s i \<noteq> WPush"
  shows "list_ok s' xs"
  using step
proof cases
  case w_ready
  then show ?thesis
    using ok i tally_upd_less [OF i, of posting "(oneThreads s ! i)\<lparr>wPc := WWait\<rparr>"]
    by (auto simp: list_ok_def places_def parked_def posting_def linked_upd_next nth_list_update)
qed (use ok i pc in \<open>auto simp: list_ok_def places_def parked_def posting_def linked_upd_next nth_list_update tally_upd_same\<close>)

lemma list_client_take:
  assumes ok: "list_ok s xs" and c: "c < length (clients s)" and pc: "clients s ! c = CTake j"
  obtains t ts where "mListHead s = Some t" "xs = t # ts"
    "list_ok (c_goto c (CTaken j t) (s\<lparr>mListHead := next_thread (oneThreads s ! t)\<rparr>)) ts"
proof -
  have "0 < tally taking (clients s)" using c pc by (auto simp: tally_pos taking_def)
  then have "0 < length xs" using ok by (simp add: list_ok_def)
  then obtain t ts where xs: "xs = t # ts" by (cases xs) auto
  have t: "mListHead s = Some t" "t < length (oneThreads s)" using ok xs by (simp_all add: list_ok_def)
  have "Suc (tally taking ((clients s)[c := CTaken j t])) = tally taking (clients s)"
    by (rule tally_upd_less [OF c]) (simp_all add: pc taking_def)
  moreover have "tally (\<lambda>pc. held_thread pc = Some i) ((clients s)[c := CTaken j t])
      = tally (\<lambda>pc. held_thread pc = Some i) (clients s) + (if i = t then 1 else 0)" for i
    using tally_upd [OF c, of "\<lambda>pc. held_thread pc = Some i" "CTaken j t"] by (auto simp: pc)
  ultimately have "list_ok (c_goto c (CTaken j t) (s\<lparr>mListHead := next_thread (oneThreads s ! t)\<rparr>)) ts"
    using ok xs t c by (auto simp: list_ok_def places_def nth_list_update split: if_splits)
  then show ?thesis using that t xs by blast
qed

lemma held_place:
  assumes ok: "list_ok s xs" and c: "c < length (clients s)" and t: "held_thread (clients s ! c) = Some t"
  shows "t < length (oneThreads s)" "t \<notin> set xs" "threadWait (oneThreads s ! t) = 0" "parked (pc_of s t)"
    "tally (\<lambda>pc. held_thread pc = Some t) (clients s) = 1"
proof -
  show len: "t < length (oneThreads s)" using ok c t by (auto simp: list_ok_def)
  have pos: "0 < tally (\<lambda>pc. held_thread pc = Some t) (clients s)" using c t by (auto simp: tally_pos)
  have one: "places s xs t = 1" using ok len by (simp add: list_ok_def)
  then have "count_list xs t = 0" using pos by (simp add: places_def)
  then show "t \<notin> set xs" by (simp add: count_list_0_iff)
  show "threadWait (oneThreads s ! t) = 0" "tally (\<lambda>pc. held_thread pc = Some t) (clients s) = 1"
    using one pos by (simp_all add: places_def)
  show "parked (pc_of s t)" using one pos by (simp add: places_def split: if_splits)
qed

lemma list_client_same:
  assumes ok: "list_ok s xs" and c: "c < length (clients s)" and step: "c_step c s s'" and pc: "\<And>j. clients s ! c \<noteq> CTake j"
  shows "list_ok s' xs"
  using step
proof cases
  case (c_ready j n)
  then show ?thesis
    using ok c tally_upd_more [OF c, of taking "CList j"]
    by (auto simp: list_ok_def places_def taking_def nth_list_update tally_upd_same)
next
  case (c_assign j t)
  then have "held_thread (clients s ! c) = Some t" by simp
  note held = held_place [OF ok c this]
  from held(2) have "count_list xs t = 0" by (simp add: count_list_0_iff)
  then show ?thesis
    using ok c c_assign held by (auto simp: list_ok_def places_def taking_def nth_list_update tally_upd_same linked_upd_next pc_upd_same posting_def)
next
  case (c_wake j t)
  then have "held_thread (clients s ! c) = Some t" by simp
  note held = held_place [OF ok c this]
  from held(2) have listed: "count_list xs t = 0" by (simp add: count_list_0_iff)
  have "tally (\<lambda>pc. held_thread pc = Some i) ((clients s)[c := CIdle])
      = (if i = t then 0 else tally (\<lambda>pc. held_thread pc = Some i) (clients s))" for i
    using tally_upd [OF c, of "\<lambda>pc. held_thread pc = Some i" CIdle] c_wake held(5) by auto
  then have "places s' xs i = 1" if "i < length (oneThreads s)" for i
    using ok that c_wake(1) held listed by (cases "i = t") (simp_all add: list_ok_def places_def)
  then show ?thesis
    using ok c c_wake by (auto simp: list_ok_def taking_def nth_list_update tally_upd_same linked_upd_next posting_def)
qed (use ok c pc in \<open>auto simp: list_ok_def places_def taking_def nth_list_update tally_upd_same\<close>)

lemma list_creator:
  assumes ok: "list_ok s xs" and step: "a_step s s'"
  shows "list_ok s' xs"
  using step
proof cases
  case (a_create k)
  let ?n = "length (oneThreads s)"
  have "\<not> (\<exists>c < length (clients s). held_thread (clients s ! c) = Some ?n)" using ok by (auto simp: list_ok_def)
  then have held: "tally (\<lambda>pc. held_thread pc = Some ?n) (clients s) = 0"
    using tally_pos [of "\<lambda>pc. held_thread pc = Some ?n" "clients s"] by (metis gr0I)
  have "?n \<notin> set xs" using ok linked_less [of "oneThreads s" "mListHead s" xs ?n] by (auto simp: list_ok_def)
  then have listed: "count_list xs ?n = 0" by (simp add: count_list_0_iff)
  have "places s' xs i = 1" if "i < Suc ?n" for i
    using ok that a_create(1) held listed
    by (cases "i = ?n") (simp_all add: list_ok_def places_def nth_append one_thread_new_def parked_def)
  then show ?thesis
    using ok a_create by (auto simp: list_ok_def linked_append posting_def one_thread_new_def less_Suc_eq)
qed (use ok in \<open>auto simp: list_ok_def places_def\<close>)

section \<open>The count of the working threads\<close>

definition counted :: "'j one_thread \<Rightarrow> bool" where
  "counted t \<longleftrightarrow> wPc t \<in> {WLeave, WRun, WExit, WDec}"

definition holding :: "'j one_thread \<Rightarrow> bool" where
  "holding t \<longleftrightarrow> counted t \<or> wPc t \<in> {WInc, WFinished}"

text \<open>\<open>mFinishedLock\<close> is held from the first thread's count to the last one's, or by one waiting client.\<close>

definition count_ok :: "'j pool \<Rightarrow> bool" where
  "count_ok s \<longleftrightarrow> mWorkingCount s = int (tally counted (oneThreads s))
     \<and> (\<forall>i < length (oneThreads s). pc_of s i \<in> {WFinish, WFinished} \<longrightarrow> mWorkingCount s = 0)
     \<and> (if tally holding (oneThreads s) = 0 then 0 else 1) + tally (\<lambda>pc. pc = CWaited) (clients s)
        = (if mFinishedLock s = None then 0 else 1)"

lemma tally_mono: "(\<And>x. P x \<Longrightarrow> Q x) \<Longrightarrow> tally P xs \<le> tally Q xs"
  by (induction xs) (auto simp: tally_def)

lemma tally_zero: "(\<And>i. i < length xs \<Longrightarrow> \<not> P (xs ! i)) \<Longrightarrow> tally P xs = 0"
  using tally_pos [of P xs] by auto

lemma counted_holding: "tally counted ts \<le> tally holding ts"
  by (rule tally_mono) (simp add: holding_def)

lemma count_alone:
  assumes "locks_ok s" "i < length (oneThreads s)" "k < length (oneThreads s)"
    "pc_of s i \<in> {WTest, WFinish, WInc, WLeave, WDec, WFinished, WOut}" "pc_of s k \<in> {WTest, WFinish, WInc, WLeave, WDec, WFinished, WOut}"
  shows "k = i"
proof -
  have "count_cs s (Worker i)" "count_cs s (Worker k)" using assms by simp_all
  then have "mWorkingCountLock s = Some (Worker i)" "mWorkingCountLock s = Some (Worker k)"
    using assms(1) unfolding locks_ok_def owns_def by blast+
  then show ?thesis by simp
qed

lemma finished_last:
  assumes locks: "locks_ok s" and ok: "count_ok s" and i: "i < length (oneThreads s)" and pc: "pc_of s i = WFinished"
  shows "tally holding ((oneThreads s)[i := (oneThreads s ! i)\<lparr>wPc := WOut\<rparr>]) = 0"
proof (rule tally_zero)
  have none: "tally counted (oneThreads s) = 0" using ok i pc by (auto simp: count_ok_def)
  fix k assume k: "k < length ((oneThreads s)[i := (oneThreads s ! i)\<lparr>wPc := WOut\<rparr>])"
  have "\<not> counted (oneThreads s ! k)" using none tally_pos [of counted "oneThreads s"] k by auto
  then show "\<not> holding ((oneThreads s)[i := (oneThreads s ! i)\<lparr>wPc := WOut\<rparr>] ! k)"
    using i k count_alone [OF locks i, of k] pc by (auto simp: holding_def counted_def nth_list_update)
qed

text \<open>A thread that is not the last one leaves \<open>mFinishedLock\<close> to the others.\<close>

lemma count_dec:
  assumes locks: "locks_ok s" and ok: "count_ok s" and i: "i < length (oneThreads s)"
    and pc: "pc_of s i = WDec" "mWorkingCount s \<noteq> 1"
  shows "count_ok (w_goto i WOut (s\<lparr>mWorkingCount := mWorkingCount s - 1\<rparr>))"
proof -
  let ?x = "(oneThreads s ! i)\<lparr>wPc := WOut\<rparr>"
  have c: "Suc (tally counted ((oneThreads s)[i := ?x])) = tally counted (oneThreads s)"
    by (rule tally_upd_less [OF i]) (simp_all add: counted_def pc)
  have "0 < tally counted ((oneThreads s)[i := ?x])" using ok c pc(2) by (auto simp: count_ok_def)
  then have h: "0 < tally holding ((oneThreads s)[i := ?x])" using counted_holding [of "(oneThreads s)[i := ?x]"] by simp
  have "0 < tally holding (oneThreads s)" using counted_holding [of "oneThreads s"] c by simp
  moreover have "pc_of s k \<notin> {WFinish, WFinished}" if "k < length (oneThreads s)" for k
    using count_alone [OF locks i that] pc(1) by auto
  ultimately show ?thesis
    using ok i c h by (auto simp: count_ok_def nth_list_update)
qed

lemma count_worker:
  assumes locks: "locks_ok s" and ok: "count_ok s" and i: "i < length (oneThreads s)" and step: "w_step i s s'"
  shows "count_ok s'"
  using step
proof cases
  case w_test
  have "0 < tally holding (oneThreads s)" using ok w_test(3) counted_holding [of "oneThreads s"] by (simp add: count_ok_def)
  then show ?thesis
    using ok i w_test tally_upd_more [OF i, of holding "(oneThreads s ! i)\<lparr>wPc := WInc\<rparr>"]
    by (auto simp: count_ok_def counted_def holding_def nth_list_update tally_upd_same)
next
  case w_finish
  then show ?thesis
    using ok i tally_upd_more [OF i, of holding "(oneThreads s ! i)\<lparr>wPc := WInc\<rparr>"]
    by (auto simp: count_ok_def counted_def holding_def nth_list_update tally_upd_same split: if_splits)
next
  case w_inc
  have "pc_of s k \<notin> {WFinish, WFinished}" if "k < length (oneThreads s)" for k
    using count_alone [OF locks i that] w_inc(2) by auto
  then show ?thesis
    using ok i w_inc tally_upd_more [OF i, of counted "(oneThreads s ! i)\<lparr>wPc := WLeave\<rparr>"]
    by (auto simp: count_ok_def counted_def holding_def nth_list_update tally_upd_same)
next
  case w_dec_last
  then show ?thesis
    using ok i tally_upd_less [OF i, of counted "(oneThreads s ! i)\<lparr>wPc := WFinished\<rparr>"]
    by (auto simp: count_ok_def counted_def holding_def nth_list_update tally_upd_same)
next
  case w_dec
  then show ?thesis using count_dec [OF locks ok i] by simp
next
  case w_finished
  let ?x = "(oneThreads s ! i)\<lparr>wPc := WOut\<rparr>"
  have "0 < tally holding (oneThreads s)" using i w_finished by (auto simp: tally_pos holding_def)
  moreover have "tally holding ((oneThreads s)[i := ?x]) = 0" by (rule finished_last [OF locks ok i w_finished(2)])
  moreover have "tally counted ((oneThreads s)[i := ?x]) = tally counted (oneThreads s)"
    by (rule tally_upd_same) (simp add: counted_def w_finished)
  ultimately show ?thesis using ok i w_finished by (auto simp: count_ok_def nth_list_update split: if_splits)
qed (use ok i in \<open>auto simp: count_ok_def counted_def holding_def nth_list_update tally_upd_same\<close>)

lemma count_client:
  assumes ok: "count_ok s" and c: "c < length (clients s)" and step: "c_step c s s'"
  shows "count_ok s'"
proof -
  have t: "tally counted (oneThreads s') = tally counted (oneThreads s) \<and> tally holding (oneThreads s') = tally holding (oneThreads s)"
    using step by cases (auto simp: tally_upd_same counted_def holding_def)
  have p: "pc_of s' k = pc_of s k \<and> length (oneThreads s') = length (oneThreads s) \<and> mWorkingCount s' = mWorkingCount s" for k
    using step by cases (auto simp: pc_upd_same)
  show ?thesis
    using step
  proof cases
    case c_wait
    then show ?thesis
      using ok t p tally_upd_more [OF c, of "\<lambda>pc. pc = CWaited" CWaited] by (auto simp: count_ok_def split: if_splits)
  next
    case c_waited
    then show ?thesis
      using ok t p tally_upd_less [OF c, of "\<lambda>pc. pc = CWaited" CIdle] by (auto simp: count_ok_def split: if_splits)
  qed (use ok t p in \<open>auto simp: count_ok_def tally_upd_same\<close>)
qed

lemma count_creator:
  assumes "count_ok s" "a_step s s'"
  shows "count_ok s'"
  using assms(2)
proof cases
qed (use assms(1) in \<open>auto simp: count_ok_def nth_append one_thread_new_def counted_def holding_def less_Suc_eq\<close>)

section \<open>The jobs\<close>

lemma sum_upd:
  fixes f :: "'a \<Rightarrow> 'b::comm_monoid_add"
  shows "i < length xs \<Longrightarrow> sum_list (map f (xs[i := y])) + f (xs ! i) = sum_list (map f xs) + f y"
proof (induction xs arbitrary: i)
  case (Cons x xs)
  show ?case
  proof (cases i)
    case (Suc k)
    then show ?thesis using Cons.IH [of k] Cons.prems by (simp add: add.assoc)
  qed (simp add: ac_simps)
qed simp

lemma sum_upd_same: "f y = f (xs ! i) \<Longrightarrow> sum_list (map f (xs[i := y])) = sum_list (map f xs)"
  for f :: "'a \<Rightarrow> 'b::cancel_comm_monoid_add"
  using sum_upd [of i xs f y] by (cases "i < length xs") (auto simp: not_less list_update_beyond)

lemma sum_none: "(\<And>x. x \<in> set xs \<Longrightarrow> f x = 0) \<Longrightarrow> sum_list (map f xs) = 0"
  for f :: "'a \<Rightarrow> 'b::comm_monoid_add"
  by (induction xs) auto

definition pending :: "'j one_thread \<Rightarrow> bool" where
  "pending t \<longleftrightarrow> 0 < threadWait t \<or> wPc t \<in> {WEnter, WTest, WFinish, WInc, WLeave, WRun}"

definition worker_job :: "'j one_thread \<Rightarrow> 'j multiset" where
  "worker_job t = (if pending t then (case functor_of t of Some j \<Rightarrow> {#j#} | None \<Rightarrow> {#}) else {#})"

fun client_job :: "'j client_pc \<Rightarrow> 'j multiset" where
  "client_job (CReady j) = {#j#}"
| "client_job (CList j) = {#j#}"
| "client_job (CTake j) = {#j#}"
| "client_job (CTaken j t) = {#j#}"
| "client_job (CAssign j t) = {#j#}"
| "client_job (CWake j t) = {#j#}"
| "client_job _ = {#}"

definition jobs_ok :: "'j pool \<Rightarrow> bool" where
  "jobs_ok s \<longleftrightarrow> mset (started s) = mset (executed s) + sum_list (map worker_job (oneThreads s)) + sum_list (map client_job (clients s))
     \<and> (\<forall>i < length (oneThreads s). pending (oneThreads s ! i) \<longrightarrow> functor_of (oneThreads s ! i) \<noteq> None)
     \<and> (\<forall>c < length (clients s). \<forall>j t. clients s ! c = CWake j t \<longrightarrow> functor_of (oneThreads s ! t) = Some j)"

lemma jobs_worker:
  assumes place: "list_ok s xs" and ok: "jobs_ok s" and i: "i < length (oneThreads s)" and step: "w_step i s s'"
  shows "jobs_ok s'"
  using step
proof cases
  case (w_run job)
  have "threadWait (oneThreads s ! i) = 0" using running_place(2) [OF place i] w_run(2) by (simp add: parked_def)
  then show ?thesis
    using ok i w_run sum_upd [OF i, of worker_job "(oneThreads s ! i)\<lparr>wPc := WExit\<rparr>"]
    by (auto simp: jobs_ok_def worker_job_def pending_def nth_list_update)
qed (use ok i in \<open>auto simp: jobs_ok_def worker_job_def pending_def nth_list_update sum_upd_same\<close>)

lemma held_other:
  assumes "list_ok s xs" "c < length (clients s)" "c' < length (clients s)" "held_thread (clients s ! c) = Some t"
    "held_thread (clients s ! c') = Some t"
  shows "c' = c"
proof (rule ccontr)
  assume other: "c' \<noteq> c"
  let ?P = "\<lambda>pc. held_thread pc = Some t"
  have "Suc (tally ?P ((clients s)[c := CIdle])) = tally ?P (clients s)" by (rule tally_upd_less) (use assms in auto)
  moreover have "0 < tally ?P ((clients s)[c := CIdle])" using assms other by (auto simp: tally_pos nth_list_update intro!: exI [of _ c'])
  ultimately show False using held_place(5) [OF assms(1,2,4)] by simp
qed

lemma jobs_client:
  assumes place: "list_ok s xs" and ok: "jobs_ok s" and c: "c < length (clients s)" and step: "c_step c s s'"
  shows "jobs_ok s'"
  using step
proof cases
  case (c_assign j t)
  then have h: "held_thread (clients s ! c) = Some t" by simp
  note held = held_place [OF place c h]
  have idle: "\<not> pending (oneThreads s ! t)" using held(3,4) by (auto simp: pending_def parked_def)
  have "functor_of (oneThreads s ! u) = Some k \<and> u \<noteq> t" if "d < length (clients s)" "d \<noteq> c" "clients s ! d = CWake k u" for d k u
    using ok that held_other [OF place c that(1) h] by (auto simp: jobs_ok_def)
  then show ?thesis
    using ok c c_assign held(1) idle
    by (auto simp: jobs_ok_def worker_job_def pending_def nth_list_update sum_upd_same)
next
  case (c_wake j t)
  then have h: "held_thread (clients s ! c) = Some t" by simp
  note held = held_place [OF place c h]
  have idle: "\<not> pending (oneThreads s ! t)" using held(3,4) by (auto simp: pending_def parked_def)
  have j: "functor_of (oneThreads s ! t) = Some j" using ok c c_wake(2) by (auto simp: jobs_ok_def)
  let ?x = "(oneThreads s ! t)\<lparr>threadWait := Suc (threadWait (oneThreads s ! t))\<rparr>"
  have "sum_list (map worker_job ((oneThreads s)[t := ?x])) = sum_list (map worker_job (oneThreads s)) + {#j#}"
    using sum_upd [OF held(1), of worker_job ?x] idle j by (simp add: worker_job_def pending_def)
  moreover have "sum_list (map client_job ((clients s)[c := CIdle])) + {#j#} = sum_list (map client_job (clients s))"
    using sum_upd [OF c, of client_job CIdle] c_wake(2) by simp
  ultimately show ?thesis
    using ok c c_wake held(1) j by (auto simp: jobs_ok_def nth_list_update ac_simps)
qed (use ok c in \<open>auto simp: jobs_ok_def nth_list_update sum_upd_same\<close>)

lemma jobs_creator:
  assumes place: "list_ok s xs" and ok: "jobs_ok s" and step: "a_step s s'"
  shows "jobs_ok s'"
  using step
proof cases
  case (a_create k)
  then show ?thesis
    using ok place by (auto simp: jobs_ok_def list_ok_def nth_append one_thread_new_def worker_job_def pending_def less_Suc_eq)
qed (use ok in \<open>auto simp: jobs_ok_def\<close>)

section \<open>What holds in every state\<close>

fun creator_left :: "creator_pc \<Rightarrow> nat" where
  "creator_left (AddAcquire k) = k"
| "creator_left (AddCreate k) = k"
| "creator_left (AddRelease k) = k - 1"
| "creator_left Constructed = 0"

definition creator_ok :: "nat \<Rightarrow> 'j pool \<Rightarrow> bool" where
  "creator_ok n s \<longleftrightarrow> length (oneThreads s) + creator_left (creator s) = n
     \<and> (case creator s of AddAcquire k \<Rightarrow> 0 < k | AddCreate k \<Rightarrow> 0 < k | AddRelease k \<Rightarrow> 0 < k | Constructed \<Rightarrow> True)"

definition pool_ok :: "nat \<Rightarrow> 'j pool \<Rightarrow> bool" where
  "pool_ok n s \<longleftrightarrow> locks_ok s \<and> (\<exists>xs. list_ok s xs) \<and> count_ok s \<and> jobs_ok s \<and> creator_ok n s"

lemma creator_worker: "w_step i s s' \<Longrightarrow> creator_ok n s' = creator_ok n s"
  by (auto simp: creator_ok_def elim: w_step.cases)

lemma creator_client: "c_step c s s' \<Longrightarrow> creator_ok n s' = creator_ok n s"
  by (auto simp: creator_ok_def elim: c_step.cases)

lemma creator_creator: "creator_ok n s \<Longrightarrow> a_step s s' \<Longrightarrow> creator_ok n s'"
  by (erule a_step.cases) (auto simp: creator_ok_def add_next_def)

lemma list_worker:
  assumes "list_ok s xs" "i < length (oneThreads s)" "w_step i s s'"
  shows "\<exists>ys. list_ok s' ys"
proof (cases "pc_of s i = WPush")
  case True
  then have "s' = w_goto i WPushed ((upd_thread i (\<lambda>t. t\<lparr>next_thread := mListHead s\<rparr>) s)\<lparr>mListHead := Some i\<rparr>)"
    using assms(3) True by (auto elim: w_step.cases)
  then show ?thesis using list_worker_push [OF assms(1,2) True] by blast
next
  case False
  then show ?thesis using list_worker_same [OF assms] by blast
qed

lemma list_client:
  assumes "list_ok s xs" "c < length (clients s)" "c_step c s s'"
  shows "\<exists>ys. list_ok s' ys"
proof (cases "\<exists>j. clients s ! c = CTake j")
  case True
  then obtain j where j: "clients s ! c = CTake j" by blast
  obtain t ts where t: "mListHead s = Some t"
    "list_ok (c_goto c (CTaken j t) (s\<lparr>mListHead := next_thread (oneThreads s ! t)\<rparr>)) ts"
    using list_client_take [OF assms(1,2) j] by metis
  then have "s' = c_goto c (CTaken j t) (s\<lparr>mListHead := next_thread (oneThreads s ! t)\<rparr>)"
    using assms(3) j by (auto elim: c_step.cases)
  then show ?thesis using t(2) by blast
next
  case False
  then show ?thesis using list_client_same [OF assms] by blast
qed

text \<open>The two calls.\<close>

lemma pool_ok_call:
  assumes ok: "pool_ok n s" and c: "c < length (clients s)" "clients s ! c = CIdle" and s': "clients s' = (clients s)[c := pc]"
    and pc: "pc = CWait \<and> started s' = started s \<or> (\<exists>j. pc = CReady j \<and> started s' = started s @ [j])"
    and same: "oneThreads s' = oneThreads s" "mReadyThreads s' = mReadyThreads s" "mListLock s' = mListLock s"
      "mWorkingCountLock s' = mWorkingCountLock s" "mFinishedLock s' = mFinishedLock s" "mListHead s' = mListHead s"
      "mWorkingCount s' = mWorkingCount s" "creator s' = creator s" "executed s' = executed s"
  shows "pool_ok n s'"
proof -
  obtain xs where xs: "list_ok s xs" using ok by (auto simp: pool_ok_def)
  have "locks_ok s'"
    using ok c pc s' same by (auto simp: pool_ok_def locks_ok_def cs_client [where c = c and s = s and pc = pc] owns_same)
  moreover have "list_ok s' xs"
    using xs c pc s' same by (auto simp: list_ok_def places_def taking_def nth_list_update tally_upd_same)
  moreover have "tally (\<lambda>pc. pc = CWaited) (clients s') = tally (\<lambda>pc. pc = CWaited) (clients s)"
    using c pc s' by (auto simp: tally_upd_same)
  then have "count_ok s' = count_ok s" by (simp add: count_ok_def same)
  then have "count_ok s'" using ok by (simp add: pool_ok_def)
  moreover have "sum_list (map client_job (clients s')) = sum_list (map client_job (clients s)) + client_job pc"
    using sum_upd [OF c(1), of client_job pc] c(2) s' by simp
  then have "jobs_ok s'"
    using ok c pc s' same by (auto simp: pool_ok_def jobs_ok_def nth_list_update)
  moreover have "creator_ok n s'" using ok same by (simp add: pool_ok_def creator_ok_def)
  ultimately show ?thesis by (auto simp: pool_ok_def)
qed

lemma pool_ok_thread:
  assumes ok: "pool_ok n s" and run: "pool_thread False s (Inr s')"
  shows "pool_ok n s'"
proof -
  obtain xs where xs: "list_ok s xs" using ok by (auto simp: pool_ok_def)
  note facts = ok [unfolded pool_ok_def]
  show ?thesis
    using run
  proof cases
    case (by_worker i)
    note step = worker_steps [OF by_worker(2)]
    show ?thesis
      using facts list_worker [OF xs by_worker(1) step] locks_worker [OF _ by_worker(1) step] count_worker [OF _ _ by_worker(1) step]
        jobs_worker [OF xs _ by_worker(1) step] creator_worker [OF step] by (auto simp: pool_ok_def)
  next
    case (by_client c)
    note step = client_steps [OF by_client(2)]
    show ?thesis
      using facts list_client [OF xs by_client(1) step] locks_client [OF _ by_client(1) step] count_client [OF _ by_client(1) step]
        jobs_client [OF xs _ by_client(1) step] creator_client [OF step] by (auto simp: pool_ok_def)
  next
    case by_creator
    note step = creator_steps [OF by_creator]
    show ?thesis
      using facts list_creator [OF xs step] locks_creator [OF _ step] count_creator [OF _ step] jobs_creator [OF xs _ step]
        creator_creator [OF _ step] by (auto simp: pool_ok_def)
  qed
qed

lemma pool_ok_step: "pool_ok n s \<Longrightarrow> pool_step False s s' \<Longrightarrow> pool_ok n s'"
proof (erule pool_step.cases)
  show "pool_ok n s'" if "pool_ok n s" "s = t" "s' = t'" "pool_thread False t (Inr t')" for t t'
    using that pool_ok_thread by blast
qed (auto simp: startFunc_def wait_call_def elim: pool_ok_call)

lemma pool_new_ok:
  assumes "pool_new False n m = Inr s"
  shows "pool_ok n s"
proof -
  have s: "s = \<lparr>mReadyThreads = 0, mListLock = None, mWorkingCountLock = None, mFinishedLock = None, mListHead = None,
      mWorkingCount = 0, oneThreads = [], creator = add_next n, clients = replicate m CIdle, started = [], executed = []\<rparr>"
    using assms by (simp add: pool_new_def mutex_release_def)
  have "\<not> list_cs s t \<and> \<not> count_cs s t" for t by (cases t) (auto simp: s add_next_def)
  then have "locks_ok s" by (simp add: locks_ok_def owns_def) (simp add: s)
  moreover have "list_ok s []" by (auto simp: s list_ok_def tally_def taking_def)
  moreover have "count_ok s" by (auto simp: s count_ok_def tally_def)
  moreover have "sum_list (replicate m {#}) = ({#} :: 'j multiset)" for m by (induction m) simp_all
  then have "jobs_ok s" by (simp add: s jobs_ok_def)
  moreover have "creator_ok n s" by (simp add: s creator_ok_def add_next_def)
  ultimately show ?thesis by (auto simp: pool_ok_def)
qed

interpretation pool: transition_system "\<lambda>s. pool_new False n m = Inr s" "pool_step False" "pool_ok n" for n m
  by unfold_locales (auto intro: pool_new_ok pool_ok_step)

section \<open>The pool finishes its jobs\<close>

text \<open>No thread calls an empty function or takes a thread from an empty list.\<close>

lemma pool_never_fails:
  assumes "pool_ok n s" "pool_thread False s r"
  shows "\<exists>s'. r = Inr s'"
proof -
  obtain xs where xs: "list_ok s xs" using assms(1) by (auto simp: pool_ok_def)
  show ?thesis
    using assms(2)
  proof cases
    case (by_worker i)
    have "functor_of (oneThreads s ! i) \<noteq> None" if "pc_of s i = WRun"
      using assms(1) by_worker(1) that by (simp add: pool_ok_def jobs_ok_def pending_def)
    then show ?thesis
      using by_worker(2) by (cases "pc_of s i") (auto simp: worker_step_def threadSleep_step_def Let_def split: if_splits option.splits)
  next
    case (by_client c)
    have "mListHead s \<noteq> None" if "clients s ! c = CTake j" for j
      using list_client_take [OF xs by_client(1) that] by (metis option.distinct(1))
    then show ?thesis
      using by_client(2) by (cases "clients s ! c") (auto simp: client_step_def getThread_step_def Let_def split: if_splits option.splits)
  next
    case by_creator
    then show ?thesis by (cases "creator s") (auto simp: creator_step_def split: if_splits)
  qed
qed

text \<open>What is left to do, in steps.\<close>

primrec worker_work :: "worker_pc \<Rightarrow> nat" where
  "worker_work WStart = 6"
| "worker_work WStarted = 5"
| "worker_work WSleep = 4"
| "worker_work WPush = 3"
| "worker_work WPushed = 2"
| "worker_work WReady = 1"
| "worker_work WWait = 0"
| "worker_work WEnter = 14"
| "worker_work WTest = 13"
| "worker_work WFinish = 12"
| "worker_work WInc = 11"
| "worker_work WLeave = 10"
| "worker_work WRun = 9"
| "worker_work WExit = 8"
| "worker_work WDec = 7"
| "worker_work WFinished = 6"
| "worker_work WOut = 5"

primrec client_work :: "'j client_pc \<Rightarrow> nat" where
  "client_work CIdle = 0"
| "client_work (CReady j) = 26"
| "client_work (CList j) = 25"
| "client_work (CTake j) = 24"
| "client_work (CTaken j t) = 23"
| "client_work (CAssign j t) = 22"
| "client_work (CWake j t) = 21"
| "client_work CWait = 2"
| "client_work CWaited = 1"

primrec creator_work :: "creator_pc \<Rightarrow> nat" where
  "creator_work (AddAcquire k) = 10 * k + 13"
| "creator_work (AddCreate k) = 10 * k + 12"
| "creator_work (AddRelease k) = 10 * k + 5"
| "creator_work Constructed = 0"

definition thread_work :: "'j one_thread \<Rightarrow> nat" where
  "thread_work t = worker_work (wPc t) + 20 * threadWait t"

definition pool_work :: "'j pool \<Rightarrow> nat" where
  "pool_work s = creator_work (creator s) + sum_list (map thread_work (oneThreads s)) + sum_list (map client_work (clients s))"

lemma work_worker:
  assumes i: "i < length (oneThreads s)" and step: "w_step i s s'"
  shows "pool_work s' < pool_work s"
proof -
  obtain x where x: "oneThreads s' = (oneThreads s)[i := x]" "thread_work x < thread_work (oneThreads s ! i)"
    and same: "creator s' = creator s" "clients s' = clients s"
    using step i by cases (auto simp: thread_work_def)
  show ?thesis using sum_upd [OF i, of thread_work x] x same by (simp add: pool_work_def)
qed

lemma work_client:
  assumes c: "c < length (clients s)" and ok: "list_ok s xs" and step: "c_step c s s'"
  shows "pool_work s' < pool_work s"
  using step
proof cases
  case (c_wake j t)
  have t: "t < length (oneThreads s)" using held_place(1) [OF ok c] c_wake(2) by simp
  show ?thesis
    using c_wake sum_upd [OF c, of client_work CIdle]
      sum_upd [OF t, of thread_work "(oneThreads s ! t)\<lparr>threadWait := Suc (threadWait (oneThreads s ! t))\<rparr>"]
    by (simp add: pool_work_def thread_work_def)
next
  case (c_assign j t)
  have "sum_list (map thread_work (oneThreads s')) = sum_list (map thread_work (oneThreads s))"
    using c_assign by (simp add: sum_upd_same thread_work_def)
  then show ?thesis using c_assign sum_upd [OF c, of client_work "CWake j t"] by (simp add: pool_work_def)
qed (use sum_upd [OF c, of client_work "clients s' ! c"] c in \<open>simp_all add: pool_work_def\<close>)

lemma work_creator: "a_step s s' \<Longrightarrow> pool_work s' < pool_work s"
  by (erule a_step.cases) (auto simp: pool_work_def add_next_def thread_work_def one_thread_new_def)

lemma pool_work_less:
  assumes ok: "pool_ok n s" and run: "pool_thread False s (Inr s')"
  shows "pool_work s' < pool_work s"
proof -
  obtain xs where xs: "list_ok s xs" using ok by (auto simp: pool_ok_def)
  show ?thesis
    using run by cases (auto dest!: worker_steps client_steps creator_steps intro: work_worker work_client [OF _ xs] work_creator)
qed

text \<open>Where a thread waits.\<close>

lemma worker_waits:
  "worker_step False i s = None \<longleftrightarrow> pc_of s i \<in> {WStart, WSleep} \<and> mListLock s \<noteq> None
     \<or> pc_of s i = WWait \<and> threadWait (oneThreads s ! i) = 0
     \<or> pc_of s i \<in> {WEnter, WExit} \<and> mWorkingCountLock s \<noteq> None \<or> pc_of s i = WFinish \<and> mFinishedLock s \<noteq> None"
  by (cases "pc_of s i") (auto simp: worker_step_def threadSleep_step_def Let_def sema_acquire_def split: option.splits)

lemma client_waits:
  "client_step False c s = None \<longleftrightarrow> clients s ! c = CIdle \<or> (\<exists>j. clients s ! c = CReady j) \<and> mReadyThreads s = 0
     \<or> (\<exists>j. clients s ! c = CList j) \<and> mListLock s \<noteq> None \<or> clients s ! c = CWait \<and> mFinishedLock s \<noteq> None"
  by (cases "clients s ! c") (auto simp: client_step_def getThread_step_def Let_def sema_acquire_def split: option.splits)

lemma creator_waits:
  "creator_step False s = None \<longleftrightarrow> creator s = Constructed \<or> (\<exists>k. creator s = AddAcquire k) \<and> mListLock s \<noteq> None"
  by (cases "creator s") (auto simp: creator_step_def)

definition pool_waits :: "'j pool \<Rightarrow> bool" where
  "pool_waits s \<longleftrightarrow> (\<forall>i < length (oneThreads s). worker_step False i s = None)
     \<and> (\<forall>c < length (clients s). client_step False c s = None) \<and> creator_step False s = None"

lemma pool_waits_iff: "pool_waits s \<longleftrightarrow> (\<nexists>r. pool_thread False s r)"
  unfolding pool_waits_def by (auto elim!: pool_thread.cases intro: by_worker by_client by_creator) (meson not_Some_eq pool_thread.intros)+

text \<open>A lock's owner is never one of them, except that \<open>WFinish\<close> may wait for a client's \<open>wait\<close>.\<close>

lemma waits_list_free:
  assumes "pool_ok n s" "pool_waits s"
  shows "mListLock s = None"
proof (rule ccontr)
  assume "mListLock s \<noteq> None"
  then obtain t where "list_cs s t" using assms(1) by (auto simp: pool_ok_def locks_ok_def owns_def)
  then show False
    using assms(2) by (cases t) (auto simp: pool_waits_def worker_waits client_waits creator_waits split: creator_pc.splits client_pc.splits)
qed

lemma waits_finished_client:
  assumes "pool_ok n s" "pool_waits s" "mFinishedLock s \<noteq> None"
  shows "tally holding (oneThreads s) \<noteq> 0"
proof
  assume "tally holding (oneThreads s) = 0"
  then have "0 < tally (\<lambda>pc. pc = CWaited) (clients s)" using assms(1,3) by (auto simp: pool_ok_def count_ok_def)
  then show False using assms(2) by (auto simp: tally_pos pool_waits_def client_waits)
qed

lemma waits_count_free:
  assumes ok: "pool_ok n s" and waits: "pool_waits s"
  shows "mWorkingCountLock s = None"
proof (rule ccontr)
  assume "mWorkingCountLock s \<noteq> None"
  then obtain t where t: "count_cs s t" using ok by (auto simp: pool_ok_def locks_ok_def owns_def)
  then obtain i where i: "count_cs s (Worker i)" by (cases t) auto
  then have fin: "i < length (oneThreads s)" "pc_of s i = WFinish" "mFinishedLock s \<noteq> None"
    using waits by (auto simp: pool_waits_def worker_waits)
  obtain k where k: "k < length (oneThreads s)" "holding (oneThreads s ! k)"
    using waits_finished_client [OF ok waits fin(3)] tally_pos [of holding "oneThreads s"] by auto
  have "tally counted (oneThreads s) = 0" using ok fin(1,2) by (auto simp: pool_ok_def count_ok_def)
  then have "\<not> counted (oneThreads s ! k)" using k(1) tally_pos [of counted "oneThreads s"] by auto
  then have pc: "pc_of s k \<in> {WInc, WFinished}" using k(2) by (simp add: holding_def)
  then have "k = i" using ok fin(1,2) k(1) by (intro count_alone [of s]) (auto simp: pool_ok_def)
  then show False using pc fin(2) by simp
qed

lemma waits_workers:
  assumes ok: "pool_ok n s" and waits: "pool_waits s" and i: "i < length (oneThreads s)"
  shows "pc_of s i = WWait \<and> threadWait (oneThreads s ! i) = 0"
proof -
  have list: "mListLock s = None" and count: "mWorkingCountLock s = None"
    using waits_list_free waits_count_free ok waits by blast+
  have "count_cs s (Worker i) \<longleftrightarrow> mWorkingCountLock s = Some (Worker i)"
    using ok unfolding pool_ok_def locks_ok_def owns_def by blast
  then show ?thesis using waits i list count by (auto simp: pool_waits_def worker_waits)
qed

lemma waits_clients:
  assumes ok: "pool_ok n s" and n: "0 < n" and waits: "pool_waits s" and c: "c < length (clients s)"
  shows "clients s ! c = CIdle"
proof -
  obtain xs where xs: "list_ok s xs" using ok by (auto simp: pool_ok_def)
  note w = waits_workers [OF ok waits]
  note l = waits_list_free [OF ok waits]
  have "tally holding (oneThreads s) = 0" using w by (intro tally_zero) (auto simp: holding_def counted_def)
  then have f: "mFinishedLock s = None" using waits_finished_client [OF ok waits] by blast
  have none: "held_thread (clients s ! d) = None \<and> \<not> taking (clients s ! d)" if "d < length (clients s)" for d
    using waits l that by (auto simp: pool_waits_def client_waits taking_def)
  have "creator s = Constructed" using waits l by (auto simp: pool_waits_def creator_waits)
  then have zero: "0 < length (oneThreads s)" using ok n by (simp add: pool_ok_def creator_ok_def)
  have "tally taking (clients s) = 0" "tally posting (oneThreads s) = 0" "tally (\<lambda>pc. held_thread pc = Some 0) (clients s) = 0"
    using none w by (auto intro!: tally_zero simp: posting_def)
  moreover have "places s xs 0 = 1" using xs zero by (simp add: list_ok_def)
  ultimately have "0 < mReadyThreads s" using xs w [OF zero] by (cases xs) (auto simp: list_ok_def places_def parked_def)
  then show ?thesis using waits c l f by (auto simp: pool_waits_def client_waits)
qed

lemma waits_all_run:
  assumes ok: "pool_ok n s" and n: "0 < n" and waits: "pool_waits s"
  shows "mset (executed s) = mset (started s)"
proof -
  have "sum_list (map worker_job (oneThreads s)) = {#}"
    by (rule sum_none) (auto simp: in_set_conv_nth worker_job_def pending_def dest!: waits_workers [OF ok waits])
  moreover have "sum_list (map client_job (clients s)) = {#}"
    by (rule sum_none) (auto simp: in_set_conv_nth dest!: waits_clients [OF ok n waits])
  ultimately show ?thesis using ok by (simp add: pool_ok_def jobs_ok_def)
qed

section \<open>What the pool promises\<close>

abbreviation pool_reach :: "nat \<Rightarrow> nat \<Rightarrow> 'j pool \<Rightarrow> bool" where
  "pool_reach n m \<equiv> reach (\<lambda>s. pool_new False n m = Inr s) (pool_step False)"

abbreviation pool_goes_on :: "'j pool \<Rightarrow> 'j pool \<Rightarrow> bool" where
  "pool_goes_on s s' \<equiv> pool_thread False s (Inr s')"

lemma thread_step_runs: "thread_step False t s = Some r \<Longrightarrow> pool_thread False s r"
  by (auto simp: thread_step_def intro: pool_thread.intros split: tid.splits if_splits)

lemma pool_sched_runs: "pool_sched ts s = Some s' \<Longrightarrow> (pool_goes_on ^^ length ts) s s'"
proof (induction ts arbitrary: s)
  case (Cons t ts)
  obtain u where "thread_step False t s = Some (Inr u)" "pool_sched ts u = Some s'"
    using Cons.prems by (auto split: option.splits sum.splits)
  then have "pool_goes_on s u" "(pool_goes_on ^^ length ts) u s'" using Cons.IH thread_step_runs by blast+
  then show ?case using relpowp_Suc_I2 by fastforce
qed simp

lemma pool_runs_reach: "(pool_goes_on ^^ k) s t \<Longrightarrow> pool_reach n m s \<Longrightarrow> pool_reach n m t"
  by (induction k arbitrary: t) (auto intro: reach.reach_step pool_runs)

lemma pool_runs_ok: "(pool_goes_on ^^ k) s t \<Longrightarrow> pool_ok n s \<Longrightarrow> pool_ok n t \<and> k + pool_work t \<le> pool_work s"
proof (induction k arbitrary: t)
  case (Suc k)
  obtain u where u: "(pool_goes_on ^^ k) s u" "pool_goes_on u t" using Suc.prems(1) by auto
  then show ?case using Suc.IH [OF u(1) Suc.prems(2)] pool_ok_thread [OF _ u(2)] pool_work_less [OF _ u(2)] by fastforce
qed simp

lemma thread_keeps_started: "pool_goes_on s s' \<Longrightarrow> started s' = started s"
  by (erule pool_thread.cases)
    (auto dest!: worker_steps client_steps creator_steps elim: w_step.cases c_step.cases a_step.cases)

lemma pool_runs_started: "(pool_goes_on ^^ k) s t \<Longrightarrow> started t = started s"
  by (induction k arbitrary: t) (auto dest: thread_keeps_started)

text \<open>
  C15. From any state a pool with a thread can get to, its threads take only finitely many steps on
  their own, none of which fails, and run no job twice; and where none of them can go on, every call
  of \<^verbatim>\<open>startFunc\<close> and \<^verbatim>\<open>wait\<close> has returned and every job that was started has been run.
\<close>

theorem pool_drains:
  fixes s :: "'j pool"
  assumes "pool_reach n m s" "0 < n" "(pool_goes_on ^^ k) s t"
  shows "k \<le> pool_work s \<and> (\<forall>r. pool_thread False t r \<longrightarrow> (\<exists>u. r = Inr u)) \<and> mset (executed t) \<subseteq># mset (started s)
    \<and> ((\<nexists>r. pool_thread False t r) \<longrightarrow>
        (\<forall>c < length (clients t). clients t ! c = CIdle) \<and> mset (executed t) = mset (started s))"
proof -
  have "pool_ok n s" by (rule pool.reach_inv [OF assms(1)])
  then have t: "pool_ok n t" "k \<le> pool_work s" using pool_runs_ok [OF assms(3), of n] by auto
  have same: "started t = started s" by (rule pool_runs_started [OF assms(3)])
  have "mset (executed t) \<subseteq># mset (started t)" using t(1) by (simp add: pool_ok_def jobs_ok_def add.assoc)
  then show ?thesis
    using t same pool_never_fails [OF t(1)] waits_clients [OF t(1) assms(2)] waits_all_run [OF t(1) assms(2)]
    by (auto simp: pool_waits_iff)
qed

text \<open>
  C36. When \<^verbatim>\<open>wait\<close> has taken \<open>mFinishedLock\<close>, no thread is counted as working and none runs a job.
\<close>

theorem wait_finds_no_worker:
  fixes s :: "'j pool"
  assumes "pool_reach n m s" "c < length (clients s)" "clients s ! c = CWaited" "i < length (oneThreads s)"
  shows "mWorkingCount s = 0 \<and> pc_of s i \<notin> {WLeave, WRun, WExit, WDec} \<and> mFinishedLock s \<noteq> None"
proof -
  have ok: "count_ok s" using pool.reach_inv [OF assms(1)] by (simp add: pool_ok_def)
  have "0 < tally (\<lambda>pc. pc = CWaited) (clients s)" using assms(2,3) by (auto simp: tally_pos)
  then have h: "tally holding (oneThreads s) = 0" "mFinishedLock s \<noteq> None" using ok by (auto simp: count_ok_def split: if_splits)
  then have "tally counted (oneThreads s) = 0" using counted_holding [of "oneThreads s"] by simp
  moreover from this have "\<not> counted (oneThreads s ! i)" using tally_pos [of counted "oneThreads s"] assms(4) by auto
  ultimately show ?thesis using ok h by (simp add: count_ok_def counted_def)
qed

section \<open>One thread, one client\<close>

lemma sched_reach: "pool_sched ts s = Some s' \<Longrightarrow> pool_reach n m s \<Longrightarrow> pool_reach n m s'"
  using pool_runs_reach pool_sched_runs by blast

definition pool_1 :: "nat pool" where
  "pool_1 = the (pool_sched [Creator, Creator, Creator]
     (case pool_new False 1 1 of Inr s \<Rightarrow> s))"

abbreviation worker_ready :: "tid list" where
  "worker_ready \<equiv> replicate 6 (Worker 0)"

abbreviation client_starts :: "tid list" where
  "client_starts \<equiv> replicate 6 (Client 0)"

lemmas pool_eval = pool_1_def pool_new_def mutex_release_def add_next_def thread_step_def creator_step_def worker_step_def threadSleep_step_def
  client_step_def getThread_step_def startFunc_def wait_call_def one_thread_new_def w_goto_def c_goto_def upd_thread_def sema_acquire_def numeral_nat

lemma pool_1_value: "pool_1 = \<lparr>mReadyThreads = 0, mListLock = None, mWorkingCountLock = None, mFinishedLock = None, mListHead = None,
    mWorkingCount = 0, oneThreads = [one_thread_new], creator = Constructed, clients = [CIdle], started = [], executed = []\<rparr>"
  by (simp add: pool_eval)

lemma pool_1_reach: "pool_reach 1 1 pool_1"
proof -
  obtain s where s: "pool_new False 1 1 = Inr (s :: nat pool)" by (simp add: pool_new_def mutex_release_def)
  have "pool_sched [Creator, Creator, Creator] s = Some pool_1"
    using s by (auto simp: pool_1_value pool_eval)
  then show ?thesis by (rule sched_reach) (rule reach.reach_init, rule s)
qed

lemma pool_1_started: "pool_reach 1 1 (startFunc 0 42 pool_1)"
  by (rule reach.reach_step [OF pool_1_reach pool_startFunc]) (simp_all add: pool_1_value)

theorem pool_drains_witness:
  "\<exists>t. (pool_goes_on ^^ 27) (startFunc 0 42 pool_1) t \<and> 27 \<le> pool_work (startFunc 0 42 pool_1)
     \<and> (\<nexists>r. pool_thread False t r) \<and> mset (executed t) = {#42#}"
proof -
  let ?ts = "worker_ready @ client_starts @ replicate 15 (Worker 0)"
  obtain t where t: "pool_sched ?ts (startFunc 0 42 pool_1) = Some t" "pool_waits t"
    by (simp add: pool_1_value pool_eval pool_waits_def)
  have run: "(pool_goes_on ^^ 27) (startFunc 0 42 pool_1) t" using pool_sched_runs [OF t(1)] by simp
  have "started (startFunc 0 42 pool_1) = [42]" by (simp add: startFunc_def pool_1_value)
  then show ?thesis
    using pool_drains [OF pool_1_started zero_less_one run] run t(2) by (auto simp: pool_waits_iff)
qed

theorem wait_finds_no_worker_witness:
  "\<exists>s. pool_sched [Client 0] (wait_call 0 pool_1) = Some s \<and> mWorkingCount s = 0 \<and> mFinishedLock s \<noteq> None"
proof -
  have "pool_reach 1 1 (wait_call 0 pool_1)"
    by (rule reach.reach_step [OF pool_1_reach pool_wait]) (simp_all add: pool_1_value)
  moreover obtain s where s: "pool_sched [Client 0] (wait_call 0 pool_1) = Some s" "clients s = [CWaited]" "length (oneThreads s) = 1"
    by (simp add: pool_1_value pool_eval)
  ultimately have "pool_reach 1 1 s" using sched_reach by blast
  then show ?thesis using wait_finds_no_worker [of 1 1 s 0 0] s by simp
qed

text \<open>
  \<^verbatim>\<open>wait\<close> returns while a job is waiting to be begun: its thread has been woken and is not yet
  counted when \<open>mFinishedLock\<close> is taken.
\<close>

theorem wait_misses_started_job:
  "\<exists>s t. pool_reach 1 1 s \<and> started s = [42 :: nat] \<and> clients s = [CIdle]
     \<and> pool_sched [Client 0, Client 0] (wait_call 0 s) = Some t \<and> clients t = [CIdle] \<and> executed t = []"
proof -
  obtain s where s: "pool_sched (worker_ready @ client_starts) (startFunc 0 42 pool_1) = Some s" "started s = [42]" "clients s = [CIdle]"
    "\<exists>t. pool_sched [Client 0, Client 0] (wait_call 0 s) = Some t \<and> clients t = [CIdle] \<and> executed t = []"
    by (simp add: pool_1_value pool_eval)
  then show ?thesis using sched_reach [OF s(1) pool_1_started] by blast
qed

text \<open>With mutexes that check their owner the constructor throws: it releases two mutexes that it has not acquired.\<close>

lemma pool_new_checked: "pool_new True n m = Inl (LockError ''Tried to release a mutex that this thread does not own'')"
  by (simp add: pool_new_def mutex_release_def)

end
